(* ===== verification/R2_Prelude.thy ===== *)
theory R2_Prelude
  imports Main "HOL-Library.Word" "HOL-Library.Char_ord" "HOL-Library.List_Lexorder"
    "HOL-Library.Product_Lexorder"
begin

text \<open>
  Shared vocabulary of the development: the machine integer types of the Rust source, the part
  of the standard library the crates use (\<open>format!\<close> of integers, \<open>from_str_radix\<close>,
  ASCII case mapping, trimming, prefix tests, saturating and checked arithmetic), and the list
  and option lemmas the component theories rely on.

  Strings are Rust's UTF-8 strings restricted to ASCII: a \<^typ>\<open>string\<close> is the list of
  their bytes. \<open>usize\<close> is \<^typ>\<open>nat\<close> (lengths and indices), \<open>u32\<close> and \<open>u64\<close>
  keep their width.
\<close>

type_synonym u8 = "8 word"
type_synonym u32 = "32 word"
type_synonym u64 = "64 word"
type_synonym i64 = "64 word"

text \<open>Collections of simplification rules that carry the component proofs.\<close>

named_theorems issue_simps \<open>when a validation check reports nothing\<close>
named_theorems op_simps \<open>unfolding of the operand accessors\<close>
named_theorems cfg_simps \<open>observations of the control flow graph after an update\<close>
named_theorems lattice_simps \<open>laws of the constant lattice\<close>

section \<open>Formatting and parsing of integers\<close>

definition digit_char :: "nat \<Rightarrow> char" where
  "digit_char d = char_of (if d < 10 then 48 + d else 87 + d)"

fun show_radix :: "nat \<Rightarrow> nat \<Rightarrow> string" where
  "show_radix r n =
     (if n < r \<or> r < 2 then [digit_char n]
      else show_radix r (n div r) @ [digit_char (n mod r)])"

declare show_radix.simps [simp del]

text \<open>The formats \<open>{}\<close> and \<open>{:x}\<close> of an unsigned integer.\<close>

definition show_dec :: "nat \<Rightarrow> string" where
  "show_dec n = show_radix 10 n"

definition show_hex :: "nat \<Rightarrow> string" where
  "show_hex n = show_radix 16 n"

definition digit_value :: "nat \<Rightarrow> char \<Rightarrow> nat option" where
  "digit_value r c =
     (let k = of_char c :: nat;
          v = (if 48 \<le> k \<and> k \<le> 57 then Some (k - 48)
               else if 97 \<le> k \<and> k \<le> 122 then Some (k - 87)
               else if 65 \<le> k \<and> k \<le> 90 then Some (k - 55)
               else None)
      in case v of Some d \<Rightarrow> (if d < r then Some d else None) | None \<Rightarrow> None)"

fun parse_digits :: "nat \<Rightarrow> nat \<Rightarrow> string \<Rightarrow> nat option" where
  "parse_digits r acc [] = Some acc"
| "parse_digits r acc (c # cs) =
     (case digit_value r c of None \<Rightarrow> None | Some d \<Rightarrow> parse_digits r (acc * r + d) cs)"

text \<open>
  \<open>u64::from_str_radix\<close>: an optional plus sign, at least one digit, no value above
  \<open>u64::MAX\<close>. An overflow of a prefix is an overflow of the whole, so the bound is tested on
  the final value.
\<close>

definition u64_from_str_radix :: "nat \<Rightarrow> string \<Rightarrow> u64 option" where
  "u64_from_str_radix r s =
     (let body = (case s of [] \<Rightarrow> [] | c # cs \<Rightarrow> if c = CHR ''+'' then cs else s)
      in if body = [] then None
         else case parse_digits r 0 body of
           None \<Rightarrow> None
         | Some n \<Rightarrow> if n < 2 ^ 64 then Some (of_nat n) else None)"

text \<open>\<open>i64::from_str_radix\<close>: the same with an optional sign of either kind.\<close>

definition i64_from_str_radix :: "nat \<Rightarrow> string \<Rightarrow> i64 option" where
  "i64_from_str_radix r s =
     (let negative = (case s of [] \<Rightarrow> False | c # _ \<Rightarrow> c = CHR ''-'');
          body = (case s of [] \<Rightarrow> [] | c # cs \<Rightarrow> if c = CHR ''+'' \<or> c = CHR ''-'' then cs else s)
      in if body = [] then None
         else case parse_digits r 0 body of
           None \<Rightarrow> None
         | Some n \<Rightarrow>
             if negative then (if n \<le> 2 ^ 63 then Some (- of_nat n) else None)
             else (if n < 2 ^ 63 then Some (of_nat n) else None))"

lemma of_char_digit_char:
  assumes "d < 16"
  shows "of_char (digit_char d) = (if d < 10 then 48 + d else 87 + d)"
  using assms by (simp add: digit_char_def of_char_of)

lemma digit_value_digit_char:
  assumes "d < r" "r \<le> 16"
  shows "digit_value r (digit_char d) = Some d"
proof -
  have "d < 16" using assms by simp
  then show ?thesis
    using assms by (simp add: digit_value_def of_char_digit_char Let_def)
qed

lemma digit_char_not_plus:
  assumes "d < 16"
  shows "digit_char d \<noteq> CHR ''+''"
proof
  assume "digit_char d = CHR ''+''"
  then have "of_char (digit_char d) = (43::nat)" by simp
  then show False using assms by (simp add: of_char_digit_char split: if_splits)
qed

lemma show_radix_not_Nil [simp]: "show_radix r n \<noteq> []"
  by (subst show_radix.simps) simp

lemma parse_digits_append:
  "parse_digits r acc (xs @ ys) =
     (case parse_digits r acc xs of None \<Rightarrow> None | Some a \<Rightarrow> parse_digits r a ys)"
  by (induction r acc xs rule: parse_digits.induct) (auto split: option.splits)

lemma parse_digits_show_radix_acc:
  assumes "2 \<le> r" "r \<le> 16"
  shows "parse_digits r 0 (show_radix r n) = Some n"
  using assms
proof (induction r n rule: show_radix.induct)
  case (1 r n)
  show ?case
  proof (cases "n < r")
    case True
    then show ?thesis
      using "1.prems" by (subst show_radix.simps) (simp add: digit_value_digit_char)
  next
    case False
    then have "parse_digits r 0 (show_radix r (n div r)) = Some (n div r)"
      using "1.IH" "1.prems" by simp
    then show ?thesis
      using False "1.prems"
      by (subst show_radix.simps) (simp add: parse_digits_append digit_value_digit_char)
  qed
qed

lemma hd_show_radix:
  assumes "2 \<le> r" "r \<le> 16"
  shows "\<exists>d < r. hd (show_radix r n) = digit_char d"
  using assms
proof (induction r n rule: show_radix.induct)
  case (1 r n)
  then show ?case
    by (cases "n < r") (auto simp: show_radix.simps [of r n] hd_append)
qed

text \<open>Reading back a printed integer gives the integer.\<close>

lemma u64_from_str_radix_show:
  assumes "2 \<le> r" "r \<le> 16" "n < 2 ^ 64"
  shows "u64_from_str_radix r (show_radix r n) = Some (of_nat n)"
proof -
  obtain c cs where s: "show_radix r n = c # cs"
    by (cases "show_radix r n") auto
  from hd_show_radix [OF assms(1,2), of n] s obtain d where "d < r" "c = digit_char d" by auto
  then have "c \<noteq> CHR ''+''" using assms(2) digit_char_not_plus [of d] by simp
  then show ?thesis
    using s parse_digits_show_radix_acc [OF assms(1,2), of n] assms(3)
    by (simp add: u64_from_str_radix_def)
qed

lemma show_radix_inj:
  assumes "2 \<le> r" "r \<le> 16" "show_radix r m = show_radix r n"
  shows "m = n"
proof -
  have "Some m = parse_digits r 0 (show_radix r m)"
    by (rule parse_digits_show_radix_acc [OF assms(1,2), symmetric])
  also have "\<dots> = parse_digits r 0 (show_radix r n)"
    by (rule arg_cong [OF assms(3)])
  also have "\<dots> = Some n"
    by (rule parse_digits_show_radix_acc [OF assms(1,2)])
  finally show ?thesis by (rule option.inject [THEN iffD1])
qed

lemma show_dec_inj [simp]: "show_dec m = show_dec n \<longleftrightarrow> m = n"
  using show_radix_inj [of 10 m n] by (auto simp: show_dec_def)

lemma show_hex_inj [simp]: "show_hex m = show_hex n \<longleftrightarrow> m = n"
  using show_radix_inj [of 16 m n] by (auto simp: show_hex_def)

section \<open>Strings\<close>

text \<open>\<open>char::is_whitespace\<close> on ASCII: tab, line feed, vertical tab, form feed, carriage
  return and space.\<close>

definition ascii_ws :: "char \<Rightarrow> bool" where
  "ascii_ws c \<longleftrightarrow> (let k = of_char c :: nat in (9 \<le> k \<and> k \<le> 13) \<or> k = 32)"

definition trim :: "string \<Rightarrow> string" where
  "trim s = rev (dropWhile ascii_ws (rev (dropWhile ascii_ws s)))"

definition to_lower_char :: "char \<Rightarrow> char" where
  "to_lower_char c =
     (let k = of_char c :: nat in if 65 \<le> k \<and> k \<le> 90 then char_of (k + 32) else c)"

definition to_upper_char :: "char \<Rightarrow> char" where
  "to_upper_char c =
     (let k = of_char c :: nat in if 97 \<le> k \<and> k \<le> 122 then char_of (k - 32) else c)"

definition to_ascii_lowercase :: "string \<Rightarrow> string" where
  "to_ascii_lowercase s = map to_lower_char s"

definition to_ascii_uppercase :: "string \<Rightarrow> string" where
  "to_ascii_uppercase s = map to_upper_char s"

definition is_ascii_digit :: "char \<Rightarrow> bool" where
  "is_ascii_digit c \<longleftrightarrow> (let k = of_char c :: nat in 48 \<le> k \<and> k \<le> 57)"

fun strip_prefix :: "string \<Rightarrow> string \<Rightarrow> string option" where
  "strip_prefix [] s = Some s"
| "strip_prefix (p # ps) [] = None"
| "strip_prefix (p # ps) (c # cs) = (if p = c then strip_prefix ps cs else None)"

definition starts_with :: "string \<Rightarrow> string \<Rightarrow> bool" where
  "starts_with p s \<longleftrightarrow> strip_prefix p s \<noteq> None"

text \<open>\<open>str::contains\<close> of a string.\<close>

fun str_contains :: "string \<Rightarrow> string \<Rightarrow> bool" where
  "str_contains p [] \<longleftrightarrow> p = []"
| "str_contains p (c # cs) \<longleftrightarrow> starts_with p (c # cs) \<or> str_contains p cs"

lemma trim_Nil_iff: "trim s = [] \<longleftrightarrow> (\<forall>c \<in> set s. ascii_ws c)"
  by (auto simp: trim_def dropWhile_eq_Nil_conv dest: set_dropWhileD)
     (metis dropWhile_eq_Nil_conv dropWhile_idem hd_dropWhile list.set_sel(1))

lemma strip_prefix_Some: "strip_prefix p s = Some t \<longleftrightarrow> s = p @ t"
  by (induction p s rule: strip_prefix.induct) auto

lemma strip_prefix_append [simp]: "strip_prefix p (p @ t) = Some t"
  by (simp add: strip_prefix_Some)

lemma starts_with_append [simp]: "starts_with p (p @ t)"
  by (simp add: starts_with_def)

lemma str_contains_iff: "str_contains p s \<longleftrightarrow> (\<exists>xs ys. s = xs @ p @ ys)"
proof (induction s)
  case (Cons c cs)
  have "starts_with p (c # cs) \<longleftrightarrow> (\<exists>ys. c # cs = p @ ys)"
    by (auto simp: starts_with_def strip_prefix_Some)
  moreover have "(\<exists>xs ys. c # cs = xs @ p @ ys) \<longleftrightarrow> (\<exists>ys. c # cs = p @ ys) \<or> (\<exists>xs ys. cs = xs @ p @ ys)"
    by (metis append_Cons append_Nil append_eq_Cons_conv)
  ultimately show ?case using Cons.IH by simp
qed auto

section \<open>Fixed width arithmetic\<close>

definition u32_saturating_add :: "u32 \<Rightarrow> u32 \<Rightarrow> u32" where
  "u32_saturating_add a b = (if unat a + unat b < 2 ^ 32 then a + b else - 1)"

definition u32_saturating_mul :: "u32 \<Rightarrow> u32 \<Rightarrow> u32" where
  "u32_saturating_mul a b = (if unat a * unat b < 2 ^ 32 then a * b else - 1)"

definition u64_checked_add :: "u64 \<Rightarrow> u64 \<Rightarrow> u64 option" where
  "u64_checked_add a b = (if unat a + unat b < 2 ^ 64 then Some (a + b) else None)"

definition u32_to_u64 :: "u32 \<Rightarrow> u64" where
  "u32_to_u64 w = ucast w"

lemma unat_max_u32 [simp]: "unat (- 1 :: u32) = 4294967295"
  by (simp add: unsigned_minus_1_eq_mask mask_eq_exp_minus_1)

lemma unat_u32_saturating_add:
  "unat (u32_saturating_add a b) = min (unat a + unat b) (2 ^ 32 - 1)"
proof (cases "unat a + unat b < 2 ^ 32")
  case True
  then show ?thesis by (simp add: u32_saturating_add_def unat_word_ariths)
next
  case False
  then show ?thesis unfolding u32_saturating_add_def by simp
qed

lemma unat_u32_saturating_mul:
  "unat (u32_saturating_mul a b) = min (unat a * unat b) (2 ^ 32 - 1)"
proof (cases "unat a * unat b < 2 ^ 32")
  case True
  then show ?thesis by (simp add: u32_saturating_mul_def unat_word_ariths)
next
  case False
  then show ?thesis unfolding u32_saturating_mul_def by simp
qed

lemma unat_u32_less: "unat (a :: u32) < 4294967296"
  using unsigned_less [of a, where 'a = nat] by simp

lemma unat_u64_less: "unat (a :: u64) < 18446744073709551616"
  using unsigned_less [of a, where 'a = nat] by simp

lemma unat_u32_to_u64 [simp]: "unat (u32_to_u64 a) = unat a"
  using unat_u32_less [of a] by (simp add: u32_to_u64_def unsigned_ucast_eq take_bit_eq_mod)

lemma u64_checked_add_Some:
  "u64_checked_add a b = Some c \<longleftrightarrow> unat c = unat a + unat b"
  using unat_u64_less [of c]
  by (auto simp: u64_checked_add_def unat_word_ariths word_unat_eq_iff)

section \<open>Hash maps\<close>

text \<open>
  A \<open>HashMap\<close> is an association list with distinct keys, in the order in which iteration
  visits it. That order is unspecified in Rust; \<open>hm_insert\<close> appends new keys, and no property
  of the development depends on the position.
\<close>

type_synonym ('k, 'v) hashmap = "('k \<times> 'v) list"

definition hm_ok :: "('k, 'v) hashmap \<Rightarrow> bool" where
  "hm_ok m \<longleftrightarrow> distinct (map fst m)"

fun hm_insert :: "'k \<Rightarrow> 'v \<Rightarrow> ('k, 'v) hashmap \<Rightarrow> ('k, 'v) hashmap" where
  "hm_insert k v [] = [(k, v)]"
| "hm_insert k v ((k', v') # m) =
     (if k = k' then (k, v) # m else (k', v') # hm_insert k v m)"

definition hm_get :: "('k, 'v) hashmap \<Rightarrow> 'k \<Rightarrow> 'v option" where
  "hm_get m k = map_of m k"

lemma hm_get_insert: "hm_get (hm_insert k v m) j = (if j = k then Some v else hm_get m j)"
  unfolding hm_get_def by (induction k v m rule: hm_insert.induct) auto

lemma fst_hm_insert: "fst ` set (hm_insert k v m) = insert k (fst ` set m)"
  by (induction k v m rule: hm_insert.induct) auto

lemma hm_ok_insert: "hm_ok m \<Longrightarrow> hm_ok (hm_insert k v m)"
  unfolding hm_ok_def
  by (induction k v m rule: hm_insert.induct) (auto simp: fst_hm_insert)

lemma hm_get_iff: "hm_ok m \<Longrightarrow> hm_get m k = Some v \<longleftrightarrow> (k, v) \<in> set m"
  by (simp add: hm_ok_def hm_get_def)

lemma hm_get_None: "hm_get m k = None \<longleftrightarrow> k \<notin> fst ` set m"
  by (simp add: hm_get_def map_of_eq_None_iff)

section \<open>Sequences of results\<close>

text \<open>\<open>Option::ok_or\<close>-style sequencing of fallible steps.\<close>

fun bind_sum :: "'e + 'a \<Rightarrow> ('a \<Rightarrow> 'e + 'b) \<Rightarrow> 'e + 'b" where
  "bind_sum (Inl e) f = Inl e"
| "bind_sum (Inr x) f = f x"

lemma bind_sum_Inr: "bind_sum m f = Inr y \<longleftrightarrow> (\<exists>x. m = Inr x \<and> f x = Inr y)"
  by (cases m) auto

lemma bind_sum_Inl: "bind_sum m f = Inl e \<longleftrightarrow> m = Inl e \<or> (\<exists>x. m = Inr x \<and> f x = Inl e)"
  by (cases m) auto

lemma concat_map_Nil_iff: "concat (map f xs) = [] \<longleftrightarrow> (\<forall>x \<in> set xs. f x = [])"
  by (induction xs) auto

end
