(* ===== verification/R2IL_Types.thy ===== *)
theory R2IL_Types
  imports R2_Prelude
begin

text \<open>
  The data of the intermediate language of the crate \<open>r2il\<close>: address spaces
  (\<open>space.rs\<close>), endianness (\<open>endianness.rs\<close>), memory topology (\<open>memory.rs\<close>),
  metadata hints (\<open>metadata.rs\<close>), varnodes (\<open>varnode.rs\<close>), and the choice of a
  canonical register name (\<open>regname.rs\<close>). Record fields carry the prefix of their struct
  (\<open>vn_\<close>, \<open>as_\<close>, \<open>mr_\<close>, \dots); otherwise the names are those of the source.
\<close>

section \<open>Address spaces\<close>

datatype SpaceId = Ram | Register | Unique | Const | Custom u32

definition space_is_const :: "SpaceId \<Rightarrow> bool" where
  "space_is_const s \<longleftrightarrow> s = Const"

definition space_is_ram :: "SpaceId \<Rightarrow> bool" where
  "space_is_ram s \<longleftrightarrow> s = Ram"

definition space_is_register :: "SpaceId \<Rightarrow> bool" where
  "space_is_register s \<longleftrightarrow> s = Register"

definition space_is_unique :: "SpaceId \<Rightarrow> bool" where
  "space_is_unique s \<longleftrightarrow> s = Unique"

fun show_space :: "SpaceId \<Rightarrow> string" where
  "show_space Ram = ''ram''"
| "show_space Register = ''reg''"
| "show_space Unique = ''uniq''"
| "show_space Const = ''const''"
| "show_space (Custom i) = ''space'' @ show_dec (unat i)"

section \<open>Endianness\<close>

datatype Endianness = Little | Big | Mixed | CustomEndian

definition is_big :: "Endianness \<Rightarrow> bool" where
  "is_big e \<longleftrightarrow> e = Big"

definition is_little :: "Endianness \<Rightarrow> bool" where
  "is_little e \<longleftrightarrow> e = Little"

definition from_big_endian :: "bool \<Rightarrow> Endianness" where
  "from_big_endian b = (if b then Big else Little)"

definition to_legacy_big_endian :: "Endianness \<Rightarrow> bool" where
  "to_legacy_big_endian e = is_big e"

lemma to_legacy_from_big_endian [simp]: "to_legacy_big_endian (from_big_endian b) = b"
  by (simp add: to_legacy_big_endian_def from_big_endian_def is_big_def)

section \<open>Memory topology\<close>

datatype MemoryOrdering = Relaxed | Acquire | Release | AcqRel | SeqCst | UnknownOrdering

record MemoryPermissions =
  mp_read :: bool
  mp_write :: bool
  mp_execute :: bool
  mp_volatile :: bool
  mp_cacheable :: bool

record MemoryRange =
  mr_start :: u64
  mr_end :: u64

definition contains_interval :: "MemoryRange \<Rightarrow> u64 \<Rightarrow> u32 \<Rightarrow> bool" where
  "contains_interval r start sz =
     (case u64_checked_add start (u32_to_u64 sz) of
        None \<Rightarrow> False
      | Some e \<Rightarrow> mr_start r \<le> start \<and> e \<le> mr_end r)"

datatype AtomicKind =
  KLoadLinked | KStoreConditional | KCompareExchange | KReadModifyWrite | KFence | KUnknown

text \<open>The interval test is exact: it is set inclusion of the accessed bytes, and an access that
  would wrap around the address space is never inside.\<close>

lemma contains_interval_iff:
  "contains_interval r start sz \<longleftrightarrow>
     unat (mr_start r) \<le> unat start \<and> unat start + unat sz \<le> unat (mr_end r)"
proof (cases "unat start + unat sz < 2 ^ 64")
  case True
  then have "u64_checked_add start (u32_to_u64 sz) = Some (start + u32_to_u64 sz)"
    and "unat (start + u32_to_u64 sz) = unat start + unat sz"
    by (simp_all add: u64_checked_add_def unat_word_ariths)
  then show ?thesis by (simp add: contains_interval_def word_le_nat_alt)
next
  case False
  then show ?thesis
    using unat_u64_less [of "mr_end r"] by (simp add: contains_interval_def u64_checked_add_def)
qed

section \<open>Metadata hints\<close>

datatype StorageClass =
  StStack | StHeap | StGlobal | StThreadLocal | StConstData | StVolatile | StRegister | StUnknown

datatype ScalarKind = SkBool | SkSignedInt | SkUnsignedInt | SkFloat | SkBitvector | SkUnknown

datatype PointerHint = PointerLike | CodePointer | PhUnknown

datatype FloatEncodingHint =
  Ieee754Binary16 | Ieee754Binary32 | Ieee754Binary64 | Ieee754Binary80 | Ieee754Binary128
| FeUnknown

datatype MemoryClass =
  McRam | McStack | McHeap | McGlobal | McThreadLocal | McMmio | McIoPort | McCode | McUnknown

record VarnodeMetadata =
  vm_storage_class :: "StorageClass option"
  vm_scalar_kind :: "ScalarKind option"
  vm_pointer_hint :: "PointerHint option"
  vm_float_encoding :: "FloatEncodingHint option"
  vm_endianness :: "Endianness option"
  vm_permissions :: "MemoryPermissions option"
  vm_valid_range :: "MemoryRange option"
  vm_bank_id :: "string option"
  vm_segment_id :: "string option"

record OpMetadata =
  om_instruction_addr :: "u64 option"
  om_memory_class :: "MemoryClass option"
  om_endianness :: "Endianness option"
  om_memory_ordering :: "MemoryOrdering option"
  om_permissions :: "MemoryPermissions option"
  om_valid_range :: "MemoryRange option"
  om_bank_id :: "string option"
  om_segment_id :: "string option"
  om_atomic_kind :: "AtomicKind option"

section \<open>Varnodes\<close>

record Varnode =
  vn_space :: SpaceId
  vn_offset :: u64
  vn_size :: u32
  vn_meta :: "VarnodeMetadata option"

definition varnode_new :: "SpaceId \<Rightarrow> u64 \<Rightarrow> u32 \<Rightarrow> Varnode" where
  "varnode_new s off sz = \<lparr>vn_space = s, vn_offset = off, vn_size = sz, vn_meta = None\<rparr>"

definition varnode_constant :: "u64 \<Rightarrow> u32 \<Rightarrow> Varnode" where
  "varnode_constant v sz = \<lparr>vn_space = Const, vn_offset = v, vn_size = sz, vn_meta = None\<rparr>"

definition varnode_register :: "u64 \<Rightarrow> u32 \<Rightarrow> Varnode" where
  "varnode_register off sz = \<lparr>vn_space = Register, vn_offset = off, vn_size = sz, vn_meta = None\<rparr>"

definition varnode_ram :: "u64 \<Rightarrow> u32 \<Rightarrow> Varnode" where
  "varnode_ram a sz = \<lparr>vn_space = Ram, vn_offset = a, vn_size = sz, vn_meta = None\<rparr>"

definition varnode_unique :: "u64 \<Rightarrow> u32 \<Rightarrow> Varnode" where
  "varnode_unique i sz = \<lparr>vn_space = Unique, vn_offset = i, vn_size = sz, vn_meta = None\<rparr>"

definition varnode_default :: Varnode where
  "varnode_default = varnode_constant 0 1"

definition with_meta :: "Varnode \<Rightarrow> VarnodeMetadata \<Rightarrow> Varnode" where
  "with_meta v m = v\<lparr>vn_meta := Some m\<rparr>"

definition clear_meta :: "Varnode \<Rightarrow> Varnode" where
  "clear_meta v = v\<lparr>vn_meta := None\<rparr>"

definition vn_const_value :: "Varnode \<Rightarrow> u64 option" where
  "vn_const_value v = (if space_is_const (vn_space v) then Some (vn_offset v) else None)"

definition show_varnode :: "Varnode \<Rightarrow> string" where
  "show_varnode v =
     (case vn_space v of
        Const \<Rightarrow> ''0x'' @ show_hex (unat (vn_offset v)) @ '':'' @ show_dec (unat (vn_size v))
      | s \<Rightarrow> show_space s @ '':0x'' @ show_hex (unat (vn_offset v)) @ ''['' @
             show_dec (unat (vn_size v)) @ '']'')"

text \<open>
  \<open>PartialEq\<close> and \<open>Hash\<close> of \<open>Varnode\<close> ignore the metadata; \<open>varnode_key\<close> is what the
  hash reads.
\<close>

definition varnode_eq :: "Varnode \<Rightarrow> Varnode \<Rightarrow> bool" where
  "varnode_eq v w \<longleftrightarrow>
     vn_space v = vn_space w \<and> vn_offset v = vn_offset w \<and> vn_size v = vn_size w"

definition varnode_key :: "Varnode \<Rightarrow> SpaceId \<times> u64 \<times> u32" where
  "varnode_key v = (vn_space v, vn_offset v, vn_size v)"

lemmas varnode_mk_defs =
  varnode_new_def varnode_constant_def varnode_register_def varnode_ram_def varnode_unique_def

text \<open>\<open>Eq\<close> and \<open>Hash\<close> agree, as the contract of \<open>HashMap\<close> keys demands, and equality is
  insensitive to attached hints.\<close>

lemma varnode_eq_key: "varnode_eq v w \<longleftrightarrow> varnode_key v = varnode_key w"
  by (auto simp: varnode_eq_def varnode_key_def)

lemma varnode_eq_with_meta: "varnode_eq (with_meta v m) v"
  by (simp add: varnode_eq_def with_meta_def)

lemma varnode_eq_clear_meta: "varnode_eq v w \<longleftrightarrow> clear_meta v = clear_meta w"
  by (cases v; cases w) (auto simp: varnode_eq_def clear_meta_def)

section \<open>Canonical register names\<close>

definition is_numbered_reg :: "string \<Rightarrow> bool" where
  "is_numbered_reg nm =
     (if length nm < 2 then False
      else hd nm \<in> set ''rxw'' \<and> list_all is_ascii_digit (tl nm))"

definition special_regs :: "string list" where
  "special_regs =
     [''pc'', ''sp'', ''bp'', ''fp'', ''lr'', ''ip'', ''ra'', ''zero'', ''gp'', ''tp'']"

definition is_special_reg :: "string \<Rightarrow> bool" where
  "is_special_reg nm \<longleftrightarrow> nm \<in> set special_regs"

definition register_alias_rank :: "string \<Rightarrow> nat \<times> nat \<times> string" where
  "register_alias_rank nm =
     (let lower = to_ascii_lowercase nm in
      if is_special_reg lower then (0, length lower, lower)
      else if is_numbered_reg lower then (1, length lower, lower)
      else (2, length lower, lower))"

text \<open>The loop of \<open>select_register_name\<close>: the best candidate so far with its rank.\<close>

fun select_loop ::
  "((nat \<times> nat \<times> string) \<times> string) option \<Rightarrow> string list \<Rightarrow>
   ((nat \<times> nat \<times> string) \<times> string) option" where
  "select_loop best [] = best"
| "select_loop best (nm # names) =
     (let rank = register_alias_rank nm in
      case best of
        None \<Rightarrow> select_loop (Some (rank, nm)) names
      | Some (best_rank, best_name) \<Rightarrow>
          if rank < best_rank \<or> (rank = best_rank \<and> nm < best_name)
          then select_loop (Some (rank, nm)) names
          else select_loop (Some (best_rank, best_name)) names)"

definition select_register_name :: "string list \<Rightarrow> string option" where
  "select_register_name names = map_option snd (select_loop None names)"

definition ranked :: "string \<Rightarrow> (nat \<times> nat \<times> string) \<times> string" where
  "ranked nm = (register_alias_rank nm, nm)"

lemma select_loop_Min:
  "select_loop (Some (ranked b)) names = Some (Min (insert (ranked b) (ranked ` set names)))"
proof (induction names arbitrary: b)
  case Nil
  then show ?case by simp
next
  case (Cons n names)
  let ?m = "min (ranked n) (ranked b)"
  have step: "select_loop (Some (ranked b)) (n # names) = select_loop (Some ?m) names"
    by (auto simp: ranked_def Let_def min_def)
  have m: "?m = ranked n \<or> ?m = ranked b" by (simp add: min_def)
  have "Min (insert ?m (ranked ` set names)) =
      Min (insert (ranked b) (insert (ranked n) (ranked ` set names)))"
    by (cases "names = []") (simp_all add: min.assoc min.commute min.left_commute)
  with m Cons.IH [of n] Cons.IH [of b] show ?case
    unfolding step by auto
qed

lemma select_register_name_Min:
  "select_register_name names =
     (if names = [] then None else Some (snd (Min (ranked ` set names))))"
proof (cases names)
  case Nil
  then show ?thesis by (simp add: select_register_name_def)
next
  case (Cons n ns)
  then have "select_loop None names = select_loop (Some (ranked n)) ns"
    by (simp add: ranked_def)
  then show ?thesis using Cons select_loop_Min [of n ns] by (simp add: select_register_name_def)
qed

lemma snd_Min_ranked_in:
  assumes "names \<noteq> []"
  shows "snd (Min (ranked ` set names)) \<in> set names"
proof -
  have "Min (ranked ` set names) \<in> ranked ` set names" using assms by (intro Min_in) auto
  then show ?thesis by (auto simp: ranked_def)
qed

end
