(* ===== verification/R2IL_Op.thy ===== *)
theory R2IL_Op
  imports R2IL_Types
begin

text \<open>
  The operations of the intermediate language (\<open>r2il/src/opcode.rs\<close>): the datatype of the
  source's enum \<open>R2ILOp\<close>, one constructor per variant with the fields in the source's order,
  its classification predicates and the accessors of its operands.
\<close>

section \<open>Operations\<close>

datatype (plugins only: size) R2ILOp =
  Copy Varnode Varnode
| Load Varnode SpaceId Varnode
| Store SpaceId Varnode Varnode
| Fence MemoryOrdering
| LoadLinked Varnode SpaceId Varnode MemoryOrdering
| StoreConditional "Varnode option" SpaceId Varnode Varnode MemoryOrdering
| AtomicCAS Varnode SpaceId Varnode Varnode Varnode MemoryOrdering
| LoadGuarded Varnode SpaceId Varnode Varnode MemoryOrdering
| StoreGuarded SpaceId Varnode Varnode Varnode MemoryOrdering
| IntAdd Varnode Varnode Varnode
| IntSub Varnode Varnode Varnode
| IntMult Varnode Varnode Varnode
| IntDiv Varnode Varnode Varnode
| IntSDiv Varnode Varnode Varnode
| IntRem Varnode Varnode Varnode
| IntSRem Varnode Varnode Varnode
| IntNegate Varnode Varnode
| IntCarry Varnode Varnode Varnode
| IntSCarry Varnode Varnode Varnode
| IntSBorrow Varnode Varnode Varnode
| IntAnd Varnode Varnode Varnode
| IntOr Varnode Varnode Varnode
| IntXor Varnode Varnode Varnode
| IntNot Varnode Varnode
| IntLeft Varnode Varnode Varnode
| IntRight Varnode Varnode Varnode
| IntSRight Varnode Varnode Varnode
| IntEqual Varnode Varnode Varnode
| IntNotEqual Varnode Varnode Varnode
| IntLess Varnode Varnode Varnode
| IntSLess Varnode Varnode Varnode
| IntLessEqual Varnode Varnode Varnode
| IntSLessEqual Varnode Varnode Varnode
| IntZExt Varnode Varnode
| IntSExt Varnode Varnode
| BoolNot Varnode Varnode
| BoolAnd Varnode Varnode Varnode
| BoolOr Varnode Varnode Varnode
| BoolXor Varnode Varnode Varnode
| Piece Varnode Varnode Varnode
| Subpiece Varnode Varnode u32
| PopCount Varnode Varnode
| Lzcount Varnode Varnode
| Branch Varnode
| CBranch Varnode Varnode
| BranchInd Varnode
| Call Varnode
| CallInd Varnode
| Return Varnode
| FloatAdd Varnode Varnode Varnode
| FloatSub Varnode Varnode Varnode
| FloatMult Varnode Varnode Varnode
| FloatDiv Varnode Varnode Varnode
| FloatNeg Varnode Varnode
| FloatAbs Varnode Varnode
| FloatSqrt Varnode Varnode
| FloatCeil Varnode Varnode
| FloatFloor Varnode Varnode
| FloatRound Varnode Varnode
| FloatNaN Varnode Varnode
| FloatEqual Varnode Varnode Varnode
| FloatNotEqual Varnode Varnode Varnode
| FloatLess Varnode Varnode Varnode
| FloatLessEqual Varnode Varnode Varnode
| Int2Float Varnode Varnode
| Float2Int Varnode Varnode
| FloatFloat Varnode Varnode
| Trunc Varnode Varnode
| CallOther "Varnode option" u32 "Varnode list"
| Nop
| Unimplemented
| CpuId Varnode
| Breakpoint
| Multiequal Varnode "Varnode list"
| Indirect Varnode Varnode Varnode
| PtrAdd Varnode Varnode Varnode u32
| PtrSub Varnode Varnode Varnode u32
| SegmentOp Varnode Varnode Varnode
| New Varnode Varnode
| Cast Varnode Varnode
| Extract Varnode Varnode Varnode
| Insert Varnode Varnode Varnode Varnode

text \<open>The operand accessors below are one equation per variant.\<close>


definition op_is_control_flow :: "R2ILOp \<Rightarrow> bool" where
  "op_is_control_flow op =
     (case op of
        Branch _ \<Rightarrow> True
      | CBranch _ _ \<Rightarrow> True
      | BranchInd _ \<Rightarrow> True
      | Call _ \<Rightarrow> True
      | CallInd _ \<Rightarrow> True
      | Return _ \<Rightarrow> True
      | _ \<Rightarrow> False)"

definition op_is_memory_read :: "R2ILOp \<Rightarrow> bool" where
  "op_is_memory_read op =
     (case op of
        Load _ _ _ \<Rightarrow> True
      | LoadLinked _ _ _ _ \<Rightarrow> True
      | LoadGuarded _ _ _ _ _ \<Rightarrow> True
      | AtomicCAS _ _ _ _ _ _ \<Rightarrow> True
      | _ \<Rightarrow> False)"

definition op_is_memory_write :: "R2ILOp \<Rightarrow> bool" where
  "op_is_memory_write op =
     (case op of
        Store _ _ _ \<Rightarrow> True
      | StoreConditional _ _ _ _ _ \<Rightarrow> True
      | StoreGuarded _ _ _ _ _ \<Rightarrow> True
      | AtomicCAS _ _ _ _ _ _ \<Rightarrow> True
      | _ \<Rightarrow> False)"

section \<open>Operands\<close>

primrec op_output :: "R2ILOp \<Rightarrow> Varnode option" where
  "op_output (Copy dst _) = Some dst"
| "op_output (Load dst _ _) = Some dst"
| "op_output (LoadLinked dst _ _ _) = Some dst"
| "op_output (LoadGuarded dst _ _ _ _) = Some dst"
| "op_output (AtomicCAS dst _ _ _ _ _) = Some dst"
| "op_output (IntAdd dst _ _) = Some dst"
| "op_output (IntSub dst _ _) = Some dst"
| "op_output (IntMult dst _ _) = Some dst"
| "op_output (IntDiv dst _ _) = Some dst"
| "op_output (IntSDiv dst _ _) = Some dst"
| "op_output (IntRem dst _ _) = Some dst"
| "op_output (IntSRem dst _ _) = Some dst"
| "op_output (IntNegate dst _) = Some dst"
| "op_output (IntCarry dst _ _) = Some dst"
| "op_output (IntSCarry dst _ _) = Some dst"
| "op_output (IntSBorrow dst _ _) = Some dst"
| "op_output (IntAnd dst _ _) = Some dst"
| "op_output (IntOr dst _ _) = Some dst"
| "op_output (IntXor dst _ _) = Some dst"
| "op_output (IntNot dst _) = Some dst"
| "op_output (IntLeft dst _ _) = Some dst"
| "op_output (IntRight dst _ _) = Some dst"
| "op_output (IntSRight dst _ _) = Some dst"
| "op_output (IntEqual dst _ _) = Some dst"
| "op_output (IntNotEqual dst _ _) = Some dst"
| "op_output (IntLess dst _ _) = Some dst"
| "op_output (IntSLess dst _ _) = Some dst"
| "op_output (IntLessEqual dst _ _) = Some dst"
| "op_output (IntSLessEqual dst _ _) = Some dst"
| "op_output (IntZExt dst _) = Some dst"
| "op_output (IntSExt dst _) = Some dst"
| "op_output (BoolNot dst _) = Some dst"
| "op_output (BoolAnd dst _ _) = Some dst"
| "op_output (BoolOr dst _ _) = Some dst"
| "op_output (BoolXor dst _ _) = Some dst"
| "op_output (Piece dst _ _) = Some dst"
| "op_output (Subpiece dst _ _) = Some dst"
| "op_output (PopCount dst _) = Some dst"
| "op_output (Lzcount dst _) = Some dst"
| "op_output (FloatAdd dst _ _) = Some dst"
| "op_output (FloatSub dst _ _) = Some dst"
| "op_output (FloatMult dst _ _) = Some dst"
| "op_output (FloatDiv dst _ _) = Some dst"
| "op_output (FloatNeg dst _) = Some dst"
| "op_output (FloatAbs dst _) = Some dst"
| "op_output (FloatSqrt dst _) = Some dst"
| "op_output (FloatCeil dst _) = Some dst"
| "op_output (FloatFloor dst _) = Some dst"
| "op_output (FloatRound dst _) = Some dst"
| "op_output (FloatNaN dst _) = Some dst"
| "op_output (FloatEqual dst _ _) = Some dst"
| "op_output (FloatNotEqual dst _ _) = Some dst"
| "op_output (FloatLess dst _ _) = Some dst"
| "op_output (FloatLessEqual dst _ _) = Some dst"
| "op_output (Int2Float dst _) = Some dst"
| "op_output (Float2Int dst _) = Some dst"
| "op_output (FloatFloat dst _) = Some dst"
| "op_output (Trunc dst _) = Some dst"
| "op_output (CpuId dst) = Some dst"
| "op_output (Multiequal dst _) = Some dst"
| "op_output (Indirect dst _ _) = Some dst"
| "op_output (PtrAdd dst _ _ _) = Some dst"
| "op_output (PtrSub dst _ _ _) = Some dst"
| "op_output (SegmentOp dst _ _) = Some dst"
| "op_output (New dst _) = Some dst"
| "op_output (Cast dst _) = Some dst"
| "op_output (Extract dst _ _) = Some dst"
| "op_output (Insert dst _ _ _) = Some dst"
| "op_output (StoreConditional result _ _ _ _) = result"
| "op_output (CallOther output _ _) = output"
| "op_output (Store _ _ _) = None"
| "op_output (Fence _) = None"
| "op_output (StoreGuarded _ _ _ _ _) = None"
| "op_output (Branch _) = None"
| "op_output (CBranch _ _) = None"
| "op_output (BranchInd _) = None"
| "op_output (Call _) = None"
| "op_output (CallInd _) = None"
| "op_output (Return _) = None"
| "op_output Nop = None"
| "op_output Unimplemented = None"
| "op_output Breakpoint = None"

text \<open>Mutable access to the output: \<open>output_mut\<close> followed by an update \<open>g\<close> of what it points to.\<close>

primrec op_map_output :: "(Varnode \<Rightarrow> Varnode) \<Rightarrow> R2ILOp \<Rightarrow> R2ILOp" where
  "op_map_output g (Copy dst src) = Copy (g dst) src"
| "op_map_output g (Load dst space addr) = Load (g dst) space addr"
| "op_map_output g (LoadLinked dst space addr mo) = LoadLinked (g dst) space addr mo"
| "op_map_output g (LoadGuarded dst space addr guard mo) = LoadGuarded (g dst) space addr guard mo"
| "op_map_output g (AtomicCAS dst space addr expected replacement mo) = AtomicCAS (g dst) space addr expected replacement mo"
| "op_map_output g (IntAdd dst a b) = IntAdd (g dst) a b"
| "op_map_output g (IntSub dst a b) = IntSub (g dst) a b"
| "op_map_output g (IntMult dst a b) = IntMult (g dst) a b"
| "op_map_output g (IntDiv dst a b) = IntDiv (g dst) a b"
| "op_map_output g (IntSDiv dst a b) = IntSDiv (g dst) a b"
| "op_map_output g (IntRem dst a b) = IntRem (g dst) a b"
| "op_map_output g (IntSRem dst a b) = IntSRem (g dst) a b"
| "op_map_output g (IntNegate dst src) = IntNegate (g dst) src"
| "op_map_output g (IntCarry dst a b) = IntCarry (g dst) a b"
| "op_map_output g (IntSCarry dst a b) = IntSCarry (g dst) a b"
| "op_map_output g (IntSBorrow dst a b) = IntSBorrow (g dst) a b"
| "op_map_output g (IntAnd dst a b) = IntAnd (g dst) a b"
| "op_map_output g (IntOr dst a b) = IntOr (g dst) a b"
| "op_map_output g (IntXor dst a b) = IntXor (g dst) a b"
| "op_map_output g (IntNot dst src) = IntNot (g dst) src"
| "op_map_output g (IntLeft dst a b) = IntLeft (g dst) a b"
| "op_map_output g (IntRight dst a b) = IntRight (g dst) a b"
| "op_map_output g (IntSRight dst a b) = IntSRight (g dst) a b"
| "op_map_output g (IntEqual dst a b) = IntEqual (g dst) a b"
| "op_map_output g (IntNotEqual dst a b) = IntNotEqual (g dst) a b"
| "op_map_output g (IntLess dst a b) = IntLess (g dst) a b"
| "op_map_output g (IntSLess dst a b) = IntSLess (g dst) a b"
| "op_map_output g (IntLessEqual dst a b) = IntLessEqual (g dst) a b"
| "op_map_output g (IntSLessEqual dst a b) = IntSLessEqual (g dst) a b"
| "op_map_output g (IntZExt dst src) = IntZExt (g dst) src"
| "op_map_output g (IntSExt dst src) = IntSExt (g dst) src"
| "op_map_output g (BoolNot dst src) = BoolNot (g dst) src"
| "op_map_output g (BoolAnd dst a b) = BoolAnd (g dst) a b"
| "op_map_output g (BoolOr dst a b) = BoolOr (g dst) a b"
| "op_map_output g (BoolXor dst a b) = BoolXor (g dst) a b"
| "op_map_output g (Piece dst hi lo) = Piece (g dst) hi lo"
| "op_map_output g (Subpiece dst src offset) = Subpiece (g dst) src offset"
| "op_map_output g (PopCount dst src) = PopCount (g dst) src"
| "op_map_output g (Lzcount dst src) = Lzcount (g dst) src"
| "op_map_output g (FloatAdd dst a b) = FloatAdd (g dst) a b"
| "op_map_output g (FloatSub dst a b) = FloatSub (g dst) a b"
| "op_map_output g (FloatMult dst a b) = FloatMult (g dst) a b"
| "op_map_output g (FloatDiv dst a b) = FloatDiv (g dst) a b"
| "op_map_output g (FloatNeg dst src) = FloatNeg (g dst) src"
| "op_map_output g (FloatAbs dst src) = FloatAbs (g dst) src"
| "op_map_output g (FloatSqrt dst src) = FloatSqrt (g dst) src"
| "op_map_output g (FloatCeil dst src) = FloatCeil (g dst) src"
| "op_map_output g (FloatFloor dst src) = FloatFloor (g dst) src"
| "op_map_output g (FloatRound dst src) = FloatRound (g dst) src"
| "op_map_output g (FloatNaN dst src) = FloatNaN (g dst) src"
| "op_map_output g (FloatEqual dst a b) = FloatEqual (g dst) a b"
| "op_map_output g (FloatNotEqual dst a b) = FloatNotEqual (g dst) a b"
| "op_map_output g (FloatLess dst a b) = FloatLess (g dst) a b"
| "op_map_output g (FloatLessEqual dst a b) = FloatLessEqual (g dst) a b"
| "op_map_output g (Int2Float dst src) = Int2Float (g dst) src"
| "op_map_output g (Float2Int dst src) = Float2Int (g dst) src"
| "op_map_output g (FloatFloat dst src) = FloatFloat (g dst) src"
| "op_map_output g (Trunc dst src) = Trunc (g dst) src"
| "op_map_output g (CpuId dst) = CpuId (g dst)"
| "op_map_output g (Multiequal dst inputs) = Multiequal (g dst) inputs"
| "op_map_output g (Indirect dst src indirect) = Indirect (g dst) src indirect"
| "op_map_output g (PtrAdd dst base index element_size) = PtrAdd (g dst) base index element_size"
| "op_map_output g (PtrSub dst base index element_size) = PtrSub (g dst) base index element_size"
| "op_map_output g (SegmentOp dst segment offset) = SegmentOp (g dst) segment offset"
| "op_map_output g (New dst src) = New (g dst) src"
| "op_map_output g (Cast dst src) = Cast (g dst) src"
| "op_map_output g (Extract dst src position) = Extract (g dst) src position"
| "op_map_output g (Insert dst src value position) = Insert (g dst) src value position"
| "op_map_output g (StoreConditional result space addr val mo) = StoreConditional (map_option g result) space addr val mo"
| "op_map_output g (CallOther output userop inputs) = CallOther (map_option g output) userop inputs"
| "op_map_output g (Store space addr val) = Store space addr val"
| "op_map_output g (Fence mo) = Fence mo"
| "op_map_output g (StoreGuarded space addr val guard mo) = StoreGuarded space addr val guard mo"
| "op_map_output g (Branch target) = Branch target"
| "op_map_output g (CBranch target cond) = CBranch target cond"
| "op_map_output g (BranchInd target) = BranchInd target"
| "op_map_output g (Call target) = Call target"
| "op_map_output g (CallInd target) = CallInd target"
| "op_map_output g (Return target) = Return target"
| "op_map_output g Nop = Nop"
| "op_map_output g Unimplemented = Unimplemented"
| "op_map_output g Breakpoint = Breakpoint"

primrec op_inputs :: "R2ILOp \<Rightarrow> Varnode list" where
  "op_inputs (Copy _ src) = [src]"
| "op_inputs (Load _ _ addr) = [addr]"
| "op_inputs (Store _ addr val) = [addr, val]"
| "op_inputs (Fence _) = []"
| "op_inputs (LoadLinked _ _ addr _) = [addr]"
| "op_inputs (StoreConditional _ _ addr val _) = [addr, val]"
| "op_inputs (AtomicCAS _ _ addr expected replacement _) = [addr, expected, replacement]"
| "op_inputs (LoadGuarded _ _ addr guard _) = [addr, guard]"
| "op_inputs (StoreGuarded _ addr val guard _) = [addr, val, guard]"
| "op_inputs (IntAdd _ a b) = [a, b]"
| "op_inputs (IntSub _ a b) = [a, b]"
| "op_inputs (IntMult _ a b) = [a, b]"
| "op_inputs (IntDiv _ a b) = [a, b]"
| "op_inputs (IntSDiv _ a b) = [a, b]"
| "op_inputs (IntRem _ a b) = [a, b]"
| "op_inputs (IntSRem _ a b) = [a, b]"
| "op_inputs (IntCarry _ a b) = [a, b]"
| "op_inputs (IntSCarry _ a b) = [a, b]"
| "op_inputs (IntSBorrow _ a b) = [a, b]"
| "op_inputs (IntAnd _ a b) = [a, b]"
| "op_inputs (IntOr _ a b) = [a, b]"
| "op_inputs (IntXor _ a b) = [a, b]"
| "op_inputs (IntLeft _ a b) = [a, b]"
| "op_inputs (IntRight _ a b) = [a, b]"
| "op_inputs (IntSRight _ a b) = [a, b]"
| "op_inputs (IntEqual _ a b) = [a, b]"
| "op_inputs (IntNotEqual _ a b) = [a, b]"
| "op_inputs (IntLess _ a b) = [a, b]"
| "op_inputs (IntSLess _ a b) = [a, b]"
| "op_inputs (IntLessEqual _ a b) = [a, b]"
| "op_inputs (IntSLessEqual _ a b) = [a, b]"
| "op_inputs (IntNegate _ src) = [src]"
| "op_inputs (IntNot _ src) = [src]"
| "op_inputs (IntZExt _ src) = [src]"
| "op_inputs (IntSExt _ src) = [src]"
| "op_inputs (BoolNot _ src) = [src]"
| "op_inputs (BoolAnd _ a b) = [a, b]"
| "op_inputs (BoolOr _ a b) = [a, b]"
| "op_inputs (BoolXor _ a b) = [a, b]"
| "op_inputs (Piece _ hi lo) = [hi, lo]"
| "op_inputs (Subpiece _ src _) = [src]"
| "op_inputs (PopCount _ src) = [src]"
| "op_inputs (Lzcount _ src) = [src]"
| "op_inputs (Branch target) = [target]"
| "op_inputs (CBranch target cond) = [target, cond]"
| "op_inputs (BranchInd target) = [target]"
| "op_inputs (Call target) = [target]"
| "op_inputs (CallInd target) = [target]"
| "op_inputs (Return target) = [target]"
| "op_inputs (FloatAdd _ a b) = [a, b]"
| "op_inputs (FloatSub _ a b) = [a, b]"
| "op_inputs (FloatMult _ a b) = [a, b]"
| "op_inputs (FloatDiv _ a b) = [a, b]"
| "op_inputs (FloatEqual _ a b) = [a, b]"
| "op_inputs (FloatNotEqual _ a b) = [a, b]"
| "op_inputs (FloatLess _ a b) = [a, b]"
| "op_inputs (FloatLessEqual _ a b) = [a, b]"
| "op_inputs (FloatNeg _ src) = [src]"
| "op_inputs (FloatAbs _ src) = [src]"
| "op_inputs (FloatSqrt _ src) = [src]"
| "op_inputs (FloatCeil _ src) = [src]"
| "op_inputs (FloatFloor _ src) = [src]"
| "op_inputs (FloatRound _ src) = [src]"
| "op_inputs (FloatNaN _ src) = [src]"
| "op_inputs (Int2Float _ src) = [src]"
| "op_inputs (Float2Int _ src) = [src]"
| "op_inputs (FloatFloat _ src) = [src]"
| "op_inputs (Trunc _ src) = [src]"
| "op_inputs (CallOther _ _ inputs) = inputs"
| "op_inputs Nop = []"
| "op_inputs Unimplemented = []"
| "op_inputs Breakpoint = []"
| "op_inputs (CpuId _) = []"
| "op_inputs (Multiequal _ inputs) = inputs"
| "op_inputs (Indirect _ src indirect) = [src, indirect]"
| "op_inputs (PtrAdd _ base index _) = [base, index]"
| "op_inputs (PtrSub _ base index _) = [base, index]"
| "op_inputs (SegmentOp _ segment offset) = [segment, offset]"
| "op_inputs (New _ src) = [src]"
| "op_inputs (Cast _ src) = [src]"
| "op_inputs (Extract _ src position) = [src, position]"
| "op_inputs (Insert _ src value position) = [src, value, position]"

text \<open>Mutable access to the inputs: \<open>inputs_mut\<close> followed by an update of each.\<close>

primrec op_map_inputs :: "(Varnode \<Rightarrow> Varnode) \<Rightarrow> R2ILOp \<Rightarrow> R2ILOp" where
  "op_map_inputs g (Copy dst src) = Copy dst (g src)"
| "op_map_inputs g (Load dst space addr) = Load dst space (g addr)"
| "op_map_inputs g (Store space addr val) = Store space (g addr) (g val)"
| "op_map_inputs g (Fence mo) = Fence mo"
| "op_map_inputs g (LoadLinked dst space addr mo) = LoadLinked dst space (g addr) mo"
| "op_map_inputs g (StoreConditional result space addr val mo) = StoreConditional result space (g addr) (g val) mo"
| "op_map_inputs g (AtomicCAS dst space addr expected replacement mo) = AtomicCAS dst space (g addr) (g expected) (g replacement) mo"
| "op_map_inputs g (LoadGuarded dst space addr guard mo) = LoadGuarded dst space (g addr) (g guard) mo"
| "op_map_inputs g (StoreGuarded space addr val guard mo) = StoreGuarded space (g addr) (g val) (g guard) mo"
| "op_map_inputs g (IntAdd dst a b) = IntAdd dst (g a) (g b)"
| "op_map_inputs g (IntSub dst a b) = IntSub dst (g a) (g b)"
| "op_map_inputs g (IntMult dst a b) = IntMult dst (g a) (g b)"
| "op_map_inputs g (IntDiv dst a b) = IntDiv dst (g a) (g b)"
| "op_map_inputs g (IntSDiv dst a b) = IntSDiv dst (g a) (g b)"
| "op_map_inputs g (IntRem dst a b) = IntRem dst (g a) (g b)"
| "op_map_inputs g (IntSRem dst a b) = IntSRem dst (g a) (g b)"
| "op_map_inputs g (IntCarry dst a b) = IntCarry dst (g a) (g b)"
| "op_map_inputs g (IntSCarry dst a b) = IntSCarry dst (g a) (g b)"
| "op_map_inputs g (IntSBorrow dst a b) = IntSBorrow dst (g a) (g b)"
| "op_map_inputs g (IntAnd dst a b) = IntAnd dst (g a) (g b)"
| "op_map_inputs g (IntOr dst a b) = IntOr dst (g a) (g b)"
| "op_map_inputs g (IntXor dst a b) = IntXor dst (g a) (g b)"
| "op_map_inputs g (IntLeft dst a b) = IntLeft dst (g a) (g b)"
| "op_map_inputs g (IntRight dst a b) = IntRight dst (g a) (g b)"
| "op_map_inputs g (IntSRight dst a b) = IntSRight dst (g a) (g b)"
| "op_map_inputs g (IntEqual dst a b) = IntEqual dst (g a) (g b)"
| "op_map_inputs g (IntNotEqual dst a b) = IntNotEqual dst (g a) (g b)"
| "op_map_inputs g (IntLess dst a b) = IntLess dst (g a) (g b)"
| "op_map_inputs g (IntSLess dst a b) = IntSLess dst (g a) (g b)"
| "op_map_inputs g (IntLessEqual dst a b) = IntLessEqual dst (g a) (g b)"
| "op_map_inputs g (IntSLessEqual dst a b) = IntSLessEqual dst (g a) (g b)"
| "op_map_inputs g (IntNegate dst src) = IntNegate dst (g src)"
| "op_map_inputs g (IntNot dst src) = IntNot dst (g src)"
| "op_map_inputs g (IntZExt dst src) = IntZExt dst (g src)"
| "op_map_inputs g (IntSExt dst src) = IntSExt dst (g src)"
| "op_map_inputs g (BoolNot dst src) = BoolNot dst (g src)"
| "op_map_inputs g (BoolAnd dst a b) = BoolAnd dst (g a) (g b)"
| "op_map_inputs g (BoolOr dst a b) = BoolOr dst (g a) (g b)"
| "op_map_inputs g (BoolXor dst a b) = BoolXor dst (g a) (g b)"
| "op_map_inputs g (Piece dst hi lo) = Piece dst (g hi) (g lo)"
| "op_map_inputs g (Subpiece dst src offset) = Subpiece dst (g src) offset"
| "op_map_inputs g (PopCount dst src) = PopCount dst (g src)"
| "op_map_inputs g (Lzcount dst src) = Lzcount dst (g src)"
| "op_map_inputs g (Branch target) = Branch (g target)"
| "op_map_inputs g (CBranch target cond) = CBranch (g target) (g cond)"
| "op_map_inputs g (BranchInd target) = BranchInd (g target)"
| "op_map_inputs g (Call target) = Call (g target)"
| "op_map_inputs g (CallInd target) = CallInd (g target)"
| "op_map_inputs g (Return target) = Return (g target)"
| "op_map_inputs g (FloatAdd dst a b) = FloatAdd dst (g a) (g b)"
| "op_map_inputs g (FloatSub dst a b) = FloatSub dst (g a) (g b)"
| "op_map_inputs g (FloatMult dst a b) = FloatMult dst (g a) (g b)"
| "op_map_inputs g (FloatDiv dst a b) = FloatDiv dst (g a) (g b)"
| "op_map_inputs g (FloatEqual dst a b) = FloatEqual dst (g a) (g b)"
| "op_map_inputs g (FloatNotEqual dst a b) = FloatNotEqual dst (g a) (g b)"
| "op_map_inputs g (FloatLess dst a b) = FloatLess dst (g a) (g b)"
| "op_map_inputs g (FloatLessEqual dst a b) = FloatLessEqual dst (g a) (g b)"
| "op_map_inputs g (FloatNeg dst src) = FloatNeg dst (g src)"
| "op_map_inputs g (FloatAbs dst src) = FloatAbs dst (g src)"
| "op_map_inputs g (FloatSqrt dst src) = FloatSqrt dst (g src)"
| "op_map_inputs g (FloatCeil dst src) = FloatCeil dst (g src)"
| "op_map_inputs g (FloatFloor dst src) = FloatFloor dst (g src)"
| "op_map_inputs g (FloatRound dst src) = FloatRound dst (g src)"
| "op_map_inputs g (FloatNaN dst src) = FloatNaN dst (g src)"
| "op_map_inputs g (Int2Float dst src) = Int2Float dst (g src)"
| "op_map_inputs g (Float2Int dst src) = Float2Int dst (g src)"
| "op_map_inputs g (FloatFloat dst src) = FloatFloat dst (g src)"
| "op_map_inputs g (Trunc dst src) = Trunc dst (g src)"
| "op_map_inputs g (CallOther output userop inputs) = CallOther output userop (map g inputs)"
| "op_map_inputs g Nop = Nop"
| "op_map_inputs g Unimplemented = Unimplemented"
| "op_map_inputs g Breakpoint = Breakpoint"
| "op_map_inputs g (CpuId dst) = CpuId dst"
| "op_map_inputs g (Multiequal dst inputs) = Multiequal dst (map g inputs)"
| "op_map_inputs g (Indirect dst src indirect) = Indirect dst (g src) (g indirect)"
| "op_map_inputs g (PtrAdd dst base index element_size) = PtrAdd dst (g base) (g index) element_size"
| "op_map_inputs g (PtrSub dst base index element_size) = PtrSub dst (g base) (g index) element_size"
| "op_map_inputs g (SegmentOp dst segment offset) = SegmentOp dst (g segment) (g offset)"
| "op_map_inputs g (New dst src) = New dst (g src)"
| "op_map_inputs g (Cast dst src) = Cast dst (g src)"
| "op_map_inputs g (Extract dst src position) = Extract dst (g src) (g position)"
| "op_map_inputs g (Insert dst src value position) = Insert dst (g src) (g value) (g position)"

declare op_output.simps [op_simps] op_inputs.simps [op_simps]

lemmas op_accessor_simps = op_output.simps op_inputs.simps

section \<open>Laws of the accessors\<close>

lemma op_inputs_map_inputs: "op_inputs (op_map_inputs g op) = map g (op_inputs op)"
  by (cases op) simp_all

lemma op_output_map_inputs: "op_output (op_map_inputs g op) = op_output op"
  by (cases op) simp_all

lemma op_output_map_output: "op_output (op_map_output g op) = map_option g (op_output op)"
  by (cases op) simp_all

lemma op_inputs_map_output: "op_inputs (op_map_output g op) = op_inputs op"
  by (cases op) simp_all

lemma control_flow_no_output: "op_is_control_flow op \<Longrightarrow> op_output op = None"
  by (cases op) (simp_all add: op_is_control_flow_def)

end

