(* ===== verification/R2IL_Block.thy ===== *)
theory R2IL_Block
  imports R2IL_Op
begin

text \<open>
  The lifted block \<open>R2ILBlock\<close> (\<open>r2il/src/opcode.rs\<close>): its operations, its switch table
  and its per-operation metadata, a \<open>BTreeMap\<close> keyed by operation index; and the invariant
  the block operations keep.
\<close>

section \<open>Lifted blocks\<close>

record SwitchCase =
  sc_value :: u64
  sc_target :: u64

record SwitchInfo =
  si_switch_addr :: u64
  si_min_val :: u64
  si_max_val :: u64
  si_default_target :: "u64 option"
  si_cases :: "SwitchCase list"

text \<open>\<open>op_metadata\<close> is a \<open>BTreeMap\<close>: an association list with strictly increasing keys.\<close>

record R2ILBlock =
  rb_addr :: u64
  rb_size :: u32
  rb_ops :: "R2ILOp list"
  rb_switch_info :: "SwitchInfo option"
  rb_op_metadata :: "(nat \<times> OpMetadata) list"

fun btree_insert :: "nat \<Rightarrow> 'a \<Rightarrow> (nat \<times> 'a) list \<Rightarrow> (nat \<times> 'a) list" where
  "btree_insert k v [] = [(k, v)]"
| "btree_insert k v ((k', v') # m) =
     (if k < k' then (k, v) # (k', v') # m
      else if k = k' then (k, v) # m
      else (k', v') # btree_insert k v m)"

definition btree_remove :: "nat \<Rightarrow> (nat \<times> 'a) list \<Rightarrow> (nat \<times> 'a) list" where
  "btree_remove k m = filter (\<lambda>(k', _). k' \<noteq> k) m"

definition block_new :: "u64 \<Rightarrow> u32 \<Rightarrow> R2ILBlock" where
  "block_new a sz =
     \<lparr>rb_addr = a, rb_size = sz, rb_ops = [], rb_switch_info = None, rb_op_metadata = []\<rparr>"

definition block_push :: "R2ILBlock \<Rightarrow> R2ILOp \<Rightarrow> R2ILBlock" where
  "block_push b op = b\<lparr>rb_ops := rb_ops b @ [op]\<rparr>"

definition push_with_metadata :: "R2ILBlock \<Rightarrow> R2ILOp \<Rightarrow> OpMetadata option \<Rightarrow> R2ILBlock" where
  "push_with_metadata b op meta =
     (let idx = length (rb_ops b); b' = b\<lparr>rb_ops := rb_ops b @ [op]\<rparr>
      in case meta of
           Some m \<Rightarrow> b'\<lparr>rb_op_metadata := btree_insert idx m (rb_op_metadata b')\<rparr>
         | None \<Rightarrow> b')"

definition set_op_metadata :: "R2ILBlock \<Rightarrow> nat \<Rightarrow> OpMetadata \<Rightarrow> R2ILBlock" where
  "set_op_metadata b i m = b\<lparr>rb_op_metadata := btree_insert i m (rb_op_metadata b)\<rparr>"

definition op_metadata :: "R2ILBlock \<Rightarrow> nat \<Rightarrow> OpMetadata option" where
  "op_metadata b i = map_of (rb_op_metadata b) i"

definition remove_op_metadata :: "R2ILBlock \<Rightarrow> nat \<Rightarrow> R2ILBlock \<times> OpMetadata option" where
  "remove_op_metadata b i =
     (b\<lparr>rb_op_metadata := btree_remove i (rb_op_metadata b)\<rparr>, map_of (rb_op_metadata b) i)"

definition set_switch_info :: "R2ILBlock \<Rightarrow> SwitchInfo \<Rightarrow> R2ILBlock" where
  "set_switch_info b info = b\<lparr>rb_switch_info := Some info\<rparr>"

text \<open>The metadata map behaves as a map and keeps its keys sorted.\<close>

definition btree_ok :: "(nat \<times> 'a) list \<Rightarrow> bool" where
  "btree_ok m \<longleftrightarrow> sorted_wrt (<) (map fst m)"

lemma map_of_btree_insert: "map_of (btree_insert k v m) = (map_of m)(k \<mapsto> v)"
  by (induction k v m rule: btree_insert.induct) (auto simp: fun_eq_iff)

lemma fst_btree_insert: "set (map fst (btree_insert k v m)) = insert k (set (map fst m))"
  by (induction k v m rule: btree_insert.induct) auto

lemma btree_ok_insert: "btree_ok m \<Longrightarrow> btree_ok (btree_insert k v m)"
proof (induction k v m rule: btree_insert.induct)
  case (2 k v k' v' m)
  then show ?case
    using fst_btree_insert [of k v m] unfolding btree_ok_def by auto
qed (simp add: btree_ok_def)

lemma map_of_btree_remove: "map_of (btree_remove k m) = (map_of m)(k := None)"
  by (induction m) (auto simp: btree_remove_def fun_eq_iff)

lemma btree_ok_remove: "btree_ok m \<Longrightarrow> btree_ok (btree_remove k m)"
  by (induction m) (auto simp: btree_ok_def btree_remove_def)

text \<open>The invariant of a block that its own operations keep: metadata keys are sorted and name
  operations of the block.\<close>

definition block_inv :: "R2ILBlock \<Rightarrow> bool" where
  "block_inv b \<longleftrightarrow> btree_ok (rb_op_metadata b) \<and>
     list_all (\<lambda>i. i < length (rb_ops b)) (map fst (rb_op_metadata b))"

lemma list_all_btree_insert:
  "list_all P (map fst (btree_insert k v m)) \<longleftrightarrow> P k \<and> list_all P (map fst m)"
  by (induction k v m rule: btree_insert.induct) auto

lemma list_all_btree_remove:
  "list_all P (map fst m) \<Longrightarrow> list_all P (map fst (btree_remove k m))"
  by (induction m) (auto simp: btree_remove_def)

lemma list_all_less_Suc: "list_all (\<lambda>i. i < n) xs \<Longrightarrow> list_all (\<lambda>i. i < Suc n) xs"
  by (auto simp: list_all_iff less_Suc_eq)

lemma block_inv_new: "block_inv (block_new a sz)"
  by (simp add: block_inv_def block_new_def btree_ok_def)

lemma block_inv_push: "block_inv b \<Longrightarrow> block_inv (block_push b op)"
  by (simp add: block_inv_def block_push_def list_all_less_Suc)

lemma block_inv_push_with_metadata: "block_inv b \<Longrightarrow> block_inv (push_with_metadata b op m)"
  by (cases m)
    (simp_all add: block_inv_def push_with_metadata_def Let_def btree_ok_insert
      list_all_btree_insert list_all_less_Suc)

lemma block_inv_set_op_metadata:
  "block_inv b \<Longrightarrow> i < length (rb_ops b) \<Longrightarrow> block_inv (set_op_metadata b i m)"
  by (simp add: block_inv_def set_op_metadata_def btree_ok_insert list_all_btree_insert)

lemma block_inv_remove: "block_inv b \<Longrightarrow> block_inv (fst (remove_op_metadata b i))"
  by (simp add: block_inv_def remove_op_metadata_def btree_ok_remove list_all_btree_remove)

end
