(* ===== verification/R2IL_Arch.thy ===== *)
theory R2IL_Arch
  imports R2IL_Block
begin

text \<open>
  Architecture specifications: \<open>AddressSpace\<close> (\<open>space.rs\<close>), \<open>RegisterDef\<close>,
  \<open>UserOpDef\<close> and \<open>ArchSpec\<close> with its builder operations (\<open>serialize.rs\<close>). The
  invariant \<open>arch_inv\<close> ties the legacy endianness flag to the memory endianness and the
  register map to the register list; every builder operation keeps it.
\<close>

record AddressSpace =
  as_id :: SpaceId
  as_name :: string
  as_addr_size :: u32
  as_word_size :: u32
  as_is_default :: bool
  as_endianness :: "Endianness option"
  as_memory_class :: "MemoryClass option"
  as_permissions :: "MemoryPermissions option"
  as_valid_ranges :: "MemoryRange list"
  as_bank_id :: "string option"
  as_segment_id :: "string option"

definition space_new :: "SpaceId \<Rightarrow> string \<Rightarrow> u32 \<Rightarrow> AddressSpace" where
  "space_new i nm sz =
     \<lparr>as_id = i, as_name = nm, as_addr_size = sz, as_word_size = 1, as_is_default = False,
      as_endianness = None, as_memory_class = None, as_permissions = None,
      as_valid_ranges = [], as_bank_id = None, as_segment_id = None\<rparr>"

definition space_ram :: "u32 \<Rightarrow> AddressSpace" where
  "space_ram sz =
     \<lparr>as_id = Ram, as_name = ''ram'', as_addr_size = sz, as_word_size = 1, as_is_default = True,
      as_endianness = None, as_memory_class = None, as_permissions = None,
      as_valid_ranges = [], as_bank_id = None, as_segment_id = None\<rparr>"

definition space_register :: AddressSpace where
  "space_register =
     \<lparr>as_id = Register, as_name = ''register'', as_addr_size = 4, as_word_size = 1,
      as_is_default = False,
      as_endianness = None, as_memory_class = None, as_permissions = None,
      as_valid_ranges = [], as_bank_id = None, as_segment_id = None\<rparr>"

definition space_unique :: AddressSpace where
  "space_unique =
     \<lparr>as_id = Unique, as_name = ''unique'', as_addr_size = 4, as_word_size = 1,
      as_is_default = False,
      as_endianness = None, as_memory_class = None, as_permissions = None,
      as_valid_ranges = [], as_bank_id = None, as_segment_id = None\<rparr>"

definition space_constant :: AddressSpace where
  "space_constant =
     \<lparr>as_id = Const, as_name = ''const'', as_addr_size = 8, as_word_size = 1,
      as_is_default = False,
      as_endianness = None, as_memory_class = None, as_permissions = None,
      as_valid_ranges = [], as_bank_id = None, as_segment_id = None\<rparr>"

record RegisterDef =
  rd_name :: string
  rd_offset :: u64
  rd_size :: u32
  rd_parent :: "string option"

definition register_new :: "string \<Rightarrow> u64 \<Rightarrow> u32 \<Rightarrow> RegisterDef" where
  "register_new nm off sz = \<lparr>rd_name = nm, rd_offset = off, rd_size = sz, rd_parent = None\<rparr>"

definition register_sub :: "string \<Rightarrow> u64 \<Rightarrow> u32 \<Rightarrow> string \<Rightarrow> RegisterDef" where
  "register_sub nm off sz parent =
     \<lparr>rd_name = nm, rd_offset = off, rd_size = sz, rd_parent = Some parent\<rparr>"

record UserOpDef =
  ud_index :: u32
  ud_name :: string

record ArchSpec =
  ar_name :: string
  ar_variant :: string
  ar_big_endian :: bool
  ar_instruction_endianness :: Endianness
  ar_memory_endianness :: Endianness
  ar_addr_size :: u32
  ar_alignment :: u32
  ar_spaces :: "AddressSpace list"
  ar_registers :: "RegisterDef list"
  ar_register_map :: "(string, u64) hashmap"
  ar_userops :: "UserOpDef list"
  ar_source_files :: "string list"

definition arch_new :: "string \<Rightarrow> ArchSpec" where
  "arch_new nm =
     \<lparr>ar_name = nm, ar_variant = ''default'', ar_big_endian = False,
      ar_instruction_endianness = Little, ar_memory_endianness = Little,
      ar_addr_size = 8, ar_alignment = 1, ar_spaces = [], ar_registers = [],
      ar_register_map = [], ar_userops = [], ar_source_files = []\<rparr>"

definition sync_legacy_big_endian :: "ArchSpec \<Rightarrow> ArchSpec" where
  "sync_legacy_big_endian a =
     a\<lparr>ar_big_endian := to_legacy_big_endian (ar_memory_endianness a)\<rparr>"

definition set_instruction_endianness :: "ArchSpec \<Rightarrow> Endianness \<Rightarrow> ArchSpec" where
  "set_instruction_endianness a e =
     sync_legacy_big_endian (a\<lparr>ar_instruction_endianness := e\<rparr>)"

definition set_memory_endianness :: "ArchSpec \<Rightarrow> Endianness \<Rightarrow> ArchSpec" where
  "set_memory_endianness a e = sync_legacy_big_endian (a\<lparr>ar_memory_endianness := e\<rparr>)"

definition set_legacy_big_endian :: "ArchSpec \<Rightarrow> bool \<Rightarrow> ArchSpec" where
  "set_legacy_big_endian a b =
     (let v2 = from_big_endian b in
      a\<lparr>ar_big_endian := b, ar_instruction_endianness := v2, ar_memory_endianness := v2\<rparr>)"

definition add_register :: "ArchSpec \<Rightarrow> RegisterDef \<Rightarrow> ArchSpec" where
  "add_register a reg =
     a\<lparr>ar_register_map := hm_insert (rd_name reg) (rd_offset reg) (ar_register_map a),
       ar_registers := ar_registers a @ [reg]\<rparr>"

definition add_space :: "ArchSpec \<Rightarrow> AddressSpace \<Rightarrow> ArchSpec" where
  "add_space a s = a\<lparr>ar_spaces := ar_spaces a @ [s]\<rparr>"

definition get_register :: "ArchSpec \<Rightarrow> string \<Rightarrow> RegisterDef option" where
  "get_register a nm = find (\<lambda>r. rd_name r = nm) (ar_registers a)"

definition get_register_offset :: "ArchSpec \<Rightarrow> string \<Rightarrow> u64 option" where
  "get_register_offset a nm = hm_get (ar_register_map a) nm"

section \<open>The invariant of the builder\<close>

definition legacy_in_sync :: "ArchSpec \<Rightarrow> bool" where
  "legacy_in_sync a \<longleftrightarrow> ar_big_endian a = to_legacy_big_endian (ar_memory_endianness a)"

text \<open>The offset the map gives to a name is the offset of the last register of that name, and the
  map has no other names.\<close>

definition map_in_sync :: "ArchSpec \<Rightarrow> bool" where
  "map_in_sync a \<longleftrightarrow> hm_ok (ar_register_map a) \<and>
     (\<forall>nm. hm_get (ar_register_map a) nm =
        map_option rd_offset (find (\<lambda>r. rd_name r = nm) (rev (ar_registers a))))"

definition arch_inv :: "ArchSpec \<Rightarrow> bool" where
  "arch_inv a \<longleftrightarrow> legacy_in_sync a \<and> map_in_sync a"

lemma legacy_in_sync_sync [simp]: "legacy_in_sync (sync_legacy_big_endian a)"
  by (simp add: legacy_in_sync_def sync_legacy_big_endian_def)

lemma sync_legacy_id: "legacy_in_sync a \<Longrightarrow> sync_legacy_big_endian a = a"
  by (simp add: legacy_in_sync_def sync_legacy_big_endian_def)

lemma sync_legacy_idem [simp]:
  "sync_legacy_big_endian (sync_legacy_big_endian a) = sync_legacy_big_endian a"
  by (rule sync_legacy_id) simp

lemma arch_inv_new: "arch_inv (arch_new nm)"
  by (simp add: arch_inv_def arch_new_def legacy_in_sync_def map_in_sync_def
      to_legacy_big_endian_def is_big_def hm_ok_def hm_get_def)

lemma sync_legacy_frame [simp]:
  "ar_register_map (sync_legacy_big_endian a) = ar_register_map a"
  "ar_registers (sync_legacy_big_endian a) = ar_registers a"
  "ar_spaces (sync_legacy_big_endian a) = ar_spaces a"
  "ar_name (sync_legacy_big_endian a) = ar_name a"
  by (simp_all add: sync_legacy_big_endian_def)

lemma map_in_sync_cong:
  "ar_register_map a = ar_register_map b \<Longrightarrow> ar_registers a = ar_registers b \<Longrightarrow>
   map_in_sync a \<longleftrightarrow> map_in_sync b"
  by (simp add: map_in_sync_def)

lemma map_in_sync_sync [simp]: "map_in_sync (sync_legacy_big_endian a) \<longleftrightarrow> map_in_sync a"
  by (rule map_in_sync_cong) simp_all

lemma map_in_sync_add_register: "map_in_sync a \<Longrightarrow> map_in_sync (add_register a reg)"
  by (simp add: map_in_sync_def add_register_def hm_ok_insert hm_get_insert)

lemma arch_inv_set_instruction_endianness:
  "arch_inv a \<Longrightarrow> arch_inv (set_instruction_endianness a e)"
  by (simp add: arch_inv_def set_instruction_endianness_def map_in_sync_def)

lemma arch_inv_set_memory_endianness: "arch_inv a \<Longrightarrow> arch_inv (set_memory_endianness a e)"
  by (simp add: arch_inv_def set_memory_endianness_def map_in_sync_def)

lemma arch_inv_set_legacy_big_endian: "arch_inv a \<Longrightarrow> arch_inv (set_legacy_big_endian a b)"
  by (simp add: arch_inv_def set_legacy_big_endian_def legacy_in_sync_def map_in_sync_def Let_def)

lemma arch_inv_add_register: "arch_inv a \<Longrightarrow> arch_inv (add_register a reg)"
  using map_in_sync_add_register [of a reg]
  by (simp add: arch_inv_def legacy_in_sync_def add_register_def)

lemma arch_inv_add_space: "arch_inv a \<Longrightarrow> arch_inv (add_space a s)"
  by (simp add: arch_inv_def legacy_in_sync_def map_in_sync_def add_space_def)

end
