(* ===== verification/R2IL_Validate.thy ===== *)
theory R2IL_Validate
  imports R2IL_Arch
begin

text \<open>
  The validator of architecture specifications and lifted blocks (\<open>r2il/src/validate.rs\<close>).
  A check that appends to the vector \<open>issues\<close> is a function that returns the issues it
  appends; \<open>Ok(())\<close> is \<open>Inr ()\<close> and \<open>Err\<close> carries the issues in the order the source
  pushes them. The second half gives the declarative well-formedness predicates
  (\<open>arch_wf\<close>, \<open>op_wf\<close>, \<open>op_widths_ok\<close>, \<open>block_wf\<close>), stated over widths and
  intervals as natural numbers, and shows that the validator decides them.
\<close>

section \<open>Issues\<close>

record ValidationIssue =
  vi_code :: string
  vi_path :: string
  vi_message :: string

record ValidationError =
  ve_issues :: "ValidationIssue list"

definition issue :: "string \<Rightarrow> string \<Rightarrow> string \<Rightarrow> ValidationIssue" where
  "issue c p m = \<lparr>vi_code = c, vi_path = p, vi_message = m\<rparr>"

definition from_issues :: "ValidationIssue list \<Rightarrow> ValidationError" where
  "from_issues is = \<lparr>ve_issues = is\<rparr>"

definition finish :: "ValidationIssue list \<Rightarrow> ValidationError + unit" where
  "finish is = (if is = [] then Inr () else Inl (from_issues is))"

definition issues_of :: "ValidationError + unit \<Rightarrow> ValidationIssue list" where
  "issues_of r = (case r of Inl e \<Rightarrow> ve_issues e | Inr _ \<Rightarrow> [])"

definition idx :: "string \<Rightarrow> nat \<Rightarrow> string" where
  "idx p i = p @ ''['' @ show_dec i @ '']''"

definition hex64 :: "u64 \<Rightarrow> string" where
  "hex64 w = ''0x'' @ show_hex (unat w)"

definition dec32 :: "u32 \<Rightarrow> string" where
  "dec32 w = show_dec (unat w)"

definition dec64 :: "u64 \<Rightarrow> string" where
  "dec64 w = show_dec (unat w)"

definition show_bool :: "bool \<Rightarrow> string" where
  "show_bool b = (if b then ''true'' else ''false'')"

definition show_validation_error :: "ValidationError \<Rightarrow> string" where
  "show_validation_error e =
     ''r2il validation failed with '' @ show_dec (length (ve_issues e)) @ '' issue(s):'' @ [CHR 0x0A] @
     concat (map (\<lambda>i. ''  - ['' @ vi_code i @ ''] '' @ vi_path i @ '': '' @ vi_message i @ [CHR 0x0A])
       (ve_issues e))"

section \<open>Architecture specifications\<close>

text \<open>The tests on optional identifiers and ranges are written out three times in the source (for
  spaces, varnode metadata and operation metadata); they differ in the code and the messages.\<close>

definition empty_id_issue ::
  "string \<Rightarrow> string \<Rightarrow> string \<Rightarrow> string option \<Rightarrow> ValidationIssue list" where
  "empty_id_issue c p m i =
     (case i of Some s \<Rightarrow> (if trim s = [] then [issue c p m] else []) | None \<Rightarrow> [])"

definition range_issue :: "string \<Rightarrow> string \<Rightarrow> MemoryRange \<Rightarrow> ValidationIssue list" where
  "range_issue c p r =
     (if mr_start r \<ge> mr_end r then
        [issue c p
          (''invalid half-open range ['' @ hex64 (mr_start r) @ '', '' @ hex64 (mr_end r) @
           '') (start must be < end)'')]
      else [])"

fun range_issues :: "string \<Rightarrow> nat \<Rightarrow> MemoryRange list \<Rightarrow> ValidationIssue list" where
  "range_issues p k [] = []"
| "range_issues p k (r # rs) =
     range_issue ''arch.space.range.invalid'' (idx (p @ ''.valid_ranges'') k) r @
     range_issues p (Suc k) rs"

fun space_issues ::
  "nat \<Rightarrow> SpaceId list \<Rightarrow> string list \<Rightarrow> AddressSpace list \<Rightarrow> ValidationIssue list" where
  "space_issues i seen_ids seen_names [] = []"
| "space_issues i seen_ids seen_names (s # ss) =
     (let p = idx ''arch.spaces'' i in
      (if as_id s \<in> set seen_ids then
         [issue ''arch.spaces.duplicate_id'' (p @ ''.id'')
            (''duplicate space id '' @ [CHR 0x27] @ show_space (as_id s) @ [CHR 0x27])]
       else []) @
      (if as_name s \<in> set seen_names then
         [issue ''arch.spaces.duplicate_name'' (p @ ''.name'')
            (''duplicate space name '' @ [CHR 0x27] @ as_name s @ [CHR 0x27])]
       else []) @
      empty_id_issue ''arch.space.bank_id.empty'' (p @ ''.bank_id'')
        ''bank_id must not be empty when present'' (as_bank_id s) @
      empty_id_issue ''arch.space.segment_id.empty'' (p @ ''.segment_id'')
        ''segment_id must not be empty when present'' (as_segment_id s) @
      range_issues p 0 (as_valid_ranges s) @
      space_issues (Suc i) (as_id s # seen_ids) (as_name s # seen_names) ss)"

fun register_issues :: "nat \<Rightarrow> string list \<Rightarrow> RegisterDef list \<Rightarrow> ValidationIssue list" where
  "register_issues i seen [] = []"
| "register_issues i seen (r # rs) =
     (let p = idx ''arch.registers'' i in
      (if rd_size r = 0 then
         [issue ''arch.registers.size.zero'' (p @ ''.size'') ''register size must be > 0'']
       else []) @
      (if rd_name r \<in> set seen then
         [issue ''arch.registers.duplicate_name'' (p @ ''.name'')
            (''duplicate register name '' @ [CHR 0x27] @ rd_name r @ [CHR 0x27])]
       else []) @
      register_issues (Suc i) (rd_name r # seen) rs)"

text \<open>\<open>reg_by_name\<close> after the loop: a later register of the same name overwrites.\<close>

definition reg_by_name :: "RegisterDef list \<Rightarrow> string \<Rightarrow> u64 option" where
  "reg_by_name regs nm = map_option rd_offset (find (\<lambda>r. rd_name r = nm) (rev regs))"

definition map_entry_issues :: "RegisterDef list \<Rightarrow> string \<times> u64 \<Rightarrow> ValidationIssue list" where
  "map_entry_issues regs e =
     (let nm = fst e; off = snd e; p = ''arch.register_map['' @ nm @ '']'' in
      case reg_by_name regs nm of
        None \<Rightarrow> [issue ''arch.register_map.unknown_register'' p
                  (''register_map entry references unknown register '' @ [CHR 0x27] @ nm @
                   [CHR 0x27])]
      | Some reg_offset \<Rightarrow>
          if reg_offset \<noteq> off then
            [issue ''arch.register_map.offset_mismatch'' p
               (''register_map offset '' @ dec64 off @ '' does not match register offset '' @
                dec64 reg_offset)]
          else [])"

definition reg_entry_issues ::
  "(string, u64) hashmap \<Rightarrow> nat \<times> RegisterDef \<Rightarrow> ValidationIssue list" where
  "reg_entry_issues m ir =
     (let r = snd ir; p = idx ''arch.registers'' (fst ir) in
      case hm_get m (rd_name r) of
        None \<Rightarrow> [issue ''arch.register_map.missing_entry'' p
                  (''missing register_map entry for '' @ [CHR 0x27] @ rd_name r @ [CHR 0x27])]
      | Some off \<Rightarrow>
          if off \<noteq> rd_offset r then
            [issue ''arch.register_map.offset_mismatch'' p
               (''register '' @ [CHR 0x27] @ rd_name r @ [CHR 0x27] @ '' offset '' @
                dec64 (rd_offset r) @ '' mismatches register_map offset '' @ dec64 off)]
          else [])"

fun userop_issues :: "nat \<Rightarrow> u32 list \<Rightarrow> UserOpDef list \<Rightarrow> ValidationIssue list" where
  "userop_issues i seen [] = []"
| "userop_issues i seen (u # us) =
     (if ud_index u \<in> set seen then
        [issue ''arch.userops.duplicate_index'' (idx ''arch.userops'' i @ ''.index'')
           (''duplicate userop index '' @ dec32 (ud_index u))]
      else []) @
     userop_issues (Suc i) (ud_index u # seen) us"

definition default_count :: "AddressSpace list \<Rightarrow> nat" where
  "default_count ss = length (filter as_is_default ss)"

definition archspec_issues :: "ArchSpec \<Rightarrow> ValidationIssue list" where
  "archspec_issues a =
     (if trim (ar_name a) = [] then
        [issue ''arch.name.empty'' ''arch.name'' ''architecture name must not be empty'']
      else []) @
     (if ar_addr_size a = 0 then
        [issue ''arch.addr_size.zero'' ''arch.addr_size'' ''address size must be > 0'']
      else []) @
     (if ar_alignment a = 0 then
        [issue ''arch.alignment.zero'' ''arch.alignment'' ''alignment must be > 0'']
      else []) @
     (let expected_legacy = to_legacy_big_endian (ar_memory_endianness a) in
      if ar_big_endian a \<noteq> expected_legacy then
        [issue ''arch.endianness.legacy_mismatch'' ''arch.big_endian''
           (''legacy big_endian ('' @ show_bool (ar_big_endian a) @
            '') does not match derived memory endianness ('' @ show_bool expected_legacy @ '')'')]
      else []) @
     (if ar_spaces a = [] then
        [issue ''arch.spaces.empty'' ''arch.spaces'' ''at least one address space is required'']
      else []) @
     (if default_count (ar_spaces a) \<noteq> 1 then
        [issue ''arch.spaces.default_count'' ''arch.spaces''
           (''exactly one default address space is required (found '' @
            show_dec (default_count (ar_spaces a)) @ '')'')]
      else []) @
     space_issues 0 [] [] (ar_spaces a) @
     register_issues 0 [] (ar_registers a) @
     concat (map (map_entry_issues (ar_registers a)) (ar_register_map a)) @
     concat (map (reg_entry_issues (ar_register_map a)) (enumerate 0 (ar_registers a))) @
     userop_issues 0 [] (ar_userops a)"

definition validate_archspec :: "ArchSpec \<Rightarrow> ValidationError + unit" where
  "validate_archspec a = finish (archspec_issues a)"

section \<open>Structural checks of operations and blocks\<close>

definition validate_varnode :: "Varnode \<Rightarrow> string \<Rightarrow> bool \<Rightarrow> ValidationIssue list" where
  "validate_varnode v p is_output =
     (if vn_size v = 0 then
        [issue ''varnode.size.zero'' (p @ ''.size'') ''varnode size must be > 0'']
      else []) @
     (if is_output \<and> vn_space v = Const then
        [issue ''varnode.output_const_space'' (p @ ''.space'')
           ''output/destination varnode must not be const space'']
      else []) @
     (case vn_meta v of
        None \<Rightarrow> []
      | Some m \<Rightarrow>
          empty_id_issue ''varnode.meta.bank_id.empty'' (p @ ''.meta.bank_id'')
            ''metadata bank_id must not be empty when present'' (vm_bank_id m) @
          empty_id_issue ''varnode.meta.segment_id.empty'' (p @ ''.meta.segment_id'')
            ''metadata segment_id must not be empty when present'' (vm_segment_id m) @
          (case vm_valid_range m of
             Some r \<Rightarrow> range_issue ''varnode.meta.range.invalid'' (p @ ''.meta.valid_range'') r
           | None \<Rightarrow> []))"

definition op_path :: "nat \<Rightarrow> string" where
  "op_path i = idx ''block.ops'' i"

definition space_const_issue :: "string \<Rightarrow> string \<Rightarrow> nat \<Rightarrow> SpaceId \<Rightarrow> ValidationIssue list" where
  "space_const_issue c m i s = (if s = Const then [issue c (op_path i @ ''.space'') m] else [])"

definition op_special_issues :: "R2ILOp \<Rightarrow> nat \<Rightarrow> ValidationIssue list" where
  "op_special_issues op i =
     (case op of
        Load _ space _ \<Rightarrow>
          space_const_issue ''op.load.space_const'' ''load space must not be const'' i space
      | LoadLinked _ space _ _ \<Rightarrow>
          space_const_issue ''op.load_linked.space_const'' ''load-linked space must not be const'' i space
      | Store space _ _ \<Rightarrow>
          space_const_issue ''op.store.space_const'' ''store space must not be const'' i space
      | StoreConditional _ space _ _ _ \<Rightarrow>
          space_const_issue ''op.store_conditional.space_const''
       ''store-conditional space must not be const'' i space
      | AtomicCAS _ space _ _ _ _ \<Rightarrow>
          space_const_issue ''op.atomic_cas.space_const'' ''atomic CAS space must not be const'' i space
      | LoadGuarded _ space _ _ _ \<Rightarrow>
          space_const_issue ''op.load_guarded.space_const'' ''guarded load space must not be const'' i space
      | StoreGuarded space _ _ _ _ \<Rightarrow>
          space_const_issue ''op.store_guarded.space_const''
       ''guarded store space must not be const'' i space
      | PtrAdd _ _ _ element_size \<Rightarrow>
          (if element_size = 0 then
        [issue ''op.ptradd.element_size_zero'' (op_path i @ ''.element_size'')
           ''PtrAdd element_size must be > 0'']
      else [])
      | PtrSub _ _ _ element_size \<Rightarrow>
          (if element_size = 0 then
        [issue ''op.ptrsub.element_size_zero'' (op_path i @ ''.element_size'')
           ''PtrSub element_size must be > 0'']
      else [])
      | Multiequal _ inputs \<Rightarrow>
          (if inputs = [] then
        [issue ''op.multiequal.inputs_empty'' (op_path i @ ''.inputs'')
           ''Multiequal inputs must not be empty'']
      else [])
      | CallOther output _ _ \<Rightarrow>
          (case output of
        Some out \<Rightarrow>
          (if vn_space out = Const then
             [issue ''op.callother.output_const'' (op_path i @ ''.output'')
                ''CallOther output must not be const space'']
           else [])
      | None \<Rightarrow> [])
      | _ \<Rightarrow>
          [])"

definition input_issues :: "nat \<Rightarrow> nat \<times> Varnode \<Rightarrow> ValidationIssue list" where
  "input_issues i kv = validate_varnode (snd kv) (idx (op_path i @ ''.inputs'') (fst kv)) False"

definition op_issues :: "R2ILOp \<Rightarrow> nat \<Rightarrow> ValidationIssue list" where
  "op_issues op i =
     concat (map (input_issues i) (enumerate 0 (op_inputs op))) @
     (case op_output op of
        Some out \<Rightarrow> validate_varnode out (op_path i @ ''.output'') True
      | None \<Rightarrow> []) @
     op_special_issues op i"

definition validate_op :: "R2ILOp \<Rightarrow> nat \<Rightarrow> ValidationError + unit" where
  "validate_op op i = finish (op_issues op i)"

definition op_metadata_issues :: "nat \<Rightarrow> nat \<times> OpMetadata \<Rightarrow> ValidationIssue list" where
  "op_metadata_issues n e =
     (let i = fst e; m = snd e; p = idx ''block.op_metadata'' i in
      (if i \<ge> n then
         [issue ''block.op_metadata.index_oob'' p
            (''op metadata index '' @ show_dec i @ '' is out of bounds for '' @ show_dec n @
             '' op(s)'')]
       else []) @
      empty_id_issue ''block.op_metadata.bank_id.empty'' (p @ ''.bank_id'')
        ''op metadata bank_id must not be empty when present'' (om_bank_id m) @
      empty_id_issue ''block.op_metadata.segment_id.empty'' (p @ ''.segment_id'')
        ''op metadata segment_id must not be empty when present'' (om_segment_id m) @
      (case om_valid_range m of
         Some r \<Rightarrow> range_issue ''block.op_metadata.range.invalid'' (p @ ''.valid_range'') r
       | None \<Rightarrow> []))"

fun case_issues :: "SwitchInfo \<Rightarrow> nat \<Rightarrow> u64 list \<Rightarrow> SwitchCase list \<Rightarrow> ValidationIssue list" where
  "case_issues sw i seen [] = []"
| "case_issues sw i seen (c # cs) =
     (let p = idx ''block.switch_info.cases'' i @ ''.value'' in
      (if sc_value c < si_min_val sw \<or> sc_value c > si_max_val sw then
         [issue ''block.switch.case_out_of_range'' p
            (''case value '' @ dec64 (sc_value c) @ '' is outside switch range ['' @
             dec64 (si_min_val sw) @ '', '' @ dec64 (si_max_val sw) @ '']'')]
       else []) @
      (if sc_value c \<in> set seen then
         [issue ''block.switch.duplicate_case_value'' p
            (''duplicate switch case value '' @ dec64 (sc_value c))]
       else []) @
      case_issues sw (Suc i) (sc_value c # seen) cs)"

definition switch_issues :: "SwitchInfo \<Rightarrow> ValidationIssue list" where
  "switch_issues sw =
     (if si_min_val sw > si_max_val sw then
        [issue ''block.switch.range_invalid'' ''block.switch_info''
           (''switch min_val ('' @ dec64 (si_min_val sw) @ '') must be <= max_val ('' @
            dec64 (si_max_val sw) @ '')'')]
      else []) @
     case_issues sw 0 [] (si_cases sw)"

definition block_issues :: "R2ILBlock \<Rightarrow> ValidationIssue list" where
  "block_issues b =
     (if rb_size b = 0 then
        [issue ''block.size.zero'' ''block.size'' ''block size must be > 0''] else []) @
     concat (map (\<lambda>(i, op). issues_of (validate_op op i)) (enumerate 0 (rb_ops b))) @
     concat (map (op_metadata_issues (length (rb_ops b))) (rb_op_metadata b)) @
     (case rb_switch_info b of Some sw \<Rightarrow> switch_issues sw | None \<Rightarrow> [])"

definition validate_block :: "R2ILBlock \<Rightarrow> ValidationError + unit" where
  "validate_block b = finish (block_issues b)"

section \<open>Semantic checks\<close>

text \<open>The address width of an architecture: its own, or the program counter's, or the default
  space's, or the widest space's.\<close>

definition pc_names :: "string list" where
  "pc_names = [''pc'', ''ip'', ''eip'', ''rip'']"

definition max_u32 :: "u32 list \<Rightarrow> u32 option" where
  "max_u32 xs = (case xs of [] \<Rightarrow> None | x # ys \<Rightarrow> Some (foldl max x ys))"

definition opt_filter :: "('a \<Rightarrow> bool) \<Rightarrow> 'a option \<Rightarrow> 'a option" where
  "opt_filter P x = (case x of Some v \<Rightarrow> if P v then Some v else None | None \<Rightarrow> None)"

definition effective_arch_addr_size :: "ArchSpec \<Rightarrow> u32" where
  "effective_arch_addr_size a =
     (if ar_addr_size a > 1 then ar_addr_size a
      else case opt_filter (\<lambda>s. s > 1) (map_option rd_size
              (find (\<lambda>r. to_ascii_lowercase (rd_name r) \<in> set pc_names) (ar_registers a))) of
        Some pc_size \<Rightarrow> pc_size
      | None \<Rightarrow>
          (case map_option as_addr_size
              (find (\<lambda>s. as_is_default s \<and> as_addr_size s > 1) (ar_spaces a)) of
             Some default_size \<Rightarrow> default_size
           | None \<Rightarrow>
               (case opt_filter (\<lambda>s. s > 1) (max_u32 (map as_addr_size (ar_spaces a))) of
                  Some w \<Rightarrow> w
                | None \<Rightarrow> max (ar_addr_size a) 1)))"

definition addr_space_size :: "SpaceId \<Rightarrow> ArchSpec \<Rightarrow> u32" where
  "addr_space_size space a =
     (let arch_size = effective_arch_addr_size a;
          space_size = (case find (\<lambda>s. as_id s = space) (ar_spaces a) of
            Some s \<Rightarrow> as_addr_size s | None \<Rightarrow> arch_size)
      in if space_size \<le> 1 then arch_size else space_size)"

definition semantic_op_name :: "R2ILOp \<Rightarrow> string" where
  "semantic_op_name op =
     (case op of
        IntAdd _ _ _ \<Rightarrow>
          ''intadd''
      | IntSub _ _ _ \<Rightarrow>
          ''intsub''
      | IntMult _ _ _ \<Rightarrow>
          ''intmult''
      | IntDiv _ _ _ \<Rightarrow>
          ''intdiv''
      | IntSDiv _ _ _ \<Rightarrow>
          ''intsdiv''
      | IntRem _ _ _ \<Rightarrow>
          ''intrem''
      | IntSRem _ _ _ \<Rightarrow>
          ''intsrem''
      | IntAnd _ _ _ \<Rightarrow>
          ''intand''
      | IntOr _ _ _ \<Rightarrow>
          ''intor''
      | IntXor _ _ _ \<Rightarrow>
          ''intxor''
      | IntNegate _ _ \<Rightarrow>
          ''intnegate''
      | IntNot _ _ \<Rightarrow>
          ''intnot''
      | IntLeft _ _ _ \<Rightarrow>
          ''intleft''
      | IntRight _ _ _ \<Rightarrow>
          ''intright''
      | IntSRight _ _ _ \<Rightarrow>
          ''intsright''
      | IntCarry _ _ _ \<Rightarrow>
          ''intcarry''
      | IntSCarry _ _ _ \<Rightarrow>
          ''intscarry''
      | IntSBorrow _ _ _ \<Rightarrow>
          ''intsborrow''
      | IntEqual _ _ _ \<Rightarrow>
          ''intequal''
      | IntNotEqual _ _ _ \<Rightarrow>
          ''intnotequal''
      | IntLess _ _ _ \<Rightarrow>
          ''intless''
      | IntSLess _ _ _ \<Rightarrow>
          ''intsless''
      | IntLessEqual _ _ _ \<Rightarrow>
          ''intlessequal''
      | IntSLessEqual _ _ _ \<Rightarrow>
          ''intslessequal''
      | BoolAnd _ _ _ \<Rightarrow>
          ''booland''
      | BoolOr _ _ _ \<Rightarrow>
          ''boolor''
      | BoolXor _ _ _ \<Rightarrow>
          ''boolxor''
      | _ \<Rightarrow>
          ''op'')"

definition op_name_width_code :: "string \<Rightarrow> string" where
  "op_name_width_code nm =
     (if nm = ''intadd'' then ''op.intadd.width_mismatch''
      else if nm = ''intsub'' then ''op.intsub.width_mismatch''
      else if nm = ''intmult'' then ''op.intmult.width_mismatch''
      else if nm = ''intdiv'' then ''op.intdiv.width_mismatch''
      else if nm = ''intsdiv'' then ''op.intsdiv.width_mismatch''
      else if nm = ''intrem'' then ''op.intrem.width_mismatch''
      else if nm = ''intsrem'' then ''op.intsrem.width_mismatch''
      else if nm = ''intand'' then ''op.intand.width_mismatch''
      else if nm = ''intor'' then ''op.intor.width_mismatch''
      else if nm = ''intxor'' then ''op.intxor.width_mismatch''
      else if nm = ''intnegate'' then ''op.intnegate.width_mismatch''
      else if nm = ''intnot'' then ''op.intnot.width_mismatch''
      else if nm = ''intleft'' then ''op.intleft.width_mismatch''
      else if nm = ''intright'' then ''op.intright.width_mismatch''
      else if nm = ''intsright'' then ''op.intsright.width_mismatch''
      else if nm = ''intcarry'' then ''op.intcarry.width_mismatch''
      else if nm = ''intscarry'' then ''op.intscarry.width_mismatch''
      else if nm = ''intsborrow'' then ''op.intsborrow.width_mismatch''
      else if nm = ''intequal'' then ''op.intequal.width_mismatch''
      else if nm = ''intnotequal'' then ''op.intnotequal.width_mismatch''
      else if nm = ''intless'' then ''op.intless.width_mismatch''
      else if nm = ''intsless'' then ''op.intsless.width_mismatch''
      else if nm = ''intlessequal'' then ''op.intlessequal.width_mismatch''
      else if nm = ''intslessequal'' then ''op.intslessequal.width_mismatch''
      else if nm = ''booland'' then ''op.booland.width_mismatch''
      else if nm = ''boolor'' then ''op.boolor.width_mismatch''
      else if nm = ''boolxor'' then ''op.boolxor.width_mismatch''
      else ''op.width_mismatch'')"

definition check_size_eq ::
  "string \<Rightarrow> nat \<Rightarrow> string \<Rightarrow> u32 \<Rightarrow> string \<Rightarrow> u32 \<Rightarrow> ValidationIssue list" where
  "check_size_eq c i ln l rn r =
     (if l \<noteq> r then
        [issue c (op_path i)
           (ln @ '' ('' @ dec32 l @ '') must equal '' @ rn @ '' ('' @ dec32 r @ '')'')]
      else [])"

definition check_size_gt ::
  "string \<Rightarrow> nat \<Rightarrow> string \<Rightarrow> u32 \<Rightarrow> string \<Rightarrow> u32 \<Rightarrow> ValidationIssue list" where
  "check_size_gt c i ln l rn r =
     (if l \<le> r then
        [issue c (op_path i)
           (ln @ '' ('' @ dec32 l @ '') must be greater than '' @ rn @ '' ('' @ dec32 r @ '')'')]
      else [])"

definition check_size_lt ::
  "string \<Rightarrow> nat \<Rightarrow> string \<Rightarrow> u32 \<Rightarrow> string \<Rightarrow> u32 \<Rightarrow> ValidationIssue list" where
  "check_size_lt c i ln l rn r =
     (if l \<ge> r then
        [issue c (op_path i)
           (ln @ '' ('' @ dec32 l @ '') must be less than '' @ rn @ '' ('' @ dec32 r @ '')'')]
      else [])"

definition check_size_const ::
  "string \<Rightarrow> nat \<Rightarrow> string \<Rightarrow> u32 \<Rightarrow> u32 \<Rightarrow> ValidationIssue list" where
  "check_size_const c i f actual expected =
     (if actual \<noteq> expected then
        [issue c (op_path i @ ''.'' @ f)
           (''expected size '' @ dec32 expected @ '', got '' @ dec32 actual)]
      else [])"

definition check_size_addr_width ::
  "string \<Rightarrow> nat \<Rightarrow> string \<Rightarrow> u32 \<Rightarrow> u32 \<Rightarrow> u32 \<Rightarrow> ValidationIssue list" where
  "check_size_addr_width c i f actual space_expected arch_expected =
     (if actual = space_expected \<or> actual = arch_expected then []
      else
        [issue c (op_path i @ ''.'' @ f)
           (if space_expected = arch_expected
            then ''expected size '' @ dec32 space_expected @ '', got '' @ dec32 actual
            else ''expected size '' @ dec32 space_expected @ '' (space) or '' @
                 dec32 arch_expected @ '' (arch), got '' @ dec32 actual)])"

definition check_const_memory_access ::
  "ArchSpec \<Rightarrow> nat \<Rightarrow> SpaceId \<Rightarrow> Varnode \<Rightarrow> u32 \<Rightarrow> bool \<Rightarrow> bool \<Rightarrow> string \<Rightarrow> string \<Rightarrow>
   ValidationIssue list" where
  "check_const_memory_access a i space_id addr access_size needs_read needs_write
       range_code permission_code =
     (if vn_space addr \<noteq> Const then []
      else case find (\<lambda>s. as_id s = space_id) (ar_spaces a) of
        None \<Rightarrow> []
      | Some space \<Rightarrow>
          (if as_valid_ranges space \<noteq> [] \<and>
              \<not> list_ex (\<lambda>r. contains_interval r (vn_offset addr) access_size)
                  (as_valid_ranges space)
           then
             [issue range_code (op_path i @ ''.addr'')
                (''const address '' @ hex64 (vn_offset addr) @ '' size '' @ dec32 access_size @
                 '' is outside configured ranges for space '' @ [CHR 0x27] @ as_name space @
                 [CHR 0x27])]
           else []) @
          (case as_permissions space of
             None \<Rightarrow> []
           | Some perms \<Rightarrow>
               (if needs_read \<and> \<not> mp_read perms then
                  [issue permission_code (op_path i @ ''.space'')
                     (''space '' @ [CHR 0x27] @ as_name space @ [CHR 0x27] @
                      '' denies read access for const-address memory operation'')]
                else []) @
               (if needs_write \<and> \<not> mp_write perms then
                  [issue permission_code (op_path i @ ''.space'')
                     (''space '' @ [CHR 0x27] @ as_name space @ [CHR 0x27] @
                      '' denies write access for const-address memory operation'')]
                else [])))"

text \<open>The rules of \<open>validate_op_semantic\<close>, one per group of match arms.\<close>

definition sem_arith :: "string \<Rightarrow> nat \<Rightarrow> Varnode \<Rightarrow> Varnode \<Rightarrow> Varnode \<Rightarrow> ValidationIssue list" where
  "sem_arith nm i dst a b =
     check_size_eq (op_name_width_code nm) i ''a.size'' (vn_size a) ''b.size'' (vn_size b) @
     check_size_eq (op_name_width_code nm) i ''dst.size'' (vn_size dst) ''a.size'' (vn_size a)"

definition sem_unary :: "string \<Rightarrow> nat \<Rightarrow> Varnode \<Rightarrow> Varnode \<Rightarrow> ValidationIssue list" where
  "sem_unary nm i dst src =
     check_size_eq (op_name_width_code nm) i ''dst.size'' (vn_size dst) ''src.size'' (vn_size src)"

definition sem_shift :: "string \<Rightarrow> nat \<Rightarrow> Varnode \<Rightarrow> Varnode \<Rightarrow> Varnode \<Rightarrow> ValidationIssue list" where
  "sem_shift nm i dst a b =
     check_size_eq (op_name_width_code nm) i ''dst.size'' (vn_size dst) ''a.size'' (vn_size a) @
     (if vn_size b = 0 then
        [issue ''op.shift.amount_size_zero'' (op_path i @ ''.b.size'')
           ''shift amount size must be > 0'']
      else [])"

definition sem_compare :: "string \<Rightarrow> nat \<Rightarrow> Varnode \<Rightarrow> Varnode \<Rightarrow> Varnode \<Rightarrow> ValidationIssue list" where
  "sem_compare nm i dst a b =
     check_size_eq (op_name_width_code nm) i ''a.size'' (vn_size a) ''b.size'' (vn_size b) @
     check_size_const (op_name_width_code nm) i ''dst.size'' (vn_size dst) 1"

definition sem_bool :: "string \<Rightarrow> nat \<Rightarrow> Varnode \<Rightarrow> Varnode \<Rightarrow> Varnode \<Rightarrow> ValidationIssue list" where
  "sem_bool nm i dst a b =
     check_size_const (op_name_width_code nm) i ''a.size'' (vn_size a) 1 @
     check_size_const (op_name_width_code nm) i ''b.size'' (vn_size b) 1 @
     check_size_const (op_name_width_code nm) i ''dst.size'' (vn_size dst) 1"

definition sem_addr :: "ArchSpec \<Rightarrow> string \<Rightarrow> nat \<Rightarrow> SpaceId \<Rightarrow> Varnode \<Rightarrow> ValidationIssue list" where
  "sem_addr a c i space addr =
     check_size_addr_width c i ''addr.size'' (vn_size addr) (addr_space_size space a)
       (effective_arch_addr_size a)"

definition sem_target :: "ArchSpec \<Rightarrow> string \<Rightarrow> nat \<Rightarrow> Varnode \<Rightarrow> ValidationIssue list" where
  "sem_target a c i target =
     (if vn_space target \<noteq> Const then
        check_size_const c i ''target.size'' (vn_size target) (effective_arch_addr_size a)
      else [])"

definition sem_subpiece :: "nat \<Rightarrow> Varnode \<Rightarrow> Varnode \<Rightarrow> u32 \<Rightarrow> ValidationIssue list" where
  "sem_subpiece i dst src off =
     (if off \<ge> vn_size src then
        [issue ''op.subpiece.offset_oob'' (op_path i @ ''.offset'')
           (''subpiece offset '' @ dec32 off @ '' is out of bounds for src size '' @
            dec32 (vn_size src))]
      else if u32_saturating_add off (vn_size dst) > vn_size src then
        [issue ''op.subpiece.width_oob'' (op_path i @ ''.dst.size'')
           (''subpiece range offset '' @ dec32 off @ '' + dst.size '' @ dec32 (vn_size dst) @
            '' exceeds src size '' @ dec32 (vn_size src))]
      else [])"

definition sem_load ::
  "ArchSpec \<Rightarrow> nat \<Rightarrow> Varnode \<Rightarrow> SpaceId \<Rightarrow> Varnode \<Rightarrow> ValidationIssue list" where
  "sem_load ar i dst space addr =
     sem_addr ar ''op.load.addr_width_mismatch'' i space addr @
     check_const_memory_access ar i space addr (vn_size dst) True False
       ''op.load.range'' ''op.load.permission''"

definition sem_load_linked ::
  "ArchSpec \<Rightarrow> nat \<Rightarrow> Varnode \<Rightarrow> SpaceId \<Rightarrow> Varnode \<Rightarrow> ValidationIssue list" where
  "sem_load_linked ar i dst space addr =
     sem_addr ar ''op.load_linked.addr_width_mismatch'' i space addr @
     check_const_memory_access ar i space addr (vn_size dst) True False
       ''op.load_linked.range'' ''op.load_linked.permission''"

definition sem_store ::
  "ArchSpec \<Rightarrow> nat \<Rightarrow> SpaceId \<Rightarrow> Varnode \<Rightarrow> Varnode \<Rightarrow> ValidationIssue list" where
  "sem_store ar i space addr val =
     sem_addr ar ''op.store.addr_width_mismatch'' i space addr @
     check_const_memory_access ar i space addr (vn_size val) False True
       ''op.store.range'' ''op.store.permission''"

definition sem_store_conditional ::
  "ArchSpec \<Rightarrow> nat \<Rightarrow> Varnode option \<Rightarrow> SpaceId \<Rightarrow> Varnode \<Rightarrow> Varnode \<Rightarrow> ValidationIssue list" where
  "sem_store_conditional ar i result space addr val =
     sem_addr ar ''op.store_conditional.addr_width_mismatch'' i space addr @
     (case result of
        Some res \<Rightarrow>
          (if vn_size res = 0 then
             [issue ''op.store_conditional.result_size_zero'' (op_path i @ ''.result.size'')
                ''store-conditional result size must be > 0 when present'']
           else [])
      | None \<Rightarrow> []) @
     check_const_memory_access ar i space addr (vn_size val) False True
       ''op.store_conditional.range'' ''op.store_conditional.permission''"

definition sem_atomic_cas ::
  "ArchSpec \<Rightarrow> nat \<Rightarrow> Varnode \<Rightarrow> SpaceId \<Rightarrow> Varnode \<Rightarrow> Varnode \<Rightarrow> Varnode \<Rightarrow> ValidationIssue list" where
  "sem_atomic_cas ar i dst space addr expected replacement =
     check_size_eq ''op.atomic_cas.width'' i ''dst.size'' (vn_size dst) ''expected.size''
       (vn_size expected) @
     check_size_eq ''op.atomic_cas.width'' i ''dst.size'' (vn_size dst) ''replacement.size''
       (vn_size replacement) @
     sem_addr ar ''op.atomic_cas.addr_width_mismatch'' i space addr @
     check_const_memory_access ar i space addr (vn_size dst) True True
       ''op.atomic_cas.range'' ''op.atomic_cas.permission''"

definition sem_load_guarded ::
  "ArchSpec \<Rightarrow> nat \<Rightarrow> Varnode \<Rightarrow> SpaceId \<Rightarrow> Varnode \<Rightarrow> Varnode \<Rightarrow> ValidationIssue list" where
  "sem_load_guarded ar i dst space addr guard =
     check_size_const ''op.load_guarded.guard_size'' i ''guard.size'' (vn_size guard) 1 @
     sem_addr ar ''op.load_guarded.addr_width_mismatch'' i space addr @
     check_const_memory_access ar i space addr (vn_size dst) True False
       ''op.load_guarded.range'' ''op.load_guarded.permission''"

definition sem_store_guarded ::
  "ArchSpec \<Rightarrow> nat \<Rightarrow> SpaceId \<Rightarrow> Varnode \<Rightarrow> Varnode \<Rightarrow> Varnode \<Rightarrow> ValidationIssue list" where
  "sem_store_guarded ar i space addr val guard =
     check_size_const ''op.store_guarded.guard_size'' i ''guard.size'' (vn_size guard) 1 @
     sem_addr ar ''op.store_guarded.addr_width_mismatch'' i space addr @
     check_const_memory_access ar i space addr (vn_size val) False True
       ''op.store_guarded.range'' ''op.store_guarded.permission''"

definition op_sem_issues :: "R2ILOp \<Rightarrow> ArchSpec \<Rightarrow> nat \<Rightarrow> ValidationIssue list" where
  "op_sem_issues op ar i =
     (case op of
        Copy dst src \<Rightarrow>
          check_size_eq ''op.copy.width_mismatch'' i ''dst.size'' (vn_size dst) ''src.size'' (vn_size src)
      | IntZExt dst src \<Rightarrow>
          check_size_gt ''op.intzext.non_expanding'' i ''dst.size'' (vn_size dst) ''src.size'' (vn_size src)
      | IntSExt dst src \<Rightarrow>
          check_size_gt ''op.intsext.non_expanding'' i ''dst.size'' (vn_size dst) ''src.size'' (vn_size src)
      | Trunc dst src \<Rightarrow>
          check_size_lt ''op.trunc.non_shrinking'' i ''dst.size'' (vn_size dst) ''src.size'' (vn_size src)
      | IntAdd dst a b \<Rightarrow>
          sem_arith (semantic_op_name (IntAdd dst a b)) i dst a b
      | IntSub dst a b \<Rightarrow>
          sem_arith (semantic_op_name (IntSub dst a b)) i dst a b
      | IntMult dst a b \<Rightarrow>
          sem_arith (semantic_op_name (IntMult dst a b)) i dst a b
      | IntDiv dst a b \<Rightarrow>
          sem_arith (semantic_op_name (IntDiv dst a b)) i dst a b
      | IntSDiv dst a b \<Rightarrow>
          sem_arith (semantic_op_name (IntSDiv dst a b)) i dst a b
      | IntRem dst a b \<Rightarrow>
          sem_arith (semantic_op_name (IntRem dst a b)) i dst a b
      | IntSRem dst a b \<Rightarrow>
          sem_arith (semantic_op_name (IntSRem dst a b)) i dst a b
      | IntAnd dst a b \<Rightarrow>
          sem_arith (semantic_op_name (IntAnd dst a b)) i dst a b
      | IntOr dst a b \<Rightarrow>
          sem_arith (semantic_op_name (IntOr dst a b)) i dst a b
      | IntXor dst a b \<Rightarrow>
          sem_arith (semantic_op_name (IntXor dst a b)) i dst a b
      | IntNegate dst src \<Rightarrow>
          sem_unary (semantic_op_name (IntNegate dst src)) i dst src
      | IntNot dst src \<Rightarrow>
          sem_unary (semantic_op_name (IntNot dst src)) i dst src
      | IntLeft dst a b \<Rightarrow>
          sem_shift (semantic_op_name (IntLeft dst a b)) i dst a b
      | IntRight dst a b \<Rightarrow>
          sem_shift (semantic_op_name (IntRight dst a b)) i dst a b
      | IntSRight dst a b \<Rightarrow>
          sem_shift (semantic_op_name (IntSRight dst a b)) i dst a b
      | IntCarry dst a b \<Rightarrow>
          sem_compare (semantic_op_name (IntCarry dst a b)) i dst a b
      | IntSCarry dst a b \<Rightarrow>
          sem_compare (semantic_op_name (IntSCarry dst a b)) i dst a b
      | IntSBorrow dst a b \<Rightarrow>
          sem_compare (semantic_op_name (IntSBorrow dst a b)) i dst a b
      | IntEqual dst a b \<Rightarrow>
          sem_compare (semantic_op_name (IntEqual dst a b)) i dst a b
      | IntNotEqual dst a b \<Rightarrow>
          sem_compare (semantic_op_name (IntNotEqual dst a b)) i dst a b
      | IntLess dst a b \<Rightarrow>
          sem_compare (semantic_op_name (IntLess dst a b)) i dst a b
      | IntSLess dst a b \<Rightarrow>
          sem_compare (semantic_op_name (IntSLess dst a b)) i dst a b
      | IntLessEqual dst a b \<Rightarrow>
          sem_compare (semantic_op_name (IntLessEqual dst a b)) i dst a b
      | IntSLessEqual dst a b \<Rightarrow>
          sem_compare (semantic_op_name (IntSLessEqual dst a b)) i dst a b
      | BoolNot dst src \<Rightarrow>
          check_size_const ''op.boolnot.width_mismatch'' i ''src.size'' (vn_size src) 1 @
     check_size_const ''op.boolnot.width_mismatch'' i ''dst.size'' (vn_size dst) 1
      | BoolAnd dst a b \<Rightarrow>
          sem_bool (semantic_op_name (BoolAnd dst a b)) i dst a b
      | BoolOr dst a b \<Rightarrow>
          sem_bool (semantic_op_name (BoolOr dst a b)) i dst a b
      | BoolXor dst a b \<Rightarrow>
          sem_bool (semantic_op_name (BoolXor dst a b)) i dst a b
      | Load dst space addr \<Rightarrow>
          sem_load ar i dst space addr
      | LoadLinked dst space addr _ \<Rightarrow>
          sem_load_linked ar i dst space addr
      | Store space addr val \<Rightarrow>
          sem_store ar i space addr val
      | StoreConditional result space addr val _ \<Rightarrow>
          sem_store_conditional ar i result space addr val
      | AtomicCAS dst space addr expected replacement _ \<Rightarrow>
          sem_atomic_cas ar i dst space addr expected replacement
      | LoadGuarded dst space addr guard _ \<Rightarrow>
          sem_load_guarded ar i dst space addr guard
      | StoreGuarded space addr val guard _ \<Rightarrow>
          sem_store_guarded ar i space addr val guard
      | Piece dst hi lo \<Rightarrow>
          check_size_const ''op.piece.width_mismatch'' i ''dst.size'' (vn_size dst)
       (u32_saturating_add (vn_size hi) (vn_size lo))
      | Subpiece dst src offset \<Rightarrow>
          sem_subpiece i dst src offset
      | Branch target \<Rightarrow>
          sem_target ar ''op.controlflow.target_width_mismatch'' i target
      | BranchInd target \<Rightarrow>
          sem_target ar ''op.controlflow.target_width_mismatch'' i target
      | Call target \<Rightarrow>
          sem_target ar ''op.controlflow.target_width_mismatch'' i target
      | CallInd target \<Rightarrow>
          sem_target ar ''op.controlflow.target_width_mismatch'' i target
      | Return target \<Rightarrow>
          sem_target ar ''op.controlflow.target_width_mismatch'' i target
      | CBranch target cond \<Rightarrow>
          sem_target ar ''op.cbranch.target_width_mismatch'' i target @
     check_size_const ''op.cbranch.cond_width_mismatch'' i ''cond.size'' (vn_size cond) 1
      | _ \<Rightarrow>
          [])"

definition validate_op_semantic :: "R2ILOp \<Rightarrow> ArchSpec \<Rightarrow> nat \<Rightarrow> ValidationError + unit" where
  "validate_op_semantic op ar i = finish (op_sem_issues op ar i)"

definition validate_block_semantic :: "R2ILBlock \<Rightarrow> ArchSpec \<Rightarrow> ValidationError + unit" where
  "validate_block_semantic b ar =
     finish (concat (map (\<lambda>(i, op). issues_of (validate_op_semantic op ar i))
       (enumerate 0 (rb_ops b))))"

definition validate_block_full :: "R2ILBlock \<Rightarrow> ArchSpec \<Rightarrow> ValidationError + unit" where
  "validate_block_full b ar =
     finish (issues_of (validate_block b) @ issues_of (validate_block_semantic b ar))"

end
