(* ===== verification/R2IL_Wellformed.thy ===== *)
theory R2IL_Wellformed
  imports R2IL_Validate
begin

text \<open>
  What the validator decides. The declarative predicates speak of sets of names, of widths and
  intervals as natural numbers; the lemmas show that no issue is reported exactly when they hold.
\<close>

section \<open>Declarative well-formedness\<close>

abbreviation bytes :: "Varnode \<Rightarrow> nat" where
  "bytes v \<equiv> unat (vn_size v)"

definition id_ok :: "string option \<Rightarrow> bool" where
  "id_ok i \<longleftrightarrow> (\<forall>s. i = Some s \<longrightarrow> (\<exists>c \<in> set s. \<not> ascii_ws c))"

definition range_ok :: "MemoryRange \<Rightarrow> bool" where
  "range_ok r \<longleftrightarrow> unat (mr_start r) < unat (mr_end r)"

definition space_ok :: "AddressSpace \<Rightarrow> bool" where
  "space_ok s \<longleftrightarrow> id_ok (as_bank_id s) \<and> id_ok (as_segment_id s) \<and>
     (\<forall>r \<in> set (as_valid_ranges s). range_ok r)"

text \<open>The register map is exactly the graph of the registers' offsets.\<close>

definition register_map_ok :: "ArchSpec \<Rightarrow> bool" where
  "register_map_ok a \<longleftrightarrow>
     (\<forall>(nm, off) \<in> set (ar_register_map a). reg_by_name (ar_registers a) nm = Some off) \<and>
     (\<forall>r \<in> set (ar_registers a). hm_get (ar_register_map a) (rd_name r) = Some (rd_offset r))"

definition arch_wf :: "ArchSpec \<Rightarrow> bool" where
  "arch_wf a \<longleftrightarrow>
     (\<exists>c \<in> set (ar_name a). \<not> ascii_ws c) \<and>
     0 < unat (ar_addr_size a) \<and> 0 < unat (ar_alignment a) \<and>
     legacy_in_sync a \<and>
     (\<exists>!k. k < length (ar_spaces a) \<and> as_is_default (ar_spaces a ! k)) \<and>
     distinct (map as_id (ar_spaces a)) \<and> distinct (map as_name (ar_spaces a)) \<and>
     (\<forall>s \<in> set (ar_spaces a). space_ok s) \<and>
     (\<forall>r \<in> set (ar_registers a). 0 < unat (rd_size r)) \<and>
     distinct (map rd_name (ar_registers a)) \<and>
     register_map_ok a \<and>
     distinct (map ud_index (ar_userops a))"

definition meta_ok :: "VarnodeMetadata option \<Rightarrow> bool" where
  "meta_ok mo \<longleftrightarrow> (\<forall>m. mo = Some m \<longrightarrow> id_ok (vm_bank_id m) \<and> id_ok (vm_segment_id m) \<and>
     (\<forall>r. vm_valid_range m = Some r \<longrightarrow> range_ok r))"

definition varnode_ok :: "Varnode \<Rightarrow> bool" where
  "varnode_ok v \<longleftrightarrow> 0 < bytes v \<and> meta_ok (vn_meta v)"

text \<open>The memory spaces an operation accesses, and the extra side conditions of a few operations.\<close>

fun op_space :: "R2ILOp \<Rightarrow> SpaceId option" where
  "op_space (Load _ s _) = Some s"
| "op_space (LoadLinked _ s _ _) = Some s"
| "op_space (Store s _ _) = Some s"
| "op_space (StoreConditional _ s _ _ _) = Some s"
| "op_space (AtomicCAS _ s _ _ _ _) = Some s"
| "op_space (LoadGuarded _ s _ _ _) = Some s"
| "op_space (StoreGuarded s _ _ _ _) = Some s"
| "op_space _ = None"

fun op_side_ok :: "R2ILOp \<Rightarrow> bool" where
  "op_side_ok (PtrAdd _ _ _ n) \<longleftrightarrow> 0 < unat n"
| "op_side_ok (PtrSub _ _ _ n) \<longleftrightarrow> 0 < unat n"
| "op_side_ok (Multiequal _ inputs) \<longleftrightarrow> inputs \<noteq> []"
| "op_side_ok _ \<longleftrightarrow> True"

definition op_wf :: "R2ILOp \<Rightarrow> bool" where
  "op_wf op \<longleftrightarrow>
     (\<forall>v \<in> set (op_inputs op). varnode_ok v) \<and>
     (\<forall>v. op_output op = Some v \<longrightarrow> varnode_ok v \<and> vn_space v \<noteq> Const) \<and>
     op_space op \<noteq> Some Const \<and> op_side_ok op"

definition op_meta_wf :: "nat \<Rightarrow> nat \<times> OpMetadata \<Rightarrow> bool" where
  "op_meta_wf n e \<longleftrightarrow> fst e < n \<and> id_ok (om_bank_id (snd e)) \<and> id_ok (om_segment_id (snd e)) \<and>
     (\<forall>r. om_valid_range (snd e) = Some r \<longrightarrow> range_ok r)"

definition switch_wf :: "SwitchInfo \<Rightarrow> bool" where
  "switch_wf sw \<longleftrightarrow> si_min_val sw \<le> si_max_val sw \<and>
     (\<forall>c \<in> set (si_cases sw). si_min_val sw \<le> sc_value c \<and> sc_value c \<le> si_max_val sw) \<and>
     distinct (map sc_value (si_cases sw))"

definition block_wf :: "R2ILBlock \<Rightarrow> bool" where
  "block_wf b \<longleftrightarrow> 0 < unat (rb_size b) \<and> (\<forall>op \<in> set (rb_ops b). op_wf op) \<and>
     (\<forall>e \<in> set (rb_op_metadata b). op_meta_wf (length (rb_ops b)) e) \<and>
     (\<forall>sw. rb_switch_info b = Some sw \<longrightarrow> switch_wf sw)"

definition addr_width_ok :: "ArchSpec \<Rightarrow> SpaceId \<Rightarrow> Varnode \<Rightarrow> bool" where
  "addr_width_ok a space addr \<longleftrightarrow>
     bytes addr \<in> {unat (addr_space_size space a), unat (effective_arch_addr_size a)}"

definition target_width_ok :: "ArchSpec \<Rightarrow> Varnode \<Rightarrow> bool" where
  "target_width_ok a target \<longleftrightarrow>
     vn_space target = Const \<or> bytes target = unat (effective_arch_addr_size a)"

text \<open>An access at a constant address of \<open>n\<close> bytes stays inside one of the configured ranges of
  its space, when there are any, and the space grants the access.\<close>

definition access_ok :: "ArchSpec \<Rightarrow> SpaceId \<Rightarrow> Varnode \<Rightarrow> nat \<Rightarrow> bool \<Rightarrow> bool \<Rightarrow> bool" where
  "access_ok a space addr n r w \<longleftrightarrow>
     (\<forall>s. vn_space addr = Const \<longrightarrow> find (\<lambda>s. as_id s = space) (ar_spaces a) = Some s \<longrightarrow>
        (as_valid_ranges s = [] \<or>
         (\<exists>m \<in> set (as_valid_ranges s).
            {unat (vn_offset addr)..<unat (vn_offset addr) + n} \<subseteq> {unat (mr_start m)..<unat (mr_end m)} \<and>
            unat (mr_start m) \<le> unat (vn_offset addr) \<and> unat (vn_offset addr) + n \<le> unat (mr_end m))) \<and>
        (\<forall>p. as_permissions s = Some p \<longrightarrow> (r \<longrightarrow> mp_read p) \<and> (w \<longrightarrow> mp_write p)))"

definition op_widths_ok :: "ArchSpec \<Rightarrow> R2ILOp \<Rightarrow> bool" where
  "op_widths_ok ar op =
     (case op of
        Copy dst src \<Rightarrow> bytes dst = bytes src
      | IntZExt dst src \<Rightarrow> bytes src < bytes dst
      | IntSExt dst src \<Rightarrow> bytes src < bytes dst
      | Trunc dst src \<Rightarrow> bytes dst < bytes src
      | IntAdd dst a b \<Rightarrow> bytes dst = bytes a \<and> bytes a = bytes b
      | IntSub dst a b \<Rightarrow> bytes dst = bytes a \<and> bytes a = bytes b
      | IntMult dst a b \<Rightarrow> bytes dst = bytes a \<and> bytes a = bytes b
      | IntDiv dst a b \<Rightarrow> bytes dst = bytes a \<and> bytes a = bytes b
      | IntSDiv dst a b \<Rightarrow> bytes dst = bytes a \<and> bytes a = bytes b
      | IntRem dst a b \<Rightarrow> bytes dst = bytes a \<and> bytes a = bytes b
      | IntSRem dst a b \<Rightarrow> bytes dst = bytes a \<and> bytes a = bytes b
      | IntAnd dst a b \<Rightarrow> bytes dst = bytes a \<and> bytes a = bytes b
      | IntOr dst a b \<Rightarrow> bytes dst = bytes a \<and> bytes a = bytes b
      | IntXor dst a b \<Rightarrow> bytes dst = bytes a \<and> bytes a = bytes b
      | IntNegate dst src \<Rightarrow> bytes dst = bytes src
      | IntNot dst src \<Rightarrow> bytes dst = bytes src
      | IntLeft dst a b \<Rightarrow> bytes dst = bytes a \<and> 0 < bytes b
      | IntRight dst a b \<Rightarrow> bytes dst = bytes a \<and> 0 < bytes b
      | IntSRight dst a b \<Rightarrow> bytes dst = bytes a \<and> 0 < bytes b
      | IntCarry dst a b \<Rightarrow> bytes a = bytes b \<and> bytes dst = 1
      | IntSCarry dst a b \<Rightarrow> bytes a = bytes b \<and> bytes dst = 1
      | IntSBorrow dst a b \<Rightarrow> bytes a = bytes b \<and> bytes dst = 1
      | IntEqual dst a b \<Rightarrow> bytes a = bytes b \<and> bytes dst = 1
      | IntNotEqual dst a b \<Rightarrow> bytes a = bytes b \<and> bytes dst = 1
      | IntLess dst a b \<Rightarrow> bytes a = bytes b \<and> bytes dst = 1
      | IntSLess dst a b \<Rightarrow> bytes a = bytes b \<and> bytes dst = 1
      | IntLessEqual dst a b \<Rightarrow> bytes a = bytes b \<and> bytes dst = 1
      | IntSLessEqual dst a b \<Rightarrow> bytes a = bytes b \<and> bytes dst = 1
      | BoolNot dst src \<Rightarrow> bytes src = 1 \<and> bytes dst = 1
      | BoolAnd dst a b \<Rightarrow> bytes a = 1 \<and> bytes b = 1 \<and> bytes dst = 1
      | BoolOr dst a b \<Rightarrow> bytes a = 1 \<and> bytes b = 1 \<and> bytes dst = 1
      | BoolXor dst a b \<Rightarrow> bytes a = 1 \<and> bytes b = 1 \<and> bytes dst = 1
      | Load dst space addr \<Rightarrow> addr_width_ok ar space addr \<and> access_ok ar space addr (bytes dst) True False
      | LoadLinked dst space addr _ \<Rightarrow> addr_width_ok ar space addr \<and> access_ok ar space addr (bytes dst) True False
      | Store space addr val \<Rightarrow> addr_width_ok ar space addr \<and> access_ok ar space addr (bytes val) False True
      | StoreConditional result space addr val _ \<Rightarrow> addr_width_ok ar space addr \<and> access_ok ar space addr (bytes val) False True \<and> (\<forall>res. result = Some res \<longrightarrow> 0 < bytes res)
      | AtomicCAS dst space addr expected replacement _ \<Rightarrow> bytes dst = bytes expected \<and> bytes dst = bytes replacement \<and> addr_width_ok ar space addr \<and> access_ok ar space addr (bytes dst) True True
      | LoadGuarded dst space addr guard _ \<Rightarrow> bytes guard = 1 \<and> addr_width_ok ar space addr \<and> access_ok ar space addr (bytes dst) True False
      | StoreGuarded space addr val guard _ \<Rightarrow> bytes guard = 1 \<and> addr_width_ok ar space addr \<and> access_ok ar space addr (bytes val) False True
      | Piece dst hi lo \<Rightarrow> bytes dst = min (bytes hi + bytes lo) (2 ^ 32 - 1)
      | Subpiece dst src offset \<Rightarrow> unat offset < bytes src \<and> min (unat offset + bytes dst) (2 ^ 32 - 1) \<le> bytes src
      | Branch target \<Rightarrow> target_width_ok ar target
      | BranchInd target \<Rightarrow> target_width_ok ar target
      | Call target \<Rightarrow> target_width_ok ar target
      | CallInd target \<Rightarrow> target_width_ok ar target
      | Return target \<Rightarrow> target_width_ok ar target
      | CBranch target cond \<Rightarrow> target_width_ok ar target \<and> bytes cond = 1
      | _ \<Rightarrow> True)"

section \<open>When a check reports nothing\<close>

lemma finish_Inr [simp]: "finish is = Inr () \<longleftrightarrow> is = []"
  by (simp add: finish_def)

lemma issues_of_finish [simp]: "issues_of (finish is) = is"
  by (simp add: issues_of_def finish_def from_issues_def)

lemma empty_id_issue_Nil [issue_simps]: "empty_id_issue c p m i = [] \<longleftrightarrow> id_ok i"
  by (auto simp: empty_id_issue_def id_ok_def trim_Nil_iff split: option.splits)

lemma range_issue_Nil [issue_simps]: "range_issue c p r = [] \<longleftrightarrow> range_ok r"
  by (simp add: range_issue_def range_ok_def word_le_nat_alt not_le)

lemma range_issues_Nil [issue_simps]: "range_issues p k rs = [] \<longleftrightarrow> (\<forall>r \<in> set rs. range_ok r)"
  by (induction p k rs rule: range_issues.induct) (auto simp: issue_simps)

lemma space_issues_Nil:
  "space_issues i ids nms ss = [] \<longleftrightarrow>
     distinct (map as_id ss) \<and> set ids \<inter> as_id ` set ss = {} \<and>
     distinct (map as_name ss) \<and> set nms \<inter> as_name ` set ss = {} \<and>
     (\<forall>s \<in> set ss. space_ok s)"
  by (induction i ids nms ss rule: space_issues.induct)
     (auto simp: issue_simps space_ok_def Let_def)

lemma register_issues_Nil:
  "register_issues i seen rs = [] \<longleftrightarrow>
     (\<forall>r \<in> set rs. 0 < unat (rd_size r)) \<and> distinct (map rd_name rs) \<and>
     set seen \<inter> rd_name ` set rs = {}"
  by (induction i seen rs rule: register_issues.induct) (auto simp: Let_def unat_gt_0)

lemma userop_issues_Nil:
  "userop_issues i seen us = [] \<longleftrightarrow>
     distinct (map ud_index us) \<and> set seen \<inter> ud_index ` set us = {}"
  by (induction i seen us rule: userop_issues.induct) auto

lemma map_entry_issues_Nil [issue_simps]:
  "map_entry_issues regs e = [] \<longleftrightarrow> reg_by_name regs (fst e) = Some (snd e)"
  by (auto simp: map_entry_issues_def Let_def split: option.splits)

lemma reg_entry_issues_Nil [issue_simps]:
  "reg_entry_issues m ir = [] \<longleftrightarrow> hm_get m (rd_name (snd ir)) = Some (rd_offset (snd ir))"
  by (auto simp: reg_entry_issues_def Let_def split: option.splits)

lemma enumerate_snd_ball: "(\<forall>x \<in> set (enumerate n xs). P (snd x)) \<longleftrightarrow> (\<forall>x \<in> set xs. P x)"
proof -
  have "snd ` set (enumerate n xs) = set xs"
    by (metis list.set_map map_snd_enumerate)
  then show ?thesis by (metis (mono_tags, lifting) imageE image_eqI)
qed

lemma default_count_1:
  "default_count ss = Suc 0 \<longleftrightarrow> (\<exists>!k. k < length ss \<and> as_is_default (ss ! k))"
proof -
  have "default_count ss = card {k. k < length ss \<and> as_is_default (ss ! k)}"
    by (simp add: default_count_def length_filter_conv_card)
  then show ?thesis by (auto simp: card_1_singleton_iff Ex1_def)
qed

lemma archspec_issues_Nil: "archspec_issues a = [] \<longleftrightarrow> arch_wf a"
proof -
  have reg: "concat (map (reg_entry_issues m) (enumerate 0 rs)) = [] \<longleftrightarrow>
      (\<forall>r \<in> set rs. hm_get m (rd_name r) = Some (rd_offset r))" for m rs
    by (simp add: concat_map_Nil_iff issue_simps
        enumerate_snd_ball [where P = "\<lambda>r. hm_get m (rd_name r) = Some (rd_offset r)"])
  have mp: "concat (map (map_entry_issues rs) m) = [] \<longleftrightarrow>
      (\<forall>(nm, off) \<in> set m. reg_by_name rs nm = Some off)" for m rs
    by (auto simp: concat_map_Nil_iff issue_simps)
  have ne: "(\<exists>!k. k < length (ar_spaces a) \<and> as_is_default (ar_spaces a ! k)) \<Longrightarrow> ar_spaces a \<noteq> []"
    by auto
  show ?thesis
    unfolding archspec_issues_def arch_wf_def register_map_ok_def
    using ne
    by (simp add: reg mp space_issues_Nil register_issues_Nil userop_issues_Nil default_count_1
        trim_Nil_iff legacy_in_sync_def unat_gt_0 Let_def del: concat_eq_Nil_conv) blast
qed

lemma validate_varnode_Nil:
  "validate_varnode v p out = [] \<longleftrightarrow> varnode_ok v \<and> (out \<longrightarrow> vn_space v \<noteq> Const)"
  by (auto simp: validate_varnode_def varnode_ok_def meta_ok_def issue_simps unat_gt_0
      split: option.splits)

lemma input_issues_Nil: "input_issues i kv = [] \<longleftrightarrow> varnode_ok (snd kv)"
  by (simp add: input_issues_def validate_varnode_Nil)

lemma op_special_issues_Nil:
  "op_special_issues op i = [] \<longleftrightarrow> op_space op \<noteq> Some Const \<and> op_side_ok op \<and>
     (\<forall>out u ins. op = CallOther (Some out) u ins \<longrightarrow> vn_space out \<noteq> Const)"
  by (cases op) (auto simp: op_special_issues_def space_const_issue_def unat_gt_0 split: option.splits)

lemma op_issues_Nil: "op_issues op i = [] \<longleftrightarrow> op_wf op"
proof -
  have "concat (map (input_issues i) (enumerate 0 vs)) = [] \<longleftrightarrow> (\<forall>v \<in> set vs. varnode_ok v)" for vs
    by (simp add: concat_map_Nil_iff input_issues_Nil enumerate_snd_ball [where P = varnode_ok])
  then show ?thesis
    unfolding op_issues_def op_wf_def
    by (auto simp: op_special_issues_Nil validate_varnode_Nil simp del: concat_eq_Nil_conv
        split: option.splits)
qed

lemma op_metadata_issues_Nil [issue_simps]: "op_metadata_issues n e = [] \<longleftrightarrow> op_meta_wf n e"
  by (auto simp: op_metadata_issues_def op_meta_wf_def Let_def issue_simps split: option.splits)

lemma case_issues_Nil:
  "case_issues sw i seen cs = [] \<longleftrightarrow>
     (\<forall>c \<in> set cs. si_min_val sw \<le> sc_value c \<and> sc_value c \<le> si_max_val sw) \<and>
     distinct (map sc_value cs) \<and> set seen \<inter> sc_value ` set cs = {}"
  by (induction sw i seen cs rule: case_issues.induct) (auto simp: Let_def not_less)

lemma switch_issues_Nil: "switch_issues sw = [] \<longleftrightarrow> switch_wf sw"
  by (auto simp: switch_issues_def switch_wf_def case_issues_Nil)

lemma enumerate_pair_ball:
  "(\<forall>(i, x) \<in> set (enumerate n xs). P x) \<longleftrightarrow> (\<forall>x \<in> set xs. P x)"
  using enumerate_snd_ball [of n xs P] by (simp add: split_beta)

lemma block_issues_Nil: "block_issues b = [] \<longleftrightarrow> block_wf b"
proof -
  have "concat (map (\<lambda>(i, op). issues_of (validate_op op i)) (enumerate 0 ops)) = [] \<longleftrightarrow>
      (\<forall>op \<in> set ops. op_wf op)" for ops
    using enumerate_pair_ball [of 0 ops op_wf]
    by (simp add: concat_map_Nil_iff validate_op_def op_issues_Nil split_beta)
  then show ?thesis
    unfolding block_issues_def block_wf_def
    by (auto simp: concat_map_Nil_iff issue_simps switch_issues_Nil unat_gt_0
        simp del: concat_eq_Nil_conv split: option.splits)
qed

section \<open>Semantic checks\<close>

lemma check_size_eq_Nil [issue_simps]: "check_size_eq c i ln l rn r = [] \<longleftrightarrow> unat l = unat r"
  by (simp add: check_size_eq_def word_unat_eq_iff)

lemma check_size_gt_Nil [issue_simps]: "check_size_gt c i ln l rn r = [] \<longleftrightarrow> unat r < unat l"
  by (simp add: check_size_gt_def word_le_nat_alt not_le)

lemma check_size_lt_Nil [issue_simps]: "check_size_lt c i ln l rn r = [] \<longleftrightarrow> unat l < unat r"
  by (simp add: check_size_lt_def word_le_nat_alt not_le)

lemma check_size_const_Nil [issue_simps]: "check_size_const c i f l r = [] \<longleftrightarrow> unat l = unat r"
  by (simp add: check_size_const_def word_unat_eq_iff)

lemma sem_addr_Nil [issue_simps]: "sem_addr a c i space addr = [] \<longleftrightarrow> addr_width_ok a space addr"
  by (auto simp: sem_addr_def check_size_addr_width_def addr_width_ok_def word_unat_eq_iff)

lemma sem_target_Nil [issue_simps]: "sem_target a c i t = [] \<longleftrightarrow> target_width_ok a t"
  by (auto simp: sem_target_def target_width_ok_def issue_simps)

lemma check_const_memory_access_Nil [issue_simps]:
  "check_const_memory_access a i space addr sz r w rc pc = [] \<longleftrightarrow>
     access_ok a space addr (unat sz) r w"
  by (auto simp: check_const_memory_access_def access_ok_def contains_interval_iff list_ex_iff
      split: option.splits)

lemma sem_subpiece_Nil [issue_simps]:
  "sem_subpiece i dst src off = [] \<longleftrightarrow>
     unat off < bytes src \<and> min (unat off + bytes dst) (2 ^ 32 - 1) \<le> bytes src"
  by (auto simp: sem_subpiece_def word_le_nat_alt word_less_nat_alt unat_u32_saturating_add not_le
      not_less)

lemmas sem_rule_defs = sem_arith_def sem_unary_def sem_shift_def sem_compare_def sem_bool_def
  sem_load_def sem_load_linked_def sem_store_def sem_store_conditional_def
  sem_atomic_cas_def sem_load_guarded_def sem_store_guarded_def

lemma op_sem_issues_Nil: "op_sem_issues op ar i = [] \<longleftrightarrow> op_widths_ok ar op"
  by (cases op)
    (auto simp: op_sem_issues_def op_widths_ok_def sem_rule_defs issue_simps unat_u32_saturating_add unat_gt_0 split: option.splits)

lemma sem_concat_Nil:
  "concat (map (\<lambda>(i, op). issues_of (validate_op_semantic op ar i)) (enumerate 0 ops)) = [] \<longleftrightarrow>
     list_all (op_widths_ok ar) ops"
  using enumerate_pair_ball [of 0 ops "op_widths_ok ar"]
  by (simp add: validate_op_semantic_def concat_map_Nil_iff op_sem_issues_Nil split_beta
      list_all_iff)

section \<open>Architectures made by the builder\<close>

text \<open>The specifications a client can reach with the public operations of \<open>ArchSpec\<close>. The fields
  that have no setter (\<open>addr_size\<close>, \<open>alignment\<close>, \<open>userops\<close>, \<dots>) are public and are assigned
  directly.\<close>

inductive built :: "ArchSpec \<Rightarrow> bool" where
  built_new: "built (arch_new nm)"
| built_instruction: "built a \<Longrightarrow> built (set_instruction_endianness a e)"
| built_memory: "built a \<Longrightarrow> built (set_memory_endianness a e)"
| built_legacy: "built a \<Longrightarrow> built (set_legacy_big_endian a b)"
| built_register: "built a \<Longrightarrow> built (add_register a r)"
| built_space: "built a \<Longrightarrow> built (add_space a s)"
| built_fields: "built a \<Longrightarrow>
     built (a\<lparr>ar_variant := v, ar_addr_size := n, ar_alignment := k, ar_userops := us,
       ar_source_files := fs\<rparr>)"

lemmas arch_inv_steps = arch_inv_new arch_inv_set_instruction_endianness
  arch_inv_set_memory_endianness arch_inv_set_legacy_big_endian arch_inv_add_register
  arch_inv_add_space

lemma built_arch_inv: "built a \<Longrightarrow> arch_inv a"
proof (induction rule: built.induct)
  case (built_fields a v n k us fs)
  then show ?case by (simp add: arch_inv_def legacy_in_sync_def map_in_sync_def)
qed (simp_all add: arch_inv_steps)

lemma find_rev_distinct:
  assumes "distinct (map rd_name rs)" "r \<in> set rs"
  shows "find (\<lambda>x. rd_name x = rd_name r) (rev rs) = Some r"
proof -
  have "find (\<lambda>x. rd_name x = rd_name r) (rev rs) \<noteq> None"
    using assms(2) by (auto simp: find_None_iff)
  then obtain r' where r': "find (\<lambda>x. rd_name x = rd_name r) (rev rs) = Some r'" by auto
  then have "r' \<in> set rs" "rd_name r' = rd_name r"
    by (auto simp: find_Some_iff) (metis length_rev nth_mem set_rev)
  then have "r' = r" using assms by (metis distinct_map inj_onD)
  with r' show ?thesis by simp
qed

lemma map_in_sync_register_map_ok:
  assumes "map_in_sync a" "distinct (map rd_name (ar_registers a))"
  shows "register_map_ok a"
proof -
  have "reg_by_name (ar_registers a) nm = Some off" if "(nm, off) \<in> set (ar_register_map a)" for nm off
    using that assms(1) hm_get_iff [of "ar_register_map a" nm off]
    by (simp add: map_in_sync_def reg_by_name_def)
  moreover have "hm_get (ar_register_map a) (rd_name r) = Some (rd_offset r)"
    if "r \<in> set (ar_registers a)" for r
    using assms(1) find_rev_distinct [OF assms(2) that] by (simp add: map_in_sync_def)
  ultimately show ?thesis by (auto simp: register_map_ok_def)
qed

text \<open>What is left to get right for an architecture that came from the builder.\<close>

definition arch_wf_built :: "ArchSpec \<Rightarrow> bool" where
  "arch_wf_built a \<longleftrightarrow>
     (\<exists>c \<in> set (ar_name a). \<not> ascii_ws c) \<and>
     0 < unat (ar_addr_size a) \<and> 0 < unat (ar_alignment a) \<and>
     (\<exists>!k. k < length (ar_spaces a) \<and> as_is_default (ar_spaces a ! k)) \<and>
     distinct (map as_id (ar_spaces a)) \<and> distinct (map as_name (ar_spaces a)) \<and>
     (\<forall>s \<in> set (ar_spaces a). space_ok s) \<and>
     (\<forall>r \<in> set (ar_registers a). 0 < unat (rd_size r)) \<and>
     distinct (map rd_name (ar_registers a)) \<and>
     distinct (map ud_index (ar_userops a))"

section \<open>Properties\<close>

text \<open>C14. \<open>validate_archspec\<close> decides well-formedness of an architecture: it answers \<open>Ok\<close> on
  exactly the specifications with a visible name, positive address size and alignment, a legacy
  endianness flag in step, one default space, distinct space ids and names, non-blank bank and
  segment ids, non-empty ranges, positive and distinctly named registers, a register map that is
  the graph of the register offsets, and distinct user operation indices.\<close>

theorem validate_archspec_iff: "validate_archspec a = Inr () \<longleftrightarrow> arch_wf a"
  by (simp add: validate_archspec_def archspec_issues_Nil)

text \<open>C13. \<open>validate_block_full\<close> decides structural and width well-formedness of a lifted block
  together, and otherwise reports all structural issues followed by all semantic issues.\<close>

theorem validate_block_full_iff:
  "(validate_block_full b ar = Inr () \<longleftrightarrow> block_wf b \<and> list_all (op_widths_ok ar) (rb_ops b)) \<and>
   issues_of (validate_block_full b ar) =
     issues_of (validate_block b) @ issues_of (validate_block_semantic b ar)"
  by (auto simp: validate_block_full_def validate_block_def validate_block_semantic_def
      block_issues_Nil sem_concat_Nil simp del: concat_eq_Nil_conv)

text \<open>C15. A block that validates touches memory only where its architecture allows: a load from a
  constant address, in a space with configured ranges, reads bytes of one range, without wrapping
  around the address space, and only with read permission.\<close>

theorem validated_load_in_range:
  assumes "validate_block_full b ar = Inr ()"
    and "Load dst space addr \<in> set (rb_ops b)"
    and "vn_space addr = Const"
    and "find (\<lambda>s. as_id s = space) (ar_spaces ar) = Some sp"
    and "as_valid_ranges sp \<noteq> []"
  shows "(\<exists>m \<in> set (as_valid_ranges sp). unat (mr_start m) \<le> unat (vn_offset addr) \<and>
            unat (vn_offset addr) + bytes dst \<le> unat (mr_end m)) \<and>
         (\<forall>p. as_permissions sp = Some p \<longrightarrow> mp_read p)"
proof -
  have "list_all (op_widths_ok ar) (rb_ops b)"
    using assms(1)
    by (auto simp: validate_block_full_def validate_block_def validate_block_semantic_def
        sem_concat_Nil simp del: concat_eq_Nil_conv)
  then have "access_ok ar space addr (bytes dst) True False"
    using assms(2) by (auto simp: list_all_iff op_widths_ok_def dest!: bspec)
  then show ?thesis using assms(3-5) by (auto simp: access_ok_def)
qed

definition rom_arch :: ArchSpec where
  "rom_arch = add_space (arch_new ''mcu'')
     (space_ram 8\<lparr>as_valid_ranges := [\<lparr>mr_start = 0x1000, mr_end = 0x2000\<rparr>],
        as_permissions := Some \<lparr>mp_read = True, mp_write = False, mp_execute = False,
          mp_volatile = False, mp_cacheable = False\<rparr>\<rparr>)"

definition rom_block :: R2ILBlock where
  "rom_block = block_push (block_new 0x1000 4)
     (Load (varnode_register 0 8) Ram (varnode_constant 0x1FF8 8))"

lemma rom_block_valid: "validate_block_full rom_block rom_arch = Inr ()"
  by (simp add: validate_block_full_def validate_block_def validate_block_semantic_def
      validate_op_semantic_def block_issues_Nil block_wf_def op_sem_issues_Nil op_widths_ok_def
      rom_block_def rom_arch_def block_push_def block_new_def add_space_def arch_new_def
      space_ram_def varnode_mk_defs op_wf_def varnode_ok_def meta_ok_def addr_width_ok_def
      access_ok_def addr_space_size_def effective_arch_addr_size_def)

theorem validated_load_in_range_witness:
  "\<exists>m \<in> {\<lparr>mr_start = 0x1000, mr_end = 0x2000\<rparr>}.
     unat (mr_start m) \<le> unat (0x1FF8 :: u64) \<and> unat (0x1FF8 :: u64) + 8 \<le> unat (mr_end m)"
  using validated_load_in_range [OF rom_block_valid, of "varnode_register 0 8" Ram
      "varnode_constant 0x1FF8 8" "hd (ar_spaces rom_arch)"]
  by (simp add: rom_block_def rom_arch_def block_push_def block_new_def add_space_def arch_new_def
      space_ram_def varnode_mk_defs)

text \<open>C16. On architectures assembled with the builder the validator needs to look neither at the
  legacy flag nor at the register map: with distinct register names they are right by
  construction, whatever the order of the builder calls.\<close>

theorem built_validate_iff:
  assumes "built a"
  shows "validate_archspec a = Inr () \<longleftrightarrow> arch_wf_built a"
proof -
  have "legacy_in_sync a" "map_in_sync a"
    using built_arch_inv [OF assms] by (simp_all add: arch_inv_def)
  then show ?thesis
    using map_in_sync_register_map_ok [of a]
    by (auto simp: validate_archspec_def archspec_issues_Nil arch_wf_def arch_wf_built_def)
qed

theorem built_validate_iff_witness:
  "validate_archspec (add_register (add_space (arch_new ''x86'') (space_ram 8))
     (register_new ''RAX'' 0 8)) = Inr ()"
proof -
  have "built (add_register (add_space (arch_new ''x86'') (space_ram 8)) (register_new ''RAX'' 0 8))"
    by (intro built.intros)
  moreover have "arch_wf_built (add_register (add_space (arch_new ''x86'') (space_ram 8))
      (register_new ''RAX'' 0 8))"
    by (simp add: arch_wf_built_def add_register_def add_space_def arch_new_def space_ram_def
        register_new_def space_ok_def id_ok_def ascii_ws_def) (rule ex1I [of _ 0], simp_all)
  ultimately show ?thesis by (simp add: built_validate_iff)
qed

end
