(* ===== verification/R2IL_Serialize.thy ===== *)
theory R2IL_Serialize
  imports R2IL_Arch
begin

unbundle bit_operations_syntax

text \<open>
  The container format of \<open>.r2il\<close> files (\<open>serialize.rs\<close>): four magic bytes, the little
  endian length of the header, the header, the encoded \<open>ArchSpec\<close>. The encodings themselves
  are the third party crates \<open>postcard\<close> and \<open>bincode\<close>; they are the parameter \<open>C\<close> of type
  \<open>codec\<close>, and \<open>codec_roundtrips\<close> states what the format relies on: decoding what was
  encoded gives the value back. \<open>cd_legacy\<close> is \<open>None\<close> when the cargo feature
  \<open>legacy-bincode\<close> is off. Files are their contents, lists of bytes.
\<close>

section \<open>Little endian integers\<close>

definition u32_to_le_bytes :: "u32 \<Rightarrow> u8 list" where
  "u32_to_le_bytes w = map (\<lambda>i. ucast (drop_bit (8 * i) w)) [0, 1, 2, 3]"

definition u32_from_le_bytes :: "u8 list \<Rightarrow> u32" where
  "u32_from_le_bytes bs = foldr (\<lambda>b acc. ucast b OR push_bit 8 acc) bs 0"

lemma length_u32_to_le_bytes [simp]: "length (u32_to_le_bytes w) = 4"
  by (simp add: u32_to_le_bytes_def)

lemma u32_le_bytes_roundtrip: "u32_from_le_bytes (u32_to_le_bytes w) = w"
proof (rule bit_word_eqI)
  fix n :: nat
  assume n: "n < LENGTH(32)"
  then have "n < 8 \<or> (8 \<le> n \<and> n < 16) \<or> (16 \<le> n \<and> n < 24) \<or> (24 \<le> n \<and> n < 32)"
    by auto
  then show "bit (u32_from_le_bytes (u32_to_le_bytes w)) n = bit w n"
    using n
    by (auto simp: u32_from_le_bytes_def u32_to_le_bytes_def bit_or_iff bit_push_bit_iff
        bit_ucast_iff bit_drop_bit_eq)
qed

section \<open>Data\<close>

definition MAGIC :: "u8 list" where
  "MAGIC = [0x52, 0x32, 0x49, 0x4C]"

definition FORMAT_VERSION :: u32 where
  "FORMAT_VERSION = 4"

datatype SerializeError =
  Io string | Postcard string | LegacyBincode string | InvalidMagic | UnsupportedVersion u32

record FileHeader =
  fh_version :: u32
  fh_arch_name :: string

record AddressSpaceV1 =
  v1s_id :: SpaceId
  v1s_name :: string
  v1s_addr_size :: u32
  v1s_word_size :: u32
  v1s_is_default :: bool

record AddressSpaceV2 =
  v2s_id :: SpaceId
  v2s_name :: string
  v2s_addr_size :: u32
  v2s_word_size :: u32
  v2s_is_default :: bool
  v2s_endianness :: "Endianness option"

definition space_from_v1 :: "AddressSpaceV1 \<Rightarrow> AddressSpace" where
  "space_from_v1 v =
     \<lparr>as_id = v1s_id v, as_name = v1s_name v, as_addr_size = v1s_addr_size v,
      as_word_size = v1s_word_size v, as_is_default = v1s_is_default v,
      as_endianness = None, as_memory_class = None, as_permissions = None,
      as_valid_ranges = [], as_bank_id = None, as_segment_id = None\<rparr>"

definition space_from_v2 :: "AddressSpaceV2 \<Rightarrow> AddressSpace" where
  "space_from_v2 v =
     \<lparr>as_id = v2s_id v, as_name = v2s_name v, as_addr_size = v2s_addr_size v,
      as_word_size = v2s_word_size v, as_is_default = v2s_is_default v,
      as_endianness = v2s_endianness v, as_memory_class = None, as_permissions = None,
      as_valid_ranges = [], as_bank_id = None, as_segment_id = None\<rparr>"

record ArchSpecV1 =
  v1_name :: string
  v1_variant :: string
  v1_big_endian :: bool
  v1_addr_size :: u32
  v1_alignment :: u32
  v1_spaces :: "AddressSpaceV1 list"
  v1_registers :: "RegisterDef list"
  v1_register_map :: "(string, u64) hashmap"
  v1_userops :: "UserOpDef list"
  v1_source_files :: "string list"

record ArchSpecV2 =
  v2_name :: string
  v2_variant :: string
  v2_big_endian :: bool
  v2_instruction_endianness :: Endianness
  v2_memory_endianness :: Endianness
  v2_addr_size :: u32
  v2_alignment :: u32
  v2_spaces :: "AddressSpaceV2 list"
  v2_registers :: "RegisterDef list"
  v2_register_map :: "(string, u64) hashmap"
  v2_userops :: "UserOpDef list"
  v2_source_files :: "string list"

definition arch_from_v1 :: "ArchSpecV1 \<Rightarrow> ArchSpec" where
  "arch_from_v1 v =
     (let endian = from_big_endian (v1_big_endian v) in
      sync_legacy_big_endian
       \<lparr>ar_name = v1_name v, ar_variant = v1_variant v, ar_big_endian = v1_big_endian v,
        ar_instruction_endianness = endian, ar_memory_endianness = endian,
        ar_addr_size = v1_addr_size v, ar_alignment = v1_alignment v,
        ar_spaces = map space_from_v1 (v1_spaces v), ar_registers = v1_registers v,
        ar_register_map = v1_register_map v, ar_userops = v1_userops v,
        ar_source_files = v1_source_files v\<rparr>)"

definition arch_from_v2 :: "ArchSpecV2 \<Rightarrow> ArchSpec" where
  "arch_from_v2 v =
     sync_legacy_big_endian
      \<lparr>ar_name = v2_name v, ar_variant = v2_variant v, ar_big_endian = v2_big_endian v,
       ar_instruction_endianness = v2_instruction_endianness v,
       ar_memory_endianness = v2_memory_endianness v,
       ar_addr_size = v2_addr_size v, ar_alignment = v2_alignment v,
       ar_spaces = map space_from_v2 (v2_spaces v), ar_registers = v2_registers v,
       ar_register_map = v2_register_map v, ar_userops = v2_userops v,
       ar_source_files = v2_source_files v\<rparr>"

section \<open>The third party encodings\<close>

record legacy_codec =
  lg_header :: "u8 list \<Rightarrow> string + FileHeader"
  lg_v1 :: "u8 list \<Rightarrow> string + ArchSpecV1"
  lg_v2 :: "u8 list \<Rightarrow> string + ArchSpecV2"
  lg_v3 :: "u8 list \<Rightarrow> string + ArchSpec"

record codec =
  cd_enc_header :: "FileHeader \<Rightarrow> string + u8 list"
  cd_dec_header :: "u8 list \<Rightarrow> string + FileHeader"
  cd_enc_arch :: "ArchSpec \<Rightarrow> string + u8 list"
  cd_dec_arch :: "u8 list \<Rightarrow> string + ArchSpec"
  cd_legacy :: "legacy_codec option"

fun map_err :: "('e \<Rightarrow> 'f) \<Rightarrow> 'e + 'a \<Rightarrow> 'f + 'a" where
  "map_err f (Inl e) = Inl (f e)"
| "map_err f (Inr x) = Inr x"

definition decode_legacy ::
  "(legacy_codec \<Rightarrow> u8 list \<Rightarrow> string + 'a) \<Rightarrow> codec \<Rightarrow> u8 list \<Rightarrow> u32 \<Rightarrow> SerializeError + 'a" where
  "decode_legacy sel C bytes version =
     (case cd_legacy C of
        Some L \<Rightarrow> map_err LegacyBincode (sel L bytes)
      | None \<Rightarrow> Inl (UnsupportedVersion version))"

definition decode_file_header :: "codec \<Rightarrow> u8 list \<Rightarrow> SerializeError + FileHeader" where
  "decode_file_header C bytes =
     (case cd_legacy C of
        Some L \<Rightarrow>
          (case cd_dec_header C bytes of
             Inr h \<Rightarrow> Inr h
           | Inl primary \<Rightarrow>
               (case lg_header L bytes of Inr h \<Rightarrow> Inr h | Inl _ \<Rightarrow> Inl (Postcard primary)))
      | None \<Rightarrow> map_err Postcard (cd_dec_header C bytes))"

definition deserialize_archspec_bytes :: "codec \<Rightarrow> u32 \<Rightarrow> u8 list \<Rightarrow> SerializeError + ArchSpec" where
  "deserialize_archspec_bytes C version bytes =
     (if version = 1 then
        bind_sum (decode_legacy lg_v1 C bytes version) (\<lambda>v. Inr (arch_from_v1 v))
      else if version = 2 then
        bind_sum (decode_legacy lg_v2 C bytes version) (\<lambda>v. Inr (arch_from_v2 v))
      else if version = 3 then
        bind_sum (decode_legacy lg_v3 C bytes version) (\<lambda>a. Inr (sync_legacy_big_endian a))
      else if version = FORMAT_VERSION then
        bind_sum (map_err Postcard (cd_dec_arch C bytes)) (\<lambda>a. Inr (sync_legacy_big_endian a))
      else Inl (UnsupportedVersion version))"

definition header_of :: "ArchSpec \<Rightarrow> FileHeader" where
  "header_of a = \<lparr>fh_version = FORMAT_VERSION, fh_arch_name = ar_name a\<rparr>"

definition to_bytes :: "codec \<Rightarrow> ArchSpec \<Rightarrow> SerializeError + u8 list" where
  "to_bytes C a =
     bind_sum (map_err Postcard (cd_enc_header C (header_of a))) (\<lambda>header_bytes.
     bind_sum (map_err Postcard (cd_enc_arch C a)) (\<lambda>arch_bytes.
       Inr (MAGIC @ u32_to_le_bytes (of_nat (length header_bytes)) @ header_bytes @ arch_bytes)))"

definition from_bytes :: "codec \<Rightarrow> u8 list \<Rightarrow> SerializeError + ArchSpec" where
  "from_bytes C bytes =
     (if length bytes < 8 then Inl InvalidMagic
      else if take 4 bytes \<noteq> MAGIC then Inl InvalidMagic
      else let header_len = unat (u32_from_le_bytes (take 4 (drop 4 bytes))) in
        if length bytes < 8 + header_len then Inl InvalidMagic
        else bind_sum (decode_file_header C (take header_len (drop 8 bytes))) (\<lambda>header.
          deserialize_archspec_bytes C (fh_version header) (drop (8 + header_len) bytes)))"

text \<open>
  \<open>load\<close> reads the same format from a file. \<open>read_exact\<close> past the end is an I/O error;
  the contents of the file are the argument.
\<close>

definition read_exact :: "nat \<Rightarrow> u8 list \<Rightarrow> SerializeError + (u8 list \<times> u8 list)" where
  "read_exact n bs =
     (if length bs < n then Inl (Io ''failed to fill whole buffer'') else Inr (take n bs, drop n bs))"

definition load_file :: "codec \<Rightarrow> u8 list \<Rightarrow> SerializeError + ArchSpec" where
  "load_file C content =
     bind_sum (read_exact 4 content) (\<lambda>(magic, r1).
       if magic \<noteq> MAGIC then Inl InvalidMagic
       else bind_sum (read_exact 4 r1) (\<lambda>(len_bytes, r2).
         let header_len = unat (u32_from_le_bytes len_bytes) in
         bind_sum (read_exact header_len r2) (\<lambda>(header_bytes, r3).
           bind_sum (decode_file_header C header_bytes) (\<lambda>header.
             deserialize_archspec_bytes C (fh_version header) r3))))"

text \<open>\<open>save\<close> writes, in this order; the result is the content of the file it leaves.\<close>

definition save_file :: "codec \<Rightarrow> ArchSpec \<Rightarrow> SerializeError + u8 list" where
  "save_file C a =
     (let w1 = MAGIC in
      bind_sum (map_err Postcard (cd_enc_header C (header_of a))) (\<lambda>header_bytes.
        let w2 = w1 @ u32_to_le_bytes (of_nat (length header_bytes)); w3 = w2 @ header_bytes in
        bind_sum (map_err Postcard (cd_enc_arch C a)) (\<lambda>arch_bytes. Inr (w3 @ arch_bytes))))"

section \<open>What the format relies on\<close>

definition codec_roundtrips :: "codec \<Rightarrow> bool" where
  "codec_roundtrips C \<longleftrightarrow>
     (\<forall>h bs. cd_enc_header C h = Inr bs \<longrightarrow> cd_dec_header C bs = Inr h) \<and>
     (\<forall>a bs. cd_enc_arch C a = Inr bs \<longrightarrow> cd_dec_arch C bs = Inr a)"

lemma map_err_Inr [simp]: "map_err f m = Inr x \<longleftrightarrow> m = Inr x"
  by (cases m) auto

lemma decode_file_header_current:
  "cd_dec_header C bs = Inr h \<Longrightarrow> decode_file_header C bs = Inr h"
  by (simp add: decode_file_header_def split: option.splits)

lemma to_bytes_Inr:
  "to_bytes C a = Inr bs \<longleftrightarrow>
     (\<exists>hb ab. cd_enc_header C (header_of a) = Inr hb \<and> cd_enc_arch C a = Inr ab \<and>
        bs = MAGIC @ u32_to_le_bytes (of_nat (length hb)) @ hb @ ab)"
  by (auto simp: to_bytes_def bind_sum_Inr)

lemma length_MAGIC [simp]: "length MAGIC = 4"
  by (simp add: MAGIC_def)

lemma from_bytes_framed:
  assumes "length hb < 2 ^ 32"
  shows "from_bytes C (MAGIC @ u32_to_le_bytes (of_nat (length hb)) @ hb @ ab) =
     bind_sum (decode_file_header C hb) (\<lambda>h. deserialize_archspec_bytes C (fh_version h) ab)"
proof -
  have "unat (of_nat (length hb) :: u32) = length hb"
    using assms by (simp add: unat_of_nat)
  then show ?thesis
    by (simp add: from_bytes_def u32_le_bytes_roundtrip)
qed

text \<open>Every architecture that decodes has its legacy flag in step with its memory endianness.\<close>

lemma deserialize_legacy_in_sync:
  assumes "deserialize_archspec_bytes C v bs = Inr a"
  shows "legacy_in_sync a"
  using assms
  by (auto simp: deserialize_archspec_bytes_def bind_sum_Inr arch_from_v1_def arch_from_v2_def
      Let_def split: if_splits)

section \<open>Properties\<close>

text \<open>C17. Round trip of the container format: whatever \<open>to_bytes\<close> produces, \<open>from_bytes\<close>
  reads back as the same architecture with its legacy endianness flag recomputed, for any
  encoding that round trips and a header below the four gigabytes its length field can hold.\<close>

theorem to_bytes_from_bytes:
  assumes "codec_roundtrips C"
    and "to_bytes C a = Inr bs"
    and "\<And>hb. cd_enc_header C (header_of a) = Inr hb \<Longrightarrow> length hb < 2 ^ 32"
  shows "from_bytes C bs = Inr (sync_legacy_big_endian a)"
proof -
  from assms(2) obtain hb ab where hb: "cd_enc_header C (header_of a) = Inr hb"
    and ab: "cd_enc_arch C a = Inr ab"
    and bs: "bs = MAGIC @ u32_to_le_bytes (of_nat (length hb)) @ hb @ ab"
    by (auto simp: to_bytes_Inr)
  from assms(1) hb ab have "cd_dec_header C hb = Inr (header_of a)" "cd_dec_arch C ab = Inr a"
    by (auto simp: codec_roundtrips_def)
  moreover have "length hb < 2 ^ 32" by (rule assms(3) [OF hb])
  ultimately show ?thesis
    unfolding bs
    by (simp add: from_bytes_framed decode_file_header_current deserialize_archspec_bytes_def
        header_of_def FORMAT_VERSION_def)
qed

text \<open>A codec that knows one architecture and one header, for the witnesses.\<close>

definition one_arch_codec :: "ArchSpec \<Rightarrow> codec" where
  "one_arch_codec a0 =
     \<lparr>cd_enc_header = (\<lambda>h. if h = header_of a0 then Inr [7, 7] else Inl ''header''),
      cd_dec_header = (\<lambda>bs. if bs = [7, 7] then Inr (header_of a0) else Inl ''header''),
      cd_enc_arch = (\<lambda>a. if a = a0 then Inr [1, 2, 3] else Inl ''arch''),
      cd_dec_arch = (\<lambda>bs. if bs = [1, 2, 3] then Inr a0 else Inl ''arch''),
      cd_legacy = None\<rparr>"

lemma one_arch_codec_roundtrips: "codec_roundtrips (one_arch_codec a0)"
  by (simp add: codec_roundtrips_def one_arch_codec_def)

lemma one_arch_codec_bytes:
  "to_bytes (one_arch_codec a0) a0 = Inr [0x52, 0x32, 0x49, 0x4C, 2, 0, 0, 0, 7, 7, 1, 2, 3]"
  by (simp add: to_bytes_def one_arch_codec_def MAGIC_def u32_to_le_bytes_def)

lemma one_arch_codec_decodes:
  "from_bytes (one_arch_codec a0) [0x52, 0x32, 0x49, 0x4C, 2, 0, 0, 0, 7, 7, 1, 2, 3] =
     Inr (sync_legacy_big_endian a0)"
  by (simp add: from_bytes_def one_arch_codec_def MAGIC_def u32_from_le_bytes_def
      decode_file_header_def deserialize_archspec_bytes_def header_of_def FORMAT_VERSION_def)

theorem to_bytes_from_bytes_witness:
  "from_bytes (one_arch_codec (arch_new ''x86''))
     [0x52, 0x32, 0x49, 0x4C, 2, 0, 0, 0, 7, 7, 1, 2, 3] =
   Inr (sync_legacy_big_endian (arch_new ''x86''))"
  by (rule to_bytes_from_bytes [OF one_arch_codec_roundtrips one_arch_codec_bytes])
     (auto simp: one_arch_codec_def split: if_splits)

text \<open>Reading from a file and reading from memory accept the same inputs with the same result
  (they differ only in which error a truncated input reports), and \<open>save\<close> leaves exactly the
  bytes of \<open>to_bytes\<close>.\<close>

theorem load_file_from_bytes:
  "(load_file C bs = Inr a \<longleftrightarrow> from_bytes C bs = Inr a) \<and> save_file C a = to_bytes C a"
proof
  show "load_file C bs = Inr a \<longleftrightarrow> from_bytes C bs = Inr a"
    by (auto simp: load_file_def from_bytes_def read_exact_def bind_sum_Inr Let_def
        add.commute split: if_splits)
  show "save_file C a = to_bytes C a"
    by (simp add: save_file_def to_bytes_def Let_def)
qed

text \<open>C18. Every file that loads, whatever its version, yields an architecture whose legacy
  \<open>big_endian\<close> flag agrees with its memory endianness, so that the validator's legacy check
  passes.\<close>

theorem from_bytes_legacy_in_sync:
  assumes "from_bytes C bs = Inr a"
  shows "legacy_in_sync a"
  using assms deserialize_legacy_in_sync
  by (auto simp: from_bytes_def bind_sum_Inr Let_def split: if_splits)

theorem from_bytes_legacy_in_sync_witness:
  "legacy_in_sync (sync_legacy_big_endian (arch_new ''x86''))"
  by (rule from_bytes_legacy_in_sync [OF one_arch_codec_decodes])

end
