(* ===== verification/SSA_Var.thy ===== *)
theory SSA_Var
  imports R2IL_Arch
begin

text \<open>
  SSA variables and their names: \<open>r2ssa/src/var.rs\<close> and \<open>r2ssa/src/naming.rs\<close>.

  A variable is a name with a version and a size; its derived order is the lexicographic one, and
  the instance of \<open>linorder\<close> below is that order. The register name map picks one name per
  \<open>(offset, size)\<close>; the two process-wide caches in front of it are explicit state, with the
  address of the architecture and the hash function of the standard library as parameters.
\<close>

section \<open>Variables\<close>

datatype SSAVar = SSAVar (sv_name: string) (sv_version: u32) (sv_size: u32)

definition ssa_key :: "SSAVar \<Rightarrow> string \<times> u32 \<times> u32" where
  "ssa_key v = (sv_name v, sv_version v, sv_size v)"

lemma ssa_key_inj [simp]: "ssa_key v = ssa_key w \<longleftrightarrow> v = w"
  by (cases v; cases w) (auto simp: ssa_key_def)

instantiation SSAVar :: linorder
begin

definition less_eq_SSAVar :: "SSAVar \<Rightarrow> SSAVar \<Rightarrow> bool" where
  "v \<le> w \<longleftrightarrow> ssa_key v \<le> ssa_key w"

definition less_SSAVar :: "SSAVar \<Rightarrow> SSAVar \<Rightarrow> bool" where
  "v < w \<longleftrightarrow> ssa_key v < ssa_key w"

instance
  by standard (auto simp: less_eq_SSAVar_def less_SSAVar_def less_le_not_le)

end

definition ssa_new :: "string \<Rightarrow> u32 \<Rightarrow> u32 \<Rightarrow> SSAVar" where
  "ssa_new nm ver sz = SSAVar nm ver sz"

definition ssa_initial :: "string \<Rightarrow> u32 \<Rightarrow> SSAVar" where
  "ssa_initial nm sz = ssa_new nm 0 sz"

definition ssa_constant :: "u64 \<Rightarrow> u32 \<Rightarrow> SSAVar" where
  "ssa_constant v sz = ssa_new (''const:'' @ show_hex (unat v)) 0 sz"

definition next_version :: "SSAVar \<Rightarrow> SSAVar" where
  "next_version v = SSAVar (sv_name v) (sv_version v + 1) (sv_size v)"

definition display_name :: "SSAVar \<Rightarrow> string" where
  "display_name v =
     (if starts_with ''reg:'' (sv_name v) \<or> starts_with ''tmp:'' (sv_name v) \<or>
         starts_with ''const:'' (sv_name v) \<or> starts_with ''ram:'' (sv_name v) \<or>
         starts_with ''space'' (sv_name v)
      then sv_name v @ ''_'' @ show_dec (unat (sv_version v))
      else to_ascii_uppercase (sv_name v) @ ''_'' @ show_dec (unat (sv_version v)))"

definition ssa_is_const :: "SSAVar \<Rightarrow> bool" where
  "ssa_is_const v = starts_with ''const:'' (sv_name v)"

definition ssa_is_temp :: "SSAVar \<Rightarrow> bool" where
  "ssa_is_temp v = starts_with ''tmp:'' (sv_name v)"

definition ssa_is_register :: "SSAVar \<Rightarrow> bool" where
  "ssa_is_register v \<longleftrightarrow> \<not> ssa_is_const v \<and> \<not> ssa_is_temp v"

section \<open>Names of varnodes\<close>

type_synonym RegisterNameMap = "(u64 \<times> u32, string) hashmap"

text \<open>The first pass groups the register names by location, in declaration order.\<close>

fun names_by_key ::
  "(u64 \<times> u32, string list) hashmap \<Rightarrow> RegisterDef list \<Rightarrow> (u64 \<times> u32, string list) hashmap"
where
  "names_by_key m [] = m"
| "names_by_key m (r # rs) =
     (let k = (rd_offset r, rd_size r);
          old = (case hm_get m k of Some ns \<Rightarrow> ns | None \<Rightarrow> [])
      in names_by_key (hm_insert k (old @ [rd_name r]) m) rs)"

definition build_register_name_map_uncached :: "ArchSpec \<Rightarrow> RegisterNameMap" where
  "build_register_name_map_uncached a =
     List.map_filter (\<lambda>(key, names). map_option (\<lambda>nm. (key, nm)) (select_register_name names))
       (names_by_key [] (ar_registers a))"

definition varnode_to_name :: "Varnode \<Rightarrow> RegisterNameMap option \<Rightarrow> string" where
  "varnode_to_name vn reg_names =
     (case vn_space vn of
        Register \<Rightarrow>
          (case reg_names of
             Some m \<Rightarrow>
               (case hm_get m (vn_offset vn, vn_size vn) of
                  Some nm \<Rightarrow> nm
                | None \<Rightarrow> ''reg:'' @ show_hex (unat (vn_offset vn)))
           | None \<Rightarrow> ''reg:'' @ show_hex (unat (vn_offset vn)))
      | Unique \<Rightarrow> ''tmp:'' @ show_hex (unat (vn_offset vn))
      | Const \<Rightarrow> ''const:'' @ show_hex (unat (vn_offset vn))
      | Ram \<Rightarrow> ''ram:'' @ show_hex (unat (vn_offset vn))
      | Custom i \<Rightarrow>
          ''space'' @ show_dec (unat i) @ '':'' @ show_hex (unat (vn_offset vn)))"

section \<open>The caches\<close>

record ArchLayoutHashKey =
  lk_ptr_id :: nat
  lk_name :: string
  lk_variant :: string
  lk_addr_size :: u32
  lk_register_count :: nat

record ArchCacheTag =
  ct_name :: string
  ct_variant :: string
  ct_addr_size :: u32
  ct_register_layout_hash :: u64

record naming_caches =
  nc_layout :: "(ArchLayoutHashKey, u64) hashmap"
  nc_names :: "(ArchCacheTag, RegisterNameMap) hashmap"

type_synonym layout_hasher = "(string \<times> u64 \<times> u32) list \<Rightarrow> u64"

definition register_layout :: "ArchSpec \<Rightarrow> (string \<times> u64 \<times> u32) list" where
  "register_layout a = map (\<lambda>r. (rd_name r, rd_offset r, rd_size r)) (ar_registers a)"

definition layout_key :: "nat \<Rightarrow> ArchSpec \<Rightarrow> ArchLayoutHashKey" where
  "layout_key ptr a =
     \<lparr>lk_ptr_id = ptr, lk_name = ar_name a, lk_variant = ar_variant a,
      lk_addr_size = ar_addr_size a, lk_register_count = length (ar_registers a)\<rparr>"

definition tag_with_hash :: "ArchSpec \<Rightarrow> u64 \<Rightarrow> ArchCacheTag" where
  "tag_with_hash a h =
     \<lparr>ct_name = ar_name a, ct_variant = ar_variant a, ct_addr_size = ar_addr_size a,
      ct_register_layout_hash = h\<rparr>"

definition tag_from_arch ::
  "layout_hasher \<Rightarrow> nat \<Rightarrow> ArchSpec \<Rightarrow> naming_caches \<Rightarrow> ArchCacheTag \<times> naming_caches" where
  "tag_from_arch hasher ptr a c =
     (let cache_key = layout_key ptr a in
      case hm_get (nc_layout c) cache_key of
        Some h \<Rightarrow> (tag_with_hash a h, c)
      | None \<Rightarrow>
          let h = hasher (register_layout a)
          in (tag_with_hash a h, c\<lparr>nc_layout := hm_insert cache_key h (nc_layout c)\<rparr>))"

definition cached_register_name_map ::
  "layout_hasher \<Rightarrow> nat \<Rightarrow> ArchSpec \<Rightarrow> naming_caches \<Rightarrow> RegisterNameMap \<times> naming_caches" where
  "cached_register_name_map hasher ptr a c =
     (let (tag, c1) = tag_from_arch hasher ptr a c in
      case hm_get (nc_names c1) tag of
        Some m \<Rightarrow> (m, c1)
      | None \<Rightarrow>
          let m = build_register_name_map_uncached a
          in (m, c1\<lparr>nc_names := hm_insert tag m (nc_names c1)\<rparr>))"

definition empty_caches :: naming_caches where
  "empty_caches = \<lparr>nc_layout = [], nc_names = []\<rparr>"

section \<open>The register name map\<close>

definition names_at :: "u64 \<times> u32 \<Rightarrow> RegisterDef list \<Rightarrow> string list" where
  "names_at k rs = map rd_name (filter (\<lambda>r. (rd_offset r, rd_size r) = k) rs)"

definition get_names :: "('k, 'v list) hashmap \<Rightarrow> 'k \<Rightarrow> 'v list" where
  "get_names m k = (case hm_get m k of Some ns \<Rightarrow> ns | None \<Rightarrow> [])"

lemma get_names_by_key: "get_names (names_by_key m rs) k = get_names m k @ names_at k rs"
  by (induction m rs rule: names_by_key.induct)
    (auto simp: names_at_def get_names_def hm_get_insert Let_def split: option.splits)

lemma names_by_key_inv:
  "hm_ok m \<Longrightarrow> (\<forall>(k, ns) \<in> set m. ns \<noteq> []) \<Longrightarrow>
   hm_ok (names_by_key m rs) \<and> (\<forall>(k, ns) \<in> set (names_by_key m rs). ns \<noteq> [])"
proof (induction m rs rule: names_by_key.induct)
  case (2 m r rs)
  have "x \<in> set (hm_insert k v m) \<Longrightarrow> x = (k, v) \<or> x \<in> set m" for x k v
    by (induction k v m rule: hm_insert.induct) (auto split: if_splits)
  with 2 show ?case by (fastforce simp: Let_def hm_ok_insert)
qed simp

lemma map_of_map_filter:
  "distinct (map fst m) \<Longrightarrow>
   map_of (List.map_filter (\<lambda>(k, x). map_option (\<lambda>y. (k, y)) (f x)) m) k =
     Option.bind (map_of m k) f"
proof (induction m)
  case (Cons p m)
  have "map_of (List.map_filter (\<lambda>(k, x). map_option (\<lambda>y. (k, y)) (f x)) m) (fst p) = None"
    using Cons by (auto simp: map_of_eq_None_iff map_filter_def image_iff)
  with Cons show ?case by (cases p) (auto simp: map_filter_simps split: option.splits)
qed (simp add: map_filter_simps)

lemma hm_get_build_register_name_map:
  "hm_get (build_register_name_map_uncached a) k =
     select_register_name (names_at k (ar_registers a))"
proof -
  let ?m = "names_by_key [] (ar_registers a)"
  have inv: "hm_ok ?m" "\<forall>(k, ns) \<in> set ?m. ns \<noteq> []"
    using names_by_key_inv [of "[]" "ar_registers a"] by (simp_all add: hm_ok_def)
  have "hm_get (build_register_name_map_uncached a) k =
      Option.bind (map_of ?m k) select_register_name"
    using inv(1) unfolding hm_ok_def hm_get_def build_register_name_map_uncached_def
    by (rule map_of_map_filter)
  moreover have "names_at k (ar_registers a) = (case map_of ?m k of Some ns \<Rightarrow> ns | None \<Rightarrow> [])"
    using get_names_by_key [of "[]" "ar_registers a" k] by (simp add: get_names_def hm_get_def)
  ultimately show ?thesis
    by (auto simp: select_register_name_Min split: option.splits)
qed

section \<open>Caching is transparent while addresses are stable\<close>

text \<open>
  \<open>look\<close> says which architecture lives at an address for the whole run. \<open>reached\<close> are the cache
  states that calls on those architectures produce.
\<close>

inductive reached :: "layout_hasher \<Rightarrow> (nat \<Rightarrow> ArchSpec) \<Rightarrow> naming_caches \<Rightarrow> bool"
  for hasher look where
  reached_empty: "reached hasher look empty_caches"
| reached_call: "reached hasher look c \<Longrightarrow>
     reached hasher look (snd (cached_register_name_map hasher p (look p) c))"

definition caches_inv :: "layout_hasher \<Rightarrow> (nat \<Rightarrow> ArchSpec) \<Rightarrow> naming_caches \<Rightarrow> bool" where
  "caches_inv hasher look c \<longleftrightarrow>
     (\<forall>k h. hm_get (nc_layout c) k = Some h \<longrightarrow> h = hasher (register_layout (look (lk_ptr_id k)))) \<and>
     (\<forall>t m. hm_get (nc_names c) t = Some m \<longrightarrow>
        (\<exists>p. t = tag_with_hash (look p) (hasher (register_layout (look p))) \<and>
             m = build_register_name_map_uncached (look p)))"

lemma names_by_key_layout:
  "map (\<lambda>r. (rd_name r, rd_offset r, rd_size r)) rs = map (\<lambda>r. (rd_name r, rd_offset r, rd_size r)) rs' \<Longrightarrow>
   names_by_key m rs = names_by_key m rs'"
proof (induction rs arbitrary: m rs')
  case (Cons r rs)
  then obtain r' rs'' where "rs' = r' # rs''" by (cases rs') auto
  with Cons show ?case by (simp add: Let_def)
qed simp

lemma build_register_name_map_layout:
  "register_layout a = register_layout b \<Longrightarrow>
   build_register_name_map_uncached a = build_register_name_map_uncached b"
  using names_by_key_layout [of "ar_registers a" "ar_registers b" "[]"]
  unfolding build_register_name_map_uncached_def register_layout_def by simp

lemma tag_from_arch_inv:
  assumes "caches_inv hasher look c"
  shows "fst (tag_from_arch hasher p (look p) c) =
           tag_with_hash (look p) (hasher (register_layout (look p)))"
    and "caches_inv hasher look (snd (tag_from_arch hasher p (look p) c))"
proof -
  let ?k = "layout_key p (look p)"
  have h: "h = hasher (register_layout (look p))" if "hm_get (nc_layout c) ?k = Some h" for h
    using assms that unfolding caches_inv_def by (force simp: layout_key_def)
  then show "fst (tag_from_arch hasher p (look p) c) =
      tag_with_hash (look p) (hasher (register_layout (look p)))"
    by (simp add: tag_from_arch_def Let_def split: option.splits)
  show "caches_inv hasher look (snd (tag_from_arch hasher p (look p) c))"
    using assms
    by (auto simp: tag_from_arch_def caches_inv_def Let_def layout_key_def hm_get_insert
        split: option.splits)
qed

lemma cached_register_name_map_inv:
  assumes "caches_inv hasher look c" "inj_on hasher (range (register_layout \<circ> look))"
  shows "fst (cached_register_name_map hasher p (look p) c) =
           build_register_name_map_uncached (look p) \<and>
         caches_inv hasher look (snd (cached_register_name_map hasher p (look p) c))"
proof -
  obtain t c1 where t: "tag_from_arch hasher p (look p) c = (t, c1)" by fastforce
  note inv = tag_from_arch_inv [OF assms(1), of p, unfolded t, simplified]
  have "m = build_register_name_map_uncached (look p)" if "hm_get (nc_names c1) t = Some m" for m
  proof -
    from that inv(2) obtain q where q: "t = tag_with_hash (look q) (hasher (register_layout (look q)))"
      "m = build_register_name_map_uncached (look q)"
      unfolding caches_inv_def by blast
    then have "hasher (register_layout (look q)) = hasher (register_layout (look p))"
      using inv(1) by (simp add: tag_with_hash_def)
    then have "register_layout (look q) = register_layout (look p)"
      using assms(2) by (auto dest: inj_onD)
    with q(2) show ?thesis by (metis build_register_name_map_layout)
  qed
  moreover have "caches_inv hasher look
      (c1\<lparr>nc_names := hm_insert t (build_register_name_map_uncached (look p)) (nc_names c1)\<rparr>)"
    using inv unfolding caches_inv_def by (auto simp: hm_get_insert)
  ultimately show ?thesis
    using inv(2) by (auto simp: cached_register_name_map_def t Let_def split: option.splits)
qed

lemma reached_inv:
  assumes "reached hasher look c" "inj_on hasher (range (register_layout \<circ> look))"
  shows "caches_inv hasher look c"
  using assms
  by (induction rule: reached.induct)
    (simp_all add: cached_register_name_map_inv, simp add: caches_inv_def empty_caches_def hm_get_def)

section \<open>Properties\<close>

lemma digit_char_not_colon: "d < 16 \<Longrightarrow> digit_char d \<noteq> CHR '':''"
proof
  assume "d < 16" "digit_char d = CHR '':''"
  then have "(of_char (digit_char d) :: nat) = 58" by simp
  with \<open>d < 16\<close> show False by (auto simp: of_char_digit_char split: if_splits)
qed

lemma show_radix_no_colon: "r \<le> 16 \<Longrightarrow> 2 \<le> r \<Longrightarrow> CHR '':'' \<notin> set (show_radix r n)"
proof (induction r n rule: show_radix.induct)
  case (1 r n)
  then have "n mod r < 16" by (meson less_le_trans mod_less_divisor zero_less_numeral)
  with 1 show ?case
    using digit_char_not_colon [of n] digit_char_not_colon [of "n mod r"]
    by (subst show_radix.simps) auto
qed

lemma append_colon_inj:
  "c \<notin> set xs \<Longrightarrow> c \<notin> set ys \<Longrightarrow> xs @ c # us = ys @ c # vs \<longleftrightarrow> xs = ys \<and> us = vs"
proof (induction xs arbitrary: ys)
  case Nil
  then show ?case by (cases ys) auto
next
  case (Cons x xs)
  then show ?case by (cases ys) auto
qed

text \<open>C30. Without a register name map the name of a varnode determines its space and offset: the
  textual names cannot confuse two locations.\<close>

theorem varnode_to_name_inj:
  "varnode_to_name v None = varnode_to_name w None \<longleftrightarrow>
     vn_space v = vn_space w \<and> vn_offset v = vn_offset w"
proof -
  have "CHR '':'' \<notin> set (show_dec n)" for n
    by (simp add: show_dec_def show_radix_no_colon)
  then have "show_dec m @ CHR '':'' # show_hex a = show_dec n @ CHR '':'' # show_hex b \<longleftrightarrow> m = n \<and> a = b"
    for m n a b by (simp add: append_colon_inj)
  then show ?thesis
    by (auto simp: varnode_to_name_def word_unat_eq_iff split: SpaceId.splits)
qed

text \<open>The register name map is independent of the order in which an architecture declares its
  registers: at every location it holds the alias of least rank, and nothing where no register
  lives.\<close>

theorem register_name_map_order_independent:
  assumes "set (ar_registers a) = set (ar_registers b)"
  shows "hm_get (build_register_name_map_uncached a) k = hm_get (build_register_name_map_uncached b) k \<and>
    (hm_get (build_register_name_map_uncached a) k = None \<longleftrightarrow>
       k \<notin> (\<lambda>r. (rd_offset r, rd_size r)) ` set (ar_registers a))"
proof -
  have "set (names_at k rs) = rd_name ` {r \<in> set rs. (rd_offset r, rd_size r) = k}" for rs
    by (auto simp: names_at_def)
  moreover from this have "names_at k (ar_registers a) = [] \<longleftrightarrow> names_at k (ar_registers b) = []"
    using assms by (simp add: set_empty [symmetric] del: set_empty)
  moreover have "names_at k (ar_registers a) = [] \<longleftrightarrow>
      k \<notin> (\<lambda>r. (rd_offset r, rd_size r)) ` set (ar_registers a)"
    by (auto simp: names_at_def filter_empty_conv)
  ultimately show ?thesis
    using assms by (simp add: hm_get_build_register_name_map select_register_name_Min)
qed

definition alias_arch :: "string list \<Rightarrow> ArchSpec" where
  "alias_arch names = foldl (\<lambda>a nm. add_register a (register_new nm 0x20 8)) (arch_new ''arm64'') names"

lemmas alias_arch_simps = alias_arch_def add_register_def register_new_def arch_new_def

theorem register_name_map_order_independent_witness:
  "hm_get (build_register_name_map_uncached (alias_arch [''x29'', ''fp''])) (0x20, 8) =
   hm_get (build_register_name_map_uncached (alias_arch [''fp'', ''x29''])) (0x20, 8)"
  using register_name_map_order_independent
    [of "alias_arch [''x29'', ''fp'']" "alias_arch [''fp'', ''x29'']" "(0x20, 8)"]
  by (simp add: alias_arch_simps insert_commute)

text \<open>The caches are transparent as long as one architecture stays at each address and the layout
  hash does not collide on those architectures: every call returns what the uncached computation
  returns, after any sequence of earlier calls.\<close>

theorem cached_register_name_map_transparent:
  assumes "reached hasher look c" "inj_on hasher (range (register_layout \<circ> look))"
  shows "fst (cached_register_name_map hasher p (look p) c) =
           build_register_name_map_uncached (look p)"
  using cached_register_name_map_inv [OF reached_inv [OF assms] assms(2)] by simp

theorem cached_register_name_map_transparent_witness:
  "fst (cached_register_name_map (\<lambda>l. of_nat (length l)) 4096 (alias_arch [''fp''])
      (snd (cached_register_name_map (\<lambda>l. of_nat (length l)) 4096 (alias_arch [''fp''])
         empty_caches))) = [((0x20, 8), ''fp'')]"
proof -
  let ?h = "\<lambda>l. of_nat (length l) :: u64" and ?look = "\<lambda>p :: nat. alias_arch [''fp'']"
  have "reached ?h ?look (snd (cached_register_name_map ?h 4096 (?look 4096) empty_caches))"
    by (intro reached_call reached_empty)
  from cached_register_name_map_transparent [OF this, of 4096]
  have "fst (cached_register_name_map ?h 4096 (?look 4096)
      (snd (cached_register_name_map ?h 4096 (?look 4096) empty_caches))) =
    build_register_name_map_uncached (?look 4096)" by (simp add: comp_def)
  moreover have "build_register_name_map_uncached (?look 4096) = [((0x20, 8), ''fp'')]"
    by (simp add: build_register_name_map_uncached_def alias_arch_simps hm_get_def Let_def
        select_register_name_def map_filter_simps)
  ultimately show ?thesis by simp
qed

text \<open>The key of the layout cache holds the address and the number of registers but not the
  registers: when an architecture is dropped and another one with the same name, variant, address
  size and register count is allocated at its address, the second is served the register names of
  the first, whatever the hash function.\<close>

theorem stale_register_names:
  assumes "ar_name a = ar_name b" "ar_variant a = ar_variant b" "ar_addr_size a = ar_addr_size b"
    and "length (ar_registers a) = length (ar_registers b)"
  shows "fst (cached_register_name_map hasher p b
           (snd (cached_register_name_map hasher p a empty_caches))) =
         build_register_name_map_uncached a"
  using assms
  by (simp add: cached_register_name_map_def tag_from_arch_def empty_caches_def hm_get_def Let_def
      layout_key_def tag_with_hash_def)

theorem stale_register_names_witness:
  "hm_get (fst (cached_register_name_map (\<lambda>_. 0) 4096 (alias_arch [''sp''])
      (snd (cached_register_name_map (\<lambda>_. 0) 4096 (alias_arch [''fp'']) empty_caches)))) (0x20, 8) =
    Some ''fp'' \<and>
   hm_get (build_register_name_map_uncached (alias_arch [''sp''])) (0x20, 8) = Some ''sp''"
  using stale_register_names [of "alias_arch [''fp'']" "alias_arch [''sp'']" "\<lambda>_. 0" 4096]
  by (simp add: build_register_name_map_uncached_def alias_arch_simps hm_get_def Let_def
      select_register_name_def map_filter_simps)

end
