(* ===== verification/SSA_Op.thy ===== *)
theory SSA_Op
  imports SSA_Var
begin

text \<open>
  SSA operations: \<open>r2ssa/src/op.rs\<close>. The constructors are those of the enum, in its order, with
  positional fields; many share their name with the constructors of \<open>R2ILOp\<close>, which stay
  available under their qualified names. The textual \<open>Display\<close> is not modelled.
\<close>

section \<open>The operations\<close>

datatype (plugins only: size) SSAOp =
  Phi SSAVar "SSAVar list"
| Copy SSAVar SSAVar
| Load SSAVar string SSAVar
| Store string SSAVar SSAVar
| Fence MemoryOrdering
| LoadLinked SSAVar string SSAVar MemoryOrdering
| StoreConditional "SSAVar option" string SSAVar SSAVar MemoryOrdering
| AtomicCAS SSAVar string SSAVar SSAVar SSAVar MemoryOrdering
| LoadGuarded SSAVar string SSAVar SSAVar MemoryOrdering
| StoreGuarded string SSAVar SSAVar SSAVar MemoryOrdering
| IntAdd SSAVar SSAVar SSAVar
| IntSub SSAVar SSAVar SSAVar
| IntMult SSAVar SSAVar SSAVar
| IntDiv SSAVar SSAVar SSAVar
| IntSDiv SSAVar SSAVar SSAVar
| IntRem SSAVar SSAVar SSAVar
| IntSRem SSAVar SSAVar SSAVar
| IntNegate SSAVar SSAVar
| IntCarry SSAVar SSAVar SSAVar
| IntSCarry SSAVar SSAVar SSAVar
| IntSBorrow SSAVar SSAVar SSAVar
| IntAnd SSAVar SSAVar SSAVar
| IntOr SSAVar SSAVar SSAVar
| IntXor SSAVar SSAVar SSAVar
| IntNot SSAVar SSAVar
| IntLeft SSAVar SSAVar SSAVar
| IntRight SSAVar SSAVar SSAVar
| IntSRight SSAVar SSAVar SSAVar
| IntEqual SSAVar SSAVar SSAVar
| IntNotEqual SSAVar SSAVar SSAVar
| IntLess SSAVar SSAVar SSAVar
| IntSLess SSAVar SSAVar SSAVar
| IntLessEqual SSAVar SSAVar SSAVar
| IntSLessEqual SSAVar SSAVar SSAVar
| IntZExt SSAVar SSAVar
| IntSExt SSAVar SSAVar
| BoolNot SSAVar SSAVar
| BoolAnd SSAVar SSAVar SSAVar
| BoolOr SSAVar SSAVar SSAVar
| BoolXor SSAVar SSAVar SSAVar
| Piece SSAVar SSAVar SSAVar
| Subpiece SSAVar SSAVar u32
| PopCount SSAVar SSAVar
| Lzcount SSAVar SSAVar
| Branch SSAVar
| CBranch SSAVar SSAVar
| BranchInd SSAVar
| Call SSAVar
| CallInd SSAVar
| CallDefine SSAVar
| Return SSAVar
| FloatAdd SSAVar SSAVar SSAVar
| FloatSub SSAVar SSAVar SSAVar
| FloatMult SSAVar SSAVar SSAVar
| FloatDiv SSAVar SSAVar SSAVar
| FloatNeg SSAVar SSAVar
| FloatAbs SSAVar SSAVar
| FloatSqrt SSAVar SSAVar
| FloatCeil SSAVar SSAVar
| FloatFloor SSAVar SSAVar
| FloatRound SSAVar SSAVar
| FloatNaN SSAVar SSAVar
| FloatEqual SSAVar SSAVar SSAVar
| FloatNotEqual SSAVar SSAVar SSAVar
| FloatLess SSAVar SSAVar SSAVar
| FloatLessEqual SSAVar SSAVar SSAVar
| Int2Float SSAVar SSAVar
| Float2Int SSAVar SSAVar
| FloatFloat SSAVar SSAVar
| Trunc SSAVar SSAVar
| CallOther "SSAVar option" u32 "SSAVar list"
| Nop
| Unimplemented
| CpuId SSAVar
| Breakpoint
| PtrAdd SSAVar SSAVar SSAVar u32
| PtrSub SSAVar SSAVar SSAVar u32
| SegmentOp SSAVar SSAVar SSAVar
| New SSAVar SSAVar
| Cast SSAVar SSAVar
| Extract SSAVar SSAVar SSAVar
| Insert SSAVar SSAVar SSAVar SSAVar



section \<open>Operands\<close>

primrec sop_dst :: "SSAOp \<Rightarrow> SSAVar option" where
  "sop_dst (Phi dst _) = Some dst"
| "sop_dst (Copy dst _) = Some dst"
| "sop_dst (Load dst _ _) = Some dst"
| "sop_dst (LoadLinked dst _ _ _) = Some dst"
| "sop_dst (AtomicCAS dst _ _ _ _ _) = Some dst"
| "sop_dst (LoadGuarded dst _ _ _ _) = Some dst"
| "sop_dst (IntAdd dst _ _) = Some dst"
| "sop_dst (IntSub dst _ _) = Some dst"
| "sop_dst (IntMult dst _ _) = Some dst"
| "sop_dst (IntDiv dst _ _) = Some dst"
| "sop_dst (IntSDiv dst _ _) = Some dst"
| "sop_dst (IntRem dst _ _) = Some dst"
| "sop_dst (IntSRem dst _ _) = Some dst"
| "sop_dst (IntNegate dst _) = Some dst"
| "sop_dst (IntCarry dst _ _) = Some dst"
| "sop_dst (IntSCarry dst _ _) = Some dst"
| "sop_dst (IntSBorrow dst _ _) = Some dst"
| "sop_dst (IntAnd dst _ _) = Some dst"
| "sop_dst (IntOr dst _ _) = Some dst"
| "sop_dst (IntXor dst _ _) = Some dst"
| "sop_dst (IntNot dst _) = Some dst"
| "sop_dst (IntLeft dst _ _) = Some dst"
| "sop_dst (IntRight dst _ _) = Some dst"
| "sop_dst (IntSRight dst _ _) = Some dst"
| "sop_dst (IntEqual dst _ _) = Some dst"
| "sop_dst (IntNotEqual dst _ _) = Some dst"
| "sop_dst (IntLess dst _ _) = Some dst"
| "sop_dst (IntSLess dst _ _) = Some dst"
| "sop_dst (IntLessEqual dst _ _) = Some dst"
| "sop_dst (IntSLessEqual dst _ _) = Some dst"
| "sop_dst (IntZExt dst _) = Some dst"
| "sop_dst (IntSExt dst _) = Some dst"
| "sop_dst (BoolNot dst _) = Some dst"
| "sop_dst (BoolAnd dst _ _) = Some dst"
| "sop_dst (BoolOr dst _ _) = Some dst"
| "sop_dst (BoolXor dst _ _) = Some dst"
| "sop_dst (Piece dst _ _) = Some dst"
| "sop_dst (Subpiece dst _ _) = Some dst"
| "sop_dst (PopCount dst _) = Some dst"
| "sop_dst (Lzcount dst _) = Some dst"
| "sop_dst (FloatAdd dst _ _) = Some dst"
| "sop_dst (FloatSub dst _ _) = Some dst"
| "sop_dst (FloatMult dst _ _) = Some dst"
| "sop_dst (FloatDiv dst _ _) = Some dst"
| "sop_dst (FloatNeg dst _) = Some dst"
| "sop_dst (FloatAbs dst _) = Some dst"
| "sop_dst (FloatSqrt dst _) = Some dst"
| "sop_dst (FloatCeil dst _) = Some dst"
| "sop_dst (FloatFloor dst _) = Some dst"
| "sop_dst (FloatRound dst _) = Some dst"
| "sop_dst (FloatNaN dst _) = Some dst"
| "sop_dst (FloatEqual dst _ _) = Some dst"
| "sop_dst (FloatNotEqual dst _ _) = Some dst"
| "sop_dst (FloatLess dst _ _) = Some dst"
| "sop_dst (FloatLessEqual dst _ _) = Some dst"
| "sop_dst (Int2Float dst _) = Some dst"
| "sop_dst (Float2Int dst _) = Some dst"
| "sop_dst (FloatFloat dst _) = Some dst"
| "sop_dst (Trunc dst _) = Some dst"
| "sop_dst (CpuId dst) = Some dst"
| "sop_dst (PtrAdd dst _ _ _) = Some dst"
| "sop_dst (PtrSub dst _ _ _) = Some dst"
| "sop_dst (SegmentOp dst _ _) = Some dst"
| "sop_dst (New dst _) = Some dst"
| "sop_dst (Cast dst _) = Some dst"
| "sop_dst (Extract dst _ _) = Some dst"
| "sop_dst (Insert dst _ _ _) = Some dst"
| "sop_dst (CallDefine dst) = Some dst"
| "sop_dst (CallOther output _ _) = output"
| "sop_dst (StoreConditional result _ _ _ _) = result"
| "sop_dst (Store _ _ _) = None"
| "sop_dst (Fence _) = None"
| "sop_dst (StoreGuarded _ _ _ _ _) = None"
| "sop_dst (Branch _) = None"
| "sop_dst (CBranch _ _) = None"
| "sop_dst (BranchInd _) = None"
| "sop_dst (Call _) = None"
| "sop_dst (CallInd _) = None"
| "sop_dst (Return _) = None"
| "sop_dst Nop = None"
| "sop_dst Unimplemented = None"
| "sop_dst Breakpoint = None"

text \<open>The variables \<open>for_each_source\<close> visits, in operand order.\<close>

primrec sop_sources :: "SSAOp \<Rightarrow> SSAVar list" where
  "sop_sources (Phi _ sources) = sources"
| "sop_sources (Copy _ src) = [src]"
| "sop_sources (IntNegate _ src) = [src]"
| "sop_sources (IntNot _ src) = [src]"
| "sop_sources (IntZExt _ src) = [src]"
| "sop_sources (IntSExt _ src) = [src]"
| "sop_sources (BoolNot _ src) = [src]"
| "sop_sources (Subpiece _ src _) = [src]"
| "sop_sources (PopCount _ src) = [src]"
| "sop_sources (Lzcount _ src) = [src]"
| "sop_sources (FloatNeg _ src) = [src]"
| "sop_sources (FloatAbs _ src) = [src]"
| "sop_sources (FloatSqrt _ src) = [src]"
| "sop_sources (FloatCeil _ src) = [src]"
| "sop_sources (FloatFloor _ src) = [src]"
| "sop_sources (FloatRound _ src) = [src]"
| "sop_sources (FloatNaN _ src) = [src]"
| "sop_sources (Int2Float _ src) = [src]"
| "sop_sources (Float2Int _ src) = [src]"
| "sop_sources (FloatFloat _ src) = [src]"
| "sop_sources (Trunc _ src) = [src]"
| "sop_sources (New _ src) = [src]"
| "sop_sources (Cast _ src) = [src]"
| "sop_sources (Load _ _ addr) = [addr]"
| "sop_sources (LoadLinked _ _ addr _) = [addr]"
| "sop_sources (Store _ addr val) = [addr, val]"
| "sop_sources (StoreConditional _ _ addr val _) = [addr, val]"
| "sop_sources (AtomicCAS _ _ addr expected replacement _) = [addr, expected, replacement]"
| "sop_sources (LoadGuarded _ _ addr guard _) = [addr, guard]"
| "sop_sources (StoreGuarded _ addr val guard _) = [addr, val, guard]"
| "sop_sources (IntAdd _ a b) = [a, b]"
| "sop_sources (IntSub _ a b) = [a, b]"
| "sop_sources (IntMult _ a b) = [a, b]"
| "sop_sources (IntDiv _ a b) = [a, b]"
| "sop_sources (IntSDiv _ a b) = [a, b]"
| "sop_sources (IntRem _ a b) = [a, b]"
| "sop_sources (IntSRem _ a b) = [a, b]"
| "sop_sources (IntCarry _ a b) = [a, b]"
| "sop_sources (IntSCarry _ a b) = [a, b]"
| "sop_sources (IntSBorrow _ a b) = [a, b]"
| "sop_sources (IntAnd _ a b) = [a, b]"
| "sop_sources (IntOr _ a b) = [a, b]"
| "sop_sources (IntXor _ a b) = [a, b]"
| "sop_sources (IntLeft _ a b) = [a, b]"
| "sop_sources (IntRight _ a b) = [a, b]"
| "sop_sources (IntSRight _ a b) = [a, b]"
| "sop_sources (IntEqual _ a b) = [a, b]"
| "sop_sources (IntNotEqual _ a b) = [a, b]"
| "sop_sources (IntLess _ a b) = [a, b]"
| "sop_sources (IntSLess _ a b) = [a, b]"
| "sop_sources (IntLessEqual _ a b) = [a, b]"
| "sop_sources (IntSLessEqual _ a b) = [a, b]"
| "sop_sources (BoolAnd _ a b) = [a, b]"
| "sop_sources (BoolOr _ a b) = [a, b]"
| "sop_sources (BoolXor _ a b) = [a, b]"
| "sop_sources (FloatAdd _ a b) = [a, b]"
| "sop_sources (FloatSub _ a b) = [a, b]"
| "sop_sources (FloatMult _ a b) = [a, b]"
| "sop_sources (FloatDiv _ a b) = [a, b]"
| "sop_sources (FloatEqual _ a b) = [a, b]"
| "sop_sources (FloatNotEqual _ a b) = [a, b]"
| "sop_sources (FloatLess _ a b) = [a, b]"
| "sop_sources (FloatLessEqual _ a b) = [a, b]"
| "sop_sources (Piece _ hi lo) = [hi, lo]"
| "sop_sources (Extract _ src position) = [src, position]"
| "sop_sources (Insert _ src value position) = [src, value, position]"
| "sop_sources (PtrAdd _ base index _) = [base, index]"
| "sop_sources (PtrSub _ base index _) = [base, index]"
| "sop_sources (SegmentOp _ segment offset) = [segment, offset]"
| "sop_sources (Branch target) = [target]"
| "sop_sources (BranchInd target) = [target]"
| "sop_sources (Call target) = [target]"
| "sop_sources (CallInd target) = [target]"
| "sop_sources (Return target) = [target]"
| "sop_sources (CBranch target cond) = [target, cond]"
| "sop_sources (CallOther _ _ inputs) = inputs"
| "sop_sources (Fence _) = []"
| "sop_sources Nop = []"
| "sop_sources Unimplemented = []"
| "sop_sources Breakpoint = []"
| "sop_sources (CpuId _) = []"
| "sop_sources (CallDefine _) = []"

section \<open>Classification\<close>

definition sop_is_control_flow :: "SSAOp \<Rightarrow> bool" where
  "sop_is_control_flow op =
     (case op of
        Branch _ \<Rightarrow> True
      | CBranch _ _ \<Rightarrow> True
      | BranchInd _ \<Rightarrow> True
      | Call _ \<Rightarrow> True
      | CallInd _ \<Rightarrow> True
      | Return _ \<Rightarrow> True
      | _ \<Rightarrow> False)"

definition sop_is_memory_read :: "SSAOp \<Rightarrow> bool" where
  "sop_is_memory_read op =
     (case op of
        Load _ _ _ \<Rightarrow> True
      | LoadLinked _ _ _ _ \<Rightarrow> True
      | LoadGuarded _ _ _ _ _ \<Rightarrow> True
      | AtomicCAS _ _ _ _ _ _ \<Rightarrow> True
      | _ \<Rightarrow> False)"

definition sop_is_memory_write :: "SSAOp \<Rightarrow> bool" where
  "sop_is_memory_write op =
     (case op of
        Store _ _ _ \<Rightarrow> True
      | StoreConditional _ _ _ _ _ \<Rightarrow> True
      | StoreGuarded _ _ _ _ _ \<Rightarrow> True
      | AtomicCAS _ _ _ _ _ _ \<Rightarrow> True
      | _ \<Rightarrow> False)"

definition sop_is_phi :: "SSAOp \<Rightarrow> bool" where
  "sop_is_phi op =
     (case op of
        Phi _ _ \<Rightarrow> True
      | _ \<Rightarrow> False)"

declare sop_dst.simps [op_simps] sop_sources.simps [op_simps]

lemma sop_control_flow_no_dst: "sop_is_control_flow op \<Longrightarrow> sop_dst op = None"
  by (cases op) (simp_all add: sop_is_control_flow_def)

section \<open>Conversion and definitions\<close>

text \<open>The inputs an operation keeps: an \<open>Indirect\<close> becomes a copy and drops its second input.\<close>

definition kept_inputs :: "R2ILOp \<Rightarrow> Varnode list" where
  "kept_inputs op = (case op of R2ILOp.Indirect _ src _ \<Rightarrow> [src] | _ \<Rightarrow> op_inputs op)"

text \<open>The variables a list of operations defines; a name and a version identify a definition.\<close>

definition ver_of :: "SSAVar \<Rightarrow> string \<times> u32" where
  "ver_of v = (sv_name v, sv_version v)"

definition dsts :: "SSAOp list \<Rightarrow> SSAVar list" where
  "dsts ops = concat (map (\<lambda>op. case sop_dst op of Some d \<Rightarrow> [d] | None \<Rightarrow> []) ops)"

lemma dsts_simps [simp]:
  "dsts [] = []"
  "dsts (op # ops) = (case sop_dst op of Some d \<Rightarrow> d # dsts ops | None \<Rightarrow> dsts ops)"
  "dsts (ops @ ops') = dsts ops @ dsts ops'"
  by (simp_all add: dsts_def split: option.splits)

end
