(* ===== verification/SSA_Block.thy ===== *)
theory SSA_Block
  imports SSA_Op
begin

text \<open>
  SSA conversion of one lifted block: \<open>r2ssa/src/block.rs\<close>.

  The disassembler contributes the register names: its own map, and the query to libsla, which is
  a parameter. Register names are ASCII, where \<open>to_lowercase\<close> is \<open>to_ascii_lowercase\<close>. A version
  counter is a \<open>u32\<close> and wraps as in a release build. Rust evaluates the fields of a struct
  expression in the order in which they are written; \<open>convert_op\<close> follows that order.
\<close>

section \<open>Versions\<close>

type_synonym SSAContext = "(string, u32) hashmap"

record SSABlock =
  sb_addr :: u64
  sb_size :: u32
  sb_ops :: "SSAOp list"

definition ctx_current_version :: "SSAContext \<Rightarrow> string \<Rightarrow> u32" where
  "ctx_current_version ctx nm = (case hm_get ctx nm of Some v \<Rightarrow> v | None \<Rightarrow> 0)"

definition ctx_new_version :: "string \<Rightarrow> SSAContext \<Rightarrow> u32 \<times> SSAContext" where
  "ctx_new_version nm ctx =
     (let v = (case hm_get ctx nm of Some e \<Rightarrow> e | None \<Rightarrow> 0) + 1 in (v, hm_insert nm v ctx))"

definition ctx_defined_vars :: "SSAContext \<Rightarrow> (string \<times> u32) list" where
  "ctx_defined_vars ctx = filter (\<lambda>(nm, ver). ver > 0) ctx"

definition sb_new :: "u64 \<Rightarrow> u32 \<Rightarrow> SSABlock" where
  "sb_new addr sz = \<lparr>sb_addr = addr, sb_size = sz, sb_ops = []\<rparr>"

definition sb_push :: "SSABlock \<Rightarrow> SSAOp \<Rightarrow> SSABlock" where
  "sb_push b op = b\<lparr>sb_ops := sb_ops b @ [op]\<rparr>"

definition sb_len :: "SSABlock \<Rightarrow> nat" where
  "sb_len b = length (sb_ops b)"

definition sb_is_empty :: "SSABlock \<Rightarrow> bool" where
  "sb_is_empty b \<longleftrightarrow> sb_ops b = []"

section \<open>Names\<close>

record disasm =
  dis_reg_name_map :: RegisterNameMap
  dis_sleigh_name :: "u64 \<Rightarrow> u32 \<Rightarrow> string option"

definition register_name :: "disasm \<Rightarrow> Varnode \<Rightarrow> string option" where
  "register_name dis vn =
     (if vn_space vn \<noteq> Register then None
      else case hm_get (dis_reg_name_map dis) (vn_offset vn, vn_size vn) of
        Some nm \<Rightarrow> Some nm
      | None \<Rightarrow> dis_sleigh_name dis (vn_offset vn) (vn_size vn))"

definition block_varnode_to_name :: "disasm \<Rightarrow> Varnode \<Rightarrow> string" where
  "block_varnode_to_name dis vn =
     (case vn_space vn of
        Register \<Rightarrow>
          (case register_name dis vn of
             Some nm \<Rightarrow> to_ascii_lowercase nm
           | None \<Rightarrow> ''reg:'' @ show_hex (unat (vn_offset vn)))
      | Unique \<Rightarrow> ''tmp:'' @ show_hex (unat (vn_offset vn))
      | Const \<Rightarrow> ''const:'' @ show_hex (unat (vn_offset vn))
      | Ram \<Rightarrow> ''ram:'' @ show_hex (unat (vn_offset vn))
      | Custom i \<Rightarrow> ''space'' @ show_dec (unat i) @ '':'' @ show_hex (unat (vn_offset vn)))"

definition read_var :: "disasm \<Rightarrow> Varnode \<Rightarrow> SSAContext \<Rightarrow> SSAVar" where
  "read_var dis vn ctx =
     (let nm = block_varnode_to_name dis vn in ssa_new nm (ctx_current_version ctx nm) (vn_size vn))"

definition write_var :: "disasm \<Rightarrow> Varnode \<Rightarrow> SSAContext \<Rightarrow> SSAVar \<times> SSAContext" where
  "write_var dis vn ctx =
     (let nm = block_varnode_to_name dis vn; (version, ctx1) = ctx_new_version nm ctx
      in (ssa_new nm version (vn_size vn), ctx1))"

definition write_opt :: "disasm \<Rightarrow> Varnode option \<Rightarrow> SSAContext \<Rightarrow> SSAVar option \<times> SSAContext" where
  "write_opt dis vno ctx =
     (case vno of
        None \<Rightarrow> (None, ctx)
      | Some vn \<Rightarrow> (let (v, ctx1) = write_var dis vn ctx in (Some v, ctx1)))"

definition space_name :: "SpaceId \<Rightarrow> string" where
  "space_name space =
     (case space of
        Ram \<Rightarrow> ''ram''
      | Register \<Rightarrow> ''register''
      | Const \<Rightarrow> ''const''
      | Unique \<Rightarrow> ''unique''
      | Custom i \<Rightarrow> ''space_'' @ show_dec (unat i))"

section \<open>Conversion\<close>

primrec convert_op :: "disasm \<Rightarrow> R2ILOp \<Rightarrow> SSAContext \<Rightarrow> SSAOp \<times> SSAContext" where
  "convert_op dis (R2ILOp.Copy dst src) ctx =
     (let (d, ctx1) = write_var dis dst ctx
      in (SSAOp.Copy d (read_var dis src ctx1), ctx1))"
| "convert_op dis (R2ILOp.Load dst space addr) ctx =
     (let (d, ctx1) = write_var dis dst ctx
      in (SSAOp.Load d (space_name space) (read_var dis addr ctx1), ctx1))"
| "convert_op dis (R2ILOp.Store space addr val) ctx =
     (SSAOp.Store (space_name space) (read_var dis addr ctx) (read_var dis val ctx), ctx)"
| "convert_op dis (R2ILOp.Fence mo) ctx =
     (SSAOp.Fence mo, ctx)"
| "convert_op dis (R2ILOp.LoadLinked dst space addr mo) ctx =
     (let (d, ctx1) = write_var dis dst ctx
      in (SSAOp.LoadLinked d (space_name space) (read_var dis addr ctx1) mo, ctx1))"
| "convert_op dis (R2ILOp.StoreConditional result space addr val mo) ctx =
     (let (d, ctx1) = write_opt dis result ctx
      in (SSAOp.StoreConditional d (space_name space) (read_var dis addr ctx1) (read_var dis val ctx1) mo, ctx1))"
| "convert_op dis (R2ILOp.AtomicCAS dst space addr expected replacement mo) ctx =
     (let (d, ctx1) = write_var dis dst ctx
      in (SSAOp.AtomicCAS d (space_name space) (read_var dis addr ctx1) (read_var dis expected ctx1) (read_var dis replacement ctx1) mo, ctx1))"
| "convert_op dis (R2ILOp.LoadGuarded dst space addr guard mo) ctx =
     (let (d, ctx1) = write_var dis dst ctx
      in (SSAOp.LoadGuarded d (space_name space) (read_var dis addr ctx1) (read_var dis guard ctx1) mo, ctx1))"
| "convert_op dis (R2ILOp.StoreGuarded space addr val guard mo) ctx =
     (SSAOp.StoreGuarded (space_name space) (read_var dis addr ctx) (read_var dis val ctx) (read_var dis guard ctx) mo, ctx)"
| "convert_op dis (R2ILOp.IntAdd dst a b) ctx =
     (let (d, ctx1) = write_var dis dst ctx
      in (SSAOp.IntAdd d (read_var dis a ctx1) (read_var dis b ctx1), ctx1))"
| "convert_op dis (R2ILOp.IntSub dst a b) ctx =
     (let (d, ctx1) = write_var dis dst ctx
      in (SSAOp.IntSub d (read_var dis a ctx1) (read_var dis b ctx1), ctx1))"
| "convert_op dis (R2ILOp.IntMult dst a b) ctx =
     (let (d, ctx1) = write_var dis dst ctx
      in (SSAOp.IntMult d (read_var dis a ctx1) (read_var dis b ctx1), ctx1))"
| "convert_op dis (R2ILOp.IntDiv dst a b) ctx =
     (let (d, ctx1) = write_var dis dst ctx
      in (SSAOp.IntDiv d (read_var dis a ctx1) (read_var dis b ctx1), ctx1))"
| "convert_op dis (R2ILOp.IntSDiv dst a b) ctx =
     (let (d, ctx1) = write_var dis dst ctx
      in (SSAOp.IntSDiv d (read_var dis a ctx1) (read_var dis b ctx1), ctx1))"
| "convert_op dis (R2ILOp.IntRem dst a b) ctx =
     (let (d, ctx1) = write_var dis dst ctx
      in (SSAOp.IntRem d (read_var dis a ctx1) (read_var dis b ctx1), ctx1))"
| "convert_op dis (R2ILOp.IntSRem dst a b) ctx =
     (let (d, ctx1) = write_var dis dst ctx
      in (SSAOp.IntSRem d (read_var dis a ctx1) (read_var dis b ctx1), ctx1))"
| "convert_op dis (R2ILOp.IntNegate dst src) ctx =
     (let (d, ctx1) = write_var dis dst ctx
      in (SSAOp.IntNegate d (read_var dis src ctx1), ctx1))"
| "convert_op dis (R2ILOp.IntCarry dst a b) ctx =
     (let (d, ctx1) = write_var dis dst ctx
      in (SSAOp.IntCarry d (read_var dis a ctx1) (read_var dis b ctx1), ctx1))"
| "convert_op dis (R2ILOp.IntSCarry dst a b) ctx =
     (let (d, ctx1) = write_var dis dst ctx
      in (SSAOp.IntSCarry d (read_var dis a ctx1) (read_var dis b ctx1), ctx1))"
| "convert_op dis (R2ILOp.IntSBorrow dst a b) ctx =
     (let (d, ctx1) = write_var dis dst ctx
      in (SSAOp.IntSBorrow d (read_var dis a ctx1) (read_var dis b ctx1), ctx1))"
| "convert_op dis (R2ILOp.IntAnd dst a b) ctx =
     (let (d, ctx1) = write_var dis dst ctx
      in (SSAOp.IntAnd d (read_var dis a ctx1) (read_var dis b ctx1), ctx1))"
| "convert_op dis (R2ILOp.IntOr dst a b) ctx =
     (let (d, ctx1) = write_var dis dst ctx
      in (SSAOp.IntOr d (read_var dis a ctx1) (read_var dis b ctx1), ctx1))"
| "convert_op dis (R2ILOp.IntXor dst a b) ctx =
     (let (d, ctx1) = write_var dis dst ctx
      in (SSAOp.IntXor d (read_var dis a ctx1) (read_var dis b ctx1), ctx1))"
| "convert_op dis (R2ILOp.IntNot dst src) ctx =
     (let (d, ctx1) = write_var dis dst ctx
      in (SSAOp.IntNot d (read_var dis src ctx1), ctx1))"
| "convert_op dis (R2ILOp.IntLeft dst a b) ctx =
     (let (d, ctx1) = write_var dis dst ctx
      in (SSAOp.IntLeft d (read_var dis a ctx1) (read_var dis b ctx1), ctx1))"
| "convert_op dis (R2ILOp.IntRight dst a b) ctx =
     (let (d, ctx1) = write_var dis dst ctx
      in (SSAOp.IntRight d (read_var dis a ctx1) (read_var dis b ctx1), ctx1))"
| "convert_op dis (R2ILOp.IntSRight dst a b) ctx =
     (let (d, ctx1) = write_var dis dst ctx
      in (SSAOp.IntSRight d (read_var dis a ctx1) (read_var dis b ctx1), ctx1))"
| "convert_op dis (R2ILOp.IntEqual dst a b) ctx =
     (let (d, ctx1) = write_var dis dst ctx
      in (SSAOp.IntEqual d (read_var dis a ctx1) (read_var dis b ctx1), ctx1))"
| "convert_op dis (R2ILOp.IntNotEqual dst a b) ctx =
     (let (d, ctx1) = write_var dis dst ctx
      in (SSAOp.IntNotEqual d (read_var dis a ctx1) (read_var dis b ctx1), ctx1))"
| "convert_op dis (R2ILOp.IntLess dst a b) ctx =
     (let (d, ctx1) = write_var dis dst ctx
      in (SSAOp.IntLess d (read_var dis a ctx1) (read_var dis b ctx1), ctx1))"
| "convert_op dis (R2ILOp.IntSLess dst a b) ctx =
     (let (d, ctx1) = write_var dis dst ctx
      in (SSAOp.IntSLess d (read_var dis a ctx1) (read_var dis b ctx1), ctx1))"
| "convert_op dis (R2ILOp.IntLessEqual dst a b) ctx =
     (let (d, ctx1) = write_var dis dst ctx
      in (SSAOp.IntLessEqual d (read_var dis a ctx1) (read_var dis b ctx1), ctx1))"
| "convert_op dis (R2ILOp.IntSLessEqual dst a b) ctx =
     (let (d, ctx1) = write_var dis dst ctx
      in (SSAOp.IntSLessEqual d (read_var dis a ctx1) (read_var dis b ctx1), ctx1))"
| "convert_op dis (R2ILOp.IntZExt dst src) ctx =
     (let (d, ctx1) = write_var dis dst ctx
      in (SSAOp.IntZExt d (read_var dis src ctx1), ctx1))"
| "convert_op dis (R2ILOp.IntSExt dst src) ctx =
     (let (d, ctx1) = write_var dis dst ctx
      in (SSAOp.IntSExt d (read_var dis src ctx1), ctx1))"
| "convert_op dis (R2ILOp.BoolNot dst src) ctx =
     (let (d, ctx1) = write_var dis dst ctx
      in (SSAOp.BoolNot d (read_var dis src ctx1), ctx1))"
| "convert_op dis (R2ILOp.BoolAnd dst a b) ctx =
     (let (d, ctx1) = write_var dis dst ctx
      in (SSAOp.BoolAnd d (read_var dis a ctx1) (read_var dis b ctx1), ctx1))"
| "convert_op dis (R2ILOp.BoolOr dst a b) ctx =
     (let (d, ctx1) = write_var dis dst ctx
      in (SSAOp.BoolOr d (read_var dis a ctx1) (read_var dis b ctx1), ctx1))"
| "convert_op dis (R2ILOp.BoolXor dst a b) ctx =
     (let (d, ctx1) = write_var dis dst ctx
      in (SSAOp.BoolXor d (read_var dis a ctx1) (read_var dis b ctx1), ctx1))"
| "convert_op dis (R2ILOp.Piece dst hi lo) ctx =
     (let (d, ctx1) = write_var dis dst ctx
      in (SSAOp.Piece d (read_var dis hi ctx1) (read_var dis lo ctx1), ctx1))"
| "convert_op dis (R2ILOp.Subpiece dst src offset) ctx =
     (let (d, ctx1) = write_var dis dst ctx
      in (SSAOp.Subpiece d (read_var dis src ctx1) offset, ctx1))"
| "convert_op dis (R2ILOp.PopCount dst src) ctx =
     (let (d, ctx1) = write_var dis dst ctx
      in (SSAOp.PopCount d (read_var dis src ctx1), ctx1))"
| "convert_op dis (R2ILOp.Lzcount dst src) ctx =
     (let (d, ctx1) = write_var dis dst ctx
      in (SSAOp.Lzcount d (read_var dis src ctx1), ctx1))"
| "convert_op dis (R2ILOp.Branch target) ctx =
     (SSAOp.Branch (read_var dis target ctx), ctx)"
| "convert_op dis (R2ILOp.CBranch target cond) ctx =
     (SSAOp.CBranch (read_var dis target ctx) (read_var dis cond ctx), ctx)"
| "convert_op dis (R2ILOp.BranchInd target) ctx =
     (SSAOp.BranchInd (read_var dis target ctx), ctx)"
| "convert_op dis (R2ILOp.Call target) ctx =
     (SSAOp.Call (read_var dis target ctx), ctx)"
| "convert_op dis (R2ILOp.CallInd target) ctx =
     (SSAOp.CallInd (read_var dis target ctx), ctx)"
| "convert_op dis (R2ILOp.Return target) ctx =
     (SSAOp.Return (read_var dis target ctx), ctx)"
| "convert_op dis (R2ILOp.FloatAdd dst a b) ctx =
     (let (d, ctx1) = write_var dis dst ctx
      in (SSAOp.FloatAdd d (read_var dis a ctx1) (read_var dis b ctx1), ctx1))"
| "convert_op dis (R2ILOp.FloatSub dst a b) ctx =
     (let (d, ctx1) = write_var dis dst ctx
      in (SSAOp.FloatSub d (read_var dis a ctx1) (read_var dis b ctx1), ctx1))"
| "convert_op dis (R2ILOp.FloatMult dst a b) ctx =
     (let (d, ctx1) = write_var dis dst ctx
      in (SSAOp.FloatMult d (read_var dis a ctx1) (read_var dis b ctx1), ctx1))"
| "convert_op dis (R2ILOp.FloatDiv dst a b) ctx =
     (let (d, ctx1) = write_var dis dst ctx
      in (SSAOp.FloatDiv d (read_var dis a ctx1) (read_var dis b ctx1), ctx1))"
| "convert_op dis (R2ILOp.FloatNeg dst src) ctx =
     (let (d, ctx1) = write_var dis dst ctx
      in (SSAOp.FloatNeg d (read_var dis src ctx1), ctx1))"
| "convert_op dis (R2ILOp.FloatAbs dst src) ctx =
     (let (d, ctx1) = write_var dis dst ctx
      in (SSAOp.FloatAbs d (read_var dis src ctx1), ctx1))"
| "convert_op dis (R2ILOp.FloatSqrt dst src) ctx =
     (let (d, ctx1) = write_var dis dst ctx
      in (SSAOp.FloatSqrt d (read_var dis src ctx1), ctx1))"
| "convert_op dis (R2ILOp.FloatCeil dst src) ctx =
     (let (d, ctx1) = write_var dis dst ctx
      in (SSAOp.FloatCeil d (read_var dis src ctx1), ctx1))"
| "convert_op dis (R2ILOp.FloatFloor dst src) ctx =
     (let (d, ctx1) = write_var dis dst ctx
      in (SSAOp.FloatFloor d (read_var dis src ctx1), ctx1))"
| "convert_op dis (R2ILOp.FloatRound dst src) ctx =
     (let (d, ctx1) = write_var dis dst ctx
      in (SSAOp.FloatRound d (read_var dis src ctx1), ctx1))"
| "convert_op dis (R2ILOp.FloatNaN dst src) ctx =
     (let (d, ctx1) = write_var dis dst ctx
      in (SSAOp.FloatNaN d (read_var dis src ctx1), ctx1))"
| "convert_op dis (R2ILOp.FloatEqual dst a b) ctx =
     (let (d, ctx1) = write_var dis dst ctx
      in (SSAOp.FloatEqual d (read_var dis a ctx1) (read_var dis b ctx1), ctx1))"
| "convert_op dis (R2ILOp.FloatNotEqual dst a b) ctx =
     (let (d, ctx1) = write_var dis dst ctx
      in (SSAOp.FloatNotEqual d (read_var dis a ctx1) (read_var dis b ctx1), ctx1))"
| "convert_op dis (R2ILOp.FloatLess dst a b) ctx =
     (let (d, ctx1) = write_var dis dst ctx
      in (SSAOp.FloatLess d (read_var dis a ctx1) (read_var dis b ctx1), ctx1))"
| "convert_op dis (R2ILOp.FloatLessEqual dst a b) ctx =
     (let (d, ctx1) = write_var dis dst ctx
      in (SSAOp.FloatLessEqual d (read_var dis a ctx1) (read_var dis b ctx1), ctx1))"
| "convert_op dis (R2ILOp.Int2Float dst src) ctx =
     (let (d, ctx1) = write_var dis dst ctx
      in (SSAOp.Int2Float d (read_var dis src ctx1), ctx1))"
| "convert_op dis (R2ILOp.Float2Int dst src) ctx =
     (let (d, ctx1) = write_var dis dst ctx
      in (SSAOp.Float2Int d (read_var dis src ctx1), ctx1))"
| "convert_op dis (R2ILOp.FloatFloat dst src) ctx =
     (let (d, ctx1) = write_var dis dst ctx
      in (SSAOp.FloatFloat d (read_var dis src ctx1), ctx1))"
| "convert_op dis (R2ILOp.Trunc dst src) ctx =
     (let (d, ctx1) = write_var dis dst ctx
      in (SSAOp.Trunc d (read_var dis src ctx1), ctx1))"
| "convert_op dis (R2ILOp.CallOther output userop inputs) ctx =
     (let (d, ctx1) = write_opt dis output ctx
      in (SSAOp.CallOther d userop (map (\<lambda>i. read_var dis i ctx1) inputs), ctx1))"
| "convert_op dis R2ILOp.Nop ctx =
     (SSAOp.Nop, ctx)"
| "convert_op dis R2ILOp.Unimplemented ctx =
     (SSAOp.Unimplemented, ctx)"
| "convert_op dis (R2ILOp.CpuId dst) ctx =
     (let (d, ctx1) = write_var dis dst ctx
      in (SSAOp.CpuId d, ctx1))"
| "convert_op dis R2ILOp.Breakpoint ctx =
     (SSAOp.Breakpoint, ctx)"
| "convert_op dis (R2ILOp.Multiequal dst inputs) ctx =
     (let (d, ctx1) = write_var dis dst ctx
      in (SSAOp.Phi d (map (\<lambda>i. read_var dis i ctx1) inputs), ctx1))"
| "convert_op dis (R2ILOp.Indirect dst src _) ctx =
     (let (d, ctx1) = write_var dis dst ctx
      in (SSAOp.Copy d (read_var dis src ctx1), ctx1))"
| "convert_op dis (R2ILOp.PtrAdd dst base index element_size) ctx =
     (let (d, ctx1) = write_var dis dst ctx
      in (SSAOp.PtrAdd d (read_var dis base ctx1) (read_var dis index ctx1) element_size, ctx1))"
| "convert_op dis (R2ILOp.PtrSub dst base index element_size) ctx =
     (let (d, ctx1) = write_var dis dst ctx
      in (SSAOp.PtrSub d (read_var dis base ctx1) (read_var dis index ctx1) element_size, ctx1))"
| "convert_op dis (R2ILOp.SegmentOp dst segment offset) ctx =
     (let (d, ctx1) = write_var dis dst ctx
      in (SSAOp.SegmentOp d (read_var dis segment ctx1) (read_var dis offset ctx1), ctx1))"
| "convert_op dis (R2ILOp.New dst src) ctx =
     (let (d, ctx1) = write_var dis dst ctx
      in (SSAOp.New d (read_var dis src ctx1), ctx1))"
| "convert_op dis (R2ILOp.Cast dst src) ctx =
     (let (d, ctx1) = write_var dis dst ctx
      in (SSAOp.Cast d (read_var dis src ctx1), ctx1))"
| "convert_op dis (R2ILOp.Extract dst src position) ctx =
     (let (d, ctx1) = write_var dis dst ctx
      in (SSAOp.Extract d (read_var dis src ctx1) (read_var dis position ctx1), ctx1))"
| "convert_op dis (R2ILOp.Insert dst src value position) ctx =
     (let (d, ctx1) = write_var dis dst ctx
      in (SSAOp.Insert d (read_var dis src ctx1) (read_var dis value ctx1) (read_var dis position ctx1), ctx1))"

definition to_ssa_step :: "disasm \<Rightarrow> SSABlock \<times> SSAContext \<Rightarrow> R2ILOp \<Rightarrow> SSABlock \<times> SSAContext" where
  "to_ssa_step dis st op =
     (let (ssa_block, ctx) = st; (ssa_op, ctx1) = convert_op dis op ctx
      in (sb_push ssa_block ssa_op, ctx1))"

definition to_ssa :: "disasm \<Rightarrow> R2ILBlock \<Rightarrow> SSABlock" where
  "to_ssa dis block =
     fst (foldl (to_ssa_step dis) (sb_new (rb_addr block) (rb_size block), []) (rb_ops block))"

section \<open>Shape of a converted operation\<close>

lemma convert_op_shape:
  "convert_op dis op ctx = (op', ctx') \<Longrightarrow>
     write_opt dis (op_output op) ctx = (sop_dst op', ctx') \<and>
     sop_sources op' = map (\<lambda>v. read_var dis v ctx') (kept_inputs op)"
  by (cases op) (auto simp: write_opt_def kept_inputs_def split: prod.splits option.splits)


section \<open>Versions along a block\<close>

fun convert_ops :: "disasm \<Rightarrow> R2ILOp list \<Rightarrow> SSAContext \<Rightarrow> SSAOp list \<times> SSAContext" where
  "convert_ops dis [] ctx = ([], ctx)"
| "convert_ops dis (op # ops) ctx =
     (let (op', ctx1) = convert_op dis op ctx; (ops', ctx2) = convert_ops dis ops ctx1
      in (op' # ops', ctx2))"

lemma to_ssa_foldl:
  "foldl (to_ssa_step dis) (b, ctx) ops =
     (b\<lparr>sb_ops := sb_ops b @ fst (convert_ops dis ops ctx)\<rparr>, snd (convert_ops dis ops ctx))"
  by (induction ops arbitrary: b ctx) (simp_all add: to_ssa_step_def sb_push_def split_beta Let_def)

lemma sb_ops_to_ssa: "sb_ops (to_ssa dis block) = fst (convert_ops dis (rb_ops block) [])"
  by (simp add: to_ssa_def to_ssa_foldl sb_new_def)

text \<open>No counter is above \<open>n\<close>.\<close>

definition ctx_below :: "nat \<Rightarrow> SSAContext \<Rightarrow> bool" where
  "ctx_below n ctx \<longleftrightarrow> (\<forall>nm. unat (ctx_current_version ctx nm) \<le> n)"

lemma unat_Suc_u32: "unat v < 2 ^ 32 - 1 \<Longrightarrow> unat (v + 1 :: u32) = Suc (unat v)"
  by (simp add: unat_word_ariths unsigned_1)

lemma write_var_spec:
  assumes "write_var dis vn ctx = (d, ctx')" "ctx_below n ctx" "n < 2 ^ 32 - 1"
  shows "unat (sv_version d) = Suc (unat (ctx_current_version ctx (sv_name d)))"
    and "ctx_current_version ctx' nm = (if nm = sv_name d then sv_version d else ctx_current_version ctx nm)"
    and "ctx_below (Suc n) ctx'"
proof -
  let ?nm = "block_varnode_to_name dis vn"
  have d: "d = ssa_new ?nm (ctx_current_version ctx ?nm + 1) (vn_size vn)"
    and c: "ctx' = hm_insert ?nm (ctx_current_version ctx ?nm + 1) ctx"
    using assms(1) by (auto simp: write_var_def ctx_new_version_def ctx_current_version_def Let_def)
  have "unat (ctx_current_version ctx ?nm) \<le> n" using assms(2) by (simp add: ctx_below_def)
  then have u: "unat (ctx_current_version ctx ?nm + 1) = Suc (unat (ctx_current_version ctx ?nm))"
    using assms(3) by (intro unat_Suc_u32) simp
  show "unat (sv_version d) = Suc (unat (ctx_current_version ctx (sv_name d)))"
    using u by (simp add: d ssa_new_def)
  show c': "ctx_current_version ctx' nm =
      (if nm = sv_name d then sv_version d else ctx_current_version ctx nm)" for nm
    by (simp add: c d ssa_new_def ctx_current_version_def [of "hm_insert _ _ _"] hm_get_insert)
      (simp add: ctx_current_version_def)
  show "ctx_below (Suc n) ctx'"
    unfolding ctx_below_def c' using assms(2) u
    by (auto simp: ctx_below_def d ssa_new_def intro: le_SucI)
qed

lemma convert_ops_fresh:
  assumes "convert_ops dis ops ctx = (ops', ctx')" "ctx_below n ctx" "n + length ops < 2 ^ 32"
  shows "distinct (map ver_of (dsts ops')) \<and> ctx_below (n + length ops) ctx' \<and>
    (\<forall>d \<in> set (dsts ops'). unat (ctx_current_version ctx (sv_name d)) < unat (sv_version d))"
  using assms
proof (induction ops arbitrary: ctx ops' n)
  case Nil
  then show ?case by simp
next
  case (Cons op ops)
  obtain op' ctx1 ops1 where c: "convert_op dis op ctx = (op', ctx1)"
    "convert_ops dis ops ctx1 = (ops1, ctx')" "ops' = op' # ops1"
    using Cons.prems(1) by (auto simp: split_beta Let_def prod_eq_iff)
  have w: "write_opt dis (op_output op) ctx = (sop_dst op', ctx1)" using convert_op_shape [OF c(1)] by simp
  have n: "n < 2 ^ 32 - 1" "Suc n + length ops < 2 ^ 32" using Cons.prems(3) by auto
  show ?case
  proof (cases "op_output op")
    case None
    then have "ctx1 = ctx" "sop_dst op' = None" using w by (simp_all add: write_opt_def)
    moreover have "ctx_below (Suc n) ctx" using Cons.prems(2) by (auto simp: ctx_below_def intro: le_SucI)
    ultimately show ?thesis using Cons.IH [OF c(2), of "Suc n"] n(2) c(3) by simp
  next
    case (Some vn)
    then obtain d where d: "write_var dis vn ctx = (d, ctx1)" "sop_dst op' = Some d"
      using w by (auto simp: write_opt_def split: prod.splits)
    note s = write_var_spec [OF d(1) Cons.prems(2) n(1)]
    note IH = Cons.IH [OF c(2) s(3) n(2)]
    have "unat (ctx_current_version ctx nm) \<le> unat (ctx_current_version ctx1 nm)" for nm
      using s(1) by (simp add: s(2))
    then have "\<forall>e \<in> set (dsts ops1). unat (ctx_current_version ctx (sv_name e)) < unat (sv_version e)"
      using IH by (meson le_less_trans)
    moreover have "ver_of d \<notin> set (map ver_of (dsts ops1))"
      using IH by (force simp: ver_of_def s(2))
    ultimately show ?thesis using IH s(1) c(3) d(2) by simp
  qed
qed

section \<open>Properties\<close>

text \<open>Single assignment: \<open>to_ssa\<close> never defines the same version of a variable twice in a
  block, as long as the block has fewer than \<open>2 ^ 32\<close> operations, so that no version counter
  wraps, and version 0, which stands for the value on entry, is never defined.\<close>

theorem to_ssa_single_assignment:
  assumes "length (rb_ops block) < 2 ^ 32"
  shows "distinct (map (\<lambda>d. (sv_name d, sv_version d)) (dsts (sb_ops (to_ssa dis block)))) \<and>
    (\<forall>d \<in> set (dsts (sb_ops (to_ssa dis block))). sv_version d \<noteq> 0)"
proof -
  obtain ops' ctx' where c: "convert_ops dis (rb_ops block) [] = (ops', ctx')" by fastforce
  have "ctx_below 0 []" by (simp add: ctx_below_def ctx_current_version_def hm_get_def)
  from convert_ops_fresh [OF c this] assms show ?thesis
    unfolding sb_ops_to_ssa c by (auto simp: ver_of_def [abs_def])
qed

definition inc_block :: R2ILBlock where
  "inc_block = block_push (block_new 0x1000 4)
     (R2ILOp.IntAdd (varnode_register 0 8) (varnode_register 0 8) (varnode_constant 1 8))"

definition no_disasm :: disasm where
  "no_disasm = \<lparr>dis_reg_name_map = [], dis_sleigh_name = (\<lambda>_ _. None)\<rparr>"

theorem to_ssa_single_assignment_witness:
  "distinct (map (\<lambda>d. (sv_name d, sv_version d)) (dsts (sb_ops (to_ssa no_disasm inc_block))))"
  using to_ssa_single_assignment [of inc_block no_disasm]
  by (simp add: inc_block_def block_push_def block_new_def)

text \<open>An operation that reads the variable it writes refers to itself: because the destination
  is evaluated first, every kept input with the name of the output is read at the version the
  operation itself defines, so \<open>x = x + 1\<close> becomes \<open>x_1 = x_1 + 1\<close> and the old value is lost.\<close>

theorem convert_op_reads_own_result:
  assumes "convert_op dis op ctx = (op', ctx')" "op_output op = Some vn" "i < length (kept_inputs op)"
    and "block_varnode_to_name dis (kept_inputs op ! i) = block_varnode_to_name dis vn"
  shows "\<exists>d. sop_dst op' = Some d \<and> ver_of (sop_sources op' ! i) = ver_of d"
proof -
  note s = convert_op_shape [OF assms(1), unfolded assms(2)]
  then obtain d where d: "write_var dis vn ctx = (d, ctx')" "sop_dst op' = Some d"
    by (auto simp: write_opt_def split: prod.splits)
  then show ?thesis
    using s assms(3,4) by (auto simp: write_var_def read_var_def ver_of_def ctx_new_version_def
        ctx_current_version_def hm_get_insert ssa_new_def Let_def)
qed

theorem convert_op_reads_own_result_witness:
  "\<exists>op' d. sb_ops (to_ssa no_disasm inc_block) = [op'] \<and> sop_dst op' = Some d \<and>
     ver_of (sop_sources op' ! 0) = ver_of d"
proof -
  let ?op = "R2ILOp.IntAdd (varnode_register 0 8) (varnode_register 0 8) (varnode_constant 1 8)"
  obtain op' ctx' where c: "convert_op no_disasm ?op [] = (op', ctx')" by fastforce
  then have "sb_ops (to_ssa no_disasm inc_block) = [op']"
    unfolding sb_ops_to_ssa inc_block_def block_push_def block_new_def by (auto simp: Let_def split_beta)
  with convert_op_reads_own_result [OF c, of "varnode_register 0 8" 0] show ?thesis
    by (auto simp: kept_inputs_def)
qed

end
