(* ===== verification/SSA_Cfg.thy ===== *)
theory SSA_Cfg
  imports R2IL_Block "HOL-Library.Multiset"
begin

text \<open>
  The control flow graph: \<open>r2ssa/src/cfg.rs\<close>.

  The graph container is petgraph's \<open>DiGraph\<close>, which is not part of the repository: its
  operations are the record \<open>petgraph\<close>, an argument of every definition that touches the graph,
  and \<open>petgraph_ok\<close> states what its documentation promises (compact node and edge indices, the
  edges an iteration visits, and that removals move the last element into the freed index).
\<close>

section \<open>Basic blocks\<close>

datatype BlockTerminator =
  TermFallthrough u64
| TermBranch u64
| TermConditionalBranch u64 u64
| TermIndirectBranch
| TermSwitch "(u64 \<times> u64) list" "u64 option"
| TermCall u64 "u64 option"
| TermIndirectCall "u64 option"
| TermReturn
| TermNone

record BasicBlock =
  bb_addr :: u64
  bb_size :: u32
  bb_ops :: "R2ILOp list"
  bb_terminator :: BlockTerminator

definition bb_new :: "u64 \<Rightarrow> BasicBlock" where
  "bb_new addr = \<lparr>bb_addr = addr, bb_size = 0, bb_ops = [], bb_terminator = TermNone\<rparr>"

definition extract_const_addr :: "Varnode \<Rightarrow> u64 option" where
  "extract_const_addr vn =
     (if vn_space vn = Const then Some (vn_offset vn)
      else if vn_space vn = Ram then Some (vn_offset vn)
      else None)"

text \<open>One round of the loop: the terminator an operation decides, or nothing for \<open>continue\<close>.\<close>

definition op_terminator :: "u64 \<Rightarrow> R2ILOp \<Rightarrow> BlockTerminator option" where
  "op_terminator ft op =
     (case op of
        Branch target \<Rightarrow>
          Some (case extract_const_addr target of
                  Some addr \<Rightarrow> TermBranch addr
                | None \<Rightarrow> TermIndirectBranch)
      | CBranch target _ \<Rightarrow>
          Some (case extract_const_addr target of
                  Some true_target \<Rightarrow> TermConditionalBranch true_target ft
                | None \<Rightarrow> TermIndirectBranch)
      | BranchInd _ \<Rightarrow> Some TermIndirectBranch
      | Call target \<Rightarrow>
          Some (case extract_const_addr target of
                  Some addr \<Rightarrow> TermCall addr (Some ft)
                | None \<Rightarrow> TermIndirectCall (Some ft))
      | CallInd _ \<Rightarrow> Some (TermIndirectCall (Some ft))
      | Return _ \<Rightarrow> Some TermReturn
      | _ \<Rightarrow> None)"

fun first_terminator :: "u64 \<Rightarrow> R2ILOp list \<Rightarrow> BlockTerminator" where
  "first_terminator ft [] = TermFallthrough ft"
| "first_terminator ft (op # ops) =
     (case op_terminator ft op of
        Some t \<Rightarrow> t
      | None \<Rightarrow> first_terminator ft ops)"

definition analyze_terminator :: "R2ILOp list \<Rightarrow> u64 \<Rightarrow> BlockTerminator" where
  "analyze_terminator ops ft = first_terminator ft (rev ops)"

definition bb_from_r2il :: "R2ILBlock \<Rightarrow> BasicBlock" where
  "bb_from_r2il b =
     \<lparr>bb_addr = rb_addr b, bb_size = rb_size b, bb_ops = rb_ops b,
      bb_terminator =
        (case rb_switch_info b of
           Some si \<Rightarrow>
             TermSwitch (map (\<lambda>c. (sc_value c, sc_target c)) (si_cases si)) (si_default_target si)
         | None \<Rightarrow> analyze_terminator (rb_ops b) (rb_addr b + u32_to_u64 (rb_size b)))\<rparr>"

definition opt_list :: "'a option \<Rightarrow> 'a list" where
  "opt_list x = (case x of Some y \<Rightarrow> [y] | None \<Rightarrow> [])"

definition term_successors :: "BlockTerminator \<Rightarrow> u64 list" where
  "term_successors t =
     (case t of
        TermFallthrough nxt \<Rightarrow> [nxt]
      | TermBranch target \<Rightarrow> [target]
      | TermConditionalBranch true_target false_target \<Rightarrow> [true_target, false_target]
      | TermSwitch cases dflt \<Rightarrow> remdups_adj (sort (map snd cases @ opt_list dflt))
      | TermCall _ ft \<Rightarrow> opt_list ft
      | TermIndirectCall ft \<Rightarrow> opt_list ft
      | TermIndirectBranch \<Rightarrow> []
      | TermReturn \<Rightarrow> []
      | TermNone \<Rightarrow> [])"

definition bb_successors :: "BasicBlock \<Rightarrow> u64 list" where
  "bb_successors b = term_successors (bb_terminator b)"

definition bb_is_branch :: "BasicBlock \<Rightarrow> bool" where
  "bb_is_branch b =
     (case bb_terminator b of
        TermBranch _ \<Rightarrow> True
      | TermConditionalBranch _ _ \<Rightarrow> True
      | TermIndirectBranch \<Rightarrow> True
      | TermSwitch _ _ \<Rightarrow> True
      | _ \<Rightarrow> False)"

definition bb_is_return :: "BasicBlock \<Rightarrow> bool" where
  "bb_is_return b \<longleftrightarrow> bb_terminator b = TermReturn"

section \<open>The graph container\<close>

datatype CFGEdge = EdgeNormal | EdgeTrue | EdgeFalse | EdgeBack

text \<open>
  \<open>pg_nodes\<close> and \<open>pg_edges\<close> are the node and edge weights by index (\<open>graph[idx]\<close>,
  \<open>node_weights\<close>, \<open>EdgeRef\<close>'s source, target and weight); \<open>pg_out\<close> and \<open>pg_in\<close> are the edge
  indices \<open>edges_directed\<close> visits.
\<close>

record 'g petgraph =
  pg_new :: 'g
  pg_nodes :: "'g \<Rightarrow> BasicBlock list"
  pg_edges :: "'g \<Rightarrow> (nat \<times> nat \<times> CFGEdge) list"
  pg_add_node :: "'g \<Rightarrow> BasicBlock \<Rightarrow> 'g \<times> nat"
  pg_set_node :: "'g \<Rightarrow> nat \<Rightarrow> BasicBlock \<Rightarrow> 'g"
  pg_add_edge :: "'g \<Rightarrow> nat \<Rightarrow> nat \<Rightarrow> CFGEdge \<Rightarrow> 'g"
  pg_out :: "'g \<Rightarrow> nat \<Rightarrow> nat list"
  pg_in :: "'g \<Rightarrow> nat \<Rightarrow> nat list"
  pg_find_edge :: "'g \<Rightarrow> nat \<Rightarrow> nat \<Rightarrow> nat option"
  pg_remove_edge :: "'g \<Rightarrow> nat \<Rightarrow> 'g"
  pg_remove_node :: "'g \<Rightarrow> nat \<Rightarrow> 'g"

section \<open>The control flow graph\<close>

record 'g CFG =
  cfg_graph :: 'g
  cfg_addr_to_node :: "(u64, nat) hashmap"
  cfg_entry :: u64

definition edge_sort_rank :: "CFGEdge \<Rightarrow> nat" where
  "edge_sort_rank e =
     (case e of EdgeTrue \<Rightarrow> 0 | EdgeFalse \<Rightarrow> 1 | EdgeNormal \<Rightarrow> 2 | EdgeBack \<Rightarrow> 3)"

definition cfg_new :: "'g petgraph \<Rightarrow> u64 \<Rightarrow> 'g CFG" where
  "cfg_new G entry = \<lparr>cfg_graph = pg_new G, cfg_addr_to_node = [], cfg_entry = entry\<rparr>"

definition add_block :: "'g petgraph \<Rightarrow> 'g CFG \<Rightarrow> BasicBlock \<Rightarrow> 'g CFG" where
  "add_block G cfg b =
     (let (g, i) = pg_add_node G (cfg_graph cfg) b
      in cfg\<lparr>cfg_graph := g, cfg_addr_to_node := hm_insert (bb_addr b) i (cfg_addr_to_node cfg)\<rparr>)"

definition get_node :: "'g CFG \<Rightarrow> u64 \<Rightarrow> nat option" where
  "get_node cfg addr = hm_get (cfg_addr_to_node cfg) addr"

text \<open>One \<open>if let Some(&target_idx) = ...\<close> of \<open>add_edges_for_block\<close>.\<close>

definition link_to :: "'g petgraph \<Rightarrow> nat \<Rightarrow> 'g CFG \<Rightarrow> u64 \<times> CFGEdge \<Rightarrow> 'g CFG" where
  "link_to G i cfg te =
     (case get_node cfg (fst te) of
        Some j \<Rightarrow> cfg\<lparr>cfg_graph := pg_add_edge G (cfg_graph cfg) i j (snd te)\<rparr>
      | None \<Rightarrow> cfg)"

definition term_edges :: "BlockTerminator \<Rightarrow> (u64 \<times> CFGEdge) list" where
  "term_edges t =
     (case t of
        TermFallthrough nxt \<Rightarrow> [(nxt, EdgeNormal)]
      | TermBranch nxt \<Rightarrow> [(nxt, EdgeNormal)]
      | TermConditionalBranch true_target false_target \<Rightarrow>
          [(true_target, EdgeTrue), (false_target, EdgeFalse)]
      | TermCall _ ft \<Rightarrow> map (\<lambda>a. (a, EdgeNormal)) (opt_list ft)
      | TermIndirectCall ft \<Rightarrow> map (\<lambda>a. (a, EdgeNormal)) (opt_list ft)
      | TermSwitch cases dflt \<Rightarrow>
          map (\<lambda>(_, a). (a, EdgeNormal)) cases @ map (\<lambda>a. (a, EdgeNormal)) (opt_list dflt)
      | TermIndirectBranch \<Rightarrow> []
      | TermReturn \<Rightarrow> []
      | TermNone \<Rightarrow> [])"

definition add_edges_for_block :: "'g petgraph \<Rightarrow> 'g CFG \<Rightarrow> u64 \<Rightarrow> 'g CFG" where
  "add_edges_for_block G cfg addr =
     (case get_node cfg addr of
        Some i \<Rightarrow>
          foldl (link_to G i) cfg (term_edges (bb_terminator (pg_nodes G (cfg_graph cfg) ! i)))
      | None \<Rightarrow> cfg)"

definition block_addrs :: "'g CFG \<Rightarrow> u64 list" where
  "block_addrs cfg = sort (map fst (cfg_addr_to_node cfg))"

definition from_blocks :: "'g petgraph \<Rightarrow> R2ILBlock list \<Rightarrow> 'g CFG option" where
  "from_blocks G blocks =
     (case blocks of
        [] \<Rightarrow> None
      | b # _ \<Rightarrow>
          let cfg = foldl (\<lambda>cfg b. add_block G cfg (bb_from_r2il b)) (cfg_new G (rb_addr b)) blocks
          in Some (foldl (add_edges_for_block G) cfg (block_addrs cfg)))"

definition get_block :: "'g petgraph \<Rightarrow> 'g CFG \<Rightarrow> u64 \<Rightarrow> BasicBlock option" where
  "get_block G cfg addr = map_option (\<lambda>i. pg_nodes G (cfg_graph cfg) ! i) (get_node cfg addr)"

definition entry_block :: "'g petgraph \<Rightarrow> 'g CFG \<Rightarrow> BasicBlock option" where
  "entry_block G cfg = get_block G cfg (cfg_entry cfg)"

definition num_blocks :: "'g petgraph \<Rightarrow> 'g CFG \<Rightarrow> nat" where
  "num_blocks G cfg = length (pg_nodes G (cfg_graph cfg))"

definition num_edges :: "'g petgraph \<Rightarrow> 'g CFG \<Rightarrow> nat" where
  "num_edges G cfg = length (pg_edges G (cfg_graph cfg))"

definition node_addr :: "'g petgraph \<Rightarrow> 'g CFG \<Rightarrow> nat \<Rightarrow> u64" where
  "node_addr G cfg i = bb_addr (pg_nodes G (cfg_graph cfg) ! i)"

definition cfg_predecessors :: "'g petgraph \<Rightarrow> 'g CFG \<Rightarrow> u64 \<Rightarrow> u64 list" where
  "cfg_predecessors G cfg addr =
     (case get_node cfg addr of
        None \<Rightarrow> []
      | Some i \<Rightarrow>
          sort (map (\<lambda>e. node_addr G cfg (fst (pg_edges G (cfg_graph cfg) ! e)))
                 (pg_in G (cfg_graph cfg) i)))"

definition cfg_successors :: "'g petgraph \<Rightarrow> 'g CFG \<Rightarrow> u64 \<Rightarrow> u64 list" where
  "cfg_successors G cfg addr =
     (case get_node cfg addr of
        None \<Rightarrow> []
      | Some i \<Rightarrow>
          map snd (sort (map (\<lambda>e. case pg_edges G (cfg_graph cfg) ! e of
                                    (_, t, w) \<Rightarrow> (edge_sort_rank w, node_addr G cfg t))
                           (pg_out G (cfg_graph cfg) i))))"

definition edge_type :: "'g petgraph \<Rightarrow> 'g CFG \<Rightarrow> u64 \<Rightarrow> u64 \<Rightarrow> CFGEdge option" where
  "edge_type G cfg from to =
     (case get_node cfg from of
        None \<Rightarrow> None
      | Some i \<Rightarrow>
          (case get_node cfg to of
             None \<Rightarrow> None
           | Some j \<Rightarrow>
               map_option (\<lambda>e. snd (snd (pg_edges G (cfg_graph cfg) ! e)))
                 (pg_find_edge G (cfg_graph cfg) i j)))"

definition has_edge :: "'g petgraph \<Rightarrow> 'g CFG \<Rightarrow> u64 \<Rightarrow> u64 \<Rightarrow> bool" where
  "has_edge G cfg from to \<longleftrightarrow> edge_type G cfg from to \<noteq> None"

partial_function (option) remove_edges_loop ::
  "'g petgraph \<Rightarrow> nat \<Rightarrow> nat \<Rightarrow> 'g \<Rightarrow> 'g option"
where
  "remove_edges_loop G i j g =
     (case pg_find_edge G g i j of
        Some e \<Rightarrow> remove_edges_loop G i j (pg_remove_edge G g e)
      | None \<Rightarrow> Some g)"

definition cfg_remove_edge :: "'g petgraph \<Rightarrow> 'g CFG \<Rightarrow> u64 \<Rightarrow> u64 \<Rightarrow> 'g CFG option" where
  "cfg_remove_edge G cfg from to =
     (case get_node cfg from of
        None \<Rightarrow> Some cfg
      | Some i \<Rightarrow>
          (case get_node cfg to of
             None \<Rightarrow> Some cfg
           | Some j \<Rightarrow>
               map_option (\<lambda>g. cfg\<lparr>cfg_graph := g\<rparr>) (remove_edges_loop G i j (cfg_graph cfg))))"

definition rebuild_addr_map :: "'g petgraph \<Rightarrow> 'g CFG \<Rightarrow> 'g CFG" where
  "rebuild_addr_map G cfg =
     cfg\<lparr>cfg_addr_to_node :=
       foldl (\<lambda>m i. hm_insert (node_addr G cfg i) i m) []
         [0..<length (pg_nodes G (cfg_graph cfg))]\<rparr>"

definition hm_remove :: "'k \<Rightarrow> ('k, 'v) hashmap \<Rightarrow> ('k, 'v) hashmap" where
  "hm_remove k m = filter (\<lambda>p. fst p \<noteq> k) m"

definition remove_block :: "'g petgraph \<Rightarrow> 'g CFG \<Rightarrow> u64 \<Rightarrow> 'g CFG" where
  "remove_block G cfg addr =
     (case get_node cfg addr of
        None \<Rightarrow> cfg
      | Some i \<Rightarrow>
          rebuild_addr_map G
            (cfg\<lparr>cfg_addr_to_node := hm_remove addr (cfg_addr_to_node cfg),
                 cfg_graph := pg_remove_node G (cfg_graph cfg) i\<rparr>))"

definition set_terminator ::
  "'g petgraph \<Rightarrow> 'g CFG \<Rightarrow> u64 \<Rightarrow> BlockTerminator \<Rightarrow> 'g CFG" where
  "set_terminator G cfg addr t =
     (case get_node cfg addr of
        None \<Rightarrow> cfg
      | Some i \<Rightarrow>
          let g = foldl (pg_remove_edge G) (cfg_graph cfg) (pg_out G (cfg_graph cfg) i);
              g' = pg_set_node G g i ((pg_nodes G g ! i)\<lparr>bb_terminator := t\<rparr>)
          in add_edges_for_block G (cfg\<lparr>cfg_graph := g'\<rparr>) addr)"

section \<open>Reverse postorder\<close>

text \<open>The nodes the depth-first search calls itself on, in order.\<close>

definition succ_nodes :: "'g petgraph \<Rightarrow> 'g CFG \<Rightarrow> nat \<Rightarrow> nat list" where
  "succ_nodes G cfg i = List.map_filter (get_node cfg) (cfg_successors G cfg (node_addr G cfg i))"

text \<open>
  \<open>dfs_postorder\<close> on each node of a list in turn; the list is the rest of the \<open>for\<close> loop over
  the successors.
\<close>

function dfs_postorder ::
  "'g petgraph \<Rightarrow> 'g CFG \<Rightarrow> nat set \<Rightarrow> u64 list \<Rightarrow> nat list \<Rightarrow> nat set \<times> u64 list"
where
  "dfs_postorder G cfg visited post [] = (visited, post)"
| "dfs_postorder G cfg visited post (i # is) =
     (if i \<in> visited then dfs_postorder G cfg visited post is
      else let (visited1, post1) = dfs_postorder G cfg (insert i visited) post (succ_nodes G cfg i)
           in dfs_postorder G cfg visited1 (post1 @ [node_addr G cfg i]) is)"
  by pat_completeness auto

definition cfg_nodes :: "'g CFG \<Rightarrow> nat set" where
  "cfg_nodes cfg = snd ` set (cfg_addr_to_node cfg)"

lemma succ_nodes_in: "set (succ_nodes G cfg i) \<subseteq> cfg_nodes cfg"
  by (force simp: succ_nodes_def map_filter_def cfg_nodes_def get_node_def hm_get_def
      dest: map_of_SomeD)

lemma dfs_postorder_visited:
  "dfs_postorder_dom (G, cfg, visited, post, is) \<Longrightarrow>
   visited \<subseteq> fst (dfs_postorder G cfg visited post is)"
proof (induction rule: dfs_postorder.pinduct)
  case (2 G cfg visited post i "is")
  obtain v1 p1 where r: "dfs_postorder G cfg (insert i visited) post (succ_nodes G cfg i) = (v1, p1)"
    by fastforce
  show ?case
  proof (cases "i \<in> visited")
    case False
    with 2(3) 2(4) [OF False r [symmetric] refl] r have "insert i visited \<subseteq> v1"
      "v1 \<subseteq> fst (dfs_postorder G cfg v1 (p1 @ [node_addr G cfg i]) is)" by simp_all
    with False r 2(1) show ?thesis by (auto simp: dfs_postorder.psimps)
  qed (use 2 in \<open>simp add: dfs_postorder.psimps\<close>)
qed (simp add: dfs_postorder.psimps)

termination dfs_postorder
proof (relation "measures [\<lambda>(G, cfg, v, p, xs). card ((cfg_nodes cfg \<union> set xs) - v),
    \<lambda>(G, cfg, v, p, xs). length xs]")
  have fin: "finite (cfg_nodes cfg)" for cfg :: "'a CFG" by (simp add: cfg_nodes_def)
  fix G :: "'a petgraph" and cfg :: "'a CFG" and v :: "nat set" and p :: "u64 list"
    and i :: nat and xs :: "nat list"
  show "i \<in> v \<Longrightarrow> ((G, cfg, v, p, xs), (G, cfg, v, p, i # xs)) \<in>
      measures [\<lambda>(G, cfg, v, p, xs). card ((cfg_nodes cfg \<union> set xs) - v),
        \<lambda>(G, cfg, v, p, xs). length xs]"
    by (simp add: insert_absorb)
  assume i: "i \<notin> v"
  have "card ((cfg_nodes cfg \<union> set (succ_nodes G cfg i)) - insert i v)
      < card ((cfg_nodes cfg \<union> set (i # xs)) - v)"
    using succ_nodes_in [of G cfg i] i fin by (intro psubset_card_mono) auto
  then show "((G, cfg, insert i v, p, succ_nodes G cfg i), (G, cfg, v, p, i # xs)) \<in>
      measures [\<lambda>(G, cfg, v, p, xs). card ((cfg_nodes cfg \<union> set xs) - v),
        \<lambda>(G, cfg, v, p, xs). length xs]"
    by simp
  fix r v1 p1
  assume r: "r = dfs_postorder G cfg (insert i v) p (succ_nodes G cfg i)" "(v1, p1) = r"
    "dfs_postorder_dom (G, cfg, insert i v, p, succ_nodes G cfg i)"
  then have "insert i v \<subseteq> v1" using dfs_postorder_visited [OF r(3)] by (metis fst_conv)
  then have "card ((cfg_nodes cfg \<union> set xs) - v1) < card ((cfg_nodes cfg \<union> set (i # xs)) - v)"
    using i fin by (intro psubset_card_mono) auto
  then show "((G, cfg, v1, p1 @ [node_addr G cfg i], xs), (G, cfg, v, p, i # xs)) \<in>
      measures [\<lambda>(G, cfg, v, p, xs). card ((cfg_nodes cfg \<union> set xs) - v),
        \<lambda>(G, cfg, v, p, xs). length xs]"
    by simp
qed simp

definition reverse_postorder :: "'g petgraph \<Rightarrow> 'g CFG \<Rightarrow> u64 list" where
  "reverse_postorder G cfg =
     (case get_node cfg (cfg_entry cfg) of
        None \<Rightarrow> []
      | Some i \<Rightarrow> rev (snd (dfs_postorder G cfg {} [] [i])))"

section \<open>What the search returns\<close>

text \<open>\<open>parented f I q\<close>: every element of \<open>q\<close> is in \<open>I\<close> or a successor of a later element.\<close>

fun parented :: "('a \<Rightarrow> 'a list) \<Rightarrow> 'a set \<Rightarrow> 'a list \<Rightarrow> bool" where
  "parented f I [] = True"
| "parented f I (x # xs) \<longleftrightarrow> (x \<in> I \<or> (\<exists>y \<in> set xs. x \<in> set (f y))) \<and> parented f I xs"

lemma parented_append:
  assumes "parented f I xs" "I \<subseteq> J \<union> (\<Union>y \<in> set ys. set (f y))" "parented f J ys"
  shows "parented f J (xs @ ys)"
  using assms by (induction xs) auto

lemma parented_mono: "parented f I xs \<Longrightarrow> I \<subseteq> J \<Longrightarrow> parented f J xs"
  by (induction xs) auto

abbreviation reach_nodes :: "'g petgraph \<Rightarrow> 'g CFG \<Rightarrow> nat set \<Rightarrow> nat set" where
  "reach_nodes G cfg I \<equiv> {(x, y). y \<in> set (succ_nodes G cfg x)}\<^sup>* `` I"

definition dfs_ok ::
  "'g petgraph \<Rightarrow> 'g CFG \<Rightarrow> nat set \<Rightarrow> u64 list \<Rightarrow> nat list \<Rightarrow> nat set \<Rightarrow> u64 list \<Rightarrow> nat list \<Rightarrow> bool"
where
  "dfs_ok G cfg v p xs v' p' q \<longleftrightarrow>
     p' = p @ map (node_addr G cfg) q \<and> distinct q \<and> v \<subseteq> v' \<and> set q = v' - v \<and> set xs \<subseteq> v' \<and>
     (\<forall>x \<in> set q. set (succ_nodes G cfg x) \<subseteq> v') \<and>
     parented (succ_nodes G cfg) (set xs) q \<and> set q \<subseteq> reach_nodes G cfg (set xs)"

lemma dfs_okD:
  assumes "dfs_ok G cfg v p xs v' p' q"
  shows "p' = p @ map (node_addr G cfg) q" "distinct q" "v \<subseteq> v'" "set q = v' - v" "set xs \<subseteq> v'"
    and "\<forall>x \<in> set q. set (succ_nodes G cfg x) \<subseteq> v'"
    and "parented (succ_nodes G cfg) (set xs) q" "set q \<subseteq> reach_nodes G cfg (set xs)"
  using assms unfolding dfs_ok_def by blast+

lemma dfs_ok_step:
  assumes "i \<notin> v" "dfs_ok G cfg (insert i v) p (succ_nodes G cfg i) v1 p1 q1"
    and "dfs_ok G cfg v1 (p1 @ [node_addr G cfg i]) xs v' p' q2"
  shows "dfs_ok G cfg v p (i # xs) v' p' (q1 @ i # q2)"
proof -
  note d1 = dfs_okD [OF assms(2)] and d2 = dfs_okD [OF assms(3)]
  have "reach_nodes G cfg (set (succ_nodes G cfg i)) \<subseteq> reach_nodes G cfg (set (i # xs))"
    by (auto intro: converse_rtrancl_into_rtrancl)
  moreover have "reach_nodes G cfg (set xs) \<subseteq> reach_nodes G cfg (set (i # xs))"
    by (rule Image_mono) auto
  moreover have "i \<in> reach_nodes G cfg (set (i # xs))" by auto
  ultimately have r: "set (q1 @ i # q2) \<subseteq> reach_nodes G cfg (set (i # xs))"
    using d1(8) d2(8) unfolding set_append list.set by blast
  have c: "\<forall>x \<in> set (q1 @ i # q2). set (succ_nodes G cfg x) \<subseteq> v'"
    using d1(5,6) d2(3,6) by fastforce
  have d: "distinct (q1 @ i # q2)" "set (q1 @ i # q2) = v' - v"
    using d1(2-4) d2(2-4) assms(1) by auto
  have "parented (succ_nodes G cfg) (set (i # xs)) (q1 @ i # q2)"
    using d1(7) d2(7)
    by (intro parented_append [of _ "set (succ_nodes G cfg i)"]) (auto intro: parented_mono)
  moreover have "p' = p @ map (node_addr G cfg) (q1 @ i # q2)" "v \<subseteq> v'" "set (i # xs) \<subseteq> v'"
    using d1(1,3) d2(1,3,5) by auto
  ultimately show ?thesis unfolding dfs_ok_def using r c d by blast
qed

lemma dfs_postorder_ok:
  "\<exists>q. dfs_ok G cfg v p xs (fst (dfs_postorder G cfg v p xs)) (snd (dfs_postorder G cfg v p xs)) q"
proof (induction G cfg v p xs rule: dfs_postorder.induct)
  case (1 G cfg v p)
  then show ?case by (intro exI [of _ "[]"]) (simp add: dfs_ok_def)
next
  case (2 G cfg v p i xs)
  show ?case
  proof (cases "i \<in> v")
    case True
    then obtain q where "dfs_ok G cfg v p xs (fst (dfs_postorder G cfg v p xs))
        (snd (dfs_postorder G cfg v p xs)) q" using 2(1) by blast
    then have "dfs_ok G cfg v p (i # xs) (fst (dfs_postorder G cfg v p xs))
        (snd (dfs_postorder G cfg v p xs)) q"
      using True unfolding dfs_ok_def by (simp add: parented_mono [OF _ subset_insertI]) blast
    with True show ?thesis by auto
  next
    case False
    obtain v1 p1 where r: "dfs_postorder G cfg (insert i v) p (succ_nodes G cfg i) = (v1, p1)"
      by fastforce
    from 2(2) [OF False] 2(3) [OF False r [symmetric] refl] r False show ?thesis
      by (auto intro: dfs_ok_step)
  qed
qed

section \<open>What petgraph promises\<close>

definition swap_remove :: "nat \<Rightarrow> 'a list \<Rightarrow> 'a list" where
  "swap_remove k xs = butlast (xs[k := last xs])"

definition petgraph_ok :: "'g petgraph \<Rightarrow> bool" where
  "petgraph_ok G \<longleftrightarrow>
     pg_nodes G (pg_new G) = [] \<and> pg_edges G (pg_new G) = [] \<and>
     (\<forall>g b. snd (pg_add_node G g b) = length (pg_nodes G g) \<and>
            pg_nodes G (fst (pg_add_node G g b)) = pg_nodes G g @ [b] \<and>
            pg_edges G (fst (pg_add_node G g b)) = pg_edges G g) \<and>
     (\<forall>g i b. i < length (pg_nodes G g) \<longrightarrow>
            pg_nodes G (pg_set_node G g i b) = (pg_nodes G g)[i := b] \<and>
            pg_edges G (pg_set_node G g i b) = pg_edges G g) \<and>
     (\<forall>g i j w. i < length (pg_nodes G g) \<and> j < length (pg_nodes G g) \<longrightarrow>
            pg_nodes G (pg_add_edge G g i j w) = pg_nodes G g \<and>
            pg_edges G (pg_add_edge G g i j w) = pg_edges G g @ [(i, j, w)]) \<and>
     (\<forall>g i. distinct (pg_out G g i) \<and>
            set (pg_out G g i) = {e. e < length (pg_edges G g) \<and> fst (pg_edges G g ! e) = i}) \<and>
     (\<forall>g j. distinct (pg_in G g j) \<and>
            set (pg_in G g j) = {e. e < length (pg_edges G g) \<and> fst (snd (pg_edges G g ! e)) = j}) \<and>
     (\<forall>g i j. case pg_find_edge G g i j of
            Some e \<Rightarrow> e < length (pg_edges G g) \<and> (\<exists>w. pg_edges G g ! e = (i, j, w))
          | None \<Rightarrow> \<forall>w. (i, j, w) \<notin> set (pg_edges G g)) \<and>
     (\<forall>g e. pg_nodes G (pg_remove_edge G g e) = pg_nodes G g \<and>
            pg_edges G (pg_remove_edge G g e) =
              (if e < length (pg_edges G g) then swap_remove e (pg_edges G g) else pg_edges G g)) \<and>
     (\<forall>g i. i < length (pg_nodes G g) \<longrightarrow>
            pg_nodes G (pg_remove_node G g i) = swap_remove i (pg_nodes G g) \<and>
            mset (pg_edges G (pg_remove_node G g i)) =
              image_mset (\<lambda>(s, t, w).
                  (if s = length (pg_nodes G g) - 1 then i else s,
                   if t = length (pg_nodes G g) - 1 then i else t, w))
                (filter_mset (\<lambda>(s, t, w). s \<noteq> i \<and> t \<noteq> i) (mset (pg_edges G g))))"

lemma petgraph_okD:
  assumes "petgraph_ok G"
  shows "pg_nodes G (pg_new G) = []" "pg_edges G (pg_new G) = []"
    and "snd (pg_add_node G g b) = length (pg_nodes G g)"
    and "pg_nodes G (fst (pg_add_node G g b)) = pg_nodes G g @ [b]"
    and "pg_edges G (fst (pg_add_node G g b)) = pg_edges G g"
    and "i < length (pg_nodes G g) \<Longrightarrow> pg_nodes G (pg_set_node G g i b) = (pg_nodes G g)[i := b]"
    and "i < length (pg_nodes G g) \<Longrightarrow> pg_edges G (pg_set_node G g i b) = pg_edges G g"
    and "i < length (pg_nodes G g) \<Longrightarrow> j < length (pg_nodes G g) \<Longrightarrow>
           pg_nodes G (pg_add_edge G g i j w) = pg_nodes G g"
    and "i < length (pg_nodes G g) \<Longrightarrow> j < length (pg_nodes G g) \<Longrightarrow>
           pg_edges G (pg_add_edge G g i j w) = pg_edges G g @ [(i, j, w)]"
  using assms unfolding petgraph_ok_def by simp_all

lemma petgraph_ok_edges:
  assumes "petgraph_ok G"
  shows "distinct (pg_out G g i)" "distinct (pg_in G g j)"
    and "set (pg_out G g i) = {e. e < length (pg_edges G g) \<and> fst (pg_edges G g ! e) = i}"
    and "set (pg_in G g j) = {e. e < length (pg_edges G g) \<and> fst (snd (pg_edges G g ! e)) = j}"
    and "pg_find_edge G g i j = Some e \<Longrightarrow>
           e < length (pg_edges G g) \<and> (\<exists>w. pg_edges G g ! e = (i, j, w))"
    and "pg_find_edge G g i j = None \<Longrightarrow> (i, j, w) \<notin> set (pg_edges G g)"
    and "pg_nodes G (pg_remove_edge G g e) = pg_nodes G g"
    and "pg_edges G (pg_remove_edge G g e) =
           (if e < length (pg_edges G g) then swap_remove e (pg_edges G g) else pg_edges G g)"
proof -
  have find: "case pg_find_edge G g i j of
      Some e \<Rightarrow> e < length (pg_edges G g) \<and> (\<exists>w. pg_edges G g ! e = (i, j, w))
    | None \<Rightarrow> \<forall>w. (i, j, w) \<notin> set (pg_edges G g)"
    using assms unfolding petgraph_ok_def by blast
  show "pg_find_edge G g i j = Some e \<Longrightarrow>
      e < length (pg_edges G g) \<and> (\<exists>w. pg_edges G g ! e = (i, j, w))"
    "pg_find_edge G g i j = None \<Longrightarrow> (i, j, w) \<notin> set (pg_edges G g)"
    using find by simp_all
qed (use assms in \<open>unfold petgraph_ok_def, blast+\<close>)

section \<open>The invariant\<close>

text \<open>
  The address map points at the nodes of its addresses, and edges only join nodes the map points
  at: indexing the graph never panics, and a block shadowed by a later one of the same address
  has no edges.
\<close>

definition live_node :: "'g petgraph \<Rightarrow> 'g CFG \<Rightarrow> nat \<Rightarrow> bool" where
  "live_node G cfg i \<longleftrightarrow>
     i < length (pg_nodes G (cfg_graph cfg)) \<and> get_node cfg (node_addr G cfg i) = Some i"

definition cfg_inv :: "'g petgraph \<Rightarrow> 'g CFG \<Rightarrow> bool" where
  "cfg_inv G cfg \<longleftrightarrow>
     hm_ok (cfg_addr_to_node cfg) \<and>
     (\<forall>a i. get_node cfg a = Some i \<longrightarrow>
        i < length (pg_nodes G (cfg_graph cfg)) \<and> node_addr G cfg i = a) \<and>
     (\<forall>(s, t, w) \<in> set (pg_edges G (cfg_graph cfg)). live_node G cfg s \<and> live_node G cfg t)"

definition edge_rel :: "'g petgraph \<Rightarrow> 'g CFG \<Rightarrow> (u64 \<times> u64) set" where
  "edge_rel G cfg =
     {(node_addr G cfg s, node_addr G cfg t) | s t w. (s, t, w) \<in> set (pg_edges G (cfg_graph cfg))}"

lemma cfg_invD:
  assumes "cfg_inv G cfg"
  shows "get_node cfg a = Some i \<Longrightarrow> i < length (pg_nodes G (cfg_graph cfg))"
    and "get_node cfg a = Some i \<Longrightarrow> node_addr G cfg i = a"
    and "(s, t, w) \<in> set (pg_edges G (cfg_graph cfg)) \<Longrightarrow>
           get_node cfg (node_addr G cfg s) = Some s \<and> get_node cfg (node_addr G cfg t) = Some t"
  using assms unfolding cfg_inv_def live_node_def by auto

lemma edge_rel_from:
  assumes "cfg_inv G cfg" "get_node cfg a = Some i"
  shows "(a, b) \<in> edge_rel G cfg \<longleftrightarrow>
    (\<exists>t w. (i, t, w) \<in> set (pg_edges G (cfg_graph cfg)) \<and> b = node_addr G cfg t)"
proof
  assume "(a, b) \<in> edge_rel G cfg"
  then obtain s t w where e: "(s, t, w) \<in> set (pg_edges G (cfg_graph cfg))"
    "a = node_addr G cfg s" "b = node_addr G cfg t" unfolding edge_rel_def by blast
  with cfg_invD(3) [OF assms(1) e(1)] assms(2) have "s = i" by simp
  with e show "\<exists>t w. (i, t, w) \<in> set (pg_edges G (cfg_graph cfg)) \<and> b = node_addr G cfg t" by blast
qed (use cfg_invD(2) [OF assms] in \<open>unfold edge_rel_def, blast\<close>)

lemma edge_rel_to:
  assumes "cfg_inv G cfg" "get_node cfg b = Some j"
  shows "(a, b) \<in> edge_rel G cfg \<longleftrightarrow>
    (\<exists>s w. (s, j, w) \<in> set (pg_edges G (cfg_graph cfg)) \<and> a = node_addr G cfg s)"
proof
  assume "(a, b) \<in> edge_rel G cfg"
  then obtain s t w where e: "(s, t, w) \<in> set (pg_edges G (cfg_graph cfg))"
    "a = node_addr G cfg s" "b = node_addr G cfg t" unfolding edge_rel_def by blast
  with cfg_invD(3) [OF assms(1) e(1)] assms(2) have "t = j" by simp
  with e show "\<exists>s w. (s, j, w) \<in> set (pg_edges G (cfg_graph cfg)) \<and> a = node_addr G cfg s" by blast
qed (use cfg_invD(2) [OF assms] in \<open>unfold edge_rel_def, blast\<close>)

lemma edge_rel_live:
  "cfg_inv G cfg \<Longrightarrow> (a, b) \<in> edge_rel G cfg \<Longrightarrow> get_node cfg a \<noteq> None \<and> get_node cfg b \<noteq> None"
  using cfg_invD(3) unfolding edge_rel_def by fastforce

lemma set_cfg_successors:
  assumes "petgraph_ok G" "cfg_inv G cfg"
  shows "b \<in> set (cfg_successors G cfg a) \<longleftrightarrow> (a, b) \<in> edge_rel G cfg"
proof (cases "get_node cfg a")
  case None
  then show ?thesis using edge_rel_live [OF assms(2), of a b] by (auto simp: cfg_successors_def)
next
  case (Some i)
  let ?E = "pg_edges G (cfg_graph cfg)"
  have "set (cfg_successors G cfg a) = (\<lambda>e. node_addr G cfg (fst (snd (?E ! e)))) ` set (pg_out G (cfg_graph cfg) i)"
    by (simp add: cfg_successors_def Some image_image split_beta)
  then have "b \<in> set (cfg_successors G cfg a) \<longleftrightarrow>
      (\<exists>e < length ?E. fst (?E ! e) = i \<and> b = node_addr G cfg (fst (snd (?E ! e))))"
    unfolding petgraph_ok_edges(3) [OF assms(1)] by auto
  also have "\<dots> \<longleftrightarrow> (\<exists>x \<in> set ?E. fst x = i \<and> b = node_addr G cfg (fst (snd x)))"
    by (metis in_set_conv_nth)
  finally show ?thesis unfolding edge_rel_from [OF assms(2) Some] by force
qed

lemma set_cfg_predecessors:
  assumes "petgraph_ok G" "cfg_inv G cfg"
  shows "a \<in> set (cfg_predecessors G cfg b) \<longleftrightarrow> (a, b) \<in> edge_rel G cfg"
proof (cases "get_node cfg b")
  case None
  then show ?thesis using edge_rel_live [OF assms(2), of a b] by (auto simp: cfg_predecessors_def)
next
  case (Some j)
  let ?E = "pg_edges G (cfg_graph cfg)"
  have "set (cfg_predecessors G cfg b) = (\<lambda>e. node_addr G cfg (fst (?E ! e))) ` set (pg_in G (cfg_graph cfg) j)"
    by (simp add: cfg_predecessors_def Some)
  then have "a \<in> set (cfg_predecessors G cfg b) \<longleftrightarrow>
      (\<exists>e < length ?E. fst (snd (?E ! e)) = j \<and> a = node_addr G cfg (fst (?E ! e)))"
    unfolding petgraph_ok_edges(4) [OF assms(1)] by auto
  also have "\<dots> \<longleftrightarrow> (\<exists>x \<in> set ?E. fst (snd x) = j \<and> a = node_addr G cfg (fst x))"
    by (metis in_set_conv_nth)
  finally show ?thesis unfolding edge_rel_to [OF assms(2) Some] by force
qed

section \<open>Reverse postorder\<close>

lemma succ_nodes_addr:
  assumes "petgraph_ok G" "cfg_inv G cfg"
  shows "y \<in> set (succ_nodes G cfg x) \<longleftrightarrow>
    get_node cfg (node_addr G cfg y) = Some y \<and>
    (node_addr G cfg x, node_addr G cfg y) \<in> edge_rel G cfg"
proof -
  have "y \<in> set (succ_nodes G cfg x) \<longleftrightarrow>
      (\<exists>b. (node_addr G cfg x, b) \<in> edge_rel G cfg \<and> get_node cfg b = Some y)"
    by (force simp: succ_nodes_def map_filter_def set_cfg_successors [OF assms])
  then show ?thesis using cfg_invD(2) [OF assms(2)] by blast
qed

definition reachable_addrs :: "'g petgraph \<Rightarrow> 'g CFG \<Rightarrow> u64 set" where
  "reachable_addrs G cfg =
     (if get_node cfg (cfg_entry cfg) = None then {} else (edge_rel G cfg)\<^sup>* `` {cfg_entry cfg})"

lemma reach_nodes_addr:
  assumes "petgraph_ok G" "cfg_inv G cfg" "get_node cfg a = Some i"
  shows "node_addr G cfg ` reach_nodes G cfg {i} = (edge_rel G cfg)\<^sup>* `` {a}"
    and "x \<in> reach_nodes G cfg {i} \<Longrightarrow> get_node cfg (node_addr G cfg x) = Some x"
proof -
  let ?R = "{(x, y). y \<in> set (succ_nodes G cfg x)}"
  note sa = succ_nodes_addr [OF assms(1,2)]
  have i: "node_addr G cfg i = a" using cfg_invD(2) [OF assms(2,3)] .
  have fwd: "(a, node_addr G cfg x) \<in> (edge_rel G cfg)\<^sup>* \<and> get_node cfg (node_addr G cfg x) = Some x"
    if "(i, x) \<in> ?R\<^sup>*" for x using that
  proof (induction rule: rtrancl_induct)
    case base
    then show ?case using i assms(3) by simp
  next
    case (step y z)
    then show ?case using sa [of z y] by (auto intro: rtrancl_into_rtrancl)
  qed
  have bwd: "\<exists>x. b = node_addr G cfg x \<and> (i, x) \<in> ?R\<^sup>*" if "(a, b) \<in> (edge_rel G cfg)\<^sup>*" for b
    using that
  proof (induction rule: rtrancl_induct)
    case base
    then show ?case using i by blast
  next
    case (step b c)
    then obtain x where x: "b = node_addr G cfg x" "(i, x) \<in> ?R\<^sup>*" by blast
    obtain z where z: "get_node cfg c = Some z"
      using edge_rel_live [OF assms(2) step(2)] by blast
    then have "c = node_addr G cfg z" using cfg_invD(2) [OF assms(2) z] by simp
    moreover have "(x, z) \<in> ?R" using sa [of z x] z step(2) x calculation by simp
    ultimately show ?case using rtrancl_into_rtrancl [OF x(2), of z] by blast
  qed
  show "node_addr G cfg ` reach_nodes G cfg {i} = (edge_rel G cfg)\<^sup>* `` {a}"
    using fwd bwd by blast
  show "x \<in> reach_nodes G cfg {i} \<Longrightarrow> get_node cfg (node_addr G cfg x) = Some x"
    using fwd by blast
qed

text \<open>The contract of the traversal: an enumeration of the reachable blocks that starts with the
  entry and in which every other block has a predecessor before it.\<close>

definition rpo_ok :: "(u64 \<times> u64) set \<Rightarrow> u64 \<Rightarrow> u64 list \<Rightarrow> bool" where
  "rpo_ok E entry rpo \<longleftrightarrow>
     distinct rpo \<and> rpo \<noteq> [] \<and> hd rpo = entry \<and> set rpo = E\<^sup>* `` {entry} \<and>
     (\<forall>k < length rpo. 0 < k \<longrightarrow> (\<exists>j < k. (rpo ! j, rpo ! k) \<in> E))"

lemma parented_rev:
  "parented f I q \<Longrightarrow> k < length q \<Longrightarrow>
   rev q ! k \<in> I \<or> (\<exists>j < k. rev q ! k \<in> set (f (rev q ! j)))"
proof (induction q arbitrary: k)
  case (Cons x xs)
  show ?case
  proof (cases "k < length xs")
    case True
    have eq: "rev (x # xs) ! j = rev xs ! j" if "j \<le> k" for j
      using True that by (simp add: nth_append)
    have "rev xs ! k \<in> I \<or> (\<exists>j < k. rev xs ! k \<in> set (f (rev xs ! j)))"
      using Cons.IH [of k] Cons.prems True by simp
    then show ?thesis
    proof
      assume "\<exists>j < k. rev xs ! k \<in> set (f (rev xs ! j))"
      then obtain j where "j < k" "rev xs ! k \<in> set (f (rev xs ! j))" by blast
      then have "rev (x # xs) ! k \<in> set (f (rev (x # xs) ! j))" using eq [of k] eq [of j] by simp
      with \<open>j < k\<close> show ?thesis by blast
    qed (use eq [of k] in simp)
  next
    case False
    then have k: "k = length xs" using Cons.prems by simp
    have "x \<in> I \<or> (\<exists>j < length (rev xs). x \<in> set (f (rev xs ! j)))"
      using Cons.prems by (metis in_set_conv_nth parented.simps(2) set_rev)
    then show ?thesis unfolding k by (auto simp: nth_append)
  qed
qed simp

lemma reverse_postorder_ok:
  assumes "petgraph_ok G" "cfg_inv G cfg" "get_node cfg (cfg_entry cfg) = Some i"
  shows "rpo_ok (edge_rel G cfg) (cfg_entry cfg) (reverse_postorder G cfg)"
proof -
  let ?A = "node_addr G cfg" and ?R = "{(x, y). y \<in> set (succ_nodes G cfg x)}"
  obtain v' p' where r: "dfs_postorder G cfg {} [] [i] = (v', p')" by fastforce
  then obtain q where "dfs_ok G cfg {} [] [i] v' p' q"
    using dfs_postorder_ok [of G cfg "{}" "[]" "[i]"] by auto
  note d = dfs_okD [OF this, simplified]
  obtain v1 p1 where r1: "dfs_postorder G cfg {i} [] (succ_nodes G cfg i) = (v1, p1)" by fastforce
  have rpo: "reverse_postorder G cfg = rev (map ?A q)"
    using r d(1) by (simp add: reverse_postorder_def assms(3) del: dfs_postorder.simps)
  have last: "p' = p1 @ [?A i]" using r r1 by simp
  have sub: "set q \<subseteq> reach_nodes G cfg {i}" using d(8) by simp
  have closed: "x \<in> set q" if "(i, x) \<in> ?R\<^sup>*" for x
    using that
  proof (induction rule: rtrancl_induct)
    case (step y z)
    then show ?case using d(4,6) by blast
  qed (use d(4,5) in simp)
  have set_q: "set q = reach_nodes G cfg {i}" using sub closed by auto
  have inj: "inj_on ?A (set q)"
  proof (rule inj_onI)
    fix x y assume x: "x \<in> set q" and y: "y \<in> set q" and eq: "?A x = ?A y"
    have "Some x = get_node cfg (?A x)"
      by (rule reach_nodes_addr(2) [OF assms x [unfolded set_q], symmetric])
    also have "\<dots> = Some y"
      unfolding eq by (rule reach_nodes_addr(2) [OF assms y [unfolded set_q]])
    finally show "x = y" by (rule option.inject [THEN iffD1])
  qed
  have "set (reverse_postorder G cfg) = (edge_rel G cfg)\<^sup>* `` {cfg_entry cfg}"
    using reach_nodes_addr(1) [OF assms] by (simp add: rpo set_q)
  moreover have hd: "hd (reverse_postorder G cfg) = cfg_entry cfg" "reverse_postorder G cfg \<noteq> []"
    using last r cfg_invD(2) [OF assms(2,3)]
    by (simp_all add: reverse_postorder_def assms(3) del: dfs_postorder.simps)
  moreover have "distinct (reverse_postorder G cfg)" using d(2) inj by (simp add: rpo distinct_map)
  moreover have "\<exists>j < k. (reverse_postorder G cfg ! j, reverse_postorder G cfg ! k) \<in> edge_rel G cfg"
    if k: "k < length (reverse_postorder G cfg)" "0 < k" for k
  proof -
    have kq: "k < length q" using k rpo by simp
    have "rev q ! k \<noteq> i"
    proof
      assume "rev q ! k = i"
      then have "reverse_postorder G cfg ! k = reverse_postorder G cfg ! 0"
        using kq k hd cfg_invD(2) [OF assms(2,3)] by (simp add: rpo rev_map hd_conv_nth)
      then show False
        using \<open>distinct (reverse_postorder G cfg)\<close> k nth_eq_iff_index_eq [of _ k 0] by fastforce
    qed
    then obtain j where "j < k" "rev q ! k \<in> set (succ_nodes G cfg (rev q ! j))"
      using parented_rev [OF d(7) kq] by auto
    then show ?thesis
      using succ_nodes_addr [OF assms(1,2)] kq by (intro exI [of _ j]) (simp add: rpo rev_map)
  qed
  ultimately show ?thesis unfolding rpo_ok_def by blast
qed

end
