(* ===== verification/Dominance.thy ===== *)
theory Dominance
  imports Main
begin

text \<open>
  Dominators and chains of immediate dominators, independent of any representation: the paths of a
  graph from its root, dominance as a statement about all of them, and what one update of an
  immediate-dominator map does to the chains it spans. \<open>SSA_Domtree\<close> applies this to the
  iteration in \<open>r2ssa/src/domtree.rs\<close>.
\<close>

section \<open>Paths and dominance\<close>

text \<open>A path from the root \<open>r\<close>, the last node first.\<close>

inductive rpath :: "('a \<times> 'a) set \<Rightarrow> 'a \<Rightarrow> 'a list \<Rightarrow> bool" for E r where
  rpath_root: "rpath E r [r]"
| rpath_step: "rpath E r (u # us) \<Longrightarrow> (u, v) \<in> E \<Longrightarrow> rpath E r (v # u # us)"

inductive_simps rpath_Nil [simp]: "rpath E r []"
inductive_simps rpath_single [simp]: "rpath E r [v]"
inductive_simps rpath_Cons2 [simp]: "rpath E r (v # u # us)"
inductive_simps rpath_Cons: "rpath E r (v # us)"

definition dominates_in :: "('a \<times> 'a) set \<Rightarrow> 'a \<Rightarrow> 'a \<Rightarrow> 'a \<Rightarrow> bool" where
  "dominates_in E r x y \<longleftrightarrow> (\<forall>us. rpath E r (y # us) \<longrightarrow> x \<in> set (y # us))"

lemma rpath_suffix: "rpath E r (xs @ b # ys) \<Longrightarrow> rpath E r (b # ys)"
proof (induction xs)
  case (Cons x xs)
  then show ?case by (cases xs) (auto simp: rpath_Cons [of E r x])
qed simp

lemma rpath_reaches: "rpath E r us \<Longrightarrow> (r, hd us) \<in> E\<^sup>*"
  by (induction rule: rpath.induct) (auto intro: rtrancl_into_rtrancl)

lemma reaches_rpath: "(r, y) \<in> E\<^sup>* \<Longrightarrow> \<exists>us. rpath E r (y # us)"
  by (induction rule: rtrancl_induct) (auto intro: rpath.intros)

lemma rpath_extend:
  assumes "(b, y) \<in> R\<^sup>*" "R \<subseteq> E" "rpath E r (b # us)"
  shows "\<exists>vs. rpath E r (y # vs) \<and> set (y # vs) \<subseteq> set (b # us) \<union> {z. \<exists>w. (w, z) \<in> R}"
  using assms(1)
proof (induction rule: rtrancl_induct)
  case base
  then show ?case using assms(3) by blast
next
  case (step y z)
  then obtain vs where "rpath E r (y # vs)"
    "set (y # vs) \<subseteq> set (b # us) \<union> {z. \<exists>w. (w, z) \<in> R}" by blast
  with step(2) assms(2) show ?case by (intro exI [of _ "y # vs"]) (auto intro: rpath_step)
qed

lemma dominates_in_refl [simp]: "dominates_in E r x x"
  by (simp add: dominates_in_def)

lemma dominates_in_pred:
  assumes "dominates_in E r x y" "x \<noteq> y" "(p, y) \<in> E"
  shows "dominates_in E r x p"
  using assms unfolding dominates_in_def by (metis rpath_step set_ConsD list.set_intros(1,2))

lemma dominates_in_root: "dominates_in E r x r \<longleftrightarrow> x = r"
  unfolding dominates_in_def by (auto dest: spec [of _ "[]"] intro: rpath_root)

lemma dominates_in_preds:
  assumes "y \<noteq> r" "\<And>p. (p, y) \<in> E \<Longrightarrow> (r, p) \<in> E\<^sup>* \<Longrightarrow> dominates_in E r x p"
  shows "dominates_in E r x y"
  unfolding dominates_in_def
proof (intro allI impI)
  fix us assume "rpath E r (y # us)"
  with assms(1) obtain u us' where u: "us = u # us'" "rpath E r (u # us')" "(u, y) \<in> E"
    by (auto simp: rpath_Cons [of E r y])
  then have "dominates_in E r x u" using assms(2) rpath_reaches by fastforce
  with u show "x \<in> set (y # us)" unfolding dominates_in_def by auto
qed

text \<open>Paths of bounded length suffice to reach a node and to refute dominance.\<close>

lemma rpath_relpow: "rpath E r (y # us) \<Longrightarrow> (r, y) \<in> E ^^ length us"
proof (induction us arbitrary: y)
  case (Cons u us)
  then have "(r, u) \<in> E ^^ length us" "(u, y) \<in> E" by simp_all
  then show ?case by auto
qed simp

lemma relpow_rpath: "(r, y) \<in> E ^^ n \<Longrightarrow> \<exists>us. rpath E r (y # us) \<and> length us = n"
proof (induction n arbitrary: y)
  case (Suc n)
  then obtain u where "(r, u) \<in> E ^^ n" "(u, y) \<in> E" by auto
  then obtain us where "(u, y) \<in> E" "rpath E r (u # us)" "length us = n" using Suc.IH by blast
  then show ?case by (intro exI [of _ "u # us"]) (auto intro: rpath_step)
qed (auto intro: rpath_root)

lemma rpath_bounded:
  assumes "finite E" "rpath E r (y # us)"
  shows "\<exists>vs. rpath E r (y # vs) \<and> length vs \<le> card E"
proof (cases us)
  case Nil
  then show ?thesis using assms(2) by (intro exI [of _ "[]"]) auto
next
  case (Cons u us')
  then obtain m where "m \<le> card E" "(r, y) \<in> E ^^ m"
    using rpath_relpow [OF assms(2)] relpow_finite_bounded1 [OF assms(1), of "length us"] by auto
  then show ?thesis using relpow_rpath by metis
qed

lemma rpath_avoiding:
  "rpath {(u, v) \<in> E. u \<noteq> x \<and> v \<noteq> x} r (y # us) \<and> r \<noteq> x \<longleftrightarrow> rpath E r (y # us) \<and> x \<notin> set (y # us)"
  by (induction us arbitrary: y) auto

lemma rpath_avoiding_bounded:
  assumes "finite E" "\<not> dominates_in E r x y"
  shows "\<exists>us. rpath E r (y # us) \<and> x \<notin> set (y # us) \<and> length us \<le> card E"
proof -
  let ?F = "{(u, v) \<in> E. u \<noteq> x \<and> v \<noteq> x}"
  have fin: "finite ?F" "card ?F \<le> card E"
    using assms(1) by (auto intro: finite_subset [of _ E] card_mono)
  obtain us where "rpath E r (y # us)" "x \<notin> set (y # us)"
    using assms(2) unfolding dominates_in_def by blast
  then have p: "rpath ?F r (y # us)" "r \<noteq> x" using rpath_avoiding [of E x r y us] by blast+
  then obtain vs where "rpath ?F r (y # vs)" "length vs \<le> card ?F"
    using rpath_bounded [OF fin(1) p(1)] by blast
  with p(2) have "rpath E r (y # vs) \<and> x \<notin> set (y # vs)" using rpath_avoiding [of E x r y vs] by blast
  with \<open>length vs \<le> card ?F\<close> fin(2) show ?thesis by (meson le_trans)
qed

section \<open>Chains of immediate dominators\<close>

definition up :: "('a \<Rightarrow> 'a option) \<Rightarrow> ('a \<times> 'a) set" where
  "up I = {(u, v). I u = Some v}"

definition chain :: "('a \<Rightarrow> 'a option) \<Rightarrow> 'a \<Rightarrow> 'a set" where
  "chain I y = {x. (y, x) \<in> (up I)\<^sup>*}"

lemma chain_self [simp]: "y \<in> chain I y"
  by (simp add: chain_def)

lemma chain_unfold: "chain I y = insert y (case I y of Some d \<Rightarrow> chain I d | None \<Rightarrow> {})"
  by (auto simp: chain_def up_def elim: converse_rtranclE intro: converse_rtrancl_into_rtrancl
      split: option.splits)

lemma chain_trans: "x \<in> chain I y \<Longrightarrow> y \<in> chain I z \<Longrightarrow> x \<in> chain I z"
  by (auto simp: chain_def)

lemma chain_subset: "x \<in> chain I y \<Longrightarrow> chain I x \<subseteq> chain I y"
  using chain_trans by fast

text \<open>A map is well ranked when ranks fall strictly on the way to the root.\<close>

definition ranked_map :: "('a \<Rightarrow> nat) \<Rightarrow> 'a \<Rightarrow> ('a \<Rightarrow> 'a option) \<Rightarrow> bool" where
  "ranked_map ix r I \<longleftrightarrow>
     I r = Some r \<and>
     (\<forall>b d. I b = Some d \<longrightarrow> b \<noteq> r \<longrightarrow> ix d < ix b \<and> d \<in> dom I)"

lemma ranked_mapD:
  assumes "ranked_map ix r I"
  shows "I r = Some r" "I b = Some d \<Longrightarrow> b \<noteq> r \<Longrightarrow> ix d < ix b"
    and "I b = Some d \<Longrightarrow> d \<in> dom I"
  using assms unfolding ranked_map_def by (cases "b = r"; auto)+

lemma chain_root: "ranked_map ix r I \<Longrightarrow> chain I r = {r}"
proof -
  assume "ranked_map ix r I"
  then have "I r = Some r" by (rule ranked_mapD)
  have "x = r" if "(r, x) \<in> (up I)\<^sup>*" for x
    using that by (induction rule: rtrancl_induct) (use \<open>I r = Some r\<close> in \<open>auto simp: up_def\<close>)
  then show ?thesis by (auto simp: chain_def)
qed

lemma chain_dom:
  assumes "ranked_map ix r I" "y \<in> dom I" "x \<in> chain I y"
  shows "x \<in> dom I" "ix x \<le> ix y" "x \<noteq> y \<Longrightarrow> ix x < ix y"
proof -
  have "(y, x) \<in> (up I)\<^sup>*" using assms(3) by (simp add: chain_def)
  then have "x \<in> dom I \<and> ix x \<le> ix y \<and> (x \<noteq> y \<longrightarrow> ix x < ix y)"
  proof (induction rule: rtrancl_induct)
    case (step u v)
    then show ?case
      using ranked_mapD(1,3) [OF assms(1)] ranked_mapD(2) [OF assms(1), of u v]
      by (cases "u = r") (force simp: up_def)+
  qed (use assms(2) in simp)
  then show "x \<in> dom I" "ix x \<le> ix y" "x \<noteq> y \<Longrightarrow> ix x < ix y" by blast+
qed

lemma root_in_chain:
  assumes "ranked_map ix r I" "y \<in> dom I"
  shows "r \<in> chain I y"
  using assms(2)
proof (induction "ix y" arbitrary: y rule: less_induct)
  case less
  show ?case
  proof (cases "y = r")
    case False
    obtain d where d: "I y = Some d" using less.prems by blast
    then have "r \<in> chain I d"
      using less False ranked_mapD [OF assms(1)] by blast
    then show ?thesis using chain_unfold [of I y] d by auto
  qed simp
qed

text \<open>The chain of a node is linearly ordered, so membership below a rank can be decided from
  any later point of the chain.\<close>

lemma chain_linear:
  assumes "x \<in> chain I z" "y \<in> chain I z"
  shows "x \<in> chain I y \<or> y \<in> chain I x"
proof -
  have "(z, x) \<in> (up I)\<^sup>*" using assms(1) by (simp add: chain_def)
  then show ?thesis
  proof (induction rule: rtrancl_induct)
    case base
    then show ?case using assms(2) by (simp add: chain_def)
  next
    case (step u v)
    then show ?case
      using chain_unfold [of I u] by (auto simp: up_def chain_def intro: rtrancl_into_rtrancl)
  qed
qed

lemma chain_eq_imp_eq:
  assumes "ranked_map ix r I" "x \<in> dom I" "y \<in> dom I" "chain I x = chain I y"
  shows "x = y"
  using chain_dom(3) [OF assms(1,2), of y] chain_dom(3) [OF assms(1,3), of x] assms(4)
  by (metis chain_self less_asym)

section \<open>Updating one immediate dominator\<close>

lemma up_restrict: "b \<notin> chain I y \<Longrightarrow> chain (I(b \<mapsto> d)) y = chain I y"
proof -
  assume b: "b \<notin> chain I y"
  have "x \<in> chain I y" if "(y, x) \<in> (up (I(b \<mapsto> d)))\<^sup>*" for x
    using that b by (induction rule: rtrancl_induct)
      (auto simp: chain_def up_def split: if_splits intro: rtrancl_into_rtrancl)
  moreover have "(y, x) \<in> (up (I(b \<mapsto> d)))\<^sup>*" if "(y, x) \<in> (up I)\<^sup>*" for x
    using that
  proof (induction rule: rtrancl_induct)
    case (step u v)
    then have "u \<noteq> b" using b by (auto simp: chain_def)
    with step show ?case by (auto simp: up_def intro: rtrancl_into_rtrancl)
  qed simp
  ultimately show ?thesis by (auto simp: chain_def)
qed

text \<open>An update at \<open>b\<close> keeps the part of a chain below \<open>b\<close> and replaces what is above.\<close>

lemma chain_update:
  assumes "ranked_map ix r I" "y \<in> dom I" "b \<in> chain I y" "b \<notin> chain I d"
  shows "chain (I(b \<mapsto> d)) y = {x \<in> chain I y. ix b \<le> ix x} \<union> chain I d"
proof -
  have b: "chain (I(b \<mapsto> d)) b = insert b (chain I d)"
    using chain_unfold [of "I(b \<mapsto> d)" b] up_restrict [OF assms(4)] by simp
  have "(y, b) \<in> (up I)\<^sup>*" using assms(3) by (simp add: chain_def)
  then show ?thesis using assms(2)
  proof (induction rule: converse_rtrancl_induct)
    case base
    then have "{x \<in> chain I b. ix b \<le> ix x} = {b}"
      using chain_dom(3) [OF assms(1), of b] by force
    then show ?case unfolding b by blast
  next
    case (step u v)
    show ?case
    proof (cases "u = b")
      case True
      then have "{x \<in> chain I u. ix b \<le> ix x} = {b}"
        using chain_dom(3) [OF assms(1), of b] step.prems by force
      then show ?thesis unfolding True b by blast
    next
      case False
      have v: "I u = Some v" "v \<in> dom I" using step ranked_mapD(3) [OF assms(1)] by (auto simp: up_def)
      have "b \<in> chain I u" using step by (auto simp: chain_def)
      then have le: "ix b \<le> ix u" using chain_dom(2) [OF assms(1) step.prems] by blast
      have cu: "chain I u = insert u (chain I v)" using chain_unfold [of I u] v(1) by simp
      have "chain (I(b \<mapsto> d)) u = insert u (chain (I(b \<mapsto> d)) v)"
        using chain_unfold [of "I(b \<mapsto> d)" u] v(1) False by simp
      also have "\<dots> = insert u ({x \<in> chain I v. ix b \<le> ix x} \<union> chain I d)"
        by (simp only: step.IH [OF v(2)])
      also have "\<dots> = {x \<in> insert u (chain I v). ix b \<le> ix x} \<union> chain I d"
        using le by blast
      finally show ?thesis unfolding cu .
    qed
  qed
qed

lemma chain_update_self: "b \<notin> chain I d \<Longrightarrow> chain (I(b \<mapsto> d)) b = insert b (chain I d)"
  using chain_unfold [of "I(b \<mapsto> d)" b] up_restrict [of b I d d] by simp

section \<open>The iteration\<close>

text \<open>
  The invariant of the iteration: ranks fall along the map, a node is reached from the members of
  its chain without passing a node of smaller rank, and no dominator has been lost.
\<close>

definition edges_above :: "('a \<times> 'a) set \<Rightarrow> ('a \<Rightarrow> nat) \<Rightarrow> nat \<Rightarrow> ('a \<times> 'a) set" where
  "edges_above E ix k = {(u, v) \<in> E. k \<le> ix v}"

definition dom_inv :: "('a \<times> 'a) set \<Rightarrow> 'a \<Rightarrow> ('a \<Rightarrow> nat) \<Rightarrow> ('a \<Rightarrow> 'a option) \<Rightarrow> bool" where
  "dom_inv E r ix I \<longleftrightarrow>
     ranked_map ix r I \<and>
     (\<forall>y \<in> dom I. \<forall>x \<in> chain I y. (x, y) \<in> (edges_above E ix (ix x))\<^sup>*) \<and>
     (\<forall>y \<in> dom I. \<forall>x. dominates_in E r x y \<longrightarrow> x \<in> chain I y)"

lemma dom_invD:
  assumes "dom_inv E r ix I"
  shows "ranked_map ix r I"
    and "y \<in> dom I \<Longrightarrow> x \<in> chain I y \<Longrightarrow> (x, y) \<in> (edges_above E ix (ix x))\<^sup>*"
    and "y \<in> dom I \<Longrightarrow> dominates_in E r x y \<Longrightarrow> x \<in> chain I y"
  using assms unfolding dom_inv_def by blast+

text \<open>\<open>d\<close> is the meet of the chains of the processed predecessors of \<open>b\<close>, one of which comes
  before \<open>b\<close>.\<close>

definition meets_at :: "('a \<times> 'a) set \<Rightarrow> 'a \<Rightarrow> ('a \<Rightarrow> nat) \<Rightarrow> ('a \<Rightarrow> 'a option) \<Rightarrow> 'a \<Rightarrow> 'a \<Rightarrow> bool" where
  "meets_at E r ix I b d \<longleftrightarrow>
     b \<noteq> r \<and> d \<in> dom I \<and> (\<exists>p \<in> dom I. (p, b) \<in> E \<and> ix p < ix b) \<and>
     chain I d = (\<Inter>p \<in> {p \<in> dom I. (p, b) \<in> E}. chain I p)"

lemma meets_atD:
  assumes "dom_inv E r ix I" "meets_at E r ix I b d"
  shows "b \<noteq> r" "d \<in> dom I" "ix d < ix b" "b \<notin> chain I d"
    and "p \<in> dom I \<Longrightarrow> (p, b) \<in> E \<Longrightarrow> chain I d \<subseteq> chain I p"
    and "(\<And>p. p \<in> dom I \<Longrightarrow> (p, b) \<in> E \<Longrightarrow> x \<in> chain I p) \<Longrightarrow> x \<in> chain I d"
    and "\<exists>p \<in> dom I. (p, b) \<in> E \<and> ix p < ix b"
proof -
  note m = assms(2) [unfolded meets_at_def] and rm = dom_invD(1) [OF assms(1)]
  show "b \<noteq> r" "d \<in> dom I" "\<exists>p \<in> dom I. (p, b) \<in> E \<and> ix p < ix b" using m by blast+
  show sub: "chain I d \<subseteq> chain I p" if "p \<in> dom I" "(p, b) \<in> E" for p using m that by blast
  show "x \<in> chain I d" if "\<And>p. p \<in> dom I \<Longrightarrow> (p, b) \<in> E \<Longrightarrow> x \<in> chain I p" using m that by blast
  obtain p where p: "p \<in> dom I" "(p, b) \<in> E" "ix p < ix b" using m by blast
  have "d \<in> chain I p" using sub [OF p(1,2)] by auto
  then show "ix d < ix b" using chain_dom(2) [OF rm p(1)] p(3) by fastforce
  then show "b \<notin> chain I d" using chain_dom(2) [OF rm \<open>d \<in> dom I\<close>, of b] by auto
qed

lemma update_dominators:
  assumes "dom_inv E r ix I" "meets_at E r ix I b d" "y \<in> dom (I(b \<mapsto> d))" "dominates_in E r x y"
  shows "x \<in> chain (I(b \<mapsto> d)) y"
proof -
  note m = meets_atD [OF assms(1,2)] and inv = dom_invD [OF assms(1)]
  have at_b: "x \<in> insert b (chain I d)" if "dominates_in E r x b" for x
    using that m(6) inv(3) dominates_in_pred [OF that] by blast
  show ?thesis
  proof (cases "y = b")
    case True
    then show ?thesis using at_b assms(4) by (simp only: True chain_update_self [OF m(4)])
  next
    case False
    then have y: "y \<in> dom I" using assms(3) by simp
    then have x: "x \<in> chain I y" using inv(3) assms(4) by blast
    show ?thesis
    proof (cases "b \<in> chain I y \<and> ix x < ix b")
      case True
      have "dominates_in E r x b"
        unfolding dominates_in_def
      proof (intro allI impI)
        fix us assume "rpath E r (b # us)"
        moreover have "(b, y) \<in> (edges_above E ix (ix b))\<^sup>*" using inv(2) y True by blast
        ultimately obtain vs where "rpath E r (y # vs)"
          "set (y # vs) \<subseteq> set (b # us) \<union> {z. \<exists>w. (w, z) \<in> edges_above E ix (ix b)}"
          using rpath_extend [of b y "edges_above E ix (ix b)" E r us]
          by (force simp: edges_above_def)
        moreover from this have "x \<in> set (y # vs)" using assms(4) unfolding dominates_in_def by blast
        ultimately show "x \<in> set (b # us)" using True by (auto simp: edges_above_def)
      qed
      then have "x \<in> chain I d" using at_b True by blast
      then show ?thesis using chain_update [OF inv(1) y _ m(4)] True by blast
    next
      case False
      then show ?thesis
        using x chain_update [OF inv(1) y _ m(4)] up_restrict [of b I y d] by (cases "b \<in> chain I y") auto
    qed
  qed
qed

lemma update_reaches:
  assumes "dom_inv E r ix I" "meets_at E r ix I b d" "y \<in> dom (I(b \<mapsto> d))" "x \<in> chain (I(b \<mapsto> d)) y"
  shows "(x, y) \<in> (edges_above E ix (ix x))\<^sup>*"
proof -
  note m = meets_atD [OF assms(1,2)] and inv = dom_invD [OF assms(1)]
  have above: "(x, b) \<in> (edges_above E ix (ix x))\<^sup>*" if x: "x \<in> chain I d" for x
  proof -
    obtain p where p: "p \<in> dom I" "(p, b) \<in> E" "ix p < ix b" using m(7) by blast
    have "x \<in> chain I p" using m(5) p x by blast
    then have "(x, p) \<in> (edges_above E ix (ix x))\<^sup>*" "ix x \<le> ix p"
      using inv(2) p(1) chain_dom(2) [OF inv(1) p(1)] by blast+
    moreover have "(p, b) \<in> edges_above E ix (ix x)" using p calculation(2) by (simp add: edges_above_def)
    ultimately show ?thesis by (meson rtrancl_into_rtrancl)
  qed
  have mono: "(edges_above E ix k)\<^sup>* \<subseteq> (edges_above E ix j)\<^sup>*" if "j \<le> k" for j k
    using that by (intro rtrancl_mono) (auto simp: edges_above_def)
  show ?thesis
  proof (cases "y = b")
    case True
    then have "x \<in> insert b (chain I d)" using assms(4) by (simp only: True chain_update_self [OF m(4)])
    then show ?thesis using above True by blast
  next
    case False
    then have y: "y \<in> dom I" using assms(3) by simp
    show ?thesis
    proof (cases "x \<in> chain I y")
      case True
      then show ?thesis using inv(2) y by blast
    next
      case False
      then have b: "b \<in> chain I y" using assms(4) up_restrict [of b I y d] by auto
      then have x: "x \<in> chain I d" using assms(4) chain_update [OF inv(1) y b m(4)] False by auto
      have "ix x \<le> ix b" using chain_dom(2) [OF inv(1) m(2) x] m(3) by simp
      then have "(b, y) \<in> (edges_above E ix (ix x))\<^sup>*" using inv(2) [OF y b] mono by blast
      with above [OF x] show ?thesis by simp
    qed
  qed
qed

lemma dom_inv_update:
  assumes "dom_inv E r ix I" "meets_at E r ix I b d"
  shows "dom_inv E r ix (I(b \<mapsto> d))"
proof -
  note m = meets_atD [OF assms] and rm = dom_invD(1) [OF assms(1)]
  have "ranked_map ix r (I(b \<mapsto> d))"
    using rm m(1,2,3) unfolding ranked_map_def by auto
  then show ?thesis
    using update_dominators [OF assms] update_reaches [OF assms] unfolding dom_inv_def by blast
qed

section \<open>Progress\<close>

text \<open>A path is covered when it contains the chain of its last node; what all paths cover is a
  dominator. Updates keep a suffix-closed set of paths covered, and an update at \<open>b\<close> covers the
  extensions to \<open>b\<close>.\<close>

definition covered :: "('a \<Rightarrow> 'a option) \<Rightarrow> 'a list \<Rightarrow> bool" where
  "covered I us \<longleftrightarrow> us \<noteq> [] \<and> hd us \<in> dom I \<and> chain I (hd us) \<subseteq> set us"

definition suffix_closed :: "'a list set \<Rightarrow> bool" where
  "suffix_closed F \<longleftrightarrow> (\<forall>v u us. v # u # us \<in> F \<longrightarrow> u # us \<in> F)"

lemma suffix_closedD: "suffix_closed F \<Longrightarrow> xs @ b # ys \<in> F \<Longrightarrow> b # ys \<in> F"
proof (induction xs)
  case (Cons x xs)
  then show ?case by (cases xs) (auto simp: suffix_closed_def)
qed simp

lemma covered_update:
  assumes "dom_inv E r ix I" "meets_at E r ix I b d"
    and F: "suffix_closed F" "\<forall>us \<in> F. rpath E r us \<and> covered I us" and us: "us \<in> F"
  shows "covered (I(b \<mapsto> d)) us"
proof -
  note m = meets_atD [OF assms(1,2)] and rm = dom_invD(1) [OF assms(1)]
  have c: "rpath E r us" "us \<noteq> []" "hd us \<in> dom I" "chain I (hd us) \<subseteq> set us"
    using F(2) us by (auto simp: covered_def)
  then obtain y ys where y: "us = y # ys" "rpath E r (y # ys)" "y \<in> dom I" "chain I y \<subseteq> set us"
    by (cases us) auto
  show ?thesis
  proof (cases "b \<in> chain I y")
    case False
    then show ?thesis using y up_restrict [OF False, of d] by (simp add: covered_def)
  next
    case True
    then obtain xs zs where us': "us = xs @ b # zs" using y(4) by (meson split_list subsetD)
    then have "b # zs \<in> F" using suffix_closedD F(1) us by metis
    then have "rpath E r (b # zs)" using F(2) by blast
    then obtain p ps where p: "zs = p # ps" "(p, b) \<in> E" using m(1) by (auto simp: rpath_Cons [of E r b])
    then have "covered I zs" using F \<open>b # zs \<in> F\<close> by (auto simp: suffix_closed_def)
    then have "chain I d \<subseteq> set zs" using m(5) p by (force simp: covered_def)
    then have "chain (I(b \<mapsto> d)) y \<subseteq> set us"
      using chain_update [OF rm y(3) True m(4)] y(4) us' by auto
    then show ?thesis using y by (simp add: covered_def)
  qed
qed

lemma covered_extend:
  assumes "dom_inv E r ix I" "meets_at E r ix I b d" "covered I (u # us)" "(u, b) \<in> E"
  shows "covered (I(b \<mapsto> d)) (b # u # us)"
proof -
  note m = meets_atD [OF assms(1,2)]
  have "chain I d \<subseteq> set (u # us)" using m(5) assms(3,4) by (force simp: covered_def)
  then have "insert b (chain I d) \<subseteq> set (b # u # us)" by auto
  then show ?thesis unfolding covered_def by (simp add: chain_update_self [OF m(4)])
qed

lemma covered_root: "ranked_map ix r I \<Longrightarrow> covered I (r # us)"
  using ranked_mapD(1) [of ix r I] chain_root [of ix r I] by (auto simp: covered_def)

text \<open>When all paths up to the bound are covered, the chains are the dominators.\<close>

lemma covered_dominators:
  assumes "dom_inv E r ix I" "finite E" "y \<in> dom I"
    and "\<forall>us. rpath E r us \<longrightarrow> length us \<le> Suc (card E) \<longrightarrow> covered I us"
  shows "x \<in> chain I y \<longleftrightarrow> dominates_in E r x y"
proof
  assume x: "x \<in> chain I y"
  show "dominates_in E r x y"
  proof (rule ccontr)
    assume "\<not> dominates_in E r x y"
    then obtain us where "rpath E r (y # us)" "x \<notin> set (y # us)" "length us \<le> card E"
      using rpath_avoiding_bounded [OF assms(2)] by blast
    then show False using assms(4) x by (force simp: covered_def)
  qed
qed (use dom_invD(3) [OF assms(1,3)] in blast)

text \<open>At a node whose chain and whose predecessors' chains are right, an update changes nothing.\<close>

lemma meets_at_fixed:
  assumes "dom_inv E r ix I" "meets_at E r ix I b d" "I b = Some d'"
    and "\<forall>p. (p, b) \<in> E \<longrightarrow> (r, p) \<in> E\<^sup>* \<longrightarrow> p \<in> dom I"
    and "\<forall>y \<in> dom I. \<forall>x. x \<in> chain I y \<longleftrightarrow> dominates_in E r x y"
  shows "d' = d"
proof -
  note m = meets_atD [OF assms(1,2)] and rm = dom_invD(1) [OF assms(1)]
  have d': "d' \<in> dom I" "ix d' < ix b" using ranked_mapD(2,3) [OF rm assms(3)] m(1) by auto
  have b: "b \<notin> chain I d'" using chain_dom(2) [OF rm d'(1), of b] d'(2) by auto
  have cb: "chain I b = insert b (chain I d')" using chain_unfold [of I b] assms(3) by simp
  have "chain I d' = chain I d"
  proof (intro set_eqI iffI)
    fix x assume x: "x \<in> chain I d'"
    then have "dominates_in E r x b" "x \<noteq> b" using cb assms(3,5) b by auto
    then show "x \<in> chain I d" using m(6) assms(5) dominates_in_pred by metis
  next
    fix x assume x: "x \<in> chain I d"
    then have "dominates_in E r x p" if "(p, b) \<in> E" "(r, p) \<in> E\<^sup>*" for p
      using assms(4,5) m(5) that by blast
    then have "x \<in> chain I b" using dominates_in_preds [OF m(1)] assms(3,5) by blast
    then show "x \<in> chain I d'" using cb m(4) x by auto
  qed
  then show ?thesis using chain_eq_imp_eq [OF rm d'(1) m(2)] by blast
qed

end
