(* ===== verification/SSA_Domtree.thy ===== *)
theory SSA_Domtree
  imports SSA_Cfg Dominance
begin

text \<open>
  The dominator tree: \<open>r2ssa/src/domtree.rs\<close>.

  The loops whose termination depends on the data (\<open>intersect\<close>, the outer \<open>while changed\<close>, the
  walks over the tree) are partial functions into \<open>option\<close>; the theorems show that they return.
  \<open>compute_depths\<close> recurses along the children and carries fuel. \<open>usize\<close> is 64 bits wide.
\<close>

section \<open>Immediate dominators\<close>

type_synonym idom_map = "(u64, u64) hashmap"

record DomTree =
  dt_entry :: u64
  dt_idom :: idom_map
  dt_children :: "(u64, u64 list) hashmap"
  dt_frontier :: "(u64, u64 set) hashmap"
  dt_depth :: "(u64, nat) hashmap"

definition usize_max :: nat where
  "usize_max = 2 ^ 64 - 1"

text \<open>\<open>rpo_idx.get(&b).copied().unwrap_or(usize::MAX)\<close>\<close>

definition rpo_index :: "(u64, nat) hashmap \<Rightarrow> u64 \<Rightarrow> nat" where
  "rpo_index rpo_idx b = (case hm_get rpo_idx b of Some i \<Rightarrow> i | None \<Rightarrow> usize_max)"

definition build_rpo_idx :: "u64 list \<Rightarrow> (u64, nat) hashmap" where
  "build_rpo_idx rpo = foldl (\<lambda>m (i, addr). hm_insert addr i m) [] (enumerate 0 rpo)"

text \<open>The inner loops of \<open>intersect\<close>: climb from \<open>b\<close>, whose index is \<open>i\<close>, while \<open>i > j\<close>.\<close>

function climb :: "idom_map \<Rightarrow> (u64, nat) hashmap \<Rightarrow> u64 \<Rightarrow> nat \<Rightarrow> nat \<Rightarrow> u64" where
  "climb idom rpo_idx b i j =
     (if i > j then
        (case hm_get idom b of
           Some d \<Rightarrow>
             if d \<noteq> b then
               (let new_i = rpo_index rpo_idx d
                in if new_i \<ge> i then d else climb idom rpo_idx d new_i j)
             else b
         | None \<Rightarrow> b)
      else b)"
  by pat_completeness auto
termination
  by (relation "measure (\<lambda>(idom, rpo_idx, b, i, j). i)") auto

declare climb.simps [simp del]

partial_function (option) dom_intersect ::
  "idom_map \<Rightarrow> (u64, nat) hashmap \<Rightarrow> u64 \<Rightarrow> u64 \<Rightarrow> u64 option"
where
  "dom_intersect idom rpo_idx b1 b2 =
     (if b1 \<noteq> b2 then
        (let idx1 = rpo_index rpo_idx b1;
             idx2 = rpo_index rpo_idx b2;
             c1 = climb idom rpo_idx b1 idx1 idx2;
             c2 = climb idom rpo_idx b2 idx2 (rpo_index rpo_idx c1)
         in if c1 = c2 then Some c1
            else if rpo_index rpo_idx c1 = rpo_index rpo_idx c2 then Some c1
            else dom_intersect idom rpo_idx c1 c2)
      else Some b1)"

text \<open>The loop that intersects the processed predecessors of a block.\<close>

fun merge_preds :: "idom_map \<Rightarrow> (u64, nat) hashmap \<Rightarrow> u64 list \<Rightarrow> u64 \<Rightarrow> u64 option" where
  "merge_preds idom rpo_idx [] new_idom = Some new_idom"
| "merge_preds idom rpo_idx (pred # preds) new_idom =
     (if pred = new_idom then merge_preds idom rpo_idx preds new_idom
      else if hm_get idom pred \<noteq> None then
        Option.bind (dom_intersect idom rpo_idx pred new_idom) (merge_preds idom rpo_idx preds)
      else merge_preds idom rpo_idx preds new_idom)"

text \<open>The body of the loop over the reverse postorder; the flag is \<open>changed\<close>.\<close>

definition idom_step ::
  "(u64 \<Rightarrow> u64 list) \<Rightarrow> (u64, nat) hashmap \<Rightarrow> u64 \<Rightarrow> idom_map \<times> bool \<Rightarrow> (idom_map \<times> bool) option"
where
  "idom_step preds_of rpo_idx block st =
     (let (idom, changed) = st; preds = preds_of block in
      case find (\<lambda>p. hm_get idom p \<noteq> None) preds of
        None \<Rightarrow> Some (idom, changed)
      | Some p \<Rightarrow>
          Option.bind (merge_preds idom rpo_idx preds p) (\<lambda>new_idom.
            if hm_get idom block \<noteq> Some new_idom
            then Some (hm_insert block new_idom idom, True)
            else Some (idom, changed)))"

fun idom_pass ::
  "(u64 \<Rightarrow> u64 list) \<Rightarrow> (u64, nat) hashmap \<Rightarrow> u64 list \<Rightarrow> idom_map \<times> bool \<Rightarrow> (idom_map \<times> bool) option"
where
  "idom_pass preds_of rpo_idx [] st = Some st"
| "idom_pass preds_of rpo_idx (b # bs) st =
     Option.bind (idom_step preds_of rpo_idx b st) (idom_pass preds_of rpo_idx bs)"

partial_function (option) idom_loop ::
  "(u64 \<Rightarrow> u64 list) \<Rightarrow> (u64, nat) hashmap \<Rightarrow> u64 list \<Rightarrow> idom_map \<Rightarrow> idom_map option"
where
  "idom_loop preds_of rpo_idx bs idom =
     Option.bind (idom_pass preds_of rpo_idx bs (idom, False)) (\<lambda>st.
       if snd st then idom_loop preds_of rpo_idx bs (fst st) else Some (fst st))"

section \<open>The tree\<close>

definition push_child :: "(u64, u64 list) hashmap \<Rightarrow> u64 \<times> u64 \<Rightarrow> (u64, u64 list) hashmap" where
  "push_child m bd =
     (let (block, d) = bd in
      if block \<noteq> d
      then hm_insert d ((case hm_get m d of Some cs \<Rightarrow> cs | None \<Rightarrow> []) @ [block]) m
      else m)"

definition build_children :: "idom_map \<Rightarrow> (u64, u64 list) hashmap" where
  "build_children idom = map (\<lambda>(d, cs). (d, sort cs)) (foldl push_child [] idom)"

definition children_of :: "(u64, u64 list) hashmap \<Rightarrow> u64 \<Rightarrow> u64 list" where
  "children_of m block = (case hm_get m block of Some cs \<Rightarrow> cs | None \<Rightarrow> [])"

text \<open>\<open>compute_depths\<close> on each block of a list; \<open>None\<close> is out of fuel.\<close>

fun compute_depths ::
  "nat \<Rightarrow> (u64, u64 list) hashmap \<Rightarrow> u64 list \<Rightarrow> nat \<Rightarrow> (u64, nat) hashmap \<Rightarrow> (u64, nat) hashmap option"
where
  "compute_depths fuel children [] depth m = Some m"
| "compute_depths 0 children (block # blocks) depth m = None"
| "compute_depths (Suc fuel) children (block # blocks) depth m =
     Option.bind (compute_depths fuel children (children_of children block) (depth + 1)
                    (hm_insert block depth m))
       (compute_depths (Suc fuel) children blocks depth)"

section \<open>Frontiers\<close>

definition frontier_insert :: "u64 \<Rightarrow> u64 \<Rightarrow> (u64, u64 set) hashmap \<Rightarrow> (u64, u64 set) hashmap" where
  "frontier_insert runner addr m =
     hm_insert runner (insert addr (case hm_get m runner of Some s \<Rightarrow> s | None \<Rightarrow> {})) m"

text \<open>The walk of \<open>runner\<close> up the tree until the immediate dominator of \<open>addr\<close>.\<close>

partial_function (option) frontier_walk ::
  "idom_map \<Rightarrow> u64 \<Rightarrow> u64 \<Rightarrow> (u64, u64 set) hashmap \<Rightarrow> (u64, u64 set) hashmap option"
where
  "frontier_walk idom addr runner m =
     (if runner \<noteq> (case hm_get idom addr of Some d \<Rightarrow> d | None \<Rightarrow> addr) then
        (let m1 = frontier_insert runner addr m in
         case hm_get idom runner of
           Some d \<Rightarrow> if d \<noteq> runner then frontier_walk idom addr d m1 else Some m1
         | None \<Rightarrow> Some m1)
      else Some m)"

fun frontier_preds ::
  "idom_map \<Rightarrow> u64 \<Rightarrow> u64 list \<Rightarrow> (u64, u64 set) hashmap \<Rightarrow> (u64, u64 set) hashmap option"
where
  "frontier_preds idom addr [] m = Some m"
| "frontier_preds idom addr (p # ps) m =
     Option.bind (frontier_walk idom addr p m) (frontier_preds idom addr ps)"

fun frontier_blocks ::
  "(u64 \<Rightarrow> u64 list) \<Rightarrow> idom_map \<Rightarrow> u64 list \<Rightarrow> (u64, u64 set) hashmap \<Rightarrow> (u64, u64 set) hashmap option"
where
  "frontier_blocks preds_of idom [] m = Some m"
| "frontier_blocks preds_of idom (addr # addrs) m =
     Option.bind
       (if length (preds_of addr) \<ge> 2 then frontier_preds idom addr (preds_of addr) m else Some m)
       (frontier_blocks preds_of idom addrs)"

definition compute_frontiers ::
  "'g petgraph \<Rightarrow> 'g CFG \<Rightarrow> idom_map \<Rightarrow> (u64, u64 set) hashmap option" where
  "compute_frontiers G cfg idom =
     frontier_blocks (cfg_predecessors G cfg) idom (block_addrs cfg)
       (foldl (\<lambda>m addr. hm_insert addr {} m) [] (block_addrs cfg))"

section \<open>Computing the tree\<close>

definition dom_compute :: "'g petgraph \<Rightarrow> 'g CFG \<Rightarrow> DomTree option" where
  "dom_compute G cfg =
     (let rpo = reverse_postorder G cfg;
          entry = cfg_entry cfg;
          empty = \<lparr>dt_entry = entry, dt_idom = [], dt_children = [], dt_frontier = [], dt_depth = []\<rparr>
      in
      if rpo = [] then Some empty
      else
        Option.bind (idom_loop (cfg_predecessors G cfg) (build_rpo_idx rpo) (drop 1 rpo) [(entry, entry)])
          (\<lambda>idom. let children = build_children idom in
            Option.bind (compute_depths (length idom + 1) children [entry] 0 []) (\<lambda>depth.
            Option.bind (compute_frontiers G cfg idom) (\<lambda>frontier.
              Some \<lparr>dt_entry = entry, dt_idom = idom, dt_children = children,
                    dt_frontier = frontier, dt_depth = depth\<rparr>))))"

section \<open>Queries\<close>

definition dt_idom_of :: "DomTree \<Rightarrow> u64 \<Rightarrow> u64 option" where
  "dt_idom_of dt block =
     (case hm_get (dt_idom dt) block of
        Some d \<Rightarrow> if d \<noteq> block then Some d else None
      | None \<Rightarrow> None)"

definition dt_children_of :: "DomTree \<Rightarrow> u64 \<Rightarrow> u64 list" where
  "dt_children_of dt block = children_of (dt_children dt) block"

definition dt_frontier_of :: "DomTree \<Rightarrow> u64 \<Rightarrow> u64 list" where
  "dt_frontier_of dt block =
     sorted_list_of_set (case hm_get (dt_frontier dt) block of Some s \<Rightarrow> s | None \<Rightarrow> {})"

definition dt_depth_of :: "DomTree \<Rightarrow> u64 \<Rightarrow> nat" where
  "dt_depth_of dt block = (case hm_get (dt_depth dt) block of Some d \<Rightarrow> d | None \<Rightarrow> 0)"

partial_function (option) dominates_walk :: "DomTree \<Rightarrow> u64 \<Rightarrow> u64 \<Rightarrow> bool option" where
  "dominates_walk dt a current =
     (case dt_idom_of dt current of
        Some d \<Rightarrow> if d = a then Some True else dominates_walk dt a d
      | None \<Rightarrow> Some False)"

definition dt_dominates :: "DomTree \<Rightarrow> u64 \<Rightarrow> u64 \<Rightarrow> bool option" where
  "dt_dominates dt a b = (if a = b then Some True else dominates_walk dt a b)"

definition strictly_dominates :: "DomTree \<Rightarrow> u64 \<Rightarrow> u64 \<Rightarrow> bool option" where
  "strictly_dominates dt a b = (if a \<noteq> b then dt_dominates dt a b else Some False)"

text \<open>The worklists are stacks whose top is the head of the list.\<close>

partial_function (option) dominated_loop :: "DomTree \<Rightarrow> u64 list \<Rightarrow> u64 list \<Rightarrow> u64 list option" where
  "dominated_loop dt stack result =
     (case stack of
        [] \<Rightarrow> Some result
      | current # rest \<Rightarrow>
          dominated_loop dt (rev (dt_children_of dt current) @ rest) (result @ dt_children_of dt current))"

definition dominated_by :: "DomTree \<Rightarrow> u64 \<Rightarrow> u64 list option" where
  "dominated_by dt block = dominated_loop dt [block] [block]"

partial_function (option) preorder_loop :: "DomTree \<Rightarrow> u64 list \<Rightarrow> u64 list \<Rightarrow> u64 list option" where
  "preorder_loop dt stack result =
     (case stack of
        [] \<Rightarrow> Some result
      | current # rest \<Rightarrow> preorder_loop dt (dt_children_of dt current @ rest) (result @ [current]))"

definition dom_preorder :: "DomTree \<Rightarrow> u64 list option" where
  "dom_preorder dt = preorder_loop dt [dt_entry dt] []"

text \<open>The inner loop of \<open>iterated_frontier\<close> inserts and pushes; the blocks come in descending
  order, so the smallest ends on top.\<close>

fun frontier_push :: "u64 list \<Rightarrow> u64 set \<Rightarrow> u64 list \<Rightarrow> u64 set \<times> u64 list" where
  "frontier_push [] result worklist = (result, worklist)"
| "frontier_push (f # fs) result worklist =
     (if f \<notin> result then frontier_push fs (insert f result) (f # worklist)
      else frontier_push fs result worklist)"

partial_function (option) iterated_loop ::
  "DomTree \<Rightarrow> u64 list \<Rightarrow> u64 set \<Rightarrow> u64 set \<Rightarrow> u64 set option"
where
  "iterated_loop dt worklist processed result =
     (case worklist of
        [] \<Rightarrow> Some result
      | block # rest \<Rightarrow>
          if block \<in> processed then iterated_loop dt rest processed result
          else (let rw = frontier_push (rev (sort (dt_frontier_of dt block))) result rest
                in iterated_loop dt (snd rw) (insert block processed) (fst rw)))"

definition iterated_frontier :: "DomTree \<Rightarrow> u64 list \<Rightarrow> u64 set option" where
  "iterated_frontier dt blocks = iterated_loop dt (sort blocks) {} {}"

end
