(* ===== verification/SSA_Cfg_Build.thy ===== *)
theory SSA_Cfg_Build
  imports SSA_Cfg
begin

text \<open>
  Building and editing the control flow graph: what \<open>from_blocks\<close> connects, what
  \<open>remove_edge\<close>, \<open>remove_block\<close> and \<open>set_terminator\<close> do to the edges, and a concrete graph
  container on which the documented laws of petgraph hold.
\<close>

section \<open>The first pass: nodes\<close>

text \<open>The block an address stands for is the last one given for it.\<close>

definition block_at :: "R2ILBlock list \<Rightarrow> u64 \<Rightarrow> R2ILBlock option" where
  "block_at bs a = find (\<lambda>b. rb_addr b = a) (rev bs)"

lemma block_at_snoc:
  "block_at (bs @ [b]) a = (if rb_addr b = a then Some b else block_at bs a)"
  by (simp add: block_at_def)

lemma block_at_None: "block_at bs a = None \<longleftrightarrow> a \<notin> rb_addr ` set bs"
  by (auto simp: block_at_def find_None_iff)

definition nodes_of :: "'g petgraph \<Rightarrow> u64 \<Rightarrow> R2ILBlock list \<Rightarrow> 'g CFG" where
  "nodes_of G e bs = foldl (\<lambda>cfg b. add_block G cfg (bb_from_r2il b)) (cfg_new G e) bs"

lemma nodes_of_snoc: "nodes_of G e (bs @ [b]) = add_block G (nodes_of G e bs) (bb_from_r2il b)"
  by (simp add: nodes_of_def)

lemma add_block_obs:
  assumes "petgraph_ok G"
  shows "pg_nodes G (cfg_graph (add_block G cfg b)) = pg_nodes G (cfg_graph cfg) @ [b]"
    and "pg_edges G (cfg_graph (add_block G cfg b)) = pg_edges G (cfg_graph cfg)"
    and "get_node (add_block G cfg b) a =
           (if a = bb_addr b then Some (length (pg_nodes G (cfg_graph cfg))) else get_node cfg a)"
    and "cfg_entry (add_block G cfg b) = cfg_entry cfg"
    and "hm_ok (cfg_addr_to_node cfg) \<Longrightarrow> hm_ok (cfg_addr_to_node (add_block G cfg b))"
  using petgraph_okD(3-5) [OF assms, of "cfg_graph cfg" b]
  by (simp_all add: add_block_def split_beta Let_def get_node_def hm_get_insert hm_ok_insert)

lemma bb_addr_from_r2il [simp]: "bb_addr (bb_from_r2il b) = rb_addr b"
  by (simp add: bb_from_r2il_def)

lemma nodes_of_obs:
  assumes "petgraph_ok G"
  shows "pg_nodes G (cfg_graph (nodes_of G e bs)) = map bb_from_r2il bs \<and>
    pg_edges G (cfg_graph (nodes_of G e bs)) = [] \<and> cfg_entry (nodes_of G e bs) = e \<and>
    hm_ok (cfg_addr_to_node (nodes_of G e bs)) \<and>
    (\<forall>a. case get_node (nodes_of G e bs) a of
       Some i \<Rightarrow> i < length bs \<and> rb_addr (bs ! i) = a \<and> block_at bs a = Some (bs ! i)
     | None \<Rightarrow> block_at bs a = None)"
proof (induction bs rule: rev_induct)
  case Nil
  then show ?case
    by (simp add: nodes_of_def cfg_new_def petgraph_okD [OF assms] hm_ok_def get_node_def
        hm_get_def block_at_def)
next
  case (snoc b bs)
  then show ?case
    by (auto simp: nodes_of_snoc add_block_obs [OF assms] block_at_snoc nth_append
        split: option.splits) (metis option.distinct(1) option.inject)+
qed

section \<open>The second pass: edges\<close>

text \<open>Linking changes neither the nodes nor the address map; it appends the edges to existing
  targets.\<close>

definition live_edges :: "'g CFG \<Rightarrow> nat \<Rightarrow> (u64 \<times> CFGEdge) list \<Rightarrow> (nat \<times> nat \<times> CFGEdge) list" where
  "live_edges cfg i tes =
     List.map_filter (\<lambda>(a, w). map_option (\<lambda>j. (i, j, w)) (get_node cfg a)) tes"

definition same_nodes :: "'g petgraph \<Rightarrow> 'g CFG \<Rightarrow> 'g CFG \<Rightarrow> bool" where
  "same_nodes G cfg cfg' \<longleftrightarrow>
     pg_nodes G (cfg_graph cfg') = pg_nodes G (cfg_graph cfg) \<and>
     cfg_addr_to_node cfg' = cfg_addr_to_node cfg \<and> cfg_entry cfg' = cfg_entry cfg"

lemma same_nodesD:
  assumes "same_nodes G cfg cfg'"
  shows "pg_nodes G (cfg_graph cfg') = pg_nodes G (cfg_graph cfg)" "get_node cfg' = get_node cfg"
    and "cfg_entry cfg' = cfg_entry cfg" "node_addr G cfg' = node_addr G cfg"
    and "block_addrs cfg' = block_addrs cfg"
  using assms
  by (auto simp: same_nodes_def get_node_def [abs_def] node_addr_def [abs_def] block_addrs_def)

definition targets_ok :: "'g petgraph \<Rightarrow> 'g CFG \<Rightarrow> bool" where
  "targets_ok G cfg \<longleftrightarrow>
     (\<forall>a i. get_node cfg a = Some i \<longrightarrow>
        i < length (pg_nodes G (cfg_graph cfg)) \<and> node_addr G cfg i = a)"

lemma targets_ok_same: "same_nodes G cfg cfg' \<Longrightarrow> targets_ok G cfg \<Longrightarrow> targets_ok G cfg'"
  using same_nodesD unfolding targets_ok_def by metis

text \<open>Edges described by the addresses they join, and not by node indices.\<close>

lemma edges_by_targets:
  assumes t: "targets_ok G cfg" and h: "hm_ok (cfg_addr_to_node cfg)"
    and E: "\<And>s j w. (s, j, w) \<in> set (pg_edges G (cfg_graph cfg)) \<longleftrightarrow>
      (\<exists>a b. get_node cfg a = Some s \<and> get_node cfg b = Some j \<and> Q a b w)"
  shows "cfg_inv G cfg"
    and "(a, b) \<in> edge_rel G cfg \<longleftrightarrow>
      get_node cfg a \<noteq> None \<and> get_node cfg b \<noteq> None \<and> (\<exists>w. Q a b w)"
proof -
  have live: "live_node G cfg i" if "get_node cfg x = Some i" for x i
    using that t by (simp add: live_node_def targets_ok_def)
  have addr: "node_addr G cfg i = x" if "get_node cfg x = Some i" for x i
    using that t by (simp add: targets_ok_def)
  have "live_node G cfg s \<and> live_node G cfg j" if "(s, j, w) \<in> set (pg_edges G (cfg_graph cfg))" for s j w
    using that live unfolding E by blast
  then show "cfg_inv G cfg" using t h unfolding cfg_inv_def targets_ok_def by blast
  show "(a, b) \<in> edge_rel G cfg \<longleftrightarrow>
      get_node cfg a \<noteq> None \<and> get_node cfg b \<noteq> None \<and> (\<exists>w. Q a b w)"
  proof
    assume "(a, b) \<in> edge_rel G cfg"
    then obtain s j w x y where "a = node_addr G cfg s" "b = node_addr G cfg j"
      "get_node cfg x = Some s" "get_node cfg y = Some j" "Q x y w"
      unfolding edge_rel_def E by blast
    then show "get_node cfg a \<noteq> None \<and> get_node cfg b \<noteq> None \<and> (\<exists>w. Q a b w)"
      using addr by blast
  next
    assume "get_node cfg a \<noteq> None \<and> get_node cfg b \<noteq> None \<and> (\<exists>w. Q a b w)"
    then obtain s j w where "get_node cfg a = Some s" "get_node cfg b = Some j" "Q a b w" by blast
    then have "(s, j, w) \<in> set (pg_edges G (cfg_graph cfg))" "a = node_addr G cfg s" "b = node_addr G cfg j"
      using E addr by blast+
    then show "(a, b) \<in> edge_rel G cfg" unfolding edge_rel_def by blast
  qed
qed

definition edge_at :: "'g petgraph \<Rightarrow> 'g CFG \<Rightarrow> u64 \<Rightarrow> u64 \<Rightarrow> CFGEdge \<Rightarrow> bool" where
  "edge_at G cfg a b w \<longleftrightarrow>
     (\<exists>s j. get_node cfg a = Some s \<and> get_node cfg b = Some j \<and>
        (s, j, w) \<in> set (pg_edges G (cfg_graph cfg)))"

lemma get_node_eq:
  "targets_ok G cfg \<Longrightarrow> get_node cfg a = Some i \<Longrightarrow> get_node cfg x = Some s \<Longrightarrow> x = a \<longleftrightarrow> s = i"
  unfolding targets_ok_def by (metis option.inject)

lemma cfg_inv_edges:
  assumes "cfg_inv G cfg"
  shows "targets_ok G cfg" "hm_ok (cfg_addr_to_node cfg)"
    and "get_node cfg a = Some s \<Longrightarrow> get_node cfg b = Some j \<Longrightarrow>
      edge_at G cfg a b w \<longleftrightarrow> (s, j, w) \<in> set (pg_edges G (cfg_graph cfg))"
    and "(s, j, w) \<in> set (pg_edges G (cfg_graph cfg)) \<longleftrightarrow>
      (\<exists>a b. get_node cfg a = Some s \<and> get_node cfg b = Some j \<and> edge_at G cfg a b w)"
    and "(a, b) \<in> edge_rel G cfg \<longleftrightarrow> (\<exists>w. edge_at G cfg a b w)"
proof -
  show t: "targets_ok G cfg" "hm_ok (cfg_addr_to_node cfg)"
    using assms unfolding cfg_inv_def targets_ok_def by blast+
  show "edge_at G cfg a b w \<longleftrightarrow> (s, j, w) \<in> set (pg_edges G (cfg_graph cfg))"
    if "get_node cfg a = Some s" "get_node cfg b = Some j"
    using that by (simp add: edge_at_def)
  show E: "(s, j, w) \<in> set (pg_edges G (cfg_graph cfg)) \<longleftrightarrow>
      (\<exists>a b. get_node cfg a = Some s \<and> get_node cfg b = Some j \<and> edge_at G cfg a b w)" for s j w
    using assms unfolding cfg_inv_def live_node_def edge_at_def by fastforce
  show "(a, b) \<in> edge_rel G cfg \<longleftrightarrow> (\<exists>w. edge_at G cfg a b w)"
    using edges_by_targets(2) [OF t E] by (auto simp: edge_at_def)
qed

lemma foldl_link_to:
  assumes "petgraph_ok G" "targets_ok G cfg" "i < length (pg_nodes G (cfg_graph cfg))"
  shows "same_nodes G cfg (foldl (link_to G i) cfg tes) \<and>
    pg_edges G (cfg_graph (foldl (link_to G i) cfg tes)) =
      pg_edges G (cfg_graph cfg) @ live_edges cfg i tes"
  using assms(2,3)
proof (induction tes arbitrary: cfg)
  case Nil
  then show ?case by (simp add: same_nodes_def live_edges_def map_filter_simps)
next
  case (Cons te tes)
  let ?c = "link_to G i cfg te"
  have step: "same_nodes G cfg ?c \<and>
      pg_edges G (cfg_graph ?c) = pg_edges G (cfg_graph cfg) @ live_edges cfg i [te]"
    using Cons.prems petgraph_okD(8,9) [OF assms(1)]
    by (cases te) (auto simp: link_to_def same_nodes_def live_edges_def map_filter_simps
        targets_ok_def split: option.splits)
  note same = same_nodesD [OF conjunct1 [OF step]]
  have "targets_ok G ?c" "i < length (pg_nodes G (cfg_graph ?c))"
    using Cons.prems targets_ok_same step same by auto
  from Cons.IH [OF this] have "same_nodes G ?c (foldl (link_to G i) ?c tes)"
    "pg_edges G (cfg_graph (foldl (link_to G i) ?c tes)) =
       pg_edges G (cfg_graph ?c) @ live_edges ?c i tes" by simp_all
  moreover have "live_edges ?c i tes = live_edges cfg i tes" by (simp add: live_edges_def same)
  moreover have "live_edges cfg i (te # tes) = live_edges cfg i [te] @ live_edges cfg i tes"
    by (simp add: live_edges_def map_filter_simps split: option.splits)
  ultimately show ?case using step by (simp add: same_nodes_def)
qed

definition block_edges :: "'g petgraph \<Rightarrow> 'g CFG \<Rightarrow> u64 \<Rightarrow> (nat \<times> nat \<times> CFGEdge) list" where
  "block_edges G cfg a =
     (case get_node cfg a of
        Some i \<Rightarrow> live_edges cfg i (term_edges (bb_terminator (pg_nodes G (cfg_graph cfg) ! i)))
      | None \<Rightarrow> [])"

lemma add_edges_for_block_obs:
  assumes "petgraph_ok G" "targets_ok G cfg"
  shows "same_nodes G cfg (add_edges_for_block G cfg a) \<and>
    pg_edges G (cfg_graph (add_edges_for_block G cfg a)) =
      pg_edges G (cfg_graph cfg) @ block_edges G cfg a"
  using foldl_link_to [OF assms] assms(2)
  by (auto simp: add_edges_for_block_def block_edges_def targets_ok_def same_nodes_def
      split: option.splits)

lemma foldl_add_edges:
  assumes "petgraph_ok G" "targets_ok G cfg"
  shows "same_nodes G cfg (foldl (add_edges_for_block G) cfg as) \<and>
    pg_edges G (cfg_graph (foldl (add_edges_for_block G) cfg as)) =
      pg_edges G (cfg_graph cfg) @ concat (map (block_edges G cfg) as)"
  using assms(2)
proof (induction as arbitrary: cfg)
  case Nil
  then show ?case by (simp add: same_nodes_def)
next
  case (Cons a as)
  let ?c = "add_edges_for_block G cfg a"
  note step = add_edges_for_block_obs [OF assms(1) Cons.prems, of a]
  note same = same_nodesD [OF conjunct1 [OF step]]
  have "block_edges G ?c = block_edges G cfg"
    by (rule ext) (simp add: block_edges_def live_edges_def same cong: option.case_cong)
  with Cons.IH [OF targets_ok_same [OF conjunct1 [OF step] Cons.prems]] step show ?case
    by (simp add: same_nodes_def)
qed

lemma set_term_edges: "fst ` set (term_edges t) = set (term_successors t)"
  by (cases t) (auto simp: term_edges_def term_successors_def opt_list_def image_Un image_image
      split_beta split: option.splits)

lemma in_term_successors: "t \<in> set (term_successors tm) \<longleftrightarrow> (\<exists>w. (t, w) \<in> set (term_edges tm))"
  unfolding set_term_edges [symmetric] by force

lemma set_live_edges:
  "(s, j, w) \<in> set (live_edges cfg i tes) \<longleftrightarrow>
     s = i \<and> (\<exists>a. (a, w) \<in> set tes \<and> get_node cfg a = Some j)"
  by (induction tes) (auto simp: live_edges_def map_filter_simps split: option.splits)

lemma nodes_of_get:
  assumes "petgraph_ok G"
  shows "get_node (nodes_of G e bs) a = Some i \<Longrightarrow>
      i < length bs \<and> rb_addr (bs ! i) = a \<and> block_at bs a = Some (bs ! i)"
    and "get_node (nodes_of G e bs) a = None \<longleftrightarrow> block_at bs a = None"
    and "targets_ok G (nodes_of G e bs)"
proof -
  note n = nodes_of_obs [OF assms, of e bs]
  show get: "i < length bs \<and> rb_addr (bs ! i) = a \<and> block_at bs a = Some (bs ! i)"
    if "get_node (nodes_of G e bs) a = Some i" for a i
    using n that by (auto split: option.splits)
  show "get_node (nodes_of G e bs) a = None \<longleftrightarrow> block_at bs a = None"
    using n by (auto split: option.splits) (metis option.distinct(1) option.simps(5) not_None_eq)+
  show "targets_ok G (nodes_of G e bs)"
    using get n by (auto simp: targets_ok_def node_addr_def)
qed

lemma from_blocks_edges:
  assumes "petgraph_ok G" "from_blocks G bs = Some cfg"
  shows "same_nodes G (nodes_of G (rb_addr (hd bs)) bs) cfg"
    and "(s, j, w) \<in> set (pg_edges G (cfg_graph cfg)) \<longleftrightarrow>
      (\<exists>a t. get_node cfg a = Some s \<and> get_node cfg t = Some j \<and>
         (\<exists>b. block_at bs a = Some b \<and> (t, w) \<in> set (term_edges (bb_terminator (bb_from_r2il b)))))"
proof -
  let ?c = "nodes_of G (rb_addr (hd bs)) bs"
  note n = nodes_of_obs [OF assms(1), of "rb_addr (hd bs)" bs]
  note get = nodes_of_get [OF assms(1), of "rb_addr (hd bs)" bs]
  have cfg: "cfg = foldl (add_edges_for_block G) ?c (block_addrs ?c)"
    using assms(2) by (auto simp: from_blocks_def nodes_of_def Let_def split: list.splits)
  note f = foldl_add_edges [OF assms(1) get(3), of "block_addrs ?c", folded cfg]
  then show sm: "same_nodes G ?c cfg" by blast
  have "a \<in> set (block_addrs ?c) \<longleftrightarrow> get_node ?c a \<noteq> None" for a
    by (simp add: block_addrs_def get_node_def hm_get_None)
  then have "(s, j, w) \<in> set (pg_edges G (cfg_graph cfg)) \<longleftrightarrow>
      (\<exists>a i. get_node ?c a = Some i \<and> (s, j, w) \<in> set (block_edges G ?c a))"
    using f n by auto
  also have "\<dots> \<longleftrightarrow> (\<exists>a i. get_node ?c a = Some i \<and> s = i \<and>
      (\<exists>t. (t, w) \<in> set (term_edges (bb_terminator (map bb_from_r2il bs ! i))) \<and> get_node ?c t = Some j))"
    using n by (auto simp: block_edges_def set_live_edges)
  finally show "(s, j, w) \<in> set (pg_edges G (cfg_graph cfg)) \<longleftrightarrow>
      (\<exists>a t. get_node cfg a = Some s \<and> get_node cfg t = Some j \<and>
         (\<exists>b. block_at bs a = Some b \<and> (t, w) \<in> set (term_edges (bb_terminator (bb_from_r2il b)))))"
    using get(1) unfolding same_nodesD [OF sm] by fastforce
qed

lemma from_blocks_obs:
  assumes "petgraph_ok G" "from_blocks G bs = Some cfg"
  shows "cfg_inv G cfg" and "cfg_entry cfg = rb_addr (hd bs)"
    and "get_block G cfg a = map_option bb_from_r2il (block_at bs a)"
    and "(a, t) \<in> edge_rel G cfg \<longleftrightarrow>
      (\<exists>b. block_at bs a = Some b \<and> t \<in> set (bb_successors (bb_from_r2il b)) \<and>
           block_at bs t \<noteq> None)"
proof -
  note n = nodes_of_obs [OF assms(1), of "rb_addr (hd bs)" bs]
  note get = nodes_of_get [OF assms(1), of "rb_addr (hd bs)" bs]
  note sm = from_blocks_edges(1) [OF assms]
  note same = same_nodesD [OF sm]
  have t: "targets_ok G cfg" "hm_ok (cfg_addr_to_node cfg)"
    using targets_ok_same [OF sm get(3)] sm n by (auto simp: same_nodes_def)
  note e = edges_by_targets [OF t from_blocks_edges(2) [OF assms]]
  show "cfg_inv G cfg" by (rule e(1))
  show "cfg_entry cfg = rb_addr (hd bs)" using same n by simp
  show "get_block G cfg a = map_option bb_from_r2il (block_at bs a)"
    using get(1,2) [of a] n
    by (cases "get_node (nodes_of G (rb_addr (hd bs)) bs) a") (auto simp: get_block_def same)
  show "(a, t) \<in> edge_rel G cfg \<longleftrightarrow>
      (\<exists>b. block_at bs a = Some b \<and> t \<in> set (bb_successors (bb_from_r2il b)) \<and>
           block_at bs t \<noteq> None)"
    unfolding e(2) using get(2) same(2) by (auto simp: bb_successors_def in_term_successors)
qed

section \<open>Removing edges\<close>

lemma mset_swap_remove: "k < length xs \<Longrightarrow> mset (swap_remove k xs) = mset xs - {#xs ! k#}"
proof -
  assume k: "k < length xs"
  then have ne: "xs[k := last xs] \<noteq> []" by auto
  have "last (xs[k := last xs]) = last xs" using k by (cases xs rule: rev_cases) (auto simp: list_update_append split: nat.splits)
  then have "mset (xs[k := last xs]) = add_mset (last xs) (mset (swap_remove k xs))"
    using append_butlast_last_id [OF ne] unfolding swap_remove_def
    by (metis add.commute add_mset_add_single mset.simps(1,2) mset_append union_mset_add_mset_right)
  moreover have "mset (xs[k := last xs]) = add_mset (last xs) (mset xs - {#xs ! k#})"
    using k by (rule mset_update)
  ultimately show ?thesis by simp
qed

lemma length_swap_remove: "k < length xs \<Longrightarrow> length (swap_remove k xs) = length xs - 1"
  by (simp add: swap_remove_def)

lemma nth_swap_remove: "j < k \<Longrightarrow> k < length xs \<Longrightarrow> swap_remove k xs ! j = xs ! j"
  by (simp add: swap_remove_def nth_butlast)

lemma remove_edges_loop_returns:
  assumes "petgraph_ok G"
  shows "\<exists>g'. remove_edges_loop G i j g = Some g' \<and> pg_nodes G g' = pg_nodes G g \<and>
    mset (pg_edges G g') = filter_mset (\<lambda>(s, t, w). (s, t) \<noteq> (i, j)) (mset (pg_edges G g))"
proof (induction "length (pg_edges G g)" arbitrary: g rule: less_induct)
  case less
  note pe = petgraph_ok_edges [OF assms, where g = g]
  show ?case
  proof (cases "pg_find_edge G g i j")
    case None
    then have "(s, t) \<noteq> (i, j)" if "(s, t, w) \<in> set (pg_edges G g)" for s t w
      using pe(6) that by blast
    then have "filter_mset (\<lambda>(s, t, w). (s, t) \<noteq> (i, j)) (mset (pg_edges G g)) = mset (pg_edges G g)"
      by (intro filter_mset_eq_conv [THEN iffD2]) auto
    with None show ?thesis by (simp add: remove_edges_loop.simps)
  next
    case (Some e)
    let ?g = "pg_remove_edge G g e"
    obtain w where e: "e < length (pg_edges G g)" "pg_edges G g ! e = (i, j, w)"
      using pe(5) [OF Some] by blast
    have edges: "pg_edges G ?g = swap_remove e (pg_edges G g)" using pe(8) e by simp
    then have "length (pg_edges G ?g) < length (pg_edges G g)"
      using e(1) by (simp add: length_swap_remove)
    then obtain g' where g': "remove_edges_loop G i j ?g = Some g'" "pg_nodes G g' = pg_nodes G ?g"
      "mset (pg_edges G g') = filter_mset (\<lambda>(s, t, w). (s, t) \<noteq> (i, j)) (mset (pg_edges G ?g))"
      using less by blast
    have "filter_mset (\<lambda>(s, t, w). (s, t) \<noteq> (i, j)) (mset (pg_edges G ?g)) =
        filter_mset (\<lambda>(s, t, w). (s, t) \<noteq> (i, j)) (mset (pg_edges G g))"
      using e by (simp add: edges mset_swap_remove filter_diff_mset)
    with g' Some pe(7) show ?thesis by (simp add: remove_edges_loop.simps)
  qed
qed

lemma cfg_remove_edge_obs:
  assumes "petgraph_ok G" "cfg_inv G cfg"
  shows "\<exists>cfg'. cfg_remove_edge G cfg a b = Some cfg' \<and> cfg_inv G cfg' \<and> same_nodes G cfg cfg' \<and>
    edge_rel G cfg' = edge_rel G cfg - {(a, b)}"
proof (cases "get_node cfg a = None \<or> get_node cfg b = None")
  case True
  then have "(a, b) \<notin> edge_rel G cfg" using edge_rel_live [OF assms(2)] by blast
  with True assms(2) show ?thesis
    by (auto simp: cfg_remove_edge_def same_nodes_def split: option.splits)
next
  case False
  then obtain i j where ij: "get_node cfg a = Some i" "get_node cfg b = Some j" by auto
  obtain g' where g': "remove_edges_loop G i j (cfg_graph cfg) = Some g'"
    "pg_nodes G g' = pg_nodes G (cfg_graph cfg)"
    "mset (pg_edges G g') = filter_mset (\<lambda>(s, t, w). (s, t) \<noteq> (i, j)) (mset (pg_edges G (cfg_graph cfg)))"
    using remove_edges_loop_returns [OF assms(1)] by blast
  let ?c = "cfg\<lparr>cfg_graph := g'\<rparr>"
  note inv = cfg_inv_edges [OF assms(2)]
  have same: "same_nodes G cfg ?c" using g' by (simp add: same_nodes_def)
  have t: "targets_ok G ?c" "hm_ok (cfg_addr_to_node ?c)"
    using targets_ok_same [OF same inv(1)] inv(2) by simp_all
  have F: "(s, t, w) \<in> set (pg_edges G (cfg_graph ?c)) \<longleftrightarrow>
      (s, t, w) \<in> set (pg_edges G (cfg_graph cfg)) \<and> (s, t) \<noteq> (i, j)" for s t w
    using arg_cong [OF g'(3), of set_mset] by auto
  have ends: "(x, y) = (a, b) \<longleftrightarrow> (s, t) = (i, j)" if "get_node cfg x = Some s" "get_node cfg y = Some t" for x y s t
    using get_node_eq [OF inv(1) ij(1) that(1)] get_node_eq [OF inv(1) ij(2) that(2)] by simp
  have E: "(s, t, w) \<in> set (pg_edges G (cfg_graph ?c)) \<longleftrightarrow>
      (\<exists>x y. get_node ?c x = Some s \<and> get_node ?c y = Some t \<and>
         (x, y) \<noteq> (a, b) \<and> edge_at G cfg x y w)" for s t w
    unfolding F inv(4) same_nodesD [OF same] using ends by blast
  note e = edges_by_targets [OF t E]
  have "edge_rel G ?c = edge_rel G cfg - {(a, b)}"
    using e(2) inv(5) unfolding same_nodesD [OF same] edge_at_def by auto
  with e(1) ij g'(1) same show ?thesis by (auto simp: cfg_remove_edge_def)
qed

section \<open>Replacing a terminator\<close>

lemma foldl_remove_edges:
  assumes "petgraph_ok G" "sorted_wrt (>) es" "\<forall>e \<in> set es. e < length (pg_edges G g)"
  shows "pg_nodes G (foldl (pg_remove_edge G) g es) = pg_nodes G g \<and>
    mset (pg_edges G (foldl (pg_remove_edge G) g es)) =
      mset (pg_edges G g) - mset (map ((!) (pg_edges G g)) es)"
  using assms(2,3)
proof (induction es arbitrary: g)
  case (Cons e es)
  let ?g = "pg_remove_edge G g e"
  have edges: "pg_edges G ?g = swap_remove e (pg_edges G g)" and len: "e < length (pg_edges G g)"
    using Cons.prems petgraph_ok_edges(8) [OF assms(1)] by auto
  have lt: "\<forall>d \<in> set es. d < length (pg_edges G ?g)" "\<forall>d \<in> set es. d < e"
    using Cons.prems len by (auto simp: edges length_swap_remove)
  then have "image_mset ((!) (pg_edges G ?g)) (mset es) = image_mset ((!) (pg_edges G g)) (mset es)"
    using len by (intro image_mset_cong) (simp add: edges nth_swap_remove)
  with Cons.IH [OF _ lt(1)] Cons.prems(1) petgraph_ok_edges(7) [OF assms(1)] len show ?case
    by (simp add: edges mset_swap_remove)
qed simp

lemma mset_map_nth_filter:
  assumes "distinct is" "set is = {e. e < length xs \<and> P (xs ! e)}"
  shows "mset (map ((!) xs) is) = filter_mset P (mset xs)"
proof -
  let ?js = "filter (\<lambda>e. P (xs ! e)) [0..<length xs]"
  have "mset is = mset ?js" using assms by (intro set_eq_iff_mset_eq_distinct [THEN iffD1]) auto
  then have "mset (map ((!) xs) is) = mset (map ((!) xs) ?js)" by simp
  also have "map ((!) xs) ?js = filter P (map ((!) xs) [0..<length xs])"
    by (simp add: filter_map comp_def)
  finally show ?thesis by (simp add: map_nth)
qed

lemma foldl_remove_out:
  assumes "petgraph_ok G" "sorted_wrt (>) (pg_out G g i)"
  shows "pg_nodes G (foldl (pg_remove_edge G) g (pg_out G g i)) = pg_nodes G g"
    and "set (pg_edges G (foldl (pg_remove_edge G) g (pg_out G g i))) =
      {x \<in> set (pg_edges G g). fst x \<noteq> i}"
proof -
  note out = petgraph_ok_edges(1,3) [OF assms(1), where g = g and i = i]
  note f = foldl_remove_edges [OF assms, of g]
  then show "pg_nodes G (foldl (pg_remove_edge G) g (pg_out G g i)) = pg_nodes G g"
    using out by simp
  have "mset (map ((!) (pg_edges G g)) (pg_out G g i)) = filter_mset (\<lambda>x. fst x = i) (mset (pg_edges G g))"
    using out by (intro mset_map_nth_filter) auto
  then have "mset (pg_edges G (foldl (pg_remove_edge G) g (pg_out G g i))) =
      filter_mset (\<lambda>x. fst x \<noteq> i) (mset (pg_edges G g))"
    using f out multiset_partition [of "mset (pg_edges G g)" "\<lambda>x. fst x = i"]
    by (metis (no_types, lifting) add_diff_cancel_left' mem_Collect_eq)
  then have "set_mset (mset (pg_edges G (foldl (pg_remove_edge G) g (pg_out G g i)))) =
      {x \<in> set (pg_edges G g). fst x \<noteq> i}" by simp
  then show "set (pg_edges G (foldl (pg_remove_edge G) g (pg_out G g i))) =
      {x \<in> set (pg_edges G g). fst x \<noteq> i}" by simp
qed

lemma set_terminator_edges:
  fixes t :: BlockTerminator
  assumes "petgraph_ok G" "cfg_inv G cfg" "get_node cfg a = Some i"
    and "sorted_wrt (>) (pg_out G (cfg_graph cfg) i)"
  defines "cfg' \<equiv> set_terminator G cfg a t"
  shows "pg_nodes G (cfg_graph cfg') =
      (pg_nodes G (cfg_graph cfg))[i := (pg_nodes G (cfg_graph cfg) ! i)\<lparr>bb_terminator := t\<rparr>]"
    and "get_node cfg' = get_node cfg" "hm_ok (cfg_addr_to_node cfg')" "targets_ok G cfg'"
    and "(s, j, w) \<in> set (pg_edges G (cfg_graph cfg')) \<longleftrightarrow>
      (s, j, w) \<in> set (pg_edges G (cfg_graph cfg)) \<and> s \<noteq> i \<or>
      s = i \<and> (\<exists>y. (y, w) \<in> set (term_edges t) \<and> get_node cfg y = Some j)"
proof -
  let ?g1 = "foldl (pg_remove_edge G) (cfg_graph cfg) (pg_out G (cfg_graph cfg) i)"
  let ?N = "pg_nodes G (cfg_graph cfg)"
  let ?g2 = "pg_set_node G ?g1 i ((pg_nodes G ?g1 ! i)\<lparr>bb_terminator := t\<rparr>)"
  let ?c = "cfg\<lparr>cfg_graph := ?g2\<rparr>"
  note inv = cfg_invD [OF assms(2)]
  note r = foldl_remove_out [OF assms(1,4)]
  have i: "i < length ?N" using inv(1) assms(3) by auto
  have nodes: "pg_nodes G ?g2 = ?N[i := (?N ! i)\<lparr>bb_terminator := t\<rparr>]"
    and edges: "pg_edges G ?g2 = pg_edges G ?g1"
    using petgraph_okD(6,7) [OF assms(1), of i ?g1] i r(1) by simp_all
  have get: "get_node ?c = get_node cfg" by (simp add: get_node_def [abs_def])
  have "node_addr G ?c x = node_addr G cfg x" if "x < length ?N" for x
    using that by (cases "x = i") (simp_all add: node_addr_def nodes)
  then have t: "targets_ok G ?c" using inv(1,2) by (auto simp: targets_ok_def get nodes)
  note f = add_edges_for_block_obs [OF assms(1) t, of a]
  have st: "cfg' = add_edges_for_block G ?c a"
    by (simp add: cfg'_def set_terminator_def assms(3) Let_def)
  note same = same_nodesD [OF conjunct1 [OF f], folded st]
  show "pg_nodes G (cfg_graph cfg') = ?N[i := (?N ! i)\<lparr>bb_terminator := t\<rparr>]"
    "get_node cfg' = get_node cfg" by (simp_all add: same nodes get)
  show "hm_ok (cfg_addr_to_node cfg')" using f assms(2) by (simp add: st same_nodes_def cfg_inv_def)
  show "targets_ok G cfg'" using targets_ok_same f t unfolding st by blast
  have "bb_terminator (pg_nodes G ?g2 ! i) = t" using i by (simp add: nodes)
  then show "(s, j, w) \<in> set (pg_edges G (cfg_graph cfg')) \<longleftrightarrow>
      (s, j, w) \<in> set (pg_edges G (cfg_graph cfg)) \<and> s \<noteq> i \<or>
      s = i \<and> (\<exists>y. (y, w) \<in> set (term_edges t) \<and> get_node cfg y = Some j)"
    using f r(2) unfolding st by (auto simp: block_edges_def get assms(3) set_live_edges edges)
qed

lemma set_terminator_obs:
  fixes t :: BlockTerminator
  assumes "petgraph_ok G" "cfg_inv G cfg" "get_node cfg a = Some i"
    and "sorted_wrt (>) (pg_out G (cfg_graph cfg) i)"
  defines "cfg' \<equiv> set_terminator G cfg a t"
  shows "cfg_inv G cfg'"
    and "(x, y) \<in> edge_rel G cfg' \<longleftrightarrow>
      (if x = a then y \<in> set (term_successors t) \<and> get_node cfg y \<noteq> None
       else (x, y) \<in> edge_rel G cfg)"
    and "get_block G cfg' b =
      (if b = a then map_option (\<lambda>bb. bb\<lparr>bb_terminator := t\<rparr>) (get_block G cfg b)
       else get_block G cfg b)"
proof -
  note st = set_terminator_edges [OF assms(1-4), where t = t, folded cfg'_def]
  note inv = cfg_inv_edges [OF assms(2)] and addr = cfg_invD [OF assms(2)]
  let ?Q = "\<lambda>x y w. if x = a then (y, w) \<in> set (term_edges t) else edge_at G cfg x y w"
  have "(s, j, w) \<in> set (pg_edges G (cfg_graph cfg')) \<longleftrightarrow>
      (\<exists>x y. get_node cfg' x = Some s \<and> get_node cfg' y = Some j \<and> ?Q x y w)" for s j w
    unfolding st(2,5) inv(4) using assms(3) get_node_eq [OF inv(1) assms(3)] by fastforce
  note e = edges_by_targets [OF st(4,3) this]
  show "cfg_inv G cfg'" by (rule e(1))
  show "(x, y) \<in> edge_rel G cfg' \<longleftrightarrow>
      (if x = a then y \<in> set (term_successors t) \<and> get_node cfg y \<noteq> None
       else (x, y) \<in> edge_rel G cfg)"
    unfolding e(2) st(2) inv(5) in_term_successors using assms(3) by (auto simp: edge_at_def)
  show "get_block G cfg' b =
      (if b = a then map_option (\<lambda>bb. bb\<lparr>bb_terminator := t\<rparr>) (get_block G cfg b)
       else get_block G cfg b)"
    using addr(1) get_node_eq [OF inv(1) assms(3)] assms(3)
    by (cases "get_node cfg b") (auto simp: get_block_def st(1,2) nth_list_update)
qed

section \<open>Removing a block\<close>

text \<open>\<open>remove_node\<close> moves the last node into the freed index.\<close>

definition moved :: "nat \<Rightarrow> nat \<Rightarrow> nat \<Rightarrow> nat" where
  "moved n i x = (if x = n - 1 then i else x)"

lemma nth_swap_remove_moved:
  "i < length xs \<Longrightarrow> x < length xs \<Longrightarrow> x \<noteq> i \<Longrightarrow>
   moved (length xs) i x < length xs - 1 \<and> swap_remove i xs ! moved (length xs) i x = xs ! x"
  by (cases "xs = []")
    (auto simp: moved_def swap_remove_def nth_butlast last_conv_nth nth_list_update)

lemma moved_surj:
  "i < n \<Longrightarrow> k < n - 1 \<Longrightarrow> \<exists>x < n. x \<noteq> i \<and> moved n i x = k"
  by (rule exI [of _ "if k = i then n - 1 else k"]) (auto simp: moved_def)

lemma moved_eq: "i < n \<Longrightarrow> x < n \<Longrightarrow> y < n \<Longrightarrow> x \<noteq> i \<Longrightarrow> y \<noteq> i \<Longrightarrow> moved n i x = moved n i y \<longleftrightarrow> x = y"
  by (auto simp: moved_def)

lemma hm_get_rebuild:
  assumes "inj_on f {..<n}"
  shows "hm_get (foldl (\<lambda>m i. hm_insert (f i) i m) [] [0..<n]) b = Some k \<longleftrightarrow> k < n \<and> f k = b"
  using assms
proof (induction n)
  case (Suc n)
  have IH: "hm_get (foldl (\<lambda>m i. hm_insert (f i) i m) [] [0..<n]) b = Some k \<longleftrightarrow> k < n \<and> f k = b"
    using Suc by (simp add: inj_on_def)
  have "f k \<noteq> f n" if "k < n" for k
    using inj_onD [OF Suc.prems, of k n] that by auto
  then show ?case using IH by (cases "b = f n") (auto simp: hm_get_insert less_Suc_eq)
qed (simp add: hm_get_def)

lemma hm_ok_rebuild: "hm_ok (foldl (\<lambda>m i. hm_insert (f i) i m) m is)" if "hm_ok m"
  using that by (induction "is" arbitrary: m) (simp_all add: hm_ok_insert)

lemma remove_block_nodes:
  assumes "petgraph_ok G" "cfg_inv G cfg" "get_node cfg a = Some i"
    and live: "\<forall>k < length (pg_nodes G (cfg_graph cfg)). live_node G cfg k"
  defines "n \<equiv> length (pg_nodes G (cfg_graph cfg))"
  shows "get_node (remove_block G cfg a) b =
      (if b = a then None else map_option (moved n i) (get_node cfg b))"
    and "targets_ok G (remove_block G cfg a)" "hm_ok (cfg_addr_to_node (remove_block G cfg a))"
proof -
  let ?g = "pg_remove_node G (cfg_graph cfg) i" and ?N = "pg_nodes G (cfg_graph cfg)"
  let ?c = "cfg\<lparr>cfg_addr_to_node := hm_remove a (cfg_addr_to_node cfg), cfg_graph := ?g\<rparr>"
  note inv = cfg_invD [OF assms(2)]
  have i: "i < n" "node_addr G cfg i = a" using inv(1,2) [OF assms(3)] by (simp_all add: n_def)
  have N: "pg_nodes G ?g = swap_remove i ?N"
    using assms(1) i(1) unfolding petgraph_ok_def n_def by blast
  have rb: "remove_block G cfg a = rebuild_addr_map G ?c"
    by (simp add: remove_block_def assms(3))
  have addr: "node_addr G ?c (moved n i x) = node_addr G cfg x" "moved n i x < n - 1"
    if "x < n" "x \<noteq> i" for x
    using nth_swap_remove_moved [of i ?N x] that i by (simp_all add: node_addr_def N n_def)
  have len: "length (pg_nodes G ?g) = n - 1" using i by (simp add: N length_swap_remove n_def)
  have old: "get_node cfg b = Some x \<longleftrightarrow> x < n \<and> node_addr G cfg x = b" for b x
    using inv(1,2) live by (auto simp: n_def live_node_def)
  have inj: "inj_on (node_addr G ?c) {..<n - 1}"
  proof (rule inj_onI)
    fix k l assume kl: "k \<in> {..<n - 1}" "l \<in> {..<n - 1}" "node_addr G ?c k = node_addr G ?c l"
    then obtain x y where xy: "x < n" "x \<noteq> i" "moved n i x = k" "y < n" "y \<noteq> i" "moved n i y = l"
      using moved_surj [OF i(1)] by (metis lessThan_iff)
    then have "node_addr G cfg x = node_addr G cfg y" using kl addr(1) by metis
    then show "k = l" using xy old by (metis option.inject)
  qed
  have new: "get_node (remove_block G cfg a) b = Some k \<longleftrightarrow> k < n - 1 \<and> node_addr G ?c k = b" for b k
    unfolding rb using hm_get_rebuild [OF inj] by (simp add: rebuild_addr_map_def get_node_def len)
  have "node_addr G (remove_block G cfg a) = node_addr G ?c"
    "pg_nodes G (cfg_graph (remove_block G cfg a)) = pg_nodes G ?g"
    by (simp_all add: rb rebuild_addr_map_def node_addr_def [abs_def])
  then show "targets_ok G (remove_block G cfg a)" using new by (simp add: targets_ok_def len)
  show "hm_ok (cfg_addr_to_node (remove_block G cfg a))"
    by (simp add: rb rebuild_addr_map_def hm_ok_rebuild hm_ok_def [of "[]"])
  have "get_node (remove_block G cfg a) b = Some k \<longleftrightarrow>
      b \<noteq> a \<and> (\<exists>x. get_node cfg b = Some x \<and> k = moved n i x)" for k
    unfolding new old using addr moved_surj [OF i(1)] i(2) old [of a] assms(3)
    by (metis option.inject)
  then show "get_node (remove_block G cfg a) b =
      (if b = a then None else map_option (moved n i) (get_node cfg b))"
    by (cases "get_node cfg b"; cases "get_node (remove_block G cfg a) b") auto
qed

lemma remove_block_present:
  assumes "petgraph_ok G" "cfg_inv G cfg"
    and live: "\<forall>k < length (pg_nodes G (cfg_graph cfg)). live_node G cfg k"
    and Some: "get_node cfg a = Some i"
  shows "cfg_inv G (remove_block G cfg a)"
    and "get_node (remove_block G cfg a) b = None \<longleftrightarrow> b = a \<or> get_node cfg b = None"
    and "(x, y) \<in> edge_rel G (remove_block G cfg a) \<longleftrightarrow> (x, y) \<in> edge_rel G cfg \<and> x \<noteq> a \<and> y \<noteq> a"
proof -
  let ?n = "length (pg_nodes G (cfg_graph cfg))"
  let ?E = "pg_edges G (cfg_graph cfg)" and ?E' = "pg_edges G (cfg_graph (remove_block G cfg a))"
  note rb = remove_block_nodes [OF assms(1,2) Some live]
  note inv = cfg_inv_edges [OF assms(2)]
  have i: "i < ?n" using cfg_invD(1) [OF assms(2) Some] .
  have "cfg_graph (remove_block G cfg a) = pg_remove_node G (cfg_graph cfg) i"
    by (simp add: remove_block_def Some rebuild_addr_map_def)
  then have "mset ?E' = image_mset (\<lambda>(s, t, w). (moved ?n i s, moved ?n i t, w))
      (filter_mset (\<lambda>(s, t, w). s \<noteq> i \<and> t \<noteq> i) (mset ?E))"
    using assms(1) i unfolding petgraph_ok_def moved_def by presburger
  from arg_cong [OF this, of set_mset]
  have F: "(s', t', w) \<in> set ?E' \<longleftrightarrow> (\<exists>s t. (s, t, w) \<in> set ?E \<and> s \<noteq> i \<and> t \<noteq> i \<and>
      s' = moved ?n i s \<and> t' = moved ?n i t)" for s' t' w
    by (force simp: image_iff)
  have "(s', t', w) \<in> set ?E' \<longleftrightarrow>
      (\<exists>x y. get_node (remove_block G cfg a) x = Some s' \<and> get_node (remove_block G cfg a) y = Some t' \<and>
         (x \<noteq> a \<and> y \<noteq> a \<and> edge_at G cfg x y w))" for s' t' w
    unfolding F inv(4) rb(1) using get_node_eq [OF inv(1) Some] inv(3) by auto blast+
  note e = edges_by_targets [OF rb(2,3) this]
  show "cfg_inv G (remove_block G cfg a)" by (rule e(1))
  show "get_node (remove_block G cfg a) b = None \<longleftrightarrow> b = a \<or> get_node cfg b = None"
    by (auto simp: rb(1))
  show "(x, y) \<in> edge_rel G (remove_block G cfg a) \<longleftrightarrow> (x, y) \<in> edge_rel G cfg \<and> x \<noteq> a \<and> y \<noteq> a"
    unfolding e(2) inv(5) rb(1) by (auto simp: edge_at_def)
qed

lemma remove_block_absent: "get_node cfg a = None \<Longrightarrow> remove_block G cfg a = cfg"
  by (simp add: remove_block_def)

lemma remove_block_obs:
  assumes "petgraph_ok G" "cfg_inv G cfg"
    and live: "\<forall>k < length (pg_nodes G (cfg_graph cfg)). live_node G cfg k"
  shows "cfg_inv G (remove_block G cfg a)"
    and "get_node (remove_block G cfg a) b = None \<longleftrightarrow> b = a \<or> get_node cfg b = None"
    and "(x, y) \<in> edge_rel G (remove_block G cfg a) \<longleftrightarrow> (x, y) \<in> edge_rel G cfg \<and> x \<noteq> a \<and> y \<noteq> a"
  using remove_block_present [OF assms] assms(2) edge_rel_live [OF assms(2), of x y]
    remove_block_absent [of cfg a G]
  by (cases "get_node cfg a"; auto)+

section \<open>A graph container that keeps the promises\<close>

type_synonym list_digraph = "BasicBlock list \<times> (nat \<times> nat \<times> CFGEdge) list"

text \<open>\<open>order\<close> arranges the edge indices an iteration visits.\<close>

definition list_petgraph :: "(nat list \<Rightarrow> nat list) \<Rightarrow> list_digraph petgraph" where
  "list_petgraph order =
     \<lparr>pg_new = ([], []), pg_nodes = fst, pg_edges = snd,
      pg_add_node = (\<lambda>(ns, es) b. ((ns @ [b], es), length ns)),
      pg_set_node = (\<lambda>(ns, es) i b. (ns[i := b], es)),
      pg_add_edge = (\<lambda>(ns, es) i j w. (ns, es @ [(i, j, w)])),
      pg_out = (\<lambda>(ns, es) i. order (filter (\<lambda>e. fst (es ! e) = i) [0..<length es])),
      pg_in = (\<lambda>(ns, es) j. order (filter (\<lambda>e. fst (snd (es ! e)) = j) [0..<length es])),
      pg_find_edge =
        (\<lambda>(ns, es) i j. find (\<lambda>e. fst (es ! e) = i \<and> fst (snd (es ! e)) = j) [0..<length es]),
      pg_remove_edge = (\<lambda>(ns, es) e. (ns, if e < length es then swap_remove e es else es)),
      pg_remove_node = (\<lambda>(ns, es) i.
        (swap_remove i ns,
         map (\<lambda>(s, t, w). (if s = length ns - 1 then i else s, if t = length ns - 1 then i else t, w))
           (filter (\<lambda>(s, t, w). s \<noteq> i \<and> t \<noteq> i) es)))\<rparr>"

lemma list_petgraph_ok:
  assumes "\<And>xs. mset (order xs) = mset xs"
  shows "petgraph_ok (list_petgraph order)"
proof -
  have set: "set (order xs) = set xs" for xs using assms by (metis set_mset_mset)
  have dist: "distinct (order xs) = distinct xs" for xs
    using assms by (metis mset_eq_imp_distinct_iff)
  let ?G = "list_petgraph order"
  have find: "case pg_find_edge ?G g i j of
      Some e \<Rightarrow> e < length (pg_edges ?G g) \<and> (\<exists>w. pg_edges ?G g ! e = (i, j, w))
    | None \<Rightarrow> \<forall>w. (i, j, w) \<notin> set (pg_edges ?G g)" for g i j
  proof -
    obtain ns es where g: "g = (ns, es)" by fastforce
    let ?P = "\<lambda>e. fst (es ! e) = i \<and> fst (snd (es ! e)) = j"
    have G: "pg_find_edge ?G g i j = find ?P [0..<length es]" "pg_edges ?G g = es"
      by (simp_all add: list_petgraph_def g)
    show ?thesis
    proof (cases "find ?P [0..<length es]")
      case None
      then have "\<forall>e < length es. \<not> ?P e" by (simp add: find_None_iff)
      then have "(i, j, w) \<notin> set es" for w by (metis fst_conv in_set_conv_nth snd_conv)
      with None show ?thesis by (simp add: G)
    next
      case (Some e)
      then have "e < length es \<and> ?P e" by (auto simp: find_Some_iff)
      then have "e < length es \<and> (\<exists>w. es ! e = (i, j, w))" by (metis prod.collapse)
      with Some show ?thesis by (simp add: G)
    qed
  qed
  have node: "mset (pg_edges ?G (pg_remove_node ?G g i)) =
      image_mset (\<lambda>(s, t, w). (if s = length (pg_nodes ?G g) - 1 then i else s,
          if t = length (pg_nodes ?G g) - 1 then i else t, w))
        (filter_mset (\<lambda>(s, t, w). s \<noteq> i \<and> t \<noteq> i) (mset (pg_edges ?G g)))" for g i
    by (cases g) (simp add: list_petgraph_def)
  show ?thesis
    unfolding petgraph_ok_def
    by (intro conjI allI impI find node) (auto simp: list_petgraph_def split_beta set dist)
qed

abbreviation stack_graph :: "list_digraph petgraph" where
  "stack_graph \<equiv> list_petgraph rev"

section \<open>Properties\<close>

text \<open>C29. The graph \<open>from_blocks\<close> builds has the edges of the blocks' terminators and no other: an
  address is a successor of another exactly when the last block lifted there names it as a target
  and some block starts there; predecessors are the converse, and the graph invariant holds.\<close>

theorem from_blocks_successors:
  assumes "petgraph_ok G" "from_blocks G bs = Some cfg"
  shows "(t \<in> set (cfg_successors G cfg a) \<longleftrightarrow>
      (\<exists>b. block_at bs a = Some b \<and> t \<in> set (bb_successors (bb_from_r2il b)) \<and>
           block_at bs t \<noteq> None)) \<and>
    (p \<in> set (cfg_predecessors G cfg a) \<longleftrightarrow> a \<in> set (cfg_successors G cfg p)) \<and> cfg_inv G cfg"
  using from_blocks_obs(1,4) [OF assms] set_cfg_successors [OF assms(1)]
    set_cfg_predecessors [OF assms(1)] by simp

text \<open>A loop: the first block branches back to itself or falls through to the second, which
  returns.\<close>

definition loop_blocks :: "R2ILBlock list" where
  "loop_blocks =
     [block_push (block_new 0x1000 4) (CBranch (varnode_ram 0x1000 8) (varnode_register 0 1)),
      block_push (block_new 0x1004 4) (Return (varnode_register 8 8))]"

lemmas loop_blocks_simps = loop_blocks_def block_push_def block_new_def varnode_mk_defs
  bb_from_r2il_def analyze_terminator_def op_terminator_def extract_const_addr_def u32_to_u64_def
  bb_successors_def term_successors_def block_at_def

theorem from_blocks_successors_witness:
  "\<exists>cfg. from_blocks stack_graph loop_blocks = Some cfg \<and>
     0x1004 \<in> set (cfg_successors stack_graph cfg 0x1000) \<and>
     0x1000 \<in> set (cfg_predecessors stack_graph cfg 0x1004)"
proof -
  have ok: "petgraph_ok stack_graph" by (rule list_petgraph_ok) simp
  obtain cfg where cfg: "from_blocks stack_graph loop_blocks = Some cfg"
    by (simp add: from_blocks_def loop_blocks_def Let_def)
  from from_blocks_successors [OF ok cfg, of "0x1004" "0x1000"]
    from_blocks_successors [OF ok cfg, of _ "0x1004" "0x1000"]
  have "0x1004 \<in> set (cfg_successors stack_graph cfg 0x1000)"
    "0x1000 \<in> set (cfg_predecessors stack_graph cfg 0x1004)"
    by (simp_all add: loop_blocks_simps)
  with cfg show ?thesis by blast
qed

text \<open>Reverse postorder enumerates, without repetition, exactly the blocks reachable from the
  entry; the entry comes first and every other block comes after one of its predecessors.\<close>

theorem reverse_postorder_enumerates:
  assumes "petgraph_ok G" "cfg_inv G cfg"
  shows "set (reverse_postorder G cfg) = reachable_addrs G cfg \<and>
    distinct (reverse_postorder G cfg) \<and>
    (\<forall>k < length (reverse_postorder G cfg).
       if k = 0 then reverse_postorder G cfg ! k = cfg_entry cfg
       else \<exists>j < k. reverse_postorder G cfg ! j \<in> set (cfg_predecessors G cfg (reverse_postorder G cfg ! k)))"
proof (cases "get_node cfg (cfg_entry cfg)")
  case None
  then show ?thesis by (simp add: reverse_postorder_def reachable_addrs_def)
next
  case (Some i)
  from reverse_postorder_ok [OF assms Some] show ?thesis
    by (auto simp: rpo_ok_def reachable_addrs_def Some set_cfg_predecessors [OF assms] hd_conv_nth)
qed

theorem reverse_postorder_enumerates_witness:
  "\<exists>cfg. from_blocks stack_graph loop_blocks = Some cfg \<and>
     distinct (reverse_postorder stack_graph cfg) \<and>
     set (reverse_postorder stack_graph cfg) = reachable_addrs stack_graph cfg"
proof -
  have ok: "petgraph_ok stack_graph" by (rule list_petgraph_ok) simp
  obtain cfg where cfg: "from_blocks stack_graph loop_blocks = Some cfg"
    by (simp add: from_blocks_def loop_blocks_def Let_def)
  from reverse_postorder_enumerates [OF ok from_blocks_obs(1) [OF ok cfg]] cfg show ?thesis by blast
qed

text \<open>\<open>remove_edge\<close> terminates and removes exactly the edges between the two blocks, however
  many there are: every other edge, every block and the invariant survive.\<close>

theorem remove_edge_removes:
  assumes "petgraph_ok G" "cfg_inv G cfg"
  shows "\<exists>cfg'. cfg_remove_edge G cfg a b = Some cfg' \<and> cfg_inv G cfg' \<and>
    edge_rel G cfg' = edge_rel G cfg - {(a, b)} \<and> get_block G cfg' = get_block G cfg"
  using cfg_remove_edge_obs [OF assms, of a b] same_nodesD
  by (fastforce simp: get_block_def)

theorem remove_edge_removes_witness:
  "\<exists>cfg cfg'. from_blocks stack_graph loop_blocks = Some cfg \<and>
     cfg_remove_edge stack_graph cfg 0x1000 0x1000 = Some cfg' \<and>
     (0x1000, 0x1000) \<notin> edge_rel stack_graph cfg' \<and> (0x1000, 0x1004) \<in> edge_rel stack_graph cfg'"
proof -
  have ok: "petgraph_ok stack_graph" by (rule list_petgraph_ok) simp
  obtain cfg where cfg: "from_blocks stack_graph loop_blocks = Some cfg"
    by (simp add: from_blocks_def loop_blocks_def Let_def)
  have "(0x1000, 0x1004) \<in> edge_rel stack_graph cfg"
    by (simp add: from_blocks_obs(4) [OF ok cfg] loop_blocks_simps)
  with remove_edge_removes [OF ok from_blocks_obs(1) [OF ok cfg], of "0x1000" "0x1000"] cfg
  show ?thesis by auto
qed

text \<open>\<open>remove_block\<close> removes the block and its incident edges and nothing else, although
  petgraph renumbers a node: every other address keeps its edges and the address map is right
  again.\<close>

theorem remove_block_removes:
  assumes "petgraph_ok G" "cfg_inv G cfg"
    and "\<forall>k < num_blocks G cfg. live_node G cfg k"
  shows "cfg_inv G (remove_block G cfg a) \<and>
    (\<forall>b. get_block G (remove_block G cfg a) b = None \<longleftrightarrow> b = a \<or> get_block G cfg b = None) \<and>
    edge_rel G (remove_block G cfg a) = {(x, y) \<in> edge_rel G cfg. x \<noteq> a \<and> y \<noteq> a}"
  using remove_block_obs [OF assms(1,2), where a = a] assms(3)
  by (auto simp: num_blocks_def get_block_def)

theorem remove_block_removes_witness:
  "\<exists>cfg. from_blocks stack_graph loop_blocks = Some cfg \<and>
     get_block stack_graph (remove_block stack_graph cfg 0x1000) 0x1004 \<noteq> None \<and>
     edge_rel stack_graph (remove_block stack_graph cfg 0x1000) = {}"
proof -
  have ok: "petgraph_ok stack_graph" by (rule list_petgraph_ok) simp
  obtain cfg where cfg: "from_blocks stack_graph loop_blocks = Some cfg"
    by (simp add: from_blocks_def loop_blocks_def Let_def)
  have "\<forall>k < num_blocks stack_graph cfg. live_node stack_graph cfg k"
    using cfg by (auto simp: from_blocks_def loop_blocks_simps Let_def add_block_def list_petgraph_def
        cfg_new_def add_edges_for_block_def link_to_def get_node_def hm_get_def block_addrs_def
        term_edges_def num_blocks_def live_node_def node_addr_def less_Suc_eq)
  from remove_block_removes [OF ok from_blocks_obs(1) [OF ok cfg] this, of "0x1000"] cfg show ?thesis
    by (auto simp: from_blocks_obs(3,4) [OF ok cfg] loop_blocks_simps)
qed

text \<open>Where the iteration over the outgoing edges visits higher edge indices first,
  \<open>set_terminator\<close> replaces the outgoing edges of the block by those of the new terminator and
  leaves every other edge and block alone.\<close>

theorem set_terminator_replaces:
  assumes "petgraph_ok G" "cfg_inv G cfg" "get_node cfg a = Some i"
    and "sorted_wrt (>) (pg_out G (cfg_graph cfg) i)"
  shows "cfg_inv G (set_terminator G cfg a t) \<and>
    set (cfg_successors G (set_terminator G cfg a t) x) =
      (if x = a then {y \<in> set (term_successors t). get_node cfg y \<noteq> None}
       else set (cfg_successors G cfg x))"
proof -
  note st = set_terminator_obs [OF assms, where t = t]
  have "y \<in> set (cfg_successors G (set_terminator G cfg a t) x) \<longleftrightarrow>
      (if x = a then y \<in> set (term_successors t) \<and> get_node cfg y \<noteq> None
       else y \<in> set (cfg_successors G cfg x))" for y
    unfolding set_cfg_successors [OF assms(1) st(1)] set_cfg_successors [OF assms(1,2)]
    by (rule st(2))
  then have "set (cfg_successors G (set_terminator G cfg a t) x) =
      (if x = a then {y \<in> set (term_successors t). get_node cfg y \<noteq> None}
       else set (cfg_successors G cfg x))" by (intro set_eqI) simp
  with st(1) show ?thesis by blast
qed

theorem set_terminator_replaces_witness:
  "\<exists>cfg. from_blocks stack_graph loop_blocks = Some cfg \<and>
     set (cfg_successors stack_graph (set_terminator stack_graph cfg 0x1000 (TermBranch 0x1004)) 0x1000) =
       {0x1004}"
proof -
  have ok: "petgraph_ok stack_graph" by (rule list_petgraph_ok) simp
  obtain cfg where cfg: "from_blocks stack_graph loop_blocks = Some cfg"
    by (simp add: from_blocks_def loop_blocks_def Let_def)
  have "get_block stack_graph cfg 0x1000 \<noteq> None" "get_block stack_graph cfg 0x1004 \<noteq> None"
    by (simp_all add: from_blocks_obs(3) [OF ok cfg] loop_blocks_simps)
  then obtain i j where ij: "get_node cfg 0x1000 = Some i" "get_node cfg 0x1004 = Some j"
    by (auto simp: get_block_def)
  have "sorted_wrt (>) (pg_out stack_graph (cfg_graph cfg) i)"
    by (simp add: list_petgraph_def split_beta sorted_wrt_rev sorted_wrt_filter sorted_wrt_upt)
  from set_terminator_replaces [OF ok from_blocks_obs(1) [OF ok cfg] ij(1) this, of "TermBranch 0x1004" "0x1000"]
  have "set (cfg_successors stack_graph (set_terminator stack_graph cfg 0x1000 (TermBranch 0x1004)) 0x1000) =
      {0x1004}" using ij(2) by (auto simp: term_successors_def)
  with cfg show ?thesis by blast
qed

text \<open>The order matters: \<open>set_terminator\<close> collects edge indices and then removes them one by
  one, although each removal moves the last edge into the freed index. On a container that keeps
  petgraph's documented promises but visits the outgoing edges of a block in ascending order, the
  old edge to the second block survives the new terminator, a return.\<close>

theorem set_terminator_stale_edge:
  "\<exists>cfg. petgraph_ok (list_petgraph (\<lambda>xs. xs)) \<and>
     from_blocks (list_petgraph (\<lambda>xs. xs)) loop_blocks = Some cfg \<and>
     cfg_successors (list_petgraph (\<lambda>xs. xs))
       (set_terminator (list_petgraph (\<lambda>xs. xs)) cfg 0x1000 TermReturn) 0x1000 = [0x1004]"
proof -
  let ?G = "list_petgraph (\<lambda>xs. xs)"
  have "petgraph_ok ?G" by (rule list_petgraph_ok) simp
  moreover obtain cfg where cfg: "from_blocks ?G loop_blocks = Some cfg"
    by (simp add: from_blocks_def loop_blocks_def Let_def)
  moreover from cfg have "cfg_successors ?G (set_terminator ?G cfg 0x1000 TermReturn) 0x1000 = [0x1004]"
    by (auto simp: from_blocks_def loop_blocks_simps Let_def add_block_def list_petgraph_def
        cfg_new_def add_edges_for_block_def link_to_def get_node_def hm_get_def block_addrs_def
        term_edges_def node_addr_def set_terminator_def cfg_successors_def swap_remove_def
        edge_sort_rank_def upt_conv_Cons)
  ultimately show ?thesis by blast
qed

end
