(* ===== verification/SSA_Dom_Correct.thy ===== *)
theory SSA_Dom_Correct
  imports SSA_Domtree SSA_Cfg_Build
begin

text \<open>
  Correctness of the dominator computation: \<open>intersect\<close> finds the nearest common ancestor, one pass
  over the reverse postorder keeps the invariant of \<open>Dominance\<close> and covers the paths that are
  one step longer, so the outer loop stops, and the tree it leaves is dominance.
\<close>

section \<open>Climbing and intersecting\<close>

lemma rpo_index_build:
  assumes "distinct rpo" "k < length rpo"
  shows "rpo_index (build_rpo_idx rpo) (rpo ! k) = k"
proof -
  have snoc: "build_rpo_idx (xs @ [x]) = hm_insert x (length xs) (build_rpo_idx xs)" for xs x
    by (simp add: build_rpo_idx_def enumerate_append_eq)
  have "distinct xs \<Longrightarrow> j < length xs \<Longrightarrow> hm_get (build_rpo_idx xs) (xs ! j) = Some j" for xs j
  proof (induction xs rule: rev_induct)
    case (snoc x xs)
    then show ?case
      by (auto simp: \<open>\<And>xs x. build_rpo_idx (xs @ [x]) = _\<close> hm_get_insert nth_append less_Suc_eq)
  qed simp
  then show ?thesis using assms by (simp add: rpo_index_def)
qed

lemma climb_spec:
  assumes rm: "ranked_map (rpo_index rx) r (hm_get idom)" and r: "rpo_index rx r = 0"
    and b: "b \<in> dom (hm_get idom)"
  shows "climb idom rx b (rpo_index rx b) j \<in> chain (hm_get idom) b \<and>
    rpo_index rx (climb idom rx b (rpo_index rx b) j) \<le> j \<and>
    {x \<in> chain (hm_get idom) b. rpo_index rx x \<le> j} \<subseteq>
      chain (hm_get idom) (climb idom rx b (rpo_index rx b) j) \<and>
    (j < rpo_index rx b \<longrightarrow> climb idom rx b (rpo_index rx b) j \<noteq> b)"
  using b
proof (induction "rpo_index rx b" arbitrary: b rule: less_induct)
  case less
  show ?case
  proof (cases "j < rpo_index rx b")
    case False
    then show ?thesis by (simp add: climb.simps [of idom rx b])
  next
    case True
    then have "b \<noteq> r" using r by auto
    obtain d where d: "hm_get idom b = Some d" using less.prems by blast
    have ixd: "rpo_index rx d < rpo_index rx b" "d \<in> dom (hm_get idom)"
      using ranked_mapD(2,3) [OF rm d] \<open>b \<noteq> r\<close> by auto
    have c: "climb idom rx b (rpo_index rx b) j = climb idom rx d (rpo_index rx d) j"
      using True d ixd by (auto simp: climb.simps [of idom rx b] Let_def)
    have cb: "chain (hm_get idom) b = insert b (chain (hm_get idom) d)"
      using chain_unfold [of "hm_get idom" b] d by simp
    note IH = less.hyps [OF ixd]
    have "climb idom rx d (rpo_index rx d) j \<noteq> b"
      using IH chain_dom(2) [OF rm ixd(2)] ixd(1) by fastforce
    then show ?thesis using IH True unfolding c cb by auto
  qed
qed

lemma dom_intersect_spec:
  assumes rm: "ranked_map (rpo_index rx) r (hm_get idom)" and r: "rpo_index rx r = 0"
    and inj: "inj_on (rpo_index rx) (dom (hm_get idom))"
    and b: "b1 \<in> dom (hm_get idom)" "b2 \<in> dom (hm_get idom)"
  shows "\<exists>n \<in> dom (hm_get idom). dom_intersect idom rx b1 b2 = Some n \<and>
    chain (hm_get idom) n = chain (hm_get idom) b1 \<inter> chain (hm_get idom) b2"
  using b
proof (induction "rpo_index rx b1 + rpo_index rx b2" arbitrary: b1 b2 rule: less_induct)
  case less
  let ?I = "hm_get idom" and ?ix = "rpo_index rx"
  define c1 where "c1 = climb idom rx b1 (?ix b1) (?ix b2)"
  define c2 where "c2 = climb idom rx b2 (?ix b2) (?ix c1)"
  note s1 = climb_spec [OF rm r less.prems(1), of "?ix b2", folded c1_def]
  note s2 = climb_spec [OF rm r less.prems(2), of "?ix c1", folded c2_def]
  have dom: "c1 \<in> dom ?I" "c2 \<in> dom ?I" using s1 s2 chain_dom(1) [OF rm] less.prems by blast+
  have le: "?ix c1 \<le> ?ix b1" "?ix c2 \<le> ?ix b2"
    using s1 s2 chain_dom(2) [OF rm] less.prems by blast+
  have "chain ?I b1 \<inter> chain ?I b2 = chain ?I c1 \<inter> chain ?I b2"
    using s1 chain_subset [of c1 ?I b1] chain_dom(2) [OF rm less.prems(2)] by blast
  also have "\<dots> = chain ?I c1 \<inter> chain ?I c2"
    using s2 chain_subset [of c2 ?I b2] chain_dom(2) [OF rm dom(1)] by blast
  finally have eq: "chain ?I b1 \<inter> chain ?I b2 = chain ?I c1 \<inter> chain ?I c2" .
  have un: "dom_intersect idom rx b1 b2 =
      (if b1 = b2 then Some b1 else if c1 = c2 then Some c1 else if ?ix c1 = ?ix c2 then Some c1
       else dom_intersect idom rx c1 c2)"
    by (simp add: dom_intersect.simps [of idom rx b1 b2] c1_def c2_def Let_def)
  show ?case
  proof (cases "b1 = b2 \<or> c1 = c2")
    case True
    then show ?thesis using un dom eq less.prems by auto
  next
    case False
    then have ne: "?ix c1 \<noteq> ?ix c2" using inj_onD [OF inj _ dom] by blast
    have "?ix c1 + ?ix c2 < ?ix b1 + ?ix b2"
    proof (cases "?ix b2 < ?ix b1")
      case True
      then show ?thesis
        using s1 le chain_dom(3) [OF rm less.prems(1), of c1] by fastforce
    next
      case bound: False
      then have "c1 = b1" by (simp add: c1_def climb.simps [of idom rx b1])
      moreover have "?ix b1 \<noteq> ?ix b2" using inj_onD [OF inj _ less.prems] False by blast
      ultimately show ?thesis
        using bound s2 le chain_dom(3) [OF rm less.prems(2), of c2] by fastforce
    qed
    from less.hyps [OF this dom] show ?thesis using un False ne eq by simp
  qed
qed

lemma merge_preds_spec:
  assumes "ranked_map (rpo_index rx) r (hm_get idom)" "rpo_index rx r = 0"
    and "inj_on (rpo_index rx) (dom (hm_get idom))" "n \<in> dom (hm_get idom)"
  shows "\<exists>d \<in> dom (hm_get idom). merge_preds idom rx ps n = Some d \<and>
    chain (hm_get idom) d =
      chain (hm_get idom) n \<inter> (\<Inter>p \<in> set ps \<inter> dom (hm_get idom). chain (hm_get idom) p)"
  using assms(4)
proof (induction ps arbitrary: n)
  case (Cons p ps)
  show ?case
  proof (cases "p \<noteq> n \<and> hm_get idom p \<noteq> None")
    case True
    then obtain m where m: "m \<in> dom (hm_get idom)" "dom_intersect idom rx p n = Some m"
      "chain (hm_get idom) m = chain (hm_get idom) p \<inter> chain (hm_get idom) n"
      using dom_intersect_spec [OF assms(1-3), of p n] Cons.prems by blast
    from Cons.IH [OF m(1)] True m show ?thesis by (auto simp: Int_insert_left domIff)
  next
    case False
    from Cons.IH [OF Cons.prems] False show ?thesis by (auto simp: Int_insert_left domIff)
  qed
qed simp

section \<open>One pass\<close>

text \<open>What the computation relies on: the contract of the reverse postorder, a finite graph, and
  predecessors that agree with the edges.\<close>

definition dom_setup ::
  "(u64 \<times> u64) set \<Rightarrow> u64 \<Rightarrow> u64 list \<Rightarrow> (u64 \<Rightarrow> u64 list) \<Rightarrow> bool" where
  "dom_setup E r rpo preds_of \<longleftrightarrow>
     rpo_ok E r rpo \<and> finite E \<and> (\<forall>b p. p \<in> set (preds_of b) \<longleftrightarrow> (p, b) \<in> E)"

lemma dom_setupD:
  assumes "dom_setup E r rpo preds_of"
  shows "distinct rpo" "rpo \<noteq> []" "hd rpo = r" "set rpo = E\<^sup>* `` {r}" "finite E"
    and "p \<in> set (preds_of b) \<longleftrightarrow> (p, b) \<in> E"
    and "0 < k \<Longrightarrow> k < length rpo \<Longrightarrow> \<exists>j < k. (rpo ! j, rpo ! k) \<in> E"
    and "rpo_index (build_rpo_idx rpo) r = 0"
    and "inj_on (rpo_index (build_rpo_idx rpo)) (set rpo)"
proof -
  show d: "distinct rpo" "rpo \<noteq> []" "hd rpo = r" "set rpo = E\<^sup>* `` {r}" "finite E"
    "p \<in> set (preds_of b) \<longleftrightarrow> (p, b) \<in> E"
    "0 < k \<Longrightarrow> k < length rpo \<Longrightarrow> \<exists>j < k. (rpo ! j, rpo ! k) \<in> E"
    using assms unfolding dom_setup_def rpo_ok_def by blast+
  show "rpo_index (build_rpo_idx rpo) r = 0"
    using rpo_index_build [OF d(1), of 0] d(2,3) by (simp add: hd_conv_nth)
  show "inj_on (rpo_index (build_rpo_idx rpo)) (set rpo)"
    using rpo_index_build [OF d(1)] by (metis (no_types, lifting) in_set_conv_nth inj_onI)
qed

text \<open>The state between two steps: the nodes of \<open>xs\<close> are processed.\<close>

definition dom_state ::
  "(u64 \<times> u64) set \<Rightarrow> u64 \<Rightarrow> u64 list \<Rightarrow> u64 list \<Rightarrow> idom_map \<Rightarrow> bool" where
  "dom_state E r rpo xs idom \<longleftrightarrow>
     dom_inv E r (rpo_index (build_rpo_idx rpo)) (hm_get idom) \<and>
     set xs \<subseteq> dom (hm_get idom) \<and> dom (hm_get idom) \<subseteq> set rpo"

lemma dom_state_ranked:
  "dom_state E r rpo xs idom \<Longrightarrow> ranked_map (rpo_index (build_rpo_idx rpo)) r (hm_get idom)"
  unfolding dom_state_def by (meson dom_invD(1))

lemma idom_step_spec:
  assumes S: "dom_setup E r rpo preds_of" and st: "dom_state E r rpo xs idom"
    and rpo: "rpo = xs @ b # bs" "xs \<noteq> []"
  shows "\<exists>d. meets_at E r (rpo_index (build_rpo_idx rpo)) (hm_get idom) b d \<and>
    idom_step preds_of (build_rpo_idx rpo) b (idom, ch) =
      Some (if hm_get idom b = Some d then (idom, ch) else (hm_insert b d idom, True))"
proof -
  let ?rx = "build_rpo_idx rpo" and ?I = "hm_get idom"
  note s = dom_setupD [OF S]
  note st' = st [unfolded dom_state_def]
  have rm: "ranked_map (rpo_index ?rx) r ?I" using dom_state_ranked [OF st] .
  have inj: "inj_on (rpo_index ?rx) (dom ?I)" using s(9) st' inj_on_subset by blast
  have k: "rpo ! length xs = b" "0 < length xs" "length xs < length rpo" using rpo by auto
  then obtain j where j: "j < length xs" "(rpo ! j, b) \<in> E" using s(7) by metis
  have "rpo ! j \<in> set xs" using j(1) rpo(1) by (simp add: nth_append)
  then have pj: "rpo ! j \<in> dom ?I" using st' by blast
  have pj': "rpo_index ?rx (rpo ! j) < rpo_index ?rx b"
    using rpo_index_build [OF s(1), of j] rpo_index_build [OF s(1) k(3)] j(1) k by simp
  have br: "b \<noteq> r" using s(1,3) rpo by (cases xs) auto
  have "rpo ! j \<in> set (preds_of b)" using j s(6) by simp
  then obtain p where p: "find (\<lambda>p. ?I p \<noteq> None) (preds_of b) = Some p"
    using pj by (cases "find (\<lambda>p. ?I p \<noteq> None) (preds_of b)") (auto simp: find_None_iff)
  then have pd: "p \<in> dom ?I" "p \<in> set (preds_of b)" by (auto simp: find_Some_iff)
  obtain d where d: "d \<in> dom ?I" "merge_preds idom ?rx (preds_of b) p = Some d"
    "chain ?I d = chain ?I p \<inter> (\<Inter>p \<in> set (preds_of b) \<inter> dom ?I. chain ?I p)"
    using merge_preds_spec [OF rm s(8) inj pd(1)] by blast
  have "chain ?I d = (\<Inter>p \<in> {p \<in> dom ?I. (p, b) \<in> E}. chain ?I p)"
    using d(3) pd s(6) by auto
  then have "meets_at E r (rpo_index ?rx) ?I b d"
    using br d(1) pj pj' j(2) unfolding meets_at_def by blast
  moreover have "idom_step preds_of ?rx b (idom, ch) =
      Some (if ?I b = Some d then (idom, ch) else (hm_insert b d idom, True))"
    using p d(2) by (simp add: idom_step_def)
  ultimately show ?thesis by blast
qed

lemma hm_get_insert_map: "hm_get (hm_insert k v m) = (hm_get m)(k \<mapsto> v)"
  by (rule ext) (simp add: hm_get_insert)

text \<open>The paths a step over \<open>bs\<close> adds to the covered ones.\<close>

definition extend_to :: "('a \<times> 'a) set \<Rightarrow> 'a list \<Rightarrow> 'a list set \<Rightarrow> 'a list set" where
  "extend_to E bs F = F \<union> {b # u # us | b u us. b \<in> set bs \<and> (u, b) \<in> E \<and> u # us \<in> F}"

definition covered_set :: "(u64 \<times> u64) set \<Rightarrow> u64 \<Rightarrow> u64 list set \<Rightarrow> idom_map \<Rightarrow> bool" where
  "covered_set E r F idom \<longleftrightarrow>
     suffix_closed F \<and> (\<forall>us \<in> F. rpath E r us \<and> covered (hm_get idom) us)"

lemma idom_pass_spec:
  assumes "dom_setup E r rpo preds_of" "dom_state E r rpo xs idom" "covered_set E r F idom"
    and "rpo = xs @ bs" "xs \<noteq> []"
  shows "\<exists>idom' ch'. idom_pass preds_of (build_rpo_idx rpo) bs (idom, ch) = Some (idom', ch') \<and>
    dom_state E r rpo rpo idom' \<and> covered_set E r (extend_to E bs F) idom' \<and>
    (ch \<longrightarrow> ch') \<and> (\<not> ch' \<longrightarrow> idom' = idom) \<and>
    ((\<forall>b \<in> set bs. \<forall>d. meets_at E r (rpo_index (build_rpo_idx rpo)) (hm_get idom) b d \<longrightarrow>
        hm_get idom b = Some d) \<longrightarrow> ch' = ch)"
  using assms(2-5)
proof (induction bs arbitrary: xs idom ch F)
  case Nil
  then show ?case by (auto simp: extend_to_def)
next
  case (Cons b bs)
  let ?rx = "build_rpo_idx rpo" and ?I = "hm_get idom"
  obtain d where d: "meets_at E r (rpo_index ?rx) ?I b d"
    "idom_step preds_of ?rx b (idom, ch) =
      Some (if ?I b = Some d then (idom, ch) else (hm_insert b d idom, True))"
    using idom_step_spec [OF assms(1) Cons.prems(1,3,4)] by blast
  let ?i1 = "if ?I b = Some d then idom else hm_insert b d idom"
  let ?c1 = "if ?I b = Some d then ch else True"
  have I1: "hm_get ?i1 = ?I(b \<mapsto> d)" by (auto simp: hm_get_insert_map fun_upd_idem)
  have inv: "dom_inv E r (rpo_index ?rx) ?I" using Cons.prems(1) by (simp add: dom_state_def)
  have st1: "dom_state E r rpo (xs @ [b]) ?i1"
    using Cons.prems(1,3) dom_inv_update [OF inv d(1)] unfolding dom_state_def I1 by auto
  let ?F1 = "extend_to E [b] F"
  have cov1: "covered_set E r ?F1 ?i1"
  proof -
    have F: "suffix_closed F" "\<forall>us \<in> F. rpath E r us \<and> covered ?I us"
      using Cons.prems(2) by (simp_all add: covered_set_def)
    have "suffix_closed ?F1" using F(1) by (auto simp: suffix_closed_def extend_to_def)
    moreover have "rpath E r us \<and> covered (?I(b \<mapsto> d)) us" if "us \<in> ?F1" for us
      using that covered_update [OF inv d(1) F] covered_extend [OF inv d(1)] F(2)
      unfolding extend_to_def by (auto intro: rpath_step)
    ultimately show ?thesis unfolding covered_set_def I1 by blast
  qed
  obtain idom' ch' where r: "idom_pass preds_of ?rx bs (?i1, ?c1) = Some (idom', ch')"
    "dom_state E r rpo rpo idom'" "covered_set E r (extend_to E bs ?F1) idom'"
    "?c1 \<longrightarrow> ch'" "\<not> ch' \<longrightarrow> idom' = ?i1"
    "(\<forall>b \<in> set bs. \<forall>d. meets_at E r (rpo_index ?rx) (hm_get ?i1) b d \<longrightarrow> hm_get ?i1 b = Some d) \<longrightarrow> ch' = ?c1"
    using Cons.IH [OF st1 cov1, of ?c1] Cons.prems(3) by auto
  have pass: "idom_pass preds_of ?rx (b # bs) (idom, ch) = Some (idom', ch')"
    using d(2) r(1) by (simp split: if_splits)
  have sub: "extend_to E (b # bs) F \<subseteq> extend_to E bs ?F1"
    by (auto simp: extend_to_def)
  have cov: "covered_set E r (extend_to E (b # bs) F) idom'"
    unfolding covered_set_def
  proof
    show "suffix_closed (extend_to E (b # bs) F)"
      using Cons.prems(2) unfolding covered_set_def suffix_closed_def extend_to_def by blast
    show "\<forall>us \<in> extend_to E (b # bs) F. rpath E r us \<and> covered (hm_get idom') us"
      using r(3) sub unfolding covered_set_def by blast
  qed
  show ?case
  proof (intro exI [of _ idom'] exI [of _ ch'] conjI impI pass r(2) cov)
    show "ch'" if ch using that r(4) by auto
    show "idom' = idom" if "\<not> ch'" using that r(4,5) by (auto split: if_splits)
    assume fx: "\<forall>b \<in> set (b # bs). \<forall>d. meets_at E r (rpo_index ?rx) ?I b d \<longrightarrow> ?I b = Some d"
    then have "?I b = Some d" using d(1) by simp
    then show "ch' = ch" using r(6) fx by simp
  qed
qed

section \<open>The outer loop\<close>

definition paths_upto :: "('a \<times> 'a) set \<Rightarrow> 'a \<Rightarrow> nat \<Rightarrow> 'a list set" where
  "paths_upto E r k = {us. rpath E r us \<and> length us \<le> k}"

lemma covered_set_paths:
  "covered_set E r (paths_upto E r k) idom \<longleftrightarrow> (\<forall>us \<in> paths_upto E r k. covered (hm_get idom) us)"
proof -
  have "rpath E r (u # us)" if "rpath E r (v # u # us)" for v u us
    using that by (simp add: rpath_Cons [of E r v])
  then show ?thesis by (auto simp: covered_set_def paths_upto_def suffix_closed_def)
qed

text \<open>A pass covers the paths that are one step longer.\<close>

lemma pass_covers_longer:
  assumes S: "dom_setup E r rpo preds_of" and st: "dom_state E r rpo rpo idom"
    and cov: "covered_set E r (extend_to E (drop 1 rpo) (paths_upto E r k)) idom"
  shows "covered_set E r (paths_upto E r (Suc k)) idom"
  unfolding covered_set_paths
proof
  note s = dom_setupD [OF S]
  note rm = dom_state_ranked [OF st]
  fix us assume us: "us \<in> paths_upto E r (Suc k)"
  then obtain v vs where v: "us = v # vs" by (cases us) (auto simp: paths_upto_def)
  show "covered (hm_get idom) us"
  proof (cases "v = r")
    case True
    then show ?thesis using covered_root [OF rm] v by simp
  next
    case False
    then obtain u us' where u: "vs = u # us'" "rpath E r (u # us')" "(u, v) \<in> E"
      using us v by (auto simp: paths_upto_def rpath_Cons [of E r v])
    have "v \<in> set rpo" using us v rpath_reaches [of E r us] s(4) by (auto simp: paths_upto_def)
    then have "v \<in> set (drop 1 rpo)" using False s(2,3) by (cases rpo) auto
    then have "us \<in> extend_to E (drop 1 rpo) (paths_upto E r k)"
      using us v u by (auto simp: extend_to_def paths_upto_def)
    then show ?thesis using cov by (simp add: covered_set_def)
  qed
qed

lemma pass_spec:
  assumes S: "dom_setup E r rpo preds_of" and st: "dom_state E r rpo [r] idom"
    and cov: "covered_set E r (paths_upto E r k) idom"
  shows "\<exists>idom' ch'. idom_pass preds_of (build_rpo_idx rpo) (drop 1 rpo) (idom, False) = Some (idom', ch') \<and>
    dom_state E r rpo rpo idom' \<and> covered_set E r (paths_upto E r (Suc k)) idom' \<and>
    (\<not> ch' \<longrightarrow> idom' = idom) \<and>
    ((\<forall>b \<in> set (drop 1 rpo). \<forall>d.
        meets_at E r (rpo_index (build_rpo_idx rpo)) (hm_get idom) b d \<longrightarrow> hm_get idom b = Some d) \<longrightarrow> \<not> ch')"
proof -
  have rpo: "rpo = [r] @ drop 1 rpo" using dom_setupD(2,3) [OF S] by (cases rpo) auto
  show ?thesis
    using idom_pass_spec [OF S st cov rpo, of False] pass_covers_longer [OF S] by blast
qed

lemma dominators_when_covered:
  assumes S: "dom_setup E r rpo preds_of" and st: "dom_state E r rpo [r] idom"
    and cov: "\<forall>us \<in> paths_upto E r (Suc (card E)). covered (hm_get idom) us"
  shows "dom (hm_get idom) = set rpo"
    and "\<forall>y \<in> set rpo. \<forall>x. x \<in> chain (hm_get idom) y \<longleftrightarrow> dominates_in E r x y"
proof -
  note s = dom_setupD [OF S]
  have inv: "dom_inv E r (rpo_index (build_rpo_idx rpo)) (hm_get idom)"
    and sub: "dom (hm_get idom) \<subseteq> set rpo" using st by (simp_all add: dom_state_def)
  have "y \<in> dom (hm_get idom)" if "y \<in> set rpo" for y
  proof -
    have "(r, y) \<in> E\<^sup>*" using that unfolding s(4) by simp
    then obtain vs where p: "rpath E r (y # vs)" using reaches_rpath [of r y E] by blast
    obtain us where "rpath E r (y # us)" "length us \<le> card E"
      using rpath_bounded [OF s(5) p] by blast
    then have "covered (hm_get idom) (y # us)" using cov by (simp add: paths_upto_def)
    then show ?thesis by (simp add: covered_def)
  qed
  then show d: "dom (hm_get idom) = set rpo" using sub by blast
  show "\<forall>y \<in> set rpo. \<forall>x. x \<in> chain (hm_get idom) y \<longleftrightarrow> dominates_in E r x y"
  proof (intro ballI allI)
    fix y x assume "y \<in> set rpo"
    then have y: "y \<in> dom (hm_get idom)" using d by simp
    show "x \<in> chain (hm_get idom) y \<longleftrightarrow> dominates_in E r x y"
      by (rule covered_dominators [OF inv s(5) y]) (use cov in \<open>simp add: paths_upto_def\<close>)
  qed
qed

text \<open>A pass that changes nothing has reached the dominators, however many passes came before.\<close>

lemma unchanged_covers_all:
  assumes S: "dom_setup E r rpo preds_of" and st: "dom_state E r rpo [r] idom"
    and cov: "covered_set E r (paths_upto E r k) idom"
    and pass: "idom_pass preds_of (build_rpo_idx rpo) (drop 1 rpo) (idom, False) = Some (idom', False)"
  shows "covered_set E r (paths_upto E r (k + n)) idom"
proof (induction n)
  case (Suc n)
  from pass_spec [OF S st Suc] pass show ?case by auto
qed (use cov in simp)

lemma paths_upto_mono: "j \<le> k \<Longrightarrow> covered_set E r (paths_upto E r k) idom \<Longrightarrow>
   covered_set E r (paths_upto E r j) idom"
  unfolding covered_set_paths by (auto simp: paths_upto_def)

lemma idom_loop_returns:
  assumes S: "dom_setup E r rpo preds_of" and st: "dom_state E r rpo [r] idom"
    and cov: "covered_set E r (paths_upto E r k) idom"
  shows "\<exists>idom'. idom_loop preds_of (build_rpo_idx rpo) (drop 1 rpo) idom = Some idom' \<and>
    dom_state E r rpo rpo idom' \<and> dom (hm_get idom') = set rpo \<and>
    (\<forall>y \<in> set rpo. \<forall>x. x \<in> chain (hm_get idom') y \<longleftrightarrow> dominates_in E r x y)"
  using st cov
proof (induction "Suc (Suc (card E)) - k" arbitrary: k idom rule: less_induct)
  case less
  let ?rx = "build_rpo_idx rpo" and ?K = "Suc (card E)"
  note s = dom_setupD [OF S]
  have r: "r \<in> set rpo" using s(2,3) by (metis hd_in_set)
  obtain idom' ch' where p: "idom_pass preds_of ?rx (drop 1 rpo) (idom, False) = Some (idom', ch')"
    "dom_state E r rpo rpo idom'" "covered_set E r (paths_upto E r (Suc k)) idom'"
    "\<not> ch' \<longrightarrow> idom' = idom"
    "(\<forall>b \<in> set (drop 1 rpo). \<forall>d. meets_at E r (rpo_index ?rx) (hm_get idom) b d \<longrightarrow>
        hm_get idom b = Some d) \<longrightarrow> \<not> ch'"
    using pass_spec [OF S less.prems] by blast
  have st1: "dom_state E r rpo [r] idom'" using p(2) r by (auto simp: dom_state_def)
  show ?case
  proof (cases ch')
    case False
    then have "covered_set E r (paths_upto E r ?K) idom"
      using unchanged_covers_all [OF S less.prems, of idom' ?K] p(1) paths_upto_mono [of ?K "k + ?K"] by simp
    from dominators_when_covered [OF S less.prems(1) this [unfolded covered_set_paths]]
    show ?thesis using p False by (simp add: idom_loop.simps)
  next
    case True
    have "k < ?K"
    proof (rule ccontr)
      assume "\<not> k < ?K"
      then have "covered_set E r (paths_upto E r ?K) idom"
        using less.prems(2) paths_upto_mono by (metis not_less)
      note d = dominators_when_covered [OF S less.prems(1) this [unfolded covered_set_paths]]
      have inv: "dom_inv E r (rpo_index ?rx) (hm_get idom)" using less.prems(1) by (simp add: dom_state_def)
      have "hm_get idom b = Some e" if b: "b \<in> set (drop 1 rpo)" "meets_at E r (rpo_index ?rx) (hm_get idom) b e" for b e
      proof -
        obtain e' where "hm_get idom b = Some e'" using b(1) d(1) in_set_dropD by fastforce
        moreover have "e' = e"
          by (rule meets_at_fixed [OF inv b(2) calculation]) (use d s(4) in auto)
        ultimately show ?thesis by simp
      qed
      then show False using p(5) True by blast
    qed
    then have "Suc ?K - Suc k < Suc ?K - k" by simp
    from less.hyps [OF this st1 p(3)] show ?thesis using p(1) True by (simp add: idom_loop.simps)
  qed
qed

end
