(* ===== verification/SSA_Dom_Tree.thy ===== *)
theory SSA_Dom_Tree
  imports SSA_Dom_Correct
begin

text \<open>
  What the finished dominator tree answers: \<open>idom\<close>, \<open>dominates\<close>, \<open>children\<close>, \<open>depth\<close>, the tree
  walks and the dominance frontiers, in terms of the paths of the control flow graph.
\<close>

section \<open>The finished map\<close>

definition idom_final :: "(u64 \<times> u64) set \<Rightarrow> u64 \<Rightarrow> u64 list \<Rightarrow> idom_map \<Rightarrow> bool" where
  "idom_final E r rpo idom \<longleftrightarrow>
     hm_ok idom \<and> ranked_map (rpo_index (build_rpo_idx rpo)) r (hm_get idom) \<and>
     dom (hm_get idom) = set rpo \<and>
     (\<forall>y \<in> set rpo. \<forall>x. x \<in> chain (hm_get idom) y \<longleftrightarrow> dominates_in E r x y)"

lemma idom_finalD:
  assumes "idom_final E r rpo idom"
  shows "hm_ok idom" "ranked_map (rpo_index (build_rpo_idx rpo)) r (hm_get idom)"
    and "dom (hm_get idom) = set rpo"
    and "y \<in> set rpo \<Longrightarrow> x \<in> chain (hm_get idom) y \<longleftrightarrow> dominates_in E r x y"
  using assms unfolding idom_final_def by blast+

lemma idom_step_hm_ok:
  assumes "idom_step preds_of rx b (idom, ch) = Some (idom', ch')" "hm_ok idom"
  shows "hm_ok idom'"
proof (cases "find (\<lambda>p. hm_get idom p \<noteq> None) (preds_of b)")
  case None
  then show ?thesis using assms by (simp add: idom_step_def)
next
  case (Some p)
  then obtain n where "merge_preds idom rx (preds_of b) p = Some n"
    using assms(1) by (cases "merge_preds idom rx (preds_of b) p") (simp_all add: idom_step_def)
  with Some assms show ?thesis by (auto simp: idom_step_def hm_ok_insert split: if_splits)
qed

lemma idom_pass_hm_ok:
  "idom_pass preds_of rx bs (idom, ch) = Some (idom', ch') \<Longrightarrow> hm_ok idom \<Longrightarrow> hm_ok idom'"
proof (induction bs arbitrary: idom ch)
  case (Cons b bs)
  then obtain i1 c1 where "idom_step preds_of rx b (idom, ch) = Some (i1, c1)"
    "idom_pass preds_of rx bs (i1, c1) = Some (idom', ch')"
    by (cases "idom_step preds_of rx b (idom, ch)") auto
  then show ?case using Cons.IH idom_step_hm_ok Cons.prems(2) by blast
qed simp

lemma idom_loop_hm_ok:
  assumes "idom_loop preds_of rx bs idom = Some idom'"
  shows "hm_ok idom \<longrightarrow> hm_ok idom'"
proof (rule idom_loop.raw_induct [where P = "\<lambda>p rx bs i i'. hm_ok i \<longrightarrow> hm_ok i'", OF _ assms])
  fix loop p rx bs i i'
  assume IH: "\<And>p rx bs i i'. loop p rx bs i = Some i' \<Longrightarrow> hm_ok i \<longrightarrow> hm_ok i'"
    and "Option.bind (idom_pass p rx bs (i, False)) (\<lambda>st.
       if snd st then loop p rx bs (fst st) else Some (fst st)) = Some i'"
  then obtain st where st: "idom_pass p rx bs (i, False) = Some st"
    "(if snd st then loop p rx bs (fst st) else Some (fst st)) = Some i'"
    by (cases "idom_pass p rx bs (i, False)") simp_all
  have "hm_ok i \<longrightarrow> hm_ok (fst st)"
    using st(1) idom_pass_hm_ok [of p rx bs i False "fst st" "snd st"] by simp
  then show "hm_ok i \<longrightarrow> hm_ok i'" using IH st(2) by (auto split: if_splits)
qed

lemma initial_state:
  assumes "dom_setup E r rpo preds_of"
  shows "dom_state E r rpo [r] [(r, r)]" "covered_set E r (paths_upto E r 1) [(r, r)]"
proof -
  let ?I = "hm_get [(r, r)]"
  have I: "?I x = (if x = r then Some r else None)" for x by (simp add: hm_get_def)
  have rm: "ranked_map (rpo_index (build_rpo_idx rpo)) r ?I" by (simp add: ranked_map_def I)
  have "dom ?I = {r}" by (auto simp: I split: if_splits)
  then have "dom_inv E r (rpo_index (build_rpo_idx rpo)) ?I"
    using rm chain_root [OF rm] unfolding dom_inv_def by (simp add: dominates_in_root)
  moreover have "r \<in> set rpo" using dom_setupD(2,3) [OF assms] by (metis hd_in_set)
  ultimately show "dom_state E r rpo [r] [(r, r)]" by (auto simp: dom_state_def I split: if_splits)
  have "us = [r]" if "us \<in> paths_upto E r 1" for us
    using that by (cases us) (auto simp: paths_upto_def)
  then show "covered_set E r (paths_upto E r 1) [(r, r)]"
    unfolding covered_set_paths using covered_root [OF rm, of "[]"] by auto
qed

lemma idom_loop_final:
  assumes "dom_setup E r rpo preds_of"
  shows "\<exists>idom. idom_loop preds_of (build_rpo_idx rpo) (drop 1 rpo) [(r, r)] = Some idom \<and>
    idom_final E r rpo idom"
proof -
  obtain idom where i: "idom_loop preds_of (build_rpo_idx rpo) (drop 1 rpo) [(r, r)] = Some idom"
    "dom_state E r rpo rpo idom" "dom (hm_get idom) = set rpo"
    "\<forall>y \<in> set rpo. \<forall>x. x \<in> chain (hm_get idom) y \<longleftrightarrow> dominates_in E r x y"
    using idom_loop_returns [OF assms initial_state [OF assms]] by blast
  moreover have "hm_ok idom" using idom_loop_hm_ok [OF i(1)] by (simp add: hm_ok_def [of "[(r, r)]"])
  ultimately show ?thesis using dom_state_ranked [OF i(2)] unfolding idom_final_def by blast
qed

section \<open>Children\<close>

lemma get_names_push_child:
  "children_of (push_child m (b, d)) x = children_of m x @ (if d = x \<and> b \<noteq> d then [b] else [])"
  by (auto simp: push_child_def children_of_def hm_get_insert split: option.splits)

lemma children_of_foldl:
  "children_of (foldl push_child m ps) x =
     children_of m x @ map fst (filter (\<lambda>(b, d). d = x \<and> b \<noteq> d) ps)"
  by (induction ps arbitrary: m) (auto simp: get_names_push_child split: prod.splits)

lemma children_of_sort: "children_of (map (\<lambda>(d, cs). (d, sort cs)) m) x = sort (children_of m x)"
  by (induction m) (auto simp: children_of_def hm_get_def split: option.splits)

lemma children_of_build:
  "children_of (build_children idom) x = sort (map fst (filter (\<lambda>(b, d). d = x \<and> b \<noteq> d) idom))"
  unfolding build_children_def children_of_sort children_of_foldl
  by (simp add: children_of_def hm_get_def)

lemma set_children_of:
  assumes "hm_ok idom"
  shows "set (children_of (build_children idom) x) = {b. hm_get idom b = Some x \<and> b \<noteq> x}"
    and "distinct (children_of (build_children idom) x)"
proof -
  show "set (children_of (build_children idom) x) = {b. hm_get idom b = Some x \<and> b \<noteq> x}"
    using hm_get_iff [OF assms] by (force simp: children_of_build)
  show "distinct (children_of (build_children idom) x)"
    using assms unfolding children_of_build distinct_sort hm_ok_def by (rule distinct_map_filter)
qed

section \<open>Depths\<close>

definition height :: "idom_map \<Rightarrow> u64 \<Rightarrow> nat" where
  "height idom y = card (chain (hm_get idom) y) - 1"

definition below :: "idom_map \<Rightarrow> u64 set \<Rightarrow> u64 set" where
  "below idom S = {y \<in> dom (hm_get idom). \<exists>b \<in> S. b \<in> chain (hm_get idom) y}"

text \<open>The tree under \<open>b\<close> is \<open>b\<close> and the trees under its children.\<close>

lemma chain_child:
  assumes "idom_final E r rpo idom" "c \<in> set (children_of (build_children idom) b)"
  shows "hm_get idom c = Some b" "c \<in> dom (hm_get idom)" "b \<in> dom (hm_get idom)" "c \<noteq> b"
    and "rpo_index (build_rpo_idx rpo) b < rpo_index (build_rpo_idx rpo) c"
    and "chain (hm_get idom) c = insert c (chain (hm_get idom) b)" "c \<notin> chain (hm_get idom) b"
proof -
  note f = idom_finalD [OF assms(1)]
  show c: "hm_get idom c = Some b" "c \<noteq> b" using assms(2) set_children_of(1) [OF f(1)] by auto
  then have "c \<noteq> r" using ranked_mapD(1) [OF f(2)] by auto
  then show lt: "rpo_index (build_rpo_idx rpo) b < rpo_index (build_rpo_idx rpo) c"
    and b: "b \<in> dom (hm_get idom)" using ranked_mapD(2,3) [OF f(2) c(1)] by blast+
  show "c \<in> dom (hm_get idom)" using c by blast
  show "chain (hm_get idom) c = insert c (chain (hm_get idom) b)"
    using chain_unfold [of "hm_get idom" c] c(1) by simp
  show "c \<notin> chain (hm_get idom) b" using chain_dom(2) [OF f(2) b, of c] lt by auto
qed

lemma below_unfold:
  assumes "idom_final E r rpo idom" "b \<in> dom (hm_get idom)"
  shows "below idom {b} = insert b (below idom (set (children_of (build_children idom) b)))"
    and "b \<notin> below idom (set (children_of (build_children idom) b))"
proof -
  note f = idom_finalD [OF assms(1)] and ch = chain_child [OF assms(1)]
  have kid: "\<exists>c. c \<in> set (children_of (build_children idom) b) \<and> c \<in> chain (hm_get idom) y"
    if "b \<in> chain (hm_get idom) y" "b \<noteq> y" for y
  proof -
    have "(y, b) \<in> (up (hm_get idom))\<^sup>*" using that by (simp add: chain_def)
    then show ?thesis using that(2)
    proof (induction rule: rtrancl_induct)
      case (step u v)
      then show ?case
      proof (cases "u = v")
        case False
        then have "u \<in> set (children_of (build_children idom) v)"
          using step set_children_of(1) [OF f(1)] by (auto simp: up_def)
        then show ?thesis using step(1) by (auto simp: chain_def)
      qed auto
    qed simp
  qed
  show "below idom {b} = insert b (below idom (set (children_of (build_children idom) b)))"
    using kid assms(2) ch(6) chain_trans [of b "hm_get idom"] by (fastforce simp: below_def)
  show "b \<notin> below idom (set (children_of (build_children idom) b))"
    using ch(7) by (auto simp: below_def)
qed

lemma height_child:
  assumes "idom_final E r rpo idom" "c \<in> set (children_of (build_children idom) b)"
  shows "height idom c = Suc (height idom b)"
proof -
  note f = idom_finalD [OF assms(1)] and ch = chain_child [OF assms]
  have fin: "finite (chain (hm_get idom) b)"
    using chain_dom(1) [OF f(2) ch(3)] f(3) by (metis List.finite_set finite_subset subsetI)
  have "b \<in> chain (hm_get idom) b" by (rule chain_self)
  with fin have "0 < card (chain (hm_get idom) b)" using card_gt_0_iff by blast
  with fin ch(6,7) show ?thesis by (simp add: height_def)
qed

lemma rpo_index_less:
  assumes "distinct rpo" "b \<in> set rpo"
  shows "rpo_index (build_rpo_idx rpo) b < length rpo"
  using assms rpo_index_build by (metis in_set_conv_nth)

lemma compute_depths_spec:
  assumes "idom_final E r rpo idom" "set bs \<subseteq> dom (hm_get idom)"
    and "\<forall>b \<in> set bs. height idom b = d \<and> length rpo \<le> fuel + rpo_index (build_rpo_idx rpo) b"
    and "distinct rpo"
  shows "\<exists>m'. compute_depths fuel (build_children idom) bs d m = Some m' \<and>
    (\<forall>y. hm_get m' y = (if y \<in> below idom (set bs) then Some (height idom y) else hm_get m y))"
  using assms(2,3)
proof (induction fuel "build_children idom" bs d m rule: compute_depths.induct)
  case (1 fuel d m)
  then show ?case by (simp add: below_def)
next
  case (2 b bs d m)
  then have "b \<in> set rpo" "length rpo \<le> rpo_index (build_rpo_idx rpo) b"
    using idom_finalD(3) [OF assms(1)] by auto
  then show ?case using rpo_index_less [OF assms(4)] by fastforce
next
  case (3 fuel b bs d m)
  let ?cs = "children_of (build_children idom) b" and ?rx = "build_rpo_idx rpo"
  have b: "b \<in> dom (hm_get idom)" "height idom b = d" using "3.prems" by auto
  have cs: "set ?cs \<subseteq> dom (hm_get idom)" using chain_child(2) [OF assms(1)] by blast
  have "\<forall>c \<in> set ?cs. height idom c = d + 1 \<and> length rpo \<le> fuel + rpo_index ?rx c"
  proof
    fix c assume c: "c \<in> set ?cs"
    show "height idom c = d + 1 \<and> length rpo \<le> fuel + rpo_index ?rx c"
      using height_child [OF assms(1) c] chain_child(5) [OF assms(1) c] "3.prems"(2) by simp
  qed
  then obtain m1 where m1: "compute_depths fuel (build_children idom) ?cs (d + 1) (hm_insert b d m) = Some m1"
    "\<forall>y. hm_get m1 y = (if y \<in> below idom (set ?cs) then Some (height idom y) else hm_get (hm_insert b d m) y)"
    using "3.hyps"(1) cs by blast
  obtain m2 where m2: "compute_depths (Suc fuel) (build_children idom) bs d m1 = Some m2"
    "\<forall>y. hm_get m2 y = (if y \<in> below idom (set bs) then Some (height idom y) else hm_get m1 y)"
    using "3.hyps"(2) [OF m1(1)] "3.prems" by auto
  have un: "below idom (set (b # bs)) = insert b (below idom (set ?cs)) \<union> below idom (set bs)"
    using below_unfold(1) [OF assms(1) b(1)] by (auto simp: below_def)
  show ?case
    using m1 m2 b(2) unfolding un by (intro exI [of _ m2]) (auto simp: hm_get_insert)
qed


section \<open>Frontiers\<close>

definition frontier_at :: "(u64, u64 set) hashmap \<Rightarrow> u64 \<Rightarrow> u64 set" where
  "frontier_at m x = (case hm_get m x of Some s \<Rightarrow> s | None \<Rightarrow> {})"

definition idom_or_self :: "idom_map \<Rightarrow> u64 \<Rightarrow> u64" where
  "idom_or_self idom addr = (case hm_get idom addr of Some d \<Rightarrow> d | None \<Rightarrow> addr)"

lemma frontier_at_insert:
  "frontier_at (frontier_insert u addr m) x = frontier_at m x \<union> (if x = u then {addr} else {})"
  by (auto simp: frontier_at_def frontier_insert_def hm_get_insert)

lemma chain_outside: "hm_get idom b = None \<Longrightarrow> chain (hm_get idom) b = {b}"
  using chain_unfold [of "hm_get idom" b] by simp

text \<open>The walk visits the ancestors of \<open>runner\<close> below the stopping point.\<close>

lemma frontier_walk_spec:
  assumes rm: "ranked_map ix r (hm_get idom)"
    and stop: "runner \<in> dom (hm_get idom) \<longrightarrow> idom_or_self idom addr \<in> chain (hm_get idom) runner"
  shows "\<exists>m'. frontier_walk idom addr runner m = Some m' \<and>
    (\<forall>x. frontier_at m' x = frontier_at m x \<union>
       (if x \<in> chain (hm_get idom) runner - chain (hm_get idom) (idom_or_self idom addr) then {addr} else {}))"
  using stop
proof (induction "ix runner" arbitrary: runner m rule: less_induct)
  case less
  let ?I = "hm_get idom" and ?s = "idom_or_self idom addr"
  let ?m1 = "frontier_insert runner addr m"
  have un: "frontier_walk idom addr runner m =
      (if runner \<noteq> ?s then
         (case ?I runner of Some d \<Rightarrow> if d \<noteq> runner then frontier_walk idom addr d ?m1 else Some ?m1
          | None \<Rightarrow> Some ?m1)
       else Some m)"
    by (simp add: frontier_walk.simps [of idom addr runner] idom_or_self_def Let_def)
  consider "runner = ?s" | "runner \<noteq> ?s" "?I runner = None" | e where "runner \<noteq> ?s" "?I runner = Some e"
    by fastforce
  then show ?case
  proof cases
    case 1
    then show ?thesis using un by simp
  next
    case 2
    have "?I addr = Some ?s \<or> ?I addr = None \<and> ?s = addr"
      by (simp add: idom_or_self_def split: option.splits)
    then have "runner \<notin> chain ?I ?s"
      using 2 chain_dom(1) [OF rm, of ?s runner] ranked_mapD(3) [OF rm, of addr ?s]
        chain_outside [of idom addr] by (auto simp: domIff)
    then show ?thesis using 2 un chain_outside [of idom runner] by (auto simp: frontier_at_insert)
  next
    case 3
    have dom: "runner \<in> dom ?I" using 3 by blast
    have s: "?s \<in> chain ?I runner" using less.prems dom by blast
    have nr: "runner \<noteq> r" using s 3(1) chain_root [OF rm] by auto
    have e: "ix e < ix runner" "e \<in> dom ?I" using ranked_mapD(2,3) [OF rm 3(2)] nr by blast+
    have cr: "chain ?I runner = insert runner (chain ?I e)"
      using chain_unfold [of ?I runner] 3(2) by simp
    then have se: "?s \<in> chain ?I e" using s 3(1) by auto
    have nin: "runner \<notin> chain ?I ?s"
      using chain_dom(2) [OF rm e(2), of runner] chain_subset [OF se] e(1) by fastforce
    obtain m' where "frontier_walk idom addr e ?m1 = Some m'"
      "\<forall>x. frontier_at m' x = frontier_at ?m1 x \<union> (if x \<in> chain ?I e - chain ?I ?s then {addr} else {})"
      using less.hyps [OF e(1), of ?m1] se by blast
    moreover have "e \<noteq> runner" using e(1) by blast
    ultimately show ?thesis
      using un 3 cr nin by (intro exI [of _ m']) (auto simp: frontier_at_insert)
  qed
qed

lemma frontier_preds_spec:
  assumes rm: "ranked_map ix r (hm_get idom)"
    and stop: "\<forall>p \<in> set ps. p \<in> dom (hm_get idom) \<longrightarrow> idom_or_self idom addr \<in> chain (hm_get idom) p"
  shows "\<exists>m'. frontier_preds idom addr ps m = Some m' \<and>
    (\<forall>x. frontier_at m' x = frontier_at m x \<union>
       (if \<exists>p \<in> set ps. x \<in> chain (hm_get idom) p - chain (hm_get idom) (idom_or_self idom addr)
        then {addr} else {}))"
  using stop
proof (induction ps arbitrary: m)
  case (Cons p ps)
  obtain m1 where m1: "frontier_walk idom addr p m = Some m1"
    "\<forall>x. frontier_at m1 x = frontier_at m x \<union>
       (if x \<in> chain (hm_get idom) p - chain (hm_get idom) (idom_or_self idom addr) then {addr} else {})"
    using frontier_walk_spec [OF rm, of p addr m] Cons.prems by auto
  obtain m2 where m2: "frontier_preds idom addr ps m1 = Some m2"
    "\<forall>x. frontier_at m2 x = frontier_at m1 x \<union>
       (if \<exists>p \<in> set ps. x \<in> chain (hm_get idom) p - chain (hm_get idom) (idom_or_self idom addr)
        then {addr} else {})"
    using Cons.IH [of m1] Cons.prems by auto
  show ?case using m1 m2 by (intro exI [of _ m2]) auto
qed simp

definition frontier_hit :: "(u64 \<Rightarrow> u64 list) \<Rightarrow> idom_map \<Rightarrow> u64 \<Rightarrow> u64 \<Rightarrow> bool" where
  "frontier_hit preds_of idom x y \<longleftrightarrow> 2 \<le> length (preds_of y) \<and>
     (\<exists>p \<in> set (preds_of y). x \<in> chain (hm_get idom) p - chain (hm_get idom) (idom_or_self idom y))"

lemma frontier_blocks_spec:
  assumes rm: "ranked_map ix r (hm_get idom)"
    and stop: "\<forall>a p. p \<in> set (preds_of a) \<longrightarrow> p \<in> dom (hm_get idom) \<longrightarrow>
      idom_or_self idom a \<in> chain (hm_get idom) p"
  shows "\<exists>m'. frontier_blocks preds_of idom as m = Some m' \<and>
    (\<forall>x. frontier_at m' x = frontier_at m x \<union> {y \<in> set as. frontier_hit preds_of idom x y})"
proof (induction "as" arbitrary: m)
  case (Cons a as)
  obtain m1 where m1: "(if length (preds_of a) \<ge> 2 then frontier_preds idom a (preds_of a) m else Some m) = Some m1"
    "\<forall>x. frontier_at m1 x = frontier_at m x \<union> (if frontier_hit preds_of idom x a then {a} else {})"
    using frontier_preds_spec [OF rm, of "preds_of a" a m] stop
    by (cases "length (preds_of a) \<ge> 2") (auto simp: frontier_hit_def)
  obtain m2 where m2: "frontier_blocks preds_of idom as m1 = Some m2"
    "\<forall>x. frontier_at m2 x = frontier_at m1 x \<union> {y \<in> set as. frontier_hit preds_of idom x y}"
    using Cons.IH [of m1] by auto
  show ?case using m1 m2 by (intro exI [of _ m2]) auto
qed simp

lemma frontier_at_empty_rows: "frontier_at (foldl (\<lambda>m a. hm_insert a {} m) m as) x = (if x \<in> set as then {} else frontier_at m x)"
  by (induction "as" arbitrary: m) (auto simp: frontier_at_def hm_get_insert)

lemma pred_below_idom:
  assumes S: "dom_setup E r rpo preds_of" and F: "idom_final E r rpo idom"
    and p: "p \<in> set (preds_of y)" "p \<in> dom (hm_get idom)"
  shows "y \<in> set rpo" "idom_or_self idom y \<in> chain (hm_get idom) p"
proof -
  note s = dom_setupD [OF S] and f = idom_finalD [OF F]
  have py: "(p, y) \<in> E" using p(1) s(6) by blast
  have pr: "p \<in> set rpo" using p(2) f(3) by blast
  then show y: "y \<in> set rpo" using py unfolding s(4) by (auto intro: rtrancl_into_rtrancl)
  obtain d where d: "hm_get idom y = Some d" using y f(3) by blast
  then have eq: "idom_or_self idom y = d" by (simp add: idom_or_self_def)
  show "idom_or_self idom y \<in> chain (hm_get idom) p"
  proof (cases "y = r")
    case True
    then show ?thesis using d ranked_mapD(1) [OF f(2)] root_in_chain [OF f(2) p(2)] eq by simp
  next
    case False
    have "d \<in> chain (hm_get idom) y" using d chain_unfold [of "hm_get idom" y] by simp
    then have dy: "dominates_in E r d y" using f(4) [OF y] by blast
    have "d \<noteq> y" using ranked_mapD(2) [OF f(2) d False] by blast
    from dominates_in_pred [OF dy this py] show ?thesis unfolding eq f(4) [OF pr] .
  qed
qed

text \<open>A reachable block other than the entry that has one predecessor has it as its immediate
  dominator, so skipping such blocks loses nothing.\<close>

lemma single_pred_no_hit:
  assumes S: "dom_setup E r rpo preds_of" and F: "idom_final E r rpo idom"
    and y: "y \<in> set rpo" "y \<noteq> r" and len: "length (preds_of y) < 2"
    and p: "p \<in> set (preds_of y)"
  shows "chain (hm_get idom) p \<subseteq> chain (hm_get idom) (idom_or_self idom y)"
proof -
  note s = dom_setupD [OF S] and f = idom_finalD [OF F]
  obtain d where d: "hm_get idom y = Some d" using y(1) f(3) by blast
  have only: "q = p" if "(q, y) \<in> E" for q
  proof -
    have "q \<in> set (preds_of y)" using that s(6) by blast
    then show ?thesis using len p by (cases "preds_of y") auto
  qed
  obtain k where k: "k < length rpo" "rpo ! k = y" using y(1) by (metis in_set_conv_nth)
  have "rpo ! 0 = r" using s(2,3) by (simp add: hd_conv_nth)
  then have k0: "0 < k" using k(2) y(2) by (metis gr0I)
  obtain j where j: "j < k" "(rpo ! j, y) \<in> E" using s(7) [OF k0 k(1)] k(2) by blast
  have "rpo ! j \<noteq> rpo ! k" using j(1) k(1) s(1) by (simp add: nth_eq_iff_index_eq)
  then have ne: "p \<noteq> y" using only [OF j(2)] k(2) by simp
  have "dominates_in E r p y" by (rule dominates_in_preds [OF y(2)]) (use only in simp)
  then have "p \<in> chain (hm_get idom) y" using f(4) [OF y(1)] by blast
  then have "p \<in> chain (hm_get idom) d" using d ne chain_unfold [of "hm_get idom" y] by simp
  then show ?thesis using chain_subset d by (simp add: idom_or_self_def)
qed

lemma strict_chain:
  assumes "idom_final E r rpo idom" "y \<in> set rpo" "y \<noteq> r"
  shows "x \<in> chain (hm_get idom) (idom_or_self idom y) \<longleftrightarrow> x \<in> chain (hm_get idom) y \<and> x \<noteq> y"
proof -
  note f = idom_finalD [OF assms(1)]
  obtain d where d: "hm_get idom y = Some d" using assms(2) f(3) by blast
  have "rpo_index (build_rpo_idx rpo) d < rpo_index (build_rpo_idx rpo) y" "d \<in> dom (hm_get idom)"
    using ranked_mapD(2,3) [OF f(2) d] assms(3) by blast+
  then have "y \<notin> chain (hm_get idom) d" using chain_dom(2) [OF f(2), of d y] by fastforce
  moreover have "chain (hm_get idom) y = insert y (chain (hm_get idom) d)"
    using d chain_unfold [of "hm_get idom" y] by simp
  ultimately show ?thesis using d by (auto simp: idom_or_self_def)
qed

lemma frontier_hit_iff:
  assumes S: "dom_setup E r rpo preds_of" and F: "idom_final E r rpo idom"
    and x: "x \<in> set rpo" and y: "y \<noteq> r"
  shows "frontier_hit preds_of idom x y \<longleftrightarrow>
    (\<exists>p \<in> set rpo. (p, y) \<in> E \<and> dominates_in E r x p) \<and> \<not> (dominates_in E r x y \<and> x \<noteq> y)"
    (is "?L \<longleftrightarrow> ?R")
proof -
  note s = dom_setupD [OF S] and f = idom_finalD [OF F]
  have key: "x \<in> chain (hm_get idom) p - chain (hm_get idom) (idom_or_self idom y) \<longleftrightarrow>
      p \<in> set rpo \<and> dominates_in E r x p \<and> \<not> (dominates_in E r x y \<and> x \<noteq> y)"
    if p: "p \<in> set (preds_of y)" for p
  proof (cases "p \<in> set rpo")
    case True
    then have "y \<in> set rpo" using pred_below_idom(1) [OF S F p] f(3) by blast
    then show ?thesis using strict_chain [OF F _ y] f(4) True by blast
  next
    case False
    then have "p \<notin> dom (hm_get idom)" using f(3) by blast
    then have "chain (hm_get idom) p = {p}" using chain_outside [of idom p] by (simp add: domIff)
    then show ?thesis using False x by auto
  qed
  show ?thesis
  proof
    assume ?L
    then show ?R using key s(6) unfolding frontier_hit_def by blast
  next
    assume ?R
    then obtain p where p: "p \<in> set rpo" "p \<in> set (preds_of y)" "dominates_in E r x p"
      "\<not> (dominates_in E r x y \<and> x \<noteq> y)" using s(6) by blast
    then have hit: "x \<in> chain (hm_get idom) p - chain (hm_get idom) (idom_or_self idom y)"
      using key by blast
    have "y \<in> set rpo" using pred_below_idom(1) [OF S F p(2)] p(1) f(3) by blast
    then have "\<not> length (preds_of y) < 2" using single_pred_no_hit [OF S F _ y _ p(2)] hit by blast
    then show ?L using hit p(2) unfolding frontier_hit_def by auto
  qed
qed


section \<open>The whole computation\<close>

text \<open>What \<open>compute\<close> leaves for a graph whose entry is a block.\<close>

definition dom_tree_ok ::
  "(u64 \<times> u64) set \<Rightarrow> u64 \<Rightarrow> u64 list \<Rightarrow> (u64 \<Rightarrow> u64 list) \<Rightarrow> u64 list \<Rightarrow> DomTree \<Rightarrow> bool" where
  "dom_tree_ok E r rpo preds_of addrs dt \<longleftrightarrow>
     dt_entry dt = r \<and> idom_final E r rpo (dt_idom dt) \<and>
     dt_children dt = build_children (dt_idom dt) \<and>
     (\<forall>y. hm_get (dt_depth dt) y = (if y \<in> set rpo then Some (height (dt_idom dt) y) else None)) \<and>
     (\<forall>x. frontier_at (dt_frontier dt) x = {y \<in> set addrs. frontier_hit preds_of (dt_idom dt) x y})"

lemma dom_tree_okD:
  assumes "dom_tree_ok E r rpo preds_of addrs dt"
  shows "dt_entry dt = r" "idom_final E r rpo (dt_idom dt)"
    and "dt_children dt = build_children (dt_idom dt)"
    and "hm_get (dt_depth dt) y = (if y \<in> set rpo then Some (height (dt_idom dt) y) else None)"
    and "frontier_at (dt_frontier dt) x = {y \<in> set addrs. frontier_hit preds_of (dt_idom dt) x y}"
  using assms unfolding dom_tree_ok_def by blast+

lemma length_hm_dom: "hm_ok m \<Longrightarrow> length m = card (dom (hm_get m))"
  using distinct_card [of "map fst m"] by (simp add: hm_ok_def hm_get_def [abs_def] dom_map_of_conv_image_fst)

lemma finite_edge_rel: "finite (edge_rel G cfg)"
proof -
  have "edge_rel G cfg = (\<lambda>(s, t, w). (node_addr G cfg s, node_addr G cfg t)) ` set (pg_edges G (cfg_graph cfg))"
    by (force simp: edge_rel_def)
  then show ?thesis by simp
qed

lemma cfg_dom_setup:
  assumes "petgraph_ok G" "cfg_inv G cfg" "get_node cfg (cfg_entry cfg) = Some i"
  shows "dom_setup (edge_rel G cfg) (cfg_entry cfg) (reverse_postorder G cfg) (cfg_predecessors G cfg)"
  unfolding dom_setup_def
  using reverse_postorder_ok [OF assms] finite_edge_rel set_cfg_predecessors [OF assms(1,2)] by blast

lemma dom_compute_spec:
  assumes "petgraph_ok G" "cfg_inv G cfg" "get_node cfg (cfg_entry cfg) = Some i"
  shows "\<exists>dt. dom_compute G cfg = Some dt \<and>
    dom_tree_ok (edge_rel G cfg) (cfg_entry cfg) (reverse_postorder G cfg) (cfg_predecessors G cfg)
      (block_addrs cfg) dt"
proof -
  let ?E = "edge_rel G cfg" and ?r = "cfg_entry cfg" and ?rpo = "reverse_postorder G cfg"
    and ?ps = "cfg_predecessors G cfg" and ?as = "block_addrs cfg"
  note S = cfg_dom_setup [OF assms]
  note s = dom_setupD [OF S]
  obtain idom where i: "idom_loop ?ps (build_rpo_idx ?rpo) (drop 1 ?rpo) [(?r, ?r)] = Some idom"
    "idom_final ?E ?r ?rpo idom" using idom_loop_final [OF S] by blast
  note f = idom_finalD [OF i(2)]
  have r: "?r \<in> dom (hm_get idom)" using ranked_mapD(1) [OF f(2)] by blast
  have h: "height idom ?r = 0" using chain_root [OF f(2)] by (simp add: height_def)
  have len: "length idom = length ?rpo"
    using length_hm_dom [OF f(1)] f(3) distinct_card [OF s(1)] by simp
  have bl: "below idom {?r} = set ?rpo"
    using root_in_chain [OF f(2)] f(3) by (auto simp: below_def)
  obtain depth where d: "compute_depths (length idom + 1) (build_children idom) [?r] 0 [] = Some depth"
    "\<forall>y. hm_get depth y = (if y \<in> set ?rpo then Some (height idom y) else hm_get [] y)"
    using compute_depths_spec [OF i(2) _ _ s(1), of "[?r]" 0 "length idom + 1" "[]"] r h len bl by auto
  have stop: "\<forall>a p. p \<in> set (?ps a) \<longrightarrow> p \<in> dom (hm_get idom) \<longrightarrow> idom_or_self idom a \<in> chain (hm_get idom) p"
    using pred_below_idom(2) [OF S i(2)] by blast
  obtain fr where fr: "compute_frontiers G cfg idom = Some fr"
    "\<forall>x. frontier_at fr x = {y \<in> set ?as. frontier_hit ?ps idom x y}"
    using frontier_blocks_spec [OF f(2) stop, of ?as "foldl (\<lambda>m addr. hm_insert addr {} m) [] ?as"]
    by (auto simp: compute_frontiers_def frontier_at_empty_rows frontier_at_def [of "[]"] hm_get_def)
  let ?dt = "\<lparr>dt_entry = ?r, dt_idom = idom, dt_children = build_children idom, dt_frontier = fr,
    dt_depth = depth\<rparr>"
  have "dom_compute G cfg = Some ?dt"
    using i(1) d(1) fr(1) s(2) by (simp add: dom_compute_def Let_def del: compute_depths.simps)
  moreover have "dom_tree_ok ?E ?r ?rpo ?ps ?as ?dt"
    using i(2) d(2) fr(2) by (simp add: dom_tree_ok_def hm_get_def [of "[]"])
  ultimately show ?thesis by blast
qed

section \<open>Queries\<close>

lemma dt_idom_of_iff:
  assumes "dom_tree_ok E r rpo preds_of addrs dt"
  shows "dt_idom_of dt y = Some d \<longleftrightarrow> hm_get (dt_idom dt) y = Some d \<and> y \<noteq> r"
proof -
  note f = idom_finalD [OF dom_tree_okD(2) [OF assms]]
  have "d \<noteq> y" if "hm_get (dt_idom dt) y = Some d" "y \<noteq> r" for d
    using ranked_mapD(2) [OF f(2) that] by blast
  then show ?thesis using ranked_mapD(1) [OF f(2)]
    by (auto simp: dt_idom_of_def split: option.splits if_splits)
qed

lemma dominates_walk_spec:
  assumes T: "dom_tree_ok E r rpo preds_of addrs dt"
  shows "dominates_walk dt a b = Some (b \<in> set rpo \<and> a \<in> chain (hm_get (dt_idom dt)) b \<and> a \<noteq> b)"
proof (induction "rpo_index (build_rpo_idx rpo) b" arbitrary: b rule: less_induct)
  case less
  let ?I = "hm_get (dt_idom dt)"
  note f = idom_finalD [OF dom_tree_okD(2) [OF T]]
  show ?case
  proof (cases "dt_idom_of dt b")
    case None
    have "b = r \<or> b \<notin> dom ?I" using None dt_idom_of_iff [OF T, of b] by (metis domD option.distinct(1))
    then show ?thesis using None f(3) chain_root [OF f(2)]
      by (auto simp: dominates_walk.simps [of dt a b])
  next
    case (Some d)
    then have d: "?I b = Some d" "b \<noteq> r" using dt_idom_of_iff [OF T] by blast+
    have lt: "rpo_index (build_rpo_idx rpo) d < rpo_index (build_rpo_idx rpo) b" "d \<in> dom ?I"
      using ranked_mapD(2,3) [OF f(2) d(1)] d(2) by blast+
    have c: "chain ?I b = insert b (chain ?I d)" using chain_unfold [of ?I b] d(1) by simp
    have "b \<notin> chain ?I d" using chain_dom(2) [OF f(2) lt(2), of b] lt(1) by fastforce
    moreover have "b \<in> set rpo" "d \<in> set rpo" using d(1) lt(2) f(3) by blast+
    ultimately show ?thesis
      using less.hyps [OF lt(1)] Some c by (auto simp: dominates_walk.simps [of dt a b])
  qed
qed

lemma dt_dominates_spec:
  assumes "dom_tree_ok E r rpo preds_of addrs dt"
  shows "dt_dominates dt a b = Some (a = b \<or> b \<in> set rpo \<and> dominates_in E r a b)"
  using dominates_walk_spec [OF assms] idom_finalD(4) [OF dom_tree_okD(2) [OF assms], of b a]
  by (auto simp: dt_dominates_def)

lemma dt_idom_of_spec:
  assumes T: "dom_tree_ok E r rpo preds_of addrs dt" and y: "y \<in> set rpo"
  shows "dt_idom_of dt y = Some d \<longleftrightarrow>
    d \<noteq> y \<and> dominates_in E r d y \<and> (\<forall>x. dominates_in E r x y \<longrightarrow> x \<noteq> y \<longrightarrow> dominates_in E r x d)"
    (is "_ \<longleftrightarrow> ?R d")
proof -
  let ?I = "hm_get (dt_idom dt)"
  note f = idom_finalD [OF dom_tree_okD(2) [OF T]]
  have R: "?R e" if "dt_idom_of dt y = Some e" for e
  proof -
    have e: "?I y = Some e" "y \<noteq> r" using that dt_idom_of_iff [OF T] by blast+
    have "e \<in> set rpo" using ranked_mapD(3) [OF f(2) e(1)] f(3) by blast
    moreover have "chain ?I y = insert y (chain ?I e)" using chain_unfold [of ?I y] e(1) by simp
    moreover have "e \<noteq> y" using ranked_mapD(2) [OF f(2) e] by blast
    ultimately show ?thesis using f(4) y by (metis chain_self insert_iff)
  qed
  have un: "e = d" if "?R e" "?R d" for e
  proof -
    have c: "e \<in> chain ?I y" "d \<in> chain ?I y" using that f(4) [OF y] by blast+
    have de: "e \<in> set rpo" "d \<in> set rpo" using c chain_dom(1) [OF f(2)] y f(3) by blast+
    then have "e \<in> chain ?I d" "d \<in> chain ?I e" using that f(4) by blast+
    then have "chain ?I e = chain ?I d" by (intro equalityI) (erule chain_subset)+
    then show ?thesis using chain_eq_imp_eq [OF f(2)] de f(3) by blast
  qed
  show ?thesis
  proof
    assume "dt_idom_of dt y = Some d"
    then show "?R d" by (rule R)
  next
    assume d: "?R d"
    then have "y \<noteq> r" using dominates_in_root [of E r] by blast
    moreover obtain e where "?I y = Some e" using y f(3) by blast
    ultimately have "dt_idom_of dt y = Some e" using dt_idom_of_iff [OF T] by blast
    then show "dt_idom_of dt y = Some d" using un [OF R d] by simp
  qed
qed


section \<open>Walks over the tree\<close>

text \<open>The stacks hold blocks none of which dominates another, so their subtrees are disjoint.\<close>

definition apart :: "idom_map \<Rightarrow> u64 list \<Rightarrow> bool" where
  "apart idom stack \<longleftrightarrow> distinct stack \<and> set stack \<subseteq> dom (hm_get idom) \<and>
     (\<forall>u \<in> set stack. \<forall>v \<in> set stack. u \<in> chain (hm_get idom) v \<longrightarrow> u = v)"

lemma apart_step:
  assumes F: "idom_final E r rpo idom" and A: "apart idom (b # stack)"
    and cs: "set cs = set (children_of (build_children idom) b)" "distinct cs"
  shows "apart idom (cs @ stack)"
    and "below idom (set (cs @ stack)) = below idom (set (b # stack)) - {b}"
    and "b \<in> below idom (set (b # stack))"
proof -
  let ?I = "hm_get idom"
  note ch = chain_child [OF F, of _ b, folded cs(1)]
  note f = idom_finalD [OF F]
  have b: "b \<in> dom ?I" "b \<notin> set stack" "\<And>v. v \<in> set stack \<Longrightarrow> b \<notin> chain ?I v"
    "\<And>v. v \<in> set stack \<Longrightarrow> v \<notin> chain ?I b"
    using A unfolding apart_def by (simp_all, blast+)
  have kid: "c \<notin> chain ?I v" "v \<notin> chain ?I c" if "c \<in> set cs" "v \<in> set stack" for c v
  proof -
    have "b \<in> chain ?I c" using ch(6) [OF that(1)] by simp
    then show c: "c \<notin> chain ?I v" using b(3) [OF that(2)] chain_trans [of b ?I c v] by blast
    have "v \<noteq> c" using c chain_self [of v ?I] by blast
    then show "v \<notin> chain ?I c" unfolding ch(6) [OF that(1)] using b(4) [OF that(2)] by blast
  qed
  have kids: "c = c'" if "c \<in> set cs" "c' \<in> set cs" "c \<in> chain ?I c'" for c c'
    using that ch(6) [OF that(2)] ch(5) [OF that(1)] chain_dom(2) [OF f(2) b(1), of c] by fastforce
  have disj: "set cs \<inter> set stack = {}" using kid(1) by fastforce
  show "apart idom (cs @ stack)"
    unfolding apart_def
  proof (intro conjI ballI impI)
    show "distinct (cs @ stack)" using A cs(2) disj by (simp add: apart_def)
    show "set (cs @ stack) \<subseteq> dom ?I" using ch(2) A by (auto simp: apart_def)
    fix u v assume "u \<in> set (cs @ stack)" "v \<in> set (cs @ stack)" "u \<in> chain ?I v"
    then show "u = v" using kid kids A by (auto simp: apart_def)
  qed
  have "b \<notin> below idom (set stack)" using b(4) by (auto simp: below_def)
  moreover have "below idom (set (b # stack)) = below idom {b} \<union> below idom (set stack)"
    "below idom (set (cs @ stack)) = below idom (set cs) \<union> below idom (set stack)"
    by (auto simp: below_def)
  ultimately show "below idom (set (cs @ stack)) = below idom (set (b # stack)) - {b}"
    and "b \<in> below idom (set (b # stack))"
    using below_unfold [OF F b(1), folded cs(1)] by auto
qed

lemma finite_below: "idom_final E r rpo idom \<Longrightarrow> finite (below idom S)"
  using idom_finalD(3) unfolding below_def by (metis (no_types, lifting) List.finite_set finite_subset mem_Collect_eq subsetI)

text \<open>No block in the list dominates one that comes before it.\<close>

definition top_down :: "idom_map \<Rightarrow> u64 list \<Rightarrow> bool" where
  "top_down idom out \<longleftrightarrow> sorted_wrt (\<lambda>u v. v \<notin> chain (hm_get idom) u) out"

lemma preorder_loop_spec:
  assumes T: "dom_tree_ok E r rpo preds_of addrs dt" and A: "apart (dt_idom dt) stack"
  shows "\<exists>out. preorder_loop dt stack res = Some (res @ out) \<and> distinct out \<and>
    set out = below (dt_idom dt) (set stack) \<and> top_down (dt_idom dt) out"
  using A
proof (induction "card (below (dt_idom dt) (set stack))" arbitrary: stack res rule: less_induct)
  case less
  let ?i = "dt_idom dt"
  note t = dom_tree_okD [OF T]
  show ?case
  proof (cases stack)
    case Nil
    have "preorder_loop dt [] res = Some (res @ [])" by (simp add: preorder_loop.simps [of dt "[]"])
    then show ?thesis using Nil by (auto simp: below_def top_down_def)
  next
    case (Cons b rest)
    let ?cs = "children_of (build_children ?i) b"
    have cs: "dt_children_of dt b = ?cs" by (simp add: dt_children_of_def t(3))
    note st = apart_step [OF t(2) less.prems [unfolded Cons] refl
        set_children_of(2) [OF idom_finalD(1) [OF t(2)]]]
    have "card (below ?i (set (?cs @ rest))) < card (below ?i (set stack))"
      using st(2,3) finite_below [OF t(2)] unfolding Cons by (metis card_Diff1_less)
    then obtain out where out: "preorder_loop dt (?cs @ rest) (res @ [b]) = Some (res @ [b] @ out)"
      "distinct out" "set out = below ?i (set (?cs @ rest))" "top_down ?i out"
      using less.hyps [OF _ st(1), of "res @ [b]"] by auto
    have "v \<notin> chain (hm_get ?i) b" if v_out: "v \<in> set out" for v
    proof
      assume v: "v \<in> chain (hm_get ?i) b"
      obtain u where u: "u \<in> set (?cs @ rest)" "u \<in> chain (hm_get ?i) v"
        using v_out unfolding out(3) below_def by blast
      from u(2) v have ub: "u \<in> chain (hm_get ?i) b" by (rule chain_trans)
      show False
      proof (cases "u \<in> set ?cs")
        case True
        then show False using chain_child(7) [OF t(2)] ub by blast
      next
        case False
        then show False using u(1) ub less.prems unfolding Cons apart_def by auto
      qed
    qed
    then have "top_down ?i (b # out)" using out(4) by (simp add: top_down_def)
    moreover have "set (b # out) = below ?i (set stack)" "distinct (b # out)"
      using st(2,3) out(2,3) unfolding Cons by auto
    moreover have "preorder_loop dt stack res = Some (res @ b # out)"
      using out(1) by (simp add: preorder_loop.simps [of dt "b # rest"] Cons cs)
    ultimately show ?thesis by blast
  qed
qed

lemma dominated_loop_spec:
  assumes T: "dom_tree_ok E r rpo preds_of addrs dt" and A: "apart (dt_idom dt) stack"
  shows "\<exists>out. dominated_loop dt stack res = Some (res @ out) \<and> distinct (stack @ out) \<and>
    set (stack @ out) = below (dt_idom dt) (set stack)"
  using A
proof (induction "card (below (dt_idom dt) (set stack))" arbitrary: stack res rule: less_induct)
  case less
  let ?i = "dt_idom dt"
  note t = dom_tree_okD [OF T]
  show ?case
  proof (cases stack)
    case Nil
    have "dominated_loop dt [] res = Some (res @ [])" by (simp add: dominated_loop.simps [of dt "[]"])
    then show ?thesis using Nil by (auto simp: below_def)
  next
    case (Cons b rest)
    let ?cs = "children_of (build_children ?i) b"
    have cs: "dt_children_of dt b = ?cs" by (simp add: dt_children_of_def t(3))
    have "set (rev ?cs) = set ?cs" "distinct (rev ?cs)"
      using set_children_of(2) [OF idom_finalD(1) [OF t(2)]] by simp_all
    note st = apart_step [OF t(2) less.prems [unfolded Cons] this]
    have "card (below ?i (set (rev ?cs @ rest))) < card (below ?i (set stack))"
      using st(2,3) finite_below [OF t(2)] unfolding Cons by (metis card_Diff1_less)
    then obtain out where out: "dominated_loop dt (rev ?cs @ rest) (res @ ?cs) = Some (res @ ?cs @ out)"
      "distinct ((rev ?cs @ rest) @ out)" "set ((rev ?cs @ rest) @ out) = below ?i (set (rev ?cs @ rest))"
      using less.hyps [OF _ st(1), of "res @ ?cs"] by auto
    have "b \<notin> set ((rev ?cs @ rest) @ out)" using out(3) st(2) by auto
    then have "distinct (stack @ ?cs @ out)" using out(2) by (auto simp: Cons)
    moreover have "set (stack @ ?cs @ out) = below ?i (set stack)"
      using st(2,3) out(3) unfolding Cons by auto
    moreover have "dominated_loop dt stack res = Some (res @ ?cs @ out)"
      using out(1) by (simp add: dominated_loop.simps [of dt "b # rest"] Cons cs)
    ultimately show ?thesis by blast
  qed
qed

section \<open>Iterated frontiers\<close>

definition frontier_closure :: "DomTree \<Rightarrow> u64 set \<Rightarrow> u64 set \<Rightarrow> u64 set" where
  "frontier_closure dt S X = (\<Union>b \<in> S \<union> X. set (dt_frontier_of dt b))"

lemma mono_frontier_closure: "mono (frontier_closure dt S)"
  by (auto simp: mono_def frontier_closure_def)

lemma frontier_push_sets:
  "fst (frontier_push fs res wl) = res \<union> set fs"
  "set (snd (frontier_push fs res wl)) = set wl \<union> (set fs - res)"
  by (induction fs arbitrary: res wl) auto

lemma finite_frontiers: "finite (\<Union>b. set (dt_frontier_of dt b))"
proof -
  have "dt_frontier_of dt b \<in> insert [] ((\<lambda>(k, s). sorted_list_of_set s) ` set (dt_frontier dt))" for b
    by (cases "hm_get (dt_frontier dt) b")
      (force simp: dt_frontier_of_def hm_get_def dest!: map_of_SomeD)+
  then have "(\<Union>b. set (dt_frontier_of dt b)) \<subseteq>
      (\<Union>l \<in> insert [] ((\<lambda>(k, s). sorted_list_of_set s) ` set (dt_frontier dt)). set l)"
    by blast
  then show ?thesis by (rule finite_subset) auto
qed

text \<open>The loop ends: a round takes a block off the worklist, or marks a new one as processed.\<close>

lemma iterated_loop_spec:
  assumes U: "S \<union> (\<Union>b. set (dt_frontier_of dt b)) \<subseteq> U" "finite U"
    and "set wl \<union> processed \<subseteq> S \<union> res" "S \<union> res \<subseteq> set wl \<union> processed"
    and "res = (\<Union>b \<in> processed. set (dt_frontier_of dt b))"
    and "res \<subseteq> lfp (frontier_closure dt S)"
  shows "iterated_loop dt wl processed res = Some (lfp (frontier_closure dt S))"
  using assms(3-6)
proof (induction "(wl, processed, res)" arbitrary: wl processed res
    rule: wf_induct_rule [OF wf_measures
      [of "[\<lambda>(wl, processed, res). card (U - processed), \<lambda>(wl, processed, res). length wl]"]])
  case 1
  note IH = 1(1) and inv = 1(2-5)
  let ?L = "lfp (frontier_closure dt S)"
  have fix_L: "?L = frontier_closure dt S ?L" by (rule lfp_unfold [OF mono_frontier_closure])
  show ?case
  proof (cases wl)
    case Nil
    have "processed = S \<union> res" using inv(1,2) Nil by auto
    then have "frontier_closure dt S res \<subseteq> res" using inv(3) by (simp add: frontier_closure_def)
    then have "res = ?L" using inv(4) lfp_lowerbound [of "frontier_closure dt S" res] by blast
    then show ?thesis using Nil by (simp add: iterated_loop.simps [of dt "[]"])
  next
    case (Cons b rest)
    show ?thesis
    proof (cases "b \<in> processed")
      case True
      have "iterated_loop dt rest processed res = Some ?L"
        by (rule IH) (use inv Cons True in auto)
      then show ?thesis using True by (simp add: iterated_loop.simps [of dt "b # rest"] Cons)
    next
      case False
      let ?fs = "rev (sort (dt_frontier_of dt b))"
      let ?rw = "frontier_push ?fs res rest" and ?N = "set (dt_frontier_of dt b)"
      have rw: "fst ?rw = res \<union> ?N" "set (snd ?rw) = set rest \<union> (?N - res)"
        by (simp_all add: frontier_push_sets)
      have b: "b \<in> S \<union> res" using inv(1) Cons by auto
      then have "b \<in> U" using inv(3) U(1) by blast
      then have less: "card (U - insert b processed) < card (U - processed)"
        using False U(2) by (intro psubset_card_mono) auto
      have N: "?N \<subseteq> ?L" using b inv(4) by (subst fix_L) (auto simp: frontier_closure_def)
      have "iterated_loop dt (snd ?rw) (insert b processed) (fst ?rw) = Some ?L"
      proof (rule IH)
        show "set (snd ?rw) \<union> insert b processed \<subseteq> S \<union> fst ?rw" using inv(1) b Cons unfolding rw by auto
        show "S \<union> fst ?rw \<subseteq> set (snd ?rw) \<union> insert b processed" using inv(2) Cons unfolding rw by auto
        show "fst ?rw = (\<Union>b \<in> insert b processed. set (dt_frontier_of dt b))" using inv(3) unfolding rw by auto
        show "fst ?rw \<subseteq> ?L" using inv(4) N unfolding rw by blast
      qed (use less in simp)
      then show ?thesis using False by (simp add: iterated_loop.simps [of dt "b # rest"] Cons Let_def)
    qed
  qed
qed

lemma iterated_frontier_spec:
  "iterated_frontier dt blocks = Some (lfp (frontier_closure dt (set blocks)))"
  unfolding iterated_frontier_def
  by (rule iterated_loop_spec [of "set blocks" dt "set blocks \<union> (\<Union>b. set (dt_frontier_of dt b))"])
    (use finite_frontiers in auto)

end
