(* ===== verification/SSA_Dom_Props.thy ===== *)
theory SSA_Dom_Props
  imports SSA_Dom_Tree
begin

text \<open>
  The properties of the dominator tree of a control flow graph, and the graphs they are tried on.
\<close>

section \<open>Shared facts\<close>

lemma set_dt_frontier_of:
  assumes "dom_tree_ok E r rpo preds_of addrs dt"
  shows "set (dt_frontier_of dt x) = {y \<in> set addrs. frontier_hit preds_of (dt_idom dt) x y}"
proof -
  have "finite (frontier_at (dt_frontier dt) x)" unfolding dom_tree_okD(5) [OF assms] by simp
  then have "set (dt_frontier_of dt x) = frontier_at (dt_frontier dt) x"
    unfolding dt_frontier_of_def frontier_at_def by simp
  then show ?thesis unfolding dom_tree_okD(5) [OF assms] .
qed

lemma dom_compute_tree:
  assumes "petgraph_ok G" "cfg_inv G cfg" "get_node cfg (cfg_entry cfg) \<noteq> None"
    and "dom_compute G cfg = Some dt"
  shows "dom_setup (edge_rel G cfg) (cfg_entry cfg) (reverse_postorder G cfg) (cfg_predecessors G cfg)"
    and "dom_tree_ok (edge_rel G cfg) (cfg_entry cfg) (reverse_postorder G cfg) (cfg_predecessors G cfg)
      (block_addrs cfg) dt"
    and "set (reverse_postorder G cfg) = reachable_addrs G cfg"
proof -
  obtain i where i: "get_node cfg (cfg_entry cfg) = Some i" using assms(3) by blast
  show S: "dom_setup (edge_rel G cfg) (cfg_entry cfg) (reverse_postorder G cfg) (cfg_predecessors G cfg)"
    by (rule cfg_dom_setup [OF assms(1,2) i])
  show "dom_tree_ok (edge_rel G cfg) (cfg_entry cfg) (reverse_postorder G cfg) (cfg_predecessors G cfg)
      (block_addrs cfg) dt" using dom_compute_spec [OF assms(1,2) i] assms(4) by auto
  show "set (reverse_postorder G cfg) = reachable_addrs G cfg"
    using dom_setupD(4) [OF S] i by (simp add: reachable_addrs_def)
qed

lemma edge_in_block_addrs:
  assumes "cfg_inv G cfg" "(p, y) \<in> edge_rel G cfg"
  shows "y \<in> set (block_addrs cfg)"
  using edge_rel_live [OF assms] by (simp add: block_addrs_def get_node_def hm_get_None)

lemma root_dominates: "dominates_in E r r y"
proof -
  have "r \<in> set us" if "rpath E r us" for us
    using that by (induction rule: rpath.induct) simp_all
  then show ?thesis unfolding dominates_in_def by blast
qed

text \<open>A block that branches to two blocks that meet again; one of them writes a register.\<close>

definition diamond_blocks :: "R2ILBlock list" where
  "diamond_blocks =
     [block_push (block_new 0x1000 4) (CBranch (varnode_ram 0x1008 8) (varnode_register 0 1)),
      block_push (block_push (block_new 0x1004 4) (Copy (varnode_register 8 8) (varnode_constant 1 8)))
        (Branch (varnode_ram 0x100c 8)),
      block_new 0x1008 4,
      block_push (block_new 0x100c 4) (Return (varnode_register 8 8))]"

lemmas diamond_simps = diamond_blocks_def loop_blocks_simps

definition diamond_succs :: "u64 \<Rightarrow> u64 list" where
  "diamond_succs a =
     (if a = 0x1000 then [0x1008, 0x1004] else if a = 0x1004 then [0x100c]
      else if a = 0x1008 then [0x100c] else [])"

lemma diamond_blocks_at:
  assumes "block_at diamond_blocks a = Some b"
  shows "set (bb_successors (bb_from_r2il b)) = set (diamond_succs a)"
  using assms by (auto simp: diamond_simps diamond_succs_def split: if_splits)

lemma diamond_block_at_None:
  "block_at diamond_blocks a \<noteq> None \<longleftrightarrow> a \<in> {0x1000, 0x1004, 0x1008, 0x100c}"
  by (auto simp: diamond_simps split: if_splits)

lemma diamond_graph:
  assumes "from_blocks stack_graph diamond_blocks = Some cfg"
  shows "petgraph_ok stack_graph" "cfg_inv stack_graph cfg"
    and "cfg_entry cfg = 0x1000" "get_node cfg (cfg_entry cfg) \<noteq> None"
    and "edge_rel stack_graph cfg = {(0x1000, 0x1004), (0x1000, 0x1008), (0x1004, 0x100c), (0x1008, 0x100c)}"
proof -
  show ok: "petgraph_ok stack_graph" by (rule list_petgraph_ok) simp
  note o = from_blocks_obs [OF ok assms]
  show "cfg_inv stack_graph cfg" by (rule o(1))
  show e: "cfg_entry cfg = 0x1000" by (simp add: o(2) diamond_simps)
  have "get_block stack_graph cfg 0x1000 \<noteq> None" by (simp add: o(3) diamond_simps)
  then show "get_node cfg (cfg_entry cfg) \<noteq> None" unfolding e get_block_def by auto
  have "(a, t) \<in> edge_rel stack_graph cfg \<longleftrightarrow>
      block_at diamond_blocks a \<noteq> None \<and> t \<in> set (diamond_succs a) \<and> block_at diamond_blocks t \<noteq> None" for a t
    unfolding o(4) by (cases "block_at diamond_blocks a") (simp_all add: diamond_blocks_at)
  then have "edge_rel stack_graph cfg = {(a, t). block_at diamond_blocks a \<noteq> None \<and> t \<in> set (diamond_succs a) \<and>
      block_at diamond_blocks t \<noteq> None}" by auto
  also have "\<dots> = {(0x1000, 0x1004), (0x1000, 0x1008), (0x1004, 0x100c), (0x1008, 0x100c)}"
    unfolding diamond_block_at_None by (auto simp: diamond_succs_def split: if_splits)
  finally show "edge_rel stack_graph cfg = {(0x1000, 0x1004), (0x1000, 0x1008), (0x1004, 0x100c), (0x1008, 0x100c)}" .
qed

section \<open>Properties\<close>

text \<open>C5. \<open>compute\<close> always returns, and the tree it builds answers dominance exactly: for a block the
  entry reaches, \<open>dominates(a, b)\<close> terminates and is true just when every path from the entry to
  \<open>b\<close> passes through \<open>a\<close>.\<close>

theorem dominator_tree_correct:
  assumes "petgraph_ok G" "cfg_inv G cfg" "get_node cfg (cfg_entry cfg) \<noteq> None"
  shows "\<exists>dt. dom_compute G cfg = Some dt \<and>
    (\<forall>a b. dt_dominates dt a b =
       Some (a = b \<or> b \<in> reachable_addrs G cfg \<and> dominates_in (edge_rel G cfg) (cfg_entry cfg) a b))"
proof -
  obtain i where "get_node cfg (cfg_entry cfg) = Some i" using assms(3) by blast
  then obtain dt where dt: "dom_compute G cfg = Some dt" using dom_compute_spec [OF assms(1,2)] by blast
  note t = dom_compute_tree [OF assms dt]
  show ?thesis using dt dt_dominates_spec [OF t(2)] unfolding t(3) by blast
qed

theorem dominator_tree_correct_witness:
  "\<exists>cfg dt. from_blocks stack_graph diamond_blocks = Some cfg \<and> dom_compute stack_graph cfg = Some dt \<and>
     dt_dominates dt 0x1000 0x100c = Some True \<and> dt_dominates dt 0x1004 0x100c = Some False"
proof -
  obtain cfg where cfg: "from_blocks stack_graph diamond_blocks = Some cfg"
    by (simp add: from_blocks_def diamond_blocks_def Let_def)
  note d = diamond_graph [OF cfg]
  obtain dt where dt: "dom_compute stack_graph cfg = Some dt" "\<And>a b. dt_dominates dt a b =
      Some (a = b \<or> b \<in> reachable_addrs stack_graph cfg \<and> dominates_in (edge_rel stack_graph cfg) (cfg_entry cfg) a b)"
    using dominator_tree_correct [OF d(1,2,4)] by blast
  have p: "rpath (edge_rel stack_graph cfg) 0x1000 [0x100c, 0x1008, 0x1000]" unfolding d(5) by simp
  then have "(0x1000, 0x100c) \<in> (edge_rel stack_graph cfg)\<^sup>*" using rpath_reaches [OF p] by simp
  then have "0x100c \<in> reachable_addrs stack_graph cfg" using d(3,4) by (simp add: reachable_addrs_def)
  moreover have "\<not> dominates_in (edge_rel stack_graph cfg) 0x1000 0x1004 0x100c"
    using p unfolding dominates_in_def by (auto intro!: exI [of _ "[0x1008, 0x1000]"])
  moreover have "dominates_in (edge_rel stack_graph cfg) 0x1000 0x1000 0x100c"
    using root_dominates [of "edge_rel stack_graph cfg" "0x1000"] .
  ultimately show ?thesis using cfg dt d(3) by simp
qed


text \<open>The tree itself: the immediate dominator of a reachable block is its nearest strict
  dominator, and the depth recorded for a reachable block is the number of its strict dominators.\<close>

theorem idom_and_depth:
  assumes "petgraph_ok G" "cfg_inv G cfg" "get_node cfg (cfg_entry cfg) \<noteq> None"
    and "dom_compute G cfg = Some dt" "y \<in> reachable_addrs G cfg"
  shows "(dt_idom_of dt y = Some d \<longleftrightarrow>
      d \<noteq> y \<and> dominates_in (edge_rel G cfg) (cfg_entry cfg) d y \<and>
      (\<forall>x. dominates_in (edge_rel G cfg) (cfg_entry cfg) x y \<longrightarrow> x \<noteq> y \<longrightarrow>
           dominates_in (edge_rel G cfg) (cfg_entry cfg) x d)) \<and>
    dt_depth_of dt y = card {x. dominates_in (edge_rel G cfg) (cfg_entry cfg) x y \<and> x \<noteq> y}"
proof -
  note t = dom_compute_tree [OF assms(1-4)]
  have y: "y \<in> set (reverse_postorder G cfg)" using assms(5) t(3) by blast
  note f = idom_finalD [OF dom_tree_okD(2) [OF t(2)]]
  let ?C = "chain (hm_get (dt_idom dt)) y"
  have C: "?C = {x. dominates_in (edge_rel G cfg) (cfg_entry cfg) x y}" using f(4) [OF y] by blast
  have "y \<in> ?C" by (rule chain_self)
  moreover have "finite ?C"
    using chain_dom(1) [OF f(2)] y f(3) by (metis List.finite_set finite_subset subsetI)
  ultimately have "card (?C - {y}) = card ?C - 1" by simp
  moreover have "?C - {y} = {x. dominates_in (edge_rel G cfg) (cfg_entry cfg) x y \<and> x \<noteq> y}"
    unfolding C by blast
  ultimately have "dt_depth_of dt y = card {x. dominates_in (edge_rel G cfg) (cfg_entry cfg) x y \<and> x \<noteq> y}"
    using dom_tree_okD(4) [OF t(2), of y] y by (simp add: dt_depth_of_def height_def)
  with dt_idom_of_spec [OF t(2) y] show ?thesis by blast
qed

lemma diamond_tree:
  assumes "from_blocks stack_graph diamond_blocks = Some cfg"
  shows "\<exists>dt. dom_compute stack_graph cfg = Some dt"
    and "{0x1000, 0x1004, 0x1008, 0x100c} \<subseteq> reachable_addrs stack_graph cfg"
    and "dominates_in (edge_rel stack_graph cfg) 0x1000 x 0x100c \<longleftrightarrow> x = 0x1000 \<or> x = 0x100c"
    and "\<not> dominates_in (edge_rel stack_graph cfg) 0x1000 0x1004 0x100c"
proof -
  note d = diamond_graph [OF assms]
  obtain i where "get_node cfg (cfg_entry cfg) = Some i" using d(4) by blast
  then show "\<exists>dt. dom_compute stack_graph cfg = Some dt" using dom_compute_spec [OF d(1,2)] by blast
  let ?E = "edge_rel stack_graph cfg"
  have p: "rpath ?E 0x1000 [0x1000]" "rpath ?E 0x1000 [0x100c, 0x1008, 0x1000]"
    "rpath ?E 0x1000 [0x100c, 0x1004, 0x1000]" "rpath ?E 0x1000 [0x1004, 0x1000]"
    "rpath ?E 0x1000 [0x1008, 0x1000]" unfolding d(5) by simp_all
  from p [THEN rpath_reaches] show "{0x1000, 0x1004, 0x1008, 0x100c} \<subseteq> reachable_addrs stack_graph cfg"
    using d(3,4) by (simp add: reachable_addrs_def)
  have "x \<in> {0x100c, 0x1008, 0x1000} \<inter> {0x100c, 0x1004, 0x1000}"
    if "dominates_in ?E 0x1000 x 0x100c" for x
    using that p(2,3) unfolding dominates_in_def by (metis IntI list.set(1) list.set(2))
  then show iff: "dominates_in ?E 0x1000 x 0x100c \<longleftrightarrow> x = 0x1000 \<or> x = 0x100c" for x
    using root_dominates [of ?E "0x1000" "0x100c"] by fastforce
  show "\<not> dominates_in ?E 0x1000 0x1004 0x100c" unfolding iff by simp
qed

theorem idom_and_depth_witness:
  "\<exists>cfg dt. from_blocks stack_graph diamond_blocks = Some cfg \<and> dom_compute stack_graph cfg = Some dt \<and>
     dt_idom_of dt 0x100c = Some 0x1000 \<and> dt_depth_of dt 0x100c = 1"
proof -
  obtain cfg where cfg: "from_blocks stack_graph diamond_blocks = Some cfg"
    by (simp add: from_blocks_def diamond_blocks_def Let_def)
  note d = diamond_graph [OF cfg] and t = diamond_tree [OF cfg]
  obtain dt where dt: "dom_compute stack_graph cfg = Some dt" using t(1) by blast
  have "0x100c \<in> reachable_addrs stack_graph cfg" using t(2) by blast
  note th = idom_and_depth [OF d(1,2,4) dt this, of "0x1000", unfolded d(3) t(3)]
  have "{x::u64. (x = 0x1000 \<or> x = 0x100c) \<and> x \<noteq> 0x100c} = {0x1000}" by auto
  with th cfg dt show ?thesis by (auto simp: dominates_in_root)
qed

text \<open>C27. Dominance frontiers: for a reachable block \<open>x\<close> and a block \<open>y\<close> other than the entry, \<open>y\<close>
  is in the frontier of \<open>x\<close> just when \<open>x\<close> dominates a reachable predecessor of \<open>y\<close> without strictly
  dominating \<open>y\<close>. The code's shortcut of looking only at blocks with two predecessors is sound.\<close>

theorem frontier_correct:
  assumes "petgraph_ok G" "cfg_inv G cfg" "get_node cfg (cfg_entry cfg) \<noteq> None"
    and "dom_compute G cfg = Some dt" "x \<in> reachable_addrs G cfg" "y \<noteq> cfg_entry cfg"
  shows "y \<in> set (dt_frontier_of dt x) \<longleftrightarrow>
    (\<exists>p \<in> reachable_addrs G cfg. y \<in> set (cfg_successors G cfg p) \<and>
       dominates_in (edge_rel G cfg) (cfg_entry cfg) x p) \<and>
    \<not> (dominates_in (edge_rel G cfg) (cfg_entry cfg) x y \<and> x \<noteq> y)"
proof -
  note t = dom_compute_tree [OF assms(1-4)]
  have x: "x \<in> set (reverse_postorder G cfg)" using assms(5) t(3) by blast
  have "y \<in> set (dt_frontier_of dt x) \<longleftrightarrow>
      y \<in> set (block_addrs cfg) \<and> frontier_hit (cfg_predecessors G cfg) (dt_idom dt) x y"
    unfolding set_dt_frontier_of [OF t(2)] by simp
  then show ?thesis
    unfolding frontier_hit_iff [OF t(1) dom_tree_okD(2) [OF t(2)] x assms(6)] t(3)
      set_cfg_successors [OF assms(1,2)]
    using edge_in_block_addrs [OF assms(2)] by blast
qed

theorem frontier_correct_witness:
  "\<exists>cfg dt. from_blocks stack_graph diamond_blocks = Some cfg \<and> dom_compute stack_graph cfg = Some dt \<and>
     0x100c \<in> set (dt_frontier_of dt 0x1004) \<and> 0x100c \<notin> set (dt_frontier_of dt 0x1000)"
proof -
  obtain cfg where cfg: "from_blocks stack_graph diamond_blocks = Some cfg"
    by (simp add: from_blocks_def diamond_blocks_def Let_def)
  note d = diamond_graph [OF cfg] and t = diamond_tree [OF cfg]
  obtain dt where dt: "dom_compute stack_graph cfg = Some dt" using t(1) by blast
  have r: "0x1004 \<in> reachable_addrs stack_graph cfg" "0x1000 \<in> reachable_addrs stack_graph cfg"
    and y: "0x100c \<noteq> cfg_entry cfg" using t(2) d(3) by simp_all
  have "0x100c \<in> set (cfg_successors stack_graph cfg 0x1004)"
    unfolding set_cfg_successors [OF d(1,2)] d(5) by simp
  then have "0x100c \<in> set (dt_frontier_of dt 0x1004)"
    using frontier_correct [OF d(1,2,4) dt r(1) y] t(4) r(1) unfolding d(3)
    by (auto intro!: bexI [of _ "0x1004"])
  moreover have "0x100c \<notin> set (dt_frontier_of dt 0x1000)"
    using frontier_correct [OF d(1,2,4) dt r(2) y] unfolding d(3) t(3) by simp
  ultimately show ?thesis using cfg dt by blast
qed

text \<open>The walks: \<open>preorder\<close> terminates and lists each reachable block once, a dominator before
  what it dominates; \<open>dominated_by\<close> terminates and lists each block the given one dominates once.\<close>

theorem tree_walks:
  assumes "petgraph_ok G" "cfg_inv G cfg" "get_node cfg (cfg_entry cfg) \<noteq> None"
    and "dom_compute G cfg = Some dt" "b \<in> reachable_addrs G cfg"
  shows "(\<exists>out. dom_preorder dt = Some out \<and> distinct out \<and> set out = reachable_addrs G cfg \<and>
      sorted_wrt (\<lambda>u v. \<not> dominates_in (edge_rel G cfg) (cfg_entry cfg) v u) out) \<and>
    (\<exists>out. dominated_by dt b = Some out \<and> distinct out \<and>
      set out = {y \<in> reachable_addrs G cfg. dominates_in (edge_rel G cfg) (cfg_entry cfg) b y})"
proof -
  note t = dom_compute_tree [OF assms(1-4)]
  note f = idom_finalD [OF dom_tree_okD(2) [OF t(2)]]
  have ap: "apart (dt_idom dt) [a]" if "a \<in> set (reverse_postorder G cfg)" for a
    using that f(3) by (simp add: apart_def)
  have bl: "below (dt_idom dt) {a} =
      {y \<in> reachable_addrs G cfg. dominates_in (edge_rel G cfg) (cfg_entry cfg) a y}" for a
    using f(3,4) unfolding below_def t(3) by blast
  have r: "cfg_entry cfg \<in> set (reverse_postorder G cfg)" using dom_setupD(2,3) [OF t(1)] by (metis hd_in_set)
  obtain out where out: "preorder_loop dt [cfg_entry cfg] [] = Some out" "distinct out"
    "set out = below (dt_idom dt) {cfg_entry cfg}" "top_down (dt_idom dt) out"
    using preorder_loop_spec [OF t(2) ap [OF r], of "[]"] by auto
  have so: "set out = reachable_addrs G cfg" unfolding out(3) bl by (simp add: root_dominates)
  have "sorted_wrt (\<lambda>u v. \<not> dominates_in (edge_rel G cfg) (cfg_entry cfg) v u) out"
    using out(4) f(4) so t(3) unfolding top_down_def
    by (elim sorted_wrt_mono_rel [rotated]) blast
  moreover obtain out2 where o2: "dominated_loop dt [b] [b] = Some ([b] @ out2)" "distinct ([b] @ out2)"
    "set ([b] @ out2) = below (dt_idom dt) {b}"
    using dominated_loop_spec [OF t(2) ap, of b "[b]"] assms(5) t(3) by auto
  ultimately show ?thesis
    using out so unfolding dom_preorder_def dominated_by_def dom_tree_okD(1) [OF t(2)] bl by blast
qed

theorem tree_walks_witness:
  "\<exists>cfg dt out. from_blocks stack_graph diamond_blocks = Some cfg \<and> dom_compute stack_graph cfg = Some dt \<and>
     dominated_by dt 0x100c = Some out \<and> distinct out \<and> 0x100c \<in> set out \<and> 0x1000 \<notin> set out"
proof -
  obtain cfg where cfg: "from_blocks stack_graph diamond_blocks = Some cfg"
    by (simp add: from_blocks_def diamond_blocks_def Let_def)
  note d = diamond_graph [OF cfg] and t = diamond_tree [OF cfg]
  obtain dt where dt: "dom_compute stack_graph cfg = Some dt" using t(1) by blast
  have r: "0x100c \<in> reachable_addrs stack_graph cfg" using t(2) by blast
  from tree_walks [OF d(1,2,4) dt r] r cfg dt show ?thesis
    unfolding d(3) by (auto simp: dominates_in_root)
qed

text \<open>C28. \<open>iterated_frontier\<close> terminates on every tree and returns the least set that contains the
  frontiers of the given blocks and of its own members.\<close>

theorem iterated_frontier_least:
  "iterated_frontier dt blocks =
     Some (lfp (\<lambda>X. \<Union>b \<in> set blocks \<union> X. set (dt_frontier_of dt b)))"
  using iterated_frontier_spec [of dt blocks] unfolding frontier_closure_def [abs_def] .

text \<open>The entry block is never in its own frontier, also when an edge leads back to it, where
  the definition of frontiers requires it: a variable redefined in a loop whose header is the entry
  block gets no phi there.\<close>

theorem entry_never_in_own_frontier:
  assumes "petgraph_ok G" "cfg_inv G cfg" "get_node cfg (cfg_entry cfg) \<noteq> None"
    and "dom_compute G cfg = Some dt"
  shows "cfg_entry cfg \<notin> set (dt_frontier_of dt (cfg_entry cfg))"
proof -
  note t = dom_compute_tree [OF assms]
  note f = idom_finalD [OF dom_tree_okD(2) [OF t(2)]]
  have "idom_or_self (dt_idom dt) (cfg_entry cfg) = cfg_entry cfg"
    using ranked_mapD(1) [OF f(2)] by (simp add: idom_or_self_def)
  then show ?thesis unfolding set_dt_frontier_of [OF t(2)] frontier_hit_def by simp
qed

theorem entry_never_in_own_frontier_witness:
  "\<exists>cfg dt. from_blocks stack_graph loop_blocks = Some cfg \<and> dom_compute stack_graph cfg = Some dt \<and>
     cfg_entry cfg = 0x1000 \<and> 0x1000 \<in> set (cfg_successors stack_graph cfg 0x1000) \<and>
     0x1000 \<notin> set (dt_frontier_of dt 0x1000)"
proof -
  have ok: "petgraph_ok stack_graph" by (rule list_petgraph_ok) simp
  obtain cfg where cfg: "from_blocks stack_graph loop_blocks = Some cfg"
    by (simp add: from_blocks_def loop_blocks_def Let_def)
  note o = from_blocks_obs [OF ok cfg]
  have e: "cfg_entry cfg = 0x1000" by (simp add: o(2) loop_blocks_simps)
  have "get_block stack_graph cfg 0x1000 \<noteq> None" by (simp add: o(3) loop_blocks_simps)
  then obtain i where i: "get_node cfg (cfg_entry cfg) = Some i" unfolding e get_block_def by auto
  then obtain dt where dt: "dom_compute stack_graph cfg = Some dt"
    using dom_compute_spec [OF ok o(1)] by blast
  have "0x1000 \<in> set (cfg_successors stack_graph cfg 0x1000)"
    unfolding set_cfg_successors [OF ok o(1)] o(4) by (simp add: loop_blocks_simps)
  with entry_never_in_own_frontier [OF ok o(1) _ dt] i e cfg dt show ?thesis by auto
qed

end
