(* ===== verification/SSA_Phi.thy ===== *)
theory SSA_Phi
  imports SSA_Op SSA_Dom_Props
begin

text \<open>
  Phi placement: \<open>r2ssa/src/phi.rs\<close>. Sets of blocks are HOL sets; iteration over them in the
  source is always preceded by a sort, which \<open>sorted_list_of_set\<close> is. Placement goes through
  \<open>iterated_frontier\<close>, a loop into \<open>option\<close>, and so returns an option.
\<close>

section \<open>Placement\<close>

record PhiInfo =
  pi_var_name :: string
  pi_var_size :: u32
  pi_predecessors :: "u64 list"

type_synonym PhiPlacement = "(u64, PhiInfo list) hashmap"

definition get_phis :: "PhiPlacement \<Rightarrow> u64 \<Rightarrow> PhiInfo list" where
  "get_phis pl block = (case hm_get pl block of Some ps \<Rightarrow> ps | None \<Rightarrow> [])"

text \<open>The body of the inner loop of \<open>compute\<close>.\<close>

definition phi_place ::
  "(u64 \<Rightarrow> u64 list) \<Rightarrow> (string, u32) hashmap \<Rightarrow> string \<Rightarrow> PhiPlacement \<Rightarrow> u64 \<Rightarrow> PhiPlacement"
where
  "phi_place preds_of var_sizes var_name pl phi_block =
     (let preds = preds_of phi_block in
      if length preds \<ge> 2 then
        (let sz = (case hm_get var_sizes var_name of Some s \<Rightarrow> s | None \<Rightarrow> 8);
             phi_info = \<lparr>pi_var_name = var_name, pi_var_size = sz, pi_predecessors = preds\<rparr>
         in hm_insert phi_block (get_phis pl phi_block @ [phi_info]) pl)
      else pl)"

fun phi_place_vars ::
  "(u64 \<Rightarrow> u64 list) \<Rightarrow> DomTree \<Rightarrow> (string, u32) hashmap \<Rightarrow> (string \<times> u64 set) list \<Rightarrow> PhiPlacement \<Rightarrow>
     PhiPlacement option"
where
  "phi_place_vars preds_of domtree var_sizes [] pl = Some pl"
| "phi_place_vars preds_of domtree var_sizes ((var_name, def_blocks) # ds) pl =
     Option.bind (iterated_frontier domtree (sorted_list_of_set def_blocks)) (\<lambda>phi_blocks.
       phi_place_vars preds_of domtree var_sizes ds
         (foldl (phi_place preds_of var_sizes var_name) pl (sorted_list_of_set phi_blocks)))"

definition phi_key :: "PhiInfo \<Rightarrow> string \<times> u32 \<times> u64 list" where
  "phi_key p = (pi_var_name p, pi_var_size p, pi_predecessors p)"

definition phi_compute ::
  "'g petgraph \<Rightarrow> 'g CFG \<Rightarrow> DomTree \<Rightarrow> (string, u64 set) hashmap \<Rightarrow> (string, u32) hashmap \<Rightarrow>
     PhiPlacement option"
where
  "phi_compute G cfg domtree defs var_sizes =
     map_option (map (\<lambda>(b, ps). (b, sort_key phi_key ps)))
       (phi_place_vars (cfg_predecessors G cfg) domtree var_sizes (sort_key fst defs) [])"

definition has_phis :: "PhiPlacement \<Rightarrow> u64 \<Rightarrow> bool" where
  "has_phis pl block = (case hm_get pl block of Some ps \<Rightarrow> ps \<noteq> [] | None \<Rightarrow> False)"

definition blocks_with_phis :: "PhiPlacement \<Rightarrow> u64 list" where
  "blocks_with_phis pl = sort (map fst pl)"

definition total_phis :: "PhiPlacement \<Rightarrow> nat" where
  "total_phis pl = sum_list (map (\<lambda>(b, ps). length ps) pl)"

section \<open>Definitions\<close>

text \<open>The match of \<open>get_op_output_with_size\<close>.\<close>

definition op_output_varnode :: "R2ILOp \<Rightarrow> Varnode option" where
  "op_output_varnode op =
     (case op of
        R2ILOp.Copy dst _ \<Rightarrow> Some dst
      | R2ILOp.Load dst _ _ \<Rightarrow> Some dst
      | R2ILOp.IntAdd dst _ _ \<Rightarrow> Some dst
      | R2ILOp.IntSub dst _ _ \<Rightarrow> Some dst
      | R2ILOp.IntMult dst _ _ \<Rightarrow> Some dst
      | R2ILOp.IntDiv dst _ _ \<Rightarrow> Some dst
      | R2ILOp.IntSDiv dst _ _ \<Rightarrow> Some dst
      | R2ILOp.IntRem dst _ _ \<Rightarrow> Some dst
      | R2ILOp.IntSRem dst _ _ \<Rightarrow> Some dst
      | R2ILOp.IntNegate dst _ \<Rightarrow> Some dst
      | R2ILOp.IntCarry dst _ _ \<Rightarrow> Some dst
      | R2ILOp.IntSCarry dst _ _ \<Rightarrow> Some dst
      | R2ILOp.IntSBorrow dst _ _ \<Rightarrow> Some dst
      | R2ILOp.IntAnd dst _ _ \<Rightarrow> Some dst
      | R2ILOp.IntOr dst _ _ \<Rightarrow> Some dst
      | R2ILOp.IntXor dst _ _ \<Rightarrow> Some dst
      | R2ILOp.IntNot dst _ \<Rightarrow> Some dst
      | R2ILOp.IntLeft dst _ _ \<Rightarrow> Some dst
      | R2ILOp.IntRight dst _ _ \<Rightarrow> Some dst
      | R2ILOp.IntSRight dst _ _ \<Rightarrow> Some dst
      | R2ILOp.IntEqual dst _ _ \<Rightarrow> Some dst
      | R2ILOp.IntNotEqual dst _ _ \<Rightarrow> Some dst
      | R2ILOp.IntLess dst _ _ \<Rightarrow> Some dst
      | R2ILOp.IntSLess dst _ _ \<Rightarrow> Some dst
      | R2ILOp.IntLessEqual dst _ _ \<Rightarrow> Some dst
      | R2ILOp.IntSLessEqual dst _ _ \<Rightarrow> Some dst
      | R2ILOp.IntZExt dst _ \<Rightarrow> Some dst
      | R2ILOp.IntSExt dst _ \<Rightarrow> Some dst
      | R2ILOp.BoolNot dst _ \<Rightarrow> Some dst
      | R2ILOp.BoolAnd dst _ _ \<Rightarrow> Some dst
      | R2ILOp.BoolOr dst _ _ \<Rightarrow> Some dst
      | R2ILOp.BoolXor dst _ _ \<Rightarrow> Some dst
      | R2ILOp.Piece dst _ _ \<Rightarrow> Some dst
      | R2ILOp.Subpiece dst _ _ \<Rightarrow> Some dst
      | R2ILOp.PopCount dst _ \<Rightarrow> Some dst
      | R2ILOp.Lzcount dst _ \<Rightarrow> Some dst
      | R2ILOp.FloatAdd dst _ _ \<Rightarrow> Some dst
      | R2ILOp.FloatSub dst _ _ \<Rightarrow> Some dst
      | R2ILOp.FloatMult dst _ _ \<Rightarrow> Some dst
      | R2ILOp.FloatDiv dst _ _ \<Rightarrow> Some dst
      | R2ILOp.FloatNeg dst _ \<Rightarrow> Some dst
      | R2ILOp.FloatAbs dst _ \<Rightarrow> Some dst
      | R2ILOp.FloatSqrt dst _ \<Rightarrow> Some dst
      | R2ILOp.FloatCeil dst _ \<Rightarrow> Some dst
      | R2ILOp.FloatFloor dst _ \<Rightarrow> Some dst
      | R2ILOp.FloatRound dst _ \<Rightarrow> Some dst
      | R2ILOp.FloatNaN dst _ \<Rightarrow> Some dst
      | R2ILOp.FloatEqual dst _ _ \<Rightarrow> Some dst
      | R2ILOp.FloatNotEqual dst _ _ \<Rightarrow> Some dst
      | R2ILOp.FloatLess dst _ _ \<Rightarrow> Some dst
      | R2ILOp.FloatLessEqual dst _ _ \<Rightarrow> Some dst
      | R2ILOp.Int2Float dst _ \<Rightarrow> Some dst
      | R2ILOp.Float2Int dst _ \<Rightarrow> Some dst
      | R2ILOp.FloatFloat dst _ \<Rightarrow> Some dst
      | R2ILOp.Trunc dst _ \<Rightarrow> Some dst
      | R2ILOp.CpuId dst \<Rightarrow> Some dst
      | R2ILOp.Multiequal dst _ \<Rightarrow> Some dst
      | R2ILOp.Indirect dst _ _ \<Rightarrow> Some dst
      | R2ILOp.PtrAdd dst _ _ _ \<Rightarrow> Some dst
      | R2ILOp.PtrSub dst _ _ _ \<Rightarrow> Some dst
      | R2ILOp.SegmentOp dst _ _ \<Rightarrow> Some dst
      | R2ILOp.New dst _ \<Rightarrow> Some dst
      | R2ILOp.Cast dst _ \<Rightarrow> Some dst
      | R2ILOp.Extract dst _ _ \<Rightarrow> Some dst
      | R2ILOp.Insert dst _ _ _ \<Rightarrow> Some dst
      | R2ILOp.CallOther output _ _ \<Rightarrow> output
      | _ \<Rightarrow> None)"

definition get_op_output_with_size :: "R2ILOp \<Rightarrow> RegisterNameMap option \<Rightarrow> (string \<times> u32) option" where
  "get_op_output_with_size op reg_names =
     map_option (\<lambda>vn. (varnode_to_name vn reg_names, vn_size vn)) (op_output_varnode op)"

definition get_op_output :: "R2ILOp \<Rightarrow> string option" where
  "get_op_output op = map_option fst (get_op_output_with_size op None)"

definition collect_defs_from_block :: "BasicBlock \<Rightarrow> string set" where
  "collect_defs_from_block block =
     foldl (\<lambda>defs op. case get_op_output op of Some dst \<Rightarrow> insert dst defs | None \<Rightarrow> defs)
       {} (bb_ops block)"

type_synonym def_maps = "(string, u64 set) hashmap \<times> (string, u32) hashmap"

text \<open>The body of the loop over the operations of a block.\<close>

definition collect_op :: "RegisterNameMap option \<Rightarrow> u64 \<Rightarrow> def_maps \<Rightarrow> R2ILOp \<Rightarrow> def_maps" where
  "collect_op reg_names addr dm op =
     (case get_op_output_with_size op reg_names of
        Some (nm, sz) \<Rightarrow>
          (hm_insert nm (insert addr (case hm_get (fst dm) nm of Some s \<Rightarrow> s | None \<Rightarrow> {})) (fst dm),
           hm_insert nm sz (snd dm))
      | None \<Rightarrow> dm)"

definition collect_block :: "'g petgraph \<Rightarrow> 'g CFG \<Rightarrow> RegisterNameMap option \<Rightarrow> def_maps \<Rightarrow> u64 \<Rightarrow> def_maps" where
  "collect_block G cfg reg_names dm addr =
     (case get_block G cfg addr of
        None \<Rightarrow> dm
      | Some block \<Rightarrow> foldl (collect_op reg_names (bb_addr block)) dm (bb_ops block))"

definition collect_defs_from_cfg_with_names ::
  "'g petgraph \<Rightarrow> 'g CFG \<Rightarrow> RegisterNameMap option \<Rightarrow> def_maps"
where
  "collect_defs_from_cfg_with_names G cfg reg_names =
     foldl (collect_block G cfg reg_names) ([], []) (block_addrs cfg)"

definition collect_defs_from_cfg :: "'g petgraph \<Rightarrow> 'g CFG \<Rightarrow> def_maps" where
  "collect_defs_from_cfg G cfg = collect_defs_from_cfg_with_names G cfg None"

definition create_phi_ops :: "PhiPlacement \<Rightarrow> u64 \<Rightarrow> SSAOp list" where
  "create_phi_ops pl block_addr =
     map (\<lambda>phi. SSAOp.Phi (ssa_new (pi_var_name phi) 0 (pi_var_size phi))
            (map (\<lambda>_. ssa_new (pi_var_name phi) 0 (pi_var_size phi)) (pi_predecessors phi)))
       (get_phis pl block_addr)"

section \<open>What placement computes\<close>

definition phi_of :: "(u64 \<Rightarrow> u64 list) \<Rightarrow> (string, u32) hashmap \<Rightarrow> u64 \<Rightarrow> string \<Rightarrow> PhiInfo" where
  "phi_of preds_of var_sizes b v =
     \<lparr>pi_var_name = v, pi_var_size = (case hm_get var_sizes v of Some s \<Rightarrow> s | None \<Rightarrow> 8),
      pi_predecessors = preds_of b\<rparr>"

definition wants_phi :: "(u64 \<Rightarrow> u64 list) \<Rightarrow> DomTree \<Rightarrow> u64 set \<Rightarrow> u64 \<Rightarrow> bool" where
  "wants_phi preds_of dt S b \<longleftrightarrow>
     2 \<le> length (preds_of b) \<and> b \<in> lfp (\<lambda>X. \<Union>a \<in> S \<union> X. set (dt_frontier_of dt a))"

lemma get_phis_place:
  "get_phis (phi_place preds_of var_sizes v pl b) x =
     get_phis pl x @ (if x = b \<and> 2 \<le> length (preds_of b) then [phi_of preds_of var_sizes b v] else [])"
  by (auto simp: phi_place_def get_phis_def hm_get_insert phi_of_def Let_def)

lemma get_phis_foldl:
  assumes "distinct bs"
  shows "get_phis (foldl (phi_place preds_of var_sizes v) pl bs) x =
    get_phis pl x @ (if x \<in> set bs \<and> 2 \<le> length (preds_of x) then [phi_of preds_of var_sizes x v] else [])"
  using assms by (induction bs arbitrary: pl) (auto simp: get_phis_place)

lemma finite_iterated: "finite (lfp (\<lambda>X. \<Union>a \<in> S \<union> X. set (dt_frontier_of dt a)))"
proof (rule finite_subset [OF _ finite_frontiers])
  show "lfp (\<lambda>X. \<Union>a \<in> S \<union> X. set (dt_frontier_of dt a)) \<subseteq> (\<Union>b. set (dt_frontier_of dt b))"
    by (rule lfp_lowerbound) blast
qed

lemma phi_place_vars_spec:
  assumes "\<forall>(v, S) \<in> set ds. finite S"
  shows "\<exists>pl'. phi_place_vars preds_of dt var_sizes ds pl = Some pl' \<and>
    (\<forall>b. get_phis pl' b = get_phis pl b @
       map (\<lambda>(v, S). phi_of preds_of var_sizes b v) (filter (\<lambda>(v, S). wants_phi preds_of dt S b) ds))"
  using assms
proof (induction ds arbitrary: pl)
  case (Cons d ds)
  obtain v S where d: "d = (v, S)" by fastforce
  let ?L = "lfp (\<lambda>X. \<Union>a \<in> S \<union> X. set (dt_frontier_of dt a))"
  have "iterated_frontier dt (sorted_list_of_set S) = Some ?L"
    using iterated_frontier_spec [of dt "sorted_list_of_set S"] Cons.prems d
    by (simp add: frontier_closure_def [abs_def])
  moreover have "get_phis (foldl (phi_place preds_of var_sizes v) pl (sorted_list_of_set ?L)) b =
      get_phis pl b @ (if wants_phi preds_of dt S b then [phi_of preds_of var_sizes b v] else [])" for b
    using get_phis_foldl [of "sorted_list_of_set ?L" preds_of var_sizes v pl b] finite_iterated [of dt S]
    by (auto simp: wants_phi_def)
  ultimately show ?case
    using Cons.IH [of "foldl (phi_place preds_of var_sizes v) pl (sorted_list_of_set ?L)"] Cons.prems d
    by auto
qed simp

lemma get_phis_map_sort:
  "get_phis (map (\<lambda>(b, ps). (b, sort_key phi_key ps)) pl) b = sort_key phi_key (get_phis pl b)"
  by (induction pl) (auto simp: get_phis_def hm_get_def)

lemma phi_key_order: "pi_var_name p < pi_var_name q \<Longrightarrow> phi_key p \<le> phi_key q"
  by (simp add: phi_key_def)

lemma sorted_phi_row:
  assumes "distinct vs" "sorted vs"
  shows "sort_key phi_key (map (phi_of preds_of var_sizes b) vs) = map (phi_of preds_of var_sizes b) vs"
proof (rule sort_key_id_if_sorted)
  have "sorted_wrt (<) vs" using assms by (simp add: strict_sorted_iff)
  then have "sorted_wrt (\<lambda>v w. phi_key (phi_of preds_of var_sizes b v) \<le> phi_key (phi_of preds_of var_sizes b w)) vs"
    by (rule sorted_wrt_mono_rel [rotated]) (auto intro!: phi_key_order simp: phi_of_def)
  then show "sorted (map phi_key (map (phi_of preds_of var_sizes b) vs))" by (simp add: sorted_map)
qed

lemma phi_compute_spec:
  assumes "hm_ok defs" "\<forall>(v, S) \<in> set defs. finite S"
  shows "\<exists>pl. phi_compute G cfg dt defs var_sizes = Some pl \<and>
    (\<forall>b. get_phis pl b = map (phi_of (cfg_predecessors G cfg) var_sizes b)
       (sorted_list_of_set {v. \<exists>S. hm_get defs v = Some S \<and> wants_phi (cfg_predecessors G cfg) dt S b}))"
proof -
  let ?ds = "sort_key fst defs" and ?ps = "cfg_predecessors G cfg"
  let ?row = "\<lambda>b. map fst (filter (\<lambda>(v, S). wants_phi ?ps dt S b) ?ds)"
  obtain pl where pl: "phi_place_vars ?ps dt var_sizes ?ds [] = Some pl"
    "\<And>b. get_phis pl b = map (phi_of ?ps var_sizes b) (?row b)"
    using phi_place_vars_spec [of ?ds ?ps dt var_sizes "[]"] assms(2)
    by (auto simp: get_phis_def [of "[]"] hm_get_def split_beta comp_def)
  have row: "?row b = sorted_list_of_set {v. \<exists>S. hm_get defs v = Some S \<and> wants_phi ?ps dt S b}"
    and ok: "distinct (?row b)" "sorted (?row b)" for b
  proof -
    have "distinct (map fst ?ds)"
      using assms(1) distinct_map [of fst ?ds] distinct_map [of fst defs] by (simp add: hm_ok_def)
    then show d: "distinct (?row b)" by (rule distinct_map_filter)
    show s: "sorted (?row b)" by (rule sorted_filter) simp
    have "set (?row b) = {v. \<exists>S. hm_get defs v = Some S \<and> wants_phi ?ps dt S b}"
      using hm_get_iff [OF assms(1)] by force
    then show "?row b = sorted_list_of_set {v. \<exists>S. hm_get defs v = Some S \<and> wants_phi ?ps dt S b}"
      using sorted_list_of_set.idem_if_sorted_distinct [OF s d] by simp
  qed
  have "get_phis (map (\<lambda>(b, ps). (b, sort_key phi_key ps)) pl) b = map (phi_of ?ps var_sizes b) (?row b)" for b
    unfolding get_phis_map_sort pl(2) using sorted_phi_row [OF ok] .
  then show ?thesis unfolding phi_compute_def pl(1) row by auto
qed

text \<open>The rows of the two maps \<open>collect_defs_from_cfg_with_names\<close> builds.\<close>

definition defs_at :: "(string, u64 set) hashmap \<Rightarrow> string \<Rightarrow> u64 set" where
  "defs_at m v = (case hm_get m v of Some s \<Rightarrow> s | None \<Rightarrow> {})"

definition defs_inv :: "(string, u64 set) hashmap \<Rightarrow> bool" where
  "defs_inv m \<longleftrightarrow> hm_ok m \<and> (\<forall>v S. hm_get m v = Some S \<longrightarrow> finite S \<and> S \<noteq> {})"

text \<open>What placement counts as a definition, stated over the outputs of the instruction set
  (\<open>op_output\<close>, the table of \<open>opcode.rs\<close>) and not over the match of \<open>phi.rs\<close>: every output
  counts except the one of the four atomic and guarded operations, which \<open>phi.rs\<close> overlooks.\<close>

definition placement_overlooks :: "R2ILOp \<Rightarrow> bool" where
  "placement_overlooks op =
     (case op of
        R2ILOp.LoadLinked _ _ _ _ \<Rightarrow> True
      | R2ILOp.LoadGuarded _ _ _ _ _ \<Rightarrow> True
      | R2ILOp.AtomicCAS _ _ _ _ _ _ \<Rightarrow> True
      | R2ILOp.StoreConditional _ _ _ _ _ \<Rightarrow> True
      | _ \<Rightarrow> False)"

definition op_defines :: "RegisterNameMap option \<Rightarrow> string \<Rightarrow> R2ILOp \<Rightarrow> bool" where
  "op_defines reg_names v op \<longleftrightarrow> \<not> placement_overlooks op \<and>
     (\<exists>vn. op_output op = Some vn \<and> varnode_to_name vn reg_names = v)"

lemma op_output_varnode_iff:
  "op_output_varnode op = (if placement_overlooks op then None else op_output op)"
  by (cases op) (simp_all add: op_output_varnode_def placement_overlooks_def)

lemma op_defines_iff:
  "op_defines reg_names v op \<longleftrightarrow> (\<exists>sz. get_op_output_with_size op reg_names = Some (v, sz))"
  by (auto simp: op_defines_def get_op_output_with_size_def op_output_varnode_iff)

lemma collect_op_spec:
  assumes "defs_inv (fst dm)"
  shows "defs_inv (fst (collect_op rn a dm op)) \<and>
    defs_at (fst (collect_op rn a dm op)) v = defs_at (fst dm) v \<union> (if op_defines rn v op then {a} else {})"
proof (cases "get_op_output_with_size op rn")
  case None
  then show ?thesis using assms by (simp add: collect_op_def op_defines_iff)
next
  case (Some p)
  obtain nm sz where p: "p = (nm, sz)" by fastforce
  have "finite (case hm_get (fst dm) nm of Some s \<Rightarrow> s | None \<Rightarrow> {})"
    using assms by (auto simp: defs_inv_def split: option.splits)
  then show ?thesis
    using assms Some p
    by (auto simp: collect_op_def op_defines_iff defs_inv_def hm_ok_insert hm_get_insert defs_at_def)
qed

lemma collect_ops_spec:
  assumes "defs_inv (fst dm)"
  shows "defs_inv (fst (foldl (collect_op rn a) dm ops)) \<and>
    defs_at (fst (foldl (collect_op rn a) dm ops)) v =
      defs_at (fst dm) v \<union> (if \<exists>op \<in> set ops. op_defines rn v op then {a} else {})"
  using assms
proof (induction ops arbitrary: dm)
  case (Cons op ops)
  from Cons.IH [of "collect_op rn a dm op"] collect_op_spec [OF Cons.prems, of rn a op v] show ?case by auto
qed simp

definition def_blocks :: "'g petgraph \<Rightarrow> 'g CFG \<Rightarrow> RegisterNameMap option \<Rightarrow> string \<Rightarrow> u64 set" where
  "def_blocks G cfg rn v =
     {a. \<exists>block. get_block G cfg a = Some block \<and> (\<exists>op \<in> set (bb_ops block). op_defines rn v op)}"

lemma get_block_addr:
  assumes "cfg_inv G cfg" "get_block G cfg a = Some block"
  shows "bb_addr block = a" "a \<in> set (block_addrs cfg)"
proof -
  obtain i where i: "get_node cfg a = Some i" using assms(2) by (auto simp: get_block_def split: option.splits)
  then show "a \<in> set (block_addrs cfg)" using hm_get_None [of "cfg_addr_to_node cfg" a]
    by (force simp: block_addrs_def get_node_def)
  show "bb_addr block = a"
    using assms i cfg_invD(2) [OF assms(1) i] by (auto simp: get_block_def node_addr_def split: if_splits)
qed

lemma collect_blocks_spec:
  assumes "cfg_inv G cfg" "defs_inv (fst dm)"
  shows "defs_inv (fst (foldl (collect_block G cfg rn) dm as)) \<and>
    defs_at (fst (foldl (collect_block G cfg rn) dm as)) v = defs_at (fst dm) v \<union> (def_blocks G cfg rn v \<inter> set as)"
  using assms(2)
proof (induction "as" arbitrary: dm)
  case (Cons a as)
  have "defs_inv (fst (collect_block G cfg rn dm a)) \<and>
      defs_at (fst (collect_block G cfg rn dm a)) v = defs_at (fst dm) v \<union> (def_blocks G cfg rn v \<inter> {a})"
  proof (cases "get_block G cfg a")
    case None
    then show ?thesis using Cons.prems by (auto simp: collect_block_def def_blocks_def)
  next
    case (Some block)
    then show ?thesis
      using collect_ops_spec [OF Cons.prems, of rn a "bb_ops block" v] get_block_addr(1) [OF assms(1) Some]
      by (auto simp: collect_block_def def_blocks_def)
  qed
  then show ?case using Cons.IH [of "collect_block G cfg rn dm a"] by auto
qed simp

lemma collect_defs_spec:
  assumes "cfg_inv G cfg"
  shows "defs_inv (fst (collect_defs_from_cfg_with_names G cfg rn))"
    and "hm_get (fst (collect_defs_from_cfg_with_names G cfg rn)) v = Some S \<longleftrightarrow>
      S \<noteq> {} \<and> S = def_blocks G cfg rn v"
proof -
  let ?m = "fst (collect_defs_from_cfg_with_names G cfg rn)"
  have "defs_inv (fst (([], []) :: def_maps))" by (simp add: defs_inv_def hm_ok_def hm_get_def)
  note s = collect_blocks_spec [OF assms this, of rn "block_addrs cfg",
      folded collect_defs_from_cfg_with_names_def]
  show inv: "defs_inv ?m" using s [of v] by blast
  have "def_blocks G cfg rn v \<subseteq> set (block_addrs cfg)"
    using get_block_addr(2) [OF assms] by (auto simp: def_blocks_def)
  then have "defs_at ?m v = def_blocks G cfg rn v" using s [of v] by (auto simp: defs_at_def [of "[]"] hm_get_def)
  then show "hm_get ?m v = Some S \<longleftrightarrow> S \<noteq> {} \<and> S = def_blocks G cfg rn v"
    using inv by (auto simp: defs_at_def defs_inv_def split: option.splits)
qed


definition phi_vars ::
  "'g petgraph \<Rightarrow> 'g CFG \<Rightarrow> DomTree \<Rightarrow> RegisterNameMap option \<Rightarrow> u64 \<Rightarrow> string set" where
  "phi_vars G cfg dt rn b =
     {v. def_blocks G cfg rn v \<noteq> {} \<and> wants_phi (cfg_predecessors G cfg) dt (def_blocks G cfg rn v) b}"

lemma phi_rows:
  assumes "cfg_inv G cfg"
  shows "finite (phi_vars G cfg dt rn b)"
    and "\<exists>pl. phi_compute G cfg dt (fst (collect_defs_from_cfg_with_names G cfg rn)) var_sizes = Some pl \<and>
      (\<forall>b. get_phis pl b =
         map (phi_of (cfg_predecessors G cfg) var_sizes b) (sorted_list_of_set (phi_vars G cfg dt rn b)))"
proof -
  let ?defs = "fst (collect_defs_from_cfg_with_names G cfg rn)" and ?ps = "cfg_predecessors G cfg"
  note c = collect_defs_spec [OF assms]
  have inv: "hm_ok ?defs" "\<forall>(v, S) \<in> set ?defs. finite S"
    using c(1) hm_get_iff [of ?defs] unfolding defs_inv_def by blast+
  have V: "{v. \<exists>S. hm_get ?defs v = Some S \<and> wants_phi ?ps dt S b} = phi_vars G cfg dt rn b" for b
    unfolding c(2) phi_vars_def by blast
  have "phi_vars G cfg dt rn b \<subseteq> fst ` set ?defs"
    unfolding V [symmetric] using hm_get_iff [OF inv(1)] by force
  then show "finite (phi_vars G cfg dt rn b)" by (rule finite_subset) simp
  show "\<exists>pl. phi_compute G cfg dt ?defs var_sizes = Some pl \<and>
      (\<forall>b. get_phis pl b = map (phi_of ?ps var_sizes b) (sorted_list_of_set (phi_vars G cfg dt rn b)))"
    using phi_compute_spec [OF inv, of G cfg dt var_sizes] unfolding V .
qed

section \<open>Properties\<close>

text \<open>C4. Phi placement: a block gets a phi for a variable just when it has two or more incoming
  edges and lies in the iterated frontier of the blocks where the variable is the output of an
  operation other than a linked or guarded load, a compare-and-swap or a store-conditional, whose
  outputs placement overlooks; it gets one phi per such variable, in the order of the names, with
  one source slot per predecessor.\<close>

theorem phi_placement_correct:
  assumes "cfg_inv G cfg"
  shows "\<exists>pl. phi_compute G cfg dt (fst (collect_defs_from_cfg_with_names G cfg rn)) var_sizes = Some pl \<and>
    (\<forall>b. map pi_var_name (get_phis pl b) = sorted_list_of_set (set (map pi_var_name (get_phis pl b))) \<and>
       (v \<in> set (map pi_var_name (get_phis pl b)) \<longleftrightarrow>
          2 \<le> length (cfg_predecessors G cfg b) \<and> def_blocks G cfg rn v \<noteq> {} \<and>
          b \<in> lfp (\<lambda>X. \<Union>a \<in> def_blocks G cfg rn v \<union> X. set (dt_frontier_of dt a))) \<and>
       (\<forall>phi \<in> set (get_phis pl b). pi_predecessors phi = cfg_predecessors G cfg b))"
proof -
  let ?ps = "cfg_predecessors G cfg" and ?V = "phi_vars G cfg dt rn"
  obtain pl where pl: "phi_compute G cfg dt (fst (collect_defs_from_cfg_with_names G cfg rn)) var_sizes = Some pl"
    "\<And>b. get_phis pl b = map (phi_of ?ps var_sizes b) (sorted_list_of_set (?V b))"
    using phi_rows(2) [OF assms] by blast
  have nm: "map pi_var_name (get_phis pl b) = sorted_list_of_set (?V b)" for b
    unfolding pl(2) by (simp add: comp_def phi_of_def)
  have set_nm: "set (map pi_var_name (get_phis pl b)) = ?V b" for b
    unfolding nm using phi_rows(1) [OF assms] by simp
  have "v \<in> ?V b \<longleftrightarrow> 2 \<le> length (?ps b) \<and> def_blocks G cfg rn v \<noteq> {} \<and>
      b \<in> lfp (\<lambda>X. \<Union>a \<in> def_blocks G cfg rn v \<union> X. set (dt_frontier_of dt a))" for b
    unfolding phi_vars_def wants_phi_def by blast
  moreover have "pi_predecessors phi = ?ps b" if "phi \<in> set (get_phis pl b)" for b phi
    using that unfolding pl(2) by (auto simp: phi_of_def)
  moreover have "map pi_var_name (get_phis pl b) = sorted_list_of_set (set (map pi_var_name (get_phis pl b)))" for b
    unfolding set_nm by (rule nm)
  ultimately show ?thesis using pl(1) set_nm by blast
qed

theorem phi_placement_correct_witness:
  "\<exists>cfg dt pl. from_blocks stack_graph diamond_blocks = Some cfg \<and> dom_compute stack_graph cfg = Some dt \<and>
     phi_compute stack_graph cfg dt (fst (collect_defs_from_cfg_with_names stack_graph cfg None)) [] = Some pl \<and>
     (\<forall>b. \<forall>phi \<in> set (get_phis pl b). pi_predecessors phi = cfg_predecessors stack_graph cfg b)"
proof -
  obtain cfg where cfg: "from_blocks stack_graph diamond_blocks = Some cfg"
    by (simp add: from_blocks_def diamond_blocks_def Let_def)
  obtain dt where dt: "dom_compute stack_graph cfg = Some dt" using diamond_tree(1) [OF cfg] by blast
  from phi_placement_correct [OF diamond_graph(2) [OF cfg], of dt None "[]"] cfg dt show ?thesis
    by blast
qed

text \<open>Where a join needs a phi, it gets one: when a reachable block that writes a variable
  dominates a predecessor of another block without strictly dominating the block itself, and that
  block is not the entry, placement puts a phi for the variable there.\<close>

theorem phi_at_join:
  assumes "petgraph_ok G" "cfg_inv G cfg" "get_node cfg (cfg_entry cfg) \<noteq> None"
    and "dom_compute G cfg = Some dt"
    and "phi_compute G cfg dt (fst (collect_defs_from_cfg_with_names G cfg rn)) var_sizes = Some pl"
    and "x \<in> reachable_addrs G cfg" "x \<in> def_blocks G cfg rn v" "y \<noteq> cfg_entry cfg"
    and "p \<in> reachable_addrs G cfg" "y \<in> set (cfg_successors G cfg p)"
    and "dominates_in (edge_rel G cfg) (cfg_entry cfg) x p"
    and "\<not> (dominates_in (edge_rel G cfg) (cfg_entry cfg) x y \<and> x \<noteq> y)"
  shows "v \<in> pi_var_name ` set (get_phis pl y)"
proof -
  note t = dom_compute_tree [OF assms(1-4)]
  have x: "x \<in> set (reverse_postorder G cfg)" using assms(6) t(3) by blast
  have hit: "frontier_hit (cfg_predecessors G cfg) (dt_idom dt) x y"
    using frontier_hit_iff [OF t(1) dom_tree_okD(2) [OF t(2)] x assms(8)] assms(9-12) t(3)
    unfolding set_cfg_successors [OF assms(1,2)] by blast
  then have len: "2 \<le> length (cfg_predecessors G cfg y)" by (simp add: frontier_hit_def)
  have "y \<in> set (block_addrs cfg)"
    using assms(10) unfolding set_cfg_successors [OF assms(1,2)] by (rule edge_in_block_addrs [OF assms(2)])
  then have "y \<in> set (dt_frontier_of dt x)" using hit unfolding set_dt_frontier_of [OF t(2)] by simp
  then have "y \<in> lfp (frontier_closure dt (def_blocks G cfg rn v))"
    using assms(7) by (subst lfp_unfold [OF mono_frontier_closure]) (auto simp: frontier_closure_def)
  then have "wants_phi (cfg_predecessors G cfg) dt (def_blocks G cfg rn v) y"
    using len by (simp add: wants_phi_def frontier_closure_def [abs_def])
  then have "v \<in> phi_vars G cfg dt rn y" using assms(7) by (auto simp: phi_vars_def)
  then show ?thesis
    using phi_rows(1) [OF assms(2), of dt rn y] phi_rows(2) [OF assms(2), of dt rn var_sizes] assms(5)
    by (auto simp: phi_of_def image_image)
qed

theorem phi_at_join_witness:
  "\<exists>cfg dt pl. from_blocks stack_graph diamond_blocks = Some cfg \<and> dom_compute stack_graph cfg = Some dt \<and>
     phi_compute stack_graph cfg dt (fst (collect_defs_from_cfg_with_names stack_graph cfg None)) [] = Some pl \<and>
     ''reg:8'' \<in> pi_var_name ` set (get_phis pl 0x100c)"
proof -
  obtain cfg where cfg: "from_blocks stack_graph diamond_blocks = Some cfg"
    by (simp add: from_blocks_def diamond_blocks_def Let_def)
  note d = diamond_graph [OF cfg] and t = diamond_tree [OF cfg]
  obtain dt where dt: "dom_compute stack_graph cfg = Some dt" using t(1) by blast
  obtain pl where pl: "phi_compute stack_graph cfg dt
      (fst (collect_defs_from_cfg_with_names stack_graph cfg None)) [] = Some pl"
    using phi_rows(2) [OF d(2)] by blast
  have r: "0x1004 \<in> reachable_addrs stack_graph cfg" using t(2) by blast
  have hex: "show_hex 8 = ''8''" by code_simp
  have df: "0x1004 \<in> def_blocks stack_graph cfg None ''reg:8''"
    unfolding def_blocks_def from_blocks_obs(3) [OF d(1) cfg]
    by (simp add: diamond_simps op_defines_def placement_overlooks_def varnode_to_name_def hex)
  have e: "0x100c \<noteq> cfg_entry cfg" unfolding d(3) by simp
  have sc: "0x100c \<in> set (cfg_successors stack_graph cfg 0x1004)"
    unfolding set_cfg_successors [OF d(1,2)] d(5) by simp
  have "\<not> (dominates_in (edge_rel stack_graph cfg) (cfg_entry cfg) 0x1004 0x100c \<and> 0x1004 \<noteq> (0x100c :: u64))"
    using t(4) unfolding d(3) by blast
  from phi_at_join [OF d(1,2,4) dt pl r df e r sc dominates_in_refl this]
  have "''reg:8'' \<in> pi_var_name ` set (get_phis pl 0x100c)" .
  with cfg dt pl show ?thesis by blast
qed

text \<open>Which writes placement overlooks: the match behind the collection of definitions knows
  every operation with an output except the guarded, linked, compare-and-swap and
  store-conditional ones, although renaming gives their outputs new versions: a variable written
  only by one of those gets no phi.\<close>

theorem collect_defs_overlooks:
  "op_output op \<noteq> None \<and> get_op_output_with_size op rn = None \<longleftrightarrow>
     (case op of
        R2ILOp.LoadLinked _ _ _ _ \<Rightarrow> True
      | R2ILOp.LoadGuarded _ _ _ _ _ \<Rightarrow> True
      | R2ILOp.AtomicCAS _ _ _ _ _ _ \<Rightarrow> True
      | R2ILOp.StoreConditional result _ _ _ _ \<Rightarrow> result \<noteq> None
      | _ \<Rightarrow> False)"
  by (cases op) (auto simp: get_op_output_with_size_def op_output_varnode_def)

end
