(* ===== verification/SSA_Rename.thy ===== *)
theory SSA_Rename
  imports SSA_Phi
begin

text \<open>
  SSA renaming: \<open>r2ssa/src/rename.rs\<close>.

  The stacks of the context keep their top at the end of the list, as the vectors of the source do.
  Version counters are \<open>u32\<close> and wrap as in a release build. \<open>rename_block\<close> recurses along the
  dominator tree and carries fuel; \<open>None\<close> is out of fuel or one of the panics of the source (a
  block that was not initialised). \<open>rename_returns\<close> shows that neither happens.
\<close>

section \<open>The context\<close>

record RenameContext =
  rc_stacks :: "(string, u32 list) hashmap"
  rc_counters :: "(string, u32) hashmap"
  rc_sizes :: "(string, u32) hashmap"

record CallBoundaryDef =
  cbd_name :: string
  cbd_size :: u32

record CallBoundaryConfig =
  cb_defined_regs :: "CallBoundaryDef list"

definition rc_new :: RenameContext where
  "rc_new = \<lparr>rc_stacks = [], rc_counters = [], rc_sizes = []\<rparr>"

text \<open>\<open>entry(k).or_insert(v)\<close>\<close>

definition hm_or_insert :: "'k \<Rightarrow> 'v \<Rightarrow> ('k, 'v) hashmap \<Rightarrow> ('k, 'v) hashmap" where
  "hm_or_insert k v m = (case hm_get m k of None \<Rightarrow> hm_insert k v m | Some _ \<Rightarrow> m)"

definition init_var :: "string \<Rightarrow> u32 \<Rightarrow> RenameContext \<Rightarrow> RenameContext" where
  "init_var nm sz ctx =
     ctx\<lparr>rc_sizes := hm_insert nm sz (rc_sizes ctx),
         rc_stacks := hm_or_insert nm [0] (rc_stacks ctx),
         rc_counters := hm_or_insert nm 0 (rc_counters ctx)\<rparr>"

definition current_version :: "RenameContext \<Rightarrow> string \<Rightarrow> u32" where
  "current_version ctx nm =
     (case hm_get (rc_stacks ctx) nm of
        Some stack \<Rightarrow> if stack = [] then 0 else last stack
      | None \<Rightarrow> 0)"

definition new_version :: "string \<Rightarrow> RenameContext \<Rightarrow> u32 \<times> RenameContext" where
  "new_version nm ctx =
     (let version = (case hm_get (rc_counters ctx) nm of Some c \<Rightarrow> c | None \<Rightarrow> 0) + 1;
          stack = (case hm_get (rc_stacks ctx) nm of Some s \<Rightarrow> s | None \<Rightarrow> [])
      in (version, ctx\<lparr>rc_counters := hm_insert nm version (rc_counters ctx),
                       rc_stacks := hm_insert nm (stack @ [version]) (rc_stacks ctx)\<rparr>))"

definition pop_version :: "RenameContext \<Rightarrow> string \<Rightarrow> RenameContext" where
  "pop_version ctx nm =
     (case hm_get (rc_stacks ctx) nm of
        Some stack \<Rightarrow> ctx\<lparr>rc_stacks := hm_insert nm (butlast stack) (rc_stacks ctx)\<rparr>
      | None \<Rightarrow> ctx)"

definition get_size :: "RenameContext \<Rightarrow> string \<Rightarrow> u32" where
  "get_size ctx nm = (case hm_get (rc_sizes ctx) nm of Some s \<Rightarrow> s | None \<Rightarrow> 8)"

definition rc_read_var :: "RenameContext \<Rightarrow> string \<Rightarrow> SSAVar" where
  "rc_read_var ctx nm = ssa_new nm (current_version ctx nm) (get_size ctx nm)"

definition rc_write_var :: "string \<Rightarrow> RenameContext \<Rightarrow> SSAVar \<times> RenameContext" where
  "rc_write_var nm ctx =
     (let (version, ctx1) = new_version nm ctx in (ssa_new nm version (get_size ctx1 nm), ctx1))"

definition matching_var_names_ci :: "RenameContext \<Rightarrow> string \<Rightarrow> string list" where
  "matching_var_names_ci ctx nm =
     sort (filter (\<lambda>candidate. to_ascii_lowercase candidate = to_ascii_lowercase nm)
             (map fst (rc_sizes ctx)))"

section \<open>Operations\<close>

text \<open>The format \<open>{:?}\<close> of an address space.\<close>

definition space_debug :: "SpaceId \<Rightarrow> string" where
  "space_debug space =
     (case space of
        Ram \<Rightarrow> ''Ram''
      | Register \<Rightarrow> ''Register''
      | Unique \<Rightarrow> ''Unique''
      | Const \<Rightarrow> ''Const''
      | Custom i \<Rightarrow> ''Custom('' @ show_dec (unat i) @ '')'')"

definition read_varnode :: "RegisterNameMap option \<Rightarrow> Varnode \<Rightarrow> RenameContext \<Rightarrow> SSAVar" where
  "read_varnode reg_names vn ctx =
     (if vn_space vn = Const then ssa_constant (vn_offset vn) (vn_size vn)
      else rc_read_var ctx (varnode_to_name vn reg_names))"

text \<open>The three statements that give a destination its version.\<close>

definition rename_write ::
  "RegisterNameMap option \<Rightarrow> Varnode \<Rightarrow> RenameContext \<Rightarrow> string list \<Rightarrow> SSAVar \<times> RenameContext \<times> string list"
where
  "rename_write reg_names dst ctx defined =
     (let dst_name = varnode_to_name dst reg_names; (dst_ssa, ctx1) = rc_write_var dst_name ctx
      in (dst_ssa, ctx1, defined @ [dst_name]))"

definition rename_write_opt ::
  "RegisterNameMap option \<Rightarrow> Varnode option \<Rightarrow> RenameContext \<Rightarrow> string list \<Rightarrow>
     SSAVar option \<times> RenameContext \<times> string list"
where
  "rename_write_opt reg_names vno ctx defined =
     (case vno of
        None \<Rightarrow> (None, ctx, defined)
      | Some vn \<Rightarrow>
          (let (d, ctx1, defined1) = rename_write reg_names vn ctx defined in (Some d, ctx1, defined1)))"

definition rename_binary_op ::
  "RegisterNameMap option \<Rightarrow> Varnode \<Rightarrow> Varnode \<Rightarrow> Varnode \<Rightarrow> RenameContext \<Rightarrow> string list \<Rightarrow>
     (SSAVar \<Rightarrow> SSAVar \<Rightarrow> SSAVar \<Rightarrow> SSAOp) \<Rightarrow> SSAOp \<times> RenameContext \<times> string list"
where
  "rename_binary_op reg_names dst src1 src2 ctx defined f =
     (let src1_ssa = read_varnode reg_names src1 ctx;
          src2_ssa = read_varnode reg_names src2 ctx;
          (dst_ssa, ctx1, defined1) = rename_write reg_names dst ctx defined
      in (f dst_ssa src1_ssa src2_ssa, ctx1, defined1))"

definition rename_unary_op ::
  "RegisterNameMap option \<Rightarrow> Varnode \<Rightarrow> Varnode \<Rightarrow> RenameContext \<Rightarrow> string list \<Rightarrow>
     (SSAVar \<Rightarrow> SSAVar \<Rightarrow> SSAOp) \<Rightarrow> SSAOp \<times> RenameContext \<times> string list"
where
  "rename_unary_op reg_names dst src ctx defined f =
     (let src_ssa = read_varnode reg_names src ctx;
          (dst_ssa, ctx1, defined1) = rename_write reg_names dst ctx defined
      in (f dst_ssa src_ssa, ctx1, defined1))"

primrec rename_op ::
  "RegisterNameMap option \<Rightarrow> R2ILOp \<Rightarrow> RenameContext \<Rightarrow> string list \<Rightarrow> SSAOp \<times> RenameContext \<times> string list"
where
  "rename_op reg_names (R2ILOp.Copy dst src) ctx defined =
     (let (d, ctx1, defined1) = rename_write reg_names dst ctx defined
      in (SSAOp.Copy d (read_varnode reg_names src ctx), ctx1, defined1))"
| "rename_op reg_names (R2ILOp.Load dst space addr) ctx defined =
     (let (d, ctx1, defined1) = rename_write reg_names dst ctx defined
      in (SSAOp.Load d (space_debug space) (read_varnode reg_names addr ctx), ctx1, defined1))"
| "rename_op reg_names (R2ILOp.Store space addr val) ctx defined =
     (SSAOp.Store (space_debug space) (read_varnode reg_names addr ctx) (read_varnode reg_names val ctx), ctx, defined)"
| "rename_op reg_names (R2ILOp.Fence mo) ctx defined =
     (SSAOp.Fence mo, ctx, defined)"
| "rename_op reg_names (R2ILOp.LoadLinked dst space addr mo) ctx defined =
     (let (d, ctx1, defined1) = rename_write reg_names dst ctx defined
      in (SSAOp.LoadLinked d (space_debug space) (read_varnode reg_names addr ctx) mo, ctx1, defined1))"
| "rename_op reg_names (R2ILOp.StoreConditional result space addr val mo) ctx defined =
     (let (d, ctx1, defined1) = rename_write_opt reg_names result ctx defined
      in (SSAOp.StoreConditional d (space_debug space) (read_varnode reg_names addr ctx) (read_varnode reg_names val ctx) mo, ctx1, defined1))"
| "rename_op reg_names (R2ILOp.AtomicCAS dst space addr expected replacement mo) ctx defined =
     (let (d, ctx1, defined1) = rename_write reg_names dst ctx defined
      in (SSAOp.AtomicCAS d (space_debug space) (read_varnode reg_names addr ctx) (read_varnode reg_names expected ctx) (read_varnode reg_names replacement ctx) mo, ctx1, defined1))"
| "rename_op reg_names (R2ILOp.LoadGuarded dst space addr guard mo) ctx defined =
     (let (d, ctx1, defined1) = rename_write reg_names dst ctx defined
      in (SSAOp.LoadGuarded d (space_debug space) (read_varnode reg_names addr ctx) (read_varnode reg_names guard ctx) mo, ctx1, defined1))"
| "rename_op reg_names (R2ILOp.StoreGuarded space addr val guard mo) ctx defined =
     (SSAOp.StoreGuarded (space_debug space) (read_varnode reg_names addr ctx) (read_varnode reg_names val ctx) (read_varnode reg_names guard ctx) mo, ctx, defined)"
| "rename_op reg_names (R2ILOp.Branch target) ctx defined =
     (SSAOp.Branch (read_varnode reg_names target ctx), ctx, defined)"
| "rename_op reg_names (R2ILOp.CBranch target cond) ctx defined =
     (SSAOp.CBranch (read_varnode reg_names target ctx) (read_varnode reg_names cond ctx), ctx, defined)"
| "rename_op reg_names (R2ILOp.BranchInd target) ctx defined =
     (SSAOp.BranchInd (read_varnode reg_names target ctx), ctx, defined)"
| "rename_op reg_names (R2ILOp.Call target) ctx defined =
     (SSAOp.Call (read_varnode reg_names target ctx), ctx, defined)"
| "rename_op reg_names (R2ILOp.CallInd target) ctx defined =
     (SSAOp.CallInd (read_varnode reg_names target ctx), ctx, defined)"
| "rename_op reg_names (R2ILOp.Return target) ctx defined =
     (SSAOp.Return (read_varnode reg_names target ctx), ctx, defined)"
| "rename_op reg_names (R2ILOp.IntAdd dst a b) ctx defined =
     rename_binary_op reg_names dst a b ctx defined (\<lambda>d s1 s2. SSAOp.IntAdd d s1 s2)"
| "rename_op reg_names (R2ILOp.IntSub dst a b) ctx defined =
     rename_binary_op reg_names dst a b ctx defined (\<lambda>d s1 s2. SSAOp.IntSub d s1 s2)"
| "rename_op reg_names (R2ILOp.IntMult dst a b) ctx defined =
     rename_binary_op reg_names dst a b ctx defined (\<lambda>d s1 s2. SSAOp.IntMult d s1 s2)"
| "rename_op reg_names (R2ILOp.IntDiv dst a b) ctx defined =
     rename_binary_op reg_names dst a b ctx defined (\<lambda>d s1 s2. SSAOp.IntDiv d s1 s2)"
| "rename_op reg_names (R2ILOp.IntSDiv dst a b) ctx defined =
     rename_binary_op reg_names dst a b ctx defined (\<lambda>d s1 s2. SSAOp.IntSDiv d s1 s2)"
| "rename_op reg_names (R2ILOp.IntRem dst a b) ctx defined =
     rename_binary_op reg_names dst a b ctx defined (\<lambda>d s1 s2. SSAOp.IntRem d s1 s2)"
| "rename_op reg_names (R2ILOp.IntSRem dst a b) ctx defined =
     rename_binary_op reg_names dst a b ctx defined (\<lambda>d s1 s2. SSAOp.IntSRem d s1 s2)"
| "rename_op reg_names (R2ILOp.IntAnd dst a b) ctx defined =
     rename_binary_op reg_names dst a b ctx defined (\<lambda>d s1 s2. SSAOp.IntAnd d s1 s2)"
| "rename_op reg_names (R2ILOp.IntOr dst a b) ctx defined =
     rename_binary_op reg_names dst a b ctx defined (\<lambda>d s1 s2. SSAOp.IntOr d s1 s2)"
| "rename_op reg_names (R2ILOp.IntXor dst a b) ctx defined =
     rename_binary_op reg_names dst a b ctx defined (\<lambda>d s1 s2. SSAOp.IntXor d s1 s2)"
| "rename_op reg_names (R2ILOp.IntLeft dst a b) ctx defined =
     rename_binary_op reg_names dst a b ctx defined (\<lambda>d s1 s2. SSAOp.IntLeft d s1 s2)"
| "rename_op reg_names (R2ILOp.IntRight dst a b) ctx defined =
     rename_binary_op reg_names dst a b ctx defined (\<lambda>d s1 s2. SSAOp.IntRight d s1 s2)"
| "rename_op reg_names (R2ILOp.IntSRight dst a b) ctx defined =
     rename_binary_op reg_names dst a b ctx defined (\<lambda>d s1 s2. SSAOp.IntSRight d s1 s2)"
| "rename_op reg_names (R2ILOp.IntEqual dst a b) ctx defined =
     rename_binary_op reg_names dst a b ctx defined (\<lambda>d s1 s2. SSAOp.IntEqual d s1 s2)"
| "rename_op reg_names (R2ILOp.IntNotEqual dst a b) ctx defined =
     rename_binary_op reg_names dst a b ctx defined (\<lambda>d s1 s2. SSAOp.IntNotEqual d s1 s2)"
| "rename_op reg_names (R2ILOp.IntLess dst a b) ctx defined =
     rename_binary_op reg_names dst a b ctx defined (\<lambda>d s1 s2. SSAOp.IntLess d s1 s2)"
| "rename_op reg_names (R2ILOp.IntSLess dst a b) ctx defined =
     rename_binary_op reg_names dst a b ctx defined (\<lambda>d s1 s2. SSAOp.IntSLess d s1 s2)"
| "rename_op reg_names (R2ILOp.IntLessEqual dst a b) ctx defined =
     rename_binary_op reg_names dst a b ctx defined (\<lambda>d s1 s2. SSAOp.IntLessEqual d s1 s2)"
| "rename_op reg_names (R2ILOp.IntSLessEqual dst a b) ctx defined =
     rename_binary_op reg_names dst a b ctx defined (\<lambda>d s1 s2. SSAOp.IntSLessEqual d s1 s2)"
| "rename_op reg_names (R2ILOp.IntCarry dst a b) ctx defined =
     rename_binary_op reg_names dst a b ctx defined (\<lambda>d s1 s2. SSAOp.IntCarry d s1 s2)"
| "rename_op reg_names (R2ILOp.IntSCarry dst a b) ctx defined =
     rename_binary_op reg_names dst a b ctx defined (\<lambda>d s1 s2. SSAOp.IntSCarry d s1 s2)"
| "rename_op reg_names (R2ILOp.IntSBorrow dst a b) ctx defined =
     rename_binary_op reg_names dst a b ctx defined (\<lambda>d s1 s2. SSAOp.IntSBorrow d s1 s2)"
| "rename_op reg_names (R2ILOp.IntNegate dst src) ctx defined =
     rename_unary_op reg_names dst src ctx defined (\<lambda>d s. SSAOp.IntNegate d s)"
| "rename_op reg_names (R2ILOp.IntNot dst src) ctx defined =
     rename_unary_op reg_names dst src ctx defined (\<lambda>d s. SSAOp.IntNot d s)"
| "rename_op reg_names (R2ILOp.IntZExt dst src) ctx defined =
     rename_unary_op reg_names dst src ctx defined (\<lambda>d s. SSAOp.IntZExt d s)"
| "rename_op reg_names (R2ILOp.IntSExt dst src) ctx defined =
     rename_unary_op reg_names dst src ctx defined (\<lambda>d s. SSAOp.IntSExt d s)"
| "rename_op reg_names (R2ILOp.BoolNot dst src) ctx defined =
     rename_unary_op reg_names dst src ctx defined (\<lambda>d s. SSAOp.BoolNot d s)"
| "rename_op reg_names (R2ILOp.BoolAnd dst a b) ctx defined =
     rename_binary_op reg_names dst a b ctx defined (\<lambda>d s1 s2. SSAOp.BoolAnd d s1 s2)"
| "rename_op reg_names (R2ILOp.BoolOr dst a b) ctx defined =
     rename_binary_op reg_names dst a b ctx defined (\<lambda>d s1 s2. SSAOp.BoolOr d s1 s2)"
| "rename_op reg_names (R2ILOp.BoolXor dst a b) ctx defined =
     rename_binary_op reg_names dst a b ctx defined (\<lambda>d s1 s2. SSAOp.BoolXor d s1 s2)"
| "rename_op reg_names (R2ILOp.Piece dst hi lo) ctx defined =
     (let (d, ctx1, defined1) = rename_write reg_names dst ctx defined
      in (SSAOp.Piece d (read_varnode reg_names hi ctx) (read_varnode reg_names lo ctx), ctx1, defined1))"
| "rename_op reg_names (R2ILOp.Subpiece dst src offset) ctx defined =
     (let (d, ctx1, defined1) = rename_write reg_names dst ctx defined
      in (SSAOp.Subpiece d (read_varnode reg_names src ctx) offset, ctx1, defined1))"
| "rename_op reg_names (R2ILOp.PopCount dst src) ctx defined =
     rename_unary_op reg_names dst src ctx defined (\<lambda>d s. SSAOp.PopCount d s)"
| "rename_op reg_names (R2ILOp.Lzcount dst src) ctx defined =
     rename_unary_op reg_names dst src ctx defined (\<lambda>d s. SSAOp.Lzcount d s)"
| "rename_op reg_names (R2ILOp.FloatAdd dst a b) ctx defined =
     rename_binary_op reg_names dst a b ctx defined (\<lambda>d s1 s2. SSAOp.FloatAdd d s1 s2)"
| "rename_op reg_names (R2ILOp.FloatSub dst a b) ctx defined =
     rename_binary_op reg_names dst a b ctx defined (\<lambda>d s1 s2. SSAOp.FloatSub d s1 s2)"
| "rename_op reg_names (R2ILOp.FloatMult dst a b) ctx defined =
     rename_binary_op reg_names dst a b ctx defined (\<lambda>d s1 s2. SSAOp.FloatMult d s1 s2)"
| "rename_op reg_names (R2ILOp.FloatDiv dst a b) ctx defined =
     rename_binary_op reg_names dst a b ctx defined (\<lambda>d s1 s2. SSAOp.FloatDiv d s1 s2)"
| "rename_op reg_names (R2ILOp.FloatNeg dst src) ctx defined =
     rename_unary_op reg_names dst src ctx defined (\<lambda>d s. SSAOp.FloatNeg d s)"
| "rename_op reg_names (R2ILOp.FloatAbs dst src) ctx defined =
     rename_unary_op reg_names dst src ctx defined (\<lambda>d s. SSAOp.FloatAbs d s)"
| "rename_op reg_names (R2ILOp.FloatSqrt dst src) ctx defined =
     rename_unary_op reg_names dst src ctx defined (\<lambda>d s. SSAOp.FloatSqrt d s)"
| "rename_op reg_names (R2ILOp.FloatCeil dst src) ctx defined =
     rename_unary_op reg_names dst src ctx defined (\<lambda>d s. SSAOp.FloatCeil d s)"
| "rename_op reg_names (R2ILOp.FloatFloor dst src) ctx defined =
     rename_unary_op reg_names dst src ctx defined (\<lambda>d s. SSAOp.FloatFloor d s)"
| "rename_op reg_names (R2ILOp.FloatRound dst src) ctx defined =
     rename_unary_op reg_names dst src ctx defined (\<lambda>d s. SSAOp.FloatRound d s)"
| "rename_op reg_names (R2ILOp.FloatNaN dst src) ctx defined =
     rename_unary_op reg_names dst src ctx defined (\<lambda>d s. SSAOp.FloatNaN d s)"
| "rename_op reg_names (R2ILOp.FloatEqual dst a b) ctx defined =
     rename_binary_op reg_names dst a b ctx defined (\<lambda>d s1 s2. SSAOp.FloatEqual d s1 s2)"
| "rename_op reg_names (R2ILOp.FloatNotEqual dst a b) ctx defined =
     rename_binary_op reg_names dst a b ctx defined (\<lambda>d s1 s2. SSAOp.FloatNotEqual d s1 s2)"
| "rename_op reg_names (R2ILOp.FloatLess dst a b) ctx defined =
     rename_binary_op reg_names dst a b ctx defined (\<lambda>d s1 s2. SSAOp.FloatLess d s1 s2)"
| "rename_op reg_names (R2ILOp.FloatLessEqual dst a b) ctx defined =
     rename_binary_op reg_names dst a b ctx defined (\<lambda>d s1 s2. SSAOp.FloatLessEqual d s1 s2)"
| "rename_op reg_names (R2ILOp.Int2Float dst src) ctx defined =
     rename_unary_op reg_names dst src ctx defined (\<lambda>d s. SSAOp.Int2Float d s)"
| "rename_op reg_names (R2ILOp.Float2Int dst src) ctx defined =
     rename_unary_op reg_names dst src ctx defined (\<lambda>d s. SSAOp.Float2Int d s)"
| "rename_op reg_names (R2ILOp.FloatFloat dst src) ctx defined =
     rename_unary_op reg_names dst src ctx defined (\<lambda>d s. SSAOp.FloatFloat d s)"
| "rename_op reg_names (R2ILOp.Trunc dst src) ctx defined =
     rename_unary_op reg_names dst src ctx defined (\<lambda>d s. SSAOp.Trunc d s)"
| "rename_op reg_names R2ILOp.Nop ctx defined =
     (SSAOp.Nop, ctx, defined)"
| "rename_op reg_names R2ILOp.Unimplemented ctx defined =
     (SSAOp.Unimplemented, ctx, defined)"
| "rename_op reg_names R2ILOp.Breakpoint ctx defined =
     (SSAOp.Breakpoint, ctx, defined)"
| "rename_op reg_names (R2ILOp.CpuId dst) ctx defined =
     (let (d, ctx1, defined1) = rename_write reg_names dst ctx defined
      in (SSAOp.CpuId d, ctx1, defined1))"
| "rename_op reg_names (R2ILOp.CallOther output userop inputs) ctx defined =
     (let (d, ctx1, defined1) = rename_write_opt reg_names output ctx defined
      in (SSAOp.CallOther d userop (map (\<lambda>v. read_varnode reg_names v ctx) inputs), ctx1, defined1))"
| "rename_op reg_names (R2ILOp.Multiequal dst inputs) ctx defined =
     (let (d, ctx1, defined1) = rename_write reg_names dst ctx defined
      in (SSAOp.Phi d (map (\<lambda>v. read_varnode reg_names v ctx) inputs), ctx1, defined1))"
| "rename_op reg_names (R2ILOp.Indirect dst src _) ctx defined =
     (let (d, ctx1, defined1) = rename_write reg_names dst ctx defined
      in (SSAOp.Copy d (read_varnode reg_names src ctx), ctx1, defined1))"
| "rename_op reg_names (R2ILOp.PtrAdd dst base index element_size) ctx defined =
     (let (d, ctx1, defined1) = rename_write reg_names dst ctx defined
      in (SSAOp.PtrAdd d (read_varnode reg_names base ctx) (read_varnode reg_names index ctx) element_size, ctx1, defined1))"
| "rename_op reg_names (R2ILOp.PtrSub dst base index element_size) ctx defined =
     (let (d, ctx1, defined1) = rename_write reg_names dst ctx defined
      in (SSAOp.PtrSub d (read_varnode reg_names base ctx) (read_varnode reg_names index ctx) element_size, ctx1, defined1))"
| "rename_op reg_names (R2ILOp.SegmentOp dst segment offset) ctx defined =
     (let (d, ctx1, defined1) = rename_write reg_names dst ctx defined
      in (SSAOp.SegmentOp d (read_varnode reg_names segment ctx) (read_varnode reg_names offset ctx), ctx1, defined1))"
| "rename_op reg_names (R2ILOp.New dst src) ctx defined =
     (let (d, ctx1, defined1) = rename_write reg_names dst ctx defined
      in (SSAOp.New d (read_varnode reg_names src ctx), ctx1, defined1))"
| "rename_op reg_names (R2ILOp.Cast dst src) ctx defined =
     rename_unary_op reg_names dst src ctx defined (\<lambda>d s. SSAOp.Cast d s)"
| "rename_op reg_names (R2ILOp.Extract dst src position) ctx defined =
     (let (d, ctx1, defined1) = rename_write reg_names dst ctx defined
      in (SSAOp.Extract d (read_varnode reg_names src ctx) (read_varnode reg_names position ctx), ctx1, defined1))"
| "rename_op reg_names (R2ILOp.Insert dst src value position) ctx defined =
     (let (d, ctx1, defined1) = rename_write reg_names dst ctx defined
      in (SSAOp.Insert d (read_varnode reg_names src ctx) (read_varnode reg_names value ctx) (read_varnode reg_names position ctx), ctx1, defined1))"

section \<open>Blocks\<close>

type_synonym block_ops = "(u64, SSAOp list) hashmap"

record RenamedFunction =
  rf_blocks :: block_ops
  rf_block_order :: "u64 list"
  rf_entry :: u64

definition rf_new :: "u64 \<Rightarrow> RenamedFunction" where
  "rf_new entry = \<lparr>rf_blocks = [], rf_block_order = [], rf_entry = entry\<rparr>"

definition rf_get_block :: "RenamedFunction \<Rightarrow> u64 \<Rightarrow> SSAOp list" where
  "rf_get_block rf addr = (case hm_get (rf_blocks rf) addr of Some ops \<Rightarrow> ops | None \<Rightarrow> [])"

definition placeholder_sources :: "PhiInfo \<Rightarrow> SSAVar list" where
  "placeholder_sources phi =
     map (\<lambda>_. ssa_new (pi_var_name phi) 0 (pi_var_size phi)) (pi_predecessors phi)"

text \<open>\<open>Vec::insert\<close>\<close>

definition insert_at :: "nat \<Rightarrow> 'a \<Rightarrow> 'a list \<Rightarrow> 'a list" where
  "insert_at i x xs = take i xs @ x # drop i xs"

text \<open>Step 1 of \<open>rename_block\<close>: new versions for the phi destinations.\<close>

definition set_phi_dst :: "nat \<Rightarrow> PhiInfo \<Rightarrow> SSAVar \<Rightarrow> SSAOp list \<Rightarrow> SSAOp list" where
  "set_phi_dst i phi dst ops =
     (if i < length ops then
        (case ops ! i of
           SSAOp.Phi _ sources \<Rightarrow>
             ops[i := SSAOp.Phi dst
                   (if length sources \<noteq> length (pi_predecessors phi) then placeholder_sources phi
                    else sources)]
         | _ \<Rightarrow> insert_at i (SSAOp.Phi dst (placeholder_sources phi)) ops)
      else insert_at i (SSAOp.Phi dst (placeholder_sources phi)) ops)"

type_synonym block_state = "SSAOp list \<times> RenameContext \<times> string list"

fun rename_phi_dsts :: "nat \<Rightarrow> PhiInfo list \<Rightarrow> block_state \<Rightarrow> block_state" where
  "rename_phi_dsts i [] st = st"
| "rename_phi_dsts i (phi # phis) (ops, ctx, defined) =
     (let (dst, ctx1) = rc_write_var (pi_var_name phi) ctx
      in rename_phi_dsts (Suc i) phis
           (set_phi_dst i phi dst ops, ctx1, defined @ [pi_var_name phi]))"

text \<open>The definitions a call leaves behind.\<close>

definition boundary_names ::
  "RegisterNameMap option \<Rightarrow> CallBoundaryDef \<Rightarrow> RenameContext \<Rightarrow> string set \<times> RenameContext"
where
  "boundary_names reg_names reg ctx =
     (let actual = set (matching_var_names_ci ctx (cbd_name reg));
          actual1 = (if actual = {} then
             (case reg_names of
                Some m \<Rightarrow> {c. \<exists>off. ((off, cbd_size reg), c) \<in> set m \<and>
                               to_ascii_lowercase c = to_ascii_lowercase (cbd_name reg)}
              | None \<Rightarrow> actual)
             else actual)
      in if actual1 = {} then ({cbd_name reg}, init_var (cbd_name reg) (cbd_size reg) ctx)
         else (actual1, ctx))"

definition call_define :: "block_state \<Rightarrow> string \<Rightarrow> block_state" where
  "call_define st nm =
     (let (ops, ctx, defined) = st; (dst, ctx1) = rc_write_var nm ctx
      in (ops @ [SSAOp.CallDefine dst], ctx1, defined @ [nm]))"

definition append_call_boundary_def :: "RegisterNameMap option \<Rightarrow> block_state \<Rightarrow> CallBoundaryDef \<Rightarrow> block_state" where
  "append_call_boundary_def reg_names st reg =
     (let (ops, ctx, defined) = st; (names, ctx1) = boundary_names reg_names reg ctx
      in foldl call_define (ops, ctx1, defined) (sorted_list_of_set names))"

definition append_call_boundary_defs ::
  "RegisterNameMap option \<Rightarrow> CallBoundaryConfig \<Rightarrow> block_state \<Rightarrow> block_state"
where
  "append_call_boundary_defs reg_names cb st =
     foldl (append_call_boundary_def reg_names) st (cb_defined_regs cb)"

text \<open>Step 2: the operations of the block.\<close>

definition is_call_op :: "R2ILOp \<Rightarrow> bool" where
  "is_call_op op = (case op of R2ILOp.Call _ \<Rightarrow> True | R2ILOp.CallInd _ \<Rightarrow> True | _ \<Rightarrow> False)"

definition rename_block_op ::
  "RegisterNameMap option \<Rightarrow> CallBoundaryConfig option \<Rightarrow> block_state \<Rightarrow> R2ILOp \<Rightarrow> block_state"
where
  "rename_block_op reg_names cb st op =
     (let (ops, ctx, defined) = st;
          (renamed_op, ctx1, defined1) = rename_op reg_names op ctx defined;
          st1 = (ops @ [renamed_op], ctx1, defined1)
      in case cb of
           Some boundary \<Rightarrow> if is_call_op op then append_call_boundary_defs reg_names boundary st1 else st1
         | None \<Rightarrow> st1)"

definition rename_enter ::
  "'g petgraph \<Rightarrow> 'g CFG \<Rightarrow> PhiPlacement \<Rightarrow> RegisterNameMap option \<Rightarrow> CallBoundaryConfig option \<Rightarrow>
     u64 \<Rightarrow> SSAOp list \<Rightarrow> RenameContext \<Rightarrow> block_state"
where
  "rename_enter G cfg pl reg_names cb b ops ctx =
     (let st1 = rename_phi_dsts 0 (get_phis pl b) (ops, ctx, [])
      in case get_block G cfg b of
           Some block \<Rightarrow> foldl (rename_block_op reg_names cb) st1 (bb_ops block)
         | None \<Rightarrow> st1)"

text \<open>Step 3: the phi sources of a successor. Only the first slot of the predecessor is filled.\<close>

fun position :: "('a \<Rightarrow> bool) \<Rightarrow> 'a list \<Rightarrow> nat option" where
  "position P [] = None"
| "position P (x # xs) = (if P x then Some 0 else map_option Suc (position P xs))"

fun fill_ops :: "RenameContext \<Rightarrow> nat \<Rightarrow> PhiInfo list \<Rightarrow> SSAOp list \<Rightarrow> SSAOp list" where
  "fill_ops ctx k phis [] = []"
| "fill_ops ctx k phis (op # ops) =
     (case op of
        SSAOp.Phi dst sources \<Rightarrow>
          (case phis of
             [] \<Rightarrow> op # fill_ops ctx k phis ops
           | phi # rest \<Rightarrow>
               SSAOp.Phi dst
                 (if k < length sources then sources[k := rc_read_var ctx (pi_var_name phi)] else sources)
               # fill_ops ctx k rest ops)
      | _ \<Rightarrow> op # fill_ops ctx k phis ops)"

definition fill_phi_sources ::
  "PhiPlacement \<Rightarrow> u64 \<Rightarrow> RenameContext \<Rightarrow> u64 \<Rightarrow> block_ops \<Rightarrow> block_ops option"
where
  "fill_phi_sources pl pred_addr ctx succ_addr blocks =
     (case get_phis pl succ_addr of
        [] \<Rightarrow> Some blocks
      | phi # phis \<Rightarrow>
          (case position (\<lambda>p. p = pred_addr) (pi_predecessors phi) of
             None \<Rightarrow> Some blocks
           | Some k \<Rightarrow>
               map_option (\<lambda>ops. hm_insert succ_addr (fill_ops ctx k (phi # phis) ops) blocks)
                 (hm_get blocks succ_addr)))"

fun fill_succs :: "PhiPlacement \<Rightarrow> u64 \<Rightarrow> RenameContext \<Rightarrow> u64 list \<Rightarrow> block_ops \<Rightarrow> block_ops option" where
  "fill_succs pl b ctx [] blocks = Some blocks"
| "fill_succs pl b ctx (s # ss) blocks =
     Option.bind (fill_phi_sources pl b ctx s blocks) (fill_succs pl b ctx ss)"

text \<open>Steps 1 to 3 for one block.\<close>

definition rename_visit ::
  "'g petgraph \<Rightarrow> 'g CFG \<Rightarrow> PhiPlacement \<Rightarrow> RegisterNameMap option \<Rightarrow> CallBoundaryConfig option \<Rightarrow>
     u64 \<Rightarrow> RenameContext \<Rightarrow> block_ops \<Rightarrow> (RenameContext \<times> string list \<times> block_ops) option"
where
  "rename_visit G cfg pl reg_names cb b ctx blocks =
     Option.bind (hm_get blocks b) (\<lambda>ops0.
       let (ops, ctx1, defined) = rename_enter G cfg pl reg_names cb b ops0 ctx
       in map_option (\<lambda>blocks1. (ctx1, defined, blocks1))
            (fill_succs pl b ctx1 (cfg_successors G cfg b) (hm_insert b ops blocks)))"

text \<open>\<open>rename_block\<close> on each block of a list: steps 1 to 3, the children, and the pops.\<close>

fun rename_blocks ::
  "nat \<Rightarrow> 'g petgraph \<Rightarrow> 'g CFG \<Rightarrow> DomTree \<Rightarrow> PhiPlacement \<Rightarrow> RegisterNameMap option \<Rightarrow>
     CallBoundaryConfig option \<Rightarrow> u64 list \<Rightarrow> RenameContext \<Rightarrow> block_ops \<Rightarrow> (RenameContext \<times> block_ops) option"
where
  "rename_blocks fuel G cfg dt pl reg_names cb [] ctx blocks = Some (ctx, blocks)"
| "rename_blocks 0 G cfg dt pl reg_names cb (b # bs) ctx blocks = None"
| "rename_blocks (Suc fuel) G cfg dt pl reg_names cb (b # bs) ctx blocks =
     Option.bind (rename_visit G cfg pl reg_names cb b ctx blocks) (\<lambda>(ctx1, defined, blocks1).
     Option.bind (rename_blocks fuel G cfg dt pl reg_names cb (dt_children_of dt b) ctx1 blocks1)
       (\<lambda>(ctx2, blocks2).
          rename_blocks (Suc fuel) G cfg dt pl reg_names cb bs (foldl pop_version ctx2 defined) blocks2))"

definition init_phis :: "PhiPlacement \<Rightarrow> RenameContext \<Rightarrow> u64 \<Rightarrow> RenameContext" where
  "init_phis pl ctx b = foldl (\<lambda>c phi. init_var (pi_var_name phi) (pi_var_size phi) c) ctx (get_phis pl b)"

definition initial_context :: "PhiPlacement \<Rightarrow> (string, u32) hashmap \<Rightarrow> RenameContext" where
  "initial_context pl var_sizes =
     foldl (init_phis pl)
       (foldl (\<lambda>c (nm, sz). init_var nm sz c) rc_new (sort var_sizes))
       (sort (map fst pl))"

definition initial_blocks :: "PhiPlacement \<Rightarrow> u64 list \<Rightarrow> block_ops" where
  "initial_blocks pl order =
     foldl (\<lambda>m addr. hm_insert addr
              ((case hm_get m addr of Some ops \<Rightarrow> ops | None \<Rightarrow> []) @
               map (\<lambda>phi. SSAOp.Phi (ssa_new (pi_var_name phi) 0 (pi_var_size phi)) (placeholder_sources phi))
                 (get_phis pl addr)) m)
       (foldl (\<lambda>m addr. hm_insert addr [] m) [] order) order"

definition rename_function_with_call_boundaries ::
  "'g petgraph \<Rightarrow> 'g CFG \<Rightarrow> DomTree \<Rightarrow> PhiPlacement \<Rightarrow> (string, u32) hashmap \<Rightarrow>
     RegisterNameMap option \<Rightarrow> CallBoundaryConfig option \<Rightarrow> RenamedFunction option"
where
  "rename_function_with_call_boundaries G cfg dt pl var_sizes reg_names cb =
     (let ctx = initial_context pl var_sizes;
          order = reverse_postorder G cfg;
          result = (rf_new (cfg_entry cfg))\<lparr>rf_block_order := order, rf_blocks := initial_blocks pl order\<rparr>
      in map_option (\<lambda>(ctx1, blocks). result\<lparr>rf_blocks := blocks\<rparr>)
           (rename_blocks (length order + 1) G cfg dt pl reg_names cb [cfg_entry cfg] ctx (rf_blocks result)))"

definition rename_function_with_names ::
  "'g petgraph \<Rightarrow> 'g CFG \<Rightarrow> DomTree \<Rightarrow> PhiPlacement \<Rightarrow> (string, u32) hashmap \<Rightarrow>
     RegisterNameMap option \<Rightarrow> RenamedFunction option"
where
  "rename_function_with_names G cfg dt pl var_sizes reg_names =
     rename_function_with_call_boundaries G cfg dt pl var_sizes reg_names None"

definition rename_function ::
  "'g petgraph \<Rightarrow> 'g CFG \<Rightarrow> DomTree \<Rightarrow> PhiPlacement \<Rightarrow> (string, u32) hashmap \<Rightarrow> RenamedFunction option"
where
  "rename_function G cfg dt pl var_sizes = rename_function_with_names G cfg dt pl var_sizes None"

section \<open>Shape of a renamed operation\<close>

lemma rename_op_shape:
  "rename_op rn op ctx defined = (op', ctx', defined') \<Longrightarrow>
     rename_write_opt rn (op_output op) ctx defined = (sop_dst op', ctx', defined') \<and>
     sop_sources op' = map (\<lambda>v. read_varnode rn v ctx) (kept_inputs op)"
  by (cases op) (auto simp: rename_write_opt_def rename_binary_op_def rename_unary_op_def kept_inputs_def Let_def
      split: prod.splits option.splits)

end
