(* ===== verification/SSA_Rename_Ctx.thy ===== *)
theory SSA_Rename_Ctx
  imports SSA_Rename
begin

text \<open>
  What renaming does to its context: a sequence of writes pushes the versions it hands out, later
  pops take them off again, and reads see the last version pushed. A stack may start with the
  version 0 of \<open>init_var\<close> or be empty; both read as version 0, so stacks are compared without
  leading zeros.
\<close>

section \<open>Stacks and counters\<close>

definition raw_stack :: "RenameContext \<Rightarrow> string \<Rightarrow> u32 list" where
  "raw_stack c v = (case hm_get (rc_stacks c) v of Some s \<Rightarrow> s | None \<Rightarrow> [])"

definition stack_of :: "RenameContext \<Rightarrow> string \<Rightarrow> u32 list" where
  "stack_of c v = dropWhile (\<lambda>x. x = 0) (raw_stack c v)"

definition count_of :: "RenameContext \<Rightarrow> string \<Rightarrow> u32" where
  "count_of c v = (case hm_get (rc_counters c) v of Some n \<Rightarrow> n | None \<Rightarrow> 0)"

lemma dropWhile_snoc: "x \<noteq> 0 \<Longrightarrow> dropWhile (\<lambda>x. x = 0) (xs @ [x]) = dropWhile (\<lambda>x. x = 0) xs @ [x]"
  by (induction xs) auto

lemma dropWhile_last:
  "(if xs = [] then 0 else last xs) =
   (if dropWhile (\<lambda>x. x = (0 :: u32)) xs = [] then 0 else last (dropWhile (\<lambda>x. x = 0) xs))"
  by (induction xs) auto

lemma current_version_raw: "current_version c v = (if raw_stack c v = [] then 0 else last (raw_stack c v))"
  by (auto simp: current_version_def raw_stack_def split: option.splits)

lemma current_version_stack: "current_version c v = (if stack_of c v = [] then 0 else last (stack_of c v))"
  unfolding current_version_raw stack_of_def by (rule dropWhile_last)

lemma write_var_obs:
  assumes "rc_write_var nm c = (d, c')"
  shows "sv_name d = nm" "sv_version d = count_of c nm + 1"
    and "count_of c' v = (if v = nm then sv_version d else count_of c v)"
    and "raw_stack c' v = (if v = nm then raw_stack c nm @ [sv_version d] else raw_stack c v)"
    and "rc_sizes c' = rc_sizes c"
  using assms
  by (auto simp: rc_write_var_def new_version_def Let_def ssa_new_def count_of_def raw_stack_def hm_get_insert)

lemma init_var_obs: "count_of (init_var nm sz c) v = count_of c v" "stack_of (init_var nm sz c) v = stack_of c v"
  by (auto simp: init_var_def count_of_def stack_of_def raw_stack_def hm_or_insert_def hm_get_insert
      split: option.splits)

section \<open>Sequences of writes\<close>

inductive writes :: "RenameContext \<Rightarrow> SSAVar list \<Rightarrow> RenameContext \<Rightarrow> bool" for c where
  writes_nil: "writes c [] c"
| writes_var: "writes c ds c1 \<Longrightarrow> rc_write_var nm c1 = (d, c2) \<Longrightarrow> writes c (ds @ [d]) c2"
| writes_init: "writes c ds c1 \<Longrightarrow> writes c ds (init_var nm sz c1)"

lemma writes_trans:
  assumes "writes c1 ds2 c2" "writes c ds1 c1"
  shows "writes c (ds1 @ ds2) c2"
  using assms(1)
proof (induction rule: writes.induct)
  case (writes_var ds c1' nm d c2)
  then show ?case using writes.writes_var [of c "ds1 @ ds" c1' nm d c2] by simp
qed (use assms(2) in \<open>auto intro: writes.intros\<close>)

text \<open>No counter is above \<open>n\<close>.\<close>

definition counts_below :: "nat \<Rightarrow> RenameContext \<Rightarrow> bool" where
  "counts_below n c \<longleftrightarrow> (\<forall>v. unat (count_of c v) \<le> n)"

lemma unat_plus_one: "unat (v :: u32) < 2 ^ 32 - 1 \<Longrightarrow> unat (v + 1) = Suc (unat v)"
  by (simp add: unat_word_ariths unsigned_1)

lemma writes_spec:
  assumes "writes c ds c'" "counts_below n c" "n + length ds < 2 ^ 32"
  shows "counts_below (n + length ds) c' \<and> (\<forall>v. unat (count_of c v) \<le> unat (count_of c' v)) \<and>
    (\<forall>v. stack_of c' v = stack_of c v @ map sv_version (filter (\<lambda>d. sv_name d = v) ds)) \<and>
    (\<forall>d \<in> set ds. unat (count_of c (sv_name d)) < unat (sv_version d) \<and>
       unat (sv_version d) \<le> unat (count_of c' (sv_name d))) \<and>
    distinct (map ver_of ds)"
  using assms(1,3)
proof (induction rule: writes.induct)
  case writes_nil
  then show ?case using assms(2) by simp
next
  case (writes_init ds c1 nm sz)
  then show ?case by (simp add: init_var_obs counts_below_def)
next
  case (writes_var ds c1 nm d c2)
  note w = write_var_obs [OF writes_var.hyps(2)]
  have IH: "counts_below (n + length ds) c1" "\<And>v. unat (count_of c v) \<le> unat (count_of c1 v)"
    "\<And>v. stack_of c1 v = stack_of c v @ map sv_version (filter (\<lambda>d. sv_name d = v) ds)"
    "\<And>d. d \<in> set ds \<Longrightarrow> unat (count_of c (sv_name d)) < unat (sv_version d) \<and>
       unat (sv_version d) \<le> unat (count_of c1 (sv_name d))" "distinct (map ver_of ds)"
    using writes_var.IH writes_var.prems by auto
  have "unat (count_of c1 nm) \<le> n + length ds" using IH(1) by (simp add: counts_below_def)
  then have u: "unat (sv_version d) = Suc (unat (count_of c1 nm))"
    unfolding w(2) using writes_var.prems by (intro unat_plus_one) simp
  then have nz: "sv_version d \<noteq> 0" by auto
  have "counts_below (n + length (ds @ [d])) c2"
    using IH(1) u unfolding counts_below_def w(3) by (auto intro: le_SucI)
  moreover have "unat (count_of c v) \<le> unat (count_of c2 v)" for v
    using IH(2) [of v] u by (auto simp: w(3))
  moreover have "stack_of c2 v = stack_of c v @ map sv_version (filter (\<lambda>d. sv_name d = v) (ds @ [d]))" for v
    using IH(3) [of v] dropWhile_snoc [OF nz] by (auto simp: stack_of_def w(1,4))
  moreover have "unat (count_of c (sv_name e)) < unat (sv_version e) \<and>
      unat (sv_version e) \<le> unat (count_of c2 (sv_name e))" if "e \<in> set (ds @ [d])" for e
  proof (cases "e \<in> set ds")
    case True
    have "unat (count_of c1 (sv_name e)) \<le> unat (count_of c2 (sv_name e))" unfolding w(3) using u by simp
    then show ?thesis using IH(4) [OF True] by linarith
  next
    case False
    then have e: "e = d" using that by simp
    have "count_of c2 nm = sv_version d" by (simp add: w(3))
    then show ?thesis unfolding e w(1) using IH(2) [of nm] u by simp
  qed
  moreover have "ver_of d \<notin> set (map ver_of ds)"
  proof
    assume "ver_of d \<in> set (map ver_of ds)"
    then obtain e where e: "e \<in> set ds" "ver_of e = ver_of d" unfolding set_map by (elim imageE) simp
    then have "sv_name e = nm" "sv_version e = sv_version d" unfolding ver_of_def w(1) by simp_all
    then show False using IH(4) [OF e(1)] u by simp
  qed
  ultimately show ?case using IH(5) by simp
qed

section \<open>Environments\<close>

text \<open>The version of each variable after a list of operations.\<close>

definition env_step :: "(string \<Rightarrow> u32) \<Rightarrow> SSAOp \<Rightarrow> string \<Rightarrow> u32" where
  "env_step E op = (case sop_dst op of Some d \<Rightarrow> E(sv_name d := sv_version d) | None \<Rightarrow> E)"

definition env_after :: "(string \<Rightarrow> u32) \<Rightarrow> SSAOp list \<Rightarrow> string \<Rightarrow> u32" where
  "env_after E ops = foldl env_step E ops"

definition env_writes :: "(string \<Rightarrow> u32) \<Rightarrow> SSAVar list \<Rightarrow> string \<Rightarrow> u32" where
  "env_writes E ds = foldl (\<lambda>E d. E(sv_name d := sv_version d)) E ds"

lemma env_after_simps [simp]:
  "env_after E [] = E" "env_after E (ops @ ops') = env_after (env_after E ops) ops'"
  by (simp_all add: env_after_def)

lemma env_after_writes: "env_after E ops = env_writes E (dsts ops)"
  by (induction ops arbitrary: E) (auto simp: env_after_def env_step_def env_writes_def split: option.splits)

lemma dsts_map: "dsts ops = concat (map (case_option [] (\<lambda>d. [d])) (map sop_dst ops))"
  by (simp add: dsts_def comp_def)

lemma env_after_dsts: "map sop_dst ops = map sop_dst ops' \<Longrightarrow> env_after E ops = env_after E ops'"
  unfolding env_after_writes dsts_map by simp

lemma writes_current:
  assumes "writes c ds c'" "counts_below n c" "n + length ds < 2 ^ 32"
  shows "current_version c' = env_writes (current_version c) ds"
  using assms(1,3)
proof (induction rule: writes.induct)
  case (writes_init ds c1 nm sz)
  have "current_version (init_var nm sz c1) = current_version c1"
    by (rule ext) (simp add: current_version_stack init_var_obs)
  then show ?case using writes_init by simp
next
  case (writes_var ds c1 nm d c2)
  note s = writes_spec [OF writes_var.hyps(1) assms(2)]
  note w = write_var_obs [OF writes_var.hyps(2)]
  have "current_version c2 v = (if v = nm then sv_version d else current_version c1 v)" for v
    unfolding current_version_raw w(4) by simp
  then show ?case using writes_var by (auto simp: env_writes_def w(1))
qed (simp add: env_writes_def)

section \<open>Pops\<close>

lemma pop_version_obs:
  "raw_stack (pop_version c nm) v = (if v = nm then butlast (raw_stack c nm) else raw_stack c v)"
  "count_of (pop_version c nm) v = count_of c v"
  by (auto simp: pop_version_def raw_stack_def count_of_def hm_get_insert split: option.splits)

lemma stack_of_pop:
  assumes "stack_of c nm \<noteq> []"
  shows "stack_of (pop_version c nm) v = (if v = nm then butlast (stack_of c nm) else stack_of c v)"
proof -
  have "dropWhile (\<lambda>x. x = 0) (butlast xs) = butlast (dropWhile (\<lambda>x. x = 0) xs)"
    if "dropWhile (\<lambda>x. x = (0::u32)) xs \<noteq> []" for xs
    using that by (induction xs rule: rev_induct) (auto simp: dropWhile_append3 dropWhile_append split: if_splits)
  then show ?thesis using assms by (simp add: stack_of_def pop_version_obs)
qed

lemma pops_restore:
  assumes "\<forall>v. \<exists>ys. stack_of c v = S v @ ys \<and> length ys = count_list vs v"
  shows "stack_of (foldl pop_version c vs) = S" "count_of (foldl pop_version c vs) = count_of c"
  using assms
proof (induction vs arbitrary: c)
  case Nil
  { case 1 then show ?case by auto }
  { case 2 then show ?case by simp }
next
  case (Cons a vs)
  have pre: "\<forall>v. \<exists>ys. stack_of (pop_version c a) v = S v @ ys \<and> length ys = count_list vs v"
    if h: "\<forall>v. \<exists>ys. stack_of c v = S v @ ys \<and> length ys = count_list (a # vs) v" for c
  proof
    fix v
    obtain ys where ys: "stack_of c v = S v @ ys" "length ys = count_list (a # vs) v" using h by blast
    obtain zs where zs: "stack_of c a = S a @ zs" "length zs = Suc (count_list vs a)" using h by fastforce
    then have ne: "stack_of c a \<noteq> []" by auto
    show "\<exists>ys. stack_of (pop_version c a) v = S v @ ys \<and> length ys = count_list vs v"
    proof (cases "v = a")
      case True
      have "zs \<noteq> []" using zs(2) by auto
      then have "stack_of (pop_version c a) v = S v @ butlast zs"
        using zs(1) True by (simp add: stack_of_pop [OF ne] butlast_append)
      then show ?thesis using zs(2) True by auto
    next
      case False
      then show ?thesis using ys by (simp add: stack_of_pop [OF ne])
    qed
  qed
  { case 1 then show ?case using Cons.IH(1) [OF pre [OF 1]] by simp }
  { case 2 then show ?case using Cons.IH(2) [OF pre [OF 2]] by (simp add: pop_version_obs fun_eq_iff) }
qed

lemma count_list_names: "count_list (map sv_name ds) v = length (filter (\<lambda>d. sv_name d = v) ds)"
  by (induction ds) auto

end
