(* ===== verification/SSA_Rename_Block.thy ===== *)
theory SSA_Rename_Block
  imports SSA_Rename_Ctx
begin

text \<open>
  What renaming does to one block: the phi destinations get versions, the operations follow with
  every use reading the version in force, and the slots of the successors' phis are filled.
\<close>

section \<open>Operations\<close>

text \<open>Every use reads the version in force, or is a constant.\<close>

fun well_versioned :: "(string \<Rightarrow> u32) \<Rightarrow> SSAOp list \<Rightarrow> bool" where
  "well_versioned E [] = True"
| "well_versioned E (op # ops) =
     ((\<forall>s \<in> set (sop_sources op). ssa_is_const s \<or> sv_version s = E (sv_name s)) \<and>
      well_versioned (env_step E op) ops)"

lemma well_versioned_append:
  "well_versioned E (xs @ ys) \<longleftrightarrow> well_versioned E xs \<and> well_versioned (env_after E xs) ys"
  by (induction xs arbitrary: E) (auto simp: env_after_def)

lemma length_dsts: "length (dsts ops) \<le> length ops"
  by (induction ops) (auto split: option.splits)

definition extends :: "block_state \<Rightarrow> SSAOp list \<Rightarrow> block_state \<Rightarrow> bool" where
  "extends st R st' \<longleftrightarrow>
     fst st' = fst st @ R \<and> snd (snd st') = snd (snd st) @ map sv_name (dsts R) \<and>
     writes (fst (snd st)) (dsts R) (fst (snd st')) \<and>
     (\<forall>n. counts_below n (fst (snd st)) \<longrightarrow> n + length R < 2 ^ 32 \<longrightarrow>
        well_versioned (current_version (fst (snd st))) R)"

lemma extends_refl: "extends st [] st"
  by (simp add: extends_def writes_nil)

lemma extends_trans:
  assumes "extends st R1 st1" "extends st1 R2 st2"
  shows "extends st (R1 @ R2) st2"
proof -
  note a = assms [unfolded extends_def]
  let ?c = "fst (snd st)" and ?c1 = "fst (snd st1)"
  have "well_versioned (current_version ?c) (R1 @ R2)"
    if n: "counts_below n ?c" "n + length (R1 @ R2) < 2 ^ 32" for n
  proof -
    have len: "n + length (dsts R1) < 2 ^ 32" "n + length (dsts R1) + length R2 < 2 ^ 32"
      using n(2) length_dsts [of R1] by simp_all
    have w: "writes ?c (dsts R1) ?c1" using a by blast
    have "counts_below (n + length (dsts R1)) ?c1" using writes_spec [OF w n(1) len(1)] by blast
    moreover have "current_version ?c1 = env_after (current_version ?c) R1"
      unfolding env_after_writes by (rule writes_current [OF w n(1) len(1)])
    ultimately show ?thesis using a n len(2) by (auto simp: well_versioned_append)
  qed
  moreover have "writes ?c (dsts (R1 @ R2)) (fst (snd st2))"
    using a writes_trans [of ?c1 "dsts R2" "fst (snd st2)" ?c "dsts R1"] by simp
  ultimately show ?thesis using a unfolding extends_def by auto
qed

lemma extends_foldl:
  assumes "\<And>st x. \<exists>R. extends st R (f st x)"
  shows "\<exists>R. extends st R (foldl f st xs)"
proof (induction xs arbitrary: st)
  case Nil
  have "extends st [] (foldl f st [])" using extends_refl [of st] by simp
  then show ?case by blast
next
  case (Cons x xs)
  obtain R1 where "extends st R1 (f st x)" using assms by blast
  moreover obtain R2 where "extends (f st x) R2 (foldl f (f st x) xs)" using Cons by blast
  ultimately have "extends st (R1 @ R2) (foldl f st (x # xs))" using extends_trans [of st R1 "f st x"] by simp
  then show ?case by blast
qed

lemma call_define_extends: "\<exists>R. extends st R (call_define st nm)"
proof -
  obtain ops c df where st: "st = (ops, c, df)" by (cases st) auto
  obtain d c1 where w: "rc_write_var nm c = (d, c1)" by fastforce
  have "extends st [SSAOp.CallDefine d] (call_define st nm)"
    using w write_var_obs(1) [OF w] writes_var [OF writes_nil w]
    by (simp add: st call_define_def extends_def)
  then show ?thesis by blast
qed

lemma boundary_def_extends: "\<exists>R. extends st R (append_call_boundary_def rn st reg)"
proof -
  obtain ops c df where st: "st = (ops, c, df)" by (cases st) auto
  obtain ns c1 where b: "boundary_names rn reg c = (ns, c1)" by fastforce
  then have "c1 = c \<or> c1 = init_var (cbd_name reg) (cbd_size reg) c"
    by (auto simp: boundary_names_def Let_def split: if_splits)
  then have "extends st [] (ops, c1, df)"
    using writes_init [OF writes_nil] writes_nil by (auto simp: extends_def st)
  moreover obtain R where "extends (ops, c1, df) R (foldl call_define (ops, c1, df) (sorted_list_of_set ns))"
    using extends_foldl [of call_define, OF call_define_extends] by blast
  ultimately have "extends st ([] @ R) (foldl call_define (ops, c1, df) (sorted_list_of_set ns))"
    by (rule extends_trans)
  moreover have "append_call_boundary_def rn st reg = foldl call_define (ops, c1, df) (sorted_list_of_set ns)"
    by (simp add: append_call_boundary_def_def st b)
  ultimately show ?thesis by metis
qed

lemma read_varnode_obs: "ssa_is_const (read_varnode rn v c) \<or>
    sv_version (read_varnode rn v c) = current_version c (sv_name (read_varnode rn v c))"
  by (auto simp: read_varnode_def rc_read_var_def ssa_new_def ssa_constant_def ssa_is_const_def starts_with_def)

lemma rename_op_extends:
  assumes "rename_op rn op c df = (op', c', df')"
  shows "extends (ops, c, df) [op'] (ops @ [op'], c', df')"
proof -
  note s = rename_op_shape [OF assms]
  have "well_versioned (current_version c) [op']"
    using s read_varnode_obs by auto
  moreover have "writes c (dsts [op']) c' \<and> df' = df @ map sv_name (dsts [op'])"
  proof (cases "op_output op")
    case None
    then show ?thesis using s writes_nil by (auto simp: rename_write_opt_def)
  next
    case (Some vn)
    obtain d c1 where w: "rc_write_var (varnode_to_name vn rn) c = (d, c1)" by fastforce
    have "sop_dst op' = Some d" "c' = c1" "df' = df @ [varnode_to_name vn rn]"
      using s Some w by (simp_all add: rename_write_opt_def rename_write_def Let_def)
    then show ?thesis using writes_var [OF writes_nil w] write_var_obs(1) [OF w] by simp
  qed
  ultimately show ?thesis by (simp add: extends_def)
qed

lemma rename_block_op_extends: "\<exists>R. extends st R (rename_block_op rn cb st op)"
proof -
  obtain ops c df where st: "st = (ops, c, df)" by (cases st) auto
  obtain op' c' df' where r: "rename_op rn op c df = (op', c', df')" by (cases "rename_op rn op c df") auto
  note e = rename_op_extends [OF r, of ops]
  show ?thesis
  proof (cases "\<exists>boundary. cb = Some boundary \<and> is_call_op op")
    case True
    then obtain boundary where b: "cb = Some boundary" "is_call_op op" by blast
    obtain R where "extends (ops @ [op'], c', df') R (append_call_boundary_defs rn boundary (ops @ [op'], c', df'))"
      unfolding append_call_boundary_defs_def
      using extends_foldl [of "append_call_boundary_def rn", OF boundary_def_extends] by blast
    from extends_trans [OF e this] show ?thesis by (simp add: rename_block_op_def st r b) blast
  next
    case False
    then have "rename_block_op rn cb st op = (ops @ [op'], c', df')"
      by (auto simp: rename_block_op_def st r Let_def split: option.splits)
    with e st show ?thesis by metis
  qed
qed

section \<open>Phi destinations\<close>

text \<open>The rows of a block: one phi per placed variable, with a slot per predecessor.\<close>

definition rows_ok :: "PhiInfo list \<Rightarrow> SSAOp list \<Rightarrow> bool" where
  "rows_ok phis ops \<longleftrightarrow> length phis \<le> length ops \<and>
     (\<forall>i < length phis. \<exists>d srcs. ops ! i = SSAOp.Phi d srcs \<and> length srcs = length (pi_predecessors (phis ! i)))"

fun phi_sources :: "SSAOp \<Rightarrow> SSAVar list" where
  "phi_sources (SSAOp.Phi d srcs) = srcs"
| "phi_sources op = []"

lemma rename_phi_dsts_spec:
  assumes "rename_phi_dsts i phis (ops, c, df) = (ops', c', df')" "length ops = i + length phis"
    and "\<forall>j < length phis. \<exists>d srcs. ops ! (i + j) = SSAOp.Phi d srcs \<and> length srcs = length (pi_predecessors (phis ! j))"
  shows "length ops' = length ops \<and> take i ops' = take i ops \<and>
    (\<forall>j < length phis. \<exists>d. ops' ! (i + j) = SSAOp.Phi d (phi_sources (ops ! (i + j)))) \<and>
    df' = df @ map sv_name (dsts (drop i ops')) \<and> map sv_name (dsts (drop i ops')) = map pi_var_name phis \<and>
    writes c (dsts (drop i ops')) c'"
  using assms
proof (induction i phis "(ops, c, df)" arbitrary: ops c df rule: rename_phi_dsts.induct)
  case (1 i)
  then show ?case by (simp add: writes_nil)
next
  case (2 i phi phis ops c df)
  obtain d c1 where w: "rc_write_var (pi_var_name phi) c = (d, c1)" by fastforce
  obtain d0 srcs where p: "ops ! i = SSAOp.Phi d0 srcs" "length srcs = length (pi_predecessors phi)"
    using "2.prems"(3) by (auto dest: spec [of _ 0])
  have il: "i < length ops" using "2.prems"(2) by simp
  let ?ops1 = "ops[i := SSAOp.Phi d srcs]"
  have s: "set_phi_dst i phi d ops = ?ops1" using p il by (simp add: set_phi_dst_def)
  have r: "rename_phi_dsts (Suc i) phis (?ops1, c1, df @ [pi_var_name phi]) = (ops', c', df')"
    using "2.prems"(1) w s by simp
  have rows: "\<forall>j < length phis. \<exists>d srcs. ?ops1 ! (Suc i + j) = SSAOp.Phi d srcs \<and>
      length srcs = length (pi_predecessors (phis ! j))"
    using "2.prems"(3) by (auto dest: spec [of _ "Suc _"])
  have "length ?ops1 = Suc i + length phis" using "2.prems"(2) by simp
  note IH = "2.hyps" [OF w [symmetric] refl, unfolded s, OF r this rows]
  have ni: "ops' ! i = SSAOp.Phi d srcs"
  proof -
    have "ops' ! i = take (Suc i) ops' ! i" by simp
    also have "\<dots> = take (Suc i) ?ops1 ! i" using IH by simp
    finally show ?thesis using il by simp
  qed
  have len: "length ops' = length ops" using IH by simp
  have dr: "drop i ops' = SSAOp.Phi d srcs # drop (Suc i) ops'"
    using il len ni by (metis Cons_nth_drop_Suc)
  have tk: "take i ops' = take i ops"
  proof -
    have "take i ops' = take i (take (Suc i) ops')" by (simp add: min_def)
    also have "\<dots> = take i (take (Suc i) ?ops1)" using IH by simp
    finally show ?thesis by (simp add: min_def)
  qed
  have "\<exists>d. ops' ! (i + j) = SSAOp.Phi d (phi_sources (ops ! (i + j)))" if "j < length (phi # phis)" for j
  proof (cases j)
    case 0
    then show ?thesis using ni p by simp
  next
    case (Suc k)
    then have "\<exists>d. ops' ! (Suc i + k) = SSAOp.Phi d (phi_sources (?ops1 ! (Suc i + k)))" using IH that by auto
    then show ?thesis using Suc by simp
  qed
  moreover have "writes c (dsts (drop i ops')) c'"
    using IH writes_trans [of c1 "dsts (drop (Suc i) ops')" c' c "[d]"] writes_var [OF writes_nil w]
    by (simp add: dr)
  ultimately show ?case using IH tk len write_var_obs(1) [OF w] by (simp add: dr)
qed

definition block_len :: "'g petgraph \<Rightarrow> 'g CFG \<Rightarrow> u64 \<Rightarrow> nat" where
  "block_len G cfg b = (case get_block G cfg b of Some block \<Rightarrow> length (bb_ops block) | None \<Rightarrow> 0)"

lemma length_rename_ops:
  "length (fst (foldl (rename_block_op rn None) st ops)) = length (fst st) + length ops"
proof (induction ops arbitrary: st)
  case (Cons op ops)
  have "length (fst (rename_block_op rn None st op)) = Suc (length (fst st))"
    by (simp add: rename_block_op_def split_beta Let_def)
  then show ?case using Cons [of "rename_block_op rn None st op"] by simp
qed simp

lemma rename_enter_spec:
  assumes "rename_enter G cfg pl rn cb b ops0 c = (ops, c', df)"
    and "rows_ok (get_phis pl b) ops0" "length ops0 = length (get_phis pl b)"
  shows "length ops0 \<le> length ops \<and>
    (\<forall>j < length ops0. \<exists>d. ops ! j = SSAOp.Phi d (phi_sources (ops0 ! j))) \<and>
    df = map sv_name (dsts ops) \<and> writes c (dsts ops) c' \<and>
    (\<forall>n. counts_below n c \<longrightarrow> n + length ops < 2 ^ 32 \<longrightarrow>
       well_versioned (env_after (current_version c) (take (length ops0) ops)) (drop (length ops0) ops)) \<and>
    (cb = None \<longrightarrow> length ops = length ops0 + block_len G cfg b)"
proof -
  obtain P c1 df1 where ph: "rename_phi_dsts 0 (get_phis pl b) (ops0, c, []) = (P, c1, df1)"
    by (cases "rename_phi_dsts 0 (get_phis pl b) (ops0, c, [])") auto
  have rows: "\<forall>j < length (get_phis pl b). \<exists>d srcs. ops0 ! (0 + j) = SSAOp.Phi d srcs \<and>
      length srcs = length (pi_predecessors (get_phis pl b ! j))" using assms(2) by (simp add: rows_ok_def)
  have P: "length P = length ops0" "\<forall>j < length ops0. \<exists>d. P ! j = SSAOp.Phi d (phi_sources (ops0 ! j))"
    "df1 = map sv_name (dsts P)" "writes c (dsts P) c1"
    using rename_phi_dsts_spec [OF ph _ rows] assms(3) by simp_all
  obtain R where "extends (P, c1, df1) R (ops, c', df)"
  proof (cases "get_block G cfg b")
    case None
    then show ?thesis using assms(1) ph that extends_refl by (auto simp: rename_enter_def)
  next
    case (Some block)
    then show ?thesis
      using assms(1) ph that extends_foldl [of "rename_block_op rn cb", OF rename_block_op_extends, of "(P, c1, df1)" "bb_ops block"]
      by (auto simp: rename_enter_def)
  qed
  then have R: "ops = P @ R" "df = df1 @ map sv_name (dsts R)" "writes c1 (dsts R) c'"
    "\<And>n. counts_below n c1 \<Longrightarrow> n + length R < 2 ^ 32 \<Longrightarrow> well_versioned (current_version c1) R"
    by (auto simp: extends_def)
  have "well_versioned (env_after (current_version c) (take (length ops0) ops)) (drop (length ops0) ops)"
    if n: "counts_below n c" "n + length ops < 2 ^ 32" for n
  proof -
    have len: "n + length (dsts P) < 2 ^ 32" "n + length (dsts P) + length R < 2 ^ 32"
      using n(2) length_dsts [of P] R(1) by simp_all
    have "counts_below (n + length (dsts P)) c1" using writes_spec [OF P(4) n(1) len(1)] by blast
    from R(4) [OF this len(2)] show ?thesis
      using writes_current [OF P(4) n(1) len(1)] P(1) R(1) by (simp add: env_after_writes)
  qed
  moreover have "writes c (dsts ops) c'" using writes_trans [OF R(3) P(4)] R(1) by simp
  moreover have "length ops = length ops0 + block_len G cfg b" if "cb = None"
    using length_rename_ops [of rn "(P, c1, df1)"] assms(1) ph P(1) that
    by (auto simp: rename_enter_def block_len_def split: option.splits) (metis fst_conv)
  ultimately show ?thesis using P R by (auto simp: nth_append)
qed

section \<open>Filling the slots of a successor\<close>

lemma fill_ops_nil: "fill_ops c k [] ops = ops"
proof (induction ops)
  case (Cons op ops)
  then show ?case by (cases op) simp_all
qed simp

lemma fill_ops_spec:
  assumes "rows_ok phis ops"
  shows "length (fill_ops c k phis ops) = length ops \<and>
    drop (length phis) (fill_ops c k phis ops) = drop (length phis) ops \<and>
    map sop_dst (fill_ops c k phis ops) = map sop_dst ops \<and>
    (\<forall>i < length phis. \<exists>d. ops ! i = SSAOp.Phi d (phi_sources (ops ! i)) \<and>
       fill_ops c k phis ops ! i = SSAOp.Phi d
         ((phi_sources (ops ! i))[k := rc_read_var c (pi_var_name (phis ! i))]))"
  using assms
proof (induction c k phis ops rule: fill_ops.induct)
  case (1 c k phis)
  then show ?case by (simp add: rows_ok_def)
next
  case (2 c k phis op ops)
  show ?case
  proof (cases phis)
    case Nil
    have "fill_ops c k phis (op # ops) = op # ops" unfolding Nil by (rule fill_ops_nil)
    then show ?thesis using Nil by (simp del: fill_ops.simps)
  next
    case (Cons phi rest)
    obtain d srcs where op: "op = SSAOp.Phi d srcs" using "2.prems" Cons by (auto simp: rows_ok_def dest: spec [of _ 0])
    have "rows_ok rest ops"
      using "2.prems" Cons unfolding rows_ok_def by (auto dest: spec [of _ "Suc _"])
    note IH = "2.IH"(2) [OF op Cons this]
    have f: "fill_ops c k phis (op # ops) =
        SSAOp.Phi d (srcs[k := rc_read_var c (pi_var_name phi)]) # fill_ops c k rest ops"
      using op Cons by (simp add: list_update_beyond [of srcs k])
    show ?thesis using IH op unfolding f Cons by (auto simp: nth_Cons list_update_beyond split: nat.splits)
  qed
qed

lemma position_Some: "position P xs = Some k \<longleftrightarrow> k < length xs \<and> P (xs ! k) \<and> (\<forall>j < k. \<not> P (xs ! j))"
proof (induction xs arbitrary: k)
  case (Cons x xs)
  show ?case using Cons by (cases k) (auto simp: nth_Cons split: nat.splits)
qed simp

lemma position_None: "position P xs = None \<longleftrightarrow> (\<forall>x \<in> set xs. \<not> P x)"
  by (induction xs) auto

end
