(* ===== verification/SSA_Rename_Tree.thy ===== *)
theory SSA_Rename_Tree
  imports SSA_Rename_Block
begin

text \<open>
  Renaming along the dominator tree: what a visit may change, and what holds of all the blocks of a
  subtree when the recursion has left it.
\<close>

section \<open>Setup\<close>

text \<open>What renaming relies on: a computed dominator tree, and a placement whose phis have the
  predecessors of their block.\<close>

definition rename_setup ::
  "'g petgraph \<Rightarrow> 'g CFG \<Rightarrow> DomTree \<Rightarrow> PhiPlacement \<Rightarrow> bool" where
  "rename_setup G cfg dt pl \<longleftrightarrow>
     petgraph_ok G \<and> cfg_inv G cfg \<and> get_node cfg (cfg_entry cfg) \<noteq> None \<and> dom_compute G cfg = Some dt \<and>
     (\<forall>b. \<forall>phi \<in> set (get_phis pl b). pi_predecessors phi = cfg_predecessors G cfg b)"

lemma rename_setupD:
  assumes "rename_setup G cfg dt pl"
  shows "dom_setup (edge_rel G cfg) (cfg_entry cfg) (reverse_postorder G cfg) (cfg_predecessors G cfg)"
    and "dom_tree_ok (edge_rel G cfg) (cfg_entry cfg) (reverse_postorder G cfg) (cfg_predecessors G cfg)
      (block_addrs cfg) dt"
    and "set (reverse_postorder G cfg) = reachable_addrs G cfg"
    and "b \<in> reachable_addrs G cfg \<Longrightarrow> s \<in> set (cfg_successors G cfg b) \<Longrightarrow>
      s \<in> reachable_addrs G cfg \<and> b \<in> set (cfg_predecessors G cfg s)"
    and "phi \<in> set (get_phis pl b) \<Longrightarrow> pi_predecessors phi = cfg_predecessors G cfg b"
proof -
  note a = assms [unfolded rename_setup_def]
  note t = dom_compute_tree [of G cfg dt]
  show S: "dom_setup (edge_rel G cfg) (cfg_entry cfg) (reverse_postorder G cfg) (cfg_predecessors G cfg)"
    and "dom_tree_ok (edge_rel G cfg) (cfg_entry cfg) (reverse_postorder G cfg) (cfg_predecessors G cfg)
      (block_addrs cfg) dt"
    and r: "set (reverse_postorder G cfg) = reachable_addrs G cfg" using t a by blast+
  show "s \<in> reachable_addrs G cfg \<and> b \<in> set (cfg_predecessors G cfg s)"
    if b: "b \<in> reachable_addrs G cfg" and s: "s \<in> set (cfg_successors G cfg b)"
  proof -
    have e: "(b, s) \<in> edge_rel G cfg" using s a set_cfg_successors by blast
    then have "b \<in> set (cfg_predecessors G cfg s)" using a set_cfg_predecessors by blast
    moreover have "s \<in> reachable_addrs G cfg"
      using b e unfolding r [symmetric] dom_setupD(4) [OF S] by (auto intro: rtrancl_into_rtrancl)
    ultimately show ?thesis by blast
  qed
  show "phi \<in> set (get_phis pl b) \<Longrightarrow> pi_predecessors phi = cfg_predecessors G cfg b" using a by blast
qed

definition ops_at :: "block_ops \<Rightarrow> u64 \<Rightarrow> SSAOp list" where
  "ops_at blocks b = (case hm_get blocks b of Some ops \<Rightarrow> ops | None \<Rightarrow> [])"

abbreviation slot_of :: "'g petgraph \<Rightarrow> 'g CFG \<Rightarrow> u64 \<Rightarrow> u64 \<Rightarrow> nat option" where
  "slot_of G cfg s c \<equiv> position (\<lambda>p. p = c) (cfg_predecessors G cfg s)"

definition slot :: "block_ops \<Rightarrow> u64 \<Rightarrow> nat \<Rightarrow> nat \<Rightarrow> SSAVar" where
  "slot blocks s i k = phi_sources (ops_at blocks s ! i) ! k"

definition blocks_inv :: "'g petgraph \<Rightarrow> 'g CFG \<Rightarrow> PhiPlacement \<Rightarrow> block_ops \<Rightarrow> bool" where
  "blocks_inv G cfg pl blocks \<longleftrightarrow>
     (\<forall>b \<in> reachable_addrs G cfg. hm_get blocks b \<noteq> None \<and> rows_ok (get_phis pl b) (ops_at blocks b))"

section \<open>What may change\<close>

text \<open>Outside \<open>X\<close> only phi sources change, and of those only the slots of blocks in \<open>X\<close>.\<close>

definition frame ::
  "'g petgraph \<Rightarrow> 'g CFG \<Rightarrow> PhiPlacement \<Rightarrow> u64 set \<Rightarrow> block_ops \<Rightarrow> block_ops \<Rightarrow> bool" where
  "frame G cfg pl X blocks blocks' \<longleftrightarrow>
     blocks_inv G cfg pl blocks' \<and>
     (\<forall>b \<in> reachable_addrs G cfg. b \<notin> X \<longrightarrow>
        map sop_dst (ops_at blocks' b) = map sop_dst (ops_at blocks b) \<and>
        drop (length (get_phis pl b)) (ops_at blocks' b) = drop (length (get_phis pl b)) (ops_at blocks b)) \<and>
     (\<forall>s \<in> reachable_addrs G cfg. \<forall>i < length (get_phis pl s). \<forall>k.
        (\<forall>c \<in> X. slot_of G cfg s c \<noteq> Some k) \<longrightarrow> slot blocks' s i k = slot blocks s i k)"

lemma frame_refl: "blocks_inv G cfg pl blocks \<Longrightarrow> frame G cfg pl X blocks blocks"
  by (simp add: frame_def)

lemma frame_trans:
  assumes "frame G cfg pl X a b" "frame G cfg pl Y b c"
  shows "frame G cfg pl (X \<union> Y) a c"
  unfolding frame_def
proof (intro conjI ballI impI allI)
  show "blocks_inv G cfg pl c" using assms(2) by (simp add: frame_def)
qed (use assms in \<open>auto simp: frame_def\<close>)

lemma frameD:
  assumes "frame G cfg pl X blocks blocks'"
  shows "blocks_inv G cfg pl blocks'"
    and "b \<in> reachable_addrs G cfg \<Longrightarrow> b \<notin> X \<Longrightarrow> map sop_dst (ops_at blocks' b) = map sop_dst (ops_at blocks b)"
    and "b \<in> reachable_addrs G cfg \<Longrightarrow> b \<notin> X \<Longrightarrow> length (ops_at blocks' b) = length (ops_at blocks b)"
    and "b \<in> reachable_addrs G cfg \<Longrightarrow> b \<notin> X \<Longrightarrow>
      drop (length (get_phis pl b)) (ops_at blocks' b) = drop (length (get_phis pl b)) (ops_at blocks b)"
    and "s \<in> reachable_addrs G cfg \<Longrightarrow> i < length (get_phis pl s) \<Longrightarrow>
      (\<And>c. c \<in> X \<Longrightarrow> slot_of G cfg s c \<noteq> Some k) \<Longrightarrow> slot blocks' s i k = slot blocks s i k"
proof -
  show "blocks_inv G cfg pl blocks'" using assms by (simp add: frame_def)
  show m: "map sop_dst (ops_at blocks' b) = map sop_dst (ops_at blocks b)"
    if "b \<in> reachable_addrs G cfg" "b \<notin> X" using that assms unfolding frame_def by blast
  show "length (ops_at blocks' b) = length (ops_at blocks b)" if "b \<in> reachable_addrs G cfg" "b \<notin> X"
    using m [OF that] by (rule map_eq_imp_length_eq)
  show "drop (length (get_phis pl b)) (ops_at blocks' b) = drop (length (get_phis pl b)) (ops_at blocks b)"
    if "b \<in> reachable_addrs G cfg" "b \<notin> X" using that assms unfolding frame_def by blast
  show "slot blocks' s i k = slot blocks s i k"
    if "s \<in> reachable_addrs G cfg" "i < length (get_phis pl s)" "\<And>c. c \<in> X \<Longrightarrow> slot_of G cfg s c \<noteq> Some k"
    using that assms unfolding frame_def by blast
qed

lemma ops_at_insert: "ops_at (hm_insert b ops blocks) x = (if x = b then ops else ops_at blocks x)"
  by (simp add: ops_at_def hm_get_insert)

lemma slot_of_inj: "slot_of G cfg s c = Some k \<Longrightarrow> slot_of G cfg s c' = Some k \<Longrightarrow> c = c'"
  by (auto simp: position_Some)

section \<open>Filling\<close>

lemma fill_phi_sources_spec:
  assumes S: "rename_setup G cfg dt pl" and inv: "blocks_inv G cfg pl blocks"
    and b: "b \<in> reachable_addrs G cfg" "s \<in> set (cfg_successors G cfg b)"
  shows "\<exists>blocks1. fill_phi_sources pl b c s blocks = Some blocks1 \<and> blocks_inv G cfg pl blocks1 \<and>
    (\<forall>x \<in> reachable_addrs G cfg.
       map sop_dst (ops_at blocks1 x) = map sop_dst (ops_at blocks x) \<and>
       drop (length (get_phis pl x)) (ops_at blocks1 x) = drop (length (get_phis pl x)) (ops_at blocks x)) \<and>
    (\<forall>x \<in> reachable_addrs G cfg. \<forall>i < length (get_phis pl x). \<forall>k.
       slot blocks1 x i k = (if x = s \<and> slot_of G cfg s b = Some k
         then rc_read_var c (pi_var_name (get_phis pl x ! i)) else slot blocks x i k))"
proof -
  note d = rename_setupD [OF S]
  have s: "s \<in> reachable_addrs G cfg" "b \<in> set (cfg_predecessors G cfg s)" using d(4) [OF b] by blast+
  show ?thesis
  proof (cases "get_phis pl s")
    case Nil
    then show ?thesis using inv by (auto simp: fill_phi_sources_def)
  next
    case (Cons phi phis)
    let ?k = "slot_of G cfg s b"
    have pr: "pi_predecessors phi = cfg_predecessors G cfg s" using d(5) Cons by (metis list.set_intros(1))
    obtain k where k: "?k = Some k" using s(2) position_None [of "\<lambda>p. p = b"] by (cases ?k) auto
    obtain ops where ops: "hm_get blocks s = Some ops" using inv s(1) unfolding blocks_inv_def by blast
    then have oa: "ops_at blocks s = ops" by (simp add: ops_at_def)
    let ?f = "fill_ops c k (phi # phis) ops" and ?bl = "hm_insert s (fill_ops c k (phi # phis) ops) blocks"
    have f: "fill_phi_sources pl b c s blocks = Some ?bl"
      using Cons pr k ops by (simp add: fill_phi_sources_def)
    have rows: "rows_ok (phi # phis) ops" using inv s(1) oa Cons unfolding blocks_inv_def by auto
    note fs = fill_ops_spec [OF rows, of c k]
    have "rows_ok (phi # phis) ?f"
      unfolding rows_ok_def
    proof (intro conjI allI impI)
      show "length (phi # phis) \<le> length ?f" using rows fs by (simp add: rows_ok_def)
      fix i assume i: "i < length (phi # phis)"
      then obtain e srcs where "ops ! i = SSAOp.Phi e srcs" "length srcs = length (pi_predecessors ((phi # phis) ! i))"
        using rows unfolding rows_ok_def by blast
      then show "\<exists>d srcs. ?f ! i = SSAOp.Phi d srcs \<and> length srcs = length (pi_predecessors ((phi # phis) ! i))"
        using fs i by (metis length_list_update phi_sources.simps(1))
    qed
    then have inv1: "blocks_inv G cfg pl ?bl"
      using inv Cons unfolding blocks_inv_def ops_at_insert by (simp add: hm_get_insert)
    have kl: "k < length (cfg_predecessors G cfg s)" using k by (simp add: position_Some)
    have sl: "slot ?bl s i j = (if j = k then rc_read_var c (pi_var_name (get_phis pl s ! i)) else slot blocks s i j)"
      if i: "i < length (get_phis pl s)" for i j
    proof -
      have i': "i < length (phi # phis)" using i Cons by simp
      obtain e where e: "?f ! i = SSAOp.Phi e
          ((phi_sources (ops ! i))[k := rc_read_var c (pi_var_name ((phi # phis) ! i))])" using fs i' by blast
      have "length (phi_sources (ops ! i)) = length (pi_predecessors ((phi # phis) ! i))"
        using rows i' unfolding rows_ok_def by (metis phi_sources.simps(1))
      moreover have "pi_predecessors ((phi # phis) ! i) = cfg_predecessors G cfg s"
        using d(5) [of "(phi # phis) ! i" s] Cons i' nth_mem by metis
      ultimately have "k < length (phi_sources (ops ! i))" using kl by simp
      then show ?thesis using e Cons by (simp add: slot_def ops_at_insert oa)
    qed
    show ?thesis
    proof (intro exI [of _ ?bl] conjI f inv1 ballI allI impI)
      fix x assume x: "x \<in> reachable_addrs G cfg"
      show "map sop_dst (ops_at ?bl x) = map sop_dst (ops_at blocks x)"
        "drop (length (get_phis pl x)) (ops_at ?bl x) = drop (length (get_phis pl x)) (ops_at blocks x)"
        using fs Cons oa by (auto simp: ops_at_insert)
      fix i j assume i: "i < length (get_phis pl x)"
      show "slot ?bl x i j = (if x = s \<and> ?k = Some j
         then rc_read_var c (pi_var_name (get_phis pl x ! i)) else slot blocks x i j)"
      proof (cases "x = s")
        case True
        then show ?thesis using sl i k by auto
      next
        case False
        then show ?thesis by (simp add: slot_def ops_at_insert)
      qed
    qed
  qed
qed

lemma fill_succs_spec:
  assumes S: "rename_setup G cfg dt pl" and b: "b \<in> reachable_addrs G cfg"
    and "blocks_inv G cfg pl blocks" "set ss \<subseteq> set (cfg_successors G cfg b)"
  shows "\<exists>blocks1. fill_succs pl b c ss blocks = Some blocks1 \<and> blocks_inv G cfg pl blocks1 \<and>
    (\<forall>x \<in> reachable_addrs G cfg.
       map sop_dst (ops_at blocks1 x) = map sop_dst (ops_at blocks x) \<and>
       drop (length (get_phis pl x)) (ops_at blocks1 x) = drop (length (get_phis pl x)) (ops_at blocks x)) \<and>
    (\<forall>x \<in> reachable_addrs G cfg. \<forall>i < length (get_phis pl x). \<forall>k.
       slot blocks1 x i k = (if x \<in> set ss \<and> slot_of G cfg x b = Some k
         then rc_read_var c (pi_var_name (get_phis pl x ! i)) else slot blocks x i k))"
  using assms(3,4)
proof (induction ss arbitrary: blocks)
  case Nil
  then show ?case by simp
next
  case (Cons s ss)
  have "s \<in> set (cfg_successors G cfg b)" using Cons.prems by simp
  then obtain bl1 where b1: "fill_phi_sources pl b c s blocks = Some bl1" "blocks_inv G cfg pl bl1"
    "\<forall>x \<in> reachable_addrs G cfg.
       map sop_dst (ops_at bl1 x) = map sop_dst (ops_at blocks x) \<and>
       drop (length (get_phis pl x)) (ops_at bl1 x) = drop (length (get_phis pl x)) (ops_at blocks x)"
    "\<forall>x \<in> reachable_addrs G cfg. \<forall>i < length (get_phis pl x). \<forall>k.
       slot bl1 x i k = (if x = s \<and> slot_of G cfg s b = Some k
         then rc_read_var c (pi_var_name (get_phis pl x ! i)) else slot blocks x i k)"
    using fill_phi_sources_spec [OF S Cons.prems(1) b, of s c] by blast
  have "set ss \<subseteq> set (cfg_successors G cfg b)" using Cons.prems by simp
  then obtain bl2 where b2: "fill_succs pl b c ss bl1 = Some bl2" "blocks_inv G cfg pl bl2"
    "\<forall>x \<in> reachable_addrs G cfg.
       map sop_dst (ops_at bl2 x) = map sop_dst (ops_at bl1 x) \<and>
       drop (length (get_phis pl x)) (ops_at bl2 x) = drop (length (get_phis pl x)) (ops_at bl1 x)"
    "\<forall>x \<in> reachable_addrs G cfg. \<forall>i < length (get_phis pl x). \<forall>k.
       slot bl2 x i k = (if x \<in> set ss \<and> slot_of G cfg x b = Some k
         then rc_read_var c (pi_var_name (get_phis pl x ! i)) else slot bl1 x i k)"
    using Cons.IH [OF b1(2)] by blast
  have "fill_succs pl b c (s # ss) blocks = Some bl2" using b1(1) b2(1) by simp
  then show ?case using b2(2,3,4) b1(3,4) by (intro exI [of _ bl2]) auto
qed


section \<open>Visiting a block\<close>

text \<open>What a visit of \<open>b\<close> leaves, in terms of the version environment on entry to the block.\<close>

definition block_good ::
  "'g petgraph \<Rightarrow> 'g CFG \<Rightarrow> PhiPlacement \<Rightarrow> block_ops \<Rightarrow> u64 \<Rightarrow> (string \<Rightarrow> u32) \<Rightarrow> bool" where
  "block_good G cfg pl blocks b E \<longleftrightarrow>
     (let n = length (get_phis pl b); ops = ops_at blocks b in
      well_versioned (env_after E (take n ops)) (drop n ops) \<and>
      (\<forall>s \<in> set (cfg_successors G cfg b). \<forall>i < length (get_phis pl s). \<forall>k.
         slot_of G cfg s b = Some k \<longrightarrow>
         ver_of (slot blocks s i k) =
           (pi_var_name (get_phis pl s ! i), env_after E ops (pi_var_name (get_phis pl s ! i)))))"

lemma rename_visit_spec:
  assumes S: "rename_setup G cfg dt pl" and b: "b \<in> reachable_addrs G cfg"
    and inv: "blocks_inv G cfg pl blocks" and fresh: "length (ops_at blocks b) = length (get_phis pl b)"
  shows "\<exists>c1 df blocks1. rename_visit G cfg pl rn cb b c blocks = Some (c1, df, blocks1) \<and>
    frame G cfg pl {b} blocks blocks1 \<and>
    df = map sv_name (dsts (ops_at blocks1 b)) \<and> writes c (dsts (ops_at blocks1 b)) c1 \<and>
    (\<forall>n. counts_below n c \<longrightarrow> n + length (ops_at blocks1 b) < 2 ^ 32 \<longrightarrow>
       block_good G cfg pl blocks1 b (current_version c)) \<and>
    (cb = None \<longrightarrow> length (ops_at blocks1 b) = length (get_phis pl b) + block_len G cfg b)"
proof -
  note d = rename_setupD [OF S]
  let ?n = "length (get_phis pl b)"
  obtain ops0 where ops0: "hm_get blocks b = Some ops0" using inv b unfolding blocks_inv_def by blast
  then have oa: "ops_at blocks b = ops0" by (simp add: ops_at_def)
  have rows: "rows_ok (get_phis pl b) ops0" using inv b oa unfolding blocks_inv_def by auto
  obtain ops c1 df where en: "rename_enter G cfg pl rn cb b ops0 c = (ops, c1, df)"
    by (cases "rename_enter G cfg pl rn cb b ops0 c") auto
  have es: "?n \<le> length ops" "\<And>j. j < ?n \<Longrightarrow> \<exists>d. ops ! j = SSAOp.Phi d (phi_sources (ops0 ! j))"
    "df = map sv_name (dsts ops)" "writes c (dsts ops) c1"
    "\<And>n. counts_below n c \<Longrightarrow> n + length ops < 2 ^ 32 \<Longrightarrow>
       well_versioned (env_after (current_version c) (take ?n ops)) (drop ?n ops)"
    "cb = None \<Longrightarrow> length ops = ?n + block_len G cfg b"
    using rename_enter_spec [OF en rows] fresh oa by auto
  let ?bl = "hm_insert b ops blocks"
  have rows1: "rows_ok (get_phis pl b) ops"
    unfolding rows_ok_def
  proof (intro conjI allI impI es(1))
    fix i assume i: "i < ?n"
    then show "\<exists>d srcs. ops ! i = SSAOp.Phi d srcs \<and> length srcs = length (pi_predecessors (get_phis pl b ! i))"
      using es(2) [OF i] rows unfolding rows_ok_def by (metis phi_sources.simps(1))
  qed
  have inv1: "blocks_inv G cfg pl ?bl"
    using inv rows1 unfolding blocks_inv_def ops_at_insert by (simp add: hm_get_insert)
  obtain bl1 where b1: "fill_succs pl b c1 (cfg_successors G cfg b) ?bl = Some bl1" "blocks_inv G cfg pl bl1"
    "\<And>x. x \<in> reachable_addrs G cfg \<Longrightarrow> map sop_dst (ops_at bl1 x) = map sop_dst (ops_at ?bl x) \<and>
       drop (length (get_phis pl x)) (ops_at bl1 x) = drop (length (get_phis pl x)) (ops_at ?bl x)"
    "\<And>x i k. x \<in> reachable_addrs G cfg \<Longrightarrow> i < length (get_phis pl x) \<Longrightarrow>
       slot bl1 x i k = (if x \<in> set (cfg_successors G cfg b) \<and> slot_of G cfg x b = Some k
         then rc_read_var c1 (pi_var_name (get_phis pl x ! i)) else slot ?bl x i k)"
    using fill_succs_spec [OF S b inv1 order_refl, of c1] by blast
  have vis: "rename_visit G cfg pl rn cb b c blocks = Some (c1, df, bl1)"
    using ops0 en b1(1) by (simp add: rename_visit_def)
  have sl: "slot ?bl x i k = slot blocks x i k" if i: "i < length (get_phis pl x)" for x i k
  proof (cases "x = b")
    case True
    then obtain d where "ops ! i = SSAOp.Phi d (phi_sources (ops0 ! i))" using es(2) i by blast
    then show ?thesis using True oa by (simp add: slot_def ops_at_insert)
  qed (simp add: slot_def ops_at_insert)
  have fr: "frame G cfg pl {b} blocks bl1"
    unfolding frame_def using b1 sl by (auto simp: ops_at_insert)
  have ob: "ops_at ?bl b = ops" by (simp add: ops_at_insert)
  have eb: "map sop_dst (ops_at bl1 b) = map sop_dst ops" "drop ?n (ops_at bl1 b) = drop ?n ops"
    using b1(3) [OF b] ob by simp_all
  then have len: "length (ops_at bl1 b) = length ops" by (metis length_map)
  have ds: "dsts (ops_at bl1 b) = dsts ops" using eb(1) by (simp add: dsts_map)
  have "block_good G cfg pl bl1 b (current_version c)"
    if n: "counts_below n c" "n + length (ops_at bl1 b) < 2 ^ 32" for n
    unfolding block_good_def Let_def
  proof (intro conjI ballI allI impI)
    have "map sop_dst (take ?n (ops_at bl1 b)) = map sop_dst (take ?n ops)" using eb(1) by (metis take_map)
    then show "well_versioned (env_after (current_version c) (take ?n (ops_at bl1 b))) (drop ?n (ops_at bl1 b))"
      using es(5) [OF n(1)] n(2) len eb(2) env_after_dsts [of "take ?n (ops_at bl1 b)" "take ?n ops"] by simp
    fix s i k
    assume s: "s \<in> set (cfg_successors G cfg b)" "i < length (get_phis pl s)" "slot_of G cfg s b = Some k"
    have "n + length (dsts ops) < 2 ^ 32" using n(2) len length_dsts [of ops] by simp
    then have "current_version c1 = env_after (current_version c) ops"
      using writes_current [OF es(4) n(1)] by (simp add: env_after_writes)
    also have "\<dots> = env_after (current_version c) (ops_at bl1 b)" using env_after_dsts [OF eb(1)] by metis
    finally show "ver_of (slot bl1 s i k) = (pi_var_name (get_phis pl s ! i),
        env_after (current_version c) (ops_at bl1 b) (pi_var_name (get_phis pl s ! i)))"
      using b1(4) [OF _ s(2), of k] s d(4) [OF b s(1)] by (simp add: rc_read_var_def ver_of_def ssa_new_def)
  qed
  then show ?thesis using vis fr es(3,4,6) ds len by auto
qed

section \<open>Environments along the tree\<close>

inductive tree_env ::
  "DomTree \<Rightarrow> block_ops \<Rightarrow> u64 set \<Rightarrow> (string \<Rightarrow> u32) \<Rightarrow> u64 \<Rightarrow> (string \<Rightarrow> u32) \<Rightarrow> bool"
  for dt blocks S E0
where
  tree_root: "b \<in> S \<Longrightarrow> tree_env dt blocks S E0 b E0"
| tree_child: "tree_env dt blocks S E0 d E \<Longrightarrow> c \<in> set (dt_children_of dt d) \<Longrightarrow>
    tree_env dt blocks S E0 c (env_after E (ops_at blocks d))"

lemma tree_env_split:
  assumes "tree_env dt blocks (insert b S) E0 x E"
  shows "tree_env dt blocks S E0 x E \<or> (x = b \<and> E = E0) \<or>
    tree_env dt blocks (set (dt_children_of dt b)) (env_after E0 (ops_at blocks b)) x E"
  using assms
proof (induction rule: tree_env.induct)
  case (tree_root x)
  then show ?case by (auto intro: tree_env.tree_root)
next
  case (tree_child d E c)
  then show ?case by (auto intro: tree_env.intros)
qed

lemma tree_env_below:
  assumes T: "dom_tree_ok E r rpo preds addrs dt" and "S \<subseteq> dom (hm_get (dt_idom dt))"
    and "tree_env dt blocks S E0 x F"
  shows "x \<in> below (dt_idom dt) S"
  using assms(3)
proof (induction rule: tree_env.induct)
  case (tree_root b)
  then show ?case using assms(2) chain_self [of b "hm_get (dt_idom dt)"] unfolding below_def by blast
next
  case (tree_child d F c)
  note t = dom_tree_okD [OF T]
  have "c \<in> set (children_of (build_children (dt_idom dt)) d)"
    using tree_child(2) by (simp add: dt_children_of_def t(3))
  note ch = chain_child [OF t(2) this]
  from tree_child.IH show ?case using ch(2,6) by (auto simp: below_def)
qed

lemma tree_env_cong:
  assumes T: "dom_tree_ok E r rpo preds addrs dt" and S: "S \<subseteq> dom (hm_get (dt_idom dt))"
    and eq: "\<And>b. b \<in> below (dt_idom dt) S \<Longrightarrow> map sop_dst (ops_at blocks' b) = map sop_dst (ops_at blocks b)"
    and "tree_env dt blocks' S E0 x F"
  shows "tree_env dt blocks S E0 x F"
  using assms(4)
proof (induction rule: tree_env.induct)
  case (tree_root b)
  then show ?case by (rule tree_env.tree_root)
next
  case (tree_child d F c)
  have "d \<in> below (dt_idom dt) S" by (rule tree_env_below [OF T S tree_child(1)])
  then have "env_after F (ops_at blocks' d) = env_after F (ops_at blocks d)" using env_after_dsts eq by blast
  then show ?case using tree_env.tree_child [OF tree_child.IH tree_child(2)] by simp
qed


section \<open>A subtree\<close>

lemma block_good_frame:
  assumes "rename_setup G cfg dt pl" "frame G cfg pl Y blocks blocks'" "b \<in> reachable_addrs G cfg" "b \<notin> Y"
    and "block_good G cfg pl blocks b E"
  shows "block_good G cfg pl blocks' b E"
proof -
  note f = frameD [OF assms(2)]
  let ?n = "length (get_phis pl b)"
  have eq: "map sop_dst (ops_at blocks' b) = map sop_dst (ops_at blocks b)"
    "drop ?n (ops_at blocks' b) = drop ?n (ops_at blocks b)" using f(2,4) [OF assms(3,4)] by blast+
  have "map sop_dst (take ?n (ops_at blocks' b)) = map sop_dst (take ?n (ops_at blocks b))"
    using eq(1) by (metis take_map)
  then have tk: "env_after E (take ?n (ops_at blocks' b)) = env_after E (take ?n (ops_at blocks b))"
    by (rule env_after_dsts)
  have al: "env_after E (ops_at blocks' b) = env_after E (ops_at blocks b)" using eq(1) by (rule env_after_dsts)
  have "slot blocks' s i k = slot blocks s i k"
    if s: "s \<in> set (cfg_successors G cfg b)" "i < length (get_phis pl s)" "slot_of G cfg s b = Some k" for s i k
  proof (rule f(5) [OF _ s(2)])
    show "s \<in> reachable_addrs G cfg" using rename_setupD(4) [OF assms(1,3) s(1)] by blast
    show "slot_of G cfg s y \<noteq> Some k" if "y \<in> Y" for y using slot_of_inj [OF s(3)] that assms(4) by blast
  qed
  then show ?thesis using assms(5) unfolding block_good_def Let_def eq(2) tk al by simp
qed

definition defs_within :: "RenameContext \<Rightarrow> RenameContext \<Rightarrow> block_ops \<Rightarrow> u64 set \<Rightarrow> bool" where
  "defs_within c c' blocks X \<longleftrightarrow>
     (\<forall>v. unat (count_of c v) \<le> unat (count_of c' v)) \<and>
     (\<forall>x \<in> X. distinct (map ver_of (dsts (ops_at blocks x))) \<and>
        (\<forall>d \<in> set (dsts (ops_at blocks x)). unat (count_of c (sv_name d)) < unat (sv_version d) \<and>
           unat (sv_version d) \<le> unat (count_of c' (sv_name d)))) \<and>
     (\<forall>x \<in> X. \<forall>y \<in> X. x \<noteq> y \<longrightarrow>
        ver_of ` set (dsts (ops_at blocks x)) \<inter> ver_of ` set (dsts (ops_at blocks y)) = {})"

lemma defs_withinD:
  assumes "defs_within c c' blocks X"
  shows "unat (count_of c v) \<le> unat (count_of c' v)"
    and "x \<in> X \<Longrightarrow> distinct (map ver_of (dsts (ops_at blocks x)))"
    and "x \<in> X \<Longrightarrow> d \<in> set (dsts (ops_at blocks x)) \<Longrightarrow>
      unat (count_of c (sv_name d)) < unat (sv_version d) \<and> unat (sv_version d) \<le> unat (count_of c' (sv_name d))"
    and "x \<in> X \<Longrightarrow> y \<in> X \<Longrightarrow> x \<noteq> y \<Longrightarrow>
      ver_of ` set (dsts (ops_at blocks x)) \<inter> ver_of ` set (dsts (ops_at blocks y)) = {}"
  using assms by (simp_all add: defs_within_def)

lemma defs_within_disjoint:
  assumes "defs_within c c1 blocks X" "defs_within c1 c2 blocks Y" "x \<in> X" "y \<in> Y"
  shows "ver_of ` set (dsts (ops_at blocks x)) \<inter> ver_of ` set (dsts (ops_at blocks y)) = {}"
proof (rule ccontr)
  assume "\<not> ?thesis"
  then obtain z where "z \<in> ver_of ` set (dsts (ops_at blocks x))" "z \<in> ver_of ` set (dsts (ops_at blocks y))"
    by blast
  then obtain d e where d: "d \<in> set (dsts (ops_at blocks x))" "e \<in> set (dsts (ops_at blocks y))"
    "ver_of d = ver_of e" by (elim imageE) simp
  then show False
    using defs_withinD(3) [OF assms(1,3) d(1)] defs_withinD(3) [OF assms(2,4) d(2)] by (simp add: ver_of_def)
qed

lemma defs_within_join:
  assumes "defs_within c c1 blocks X" "defs_within c1 c2 blocks Y"
  shows "defs_within c c2 blocks (X \<union> Y)"
proof -
  note a = defs_withinD [OF assms(1)] and b = defs_withinD [OF assms(2)]
  show ?thesis
    unfolding defs_within_def
  proof (intro conjI ballI allI impI)
    show "unat (count_of c v) \<le> unat (count_of c2 v)" for v using a(1) [of v] b(1) [of v] by linarith
    fix x assume x: "x \<in> X \<union> Y"
    then show "distinct (map ver_of (dsts (ops_at blocks x)))" using a(2) b(2) by (elim UnE)
    show "unat (count_of c (sv_name d)) < unat (sv_version d)"
      "unat (sv_version d) \<le> unat (count_of c2 (sv_name d))" if "d \<in> set (dsts (ops_at blocks x))" for d
      using x a(1) [of "sv_name d"] b(1) [of "sv_name d"] a(3) [OF _ that] b(3) [OF _ that] by (elim UnE; linarith)+
    fix y assume y: "y \<in> X \<union> Y" "x \<noteq> y"
    from x show "ver_of ` set (dsts (ops_at blocks x)) \<inter> ver_of ` set (dsts (ops_at blocks y)) = {}"
    proof
      assume "x \<in> X"
      with y(1) show ?thesis using a(4) [OF _ _ y(2)] defs_within_disjoint [OF assms, of x y] by (elim UnE)
    next
      assume "x \<in> Y"
      with y(1) show ?thesis using b(4) [OF _ _ y(2)] defs_within_disjoint [OF assms, of y x] by (elim UnE) auto
    qed
  qed
qed

lemma defs_within_cong:
  assumes "defs_within c c' blocks X" "\<And>x. x \<in> X \<Longrightarrow> dsts (ops_at blocks' x) = dsts (ops_at blocks x)"
  shows "defs_within c c' blocks' X"
  using assms unfolding defs_within_def by simp

lemma defs_within_counts:
  assumes "defs_within c c' blocks X" "count_of c'' = count_of c'"
  shows "defs_within c c'' blocks X"
  using assms unfolding defs_within_def by simp

text \<open>What holds of the subtrees under \<open>bs\<close> when they have been renamed, starting with counters of
  at most \<open>n\<close>.\<close>

definition total_ops :: "block_ops \<Rightarrow> u64 set \<Rightarrow> nat" where
  "total_ops blocks X = (\<Sum>x \<in> X. length (ops_at blocks x))"

definition subtrees_good ::
  "'g petgraph \<Rightarrow> 'g CFG \<Rightarrow> DomTree \<Rightarrow> PhiPlacement \<Rightarrow> u64 set \<Rightarrow> nat \<Rightarrow> RenameContext \<Rightarrow>
     RenameContext \<Rightarrow> block_ops \<Rightarrow> bool"
where
  "subtrees_good G cfg dt pl S n c c' blocks \<longleftrightarrow>
     stack_of c' = stack_of c \<and> counts_below (n + total_ops blocks (below (dt_idom dt) S)) c' \<and>
     defs_within c c' blocks (below (dt_idom dt) S) \<and>
     (\<forall>x E. tree_env dt blocks S (current_version c) x E \<longrightarrow> block_good G cfg pl blocks x E)"

lemma subtrees_good_frame:
  assumes S: "rename_setup G cfg dt pl" and X: "X \<subseteq> reachable_addrs G cfg"
    and fr: "frame G cfg pl Y blocks blocks'" and dj: "below (dt_idom dt) X \<inter> Y = {}"
    and good: "subtrees_good G cfg dt pl X n c c' blocks"
  shows "subtrees_good G cfg dt pl X n c c' blocks'"
proof -
  note d = rename_setupD [OF S] and f = frameD [OF fr]
  have dom: "dom (hm_get (dt_idom dt)) = reachable_addrs G cfg"
    using idom_finalD(3) [OF dom_tree_okD(2) [OF d(2)]] d(3) by simp
  have sub: "x \<in> reachable_addrs G cfg" "x \<notin> Y" if "x \<in> below (dt_idom dt) X" for x
    using that dj dom by (auto simp: below_def)
  have m: "map sop_dst (ops_at blocks' x) = map sop_dst (ops_at blocks x)" if "x \<in> below (dt_idom dt) X" for x
    using f(2) [OF sub [OF that]] .
  have "total_ops blocks' (below (dt_idom dt) X) = total_ops blocks (below (dt_idom dt) X)"
    unfolding total_ops_def using f(3) sub by (intro sum.cong) auto
  moreover have "defs_within c c' blocks' (below (dt_idom dt) X)"
  proof (rule defs_within_cong)
    show "defs_within c c' blocks (below (dt_idom dt) X)" using good by (simp add: subtrees_good_def)
    show "dsts (ops_at blocks' x) = dsts (ops_at blocks x)" if "x \<in> below (dt_idom dt) X" for x
      unfolding dsts_map m [OF that] ..
  qed
  moreover have "block_good G cfg pl blocks' x E" if x: "tree_env dt blocks' X (current_version c) x E" for x E
  proof -
    have Xd: "X \<subseteq> dom (hm_get (dt_idom dt))" using X dom by blast
    have "tree_env dt blocks X (current_version c) x E" by (rule tree_env_cong [OF d(2) Xd m x])
    moreover have "x \<in> below (dt_idom dt) X" by (rule tree_env_below [OF d(2) Xd x])
    moreover have "block_good G cfg pl blocks x E" using calculation(1) good unfolding subtrees_good_def by blast
    ultimately show ?thesis by (intro block_good_frame [OF S fr sub])
  qed
  ultimately show ?thesis using good unfolding subtrees_good_def by simp
qed


lemma below_split:
  assumes F: "idom_final E r rpo idom" and A: "apart idom (b # bs)"
    and ch: "ch = set (children_of (build_children idom) b)"
  shows "below idom (set (b # bs)) = insert b (below idom ch) \<union> below idom (set bs)"
    and "b \<notin> below idom ch" "b \<notin> below idom (set bs)" "below idom ch \<inter> below idom (set bs) = {}"
proof -
  have bd: "b \<in> dom (hm_get idom)" using A by (simp add: apart_def)
  note un = below_unfold [OF F bd, folded ch]
  show "below idom (set (b # bs)) = insert b (below idom ch) \<union> below idom (set bs)"
    using un(1) by (auto simp: below_def)
  show "b \<notin> below idom ch" by (rule un(2))
  have "below idom {b} \<inter> below idom (set bs) = {}"
  proof (rule ccontr)
    assume "\<not> ?thesis"
    then obtain y u where "b \<in> chain (hm_get idom) y" "u \<in> set bs" "u \<in> chain (hm_get idom) y"
      by (auto simp: below_def)
    then show False using chain_linear [of b "hm_get idom" y u] A unfolding apart_def by auto
  qed
  then show "b \<notin> below idom (set bs)" "below idom ch \<inter> below idom (set bs) = {}" using un(1) by auto
qed

lemma counts_below_mono: "counts_below m c \<Longrightarrow> m \<le> n \<Longrightarrow> counts_below n c"
  unfolding counts_below_def by (meson le_trans)

lemma subtrees_good_step:
  assumes S: "rename_setup G cfg dt pl" and b: "b \<in> reachable_addrs G cfg" and bs: "set bs \<subseteq> reachable_addrs G cfg"
    and A: "apart (dt_idom dt) (b # bs)"
    and n: "counts_below n c" "n + total_ops blocks (below (dt_idom dt) (set (b # bs))) < 2 ^ 32"
    and w: "writes c (dsts (ops_at blocks b)) c1" and good: "block_good G cfg pl blocks b (current_version c)"
    and ch: "\<And>m. counts_below m c1 \<Longrightarrow> m + total_ops blocks (below (dt_idom dt) (set (dt_children_of dt b))) < 2 ^ 32 \<Longrightarrow>
      subtrees_good G cfg dt pl (set (dt_children_of dt b)) m c1 c2 blocks"
    and c3: "c3 = foldl pop_version c2 (map sv_name (dsts (ops_at blocks b)))"
    and rest: "\<And>m. counts_below m c3 \<Longrightarrow> m + total_ops blocks (below (dt_idom dt) (set bs)) < 2 ^ 32 \<Longrightarrow>
      subtrees_good G cfg dt pl (set bs) m c3 c4 blocks"
  shows "subtrees_good G cfg dt pl (set (b # bs)) n c c4 blocks"
proof -
  note d = rename_setupD [OF S]
  let ?i = "dt_idom dt" and ?ch = "set (dt_children_of dt b)" and ?ops = "ops_at blocks b"
  note F = dom_tree_okD(2) [OF d(2)]
  note f = idom_finalD [OF F]
  have kids: "set (children_of (build_children ?i) b) = ?ch" by (simp add: dt_children_of_def dom_tree_okD(3) [OF d(2)])
  note un = below_split(1) [OF F A kids [symmetric]] and dj = below_split(2-4) [OF F A kids [symmetric]]
  have fin: "finite (below ?i X)" for X using finite_below [OF F] .
  have tot: "total_ops blocks (below ?i (set (b # bs))) =
      length ?ops + total_ops blocks (below ?i ?ch) + total_ops blocks (below ?i (set bs))"
    unfolding total_ops_def un using fin dj by (subst sum.union_disjoint) auto
  have len: "n + length (dsts ?ops) < 2 ^ 32" using n(2) tot length_dsts [of ?ops] by simp
  note ws = writes_spec [OF w n(1) len]
  have n1: "counts_below (n + length (dsts ?ops)) c1" using ws by blast
  have g2: "subtrees_good G cfg dt pl ?ch (n + length (dsts ?ops)) c1 c2 blocks"
    by (rule ch [OF n1]) (use n(2) tot length_dsts [of ?ops] in simp)
  have st2: "stack_of c2 = stack_of c1" using g2 by (simp add: subtrees_good_def)
  have "\<forall>v. \<exists>ys. stack_of c2 v = stack_of c v @ ys \<and> length ys = count_list (map sv_name (dsts ?ops)) v"
    unfolding st2 using ws by (simp add: count_list_names)
  note pops = pops_restore [OF this, folded c3]
  have n3: "counts_below (n + length (dsts ?ops) + total_ops blocks (below ?i ?ch)) c3"
    using g2 pops(2) by (simp add: subtrees_good_def counts_below_def)
  have g4: "subtrees_good G cfg dt pl (set bs) (n + length (dsts ?ops) + total_ops blocks (below ?i ?ch)) c3 c4 blocks"
    by (rule rest [OF n3]) (use n(2) tot length_dsts [of ?ops] in simp)
  have cur3: "current_version c3 = current_version c" unfolding current_version_stack [abs_def] pops(1) ..
  have cur1: "current_version c1 = env_after (current_version c) ?ops"
    using writes_current [OF w n(1) len] by (simp add: env_after_writes)
  have "stack_of c4 = stack_of c" using g4 pops(1) by (simp add: subtrees_good_def)
  moreover have "counts_below (n + total_ops blocks (below ?i (set (b # bs)))) c4"
  proof (rule counts_below_mono)
    show "counts_below (n + length (dsts ?ops) + total_ops blocks (below ?i ?ch) + total_ops blocks (below ?i (set bs))) c4"
      using g4 by (simp add: subtrees_good_def)
  qed (use tot length_dsts [of ?ops] in simp)
  moreover have "defs_within c c4 blocks (below ?i (set (b # bs)))"
  proof -
    have "defs_within c c1 blocks {b}" using ws by (simp add: defs_within_def)
    moreover have "defs_within c1 c2 blocks (below ?i ?ch)" "defs_within c3 c4 blocks (below ?i (set bs))"
      using g2 g4 by (simp_all add: subtrees_good_def)
    moreover have "defs_within c1 c3 blocks (below ?i ?ch)"
      using defs_within_counts [OF calculation(2) pops(2)] .
    ultimately have "defs_within c c4 blocks (({b} \<union> below ?i ?ch) \<union> below ?i (set bs))"
      using defs_within_join by blast
    then show ?thesis unfolding un by simp
  qed
  moreover have "block_good G cfg pl blocks x E"
    if "tree_env dt blocks (set (b # bs)) (current_version c) x E" for x E
    using tree_env_split [of dt blocks b "set bs" "current_version c" x E] that good g2 g4
    unfolding subtrees_good_def cur1 cur3 by auto
  ultimately show ?thesis unfolding subtrees_good_def by blast
qed


section \<open>The recursion\<close>

lemma rename_blocks_spec:
  assumes "rename_setup G cfg dt pl" "apart (dt_idom dt) bs" "set bs \<subseteq> reachable_addrs G cfg"
    and "\<forall>b \<in> set bs. length (reverse_postorder G cfg) \<le>
      fuel + rpo_index (build_rpo_idx (reverse_postorder G cfg)) b"
    and "blocks_inv G cfg pl blocks"
    and "\<forall>b \<in> below (dt_idom dt) (set bs). length (ops_at blocks b) = length (get_phis pl b)"
  shows "\<exists>c' blocks'. rename_blocks fuel G cfg dt pl rn cb bs c blocks = Some (c', blocks') \<and>
    frame G cfg pl (below (dt_idom dt) (set bs)) blocks blocks' \<and>
    (\<forall>n. counts_below n c \<longrightarrow> n + total_ops blocks' (below (dt_idom dt) (set bs)) < 2 ^ 32 \<longrightarrow>
       subtrees_good G cfg dt pl (set bs) n c c' blocks') \<and>
    (cb = None \<longrightarrow> (\<forall>x \<in> below (dt_idom dt) (set bs).
       length (ops_at blocks' x) = length (get_phis pl x) + block_len G cfg x))"
  using assms
proof (induction fuel G cfg dt pl rn cb bs c blocks rule: rename_blocks.induct)
  case (1 fuel G cfg dt pl rn cb c blocks)
  have "below (dt_idom dt) {} = {}" by (simp add: below_def)
  moreover have "\<not> tree_env dt blocks {} E0 x E" for E0 x E
    by (rule notI, induction rule: tree_env.induct) auto
  ultimately have "subtrees_good G cfg dt pl {} n c c blocks" if "counts_below n c" for n
    using that by (simp add: subtrees_good_def total_ops_def defs_within_def)
  then show ?case using 1 frame_refl \<open>below (dt_idom dt) {} = {}\<close> by auto
next
  case (2 G cfg dt pl rn cb b bs c blocks)
  note s = dom_setupD [OF rename_setupD(1) [OF "2.prems"(1)]]
  have "b \<in> set (reverse_postorder G cfg)" using "2.prems"(3) rename_setupD(3) [OF "2.prems"(1)] by simp
  from rpo_index_less [OF s(1) this] show ?case using "2.prems"(4) by simp
next
  case (3 fuel G cfg dt pl rn cb b bs c blocks)
  note S = "3.prems"(1)
  note d = rename_setupD [OF S]
  note F = dom_tree_okD(2) [OF d(2)]
  note f = idom_finalD [OF F]
  let ?i = "dt_idom dt" and ?ch = "dt_children_of dt b"
  have kids: "children_of (build_children ?i) b = ?ch" by (simp add: dt_children_of_def dom_tree_okD(3) [OF d(2)])
  have b: "b \<in> reachable_addrs G cfg" "set bs \<subseteq> reachable_addrs G cfg" using "3.prems"(3) by auto
  note un = below_split [OF F "3.prems"(2) arg_cong [of _ _ set, OF kids [symmetric]]]
  have reach: "x \<in> reachable_addrs G cfg" if "x \<in> below ?i X" for x X
    using that f(3) d(3) by (auto simp: below_def)
  note st = apart_step [OF F "3.prems"(2), of ?ch, unfolded kids, OF refl set_children_of(2) [OF f(1), of b, unfolded kids]]
  have ap: "apart ?i ?ch" "apart ?i bs" using st(1) by (auto simp: apart_def)
  have chr: "set ?ch \<subseteq> reachable_addrs G cfg" using ap(1) f(3) d(3) by (simp add: apart_def)
  have bb: "b \<in> below ?i (set (b # bs))" unfolding un(1) by simp
  obtain c1 df bl1 where v: "rename_visit G cfg pl rn cb b c blocks = Some (c1, df, bl1)"
    "frame G cfg pl {b} blocks bl1" "df = map sv_name (dsts (ops_at bl1 b))" "writes c (dsts (ops_at bl1 b)) c1"
    "\<And>n. counts_below n c \<Longrightarrow> n + length (ops_at bl1 b) < 2 ^ 32 \<Longrightarrow> block_good G cfg pl bl1 b (current_version c)"
    "cb = None \<Longrightarrow> length (ops_at bl1 b) = length (get_phis pl b) + block_len G cfg b"
    using rename_visit_spec [OF S b(1) "3.prems"(5), of rn cb c] "3.prems"(6) bb by blast
  have fuel: "\<forall>x \<in> set ?ch. length (reverse_postorder G cfg) \<le> fuel + rpo_index (build_rpo_idx (reverse_postorder G cfg)) x"
  proof
    fix x assume "x \<in> set ?ch"
    then show "length (reverse_postorder G cfg) \<le> fuel + rpo_index (build_rpo_idx (reverse_postorder G cfg)) x"
      using chain_child(5) [OF F, of x b] "3.prems"(4) kids by simp
  qed
  have fresh1: "\<forall>x \<in> below ?i (set ?ch). length (ops_at bl1 x) = length (get_phis pl x)"
  proof
    fix x assume x: "x \<in> below ?i (set ?ch)"
    then have "x \<notin> {b}" using un(2) by blast
    then show "length (ops_at bl1 x) = length (get_phis pl x)"
      using frameD(3) [OF v(2) reach [OF x]] "3.prems"(6) x un(1) by simp
  qed
  obtain c2 bl2 where ch: "rename_blocks fuel G cfg dt pl rn cb ?ch c1 bl1 = Some (c2, bl2)"
    "frame G cfg pl (below ?i (set ?ch)) bl1 bl2"
    "\<And>n. counts_below n c1 \<Longrightarrow> n + total_ops bl2 (below ?i (set ?ch)) < 2 ^ 32 \<Longrightarrow>
       subtrees_good G cfg dt pl (set ?ch) n c1 c2 bl2"
    "cb = None \<Longrightarrow> \<forall>x \<in> below ?i (set ?ch). length (ops_at bl2 x) = length (get_phis pl x) + block_len G cfg x"
    using "3.IH"(1) [OF v(1) refl refl S ap(1) chr fuel frameD(1) [OF v(2)] fresh1] by blast
  let ?c3 = "foldl pop_version c2 df"
  have fr2: "frame G cfg pl ({b} \<union> below ?i (set ?ch)) blocks bl2" by (rule frame_trans [OF v(2) ch(2)])
  have fresh2: "\<forall>x \<in> below ?i (set bs). length (ops_at bl2 x) = length (get_phis pl x)"
  proof
    fix x assume x: "x \<in> below ?i (set bs)"
    then have "x \<notin> {b} \<union> below ?i (set ?ch)" using un(3,4) by blast
    then show "length (ops_at bl2 x) = length (get_phis pl x)"
      using frameD(3) [OF fr2 reach [OF x]] "3.prems"(6) x un(1) by simp
  qed
  have fuel2: "\<forall>x \<in> set bs. length (reverse_postorder G cfg) \<le> Suc fuel + rpo_index (build_rpo_idx (reverse_postorder G cfg)) x"
    using "3.prems"(4) by simp
  obtain c4 bl4 where rs: "rename_blocks (Suc fuel) G cfg dt pl rn cb bs ?c3 bl2 = Some (c4, bl4)"
    "frame G cfg pl (below ?i (set bs)) bl2 bl4"
    "\<And>n. counts_below n ?c3 \<Longrightarrow> n + total_ops bl4 (below ?i (set bs)) < 2 ^ 32 \<Longrightarrow>
       subtrees_good G cfg dt pl (set bs) n ?c3 c4 bl4"
    "cb = None \<Longrightarrow> \<forall>x \<in> below ?i (set bs). length (ops_at bl4 x) = length (get_phis pl x) + block_len G cfg x"
    using "3.IH"(2) [OF v(1) refl refl ch(1) refl S ap(2) b(2) fuel2 frameD(1) [OF fr2] fresh2] by blast
  have run: "rename_blocks (Suc fuel) G cfg dt pl rn cb (b # bs) c blocks = Some (c4, bl4)"
    using v(1) ch(1) rs(1) by simp
  have fr: "frame G cfg pl (below ?i (set (b # bs))) blocks bl4"
    using frame_trans [OF fr2 rs(2)] unfolding un(1) by simp
  have fr4: "frame G cfg pl (below ?i (set ?ch) \<union> below ?i (set bs)) bl1 bl4" by (rule frame_trans [OF ch(2) rs(2)])
  have nb: "b \<notin> below ?i (set ?ch) \<union> below ?i (set bs)" using un(2,3) by blast
  have mb: "map sop_dst (ops_at bl4 b) = map sop_dst (ops_at bl1 b)" by (rule frameD(2) [OF fr4 b(1) nb])
  have db: "dsts (ops_at bl4 b) = dsts (ops_at bl1 b)" unfolding dsts_map mb ..
  have lb: "length (ops_at bl4 b) = length (ops_at bl1 b)" by (rule frameD(3) [OF fr4 b(1) nb])
  have tch: "total_ops bl4 (below ?i (set ?ch)) = total_ops bl2 (below ?i (set ?ch))"
    unfolding total_ops_def using frameD(3) [OF rs(2)] reach un(4) by (intro sum.cong) auto
  have good: "subtrees_good G cfg dt pl (set (b # bs)) n c c4 bl4"
    if n: "counts_below n c" "n + total_ops bl4 (below ?i (set (b # bs))) < 2 ^ 32" for n
  proof (rule subtrees_good_step [OF S b "3.prems"(2) n])
    show "writes c (dsts (ops_at bl4 b)) c1" unfolding db by (rule v(4))
    have "length (ops_at bl4 b) \<le> total_ops bl4 (below ?i (set (b # bs)))"
      unfolding total_ops_def using finite_below [OF F] bb by (intro member_le_sum) auto
    then have "n + length (ops_at bl1 b) < 2 ^ 32" using n(2) lb by linarith
    from block_good_frame [OF S fr4 b(1) nb v(5) [OF n(1) this]]
    show "block_good G cfg pl bl4 b (current_version c)" .
    show "subtrees_good G cfg dt pl (set ?ch) m c1 c2 bl4"
      if "counts_below m c1" "m + total_ops bl4 (below ?i (set ?ch)) < 2 ^ 32" for m
      using subtrees_good_frame [OF S chr rs(2) un(4)] ch(3) that tch by simp
    show "?c3 = foldl pop_version c2 (map sv_name (dsts (ops_at bl4 b)))" unfolding db v(3) ..
    show "subtrees_good G cfg dt pl (set bs) m ?c3 c4 bl4"
      if "counts_below m ?c3" "m + total_ops bl4 (below ?i (set bs)) < 2 ^ 32" for m
      using rs(3) [OF that] .
  qed
  have len: "length (ops_at bl4 x) = length (get_phis pl x) + block_len G cfg x"
    if "cb = None" "x \<in> below ?i (set (b # bs))" for x
  proof -
    have "x \<in> insert b (below ?i (set ?ch)) \<union> below ?i (set bs)" using that(2) unfolding un(1) .
    then consider "x = b" | "x \<in> below ?i (set ?ch)" | "x \<in> below ?i (set bs)" by (elim UnE insertE)
    then show ?thesis
    proof cases
      case 1
      then show ?thesis using lb v(6) that(1) by simp
    next
      case 2
      then have "x \<notin> below ?i (set bs)" using un(4) by blast
      then show ?thesis using frameD(3) [OF rs(2) reach [OF 2]] ch(4) that(1) 2 by simp
    next
      case 3
      then show ?thesis using rs(4) that(1) by blast
    qed
  qed
  show ?case
    by (intro exI [of _ c4] exI [of _ bl4] conjI run fr allI impI ballI) (erule (1) good, erule (1) len)
qed

end
