(* ===== verification/SSA_Rename_Props.thy ===== *)
theory SSA_Rename_Props
  imports SSA_Rename_Tree
begin

text \<open>
  The properties of renaming a whole function: it returns, every use reads the version that is in
  force along the dominator tree, every phi slot is determined (the first slot of a reachable
  predecessor has the version at its end, any other slot version 0), and no version is defined
  twice.
\<close>

section \<open>The initial state\<close>

lemma initial_blocks_spec:
  assumes "distinct order" "b \<in> set order"
  shows "hm_get (initial_blocks pl order) b =
    Some (map (\<lambda>phi. SSAOp.Phi (ssa_new (pi_var_name phi) 0 (pi_var_size phi)) (placeholder_sources phi)) (get_phis pl b))"
proof -
  let ?ph = "\<lambda>b. map (\<lambda>phi. SSAOp.Phi (ssa_new (pi_var_name phi) 0 (pi_var_size phi)) (placeholder_sources phi)) (get_phis pl b)"
  have e: "hm_get (foldl (\<lambda>m addr. hm_insert addr [] m) m as) x = (if x \<in> set as then Some [] else hm_get m x)"
    for m :: block_ops and "as" x
    by (induction "as" arbitrary: m) (auto simp: hm_get_insert)
  have f: "distinct as \<Longrightarrow> hm_get (foldl (\<lambda>m addr. hm_insert addr
        ((case hm_get m addr of Some ops \<Rightarrow> ops | None \<Rightarrow> []) @ ?ph addr) m) m as) x =
      (if x \<in> set as then Some ((case hm_get m x of Some ops \<Rightarrow> ops | None \<Rightarrow> []) @ ?ph x) else hm_get m x)"
    for m "as" x
    by (induction "as" arbitrary: m) (auto simp: hm_get_insert)
  show ?thesis unfolding initial_blocks_def f [OF assms(1)] using assms(2) by (simp add: e)
qed

lemma initial_context_obs:
  "stack_of (initial_context pl vs) = (\<lambda>_. [])" "count_of (initial_context pl vs) = (\<lambda>_. 0)"
proof -
  define ok where "ok c \<longleftrightarrow> stack_of c = (\<lambda>_. []) \<and> count_of c = (\<lambda>_. 0)" for c
  have init: "ok c \<Longrightarrow> ok (init_var nm sz c)" for c nm sz by (auto simp: ok_def init_var_obs)
  have new: "ok rc_new" by (auto simp: ok_def rc_new_def stack_of_def raw_stack_def count_of_def hm_get_def)
  have a: "ok c \<Longrightarrow> ok (foldl (\<lambda>c (nm, sz). init_var nm sz c) c ps)" for c ps
    by (induction ps arbitrary: c) (auto simp: init split: prod.splits)
  have b: "ok c \<Longrightarrow> ok (init_phis pl c x)" for c x
  proof -
    have "ok c \<Longrightarrow> ok (foldl (\<lambda>c phi. init_var (pi_var_name phi) (pi_var_size phi) c) c ps)" for c ps
      by (induction ps arbitrary: c) (auto simp: init)
    then show "ok c \<Longrightarrow> ok (init_phis pl c x)" by (simp add: init_phis_def)
  qed
  have "ok c \<Longrightarrow> ok (foldl (init_phis pl) c xs)" for c xs
    by (induction xs arbitrary: c) (auto simp: b)
  then have "ok (initial_context pl vs)" unfolding initial_context_def using a new by blast
  then show "stack_of (initial_context pl vs) = (\<lambda>_. [])" "count_of (initial_context pl vs) = (\<lambda>_. 0)"
    by (auto simp: ok_def)
qed

lemma initial_blocks_inv:
  assumes S: "rename_setup G cfg dt pl" and b: "b \<in> reachable_addrs G cfg"
  shows "blocks_inv G cfg pl (initial_blocks pl (reverse_postorder G cfg))"
    and "length (ops_at (initial_blocks pl (reverse_postorder G cfg)) b) = length (get_phis pl b)"
    and "i < length (get_phis pl b) \<Longrightarrow> k < length (cfg_predecessors G cfg b) \<Longrightarrow>
      slot (initial_blocks pl (reverse_postorder G cfg)) b i k =
        ssa_new (pi_var_name (get_phis pl b ! i)) 0 (pi_var_size (get_phis pl b ! i))"
proof -
  note d = rename_setupD [OF S]
  let ?I = "initial_blocks pl (reverse_postorder G cfg)"
  have g: "hm_get ?I x =
      Some (map (\<lambda>phi. SSAOp.Phi (ssa_new (pi_var_name phi) 0 (pi_var_size phi)) (placeholder_sources phi)) (get_phis pl x))"
    if "x \<in> reachable_addrs G cfg" for x
    by (rule initial_blocks_spec [OF dom_setupD(1) [OF d(1)]]) (use that d(3) in simp)
  show "blocks_inv G cfg pl ?I"
    unfolding blocks_inv_def by (auto simp: g ops_at_def rows_ok_def placeholder_sources_def)
  show "length (ops_at ?I b) = length (get_phis pl b)" by (simp add: ops_at_def g [OF b])
  show "slot ?I b i k = ssa_new (pi_var_name (get_phis pl b ! i)) 0 (pi_var_size (get_phis pl b ! i))"
    if "i < length (get_phis pl b)" "k < length (cfg_predecessors G cfg b)"
    using that d(5) [of "get_phis pl b ! i" b] by (simp add: slot_def ops_at_def g [OF b] placeholder_sources_def)
qed

section \<open>The whole function\<close>

lemma rename_function_spec:
  assumes S: "rename_setup G cfg dt pl"
  shows "\<exists>rf c'. rename_function_with_call_boundaries G cfg dt pl vs rn cb = Some rf \<and>
    rf_block_order rf = reverse_postorder G cfg \<and> rf_entry rf = cfg_entry cfg \<and>
    frame G cfg pl (reachable_addrs G cfg) (initial_blocks pl (reverse_postorder G cfg)) (rf_blocks rf) \<and>
    (total_ops (rf_blocks rf) (reachable_addrs G cfg) < 2 ^ 32 \<longrightarrow>
       subtrees_good G cfg dt pl {cfg_entry cfg} 0 (initial_context pl vs) c' (rf_blocks rf)) \<and>
    (cb = None \<longrightarrow> (\<forall>x \<in> reachable_addrs G cfg.
       length (ops_at (rf_blocks rf) x) = length (get_phis pl x) + block_len G cfg x))"
proof -
  note d = rename_setupD [OF S]
  note s = dom_setupD [OF d(1)]
  note f = idom_finalD [OF dom_tree_okD(2) [OF d(2)]]
  let ?r = "cfg_entry cfg" and ?I = "initial_blocks pl (reverse_postorder G cfg)"
  have r: "?r \<in> reachable_addrs G cfg" using s(2,3) d(3) by (metis hd_in_set)
  have bl: "below (dt_idom dt) {?r} = reachable_addrs G cfg"
    using root_in_chain [OF f(2)] f(3) d(3) by (auto simp: below_def)
  have ap: "apart (dt_idom dt) [?r]" using r f(3) d(3) by (simp add: apart_def)
  have "\<forall>b \<in> below (dt_idom dt) (set [?r]). length (ops_at ?I b) = length (get_phis pl b)"
    using initial_blocks_inv(2) [OF S] bl by simp
  moreover have "\<forall>b \<in> set [?r]. length (reverse_postorder G cfg) \<le>
      length (reverse_postorder G cfg) + 1 + rpo_index (build_rpo_idx (reverse_postorder G cfg)) b" by simp
  ultimately obtain c' bl' where run:
    "rename_blocks (length (reverse_postorder G cfg) + 1) G cfg dt pl rn cb [?r] (initial_context pl vs) ?I = Some (c', bl')"
    "frame G cfg pl (reachable_addrs G cfg) ?I bl'"
    "\<forall>n. counts_below n (initial_context pl vs) \<longrightarrow> n + total_ops bl' (reachable_addrs G cfg) < 2 ^ 32 \<longrightarrow>
       subtrees_good G cfg dt pl {?r} n (initial_context pl vs) c' bl'"
    "cb = None \<longrightarrow> (\<forall>x \<in> reachable_addrs G cfg. length (ops_at bl' x) = length (get_phis pl x) + block_len G cfg x)"
    using rename_blocks_spec [OF S ap _ _ initial_blocks_inv(1) [OF S r], of "length (reverse_postorder G cfg) + 1" rn cb
        "initial_context pl vs"] r bl by auto
  have "counts_below 0 (initial_context pl vs)" by (simp add: counts_below_def initial_context_obs)
  then have good: "total_ops bl' (reachable_addrs G cfg) < 2 ^ 32 \<longrightarrow>
      subtrees_good G cfg dt pl {?r} 0 (initial_context pl vs) c' bl'" using run(3) by simp
  let ?rf = "\<lparr>rf_blocks = bl', rf_block_order = reverse_postorder G cfg, rf_entry = ?r\<rparr>"
  have res: "rename_function_with_call_boundaries G cfg dt pl vs rn cb = Some ?rf"
    unfolding rename_function_with_call_boundaries_def Let_def using run(1) by (simp add: rf_new_def)
  show ?thesis
    by (intro exI [of _ ?rf] exI [of _ c'] conjI res) (use run(2,4) good in simp_all)
qed

lemma tree_env_total:
  assumes T: "dom_tree_ok E r rpo preds addrs dt" and x: "x \<in> below (dt_idom dt) S"
  shows "\<exists>F. tree_env dt blocks S E0 x F"
proof -
  note t = dom_tree_okD [OF T]
  obtain s where s: "s \<in> S" "(x, s) \<in> (up (hm_get (dt_idom dt)))\<^sup>*" using x by (auto simp: below_def chain_def)
  from s(2) show ?thesis
  proof (induction rule: converse_rtrancl_induct)
    case base
    then show ?case using s(1) tree_root by blast
  next
    case (step y z)
    obtain F where F: "tree_env dt blocks S E0 z F" using step by blast
    show ?case
    proof (cases "y = z")
      case False
      then have "y \<in> set (dt_children_of dt z)"
        using step(1) set_children_of(1) [OF idom_finalD(1) [OF t(2)]] by (simp add: up_def dt_children_of_def t(3))
      then show ?thesis using tree_child [OF F] by blast
    qed (use F in blast)
  qed
qed


lemma rf_get_block_ops_at: "rf_get_block rf b = ops_at (rf_blocks rf) b"
  by (simp add: rf_get_block_def ops_at_def)

lemma renamed_good:
  assumes S: "rename_setup G cfg dt pl"
    and rf: "rename_function_with_call_boundaries G cfg dt pl vs rn cb = Some rf"
    and bound: "(\<Sum>b \<in> reachable_addrs G cfg. length (rf_get_block rf b)) < 2 ^ 32"
  shows "\<exists>c'. subtrees_good G cfg dt pl {cfg_entry cfg} 0 (initial_context pl vs) c' (rf_blocks rf)"
    and "below (dt_idom dt) {cfg_entry cfg} = reachable_addrs G cfg"
proof -
  note d = rename_setupD [OF S]
  note f = idom_finalD [OF dom_tree_okD(2) [OF d(2)]]
  show "below (dt_idom dt) {cfg_entry cfg} = reachable_addrs G cfg"
    using root_in_chain [OF f(2)] f(3) d(3) by (auto simp: below_def)
  show "\<exists>c'. subtrees_good G cfg dt pl {cfg_entry cfg} 0 (initial_context pl vs) c' (rf_blocks rf)"
    using rename_function_spec [OF S, of vs rn cb] rf bound
    by (auto simp: total_ops_def rf_get_block_ops_at)
qed

text \<open>A slot that no reachable block fills keeps the version 0 it was created with.\<close>

lemma unfilled_slot:
  assumes S: "rename_setup G cfg dt pl"
    and rf: "rename_function_with_call_boundaries G cfg dt pl vs rn cb = Some rf"
    and s: "s \<in> reachable_addrs G cfg" "i < length (get_phis pl s)" "k < length (cfg_predecessors G cfg s)"
    and un: "\<And>c. c \<in> reachable_addrs G cfg \<Longrightarrow> slot_of G cfg s c \<noteq> Some k"
  shows "ver_of (phi_sources (rf_get_block rf s ! i) ! k) = (pi_var_name (get_phis pl s ! i), 0)"
proof -
  let ?I = "initial_blocks pl (reverse_postorder G cfg)"
  have fr: "frame G cfg pl (reachable_addrs G cfg) ?I (rf_blocks rf)"
    using rename_function_spec [OF S, of vs rn cb] rf by auto
  have "slot (rf_blocks rf) s i k = slot ?I s i k" by (rule frameD(5) [OF fr s(1,2) un])
  then show ?thesis
    using initial_blocks_inv(3) [OF S s]
    by (simp add: slot_def rf_get_block_ops_at ver_of_def ssa_new_def)
qed

text \<open>A slot is filled by the predecessor that has its first occurrence there.\<close>

lemma slot_of_first:
  assumes "k < length (cfg_predecessors G cfg s)"
  shows "slot_of G cfg s c = Some k \<longleftrightarrow>
    c = cfg_predecessors G cfg s ! k \<and> c \<notin> set (take k (cfg_predecessors G cfg s))"
  using assms by (auto simp: position_Some in_set_conv_nth)

section \<open>Small functions\<close>

text \<open>The loop of \<open>loop_blocks\<close> without phis: its three operations.\<close>

lemma loop_rename_setup:
  "\<exists>cfg dt. from_blocks stack_graph loop_blocks = Some cfg \<and> dom_compute stack_graph cfg = Some dt \<and>
     rename_setup stack_graph cfg dt [] \<and> 0x1000 \<in> reachable_addrs stack_graph cfg \<and>
     (\<Sum>b \<in> reachable_addrs stack_graph cfg. block_len stack_graph cfg b) < 2 ^ 32"
proof -
  have ok: "petgraph_ok stack_graph" by (rule list_petgraph_ok) simp
  obtain cfg where cfg: "from_blocks stack_graph loop_blocks = Some cfg"
    by (simp add: from_blocks_def loop_blocks_def Let_def)
  note o = from_blocks_obs [OF ok cfg]
  have e: "cfg_entry cfg = 0x1000" by (simp add: o(2) loop_blocks_simps)
  have "get_block stack_graph cfg 0x1000 \<noteq> None" by (simp add: o(3) loop_blocks_simps)
  then obtain i where i: "get_node cfg (cfg_entry cfg) = Some i" unfolding e get_block_def by auto
  then obtain dt where dt: "dom_compute stack_graph cfg = Some dt" using dom_compute_spec [OF ok o(1)] by blast
  have "rename_setup stack_graph cfg dt []"
    using ok o(1) i dt by (simp add: rename_setup_def get_phis_def hm_get_def)
  note S = this
  have at: "block_at loop_blocks a \<noteq> None \<Longrightarrow> a \<in> {0x1000, 0x1004}" for a
    by (auto simp: loop_blocks_simps split: if_splits)
  have sub: "reachable_addrs stack_graph cfg \<subseteq> {0x1000, 0x1004}"
  proof
    fix x assume "x \<in> reachable_addrs stack_graph cfg"
    then have "(0x1000, x) \<in> (edge_rel stack_graph cfg)\<^sup>*" using e by (auto simp: reachable_addrs_def split: if_splits)
    then show "x \<in> {0x1000, 0x1004}" by (cases rule: rtranclE) (use o(4) at in auto)
  qed
  have le: "block_len stack_graph cfg b \<le> 1" for b
    unfolding block_len_def o(3) by (auto simp: loop_blocks_simps split: if_splits)
  have "(\<Sum>b \<in> reachable_addrs stack_graph cfg. block_len stack_graph cfg b) \<le>
      (\<Sum>b \<in> {0x1000, 0x1004}. block_len stack_graph cfg b)"
    by (rule sum_mono2 [OF _ sub]) simp_all
  also have "\<dots> \<le> 1 + 1" using add_mono [OF le le] by simp
  finally have "(\<Sum>b \<in> reachable_addrs stack_graph cfg. block_len stack_graph cfg b) < 2 ^ 32" by simp
  moreover have "0x1000 \<in> reachable_addrs stack_graph cfg" using e i by (simp add: reachable_addrs_def)
  ultimately show ?thesis using cfg dt S by blast
qed

text \<open>A block that branches to the same target either way.\<close>

definition double_edge_blocks :: "R2ILBlock list" where
  "double_edge_blocks =
     [block_push (block_new 0x1000 4) (R2ILOp.CBranch (varnode_ram 0x1008 8) (varnode_register 0 1)),
      block_push (block_push (block_new 0x1004 4) (R2ILOp.Copy (varnode_register 8 8) (varnode_constant 1 8)))
        (R2ILOp.CBranch (varnode_ram 0x1008 8) (varnode_register 0 1)),
      block_push (block_new 0x1008 4) (R2ILOp.Return (varnode_register 8 8))]"

lemma double_edge_preds:
  assumes "from_blocks stack_graph double_edge_blocks = Some cfg"
  shows "cfg_predecessors stack_graph cfg 0x1008 = [0x1000, 0x1004, 0x1004]"
  using assms
  by (auto simp: from_blocks_def double_edge_blocks_def loop_blocks_simps Let_def add_block_def list_petgraph_def
      cfg_new_def add_edges_for_block_def link_to_def get_node_def hm_get_def block_addrs_def
      term_edges_def node_addr_def cfg_predecessors_def upt_conv_Cons)

text \<open>A phi for the register at the common target.\<close>

definition double_edge_phis :: "'g petgraph \<Rightarrow> 'g CFG \<Rightarrow> PhiPlacement" where
  "double_edge_phis G cfg = [(0x1008, [phi_of (cfg_predecessors G cfg) [] 0x1008 ''reg:8''])]"

lemma double_edge_setup:
  "\<exists>cfg dt rf. from_blocks stack_graph double_edge_blocks = Some cfg \<and> dom_compute stack_graph cfg = Some dt \<and>
     rename_setup stack_graph cfg dt (double_edge_phis stack_graph cfg) \<and> 0x1008 \<in> reachable_addrs stack_graph cfg \<and>
     {0x1000, 0x1004} \<subseteq> reachable_addrs stack_graph cfg \<and>
     rename_function_with_call_boundaries stack_graph cfg dt (double_edge_phis stack_graph cfg) [] None None = Some rf \<and>
     (\<Sum>b \<in> reachable_addrs stack_graph cfg. length (rf_get_block rf b)) < 2 ^ 32"
proof -
  have ok: "petgraph_ok stack_graph" by (rule list_petgraph_ok) simp
  obtain cfg where cfg: "from_blocks stack_graph double_edge_blocks = Some cfg"
    by (simp add: from_blocks_def double_edge_blocks_def Let_def)
  note o = from_blocks_obs [OF ok cfg]
  have e: "cfg_entry cfg = 0x1000" by (simp add: o(2) double_edge_blocks_def loop_blocks_simps)
  have "get_block stack_graph cfg 0x1000 \<noteq> None" by (simp add: o(3) double_edge_blocks_def loop_blocks_simps)
  then obtain i where i: "get_node cfg (cfg_entry cfg) = Some i" unfolding e get_block_def by auto
  then obtain dt where dt: "dom_compute stack_graph cfg = Some dt" using dom_compute_spec [OF ok o(1)] by blast
  let ?pl = "double_edge_phis stack_graph cfg"
  have S: "rename_setup stack_graph cfg dt ?pl"
    using ok o(1) i dt by (auto simp: rename_setup_def double_edge_phis_def get_phis_def hm_get_def phi_of_def)
  obtain rf where rf: "rename_function_with_call_boundaries stack_graph cfg dt ?pl [] None None = Some rf"
    "\<forall>x \<in> reachable_addrs stack_graph cfg.
       length (ops_at (rf_blocks rf) x) = length (get_phis ?pl x) + block_len stack_graph cfg x"
    using rename_function_spec [OF S, of "[]" None None] by auto
  have edge: "(0x1000, 0x1008) \<in> edge_rel stack_graph cfg" "(0x1000, 0x1004) \<in> edge_rel stack_graph cfg"
    unfolding o(4) by (simp_all add: double_edge_blocks_def loop_blocks_simps)
  then have r: "0x1008 \<in> reachable_addrs stack_graph cfg" "{0x1000, 0x1004} \<subseteq> reachable_addrs stack_graph cfg"
    using e i by (auto simp: reachable_addrs_def)
  have at: "block_at double_edge_blocks a \<noteq> None \<Longrightarrow> a \<in> {0x1000, 0x1004, 0x1008}" for a
    by (auto simp: double_edge_blocks_def loop_blocks_simps split: if_splits)
  have sub: "reachable_addrs stack_graph cfg \<subseteq> {0x1000, 0x1004, 0x1008}"
  proof
    fix x assume "x \<in> reachable_addrs stack_graph cfg"
    then have "(0x1000, x) \<in> (edge_rel stack_graph cfg)\<^sup>*" using e by (auto simp: reachable_addrs_def split: if_splits)
    then show "x \<in> {0x1000, 0x1004, 0x1008}" by (cases rule: rtranclE) (use o(4) at in auto)
  qed
  have le: "block_len stack_graph cfg b \<le> 2" "length (get_phis ?pl b) \<le> 1" for b
    unfolding block_len_def o(3)
    by (auto simp: double_edge_blocks_def loop_blocks_simps double_edge_phis_def get_phis_def hm_get_def
        split: if_splits option.splits)
  have "length (rf_get_block rf b) \<le> 3" if "b \<in> reachable_addrs stack_graph cfg" for b
    using rf(2) that add_mono [OF le(2) le(1), of b b] by (simp add: rf_get_block_ops_at)
  then have "(\<Sum>b \<in> reachable_addrs stack_graph cfg. length (rf_get_block rf b)) \<le>
      card (reachable_addrs stack_graph cfg) * 3"
    using sum_bounded_above [of "reachable_addrs stack_graph cfg" "\<lambda>b. length (rf_get_block rf b)" 3] by simp
  also have "\<dots> \<le> 3 * 3" using card_mono [OF _ sub] by simp
  finally show ?thesis using cfg dt S r rf(1) by (intro exI conjI) (assumption | simp)+
qed

section \<open>Properties\<close>

text \<open>Renaming a function returns: the recursion along the dominator tree ends, none of the
  lookups of the source panics, and the result lists the reachable blocks in reverse postorder.\<close>

theorem rename_returns:
  assumes "rename_setup G cfg dt pl"
  shows "\<exists>rf. rename_function_with_call_boundaries G cfg dt pl vs rn cb = Some rf \<and>
    rf_block_order rf = reverse_postorder G cfg \<and>
    (\<forall>b \<in> reachable_addrs G cfg. hm_get (rf_blocks rf) b \<noteq> None)"
  using rename_function_spec [OF assms, of vs rn cb] unfolding frame_def blocks_inv_def by blast

theorem rename_returns_witness:
  "\<exists>cfg dt rf. from_blocks stack_graph loop_blocks = Some cfg \<and> dom_compute stack_graph cfg = Some dt \<and>
     rename_function_with_call_boundaries stack_graph cfg dt [] [] None None = Some rf \<and>
     hm_get (rf_blocks rf) 0x1000 \<noteq> None"
  using loop_rename_setup rename_returns [of stack_graph _ _ "[]" "[]" None None] by meson

text \<open>C2. Every use reads the version in force: walking down the dominator tree from version 0 of
  every variable gives each reachable block an environment such that each operation after the phis
  reads, for every variable, the version the last definition left. Every slot of every phi is
  determined: a reachable predecessor gives the first of its slots the version in force at its end,
  and a slot whose predecessor is unreachable, or has a slot further left already, keeps the
  version 0 it was created with.\<close>

theorem renamed_uses_reach:
  assumes "rename_setup G cfg dt pl"
    and "rename_function_with_call_boundaries G cfg dt pl vs rn cb = Some rf"
    and "(\<Sum>b \<in> reachable_addrs G cfg. length (rf_get_block rf b)) < 2 ^ 32"
  shows "\<exists>Env. \<forall>b \<in> reachable_addrs G cfg.
    tree_env dt (rf_blocks rf) {cfg_entry cfg} (\<lambda>_. 0) b (Env b) \<and>
    well_versioned (env_after (Env b) (take (length (get_phis pl b)) (rf_get_block rf b)))
      (drop (length (get_phis pl b)) (rf_get_block rf b)) \<and>
    (\<forall>i < length (get_phis pl b). \<forall>k < length (cfg_predecessors G cfg b).
       let p = cfg_predecessors G cfg b ! k; v = pi_var_name (get_phis pl b ! i) in
       ver_of (phi_sources (rf_get_block rf b ! i) ! k) =
         (v, if p \<in> reachable_addrs G cfg \<and> p \<notin> set (take k (cfg_predecessors G cfg b))
             then env_after (Env p) (rf_get_block rf p) v else 0))"
proof -
  note g = renamed_good [OF assms(1-3)]
  note a = assms(1) [unfolded rename_setup_def]
  have cur: "current_version (initial_context pl vs) = (\<lambda>_. 0)"
    by (simp add: current_version_stack [abs_def] initial_context_obs)
  have "\<forall>b. \<exists>E. b \<in> reachable_addrs G cfg \<longrightarrow> tree_env dt (rf_blocks rf) {cfg_entry cfg} (\<lambda>_. 0) b E"
    using tree_env_total [OF rename_setupD(2) [OF assms(1)]] g(2) by blast
  then obtain Env where Env:
    "b \<in> reachable_addrs G cfg \<Longrightarrow> tree_env dt (rf_blocks rf) {cfg_entry cfg} (\<lambda>_. 0) b (Env b)" for b
    by metis
  have good: "block_good G cfg pl (rf_blocks rf) b (Env b)" if "b \<in> reachable_addrs G cfg" for b
    using g(1) Env [OF that] unfolding subtrees_good_def cur by blast
  have slots: "ver_of (phi_sources (rf_get_block rf b ! i) ! k) = (v, if p \<in> reachable_addrs G cfg \<and>
      p \<notin> set (take k (cfg_predecessors G cfg b)) then env_after (Env p) (rf_get_block rf p) v else 0)"
    if b: "b \<in> reachable_addrs G cfg" and i: "i < length (get_phis pl b)"
      and k: "k < length (cfg_predecessors G cfg b)"
      and p: "p = cfg_predecessors G cfg b ! k" and v: "v = pi_var_name (get_phis pl b ! i)" for b i k p v
  proof (cases "p \<in> reachable_addrs G cfg \<and> p \<notin> set (take k (cfg_predecessors G cfg b))")
    case True
    have "p \<in> set (cfg_predecessors G cfg b)" using k p by simp
    then have "b \<in> set (cfg_successors G cfg p)" using a set_cfg_predecessors set_cfg_successors by blast
    moreover have "slot_of G cfg b p = Some k" unfolding slot_of_first [OF k] using True p by blast
    ultimately show ?thesis
      using good [of p] True i v unfolding block_good_def Let_def slot_def rf_get_block_ops_at by simp
  next
    case False
    then have "slot_of G cfg b c \<noteq> Some k" if "c \<in> reachable_addrs G cfg" for c
      unfolding slot_of_first [OF k] using p that by blast
    then show ?thesis using unfilled_slot [OF assms(1,2) b i k] False v by auto
  qed
  have "well_versioned (env_after (Env b) (take (length (get_phis pl b)) (rf_get_block rf b)))
      (drop (length (get_phis pl b)) (rf_get_block rf b))" if "b \<in> reachable_addrs G cfg" for b
    using good [OF that] unfolding block_good_def Let_def rf_get_block_ops_at by blast
  then show ?thesis unfolding Let_def using Env slots by (intro exI [of _ Env]) blast
qed

theorem renamed_uses_reach_witness:
  "\<exists>cfg dt pl rf E. from_blocks stack_graph double_edge_blocks = Some cfg \<and>
     dom_compute stack_graph cfg = Some dt \<and>
     rename_function_with_call_boundaries stack_graph cfg dt pl [] None None = Some rf \<and>
     tree_env dt (rf_blocks rf) {cfg_entry cfg} (\<lambda>_. 0) 0x1004 E \<and>
     ver_of (phi_sources (rf_get_block rf 0x1008 ! 0) ! 1) =
       (''reg:8'', env_after E (rf_get_block rf 0x1004) ''reg:8'') \<and>
     ver_of (phi_sources (rf_get_block rf 0x1008 ! 0) ! 2) = (''reg:8'', 0)"
proof -
  obtain cfg dt rf where c: "from_blocks stack_graph double_edge_blocks = Some cfg" "dom_compute stack_graph cfg = Some dt"
    "rename_setup stack_graph cfg dt (double_edge_phis stack_graph cfg)" "0x1008 \<in> reachable_addrs stack_graph cfg"
    "{0x1000, 0x1004} \<subseteq> reachable_addrs stack_graph cfg"
    "rename_function_with_call_boundaries stack_graph cfg dt (double_edge_phis stack_graph cfg) [] None None = Some rf"
    "(\<Sum>b \<in> reachable_addrs stack_graph cfg. length (rf_get_block rf b)) < 2 ^ 32"
    using double_edge_setup by blast
  let ?pl = "double_edge_phis stack_graph cfg"
  note p = double_edge_preds [OF c(1)]
  have ph: "get_phis ?pl 0x1008 = [phi_of (cfg_predecessors stack_graph cfg) [] 0x1008 ''reg:8'']"
    "pi_var_name (phi_of (cfg_predecessors stack_graph cfg) [] 0x1008 ''reg:8'') = ''reg:8''"
    by (simp_all add: double_edge_phis_def get_phis_def hm_get_def phi_of_def)
  obtain Env where Env: "\<forall>b \<in> reachable_addrs stack_graph cfg.
      tree_env dt (rf_blocks rf) {cfg_entry cfg} (\<lambda>_. 0) b (Env b) \<and>
      (\<forall>i < length (get_phis ?pl b). \<forall>k < length (cfg_predecessors stack_graph cfg b).
         ver_of (phi_sources (rf_get_block rf b ! i) ! k) =
           (pi_var_name (get_phis ?pl b ! i),
            if cfg_predecessors stack_graph cfg b ! k \<in> reachable_addrs stack_graph cfg \<and>
               cfg_predecessors stack_graph cfg b ! k \<notin> set (take k (cfg_predecessors stack_graph cfg b))
            then env_after (Env (cfg_predecessors stack_graph cfg b ! k))
              (rf_get_block rf (cfg_predecessors stack_graph cfg b ! k)) (pi_var_name (get_phis ?pl b ! i))
            else 0))"
    using renamed_uses_reach [OF c(3,6,7)] unfolding Let_def by blast
  then have t: "tree_env dt (rf_blocks rf) {cfg_entry cfg} (\<lambda>_. 0) 0x1004 (Env 0x1004)" using c(5) by blast
  note slots = bspec [OF Env c(4), THEN conjunct2, rule_format, of 0]
  have r: "0x1004 \<in> reachable_addrs stack_graph cfg" using c(5) by blast
  show ?thesis using c(1,2,6) t slots [of 1] slots [of 2] r
    by (intro exI [of _ cfg] exI [of _ dt] exI [of _ ?pl] exI [of _ rf] exI [of _ "Env 0x1004"]) (simp add: p ph)
qed

text \<open>C3. Single assignment: in the renamed function no version of a variable is defined twice,
  neither in one block nor in two, and version 0 is never defined.\<close>

theorem renamed_single_assignment:
  assumes "rename_setup G cfg dt pl"
    and "rename_function_with_call_boundaries G cfg dt pl vs rn cb = Some rf"
    and "(\<Sum>b \<in> reachable_addrs G cfg. length (rf_get_block rf b)) < 2 ^ 32"
    and "b \<in> reachable_addrs G cfg" "b' \<in> reachable_addrs G cfg"
  shows "distinct (map ver_of (dsts (rf_get_block rf b))) \<and>
    (b \<noteq> b' \<longrightarrow> ver_of ` set (dsts (rf_get_block rf b)) \<inter> ver_of ` set (dsts (rf_get_block rf b')) = {}) \<and>
    (\<forall>d \<in> set (dsts (rf_get_block rf b)). sv_version d \<noteq> 0)"
proof -
  note g = renamed_good [OF assms(1-3)]
  obtain c' where c': "defs_within (initial_context pl vs) c' (rf_blocks rf) (reachable_addrs G cfg)"
    using g unfolding subtrees_good_def by auto
  note w = defs_withinD [OF c']
  show ?thesis
    unfolding rf_get_block_ops_at
    using w(2) [OF assms(4)] w(3) [OF assms(4)] w(4) [OF assms(4,5)] by fastforce
qed

theorem renamed_single_assignment_witness:
  "\<exists>cfg dt rf. from_blocks stack_graph loop_blocks = Some cfg \<and> dom_compute stack_graph cfg = Some dt \<and>
     rename_function_with_call_boundaries stack_graph cfg dt [] [] None None = Some rf \<and>
     distinct (map ver_of (dsts (rf_get_block rf 0x1000)))"
proof -
  obtain cfg dt where c: "from_blocks stack_graph loop_blocks = Some cfg" "dom_compute stack_graph cfg = Some dt"
    "rename_setup stack_graph cfg dt []" "0x1000 \<in> reachable_addrs stack_graph cfg"
    "(\<Sum>b \<in> reachable_addrs stack_graph cfg. block_len stack_graph cfg b) < 2 ^ 32"
    using loop_rename_setup by blast
  obtain rf where rf: "rename_function_with_call_boundaries stack_graph cfg dt [] [] None None = Some rf"
    "\<forall>x \<in> reachable_addrs stack_graph cfg. length (ops_at (rf_blocks rf) x) = block_len stack_graph cfg x"
    using rename_function_spec [OF c(3), of "[]" None None] by (auto simp: get_phis_def hm_get_def)
  then have "(\<Sum>b \<in> reachable_addrs stack_graph cfg. length (rf_get_block rf b)) < 2 ^ 32"
    using c(5) by (simp add: rf_get_block_ops_at)
  from renamed_single_assignment [OF c(3) rf(1) this c(4,4)] c rf show ?thesis by blast
qed

text \<open>A predecessor with two edges into a block fills only its first slot: when the same block
  occurs again among the predecessors, as after a switch with two cases for one target, the later
  slot of every phi still holds the version 0 it was created with.\<close>

theorem repeated_predecessor_slot_stale:
  assumes "rename_setup G cfg dt pl"
    and "rename_function_with_call_boundaries G cfg dt pl vs rn cb = Some rf"
    and "s \<in> reachable_addrs G cfg" "i < length (get_phis pl s)"
    and "j < k" "k < length (cfg_predecessors G cfg s)" "cfg_predecessors G cfg s ! j = cfg_predecessors G cfg s ! k"
  shows "ver_of (phi_sources (rf_get_block rf s ! i) ! k) = (pi_var_name (get_phis pl s ! i), 0)"
  by (rule unfilled_slot [OF assms(1-4,6)]) (use assms(5-7) in \<open>auto simp: position_Some\<close>)

theorem repeated_predecessor_slot_stale_witness:
  "\<exists>cfg dt pl rf. from_blocks stack_graph double_edge_blocks = Some cfg \<and> dom_compute stack_graph cfg = Some dt \<and>
     rename_function_with_call_boundaries stack_graph cfg dt pl [] None None = Some rf \<and>
     map pi_var_name (get_phis pl 0x1008) = [''reg:8''] \<and>
     ver_of (phi_sources (rf_get_block rf 0x1008 ! 0) ! 2) = (''reg:8'', 0)"
  using double_edge_setup
proof (elim exE conjE)
  fix cfg dt and rf :: RenamedFunction
  let ?pl = "double_edge_phis stack_graph cfg"
  assume c: "from_blocks stack_graph double_edge_blocks = Some cfg" "dom_compute stack_graph cfg = Some dt"
    "rename_setup stack_graph cfg dt ?pl" "0x1008 \<in> reachable_addrs stack_graph cfg"
    "rename_function_with_call_boundaries stack_graph cfg dt ?pl [] None None = Some rf"
  note p = double_edge_preds [OF c(1)]
  from repeated_predecessor_slot_stale [OF c(3,5,4), of 0 1 2] c show ?thesis
    by (intro exI [of _ cfg] exI [of _ dt] exI [of _ ?pl] exI [of _ rf])
      (simp add: p double_edge_phis_def get_phis_def hm_get_def phi_of_def)
qed

end
