(* ===== verification/SSA_Function.thy ===== *)
theory SSA_Function
  imports SSA_Rename_Props
begin

text \<open>
  The function in SSA form: \<open>r2ssa/src/function.rs\<close>, construction, queries and mutation.

  Construction composes the control flow graph, the dominator tree, phi placement and renaming. The
  lazily built query index of the source sits behind a lock; here it is a field, and a query
  returns the function with the index filled in. Outside the constructors' own \<open>Option\<close> a further
  option stands for loops that do not return; the theorems show that it is always \<open>Some\<close>.
  An architecture comes with its address, which the name caches look at.
\<close>

section \<open>Data\<close>

datatype StackAddressBase = FramePointer | StackPointer

record StackAddressRoot =
  sar_base :: StackAddressBase
  sar_offset :: i64

record DecompilePrepFacts =
  pf_canonical_value_roots :: "(SSAVar, SSAVar) hashmap"
  pf_stack_address_roots :: "(SSAVar, StackAddressRoot) hashmap"

definition canonical_root_of :: "DecompilePrepFacts \<Rightarrow> SSAVar \<Rightarrow> SSAVar option" where
  "canonical_root_of facts v = hm_get (pf_canonical_value_roots facts) v"

definition stack_address_root_of :: "DecompilePrepFacts \<Rightarrow> SSAVar \<Rightarrow> StackAddressRoot option" where
  "stack_address_root_of facts v = hm_get (pf_stack_address_roots facts) v"

record PhiNode =
  pn_dst :: SSAVar
  pn_sources :: "(u64 \<times> SSAVar) list"

record FunctionSSABlock =
  fb_addr :: u64
  fb_size :: u32
  fb_ops :: "SSAOp list"
  fb_phis :: "PhiNode list"

datatype SourceSite =
  SourcePhi (ss_phi_idx: nat) (ss_src_idx: nat) (ss_pred_addr: u64)
| SourceOp (ss_op_idx: nat) (ss_src_idx: nat)

datatype DefSite = DefSitePhi nat | DefSiteOp nat

datatype DefLocation = DefPhi nat | DefOp nat

datatype UseLocation = UsePhi nat nat | UseOp nat nat

record SsaQueryIndex =
  qi_defs :: "(SSAVar, u64 \<times> DefLocation) hashmap"
  qi_uses :: "(SSAVar, (u64 \<times> UseLocation) list) hashmap"

record 'g SSAFunction =
  fn_name :: "string option"
  fn_entry :: u64
  fn_cfg :: "'g CFG"
  fn_domtree :: DomTree
  fn_blocks :: "(u64, FunctionSSABlock) hashmap"
  fn_block_order :: "u64 list"
  fn_prep_facts :: "DecompilePrepFacts option"
  fn_query_index :: "SsaQueryIndex option"

definition fn_clone :: "'g SSAFunction \<Rightarrow> 'g SSAFunction" where
  "fn_clone f = f\<lparr>fn_query_index := None\<rparr>"

section \<open>Call boundaries\<close>

definition call_def :: "string \<Rightarrow> u32 \<Rightarrow> CallBoundaryDef" where
  "call_def nm sz = \<lparr>cbd_name = nm, cbd_size = sz\<rparr>"

definition x86_64_call_regs :: "CallBoundaryDef list" where
  "x86_64_call_regs =
     [call_def ''rax'' 8, call_def ''eax'' 4, call_def ''rdi'' 8, call_def ''rsi'' 8,
      call_def ''rdx'' 8, call_def ''rcx'' 8, call_def ''r8'' 8, call_def ''r9'' 8,
      call_def ''r10'' 8, call_def ''r11'' 8]"

definition x86_call_regs :: "CallBoundaryDef list" where
  "x86_call_regs =
     [call_def ''eax'' 4, call_def ''ecx'' 4, call_def ''edx'' 4]"

definition arm_call_regs :: "CallBoundaryDef list" where
  "arm_call_regs =
     [call_def ''r0'' 4, call_def ''r1'' 4, call_def ''r2'' 4, call_def ''r3'' 4,
      call_def ''r12'' 4, call_def ''lr'' 4, call_def ''ip'' 4]"

definition aarch64_call_regs :: "CallBoundaryDef list" where
  "aarch64_call_regs =
     [call_def ''x0'' 8, call_def ''w0'' 4, call_def ''x1'' 8, call_def ''w1'' 4,
      call_def ''x2'' 8, call_def ''w2'' 4, call_def ''x3'' 8, call_def ''w3'' 4,
      call_def ''x4'' 8, call_def ''w4'' 4, call_def ''x5'' 8, call_def ''w5'' 4,
      call_def ''x6'' 8, call_def ''w6'' 4, call_def ''x7'' 8, call_def ''w7'' 4,
      call_def ''x8'' 8, call_def ''w8'' 4, call_def ''x9'' 8, call_def ''w9'' 4,
      call_def ''x10'' 8, call_def ''w10'' 4, call_def ''x11'' 8, call_def ''w11'' 4,
      call_def ''x12'' 8, call_def ''w12'' 4, call_def ''x13'' 8, call_def ''w13'' 4,
      call_def ''x14'' 8, call_def ''w14'' 4, call_def ''x15'' 8, call_def ''w15'' 4,
      call_def ''x16'' 8, call_def ''w16'' 4, call_def ''x17'' 8, call_def ''w17'' 4,
      call_def ''x30'' 8, call_def ''w30'' 4]"

definition riscv32_call_regs :: "CallBoundaryDef list" where
  "riscv32_call_regs =
     [call_def ''ra'' 4, call_def ''t0'' 4, call_def ''t1'' 4, call_def ''t2'' 4,
      call_def ''t3'' 4, call_def ''t4'' 4, call_def ''t5'' 4, call_def ''t6'' 4,
      call_def ''a0'' 4, call_def ''a1'' 4, call_def ''a2'' 4, call_def ''a3'' 4,
      call_def ''a4'' 4, call_def ''a5'' 4, call_def ''a6'' 4, call_def ''a7'' 4]"

definition riscv64_call_regs :: "CallBoundaryDef list" where
  "riscv64_call_regs =
     [call_def ''ra'' 8, call_def ''t0'' 8, call_def ''t1'' 8, call_def ''t2'' 8,
      call_def ''t3'' 8, call_def ''t4'' 8, call_def ''t5'' 8, call_def ''t6'' 8,
      call_def ''a0'' 8, call_def ''a1'' 8, call_def ''a2'' 8, call_def ''a3'' 8,
      call_def ''a4'' 8, call_def ''a5'' 8, call_def ''a6'' 8, call_def ''a7'' 8]"

definition decompile_call_boundary_config :: "ArchSpec option \<Rightarrow> CallBoundaryConfig option" where
  "decompile_call_boundary_config arch =
     (case arch of
        None \<Rightarrow> None
      | Some a \<Rightarrow>
          let lower = to_ascii_lowercase (ar_name a);
              defined_regs =
                (if lower \<in> {''x86-64'', ''x86_64'', ''x64'', ''amd64''} then x86_64_call_regs
                 else if lower \<in> {''x86'', ''x86-32'', ''i386'', ''i686''} then x86_call_regs
                 else if lower = ''arm'' \<and> ar_addr_size a = 4 then arm_call_regs
                 else if lower \<in> {''aarch64'', ''arm64''} then aarch64_call_regs
                 else if lower \<in> {''riscv32'', ''rv32'', ''rv32gc''} then riscv32_call_regs
                 else if lower \<in> {''riscv64'', ''rv64'', ''rv64gc''} then riscv64_call_regs
                 else [])
          in if defined_regs = [] then None else Some \<lparr>cb_defined_regs = defined_regs\<rparr>)"

section \<open>Construction\<close>

text \<open>The closure that turns a phi operation into a node: its sources next to the predecessors.\<close>

definition phi_node :: "u64 list \<Rightarrow> SSAOp \<Rightarrow> PhiNode option" where
  "phi_node preds op =
     (case op of
        SSAOp.Phi dst sources \<Rightarrow>
          Some \<lparr>pn_dst = dst, pn_sources = map (\<lambda>(var, pred). (pred, var)) (zip sources preds)\<rparr>
      | _ \<Rightarrow> None)"

definition function_block :: "u64 list \<Rightarrow> u64 \<Rightarrow> u32 \<Rightarrow> SSAOp list \<Rightarrow> FunctionSSABlock" where
  "function_block preds addr sz ops =
     \<lparr>fb_addr = addr, fb_size = sz, fb_ops = filter (\<lambda>op. \<not> sop_is_phi op) ops,
      fb_phis = List.map_filter (phi_node preds) (filter sop_is_phi ops)\<rparr>"

text \<open>The loop that builds the blocks; \<open>cfg.get_block(addr)?\<close> leaves the constructor.\<close>

fun build_ssa_blocks ::
  "'g petgraph \<Rightarrow> 'g CFG \<Rightarrow> block_ops \<Rightarrow> u64 list \<Rightarrow> (u64, FunctionSSABlock) hashmap \<Rightarrow>
     (u64, FunctionSSABlock) hashmap option"
where
  "build_ssa_blocks G cfg renamed [] ssa_blocks = Some ssa_blocks"
| "build_ssa_blocks G cfg renamed (addr # order) ssa_blocks =
     (case get_block G cfg addr of
        None \<Rightarrow> None
      | Some cfg_block \<Rightarrow>
          let ops = (case hm_get renamed addr of Some ops \<Rightarrow> ops | None \<Rightarrow> [])
          in build_ssa_blocks G cfg renamed order
               (hm_insert addr (function_block (cfg_predecessors G cfg addr) addr (bb_size cfg_block) ops) ssa_blocks))"

text \<open>An architecture together with the address it lives at.\<close>

type_synonym arch_ref = "(nat \<times> ArchSpec) option"

definition reg_names_of ::
  "layout_hasher \<Rightarrow> arch_ref \<Rightarrow> naming_caches \<Rightarrow> RegisterNameMap option \<times> naming_caches" where
  "reg_names_of hasher arch caches =
     (case arch of
        None \<Rightarrow> (None, caches)
      | Some (ptr, a) \<Rightarrow>
          let (m, caches1) = cached_register_name_map hasher ptr a caches in (Some m, caches1))"

definition assemble_function ::
  "'g petgraph \<Rightarrow> 'g CFG \<Rightarrow> DomTree \<Rightarrow> RenamedFunction \<Rightarrow> 'g SSAFunction option" where
  "assemble_function G cfg domtree renamed =
     map_option (\<lambda>ssa_blocks.
         \<lparr>fn_name = None, fn_entry = cfg_entry cfg, fn_cfg = cfg, fn_domtree = domtree,
          fn_blocks = ssa_blocks, fn_block_order = rf_block_order renamed,
          fn_prep_facts = None, fn_query_index = None\<rparr>)
       (build_ssa_blocks G cfg (rf_blocks renamed) (rf_block_order renamed) [])"

definition from_blocks_raw_with_policy ::
  "'g petgraph \<Rightarrow> layout_hasher \<Rightarrow> R2ILBlock list \<Rightarrow> arch_ref \<Rightarrow> CallBoundaryConfig option \<Rightarrow> naming_caches \<Rightarrow>
     ('g SSAFunction option \<times> naming_caches) option"
where
  "from_blocks_raw_with_policy G hasher blocks arch call_boundaries caches =
     (if blocks = [] then Some (None, caches)
      else case from_blocks G blocks of
        None \<Rightarrow> Some (None, caches)
      | Some cfg \<Rightarrow>
          Option.bind (dom_compute G cfg) (\<lambda>domtree.
            let (reg_names, caches1) = reg_names_of hasher arch caches;
                (defs, var_sizes) = collect_defs_from_cfg_with_names G cfg reg_names
            in Option.bind (phi_compute G cfg domtree defs var_sizes) (\<lambda>phi_placement.
                 Option.bind
                   (case call_boundaries of
                      Some boundary \<Rightarrow>
                        rename_function_with_call_boundaries G cfg domtree phi_placement var_sizes reg_names (Some boundary)
                    | None \<Rightarrow> rename_function_with_names G cfg domtree phi_placement var_sizes reg_names)
                   (\<lambda>renamed. Some (assemble_function G cfg domtree renamed, caches1)))))"

definition from_blocks_raw ::
  "'g petgraph \<Rightarrow> layout_hasher \<Rightarrow> R2ILBlock list \<Rightarrow> arch_ref \<Rightarrow> naming_caches \<Rightarrow>
     ('g SSAFunction option \<times> naming_caches) option" where
  "from_blocks_raw G hasher blocks arch caches =
     from_blocks_raw_with_policy G hasher blocks arch None caches"

definition from_blocks_raw_for_decompile ::
  "'g petgraph \<Rightarrow> layout_hasher \<Rightarrow> R2ILBlock list \<Rightarrow> arch_ref \<Rightarrow> naming_caches \<Rightarrow>
     ('g SSAFunction option \<times> naming_caches) option" where
  "from_blocks_raw_for_decompile G hasher blocks arch caches =
     from_blocks_raw_with_policy G hasher blocks arch
       (decompile_call_boundary_config (map_option snd arch)) caches"

definition from_blocks_raw_no_arch ::
  "'g petgraph \<Rightarrow> layout_hasher \<Rightarrow> R2ILBlock list \<Rightarrow> naming_caches \<Rightarrow>
     ('g SSAFunction option \<times> naming_caches) option" where
  "from_blocks_raw_no_arch G hasher blocks caches = from_blocks_raw G hasher blocks None caches"

section \<open>Blocks of a function\<close>

definition with_name :: "string \<Rightarrow> 'g SSAFunction \<Rightarrow> 'g SSAFunction" where
  "with_name nm f = f\<lparr>fn_name := Some nm\<rparr>"

definition fn_entry_block :: "'g SSAFunction \<Rightarrow> FunctionSSABlock option" where
  "fn_entry_block f = hm_get (fn_blocks f) (fn_entry f)"

definition fn_get_block :: "'g SSAFunction \<Rightarrow> u64 \<Rightarrow> FunctionSSABlock option" where
  "fn_get_block f addr = hm_get (fn_blocks f) addr"

text \<open>\<open>blocks()\<close>: the blocks in reverse postorder.\<close>

definition fn_blocks_in_order :: "'g SSAFunction \<Rightarrow> FunctionSSABlock list" where
  "fn_blocks_in_order f = List.map_filter (\<lambda>addr. hm_get (fn_blocks f) addr) (fn_block_order f)"

definition fn_num_blocks :: "'g SSAFunction \<Rightarrow> nat" where
  "fn_num_blocks f = length (fn_blocks f)"

definition fn_switch_info :: "'g petgraph \<Rightarrow> 'g SSAFunction \<Rightarrow> u64 \<Rightarrow> ((u64 \<times> u64) list \<times> u64 option) option" where
  "fn_switch_info G f addr =
     Option.bind (get_block G (fn_cfg f) addr) (\<lambda>block.
       case bb_terminator block of
         TermSwitch cases dflt \<Rightarrow> Some (cases, dflt)
       | _ \<Rightarrow> None)"

definition fb_all_ops :: "FunctionSSABlock \<Rightarrow> SSAOp list" where
  "fb_all_ops b =
     map (\<lambda>phi. SSAOp.Phi (pn_dst phi) (map snd (pn_sources phi))) (fb_phis b) @ fb_ops b"

definition fn_all_ops :: "'g SSAFunction \<Rightarrow> SSAOp list" where
  "fn_all_ops f = concat (map (\<lambda>(_, b). fb_ops b) (fn_blocks f))"

definition fn_all_phis :: "'g SSAFunction \<Rightarrow> PhiNode list" where
  "fn_all_phis f = concat (map (\<lambda>(_, b). fb_phis b) (fn_blocks f))"

definition fn_defined_vars :: "'g SSAFunction \<Rightarrow> SSAVar list" where
  "fn_defined_vars f = map pn_dst (fn_all_phis f) @ List.map_filter sop_dst (fn_all_ops f)"

definition fn_used_vars :: "'g SSAFunction \<Rightarrow> SSAVar list" where
  "fn_used_vars f =
     concat (map (\<lambda>phi. map snd (pn_sources phi)) (fn_all_phis f)) @ concat (map sop_sources (fn_all_ops f))"

section \<open>Visiting sources and definitions\<close>

text \<open>A visitor is the list of what it is called with.\<close>

definition for_each_phi_source :: "FunctionSSABlock \<Rightarrow> (SSAVar \<times> SourceSite) list" where
  "for_each_phi_source b =
     concat (map (\<lambda>(phi_idx, phi).
         map (\<lambda>(src_idx, pred_addr, src). (src, SourcePhi phi_idx src_idx pred_addr)) (enumerate 0 (pn_sources phi)))
       (enumerate 0 (fb_phis b)))"

definition for_each_op_source :: "FunctionSSABlock \<Rightarrow> (SSAVar \<times> SourceSite) list" where
  "for_each_op_source b =
     concat (map (\<lambda>(op_idx, op).
         map (\<lambda>(src_idx, src). (src, SourceOp op_idx src_idx)) (enumerate 0 (sop_sources op)))
       (enumerate 0 (fb_ops b)))"

definition block_for_each_source :: "FunctionSSABlock \<Rightarrow> (SSAVar \<times> SourceSite) list" where
  "block_for_each_source b = for_each_phi_source b @ for_each_op_source b"

definition block_for_each_def :: "FunctionSSABlock \<Rightarrow> (SSAVar \<times> DefSite) list" where
  "block_for_each_def b =
     map (\<lambda>(phi_idx, phi). (pn_dst phi, DefSitePhi phi_idx)) (enumerate 0 (fb_phis b)) @
     List.map_filter (\<lambda>(op_idx, op). map_option (\<lambda>dst. (dst, DefSiteOp op_idx)) (sop_dst op))
       (enumerate 0 (fb_ops b))"

definition fn_for_each_source :: "'g SSAFunction \<Rightarrow> (u64 \<times> SSAVar \<times> SourceSite) list" where
  "fn_for_each_source f =
     concat (map (\<lambda>b. map (Pair (fb_addr b)) (block_for_each_source b)) (fn_blocks_in_order f))"

definition fn_for_each_def :: "'g SSAFunction \<Rightarrow> (u64 \<times> SSAVar \<times> DefSite) list" where
  "fn_for_each_def f =
     concat (map (\<lambda>b. map (Pair (fb_addr b)) (block_for_each_def b)) (fn_blocks_in_order f))"

section \<open>The query index\<close>

definition index_def :: "SSAVar \<Rightarrow> u64 \<times> DefLocation \<Rightarrow> SsaQueryIndex \<Rightarrow> SsaQueryIndex" where
  "index_def v site index = index\<lparr>qi_defs := hm_insert v site (qi_defs index)\<rparr>"

definition index_use :: "SSAVar \<Rightarrow> u64 \<times> UseLocation \<Rightarrow> SsaQueryIndex \<Rightarrow> SsaQueryIndex" where
  "index_use v site index = index\<lparr>qi_uses := hm_insert v (get_names (qi_uses index) v @ [site]) (qi_uses index)\<rparr>"

definition index_phi :: "u64 \<Rightarrow> SsaQueryIndex \<Rightarrow> nat \<times> PhiNode \<Rightarrow> SsaQueryIndex" where
  "index_phi addr index = (\<lambda>(phi_idx, phi).
     foldl (\<lambda>index (src_idx, _, src). index_use src (addr, UsePhi phi_idx src_idx) index)
       (index_def (pn_dst phi) (addr, DefPhi phi_idx) index) (enumerate 0 (pn_sources phi)))"

definition index_op :: "u64 \<Rightarrow> SsaQueryIndex \<Rightarrow> nat \<times> SSAOp \<Rightarrow> SsaQueryIndex" where
  "index_op addr index = (\<lambda>(op_idx, op).
     foldl (\<lambda>index (src_idx, src). index_use src (addr, UseOp op_idx src_idx) index)
       (case sop_dst op of Some dst \<Rightarrow> index_def dst (addr, DefOp op_idx) index | None \<Rightarrow> index)
       (enumerate 0 (sop_sources op)))"

definition index_block :: "SsaQueryIndex \<Rightarrow> FunctionSSABlock \<Rightarrow> SsaQueryIndex" where
  "index_block index b =
     foldl (index_op (fb_addr b)) (foldl (index_phi (fb_addr b)) index (enumerate 0 (fb_phis b)))
       (enumerate 0 (fb_ops b))"

definition query_index_build :: "'g SSAFunction \<Rightarrow> SsaQueryIndex" where
  "query_index_build f = foldl index_block \<lparr>qi_defs = [], qi_uses = []\<rparr> (fn_blocks_in_order f)"

definition ensure_query_index :: "'g SSAFunction \<Rightarrow> 'g SSAFunction" where
  "ensure_query_index f =
     (if fn_query_index f \<noteq> None then f else f\<lparr>fn_query_index := Some (query_index_build f)\<rparr>)"

definition invalidate_query_index :: "'g SSAFunction \<Rightarrow> 'g SSAFunction" where
  "invalidate_query_index f = f\<lparr>fn_query_index := None\<rparr>"

definition find_def :: "SSAVar \<Rightarrow> 'g SSAFunction \<Rightarrow> (u64 \<times> DefLocation) option \<times> 'g SSAFunction" where
  "find_def v f =
     (let f1 = ensure_query_index f
      in (Option.bind (fn_query_index f1) (\<lambda>index. hm_get (qi_defs index) v), f1))"

definition find_uses :: "SSAVar \<Rightarrow> 'g SSAFunction \<Rightarrow> (u64 \<times> UseLocation) list \<times> 'g SSAFunction" where
  "find_uses v f =
     (let f1 = ensure_query_index f
      in (case Option.bind (fn_query_index f1) (\<lambda>index. hm_get (qi_uses index) v) of
            Some us \<Rightarrow> us
          | None \<Rightarrow> [], f1))"

section \<open>Mutation\<close>

text \<open>\<open>get_block_mut\<close> hands out a mutable block: the caller's change is the argument.\<close>

definition get_block_mut :: "u64 \<Rightarrow> (FunctionSSABlock \<Rightarrow> FunctionSSABlock) \<Rightarrow> 'g SSAFunction \<Rightarrow> 'g SSAFunction" where
  "get_block_mut addr change f =
     (let f1 = (invalidate_query_index f)\<lparr>fn_prep_facts := None\<rparr>
      in case hm_get (fn_blocks f1) addr of
           Some b \<Rightarrow> f1\<lparr>fn_blocks := hm_insert addr (change b) (fn_blocks f1)\<rparr>
         | None \<Rightarrow> f1)"

definition cfg_mut :: "('g CFG \<Rightarrow> 'g CFG) \<Rightarrow> 'g SSAFunction \<Rightarrow> 'g SSAFunction" where
  "cfg_mut change f =
     (let f1 = (invalidate_query_index f)\<lparr>fn_prep_facts := None\<rparr>
      in f1\<lparr>fn_cfg := change (fn_cfg f1)\<rparr>)"

definition fn_remove_block :: "'g petgraph \<Rightarrow> u64 \<Rightarrow> 'g SSAFunction \<Rightarrow> 'g SSAFunction" where
  "fn_remove_block G addr f =
     invalidate_query_index
       (f\<lparr>fn_blocks := hm_remove addr (fn_blocks f),
          fn_block_order := filter (\<lambda>a. a \<noteq> addr) (fn_block_order f),
          fn_cfg := remove_block G (fn_cfg f) addr,
          fn_prep_facts := None\<rparr>)"

definition remove_phi_source :: "u64 \<Rightarrow> u64 \<Rightarrow> 'g SSAFunction \<Rightarrow> 'g SSAFunction" where
  "remove_phi_source block_addr pred_addr f =
     (let drop_pred = (\<lambda>phi. phi\<lparr>pn_sources := filter (\<lambda>(pred, _). pred \<noteq> pred_addr) (pn_sources phi)\<rparr>);
          f1 = (case hm_get (fn_blocks f) block_addr of
                  Some b \<Rightarrow> f\<lparr>fn_blocks := hm_insert block_addr (b\<lparr>fb_phis := map drop_pred (fb_phis b)\<rparr>) (fn_blocks f)\<rparr>
                | None \<Rightarrow> f)
      in invalidate_query_index (f1\<lparr>fn_prep_facts := None\<rparr>))"

definition refresh_after_cfg_mutation :: "'g petgraph \<Rightarrow> 'g SSAFunction \<Rightarrow> 'g SSAFunction option" where
  "refresh_after_cfg_mutation G f =
     map_option (\<lambda>domtree.
         invalidate_query_index
           (f\<lparr>fn_blocks := filter (\<lambda>(addr, _). get_block G (fn_cfg f) addr \<noteq> None) (fn_blocks f),
              fn_block_order := reverse_postorder G (fn_cfg f),
              fn_domtree := domtree,
              fn_prep_facts := None\<rparr>))
       (dom_compute G (fn_cfg f))"

end
