(* ===== verification/SSA_Function_Props.thy ===== *)
theory SSA_Function_Props
  imports SSA_Function
begin

text \<open>
  What the constructors of a function promise, and what its queries answer: the whole of raw
  construction returns and yields single assignment form, and the lazily built query index is
  always that of the current blocks.
\<close>

section \<open>The query index\<close>

fun def_location :: "DefSite \<Rightarrow> DefLocation" where
  "def_location (DefSitePhi i) = DefPhi i"
| "def_location (DefSiteOp i) = DefOp i"

fun use_location :: "SourceSite \<Rightarrow> UseLocation" where
  "use_location (SourcePhi i j _) = UsePhi i j"
| "use_location (SourceOp i j) = UseOp i j"

text \<open>The index after a sequence of entries.\<close>

definition defs_of :: "u64 \<Rightarrow> (SSAVar \<times> DefSite) list \<Rightarrow> (SSAVar \<times> u64 \<times> DefLocation) list" where
  "defs_of addr ds = map (\<lambda>(v, s). (v, addr, def_location s)) ds"

definition uses_of :: "u64 \<Rightarrow> (SSAVar \<times> SourceSite) list \<Rightarrow> (SSAVar \<times> u64 \<times> UseLocation) list" where
  "uses_of addr us = map (\<lambda>(v, s). (v, addr, use_location s)) us"

definition adds :: "(SSAVar \<times> u64 \<times> DefLocation) list \<Rightarrow> (SSAVar \<times> u64 \<times> UseLocation) list \<Rightarrow>
    SsaQueryIndex \<Rightarrow> SsaQueryIndex \<Rightarrow> bool" where
  "adds ds us index index' \<longleftrightarrow>
     (\<forall>v. hm_get (qi_defs index') v = (case map_of (rev ds) v of Some l \<Rightarrow> Some l | None \<Rightarrow> hm_get (qi_defs index) v)) \<and>
     (\<forall>v. get_names (qi_uses index') v = get_names (qi_uses index) v @ map snd (filter (\<lambda>u. fst u = v) us))"

lemma adds_trans:
  assumes "adds ds us i j" "adds ds' us' j k"
  shows "adds (ds @ ds') (us @ us') i k"
  using assms by (auto simp: adds_def map_add_def split: option.splits)

lemma adds_refl: "adds [] [] i i"
  by (simp add: adds_def)

lemma adds_foldl:
  assumes "\<And>i x. x \<in> set xs \<Longrightarrow> adds (d x) (u x) i (g i x)"
  shows "adds (concat (map d xs)) (concat (map u xs)) i (foldl g i xs)"
  using assms by (induction xs arbitrary: i) (auto simp: adds_refl intro!: adds_trans)

lemma adds_def1: "adds [(v, l)] [] i (index_def v l i)"
  by (auto simp: adds_def index_def_def hm_get_insert)

lemma adds_use1: "adds [] [(v, l)] i (index_use v l i)"
  by (auto simp: adds_def index_use_def hm_get_insert get_names_def)

lemma concat_map_empty: "concat (map (\<lambda>_. []) xs) = []"
  by (induction xs) auto

lemma adds_index_phi:
  "adds (defs_of addr [(pn_dst phi, DefSitePhi k)])
     (uses_of addr (map (\<lambda>(src_idx, pred_addr, src). (src, SourcePhi k src_idx pred_addr)) (enumerate 0 (pn_sources phi))))
     i (index_phi addr i (k, phi))"
proof -
  have "adds (concat (map (\<lambda>_. []) (enumerate 0 (pn_sources phi))))
      (concat (map (\<lambda>(src_idx, _, src). [(src, addr, UsePhi k src_idx)]) (enumerate 0 (pn_sources phi)))) j
      (foldl (\<lambda>index (src_idx, _, src). index_use src (addr, UsePhi k src_idx) index) j (enumerate 0 (pn_sources phi)))" for j
    by (rule adds_foldl) (auto simp: adds_use1 split: prod.splits)
  from adds_trans [OF adds_def1 this, of "pn_dst phi" "(addr, DefPhi k)" i] show ?thesis
    by (simp add: index_phi_def defs_of_def uses_of_def split_beta' comp_def concat_map_singleton concat_map_empty)
qed

lemma adds_index_op:
  "adds (defs_of addr (case sop_dst op of Some d \<Rightarrow> [(d, DefSiteOp k)] | None \<Rightarrow> []))
     (uses_of addr (map (\<lambda>(src_idx, src). (src, SourceOp k src_idx)) (enumerate 0 (sop_sources op))))
     i (index_op addr i (k, op))"
proof -
  let ?j = "case sop_dst op of Some dst \<Rightarrow> index_def dst (addr, DefOp k) i | None \<Rightarrow> i"
  have u: "adds (concat (map (\<lambda>_. []) (enumerate 0 (sop_sources op))))
      (concat (map (\<lambda>(src_idx, src). [(src, addr, UseOp k src_idx)]) (enumerate 0 (sop_sources op)))) ?j
      (foldl (\<lambda>index (src_idx, src). index_use src (addr, UseOp k src_idx) index) ?j (enumerate 0 (sop_sources op)))"
    by (rule adds_foldl) (auto simp: adds_use1 split: prod.splits)
  have d: "adds (defs_of addr (case sop_dst op of Some d \<Rightarrow> [(d, DefSiteOp k)] | None \<Rightarrow> [])) [] i ?j"
    by (auto simp: defs_of_def adds_refl adds_def1 split: option.splits)
  from adds_trans [OF d u] show ?thesis
    by (cases "sop_dst op") (simp_all add: index_op_def uses_of_def split_beta' comp_def concat_map_singleton concat_map_empty)
qed

lemma map_filter_concat: "List.map_filter g xs = concat (map (\<lambda>x. case g x of Some y \<Rightarrow> [y] | None \<Rightarrow> []) xs)"
  by (induction xs) (auto simp: map_filter_simps split: option.splits)

lemma adds_index_block:
  "adds (defs_of (fb_addr b) (block_for_each_def b)) (uses_of (fb_addr b) (block_for_each_source b)) i (index_block i b)"
proof -
  let ?a = "fb_addr b"
  have p: "adds (concat (map (\<lambda>(k, phi). defs_of ?a [(pn_dst phi, DefSitePhi k)]) (enumerate 0 (fb_phis b))))
      (concat (map (\<lambda>(k, phi). uses_of ?a (map (\<lambda>(src_idx, pred_addr, src). (src, SourcePhi k src_idx pred_addr))
         (enumerate 0 (pn_sources phi)))) (enumerate 0 (fb_phis b)))) i
      (foldl (index_phi ?a) i (enumerate 0 (fb_phis b)))"
    by (rule adds_foldl) (use adds_index_phi in \<open>auto split: prod.splits\<close>)
  have o: "adds (concat (map (\<lambda>(k, op). defs_of ?a (case sop_dst op of Some d \<Rightarrow> [(d, DefSiteOp k)] | None \<Rightarrow> []))
        (enumerate 0 (fb_ops b))))
      (concat (map (\<lambda>(k, op). uses_of ?a (map (\<lambda>(src_idx, src). (src, SourceOp k src_idx))
         (enumerate 0 (sop_sources op)))) (enumerate 0 (fb_ops b)))) j
      (foldl (index_op ?a) j (enumerate 0 (fb_ops b)))" for j
    by (rule adds_foldl) (use adds_index_op in \<open>auto split: prod.splits\<close>)
  have d: "defs_of ?a (block_for_each_def b) =
      concat (map (\<lambda>(k, phi). defs_of ?a [(pn_dst phi, DefSitePhi k)]) (enumerate 0 (fb_phis b))) @
      concat (map (\<lambda>(k, op). defs_of ?a (case sop_dst op of Some d \<Rightarrow> [(d, DefSiteOp k)] | None \<Rightarrow> [])) (enumerate 0 (fb_ops b)))"
    unfolding block_for_each_def_def map_filter_concat defs_of_def
    by (simp add: split_beta' comp_def concat_map_singleton map_concat)
      (rule arg_cong [where f = concat], rule map_cong [OF refl], auto split: option.splits)
  have u: "uses_of ?a (block_for_each_source b) =
      concat (map (\<lambda>(k, phi). uses_of ?a (map (\<lambda>(src_idx, pred_addr, src). (src, SourcePhi k src_idx pred_addr))
         (enumerate 0 (pn_sources phi)))) (enumerate 0 (fb_phis b))) @
      concat (map (\<lambda>(k, op). uses_of ?a (map (\<lambda>(src_idx, src). (src, SourceOp k src_idx))
         (enumerate 0 (sop_sources op)))) (enumerate 0 (fb_ops b)))"
    unfolding block_for_each_source_def for_each_phi_source_def for_each_op_source_def uses_of_def
    by (simp add: split_beta' comp_def map_concat)
  show ?thesis unfolding d u index_block_def by (rule adds_trans [OF p o])
qed

text \<open>The entries of a whole function, as its visitors list them.\<close>

definition all_defs :: "'g SSAFunction \<Rightarrow> (SSAVar \<times> u64 \<times> DefLocation) list" where
  "all_defs f = map (\<lambda>(addr, v, s). (v, addr, def_location s)) (fn_for_each_def f)"

definition all_uses :: "'g SSAFunction \<Rightarrow> (SSAVar \<times> u64 \<times> UseLocation) list" where
  "all_uses f = map (\<lambda>(addr, v, s). (v, addr, use_location s)) (fn_for_each_source f)"

lemma query_index_build_spec:
  "hm_get (qi_defs (query_index_build f)) v = map_of (rev (all_defs f)) v"
  "get_names (qi_uses (query_index_build f)) v = map snd (filter (\<lambda>u. fst u = v) (all_uses f))"
proof -
  have "adds (concat (map (\<lambda>b. defs_of (fb_addr b) (block_for_each_def b)) (fn_blocks_in_order f)))
      (concat (map (\<lambda>b. uses_of (fb_addr b) (block_for_each_source b)) (fn_blocks_in_order f)))
      \<lparr>qi_defs = [], qi_uses = []\<rparr> (query_index_build f)"
    unfolding query_index_build_def by (rule adds_foldl) (rule adds_index_block)
  moreover have "concat (map (\<lambda>b. defs_of (fb_addr b) (block_for_each_def b)) (fn_blocks_in_order f)) = all_defs f"
    by (simp add: all_defs_def fn_for_each_def_def defs_of_def map_concat comp_def split_beta')
  moreover have "concat (map (\<lambda>b. uses_of (fb_addr b) (block_for_each_source b)) (fn_blocks_in_order f)) = all_uses f"
    by (simp add: all_uses_def fn_for_each_source_def uses_of_def map_concat comp_def split_beta')
  ultimately show "hm_get (qi_defs (query_index_build f)) v = map_of (rev (all_defs f)) v"
    "get_names (qi_uses (query_index_build f)) v = map snd (filter (\<lambda>u. fst u = v) (all_uses f))"
    by (auto simp: adds_def hm_get_def get_names_def split: option.splits)
qed

section \<open>Use of a function\<close>

text \<open>The operations that query or change a function.\<close>

inductive uses_function :: "'g petgraph \<Rightarrow> 'g SSAFunction \<Rightarrow> 'g SSAFunction \<Rightarrow> bool"
  for G where
  use_name: "uses_function G f (with_name nm f)"
| use_clone: "uses_function G f (fn_clone f)"
| use_block: "uses_function G f (get_block_mut addr change f)"
| use_cfg: "uses_function G f (cfg_mut chg f)"
| use_remove: "uses_function G f (fn_remove_block G addr f)"
| use_phi_source: "uses_function G f (remove_phi_source addr pred f)"
| use_refresh: "refresh_after_cfg_mutation G f = Some f' \<Longrightarrow> uses_function G f f'"
| use_find_def: "uses_function G f (snd (find_def v f))"
| use_find_uses: "uses_function G f (snd (find_uses v f))"

definition index_ok :: "'g SSAFunction \<Rightarrow> bool" where
  "index_ok f \<longleftrightarrow> fn_query_index f = None \<or> fn_query_index f = Some (query_index_build f)"

lemma query_index_build_cong:
  "fn_blocks f = fn_blocks f' \<Longrightarrow> fn_block_order f = fn_block_order f' \<Longrightarrow> query_index_build f = query_index_build f'"
  by (simp add: query_index_build_def fn_blocks_in_order_def)

lemma index_ok_ensure: "index_ok f \<Longrightarrow> index_ok (ensure_query_index f)"
  and fn_query_index_ensure: "index_ok f \<Longrightarrow> fn_query_index (ensure_query_index f) = Some (query_index_build f)"
  by (auto simp: index_ok_def ensure_query_index_def intro: query_index_build_cong)

lemma index_ok_step:
  assumes "uses_function G f f'" "index_ok f"
  shows "index_ok f'"
  using assms
proof cases
  case (use_name nm)
  then show ?thesis
    using assms(2) query_index_build_cong [of "with_name nm f" f] by (auto simp: index_ok_def with_name_def)
next
  case (use_find_def v)
  then show ?thesis using index_ok_ensure [OF assms(2)] by (simp add: find_def_def Let_def)
next
  case (use_find_uses v)
  then show ?thesis using index_ok_ensure [OF assms(2)] by (simp add: find_uses_def Let_def)
qed (auto simp: Let_def index_ok_def fn_clone_def get_block_mut_def
    invalidate_query_index_def cfg_mut_def fn_remove_block_def remove_phi_source_def refresh_after_cfg_mutation_def
    split: option.splits)

lemma index_ok_run:
  assumes "(uses_function G)\<^sup>*\<^sup>* f f'" "fn_query_index f = None"
  shows "index_ok f'"
  using assms by (induction rule: rtranclp_induct) (auto simp: index_ok_def [of f] intro: index_ok_step)

lemma find_def_index_ok: "index_ok f \<Longrightarrow> fst (find_def v f) = map_of (rev (all_defs f)) v"
  by (simp add: find_def_def Let_def fn_query_index_ensure query_index_build_spec)

lemma find_uses_index_ok:
  assumes "index_ok f"
  shows "fst (find_uses v f) = map snd (filter (\<lambda>u. fst u = v) (all_uses f))"
  using query_index_build_spec(2) [of f v]
  by (simp add: find_uses_def Let_def fn_query_index_ensure [OF assms] get_names_def)

section \<open>Raw construction\<close>

lemma build_ssa_blocks_spec:
  assumes "\<forall>a \<in> set order. get_block G cfg a \<noteq> None"
  shows "\<exists>m'. build_ssa_blocks G cfg renamed order m = Some m' \<and>
    (\<forall>a. hm_get m' a = (if a \<in> set order
       then Some (function_block (cfg_predecessors G cfg a) a (bb_size (the (get_block G cfg a))) (ops_at renamed a))
       else hm_get m a)) \<and> (hm_ok m \<longrightarrow> hm_ok m')"
  using assms
proof (induction order arbitrary: m)
  case (Cons a order)
  let ?m = "hm_insert a (function_block (cfg_predecessors G cfg a) a (bb_size (the (get_block G cfg a))) (ops_at renamed a)) m"
  have "build_ssa_blocks G cfg renamed (a # order) m = build_ssa_blocks G cfg renamed order ?m"
    using Cons.prems by (auto simp: ops_at_def)
  then show ?case using Cons.IH [of ?m] Cons.prems by (auto simp: hm_get_insert hm_ok_insert)
qed simp

text \<open>How the parts of a constructed function come about.\<close>

definition raw_parts :: "'g petgraph \<Rightarrow> R2ILBlock list \<Rightarrow> CallBoundaryConfig option \<Rightarrow> 'g SSAFunction \<Rightarrow>
    PhiPlacement \<Rightarrow> (string, u32) hashmap \<Rightarrow> RegisterNameMap option \<Rightarrow> RenamedFunction \<Rightarrow> bool" where
  "raw_parts G blocks cb f pl vs rn rf \<longleftrightarrow>
     from_blocks G blocks = Some (fn_cfg f) \<and> dom_compute G (fn_cfg f) = Some (fn_domtree f) \<and>
     phi_compute G (fn_cfg f) (fn_domtree f) (fst (collect_defs_from_cfg_with_names G (fn_cfg f) rn)) vs = Some pl \<and>
     rename_setup G (fn_cfg f) (fn_domtree f) pl \<and>
     rename_function_with_call_boundaries G (fn_cfg f) (fn_domtree f) pl vs rn cb = Some rf \<and>
     fn_name f = None \<and> fn_entry f = cfg_entry (fn_cfg f) \<and> fn_prep_facts f = None \<and> fn_query_index f = None \<and>
     fn_block_order f = reverse_postorder G (fn_cfg f) \<and> hm_ok (fn_blocks f) \<and>
     (\<forall>a. fn_get_block f a = (if a \<in> reachable_addrs G (fn_cfg f)
        then Some (function_block (cfg_predecessors G (fn_cfg f) a) a
               (bb_size (the (get_block G (fn_cfg f) a))) (rf_get_block rf a)) else None))"

lemma raw_construction:
  assumes ok: "petgraph_ok G" and ne: "blocks \<noteq> []"
  shows "\<exists>f pl rf. from_blocks_raw_with_policy G hasher blocks arch cb caches = Some (Some f, snd (reg_names_of hasher arch caches)) \<and>
    raw_parts G blocks cb f pl (snd (collect_defs_from_cfg_with_names G (fn_cfg f) (fst (reg_names_of hasher arch caches))))
      (fst (reg_names_of hasher arch caches)) rf"
proof -
  let ?rn = "fst (reg_names_of hasher arch caches)"
  obtain cfg where cfg: "from_blocks G blocks = Some cfg" using ne by (cases blocks) (auto simp: from_blocks_def Let_def)
  note o = from_blocks_obs [OF ok cfg]
  have "block_at blocks (cfg_entry cfg) \<noteq> None" using ne by (simp add: o(2) block_at_None)
  then have "get_block G cfg (cfg_entry cfg) \<noteq> None" by (simp add: o(3))
  then obtain i where i: "get_node cfg (cfg_entry cfg) = Some i" by (auto simp: get_block_def)
  obtain dt where dt: "dom_compute G cfg = Some dt" using dom_compute_spec [OF ok o(1) i] by blast
  note t = dom_compute_tree [OF ok o(1) _ dt]
  let ?D = "collect_defs_from_cfg_with_names G cfg ?rn"
  obtain pl where pl: "phi_compute G cfg dt (fst ?D) (snd ?D) = Some pl"
    "\<And>b. get_phis pl b = map (phi_of (cfg_predecessors G cfg) (snd ?D) b) (sorted_list_of_set (phi_vars G cfg dt ?rn b))"
    using phi_rows(2) [OF o(1), of dt ?rn "snd ?D"] by blast
  have S: "rename_setup G cfg dt pl"
    unfolding rename_setup_def using ok o(1) i dt by (auto simp: pl(2) phi_of_def)
  obtain rf where rf: "rename_function_with_call_boundaries G cfg dt pl (snd ?D) ?rn cb = Some rf"
    "rf_block_order rf = reverse_postorder G cfg" "rf_entry rf = cfg_entry cfg"
    using rename_function_spec [OF S, of "snd ?D" ?rn cb] by blast
  have live: "get_block G cfg a \<noteq> None" if "a \<in> reachable_addrs G cfg" for a
  proof -
    have "a = cfg_entry cfg \<or> (\<exists>p. (p, a) \<in> edge_rel G cfg)"
      using that by (auto simp: reachable_addrs_def elim: rtranclE split: if_splits)
    then have "get_node cfg a \<noteq> None" using i edge_rel_live [OF o(1)] by auto
    then show ?thesis by (simp add: get_block_def)
  qed
  have r: "set (reverse_postorder G cfg) = reachable_addrs G cfg" using t(3) i by simp
  obtain m where m: "build_ssa_blocks G cfg (rf_blocks rf) (reverse_postorder G cfg) [] = Some m" "hm_ok m"
    "\<And>a. hm_get m a = (if a \<in> reachable_addrs G cfg
       then Some (function_block (cfg_predecessors G cfg a) a (bb_size (the (get_block G cfg a))) (ops_at (rf_blocks rf) a))
       else None)"
    using build_ssa_blocks_spec [of "reverse_postorder G cfg" G cfg "rf_blocks rf" "[]"] live r
    by (auto simp: hm_ok_def [of "[]"] hm_get_def [of "[]"])
  let ?f = "\<lparr>fn_name = None, fn_entry = cfg_entry cfg, fn_cfg = cfg, fn_domtree = dt, fn_blocks = m,
     fn_block_order = reverse_postorder G cfg, fn_prep_facts = None, fn_query_index = None\<rparr>"
  have "from_blocks_raw_with_policy G hasher blocks arch cb caches = Some (Some ?f, snd (reg_names_of hasher arch caches))"
    unfolding from_blocks_raw_with_policy_def
    using ne cfg dt pl(1) rf m(1)
    by (cases cb) (simp_all add: split_beta' Let_def rename_function_with_names_def assemble_function_def)
  moreover have "raw_parts G blocks cb ?f pl (snd ?D) ?rn rf"
    unfolding raw_parts_def using cfg dt pl(1) S rf m(2,3) by (simp add: fn_get_block_def rf_get_block_ops_at)
  ultimately show ?thesis by (intro exI [of _ ?f] exI [of _ pl] exI [of _ rf]) simp
qed

section \<open>Single assignment\<close>

lemma dsts_Cons: "dsts (op # ops) = (case sop_dst op of Some d \<Rightarrow> [d] | None \<Rightarrow> []) @ dsts ops"
  by (simp add: dsts_def)

lemma mset_dsts_partition: "mset (dsts (filter P ops) @ dsts (filter (\<lambda>op. \<not> P op) ops)) = mset (dsts ops)"
  by (induction ops) (auto simp: dsts_Cons dsts_def [of "[]"] split: option.splits)

lemma sop_is_phi_node: "sop_is_phi op \<Longrightarrow> \<exists>phi. phi_node preds op = Some phi \<and> sop_dst op = Some (pn_dst phi)"
  by (cases op) (auto simp: sop_is_phi_def phi_node_def)

lemma phi_node_dsts:
  "map pn_dst (List.map_filter (phi_node preds) (filter sop_is_phi ops)) = dsts (filter sop_is_phi ops)"
proof (induction ops)
  case (Cons op ops)
  then show ?case
    using sop_is_phi_node [of op preds]
    by (cases "sop_is_phi op") (auto simp: map_filter_simps dsts_Cons)
qed (simp add: map_filter_simps dsts_def)

lemma map_filter_enumerate_dst:
  "map fst (List.map_filter (\<lambda>(op_idx, op). map_option (\<lambda>dst. (dst, DefSiteOp op_idx)) (sop_dst op)) (enumerate n ops)) = dsts ops"
  by (induction ops arbitrary: n) (auto simp: map_filter_simps dsts_Cons dsts_def [of "[]"] split: option.splits)

lemma block_for_each_def_vars:
  "map fst (block_for_each_def b) = map pn_dst (fb_phis b) @ dsts (fb_ops b)"
proof -
  have "map (pn_dst \<circ> snd) (enumerate 0 ps) = map pn_dst ps" for ps :: "PhiNode list"
    unfolding map_map [symmetric] by simp
  then show ?thesis
    unfolding block_for_each_def_def map_append map_filter_enumerate_dst by (simp add: comp_def split_beta')
qed

lemma function_block_defs:
  "mset (map fst (block_for_each_def (function_block preds a sz ops))) = mset (dsts ops)"
  unfolding block_for_each_def_vars function_block_def
  using mset_dsts_partition [of sop_is_phi ops] by (simp add: phi_node_dsts)

lemma distinct_concat_map:
  assumes "distinct xs" "\<And>x. x \<in> set xs \<Longrightarrow> distinct (g x)"
    and "\<And>x y. x \<in> set xs \<Longrightarrow> y \<in> set xs \<Longrightarrow> x \<noteq> y \<Longrightarrow> set (g x) \<inter> set (g y) = {}"
  shows "distinct (concat (map g xs))"
  using assms
proof (induction xs)
  case (Cons x xs)
  have "set (g x) \<inter> set (g y) = {}" if "y \<in> set xs" for y using Cons.prems(1,3) that by auto
  then have "set (g x) \<inter> set (concat (map g xs)) = {}" by auto
  then show ?case using Cons by simp
qed simp

lemma raw_partsD:
  assumes "raw_parts G blocks cb f pl vs rn rf"
  shows "rename_setup G (fn_cfg f) (fn_domtree f) pl"
    and "rename_function_with_call_boundaries G (fn_cfg f) (fn_domtree f) pl vs rn cb = Some rf"
    and "fn_block_order f = reverse_postorder G (fn_cfg f)"
    and "fn_query_index f = None"
    and "set (fn_block_order f) = reachable_addrs G (fn_cfg f)" "distinct (fn_block_order f)"
    and "fn_get_block f a = (if a \<in> reachable_addrs G (fn_cfg f)
        then Some (function_block (cfg_predecessors G (fn_cfg f) a) a
               (bb_size (the (get_block G (fn_cfg f) a))) (rf_get_block rf a)) else None)"
proof -
  note a = assms [unfolded raw_parts_def]
  show S: "rename_setup G (fn_cfg f) (fn_domtree f) pl" using a by blast
  show "rename_function_with_call_boundaries G (fn_cfg f) (fn_domtree f) pl vs rn cb = Some rf"
    and o: "fn_block_order f = reverse_postorder G (fn_cfg f)" and "fn_query_index f = None" using a by blast+
  show "set (fn_block_order f) = reachable_addrs G (fn_cfg f)" "distinct (fn_block_order f)"
    unfolding o using rename_setupD(3) [OF S] dom_setupD(1) [OF rename_setupD(1) [OF S]] by blast+
  show "fn_get_block f a = (if a \<in> reachable_addrs G (fn_cfg f)
        then Some (function_block (cfg_predecessors G (fn_cfg f) a) a
               (bb_size (the (get_block G (fn_cfg f) a))) (rf_get_block rf a)) else None)" using a by blast
qed

lemma raw_blocks_in_order:
  assumes "raw_parts G blocks cb f pl vs rn rf"
  shows "fn_blocks_in_order f = map (\<lambda>a. function_block (cfg_predecessors G (fn_cfg f) a) a
               (bb_size (the (get_block G (fn_cfg f) a))) (rf_get_block rf a)) (fn_block_order f)"
proof -
  have "List.map_filter g xs = map h xs" if "\<forall>x \<in> set xs. g x = Some (h x)" for g h and xs :: "u64 list"
    using that by (induction xs) (auto simp: map_filter_simps)
  note mf = this
  show ?thesis
    unfolding fn_blocks_in_order_def
  proof (rule mf, intro ballI)
    fix a assume "a \<in> set (fn_block_order f)"
    then show "hm_get (fn_blocks f) a = Some (function_block (cfg_predecessors G (fn_cfg f) a) a
               (bb_size (the (get_block G (fn_cfg f) a))) (rf_get_block rf a))"
      using raw_partsD(7) [OF assms, of a] raw_partsD(5) [OF assms] by (simp add: fn_get_block_def)
  qed
qed

text \<open>The versions a function defines, in the order of its visitor.\<close>

definition defined_versions :: "'g SSAFunction \<Rightarrow> (string \<times> u32) list" where
  "defined_versions f = map (\<lambda>(addr, v, s). ver_of v) (fn_for_each_def f)"

lemma defined_versions_blocks:
  "defined_versions f = concat (map (\<lambda>b. map ver_of (map fst (block_for_each_def b))) (fn_blocks_in_order f))"
  by (simp add: defined_versions_def fn_for_each_def_def map_concat comp_def split_beta')

definition fn_size :: "'g SSAFunction \<Rightarrow> nat" where
  "fn_size f = sum_list (map (\<lambda>b. length (fb_phis b) + length (fb_ops b)) (fn_blocks_in_order f))"

lemma length_function_block:
  "length (fb_phis (function_block preds a sz ops)) + length (fb_ops (function_block preds a sz ops)) = length ops"
proof -
  have "length (List.map_filter (phi_node preds) (filter sop_is_phi ops)) = length (filter sop_is_phi ops)"
    unfolding length_map [of pn_dst, symmetric] phi_node_dsts
  proof (induction ops)
    case (Cons op ops)
    then show ?case using sop_is_phi_node [of op "[]"] by (cases "sop_is_phi op") (auto simp: dsts_Cons)
  qed (simp add: dsts_def)
  then show ?thesis by (simp add: function_block_def sum_length_filter_compl)
qed

lemma raw_fn_size:
  assumes "raw_parts G blocks cb f pl vs rn rf"
  shows "fn_size f = (\<Sum>b \<in> reachable_addrs G (fn_cfg f). length (rf_get_block rf b))"
  unfolding fn_size_def raw_blocks_in_order [OF assms] map_map comp_def length_function_block
  using sum_list_distinct_conv_sum_set [OF raw_partsD(6) [OF assms]] raw_partsD(5) [OF assms] by simp

lemma raw_distinct:
  assumes R: "raw_parts G blocks cb f pl vs rn rf" and bound: "fn_size f < 2 ^ 32"
  shows "distinct (defined_versions f)"
proof -
  note r = raw_partsD [OF R]
  have "(\<Sum>b \<in> reachable_addrs G (fn_cfg f). length (rf_get_block rf b)) < 2 ^ 32"
    using bound raw_fn_size [OF R] by simp
  note g = renamed_good [OF r(1,2) this]
  obtain c' where "defs_within (initial_context pl vs) c' (rf_blocks rf) (reachable_addrs G (fn_cfg f))"
    using g unfolding subtrees_good_def by auto
  note w = defs_withinD [OF this, folded rf_get_block_ops_at]
  let ?b = "\<lambda>a. function_block (cfg_predecessors G (fn_cfg f) a) a
     (bb_size (the (get_block G (fn_cfg f) a))) (rf_get_block rf a)"
  have m: "mset (map ver_of (map fst (block_for_each_def (?b a)))) = mset (map ver_of (dsts (rf_get_block rf a)))" for a
    unfolding mset_map [of ver_of] function_block_defs ..
  show ?thesis
    unfolding defined_versions_blocks raw_blocks_in_order [OF R] map_map [of _ ?b] comp_def
  proof (rule distinct_concat_map [OF r(6)])
    show "distinct (map ver_of (map fst (block_for_each_def (?b a))))" if "a \<in> set (fn_block_order f)" for a
      using w(2) [of a] that m [of a] r(5) mset_eq_imp_distinct_iff by metis
    show "set (map ver_of (map fst (block_for_each_def (?b a)))) \<inter> set (map ver_of (map fst (block_for_each_def (?b a')))) = {}"
      if "a \<in> set (fn_block_order f)" "a' \<in> set (fn_block_order f)" "a \<noteq> a'" for a a'
      using w(4) [of a a'] that r(5) mset_eq_setD [OF m] by (metis set_map)
  qed
qed

lemma function_block_phi_preds:
  assumes "phi \<in> set (fb_phis (function_block preds a sz ops))"
  shows "map fst (pn_sources phi) = take (length (pn_sources phi)) preds"
proof -
  obtain op where op: "phi_node preds op = Some phi"
    using assms by (auto simp: function_block_def map_filter_def)
  then obtain d srcs where "pn_sources phi = map (\<lambda>(var, pred). (pred, var)) (zip srcs preds)"
    by (cases op) (auto simp: phi_node_def)
  then show ?thesis
    by (simp add: comp_def split_beta' map_snd_zip_take [unfolded comp_def])
qed

lemma all_defs_unique:
  assumes "distinct (defined_versions f)"
  shows "map_of (rev (all_defs f)) v = Some l \<longleftrightarrow> (v, l) \<in> set (all_defs f)"
proof -
  have e: "defined_versions f = map ver_of (map fst (all_defs f))"
    by (simp add: defined_versions_def all_defs_def comp_def split_beta')
  have "distinct (map fst (all_defs f))" using assms unfolding e distinct_map [of ver_of] by blast
  then have "distinct (map fst (rev (all_defs f)))" unfolding rev_map [symmetric] distinct_rev .
  then show ?thesis by (simp add: map_of_eq_Some_iff)
qed

section \<open>A function of one block\<close>

definition straight_blocks :: "R2ILBlock list" where
  "straight_blocks = [block_push (block_new 0x1000 4) (R2ILOp.Copy (varnode_register 8 8) (varnode_constant 1 8))]"

lemma straight_raw:
  "\<exists>f caches'. from_blocks_raw_with_policy stack_graph (\<lambda>_. 0) straight_blocks None None empty_caches = Some (Some f, caches') \<and>
     fn_size f < 2 ^ 32 \<and> fn_query_index f = None"
proof -
  have ok: "petgraph_ok stack_graph" by (rule list_petgraph_ok) simp
  have "straight_blocks \<noteq> []" by (simp add: straight_blocks_def)
  from raw_construction [OF ok this, of "\<lambda>_. 0" None None empty_caches]
  obtain f caches' pl vs rn rf where f: "from_blocks_raw_with_policy stack_graph (\<lambda>_. 0) straight_blocks None None empty_caches =
      Some (Some f, caches')" and R: "raw_parts stack_graph straight_blocks None f pl vs rn rf" by blast
  note r = raw_partsD [OF R]
  have c: "from_blocks stack_graph straight_blocks = Some (fn_cfg f)" using R by (simp add: raw_parts_def)
  note o = from_blocks_obs [OF ok c]
  have at: "block_at straight_blocks a \<noteq> None \<longleftrightarrow> a = 0x1000" for a
    by (auto simp: straight_blocks_def loop_blocks_simps)
  have no: "edge_rel stack_graph (fn_cfg f) = {}"
  proof -
    have "(a, t) \<notin> edge_rel stack_graph (fn_cfg f)" for a t
      unfolding o(4) at by (auto simp: straight_blocks_def loop_blocks_simps split: if_splits)
    then show ?thesis by auto
  qed
  have sub: "reachable_addrs stack_graph (fn_cfg f) \<subseteq> {0x1000}"
    using o(2) by (auto simp: reachable_addrs_def no straight_blocks_def loop_blocks_simps split: if_splits)
  have "cfg_predecessors stack_graph (fn_cfg f) a = []" for a
    using set_cfg_predecessors [OF ok o(1), of _ a] no by (metis empty_iff last_in_set)
  then have "phi_vars stack_graph (fn_cfg f) (fn_domtree f) rn a = {}" for a by (simp add: phi_vars_def wants_phi_def)
  then have np: "get_phis pl a = []" for a
    using phi_rows(2) [OF o(1), of "fn_domtree f" rn vs] R by (auto simp: raw_parts_def)
  have "length (rf_get_block rf x) = block_len stack_graph (fn_cfg f) x" if "x \<in> reachable_addrs stack_graph (fn_cfg f)" for x
    using rename_function_spec [OF r(1), of vs rn None] r(2) np that by (simp add: rf_get_block_ops_at)
  then have "fn_size f = (\<Sum>x \<in> reachable_addrs stack_graph (fn_cfg f). block_len stack_graph (fn_cfg f) x)"
    unfolding raw_fn_size [OF R] by simp
  also have "\<dots> \<le> (\<Sum>x \<in> {0x1000}. block_len stack_graph (fn_cfg f) x)" by (rule sum_mono2 [OF _ sub]) simp_all
  also have "\<dots> < 2 ^ 32" by (simp add: block_len_def o(3) straight_blocks_def loop_blocks_simps)
  finally show ?thesis using f r(4) by blast
qed

section \<open>Properties\<close>

text \<open>C1. The constructor of raw SSA returns on every input, with nothing just for an empty list of
  blocks. Otherwise the function has the graph of the blocks, its dominator tree and one block per
  reachable address in reverse postorder; each source of a phi stands next to its predecessor; and
  no version of a variable is defined twice in the whole function, as long as it has fewer than
  \<open>2 ^ 32\<close> operations.\<close>

theorem raw_ssa_construction:
  assumes "petgraph_ok G"
  shows "\<exists>r caches'. from_blocks_raw_with_policy G hasher blocks arch cb caches = Some (r, caches') \<and>
    (r = None \<longleftrightarrow> blocks = []) \<and>
    (\<forall>f. r = Some f \<longrightarrow>
       from_blocks G blocks = Some (fn_cfg f) \<and> dom_compute G (fn_cfg f) = Some (fn_domtree f) \<and>
       fn_block_order f = reverse_postorder G (fn_cfg f) \<and>
       (\<forall>a. fn_get_block f a \<noteq> None \<longleftrightarrow> a \<in> reachable_addrs G (fn_cfg f)) \<and>
       (\<forall>a b phi. fn_get_block f a = Some b \<longrightarrow> phi \<in> set (fb_phis b) \<longrightarrow>
          map fst (pn_sources phi) = take (length (pn_sources phi)) (cfg_predecessors G (fn_cfg f) a)) \<and>
       (fn_size f < 2 ^ 32 \<longrightarrow> distinct (defined_versions f)))"
proof (cases "blocks = []")
  case False
  obtain f pl rf where f: "from_blocks_raw_with_policy G hasher blocks arch cb caches =
      Some (Some f, snd (reg_names_of hasher arch caches))"
    and R: "raw_parts G blocks cb f pl (snd (collect_defs_from_cfg_with_names G (fn_cfg f) (fst (reg_names_of hasher arch caches))))
      (fst (reg_names_of hasher arch caches)) rf"
    using raw_construction [OF assms False] by blast
  note r = raw_partsD [OF R]
  have "from_blocks G blocks = Some (fn_cfg f)" "dom_compute G (fn_cfg f) = Some (fn_domtree f)"
    using R by (simp_all add: raw_parts_def)
  moreover have "map fst (pn_sources phi) = take (length (pn_sources phi)) (cfg_predecessors G (fn_cfg f) a)"
    if "fn_get_block f a = Some b" "phi \<in> set (fb_phis b)" for a b phi
    using that r(7) [of a] by (auto split: if_splits intro: function_block_phi_preds)
  ultimately show ?thesis using f r(3,7) raw_distinct [OF R] False by simp
qed (simp add: from_blocks_raw_with_policy_def)

theorem raw_ssa_construction_witness:
  "\<exists>f caches'. from_blocks_raw_with_policy stack_graph (\<lambda>_. 0) diamond_blocks None None empty_caches = Some (Some f, caches') \<and>
     from_blocks stack_graph diamond_blocks = Some (fn_cfg f)"
proof -
  have ok: "petgraph_ok stack_graph" by (rule list_petgraph_ok) simp
  have "diamond_blocks \<noteq> []" by (simp add: diamond_blocks_def)
  with raw_ssa_construction [OF ok, of "\<lambda>_. 0" diamond_blocks None None empty_caches] show ?thesis by auto
qed

text \<open>C19. Definitions are found: in a raw SSA function \<open>find_def\<close> answers a location just when the
  visitor of definitions meets the variable there, so the answer is the only definition.\<close>

theorem raw_find_def:
  assumes "petgraph_ok G"
    and "from_blocks_raw_with_policy G hasher blocks arch cb caches = Some (Some f, caches')" "fn_size f < 2 ^ 32"
  shows "fst (find_def v f) = Some (addr, loc) \<longleftrightarrow>
    (\<exists>site. (addr, v, site) \<in> set (fn_for_each_def f) \<and> loc = def_location site)"
proof -
  have "blocks \<noteq> []" using assms(2) by (auto simp: from_blocks_raw_with_policy_def)
  from raw_construction [OF assms(1) this, of hasher arch cb caches] assms(2)
  obtain pl vs rn rf where R: "raw_parts G blocks cb f pl vs rn rf" by auto
  have "index_ok f" using raw_partsD(4) [OF R] by (simp add: index_ok_def)
  then show ?thesis
    unfolding find_def_index_ok [OF \<open>index_ok f\<close>] all_defs_unique [OF raw_distinct [OF R assms(3)]]
    by (force simp: all_defs_def)
qed

theorem raw_find_def_witness:
  "\<exists>f caches'. from_blocks_raw_with_policy stack_graph (\<lambda>_. 0) straight_blocks None None empty_caches = Some (Some f, caches') \<and>
     fn_size f < 2 ^ 32 \<and>
     (fst (find_def (ssa_new ''reg:8'' 1 8) f) = Some (0x1000, DefOp 0) \<longleftrightarrow>
        (\<exists>site. (0x1000, ssa_new ''reg:8'' 1 8, site) \<in> set (fn_for_each_def f) \<and> DefOp 0 = def_location site))"
proof -
  have ok: "petgraph_ok stack_graph" by (rule list_petgraph_ok) simp
  obtain f caches' where f: "from_blocks_raw_with_policy stack_graph (\<lambda>_. 0) straight_blocks None None empty_caches =
      Some (Some f, caches')" "fn_size f < 2 ^ 32" using straight_raw by blast
  from raw_find_def [OF ok f, of "ssa_new ''reg:8'' 1 8" "0x1000" "DefOp 0"] f show ?thesis by blast
qed

text \<open>C20. Queries are never stale: however a function has been queried, changed, refreshed or copied
  since its construction, \<open>find_def\<close> and \<open>find_uses\<close> answer from the blocks as they are now, the
  last definition and all uses in the order of the visitors.\<close>

theorem queries_current:
  assumes "(uses_function G)\<^sup>*\<^sup>* f f'" "fn_query_index f = None"
  shows "fst (find_def v f') = map_of (rev (map (\<lambda>(addr, u, s). (u, addr, def_location s)) (fn_for_each_def f'))) v \<and>
    fst (find_uses v f') =
      map (\<lambda>(addr, u, s). (addr, use_location s)) (filter (\<lambda>(addr, u, s). u = v) (fn_for_each_source f'))"
  unfolding find_def_index_ok [OF index_ok_run [OF assms]] find_uses_index_ok [OF index_ok_run [OF assms]]
    all_defs_def all_uses_def
  by (simp add: filter_map comp_def split_beta')

theorem queries_current_witness:
  "\<exists>f caches'. from_blocks_raw_with_policy stack_graph (\<lambda>_. 0) straight_blocks None None empty_caches = Some (Some f, caches') \<and>
     (let v = ssa_new ''reg:8'' 1 8; f' = get_block_mut 0x1000 (\<lambda>b. b\<lparr>fb_ops := []\<rparr>) (snd (find_def v f))
      in fst (find_def v f') = map_of (rev (map (\<lambda>(addr, u, s). (u, addr, def_location s)) (fn_for_each_def f'))) v)"
proof -
  obtain f caches' where f: "from_blocks_raw_with_policy stack_graph (\<lambda>_. 0) straight_blocks None None empty_caches =
      Some (Some f, caches')" "fn_query_index f = None" using straight_raw by blast
  let ?v = "ssa_new ''reg:8'' 1 8"
  have "(uses_function stack_graph)\<^sup>*\<^sup>* f (get_block_mut 0x1000 (\<lambda>b. b\<lparr>fb_ops := []\<rparr>) (snd (find_def ?v f)))"
    using uses_function.use_find_def [of stack_graph f ?v] uses_function.use_block
    by (meson converse_rtranclp_into_rtranclp r_into_rtranclp)
  from queries_current [OF this f(2), of ?v] f(1) show ?thesis by (auto simp: Let_def)
qed

end
