(* ===== verification/SSA_Fold.thy ===== *)
theory SSA_Fold
  imports SSA_Op "HOL-Library.Signed_Division"
begin

text \<open>
  Constants in \<open>r2ssa/src/optimize.rs\<close>: reading a constant off a variable name, the masks and sign
  extension, folding of one operation (\<open>eval_const_op\<close>) and the local rewriting of one operation
  (\<open>simplify_op\<close>).

  Arithmetic is that of a release build: shift counts are taken modulo 64. Signed division of
  \<open>i64\<close> panics on a zero divisor and on \<open>i64::MIN / -1\<close>; an outer \<open>None\<close> is that panic, an inner
  \<open>None\<close> the \<open>None\<close> of the source. A \<open>VarKey\<close> has the fields of a variable and its order.
\<close>

unbundle bit_operations_syntax

type_synonym VarKey = SSAVar
type_synonym const_map = "(VarKey, u64) hashmap"

section \<open>Machine arithmetic\<close>

definition i64_div :: "i64 \<Rightarrow> i64 \<Rightarrow> i64 option" where
  "i64_div a b =
     (if b = 0 \<or> sint a = - (2 ^ 63) \<and> b = - 1 then None else Some (word_of_int (sint a sdiv sint b)))"

definition i64_rem :: "i64 \<Rightarrow> i64 \<Rightarrow> i64 option" where
  "i64_rem a b =
     (if b = 0 \<or> sint a = - (2 ^ 63) \<and> b = - 1 then None else Some (word_of_int (sint a smod sint b)))"

text \<open>A shift by \<open>n as u32\<close>: only the low six bits of the count matter.\<close>

definition shift_count :: "u64 \<Rightarrow> nat" where
  "shift_count n = unat n mod 64"

definition u64_shl :: "u64 \<Rightarrow> u64 \<Rightarrow> u64" where
  "u64_shl a n = push_bit (shift_count n) a"

definition u64_shr :: "u64 \<Rightarrow> u64 \<Rightarrow> u64" where
  "u64_shr a n = drop_bit (shift_count n) a"

definition i64_shr :: "i64 \<Rightarrow> u64 \<Rightarrow> i64" where
  "i64_shr a n = signed_drop_bit (shift_count n) a"

definition count_ones :: "u64 \<Rightarrow> nat" where
  "count_ones v = length (filter (bit v) [0..<64])"

definition leading_zeros :: "u64 \<Rightarrow> nat" where
  "leading_zeros v = length (takeWhile (\<lambda>n. \<not> bit v n) (rev [0..<64]))"

definition u64_of_bool :: "bool \<Rightarrow> u64" where
  "u64_of_bool b = (if b then 1 else 0)"

section \<open>Constants\<close>

text \<open>\<open>str::parse::<u64>\<close> is \<open>from_str_radix\<close> with radix ten.\<close>

definition const_value :: "SSAVar \<Rightarrow> u64 option" where
  "const_value var =
     (if \<not> ssa_is_const var then None
      else case strip_prefix ''const:'' (sv_name var) of
        None \<Rightarrow> None
      | Some val_str \<Rightarrow>
          (case (case strip_prefix ''0x'' val_str of Some h \<Rightarrow> Some h | None \<Rightarrow> strip_prefix ''0X'' val_str) of
             Some hex \<Rightarrow> u64_from_str_radix 16 hex
           | None \<Rightarrow>
               (case u64_from_str_radix 16 val_str of
                  Some v \<Rightarrow> Some v
                | None \<Rightarrow> u64_from_str_radix 10 val_str)))"

definition mask_for_bits :: "u32 \<Rightarrow> u64" where
  "mask_for_bits bits =
     (if bits \<ge> 64 then - 1 else if bits = 0 then 0 else push_bit (unat bits) 1 - 1)"

definition sign_extend :: "u64 \<Rightarrow> u32 \<Rightarrow> i64" where
  "sign_extend v bits =
     (if bits = 0 then 0
      else if bits \<ge> 64 then v
      else let shift = 64 - unat bits in signed_drop_bit shift (push_bit shift v))"

definition const_for_var :: "SSAVar \<Rightarrow> const_map \<Rightarrow> u64 option" where
  "const_for_var var consts =
     (case const_value var of Some v \<Rightarrow> Some v | None \<Rightarrow> hm_get consts var)"

section \<open>Folding an operation\<close>

text \<open>The closures \<open>unary\<close> and \<open>binary\<close> with their question marks, followed by the rest of the arm.\<close>

definition with_const :: "'a option \<Rightarrow> ('a \<Rightarrow> 'b option option) \<Rightarrow> 'b option option" where
  "with_const x k = (case x of None \<Rightarrow> Some None | Some v \<Rightarrow> k v)"

abbreviation folded :: "'a \<Rightarrow> 'a option option" where
  "folded v \<equiv> Some (Some v)"

text \<open>The value of the match, before the final mask; \<open>get\<close> is \<open>const_for_var\<close> on the known constants.\<close>

definition fold_value :: "(SSAVar \<Rightarrow> u64 option) \<Rightarrow> u32 \<Rightarrow> SSAOp \<Rightarrow> u64 option option" where
  "fold_value get bits op =
     (let unary = (\<lambda>src k. with_const (get src) k);
          binary = (\<lambda>a b k. with_const (get a) (\<lambda>x. with_const (get b) (k x)));
          mask = mask_for_bits bits
      in case op of
        Copy _ src \<Rightarrow> unary src folded
      | IntNegate _ src \<Rightarrow> unary src (\<lambda>v. folded (NOT v + 1))
      | IntNot _ src \<Rightarrow> unary src (\<lambda>v. folded (NOT v))
      | BoolNot _ src \<Rightarrow> unary src (\<lambda>v. folded (u64_of_bool (v = 0)))
      | IntZExt _ src \<Rightarrow> unary src folded
      | IntSExt _ src \<Rightarrow> unary src (\<lambda>v. folded (sign_extend v (u32_saturating_mul (sv_size src) 8)))
      | Trunc _ src \<Rightarrow> unary src (\<lambda>v. folded (v AND mask_for_bits bits))
      | IntAdd _ a b \<Rightarrow> binary a b (\<lambda>x y. folded (x + y))
      | IntSub _ a b \<Rightarrow> binary a b (\<lambda>x y. folded (x - y))
      | IntMult _ a b \<Rightarrow> binary a b (\<lambda>x y. folded (x * y))
      | IntDiv _ a b \<Rightarrow> binary a b (\<lambda>x y. if y = 0 then Some None else folded (x div y))
      | IntSDiv _ a b \<Rightarrow> binary a b (\<lambda>x y.
          if y = 0 then Some None else map_option Some (i64_div (sign_extend x bits) (sign_extend y bits)))
      | IntRem _ a b \<Rightarrow> binary a b (\<lambda>x y. if y = 0 then Some None else folded (x mod y))
      | IntSRem _ a b \<Rightarrow> binary a b (\<lambda>x y.
          if y = 0 then Some None else map_option Some (i64_rem (sign_extend x bits) (sign_extend y bits)))
      | IntAnd _ a b \<Rightarrow> binary a b (\<lambda>x y. folded (x AND y))
      | IntOr _ a b \<Rightarrow> binary a b (\<lambda>x y. folded (x OR y))
      | IntXor _ a b \<Rightarrow> binary a b (\<lambda>x y. folded (x XOR y))
      | IntLeft _ a b \<Rightarrow> binary a b (\<lambda>x y. if y \<ge> u32_to_u64 bits then Some None else folded (u64_shl x y))
      | IntRight _ a b \<Rightarrow> binary a b (\<lambda>x y. if y \<ge> u32_to_u64 bits then Some None else folded (u64_shr x y))
      | IntSRight _ a b \<Rightarrow> binary a b (\<lambda>x y.
          if y \<ge> u32_to_u64 bits then Some None else folded (i64_shr (sign_extend x bits) y))
      | IntEqual _ a b \<Rightarrow> binary a b (\<lambda>x y. folded (u64_of_bool (x = y)))
      | IntNotEqual _ a b \<Rightarrow> binary a b (\<lambda>x y. folded (u64_of_bool (x \<noteq> y)))
      | IntLess _ a b \<Rightarrow> binary a b (\<lambda>x y. folded (u64_of_bool (x < y)))
      | IntLessEqual _ a b \<Rightarrow> binary a b (\<lambda>x y. folded (u64_of_bool (x \<le> y)))
      | IntSLess _ a b \<Rightarrow> binary a b (\<lambda>x y.
          folded (u64_of_bool (sint (sign_extend x bits) < sint (sign_extend y bits))))
      | IntSLessEqual _ a b \<Rightarrow> binary a b (\<lambda>x y.
          folded (u64_of_bool (sint (sign_extend x bits) \<le> sint (sign_extend y bits))))
      | BoolAnd _ a b \<Rightarrow> binary a b (\<lambda>x y. folded (u64_of_bool (x \<noteq> 0 \<and> y \<noteq> 0)))
      | BoolOr _ a b \<Rightarrow> binary a b (\<lambda>x y. folded (u64_of_bool (x \<noteq> 0 \<or> y \<noteq> 0)))
      | BoolXor _ a b \<Rightarrow> binary a b (\<lambda>x y. folded (u64_of_bool ((x \<noteq> 0) \<noteq> (y \<noteq> 0))))
      | Piece _ hi lo \<Rightarrow> binary hi lo (\<lambda>h l.
          let lo_bits = u32_saturating_mul (sv_size lo) 8
          in if lo_bits \<ge> 64 then Some None
             else folded (push_bit (unat lo_bits) h OR (l AND mask_for_bits lo_bits)))
      | Subpiece _ src offset \<Rightarrow> unary src (\<lambda>v.
          let shift = u32_saturating_mul offset 8
          in if shift \<ge> 64 then Some None else folded (drop_bit (unat shift) v))
      | PopCount _ src \<Rightarrow> unary src (\<lambda>v. folded (of_nat (count_ones (v AND mask))))
      | Lzcount _ src \<Rightarrow> unary src (\<lambda>v.
          let val = v AND mask; width = min (unat bits) 64
          in if width = 0 then folded 0 else folded (of_nat (leading_zeros val - (64 - width))))
      | PtrAdd _ base index element_size \<Rightarrow> binary base index (\<lambda>x y. folded (x + y * u32_to_u64 element_size))
      | PtrSub _ base index element_size \<Rightarrow> binary base index (\<lambda>x y. folded (x - y * u32_to_u64 element_size))
      | _ \<Rightarrow> Some None)"

definition eval_const_op :: "SSAOp \<Rightarrow> const_map \<Rightarrow> u64 option option" where
  "eval_const_op op consts =
     (case sop_dst op of
        None \<Rightarrow> Some None
      | Some dst \<Rightarrow>
          let bits = u32_saturating_mul (sv_size dst) 8
          in map_option (map_option (\<lambda>v. v AND mask_for_bits bits))
               (fold_value (\<lambda>v. const_for_var v consts) bits op))"

section \<open>Rewriting an operation\<close>

text \<open>The closures \<open>make_const\<close> and \<open>make_copy\<close>.\<close>

definition make_const :: "SSAVar \<Rightarrow> u64 \<Rightarrow> SSAOp" where
  "make_const dst v =
     Copy dst (ssa_constant (v AND mask_for_bits (u32_saturating_mul (sv_size dst) 8)) (sv_size dst))"

definition make_copy :: "SSAVar \<Rightarrow> SSAVar \<Rightarrow> SSAOp" where
  "make_copy dst src = Copy dst src"

text \<open>The last arms of a match on the two constants: both known, or \<open>return None\<close>.\<close>

definition both_const :: "SSAVar \<Rightarrow> SSAVar \<Rightarrow> (u64 \<Rightarrow> u64 \<Rightarrow> SSAOp option option) \<Rightarrow> SSAOp option option" where
  "both_const a b k = with_const (const_value a) (\<lambda>x. with_const (const_value b) (k x))"

definition simplify_arith :: "SSAOp \<Rightarrow> SSAVar \<Rightarrow> SSAOp option option" where
  "simplify_arith op dst =
     (let bits = u32_saturating_mul (sv_size dst) 8; mask = mask_for_bits bits
      in case op of
        IntAdd _ a b \<Rightarrow>
          (if const_value a = Some 0 then folded (make_copy dst b)
           else if const_value b = Some 0 then folded (make_copy dst a)
           else both_const a b (\<lambda>x y. folded (make_const dst (x + y))))
      | IntSub _ a b \<Rightarrow>
          (if const_value b = Some 0 then folded (make_copy dst a)
           else if a = b then folded (make_const dst 0)
           else both_const a b (\<lambda>x y. folded (make_const dst (x - y))))
      | IntMult _ a b \<Rightarrow>
          (if const_value a = Some 0 \<or> const_value b = Some 0 then folded (make_const dst 0)
           else if const_value a = Some 1 then folded (make_copy dst b)
           else if const_value b = Some 1 then folded (make_copy dst a)
           else both_const a b (\<lambda>x y. folded (make_const dst (x * y))))
      | IntDiv _ a b \<Rightarrow>
          (if const_value b = Some 1 then folded (make_copy dst a)
           else both_const a b (\<lambda>x y. if y = 0 then Some None else folded (make_const dst (x div y))))
      | IntSDiv _ a b \<Rightarrow>
          (if const_value b = Some 1 then folded (make_copy dst a)
           else both_const a b (\<lambda>x y. if y = 0 then Some None
                  else map_option (\<lambda>r. Some (make_const dst r)) (i64_div (sign_extend x bits) (sign_extend y bits))))
      | IntRem _ a b \<Rightarrow>
          both_const a b (\<lambda>x y. if y = 0 then Some None else folded (make_const dst (x mod y)))
      | IntSRem _ a b \<Rightarrow>
          both_const a b (\<lambda>x y. if y = 0 then Some None
            else map_option (\<lambda>r. Some (make_const dst r)) (i64_rem (sign_extend x bits) (sign_extend y bits)))
      | IntNegate _ src \<Rightarrow> with_const (const_value src) (\<lambda>v. folded (make_const dst (NOT v + 1)))
      | IntAnd _ a b \<Rightarrow>
          (if const_value a = Some 0 \<or> const_value b = Some 0 then folded (make_const dst 0)
           else case (const_value a, const_value b) of
             (Some x, Some y) \<Rightarrow> folded (make_const dst (x AND y))
           | (Some x, None) \<Rightarrow> if x = mask then folded (make_copy dst b) else Some None
           | (None, Some y) \<Rightarrow> if y = mask then folded (make_copy dst a) else Some None
           | (None, None) \<Rightarrow> Some None)
      | IntOr _ a b \<Rightarrow>
          (if const_value a = Some 0 then folded (make_copy dst b)
           else if const_value b = Some 0 then folded (make_copy dst a)
           else both_const a b (\<lambda>x y. folded (make_const dst (x OR y))))
      | IntXor _ a b \<Rightarrow>
          (if const_value a = Some 0 then folded (make_copy dst b)
           else if const_value b = Some 0 then folded (make_copy dst a)
           else case (const_value a, const_value b) of
             (Some x, Some y) \<Rightarrow> folded (make_const dst (x XOR y))
           | _ \<Rightarrow> if a = b then folded (make_const dst 0) else Some None)
      | IntNot _ src \<Rightarrow> with_const (const_value src) (\<lambda>v. folded (make_const dst (NOT v)))
      | _ \<Rightarrow> Some None)"

text \<open>The arm of the three shifts; \<open>res\<close> is the inner match on the operation.\<close>

definition simplify_shift :: "SSAVar \<Rightarrow> SSAVar \<Rightarrow> SSAVar \<Rightarrow> (u64 \<Rightarrow> u64 \<Rightarrow> u64) \<Rightarrow> SSAOp option option" where
  "simplify_shift dst a b res =
     (let bits = u32_saturating_mul (sv_size dst) 8
      in case (const_value a, const_value b) of
           (Some x, Some y) \<Rightarrow>
             if y \<ge> u32_to_u64 bits then Some None else folded (make_const dst (res x y))
         | (None, Some y) \<Rightarrow> if y = 0 then folded (make_copy dst a) else Some None
         | _ \<Rightarrow> Some None)"

text \<open>The arm of the six comparisons.\<close>

definition simplify_compare ::
  "SSAVar \<Rightarrow> SSAVar \<Rightarrow> SSAVar \<Rightarrow> bool \<Rightarrow> (u64 \<Rightarrow> u64 \<Rightarrow> bool) \<Rightarrow> SSAOp option option" where
  "simplify_compare dst a b on_same result =
     (if a = b then folded (make_const dst (u64_of_bool on_same))
      else both_const a b (\<lambda>x y. folded (make_const dst (u64_of_bool (result x y)))))"

text \<open>The arm of the three Boolean connectives.\<close>

definition simplify_bool :: "SSAOp \<Rightarrow> SSAVar \<Rightarrow> SSAOp option option" where
  "simplify_bool op dst =
     (case op of
        BoolAnd _ a b \<Rightarrow>
          (case (const_value a, const_value b) of
             (Some x, Some y) \<Rightarrow> folded (make_const dst (u64_of_bool (x \<noteq> 0 \<and> y \<noteq> 0)))
           | (Some x, None) \<Rightarrow> if x = 0 then folded (make_const dst 0) else Some None
           | (None, Some y) \<Rightarrow> if y = 0 then folded (make_const dst 0) else Some None
           | (None, None) \<Rightarrow> Some None)
      | BoolOr _ a b \<Rightarrow>
          (case (const_value a, const_value b) of
             (Some x, Some y) \<Rightarrow> folded (make_const dst (u64_of_bool (x \<noteq> 0 \<or> y \<noteq> 0)))
           | (Some x, None) \<Rightarrow> if x = 1 then folded (make_const dst 1) else Some None
           | (None, Some y) \<Rightarrow> if y = 1 then folded (make_const dst 1) else Some None
           | (None, None) \<Rightarrow> Some None)
      | BoolXor _ a b \<Rightarrow>
          both_const a b (\<lambda>x y. folded (make_const dst (u64_of_bool ((x \<noteq> 0) \<noteq> (y \<noteq> 0)))))
      | _ \<Rightarrow> Some None)"

definition simplify_op :: "SSAOp \<Rightarrow> SSAOp option option" where
  "simplify_op op =
     (case sop_dst op of
        None \<Rightarrow> Some None
      | Some dst \<Rightarrow>
          let bits = u32_saturating_mul (sv_size dst) 8
          in case op of
            Copy _ _ \<Rightarrow> Some None
          | IntLeft _ a b \<Rightarrow> simplify_shift dst a b u64_shl
          | IntRight _ a b \<Rightarrow> simplify_shift dst a b u64_shr
          | IntSRight _ a b \<Rightarrow> simplify_shift dst a b (\<lambda>x y. i64_shr (sign_extend x bits) y)
          | IntEqual _ a b \<Rightarrow> simplify_compare dst a b True (=)
          | IntNotEqual _ a b \<Rightarrow> simplify_compare dst a b False (\<noteq>)
          | IntLess _ a b \<Rightarrow> simplify_compare dst a b False (<)
          | IntLessEqual _ a b \<Rightarrow> simplify_compare dst a b True (\<le>)
          | IntSLess _ a b \<Rightarrow>
              simplify_compare dst a b False (\<lambda>x y. sint (sign_extend x bits) < sint (sign_extend y bits))
          | IntSLessEqual _ a b \<Rightarrow>
              simplify_compare dst a b True (\<lambda>x y. sint (sign_extend x bits) \<le> sint (sign_extend y bits))
          | BoolNot _ src \<Rightarrow> with_const (const_value src) (\<lambda>v. folded (make_const dst (u64_of_bool (v = 0))))
          | BoolAnd _ _ _ \<Rightarrow> simplify_bool op dst
          | BoolOr _ _ _ \<Rightarrow> simplify_bool op dst
          | BoolXor _ _ _ \<Rightarrow> simplify_bool op dst
          | IntZExt _ src \<Rightarrow>
              (case const_value src of
                 Some v \<Rightarrow> folded (make_const dst v)
               | None \<Rightarrow> if sv_size src = sv_size dst then folded (make_copy dst src) else Some None)
          | IntSExt _ src \<Rightarrow>
              (case const_value src of
                 Some v \<Rightarrow> folded (make_const dst (sign_extend v (u32_saturating_mul (sv_size src) 8)))
               | None \<Rightarrow> if sv_size src = sv_size dst then folded (make_copy dst src) else Some None)
          | Trunc _ src \<Rightarrow> with_const (const_value src) (\<lambda>v. folded (make_const dst (v AND mask_for_bits bits)))
          | Piece _ hi lo \<Rightarrow>
              both_const hi lo (\<lambda>h l.
                let lo_bits = u32_saturating_mul (sv_size lo) 8
                in if lo_bits \<ge> 64 then Some None
                   else folded (make_const dst (push_bit (unat lo_bits) h OR (l AND mask_for_bits lo_bits))))
          | Subpiece _ src offset \<Rightarrow>
              with_const (const_value src) (\<lambda>v.
                let shift = u32_saturating_mul offset 8
                in if shift \<ge> 64 then Some None else folded (make_const dst (drop_bit (unat shift) v)))
          | PtrAdd _ base index element_size \<Rightarrow>
              both_const base index (\<lambda>x y. folded (make_const dst (x + y * u32_to_u64 element_size)))
          | PtrSub _ base index element_size \<Rightarrow>
              both_const base index (\<lambda>x y. folded (make_const dst (x - y * u32_to_u64 element_size)))
          | _ \<Rightarrow> simplify_arith op dst)"

definition count_source_replacements :: "SSAOp \<Rightarrow> SSAOp \<Rightarrow> nat" where
  "count_source_replacements before after =
     length (filter (\<lambda>(a, b). a \<noteq> b) (zip (sop_sources before) (sop_sources after)))"

end
