(* ===== verification/SSA_Sccp.thy ===== *)
theory SSA_Sccp
  imports SSA_Fold SSA_Function
begin

text \<open>
  Sparse conditional constant propagation: the analysis of \<open>r2ssa/src/optimize.rs\<close>.

  The three nested loops of \<open>sccp\<close> are partial functions into \<open>option\<close>; \<open>None\<close> also stands for the
  panic of a folded signed division.
\<close>

section \<open>The constant lattice\<close>

datatype LatticeValue = LTop | LConst u64 | LBottom

fun lv_meet :: "LatticeValue \<Rightarrow> LatticeValue \<Rightarrow> LatticeValue" where
  "lv_meet LTop x = x"
| "lv_meet x LTop = x"
| "lv_meet LBottom _ = LBottom"
| "lv_meet _ LBottom = LBottom"
| "lv_meet (LConst a) (LConst b) = (if a = b then LConst a else LBottom)"

type_synonym lattice_map = "(VarKey, LatticeValue) hashmap"

definition lat_of :: "lattice_map \<Rightarrow> VarKey \<Rightarrow> LatticeValue" where
  "lat_of lattice key = (case hm_get lattice key of Some v \<Rightarrow> v | None \<Rightarrow> LTop)"

definition get_lattice_value :: "SSAVar \<Rightarrow> lattice_map \<Rightarrow> LatticeValue" where
  "get_lattice_value var lattice =
     (case const_value var of Some c \<Rightarrow> LConst c | None \<Rightarrow> lat_of lattice var)"

definition init_if_input :: "lattice_map \<Rightarrow> SSAVar \<Rightarrow> lattice_map" where
  "init_if_input lattice var =
     (if sv_version var = 0 \<and> \<not> ssa_is_const var
      then case hm_get lattice var of Some _ \<Rightarrow> lattice | None \<Rightarrow> hm_insert var LBottom lattice
      else lattice)"

definition update_lattice :: "lattice_map \<Rightarrow> SSAVar \<Rightarrow> LatticeValue \<Rightarrow> lattice_map \<times> bool" where
  "update_lattice lattice var new_val =
     (let old_val = lat_of lattice var; merged = lv_meet old_val new_val
      in if merged \<noteq> old_val then (hm_insert var merged lattice, True) else (lattice, False))"

section \<open>Evaluation\<close>

datatype SccpUse = SccpUsePhi u64 nat | SccpUseOp u64 nat

definition build_use_map :: "'g SSAFunction \<Rightarrow> (VarKey, SccpUse list) hashmap" where
  "build_use_map f =
     foldl (\<lambda>uses (addr, var, site).
         let use_loc = (case site of
               SourcePhi phi_idx _ _ \<Rightarrow> SccpUsePhi addr phi_idx
             | SourceOp op_idx _ \<Rightarrow> SccpUseOp addr op_idx)
         in hm_insert var (get_names uses var @ [use_loc]) uses)
       [] (fn_for_each_source f)"

text \<open>The loop over the sources: \<open>None\<close> for the early \<open>return LatticeValue::Bottom\<close>.\<close>

fun gather_sources :: "lattice_map \<Rightarrow> SSAVar list \<Rightarrow> bool \<Rightarrow> const_map \<Rightarrow> (bool \<times> const_map) option" where
  "gather_sources lattice [] has_top consts = Some (has_top, consts)"
| "gather_sources lattice (src # srcs) has_top consts =
     (case get_lattice_value src lattice of
        LBottom \<Rightarrow> None
      | LTop \<Rightarrow> gather_sources lattice srcs True consts
      | LConst c \<Rightarrow> gather_sources lattice srcs has_top (hm_insert src c consts))"

definition sccp_opaque :: "SSAOp \<Rightarrow> bool" where
  "sccp_opaque op =
     (case op of
        Load _ _ _ \<Rightarrow> True
      | Store _ _ _ \<Rightarrow> True
      | Call _ \<Rightarrow> True
      | CallInd _ \<Rightarrow> True
      | CallOther _ _ _ \<Rightarrow> True
      | CpuId _ \<Rightarrow> True
      | New _ _ \<Rightarrow> True
      | _ \<Rightarrow> False)"

definition evaluate_op_sccp :: "SSAOp \<Rightarrow> lattice_map \<Rightarrow> LatticeValue option" where
  "evaluate_op_sccp op lattice =
     (if sccp_opaque op then Some LBottom
      else case gather_sources lattice (sop_sources op) False [] of
        None \<Rightarrow> Some LBottom
      | Some (has_top, temp_consts) \<Rightarrow>
          if has_top then Some LTop
          else map_option (\<lambda>r. case r of Some c \<Rightarrow> LConst c | None \<Rightarrow> LBottom) (eval_const_op op temp_consts))"

definition evaluate_phi_sccp :: "PhiNode \<Rightarrow> (u64 \<times> u64) set \<Rightarrow> lattice_map \<Rightarrow> u64 \<Rightarrow> LatticeValue" where
  "evaluate_phi_sccp phi executable lattice block_addr =
     foldl (\<lambda>val (pred_addr, src).
         if (pred_addr, block_addr) \<notin> executable then val else lv_meet val (get_lattice_value src lattice))
       LTop (pn_sources phi)"

text \<open>The condition of the last conditional branch of a block.\<close>

definition cbranch_cond :: "SSAOp \<Rightarrow> SSAVar option" where
  "cbranch_cond op = (case op of CBranch _ cond \<Rightarrow> Some cond | _ \<Rightarrow> None)"

definition last_cbranch :: "SSAOp list \<Rightarrow> SSAVar option" where
  "last_cbranch ops = (case List.map_filter cbranch_cond (rev ops) of [] \<Rightarrow> None | c # _ \<Rightarrow> Some c)"

definition find_cbranch_condition :: "'g SSAFunction \<Rightarrow> u64 \<Rightarrow> lattice_map \<Rightarrow> LatticeValue" where
  "find_cbranch_condition f block_addr lattice =
     (case fn_get_block f block_addr of
        None \<Rightarrow> LBottom
      | Some block \<Rightarrow>
          (case last_cbranch (fb_ops block) of
             Some cond \<Rightarrow> get_lattice_value cond lattice
           | None \<Rightarrow> LBottom))"

text \<open>The edges \<open>evaluate_terminator_sccp\<close> appends to the worklist.\<close>

definition evaluate_terminator_sccp :: "'g petgraph \<Rightarrow> 'g SSAFunction \<Rightarrow> u64 \<Rightarrow> lattice_map \<Rightarrow> (u64 \<times> u64) list" where
  "evaluate_terminator_sccp G f block_addr lattice =
     (case get_block G (fn_cfg f) block_addr of
        None \<Rightarrow> []
      | Some cfg_block \<Rightarrow>
          (case bb_terminator cfg_block of
             TermConditionalBranch true_target false_target \<Rightarrow>
               (case find_cbranch_condition f block_addr lattice of
                  LConst c \<Rightarrow> if c = 0 then [(block_addr, false_target)] else [(block_addr, true_target)]
                | _ \<Rightarrow> [(block_addr, true_target), (block_addr, false_target)])
           | _ \<Rightarrow> map (Pair block_addr) (cfg_successors G (fn_cfg f) block_addr)))"

section \<open>The analysis\<close>

record sccp_state =
  sc_lattice :: lattice_map
  sc_executable :: "(u64 \<times> u64) set"
  sc_visited :: "u64 set"
  sc_cfg :: "(u64 \<times> u64) list"
  sc_ssa :: "VarKey list"

text \<open>\<open>if update_lattice(..) { ssa_worklist.push_back(..) }\<close>\<close>

definition sccp_assign :: "sccp_state \<Rightarrow> SSAVar \<Rightarrow> LatticeValue \<Rightarrow> sccp_state" where
  "sccp_assign s dst new_val =
     (let (lattice, changed) = update_lattice (sc_lattice s) dst new_val
      in s\<lparr>sc_lattice := lattice, sc_ssa := sc_ssa s @ (if changed then [dst] else [])\<rparr>)"

definition sccp_phi :: "u64 \<Rightarrow> sccp_state \<Rightarrow> PhiNode \<Rightarrow> sccp_state" where
  "sccp_phi addr s phi =
     sccp_assign s (pn_dst phi) (evaluate_phi_sccp phi (sc_executable s) (sc_lattice s) addr)"

definition sccp_op :: "SSAOp \<Rightarrow> sccp_state \<Rightarrow> sccp_state option" where
  "sccp_op op s =
     (case sop_dst op of
        None \<Rightarrow> Some s
      | Some dst \<Rightarrow> map_option (sccp_assign s dst) (evaluate_op_sccp op (sc_lattice s)))"

fun sccp_ops :: "SSAOp list \<Rightarrow> sccp_state \<Rightarrow> sccp_state option" where
  "sccp_ops [] s = Some s"
| "sccp_ops (op # ops) s = Option.bind (sccp_op op s) (sccp_ops ops)"

definition sccp_terminator :: "'g petgraph \<Rightarrow> 'g SSAFunction \<Rightarrow> u64 \<Rightarrow> sccp_state \<Rightarrow> sccp_state" where
  "sccp_terminator G f addr s =
     s\<lparr>sc_cfg := sc_cfg s @ evaluate_terminator_sccp G f addr (sc_lattice s)\<rparr>"

text \<open>One round of the loop over the control flow worklist, after \<open>pop_front\<close>.\<close>

definition cfg_step :: "'g petgraph \<Rightarrow> 'g SSAFunction \<Rightarrow> u64 \<times> u64 \<Rightarrow> sccp_state \<Rightarrow> sccp_state option" where
  "cfg_step G f edge s =
     (if edge \<in> sc_executable s then Some s
      else
        let to = snd edge; s1 = s\<lparr>sc_executable := insert edge (sc_executable s)\<rparr>
        in case fn_get_block f to of
             None \<Rightarrow> Some s1
           | Some block \<Rightarrow>
               let s2 = foldl (sccp_phi to) s1 (fb_phis block)
               in if to \<in> sc_visited s2 then Some s2
                  else map_option (sccp_terminator G f to)
                         (sccp_ops (fb_ops block) (s2\<lparr>sc_visited := insert to (sc_visited s2)\<rparr>)))"

partial_function (option) cfg_loop :: "'g petgraph \<Rightarrow> 'g SSAFunction \<Rightarrow> sccp_state \<Rightarrow> sccp_state option" where
  "cfg_loop G f s =
     (case sc_cfg s of
        [] \<Rightarrow> Some s
      | edge # rest \<Rightarrow> Option.bind (cfg_step G f edge (s\<lparr>sc_cfg := rest\<rparr>)) (cfg_loop G f))"

text \<open>One use of a variable whose value changed.\<close>

definition use_step :: "'g petgraph \<Rightarrow> 'g SSAFunction \<Rightarrow> SccpUse \<Rightarrow> sccp_state \<Rightarrow> sccp_state option" where
  "use_step G f use_loc s =
     (case use_loc of
        SccpUsePhi addr phi_idx \<Rightarrow>
          Some (if addr \<notin> sc_visited s then s
                else case fn_get_block f addr of
                  None \<Rightarrow> s
                | Some block \<Rightarrow> if phi_idx < length (fb_phis block) then sccp_phi addr s (fb_phis block ! phi_idx) else s)
      | SccpUseOp addr op_idx \<Rightarrow>
          (if addr \<notin> sc_visited s then Some s
           else case fn_get_block f addr of
             None \<Rightarrow> Some s
           | Some block \<Rightarrow>
               if op_idx < length (fb_ops block) then
                 (let op = fb_ops block ! op_idx
                  in map_option (\<lambda>s1. if cbranch_cond op \<noteq> None then sccp_terminator G f addr s1 else s1) (sccp_op op s))
               else Some s))"

fun use_steps :: "'g petgraph \<Rightarrow> 'g SSAFunction \<Rightarrow> SccpUse list \<Rightarrow> sccp_state \<Rightarrow> sccp_state option" where
  "use_steps G f [] s = Some s"
| "use_steps G f (u # us) s = Option.bind (use_step G f u s) (use_steps G f us)"

partial_function (option) ssa_loop ::
  "'g petgraph \<Rightarrow> 'g SSAFunction \<Rightarrow> (VarKey, SccpUse list) hashmap \<Rightarrow> sccp_state \<Rightarrow> sccp_state option" where
  "ssa_loop G f use_map s =
     (case sc_ssa s of
        [] \<Rightarrow> Some s
      | key # rest \<Rightarrow>
          Option.bind (use_steps G f (get_names use_map key) (s\<lparr>sc_ssa := rest\<rparr>)) (ssa_loop G f use_map))"

partial_function (option) sccp_loop ::
  "'g petgraph \<Rightarrow> 'g SSAFunction \<Rightarrow> (VarKey, SccpUse list) hashmap \<Rightarrow> sccp_state \<Rightarrow> sccp_state option" where
  "sccp_loop G f use_map s =
     (if sc_cfg s = [] \<and> sc_ssa s = [] then Some s
      else Option.bind (cfg_loop G f s) (\<lambda>s1. Option.bind (ssa_loop G f use_map s1) (sccp_loop G f use_map)))"

definition sccp_init :: "'g SSAFunction \<Rightarrow> sccp_state" where
  "sccp_init f =
     (let lattice = foldl (\<lambda>lattice block.
            foldl (\<lambda>l src. init_if_input l (fst src))
              (foldl (\<lambda>l def. init_if_input l (fst def)) lattice (block_for_each_def block))
              (block_for_each_source block))
          [] (fn_blocks_in_order f)
      in \<lparr>sc_lattice = lattice, sc_executable = {}, sc_visited = {}, sc_cfg = [(- 1, fn_entry f)], sc_ssa = []\<rparr>)"

definition sccp :: "'g petgraph \<Rightarrow> 'g SSAFunction \<Rightarrow> (const_map \<times> (u64 \<times> u64) set) option" where
  "sccp G f =
     map_option (\<lambda>s.
         (List.map_filter (\<lambda>(k, v). case v of LConst c \<Rightarrow> Some (k, c) | _ \<Rightarrow> None) (sc_lattice s), sc_executable s))
       (sccp_loop G f (build_use_map f) (sccp_init f))"

end
