(* ===== verification/SSA_Optimize.thy ===== *)
theory SSA_Optimize
  imports SSA_Sccp
begin

text \<open>
  The passes of \<open>r2ssa/src/optimize.rs\<close> over a whole function and the pipeline that runs them.

  A pass returns the changed function, the statistics and whether it changed anything. Results are
  in \<open>option\<close> where a pass folds operations, which can panic, edits the graph or loops.
\<close>

section \<open>Configuration and statistics\<close>

record OptimizationConfig =
  oc_max_iterations :: nat
  oc_enable_sccp :: bool
  oc_enable_const_prop :: bool
  oc_enable_inst_combine :: bool
  oc_enable_copy_prop :: bool
  oc_enable_cse :: bool
  oc_enable_dce :: bool
  oc_preserve_memory_reads :: bool

record DecompilePrepConfig =
  dp_max_iterations :: nat
  dp_enable_inst_combine :: bool
  dp_enable_cse :: bool

definition oc_default :: OptimizationConfig where
  "oc_default =
     \<lparr>oc_max_iterations = 4, oc_enable_sccp = True, oc_enable_const_prop = True, oc_enable_inst_combine = True,
      oc_enable_copy_prop = True, oc_enable_cse = True, oc_enable_dce = True, oc_preserve_memory_reads = False\<rparr>"

definition dp_default :: DecompilePrepConfig where
  "dp_default = \<lparr>dp_max_iterations = 1, dp_enable_inst_combine = False, dp_enable_cse = False\<rparr>"

definition oc_from_prep :: "DecompilePrepConfig \<Rightarrow> OptimizationConfig" where
  "oc_from_prep v =
     \<lparr>oc_max_iterations = max (dp_max_iterations v) 1, oc_enable_sccp = False, oc_enable_const_prop = False,
      oc_enable_inst_combine = dp_enable_inst_combine v, oc_enable_copy_prop = False,
      oc_enable_cse = dp_enable_cse v, oc_enable_dce = False, oc_preserve_memory_reads = True\<rparr>"

record OptimizationStats =
  os_iterations :: nat
  os_sccp_constants_found :: nat
  os_sccp_edges_pruned :: nat
  os_sccp_blocks_removed :: nat
  os_constants_propagated :: nat
  os_ops_simplified :: nat
  os_copies_propagated :: nat
  os_phis_simplified :: nat
  os_cse_replacements :: nat
  os_dce_removed_ops :: nat
  os_dce_removed_phis :: nat

definition stats_default :: OptimizationStats where
  "stats_default =
     \<lparr>os_iterations = 0, os_sccp_constants_found = 0, os_sccp_edges_pruned = 0, os_sccp_blocks_removed = 0,
      os_constants_propagated = 0, os_ops_simplified = 0, os_copies_propagated = 0, os_phis_simplified = 0,
      os_cse_replacements = 0, os_dce_removed_ops = 0, os_dce_removed_phis = 0\<rparr>"

section \<open>Rewriting sources\<close>

primrec map_sources_in_op :: "(SSAVar \<Rightarrow> SSAVar) \<Rightarrow> SSAOp \<Rightarrow> SSAOp" where
  "map_sources_in_op m (Phi dst sources) = Phi dst (List.map m sources)"
| "map_sources_in_op m (Copy dst src) = Copy dst (m src)"
| "map_sources_in_op m (Load dst space addr) = Load dst space (m addr)"
| "map_sources_in_op m (Store space addr val) = Store space (m addr) (m val)"
| "map_sources_in_op m (Fence ord) = Fence ord"
| "map_sources_in_op m (LoadLinked dst space addr ord) = LoadLinked dst space (m addr) ord"
| "map_sources_in_op m (StoreConditional result space addr val ord) = StoreConditional result space (m addr) (m val) ord"
| "map_sources_in_op m (AtomicCAS dst space addr expected replacement ord) = AtomicCAS dst space (m addr) (m expected) (m replacement) ord"
| "map_sources_in_op m (LoadGuarded dst space addr guard ord) = LoadGuarded dst space (m addr) (m guard) ord"
| "map_sources_in_op m (StoreGuarded space addr val guard ord) = StoreGuarded space (m addr) (m val) (m guard) ord"
| "map_sources_in_op m (IntAdd dst a b) = IntAdd dst (m a) (m b)"
| "map_sources_in_op m (IntSub dst a b) = IntSub dst (m a) (m b)"
| "map_sources_in_op m (IntMult dst a b) = IntMult dst (m a) (m b)"
| "map_sources_in_op m (IntDiv dst a b) = IntDiv dst (m a) (m b)"
| "map_sources_in_op m (IntSDiv dst a b) = IntSDiv dst (m a) (m b)"
| "map_sources_in_op m (IntRem dst a b) = IntRem dst (m a) (m b)"
| "map_sources_in_op m (IntSRem dst a b) = IntSRem dst (m a) (m b)"
| "map_sources_in_op m (IntNegate dst src) = IntNegate dst (m src)"
| "map_sources_in_op m (IntCarry dst a b) = IntCarry dst (m a) (m b)"
| "map_sources_in_op m (IntSCarry dst a b) = IntSCarry dst (m a) (m b)"
| "map_sources_in_op m (IntSBorrow dst a b) = IntSBorrow dst (m a) (m b)"
| "map_sources_in_op m (IntAnd dst a b) = IntAnd dst (m a) (m b)"
| "map_sources_in_op m (IntOr dst a b) = IntOr dst (m a) (m b)"
| "map_sources_in_op m (IntXor dst a b) = IntXor dst (m a) (m b)"
| "map_sources_in_op m (IntNot dst src) = IntNot dst (m src)"
| "map_sources_in_op m (IntLeft dst a b) = IntLeft dst (m a) (m b)"
| "map_sources_in_op m (IntRight dst a b) = IntRight dst (m a) (m b)"
| "map_sources_in_op m (IntSRight dst a b) = IntSRight dst (m a) (m b)"
| "map_sources_in_op m (IntEqual dst a b) = IntEqual dst (m a) (m b)"
| "map_sources_in_op m (IntNotEqual dst a b) = IntNotEqual dst (m a) (m b)"
| "map_sources_in_op m (IntLess dst a b) = IntLess dst (m a) (m b)"
| "map_sources_in_op m (IntSLess dst a b) = IntSLess dst (m a) (m b)"
| "map_sources_in_op m (IntLessEqual dst a b) = IntLessEqual dst (m a) (m b)"
| "map_sources_in_op m (IntSLessEqual dst a b) = IntSLessEqual dst (m a) (m b)"
| "map_sources_in_op m (IntZExt dst src) = IntZExt dst (m src)"
| "map_sources_in_op m (IntSExt dst src) = IntSExt dst (m src)"
| "map_sources_in_op m (BoolNot dst src) = BoolNot dst (m src)"
| "map_sources_in_op m (BoolAnd dst a b) = BoolAnd dst (m a) (m b)"
| "map_sources_in_op m (BoolOr dst a b) = BoolOr dst (m a) (m b)"
| "map_sources_in_op m (BoolXor dst a b) = BoolXor dst (m a) (m b)"
| "map_sources_in_op m (Piece dst hi lo) = Piece dst (m hi) (m lo)"
| "map_sources_in_op m (Subpiece dst src offset) = Subpiece dst (m src) offset"
| "map_sources_in_op m (PopCount dst src) = PopCount dst (m src)"
| "map_sources_in_op m (Lzcount dst src) = Lzcount dst (m src)"
| "map_sources_in_op m (Branch target) = Branch (m target)"
| "map_sources_in_op m (CBranch target cond) = CBranch (m target) (m cond)"
| "map_sources_in_op m (BranchInd target) = BranchInd (m target)"
| "map_sources_in_op m (Call target) = Call (m target)"
| "map_sources_in_op m (CallInd target) = CallInd (m target)"
| "map_sources_in_op m (CallDefine dst) = CallDefine dst"
| "map_sources_in_op m (Return target) = Return (m target)"
| "map_sources_in_op m (FloatAdd dst a b) = FloatAdd dst (m a) (m b)"
| "map_sources_in_op m (FloatSub dst a b) = FloatSub dst (m a) (m b)"
| "map_sources_in_op m (FloatMult dst a b) = FloatMult dst (m a) (m b)"
| "map_sources_in_op m (FloatDiv dst a b) = FloatDiv dst (m a) (m b)"
| "map_sources_in_op m (FloatNeg dst src) = FloatNeg dst (m src)"
| "map_sources_in_op m (FloatAbs dst src) = FloatAbs dst (m src)"
| "map_sources_in_op m (FloatSqrt dst src) = FloatSqrt dst (m src)"
| "map_sources_in_op m (FloatCeil dst src) = FloatCeil dst (m src)"
| "map_sources_in_op m (FloatFloor dst src) = FloatFloor dst (m src)"
| "map_sources_in_op m (FloatRound dst src) = FloatRound dst (m src)"
| "map_sources_in_op m (FloatNaN dst src) = FloatNaN dst (m src)"
| "map_sources_in_op m (FloatEqual dst a b) = FloatEqual dst (m a) (m b)"
| "map_sources_in_op m (FloatNotEqual dst a b) = FloatNotEqual dst (m a) (m b)"
| "map_sources_in_op m (FloatLess dst a b) = FloatLess dst (m a) (m b)"
| "map_sources_in_op m (FloatLessEqual dst a b) = FloatLessEqual dst (m a) (m b)"
| "map_sources_in_op m (Int2Float dst src) = Int2Float dst (m src)"
| "map_sources_in_op m (Float2Int dst src) = Float2Int dst (m src)"
| "map_sources_in_op m (FloatFloat dst src) = FloatFloat dst (m src)"
| "map_sources_in_op m (Trunc dst src) = Trunc dst (m src)"
| "map_sources_in_op m (CallOther output userop inputs) = CallOther output userop (List.map m inputs)"
| "map_sources_in_op m Nop = Nop"
| "map_sources_in_op m Unimplemented = Unimplemented"
| "map_sources_in_op m (CpuId dst) = CpuId dst"
| "map_sources_in_op m Breakpoint = Breakpoint"
| "map_sources_in_op m (PtrAdd dst base index element_size) = PtrAdd dst (m base) (m index) element_size"
| "map_sources_in_op m (PtrSub dst base index element_size) = PtrSub dst (m base) (m index) element_size"
| "map_sources_in_op m (SegmentOp dst segment offset) = SegmentOp dst (m segment) (m offset)"
| "map_sources_in_op m (New dst src) = New dst (m src)"
| "map_sources_in_op m (Cast dst src) = Cast dst (m src)"
| "map_sources_in_op m (Extract dst src pos) = Extract dst (m src) (m pos)"
| "map_sources_in_op m (Insert dst src value pos) = Insert dst (m src) (m value) (m pos)"

text \<open>The loop of a pass: each listed block is taken with \<open>get_block_mut\<close> and replaced.\<close>

fun edit_blocks ::
  "(u64 \<Rightarrow> FunctionSSABlock \<Rightarrow> 's \<Rightarrow> (FunctionSSABlock \<times> 's) option) \<Rightarrow> u64 list \<Rightarrow> 'g SSAFunction \<Rightarrow> 's \<Rightarrow>
     ('g SSAFunction \<times> 's) option"
where
  "edit_blocks step [] f s = Some (f, s)"
| "edit_blocks step (addr # addrs) f s =
     (case fn_get_block f addr of
        None \<Rightarrow> edit_blocks step addrs (get_block_mut addr id f) s
      | Some b \<Rightarrow>
          Option.bind (step addr b s) (\<lambda>(b', s'). edit_blocks step addrs (get_block_mut addr (\<lambda>_. b') f) s'))"

definition returns_at :: "'g petgraph \<Rightarrow> 'g SSAFunction \<Rightarrow> u64 \<Rightarrow> bool" where
  "returns_at G f addr = (case get_block G (fn_cfg f) addr of Some cb \<Rightarrow> bb_is_return cb | None \<Rightarrow> False)"

definition return_value_family :: "string \<Rightarrow> string option" where
  "return_value_family name =
     (let lower = to_ascii_lowercase name
      in if lower \<in> {''rax'', ''eax'', ''ax'', ''al'', ''ah''} then Some ''x86-gpr-ret''
         else if lower \<in> {''xmm0'', ''ymm0'', ''zmm0''} then Some ''x86-simd-ret''
         else if lower \<in> {''st0'', ''st(0)''} then Some ''x86-fpu-ret''
         else if lower = ''r0'' then Some ''arm-gpr-ret''
         else if lower \<in> {''x0'', ''w0''} then Some ''aarch64-gpr-ret''
         else if lower \<in> {''v0'', ''q0'', ''d0'', ''s0''} then Some ''aarch64-simd-ret''
         else if lower = ''a0'' then Some ''riscv-gpr-ret''
         else if lower = ''fa0'' then Some ''riscv-fp-ret''
         else None)"

text \<open>
  Both passes that replace sources treat a block alike: phis of a return register in a returning
  block are left alone. The number of replaced sources goes to the statistics.
\<close>

definition rewrite_phi :: "bool \<Rightarrow> (SSAVar \<Rightarrow> SSAVar) \<Rightarrow> PhiNode \<Rightarrow> PhiNode" where
  "rewrite_phi is_return_block m phi =
     (if is_return_block \<and> return_value_family (sv_name (pn_dst phi)) \<noteq> None then phi
      else phi\<lparr>pn_sources := map (\<lambda>(pred, src). (pred, m src)) (pn_sources phi)\<rparr>)"

definition replaced_phi_sources :: "PhiNode \<Rightarrow> PhiNode \<Rightarrow> nat" where
  "replaced_phi_sources phi phi' = length (filter (\<lambda>(a, b). snd a \<noteq> snd b) (zip (pn_sources phi) (pn_sources phi')))"

definition rewrite_block :: "bool \<Rightarrow> (SSAVar \<Rightarrow> SSAVar) \<Rightarrow> FunctionSSABlock \<Rightarrow> FunctionSSABlock \<times> nat \<times> bool" where
  "rewrite_block is_return_block m b =
     (let phis = map (rewrite_phi is_return_block m) (fb_phis b);
          ops = map (map_sources_in_op m) (fb_ops b);
          n_phis = sum_list (map2 replaced_phi_sources (fb_phis b) phis);
          n_ops = sum_list (map2 count_source_replacements (fb_ops b) ops)
      in (b\<lparr>fb_phis := phis, fb_ops := ops\<rparr>, n_phis + n_ops, n_phis > 0 \<or> ops \<noteq> fb_ops b))"

definition constant_source :: "const_map \<Rightarrow> SSAVar \<Rightarrow> SSAVar" where
  "constant_source consts var =
     (case hm_get consts var of Some val \<Rightarrow> ssa_constant val (sv_size var) | None \<Rightarrow> var)"

definition replace_sources_with_constants ::
  "'g petgraph \<Rightarrow> const_map \<Rightarrow> 'g SSAFunction \<Rightarrow> OptimizationStats \<Rightarrow> ('g SSAFunction \<times> OptimizationStats \<times> bool) option" where
  "replace_sources_with_constants G consts f stats =
     edit_blocks (\<lambda>addr b (st, changed).
         let (b', n, c) = rewrite_block (returns_at G f addr) (constant_source consts) b
         in Some (b', st\<lparr>os_constants_propagated := os_constants_propagated st + n\<rparr>, changed \<or> c))
       (fn_block_order f) f (stats, False)"

section \<open>Constants by iteration\<close>

definition compute_phi :: "const_map \<times> bool \<Rightarrow> PhiNode \<Rightarrow> const_map \<times> bool" where
  "compute_phi = (\<lambda>(consts, changed) phi.
     if hm_get consts (pn_dst phi) \<noteq> None then (consts, changed)
     else case pn_sources phi of
       [] \<Rightarrow> (consts, changed)
     | (_, first) # rest \<Rightarrow>
         (case const_for_var first consts of
            None \<Rightarrow> (consts, changed)
          | Some first_val \<Rightarrow>
              if list_all (\<lambda>(_, src). const_for_var src consts = Some first_val) rest
              then (hm_insert (pn_dst phi) first_val consts, True) else (consts, changed)))"

fun compute_ops :: "SSAOp list \<Rightarrow> const_map \<Rightarrow> bool \<Rightarrow> (const_map \<times> bool) option" where
  "compute_ops [] consts changed = Some (consts, changed)"
| "compute_ops (op # ops) consts changed =
     (case sop_dst op of
        None \<Rightarrow> compute_ops ops consts changed
      | Some dst \<Rightarrow>
          if hm_get consts dst \<noteq> None then compute_ops ops consts changed
          else Option.bind (eval_const_op op consts) (\<lambda>r.
            case r of
              Some val \<Rightarrow> compute_ops ops (hm_insert dst val consts) True
            | None \<Rightarrow> compute_ops ops consts changed))"

fun compute_iterations :: "'g SSAFunction \<Rightarrow> nat \<Rightarrow> const_map \<Rightarrow> const_map option" where
  "compute_iterations f 0 consts = Some consts"
| "compute_iterations f (Suc n) consts =
     (let (consts1, changed1) = foldl compute_phi (consts, False) (fn_all_phis f)
      in Option.bind (compute_ops (fn_all_ops f) consts1 changed1) (\<lambda>(consts2, changed2).
           if changed2 then compute_iterations f n consts2 else Some consts2))"

definition compute_constants :: "'g SSAFunction \<Rightarrow> nat \<Rightarrow> const_map option" where
  "compute_constants f max_iters = compute_iterations f max_iters []"

section \<open>Applying the propagation\<close>

record BranchRewrite =
  rw_block_addr :: u64
  rw_op_idx :: nat
  rw_keep_target :: u64
  rw_dead_target :: u64
  rw_take_true :: bool

text \<open>The first conditional branch of a block on a constant.\<close>

fun constant_branch :: "(nat \<times> SSAOp) list \<Rightarrow> (nat \<times> u64) option" where
  "constant_branch [] = None"
| "constant_branch ((op_idx, op) # ops) =
     (case Option.bind (cbranch_cond op) const_value of
        Some value \<Rightarrow> Some (op_idx, value)
      | None \<Rightarrow> constant_branch ops)"

definition branch_rewrite :: "'g petgraph \<Rightarrow> 'g SSAFunction \<Rightarrow> u64 \<Rightarrow> BranchRewrite option" where
  "branch_rewrite G f addr =
     Option.bind (fn_get_block f addr) (\<lambda>block.
     Option.bind (get_block G (fn_cfg f) addr) (\<lambda>cfg_block.
       case bb_terminator cfg_block of
         TermConditionalBranch true_target false_target \<Rightarrow>
           map_option (\<lambda>(op_idx, value).
               let take_true = value \<noteq> 0
               in \<lparr>rw_block_addr = addr, rw_op_idx = op_idx,
                   rw_keep_target = (if take_true then true_target else false_target),
                   rw_dead_target = (if take_true then false_target else true_target),
                   rw_take_true = take_true\<rparr>)
             (constant_branch (enumerate 0 (fb_ops block)))
       | _ \<Rightarrow> None))"

definition rewrite_branch_op :: "BranchRewrite \<Rightarrow> FunctionSSABlock \<Rightarrow> FunctionSSABlock" where
  "rewrite_branch_op rw b =
     (if rw_op_idx rw < length (fb_ops b) then
        b\<lparr>fb_ops := (fb_ops b)[rw_op_idx rw :=
          (if rw_take_true rw
           then case fb_ops b ! rw_op_idx rw of CBranch target _ \<Rightarrow> Branch target | op \<Rightarrow> op
           else Nop)]\<rparr>
      else b)"

text \<open>\<open>func.cfg_mut().remove_edge(from, to)\<close>\<close>

definition cut_edge :: "'g petgraph \<Rightarrow> u64 \<Rightarrow> u64 \<Rightarrow> 'g SSAFunction \<Rightarrow> 'g SSAFunction option" where
  "cut_edge G from to f = map_option (\<lambda>c. cfg_mut (\<lambda>_. c) f) (cfg_remove_edge G (fn_cfg f) from to)"

definition apply_rewrite :: "'g petgraph \<Rightarrow> BranchRewrite \<Rightarrow> 'g SSAFunction \<Rightarrow> 'g SSAFunction option" where
  "apply_rewrite G rw f =
     map_option (\<lambda>f1.
         remove_phi_source (rw_dead_target rw) (rw_block_addr rw)
           (cfg_mut (\<lambda>c. set_terminator G c (rw_block_addr rw) (TermBranch (rw_keep_target rw))) f1))
       (cut_edge G (rw_block_addr rw) (rw_dead_target rw) (get_block_mut (rw_block_addr rw) (rewrite_branch_op rw) f))"

fun apply_rewrites :: "'g petgraph \<Rightarrow> BranchRewrite list \<Rightarrow> 'g SSAFunction \<Rightarrow> 'g SSAFunction option" where
  "apply_rewrites G [] f = Some f"
| "apply_rewrites G (rw # rws) f = Option.bind (apply_rewrite G rw f) (apply_rewrites G rws)"

text \<open>Edges that were never executable, with the number of edges cut.\<close>

fun prune_edges ::
  "'g petgraph \<Rightarrow> (u64 \<times> u64) set \<Rightarrow> u64 \<Rightarrow> u64 list \<Rightarrow> 'g SSAFunction \<Rightarrow> nat \<Rightarrow> ('g SSAFunction \<times> nat) option" where
  "prune_edges G executable addr [] f n = Some (f, n)"
| "prune_edges G executable addr (succ # succs) f n =
     (if (addr, succ) \<in> executable then prune_edges G executable addr succs f n
      else Option.bind (cut_edge G addr succ f) (\<lambda>f1.
             prune_edges G executable addr succs (remove_phi_source succ addr f1) (Suc n)))"

fun prune_blocks ::
  "'g petgraph \<Rightarrow> (u64 \<times> u64) set \<Rightarrow> u64 list \<Rightarrow> 'g SSAFunction \<Rightarrow> nat \<Rightarrow> ('g SSAFunction \<times> nat) option" where
  "prune_blocks G executable [] f n = Some (f, n)"
| "prune_blocks G executable (addr # addrs) f n =
     Option.bind (prune_edges G executable addr (cfg_successors G (fn_cfg f) addr) f n)
       (\<lambda>(f1, n1). prune_blocks G executable addrs f1 n1)"

partial_function (option) reachable_loop :: "'g petgraph \<Rightarrow> 'g SSAFunction \<Rightarrow> u64 list \<Rightarrow> u64 set \<Rightarrow> u64 set option" where
  "reachable_loop G f queue reachable =
     (case queue of
        [] \<Rightarrow> Some reachable
      | addr # rest \<Rightarrow>
          if addr \<in> reachable then reachable_loop G f rest reachable
          else reachable_loop G f (rest @ cfg_successors G (fn_cfg f) addr) (insert addr reachable))"

definition drop_block :: "'g petgraph \<Rightarrow> u64 \<Rightarrow> 'g SSAFunction \<Rightarrow> 'g SSAFunction" where
  "drop_block G addr f =
     fn_remove_block G addr
       (foldl (\<lambda>f succ. remove_phi_source succ addr f) f (cfg_successors G (fn_cfg f) addr))"

definition drop_unreachable :: "'g petgraph \<Rightarrow> u64 set \<Rightarrow> 'g SSAFunction \<Rightarrow> 'g SSAFunction \<times> nat" where
  "drop_unreachable G reachable f =
     foldl (\<lambda>(f, n) addr. if addr \<in> reachable then (f, n) else (drop_block G addr f, Suc n)) (f, 0) (fn_block_order f)"

definition apply_sccp_results ::
  "'g petgraph \<Rightarrow> const_map \<Rightarrow> (u64 \<times> u64) set \<Rightarrow> 'g SSAFunction \<Rightarrow> OptimizationStats \<Rightarrow>
     ('g SSAFunction \<times> OptimizationStats \<times> bool) option" where
  "apply_sccp_results G consts executable f stats =
     Option.bind (replace_sources_with_constants G consts f stats) (\<lambda>(f1, st1, changed).
     let rewrites = List.map_filter (branch_rewrite G f1) (fn_block_order f1)
     in Option.bind (apply_rewrites G rewrites f1) (\<lambda>f2.
        Option.bind (prune_blocks G executable (fn_block_order f2) f2 0) (\<lambda>(f3, pruned).
        Option.bind (reachable_loop G f3 [fn_entry f3] {}) (\<lambda>reachable.
          let (f4, removed) = drop_unreachable G reachable f3;
              st4 = st1\<lparr>os_sccp_constants_found := length consts,
                        os_sccp_edges_pruned := os_sccp_edges_pruned st1 + length rewrites + pruned,
                        os_sccp_blocks_removed := os_sccp_blocks_removed st1 + removed\<rparr>;
              cfg_changed = (rewrites \<noteq> [] \<or> pruned > 0 \<or> removed > 0)
          in map_option (\<lambda>f5. (f5, st4, changed \<or> cfg_changed))
               (if cfg_changed then refresh_after_cfg_mutation G f4 else Some f4)))))"

section \<open>Combining instructions\<close>

fun combine_ops :: "SSAOp list \<Rightarrow> (SSAOp list \<times> nat) option" where
  "combine_ops [] = Some ([], 0)"
| "combine_ops (op # ops) =
     Option.bind (simplify_op op) (\<lambda>new_op.
     map_option (\<lambda>(ops', n).
         case new_op of
           Some op' \<Rightarrow> if op' \<noteq> op then (op' # ops', Suc n) else (op # ops', n)
         | None \<Rightarrow> (op # ops', n))
       (combine_ops ops))"

definition inst_combine ::
  "'g SSAFunction \<Rightarrow> OptimizationStats \<Rightarrow> ('g SSAFunction \<times> OptimizationStats \<times> bool) option" where
  "inst_combine f stats =
     edit_blocks (\<lambda>addr b (st, changed).
         map_option (\<lambda>(ops, n).
             (b\<lparr>fb_ops := ops\<rparr>, st\<lparr>os_ops_simplified := os_ops_simplified st + n\<rparr>, changed \<or> n > 0))
           (combine_ops (fb_ops b)))
       (fn_block_order f) f (stats, False)"

section \<open>Copies\<close>

type_synonym replacements = "(VarKey, SSAVar) hashmap"

text \<open>A phi whose sources all agree is a copy of the first one.\<close>

definition trivial_phi :: "PhiNode \<Rightarrow> SSAVar option" where
  "trivial_phi phi =
     (case pn_sources phi of
        [] \<Rightarrow> None
      | (_, first) # rest \<Rightarrow> if list_all (\<lambda>(_, src). src = first) rest then Some first else None)"

definition phi_replacement :: "replacements \<Rightarrow> PhiNode \<Rightarrow> replacements" where
  "phi_replacement repl phi =
     (case trivial_phi phi of
        Some first \<Rightarrow> if pn_dst phi \<noteq> first then hm_insert (pn_dst phi) first repl else repl
      | None \<Rightarrow> repl)"

definition copy_replacement :: "replacements \<Rightarrow> SSAOp \<Rightarrow> replacements" where
  "copy_replacement repl op =
     (case op of
        Copy dst src \<Rightarrow> if sv_size dst = sv_size src \<and> dst \<noteq> src then hm_insert dst src repl else repl
      | _ \<Rightarrow> repl)"

text \<open>The inner loop of \<open>resolve_replacements\<close>: the end of a chain, or \<open>None\<close> for the break on a cycle.\<close>

function chase :: "replacements \<Rightarrow> VarKey set \<Rightarrow> SSAVar \<Rightarrow> SSAVar option" where
  "chase repl visited next_var =
     (if next_var \<in> visited then None
      else case hm_get repl next_var of
        Some follow \<Rightarrow> chase repl (insert next_var visited) follow
      | None \<Rightarrow> Some next_var)"
  by pat_completeness auto

lemma chase_decreases:
  assumes "hm_get (repl :: replacements) v = Some w" "v \<notin> visited"
  shows "card (fst ` set repl - insert v visited) < card (fst ` set repl - visited)"
proof (rule psubset_card_mono)
  have "v \<in> fst ` set repl" using assms(1) hm_get_None [of repl v] by auto
  then show "fst ` set repl - insert v visited \<subset> fst ` set repl - visited" using assms(2) by auto
qed simp

termination chase
  by (relation "measure (\<lambda>(repl, visited, _). card (fst ` set repl - visited))") (auto intro: chase_decreases)

declare chase.simps [simp del]

definition resolve_replacements :: "replacements \<Rightarrow> replacements" where
  "resolve_replacements repl =
     foldl (\<lambda>repl key.
         case hm_get repl key of
           None \<Rightarrow> repl
         | Some first \<Rightarrow> (case chase repl {} first of Some last_var \<Rightarrow> hm_insert key last_var repl | None \<Rightarrow> repl))
       repl (map fst repl)"

definition copies_step ::
  "u64 \<Rightarrow> FunctionSSABlock \<Rightarrow> OptimizationStats \<times> replacements \<times> bool \<Rightarrow>
     (FunctionSSABlock \<times> OptimizationStats \<times> replacements \<times> bool) option" where
  "copies_step addr b = (\<lambda>(st, repl, changed).
     let n = length (filter (\<lambda>phi. trivial_phi phi \<noteq> None) (fb_phis b));
         repl1 = foldl phi_replacement repl (fb_phis b);
         repl2 = foldl copy_replacement repl1 (fb_ops b)
     in Some (b\<lparr>fb_phis := filter (\<lambda>phi. trivial_phi phi = None) (fb_phis b)\<rparr>,
              st\<lparr>os_phis_simplified := os_phis_simplified st + n\<rparr>, repl2, changed \<or> n > 0))"

definition build_copy_replacements ::
  "'g SSAFunction \<Rightarrow> OptimizationStats \<Rightarrow> ('g SSAFunction \<times> OptimizationStats \<times> replacements \<times> bool) option" where
  "build_copy_replacements f stats =
     map_option (\<lambda>(f', st, repl, changed). (f', st, resolve_replacements repl, changed))
       (edit_blocks copies_step (fn_block_order f) f (stats, [], False))"

text \<open>The closure \<open>mapper\<close>: \<open>var\<close> itself when the chain comes back on itself.\<close>

function follow_copies :: "replacements \<Rightarrow> SSAVar \<Rightarrow> VarKey set \<Rightarrow> SSAVar \<Rightarrow> SSAVar" where
  "follow_copies repl var visited current =
     (case hm_get repl current of
        None \<Rightarrow> current
      | Some next_var \<Rightarrow>
          if current \<in> visited then var else follow_copies repl var (insert current visited) next_var)"
  by pat_completeness auto
termination follow_copies
  by (relation "measure (\<lambda>(repl, _, visited, _). card (fst ` set repl - visited))") (auto intro: chase_decreases)

declare follow_copies.simps [simp del]

definition copy_mapper :: "replacements \<Rightarrow> SSAVar \<Rightarrow> SSAVar" where
  "copy_mapper repl var = follow_copies repl var {} var"

definition apply_replacements ::
  "'g petgraph \<Rightarrow> replacements \<Rightarrow> 'g SSAFunction \<Rightarrow> OptimizationStats \<Rightarrow> ('g SSAFunction \<times> OptimizationStats \<times> bool) option" where
  "apply_replacements G repl f stats =
     edit_blocks (\<lambda>addr b (st, changed).
         let (b', n, c) = rewrite_block (returns_at G f addr) (copy_mapper repl) b
         in Some (b', st\<lparr>os_copies_propagated := os_copies_propagated st + n\<rparr>, changed \<or> c))
       (fn_block_order f) f (stats, False)"

definition copy_propagation ::
  "'g petgraph \<Rightarrow> 'g SSAFunction \<Rightarrow> OptimizationStats \<Rightarrow> ('g SSAFunction \<times> OptimizationStats \<times> bool) option" where
  "copy_propagation G f stats =
     Option.bind (build_copy_replacements f stats) (\<lambda>(f1, st1, repl, changed).
       if repl = [] then Some (f1, st1, changed)
       else map_option (\<lambda>(f2, st2, applied). (f2, st2, changed \<or> applied)) (apply_replacements G repl f1 st1))"

section \<open>Common subexpressions\<close>

datatype ExprKind = ExprUnary string | ExprBinary string

record ExprKey =
  ek_kind :: ExprKind
  ek_dst_size :: u32
  ek_args :: "VarKey list"

definition expr_key :: "SSAOp \<Rightarrow> ExprKey option" where
  "expr_key op =
     (case sop_dst op of
        None \<Rightarrow> None
      | Some dst \<Rightarrow>
     let key = (\<lambda>kind args. Some \<lparr>ek_kind = kind, ek_dst_size = sv_size dst, ek_args = args\<rparr>);
         unary = (\<lambda>name src. key (ExprUnary name) [src]);
         commutative = (\<lambda>name a b. key (ExprBinary name) (sort [a, b]));
         binary = (\<lambda>name a b. key (ExprBinary name) [a, b])
     in case op of
        IntNegate _ src \<Rightarrow> unary ''IntNegate'' src
      | IntNot _ src \<Rightarrow> unary ''IntNot'' src
      | BoolNot _ src \<Rightarrow> unary ''BoolNot'' src
      | IntZExt _ src \<Rightarrow> unary ''IntZExt'' src
      | IntSExt _ src \<Rightarrow> unary ''IntSExt'' src
      | Trunc _ src \<Rightarrow> unary ''Trunc'' src
      | FloatNeg _ src \<Rightarrow> unary ''FloatNeg'' src
      | FloatAbs _ src \<Rightarrow> unary ''FloatAbs'' src
      | FloatSqrt _ src \<Rightarrow> unary ''FloatSqrt'' src
      | Int2Float _ src \<Rightarrow> unary ''Int2Float'' src
      | Float2Int _ src \<Rightarrow> unary ''Float2Int'' src
      | FloatFloat _ src \<Rightarrow> unary ''FloatFloat'' src
      | IntAdd _ a b \<Rightarrow> commutative ''IntAdd'' a b
      | IntMult _ a b \<Rightarrow> commutative ''IntMult'' a b
      | IntAnd _ a b \<Rightarrow> commutative ''IntAnd'' a b
      | IntOr _ a b \<Rightarrow> commutative ''IntOr'' a b
      | IntXor _ a b \<Rightarrow> commutative ''IntXor'' a b
      | IntEqual _ a b \<Rightarrow> commutative ''IntEqual'' a b
      | IntNotEqual _ a b \<Rightarrow> commutative ''IntNotEqual'' a b
      | BoolAnd _ a b \<Rightarrow> commutative ''BoolAnd'' a b
      | BoolOr _ a b \<Rightarrow> commutative ''BoolOr'' a b
      | BoolXor _ a b \<Rightarrow> commutative ''BoolXor'' a b
      | FloatAdd _ a b \<Rightarrow> commutative ''FloatAdd'' a b
      | FloatMult _ a b \<Rightarrow> commutative ''FloatMult'' a b
      | FloatEqual _ a b \<Rightarrow> commutative ''FloatEqual'' a b
      | FloatNotEqual _ a b \<Rightarrow> commutative ''FloatNotEqual'' a b
      | IntSub _ a b \<Rightarrow> binary ''IntSub'' a b
      | IntDiv _ a b \<Rightarrow> binary ''IntDiv'' a b
      | IntSDiv _ a b \<Rightarrow> binary ''IntSDiv'' a b
      | IntRem _ a b \<Rightarrow> binary ''IntRem'' a b
      | IntSRem _ a b \<Rightarrow> binary ''IntSRem'' a b
      | IntLeft _ a b \<Rightarrow> binary ''IntLeft'' a b
      | IntRight _ a b \<Rightarrow> binary ''IntRight'' a b
      | IntSRight _ a b \<Rightarrow> binary ''IntSRight'' a b
      | IntLess _ a b \<Rightarrow> binary ''IntLess'' a b
      | IntLessEqual _ a b \<Rightarrow> binary ''IntLessEqual'' a b
      | IntSLess _ a b \<Rightarrow> binary ''IntSLess'' a b
      | IntSLessEqual _ a b \<Rightarrow> binary ''IntSLessEqual'' a b
      | FloatSub _ a b \<Rightarrow> binary ''FloatSub'' a b
      | FloatDiv _ a b \<Rightarrow> binary ''FloatDiv'' a b
      | FloatLess _ a b \<Rightarrow> binary ''FloatLess'' a b
      | FloatLessEqual _ a b \<Rightarrow> binary ''FloatLessEqual'' a b
      | _ \<Rightarrow> None)"

fun cse_ops :: "SSAOp list \<Rightarrow> (ExprKey, SSAVar) hashmap \<Rightarrow> SSAOp list \<times> nat" where
  "cse_ops [] available = ([], 0)"
| "cse_ops (op # ops) available =
     (let keep = (\<lambda>available. let (ops', n) = cse_ops ops available in (op # ops', n))
      in case (sop_dst op, expr_key op) of
           (Some dst, Some key) \<Rightarrow>
             (case hm_get available key of
                Some existing \<Rightarrow>
                  if sv_size existing = sv_size dst
                  then let (ops', n) = cse_ops ops available in (Copy dst existing # ops', Suc n)
                  else keep available
              | None \<Rightarrow> keep (hm_insert key dst available))
         | _ \<Rightarrow> keep available)"

definition common_subexpr_elim ::
  "'g SSAFunction \<Rightarrow> OptimizationStats \<Rightarrow> ('g SSAFunction \<times> OptimizationStats \<times> bool) option" where
  "common_subexpr_elim f stats =
     edit_blocks (\<lambda>addr b (st, changed).
         let (ops, n) = cse_ops (fb_ops b) []
         in Some (b\<lparr>fb_ops := ops\<rparr>, st\<lparr>os_cse_replacements := os_cse_replacements st + n\<rparr>, changed \<or> n > 0))
       (fn_block_order f) f (stats, False)"

section \<open>Dead code\<close>

definition op_has_side_effects :: "SSAOp \<Rightarrow> bool \<Rightarrow> bool" where
  "op_has_side_effects op preserve_memory_reads =
     (if sop_is_control_flow op \<or> sop_is_memory_write op then True
      else if (case op of Fence _ \<Rightarrow> True | LoadLinked _ _ _ _ \<Rightarrow> True | LoadGuarded _ _ _ _ _ \<Rightarrow> True | _ \<Rightarrow> False) then True
      else if preserve_memory_reads \<and> sop_is_memory_read op then True
      else case op of
        CallOther _ _ _ \<Rightarrow> True
      | Breakpoint \<Rightarrow> True
      | Unimplemented \<Rightarrow> True
      | CpuId _ \<Rightarrow> True
      | New _ _ \<Rightarrow> True
      | _ \<Rightarrow> False)"

text \<open>The last definition of each return register family, going backwards.\<close>

fun preserved_defs :: "SSAVar list \<Rightarrow> string set \<Rightarrow> VarKey set" where
  "preserved_defs [] seen = {}"
| "preserved_defs (dst # rest) seen =
     (case return_value_family (sv_name dst) of
        None \<Rightarrow> preserved_defs rest seen
      | Some family \<Rightarrow>
          if family \<in> seen then preserved_defs rest seen
          else insert dst (preserved_defs rest (insert family seen)))"

definition collect_preserved_return_defs :: "'g petgraph \<Rightarrow> 'g SSAFunction \<Rightarrow> VarKey set" where
  "collect_preserved_return_defs G f =
     (\<Union>block \<in> set (fn_blocks_in_order f).
        if returns_at G f (fb_addr block)
        then preserved_defs (List.map_filter sop_dst (rev (fb_ops block)) @ map pn_dst (rev (fb_phis block))) {}
        else {})"

definition collect_uses :: "'g petgraph \<Rightarrow> 'g SSAFunction \<Rightarrow> VarKey set" where
  "collect_uses G f =
     (\<Union>phi \<in> set (fn_all_phis f). snd ` set (pn_sources phi)) \<union>
     (\<Union>op \<in> set (fn_all_ops f). set (sop_sources op)) \<union>
     collect_preserved_return_defs G f"

definition live_op :: "bool \<Rightarrow> VarKey set \<Rightarrow> SSAOp \<Rightarrow> bool" where
  "live_op preserve_memory_reads use_set op =
     (case sop_dst op of
        Some dst \<Rightarrow> dst \<in> use_set \<or> op_has_side_effects op preserve_memory_reads
      | None \<Rightarrow> True)"

definition dce_block :: "bool \<Rightarrow> VarKey set \<Rightarrow> FunctionSSABlock \<Rightarrow> FunctionSSABlock" where
  "dce_block preserve_memory_reads use_set b =
     b\<lparr>fb_ops := filter (live_op preserve_memory_reads use_set) (fb_ops b),
       fb_phis := filter (\<lambda>phi. pn_dst phi \<in> use_set) (fb_phis b)\<rparr>"

definition dce_step ::
  "bool \<Rightarrow> VarKey set \<Rightarrow> u64 \<Rightarrow> FunctionSSABlock \<Rightarrow> OptimizationStats \<times> bool \<Rightarrow> (FunctionSSABlock \<times> OptimizationStats \<times> bool) option" where
  "dce_step preserve_memory_reads use_set addr b = (\<lambda>(st, changed).
     let b' = dce_block preserve_memory_reads use_set b;
         ops = length (fb_ops b) - length (fb_ops b');
         phis = length (fb_phis b) - length (fb_phis b')
     in Some (b', st\<lparr>os_dce_removed_ops := os_dce_removed_ops st + ops,
                    os_dce_removed_phis := os_dce_removed_phis st + phis\<rparr>, changed \<or> ops > 0 \<or> phis > 0))"

definition dce_round ::
  "'g petgraph \<Rightarrow> bool \<Rightarrow> 'g SSAFunction \<Rightarrow> OptimizationStats \<Rightarrow> ('g SSAFunction \<times> OptimizationStats \<times> bool) option" where
  "dce_round G preserve_memory_reads f stats =
     edit_blocks (dce_step preserve_memory_reads (collect_uses G f)) (fn_block_order f) f (stats, False)"

partial_function (option) dce_loop ::
  "'g petgraph \<Rightarrow> bool \<Rightarrow> 'g SSAFunction \<Rightarrow> OptimizationStats \<Rightarrow> bool \<Rightarrow> ('g SSAFunction \<times> OptimizationStats \<times> bool) option" where
  "dce_loop G preserve_memory_reads f stats changed =
     Option.bind (dce_round G preserve_memory_reads f stats) (\<lambda>(f1, st1, local_change).
       if local_change then dce_loop G preserve_memory_reads f1 st1 True else Some (f1, st1, changed))"

definition dead_code_elim ::
  "'g petgraph \<Rightarrow> OptimizationConfig \<Rightarrow> 'g SSAFunction \<Rightarrow> OptimizationStats \<Rightarrow> ('g SSAFunction \<times> OptimizationStats \<times> bool) option" where
  "dead_code_elim G config f stats = dce_loop G (oc_preserve_memory_reads config) f stats False"

section \<open>The pipeline\<close>

text \<open>A pass that is switched off leaves everything as it is.\<close>

definition run_pass ::
  "bool \<Rightarrow> ('g SSAFunction \<Rightarrow> OptimizationStats \<Rightarrow> ('g SSAFunction \<times> OptimizationStats \<times> bool) option) \<Rightarrow>
     'g SSAFunction \<times> OptimizationStats \<times> bool \<Rightarrow> ('g SSAFunction \<times> OptimizationStats \<times> bool) option" where
  "run_pass enabled pass = (\<lambda>(f, stats, changed).
     if enabled then map_option (\<lambda>(f', stats', c). (f', stats', changed \<or> c)) (pass f stats) else Some (f, stats, changed))"

definition const_prop_pass ::
  "'g petgraph \<Rightarrow> nat \<Rightarrow> 'g SSAFunction \<Rightarrow> OptimizationStats \<Rightarrow> ('g SSAFunction \<times> OptimizationStats \<times> bool) option" where
  "const_prop_pass G max_iters f stats =
     Option.bind (compute_constants f max_iters) (\<lambda>consts. replace_sources_with_constants G consts f stats)"

definition optimize_round ::
  "'g petgraph \<Rightarrow> OptimizationConfig \<Rightarrow> nat \<Rightarrow> 'g SSAFunction \<times> OptimizationStats \<Rightarrow>
     ('g SSAFunction \<times> OptimizationStats \<times> bool) option" where
  "optimize_round G config max_iters = (\<lambda>(f, stats).
     Option.bind (run_pass (oc_enable_const_prop config \<and> \<not> oc_enable_sccp config) (const_prop_pass G max_iters) (f, stats, False)) (\<lambda>s1.
     Option.bind (run_pass (oc_enable_inst_combine config) inst_combine s1) (\<lambda>s2.
     Option.bind (run_pass (oc_enable_cse config) common_subexpr_elim s2) (\<lambda>s3.
     Option.bind (run_pass (oc_enable_copy_prop config) (copy_propagation G) s3) (\<lambda>s4.
       run_pass (oc_enable_dce config) (dead_code_elim G config) s4)))))"

fun optimize_rounds ::
  "'g petgraph \<Rightarrow> OptimizationConfig \<Rightarrow> nat \<Rightarrow> nat \<Rightarrow> 'g SSAFunction \<times> OptimizationStats \<Rightarrow>
     ('g SSAFunction \<times> OptimizationStats) option" where
  "optimize_rounds G config max_iters 0 s = Some s"
| "optimize_rounds G config max_iters (Suc n) s =
     Option.bind (optimize_round G config max_iters s) (\<lambda>(f, stats, changed).
       let stats' = stats\<lparr>os_iterations := os_iterations stats + 1\<rparr>
       in if changed then optimize_rounds G config max_iters n (f, stats') else Some (f, stats'))"

definition optimize_function ::
  "'g petgraph \<Rightarrow> OptimizationConfig \<Rightarrow> 'g SSAFunction \<Rightarrow> ('g SSAFunction \<times> OptimizationStats) option" where
  "optimize_function G config f =
     (let max_iters = max (oc_max_iterations config) 1
      in Option.bind
           (if oc_enable_sccp config
            then Option.bind (sccp G f) (\<lambda>(consts, executable).
                   map_option (\<lambda>(f', stats, _). (f', stats)) (apply_sccp_results G consts executable f stats_default))
            else Some (f, stats_default))
           (optimize_rounds G config max_iters max_iters))"

end
