(* ===== verification/SSA_Sccp_Inv.thy ===== *)
theory SSA_Sccp_Inv
  imports SSA_Sccp SSA_Function_Props
begin

text \<open>
  The invariant of the propagation: every phi, operation and terminator of a visited block either
  agrees with the lattice or reads a variable that waits in the worklist.
\<close>

section \<open>The lattice\<close>

instantiation LatticeValue :: "{semilattice_inf, order_top}"
begin

definition inf_LatticeValue :: "LatticeValue \<Rightarrow> LatticeValue \<Rightarrow> LatticeValue" where
  "inf_LatticeValue = lv_meet"

definition top_LatticeValue :: LatticeValue where
  "top_LatticeValue = LTop"

definition less_eq_LatticeValue :: "LatticeValue \<Rightarrow> LatticeValue \<Rightarrow> bool" where
  "x \<le> y \<longleftrightarrow> lv_meet x y = (x :: LatticeValue)"

definition less_LatticeValue :: "LatticeValue \<Rightarrow> LatticeValue \<Rightarrow> bool" where
  "x < y \<longleftrightarrow> lv_meet x y = x \<and> x \<noteq> (y :: LatticeValue)"

instance
proof
  fix x y z :: LatticeValue
  show "x < y \<longleftrightarrow> x \<le> y \<and> \<not> y \<le> x" "x \<le> x" "inf x y \<le> x" "inf x y \<le> y" "x \<le> top"
    by (cases x; cases y; auto simp: less_LatticeValue_def less_eq_LatticeValue_def inf_LatticeValue_def top_LatticeValue_def)+
  show "x \<le> y \<Longrightarrow> y \<le> z \<Longrightarrow> x \<le> z" "x \<le> y \<Longrightarrow> x \<le> z \<Longrightarrow> x \<le> inf y z"
    by (cases x; cases y; cases z; auto simp: less_eq_LatticeValue_def inf_LatticeValue_def split: if_splits)+
  show "x \<le> y \<Longrightarrow> y \<le> x \<Longrightarrow> x = y"
    by (cases x; cases y; auto simp: less_eq_LatticeValue_def split: if_splits)
qed

end

lemma lv_meet_inf: "lv_meet = inf" by (simp add: inf_LatticeValue_def)

lemma LConst_le: "LConst c \<le> v \<longleftrightarrow> v = LTop \<or> v = LConst c"
  and LTop_le: "LTop \<le> v \<longleftrightarrow> v = LTop"
  and le_LBottom: "v \<le> LBottom \<longleftrightarrow> v = LBottom"
  and LBottom_le [simp]: "LBottom \<le> v"
  by (cases v; auto simp: less_eq_LatticeValue_def)+

section \<open>Sites\<close>

text \<open>
  A part of the program whose value is a function of what it reads; it is settled when its
  target lies below that value.
\<close>

locale dataflow_sites =
  fixes look :: "'l \<Rightarrow> 'k \<Rightarrow> 'v :: semilattice_inf"
    and val :: "'u \<Rightarrow> 'l \<Rightarrow> 'v option"
    and target :: "'u \<Rightarrow> 'k option"
    and reads :: "'u \<Rightarrow> 'k set"
  assumes val_local: "(\<And>k. k \<in> reads u \<Longrightarrow> look l k = look l' k) \<Longrightarrow> val u l = val u l'"
begin

definition settled :: "'u \<Rightarrow> 'l \<Rightarrow> bool" where
  "settled u l \<longleftrightarrow> (\<forall>d. target u = Some d \<longrightarrow> (\<exists>r. val u l = Some r \<and> look l d \<le> r))"

lemma settled_lower:
  assumes "settled u l" "\<And>k. look l' k \<le> look l k" "\<And>k. k \<in> reads u \<Longrightarrow> look l' k = look l k"
  shows "settled u l'"
proof -
  have "val u l' = val u l" by (rule val_local) (rule assms(3))
  then show ?thesis using assms(1,2) order_trans unfolding settled_def by metis
qed

lemma settled_meet:
  assumes "val u l = Some r" "target u = Some d" "look l' d = inf (look l d) r"
    and "\<And>k. k \<noteq> d \<Longrightarrow> look l' k = look l k" "d \<notin> reads u \<or> look l' d = look l d"
  shows "settled u l'"
proof -
  have "val u l' = val u l" by (rule val_local) (use assms(4,5) in \<open>metis\<close>)
  then show ?thesis using assms(1-3) unfolding settled_def by auto
qed

end

lemma get_lattice_value_cong:
  "(const_value v = None \<Longrightarrow> lat_of l v = lat_of l' v) \<Longrightarrow> get_lattice_value v l = get_lattice_value v l'"
  by (simp add: get_lattice_value_def split: option.splits)

lemma gather_sources_cong:
  "(\<And>v. v \<in> set srcs \<Longrightarrow> get_lattice_value v l = get_lattice_value v l') \<Longrightarrow>
     gather_sources l srcs has_top cs = gather_sources l' srcs has_top cs"
proof (induction srcs arbitrary: has_top cs)
  case (Cons v srcs)
  then have "get_lattice_value v l = get_lattice_value v l'" by simp
  then show ?case using Cons by (simp split: LatticeValue.split)
qed simp

interpretation op_site: dataflow_sites lat_of evaluate_op_sccp sop_dst "\<lambda>op. set (sop_sources op)"
proof
  fix op l l' assume "\<And>k. k \<in> set (sop_sources op) \<Longrightarrow> lat_of l k = lat_of l' k"
  then have "gather_sources l (sop_sources op) False [] = gather_sources l' (sop_sources op) False []"
    by (intro gather_sources_cong get_lattice_value_cong)
  then show "evaluate_op_sccp op l = evaluate_op_sccp op l'" by (simp add: evaluate_op_sccp_def)
qed

lemma evaluate_phi_cong:
  assumes "\<And>p v. (p, v) \<in> set (pn_sources phi) \<Longrightarrow> lat_of l v = lat_of l' v"
    and "\<And>p. (p, a) \<in> X \<longleftrightarrow> (p, a) \<in> Y"
  shows "evaluate_phi_sccp phi X l a = evaluate_phi_sccp phi Y l' a"
  unfolding evaluate_phi_sccp_def
  using assms by (intro foldl_cong) (auto intro!: arg_cong2 [where f = lv_meet] get_lattice_value_cong)

interpretation phi_site: dataflow_sites lat_of "\<lambda>phi l. Some (evaluate_phi_sccp phi X l a)"
    "\<lambda>phi. Some (pn_dst phi)" "\<lambda>phi. snd ` set (pn_sources phi)" for X a
  by standard (simp, rule evaluate_phi_cong, force, simp)

section \<open>Sites of a function\<close>

text \<open>A phi or operation of a block, or its terminator.\<close>

datatype site = PhiSite u64 PhiNode | OpSite u64 SSAOp | TermSite u64

fun site_block :: "site \<Rightarrow> u64" where
  "site_block (PhiSite a _) = a"
| "site_block (OpSite a _) = a"
| "site_block (TermSite a) = a"

fun site_in :: "'g SSAFunction \<Rightarrow> site \<Rightarrow> bool" where
  "site_in f (PhiSite a phi) = (\<exists>b. fn_get_block f a = Some b \<and> phi \<in> set (fb_phis b))"
| "site_in f (OpSite a op) = (\<exists>b. fn_get_block f a = Some b \<and> op \<in> set (fb_ops b))"
| "site_in f (TermSite a) = (fn_get_block f a \<noteq> None)"

definition branch_reads :: "'g SSAFunction \<Rightarrow> u64 \<Rightarrow> SSAVar set" where
  "branch_reads f a = (case fn_get_block f a of None \<Rightarrow> {} | Some b \<Rightarrow> set_option (last_cbranch (fb_ops b)))"

fun site_reads :: "'g SSAFunction \<Rightarrow> site \<Rightarrow> SSAVar set" where
  "site_reads f (PhiSite _ phi) = snd ` set (pn_sources phi)"
| "site_reads f (OpSite _ op) = set (sop_sources op)"
| "site_reads f (TermSite a) = branch_reads f a"

fun site_ok :: "'g petgraph \<Rightarrow> 'g SSAFunction \<Rightarrow> sccp_state \<Rightarrow> site \<Rightarrow> bool" where
  "site_ok G f s (PhiSite a phi) = phi_site.settled (sc_executable s) a phi (sc_lattice s)"
| "site_ok G f s (OpSite a op) = op_site.settled op (sc_lattice s)"
| "site_ok G f s (TermSite a) =
     (set (evaluate_terminator_sccp G f a (sc_lattice s)) \<subseteq> sc_executable s \<union> set (sc_cfg s))"

text \<open>All sites of the blocks \<open>V\<close> outside \<open>U\<close> are settled or will be looked at again.\<close>

definition sites_ok :: "'g petgraph \<Rightarrow> 'g SSAFunction \<Rightarrow> u64 set \<Rightarrow> site set \<Rightarrow> sccp_state \<Rightarrow> bool" where
  "sites_ok G f V U s \<longleftrightarrow>
     (\<forall>x. site_in f x \<and> site_block x \<in> V \<and> x \<notin> U \<longrightarrow> site_ok G f s x \<or> site_reads f x \<inter> set (sc_ssa s) \<noteq> {})"

lemma sites_okI:
  "(\<And>x. site_in f x \<Longrightarrow> site_block x \<in> V \<Longrightarrow> x \<notin> U \<Longrightarrow> site_reads f x \<inter> set (sc_ssa s) = {} \<Longrightarrow> site_ok G f s x) \<Longrightarrow>
     sites_ok G f V U s"
  by (auto simp: sites_ok_def)

lemma sites_okD:
  "sites_ok G f V U s \<Longrightarrow> site_in f x \<Longrightarrow> site_block x \<in> V \<Longrightarrow> x \<notin> U \<Longrightarrow> site_reads f x \<inter> set (sc_ssa s) = {} \<Longrightarrow>
     site_ok G f s x"
  by (auto simp: sites_ok_def)

lemma sites_ok_mono: "sites_ok G f V U s \<Longrightarrow> U \<subseteq> U' \<Longrightarrow> V' \<subseteq> V \<Longrightarrow> sites_ok G f V' U' s"
  by (auto simp: sites_ok_def)

lemma find_cbranch_condition_cong:
  "(\<And>k. k \<in> branch_reads f a \<Longrightarrow> lat_of l k = lat_of l' k) \<Longrightarrow>
     find_cbranch_condition f a l = find_cbranch_condition f a l'"
  by (auto simp: find_cbranch_condition_def branch_reads_def split: option.splits intro!: get_lattice_value_cong)

lemma evaluate_terminator_cong:
  "(\<And>k. k \<in> branch_reads f a \<Longrightarrow> lat_of l k = lat_of l' k) \<Longrightarrow>
     evaluate_terminator_sccp G f a l = evaluate_terminator_sccp G f a l'"
  unfolding evaluate_terminator_sccp_def by (subst find_cbranch_condition_cong [of f a l l']) simp_all

text \<open>A site stays settled while what it reads is left alone.\<close>

lemma site_ok_lower:
  assumes "site_ok G f s x" "\<And>k. lat_of (sc_lattice s') k \<le> lat_of (sc_lattice s) k"
    and "\<And>k. k \<in> site_reads f x \<Longrightarrow> lat_of (sc_lattice s') k = lat_of (sc_lattice s) k"
    and "sc_executable s' = sc_executable s"
    and "sc_executable s \<union> set (sc_cfg s) \<subseteq> sc_executable s' \<union> set (sc_cfg s')"
  shows "site_ok G f s' x"
proof (cases x)
  case (PhiSite a phi)
  then show ?thesis
    using phi_site.settled_lower [OF _ assms(2), of "sc_executable s" a phi] assms(1,3,4) by simp
next
  case (OpSite a op)
  then show ?thesis using op_site.settled_lower [OF _ assms(2), of op] assms(1,3) by simp
next
  case (TermSite a)
  then have "evaluate_terminator_sccp G f a (sc_lattice s') = evaluate_terminator_sccp G f a (sc_lattice s)"
    using assms(3) by (intro evaluate_terminator_cong) simp
  then show ?thesis using TermSite assms(1,4,5) by auto
qed

section \<open>Assignments\<close>

lemma lat_of_insert: "lat_of (hm_insert k v l) j = (if j = k then v else lat_of l j)"
  by (simp add: lat_of_def hm_get_insert)

lemma sccp_assign_lattice:
  "lat_of (sc_lattice (sccp_assign s d r)) k =
     (if k = d then inf (lat_of (sc_lattice s) d) r else lat_of (sc_lattice s) k)"
  by (auto simp: sccp_assign_def update_lattice_def lat_of_insert lv_meet_inf Let_def)

lemma sccp_assign_frame [simp]:
  "sc_executable (sccp_assign s d r) = sc_executable s" "sc_visited (sccp_assign s d r) = sc_visited s"
  "sc_cfg (sccp_assign s d r) = sc_cfg s"
  by (simp_all add: sccp_assign_def update_lattice_def Let_def)

lemma sccp_assign_ssa:
  "sc_ssa (sccp_assign s d r) =
     sc_ssa s @ (if lat_of (sc_lattice (sccp_assign s d r)) d \<noteq> lat_of (sc_lattice s) d then [d] else [])"
  by (auto simp: sccp_assign_def update_lattice_def lat_of_insert Let_def)

text \<open>The value a phi or an operation evaluates to, and where it goes.\<close>

fun site_value :: "sccp_state \<Rightarrow> site \<Rightarrow> LatticeValue option" where
  "site_value s (PhiSite a phi) = Some (evaluate_phi_sccp phi (sc_executable s) (sc_lattice s) a)"
| "site_value s (OpSite a op) = evaluate_op_sccp op (sc_lattice s)"
| "site_value s (TermSite a) = None"

fun site_target :: "site \<Rightarrow> SSAVar option" where
  "site_target (PhiSite a phi) = Some (pn_dst phi)"
| "site_target (OpSite a op) = sop_dst op"
| "site_target (TermSite a) = None"

lemma sites_ok_assign:
  assumes ok: "sites_ok G f V U s" and d: "site_target x = Some d" and r: "site_value s x = Some r"
  shows "sites_ok G f V (U - {x}) (sccp_assign s d r)"
proof (rule sites_okI)
  let ?s = "sccp_assign s d r"
  fix y assume y: "site_in f y" "site_block y \<in> V" "y \<notin> U - {x}" "site_reads f y \<inter> set (sc_ssa ?s) = {}"
  have sub: "set (sc_ssa s) \<subseteq> set (sc_ssa ?s)" by (simp add: sccp_assign_ssa)
  have same: "d \<notin> site_reads f y \<or> lat_of (sc_lattice ?s) d = lat_of (sc_lattice s) d"
    using y(4) by (auto simp: sccp_assign_ssa split: if_splits)
  have low: "lat_of (sc_lattice ?s) k \<le> lat_of (sc_lattice s) k" for k by (simp add: sccp_assign_lattice)
  show "site_ok G f ?s y"
  proof (cases "y = x")
    case False
    then have "site_ok G f s y" using y sub by (intro sites_okD [OF ok]) auto
    then show ?thesis by (rule site_ok_lower) (use low same in \<open>auto simp: sccp_assign_lattice\<close>)
  next
    case True
    show ?thesis
    proof (cases x)
      case (PhiSite a phi)
      then show ?thesis
        using True d r same
        by (auto simp: sccp_assign_lattice intro!: phi_site.settled_meet [where d = d and l = "sc_lattice s"])
    next
      case (OpSite a op)
      then show ?thesis
        using True d r same
        by (auto simp: sccp_assign_lattice intro!: op_site.settled_meet [where d = d and l = "sc_lattice s"])
    qed (use d in simp)
  qed
qed

end
