(* ===== verification/SSA_Sccp_Steps.thy ===== *)
theory SSA_Sccp_Steps
  imports SSA_Sccp_Inv
begin

text \<open>
  The steps of the propagation keep the invariant of \<open>SSA_Sccp_Inv\<close>, only lower the lattice, and
  make progress.
\<close>

section \<open>Programs that may panic\<close>

definition signed_division :: "SSAOp \<Rightarrow> bool" where
  "signed_division op = (case op of IntSDiv _ _ _ \<Rightarrow> True | IntSRem _ _ _ \<Rightarrow> True | _ \<Rightarrow> False)"

definition has_signed_division :: "'g SSAFunction \<Rightarrow> bool" where
  "has_signed_division f \<longleftrightarrow> list_ex (\<lambda>(a, b). list_ex signed_division (fb_ops b)) (fn_blocks f)"

text \<open>A computation returns with \<open>P\<close>, unless the function has an operation that can panic.\<close>

definition returns :: "'g SSAFunction \<Rightarrow> 'a option \<Rightarrow> ('a \<Rightarrow> bool) \<Rightarrow> bool" where
  "returns f m P = (case m of None \<Rightarrow> has_signed_division f | Some r \<Rightarrow> P r)"

lemma returns_Some [simp]: "returns f (Some r) P = P r"
  by (simp add: returns_def)

lemma returns_bind: "returns f m P \<Longrightarrow> (\<And>r. P r \<Longrightarrow> returns f (k r) Q) \<Longrightarrow> returns f (Option.bind m k) Q"
  by (cases m) (simp_all add: returns_def)

lemma returns_map: "returns f (map_option g m) P = returns f m (\<lambda>r. P (g r))"
  by (auto simp: returns_def split: option.splits)

lemma returns_mono: "returns f m P \<Longrightarrow> (\<And>r. P r \<Longrightarrow> Q r) \<Longrightarrow> returns f m Q"
  by (auto simp: returns_def split: option.splits)

lemma fold_value_total: "\<not> signed_division op \<Longrightarrow> fold_value get bits op \<noteq> None"
  by (cases op) (simp_all add: signed_division_def fold_value_def Let_def with_const_def split: option.split)

lemma eval_const_op_total: "\<not> signed_division op \<Longrightarrow> eval_const_op op cs \<noteq> None"
  using fold_value_total by (simp add: eval_const_op_def Let_def split: option.split)

lemma has_signed_divisionI:
  "fn_get_block f a = Some b \<Longrightarrow> op \<in> set (fb_ops b) \<Longrightarrow> signed_division op \<Longrightarrow> has_signed_division f"
  unfolding has_signed_division_def fn_get_block_def hm_get_def list_ex_iff by (force dest: map_of_SomeD)

lemma returns_evaluate_op:
  assumes "site_in f (OpSite a op)"
  shows "returns f (evaluate_op_sccp op l) (\<lambda>r. evaluate_op_sccp op l = Some r)"
proof (cases "signed_division op")
  case True
  then show ?thesis using assms has_signed_divisionI by (auto simp: returns_def split: option.split)
next
  case False
  then have "evaluate_op_sccp op l \<noteq> None"
    using eval_const_op_total [OF False] by (auto simp: evaluate_op_sccp_def split: option.split)
  then show ?thesis by (auto simp: returns_def)
qed

section \<open>Lowering\<close>

definition fn_targets :: "'g SSAFunction \<Rightarrow> SSAVar set" where
  "fn_targets f = {d. \<exists>x. site_in f x \<and> site_target x = Some d}"

lemma finite_fn_targets: "finite (fn_targets f)"
proof (rule finite_subset)
  show "fn_targets f \<subseteq> (\<Union>b \<in> snd ` set (fn_blocks f). pn_dst ` set (fb_phis b) \<union> (\<Union>op \<in> set (fb_ops b). set_option (sop_dst op)))"
  proof
    fix d assume "d \<in> fn_targets f"
    then obtain x where "site_in f x" "site_target x = Some d" by (auto simp: fn_targets_def)
    then show "d \<in> (\<Union>b \<in> snd ` set (fn_blocks f). pn_dst ` set (fb_phis b) \<union> (\<Union>op \<in> set (fb_ops b). set_option (sop_dst op)))"
      by (cases x) (force simp: fn_get_block_def hm_get_def dest: map_of_SomeD)+
  qed
qed auto

definition lowers :: "'g SSAFunction \<Rightarrow> sccp_state \<Rightarrow> sccp_state \<Rightarrow> bool" where
  "lowers f s s' \<longleftrightarrow>
     (hm_ok (sc_lattice s) \<longrightarrow> hm_ok (sc_lattice s')) \<and>
     (\<forall>k. lat_of (sc_lattice s') k \<le> lat_of (sc_lattice s) k) \<and>
     (\<forall>k. k \<notin> fn_targets f \<longrightarrow> lat_of (sc_lattice s') k = lat_of (sc_lattice s) k) \<and>
     (sc_ssa s' = sc_ssa s \<or> (\<exists>k. lat_of (sc_lattice s') k \<noteq> lat_of (sc_lattice s) k))"

lemma lowers_refl [simp]: "lowers f s s"
  by (simp add: lowers_def)

lemma lowers_cong:
  "lowers f s s' \<Longrightarrow> sc_lattice s2 = sc_lattice s' \<Longrightarrow> sc_ssa s2 = sc_ssa s' \<Longrightarrow> lowers f s s2"
  "lowers f s s' \<Longrightarrow> sc_lattice s2 = sc_lattice s \<Longrightarrow> sc_ssa s2 = sc_ssa s \<Longrightarrow> lowers f s2 s'"
  by (simp_all add: lowers_def)

lemma lowers_trans:
  assumes "lowers f s s'" "lowers f s' s''" shows "lowers f s s''"
  unfolding lowers_def
proof (intro conjI allI impI)
  fix k
  show "lat_of (sc_lattice s'') k \<le> lat_of (sc_lattice s) k"
    using assms unfolding lowers_def by (meson order_trans)
next
  show "sc_ssa s'' = sc_ssa s \<or> (\<exists>k. lat_of (sc_lattice s'') k \<noteq> lat_of (sc_lattice s) k)"
  proof (rule ccontr)
    assume *: "\<not> ?thesis"
    then have "lat_of (sc_lattice s') k = lat_of (sc_lattice s) k" "lat_of (sc_lattice s'') k = lat_of (sc_lattice s') k" for k
      using assms antisym unfolding lowers_def by metis+
    then show False using * assms unfolding lowers_def by auto
  qed
qed (use assms in \<open>auto simp: lowers_def\<close>)

lemma lowers_assign:
  assumes "site_in f x" "site_target x = Some d"
  shows "lowers f s (sccp_assign s d r)"
proof -
  have "hm_ok (sc_lattice s) \<longrightarrow> hm_ok (sc_lattice (sccp_assign s d r))"
    by (simp add: sccp_assign_def update_lattice_def Let_def hm_ok_insert)
  moreover have "d \<in> fn_targets f" using assms by (auto simp: fn_targets_def)
  ultimately show ?thesis
    unfolding lowers_def sccp_assign_ssa by (auto simp: sccp_assign_lattice)
qed

fun lv_height :: "LatticeValue \<Rightarrow> nat" where
  "lv_height LTop = 2"
| "lv_height (LConst _) = 1"
| "lv_height LBottom = 0"

lemma lv_height_less: "x < y \<Longrightarrow> lv_height x < lv_height y"
  by (cases x; cases y) (auto simp: less_LatticeValue_def split: if_splits)

definition lattice_height :: "'g SSAFunction \<Rightarrow> sccp_state \<Rightarrow> nat" where
  "lattice_height f s = (\<Sum>k \<in> fn_targets f. lv_height (lat_of (sc_lattice s) k))"

lemma lattice_height_less:
  assumes "lowers f s s'" "sc_ssa s' \<noteq> sc_ssa s"
  shows "lattice_height f s' < lattice_height f s"
proof -
  have le: "lv_height (lat_of (sc_lattice s') k) \<le> lv_height (lat_of (sc_lattice s) k)" for k
    using assms(1) lv_height_less unfolding lowers_def by (metis order.strict_iff_order order_refl nat_less_le)
  obtain k where k: "lat_of (sc_lattice s') k \<noteq> lat_of (sc_lattice s) k" "k \<in> fn_targets f"
    using assms unfolding lowers_def by auto
  then have "lat_of (sc_lattice s') k < lat_of (sc_lattice s) k"
    using assms(1) unfolding lowers_def by (simp add: order.strict_iff_order)
  then show ?thesis
    unfolding lattice_height_def
    using k(2) le by (intro sum_strict_mono_ex1 [OF finite_fn_targets]) (auto intro: lv_height_less)
qed

section \<open>Steps on the sites of a block\<close>

text \<open>What a pass over phis and operations leaves alone.\<close>

definition same_edges :: "sccp_state \<Rightarrow> sccp_state \<Rightarrow> bool" where
  "same_edges s s' \<longleftrightarrow> sc_executable s' = sc_executable s \<and> sc_visited s' = sc_visited s \<and> sc_cfg s' = sc_cfg s"

lemma sccp_phis_ok:
  assumes "sites_ok G f V U s" "\<And>phi. phi \<in> set phis \<Longrightarrow> site_in f (PhiSite a phi)"
  shows "sites_ok G f V (U - PhiSite a ` set phis) (foldl (sccp_phi a) s phis)
     \<and> lowers f s (foldl (sccp_phi a) s phis) \<and> same_edges s (foldl (sccp_phi a) s phis)"
  using assms
proof (induction phis arbitrary: s U)
  case (Cons phi phis)
  let ?s = "sccp_phi a s phi"
  have "sites_ok G f V (U - {PhiSite a phi}) ?s"
    unfolding sccp_phi_def by (rule sites_ok_assign [OF Cons.prems(1)]) simp_all
  note step = Cons.IH [OF this]
  have "lowers f s ?s"
    unfolding sccp_phi_def by (rule lowers_assign [of f "PhiSite a phi"]) (use Cons.prems(2) in auto)
  then show ?case
    using step Cons.prems(2) lowers_trans
    by (auto simp: same_edges_def sccp_phi_def Diff_insert2 [symmetric])
qed (simp add: same_edges_def)

lemma sites_ok_no_target:
  assumes "sites_ok G f V U s" "sop_dst op = None"
  shows "sites_ok G f V (U - {OpSite a op}) s"
proof (rule sites_okI)
  fix x assume "site_in f x" "site_block x \<in> V" "x \<notin> U - {OpSite a op}" "site_reads f x \<inter> set (sc_ssa s) = {}"
  then show "site_ok G f s x"
    using assms(2) sites_okD [OF assms(1), of x] by (cases "x = OpSite a op") (simp_all add: op_site.settled_def)
qed

lemma sccp_op_ok:
  assumes "sites_ok G f V U s" "site_in f (OpSite a op)"
  shows "returns f (sccp_op op s) (\<lambda>s'. sites_ok G f V (U - {OpSite a op}) s' \<and> lowers f s s' \<and> same_edges s s')"
proof (cases "sop_dst op")
  case None
  then show ?thesis using sites_ok_no_target [OF assms(1)] by (simp add: sccp_op_def same_edges_def)
next
  case (Some d)
  have "sites_ok G f V (U - {OpSite a op}) (sccp_assign s d r) \<and> lowers f s (sccp_assign s d r) \<and>
      same_edges s (sccp_assign s d r)" if "evaluate_op_sccp op (sc_lattice s) = Some r" for r
    using sites_ok_assign [OF assms(1), of "OpSite a op" d r] lowers_assign [OF assms(2)] Some that
    by (simp add: same_edges_def)
  then show ?thesis
    by (simp add: sccp_op_def Some returns_map returns_mono [OF returns_evaluate_op [OF assms(2)]])
qed

lemma sccp_ops_ok:
  assumes "sites_ok G f V U s" "\<And>op. op \<in> set ops \<Longrightarrow> site_in f (OpSite a op)"
  shows "returns f (sccp_ops ops s)
     (\<lambda>s'. sites_ok G f V (U - OpSite a ` set ops) s' \<and> lowers f s s' \<and> same_edges s s')"
  using assms
proof (induction ops arbitrary: s U)
  case (Cons op ops)
  have "returns f (sccp_op op s) (\<lambda>s'. sites_ok G f V (U - {OpSite a op}) s' \<and> lowers f s s' \<and> same_edges s s')"
    using Cons.prems by (intro sccp_op_ok) auto
  then show ?case
  proof (simp, elim returns_bind conjE)
    fix s1 assume s1: "sites_ok G f V (U - {OpSite a op}) s1" "lowers f s s1" "same_edges s s1"
    show "returns f (sccp_ops ops s1)
        (\<lambda>s'. sites_ok G f V (U - insert (OpSite a op) (OpSite a ` set ops)) s' \<and> lowers f s s' \<and> same_edges s s')"
      using Cons.IH [OF s1(1)] Cons.prems(2) s1(2,3) lowers_trans
      by (auto simp: same_edges_def Diff_insert2 [symmetric] elim!: returns_mono)
  qed
qed (simp add: same_edges_def)

lemma sccp_terminator_ok:
  assumes "sites_ok G f V U s"
  shows "sites_ok G f V (U - {TermSite a}) (sccp_terminator G f a s)"
proof (rule sites_okI)
  let ?s = "sccp_terminator G f a s"
  fix x assume x: "site_in f x" "site_block x \<in> V" "x \<notin> U - {TermSite a}" "site_reads f x \<inter> set (sc_ssa ?s) = {}"
  show "site_ok G f ?s x"
  proof (cases "x = TermSite a")
    case False
    then have "site_ok G f s x"
      using x by (intro sites_okD [OF assms]) (auto simp: sccp_terminator_def)
    then show ?thesis by (rule site_ok_lower) (auto simp: sccp_terminator_def)
  qed (auto simp: sccp_terminator_def)
qed

text \<open>Taking an edge off the worklist makes it executable; the phis of its target have to be looked at.\<close>

lemma sites_ok_edge:
  assumes "sites_ok G f V U s" "sc_cfg s = (p, b) # rest"
  shows "sites_ok G f V (U \<union> range (PhiSite b))
     (s\<lparr>sc_cfg := rest, sc_executable := insert (p, b) (sc_executable s)\<rparr>)"
proof (rule sites_okI)
  let ?s = "s\<lparr>sc_cfg := rest, sc_executable := insert (p, b) (sc_executable s)\<rparr>"
  fix x assume x: "site_in f x" "site_block x \<in> V" "x \<notin> U \<union> range (PhiSite b)" "site_reads f x \<inter> set (sc_ssa ?s) = {}"
  then have ok: "site_ok G f s x" by (intro sites_okD [OF assms(1)]) auto
  show "site_ok G f ?s x"
  proof (cases x)
    case (PhiSite a phi)
    then have "a \<noteq> b" using x(3) by auto
    then have "evaluate_phi_sccp phi (insert (p, b) (sc_executable s)) (sc_lattice s) a =
        evaluate_phi_sccp phi (sc_executable s) (sc_lattice s) a"
      by (intro evaluate_phi_cong) auto
    then show ?thesis using PhiSite ok by (simp add: phi_site.settled_def)
  qed (use ok assms(2) in auto)
qed

section \<open>The invariant\<close>

text \<open>The edges a terminator can ever be found to take.\<close>

definition branch_targets :: "'g petgraph \<Rightarrow> 'g SSAFunction \<Rightarrow> u64 \<Rightarrow> u64 set" where
  "branch_targets G f a =
     (case get_block G (fn_cfg f) a of
        None \<Rightarrow> {}
      | Some cb \<Rightarrow>
          (case bb_terminator cb of
             TermConditionalBranch t e \<Rightarrow> {t, e}
           | _ \<Rightarrow> set (cfg_successors G (fn_cfg f) a)))"

definition candidate_edges :: "'g petgraph \<Rightarrow> 'g SSAFunction \<Rightarrow> (u64 \<times> u64) set" where
  "candidate_edges G f = insert (- 1, fn_entry f) (SIGMA a : fst ` set (fn_blocks f). branch_targets G f a)"

lemma finite_candidate_edges: "finite (candidate_edges G f)"
  by (simp add: candidate_edges_def branch_targets_def split: option.split BlockTerminator.split)

lemma evaluate_terminator_targets: "set (evaluate_terminator_sccp G f a l) \<subseteq> {a} \<times> branch_targets G f a"
proof (cases "get_block G (fn_cfg f) a")
  case (Some cb)
  then show ?thesis
    by (cases "bb_terminator cb"; cases "find_cbranch_condition f a l")
      (simp_all add: evaluate_terminator_sccp_def branch_targets_def image_subset_iff)
qed (simp add: evaluate_terminator_sccp_def)

lemma evaluate_terminator_candidates:
  assumes "fn_get_block f a \<noteq> None"
  shows "set (evaluate_terminator_sccp G f a l) \<subseteq> candidate_edges G f"
proof -
  have "a \<in> fst ` set (fn_blocks f)" using assms by (simp add: fn_get_block_def hm_get_None)
  then show ?thesis using evaluate_terminator_targets [of G f a l] by (auto simp: candidate_edges_def)
qed

definition fn_inputs :: "'g SSAFunction \<Rightarrow> SSAVar set" where
  "fn_inputs f = {v. sv_version v = 0 \<and> \<not> ssa_is_const v \<and>
     (\<exists>x. site_in f x \<and> (v \<in> site_reads f x \<or> site_target x = Some v))}"

definition sccp_wf :: "'g petgraph \<Rightarrow> 'g SSAFunction \<Rightarrow> sccp_state \<Rightarrow> bool" where
  "sccp_wf G f s \<longleftrightarrow>
     sc_executable s \<union> set (sc_cfg s) \<subseteq> candidate_edges G f \<and>
     (- 1, fn_entry f) \<in> sc_executable s \<union> set (sc_cfg s) \<and>
     (\<forall>p b. (p, b) \<in> sc_executable s \<longrightarrow> fn_get_block f b \<noteq> None \<longrightarrow> b \<in> sc_visited s) \<and>
     hm_ok (sc_lattice s) \<and> (\<forall>v \<in> fn_inputs f. lat_of (sc_lattice s) v = LBottom) \<and>
     (\<forall>k c. lat_of (sc_lattice s) k = LConst c \<longrightarrow> k \<in> fn_targets f)"

definition sccp_inv :: "'g petgraph \<Rightarrow> 'g SSAFunction \<Rightarrow> sccp_state \<Rightarrow> bool" where
  "sccp_inv G f s \<longleftrightarrow> sccp_wf G f s \<and> sites_ok G f (sc_visited s) {} s"

definition open_edges :: "'g petgraph \<Rightarrow> 'g SSAFunction \<Rightarrow> sccp_state \<Rightarrow> nat" where
  "open_edges G f s = card (candidate_edges G f - sc_executable s)"

lemma sccp_wf_lowers:
  assumes "sccp_wf G f s" "lowers f s s'" "sc_executable s' = sc_executable s" "sc_visited s' = sc_visited s"
    and "set (sc_cfg s) \<subseteq> set (sc_cfg s')" "set (sc_cfg s') \<subseteq> candidate_edges G f"
  shows "sccp_wf G f s'"
proof -
  have "lat_of (sc_lattice s') v = LBottom" if "v \<in> fn_inputs f" for v
    using that assms(1,2) le_LBottom unfolding sccp_wf_def lowers_def by metis
  moreover have "k \<in> fn_targets f" if "lat_of (sc_lattice s') k = LConst c" for k c
    using that assms(1,2) unfolding sccp_wf_def lowers_def by metis
  ultimately show ?thesis using assms unfolding sccp_wf_def lowers_def by auto
qed

lemma sccp_terminator_frame [simp]:
  "sc_executable (sccp_terminator G f a s) = sc_executable s" "sc_visited (sccp_terminator G f a s) = sc_visited s"
  "sc_lattice (sccp_terminator G f a s) = sc_lattice s" "sc_ssa (sccp_terminator G f a s) = sc_ssa s"
  "set (sc_cfg (sccp_terminator G f a s)) = set (sc_cfg s) \<union> set (evaluate_terminator_sccp G f a (sc_lattice s))"
  by (simp_all add: sccp_terminator_def)

section \<open>A round of the control flow loop\<close>

lemma site_ok_visited [simp]: "site_ok G f (s\<lparr>sc_visited := W\<rparr>) x = site_ok G f s x"
  by (cases x) simp_all

lemma sites_ok_visited [simp]: "sites_ok G f V U (s\<lparr>sc_visited := W\<rparr>) = sites_ok G f V U s"
  by (simp add: sites_ok_def)

text \<open>The sites of a block, in the order they are processed on the first visit.\<close>

lemma sites_of_block:
  assumes "fn_get_block f a = Some b" "site_in f x" "site_block x = a"
  shows "x \<in> PhiSite a ` set (fb_phis b) \<union> OpSite a ` set (fb_ops b) \<union> {TermSite a}"
  using assms by (cases x) auto

lemma first_visit_ok:
  assumes "fn_get_block f a = Some b" "sites_ok G f V (range (PhiSite a)) s"
  shows "returns f (sccp_ops (fb_ops b) ((foldl (sccp_phi a) s (fb_phis b))\<lparr>sc_visited := W\<rparr>))
     (\<lambda>s'. sites_ok G f (insert a V) {} (sccp_terminator G f a s') \<and> lowers f s s' \<and>
        sc_executable s' = sc_executable s \<and> sc_visited s' = W \<and> sc_cfg s' = sc_cfg s)"
proof -
  let ?P = "PhiSite a ` set (fb_phis b)" and ?O = "OpSite a ` set (fb_ops b)"
  let ?s = "foldl (sccp_phi a) s (fb_phis b)"
  have "sites_ok G f (insert a V) (?P \<union> ?O \<union> {TermSite a}) s"
  proof (rule sites_okI)
    fix x assume x: "site_in f x" "site_block x \<in> insert a V" "x \<notin> ?P \<union> ?O \<union> {TermSite a}" "site_reads f x \<inter> set (sc_ssa s) = {}"
    then have "site_block x \<noteq> a" using sites_of_block [OF assms(1) x(1)] by blast
    then show "site_ok G f s x" using x by (intro sites_okD [OF assms(2)]) auto
  qed
  from sccp_phis_ok [OF this, of "fb_phis b" a] assms(1)
  have phis: "sites_ok G f (insert a V) (?O \<union> {TermSite a}) ?s" "lowers f s ?s" "same_edges s ?s"
    using sites_ok_mono [of G f "insert a V" "?P \<union> ?O \<union> {TermSite a} - ?P" ?s "?O \<union> {TermSite a}"] by auto
  then have "sites_ok G f (insert a V) (?O \<union> {TermSite a}) (?s\<lparr>sc_visited := W\<rparr>)" by simp
  then have "returns f (sccp_ops (fb_ops b) (?s\<lparr>sc_visited := W\<rparr>)) (\<lambda>s'.
      sites_ok G f (insert a V) (?O \<union> {TermSite a} - ?O) s' \<and> lowers f (?s\<lparr>sc_visited := W\<rparr>) s' \<and>
      same_edges (?s\<lparr>sc_visited := W\<rparr>) s')"
    by (rule sccp_ops_ok) (use assms(1) in auto)
  then have ops: "returns f (sccp_ops (fb_ops b) (?s\<lparr>sc_visited := W\<rparr>)) (\<lambda>s'.
      sites_ok G f (insert a V) {TermSite a} s' \<and> lowers f (?s\<lparr>sc_visited := W\<rparr>) s' \<and> same_edges (?s\<lparr>sc_visited := W\<rparr>) s')"
    by (rule returns_mono) (blast intro: sites_ok_mono)
  have low: "lowers f s (?s\<lparr>sc_visited := W\<rparr>)" using phis(2) by (rule lowers_cong) simp_all
  show ?thesis
    using sccp_terminator_ok [of G f "insert a V" "{TermSite a}" _ a] lowers_trans [OF low] phis(3)
    by (intro returns_mono [OF ops]) (auto simp: same_edges_def)
qed

lemma sites_ok_phis_done:
  assumes "sites_ok G f V U s" "U \<subseteq> range (PhiSite a)" "\<And>phi. site_in f (PhiSite a phi) \<Longrightarrow> PhiSite a phi \<notin> U"
  shows "sites_ok G f V {} s"
proof (rule sites_okI)
  fix x assume x: "site_in f x" "site_block x \<in> V" "site_reads f x \<inter> set (sc_ssa s) = {}"
  then have "x \<notin> U" using assms(2,3) by blast
  then show "site_ok G f s x" using x by (intro sites_okD [OF assms(1)])
qed

lemma sites_ok_drop_edge:
  assumes "sites_ok G f V U s" "sc_cfg s = e # rest" "e \<in> sc_executable s"
  shows "sites_ok G f V U (s\<lparr>sc_cfg := rest\<rparr>)"
proof (rule sites_okI)
  fix x assume x: "site_in f x" "site_block x \<in> V" "x \<notin> U" "site_reads f x \<inter> set (sc_ssa (s\<lparr>sc_cfg := rest\<rparr>)) = {}"
  then have "site_ok G f s x" by (intro sites_okD [OF assms(1)]) auto
  then show "site_ok G f (s\<lparr>sc_cfg := rest\<rparr>) x" by (rule site_ok_lower) (use assms(2,3) in auto)
qed

lemma sccp_wf_edge:
  assumes "sccp_wf G f s" "sc_cfg s = (p, b) # rest"
    and "sc_executable s' = insert (p, b) (sc_executable s)" "lowers f s s'"
    and "sc_visited s' = (if fn_get_block f b = None then sc_visited s else insert b (sc_visited s))"
    and "set rest \<subseteq> set (sc_cfg s')" "set (sc_cfg s') \<subseteq> candidate_edges G f"
  shows "sccp_wf G f s'"
proof -
  have "lat_of (sc_lattice s') v = LBottom" if "v \<in> fn_inputs f" for v
    using that assms(1,4) le_LBottom unfolding sccp_wf_def lowers_def by metis
  moreover have "k \<in> fn_targets f" if "lat_of (sc_lattice s') k = LConst c" for k c
    using that assms(1,4) unfolding sccp_wf_def lowers_def by metis
  ultimately show ?thesis using assms unfolding sccp_wf_def lowers_def by auto
qed

lemma open_edges_less:
  assumes "e \<in> candidate_edges G f" "e \<notin> sc_executable s" "sc_executable s' = insert e (sc_executable s)"
  shows "open_edges G f s' < open_edges G f s"
  unfolding open_edges_def assms(3)
  using assms(1,2) finite_candidate_edges [of G f] by (intro psubset_card_mono) auto

abbreviation take_edge :: "u64 \<times> u64 \<Rightarrow> (u64 \<times> u64) list \<Rightarrow> sccp_state \<Rightarrow> sccp_state" where
  "take_edge e rest s \<equiv> s\<lparr>sc_cfg := rest, sc_executable := insert e (sc_executable s)\<rparr>"

text \<open>What a round of the loop promises for the state \<open>s'\<close> it ends in.\<close>

definition advances :: "'g petgraph \<Rightarrow> 'g SSAFunction \<Rightarrow> sccp_state \<Rightarrow> sccp_state \<Rightarrow> bool" where
  "advances G f s s' \<longleftrightarrow> sccp_inv G f s' \<and> lowers f s s' \<and> open_edges G f s' < open_edges G f s"

lemma advancesI:
  assumes "sccp_wf G f s" "sc_cfg s = (p, b) # rest" "(p, b) \<notin> sc_executable s"
    and "lowers f (take_edge (p, b) rest s) s'" "sites_ok G f (sc_visited s') {} s'"
    and "sc_executable s' = insert (p, b) (sc_executable s)"
    and "sc_visited s' = (if fn_get_block f b = None then sc_visited s else insert b (sc_visited s))"
    and "set rest \<subseteq> set (sc_cfg s')" "set (sc_cfg s') \<subseteq> candidate_edges G f"
  shows "advances G f s s'"
proof -
  have "lowers f s (take_edge (p, b) rest s)" by (rule lowers_cong(1) [OF lowers_refl]) simp_all
  then have low: "lowers f s s'" using assms(4) by (rule lowers_trans)
  have "(p, b) \<in> candidate_edges G f" using assms(1,2) by (simp add: sccp_wf_def)
  then have "open_edges G f s' < open_edges G f s" using assms(3,6) by (rule open_edges_less)
  then show ?thesis
    using sccp_wf_edge [OF assms(1,2,6) low assms(7-9)] assms(5) low by (simp add: advances_def sccp_inv_def)
qed

lemma cfg_step_revisit:
  assumes "sccp_wf G f s" "sc_cfg s = (p, b) # rest" "(p, b) \<notin> sc_executable s"
    and "sites_ok G f (sc_visited s) (range (PhiSite b)) (take_edge (p, b) rest s)"
    and "fn_get_block f b = Some blk" "b \<in> sc_visited s"
  shows "advances G f s (foldl (sccp_phi b) (take_edge (p, b) rest s) (fb_phis blk))"
proof -
  let ?t = "foldl (sccp_phi b) (take_edge (p, b) rest s) (fb_phis blk)"
  have t: "sites_ok G f (sc_visited s) (range (PhiSite b) - PhiSite b ` set (fb_phis blk)) ?t"
      "lowers f (take_edge (p, b) rest s) ?t" "same_edges (take_edge (p, b) rest s) ?t"
    using sccp_phis_ok [OF assms(4), of "fb_phis blk" b] assms(5) by auto
  have "sites_ok G f (sc_visited s) {} ?t" by (rule sites_ok_phis_done [OF t(1)]) (use assms(5) in auto)
  then show ?thesis
    using assms t(3) by (intro advancesI [OF assms(1-3) t(2)]) (auto simp: same_edges_def sccp_wf_def)
qed

lemma cfg_step_visit:
  assumes "sccp_wf G f s" "sc_cfg s = (p, b) # rest" "(p, b) \<notin> sc_executable s"
    and "sites_ok G f (sc_visited s) (range (PhiSite b)) (take_edge (p, b) rest s)"
    and "fn_get_block f b = Some blk"
  shows "returns f (sccp_ops (fb_ops blk)
       ((foldl (sccp_phi b) (take_edge (p, b) rest s) (fb_phis blk))\<lparr>sc_visited := insert b (sc_visited s)\<rparr>))
     (\<lambda>s'. advances G f s (sccp_terminator G f b s'))"
proof (rule returns_mono [OF first_visit_ok [OF assms(5,4)]], elim conjE)
  fix s' let ?s = "take_edge (p, b) rest s"
  assume s': "sites_ok G f (insert b (sc_visited s)) {} (sccp_terminator G f b s')" "lowers f ?s s'"
    "sc_executable s' = sc_executable ?s" "sc_visited s' = insert b (sc_visited s)" "sc_cfg s' = sc_cfg ?s"
  have "lowers f ?s (sccp_terminator G f b s')" by (rule lowers_cong(1) [OF s'(2)]) simp_all
  then show "advances G f s (sccp_terminator G f b s')"
    using assms s' evaluate_terminator_candidates [of f b G]
    by (intro advancesI [OF assms(1-3)]) (auto simp: sccp_wf_def)
qed

lemma cfg_step_ok:
  assumes "sccp_inv G f s" "sc_cfg s = (p, b) # rest"
  shows "returns f (cfg_step G f (p, b) (s\<lparr>sc_cfg := rest\<rparr>))
     (\<lambda>s'. s' = s\<lparr>sc_cfg := rest\<rparr> \<and> sccp_inv G f s' \<or> advances G f s s')"
proof (cases "(p, b) \<in> sc_executable s")
  case True
  have "sccp_wf G f (s\<lparr>sc_cfg := rest\<rparr>)" using assms True unfolding sccp_inv_def sccp_wf_def by auto
  moreover have "sites_ok G f (sc_visited s) {} (s\<lparr>sc_cfg := rest\<rparr>)"
    using assms by (intro sites_ok_drop_edge [OF _ assms(2) True]) (simp add: sccp_inv_def)
  ultimately show ?thesis using True by (simp add: cfg_step_def sccp_inv_def)
next
  case False
  let ?s = "take_edge (p, b) rest s"
  have wf: "sccp_wf G f s" and ok: "sites_ok G f (sc_visited s) {} s" using assms(1) by (simp_all add: sccp_inv_def)
  have s1: "sites_ok G f (sc_visited s) (range (PhiSite b)) ?s" using sites_ok_edge [OF ok assms(2)] by simp
  note step = wf assms(2) False s1
  show ?thesis
  proof (cases "fn_get_block f b")
    case None
    have "sites_ok G f (sc_visited s) {} ?s" by (rule sites_ok_phis_done [OF s1]) (use None in auto)
    then have "advances G f s ?s"
      using wf assms(2) None by (intro advancesI [OF step(1-3) lowers_refl]) (auto simp: sccp_wf_def)
    then show ?thesis using None False by (simp add: cfg_step_def)
  next
    case (Some blk)
    have "sc_visited (foldl (sccp_phi b) ?s (fb_phis blk)) = sc_visited s"
      using sccp_phis_ok [OF s1, of "fb_phis blk" b] Some by (simp add: same_edges_def)
    then show ?thesis
      using Some False cfg_step_revisit [OF step Some] cfg_step_visit [OF step Some]
      by (auto simp: cfg_step_def Let_def returns_map elim: returns_mono)
  qed
qed

section \<open>A round of the loop over uses\<close>

lemma in_set_map_filter: "y \<in> set (List.map_filter g xs) \<longleftrightarrow> (\<exists>x \<in> set xs. g x = Some y)"
  by (induction xs) (auto simp: map_filter_simps split: option.split)

text \<open>Every block the function can find is listed, under its own address.\<close>

definition listed_blocks :: "'g SSAFunction \<Rightarrow> bool" where
  "listed_blocks f \<longleftrightarrow> list_all (\<lambda>(a, b). fb_addr b = a \<and> a \<in> set (fn_block_order f)) (fn_blocks f)"

lemma listed_blocksD:
  assumes "listed_blocks f" "fn_get_block f a = Some b"
  shows "fb_addr b = a" "b \<in> set (fn_blocks_in_order f)"
proof -
  have "(a, b) \<in> set (fn_blocks f)" using assms(2) by (simp add: fn_get_block_def hm_get_def map_of_SomeD)
  then have "fb_addr b = a" "a \<in> set (fn_block_order f)" using assms(1) by (auto simp: listed_blocks_def list_all_iff)
  then show "fb_addr b = a" "b \<in> set (fn_blocks_in_order f)"
    using assms(2) by (force simp: fn_blocks_in_order_def in_set_map_filter fn_get_block_def)+
qed

fun use_of_site :: "u64 \<Rightarrow> SourceSite \<Rightarrow> SccpUse" where
  "use_of_site addr (SourcePhi phi_idx _ _) = SccpUsePhi addr phi_idx"
| "use_of_site addr (SourceOp op_idx _) = SccpUseOp addr op_idx"

lemma build_use_map_entries:
  assumes "(a, k, u) \<in> set (fn_for_each_source f)"
  shows "use_of_site a u \<in> set (get_names (build_use_map f) k)"
proof -
  let ?step = "\<lambda>uses (addr, var, site).
      hm_insert var (get_names uses var @ [case site of SourcePhi i _ _ \<Rightarrow> SccpUsePhi addr i | SourceOp i _ \<Rightarrow> SccpUseOp addr i]) uses"
  have keep: "set (get_names m k) \<subseteq> set (get_names (foldl ?step m xs) k)" for m xs
  proof (induction xs arbitrary: m)
    case (Cons x xs)
    have "set (get_names m k) \<subseteq> set (get_names (?step m x) k)"
      by (cases x) (auto simp: get_names_def hm_get_insert)
    then show ?case using Cons [of "?step m x"] by simp
  qed simp
  have "use_of_site a u \<in> set (get_names (foldl ?step m xs) k)" if "(a, k, u) \<in> set xs" for m xs
    using that
  proof (induction xs arbitrary: m)
    case (Cons x xs)
    show ?case
    proof (cases "x = (a, k, u)")
      case True
      then have "use_of_site a u \<in> set (get_names (?step m x) k)"
        by (cases u) (simp_all add: get_names_def hm_get_insert)
      then show ?thesis using keep [of "?step m x" xs] by auto
    qed (use Cons in auto)
  qed simp
  then show ?thesis using assms by (simp add: build_use_map_def Let_def)
qed

text \<open>The sites one use refers to.\<close>

fun use_sites :: "'g SSAFunction \<Rightarrow> SccpUse \<Rightarrow> site set" where
  "use_sites f (SccpUsePhi a i) =
     {PhiSite a phi |b phi. fn_get_block f a = Some b \<and> i < length (fb_phis b) \<and> phi = fb_phis b ! i}"
| "use_sites f (SccpUseOp a i) =
     {x. \<exists>b op. fn_get_block f a = Some b \<and> i < length (fb_ops b) \<and> op = fb_ops b ! i \<and>
        (x = OpSite a op \<or> x = TermSite a \<and> cbranch_cond op \<noteq> None)}"

lemma cbranch_cond_Some: "cbranch_cond op = Some c \<longleftrightarrow> (\<exists>t. op = CBranch t c)"
  by (cases op) (auto simp: cbranch_cond_def)

lemma last_cbranch_Some: "last_cbranch ops = Some c \<Longrightarrow> \<exists>t. CBranch t c \<in> set ops"
proof -
  assume "last_cbranch ops = Some c"
  then have "c \<in> set (List.map_filter cbranch_cond (rev ops))"
    unfolding last_cbranch_def by (cases "List.map_filter cbranch_cond (rev ops)") auto
  then show ?thesis by (auto simp: in_set_map_filter cbranch_cond_Some)
qed

lemma nth_enumerate: "i < length xs \<Longrightarrow> (i, xs ! i) \<in> set (enumerate 0 xs)"
  by (simp add: in_set_enumerate_eq)

lemma phi_source_listed:
  assumes "i < length (fb_phis b)" "k \<in> snd ` set (pn_sources (fb_phis b ! i))"
  obtains j p where "(k, SourcePhi i j p) \<in> set (block_for_each_source b)"
proof -
  obtain p j where j: "j < length (pn_sources (fb_phis b ! i))" "pn_sources (fb_phis b ! i) ! j = (p, k)"
    using assms(2) by (auto simp: in_set_conv_nth)
  have "(k, SourcePhi i j p) \<in> (\<lambda>(s, q, v). (v, SourcePhi i s q)) ` set (enumerate 0 (pn_sources (fb_phis b ! i)))"
    by (rule rev_image_eqI [OF nth_enumerate [OF j(1)]]) (simp add: j(2))
  then have "(k, SourcePhi i j p) \<in> set (for_each_phi_source b)"
    unfolding for_each_phi_source_def set_concat set_map image_image
    by (intro UN_I [OF nth_enumerate [OF assms(1)]]) simp
  then show thesis by (intro that [of j p]) (simp add: block_for_each_source_def)
qed

lemma op_source_listed:
  assumes "i < length (fb_ops b)" "k \<in> set (sop_sources (fb_ops b ! i))"
  obtains j where "(k, SourceOp i j) \<in> set (block_for_each_source b)"
proof -
  obtain j where j: "j < length (sop_sources (fb_ops b ! i))" "sop_sources (fb_ops b ! i) ! j = k"
    using assms(2) by (auto simp: in_set_conv_nth)
  have "(k, SourceOp i j) \<in> (\<lambda>(s, v). (v, SourceOp i s)) ` set (enumerate 0 (sop_sources (fb_ops b ! i)))"
    by (rule rev_image_eqI [OF nth_enumerate [OF j(1)]]) (simp add: j(2))
  then have "(k, SourceOp i j) \<in> set (for_each_op_source b)"
    unfolding for_each_op_source_def set_concat set_map image_image
    by (intro UN_I [OF nth_enumerate [OF assms(1)]]) simp
  then show thesis by (intro that [of j]) (simp add: block_for_each_source_def)
qed

lemma block_source_used:
  assumes "listed_blocks f" "fn_get_block f a = Some b" "(k, u) \<in> set (block_for_each_source b)"
  shows "use_of_site a u \<in> set (get_names (build_use_map f) k)"
  using listed_blocksD [OF assms(1,2)] assms(3)
  by (intro build_use_map_entries) (force simp: fn_for_each_source_def)

text \<open>The use map finds every site that reads a variable.\<close>

lemma use_map_covers:
  assumes "listed_blocks f" "site_in f x" "k \<in> site_reads f x"
  shows "\<exists>u \<in> set (get_names (build_use_map f) k). x \<in> use_sites f u"
proof (cases x)
  case (PhiSite a phi)
  then obtain b i where b: "fn_get_block f a = Some b" "i < length (fb_phis b)" "phi = fb_phis b ! i"
    using assms(2) by (auto simp: in_set_conv_nth)
  then have "k \<in> snd ` set (pn_sources (fb_phis b ! i))" using assms(3) PhiSite by simp
  then obtain j p where "(k, SourcePhi i j p) \<in> set (block_for_each_source b)"
    by (rule phi_source_listed [OF b(2)])
  from block_source_used [OF assms(1) b(1) this] b show ?thesis using PhiSite by force
next
  case (OpSite a op)
  then obtain b i where b: "fn_get_block f a = Some b" "i < length (fb_ops b)" "op = fb_ops b ! i"
    using assms(2) by (auto simp: in_set_conv_nth)
  then have "k \<in> set (sop_sources (fb_ops b ! i))" using assms(3) OpSite by simp
  then obtain j where "(k, SourceOp i j) \<in> set (block_for_each_source b)"
    by (rule op_source_listed [OF b(2)])
  from block_source_used [OF assms(1) b(1) this] b show ?thesis using OpSite by force
next
  case (TermSite a)
  then obtain b t where b: "fn_get_block f a = Some b" "CBranch t k \<in> set (fb_ops b)"
    using assms(2,3) last_cbranch_Some by (fastforce simp: branch_reads_def)
  then obtain i where i: "i < length (fb_ops b)" "fb_ops b ! i = CBranch t k" by (auto simp: in_set_conv_nth)
  then have "k \<in> set (sop_sources (fb_ops b ! i))" by simp
  then obtain j where "(k, SourceOp i j) \<in> set (block_for_each_source b)"
    by (rule op_source_listed [OF i(1)])
  from block_source_used [OF assms(1) b(1) this] b i show ?thesis using TermSite by (force simp: cbranch_cond_def)
qed

text \<open>What reprocessing uses promises.\<close>

definition reprocesses :: "'g petgraph \<Rightarrow> 'g SSAFunction \<Rightarrow> sccp_state \<Rightarrow> sccp_state \<Rightarrow> bool" where
  "reprocesses G f s s' \<longleftrightarrow> lowers f s s' \<and> sc_executable s' = sc_executable s \<and> sc_visited s' = sc_visited s \<and>
     set (sc_cfg s) \<subseteq> set (sc_cfg s') \<and> set (sc_cfg s') \<subseteq> set (sc_cfg s) \<union> candidate_edges G f"

lemma reprocesses_refl [simp]: "reprocesses G f s s"
  by (simp add: reprocesses_def)

lemma reprocesses_trans: "reprocesses G f s s' \<Longrightarrow> reprocesses G f s' s'' \<Longrightarrow> reprocesses G f s s''"
  using lowers_trans [of f s s' s''] unfolding reprocesses_def by auto

lemma reprocesses_same_edges: "lowers f s s' \<Longrightarrow> same_edges s s' \<Longrightarrow> reprocesses G f s s'"
  by (simp add: reprocesses_def same_edges_def)

lemma reprocesses_terminator:
  "fn_get_block f a \<noteq> None \<Longrightarrow> reprocesses G f s (sccp_terminator G f a s)"
  using lowers_cong(1) [OF lowers_refl, of "sccp_terminator G f a s" s] evaluate_terminator_candidates [of f a G]
  by (auto simp: reprocesses_def)

lemma sites_ok_unvisited: "sites_ok G f V U s \<Longrightarrow> (\<And>x. x \<in> W \<Longrightarrow> site_in f x \<Longrightarrow> site_block x \<notin> V) \<Longrightarrow> sites_ok G f V (U - W) s"
  by (auto simp: sites_ok_def)

lemma use_phi_ok:
  assumes "sites_ok G f (sc_visited s) U s"
  shows "returns f (use_step G f (SccpUsePhi a i) s)
     (\<lambda>s'. sites_ok G f (sc_visited s) (U - use_sites f (SccpUsePhi a i)) s' \<and> reprocesses G f s s')"
proof (cases "a \<in> sc_visited s \<and> (\<exists>b. fn_get_block f a = Some b \<and> i < length (fb_phis b))")
  case True
  then obtain b where b: "a \<in> sc_visited s" "fn_get_block f a = Some b" "i < length (fb_phis b)" by auto
  let ?x = "PhiSite a (fb_phis b ! i)" and ?s = "sccp_phi a s (fb_phis b ! i)"
  have "sites_ok G f (sc_visited s) (U - {?x}) ?s"
    unfolding sccp_phi_def by (rule sites_ok_assign [OF assms]) simp_all
  moreover have "lowers f s ?s"
    unfolding sccp_phi_def by (rule lowers_assign [of f ?x]) (use b in auto)
  moreover have "use_sites f (SccpUsePhi a i) = {?x}" using b by auto
  ultimately show ?thesis
    using b by (simp add: use_step_def reprocesses_same_edges same_edges_def sccp_phi_def)
next
  case False
  then have "use_step G f (SccpUsePhi a i) s = Some s" by (auto simp: use_step_def split: option.splits)
  moreover have "sites_ok G f (sc_visited s) (U - use_sites f (SccpUsePhi a i)) s"
    using assms False by (intro sites_ok_unvisited) auto
  ultimately show ?thesis by simp
qed

lemma use_op_ok:
  assumes "sites_ok G f (sc_visited s) U s"
  shows "returns f (use_step G f (SccpUseOp a i) s)
     (\<lambda>s'. sites_ok G f (sc_visited s) (U - use_sites f (SccpUseOp a i)) s' \<and> reprocesses G f s s')"
proof (cases "a \<in> sc_visited s \<and> (\<exists>b. fn_get_block f a = Some b \<and> i < length (fb_ops b))")
  case True
  then obtain b where b: "a \<in> sc_visited s" "fn_get_block f a = Some b" "i < length (fb_ops b)" by auto
  let ?op = "fb_ops b ! i"
  let ?x = "OpSite a ?op"
  have sites: "use_sites f (SccpUseOp a i) = (if cbranch_cond ?op \<noteq> None then {?x, TermSite a} else {?x})"
    using b by auto
  have "returns f (sccp_op ?op s) (\<lambda>s'. sites_ok G f (sc_visited s) (U - {?x}) s' \<and> lowers f s s' \<and> same_edges s s')"
    using b by (intro sccp_op_ok [OF assms]) auto
  then have "returns f (sccp_op ?op s) (\<lambda>s'.
      sites_ok G f (sc_visited s) (U - use_sites f (SccpUseOp a i)) (if cbranch_cond ?op \<noteq> None then sccp_terminator G f a s' else s') \<and>
      reprocesses G f s (if cbranch_cond ?op \<noteq> None then sccp_terminator G f a s' else s'))"
  proof (rule returns_mono, elim conjE)
    fix s' assume s': "sites_ok G f (sc_visited s) (U - {?x}) s'" "lowers f s s'" "same_edges s s'"
    then have same: "reprocesses G f s s'" by (simp add: reprocesses_same_edges)
    have "reprocesses G f s' (sccp_terminator G f a s')" using b(2) by (simp add: reprocesses_terminator)
    then have trm: "reprocesses G f s (sccp_terminator G f a s')" by (rule reprocesses_trans [OF same])
    have "sites_ok G f (sc_visited s) (U - {?x, TermSite a}) (sccp_terminator G f a s')"
      using sccp_terminator_ok [OF s'(1), of a] by (simp only: Diff_insert [symmetric] insert_commute)
    then show "sites_ok G f (sc_visited s) (U - use_sites f (SccpUseOp a i)) (if cbranch_cond ?op \<noteq> None then sccp_terminator G f a s' else s') \<and>
        reprocesses G f s (if cbranch_cond ?op \<noteq> None then sccp_terminator G f a s' else s')"
      using s'(1) same trm unfolding sites by (cases "cbranch_cond ?op") simp_all
  qed
  then show ?thesis using b by (simp add: use_step_def returns_map Let_def)
next
  case False
  then have "use_step G f (SccpUseOp a i) s = Some s" by (auto simp: use_step_def split: option.splits)
  moreover have "sites_ok G f (sc_visited s) (U - use_sites f (SccpUseOp a i)) s"
    using assms False by (intro sites_ok_unvisited) auto
  ultimately show ?thesis by simp
qed

lemma use_steps_ok:
  assumes "sites_ok G f (sc_visited s) U s"
  shows "returns f (use_steps G f us s)
     (\<lambda>s'. sites_ok G f (sc_visited s) (U - \<Union> (use_sites f ` set us)) s' \<and> reprocesses G f s s')"
  using assms
proof (induction us arbitrary: s U)
  case (Cons u us)
  have "returns f (use_step G f u s) (\<lambda>s'. sites_ok G f (sc_visited s) (U - use_sites f u) s' \<and> reprocesses G f s s')"
    using use_phi_ok [OF Cons.prems] use_op_ok [OF Cons.prems] by (cases u) auto
  then show ?case
  proof (simp only: use_steps.simps, elim returns_bind conjE)
    fix s1 assume s1: "sites_ok G f (sc_visited s) (U - use_sites f u) s1" "reprocesses G f s s1"
    then have "sc_visited s1 = sc_visited s" by (simp add: reprocesses_def)
    then have "returns f (use_steps G f us s1)
        (\<lambda>s'. sites_ok G f (sc_visited s) (U - use_sites f u - \<Union> (use_sites f ` set us)) s' \<and> reprocesses G f s1 s')"
      using Cons.IH [of s1 "U - use_sites f u"] s1(1) by simp
    moreover have "U - use_sites f u - \<Union> (use_sites f ` set us) = U - \<Union> (use_sites f ` set (u # us))" by auto
    ultimately show "returns f (use_steps G f us s1)
        (\<lambda>s'. sites_ok G f (sc_visited s) (U - \<Union> (use_sites f ` set (u # us))) s' \<and> reprocesses G f s s')"
      using reprocesses_trans [OF s1(2)] by (simp only:) (erule returns_mono, blast)
  qed
qed simp

lemma uses_ok:
  assumes "listed_blocks f" "sccp_inv G f s" "sc_ssa s = k # rest"
  shows "returns f (use_steps G f (get_names (build_use_map f) k) (s\<lparr>sc_ssa := rest\<rparr>))
     (\<lambda>s'. sccp_inv G f s' \<and> sc_executable s' = sc_executable s \<and> lowers f (s\<lparr>sc_ssa := rest\<rparr>) s')"
proof -
  let ?s = "s\<lparr>sc_ssa := rest\<rparr>" and ?us = "get_names (build_use_map f) k"
  let ?U = "{x. site_in f x \<and> k \<in> site_reads f x}"
  have wf: "sccp_wf G f ?s" using assms(2) by (simp add: sccp_inv_def sccp_wf_def)
  have "site_ok G f ?s x = site_ok G f s x" for x by (cases x) simp_all
  then have "sites_ok G f (sc_visited ?s) ?U ?s" using assms(2,3) by (auto simp: sccp_inv_def sites_ok_def)
  moreover have "?U - \<Union> (use_sites f ` set ?us) = {}" using use_map_covers [OF assms(1)] by auto
  ultimately have "returns f (use_steps G f ?us ?s) (\<lambda>s'. sites_ok G f (sc_visited ?s) {} s' \<and> reprocesses G f ?s s')"
    using use_steps_ok by metis
  then show ?thesis
  proof (rule returns_mono, elim conjE)
    fix s' assume s': "sites_ok G f (sc_visited ?s) {} s'" "reprocesses G f ?s s'"
    have "sccp_wf G f s'" by (rule sccp_wf_lowers [OF wf]) (use s'(2) wf in \<open>auto simp: reprocesses_def sccp_wf_def\<close>)
    then show "sccp_inv G f s' \<and> sc_executable s' = sc_executable s \<and> lowers f ?s s'"
      using s' by (simp add: sccp_inv_def reprocesses_def)
  qed
qed

end
