(* ===== verification/SSA_Fold_Props.thy ===== *)
theory SSA_Fold_Props
  imports SSA_Fold
begin

text \<open>
  Folding against a reference semantics: \<open>pcode_value\<close> states the arithmetic operations on integers
  as \<open>r2il/src/opcode.rs\<close> documents them, each at the width of its operands, and folding and
  rewriting are compared with it. Five operations are not folded that way: \<open>fold_meaning\<close> says how,
  and folding is exact against it at all widths of their operands.
\<close>

section \<open>Reading constants\<close>

lemma digit_char_not_x:
  assumes "d < 16"
  shows "digit_char d \<noteq> CHR ''x'' \<and> digit_char d \<noteq> CHR ''X''"
proof -
  have "of_char (digit_char d) \<noteq> (120 :: nat)" "of_char (digit_char d) \<noteq> (88 :: nat)"
    using assms by (simp_all add: of_char_digit_char)
  then show ?thesis by auto
qed

lemma set_show_radix:
  assumes "2 \<le> r" "r \<le> 16"
  shows "set (show_radix r n) \<subseteq> digit_char ` {..<r}"
  using assms
proof (induction r n rule: show_radix.induct)
  case (1 r n)
  then show ?case by (subst show_radix.simps) (auto simp: not_less)
qed

lemma strip_0x_show_hex:
  "strip_prefix ''0x'' (show_hex n) = None" "strip_prefix ''0X'' (show_hex n) = None"
proof -
  have s: "CHR ''x'' \<notin> set (show_hex n)" "CHR ''X'' \<notin> set (show_hex n)"
  proof -
    have "c \<in> set (show_hex n) \<Longrightarrow> \<exists>d < 16. c = digit_char d" for c
      using set_show_radix [of 16 n] unfolding show_hex_def by auto
    then show "CHR ''x'' \<notin> set (show_hex n)" "CHR ''X'' \<notin> set (show_hex n)"
      using digit_char_not_x by (fastforce, fastforce)
  qed
  have "strip_prefix ''0x'' (show_hex n) \<noteq> Some t" "strip_prefix ''0X'' (show_hex n) \<noteq> Some t" for t
    using s unfolding strip_prefix_Some by auto
  then show "strip_prefix ''0x'' (show_hex n) = None" "strip_prefix ''0X'' (show_hex n) = None"
    by (metis not_None_eq)+
qed

lemma const_value_constant [simp]: "const_value (ssa_constant v sz) = Some v"
proof -
  have p: "strip_prefix ''const:'' (''const:'' @ show_hex (unat v)) = Some (show_hex (unat v))"
    by (rule strip_prefix_append)
  have "u64_from_str_radix 16 (show_hex (unat v)) = Some (of_nat (unat v))"
    unfolding show_hex_def using unat_u64_less [of v] by (intro u64_from_str_radix_show) simp_all
  then show ?thesis
    unfolding const_value_def ssa_is_const_def starts_with_def ssa_constant_def ssa_new_def SSAVar.sel p
    by (simp add: strip_0x_show_hex)
qed

section \<open>Masks and sign extension\<close>

lemma mask_for_bits_mask: "mask_for_bits bits = mask (min 64 (unat bits))"
proof (cases "64 \<le> unat bits")
  case True
  then have "mask (min 64 (unat bits)) = (- 1 :: u64)" by (intro bit_word_eqI) (simp add: bit_simps)
  then show ?thesis using True by (simp add: mask_for_bits_def word_le_nat_alt)
next
  case False
  then show ?thesis
    by (auto simp: mask_for_bits_def word_le_nat_alt mask_eq_exp_minus_1 push_bit_eq_mult unat_eq_zero)
qed

lemma uint_and_mask: "uint (v AND mask_for_bits bits) = take_bit (min 64 (unat bits)) (uint v)"
  unfolding mask_for_bits_mask take_bit_eq_mask [symmetric] by (simp add: unsigned_take_bit_eq)

lemma sint_sign_extend:
  assumes "0 < unat bits"
  shows "sint (sign_extend v bits) = signed_take_bit (min 64 (unat bits) - 1) (uint v)"
proof (cases "64 \<le> unat bits")
  case True
  then show ?thesis using assms by (auto simp: sign_extend_def word_le_nat_alt sint_uint)
next
  case False
  let ?k = "64 - unat bits"
  have "sint (push_bit ?k v) = signed_take_bit 63 (push_bit ?k (uint v))"
    by (simp add: sint_uint unsigned_push_bit_eq signed_take_bit_take_bit)
  then have "sint (signed_drop_bit ?k (push_bit ?k v)) = drop_bit ?k (signed_take_bit 63 (push_bit ?k (uint v)))"
    unfolding sint_signed_drop_bit_eq by simp
  also have "\<dots> = signed_take_bit (unat bits - 1) (uint v)"
  proof (rule bit_eqI)
    fix n
    show "bit (drop_bit ?k (signed_take_bit 63 (push_bit ?k (uint v)))) n = bit (signed_take_bit (unat bits - 1) (uint v)) n"
      using False assms by (auto simp: bit_simps min_def)
  qed
  finally show ?thesis using False assms by (auto simp: sign_extend_def word_le_nat_alt Let_def)
qed

section \<open>The reference semantics\<close>

definition width :: "SSAVar \<Rightarrow> nat" where
  "width v = 8 * unat (sv_size v)"

text \<open>The value of an arithmetic operation on the values of its operands, or nothing where the
  operation has no such value: memory, calls, floating point and division by zero.\<close>

definition pcode_value :: "(SSAVar \<Rightarrow> int) \<Rightarrow> SSAOp \<Rightarrow> int option" where
  "pcode_value env op =
     (let s = (\<lambda>v. signed_take_bit (width v - 1) (env v))
      in case op of
        Copy d x \<Rightarrow> Some (env x)
      | IntAdd d a b \<Rightarrow> Some (take_bit (width d) (env a + env b))
      | IntSub d a b \<Rightarrow> Some (take_bit (width d) (env a - env b))
      | IntMult d a b \<Rightarrow> Some (take_bit (width d) (env a * env b))
      | IntDiv d a b \<Rightarrow> if env b = 0 then None else Some (env a div env b)
      | IntSDiv d a b \<Rightarrow> if env b = 0 then None else Some (take_bit (width d) (s a sdiv s b))
      | IntRem d a b \<Rightarrow> if env b = 0 then None else Some (env a mod env b)
      | IntSRem d a b \<Rightarrow> if env b = 0 then None else Some (take_bit (width d) (s a smod s b))
      | IntNegate d x \<Rightarrow> Some (take_bit (width d) (- env x))
      | IntNot d x \<Rightarrow> Some (take_bit (width d) (NOT (env x)))
      | IntAnd d a b \<Rightarrow> Some (env a AND env b)
      | IntOr d a b \<Rightarrow> Some (env a OR env b)
      | IntXor d a b \<Rightarrow> Some (env a XOR env b)
      | IntLeft d a b \<Rightarrow> Some (take_bit (width d) (push_bit (nat (env b)) (env a)))
      | IntRight d a b \<Rightarrow> Some (drop_bit (nat (env b)) (env a))
      | IntSRight d a b \<Rightarrow> Some (take_bit (width d) (drop_bit (nat (env b)) (s a)))
      | IntEqual d a b \<Rightarrow> Some (of_bool (env a = env b))
      | IntNotEqual d a b \<Rightarrow> Some (of_bool (env a \<noteq> env b))
      | IntLess d a b \<Rightarrow> Some (of_bool (env a < env b))
      | IntLessEqual d a b \<Rightarrow> Some (of_bool (env a \<le> env b))
      | IntSLess d a b \<Rightarrow> Some (of_bool (s a < s b))
      | IntSLessEqual d a b \<Rightarrow> Some (of_bool (s a \<le> s b))
      | IntZExt d x \<Rightarrow> Some (env x)
      | IntSExt d x \<Rightarrow> Some (take_bit (width d) (s x))
      | BoolNot d x \<Rightarrow> Some (of_bool (env x = 0))
      | BoolAnd d a b \<Rightarrow> Some (of_bool (env a \<noteq> 0 \<and> env b \<noteq> 0))
      | BoolOr d a b \<Rightarrow> Some (of_bool (env a \<noteq> 0 \<or> env b \<noteq> 0))
      | BoolXor d a b \<Rightarrow> Some (of_bool ((env a \<noteq> 0) \<noteq> (env b \<noteq> 0)))
      | Piece d h l \<Rightarrow> Some (push_bit (width l) (env h) + env l)
      | Subpiece d x k \<Rightarrow> Some (take_bit (width d) (drop_bit (8 * unat k) (env x)))
      | PopCount d x \<Rightarrow> Some (int (length (filter (bit (env x)) [0..<width x])))
      | Lzcount d x \<Rightarrow> Some (int (length (takeWhile (\<lambda>n. \<not> bit (env x) n) (rev [0..<width x]))))
      | PtrAdd d p i k \<Rightarrow> Some (take_bit (width d) (env p + env i * int (unat k)))
      | PtrSub d p i k \<Rightarrow> Some (take_bit (width d) (env p - env i * int (unat k)))
      | _ \<Rightarrow> None)"

text \<open>
  What folding computes. The code reads the operands of signed comparisons and of bit counts at the
  width of the destination, not at their own, and takes the low bits for a truncation, which in
  \<open>opcode.rs\<close> converts a float; for every other operation the meaning is the reference semantics.
\<close>

definition fold_meaning :: "(SSAVar \<Rightarrow> int) \<Rightarrow> SSAOp \<Rightarrow> int option" where
  "fold_meaning env op =
     (let s = (\<lambda>d v. signed_take_bit (width d - 1) (env v))
      in case op of
        IntSLess d a b \<Rightarrow> Some (of_bool (s d a < s d b))
      | IntSLessEqual d a b \<Rightarrow> Some (of_bool (s d a \<le> s d b))
      | PopCount d x \<Rightarrow> Some (int (length (filter (bit (env x)) [0..<width d])))
      | Lzcount d x \<Rightarrow> Some (int (length (takeWhile (\<lambda>n. \<not> bit (env x) n) (rev [0..<width d]))))
      | Trunc d x \<Rightarrow> Some (take_bit (width d) (env x))
      | _ \<Rightarrow> pcode_value env op)"

text \<open>Where the two may differ: the truncation, and the other four with operands of another width
  than the destination.\<close>

definition misread :: "SSAOp \<Rightarrow> bool" where
  "misread op \<longleftrightarrow>
     (case op of
        IntSLess d a b \<Rightarrow> sv_size a \<noteq> sv_size d \<or> sv_size b \<noteq> sv_size d
      | IntSLessEqual d a b \<Rightarrow> sv_size a \<noteq> sv_size d \<or> sv_size b \<noteq> sv_size d
      | PopCount d x \<Rightarrow> sv_size x \<noteq> sv_size d
      | Lzcount d x \<Rightarrow> sv_size x \<noteq> sv_size d
      | Trunc d x \<Rightarrow> True
      | _ \<Rightarrow> False)"

lemma fold_meaning_pcode: "\<not> misread op \<Longrightarrow> fold_meaning env op = pcode_value env op"
  by (cases op) (simp_all add: misread_def fold_meaning_def pcode_value_def width_def Let_def)

text \<open>
  The validator's rules on widths, and operands and destinations of at most eight bytes, what a
  folded constant can hold. The operands of comparisons and bit counts may have any such width.
\<close>

definition fold_typed :: "SSAOp \<Rightarrow> bool" where
  "fold_typed op \<longleftrightarrow>
     (\<forall>v \<in> set (sop_sources op). 0 < sv_size v \<and> sv_size v \<le> 8) \<and>
     (\<forall>d. sop_dst op = Some d \<longrightarrow> 0 < sv_size d \<and> sv_size d \<le> 8) \<and>
     (case op of
        Copy d x \<Rightarrow> sv_size d = sv_size x
      | IntAdd d a b \<Rightarrow> sv_size a = sv_size d \<and> sv_size b = sv_size d
      | IntSub d a b \<Rightarrow> sv_size a = sv_size d \<and> sv_size b = sv_size d
      | IntMult d a b \<Rightarrow> sv_size a = sv_size d \<and> sv_size b = sv_size d
      | IntDiv d a b \<Rightarrow> sv_size a = sv_size d \<and> sv_size b = sv_size d
      | IntSDiv d a b \<Rightarrow> sv_size a = sv_size d \<and> sv_size b = sv_size d
      | IntRem d a b \<Rightarrow> sv_size a = sv_size d \<and> sv_size b = sv_size d
      | IntSRem d a b \<Rightarrow> sv_size a = sv_size d \<and> sv_size b = sv_size d
      | IntAnd d a b \<Rightarrow> sv_size a = sv_size d \<and> sv_size b = sv_size d
      | IntOr d a b \<Rightarrow> sv_size a = sv_size d \<and> sv_size b = sv_size d
      | IntXor d a b \<Rightarrow> sv_size a = sv_size d \<and> sv_size b = sv_size d
      | IntNegate d x \<Rightarrow> sv_size d = sv_size x
      | IntNot d x \<Rightarrow> sv_size d = sv_size x
      | IntLeft d a b \<Rightarrow> sv_size a = sv_size d
      | IntRight d a b \<Rightarrow> sv_size a = sv_size d
      | IntSRight d a b \<Rightarrow> sv_size a = sv_size d
      | IntZExt d x \<Rightarrow> sv_size x \<le> sv_size d
      | IntSExt d x \<Rightarrow> sv_size x \<le> sv_size d
      | Piece d h l \<Rightarrow> unat (sv_size h) + unat (sv_size l) \<le> unat (sv_size d)
      | _ \<Rightarrow> True)"

text \<open>Values in the range of their width that agree with the constants in force.\<close>

definition fits :: "SSAVar \<Rightarrow> int \<Rightarrow> bool" where
  "fits v k \<longleftrightarrow> 0 \<le> k \<and> k < 2 ^ width v"

definition env_ok :: "(SSAVar \<Rightarrow> int) \<Rightarrow> (SSAVar \<Rightarrow> u64 option) \<Rightarrow> SSAOp \<Rightarrow> bool" where
  "env_ok env get op \<longleftrightarrow>
     (\<forall>v \<in> set (sop_sources op). fits v (env v) \<and> (\<forall>c. get v = Some c \<longrightarrow> env v = uint c))"

section \<open>Arithmetic at a width\<close>

lemma take_bit_uint_word_of_int: "w \<le> 64 \<Longrightarrow> take_bit w (uint (word_of_int k :: u64)) = take_bit w k"
  by (simp add: uint_word_of_int_eq)

lemma take_bit_64_uint: "take_bit 64 (uint (x :: u64)) = uint x"
  using unsigned_less [of x, where 'a = int] by (intro take_bit_int_eq_self) simp_all

lemma uint_eq_iffs: "uint (x :: u64) = uint y \<longleftrightarrow> x = y" "uint (x :: u64) = 0 \<longleftrightarrow> x = 0"
  by (simp_all add: word_uint_eq_iff)

lemma take_bit_uint_sint: "w \<le> 64 \<Longrightarrow> take_bit w (uint (z :: u64)) = take_bit w (sint z)"
  using take_bit_uint_word_of_int [of w "sint z"] by simp

lemma take_bit_uint_arith:
  assumes "w \<le> 64"
  shows "take_bit w (uint (x + y :: u64)) = take_bit w (uint x + uint y)"
    and "take_bit w (uint (x - y :: u64)) = take_bit w (uint x - uint y)"
    and "take_bit w (uint (x * y :: u64)) = take_bit w (uint x * uint y)"
    and "take_bit w (uint (- x :: u64)) = take_bit w (- uint x)"
    and "take_bit w (uint (NOT x :: u64)) = take_bit w (NOT (uint x))"
    and "take_bit w (uint (push_bit n x :: u64)) = take_bit w (push_bit n (uint x))"
    and "take_bit w (uint (signed_drop_bit n x :: u64)) = take_bit w (drop_bit n (sint x))"
  using assms take_bit_uint_word_of_int [OF assms, of "uint x + uint y"]
    take_bit_uint_word_of_int [OF assms, of "uint x - uint y"] take_bit_uint_word_of_int [OF assms, of "uint x * uint y"]
    take_bit_uint_word_of_int [OF assms, of "- uint x"] take_bit_uint_sint [OF assms, of "signed_drop_bit n x"]
  by (simp_all add: unsigned_not_eq unsigned_push_bit_eq sint_signed_drop_bit_eq)

lemma fits_take_bit: "fits v k \<Longrightarrow> take_bit (width v) k = k"
  by (simp add: fits_def take_bit_int_eq_self)

lemma fits_take_bit_le: "fits v k \<Longrightarrow> width v \<le> w \<Longrightarrow> take_bit w k = k"
  unfolding fits_def by (rule take_bit_int_eq_self) (auto intro: less_le_trans)

lemma take_bit_le_fits: "fits v k \<Longrightarrow> 0 \<le> j \<Longrightarrow> j \<le> k \<Longrightarrow> take_bit (width v) j = j"
  by (simp add: fits_def take_bit_int_eq_self)

lemma uint_u64_of_bool [simp]: "uint (u64_of_bool P) = of_bool P"
  by (simp add: u64_of_bool_def)

lemma uint_u32_to_u64: "uint (u32_to_u64 k) = int (unat k)"
  unfolding uint_nat unat_u32_to_u64 ..

lemma size_bits:
  assumes "sv_size v \<le> 8"
  shows "unat (u32_saturating_mul (sv_size v) 8) = width v" "width v \<le> 64"
proof -
  show "width v \<le> 64" using assms by (simp add: width_def word_le_nat_alt)
  then show "unat (u32_saturating_mul (sv_size v) 8) = width v" by (simp add: unat_u32_saturating_mul width_def)
qed

lemma with_const_Some: "with_const x k = folded r \<longleftrightarrow> (\<exists>v. x = Some v \<and> k v = folded r)"
  by (cases x) (simp_all add: with_const_def)

lemma shift_count_less: "y < u32_to_u64 bits \<Longrightarrow> unat bits \<le> 64 \<Longrightarrow> shift_count y = unat y"
  by (simp add: shift_count_def word_less_nat_alt)

lemma i64_div_Some: "i64_div a b = Some r \<Longrightarrow> b \<noteq> 0 \<and> r = word_of_int (sint a sdiv sint b)"
  and i64_rem_Some: "i64_rem a b = Some r \<Longrightarrow> b \<noteq> 0 \<and> r = word_of_int (sint a smod sint b)"
  by (auto simp: i64_div_def i64_rem_def split: if_splits)

lemma drop_bit_le:
  fixes k :: int
  assumes "0 \<le> k"
  shows "drop_bit n k \<le> k"
proof -
  have "k div 2 ^ n * 1 \<le> k div 2 ^ n * 2 ^ n"
    using assms by (intro mult_left_mono) (simp_all add: pos_imp_zdiv_nonneg_iff)
  also have "\<dots> \<le> k" by (simp add: minus_mod_eq_div_mult [symmetric])
  finally show ?thesis by (simp add: drop_bit_eq_div)
qed

lemma upt_split: "w \<le> 64 \<Longrightarrow> [0..<64] = [0..<w] @ [w..<64]"
  using upt_add_eq_append [of 0 w "64 - w"] by simp

text \<open>The folded word, cut to the width of the destination, for the operations on equal widths.\<close>

lemma fold_bitwise:
  assumes "fits v (uint x)" "fits v (uint y)"
  shows "take_bit (width v) (uint (x AND y)) = uint x AND uint y"
    and "take_bit (width v) (uint (x OR y)) = uint x OR uint y"
    and "take_bit (width v) (uint (x XOR y)) = uint x XOR uint y"
  using fits_take_bit [OF assms(1)] fits_take_bit [OF assms(2)]
  by (simp_all add: unsigned_and_eq unsigned_or_eq unsigned_xor_eq)

lemma fold_piece:
  assumes "fits h (uint x)" "fits l (uint y)" "width h + width l \<le> w" "w \<le> 64" "width l < 64"
    "unat bits = width l"
  shows "take_bit w (uint (push_bit (width l) x OR (y AND mask_for_bits bits))) = push_bit (width l) (uint x) + uint y"
proof -
  let ?n = "width l"
  have y: "uint (y AND mask_for_bits bits) = uint y"
    unfolding uint_and_mask assms(6) using assms(5) fits_take_bit [OF assms(2)] by simp
  have sum: "push_bit ?n (uint x) + uint y = push_bit ?n (uint x) OR uint y"
  proof (rule disjunctive_add_eq_or)
    have "uint y = take_bit ?n (uint y)" using fits_take_bit [OF assms(2)] by simp
    then show "push_bit ?n (uint x) AND uint y = 0"
      by (metis (no_types, lifting) and.commute and_exp_eq_0_iff_not_bit bit_eqI bit_push_bit_iff_int bit_take_bit_iff
          bit_and_iff bit_0_eq bot_apply not_le_imp_less leD bot_bool_def)
  qed
  have "take_bit w (uint (push_bit ?n x)) = push_bit ?n (uint x)"
  proof -
    have "push_bit ?n (uint x) < 2 ^ w"
    proof -
      have "push_bit ?n (uint x) < 2 ^ ?n * 2 ^ width h" using assms(1) by (simp add: fits_def push_bit_eq_mult mult.commute)
      also have "\<dots> \<le> 2 ^ w" using assms(3) by (simp add: power_add [symmetric] add.commute)
      finally show ?thesis .
    qed
    moreover have "0 \<le> push_bit ?n (uint x)" by simp
    ultimately show ?thesis unfolding take_bit_uint_arith(6) [OF assms(4)] by (simp add: take_bit_int_eq_self)
  qed
  moreover have "take_bit w (uint y) = uint y" using fits_take_bit_le [OF assms(2)] assms(3) by simp
  ultimately show ?thesis unfolding unsigned_or_eq take_bit_or y sum by simp
qed

lemma filter_upt_bits:
  assumes "w \<le> 64"
  shows "filter (bit (x AND mask w :: u64)) [0..<64] = filter (bit (uint x)) [0..<w]"
proof -
  show ?thesis unfolding upt_split [OF assms] filter_append
    using assms by (auto simp: bit_simps filter_empty_conv bit_uint_iff intro!: filter_cong)
qed

lemma leading_zeros_width:
  assumes "w \<le> 64"
  shows "leading_zeros (x AND mask w) - (64 - w) = length (takeWhile (\<lambda>n. \<not> bit (uint x) n) (rev [0..<w]))"
proof -
  have s: "rev [0..<64] = rev [w..<64] @ rev [0..<w]"
    unfolding rev_append [symmetric] upt_split [OF assms] ..
  have "takeWhile (\<lambda>n. \<not> bit (x AND mask w) n) (rev [0..<64]) =
      rev [w..<64] @ takeWhile (\<lambda>n. \<not> bit (x AND mask w) n) (rev [0..<w])"
    unfolding s by (rule takeWhile_append2) (simp add: bit_simps)
  also have "takeWhile (\<lambda>n. \<not> bit (x AND mask w) n) (rev [0..<w]) = takeWhile (\<lambda>n. \<not> bit (uint x) n) (rev [0..<w])"
    using assms by (intro takeWhile_cong) (auto simp: bit_simps bit_uint_iff)
  finally show ?thesis by (simp add: leading_zeros_def)
qed

text \<open>One operation at a time, on the words; \<open>width d\<close> is the width of the destination in bits.\<close>

lemma fold_signed_division:
  assumes "unat bits = w" "0 < w" "w \<le> 64"
  shows "i64_div (sign_extend x bits) (sign_extend y bits) = Some v \<Longrightarrow>
      take_bit w (uint v) = take_bit w (signed_take_bit (w - 1) (uint x) sdiv signed_take_bit (w - 1) (uint y))"
    and "i64_rem (sign_extend x bits) (sign_extend y bits) = Some v \<Longrightarrow>
      take_bit w (uint v) = take_bit w (signed_take_bit (w - 1) (uint x) smod signed_take_bit (w - 1) (uint y))"
  using assms sint_sign_extend [of bits]
  by (auto dest!: i64_div_Some i64_rem_Some simp: take_bit_uint_word_of_int min_def)

lemma fold_division:
  assumes "fits d (uint x)"
  shows "take_bit (width d) (uint (x div y)) = uint x div uint y"
    and "fits d (uint y) \<Longrightarrow> uint y \<noteq> 0 \<Longrightarrow> take_bit (width d) (uint (x mod y)) = uint x mod uint y"
proof -
  have q: "uint x div uint y \<le> uint x"
  proof (cases "uint y = 0")
    case False
    then have "1 \<le> uint y" using unsigned_greater_eq [of y, where 'a = int] by linarith
    then show ?thesis using zdiv_mono2 [of "uint x" 1 "uint y"] by simp
  qed simp
  show "take_bit (width d) (uint (x div y)) = uint x div uint y"
    unfolding uint_div using take_bit_le_fits [OF assms _ q] by (simp add: pos_imp_zdiv_nonneg_iff div_int_pos_iff)
  show "take_bit (width d) (uint (x mod y)) = uint x mod uint y" if "fits d (uint y)" "uint y \<noteq> 0"
  proof -
    have "0 < uint y" using that(2) by (simp add: order.strict_iff_order)
    then show ?thesis
      unfolding uint_mod using take_bit_le_fits [OF that(1), of "uint x mod uint y"] by (simp add: less_imp_le)
  qed
qed

lemma fold_shift:
  assumes "unat bits = width d" "0 < width d" "width d \<le> 64" "fits d (uint x)" "y < u32_to_u64 bits"
  shows "take_bit (width d) (uint (u64_shl x y)) = take_bit (width d) (push_bit (nat (uint y)) (uint x))"
    and "take_bit (width d) (uint (u64_shr x y)) = drop_bit (nat (uint y)) (uint x)"
    and "take_bit (width d) (uint (i64_shr (sign_extend x bits) y)) =
      take_bit (width d) (drop_bit (nat (uint y)) (signed_take_bit (width d - 1) (uint x)))"
proof -
  have n: "shift_count y = nat (uint y)"
    using shift_count_less [OF assms(5)] assms(1,3) unfolding unat_eq_nat_uint [symmetric] by simp
  show "take_bit (width d) (uint (u64_shl x y)) = take_bit (width d) (push_bit (nat (uint y)) (uint x))"
    unfolding u64_shl_def n by (rule take_bit_uint_arith(6) [OF assms(3)])
  have "uint (u64_shr x y) = drop_bit (nat (uint y)) (uint x)"
    by (simp add: u64_shr_def n unsigned_drop_bit_eq take_bit_64_uint)
  then show "take_bit (width d) (uint (u64_shr x y)) = drop_bit (nat (uint y)) (uint x)"
    using take_bit_le_fits [OF assms(4) _ drop_bit_le] by simp
  show "take_bit (width d) (uint (i64_shr (sign_extend x bits) y)) =
      take_bit (width d) (drop_bit (nat (uint y)) (signed_take_bit (width d - 1) (uint x)))"
    unfolding i64_shr_def n take_bit_uint_arith(7) [OF assms(3)]
    using sint_sign_extend [of bits x] assms(1-3) by (simp add: min_def)
qed

lemma fold_extend:
  assumes "0 < sv_size x" "sv_size x \<le> 8" "w \<le> 64"
  shows "take_bit w (uint (sign_extend v (u32_saturating_mul (sv_size x) 8))) =
    take_bit w (signed_take_bit (width x - 1) (uint v))"
proof -
  have "0 < width x" using assms(1) by (simp add: width_def word_less_nat_alt)
  then show ?thesis
    using sint_sign_extend [of "u32_saturating_mul (sv_size x) 8" v] size_bits [OF assms(2)]
    by (simp add: take_bit_uint_sint [OF assms(3)] min_def)
qed

lemma fold_pointer:
  assumes "w \<le> 64"
  shows "take_bit w (uint (x + y * u32_to_u64 k)) = take_bit w (uint x + uint y * int (unat k))"
    and "take_bit w (uint (x - y * u32_to_u64 k)) = take_bit w (uint x - uint y * int (unat k))"
proof -
  have k: "word_of_int (int (unat k)) = u32_to_u64 k" unfolding uint_u32_to_u64 [symmetric] by simp
  show "take_bit w (uint (x + y * u32_to_u64 k)) = take_bit w (uint x + uint y * int (unat k))"
    using take_bit_uint_word_of_int [OF assms, of "uint x + uint y * int (unat k)"]
    unfolding wi_hom_add [symmetric] wi_hom_mult [symmetric] k by simp
  show "take_bit w (uint (x - y * u32_to_u64 k)) = take_bit w (uint x - uint y * int (unat k))"
    using take_bit_uint_word_of_int [OF assms, of "uint x - uint y * int (unat k)"]
    unfolding wi_hom_sub [symmetric] wi_hom_mult [symmetric] k by simp
qed

lemma fold_subpiece:
  assumes "\<not> 64 \<le> u32_saturating_mul k 8"
  shows "uint (drop_bit (unat (u32_saturating_mul k 8)) (x :: u64)) = drop_bit (8 * unat k) (uint x)"
proof -
  have "unat (u32_saturating_mul k 8) = 8 * unat k"
    using assms by (simp add: word_le_nat_alt unat_u32_saturating_mul)
  then show ?thesis by (simp add: unsigned_drop_bit_eq take_bit_64_uint)
qed

lemma take_bit_small_count: "n \<le> 64 \<Longrightarrow> 8 \<le> w \<Longrightarrow> take_bit w (uint (of_nat n :: u64)) = int n"
proof -
  assume n: "n \<le> 64" "8 \<le> w"
  have "uint (of_nat n :: u64) = int n" using n(1) by (simp add: unsigned_of_nat take_bit_nat_eq_self)
  moreover have "int n < 2 ^ w"
  proof -
    have "(2 :: int) ^ 8 \<le> 2 ^ w" using n(2) by (rule power_increasing) simp
    moreover have "int n < 2 ^ 8" using n(1) by simp
    ultimately show ?thesis by linarith
  qed
  ultimately show ?thesis by (simp add: take_bit_int_eq_self)
qed

lemma fold_counts:
  assumes "unat bits = width x" "8 \<le> width x" "width x \<le> 64"
  shows "take_bit (width x) (uint (of_nat (count_ones (v AND mask_for_bits bits)) :: u64)) =
      int (length (filter (bit (uint v)) [0..<width x]))"
    and "take_bit (width x) (uint (of_nat (leading_zeros (v AND mask_for_bits bits) - (64 - width x)) :: u64)) =
      int (length (takeWhile (\<lambda>n. \<not> bit (uint v) n) (rev [0..<width x])))"
proof -
  have m: "mask_for_bits bits = mask (width x)" using assms by (simp add: mask_for_bits_mask min_def)
  have "length (filter (bit (uint v)) [0..<width x]) \<le> 64"
    using length_filter_le [of "bit (uint v)" "[0..<width x]"] assms(3) by simp
  then show "take_bit (width x) (uint (of_nat (count_ones (v AND mask_for_bits bits)) :: u64)) =
      int (length (filter (bit (uint v)) [0..<width x]))"
    unfolding m count_ones_def filter_upt_bits [OF assms(3)] using assms(2) by (rule take_bit_small_count)
  have "length (takeWhile (\<lambda>n. \<not> bit (uint v) n) (rev [0..<width x])) \<le> 64"
    using length_takeWhile_le [of "\<lambda>n. \<not> bit (uint v) n" "rev [0..<width x]"] assms(3) by simp
  then show "take_bit (width x) (uint (of_nat (leading_zeros (v AND mask_for_bits bits) - (64 - width x)) :: u64)) =
      int (length (takeWhile (\<lambda>n. \<not> bit (uint v) n) (rev [0..<width x])))"
    unfolding m leading_zeros_width [OF assms(3)] using assms(2) by (rule take_bit_small_count)
qed

section \<open>Folding is exact\<close>

lemma fold_value_exact:
  assumes T: "fold_typed op" and E: "env_ok env get op" and d: "sop_dst op = Some d"
    and bits: "bits = u32_saturating_mul (sv_size d) 8"
    and f: "fold_value get bits op = folded v" and r: "fold_meaning env op = Some r"
  shows "take_bit (width d) (uint v) = r"
proof -
  have d8: "0 < sv_size d" "sv_size d \<le> 8" using T d by (auto simp: fold_typed_def)
  note b = size_bits [OF d8(2), folded bits]
  have w: "min 64 (unat bits) = width d" "0 < unat bits" "0 < width d" "8 \<le> width d"
    using b d8 by (auto simp: width_def word_less_nat_alt)
  have ok: "fits x (env x)" "get x = Some c \<Longrightarrow> env x = uint c" "0 < sv_size x" "sv_size x \<le> 8"
    if "x \<in> set (sop_sources op)" for x c
    using E T that by (auto simp: env_ok_def fold_typed_def)
  have fw: "fits x k = fits d k" "width x = width d" if "sv_size x = sv_size d" for x k
    using that by (simp_all add: fits_def width_def)
  have le: "sv_size x \<le> sv_size d \<Longrightarrow> width x \<le> width d" for x by (simp add: width_def word_le_nat_alt)
  note se = sint_sign_extend [OF w(2), unfolded w(1)]
  note sdiv = fold_signed_division [OF b(1) w(3) b(2)] and shift = fold_shift [OF b(1) w(3) b(2)]
  note defs = fold_value_def fold_meaning_def pcode_value_def Let_def with_const_Some fold_typed_def
    and ar = take_bit_uint_arith [OF b(2)] and sp = if_splits
  show ?thesis
  proof (cases op)
    case (Copy d' x)
    then show ?thesis using f r d T ok [of x] fw [of x] fits_take_bit [of d] by (auto simp: defs)
  next
    case (IntZExt d' x)
    then show ?thesis using f r d T ok [of x] le [of x] fits_take_bit_le [of x] by (auto simp: defs)
  next
    case (IntSExt d' x)
    then show ?thesis using f r d T ok [of x] fold_extend [OF _ _ b(2), of x] by (auto simp: defs)
  next
    case (IntDiv d' x y)
    then show ?thesis using f r d T ok [of x] ok [of y] fw [of x] fold_division(1) [of d] by (auto simp: defs split: sp)
  next
    case (IntRem d' x y)
    then show ?thesis using f r d T ok [of x] ok [of y] fw [of x] fw [of y] fold_division(2) [of d]
      by (auto simp: defs split: sp)
  next
    case (IntSDiv d' x y)
    then show ?thesis using f r d T ok [of x] ok [of y] fw(2) [of x] fw(2) [of y]
      by (auto simp: defs split: sp dest!: sdiv(1))
  next
    case (IntSRem d' x y)
    then show ?thesis using f r d T ok [of x] ok [of y] fw(2) [of x] fw(2) [of y]
      by (auto simp: defs split: sp dest!: sdiv(2))
  next
    case (IntAnd d' x y)
    then show ?thesis using f r d T ok [of x] ok [of y] fw [of x] fw [of y] fold_bitwise [of d] by (auto simp: defs)
  next
    case (IntOr d' x y)
    then show ?thesis using f r d T ok [of x] ok [of y] fw [of x] fw [of y] fold_bitwise [of d] by (auto simp: defs)
  next
    case (IntXor d' x y)
    then show ?thesis using f r d T ok [of x] ok [of y] fw [of x] fw [of y] fold_bitwise [of d] by (auto simp: defs)
  next
    case (IntLeft d' x y)
    then show ?thesis using f r d T ok [of x] ok [of y] fw [of x] shift(1) by (auto simp: defs not_le split: sp)
  next
    case (IntRight d' x y)
    then show ?thesis using f r d T ok [of x] ok [of y] fw [of x] shift(2) by (auto simp: defs not_le split: sp)
  next
    case (IntSRight d' x y)
    then show ?thesis using f r d T ok [of x] ok [of y] fw [of x] shift(3) by (auto simp: defs not_le split: sp)
  next
    case (IntSLess d' x y)
    then show ?thesis using f r d ok [of x] ok [of y] w(3) by (auto simp: defs se)
  next
    case (IntSLessEqual d' x y)
    then show ?thesis using f r d ok [of x] ok [of y] w(3) by (auto simp: defs se)
  next
    case (Piece d' h l)
    note o = ok [of h] ok [of l]
    obtain x y where xy: "get h = Some x" "get l = Some y" "\<not> 64 \<le> u32_saturating_mul (sv_size l) 8"
      "v = push_bit (unat (u32_saturating_mul (sv_size l) 8)) x OR (y AND mask_for_bits (u32_saturating_mul (sv_size l) 8))"
      using f Piece by (auto simp: fold_value_def Let_def with_const_Some split: sp)
    have e: "env h = uint x" "env l = uint y" "fits h (uint x)" "fits l (uint y)" using o xy Piece by fastforce+
    have u: "unat (u32_saturating_mul (sv_size l) 8) = width l" using size_bits(1) [of l] o Piece by simp
    have "width h + width l \<le> width d" using T Piece d by (simp add: fold_typed_def width_def)
    moreover have "width l < 64" using xy(3) u by (simp add: word_le_nat_alt)
    ultimately show ?thesis using fold_piece [OF e(3,4) _ b(2) _ u] r Piece d e xy(4) u by (simp add: fold_meaning_def pcode_value_def Let_def)
  next
    case (Subpiece d' x k)
    then show ?thesis using f r d ok [of x] fold_subpiece [of k] by (auto simp: defs split: sp)
  next
    case (PtrAdd d' x y k)
    then show ?thesis using f r d ok [of x] ok [of y] by (auto simp: defs fold_pointer [OF b(2)])
  next
    case (PtrSub d' x y k)
    then show ?thesis using f r d ok [of x] ok [of y] by (auto simp: defs fold_pointer [OF b(2)])
  next
    case (PopCount d' x)
    then show ?thesis using f r d ok [of x] fold_counts(1) [of bits d] b w(4) by (auto simp: defs)
  next
    case (Lzcount d' x)
    then show ?thesis using f r d ok [of x] fold_counts(2) [of bits d] b w(4)
      by (auto simp: defs min_def split: sp)
  next
    case (Trunc d' x)
    then show ?thesis using f r d ok [of x] w(1) by (auto simp: defs uint_and_mask)
  qed (use f r d ok w(3) in \<open>auto simp: defs ar minus_eq_not_plus_1 [symmetric] word_less_def word_le_def
    uint_eq_iffs split: sp\<close>)
qed

text \<open>An operation that folds has a value: a divisor that is zero is not folded.\<close>

lemma fold_value_meaning:
  assumes E: "env_ok env get op" and f: "fold_value get bits op = folded v"
  shows "\<exists>r. fold_meaning env op = Some r"
proof -
  have ok: "get x = Some c \<Longrightarrow> env x = uint c" if "x \<in> set (sop_sources op)" for x c
    using E that by (auto simp: env_ok_def)
  show ?thesis
    by (cases op) (use f ok in \<open>auto simp: fold_value_def fold_meaning_def pcode_value_def Let_def with_const_Some
      uint_eq_iffs split: if_splits\<close>)
qed

lemma eval_const_op_folded:
  "eval_const_op op consts = folded v \<longleftrightarrow>
     (\<exists>d v'. sop_dst op = Some d \<and>
        fold_value (\<lambda>v. const_for_var v consts) (u32_saturating_mul (sv_size d) 8) op = folded v' \<and>
        v = v' AND mask_for_bits (u32_saturating_mul (sv_size d) 8))"
  by (auto simp: eval_const_op_def Let_def split: option.splits)

lemma uint_and_mask_width: "sv_size d \<le> 8 \<Longrightarrow>
    uint (v AND mask_for_bits (u32_saturating_mul (sv_size d) 8)) = take_bit (width d) (uint v)"
  using size_bits [of d] by (simp add: uint_and_mask min_def)

section \<open>Rewriting keeps the value\<close>

text \<open>What a copy of \<open>s\<close> reads.\<close>

definition copied_value :: "(SSAVar \<Rightarrow> int) \<Rightarrow> SSAVar \<Rightarrow> int" where
  "copied_value env s = (case const_value s of Some c \<Rightarrow> uint c | None \<Rightarrow> env s)"

definition copies :: "(SSAVar \<Rightarrow> int) \<Rightarrow> SSAVar \<Rightarrow> SSAOp \<Rightarrow> int \<Rightarrow> bool" where
  "copies env d op' r \<longleftrightarrow> (\<exists>s. op' = Copy d s \<and> copied_value env s = r)"

lemma copies_const: "sv_size d \<le> 8 \<Longrightarrow> copies env d (make_const d v) r \<longleftrightarrow> take_bit (width d) (uint v) = r"
  by (simp add: copies_def make_const_def copied_value_def uint_and_mask_width)

lemma copies_copy: "(\<And>c. const_value s = Some c \<Longrightarrow> env s = uint c) \<Longrightarrow> copies env d (make_copy d s) r \<longleftrightarrow> env s = r"
  by (auto simp: copies_def make_copy_def copied_value_def split: option.splits)

text \<open>Where the constants are all known the rewriting folds; the other arms are identities.\<close>

definition rewrite_identity :: "SSAOp \<Rightarrow> SSAVar \<Rightarrow> SSAOp \<Rightarrow> bool" where
  "rewrite_identity op d op' =
     (case op of
        IntAdd _ a b \<Rightarrow> const_value a = Some 0 \<and> op' = make_copy d b \<or> const_value b = Some 0 \<and> op' = make_copy d a
      | IntSub _ a b \<Rightarrow> const_value b = Some 0 \<and> op' = make_copy d a \<or> a = b \<and> op' = make_const d 0
      | IntMult _ a b \<Rightarrow>
          (const_value a = Some 0 \<or> const_value b = Some 0) \<and> op' = make_const d 0 \<or>
          const_value a = Some 1 \<and> op' = make_copy d b \<or> const_value b = Some 1 \<and> op' = make_copy d a
      | IntDiv _ a b \<Rightarrow> const_value b = Some 1 \<and> op' = make_copy d a
      | IntSDiv _ a b \<Rightarrow> const_value b = Some 1 \<and> op' = make_copy d a
      | IntAnd _ a b \<Rightarrow>
          (const_value a = Some 0 \<or> const_value b = Some 0) \<and> op' = make_const d 0 \<or>
          const_value a = Some (mask_for_bits (u32_saturating_mul (sv_size d) 8)) \<and> op' = make_copy d b \<or>
          const_value b = Some (mask_for_bits (u32_saturating_mul (sv_size d) 8)) \<and> op' = make_copy d a
      | IntOr _ a b \<Rightarrow> const_value a = Some 0 \<and> op' = make_copy d b \<or> const_value b = Some 0 \<and> op' = make_copy d a
      | IntXor _ a b \<Rightarrow>
          const_value a = Some 0 \<and> op' = make_copy d b \<or> const_value b = Some 0 \<and> op' = make_copy d a \<or>
          a = b \<and> op' = make_const d 0
      | IntLeft _ a b \<Rightarrow> const_value b = Some 0 \<and> op' = make_copy d a
      | IntRight _ a b \<Rightarrow> const_value b = Some 0 \<and> op' = make_copy d a
      | IntSRight _ a b \<Rightarrow> const_value b = Some 0 \<and> op' = make_copy d a
      | IntEqual _ a b \<Rightarrow> a = b \<and> op' = make_const d 1
      | IntNotEqual _ a b \<Rightarrow> a = b \<and> op' = make_const d 0
      | IntLess _ a b \<Rightarrow> a = b \<and> op' = make_const d 0
      | IntLessEqual _ a b \<Rightarrow> a = b \<and> op' = make_const d 1
      | IntSLess _ a b \<Rightarrow> a = b \<and> op' = make_const d 0
      | IntSLessEqual _ a b \<Rightarrow> a = b \<and> op' = make_const d 1
      | BoolAnd _ a b \<Rightarrow> (const_value a = Some 0 \<or> const_value b = Some 0) \<and> op' = make_const d 0
      | BoolOr _ a b \<Rightarrow> (const_value a = Some 1 \<or> const_value b = Some 1) \<and> op' = make_const d 1
      | IntZExt _ x \<Rightarrow> sv_size x = sv_size d \<and> op' = make_copy d x
      | IntSExt _ x \<Rightarrow> sv_size x = sv_size d \<and> op' = make_copy d x
      | _ \<Rightarrow> False)"

lemma simplify_op_cases:
  assumes "simplify_op op = folded op'" "sop_dst op = Some d"
  shows "(\<exists>v. fold_value const_value (u32_saturating_mul (sv_size d) 8) op = folded v \<and> op' = make_const d v) \<or>
    rewrite_identity op d op'"
  using assms
  by (cases op)
    (auto simp: simplify_op_def simplify_arith_def simplify_shift_def simplify_compare_def simplify_bool_def
      both_const_def fold_value_def rewrite_identity_def with_const_def u64_of_bool_def Let_def
      split: option.splits if_splits)

lemma rewrite_identity_exact:
  assumes T: "fold_typed op" and E: "env_ok env const_value op" and d: "sop_dst op = Some d"
    and i: "rewrite_identity op d op'" and r: "fold_meaning env op = Some r"
  shows "copies env d op' r"
proof -
  have d8: "0 < sv_size d" "sv_size d \<le> 8" using T d by (auto simp: fold_typed_def)
  have w: "8 \<le> width d" "width d \<le> 64" using size_bits [OF d8(2)] d8(1) by (auto simp: width_def word_less_nat_alt)
  have ok: "fits x (env x)" "const_value x = Some c \<Longrightarrow> env x = uint c" if "x \<in> set (sop_sources op)" for x c
    using E that by (auto simp: env_ok_def)
  have fw: "fits x k \<Longrightarrow> take_bit (width d) k = k" "width x = width d" if "sv_size x = sv_size d" for x k
    using that fits_take_bit [of d k] by (simp_all add: fits_def width_def)
  have m: "uint (mask_for_bits (u32_saturating_mul (sv_size d) 8)) = mask (width d)"
    using uint_and_mask_width [OF d8(2), of "- 1"] by (simp add: take_bit_minus_one_eq_mask unsigned_minus_1_eq_mask min_def w(2))
  have one: "signed_take_bit (width d - 1) (1 :: int) = 1" "take_bit (width d) (1 :: int) = 1"
    using w(1) by (simp_all add: signed_take_bit_def bit_1_iff)
  have sg: "take_bit (width d) (signed_take_bit (width d - 1) k) = take_bit (width d) k" for k :: int
    using w(1) by (simp add: take_bit_signed_take_bit)
  note defs = rewrite_identity_def fold_meaning_def pcode_value_def Let_def fold_typed_def copies_const [OF d8(2)] copies_copy
  note cs = i r d T ok fw one sg m w
  show ?thesis
  proof (cases op)
    case (IntAdd _ x y)
    then show ?thesis using i r d T ok [of x] ok [of y] fw [of x] fw [of y] by (auto simp: defs)
  next
    case (IntSub _ x y)
    then show ?thesis using i r d T ok [of x] ok [of y] fw [of x] fw [of y] by (auto simp: defs)
  next
    case (IntMult _ x y)
    then show ?thesis using i r d T ok [of x] ok [of y] fw [of x] fw [of y] by (auto simp: defs)
  next
    case (IntDiv _ x y)
    then show ?thesis using i r d T ok [of x] ok [of y] fw [of x] by (auto simp: defs)
  next
    case (IntSDiv _ x y)
    then show ?thesis using i r d T ok [of x] ok [of y] fw [of x] fw(2) [of y] one sg by (auto simp: defs)
  next
    case (IntAnd _ x y)
    then show ?thesis using i r d T ok [of x] ok [of y] fw [of x] fw [of y]
      by (auto simp: defs m take_bit_eq_mask and.commute)
  next
    case (IntOr _ x y)
    then show ?thesis using i r d T ok [of x] ok [of y] fw [of x] fw [of y] by (auto simp: defs)
  next
    case (IntXor _ x y)
    then show ?thesis using i r d T ok [of x] ok [of y] fw [of x] fw [of y] by (auto simp: defs)
  next
    case (IntLeft _ x y)
    then show ?thesis using i r d T ok [of x] ok [of y] fw [of x] by (auto simp: defs)
  next
    case (IntRight _ x y)
    then show ?thesis using i r d T ok [of x] ok [of y] fw [of x] by (auto simp: defs)
  next
    case (IntSRight _ x y)
    then show ?thesis using i r d T ok [of x] ok [of y] fw [of x] sg by (auto simp: defs)
  next
    case (IntZExt _ x)
    then show ?thesis using i r d T ok [of x] fw [of x] by (auto simp: defs)
  next
    case (IntSExt _ x)
    then show ?thesis using i r d T ok [of x] fw [of x] sg by (auto simp: defs)
  qed (use i r d ok one w(1) in \<open>auto simp: defs\<close>)
qed

lemma rewrite_identity_meaning:
  assumes E: "env_ok env const_value op" and i: "rewrite_identity op d op'"
  shows "\<exists>r. fold_meaning env op = Some r"
proof -
  have ok: "const_value x = Some c \<Longrightarrow> env x = uint c" if "x \<in> set (sop_sources op)" for x c
    using E that by (auto simp: env_ok_def)
  show ?thesis
    by (cases op) (use i ok in \<open>auto simp: rewrite_identity_def fold_meaning_def pcode_value_def Let_def\<close>)
qed

text \<open>A one byte addition that wraps.\<close>

definition fold_example :: SSAOp where
  "fold_example = IntAdd (ssa_new ''a'' 1 1) (ssa_constant 200 1) (ssa_constant 100 1)"

lemma sv_size_constant [simp]: "sv_size (ssa_constant v sz) = sz"
  by (simp add: ssa_constant_def ssa_new_def)

lemma fold_example_facts:
  "fold_typed fold_example" "env_ok (copied_value (\<lambda>_. 0)) (\<lambda>v. const_for_var v []) fold_example"
  "eval_const_op fold_example [] = Some (Some 44)"
  "pcode_value (copied_value (\<lambda>_. 0)) fold_example = Some (take_bit 8 300)"
  "env_ok (copied_value (\<lambda>_. 0)) const_value fold_example"
  "simplify_op fold_example = Some (Some (make_const (ssa_new ''a'' 1 1) 300))"
proof -
  have m: "u32_saturating_mul 1 8 = 8" "mask_for_bits 8 = 255"
    by (simp_all add: u32_saturating_mul_def mask_for_bits_mask mask_eq_exp_minus_1)
  show "fold_typed fold_example" by (simp add: fold_typed_def fold_example_def ssa_new_def)
  show "env_ok (copied_value (\<lambda>_. 0)) (\<lambda>v. const_for_var v []) fold_example"
    "env_ok (copied_value (\<lambda>_. 0)) const_value fold_example"
    by (auto simp: env_ok_def fold_example_def copied_value_def const_for_var_def fits_def width_def)
  show "eval_const_op fold_example [] = Some (Some 44)"
    by (simp add: eval_const_op_def fold_example_def ssa_new_def fold_value_def with_const_def const_for_var_def Let_def m)
  show "pcode_value (copied_value (\<lambda>_. 0)) fold_example = Some (take_bit 8 300)"
    by (simp add: pcode_value_def fold_example_def copied_value_def Let_def width_def ssa_new_def)
  show "simplify_op fold_example = Some (Some (make_const (ssa_new ''a'' 1 1) 300))"
    by (simp add: simplify_op_def simplify_arith_def both_const_def with_const_def fold_example_def Let_def)
qed

text \<open>A signed comparison of four bytes into one.\<close>

definition signed_example :: SSAOp where
  "signed_example = IntSLess (ssa_new ''a'' 1 1) (ssa_constant 128 4) (ssa_constant 1 4)"

lemma signed_example_facts:
  "fold_typed signed_example" "env_ok (copied_value (\<lambda>_. 0)) (\<lambda>v. const_for_var v []) signed_example"
  "eval_const_op signed_example [] = Some (Some 1)"
  "env_ok (copied_value (\<lambda>_. 0)) const_value signed_example"
  "simplify_op signed_example = Some (Some (make_const (ssa_new ''a'' 1 1) 1))"
  "pcode_value (copied_value (\<lambda>_. 0)) signed_example = Some 0"
proof -
  have m: "u32_saturating_mul 1 8 = 8" "mask_for_bits 8 = 255"
    by (simp_all add: u32_saturating_mul_def mask_for_bits_mask mask_eq_exp_minus_1)
  have se: "sint (sign_extend z 8) = signed_take_bit 7 (uint z)" for z using sint_sign_extend [of 8 z] by simp
  have sg: "signed_take_bit 7 (128 :: int) < signed_take_bit 7 1" "\<not> signed_take_bit 31 (128 :: int) < signed_take_bit 31 1"
    by (simp_all add: signed_take_bit_def bit_iff_odd mask_eq_exp_minus_1 take_bit_eq_mod)
  show "fold_typed signed_example" by (simp add: fold_typed_def signed_example_def ssa_new_def)
  show "env_ok (copied_value (\<lambda>_. 0)) (\<lambda>v. const_for_var v []) signed_example"
    "env_ok (copied_value (\<lambda>_. 0)) const_value signed_example"
    by (auto simp: env_ok_def signed_example_def copied_value_def const_for_var_def fits_def width_def)
  show "eval_const_op signed_example [] = Some (Some 1)"
    using sg(1) by (simp add: eval_const_op_def signed_example_def ssa_new_def fold_value_def with_const_def const_for_var_def
      Let_def m se u64_of_bool_def)
  show "simplify_op signed_example = Some (Some (make_const (ssa_new ''a'' 1 1) 1))"
  proof -
    have "ssa_constant 128 4 \<noteq> ssa_constant 1 4"
    proof
      assume "ssa_constant 128 4 = ssa_constant 1 4"
      then have "const_value (ssa_constant 128 4) = const_value (ssa_constant 1 4)" by simp
      then show False by simp
    qed
    then show ?thesis
      using sg(1) by (simp add: simplify_op_def simplify_compare_def both_const_def with_const_def signed_example_def ssa_new_def
        Let_def m se u64_of_bool_def)
  qed
  show "pcode_value (copied_value (\<lambda>_. 0)) signed_example = Some 0"
    using sg(2) by (simp add: pcode_value_def signed_example_def copied_value_def Let_def width_def)
qed

section \<open>Properties\<close>

text \<open>C21. What folding computes, for every operation with operands and destination of at most eight
  bytes whose widths follow the validator's rules: when an operation folds to a constant, the constant is the value the operation has in the
  reference semantics, each operand at its own width, on operand values in their range and equal to
  what folding knows of them; except for signed comparisons and bit counts whose operands are not as
  wide as the destination, and for float truncation, where the constant is the value on the operands
  cut to the width of the destination.\<close>

theorem eval_const_op_exact:
  assumes "fold_typed op" "env_ok env (\<lambda>v. const_for_var v consts) op"
    and "eval_const_op op consts = Some (Some v)"
  shows "fold_meaning env op = Some (uint v) \<and> (\<not> misread op \<longrightarrow> pcode_value env op = Some (uint v))"
proof -
  have "fold_meaning env op = Some (uint v)"
    using assms(3) fold_value_exact [OF assms(1,2) _ refl] fold_value_meaning [OF assms(2)] assms(1) uint_and_mask_width
    by (fastforce simp: eval_const_op_folded fold_typed_def)
  then show ?thesis using fold_meaning_pcode by metis
qed

theorem eval_const_op_exact_witness:
  "pcode_value (copied_value (\<lambda>_. 0)) fold_example = Some (uint (44 :: u64)) \<and>
   fold_meaning (copied_value (\<lambda>_. 0)) signed_example = Some (uint (1 :: u64)) \<and>
   pcode_value (copied_value (\<lambda>_. 0)) signed_example = Some 0"
  using eval_const_op_exact [OF fold_example_facts(1-3)] eval_const_op_exact [OF signed_example_facts(1-3)]
    signed_example_facts(6) by (simp add: misread_def fold_example_def)

text \<open>C25. Local rewriting: what \<open>simplify_op\<close> returns is a copy into the same destination. What it copies
  has the value of the operation it replaces in the reference semantics, on operands and a
  destination of at most eight bytes whose widths follow the validator's rules; except for signed comparisons and bit counts whose operands are
  not as wide as the destination, and for float truncation, where it has the value on the operands
  cut to the width of the destination, as in folding.\<close>

theorem simplify_op_exact:
  assumes "fold_typed op" "env_ok env const_value op" "simplify_op op = Some (Some op')"
  shows "\<exists>d s. sop_dst op = Some d \<and> op' = Copy d s \<and> fold_meaning env op = Some (copied_value env s) \<and>
    (\<not> misread op \<longrightarrow> pcode_value env op = Some (copied_value env s))"
proof -
  obtain d where d: "sop_dst op = Some d" using assms(3) by (auto simp: simplify_op_def split: option.splits)
  have d8: "sv_size d \<le> 8" using assms(1) d by (auto simp: fold_typed_def)
  from simplify_op_cases [OF assms(3) d] have "\<exists>r. fold_meaning env op = Some r \<and> copies env d op' r"
  proof
    assume "\<exists>v. fold_value const_value (u32_saturating_mul (sv_size d) 8) op = folded v \<and> op' = make_const d v"
    then show ?thesis
      using fold_value_exact [OF assms(1,2) d refl] fold_value_meaning [OF assms(2)] by (fastforce simp: copies_const [OF d8])
  next
    assume i: "rewrite_identity op d op'"
    then show ?thesis using rewrite_identity_exact [OF assms(1,2) d i] rewrite_identity_meaning [OF assms(2) i] by blast
  qed
  then show ?thesis using d fold_meaning_pcode [of op env] by (auto simp: copies_def)
qed

theorem simplify_op_exact_witness:
  "(\<exists>d s. simplify_op fold_example = Some (Some (Copy d s)) \<and> copied_value (copied_value (\<lambda>_. 0)) s = take_bit 8 300) \<and>
   (\<exists>d s. simplify_op signed_example = Some (Some (Copy d s)) \<and>
      fold_meaning (copied_value (\<lambda>_. 0)) signed_example = Some (copied_value (copied_value (\<lambda>_. 0)) s)) \<and>
   pcode_value (copied_value (\<lambda>_. 0)) signed_example = Some 0"
proof -
  have "\<not> misread fold_example" by (simp add: misread_def fold_example_def)
  then show ?thesis
    using simplify_op_exact [OF fold_example_facts(1,5,6)] fold_example_facts(4,6)
      simplify_op_exact [OF signed_example_facts(1,4,5)] signed_example_facts(5,6) by auto
qed

text \<open>C26. A folded constant never exceeds the destination: its value is below two to the number of bits of
  the destination, whatever the operands were.\<close>

theorem eval_const_op_bound:
  assumes "eval_const_op op consts = Some (Some v)" "sop_dst op = Some d"
  shows "unat v < 2 ^ (8 * unat (sv_size d))"
proof -
  let ?b = "u32_saturating_mul (sv_size d) 8"
  obtain v' where "v = v' AND mask_for_bits ?b" using assms by (auto simp: eval_const_op_folded)
  then have "uint v = take_bit (min 64 (unat ?b)) (uint v')" by (simp only: uint_and_mask)
  then have "uint v < 2 ^ min 64 (unat ?b)" by (simp only: take_bit_int_less_exp)
  also have "\<dots> \<le> 2 ^ (8 * unat (sv_size d))"
  proof (rule power_increasing)
    have "unat ?b \<le> 8 * unat (sv_size d)" unfolding unat_u32_saturating_mul by simp
    then show "min 64 (unat ?b) \<le> 8 * unat (sv_size d)" by (rule min.coboundedI2)
  qed simp
  finally show ?thesis unfolding uint_nat by (simp only: of_nat_less_numeral_power_cancel_iff)
qed

theorem eval_const_op_bound_witness:
  "eval_const_op fold_example [] = Some (Some 44) \<and> unat (44 :: u64) < 2 ^ (8 * unat (1 :: u32))"
  using eval_const_op_bound [OF fold_example_facts(3), of "ssa_new ''a'' 1 1"] fold_example_facts(3)
  by (simp add: fold_example_def ssa_new_def)

text \<open>When folding panics: exactly at a signed division or remainder of two known constants with a
  non-zero divisor whose sign extension at the destination is zero, or of the least \<open>i64\<close> by -1.\<close>

theorem eval_const_op_panics:
  "eval_const_op op consts = None \<longleftrightarrow>
     (\<exists>d a b x y. (op = IntSDiv d a b \<or> op = IntSRem d a b) \<and>
        const_for_var a consts = Some x \<and> const_for_var b consts = Some y \<and> y \<noteq> 0 \<and>
        (let bits = u32_saturating_mul (sv_size d) 8
         in sign_extend y bits = 0 \<or> sint (sign_extend x bits) = - (2 ^ 63) \<and> sign_extend y bits = - 1))"
proof (cases op)
  case (IntSDiv d a b)
  then show ?thesis
    by (auto simp: eval_const_op_def fold_value_def Let_def with_const_def i64_div_def split: option.splits)
next
  case (IntSRem d a b)
  then show ?thesis
    by (auto simp: eval_const_op_def fold_value_def Let_def with_const_def i64_rem_def split: option.splits)
qed (auto simp: eval_const_op_def fold_value_def Let_def with_const_def split: option.splits)

text \<open>Signed comparisons fold at the wrong width: the result of a comparison is one byte wide, and
  folding extends the operands from that width, so only their low bytes are compared.\<close>

theorem signed_compare_folds_low_byte:
  "eval_const_op (IntSLess (SSAVar nm ver 1) (ssa_constant x sz) (ssa_constant y sz)) [] =
     Some (Some (u64_of_bool (signed_take_bit 7 (uint x) < signed_take_bit 7 (uint y))))"
proof -
  have b: "u32_saturating_mul 1 8 = 8" by (simp add: u32_saturating_mul_def)
  have "sint (sign_extend z 8) = signed_take_bit 7 (uint z)" for z using sint_sign_extend [of 8 z] by simp
  moreover have "u64_of_bool P AND mask_for_bits 8 = u64_of_bool P" for P
    by (simp add: u64_of_bool_def mask_for_bits_mask mask_eq_exp_minus_1)
  ultimately show ?thesis
    by (simp add: eval_const_op_def fold_value_def with_const_def const_for_var_def Let_def b)
qed

end
