(* ===== verification/SSA_Sccp_Props.thy ===== *)
theory SSA_Sccp_Props
  imports SSA_Sccp_Steps SSA_Fold_Props
begin

text \<open>
  The propagation terminates and is sound: against every run of the function, no edge is wrongly
  taken for dead and no variable wrongly taken for constant.
\<close>

section \<open>The loops return\<close>

definition quiet :: "'g petgraph \<Rightarrow> 'g SSAFunction \<Rightarrow> sccp_state \<Rightarrow> bool" where
  "quiet G f s \<longleftrightarrow> sccp_inv G f s \<and> sc_cfg s = [] \<and> sc_ssa s = []"

lemma cfg_loop_ok:
  assumes "sccp_inv G f s"
  shows "returns f (cfg_loop G f s)
     (\<lambda>s'. sccp_inv G f s' \<and> sc_cfg s' = [] \<and> (s' = s\<lparr>sc_cfg := []\<rparr> \<or> open_edges G f s' < open_edges G f s))"
  using assms
proof (induction s rule: wf_induct_rule [OF wf_measures [of "[open_edges G f, \<lambda>s. length (sc_cfg s)]"]])
  case (1 s)
  show ?case
  proof (cases "sc_cfg s")
    case Nil
    then have "s = s\<lparr>sc_cfg := []\<rparr>" by simp
    then show ?thesis using Nil 1(2) by (subst cfg_loop.simps) simp
  next
    case (Cons e rest)
    obtain p b where e: "e = (p, b)" by (cases e)
    let ?s = "s\<lparr>sc_cfg := rest\<rparr>"
    have "returns f (cfg_step G f e ?s) (\<lambda>s'. s' = ?s \<and> sccp_inv G f s' \<or> advances G f s s')"
      using cfg_step_ok [OF 1(2)] Cons e by simp
    then show ?thesis
    proof (subst cfg_loop.simps, simp only: Cons list.case, elim returns_bind)
      fix s' assume s': "s' = ?s \<and> sccp_inv G f s' \<or> advances G f s s'"
      have same: "open_edges G f ?s = open_edges G f s" by (simp add: open_edges_def)
      have "(s', s) \<in> measures [open_edges G f, \<lambda>s. length (sc_cfg s)]"
        using s' same Cons by (auto simp: advances_def)
      from 1(1) [OF this] s'
      have "returns f (cfg_loop G f s') (\<lambda>t. sccp_inv G f t \<and> sc_cfg t = [] \<and>
          (t = s'\<lparr>sc_cfg := []\<rparr> \<or> open_edges G f t < open_edges G f s'))" by (auto simp: advances_def)
      then show "returns f (cfg_loop G f s') (\<lambda>t. sccp_inv G f t \<and> sc_cfg t = [] \<and>
          (t = s\<lparr>sc_cfg := []\<rparr> \<or> open_edges G f t < open_edges G f s))"
        by (rule returns_mono) (use s' same in \<open>auto simp: advances_def open_edges_def\<close>)
    qed
  qed
qed

lemma lattice_height_le: "lowers f s s' \<Longrightarrow> lattice_height f s' \<le> lattice_height f s"
  unfolding lattice_height_def lowers_def
  by (intro sum_mono) (metis lv_height_less order.strict_iff_order order_refl less_imp_le)

lemma ssa_loop_ok:
  assumes "listed_blocks f" "sccp_inv G f s"
  shows "returns f (ssa_loop G f (build_use_map f) s)
     (\<lambda>s'. sccp_inv G f s' \<and> sc_ssa s' = [] \<and> sc_executable s' = sc_executable s \<and> (sc_ssa s = [] \<longrightarrow> s' = s))"
  using assms(2)
proof (induction s rule: wf_induct_rule [OF wf_measures [of "[lattice_height f, \<lambda>s. length (sc_ssa s)]"]])
  case (1 s)
  show ?case
  proof (cases "sc_ssa s")
    case Nil
    then show ?thesis using 1(2) by (subst ssa_loop.simps) simp
  next
    case (Cons k rest)
    let ?s = "s\<lparr>sc_ssa := rest\<rparr>"
    show ?thesis
    proof (subst ssa_loop.simps, simp only: Cons list.case, rule returns_bind [OF uses_ok [OF assms(1) 1(2) Cons]], elim conjE)
      fix s' assume s': "sccp_inv G f s'" "sc_executable s' = sc_executable s" "lowers f ?s s'"
      have "lattice_height f ?s = lattice_height f s" by (simp add: lattice_height_def)
      then have "(s', s) \<in> measures [lattice_height f, \<lambda>s. length (sc_ssa s)]"
        using lattice_height_less [OF s'(3)] lattice_height_le [OF s'(3)] Cons by (cases "sc_ssa s' = rest") auto
      from 1(1) [OF this s'(1)] show "returns f (ssa_loop G f (build_use_map f) s') (\<lambda>t. sccp_inv G f t \<and> sc_ssa t = [] \<and>
          sc_executable t = sc_executable s \<and> (k # rest = [] \<longrightarrow> t = s))"
        by (rule returns_mono) (use s'(2) in auto)
    qed
  qed
qed

lemma sccp_loop_ok:
  assumes "listed_blocks f" "sccp_inv G f s" "sc_ssa s = []"
  shows "returns f (sccp_loop G f (build_use_map f) s) (quiet G f)"
  using assms(2,3)
proof (induction s rule: wf_induct_rule [OF wf_measures [of "[open_edges G f, \<lambda>s. length (sc_cfg s)]"]])
  case (1 s)
  show ?case
  proof (cases "sc_cfg s = []")
    case True
    then show ?thesis using 1(2,3) by (subst sccp_loop.simps) (simp add: quiet_def)
  next
    case False
    show ?thesis
    proof (subst sccp_loop.simps, simp only: False simp_thms if_False, rule returns_bind [OF cfg_loop_ok [OF 1(2)]], elim conjE)
      fix t assume t: "sccp_inv G f t" "sc_cfg t = []" "t = s\<lparr>sc_cfg := []\<rparr> \<or> open_edges G f t < open_edges G f s"
      show "returns f (Option.bind (ssa_loop G f (build_use_map f) t) (sccp_loop G f (build_use_map f))) (quiet G f)"
      proof (rule returns_bind [OF ssa_loop_ok [OF assms(1) t(1)]], elim conjE)
        fix u assume u: "sccp_inv G f u" "sc_ssa u = []" "sc_executable u = sc_executable t" "sc_ssa t = [] \<longrightarrow> u = t"
        have "(u, s) \<in> measures [open_edges G f, \<lambda>s. length (sc_cfg s)]"
          using t u False 1(3) by (auto simp: open_edges_def)
        then show "returns f (sccp_loop G f (build_use_map f) u) (quiet G f)" using 1(1) u(1,2) by blast
      qed
    qed
  qed
qed

section \<open>The initial lattice\<close>

lemma init_if_input_get:
  "hm_get (foldl init_if_input l vs) v =
     (case hm_get l v of Some r \<Rightarrow> Some r
      | None \<Rightarrow> if v \<in> set vs \<and> sv_version v = 0 \<and> \<not> ssa_is_const v then Some LBottom else None)"
proof (induction vs arbitrary: l)
  case (Cons w vs)
  show ?case
    unfolding foldl_Cons Cons.IH
    by (auto simp: init_if_input_def hm_get_insert split: option.split)
qed (simp split: option.split)

lemma init_if_input_ok: "hm_ok l \<Longrightarrow> hm_ok (foldl init_if_input l vs)"
  by (induction vs arbitrary: l) (simp_all add: init_if_input_def hm_ok_insert split: option.split)

definition block_vars :: "FunctionSSABlock \<Rightarrow> SSAVar list" where
  "block_vars b = map fst (block_for_each_def b) @ map fst (block_for_each_source b)"

lemma sccp_init_lattice:
  "sc_lattice (sccp_init f) = foldl init_if_input [] (concat (map block_vars (fn_blocks_in_order f)))"
proof -
  have *: "foldl (\<lambda>l x. init_if_input l (fst x)) l xs = foldl init_if_input l (map fst xs)" for l xs
    by (simp add: foldl_map)
  have "foldl (\<lambda>l b. foldl init_if_input l (block_vars b)) l bs = foldl init_if_input l (concat (map block_vars bs))" for l bs
    by (induction bs arbitrary: l) simp_all
  then show ?thesis by (simp add: sccp_init_def * block_vars_def)
qed

lemma site_reads_listed:
  assumes "site_in f x" "k \<in> site_reads f x"
  obtains b where "fn_get_block f (site_block x) = Some b" "k \<in> fst ` set (block_for_each_source b)"
proof (cases x)
  case (PhiSite a phi)
  then obtain b i where b: "fn_get_block f a = Some b" "i < length (fb_phis b)" "phi = fb_phis b ! i"
    using assms(1) by (auto simp: in_set_conv_nth)
  then obtain j p where "(k, SourcePhi i j p) \<in> set (block_for_each_source b)"
    using phi_source_listed [OF b(2), of k] assms(2) PhiSite by auto
  then show thesis using that [of b] b PhiSite by force
next
  case (OpSite a op)
  then obtain b i where b: "fn_get_block f a = Some b" "i < length (fb_ops b)" "op = fb_ops b ! i"
    using assms(1) by (auto simp: in_set_conv_nth)
  then obtain j where "(k, SourceOp i j) \<in> set (block_for_each_source b)"
    using op_source_listed [OF b(2), of k] assms(2) OpSite by auto
  then show thesis using that [of b] b OpSite by force
next
  case (TermSite a)
  then obtain b t where b: "fn_get_block f a = Some b" "CBranch t k \<in> set (fb_ops b)"
    using assms last_cbranch_Some by (fastforce simp: branch_reads_def)
  then obtain i where i: "i < length (fb_ops b)" "fb_ops b ! i = CBranch t k" by (auto simp: in_set_conv_nth)
  then obtain j where "(k, SourceOp i j) \<in> set (block_for_each_source b)"
    using op_source_listed [OF i(1), of k] by auto
  then show thesis using that [of b] b TermSite by force
qed

lemma site_target_listed:
  assumes "site_in f x" "site_target x = Some d"
  obtains b where "fn_get_block f (site_block x) = Some b" "d \<in> fst ` set (block_for_each_def b)"
proof -
  obtain b where "fn_get_block f (site_block x) = Some b" "d \<in> set (map pn_dst (fb_phis b) @ dsts (fb_ops b))"
    using assms by (cases x) (force simp: dsts_def)+
  then show thesis using that unfolding block_for_each_def_vars [symmetric] by simp
qed

lemma fn_inputs_block_vars:
  assumes "listed_blocks f" "v \<in> fn_inputs f"
  shows "v \<in> set (concat (map block_vars (fn_blocks_in_order f)))"
proof -
  obtain x where x: "site_in f x" "v \<in> site_reads f x \<or> site_target x = Some v" using assms(2) by (auto simp: fn_inputs_def)
  then obtain b where b: "fn_get_block f (site_block x) = Some b" "v \<in> set (block_vars b)"
    using site_reads_listed [OF x(1), of v] site_target_listed [OF x(1), of v] unfolding block_vars_def
    by (metis UnI1 UnI2 list.set_map set_append)
  then show ?thesis using listed_blocksD(2) [OF assms(1) b(1)] by auto
qed

lemma sccp_init_ok:
  assumes "listed_blocks f"
  shows "sccp_inv G f (sccp_init f)"
proof -
  have "lat_of (sc_lattice (sccp_init f)) v = LBottom" if "v \<in> fn_inputs f" for v
    using fn_inputs_block_vars [OF assms that] that
    by (simp add: sccp_init_lattice lat_of_def init_if_input_get hm_get_def [of "[]"] fn_inputs_def del: set_concat)
  moreover have "lat_of (sc_lattice (sccp_init f)) k \<noteq> LConst c" for k c
    by (simp add: sccp_init_lattice lat_of_def init_if_input_get hm_get_def [of "[]"] del: set_concat)
  moreover have "hm_ok (sc_lattice (sccp_init f))"
    unfolding sccp_init_lattice by (rule init_if_input_ok) (simp add: hm_ok_def)
  ultimately show ?thesis
    by (simp add: sccp_inv_def sccp_wf_def sites_ok_def candidate_edges_def) (simp add: sccp_init_def)
qed

lemma sccp_ok:
  assumes "listed_blocks f"
  shows "returns f (sccp G f) (\<lambda>(cs, X). \<exists>s. quiet G f s \<and> X = sc_executable s \<and>
     cs = List.map_filter (\<lambda>(k, v). case v of LConst c \<Rightarrow> Some (k, c) | _ \<Rightarrow> None) (sc_lattice s))"
  unfolding sccp_def returns_map
  by (rule returns_mono [OF sccp_loop_ok [OF assms sccp_init_ok [OF assms]]]) (auto simp: sccp_init_def)

section \<open>Runs of a function\<close>

type_synonym ssa_env = "SSAVar \<Rightarrow> u64 option"

definition var_value :: "ssa_env \<Rightarrow> SSAVar \<Rightarrow> u64 option" where
  "var_value env v = (case const_value v of Some c \<Rightarrow> Some c | None \<Rightarrow> env v)"

text \<open>The value folding gives an operation on the values of its sources; a plain \<open>None\<close> inside leaves it open.\<close>

definition op_value :: "ssa_env \<Rightarrow> SSAOp \<Rightarrow> SSAVar \<Rightarrow> u64 option option" where
  "op_value env op d =
     (let bits = u32_saturating_mul (sv_size d) 8
      in map_option (map_option (\<lambda>v. v AND mask_for_bits bits)) (fold_value (var_value env) bits op))"

text \<open>An operation needs its sources; its result is the folded value where there is one, else anything.\<close>

definition op_step :: "SSAOp \<Rightarrow> ssa_env \<Rightarrow> ssa_env \<Rightarrow> bool" where
  "op_step op env env' \<longleftrightarrow>
     (\<forall>v \<in> set (sop_sources op). var_value env v \<noteq> None) \<and>
     (case sop_dst op of
        None \<Rightarrow> env' = env
      | Some d \<Rightarrow> \<exists>c. env' = env(d \<mapsto> c) \<and> (\<forall>r. op_value env op d = Some (Some r) \<longrightarrow> c = r))"

text \<open>The phis of a block read together, along the edge from \<open>p\<close>; a phi may also leave its variable undefined.\<close>

definition phi_step :: "u64 \<Rightarrow> PhiNode list \<Rightarrow> ssa_env \<Rightarrow> ssa_env \<Rightarrow> bool" where
  "phi_step p phis env env' \<longleftrightarrow>
     (\<forall>v. v \<notin> pn_dst ` set phis \<longrightarrow> env' v = env v) \<and>
     (\<forall>phi \<in> set phis. env' (pn_dst phi) = None \<or>
        (\<exists>src. (p, src) \<in> set (pn_sources phi) \<and> env' (pn_dst phi) = var_value env src))"

definition takes_edge :: "'g petgraph \<Rightarrow> 'g SSAFunction \<Rightarrow> u64 \<Rightarrow> ssa_env \<Rightarrow> u64 \<Rightarrow> bool" where
  "takes_edge G f a env t \<longleftrightarrow>
     (case get_block G (fn_cfg f) a of
        None \<Rightarrow> False
      | Some cb \<Rightarrow>
          (case bb_terminator cb of
             TermConditionalBranch true_target false_target \<Rightarrow>
               (case Option.bind (fn_get_block f a) (\<lambda>b. last_cbranch (fb_ops b)) of
                  None \<Rightarrow> t = true_target \<or> t = false_target
                | Some cond \<Rightarrow> \<exists>c. var_value env cond = Some c \<and> t = (if c = 0 then false_target else true_target))
           | _ \<Rightarrow> t \<in> set (cfg_successors G (fn_cfg f) a)))"

datatype ssa_point = OnEdge u64 u64 | InBlock u64 nat

inductive runs :: "'g petgraph \<Rightarrow> 'g SSAFunction \<Rightarrow> ssa_point \<Rightarrow> ssa_env \<Rightarrow> bool" for G f where
  run_start: "dom env \<subseteq> fn_inputs f \<Longrightarrow> runs G f (OnEdge (- 1) (fn_entry f)) env"
| run_enter: "runs G f (OnEdge p a) env \<Longrightarrow> fn_get_block f a = Some b \<Longrightarrow> phi_step p (fb_phis b) env env' \<Longrightarrow>
    runs G f (InBlock a 0) env'"
| run_op: "runs G f (InBlock a i) env \<Longrightarrow> fn_get_block f a = Some b \<Longrightarrow> i < length (fb_ops b) \<Longrightarrow>
    op_step (fb_ops b ! i) env env' \<Longrightarrow> runs G f (InBlock a (Suc i)) env'"
| run_branch: "runs G f (InBlock a i) env \<Longrightarrow> fn_get_block f a = Some b \<Longrightarrow> i = length (fb_ops b) \<Longrightarrow>
    takes_edge G f a env t \<Longrightarrow> runs G f (OnEdge a t) env"

section \<open>Soundness\<close>

definition agrees :: "lattice_map \<Rightarrow> ssa_env \<Rightarrow> bool" where
  "agrees l env \<longleftrightarrow> (\<forall>v c. env v = Some c \<longrightarrow> lat_of l v \<le> LConst c)"

lemma agrees_value: "agrees l env \<Longrightarrow> var_value env v = Some c \<Longrightarrow> get_lattice_value v l \<le> LConst c"
  by (auto simp: agrees_def var_value_def get_lattice_value_def split: option.splits)

lemma agrees_update: "agrees l env \<Longrightarrow> lat_of l d \<le> LConst c \<Longrightarrow> agrees l (env(d \<mapsto> c))"
  by (simp add: agrees_def)

lemma foldl_meet_le:
  fixes g :: "'a \<Rightarrow> LatticeValue"
  shows "foldl (\<lambda>v x. if P x then v else lv_meet v (g x)) w xs \<le> w"
    and "x \<in> set xs \<Longrightarrow> \<not> P x \<Longrightarrow> foldl (\<lambda>v x. if P x then v else lv_meet v (g x)) w xs \<le> g x"
proof -
  show le: "foldl (\<lambda>v x. if P x then v else lv_meet v (g x)) w xs \<le> w" for w xs
  proof (induction xs arbitrary: w)
    case (Cons y ys)
    have "(if P y then w else lv_meet w (g y)) \<le> w" by (simp add: lv_meet_inf)
    then show ?case using order_trans [OF Cons [of "if P y then w else lv_meet w (g y)"]] by simp
  qed simp
  show "foldl (\<lambda>v x. if P x then v else lv_meet v (g x)) w xs \<le> g x" if "x \<in> set xs" "\<not> P x" for w
    using that
  proof (induction xs arbitrary: w)
    case (Cons y ys)
    have "lv_meet w (g x) \<le> g x" by (simp add: lv_meet_inf)
    then show ?case using Cons order_trans [OF le [of "lv_meet w (g x)" ys]] by auto
  qed simp
qed

lemma evaluate_phi_le:
  assumes "(p, src) \<in> set (pn_sources phi)" "(p, a) \<in> X"
  shows "evaluate_phi_sccp phi X l a \<le> get_lattice_value src l"
proof -
  have "evaluate_phi_sccp phi X l a = foldl (\<lambda>v x. if (fst x, a) \<notin> X then v else lv_meet v (get_lattice_value (snd x) l)) LTop (pn_sources phi)"
    unfolding evaluate_phi_sccp_def by (intro foldl_cong) (simp_all add: split_beta')
  also have "\<dots> \<le> get_lattice_value (snd (p, src)) l" by (rule foldl_meet_le(2) [OF assms(1)]) (use assms(2) in simp)
  finally show ?thesis by simp
qed

lemma fold_value_cong:
  "(\<And>v. v \<in> set (sop_sources op) \<Longrightarrow> get v = get' v) \<Longrightarrow> fold_value get bits op = fold_value get' bits op"
  by (cases op) (simp_all add: fold_value_def Let_def with_const_def split: option.split)

lemma gather_sources_consts:
  assumes "gather_sources l srcs h cs = Some (False, cs')" "agrees l env" "\<forall>v \<in> set srcs. var_value env v \<noteq> None"
    and "\<forall>v c. hm_get cs v = Some c \<longrightarrow> var_value env v = Some c"
  shows "\<not> h \<and> (\<forall>v c. hm_get cs' v = Some c \<longrightarrow> var_value env v = Some c) \<and>
     (\<forall>v. hm_get cs v \<noteq> None \<or> v \<in> set srcs \<longrightarrow> hm_get cs' v \<noteq> None)"
  using assms
proof (induction srcs arbitrary: h cs)
  case (Cons v srcs)
  obtain c where c: "var_value env v = Some c" using Cons.prems(3) by auto
  have le: "get_lattice_value v l \<le> LConst c" by (rule agrees_value [OF Cons.prems(2) c])
  show ?case
  proof (cases "get_lattice_value v l")
    case (LConst c')
    then have "c' = c" using le by (simp add: LConst_le)
    moreover have "\<forall>w d. hm_get (hm_insert v c cs) w = Some d \<longrightarrow> var_value env w = Some d"
      using c Cons.prems(4) by (simp add: hm_get_insert)
    ultimately show ?thesis
      using Cons.IH [of h "hm_insert v c cs"] Cons.prems LConst by (auto simp: hm_get_insert split: if_splits)
  qed (use Cons.prems le in \<open>auto simp: LTop_le\<close>)
qed auto

lemma gather_sources_top:
  assumes "gather_sources l srcs False cs = Some (h, cs')" "agrees l env" "\<forall>v \<in> set srcs. var_value env v \<noteq> None"
  shows "\<not> h"
  using assms
proof (induction srcs arbitrary: cs)
  case (Cons v srcs)
  then obtain c where c: "var_value env v = Some c" by auto
  have "get_lattice_value v l \<le> LConst c" by (rule agrees_value [OF Cons.prems(2) c])
  then show ?case using Cons by (cases "get_lattice_value v l") (auto simp: LTop_le)
qed auto

lemma evaluate_op_sound:
  assumes "evaluate_op_sccp op l = Some r" "agrees l env" "op_step op env env'" "sop_dst op = Some d" "env' d = Some c"
  shows "r \<le> LConst c"
proof (cases "sccp_opaque op \<or> gather_sources l (sop_sources op) False [] = None")
  case True
  then show ?thesis using assms(1) by (auto simp: evaluate_op_sccp_def split: if_splits)
next
  case False
  then obtain h cs where g: "gather_sources l (sop_sources op) False [] = Some (h, cs)" by auto
  have def: "\<forall>v \<in> set (sop_sources op). var_value env v \<noteq> None" using assms(3) by (simp add: op_step_def)
  have h: "\<not> h" by (rule gather_sources_top [OF g assms(2) def])
  then have gh: "gather_sources l (sop_sources op) False [] = Some (False, cs)" using g by simp
  have cs: "\<forall>v c. hm_get cs v = Some c \<longrightarrow> var_value env v = Some c" "\<forall>v \<in> set (sop_sources op). hm_get cs v \<noteq> None"
    using gather_sources_consts [OF gh assms(2) def] by (auto simp: hm_get_def)
  then have "const_for_var v cs = var_value env v" if "v \<in> set (sop_sources op)" for v
    using that by (fastforce simp: const_for_var_def var_value_def split: option.splits)
  then have same: "eval_const_op op cs = op_value env op d"
    unfolding eval_const_op_def op_value_def assms(4) Let_def option.case by (subst fold_value_cong) auto
  show ?thesis
  proof (cases "op_value env op d = Some (Some c)")
    case False
    then show ?thesis using assms g h same \<open>\<not> (_ \<or> _)\<close>
      by (auto simp: evaluate_op_sccp_def op_step_def split: option.splits)
  qed (use assms(1) g h same False in \<open>simp add: evaluate_op_sccp_def\<close>)
qed

lemma quiet_site_ok:
  assumes "quiet G f s" "site_in f x" "site_block x \<in> sc_visited s"
  shows "site_ok G f s x"
  using assms by (intro sites_okD [where U = "{}" and V = "sc_visited s"]) (auto simp: quiet_def sccp_inv_def)

fun point_ok :: "sccp_state \<Rightarrow> ssa_point \<Rightarrow> bool" where
  "point_ok s (OnEdge p a) = ((p, a) \<in> sc_executable s)"
| "point_ok s (InBlock a i) = (a \<in> sc_visited s)"

lemma enter_sound:
  assumes "quiet G f s" "(p, a) \<in> sc_executable s" "fn_get_block f a = Some b"
    and "agrees (sc_lattice s) env" "phi_step p (fb_phis b) env env'"
  shows "a \<in> sc_visited s" "agrees (sc_lattice s) env'"
proof -
  let ?l = "sc_lattice s"
  show vis: "a \<in> sc_visited s" using assms(1-3) by (auto simp: quiet_def sccp_inv_def sccp_wf_def)
  show "agrees ?l env'"
    unfolding agrees_def
  proof (intro allI impI)
    fix v c assume c: "env' v = Some c"
    show "lat_of ?l v \<le> LConst c"
    proof (cases "v \<in> pn_dst ` set (fb_phis b)")
      case False
      then show ?thesis using c assms(4,5) by (simp add: phi_step_def agrees_def)
    next
      case True
      then obtain phi where phi: "phi \<in> set (fb_phis b)" "v = pn_dst phi" by auto
      then obtain src where src: "(p, src) \<in> set (pn_sources phi)" "var_value env src = Some c"
        using c assms(5) by (auto simp: phi_step_def split: if_splits)
      have "site_ok G f s (PhiSite a phi)" using phi assms(3) vis by (intro quiet_site_ok [OF assms(1)]) auto
      then have "lat_of ?l v \<le> evaluate_phi_sccp phi (sc_executable s) ?l a" using phi(2) by (simp add: phi_site.settled_def)
      also have "\<dots> \<le> get_lattice_value src ?l" by (rule evaluate_phi_le [OF src(1) assms(2)])
      also have "\<dots> \<le> LConst c" by (rule agrees_value [OF assms(4) src(2)])
      finally show ?thesis .
    qed
  qed
qed

lemma op_sound:
  assumes "quiet G f s" "a \<in> sc_visited s" "fn_get_block f a = Some b" "op \<in> set (fb_ops b)"
    and "agrees (sc_lattice s) env" "op_step op env env'"
  shows "agrees (sc_lattice s) env'"
proof (cases "sop_dst op")
  case None
  then show ?thesis using assms(5,6) by (simp add: op_step_def)
next
  case (Some d)
  then obtain c where env': "env' = env(d \<mapsto> c)" using assms(6) by (auto simp: op_step_def)
  have "site_ok G f s (OpSite a op)" using assms(2-4) by (intro quiet_site_ok [OF assms(1)]) auto
  then obtain r where r: "evaluate_op_sccp op (sc_lattice s) = Some r" "lat_of (sc_lattice s) d \<le> r"
    using Some by (auto simp: op_site.settled_def)
  have "r \<le> LConst c" by (rule evaluate_op_sound [OF r(1) assms(5,6) Some]) (simp add: env')
  then show ?thesis unfolding env' using r(2) order_trans by (intro agrees_update [OF assms(5)]) blast
qed

lemma branch_sound:
  assumes "quiet G f s" "a \<in> sc_visited s" "fn_get_block f a = Some b"
    and "agrees (sc_lattice s) env" "takes_edge G f a env t"
  shows "(a, t) \<in> sc_executable s"
proof -
  let ?l = "sc_lattice s"
  have "site_ok G f s (TermSite a)" using assms(2,3) by (intro quiet_site_ok [OF assms(1)]) auto
  then have sub: "set (evaluate_terminator_sccp G f a ?l) \<subseteq> sc_executable s" using assms(1) by (simp add: quiet_def)
  obtain cb where cb: "get_block G (fn_cfg f) a = Some cb" using assms(5) by (auto simp: takes_edge_def split: option.splits)
  have "(a, t) \<in> set (evaluate_terminator_sccp G f a ?l)"
  proof (cases "\<exists>t' e. bb_terminator cb = TermConditionalBranch t' e")
    case True
    then obtain t' e where te: "bb_terminator cb = TermConditionalBranch t' e" by blast
    show ?thesis
    proof (cases "last_cbranch (fb_ops b)")
      case None
      then show ?thesis
        using assms(3,5) cb te by (auto simp: takes_edge_def evaluate_terminator_sccp_def find_cbranch_condition_def)
    next
      case (Some cond)
      then obtain c where c: "var_value env cond = Some c" "t = (if c = 0 then e else t')"
        using assms(3,5) cb te by (auto simp: takes_edge_def)
      have "get_lattice_value cond ?l \<le> LConst c" by (rule agrees_value [OF assms(4) c(1)])
      then show ?thesis
        using Some assms(3) cb te c(2)
        by (cases "get_lattice_value cond ?l") (auto simp: evaluate_terminator_sccp_def find_cbranch_condition_def LConst_le)
    qed
  next
    case False
    then show ?thesis
      using assms(5) cb by (cases "bb_terminator cb") (auto simp: takes_edge_def evaluate_terminator_sccp_def)
  qed
  then show ?thesis using sub by blast
qed

lemma quiet_sound:
  assumes "runs G f pt env" "quiet G f s"
  shows "point_ok s pt \<and> agrees (sc_lattice s) env"
  using assms(1)
proof induction
  case (run_start env)
  then show ?case using assms(2) by (fastforce simp: quiet_def sccp_inv_def sccp_wf_def agrees_def)
next
  case (run_enter p a env b env')
  then show ?case using enter_sound [OF assms(2)] by simp blast
next
  case (run_op a i env b env')
  then show ?case using op_sound [OF assms(2), of a b "fb_ops b ! i"] by auto
next
  case (run_branch a i env b t)
  then show ?case using branch_sound [OF assms(2)] by simp blast
qed

section \<open>A branch on a constant\<close>

definition branch_block :: "u64 \<Rightarrow> BlockTerminator \<Rightarrow> BasicBlock" where
  "branch_block a t = \<lparr>bb_addr = a, bb_size = 4, bb_ops = [], bb_terminator = t\<rparr>"

definition branch_example :: "list_digraph SSAFunction" where
  "branch_example =
     \<lparr>fn_name = None, fn_entry = 0x1000,
      fn_cfg = \<lparr>cfg_graph =
          ([branch_block 0x1000 (TermConditionalBranch 0x1008 0x1004), branch_block 0x1004 TermReturn, branch_block 0x1008 TermReturn],
           [(0, 2, EdgeTrue), (0, 1, EdgeFalse)]),
        cfg_addr_to_node = [(0x1000, 0), (0x1004, 1), (0x1008, 2)], cfg_entry = 0x1000\<rparr>,
      fn_domtree = \<lparr>dt_entry = 0x1000, dt_idom = [], dt_children = [], dt_frontier = [], dt_depth = []\<rparr>,
      fn_blocks =
        [(0x1000, \<lparr>fb_addr = 0x1000, fb_size = 4, 
           fb_ops = [Copy (ssa_new ''a'' 1 1) (ssa_constant 1 1), CBranch (ssa_constant 0x1008 8) (ssa_new ''a'' 1 1)], fb_phis = []\<rparr>),
         (0x1004, \<lparr>fb_addr = 0x1004, fb_size = 4, fb_ops = [], fb_phis = []\<rparr>),
         (0x1008, \<lparr>fb_addr = 0x1008, fb_size = 4, fb_ops = [], fb_phis = []\<rparr>)],
      fn_block_order = [0x1000, 0x1004, 0x1008], fn_prep_facts = None, fn_query_index = None\<rparr>"

lemma branch_example_result:
  "sccp stack_graph branch_example = Some ([(ssa_new ''a'' 1 1, 1)], {(- 1, 0x1000), (0x1000, 0x1008)})"
proof -
  let ?f = branch_example and ?a = "ssa_new ''a'' 1 1"
  have a: "const_value ?a = None" by (simp add: const_value_def ssa_is_const_def ssa_new_def)
  have c: "ssa_is_const (ssa_constant v sz)" for v sz by (simp add: ssa_is_const_def ssa_constant_def ssa_new_def starts_with_def)
  have vs: "sv_version ?a = 1" "sv_size ?a = 1" by (simp_all add: ssa_new_def)
  have init: "sccp_init ?f = \<lparr>sc_lattice = [], sc_executable = {}, sc_visited = {}, sc_cfg = [(- 1, 0x1000)], sc_ssa = []\<rparr>"
    by (simp add: sccp_init_def branch_example_def fn_blocks_in_order_def map_filter_simps hm_get_def block_for_each_def_def
        block_for_each_source_def for_each_phi_source_def for_each_op_source_def init_if_input_def c vs)
  let ?l = "[(?a, LConst 1)]"
  have uses: "get_names (build_use_map ?f) ?a = [SccpUseOp 0x1000 1]"
    by (simp add: build_use_map_def fn_for_each_source_def branch_example_def fn_blocks_in_order_def map_filter_simps hm_get_def
        block_for_each_source_def for_each_phi_source_def for_each_op_source_def get_names_def ssa_constant_def ssa_new_def)
  have op: "evaluate_op_sccp (Copy ?a (ssa_constant 1 1)) [] = Some (LConst 1)"
    by (simp add: evaluate_op_sccp_def sccp_opaque_def get_lattice_value_def eval_const_op_def fold_value_def with_const_def
        const_for_var_def vs u32_saturating_mul_def mask_for_bits_def)
  have tm: "evaluate_terminator_sccp stack_graph ?f 0x1000 ?l = [(0x1000, 0x1008)]"
      "evaluate_terminator_sccp stack_graph ?f 0x1008 l = []" for l
    by (simp_all add: evaluate_terminator_sccp_def get_block_def get_node_def branch_example_def hm_get_def branch_block_def list_petgraph_def
        find_cbranch_condition_def fn_get_block_def last_cbranch_def map_filter_simps cbranch_cond_def get_lattice_value_def a lat_of_def
        cfg_successors_def)
  have blocks: "fn_get_block ?f 0x1000 = Some \<lparr>fb_addr = 0x1000, fb_size = 4,
           fb_ops = [Copy ?a (ssa_constant 1 1), CBranch (ssa_constant 0x1008 8) ?a], fb_phis = []\<rparr>"
      "fn_get_block ?f 0x1008 = Some \<lparr>fb_addr = 0x1008, fb_size = 4, fb_ops = [], fb_phis = []\<rparr>"
    by (simp_all add: fn_get_block_def hm_get_def branch_example_def)
  have asg: "sccp_assign \<lparr>sc_lattice = [], sc_executable = X, sc_visited = V, sc_cfg = C, sc_ssa = []\<rparr> ?a (LConst 1) =
      \<lparr>sc_lattice = ?l, sc_executable = X, sc_visited = V, sc_cfg = C, sc_ssa = [?a]\<rparr>" for X V C
    by (simp add: sccp_assign_def update_lattice_def lat_of_def hm_get_def)
  show ?thesis
    by (simp add: sccp_def init sccp_loop.simps cfg_loop.simps ssa_loop.simps cfg_step_def blocks sccp_op_def op asg sccp_terminator_def tm
        uses use_step_def cbranch_cond_def map_filter_simps insert_commute)
qed

lemma branch_example_listed: "listed_blocks branch_example" "\<not> has_signed_division branch_example"
  by (simp_all add: branch_example_def listed_blocks_def has_signed_division_def signed_division_def)

lemma branch_example_runs: "runs stack_graph branch_example (OnEdge 0x1000 0x1008) [ssa_new ''a'' 1 1 \<mapsto> 1]"
proof -
  let ?f = branch_example and ?a = "ssa_new ''a'' 1 1"
  let ?b = "\<lparr>fb_addr = 0x1000, fb_size = 4,
      fb_ops = [Copy ?a (ssa_constant 1 1), CBranch (ssa_constant 0x1008 8) ?a], fb_phis = []\<rparr>"
  have b: "fn_get_block ?f 0x1000 = Some ?b" by (simp add: fn_get_block_def hm_get_def branch_example_def)
  have a: "const_value ?a = None" by (simp add: const_value_def ssa_is_const_def ssa_new_def)
  have "runs stack_graph ?f (OnEdge (- 1) 0x1000) Map.empty"
    using run_start [of Map.empty ?f stack_graph] by (simp add: branch_example_def)
  then have "runs stack_graph ?f (InBlock 0x1000 0) Map.empty"
    by (rule run_enter [OF _ b]) (simp add: phi_step_def)
  then have "runs stack_graph ?f (InBlock 0x1000 (Suc 0)) [?a \<mapsto> 1]"
    by (rule run_op [OF _ b])
      (simp_all add: op_step_def var_value_def op_value_def fold_value_def with_const_def u32_saturating_mul_def mask_for_bits_def ssa_new_def)
  then have "runs stack_graph ?f (InBlock 0x1000 (Suc (Suc 0))) [?a \<mapsto> 1]"
    by (rule run_op [OF _ b]) (simp_all add: op_step_def var_value_def a)
  moreover have "takes_edge stack_graph ?f 0x1000 [?a \<mapsto> 1] 0x1008"
    unfolding takes_edge_def b
    by (simp add: branch_example_def get_block_def get_node_def hm_get_def list_petgraph_def branch_block_def
        last_cbranch_def map_filter_simps cbranch_cond_def var_value_def a)
  ultimately show ?thesis by (intro run_branch [OF _ b]) simp_all
qed

text \<open>A function built from lifted blocks lists its blocks.\<close>

lemma raw_listed_blocks:
  assumes "raw_parts G blocks cb f pl vs rn rf"
  shows "listed_blocks f"
  unfolding listed_blocks_def list_all_iff
proof clarify
  fix a b assume "(a, b) \<in> set (fn_blocks f)"
  moreover have "hm_ok (fn_blocks f)" using assms by (simp add: raw_parts_def)
  ultimately have "fn_get_block f a = Some b" by (simp add: fn_get_block_def hm_get_iff)
  then show "fb_addr b = a \<and> a \<in> set (fn_block_order f)"
    using raw_partsD(7) [OF assms, of a] raw_partsD(5) [OF assms] by (auto simp: function_block_def split: if_splits)
qed

section \<open>Properties\<close>

lemma found_constant:
  assumes "hm_ok l" "hm_get (List.map_filter (\<lambda>(k, v). case v of LConst c \<Rightarrow> Some (k, c) | _ \<Rightarrow> None) l) v = Some c"
  shows "lat_of l v = LConst c"
proof -
  have "(v, c) \<in> set (List.map_filter (\<lambda>(k, v). case v of LConst c \<Rightarrow> Some (k, c) | _ \<Rightarrow> None) l)"
    using assms(2) unfolding hm_get_def by (rule map_of_SomeD)
  then have "(v, LConst c) \<in> set l" by (auto simp: in_set_map_filter split: LatticeValue.splits)
  then show ?thesis using assms(1) by (simp add: lat_of_def hm_get_iff [symmetric])
qed

lemma sccp_run_ok:
  assumes "listed_blocks f" "sccp G f = Some (found, executable)" "runs G f pt env"
  shows "(\<forall>p a. pt = OnEdge p a \<longrightarrow> (p, a) \<in> executable) \<and>
     (\<forall>v c w. hm_get found v = Some c \<and> env v = Some w \<longrightarrow> w = c)"
proof -
  obtain s where s: "quiet G f s" "executable = sc_executable s"
      "found = List.map_filter (\<lambda>(k, v). case v of LConst c \<Rightarrow> Some (k, c) | _ \<Rightarrow> None) (sc_lattice s)"
    using sccp_ok [OF assms(1), of G] assms(2) by auto
  have ok: "hm_ok (sc_lattice s)" using s(1) by (simp add: quiet_def sccp_inv_def sccp_wf_def)
  note sound = quiet_sound [OF assms(3) s(1)]
  have "w = c" if "hm_get found v = Some c" "env v = Some w" for v c w
    using found_constant [OF ok, of v c] that sound unfolding s(3) agrees_def by (metis LConst_le LatticeValue.distinct(1) LatticeValue.inject)
  then show ?thesis using sound s(2) by auto
qed

text \<open>C6. Sparse conditional constant propagation is sound. In every run of the function, where inputs have
  any value, an operation yields its folded value if it folds and anything otherwise, phis read
  along the edge taken and a conditional branch follows its condition, every edge taken is
  reported executable, and every variable reported constant has that constant as its value.\<close>

theorem sccp_sound:
  assumes "listed_blocks f" "sccp G f = Some (found, executable)" "runs G f pt env"
  shows "(\<forall>p a. pt = OnEdge p a \<longrightarrow> (p, a) \<in> executable) \<and>
     (\<forall>v c w. hm_get found v = Some c \<and> env v = Some w \<longrightarrow> w = c)"
  using sccp_run_ok [OF assms] .

theorem sccp_sound_witness:
  "sccp stack_graph branch_example = Some ([(ssa_new ''a'' 1 1, 1)], {(- 1, 0x1000), (0x1000, 0x1008)}) \<and>
   runs stack_graph branch_example (OnEdge 0x1000 0x1008) [ssa_new ''a'' 1 1 \<mapsto> 1] \<and>
   (0x1000, 0x1008) \<in> {(- 1, 0x1000), (0x1000 :: u64, 0x1008 :: u64)}"
  using sccp_sound [OF branch_example_listed(1) branch_example_result branch_example_runs]
    branch_example_result branch_example_runs by blast

text \<open>C22. The propagation returns: unless the function contains a signed division or remainder, whose
  folding can panic, the nested worklist loops end with a result.\<close>

theorem sccp_returns:
  assumes "listed_blocks f" "\<not> has_signed_division f"
  shows "\<exists>found executable. sccp G f = Some (found, executable)"
  using sccp_ok [OF assms(1), of G] assms(2) by (cases "sccp G f") (auto simp: returns_def)

theorem sccp_returns_witness:
  "\<exists>found executable. sccp stack_graph branch_example = Some (found, executable)"
  by (rule sccp_returns [OF branch_example_listed])

end
