(* ===== verification/SSA_Optimize_Props.thy ===== *)
theory SSA_Optimize_Props
  imports SSA_Optimize SSA_Sccp_Props
begin

text \<open>
  The passes over a function: replacing the constants the propagation found keeps every run, and
  dead code elimination ends and keeps what is used.
\<close>

section \<open>Rewriting the sources of an operation\<close>

lemma sop_sources_map_sources [simp]: "sop_sources (map_sources_in_op m op) = map m (sop_sources op)"
  by (cases op) simp_all

lemma sop_dst_map_sources [simp]: "sop_dst (map_sources_in_op m op) = sop_dst op"
  by (cases op) simp_all

lemma fold_value_map_sources:
  assumes "\<And>v. v \<in> set (sop_sources op) \<Longrightarrow> sv_size (m v) = sv_size v"
  shows "fold_value get bits (map_sources_in_op m op) = fold_value (\<lambda>v. get (m v)) bits op"
  using assms by (cases op) (simp_all add: fold_value_def)

lemma cbranch_cond_map_sources: "cbranch_cond (map_sources_in_op m op) = map_option m (cbranch_cond op)"
  by (cases op) (simp_all add: cbranch_cond_def)

lemma last_cbranch_map_sources: "last_cbranch (map (map_sources_in_op m) ops) = map_option m (last_cbranch ops)"
proof -
  have "List.map_filter cbranch_cond (map (map_sources_in_op m) xs) = map m (List.map_filter cbranch_cond xs)" for xs
    by (induction xs) (auto simp: map_filter_simps cbranch_cond_map_sources split: option.split)
  then show ?thesis by (simp add: last_cbranch_def rev_map split: list.split)
qed

section \<open>Passes over the blocks\<close>

lemma fn_get_block_mut:
  "fn_get_block (get_block_mut a g f) b = (if b = a then map_option g (fn_get_block f a) else fn_get_block f b)"
  by (auto simp: get_block_mut_def fn_get_block_def invalidate_query_index_def Let_def hm_get_insert split: option.split)

lemma get_block_mut_frame [simp]:
  "fn_cfg (get_block_mut a g f) = fn_cfg f" "fn_entry (get_block_mut a g f) = fn_entry f"
  "fn_block_order (get_block_mut a g f) = fn_block_order f"
  by (simp_all add: get_block_mut_def invalidate_query_index_def Let_def split: option.split)

lemma fst_fn_blocks_mut: "fst ` set (fn_blocks (get_block_mut a g f)) = fst ` set (fn_blocks f)"
proof (cases "hm_get (fn_blocks f) a")
  case (Some b)
  then have "a \<in> fst ` set (fn_blocks f)" using hm_get_None [of "fn_blocks f" a] by auto
  then show ?thesis
    using Some by (auto simp: get_block_mut_def invalidate_query_index_def Let_def fst_hm_insert)
qed (simp add: get_block_mut_def invalidate_query_index_def Let_def)

lemma hm_ok_block_mut: "hm_ok (fn_blocks f) \<Longrightarrow> hm_ok (fn_blocks (get_block_mut a g f))"
  by (simp add: get_block_mut_def invalidate_query_index_def Let_def hm_ok_insert split: option.split)

text \<open>The function changes block by block, at the listed addresses.\<close>

definition edited_at ::
  "(u64 \<Rightarrow> FunctionSSABlock \<Rightarrow> FunctionSSABlock) \<Rightarrow> u64 list \<Rightarrow> 'g SSAFunction \<Rightarrow> 'g SSAFunction \<Rightarrow> bool" where
  "edited_at g addrs f f' \<longleftrightarrow>
     (\<forall>a. fn_get_block f' a = (if a \<in> set addrs then map_option (g a) (fn_get_block f a) else fn_get_block f a)) \<and>
     fn_cfg f' = fn_cfg f \<and> fn_entry f' = fn_entry f \<and> fn_block_order f' = fn_block_order f \<and>
     (hm_ok (fn_blocks f) \<longrightarrow> hm_ok (fn_blocks f')) \<and> fst ` set (fn_blocks f') = fst ` set (fn_blocks f)"

definition edited :: "(u64 \<Rightarrow> FunctionSSABlock \<Rightarrow> FunctionSSABlock) \<Rightarrow> 'g SSAFunction \<Rightarrow> 'g SSAFunction \<Rightarrow> bool" where
  "edited g f f' \<longleftrightarrow> edited_at g (fn_block_order f) f f'"

lemma edited_at_Cons:
  assumes "edited_at g addrs (get_block_mut a h f) f'" "a \<notin> set addrs"
    and "map_option h (fn_get_block f a) = map_option (g a) (fn_get_block f a)"
  shows "edited_at g (a # addrs) f f'"
  using assms hm_ok_block_mut [of f a h] unfolding edited_at_def
  by (simp add: fn_get_block_mut fst_fn_blocks_mut)

text \<open>
  The interface of a pass whose work on a block does not depend on the statistics: it returns, and
  the function changes block by block.
\<close>

locale block_pass =
  fixes step :: "u64 \<Rightarrow> FunctionSSABlock \<Rightarrow> 's \<Rightarrow> (FunctionSSABlock \<times> 's) option"
    and change :: "u64 \<Rightarrow> FunctionSSABlock \<Rightarrow> FunctionSSABlock"
    and note_change :: "u64 \<Rightarrow> FunctionSSABlock \<Rightarrow> 's \<Rightarrow> 's"
  assumes step: "step a b s = Some (change a b, note_change a b s)"
begin

lemma edit_blocks_returns:
  assumes "distinct addrs"
  shows "\<exists>f' s'. edit_blocks step addrs f s = Some (f', s') \<and> edited_at change addrs f f'"
  using assms
proof (induction addrs arbitrary: f s)
  case (Cons a addrs)
  show ?case
  proof (cases "fn_get_block f a")
    case None
    obtain f' s' where "edit_blocks step addrs (get_block_mut a id f) s = Some (f', s')"
      and e: "edited_at change addrs (get_block_mut a id f) f'" using Cons by force
    moreover have "edited_at change (a # addrs) f f'" using edited_at_Cons [OF e] Cons.prems None by simp
    ultimately show ?thesis using None by auto
  next
    case (Some b)
    let ?f = "get_block_mut a (\<lambda>_. change a b) f"
    obtain f' s' where r: "edit_blocks step addrs ?f (note_change a b s) = Some (f', s')"
      and e: "edited_at change addrs ?f f'" using Cons by force
    have "edited_at change (a # addrs) f f'" using edited_at_Cons [OF e] Cons.prems Some by simp
    moreover have "edit_blocks step (a # addrs) f s = edit_blocks step addrs ?f (note_change a b s)"
      using Some step [of a b s] by simp
    ultimately show ?thesis using r by auto
  qed
qed (simp add: edited_at_def)

lemma pass_edits:
  assumes "distinct (fn_block_order f)"
  shows "\<exists>f' s'. edit_blocks step (fn_block_order f) f s = Some (f', s') \<and> edited change f f'"
  using edit_blocks_returns [OF assms, of f s] unfolding edited_def by blast

end

interpretation constants_pass: block_pass
    "\<lambda>addr b (st :: OptimizationStats, changed).
       let (b', n, c) = rewrite_block (returns_at G f addr) (constant_source cs) b
       in Some (b', st\<lparr>os_constants_propagated := os_constants_propagated st + n\<rparr>, changed \<or> c)"
    "\<lambda>addr b. fst (rewrite_block (returns_at G f addr) (constant_source cs) b)"
    "\<lambda>addr b (st, changed).
       let (_, n, c) = rewrite_block (returns_at G f addr) (constant_source cs) b
       in (st\<lparr>os_constants_propagated := os_constants_propagated st + n\<rparr>, changed \<or> c)"
  for G f cs
  by standard (simp add: split_beta' Let_def)

interpretation copies_pass: block_pass
    "\<lambda>addr b (st :: OptimizationStats, changed).
       let (b', n, c) = rewrite_block (returns_at G f addr) (copy_mapper repl) b
       in Some (b', st\<lparr>os_copies_propagated := os_copies_propagated st + n\<rparr>, changed \<or> c)"
    "\<lambda>addr b. fst (rewrite_block (returns_at G f addr) (copy_mapper repl) b)"
    "\<lambda>addr b (st, changed).
       let (_, n, c) = rewrite_block (returns_at G f addr) (copy_mapper repl) b
       in (st\<lparr>os_copies_propagated := os_copies_propagated st + n\<rparr>, changed \<or> c)"
  for G f repl
  by standard (simp add: split_beta' Let_def)

interpretation cse_pass: block_pass
    "\<lambda>addr b (st :: OptimizationStats, changed).
       let (ops, n) = cse_ops (fb_ops b) []
       in Some (b\<lparr>fb_ops := ops\<rparr>, st\<lparr>os_cse_replacements := os_cse_replacements st + n\<rparr>, changed \<or> n > 0)"
    "\<lambda>addr b. b\<lparr>fb_ops := fst (cse_ops (fb_ops b) [])\<rparr>"
    "\<lambda>addr b (st, changed).
       let (_, n) = cse_ops (fb_ops b) []
       in (st\<lparr>os_cse_replacements := os_cse_replacements st + n\<rparr>, changed \<or> n > 0)"
  by standard (simp add: split_beta' Let_def)

section \<open>Replacing sources keeps runs\<close>

lemma edited_listed:
  assumes "edited g f f'" "listed_blocks f"
  shows "fn_get_block f' a = map_option (g a) (fn_get_block f a)"
proof (cases "fn_get_block f a")
  case (Some b)
  then have "(a, b) \<in> set (fn_blocks f)" by (simp add: fn_get_block_def hm_get_def map_of_SomeD)
  then have "a \<in> set (fn_block_order f)" using assms(2) by (auto simp: listed_blocks_def list_all_iff)
  then show ?thesis using assms(1) by (simp add: edited_def edited_at_def)
qed (use assms(1) in \<open>simp add: edited_def edited_at_def\<close>)

text \<open>What every construction and every pass keeps of a function.\<close>

definition fn_ok :: "'g SSAFunction \<Rightarrow> bool" where
  "fn_ok f \<longleftrightarrow> listed_blocks f \<and> distinct (fn_block_order f) \<and> hm_ok (fn_blocks f)"

lemma in_fn_blocks: "hm_ok (fn_blocks f) \<Longrightarrow> (a, b) \<in> set (fn_blocks f) \<longleftrightarrow> fn_get_block f a = Some b"
  by (simp add: fn_get_block_def hm_get_iff)

lemma edited_fn_ok:
  assumes "edited g f f'" "fn_ok f" "\<And>a b. fb_addr (g a b) = fb_addr b"
  shows "fn_ok f'"
proof -
  have ok: "hm_ok (fn_blocks f')" using assms(1,2) by (simp add: edited_def edited_at_def fn_ok_def)
  have "fb_addr b = a \<and> a \<in> set (fn_block_order f')" if "(a, b) \<in> set (fn_blocks f')" for a b
  proof -
    have "fn_get_block f' a = Some b" using that ok by (simp add: in_fn_blocks)
    then obtain b0 where b0: "fn_get_block f a = Some b0" "b = g a b0"
      using edited_listed [OF assms(1)] assms(2) by (auto simp: fn_ok_def)
    then have "(a, b0) \<in> set (fn_blocks f)" using assms(2) by (simp add: in_fn_blocks fn_ok_def)
    then show ?thesis
      using assms b0(2) by (auto simp: fn_ok_def listed_blocks_def list_all_iff edited_def edited_at_def)
  qed
  then show ?thesis
    using ok assms(1,2) by (auto simp: fn_ok_def listed_blocks_def list_all_iff edited_def edited_at_def)
qed

lemma raw_fn_ok:
  assumes "raw_parts G blocks cb f pl vs rn rf"
  shows "fn_ok f"
proof -
  have "hm_ok (fn_blocks f)" using assms unfolding raw_parts_def by blast
  then show ?thesis using raw_listed_blocks [OF assms] raw_partsD(6) [OF assms] by (simp add: fn_ok_def)
qed

lemma rewrite_block_parts [simp]:
  "fb_phis (fst (rewrite_block r m b)) = map (rewrite_phi r m) (fb_phis b)"
  "fb_ops (fst (rewrite_block r m b)) = map (map_sources_in_op m) (fb_ops b)"
  "fb_addr (fst (rewrite_block r m b)) = fb_addr b"
  by (simp_all add: rewrite_block_def Let_def)

lemma pn_dst_rewrite_phi [simp]: "pn_dst (rewrite_phi r m phi) = pn_dst phi"
  by (simp add: rewrite_phi_def)

lemma rewrite_phi_source: "(p, v) \<in> set (pn_sources phi) \<Longrightarrow> (p, v) \<in> set (pn_sources (rewrite_phi r m phi)) \<or> (p, m v) \<in> set (pn_sources (rewrite_phi r m phi))"
  by (force simp: rewrite_phi_def)

text \<open>A map of sources that keeps sizes and, in every run of \<open>f\<close>, the values that are read.\<close>

definition keeps_reads :: "'g petgraph \<Rightarrow> 'g SSAFunction \<Rightarrow> (SSAVar \<Rightarrow> SSAVar) \<Rightarrow> bool" where
  "keeps_reads G f m \<longleftrightarrow>
     (\<forall>v. sv_size (m v) = sv_size v) \<and>
     (\<forall>pt env v w. runs G f pt env \<and> var_value env v = Some w \<longrightarrow> var_value env (m v) = Some w)"

lemma op_step_map_sources:
  assumes "op_step op env env'" "\<And>v. sv_size (m v) = sv_size v"
    and "\<And>v w. var_value env v = Some w \<Longrightarrow> var_value env (m v) = Some w"
  shows "op_step (map_sources_in_op m op) env env'"
proof -
  have def: "var_value env (m v) = var_value env v" if "v \<in> set (sop_sources op)" for v
    using assms(1,3) that by (cases "var_value env v") (auto simp: op_step_def)
  then have "fold_value (\<lambda>v. var_value env (m v)) bits op = fold_value (var_value env) bits op" for bits
    by (rule fold_value_cong)
  then have "op_value env (map_sources_in_op m op) d = op_value env op d" for d
    using assms(2) by (simp add: op_value_def fold_value_map_sources)
  then show ?thesis using assms(1) def by (cases "sop_dst op") (simp_all add: op_step_def)
qed

lemma phi_step_rewrite:
  assumes "phi_step p phis env env'" "\<And>v w. var_value env v = Some w \<Longrightarrow> var_value env (m v) = Some w"
  shows "phi_step p (map (rewrite_phi r m) phis) env env'"
  unfolding phi_step_def
proof (intro conjI allI impI ballI)
  fix v assume "v \<notin> pn_dst ` set (map (rewrite_phi r m) phis)"
  then have "v \<notin> pn_dst ` set phis" by (simp add: image_image)
  then show "env' v = env v" using assms(1) by (simp add: phi_step_def)
next
  fix phi assume "phi \<in> set (map (rewrite_phi r m) phis)"
  then obtain phi0 where phi0: "phi0 \<in> set phis" "phi = rewrite_phi r m phi0" by auto
  show "env' (pn_dst phi) = None \<or> (\<exists>src. (p, src) \<in> set (pn_sources phi) \<and> env' (pn_dst phi) = var_value env src)"
  proof (cases "env' (pn_dst phi0)")
    case (Some w)
    then obtain src where src: "(p, src) \<in> set (pn_sources phi0)" "var_value env src = Some w"
      using assms(1) phi0(1) unfolding phi_step_def by (metis option.distinct(1))
    then show ?thesis using rewrite_phi_source [OF src(1), of r m] assms(2) [OF src(2)] Some phi0(2) by auto
  qed (simp add: phi0(2))
qed

text \<open>A branch goes the same way when the condition it finds has the same value.\<close>

lemma takes_edge_transfer:
  assumes "takes_edge G f a env t" "fn_cfg f' = fn_cfg f" "fn_get_block f a = Some b" "fn_get_block f' a = Some b'"
    and "last_cbranch (fb_ops b) = None \<Longrightarrow> last_cbranch (fb_ops b') = None"
    and "\<And>c w. last_cbranch (fb_ops b) = Some c \<Longrightarrow> var_value env c = Some w \<Longrightarrow>
       \<exists>c'. last_cbranch (fb_ops b') = Some c' \<and> var_value env' c' = Some w"
  shows "takes_edge G f' a env' t"
proof -
  obtain cb where cb: "get_block G (fn_cfg f) a = Some cb" using assms(1) by (auto simp: takes_edge_def split: option.splits)
  show ?thesis
  proof (cases "last_cbranch (fb_ops b)")
    case None
    then show ?thesis using assms(1-5) cb by (cases "bb_terminator cb") (simp_all add: takes_edge_def)
  next
    case (Some c)
    show ?thesis
    proof (cases "bb_terminator cb")
      case (TermConditionalBranch t' e)
      then obtain w where w: "var_value env c = Some w" "t = (if w = 0 then e else t')"
        using assms(1,3) cb Some by (auto simp: takes_edge_def)
      then show ?thesis using assms(2,4) assms(6) [OF Some w(1)] cb TermConditionalBranch by (auto simp: takes_edge_def)
    qed (use assms(1,2) cb in \<open>simp_all add: takes_edge_def\<close>)
  qed
qed

lemma rewrite_keeps_runs:
  assumes blocks: "\<And>a. fn_get_block f' a = map_option (\<lambda>b. fst (rewrite_block (r a) m b)) (fn_get_block f a)"
    and frame: "fn_cfg f' = fn_cfg f" "fn_entry f' = fn_entry f" "fn_inputs f \<subseteq> fn_inputs f'"
    and m: "keeps_reads G f m" and run: "runs G f pt env"
  shows "runs G f' pt env"
  using run
proof induction
  case (run_start env)
  then show ?case using runs.run_start [of env f' G] frame by auto
next
  case (run_enter p a env b env')
  have "phi_step p (map (rewrite_phi (r a) m) (fb_phis b)) env env'"
    using run_enter m by (intro phi_step_rewrite) (auto simp: keeps_reads_def)
  then show ?case using run_enter blocks [of a] by (intro runs.run_enter [OF run_enter.IH, where b = "fst (rewrite_block (r a) m b)"]) simp_all
next
  case (run_op a i env b env')
  have "op_step (map_sources_in_op m (fb_ops b ! i)) env env'"
    using run_op m by (intro op_step_map_sources) (auto simp: keeps_reads_def)
  then show ?case using run_op blocks [of a] by (intro runs.run_op [OF run_op.IH, where b = "fst (rewrite_block (r a) m b)"]) simp_all
next
  case (run_branch a i env b t)
  have kr: "var_value env v = Some w \<Longrightarrow> var_value env (m v) = Some w" for v w
    using m run_branch(1) unfolding keeps_reads_def by blast
  have "takes_edge G f' a env t"
    by (rule takes_edge_transfer [OF run_branch(4) frame(1) run_branch(2), of "fst (rewrite_block (r a) m b)"])
      (use blocks [of a] run_branch(2) kr in \<open>simp_all add: last_cbranch_map_sources\<close>)
  then show ?case using run_branch blocks [of a] by (intro runs.run_branch [OF run_branch.IH, where b = "fst (rewrite_block (r a) m b)"]) simp_all
qed

text \<open>No operation writes a constant.\<close>

definition no_const_targets :: "'g SSAFunction \<Rightarrow> bool" where
  "no_const_targets f \<longleftrightarrow> list_all (\<lambda>(a, b). list_all (\<lambda>phi. const_value (pn_dst phi) = None) (fb_phis b) \<and>
     list_all (\<lambda>d. const_value d = None) (dsts (fb_ops b))) (fn_blocks f)"

lemma no_const_targetsD:
  assumes "no_const_targets f" "v \<in> fn_targets f"
  shows "const_value v = None"
proof -
  obtain x where "site_in f x" "site_target x = Some v" using assms(2) by (auto simp: fn_targets_def)
  then obtain b where b: "fn_get_block f (site_block x) = Some b" "v \<in> fst ` set (block_for_each_def b)"
    by (rule site_target_listed)
  then have "(site_block x, b) \<in> set (fn_blocks f)" by (simp add: fn_get_block_def hm_get_def map_of_SomeD)
  moreover have "v \<in> set (map pn_dst (fb_phis b) @ dsts (fb_ops b))" using b(2) unfolding block_for_each_def_vars [symmetric] by simp
  ultimately show ?thesis using assms(1) by (auto simp: no_const_targets_def list_all_iff)
qed

lemma found_in_targets:
  assumes "listed_blocks f" "sccp G f = Some (found, executable)" "hm_get found v = Some c"
  shows "v \<in> fn_targets f" "v \<notin> fn_inputs f"
proof -
  obtain s where s: "quiet G f s"
      "found = List.map_filter (\<lambda>(k, v). case v of LConst c \<Rightarrow> Some (k, c) | _ \<Rightarrow> None) (sc_lattice s)"
    using sccp_ok [OF assms(1), of G] assms(2) by auto
  have wf: "sccp_wf G f s" using s(1) by (simp add: quiet_def sccp_inv_def)
  have "lat_of (sc_lattice s) v = LConst c"
    using assms(3) wf unfolding s(2) by (intro found_constant) (simp_all add: sccp_wf_def)
  then show "v \<in> fn_targets f" "v \<notin> fn_inputs f" using wf by (auto simp: sccp_wf_def)
qed

lemma found_keeps_reads:
  assumes "listed_blocks f" "no_const_targets f" "sccp G f = Some (found, executable)"
  shows "keeps_reads G f (constant_source found)"
  unfolding keeps_reads_def
proof (intro conjI allI impI)
  fix v show "sv_size (constant_source found v) = sv_size v" by (simp add: constant_source_def split: option.split)
next
  fix pt env v w assume r: "runs G f pt env \<and> var_value env v = Some w"
  show "var_value env (constant_source found v) = Some w"
  proof (cases "hm_get found v")
    case (Some c)
    then have "const_value v = None"
      using found_in_targets [OF assms(1,3)] no_const_targetsD [OF assms(2)] by blast
    then have "env v = Some w" using r by (simp add: var_value_def)
    moreover have "runs G f pt env" using r by simp
    ultimately have "w = c" using sccp_run_ok [OF assms(1,3)] Some by blast
    then show ?thesis using Some by (simp add: constant_source_def var_value_def)
  qed (use r in \<open>simp add: constant_source_def\<close>)
qed

lemma constant_source_inputs:
  assumes blocks: "\<And>a. fn_get_block f' a = map_option (\<lambda>b. fst (rewrite_block (r a) m b)) (fn_get_block f a)"
    and m: "\<And>v. v \<in> fn_inputs f \<Longrightarrow> m v = v"
  shows "fn_inputs f \<subseteq> fn_inputs f'"
proof
  fix v assume v: "v \<in> fn_inputs f"
  then obtain x where x: "site_in f x" "v \<in> site_reads f x \<or> site_target x = Some v" by (auto simp: fn_inputs_def)
  have "\<exists>y. site_in f' y \<and> (v \<in> site_reads f' y \<or> site_target y = Some v)"
  proof (cases x)
    case (PhiSite a phi)
    then show ?thesis using x blocks [of a] m [OF v] rewrite_phi_source [of _ v phi "r a" m]
      by (intro exI [of _ "PhiSite a (rewrite_phi (r a) m phi)"]) (force simp: image_iff)
  next
    case (OpSite a op)
    then show ?thesis using x blocks [of a] m [OF v]
      by (intro exI [of _ "OpSite a (map_sources_in_op m op)"]) (force simp: image_iff)
  next
    case (TermSite a)
    then show ?thesis using x blocks [of a] m [OF v]
      by (intro exI [of _ "TermSite a"]) (force simp: branch_reads_def last_cbranch_map_sources split: option.splits)
  qed
  then show "v \<in> fn_inputs f'" using v by (simp add: fn_inputs_def)
qed

lemma constants_keep_runs:
  assumes "fn_ok f" "no_const_targets f" "sccp G f = Some (found, executable)"
  shows "\<exists>f' st c. replace_sources_with_constants G found f stats = Some (f', st, c) \<and> fn_ok f' \<and>
     (\<forall>pt env. runs G f pt env \<longrightarrow> runs G f' pt env)"
proof -
  let ?g = "\<lambda>a b. fst (rewrite_block (returns_at G f a) (constant_source found) b)"
  have ok: "listed_blocks f" "distinct (fn_block_order f)" using assms(1) by (simp_all add: fn_ok_def)
  obtain f' s' where f': "replace_sources_with_constants G found f stats = Some (f', s')" "edited ?g f f'"
    using constants_pass.pass_edits [OF ok(2), of G f found "(stats, False)"] unfolding replace_sources_with_constants_def by blast
  have blocks: "fn_get_block f' a = map_option (?g a) (fn_get_block f a)" for a by (rule edited_listed [OF f'(2) ok(1)])
  have "constant_source found v = v" if "v \<in> fn_inputs f" for v
    using found_in_targets(2) [OF ok(1) assms(3)] that by (cases "hm_get found v") (auto simp: constant_source_def)
  then have "fn_inputs f \<subseteq> fn_inputs f'" by (rule constant_source_inputs [OF blocks])
  then have "runs G f' pt env" if "runs G f pt env" for pt env
    using f'(2) found_keeps_reads [OF ok(1) assms(2,3)] that
    by (intro rewrite_keeps_runs [OF blocks]) (simp_all add: edited_def edited_at_def)
  moreover have "fn_ok f'" by (rule edited_fn_ok [OF f'(2) assms(1)]) simp
  ultimately show ?thesis using f'(1) by (cases s') auto
qed

end
