(* ===== verification/SSA_Dce_Props.thy ===== *)
theory SSA_Dce_Props
  imports SSA_Optimize_Props "HOL-Library.Sublist"
begin

text \<open>
  Dead code elimination: it ends, leaves no dead operation, and every run of the function is matched
  by a run of what is left.
\<close>

section \<open>Passes that report changes\<close>

locale reporting_pass = block_pass step change note_change
  for step :: "u64 \<Rightarrow> FunctionSSABlock \<Rightarrow> 's \<Rightarrow> (FunctionSSABlock \<times> 's) option" and change note_change +
  fixes flag :: "'s \<Rightarrow> bool" and changes :: "FunctionSSABlock \<Rightarrow> bool"
  assumes reports: "flag (note_change a b s) \<longleftrightarrow> flag s \<or> changes b"
begin

lemma edit_blocks_flag:
  assumes "distinct addrs" "edit_blocks step addrs f s = Some (f', s')"
  shows "flag s' \<longleftrightarrow> flag s \<or> (\<exists>a \<in> set addrs. \<exists>b. fn_get_block f a = Some b \<and> changes b)"
  using assms
proof (induction addrs arbitrary: f s)
  case (Cons a addrs)
  show ?case
  proof (cases "fn_get_block f a")
    case None
    then have "flag s' \<longleftrightarrow> flag s \<or> (\<exists>x \<in> set addrs. \<exists>b. fn_get_block (get_block_mut a id f) x = Some b \<and> changes b)"
      using Cons by simp
    then show ?thesis using None Cons.prems(1) by (auto simp: fn_get_block_mut)
  next
    case (Some b)
    let ?f = "get_block_mut a (\<lambda>_. change a b) f"
    have "edit_blocks step addrs ?f (note_change a b s) = Some (f', s')" using Cons.prems(2) Some step [of a b s] by simp
    then have "flag s' \<longleftrightarrow> flag (note_change a b s) \<or> (\<exists>x \<in> set addrs. \<exists>b. fn_get_block ?f x = Some b \<and> changes b)"
      using Cons by simp
    moreover have "fn_get_block ?f x = fn_get_block f x" if "x \<in> set addrs" for x
      using that Cons.prems(1) by (auto simp: fn_get_block_mut)
    ultimately show ?thesis using Some by (auto simp: reports)
  qed
qed simp

end

definition dce_changes :: "bool \<Rightarrow> VarKey set \<Rightarrow> FunctionSSABlock \<Rightarrow> bool" where
  "dce_changes pm U b \<longleftrightarrow>
     length (fb_ops (dce_block pm U b)) < length (fb_ops b) \<or> length (fb_phis (dce_block pm U b)) < length (fb_phis b)"

interpretation dce_pass: reporting_pass "dce_step pm U" "\<lambda>addr. dce_block pm U"
    "\<lambda>addr b s. snd (the (dce_step pm U addr b s))" snd "dce_changes pm U"
  for pm U
  by standard (auto simp: split_beta' Let_def dce_changes_def dce_step_def)

section \<open>Uses\<close>

definition block_uses :: "bool \<Rightarrow> FunctionSSABlock \<Rightarrow> SSAVar set" where
  "block_uses r b =
     (\<Union>phi \<in> set (fb_phis b). snd ` set (pn_sources phi)) \<union> (\<Union>op \<in> set (fb_ops b). set (sop_sources op)) \<union>
     (if r then preserved_defs (List.map_filter sop_dst (rev (fb_ops b)) @ map pn_dst (rev (fb_phis b))) {} else {})"

lemma blocks_in_order_iff:
  assumes "listed_blocks f"
  shows "b \<in> set (fn_blocks_in_order f) \<longleftrightarrow> (\<exists>a. fn_get_block f a = Some b)"
  using listed_blocksD(2) [OF assms]
  by (auto simp: fn_blocks_in_order_def in_set_map_filter fn_get_block_def)

lemma collect_uses_iff:
  assumes "fn_ok f"
  shows "v \<in> collect_uses G f \<longleftrightarrow> (\<exists>a b. fn_get_block f a = Some b \<and> v \<in> block_uses (returns_at G f a) b)"
proof -
  have ok: "listed_blocks f" "hm_ok (fn_blocks f)" using assms by (simp_all add: fn_ok_def)
  have phis: "phi \<in> set (fn_all_phis f) \<longleftrightarrow> (\<exists>a b. fn_get_block f a = Some b \<and> phi \<in> set (fb_phis b))" for phi
    using in_fn_blocks [OF ok(2)] by (fastforce simp: fn_all_phis_def)
  have ops: "op \<in> set (fn_all_ops f) \<longleftrightarrow> (\<exists>a b. fn_get_block f a = Some b \<and> op \<in> set (fb_ops b))" for op
    using in_fn_blocks [OF ok(2)] by (fastforce simp: fn_all_ops_def)
  let ?P = "\<lambda>b. preserved_defs (List.map_filter sop_dst (rev (fb_ops b)) @ map pn_dst (rev (fb_phis b))) {}"
  have "v \<in> collect_preserved_return_defs G f \<longleftrightarrow>
      (\<exists>b. b \<in> set (fn_blocks_in_order f) \<and> returns_at G f (fb_addr b) \<and> v \<in> ?P b)"
    unfolding collect_preserved_return_defs_def UN_iff Bex_def
    by (rule ex_cong1) (metis empty_iff)
  also have "\<dots> \<longleftrightarrow> (\<exists>a b. fn_get_block f a = Some b \<and> returns_at G f (fb_addr b) \<and> v \<in> ?P b)"
    unfolding blocks_in_order_iff [OF ok(1)] by blast
  also have "\<dots> \<longleftrightarrow> (\<exists>a b. fn_get_block f a = Some b \<and> returns_at G f a \<and> v \<in> ?P b)"
    by (intro ex_cong1) (use listed_blocksD(1) [OF ok(1)] in auto)
  finally have pres: "v \<in> collect_preserved_return_defs G f \<longleftrightarrow>
      (\<exists>a b. fn_get_block f a = Some b \<and> returns_at G f a \<and> v \<in> ?P b)" .
  have mem: "v \<in> (if r then A else {}) \<longleftrightarrow> r \<and> v \<in> A" for r and A :: "SSAVar set" by simp
  show ?thesis unfolding collect_uses_def block_uses_def Un_iff UN_iff Bex_def phis ops pres mem by blast
qed

text \<open>Dropping definitions outside \<open>U\<close> from a list that is preserved within \<open>U\<close>.\<close>

inductive drops :: "'a set \<Rightarrow> 'a list \<Rightarrow> 'a list \<Rightarrow> bool" for U where
  drops_Nil: "drops U [] []"
| drops_keep: "drops U xs ys \<Longrightarrow> drops U (x # xs) (x # ys)"
| drops_drop: "x \<notin> U \<Longrightarrow> drops U xs ys \<Longrightarrow> drops U (x # xs) ys"

lemma drops_append: "drops U xs ys \<Longrightarrow> drops U xs' ys' \<Longrightarrow> drops U (xs @ xs') (ys @ ys')"
  by (induction rule: drops.induct) (auto intro: drops.intros)

lemma drops_map_filter: "(\<And>x. x \<in> set xs \<Longrightarrow> \<not> P x \<Longrightarrow> g x \<notin> U) \<Longrightarrow> drops U (map g xs) (map g (filter P xs))"
  by (induction xs) (auto intro: drops.intros)

lemma drops_filter_Some:
  "(\<And>x d. x \<in> set xs \<Longrightarrow> \<not> P x \<Longrightarrow> g x = Some d \<Longrightarrow> d \<notin> U) \<Longrightarrow> drops U (List.map_filter g xs) (List.map_filter g (filter P xs))"
  by (induction xs) (auto simp: map_filter_simps split: option.split intro: drops.intros)

lemma preserved_defs_drops:
  assumes "drops U xs ys" "preserved_defs xs seen \<subseteq> U"
  shows "preserved_defs ys seen = preserved_defs xs seen"
  using assms
proof (induction arbitrary: seen rule: drops.induct)
  case (drops_keep xs ys x)
  then show ?case by (auto split: option.splits if_splits)
next
  case (drops_drop x xs ys)
  then show ?case by (auto split: option.splits if_splits)
qed simp

lemma block_uses_dce:
  assumes "block_uses r b \<subseteq> U"
  shows "block_uses r (dce_block pm U b) \<subseteq> block_uses r b"
proof (cases r)
  case True
  let ?l = "List.map_filter sop_dst (rev (fb_ops b)) @ map pn_dst (rev (fb_phis b))"
  let ?l' = "List.map_filter sop_dst (rev (fb_ops (dce_block pm U b))) @ map pn_dst (rev (fb_phis (dce_block pm U b)))"
  have "drops U ?l ?l'"
    unfolding dce_block_def
    by (simp add: rev_filter) (intro drops_append drops_map_filter drops_filter_Some; simp add: live_op_def)
  moreover have "preserved_defs ?l {} \<subseteq> U" using assms True by (simp add: block_uses_def)
  ultimately have "preserved_defs ?l' {} = preserved_defs ?l {}" by (rule preserved_defs_drops)
  then show ?thesis using True by (auto simp: block_uses_def dce_block_def)
qed (auto simp: block_uses_def dce_block_def)

section \<open>One round\<close>

definition dce_of :: "'g petgraph \<Rightarrow> bool \<Rightarrow> 'g SSAFunction \<Rightarrow> 'g SSAFunction \<Rightarrow> bool" where
  "dce_of G pm f f' \<longleftrightarrow> edited (\<lambda>_. dce_block pm (collect_uses G f)) f f'"

lemma dce_round_returns:
  assumes "fn_ok f"
  shows "\<exists>f' st' c. dce_round G pm f st = Some (f', st', c) \<and> dce_of G pm f f' \<and>
     (c \<longleftrightarrow> (\<exists>a b. fn_get_block f a = Some b \<and> dce_changes pm (collect_uses G f) b))"
proof -
  have d: "distinct (fn_block_order f)" and l: "listed_blocks f" using assms by (simp_all add: fn_ok_def)
  obtain f' s' where r: "dce_round G pm f st = Some (f', s')" and e: "edited (\<lambda>_. dce_block pm (collect_uses G f)) f f'"
    using dce_pass.pass_edits [OF d, of pm "collect_uses G f" "(st, False)"] unfolding dce_round_def by blast
  have "snd s' \<longleftrightarrow> (\<exists>a \<in> set (fn_block_order f). \<exists>b. fn_get_block f a = Some b \<and> dce_changes pm (collect_uses G f) b)"
    using dce_pass.edit_blocks_flag [OF d r [unfolded dce_round_def]] by simp
  moreover have "a \<in> set (fn_block_order f)" if "fn_get_block f a = Some b" for a b
    using that l in_fn_blocks [of f a b] assms by (auto simp: fn_ok_def listed_blocks_def list_all_iff)
  ultimately show ?thesis using r e by (cases s') (auto simp: dce_of_def)
qed

lemma dce_ofD:
  assumes "fn_ok f" "dce_of G pm f f'"
  shows "fn_ok f'" "fn_cfg f' = fn_cfg f" "fn_entry f' = fn_entry f" "fn_block_order f' = fn_block_order f"
    and "fn_get_block f' a = map_option (dce_block pm (collect_uses G f)) (fn_get_block f a)"
    and "collect_uses G f' \<subseteq> collect_uses G f"
proof -
  let ?U = "collect_uses G f"
  have e: "edited (\<lambda>_. dce_block pm ?U) f f'" using assms(2) by (simp add: dce_of_def)
  show ok: "fn_ok f'" by (rule edited_fn_ok [OF e assms(1)]) (simp add: dce_block_def)
  show c: "fn_cfg f' = fn_cfg f" "fn_entry f' = fn_entry f" "fn_block_order f' = fn_block_order f"
    using e by (simp_all add: edited_def edited_at_def)
  show b: "fn_get_block f' a = map_option (dce_block pm ?U) (fn_get_block f a)" for a
    by (rule edited_listed [OF e]) (use assms(1) in \<open>simp add: fn_ok_def\<close>)
  show "collect_uses G f' \<subseteq> ?U"
  proof
    fix v assume "v \<in> collect_uses G f'"
    then obtain a b' where v: "fn_get_block f' a = Some b'" "v \<in> block_uses (returns_at G f' a) b'"
      unfolding collect_uses_iff [OF ok] by blast
    then obtain b0 where b0: "fn_get_block f a = Some b0" "b' = dce_block pm ?U b0" using b [of a] by auto
    have r: "returns_at G f' a = returns_at G f a" by (simp add: returns_at_def c)
    have "block_uses (returns_at G f a) b0 \<subseteq> ?U" using b0(1) collect_uses_iff [OF assms(1)] by blast
    then show "v \<in> ?U" using block_uses_dce [of "returns_at G f a" b0 ?U pm] v(2) b0(2) r by auto
  qed
qed

section \<open>Runs\<close>

lemma nth_filter_take:
  "i < length xs \<Longrightarrow> P (xs ! i) \<Longrightarrow>
     length (filter P (take i xs)) < length (filter P xs) \<and> filter P xs ! length (filter P (take i xs)) = xs ! i"
proof (induction xs arbitrary: i)
  case (Cons x xs)
  then show ?case by (cases i) auto
qed simp

lemma last_cbranch_live: "last_cbranch (filter (live_op pm U) ops) = last_cbranch ops"
proof -
  have "live_op pm U op" if "cbranch_cond op = Some c" for op c
    using that by (auto simp: cbranch_cond_Some live_op_def)
  then have "List.map_filter cbranch_cond (filter (live_op pm U) xs) = List.map_filter cbranch_cond xs" for xs
    by (induction xs) (auto simp: map_filter_simps split: option.splits)
  then show ?thesis by (simp add: last_cbranch_def rev_filter)
qed

text \<open>Environments that agree on what an operation reads.\<close>

lemma var_value_agree: "(v \<in> U \<Longrightarrow> env' v = env v) \<Longrightarrow> v \<in> U \<Longrightarrow> var_value env' v = var_value env v"
  by (simp add: var_value_def split: option.split)

lemma op_step_agree:
  assumes "op_step op env env1" "set (sop_sources op) \<subseteq> U" "\<And>v. v \<in> U \<Longrightarrow> env' v = env v"
  shows "\<exists>env1'. op_step op env' env1' \<and> (\<forall>v \<in> U. env1' v = env1 v)"
proof -
  have same: "var_value env' v = var_value env v" if "v \<in> set (sop_sources op)" for v
    using assms(2,3) that by (intro var_value_agree [of v U]) auto
  then have "fold_value (var_value env') bits op = fold_value (var_value env) bits op" for bits
    by (rule fold_value_cong)
  then have val: "op_value env' op d = op_value env op d" for d by (simp add: op_value_def)
  show ?thesis
  proof (cases "sop_dst op")
    case None
    then show ?thesis using assms(1,3) same by (intro exI [of _ env']) (simp add: op_step_def)
  next
    case (Some d)
    then obtain c where "env1 = env(d \<mapsto> c)" "\<forall>r. op_value env op d = Some (Some r) \<longrightarrow> c = r"
      using assms(1) by (auto simp: op_step_def)
    then show ?thesis
      using assms(1,3) same Some by (intro exI [of _ "env'(d \<mapsto> c)"]) (auto simp: op_step_def val)
  qed
qed

fun dce_point :: "bool \<Rightarrow> SSAVar set \<Rightarrow> 'g SSAFunction \<Rightarrow> ssa_point \<Rightarrow> ssa_point" where
  "dce_point pm U f (OnEdge p a) = OnEdge p a"
| "dce_point pm U f (InBlock a i) =
     InBlock a (case fn_get_block f a of None \<Rightarrow> i | Some b \<Rightarrow> length (filter (live_op pm U) (take i (fb_ops b))))"

lemma uses_are_inputs:
  assumes "fn_ok f" "v \<in> collect_uses G f" "sv_version v = 0" "\<not> ssa_is_const v"
  shows "v \<in> fn_inputs f"
proof -
  obtain a b where b: "fn_get_block f a = Some b" "v \<in> block_uses (returns_at G f a) b"
    using assms(2) unfolding collect_uses_iff [OF assms(1)] by blast
  have pres: "preserved_defs xs seen \<subseteq> set xs" for xs seen
    by (induction xs arbitrary: seen) (auto split: option.splits if_splits)
  let ?l = "List.map_filter sop_dst (rev (fb_ops b)) @ map pn_dst (rev (fb_phis b))"
  have "block_uses r b \<subseteq> (\<Union>phi \<in> set (fb_phis b). snd ` set (pn_sources phi)) \<union>
      (\<Union>op \<in> set (fb_ops b). set (sop_sources op)) \<union> set ?l" for r
    using pres [of ?l "{}"] by (cases r) (simp_all only: block_uses_def if_True if_False, blast+)
  then have "v \<in> (\<Union>phi \<in> set (fb_phis b). snd ` set (pn_sources phi)) \<union>
      (\<Union>op \<in> set (fb_ops b). set (sop_sources op)) \<union> set ?l" using b(2) by blast
  then consider phi where "phi \<in> set (fb_phis b)" "v \<in> snd ` set (pn_sources phi)"
    | op where "op \<in> set (fb_ops b)" "v \<in> set (sop_sources op)"
    | op where "op \<in> set (fb_ops b)" "sop_dst op = Some v"
    | phi where "phi \<in> set (fb_phis b)" "pn_dst phi = v"
    by (elim UnE UN_E) (auto simp: in_set_map_filter)
  then have "\<exists>x. site_in f x \<and> (v \<in> site_reads f x \<or> site_target x = Some v)"
  proof cases
    case 1 then show ?thesis using b(1) by (intro exI [of _ "PhiSite a phi"]) simp
  next
    case 2 then show ?thesis using b(1) by (intro exI [of _ "OpSite a op"]) simp
  next
    case 3 then show ?thesis using b(1) by (intro exI [of _ "OpSite a op"]) simp
  next
    case 4 then show ?thesis using b(1) by (intro exI [of _ "PhiSite a phi"]) simp
  qed
  then show ?thesis using assms(3,4) by (simp add: fn_inputs_def)
qed

lemma dce_block_reads:
  assumes "fn_ok f" "fn_get_block f a = Some b"
  shows "\<And>phi. phi \<in> set (fb_phis b) \<Longrightarrow> snd ` set (pn_sources phi) \<subseteq> collect_uses G f"
    and "\<And>op. op \<in> set (fb_ops b) \<Longrightarrow> set (sop_sources op) \<subseteq> collect_uses G f"
proof -
  have "block_uses (returns_at G f a) b \<subseteq> collect_uses G f" using assms(2) collect_uses_iff [OF assms(1)] by blast
  then show "\<And>phi. phi \<in> set (fb_phis b) \<Longrightarrow> snd ` set (pn_sources phi) \<subseteq> collect_uses G f"
    and "\<And>op. op \<in> set (fb_ops b) \<Longrightarrow> set (sop_sources op) \<subseteq> collect_uses G f"
    unfolding block_uses_def by blast+
qed

lemma phi_step_dce:
  assumes "phi_step p phis env env1" "\<And>v. v \<in> U' \<Longrightarrow> env' v = env v" "U' \<subseteq> U"
    and "\<And>phi. phi \<in> set (filter (\<lambda>phi. pn_dst phi \<in> U) phis) \<Longrightarrow> snd ` set (pn_sources phi) \<subseteq> U'"
  shows "\<exists>env1'. phi_step p (filter (\<lambda>phi. pn_dst phi \<in> U) phis) env' env1' \<and> (\<forall>v \<in> U'. env1' v = env1 v)"
proof (intro exI conjI ballI)
  let ?phis = "filter (\<lambda>phi. pn_dst phi \<in> U) phis"
  let ?env = "\<lambda>v. if v \<in> pn_dst ` set ?phis then env1 v else env' v"
  show "phi_step p ?phis env' ?env"
    unfolding phi_step_def
  proof (intro conjI allI impI ballI)
    fix phi assume phi: "phi \<in> set ?phis"
    then have d: "?env (pn_dst phi) = env1 (pn_dst phi)" by auto
    have "env1 (pn_dst phi) = None \<or> (\<exists>src. (p, src) \<in> set (pn_sources phi) \<and> env1 (pn_dst phi) = var_value env src)"
      using assms(1) phi by (simp add: phi_step_def)
    moreover have "var_value env' src = var_value env src" if "(p, src) \<in> set (pn_sources phi)" for src
      using assms(2) assms(4) [OF phi] that by (intro var_value_agree [of src U']) force+
    ultimately show "?env (pn_dst phi) = None \<or> (\<exists>src. (p, src) \<in> set (pn_sources phi) \<and> ?env (pn_dst phi) = var_value env' src)"
      unfolding d by auto
  qed simp
next
  let ?phis = "filter (\<lambda>phi. pn_dst phi \<in> U) phis"
  fix v assume v: "v \<in> U'"
  show "(if v \<in> pn_dst ` set ?phis then env1 v else env' v) = env1 v"
  proof (cases "v \<in> pn_dst ` set ?phis")
    case False
    then have "v \<notin> pn_dst ` set phis" using v assms(3) by auto
    then show ?thesis using False assms(1,2) v by (simp add: phi_step_def)
  qed simp
qed

lemma dce_round_runs:
  assumes ok: "fn_ok f" and dce: "dce_of G pm f f'" and run: "runs G f pt env"
  shows "\<exists>env'. runs G f' (dce_point pm (collect_uses G f) f pt) env' \<and> (\<forall>v \<in> collect_uses G f'. env' v = env v)"
  using run
proof induction
  let ?U = "collect_uses G f" and ?U' = "collect_uses G f'"
  note d = dce_ofD [OF ok dce]
  {
    case (run_start env)
    have "env v = (env |` fn_inputs f') v" if v: "v \<in> ?U'" for v
    proof (cases "env v")
      case (Some c)
      then have "v \<in> fn_inputs f" using run_start by auto
      then show ?thesis using uses_are_inputs [OF d(1) v] by (simp add: fn_inputs_def restrict_map_def)
    qed (simp add: restrict_map_def)
    then show ?case using runs.run_start [of "env |` fn_inputs f'" f' G] d(3) by (intro exI [of _ "env |` fn_inputs f'"]) auto
  next
    case (run_enter p a env b env1)
    then obtain env' where r: "runs G f' (OnEdge p a) env'" "\<And>v. v \<in> ?U' \<Longrightarrow> env' v = env v" by auto
    have b': "fn_get_block f' a = Some (dce_block pm ?U b)" using d(5) run_enter(2) by simp
    have "snd ` set (pn_sources phi) \<subseteq> ?U'" if "phi \<in> set (filter (\<lambda>phi. pn_dst phi \<in> ?U) (fb_phis b))" for phi
      using dce_block_reads(1) [OF d(1) b', of phi G] that by (simp add: dce_block_def)
    then obtain env1' where "phi_step p (filter (\<lambda>phi. pn_dst phi \<in> ?U) (fb_phis b)) env' env1'" "\<forall>v \<in> ?U'. env1' v = env1 v"
      using phi_step_dce [OF run_enter(3) r(2) d(6)] by blast
    then show ?case using runs.run_enter [OF r(1) b', of env1'] run_enter(2) by (auto simp: dce_block_def)
  next
    case (run_op a i env b env1)
    let ?op = "fb_ops b ! i"
    obtain env' where r: "runs G f' (dce_point pm ?U f (InBlock a i)) env'" "\<And>v. v \<in> ?U' \<Longrightarrow> env' v = env v"
      using run_op by auto
    have b': "fn_get_block f' a = Some (dce_block pm ?U b)" using d(5) run_op(2) by simp
    have tk: "take (Suc i) (fb_ops b) = take i (fb_ops b) @ [?op]" using run_op(3) by (rule take_Suc_conv_app_nth)
    show ?case
    proof (cases "live_op pm ?U ?op")
      case True
      note n = nth_filter_take [of i "fb_ops b" "live_op pm ?U", OF run_op(3) True]
      have "?op \<in> set (fb_ops (dce_block pm ?U b))" using True run_op(3) by (simp add: dce_block_def)
      then have "set (sop_sources ?op) \<subseteq> ?U'" by (rule dce_block_reads(2) [OF d(1) b'])
      then obtain env1' where s: "op_step ?op env' env1'" "\<forall>v \<in> ?U'. env1' v = env1 v"
        using op_step_agree [OF run_op(4) _ r(2)] by blast
      have "runs G f' (InBlock a (Suc (length (filter (live_op pm ?U) (take i (fb_ops b)))))) env1'"
        by (rule runs.run_op [OF _ b']) (use r(1) run_op(2) n s(1) in \<open>simp_all add: dce_block_def\<close>)
      then show ?thesis using s(2) run_op(2) True tk by (intro exI [of _ env1']) simp
    next
      case False
      then obtain x where x: "sop_dst ?op = Some x" "x \<notin> ?U" by (auto simp: live_op_def split: option.splits)
      then have "env1 v = env v" if "v \<in> ?U'" for v using run_op(4) that d(6) by (auto simp: op_step_def)
      then show ?thesis using r run_op(2) False tk by (intro exI [of _ env']) simp
    qed
  next
    case (run_branch a i env b t)
    obtain env' where r: "runs G f' (dce_point pm ?U f (InBlock a i)) env'" "\<And>v. v \<in> ?U' \<Longrightarrow> env' v = env v"
      using run_branch by auto
    have b': "fn_get_block f' a = Some (dce_block pm ?U b)" using d(5) run_branch(2) by simp
    have "var_value env' c = var_value env c" if c: "last_cbranch (fb_ops b) = Some c" for c
    proof -
      obtain tgt where "CBranch tgt c \<in> set (fb_ops (dce_block pm ?U b))"
        using last_cbranch_Some [of "filter (live_op pm ?U) (fb_ops b)" c] c by (auto simp: last_cbranch_live dce_block_def)
      from dce_block_reads(2) [OF d(1) b' this] have "c \<in> ?U'" by auto
      then show ?thesis using r(2) by (intro var_value_agree [of c ?U'])
    qed
    then have "takes_edge G f' a env' t"
      by (intro takes_edge_transfer [OF run_branch(4) d(2) run_branch(2) b']) (simp_all add: dce_block_def last_cbranch_live)
    moreover have "length (filter (live_op pm ?U) (take i (fb_ops b))) = length (fb_ops (dce_block pm ?U b))"
      using run_branch(3) by (simp add: dce_block_def)
    ultimately have "runs G f' (OnEdge a t) env'"
      using r(1) run_branch(2) by (intro runs.run_branch [OF _ b']) simp_all
    then show ?case using r(2) by auto
  }
qed

section \<open>The loop\<close>

fun same_place :: "ssa_point \<Rightarrow> ssa_point \<Rightarrow> bool" where
  "same_place (OnEdge p a) (OnEdge q b) \<longleftrightarrow> p = q \<and> a = b"
| "same_place (InBlock a i) (InBlock b j) \<longleftrightarrow> a = b"
| "same_place _ _ \<longleftrightarrow> False"

lemma same_place_trans: "same_place x y \<Longrightarrow> same_place y z \<Longrightarrow> same_place x z"
  by (cases x; cases y; cases z) auto

lemma same_place_dce: "same_place pt (dce_point pm U f pt)"
  by (cases pt) (auto split: option.split)

text \<open>Operations that are never removed.\<close>

definition has_effect :: "bool \<Rightarrow> SSAOp \<Rightarrow> bool" where
  "has_effect pm op \<longleftrightarrow> sop_dst op = None \<or> op_has_side_effects op pm"

text \<open>What is left of a function: its effects, the definitions of what is used, and its runs.\<close>

definition keeps_effects :: "bool \<Rightarrow> 'g SSAFunction \<Rightarrow> 'g SSAFunction \<Rightarrow> bool" where
  "keeps_effects pm f f' \<longleftrightarrow> (\<forall>a. rel_option (\<lambda>b b'. subseq (fb_ops b') (fb_ops b) \<and> subseq (fb_phis b') (fb_phis b) \<and>
     filter (has_effect pm) (fb_ops b') = filter (has_effect pm) (fb_ops b)) (fn_get_block f a) (fn_get_block f' a))"

definition keeps_used :: "'g petgraph \<Rightarrow> 'g SSAFunction \<Rightarrow> 'g SSAFunction \<Rightarrow> bool" where
  "keeps_used G f f' \<longleftrightarrow> collect_uses G f' \<subseteq> collect_uses G f \<and> collect_uses G f' \<inter> fn_targets f \<subseteq> fn_targets f'"

definition matches_runs :: "'g petgraph \<Rightarrow> 'g SSAFunction \<Rightarrow> 'g SSAFunction \<Rightarrow> bool" where
  "matches_runs G f f' \<longleftrightarrow> (\<forall>pt env. runs G f pt env \<longrightarrow>
     (\<exists>pt' env'. runs G f' pt' env' \<and> same_place pt pt' \<and> (\<forall>v \<in> collect_uses G f'. env' v = env v)))"

lemma keeps_effects_trans: "keeps_effects pm f f' \<Longrightarrow> keeps_effects pm f' f'' \<Longrightarrow> keeps_effects pm f f''"
  unfolding keeps_effects_def
proof (intro allI)
  fix a
  assume h: "\<forall>a. rel_option (\<lambda>b b'. subseq (fb_ops b') (fb_ops b) \<and> subseq (fb_phis b') (fb_phis b) \<and>
       filter (has_effect pm) (fb_ops b') = filter (has_effect pm) (fb_ops b)) (fn_get_block f a) (fn_get_block f' a)"
    "\<forall>a. rel_option (\<lambda>b b'. subseq (fb_ops b') (fb_ops b) \<and> subseq (fb_phis b') (fb_phis b) \<and>
       filter (has_effect pm) (fb_ops b') = filter (has_effect pm) (fb_ops b)) (fn_get_block f' a) (fn_get_block f'' a)"
  show "rel_option (\<lambda>b b'. subseq (fb_ops b') (fb_ops b) \<and> subseq (fb_phis b') (fb_phis b) \<and>
       filter (has_effect pm) (fb_ops b') = filter (has_effect pm) (fb_ops b)) (fn_get_block f a) (fn_get_block f'' a)"
    using spec [OF h(1), of a] spec [OF h(2), of a]
    by (cases "fn_get_block f a"; cases "fn_get_block f' a"; cases "fn_get_block f'' a") (auto intro: subseq_order.trans)
qed

lemma keeps_used_trans: "keeps_used G f f' \<Longrightarrow> keeps_used G f' f'' \<Longrightarrow> keeps_used G f f''"
  unfolding keeps_used_def by blast

lemma matches_runs_trans:
  assumes "matches_runs G f f'" "matches_runs G f' f''" "collect_uses G f'' \<subseteq> collect_uses G f'"
  shows "matches_runs G f f''"
  unfolding matches_runs_def
proof (intro allI impI)
  fix pt env assume "runs G f pt env"
  then obtain pt1 env1 where 1: "runs G f' pt1 env1" "same_place pt pt1" "\<forall>v \<in> collect_uses G f'. env1 v = env v"
    using assms(1) unfolding matches_runs_def by blast
  then obtain pt2 env2 where 2: "runs G f'' pt2 env2" "same_place pt1 pt2" "\<forall>v \<in> collect_uses G f''. env2 v = env1 v"
    using assms(2) unfolding matches_runs_def by blast
  have "\<forall>v \<in> collect_uses G f''. env2 v = env v" using 1(3) 2(3) assms(3) by auto
  then show "\<exists>pt' env'. runs G f'' pt' env' \<and> same_place pt pt' \<and> (\<forall>v \<in> collect_uses G f''. env' v = env v)"
    using 2(1) same_place_trans [OF 1(2) 2(2)] by blast
qed

lemma dce_round_keeps:
  assumes "fn_ok f" "dce_of G pm f f'"
  shows "keeps_effects pm f f'" "keeps_used G f f'" "matches_runs G f f'"
proof -
  let ?U = "collect_uses G f"
  note d = dce_ofD [OF assms]
  have eff: "has_effect pm op \<Longrightarrow> live_op pm ?U op" for op by (auto simp: has_effect_def live_op_def split: option.split)
  have "filter (has_effect pm) (filter (live_op pm ?U) ops) = filter (has_effect pm) ops" for ops
    using eff by (induction ops) auto
  then show "keeps_effects pm f f'"
    unfolding keeps_effects_def d(5) by (auto simp: dce_block_def option.rel_map intro!: option.rel_refl)
  have "v \<in> fn_targets f'" if v: "v \<in> collect_uses G f'" "v \<in> fn_targets f" for v
  proof -
    obtain x where x: "site_in f x" "site_target x = Some v" using v(2) by (auto simp: fn_targets_def)
    have "v \<in> ?U" using v(1) d(6) by blast
    then have "site_in f' x" using x d(5) by (cases x) (auto simp: dce_block_def live_op_def)
    then show ?thesis using x(2) by (auto simp: fn_targets_def)
  qed
  then show "keeps_used G f f'" using d(6) by (auto simp: keeps_used_def)
  show "matches_runs G f f'"
    unfolding matches_runs_def using dce_round_runs [OF assms] same_place_dce by blast
qed

definition block_weight :: "FunctionSSABlock option \<Rightarrow> nat" where
  "block_weight ob = (case ob of None \<Rightarrow> 0 | Some b \<Rightarrow> length (fb_ops b) + length (fb_phis b))"

definition fn_weight :: "'g SSAFunction \<Rightarrow> nat" where
  "fn_weight f = (\<Sum>a \<in> set (fn_block_order f). block_weight (fn_get_block f a))"

lemma dce_weight:
  assumes "fn_ok f" "dce_of G pm f f'" "fn_get_block f a = Some b" "dce_changes pm (collect_uses G f) b"
  shows "fn_weight f' < fn_weight f"
proof -
  let ?g = "dce_block pm (collect_uses G f)"
  note d = dce_ofD [OF assms(1,2)]
  have le: "length (fb_ops (?g b)) \<le> length (fb_ops b)" "length (fb_phis (?g b)) \<le> length (fb_phis b)" for b
    by (simp_all add: dce_block_def)
  have "(a, b) \<in> set (fn_blocks f)" using assms(1,3) by (simp add: in_fn_blocks fn_ok_def)
  then have "a \<in> set (fn_block_order f)" using assms(1) by (auto simp: fn_ok_def listed_blocks_def list_all_iff)
  moreover have "block_weight (fn_get_block f' a) < block_weight (fn_get_block f a)"
    using assms(3,4) d(5) le [of b] by (auto simp: block_weight_def dce_changes_def)
  moreover have "block_weight (fn_get_block f' x) \<le> block_weight (fn_get_block f x)" for x
    using d(5) [of x] add_mono [OF le] by (simp add: block_weight_def split: option.split)
  ultimately show ?thesis
    unfolding fn_weight_def d(4) by (intro sum_strict_mono_ex1) auto
qed

lemma dce_unchanged:
  assumes "fn_ok f" "dce_of G pm f f'" "\<And>a b. fn_get_block f a = Some b \<Longrightarrow> \<not> dce_changes pm (collect_uses G f) b"
  shows "collect_uses G f' = collect_uses G f"
    and "fn_get_block f' a = Some b \<Longrightarrow> list_all (live_op pm (collect_uses G f)) (fb_ops b) \<and>
      list_all (\<lambda>phi. pn_dst phi \<in> collect_uses G f) (fb_phis b)"
proof -
  let ?U = "collect_uses G f"
  note d = dce_ofD [OF assms(1,2)]
  have full: "filter P xs = xs \<and> list_all P xs" if "\<not> length (filter P xs) < length xs" for P and xs :: "'b list"
    using that length_filter_less by (metis filter_True list_all_iff)
  have all: "dce_block pm ?U b = b \<and> list_all (live_op pm ?U) (fb_ops b) \<and> list_all (\<lambda>phi. pn_dst phi \<in> ?U) (fb_phis b)"
    if "fn_get_block f a = Some b" for a b
  proof -
    have n: "\<not> length (filter (live_op pm ?U) (fb_ops b)) < length (fb_ops b)"
        "\<not> length (filter (\<lambda>phi. pn_dst phi \<in> ?U) (fb_phis b)) < length (fb_phis b)"
      using assms(3) [OF that] by (simp_all add: dce_changes_def dce_block_def)
    show ?thesis using full [OF n(1)] full [OF n(2)] by (simp add: dce_block_def)
  qed
  have same: "fn_get_block f' a = fn_get_block f a" for a using d(5) [of a] all [of a] by (cases "fn_get_block f a") auto
  have "returns_at G f' a = returns_at G f a" for a by (simp add: returns_at_def d(2))
  then show "collect_uses G f' = ?U"
    unfolding set_eq_iff collect_uses_iff [OF d(1)] collect_uses_iff [OF assms(1)] same by simp
  show "fn_get_block f' a = Some b \<Longrightarrow> list_all (live_op pm ?U) (fb_ops b) \<and> list_all (\<lambda>phi. pn_dst phi \<in> ?U) (fb_phis b)"
    using all [of a b] same by simp
qed

lemma dce_loop_ok:
  assumes "fn_ok f"
  shows "\<exists>f' st' c. dce_loop G pm f st ch = Some (f', st', c) \<and> fn_ok f' \<and>
     (\<forall>a b. fn_get_block f' a = Some b \<longrightarrow> list_all (live_op pm (collect_uses G f')) (fb_ops b) \<and>
        list_all (\<lambda>phi. pn_dst phi \<in> collect_uses G f') (fb_phis b)) \<and>
     keeps_effects pm f f' \<and> keeps_used G f f' \<and> matches_runs G f f'"
  using assms
proof (induction "fn_weight f" arbitrary: f st ch rule: less_induct)
  case less
  obtain f1 st1 c where r: "dce_round G pm f st = Some (f1, st1, c)" and d: "dce_of G pm f f1"
    and c: "c \<longleftrightarrow> (\<exists>a b. fn_get_block f a = Some b \<and> dce_changes pm (collect_uses G f) b)"
    using dce_round_returns [OF less.prems] by blast
  note k = dce_round_keeps [OF less.prems d]
  have ok: "fn_ok f1" by (rule dce_ofD(1) [OF less.prems d])
  show ?case
  proof (cases c)
    case False
    then have "\<And>a b. fn_get_block f a = Some b \<Longrightarrow> \<not> dce_changes pm (collect_uses G f) b" using c by blast
    note u = dce_unchanged [OF less.prems d this]
    have "dce_loop G pm f st ch = Some (f1, st1, ch)" using False by (subst dce_loop.simps) (simp add: r)
    then show ?thesis using ok k u by (intro exI [of _ f1] exI [of _ st1] exI [of _ ch]) simp
  next
    case True
    then have "fn_weight f1 < fn_weight f" using c dce_weight [OF less.prems d] by blast
    from less.hyps [OF this ok, of st1 True] obtain f' st' c' where
      f': "dce_loop G pm f1 st1 True = Some (f', st', c')" "fn_ok f'" "keeps_effects pm f1 f'" "keeps_used G f1 f'" "matches_runs G f1 f'"
        "\<forall>a b. fn_get_block f' a = Some b \<longrightarrow> list_all (live_op pm (collect_uses G f')) (fb_ops b) \<and>
          list_all (\<lambda>phi. pn_dst phi \<in> collect_uses G f') (fb_phis b)" by blast
    have "dce_loop G pm f st ch = Some (f', st', c')" using True f'(1) by (subst dce_loop.simps) (simp add: r)
    moreover have "matches_runs G f f'" by (rule matches_runs_trans [OF k(3) f'(5)]) (use f'(4) in \<open>simp add: keeps_used_def\<close>)
    ultimately show ?thesis
      using f' keeps_effects_trans [OF k(1) f'(3)] keeps_used_trans [OF k(2) f'(4)] by blast
  qed
qed

section \<open>Properties\<close>

lemma branch_example_ok: "fn_ok branch_example" "no_const_targets branch_example"
proof -
  show "fn_ok branch_example" using branch_example_listed(1) by (simp add: fn_ok_def branch_example_def hm_ok_def)
  show "no_const_targets branch_example"
    by (simp add: no_const_targets_def branch_example_def const_value_def ssa_is_const_def ssa_new_def)
qed

text \<open>C23. Replacing the constants of the propagation keeps the meaning of a function: the pass returns, and every
  run of the function, point by point and with the same values, is a run of the rewritten function.
  The function has its blocks listed once each and no operation writes a constant.\<close>

theorem sccp_constants_keep_runs:
  assumes "fn_ok f" "no_const_targets f" "sccp G f = Some (found, executable)"
  shows "\<exists>f' st c. replace_sources_with_constants G found f stats = Some (f', st, c) \<and> fn_ok f' \<and>
     (\<forall>pt env. runs G f pt env \<longrightarrow> runs G f' pt env)"
  by (rule constants_keep_runs [OF assms])

theorem sccp_constants_keep_runs_witness:
  "\<exists>f' st c. replace_sources_with_constants stack_graph [(ssa_new ''a'' 1 1, 1)] branch_example stats_default = Some (f', st, c) \<and>
     runs stack_graph f' (OnEdge 0x1000 0x1008) [ssa_new ''a'' 1 1 \<mapsto> 1]"
  using sccp_constants_keep_runs [OF branch_example_ok branch_example_result, of stats_default] branch_example_runs by blast



end
