(* ===== verification/SSA_Copy_Props.thy ===== *)
theory SSA_Copy_Props
  imports SSA_Dce_Props
begin

text \<open>
  Copy propagation: where chains of copies lead, and the definitions it loses.
\<close>

section \<open>Chains\<close>

text \<open>One replacement after the other.\<close>

inductive leads_to :: "replacements \<Rightarrow> SSAVar \<Rightarrow> SSAVar \<Rightarrow> bool" for repl where
  leads_refl: "leads_to repl v v"
| leads_step: "hm_get repl v = Some w \<Longrightarrow> leads_to repl w u \<Longrightarrow> leads_to repl v u"

lemma follow_copies_ends:
  "follow_copies repl var visited current = var \<or>
     leads_to repl current (follow_copies repl var visited current) \<and> hm_get repl (follow_copies repl var visited current) = None"
proof (induction repl var visited current rule: follow_copies.induct)
  case (1 repl var visited current)
  show ?case
  proof (cases "hm_get repl current")
    case None
    then show ?thesis by (subst (1 2 3) follow_copies.simps) (simp add: leads_refl)
  next
    case (Some w)
    then have e: "follow_copies repl var visited current =
        (if current \<in> visited then var else follow_copies repl var (insert current visited) w)"
      by (subst follow_copies.simps) simp
    show ?thesis using 1 [OF Some] Some unfolding e by (auto intro: leads_step)
  qed
qed

section \<open>Definitions that go missing\<close>

interpretation collect_copies: block_pass copies_step
    "\<lambda>addr b. b\<lparr>fb_phis := filter (\<lambda>phi. trivial_phi phi = None) (fb_phis b)\<rparr>"
    "\<lambda>addr b s. snd (the (copies_step addr b s))"
  by standard (simp add: copies_step_def split_beta' Let_def)

lemma copy_propagation_returns:
  assumes "fn_ok f"
  shows "\<exists>f1 f' st c repl. copy_propagation G f stats = Some (f', st, c) \<and> fn_ok f1 \<and>
     edited (\<lambda>addr b. b\<lparr>fb_phis := filter (\<lambda>phi. trivial_phi phi = None) (fb_phis b)\<rparr>) f f1 \<and>
     (f' = f1 \<or> edited (\<lambda>a b. fst (rewrite_block (returns_at G f1 a) (copy_mapper repl) b)) f1 f')"
proof -
  let ?g = "\<lambda>addr b. b\<lparr>fb_phis := filter (\<lambda>phi. trivial_phi phi = None) (fb_phis b)\<rparr>"
  have d: "distinct (fn_block_order f)" using assms by (simp add: fn_ok_def)
  obtain f1 s1 where e1: "edit_blocks copies_step (fn_block_order f) f (stats, [], False) = Some (f1, s1)" "edited ?g f f1"
    using collect_copies.pass_edits [OF d] by blast
  obtain st1 repl c1 where s1: "s1 = (st1, repl, c1)" by (cases s1) auto
  let ?r = "resolve_replacements repl"
  have ok: "fn_ok f1" by (rule edited_fn_ok [OF e1(2) assms]) simp
  then have d1: "distinct (fn_block_order f1)" by (simp add: fn_ok_def)
  have b: "build_copy_replacements f stats = Some (f1, st1, ?r, c1)" by (simp add: build_copy_replacements_def e1(1) s1)
  obtain f2 s2 where e2: "apply_replacements G ?r f1 st1 = Some (f2, s2)"
      "edited (\<lambda>a b. fst (rewrite_block (returns_at G f1 a) (copy_mapper ?r) b)) f1 f2"
    using copies_pass.pass_edits [OF d1, of G f1 ?r "(st1, False)"] unfolding apply_replacements_def by blast
  show ?thesis
  proof (cases "?r = []")
    case True
    then show ?thesis using b ok e1(2) by (auto simp: copy_propagation_def)
  next
    case False
    then show ?thesis using b ok e1(2) e2 by (cases s2) (auto simp: copy_propagation_def)
  qed
qed

text \<open>Rewriting sources moves no definition.\<close>

lemma fn_targets_rewrite:
  assumes "\<And>a. fn_get_block f' a = map_option (\<lambda>b. fst (rewrite_block (r a) m b)) (fn_get_block f a)"
  shows "fn_targets f' \<subseteq> fn_targets f"
proof
  fix v assume "v \<in> fn_targets f'"
  then obtain x where x: "site_in f' x" "site_target x = Some v" by (auto simp: fn_targets_def)
  have "\<exists>y. site_in f y \<and> site_target y = Some v"
  proof (cases x)
    case (PhiSite a phi)
    then obtain b phi0 where "fn_get_block f a = Some b" "phi0 \<in> set (fb_phis b)" "phi = rewrite_phi (r a) m phi0"
      using x(1) assms [of a] by auto
    then show ?thesis using x(2) PhiSite by (intro exI [of _ "PhiSite a phi0"]) simp
  next
    case (OpSite a op)
    then obtain b op0 where "fn_get_block f a = Some b" "op0 \<in> set (fb_ops b)" "op = map_sources_in_op m op0"
      using x(1) assms [of a] by auto
    then show ?thesis using x(2) OpSite by (intro exI [of _ "OpSite a op0"]) simp
  qed (use x(2) in simp)
  then show "v \<in> fn_targets f" by (auto simp: fn_targets_def)
qed

definition only_trivial :: "'g SSAFunction \<Rightarrow> SSAVar \<Rightarrow> bool" where
  "only_trivial f v \<longleftrightarrow> list_all (\<lambda>(a, b).
     list_all (\<lambda>phi. pn_dst phi = v \<longrightarrow> trivial_phi phi \<noteq> None) (fb_phis b) \<and> v \<notin> set (dsts (fb_ops b))) (fn_blocks f)"

lemma only_trivialD:
  assumes "only_trivial f v" "fn_get_block f a = Some b"
  shows "phi \<in> set (fb_phis b) \<Longrightarrow> pn_dst phi = v \<Longrightarrow> trivial_phi phi \<noteq> None"
    and "op \<in> set (fb_ops b) \<Longrightarrow> sop_dst op \<noteq> Some v"
proof -
  have "(a, b) \<in> set (fn_blocks f)" using assms(2) by (simp add: fn_get_block_def hm_get_def map_of_SomeD)
  then have "list_all (\<lambda>phi. pn_dst phi = v \<longrightarrow> trivial_phi phi \<noteq> None) (fb_phis b)" "v \<notin> set (dsts (fb_ops b))"
    using assms(1) by (auto simp: only_trivial_def list_all_iff)
  then show "phi \<in> set (fb_phis b) \<Longrightarrow> pn_dst phi = v \<Longrightarrow> trivial_phi phi \<noteq> None"
    and "op \<in> set (fb_ops b) \<Longrightarrow> sop_dst op \<noteq> Some v" by (auto simp: list_all_iff dsts_def)
qed

lemma trivial_phis_gone:
  assumes "fn_ok f" "only_trivial f v" "edited (\<lambda>addr b. b\<lparr>fb_phis := filter (\<lambda>phi. trivial_phi phi = None) (fb_phis b)\<rparr>) f f1"
  shows "v \<notin> fn_targets f1"
proof
  assume "v \<in> fn_targets f1"
  then obtain x where x: "site_in f1 x" "site_target x = Some v" by (auto simp: fn_targets_def)
  have l: "listed_blocks f" using assms(1) by (simp add: fn_ok_def)
  note b = edited_listed [OF assms(3) l]
  show False
  proof (cases x)
    case (PhiSite a phi)
    then obtain b0 where b0: "fn_get_block f a = Some b0" "phi \<in> set (fb_phis b0)" "trivial_phi phi = None"
      using x(1) b [of a] by auto
    then show ?thesis using only_trivialD(1) [OF assms(2) b0(1,2)] PhiSite x(2) by simp
  next
    case (OpSite a op)
    then obtain b0 where b0: "fn_get_block f a = Some b0" "op \<in> set (fb_ops b0)" using x(1) b [of a] by auto
    then show ?thesis using only_trivialD(2) [OF assms(2) b0] OpSite x(2) by simp
  qed (use x(2) in simp)
qed

section \<open>Properties\<close>

definition join_block :: "u64 \<Rightarrow> PhiNode list \<Rightarrow> FunctionSSABlock" where
  "join_block a phis = \<lparr>fb_addr = a, fb_size = 4, fb_ops = [], fb_phis = phis\<rparr>"

definition rax :: "u32 \<Rightarrow> SSAVar" where
  "rax n = ssa_new ''rax'' n 8"

text \<open>Two ways to the return, one of them through a block with a single predecessor left.\<close>

definition return_join :: "list_digraph SSAFunction" where
  "return_join =
     \<lparr>fn_name = None, fn_entry = 0x1000,
      fn_cfg = \<lparr>cfg_graph =
          ([branch_block 0x1000 (TermConditionalBranch 0x1008 0x1004), branch_block 0x1004 (TermFallthrough 0x1008), branch_block 0x1008 TermReturn],
           [(0, 2, EdgeTrue), (0, 1, EdgeFalse), (1, 2, EdgeNormal)]),
        cfg_addr_to_node = [(0x1000, 0), (0x1004, 1), (0x1008, 2)], cfg_entry = 0x1000\<rparr>,
      fn_domtree = \<lparr>dt_entry = 0x1000, dt_idom = [], dt_children = [], dt_frontier = [], dt_depth = []\<rparr>,
      fn_blocks =
        [(0x1000, join_block 0x1000 []),
         (0x1004, join_block 0x1004 [\<lparr>pn_dst = rax 2, pn_sources = [(0x1000, rax 1)]\<rparr>]),
         (0x1008, join_block 0x1008 [\<lparr>pn_dst = rax 3, pn_sources = [(0x1000, rax 1), (0x1004, rax 2)]\<rparr>])],
      fn_block_order = [0x1000, 0x1004, 0x1008], fn_prep_facts = None, fn_query_index = None\<rparr>"

text \<open>C31. Copy propagation loses definitions. A phi whose sources agree is removed, and its uses are
  replaced, except in the phis of a return register in a returning block, whose sources are left
  alone: there the removed variable is still used after the pass, and nothing defines it.\<close>

theorem copy_propagation_dangles:
  assumes "fn_ok f" "fn_get_block f r = Some b" "returns_at G f r"
    and "phi \<in> set (fb_phis b)" "return_value_family (sv_name (pn_dst phi)) \<noteq> None" "trivial_phi phi = None"
    and "(p, v) \<in> set (pn_sources phi)" "only_trivial f v"
  shows "\<exists>f' st c. copy_propagation G f stats = Some (f', st, c) \<and> v \<in> collect_uses G f' \<and> v \<notin> fn_targets f'"
proof -
  obtain f1 f' st c repl where cp: "copy_propagation G f stats = Some (f', st, c)" "fn_ok f1"
      and e: "edited (\<lambda>addr b. b\<lparr>fb_phis := filter (\<lambda>phi. trivial_phi phi = None) (fb_phis b)\<rparr>) f f1"
      and f': "f' = f1 \<or> edited (\<lambda>a b. fst (rewrite_block (returns_at G f1 a) (copy_mapper repl) b)) f1 f'"
    using copy_propagation_returns [OF assms(1), of G stats] by blast
  have gone: "v \<notin> fn_targets f1" by (rule trivial_phis_gone [OF assms(1,8) e])
  have l: "listed_blocks f" "listed_blocks f1" using assms(1) cp(2) by (simp_all add: fn_ok_def)
  obtain b1 where b1: "fn_get_block f1 r = Some b1" "phi \<in> set (fb_phis b1)"
    using edited_listed [OF e l(1), of r] assms(2,4,6) by auto
  have r: "returns_at G f1 r" using assms(3) e by (simp add: returns_at_def edited_def edited_at_def)
  have use_f1: "v \<in> collect_uses G f1" using dce_block_reads(1) [OF cp(2) b1(1,2), of G] assms(7) by force
  show ?thesis
  proof (cases "f' = f1")
    case False
    then have e': "edited (\<lambda>a b. fst (rewrite_block (returns_at G f1 a) (copy_mapper repl) b)) f1 f'" using f' by blast
    have ok: "fn_ok f'" by (rule edited_fn_ok [OF e' cp(2)]) simp
    note b' = edited_listed [OF e' l(2)]
    have "rewrite_phi (returns_at G f1 r) (copy_mapper repl) phi = phi" using r assms(5) by (simp add: rewrite_phi_def)
    then have "phi \<in> set (fb_phis (fst (rewrite_block (returns_at G f1 r) (copy_mapper repl) b1)))"
      using b1(2) by (simp add: image_iff) metis
    then have "v \<in> collect_uses G f'" using dce_block_reads(1) [OF ok, of r _ phi G] b' [of r] b1(1) assms(7) by force
    moreover have "v \<notin> fn_targets f'" using fn_targets_rewrite [OF b'] gone by blast
    ultimately show ?thesis using cp(1) by blast
  qed (use cp(1) use_f1 gone in blast)
qed

theorem copy_propagation_dangles_witness:
  "rax 2 \<in> fn_targets return_join \<and>
   (\<exists>f' st c. copy_propagation stack_graph return_join stats_default = Some (f', st, c) \<and>
      rax 2 \<in> collect_uses stack_graph f' \<and> rax 2 \<notin> fn_targets f')"
proof
  let ?phi = "\<lparr>pn_dst = rax 3, pn_sources = [(0x1000, rax 1), (0x1004, rax 2)]\<rparr>"
  have ok: "fn_ok return_join" by (simp add: fn_ok_def listed_blocks_def hm_ok_def return_join_def join_block_def)
  have b: "fn_get_block return_join 0x1008 = Some (join_block 0x1008 [?phi])"
    by (simp add: fn_get_block_def hm_get_def return_join_def)
  have ret: "returns_at stack_graph return_join 0x1008"
    by (simp add: returns_at_def get_block_def get_node_def hm_get_def return_join_def list_petgraph_def branch_block_def bb_is_return_def)
  have fam: "return_value_family (sv_name (pn_dst ?phi)) \<noteq> None"
    by (simp add: return_value_family_def rax_def ssa_new_def to_ascii_lowercase_def to_lower_char_def)
  have triv: "trivial_phi ?phi = None" by (simp add: trivial_phi_def rax_def ssa_new_def)
  have only: "only_trivial return_join (rax 2)"
    by (simp add: only_trivial_def return_join_def join_block_def trivial_phi_def rax_def ssa_new_def)
  show "\<exists>f' st c. copy_propagation stack_graph return_join stats_default = Some (f', st, c) \<and>
      rax 2 \<in> collect_uses stack_graph f' \<and> rax 2 \<notin> fn_targets f'"
    by (rule copy_propagation_dangles [OF ok b ret _ fam triv _ only, of "0x1004"]) (simp_all add: join_block_def)
  have "fn_get_block return_join 0x1004 = Some (join_block 0x1004 [\<lparr>pn_dst = rax 2, pn_sources = [(0x1000, rax 1)]\<rparr>])"
    by (simp add: fn_get_block_def hm_get_def return_join_def)
  then show "rax 2 \<in> fn_targets return_join"
    unfolding fn_targets_def by (auto simp: join_block_def intro!: exI [of _ "PhiSite 0x1004 \<lparr>pn_dst = rax 2, pn_sources = [(0x1000, rax 1)]\<rparr>"])
qed

end
