(* ===== verification/SSA_Cse_Props.thy ===== *)
theory SSA_Cse_Props
  imports SSA_Optimize SSA_Fold_Props
begin

text \<open>
  Common subexpressions: the key of an operation determines its value, and a block computes the same
  values after the elimination.
\<close>

section \<open>Running a block\<close>

text \<open>
  A run of a block under a meaning \<open>sem\<close> of the operations that have a key. Other operations, which
  read memory or call, take their value from \<open>outside\<close>, by their position in the block.
\<close>

definition op_result :: "((SSAVar \<Rightarrow> 'v) \<Rightarrow> SSAOp \<Rightarrow> 'v) \<Rightarrow> (nat \<Rightarrow> 'v) \<Rightarrow> nat \<Rightarrow> (SSAVar \<Rightarrow> 'v) \<Rightarrow> SSAOp \<Rightarrow> 'v" where
  "op_result sem outside i env op =
     (case op of Copy _ x \<Rightarrow> env x | _ \<Rightarrow> if expr_key op = None then outside i else sem env op)"

fun run_ops ::
  "((SSAVar \<Rightarrow> 'v) \<Rightarrow> SSAOp \<Rightarrow> 'v) \<Rightarrow> (nat \<Rightarrow> 'v) \<Rightarrow> nat \<Rightarrow> (SSAVar \<Rightarrow> 'v) \<Rightarrow> SSAOp list \<Rightarrow> SSAVar \<Rightarrow> 'v" where
  "run_ops sem outside i env [] = env"
| "run_ops sem outside i env (op # ops) =
     run_ops sem outside (Suc i) (case sop_dst op of None \<Rightarrow> env | Some d \<Rightarrow> env(d := op_result sem outside i env op)) ops"

lemma op_result_key: "expr_key op = Some k \<Longrightarrow> op_result sem outside i env op = sem env op"
  by (cases op) (simp_all add: op_result_def expr_key_def split: option.splits)

text \<open>What elimination relies on: the key determines the meaning, and so do the operands.\<close>

locale keyed_semantics =
  fixes sem :: "(SSAVar \<Rightarrow> 'v) \<Rightarrow> SSAOp \<Rightarrow> 'v"
  assumes sem_key: "expr_key op = Some k \<Longrightarrow> expr_key op' = Some k \<Longrightarrow> sem env op = sem env op'"
    and sem_local: "expr_key op \<noteq> None \<Longrightarrow> (\<And>v. v \<in> set (sop_sources op) \<Longrightarrow> env v = env' v) \<Longrightarrow> sem env op = sem env' op"
begin

text \<open>Every recorded expression has its value in the recorded variable, and neither is written again.\<close>

definition available_ok :: "(SSAVar \<Rightarrow> 'v) \<Rightarrow> SSAOp list \<Rightarrow> (ExprKey, SSAVar) hashmap \<Rightarrow> bool" where
  "available_ok env ops available \<longleftrightarrow>
     (\<forall>k x. hm_get available k = Some x \<longrightarrow> x \<notin> set (dsts ops) \<and>
        (\<forall>op. expr_key op = Some k \<longrightarrow> set (sop_sources op) \<inter> set (dsts ops) = {} \<and> sem env op = env x))"

end

text \<open>A block in SSA form: no variable is defined twice, and none is read before it is defined.\<close>

fun ssa_ordered :: "SSAOp list \<Rightarrow> bool" where
  "ssa_ordered [] \<longleftrightarrow> True"
| "ssa_ordered (op # ops) \<longleftrightarrow>
     (\<forall>d. sop_dst op = Some d \<longrightarrow> d \<notin> set (sop_sources op)) \<and> set (sop_sources op) \<inter> set (dsts ops) = {} \<and>
     (\<forall>d. sop_dst op = Some d \<longrightarrow> d \<notin> set (dsts ops)) \<and> ssa_ordered ops"

lemma sort_two: "sort [a, b] = (if a \<le> b then [a, b] else [b, a :: 'a :: linorder])"
  by simp

text \<open>The operands of an operation are the arguments of its key.\<close>

lemma expr_key_shape:
  "case expr_key op of None \<Rightarrow> True
     | Some k \<Rightarrow> set (sop_sources op) = set (ek_args k) \<and> map_option sv_size (sop_dst op) = Some (ek_dst_size k)"
  by (cases op) (simp_all add: expr_key_def insert_commute split: option.split)

lemma expr_key_sources: "expr_key op = Some k \<Longrightarrow> set (sop_sources op) = set (ek_args k)"
  using expr_key_shape [of op] by simp

context keyed_semantics
begin

lemma available_ok_step:
  assumes "available_ok env (op # ops) available" "sop_dst op = Some d"
  shows "available_ok (env(d := r)) ops available"
  unfolding available_ok_def
proof (intro allI impI conjI)
  fix k x assume kx: "hm_get available k = Some x"
  then have x: "x \<notin> set (dsts ops)" "x \<noteq> d" using assms unfolding available_ok_def by auto
  then show "x \<notin> set (dsts ops)" by blast
  fix op' assume op': "expr_key op' = Some k"
  then have o: "set (sop_sources op') \<inter> set (dsts (op # ops)) = {}" "sem env op' = env x"
    using assms(1) kx unfolding available_ok_def by blast+
  then show "set (sop_sources op') \<inter> set (dsts ops) = {}" using assms(2) by auto
  have "sem (env(d := r)) op' = sem env op'"
    by (rule sem_local) (use op' o(1) assms(2) in auto)
  then show "sem (env(d := r)) op' = (env(d := r)) x" using o(2) x(2) by simp
qed

lemma available_ok_insert:
  assumes "available_ok env ops available" "d \<notin> set (dsts ops)"
    and "\<And>op. expr_key op = Some k \<Longrightarrow> set (sop_sources op) \<inter> set (dsts ops) = {} \<and> sem env op = env d"
  shows "available_ok env ops (hm_insert k d available)"
  using assms unfolding available_ok_def by (simp add: hm_get_insert)

lemma run_cse:
  assumes "ssa_ordered ops" "available_ok env ops available"
  shows "run_ops sem outside i env (fst (cse_ops ops available)) = run_ops sem outside i env ops"
  using assms
proof (induction ops arbitrary: env available i)
  case (Cons op ops)
  have ord: "ssa_ordered ops" using Cons.prems(1) by simp
  show ?case
  proof (cases "sop_dst op")
    case None
    then have "available_ok env ops available" using Cons.prems(2) by (simp add: available_ok_def)
    then show ?thesis using None Cons.IH [OF ord] by (simp add: split_beta' Let_def)
  next
    case (Some d)
    let ?env = "env(d := op_result sem outside i env op)"
    have d: "d \<notin> set (sop_sources op)" "d \<notin> set (dsts ops)" "set (sop_sources op) \<inter> set (dsts ops) = {}"
      using Cons.prems(1) Some by auto
    have av: "available_ok (env(d := r)) ops available" for r by (rule available_ok_step [OF Cons.prems(2) Some])
    have IH: "run_ops sem outside (Suc i) ?env (fst (cse_ops ops available)) = run_ops sem outside (Suc i) ?env ops"
      by (rule Cons.IH [OF ord av])
    show ?thesis
    proof (cases "expr_key op")
      case None
      then show ?thesis using Some IH by (simp add: split_beta' Let_def)
    next
      case (Some k)
      show ?thesis
      proof (cases "hm_get available k")
        case (Some x)
        have "op_result sem outside i env op = env x"
          using Cons.prems(2) Some \<open>expr_key op = Some k\<close> unfolding available_ok_def by (simp add: op_result_key)
        then show ?thesis
          using Some \<open>expr_key op = Some k\<close> \<open>sop_dst op = Some d\<close> IH
          by (simp add: split_beta' Let_def op_result_def [of _ _ _ _ "Copy d x"])
      next
        case None
        have "available_ok ?env ops (hm_insert k d available)"
        proof (rule available_ok_insert [OF av d(2)])
          fix op' assume k': "expr_key op' = Some k"
          have src: "set (sop_sources op') = set (sop_sources op)"
            using expr_key_sources [OF k'] expr_key_sources [OF \<open>expr_key op = Some k\<close>] by simp
          have "sem ?env op' = sem env op'" by (rule sem_local) (use k' src d(1) in auto)
          also have "\<dots> = sem env op" by (rule sem_key [OF k' \<open>expr_key op = Some k\<close>])
          finally show "set (sop_sources op') \<inter> set (dsts ops) = {} \<and> sem ?env op' = ?env d"
            using src d(3) op_result_key [OF \<open>expr_key op = Some k\<close>, of sem outside i env] by simp
        qed
        then show ?thesis
          using None \<open>expr_key op = Some k\<close> \<open>sop_dst op = Some d\<close> Cons.IH [OF ord] by (simp add: split_beta' Let_def)
      qed
    qed
  qed
qed simp

lemma cse_same_values:
  assumes "ssa_ordered ops"
  shows "run_ops sem outside 0 env (fst (cse_ops ops [])) = run_ops sem outside 0 env ops"
  by (rule run_cse [OF assms]) (simp add: available_ok_def hm_get_def)

end

section \<open>The reference semantics\<close>

text \<open>
  The reference semantics gives no value to floating point, to conversions from and to it and to a
  division by zero. Those stay uninterpreted: their meaning is a parameter, a function of the
  operation, the size of its destination and the sizes and values of its operands.
\<close>

datatype ForeignOp =
    FNeg | FAbs | FSqrt | FFromInt | FToInt | FResize | FTrunc
  | FAdd | FSub | FMult | FDiv | FEqual | FNotEqual | FLess | FLessEqual
  | DivZero | SDivZero | RemZero | SRemZero

type_synonym foreign = "ForeignOp \<Rightarrow> u32 \<Rightarrow> (u32 \<times> int) list \<Rightarrow> int"

definition foreign_op :: "SSAOp \<Rightarrow> ForeignOp option" where
  "foreign_op op =
     (case op of
        FloatNeg _ _ \<Rightarrow> Some FNeg
      | FloatAbs _ _ \<Rightarrow> Some FAbs
      | FloatSqrt _ _ \<Rightarrow> Some FSqrt
      | Int2Float _ _ \<Rightarrow> Some FFromInt
      | Float2Int _ _ \<Rightarrow> Some FToInt
      | FloatFloat _ _ \<Rightarrow> Some FResize
      | Trunc _ _ \<Rightarrow> Some FTrunc
      | FloatAdd _ _ _ \<Rightarrow> Some FAdd
      | FloatSub _ _ _ \<Rightarrow> Some FSub
      | FloatMult _ _ _ \<Rightarrow> Some FMult
      | FloatDiv _ _ _ \<Rightarrow> Some FDiv
      | FloatEqual _ _ _ \<Rightarrow> Some FEqual
      | FloatNotEqual _ _ _ \<Rightarrow> Some FNotEqual
      | FloatLess _ _ _ \<Rightarrow> Some FLess
      | FloatLessEqual _ _ _ \<Rightarrow> Some FLessEqual
      | IntDiv _ _ _ \<Rightarrow> Some DivZero
      | IntSDiv _ _ _ \<Rightarrow> Some SDivZero
      | IntRem _ _ _ \<Rightarrow> Some RemZero
      | IntSRem _ _ _ \<Rightarrow> Some SRemZero
      | _ \<Rightarrow> None)"

definition operand :: "(SSAVar \<Rightarrow> int) \<Rightarrow> SSAVar \<Rightarrow> u32 \<times> int" where
  "operand env v = (sv_size v, env v)"

definition pcode_sem :: "foreign \<Rightarrow> (SSAVar \<Rightarrow> int) \<Rightarrow> SSAOp \<Rightarrow> int" where
  "pcode_sem fl env op =
     (case pcode_value env op of
        Some r \<Rightarrow> r
      | None \<Rightarrow>
        (case (foreign_op op, sop_dst op) of
           (Some g, Some d) \<Rightarrow> fl g (sv_size d) (map (operand env) (sop_sources op))
         | _ \<Rightarrow> 0))"

text \<open>Every operation with a key has a value, in the reference semantics or by the parameter.\<close>

lemma keyed_has_value: "case expr_key op of None \<Rightarrow> True | Some k \<Rightarrow> pcode_value env op \<noteq> None \<or> foreign_op op \<noteq> None"
  by (cases op) (simp_all add: expr_key_def pcode_value_def foreign_op_def Let_def split: option.split)

text \<open>What is known of floating point: sums, products and the two tests of equality do not depend on
  the order of the operands.\<close>

definition commuting :: "ForeignOp \<Rightarrow> bool" where
  "commuting g \<longleftrightarrow> g = FAdd \<or> g = FMult \<or> g = FEqual \<or> g = FNotEqual"

definition float_commutes :: "foreign \<Rightarrow> bool" where
  "float_commutes fl \<longleftrightarrow> (\<forall>g n x y. commuting g \<longrightarrow> fl g n [x, y] = fl g n [y, x])"

text \<open>Any meaning, made commutative by ordering the operands; one that commutes stays as it is.\<close>

definition operand_le :: "u32 \<times> int \<Rightarrow> u32 \<times> int \<Rightarrow> bool" where
  "operand_le x y \<longleftrightarrow> fst x < fst y \<or> fst x = fst y \<and> snd x \<le> snd y"

definition commuted :: "foreign \<Rightarrow> foreign" where
  "commuted fl g n xs =
     (case xs of [x, y] \<Rightarrow> if commuting g \<and> \<not> operand_le x y then fl g n [y, x] else fl g n xs | _ \<Rightarrow> fl g n xs)"

lemma commuted_id: "float_commutes fl \<Longrightarrow> commuted fl = fl"
  by (rule ext)+ (auto simp: commuted_def float_commutes_def split: list.split)

lemma commuted_swap: "commuting g \<Longrightarrow> commuted fl g n [x, y] = commuted fl g n [y, x]"
  by (cases x; cases y) (auto simp: commuted_def operand_le_def)

text \<open>The value of an expression, from its key alone.\<close>

definition key_value :: "(SSAVar \<Rightarrow> int) \<Rightarrow> ExprKey \<Rightarrow> int option" where
  "key_value env k =
     (let s = (\<lambda>v. signed_take_bit (width v - 1) (env v)); w = 8 * unat (ek_dst_size k)
      in case (ek_kind k, ek_args k) of
        (ExprUnary n, [x]) \<Rightarrow>
          (
           if n = ''IntNegate'' then Some (take_bit w (- env x))
           else if n = ''IntNot'' then Some (take_bit w (NOT (env x)))
           else if n = ''IntZExt'' then Some (env x)
           else if n = ''IntSExt'' then Some (take_bit w (s x))
           else if n = ''BoolNot'' then Some (of_bool (env x = 0))
           else None)
      | (ExprBinary n, [a, b]) \<Rightarrow>
          (
           if n = ''IntAdd'' then Some (take_bit w (env a + env b))
           else if n = ''IntSub'' then Some (take_bit w (env a - env b))
           else if n = ''IntMult'' then Some (take_bit w (env a * env b))
           else if n = ''IntDiv'' then (if env b = 0 then None else Some (env a div env b))
           else if n = ''IntSDiv'' then (if env b = 0 then None else Some (take_bit w (s a sdiv s b)))
           else if n = ''IntRem'' then (if env b = 0 then None else Some (env a mod env b))
           else if n = ''IntSRem'' then (if env b = 0 then None else Some (take_bit w (s a smod s b)))
           else if n = ''IntAnd'' then Some (env a AND env b)
           else if n = ''IntOr'' then Some (env a OR env b)
           else if n = ''IntXor'' then Some (env a XOR env b)
           else if n = ''IntLeft'' then Some (take_bit w (push_bit (nat (env b)) (env a)))
           else if n = ''IntRight'' then Some (drop_bit (nat (env b)) (env a))
           else if n = ''IntSRight'' then Some (take_bit w (drop_bit (nat (env b)) (s a)))
           else if n = ''IntEqual'' then Some (of_bool (env a = env b))
           else if n = ''IntNotEqual'' then Some (of_bool (env a \<noteq> env b))
           else if n = ''IntLess'' then Some (of_bool (env a < env b))
           else if n = ''IntLessEqual'' then Some (of_bool (env a \<le> env b))
           else if n = ''IntSLess'' then Some (of_bool (s a < s b))
           else if n = ''IntSLessEqual'' then Some (of_bool (s a \<le> s b))
           else if n = ''BoolAnd'' then Some (of_bool (env a \<noteq> 0 \<and> env b \<noteq> 0))
           else if n = ''BoolOr'' then Some (of_bool (env a \<noteq> 0 \<or> env b \<noteq> 0))
           else if n = ''BoolXor'' then Some (of_bool ((env a \<noteq> 0) \<noteq> (env b \<noteq> 0)))
           else None)
      | _ \<Rightarrow> None)"

definition key_foreign :: "ExprKey \<Rightarrow> ForeignOp option" where
  "key_foreign k =
     (case ek_kind k of
        ExprUnary n \<Rightarrow> map_of [(''FloatNeg'', FNeg), (''FloatAbs'', FAbs), (''FloatSqrt'', FSqrt), (''Int2Float'', FFromInt),
          (''Float2Int'', FToInt), (''FloatFloat'', FResize), (''Trunc'', FTrunc)] n
      | ExprBinary n \<Rightarrow> map_of [(''FloatAdd'', FAdd), (''FloatSub'', FSub), (''FloatMult'', FMult), (''FloatDiv'', FDiv),
          (''FloatEqual'', FEqual), (''FloatNotEqual'', FNotEqual), (''FloatLess'', FLess), (''FloatLessEqual'', FLessEqual),
          (''IntDiv'', DivZero), (''IntSDiv'', SDivZero), (''IntRem'', RemZero), (''IntSRem'', SRemZero)] n)"

definition key_sem :: "foreign \<Rightarrow> (SSAVar \<Rightarrow> int) \<Rightarrow> ExprKey \<Rightarrow> int" where
  "key_sem fl env k =
     (case key_value env k of
        Some r \<Rightarrow> r
      | None \<Rightarrow>
        (case key_foreign k of
           Some g \<Rightarrow> fl g (ek_dst_size k) (map (operand env) (ek_args k))
         | None \<Rightarrow> 0))"

lemma pcode_value_key: "case expr_key op of None \<Rightarrow> True | Some k \<Rightarrow> pcode_value env op = key_value env k"
proof -
  note defs = expr_key_def pcode_value_def key_value_def Let_def width_def
  show ?thesis
  proof (cases op)
    case (IntAdd d a b)
    then show ?thesis by (simp add: defs add.commute [of "env b"])
  next
    case (IntMult d a b)
    then show ?thesis by (simp add: defs mult.commute [of "env b"])
  next
    case (IntAnd d a b)
    then show ?thesis by (simp add: defs and.commute [of "env b"])
  next
    case (IntOr d a b)
    then show ?thesis by (simp add: defs or.commute [of "env b"])
  next
    case (IntXor d a b)
    then show ?thesis by (simp add: defs xor.commute [of "env b"])
  next
    case (IntEqual d a b)
    then show ?thesis by (cases "a \<le> b") (auto simp: defs)
  next
    case (IntNotEqual d a b)
    then show ?thesis by (cases "a \<le> b") (auto simp: defs)
  next
    case (BoolAnd d a b)
    then show ?thesis by (cases "a \<le> b") (auto simp: defs)
  next
    case (BoolOr d a b)
    then show ?thesis by (cases "a \<le> b") (auto simp: defs)
  next
    case (BoolXor d a b)
    then show ?thesis by (cases "a \<le> b") (auto simp: defs)
  qed (simp_all add: defs split: option.split)
qed

lemma pcode_value_local:
  "(\<And>v. v \<in> set (sop_sources op) \<Longrightarrow> env v = env' v) \<Longrightarrow> pcode_value env op = pcode_value env' op"
  by (cases op) (simp_all add: pcode_value_def Let_def)

text \<open>The operations the reference semantics says nothing of have the same name in their key.\<close>

lemma foreign_key:
  "case expr_key op of None \<Rightarrow> True
     | Some k \<Rightarrow> key_foreign k = foreign_op op \<and>
         (\<forall>g d. foreign_op op = Some g \<longrightarrow> sop_dst op = Some d \<longrightarrow> ek_dst_size k = sv_size d \<and>
            commuted fl g (sv_size d) (map (operand env) (ek_args k)) =
            commuted fl g (sv_size d) (map (operand env) (sop_sources op)))"
proof -
  note defs = expr_key_def key_foreign_def foreign_op_def
  have swap: "commuting g \<Longrightarrow> commuted fl g n [operand env b, operand env a] = commuted fl g n [operand env a, operand env b]" for g n a b
    by (rule commuted_swap)
  note c = swap [of FAdd] swap [of FMult] swap [of FEqual] swap [of FNotEqual]
  show ?thesis
  proof (cases op)
    case (FloatAdd d a b)
    then show ?thesis using c by (auto simp: defs commuting_def)
  next
    case (FloatMult d a b)
    then show ?thesis using c by (auto simp: defs commuting_def)
  next
    case (FloatEqual d a b)
    then show ?thesis using c by (auto simp: defs commuting_def)
  next
    case (FloatNotEqual d a b)
    then show ?thesis using c by (auto simp: defs commuting_def)
  qed (simp_all add: defs split: option.split)
qed

lemma pcode_sem_key:
  assumes "expr_key op = Some k"
  shows "pcode_sem (commuted fl) env op = key_sem (commuted fl) env k"
proof -
  obtain d where d: "sop_dst op = Some d" using expr_key_shape [of op] assms by auto
  have v: "pcode_value env op = key_value env k" using pcode_value_key [where op = op and env = env] assms by simp
  show ?thesis
    using foreign_key [where op = op and fl = fl and env = env] assms d by (auto simp: pcode_sem_def key_sem_def v split: option.splits)
qed

lemma pcode_sem_local:
  assumes "\<And>v. v \<in> set (sop_sources op) \<Longrightarrow> env v = env' v"
  shows "pcode_sem fl env op = pcode_sem fl env' op"
proof -
  have "map (operand env) (sop_sources op) = map (operand env') (sop_sources op)" using assms by (simp add: operand_def)
  moreover have "pcode_value env op = pcode_value env' op" using assms by (rule pcode_value_local)
  ultimately show ?thesis unfolding pcode_sem_def by (simp only:)
qed

interpretation pcode: keyed_semantics "pcode_sem (commuted fl)" for fl
proof
  fix op op' k env assume "expr_key op = Some k" "expr_key op' = Some k"
  then show "pcode_sem (commuted fl) env op = pcode_sem (commuted fl) env op'" by (simp add: pcode_sem_key)
qed (rule pcode_sem_local)

section \<open>Properties\<close>

text \<open>C24. Common subexpression elimination keeps the values of a block: for a block in SSA form, running
  the block after the elimination leaves every variable with the value it has after the block
  itself, whatever its loads and calls yield, and for every meaning of floating point, of
  conversions and of division by zero in which float sums, products and tests of equality do not
  depend on the order of their operands.\<close>

theorem cse_keeps_values:
  assumes "ssa_ordered ops" "float_commutes fl"
  shows "run_ops (pcode_sem fl) outside 0 env (fst (cse_ops ops [])) = run_ops (pcode_sem fl) outside 0 env ops"
  using pcode.cse_same_values [OF assms(1), of fl] unfolding commuted_id [OF assms(2)] .

text \<open>A meaning of floats that commutes where it has to and tells the operations apart, and a block that
  adds two floats in either order and subtracts them in either order.\<close>

definition linear_floats :: foreign where
  "linear_floats g n xs =
     (if commuting g then sum_list (map snd xs) else foldr (\<lambda>x acc. snd x - 2 * acc) xs (if g = FNeg then 1 else 0))"

abbreviation "float_var nm \<equiv> SSAVar nm 0 8"

definition float_block :: "SSAOp list" where
  "float_block = [FloatAdd (SSAVar ''c'' 1 8) (float_var ''a'') (float_var ''b''), FloatSub (SSAVar ''d'' 1 8) (float_var ''a'') (float_var ''b''),
     FloatAdd (SSAVar ''e'' 1 8) (float_var ''b'') (float_var ''a''), FloatSub (SSAVar ''f'' 1 8) (float_var ''b'') (float_var ''a'')]"

theorem cse_keeps_values_witness:
  "fst (cse_ops float_block []) =
     [FloatAdd (SSAVar ''c'' 1 8) (float_var ''a'') (float_var ''b''), FloatSub (SSAVar ''d'' 1 8) (float_var ''a'') (float_var ''b''),
      Copy (SSAVar ''e'' 1 8) (SSAVar ''c'' 1 8), FloatSub (SSAVar ''f'' 1 8) (float_var ''b'') (float_var ''a'')] \<and>
   run_ops (pcode_sem linear_floats) (\<lambda>_. 0) 0 (\<lambda>v. if sv_name v = ''a'' then 5 else 7) (fst (cse_ops float_block [])) (SSAVar ''e'' 1 8) = 12"
proof -
  have c: "fst (cse_ops float_block []) =
     [FloatAdd (SSAVar ''c'' 1 8) (float_var ''a'') (float_var ''b''), FloatSub (SSAVar ''d'' 1 8) (float_var ''a'') (float_var ''b''),
      Copy (SSAVar ''e'' 1 8) (SSAVar ''c'' 1 8), FloatSub (SSAVar ''f'' 1 8) (float_var ''b'') (float_var ''a'')]"
    by (cases "float_var ''a'' \<le> float_var ''b''") (auto simp: float_block_def expr_key_def hm_get_def)
  have "ssa_ordered float_block" by (simp add: float_block_def)
  moreover have "float_commutes linear_floats" by (simp add: float_commutes_def linear_floats_def)
  ultimately have "run_ops (pcode_sem linear_floats) (\<lambda>_. 0) 0 (\<lambda>v. if sv_name v = ''a'' then 5 else 7) (fst (cse_ops float_block [])) =
      run_ops (pcode_sem linear_floats) (\<lambda>_. 0) 0 (\<lambda>v. if sv_name v = ''a'' then 5 else 7) float_block"
    by (rule cse_keeps_values)
  then show ?thesis unfolding c
    by (simp add: float_block_def op_result_def expr_key_def pcode_sem_def pcode_value_def foreign_op_def operand_def
        linear_floats_def commuting_def)
qed

end
