(* ===== verification/SSA_Taint.thy ===== *)
theory SSA_Taint
  imports SSA_Function
begin

text \<open>
  Taint analysis: \<open>r2ssa/src/taint.rs\<close>.

  The trait \<open>TaintPolicy\<close> is a record of its four methods; \<open>default_policy\<close> is its implementation for
  \<open>DefaultTaintPolicy\<close>. A \<open>TaintSet\<close> is a set of labels. The worklist loop has no bound in the
  source: it is a partial function into \<open>option\<close>, and that it returns is a theorem of
  \<open>SSA_Taint_Props\<close>.
\<close>

section \<open>Labels and policies\<close>

record TaintLabel =
  tl_id :: string
  tl_description :: "string option"

definition label_new :: "string \<Rightarrow> TaintLabel" where
  "label_new i = \<lparr>tl_id = i, tl_description = None\<rparr>"

definition with_description :: "string \<Rightarrow> TaintLabel \<Rightarrow> TaintLabel" where
  "with_description desc l = l\<lparr>tl_description := Some desc\<rparr>"

type_synonym TaintSet = "TaintLabel set"

record TaintPolicy =
  tp_is_source :: "SSAVar \<Rightarrow> u64 \<Rightarrow> TaintLabel list option"
  tp_is_sink :: "SSAOp \<Rightarrow> u64 \<Rightarrow> bool"
  tp_is_sanitizer :: "SSAOp \<Rightarrow> bool"
  tp_propagate :: "SSAOp \<Rightarrow> TaintSet list \<Rightarrow> TaintSet option"

text \<open>The methods a policy inherits when it does not define them.\<close>

definition no_sanitizer :: "SSAOp \<Rightarrow> bool" where
  "no_sanitizer _ = False"

definition no_propagate :: "SSAOp \<Rightarrow> TaintSet list \<Rightarrow> TaintSet option" where
  "no_propagate _ _ = None"

definition X86_64_SYSV_ARG_REGS :: "string list" where
  "X86_64_SYSV_ARG_REGS = [''rdi'', ''rsi'', ''rdx'', ''rcx'', ''r8'', ''r9'']"

definition call_arg_regs :: "ArchSpec option \<Rightarrow> string list" where
  "call_arg_regs arch =
     (case arch of
        None \<Rightarrow> []
      | Some a \<Rightarrow>
          let arch_name = to_ascii_lowercase (ar_name a);
              looks_x86 = str_contains ''x86'' arch_name;
              looks_64 = (ar_addr_size a = 8 \<or> str_contains ''64'' arch_name)
          in if looks_x86 \<and> looks_64 then X86_64_SYSV_ARG_REGS else [])"

record DefaultTaintPolicy =
  dp_sources :: "string set"
  dp_sink_calls :: bool
  dp_sink_stores :: bool

definition dp_new :: DefaultTaintPolicy where
  "dp_new = \<lparr>dp_sources = {}, dp_sink_calls = True, dp_sink_stores = True\<rparr>"

definition dp_with_source :: "string \<Rightarrow> DefaultTaintPolicy \<Rightarrow> DefaultTaintPolicy" where
  "dp_with_source nm dp = dp\<lparr>dp_sources := insert nm (dp_sources dp)\<rparr>"

definition dp_all_inputs :: DefaultTaintPolicy where
  "dp_all_inputs = \<lparr>dp_sources = {}, dp_sink_calls = True, dp_sink_stores = True\<rparr>"

definition dp_with_sink_calls :: "bool \<Rightarrow> DefaultTaintPolicy \<Rightarrow> DefaultTaintPolicy" where
  "dp_with_sink_calls enabled dp = dp\<lparr>dp_sink_calls := enabled\<rparr>"

definition dp_with_sink_stores :: "bool \<Rightarrow> DefaultTaintPolicy \<Rightarrow> DefaultTaintPolicy" where
  "dp_with_sink_stores enabled dp = dp\<lparr>dp_sink_stores := enabled\<rparr>"

definition dp_is_source :: "DefaultTaintPolicy \<Rightarrow> SSAVar \<Rightarrow> u64 \<Rightarrow> TaintLabel list option" where
  "dp_is_source dp var block_addr =
     (if sv_version var = 0 \<and> ssa_is_register var \<and> (dp_sources dp = {} \<or> sv_name var \<in> dp_sources dp)
      then Some [label_new (''input:'' @ sv_name var)]
      else None)"

definition dp_is_sink :: "DefaultTaintPolicy \<Rightarrow> SSAOp \<Rightarrow> u64 \<Rightarrow> bool" where
  "dp_is_sink dp op block_addr =
     (case op of
        Call _ \<Rightarrow> dp_sink_calls dp
      | CallInd _ \<Rightarrow> dp_sink_calls dp
      | Store _ _ _ \<Rightarrow> dp_sink_stores dp
      | _ \<Rightarrow> False)"

definition default_policy :: "DefaultTaintPolicy \<Rightarrow> TaintPolicy" where
  "default_policy dp =
     \<lparr>tp_is_source = dp_is_source dp, tp_is_sink = dp_is_sink dp, tp_is_sanitizer = no_sanitizer,
      tp_propagate = no_propagate\<rparr>"

section \<open>Results\<close>

record SinkHit =
  sh_block_addr :: u64
  sh_op_idx :: nat
  sh_op :: SSAOp
  sh_tainted_vars :: "(SSAVar \<times> TaintSet) list"

record TaintResult =
  tr_var_taints :: "(string, TaintSet) hashmap"
  tr_sink_hits :: "SinkHit list"

definition is_tainted :: "TaintResult \<Rightarrow> SSAVar \<Rightarrow> bool" where
  "is_tainted r var =
     (case hm_get (tr_var_taints r) (display_name var) of Some t \<Rightarrow> t \<noteq> {} | None \<Rightarrow> False)"

definition get_taint :: "TaintResult \<Rightarrow> SSAVar \<Rightarrow> TaintSet option" where
  "get_taint r var = hm_get (tr_var_taints r) (display_name var)"

definition has_violations :: "TaintResult \<Rightarrow> bool" where
  "has_violations r \<longleftrightarrow> tr_sink_hits r \<noteq> []"

definition num_tainted :: "TaintResult \<Rightarrow> nat" where
  "num_tainted r = length (filter (\<lambda>(_, t). t \<noteq> {}) (tr_var_taints r))"

definition tainted_vars :: "TaintResult \<Rightarrow> string list" where
  "tainted_vars r = map fst (filter (\<lambda>(_, t). t \<noteq> {}) (tr_var_taints r))"

section \<open>The engine\<close>

record 'g TaintAnalysis =
  ta_func :: "'g SSAFunction"
  ta_policy :: TaintPolicy
  ta_call_arg_regs :: "string list"

definition taint_new :: "'g SSAFunction \<Rightarrow> TaintPolicy \<Rightarrow> 'g TaintAnalysis" where
  "taint_new func policy = \<lparr>ta_func = func, ta_policy = policy, ta_call_arg_regs = []\<rparr>"

definition taint_with_arch :: "'g SSAFunction \<Rightarrow> TaintPolicy \<Rightarrow> ArchSpec option \<Rightarrow> 'g TaintAnalysis" where
  "taint_with_arch func policy arch =
     \<lparr>ta_func = func, ta_policy = policy, ta_call_arg_regs = call_arg_regs arch\<rparr>"

type_synonym taint_map = "(SSAVar, TaintSet) hashmap"
type_synonym taint_uses = "(SSAVar, (u64 \<times> UseLocation) list) hashmap"

text \<open>The set \<open>entry(v).or_default()\<close> hands out, and what \<open>extend\<close> makes of the map and the worklist:
  the variable is queued when its set grew.\<close>

definition taint_of :: "taint_map \<Rightarrow> SSAVar \<Rightarrow> TaintSet" where
  "taint_of m v = (case hm_get m v of Some t \<Rightarrow> t | None \<Rightarrow> {})"

definition extend_taint :: "SSAVar \<Rightarrow> TaintSet \<Rightarrow> taint_map \<times> SSAVar list \<Rightarrow> taint_map \<times> SSAVar list" where
  "extend_taint v labels = (\<lambda>(var_taints, worklist).
     let taint = taint_of var_taints v \<union> labels
     in (hm_insert v taint var_taints,
         if card taint > card (taint_of var_taints v) then worklist @ [v] else worklist))"

definition source_use_location :: "SourceSite \<Rightarrow> UseLocation" where
  "source_use_location site =
     (case site of
        SourcePhi phi_idx src_idx _ \<Rightarrow> UsePhi phi_idx src_idx
      | SourceOp op_idx src_idx \<Rightarrow> UseOp op_idx src_idx)"

definition taint_use_map :: "'g TaintAnalysis \<Rightarrow> taint_uses" where
  "taint_use_map ta =
     foldl (\<lambda>uses block.
         foldl (\<lambda>uses (var, site).
             hm_insert var (get_names uses var @ [(fb_addr block, source_use_location site)]) uses)
           uses (block_for_each_source block))
       [] (fn_blocks_in_order (ta_func ta))"

definition maybe_add_source ::
  "'g TaintAnalysis \<Rightarrow> SSAVar \<Rightarrow> u64 \<Rightarrow> taint_map \<times> SSAVar list \<Rightarrow> taint_map \<times> SSAVar list" where
  "maybe_add_source ta var block_addr st =
     (case tp_is_source (ta_policy ta) var block_addr of
        Some labels \<Rightarrow> extend_taint var (set labels) st
      | None \<Rightarrow> st)"

definition initialize_sources :: "'g TaintAnalysis \<Rightarrow> taint_map \<times> SSAVar list \<Rightarrow> taint_map \<times> SSAVar list" where
  "initialize_sources ta st =
     foldl (\<lambda>st block.
         foldl (\<lambda>st (var, _). maybe_add_source ta var (fb_addr block) st) st (block_for_each_source block))
       st (fn_blocks_in_order (ta_func ta))"

definition propagate_to_phi ::
  "'g TaintAnalysis \<Rightarrow> u64 \<Rightarrow> nat \<Rightarrow> TaintSet \<Rightarrow> taint_map \<times> SSAVar list \<Rightarrow> taint_map \<times> SSAVar list" where
  "propagate_to_phi ta block_addr phi_idx current_taint st =
     (case fn_get_block (ta_func ta) block_addr of
        Some block \<Rightarrow>
          if phi_idx < length (fb_phis block)
          then extend_taint (pn_dst (fb_phis block ! phi_idx)) current_taint st
          else st
      | None \<Rightarrow> st)"

definition propagate_to_op ::
  "'g TaintAnalysis \<Rightarrow> u64 \<Rightarrow> nat \<Rightarrow> TaintSet \<Rightarrow> taint_map \<times> SSAVar list \<Rightarrow> taint_map \<times> SSAVar list" where
  "propagate_to_op ta block_addr op_idx current_taint st =
     (case fn_get_block (ta_func ta) block_addr of
        Some block \<Rightarrow>
          if op_idx < length (fb_ops block)
          then let op = fb_ops block ! op_idx
               in if tp_is_sanitizer (ta_policy ta) op then st
                  else case sop_dst op of
                    Some dst \<Rightarrow>
                      let source_taints = List.map_filter (\<lambda>src. hm_get (fst st) src) (sop_sources op);
                          new_taint = (case tp_propagate (ta_policy ta) op source_taints of
                                         Some custom \<Rightarrow> custom
                                       | None \<Rightarrow> current_taint)
                      in extend_taint dst new_taint st
                  | None \<Rightarrow> st
          else st
      | None \<Rightarrow> st)"

definition propagate_use ::
  "'g TaintAnalysis \<Rightarrow> TaintSet \<Rightarrow> taint_map \<times> SSAVar list \<Rightarrow> u64 \<times> UseLocation \<Rightarrow> taint_map \<times> SSAVar list" where
  "propagate_use ta new_labels st = (\<lambda>(block_addr, use_loc).
     case use_loc of
       UsePhi phi_idx _ \<Rightarrow> propagate_to_phi ta block_addr phi_idx new_labels st
     | UseOp op_idx _ \<Rightarrow> propagate_to_op ta block_addr op_idx new_labels st)"

record taint_state =
  ts_taints :: taint_map
  ts_worklist :: "SSAVar list"
  ts_propagated :: taint_map

text \<open>One round of \<open>propagate\<close>, for the variable that was popped; \<open>worklist\<close> is the rest of the
  queue.\<close>

definition propagate_round :: "'g TaintAnalysis \<Rightarrow> taint_uses \<Rightarrow> SSAVar \<Rightarrow> SSAVar list \<Rightarrow> taint_state \<Rightarrow> taint_state" where
  "propagate_round ta use_map var worklist s =
     (let current_taint = taint_of (ts_taints s) var
      in if current_taint = {} then s\<lparr>ts_worklist := worklist\<rparr>
         else let already_propagated = taint_of (ts_propagated s) var;
                  new_labels = current_taint - already_propagated
              in if new_labels = {}
                 then s\<lparr>ts_worklist := worklist, ts_propagated := hm_insert var already_propagated (ts_propagated s)\<rparr>
                 else let propagated = hm_insert var (already_propagated \<union> new_labels) (ts_propagated s);
                          st = (case hm_get use_map var of
                                  None \<Rightarrow> (ts_taints s, worklist)
                                | Some uses \<Rightarrow> foldl (propagate_use ta new_labels) (ts_taints s, worklist) uses)
                      in \<lparr>ts_taints = fst st, ts_worklist = snd st, ts_propagated = propagated\<rparr>)"

partial_function (option) propagate_loop ::
  "'g TaintAnalysis \<Rightarrow> taint_uses \<Rightarrow> taint_state \<Rightarrow> taint_state option"
where
  "propagate_loop ta use_map s =
     (case ts_worklist s of
        [] \<Rightarrow> Some s
      | var # worklist \<Rightarrow> propagate_loop ta use_map (propagate_round ta use_map var worklist s))"

section \<open>Sinks\<close>

definition canonical_x86_64_arg_reg :: "string \<Rightarrow> string option" where
  "canonical_x86_64_arg_reg nm =
     (let base = to_ascii_lowercase (takeWhile (\<lambda>c. c \<noteq> CHR ''_'') nm)
      in if base \<in> {''rdi'', ''edi'', ''di'', ''dil''} then Some ''rdi''
         else if base \<in> {''rsi'', ''esi'', ''si'', ''sil''} then Some ''rsi''
         else if base \<in> {''rdx'', ''edx'', ''dx'', ''dl'', ''dh''} then Some ''rdx''
         else if base \<in> {''rcx'', ''ecx'', ''cx'', ''cl'', ''ch''} then Some ''rcx''
         else if base \<in> {''r8'', ''r8d'', ''r8w'', ''r8b''} then Some ''r8''
         else if base \<in> {''r9'', ''r9d'', ''r9w'', ''r9b''} then Some ''r9''
         else None)"

definition is_call_sink :: "SSAOp \<Rightarrow> bool" where
  "is_call_sink op = (case op of Call _ \<Rightarrow> True | CallInd _ \<Rightarrow> True | _ \<Rightarrow> False)"

text \<open>The backward scan from a call, over the operations before it, latest first.\<close>

fun scan_call_args :: "'g TaintAnalysis \<Rightarrow> SSAOp list \<Rightarrow> (string, SSAVar) hashmap \<Rightarrow> (string, SSAVar) hashmap" where
  "scan_call_args ta [] found = found"
| "scan_call_args ta (prev # ops) found =
     (if is_call_sink prev then found
      else case sop_dst prev of
        None \<Rightarrow> scan_call_args ta ops found
      | Some dst \<Rightarrow>
          (case canonical_x86_64_arg_reg (sv_name dst) of
             None \<Rightarrow> scan_call_args ta ops found
           | Some canonical \<Rightarrow>
               if canonical \<notin> set (ta_call_arg_regs ta) then scan_call_args ta ops found
               else scan_call_args ta ops
                      (if hm_get found canonical = None then hm_insert canonical dst found else found)))"

fun ordered_call_args :: "string list \<Rightarrow> (string, SSAVar) hashmap \<Rightarrow> SSAVar list" where
  "ordered_call_args [] found = []"
| "ordered_call_args (reg # regs) found =
     (case hm_get found reg of
        Some var \<Rightarrow> var # ordered_call_args regs (filter (\<lambda>(k, _). k \<noteq> reg) found)
      | None \<Rightarrow> ordered_call_args regs found)"

definition collect_call_arg_vars :: "'g TaintAnalysis \<Rightarrow> FunctionSSABlock \<Rightarrow> nat \<Rightarrow> SSAVar list" where
  "collect_call_arg_vars ta block call_op_idx =
     (if ta_call_arg_regs ta = [] \<or> call_op_idx = 0 then []
      else ordered_call_args (ta_call_arg_regs ta)
             (scan_call_args ta (rev (take call_op_idx (fb_ops block))) []))"

text \<open>\<open>retain(|var| seen.insert(var))\<close>: the first occurrence of each variable stays.\<close>

fun retain_unseen :: "'a set \<Rightarrow> 'a list \<Rightarrow> 'a list" where
  "retain_unseen seen [] = []"
| "retain_unseen seen (v # vs) =
     (if v \<in> seen then retain_unseen seen vs else v # retain_unseen (insert v seen) vs)"

definition sink_sources_for_op :: "'g TaintAnalysis \<Rightarrow> FunctionSSABlock \<Rightarrow> nat \<Rightarrow> SSAOp \<Rightarrow> SSAVar list" where
  "sink_sources_for_op ta block op_idx op =
     retain_unseen {}
       (sop_sources op @ (if is_call_sink op then collect_call_arg_vars ta block op_idx else []))"

definition sink_hit_at :: "'g TaintAnalysis \<Rightarrow> taint_map \<Rightarrow> FunctionSSABlock \<Rightarrow> nat \<times> SSAOp \<Rightarrow> SinkHit option" where
  "sink_hit_at ta var_taints block = (\<lambda>(op_idx, op).
     if tp_is_sink (ta_policy ta) op (fb_addr block)
     then let tainted = List.map_filter (\<lambda>src.
                case hm_get var_taints src of
                  Some taint \<Rightarrow> if taint \<noteq> {} then Some (src, taint) else None
                | None \<Rightarrow> None) (sink_sources_for_op ta block op_idx op)
          in if tainted \<noteq> []
             then Some \<lparr>sh_block_addr = fb_addr block, sh_op_idx = op_idx, sh_op = op, sh_tainted_vars = tainted\<rparr>
             else None
     else None)"

definition find_sink_hits :: "'g TaintAnalysis \<Rightarrow> taint_map \<Rightarrow> SinkHit list" where
  "find_sink_hits ta var_taints =
     concat (map (\<lambda>block. List.map_filter (sink_hit_at ta var_taints block) (enumerate 0 (fb_ops block)))
       (fn_blocks_in_order (ta_func ta)))"

section \<open>The whole analysis\<close>

definition by_display_name :: "taint_map \<Rightarrow> (string, TaintSet) hashmap" where
  "by_display_name var_taints =
     foldl (\<lambda>m (var, taint). hm_insert (display_name var) taint m) [] var_taints"

definition taint_analyze :: "'g TaintAnalysis \<Rightarrow> TaintResult option" where
  "taint_analyze ta =
     (let use_map = taint_use_map ta;
          st = initialize_sources ta ([], [])
      in map_option (\<lambda>s.
           \<lparr>tr_var_taints = by_display_name (ts_taints s), tr_sink_hits = find_sink_hits ta (ts_taints s)\<rparr>)
           (propagate_loop ta use_map \<lparr>ts_taints = fst st, ts_worklist = snd st, ts_propagated = []\<rparr>))"

end
