(* ===== verification/SSA_Taint_Props.thy ===== *)
theory SSA_Taint_Props
  imports SSA_Taint SSA_Copy_Props
begin

text \<open>
  What the taint analysis computes. The labels that may reach a variable are an inductive relation
  over the phis and operations of the function; the worklist returns and its map is exactly that
  relation. What the analysis asks of a policy, that it keeps to the default propagation, is a
  locale, interpreted on the default policy.
\<close>

section \<open>Flow of labels\<close>

inductive flows :: "'g TaintAnalysis \<Rightarrow> SSAVar \<Rightarrow> TaintLabel \<Rightarrow> bool" for ta where
  flow_source: "b \<in> set (fn_blocks_in_order (ta_func ta)) \<Longrightarrow> (v, site) \<in> set (block_for_each_source b) \<Longrightarrow>
    tp_is_source (ta_policy ta) v (fb_addr b) = Some ls \<Longrightarrow> l \<in> set ls \<Longrightarrow> flows ta v l"
| flow_phi: "b \<in> set (fn_blocks_in_order (ta_func ta)) \<Longrightarrow> phi \<in> set (fb_phis b) \<Longrightarrow>
    v \<in> snd ` set (pn_sources phi) \<Longrightarrow> flows ta v l \<Longrightarrow> flows ta (pn_dst phi) l"
| flow_op: "b \<in> set (fn_blocks_in_order (ta_func ta)) \<Longrightarrow> op \<in> set (fb_ops b) \<Longrightarrow>
    \<not> tp_is_sanitizer (ta_policy ta) op \<Longrightarrow> v \<in> set (sop_sources op) \<Longrightarrow> sop_dst op = Some d \<Longrightarrow>
    flows ta v l \<Longrightarrow> flows ta d l"

text \<open>The destination a use passes its labels to.\<close>

fun use_target :: "'g TaintAnalysis \<Rightarrow> u64 \<times> UseLocation \<Rightarrow> SSAVar option" where
  "use_target ta (addr, UsePhi i _) =
     (case fn_get_block (ta_func ta) addr of
        Some b \<Rightarrow> if i < length (fb_phis b) then Some (pn_dst (fb_phis b ! i)) else None
      | None \<Rightarrow> None)"
| "use_target ta (addr, UseOp i _) =
     (case fn_get_block (ta_func ta) addr of
        Some b \<Rightarrow>
          if i < length (fb_ops b) \<and> \<not> tp_is_sanitizer (ta_policy ta) (fb_ops b ! i)
          then sop_dst (fb_ops b ! i) else None
      | None \<Rightarrow> None)"

definition targets :: "'g TaintAnalysis \<Rightarrow> SSAVar \<Rightarrow> SSAVar list" where
  "targets ta v = List.map_filter (use_target ta) (get_names (taint_use_map ta) v)"

text \<open>The use index lists every use at its site.\<close>

lemma foldl_concat: "foldl (\<lambda>s x. foldl g s (h x)) s xs = foldl g s (concat (map h xs))"
  by (induction xs arbitrary: s) auto

lemma get_names_push:
  "get_names (foldl (\<lambda>m (k, x). hm_insert k (get_names m k @ [x]) m) m ps) v =
     get_names m v @ map snd (filter (\<lambda>p. fst p = v) ps)"
  by (induction ps arbitrary: m) (auto simp: get_names_def hm_get_insert)

lemma use_location_source: "source_use_location site = use_location site"
  by (cases site) (simp_all add: source_use_location_def)

lemma taint_use_map_spec:
  "get_names (taint_use_map ta) v = map snd (filter (\<lambda>u. fst u = v) (all_uses (ta_func ta)))"
proof -
  let ?g = "\<lambda>m (k, x). hm_insert k (get_names m k @ [x]) m"
  let ?h = "\<lambda>b. map (\<lambda>(var, site). (var, fb_addr b, use_location site)) (block_for_each_source b)"
  have "taint_use_map ta = foldl (\<lambda>m b. foldl ?g m (?h b)) [] (fn_blocks_in_order (ta_func ta))"
    by (simp add: taint_use_map_def foldl_map use_location_source split_beta')
  also have "\<dots> = foldl ?g [] (concat (map ?h (fn_blocks_in_order (ta_func ta))))"
    by (rule foldl_concat)
  also have "concat (map ?h (fn_blocks_in_order (ta_func ta))) = all_uses (ta_func ta)"
    by (simp add: all_uses_def fn_for_each_source_def map_concat comp_def split_beta')
  finally show ?thesis by (simp only: get_names_push) (simp add: get_names_def hm_get_def)
qed

lemma in_all_uses:
  "(v, addr, loc) \<in> set (all_uses f) \<longleftrightarrow>
     (\<exists>b site. b \<in> set (fn_blocks_in_order f) \<and> (v, site) \<in> set (block_for_each_source b) \<and>
        addr = fb_addr b \<and> loc = use_location site)"
  by (force simp: all_uses_def fn_for_each_source_def)

lemma set_enumerate0: "set (enumerate 0 xs) = (\<lambda>i. (i, xs ! i)) ` {..<length xs}"
  by (auto simp: in_set_enumerate_eq image_iff)

lemma in_phi_sources:
  "(v, site) \<in> set (for_each_phi_source b) \<longleftrightarrow>
     (\<exists>i j p. site = SourcePhi i j p \<and> i < length (fb_phis b) \<and> j < length (pn_sources (fb_phis b ! i)) \<and>
        pn_sources (fb_phis b ! i) ! j = (p, v))"
  by (auto simp: for_each_phi_source_def set_enumerate0 image_image image_iff split_beta)

lemma in_op_sources:
  "(v, site) \<in> set (for_each_op_source b) \<longleftrightarrow>
     (\<exists>i j. site = SourceOp i j \<and> i < length (fb_ops b) \<and> j < length (sop_sources (fb_ops b ! i)) \<and>
        sop_sources (fb_ops b ! i) ! j = v)"
  by (auto simp: for_each_op_source_def set_enumerate0 image_image image_iff)

lemmas in_block_sources = block_for_each_source_def set_append Un_iff in_phi_sources in_op_sources

lemma ex_site: "(\<exists>site. P site) \<longleftrightarrow> (\<exists>i j p. P (SourcePhi i j p)) \<or> (\<exists>i j. P (SourceOp i j))"
  by (metis SourceSite.exhaust)

lemma in_blocks_in_order:
  "b \<in> set (fn_blocks_in_order f) \<longleftrightarrow> (\<exists>a \<in> set (fn_block_order f). fn_get_block f a = Some b)"
  by (simp add: fn_blocks_in_order_def in_set_map_filter fn_get_block_def)

lemma block_at_own_addr:
  assumes "listed_blocks f" "b \<in> set (fn_blocks_in_order f)"
  shows "fn_get_block f (fb_addr b) = Some b"
  using assms listed_blocksD [OF assms(1)] by (auto simp: in_blocks_in_order)

lemma in_targets:
  assumes "listed_blocks (ta_func ta)"
  shows "d \<in> set (targets ta v) \<longleftrightarrow>
    (\<exists>b \<in> set (fn_blocks_in_order (ta_func ta)).
      (\<exists>phi \<in> set (fb_phis b). v \<in> snd ` set (pn_sources phi) \<and> d = pn_dst phi) \<or>
      (\<exists>op \<in> set (fb_ops b). \<not> tp_is_sanitizer (ta_policy ta) op \<and> v \<in> set (sop_sources op) \<and> sop_dst op = Some d))"
    (is "_ \<longleftrightarrow> (\<exists>b \<in> _. ?phi b \<or> ?op b)")
proof -
  have "d \<in> set (targets ta v) \<longleftrightarrow>
      (\<exists>b site. b \<in> set (fn_blocks_in_order (ta_func ta)) \<and> (v, site) \<in> set (block_for_each_source b) \<and>
        use_target ta (fb_addr b, use_location site) = Some d)"
    unfolding targets_def taint_use_map_spec in_set_map_filter by (force simp: in_all_uses)
  moreover have "(\<exists>site. (v, site) \<in> set (block_for_each_source b) \<and>
      use_target ta (fb_addr b, use_location site) = Some d) \<longleftrightarrow> ?phi b \<or> ?op b"
    if "b \<in> set (fn_blocks_in_order (ta_func ta))" for b
  proof -
    have g: "fn_get_block (ta_func ta) (fb_addr b) = Some b" by (rule block_at_own_addr [OF assms that])
    have p: "?phi b \<longleftrightarrow> (\<exists>i j p. i < length (fb_phis b) \<and> j < length (pn_sources (fb_phis b ! i)) \<and>
        pn_sources (fb_phis b ! i) ! j = (p, v) \<and> d = pn_dst (fb_phis b ! i))"
      by (force simp: in_set_conv_nth image_iff)
    have o: "?op b \<longleftrightarrow> (\<exists>i j. i < length (fb_ops b) \<and> \<not> tp_is_sanitizer (ta_policy ta) (fb_ops b ! i) \<and>
        j < length (sop_sources (fb_ops b ! i)) \<and> sop_sources (fb_ops b ! i) ! j = v \<and> sop_dst (fb_ops b ! i) = Some d)"
      by (force simp: in_set_conv_nth)
    show ?thesis unfolding p o in_block_sources ex_site by (auto simp: g split: if_splits)
  qed
  ultimately show ?thesis by blast
qed

section \<open>Growing the map\<close>

lemma taint_of_insert: "taint_of (hm_insert v t m) w = (if w = v then t else taint_of m w)"
  by (simp add: taint_of_def hm_get_insert)

definition tainted_pairs :: "taint_map \<Rightarrow> (SSAVar \<times> TaintLabel) set" where
  "tainted_pairs m = {(v, l). l \<in> taint_of m v}"

text \<open>One extension: the map grows by the labels, and the variable is queued exactly when it did.\<close>

lemma extend_taint_spec:
  assumes "finite (taint_of m v)" "finite L"
  shows "extend_taint v L (m, w) =
    (hm_insert v (taint_of m v \<union> L) m, if L \<subseteq> taint_of m v then w else w @ [v])"
proof -
  have "card (taint_of m v) < card (taint_of m v \<union> L) \<longleftrightarrow> \<not> L \<subseteq> taint_of m v"
    using assms by (metis card_mono finite_UnI leD psubset_card_mono psubsetI sup.absorb_iff1 sup.cobounded1)
  then show ?thesis by (simp add: extend_taint_def Let_def)
qed

text \<open>Extending a whole list of variables, with the bound on the queue that makes the loop end:
  every entry that is queued is paid for by a pair that was missing.\<close>

definition grown :: "(SSAVar \<Rightarrow> TaintSet) \<Rightarrow> taint_map \<times> SSAVar list \<Rightarrow> taint_map \<times> SSAVar list \<Rightarrow> bool" where
  "grown add st st' \<longleftrightarrow>
     (\<forall>v. taint_of (fst st') v = taint_of (fst st) v \<union> add v) \<and>
     (\<forall>v. v \<in> set (snd st') \<longleftrightarrow> v \<in> set (snd st) \<or> \<not> add v \<subseteq> taint_of (fst st) v) \<and>
     (\<forall>U. finite U \<longrightarrow> tainted_pairs (fst st') \<subseteq> U \<longrightarrow>
        length (snd st') + card (U - tainted_pairs (fst st')) \<le> length (snd st) + card (U - tainted_pairs (fst st)))"

lemma grown_refl: "grown (\<lambda>_. {}) st st"
  by (simp add: grown_def)

lemma grownD:
  assumes "grown add st st'"
  shows "taint_of (fst st') v = taint_of (fst st) v \<union> add v"
    and "v \<in> set (snd st') \<longleftrightarrow> v \<in> set (snd st) \<or> \<not> add v \<subseteq> taint_of (fst st) v"
    and "finite U \<Longrightarrow> tainted_pairs (fst st') \<subseteq> U \<Longrightarrow>
      length (snd st') + card (U - tainted_pairs (fst st')) \<le> length (snd st) + card (U - tainted_pairs (fst st))"
  using assms by (simp_all add: grown_def)

lemma grown_trans:
  assumes "grown add st st1" "grown add' st1 st2"
  shows "grown (\<lambda>v. add v \<union> add' v) st st2"
  unfolding grown_def
proof (intro conjI allI impI)
  fix U :: "(SSAVar \<times> TaintLabel) set" assume U: "finite U" "tainted_pairs (fst st2) \<subseteq> U"
  have "tainted_pairs (fst st1) \<subseteq> tainted_pairs (fst st2)"
    by (auto simp: tainted_pairs_def grownD(1) [OF assms(2)])
  then show "length (snd st2) + card (U - tainted_pairs (fst st2)) \<le> length (snd st) + card (U - tainted_pairs (fst st))"
    using order_trans [OF grownD(3) [OF assms(2) U] grownD(3) [OF assms(1) U(1)]] U(2) by blast
qed (auto simp: grownD(1,2) [OF assms(1)] grownD(1,2) [OF assms(2)])

lemma grown_extend:
  assumes "finite (taint_of (fst st) v)" "finite L"
  shows "grown (\<lambda>w. if w = v then L else {}) st (extend_taint v L st)"
proof -
  obtain m w where st: "st = (m, w)" by (cases st)
  let ?m = "hm_insert v (taint_of m v \<union> L) m"
  have e: "extend_taint v L st = (?m, if L \<subseteq> taint_of m v then w else w @ [v])"
    using extend_taint_spec [of m v L w] assms st by simp
  have pairs: "tainted_pairs ?m = tainted_pairs m \<union> {v} \<times> L"
    by (auto simp: tainted_pairs_def taint_of_insert split: if_splits)
  have "Suc (card (U - tainted_pairs ?m)) \<le> card (U - tainted_pairs m)"
    if "finite U" "tainted_pairs ?m \<subseteq> U" "\<not> L \<subseteq> taint_of m v" for U
  proof -
    have "U - tainted_pairs ?m \<subset> U - tainted_pairs m"
      using that(2,3) pairs by (auto simp: tainted_pairs_def)
    then show ?thesis using that(1) by (simp add: Suc_leI psubset_card_mono)
  qed
  moreover have "tainted_pairs ?m = tainted_pairs m" if "L \<subseteq> taint_of m v"
    using pairs that by (auto simp: tainted_pairs_def)
  ultimately have "length (snd (extend_taint v L st)) + card (U - tainted_pairs (fst (extend_taint v L st)))
      \<le> length (snd st) + card (U - tainted_pairs (fst st))"
    if "finite U" "tainted_pairs (fst (extend_taint v L st)) \<subseteq> U" for U
    using that unfolding e by (cases "L \<subseteq> taint_of m v") (simp_all add: st)
  then show ?thesis unfolding grown_def by (simp add: e) (simp add: st taint_of_insert)
qed

lemma grown_fold:
  assumes "\<And>v. finite (taint_of (fst st) v)" "\<And>x st'. x \<in> set xs \<Longrightarrow> (\<And>v. finite (taint_of (fst st') v)) \<Longrightarrow> grown (add x) st' (g st' x)"
    and "\<And>x v. x \<in> set xs \<Longrightarrow> finite (add x v)"
  shows "grown (\<lambda>v. \<Union>x \<in> set xs. add x v) st (foldl g st xs)"
  using assms
proof (induction xs arbitrary: st)
  case (Cons x xs)
  have g: "grown (add x) st (g st x)" using Cons.prems(1,2) by simp
  then have "finite (taint_of (fst (g st x)) v)" for v
    using Cons.prems(1,3) by (auto simp: grown_def)
  then have "grown (\<lambda>v. \<Union>x \<in> set xs. add x v) (g st x) (foldl g (g st x) xs)"
    using Cons.prems(2,3) by (intro Cons.IH) auto
  then show ?case using grown_trans [OF g] by simp
qed (simp add: grown_refl)

text \<open>The keys of the map stay within a set.\<close>

definition keyed :: "SSAVar set \<Rightarrow> taint_map \<Rightarrow> bool" where
  "keyed K m \<longleftrightarrow> hm_ok m \<and> fst ` set m \<subseteq> K"

lemma keyed_extend: "v \<in> K \<Longrightarrow> keyed K (fst st) \<Longrightarrow> keyed K (fst (extend_taint v L st))"
  by (auto simp: keyed_def extend_taint_def split_beta Let_def hm_ok_insert fst_hm_insert)

lemma foldl_keeps:
  assumes "Q s" "\<And>x s. x \<in> set xs \<Longrightarrow> Q s \<Longrightarrow> Q (g s x)"
  shows "Q (foldl g s xs)"
  using assms by (induction xs arbitrary: s) auto

section \<open>The labels there are\<close>

definition source_labels :: "'g TaintAnalysis \<Rightarrow> SSAVar \<Rightarrow> TaintSet" where
  "source_labels ta v =
     \<Union> ((\<lambda>(addr, w, site). if v = w then (case tp_is_source (ta_policy ta) w addr of Some ls \<Rightarrow> set ls | None \<Rightarrow> {}) else {})
        ` set (fn_for_each_source (ta_func ta)))"

lemma finite_source_labels: "finite (source_labels ta v)"
  by (auto simp: source_labels_def split: option.splits)

lemma in_source_labels:
  "l \<in> source_labels ta v \<longleftrightarrow>
     (\<exists>b site ls. b \<in> set (fn_blocks_in_order (ta_func ta)) \<and> (v, site) \<in> set (block_for_each_source b) \<and>
        tp_is_source (ta_policy ta) v (fb_addr b) = Some ls \<and> l \<in> set ls)"
  by (auto simp: source_labels_def fn_for_each_source_def split: option.splits if_splits) force+

text \<open>The variables and labels of a function are finitely many, so the relation is finite.\<close>

definition flow_vars :: "'g SSAFunction \<Rightarrow> SSAVar set" where
  "flow_vars f = fst ` set (all_uses f) \<union>
     (\<Union>b \<in> set (fn_blocks_in_order f). pn_dst ` set (fb_phis b) \<union> {d. \<exists>op \<in> set (fb_ops b). sop_dst op = Some d})"

lemma finite_flow_vars: "finite (flow_vars f)"
proof -
  have "{d. \<exists>op \<in> set ops. sop_dst op = Some d} = set (List.map_filter sop_dst ops)" for ops
    by (auto simp: in_set_map_filter)
  then show ?thesis by (simp add: flow_vars_def)
qed

lemma flows_bounded:
  assumes "flows ta v l"
  shows "v \<in> flow_vars (ta_func ta) \<and> l \<in> (\<Union>w \<in> flow_vars (ta_func ta). source_labels ta w)"
  using assms
proof induction
  case (flow_source b v site ls l)
  then have "v \<in> flow_vars (ta_func ta)"
    unfolding flow_vars_def using in_all_uses [of v "fb_addr b" "use_location site" "ta_func ta"] by force
  moreover have "l \<in> source_labels ta v" using flow_source by (auto simp: in_source_labels)
  ultimately show ?case by blast
qed (auto simp: flow_vars_def)

lemma finite_flows: "finite {(v, l). flows ta v l}"
proof (rule finite_subset)
  show "{(v, l). flows ta v l} \<subseteq> flow_vars (ta_func ta) \<times> (\<Union>w \<in> flow_vars (ta_func ta). source_labels ta w)"
    using flows_bounded by blast
qed (simp add: finite_flow_vars finite_source_labels)

lemma finite_flows_of: "finite {l. flows ta v l}"
  using finite_imageI [OF finite_flows, of snd ta] by (rule rev_finite_subset) force

section \<open>The worklist\<close>

definition taint_inv :: "'g TaintAnalysis \<Rightarrow> taint_state \<Rightarrow> bool" where
  "taint_inv ta s \<longleftrightarrow>
     (\<forall>v. taint_of (ts_taints s) v \<subseteq> {l. flows ta v l}) \<and>
     (\<forall>v. source_labels ta v \<subseteq> taint_of (ts_taints s) v) \<and>
     (\<forall>v. taint_of (ts_propagated s) v \<subseteq> taint_of (ts_taints s) v) \<and>
     (\<forall>v. \<forall>d \<in> set (targets ta v). taint_of (ts_propagated s) v \<subseteq> taint_of (ts_taints s) d) \<and>
     (\<forall>v. taint_of (ts_taints s) v \<subseteq> taint_of (ts_propagated s) v \<or> v \<in> set (ts_worklist s)) \<and>
     keyed (flow_vars (ta_func ta)) (ts_taints s)"

definition taint_measure :: "'g TaintAnalysis \<Rightarrow> taint_state \<Rightarrow> nat" where
  "taint_measure ta s = length (ts_worklist s) + card ({(v, l). flows ta v l} - tainted_pairs (ts_taints s))"

lemma taint_invD:
  assumes "taint_inv ta s"
  shows "taint_of (ts_taints s) v \<subseteq> {l. flows ta v l}"
    and "source_labels ta v \<subseteq> taint_of (ts_taints s) v"
    and "taint_of (ts_propagated s) v \<subseteq> taint_of (ts_taints s) v"
    and "d \<in> set (targets ta v) \<Longrightarrow> taint_of (ts_propagated s) v \<subseteq> taint_of (ts_taints s) d"
    and "taint_of (ts_taints s) v \<subseteq> taint_of (ts_propagated s) v \<or> v \<in> set (ts_worklist s)"
    and "keyed (flow_vars (ta_func ta)) (ts_taints s)"
  using assms by (simp_all add: taint_inv_def)

lemma taint_inv_finite: "taint_inv ta s \<Longrightarrow> finite (taint_of (ts_taints s) v)"
  by (rule finite_subset [OF taint_invD(1) finite_flows_of])

lemma flows_target:
  assumes "listed_blocks (ta_func ta)" "d \<in> set (targets ta v)" "flows ta v l"
  shows "flows ta d l"
  using assms(2,3) unfolding in_targets [OF assms(1)] by (auto intro: flow_phi flow_op)

text \<open>With an empty queue the map is the relation.\<close>

lemma taint_inv_final:
  assumes "listed_blocks (ta_func ta)" "taint_inv ta s" "ts_worklist s = []"
  shows "taint_of (ts_taints s) v = {l. flows ta v l}"
proof -
  have closed: "taint_of (ts_taints s) v \<subseteq> taint_of (ts_taints s) d" if "d \<in> set (targets ta v)" for v d
    using taint_invD(4) [OF assms(2) that] taint_invD(5) [OF assms(2), of v] assms(3) by auto
  have "l \<in> taint_of (ts_taints s) v" if "flows ta v l" for v l
    using that
  proof induction
    case (flow_source b v site ls l)
    then have "l \<in> source_labels ta v" by (auto simp: in_source_labels)
    then show ?case using assms(2) by (auto simp: taint_inv_def)
  next
    case (flow_phi b phi v l)
    then have "pn_dst phi \<in> set (targets ta v)" by (auto simp: in_targets [OF assms(1)])
    then show ?case using closed flow_phi.IH by blast
  next
    case (flow_op b op v d l)
    then have "d \<in> set (targets ta v)" by (auto simp: in_targets [OF assms(1)])
    then show ?case using closed flow_op.IH by blast
  qed
  then show ?thesis using assms(2) by (auto simp: taint_inv_def)
qed

lemma initialize_sources_grown: "grown (source_labels ta) ([], []) (initialize_sources ta ([], []))"
proof -
  let ?g = "\<lambda>st (addr, v, site). maybe_add_source ta v addr st"
  let ?add = "\<lambda>(addr, w, site) v. if v = w then (case tp_is_source (ta_policy ta) w addr of Some ls \<Rightarrow> set ls | None \<Rightarrow> {}) else {}"
  have "initialize_sources ta st = foldl (\<lambda>st b. foldl ?g st (map (Pair (fb_addr b)) (block_for_each_source b)))
      st (fn_blocks_in_order (ta_func ta))" for st
    by (simp add: initialize_sources_def foldl_map split_beta')
  then have i: "initialize_sources ta st = foldl ?g st (fn_for_each_source (ta_func ta))" for st
    by (simp only: foldl_concat fn_for_each_source_def)
  have "grown (\<lambda>v. \<Union>x \<in> set (fn_for_each_source (ta_func ta)). ?add x v) ([], []) (foldl ?g ([], []) (fn_for_each_source (ta_func ta)))"
  proof (rule grown_fold)
    fix x :: "u64 \<times> SSAVar \<times> SourceSite" and st' :: "taint_map \<times> SSAVar list"
    assume "\<And>v. finite (taint_of (fst st') v)"
    moreover obtain a w site where x: "x = (a, w, site)" by (cases x)
    ultimately show "grown (?add x) st' (?g st' x)"
      using grown_extend [of st' w] grown_refl [of st']
      by (cases "tp_is_source (ta_policy ta) w a") (simp_all add: maybe_add_source_def cong: if_cong)
  qed (auto simp: taint_of_def hm_get_def split: option.splits)
  moreover have "(\<lambda>v. \<Union>x \<in> set (fn_for_each_source (ta_func ta)). ?add x v) = source_labels ta"
    by (rule ext) (simp add: source_labels_def split_beta')
  ultimately show ?thesis by (simp add: i)
qed

lemma initialize_sources_keyed: "keyed (flow_vars (ta_func ta)) (fst (initialize_sources ta ([], [])))"
proof -
  let ?Q = "\<lambda>st :: taint_map \<times> SSAVar list. keyed (flow_vars (ta_func ta)) (fst st)"
  show ?thesis
    unfolding initialize_sources_def
  proof (rule foldl_keeps [of ?Q])
    show "?Q ([], [])" by (simp add: keyed_def hm_ok_def)
    fix b and st :: "taint_map \<times> SSAVar list" assume b: "b \<in> set (fn_blocks_in_order (ta_func ta))" and st: "?Q st"
    show "?Q (foldl (\<lambda>st (var, _). maybe_add_source ta var (fb_addr b) st) st (block_for_each_source b))"
    proof (rule foldl_keeps [of ?Q, OF st])
      fix x and st :: "taint_map \<times> SSAVar list" assume "x \<in> set (block_for_each_source b)" "?Q st"
      moreover obtain v site where x: "x = (v, site)" by (cases x)
      ultimately have "v \<in> flow_vars (ta_func ta)"
        unfolding flow_vars_def using b in_all_uses [of v "fb_addr b" "use_location site" "ta_func ta"] by force
      then show "?Q ((\<lambda>st (var, _). maybe_add_source ta var (fb_addr b) st) st x)"
        using \<open>?Q st\<close> keyed_extend by (simp add: x maybe_add_source_def split: option.splits)
    qed
  qed
qed

lemma targets_flow_vars: "listed_blocks (ta_func ta) \<Longrightarrow> set (targets ta v) \<subseteq> flow_vars (ta_func ta)"
  by (fastforce simp: in_targets flow_vars_def)

lemma taint_inv_start:
  "taint_inv ta \<lparr>ts_taints = fst (initialize_sources ta ([], [])), ts_worklist = snd (initialize_sources ta ([], [])),
     ts_propagated = []\<rparr>"
proof -
  note g = grownD(1,2) [OF initialize_sources_grown]
  have e: "taint_of [] v = {}" for v by (simp add: taint_of_def hm_get_def)
  have "source_labels ta v \<subseteq> {l. flows ta v l}" for v
    by (auto simp: in_source_labels intro: flow_source)
  then show ?thesis by (auto simp: taint_inv_def g e initialize_sources_keyed)
qed

section \<open>Policies\<close>

text \<open>The contract of a policy: it leaves propagation to the engine. What it calls a source, a sink or a
  sanitizer is up to it.\<close>

locale plain_policy =
  fixes P :: TaintPolicy
  assumes no_custom: "tp_propagate P op ts = None"
begin

lemma propagate_use_target:
  assumes "ta_policy ta = P"
  shows "propagate_use ta L st u = (case use_target ta u of Some d \<Rightarrow> extend_taint d L st | None \<Rightarrow> st)"
proof -
  obtain addr loc where u: "u = (addr, loc)" by (cases u)
  show ?thesis
    using assms no_custom
    by (cases loc; cases "fn_get_block (ta_func ta) addr")
       (auto simp: u propagate_use_def propagate_to_phi_def propagate_to_op_def Let_def split: option.splits)
qed

lemma propagate_uses_grown:
  assumes "ta_policy ta = P" "\<And>v. finite (taint_of (fst st) v)" "finite L"
  shows "grown (\<lambda>v. if v \<in> set (List.map_filter (use_target ta) us) then L else {}) st (foldl (propagate_use ta L) st us)"
proof -
  let ?add = "\<lambda>u v. if use_target ta u = Some v then L else {}"
  have "grown (\<lambda>v. \<Union>u \<in> set us. ?add u v) st (foldl (propagate_use ta L) st us)"
  proof (rule grown_fold)
    fix u and st' :: "taint_map \<times> SSAVar list" assume f: "\<And>v. finite (taint_of (fst st') v)"
    show "grown (?add u) st' (propagate_use ta L st' u)"
      using grown_extend [OF f assms(3)] grown_refl [of st']
      by (cases "use_target ta u") (simp_all add: propagate_use_target [OF assms(1)] eq_commute [of "_ :: SSAVar"])
  qed (use assms in auto)
  moreover have "(\<lambda>v. \<Union>u \<in> set us. ?add u v) = (\<lambda>v. if v \<in> set (List.map_filter (use_target ta) us) then L else {})"
    by (rule ext) (auto simp: in_set_map_filter)
  ultimately show ?thesis by simp
qed

lemma propagate_round_state:
  assumes "ta_policy ta = P" "taint_inv ta s" "ts_worklist s = v # w"
  defines "L \<equiv> taint_of (ts_taints s) v - taint_of (ts_propagated s) v"
    and "s' \<equiv> propagate_round ta (taint_use_map ta) v w s"
  shows "grown (\<lambda>x. if x \<in> set (targets ta v) then L else {}) (ts_taints s, w) (ts_taints s', ts_worklist s')"
    and "taint_of (ts_propagated s') x = taint_of (ts_propagated s) x \<union> (if x = v then L else {})"
proof -
  have fin: "finite (taint_of (ts_taints s) x)" for x by (rule taint_inv_finite [OF assms(2)])
  have "finite L" using fin by (simp add: L_def)
  then have g: "grown (\<lambda>x. if x \<in> set (targets ta v) then L else {}) (ts_taints s, w)
      (foldl (propagate_use ta L) (ts_taints s, w) (get_names (taint_use_map ta) v))"
    unfolding targets_def by (intro propagate_uses_grown [OF assms(1)]) (simp_all add: fin)
  have st: "(case hm_get (taint_use_map ta) v of None \<Rightarrow> (ts_taints s, w)
        | Some uses \<Rightarrow> foldl (propagate_use ta L) (ts_taints s, w) uses) =
      foldl (propagate_use ta L) (ts_taints s, w) (get_names (taint_use_map ta) v)"
    by (simp add: get_names_def split: option.splits)
  have if_empty: "(\<lambda>x. if x \<in> X then {} else {}) = (\<lambda>_. {})" for X :: "SSAVar set" by auto
  show "grown (\<lambda>x. if x \<in> set (targets ta v) then L else {}) (ts_taints s, w) (ts_taints s', ts_worklist s')"
  proof (cases "L = {}")
    case True
    then have "ts_taints s' = ts_taints s" "ts_worklist s' = w"
      by (auto simp: s'_def propagate_round_def Let_def L_def)
    then show ?thesis using grown_refl by (simp add: True if_empty cong: if_cong)
  next
    case False
    then have "taint_of (ts_taints s) v \<noteq> {}" by (auto simp: L_def)
    then have "(ts_taints s', ts_worklist s') = foldl (propagate_use ta L) (ts_taints s, w) (get_names (taint_use_map ta) v)"
      using False unfolding s'_def propagate_round_def Let_def L_def [symmetric] st by simp
    then show ?thesis using g by simp
  qed
  show "taint_of (ts_propagated s') x = taint_of (ts_propagated s) x \<union> (if x = v then L else {})"
    by (auto simp: s'_def propagate_round_def Let_def L_def taint_of_insert)
qed

lemma propagate_round_keyed:
  assumes "ta_policy ta = P" "listed_blocks (ta_func ta)" "keyed (flow_vars (ta_func ta)) (ts_taints s)"
  shows "keyed (flow_vars (ta_func ta)) (ts_taints (propagate_round ta (taint_use_map ta) v w s))"
proof -
  let ?Q = "\<lambda>st :: taint_map \<times> SSAVar list. keyed (flow_vars (ta_func ta)) (fst st)"
  have "?Q (foldl (propagate_use ta L) (ts_taints s, w) (get_names (taint_use_map ta) v))" for L
  proof (rule foldl_keeps [of ?Q])
    fix u st assume u: "u \<in> set (get_names (taint_use_map ta) v)" and st: "?Q st"
    have "d \<in> flow_vars (ta_func ta)" if "use_target ta u = Some d" for d
      using u that by (intro subsetD [OF targets_flow_vars [OF assms(2), of v]]) (auto simp: targets_def in_set_map_filter)
    then show "?Q (propagate_use ta L st u)"
      using st keyed_extend by (simp add: propagate_use_target [OF assms(1)] split: option.splits)
  qed (simp add: assms(3))
  then show ?thesis using assms(3)
    by (auto simp: propagate_round_def Let_def get_names_def split: option.splits)
qed

lemma propagate_round_ok:
  assumes ta: "ta_policy ta = P" "listed_blocks (ta_func ta)" and s: "taint_inv ta s" "ts_worklist s = v # w"
  defines "s' \<equiv> propagate_round ta (taint_use_map ta) v w s"
  shows "taint_inv ta s'" "taint_measure ta s' < taint_measure ta s"
proof -
  let ?L = "taint_of (ts_taints s) v - taint_of (ts_propagated s) v"
  note g = propagate_round_state(1) [OF ta(1) s, folded s'_def]
  note t = grownD(1) [OF g, unfolded fst_conv] and q = grownD(2) [OF g, unfolded fst_conv snd_conv]
  note p = propagate_round_state(2) [OF ta(1) s, folded s'_def]
  note i = taint_invD [OF s(1)]
  have sound: "taint_of (ts_taints s') x \<subseteq> {l. flows ta x l}" for x
    using i(1) [of x] i(1) [of v] flows_target [OF ta(2), of x v] by (auto simp: t split: if_splits)
  have queued: "taint_of (ts_taints s') x \<subseteq> taint_of (ts_propagated s') x \<or> x \<in> set (ts_worklist s')" for x
    using i(5) [of x] s(2) by (auto simp: t q p)
  have "taint_of (ts_propagated s') x \<subseteq> taint_of (ts_taints s') d" if "d \<in> set (targets ta x)" for x d
    using i(4) [OF that] that by (auto simp: t p)
  moreover have "taint_of (ts_propagated s') x \<subseteq> taint_of (ts_taints s') x" for x
    using i(3) [of x] by (auto simp: t p)
  ultimately show "taint_inv ta s'"
    unfolding taint_inv_def using sound queued i(2) t propagate_round_keyed [OF ta i(6), of v w, folded s'_def] by blast
  have "tainted_pairs (ts_taints s') \<subseteq> {(v, l). flows ta v l}"
    using sound by (auto simp: tainted_pairs_def)
  then show "taint_measure ta s' < taint_measure ta s"
    using grownD(3) [OF g finite_flows, of ta] s(2) by (simp add: taint_measure_def)
qed

lemma propagate_loop_returns:
  assumes "ta_policy ta = P" "listed_blocks (ta_func ta)" "taint_inv ta s"
  shows "\<exists>s'. propagate_loop ta (taint_use_map ta) s = Some s' \<and> (\<forall>v. taint_of (ts_taints s') v = {l. flows ta v l}) \<and>
    keyed (flow_vars (ta_func ta)) (ts_taints s')"
  using assms(3)
proof (induction "taint_measure ta s" arbitrary: s rule: less_induct)
  case less
  show ?case
  proof (cases "ts_worklist s")
    case Nil
    then have "propagate_loop ta (taint_use_map ta) s = Some s" by (subst propagate_loop.simps) simp
    then show ?thesis using taint_inv_final [OF assms(2) less.prems Nil] taint_invD(6) [OF less.prems] by blast
  next
    case (Cons v w)
    then have "propagate_loop ta (taint_use_map ta) s =
        propagate_loop ta (taint_use_map ta) (propagate_round ta (taint_use_map ta) v w s)"
      by (subst propagate_loop.simps) simp
    then show ?thesis
      using less.hyps propagate_round_ok [OF assms(1,2) less.prems Cons] by metis
  qed
qed

lemma taint_result:
  assumes "ta_policy ta = P" "listed_blocks (ta_func ta)"
  shows "\<exists>m. taint_analyze ta = Some \<lparr>tr_var_taints = by_display_name m, tr_sink_hits = find_sink_hits ta m\<rparr> \<and>
    (\<forall>v. taint_of m v = {l. flows ta v l}) \<and> keyed (flow_vars (ta_func ta)) m"
  using propagate_loop_returns [OF assms taint_inv_start] by (auto simp: taint_analyze_def Let_def)

end

interpretation default_taint: plain_policy "default_policy dp" for dp
  by unfold_locales (simp add: default_policy_def no_propagate_def)

section \<open>Reading the result\<close>

lemma by_display_name_get:
  "hm_get (by_display_name m) k = map_of (rev (map (\<lambda>(v, t). (display_name v, t)) m)) k"
proof -
  have "hm_get (foldl (\<lambda>m (v, t). hm_insert (display_name v) t m) acc m) k =
      (case map_of (rev (map (\<lambda>(v, t). (display_name v, t)) m)) k of Some t \<Rightarrow> Some t | None \<Rightarrow> hm_get acc k)" for acc
    by (induction m arbitrary: acc) (auto simp: hm_get_insert map_add_def split: option.splits)
  from this [of "[]"] show ?thesis by (simp add: by_display_name_def hm_get_def split: option.splits)
qed

lemma by_display_name_SomeD:
  assumes "hm_get (by_display_name m) k = Some t" "hm_ok m"
  shows "\<exists>v. display_name v = k \<and> hm_get m v = Some t"
proof -
  have "(k, t) \<in> (\<lambda>(v, t). (display_name v, t)) ` set m"
    using map_of_SomeD [OF assms(1) [unfolded by_display_name_get]] by simp
  then show ?thesis using hm_get_iff [OF assms(2)] by auto
qed

lemma by_display_name_None: "hm_get (by_display_name m) k = None \<longleftrightarrow> k \<notin> display_name ` fst ` set m"
  by (simp add: by_display_name_get map_of_eq_None_iff image_image split_beta')

lemma taint_of_Some: "hm_get m v = Some t \<Longrightarrow> taint_of m v = t"
  by (simp add: taint_of_def)

lemma taint_of_nonempty: "taint_of m v \<noteq> {} \<Longrightarrow> hm_get m v = Some (taint_of m v)"
  by (auto simp: taint_of_def split: option.splits)

lemma var_taints_exact:
  fixes hits :: "SinkHit list"
  assumes "\<forall>v. taint_of m v = {l. flows ta v l}" "keyed (flow_vars (ta_func ta)) m"
  defines "res \<equiv> \<lparr>tr_var_taints = by_display_name m, tr_sink_hits = hits\<rparr>"
  shows "get_taint res v = Some t \<Longrightarrow> \<exists>w. display_name w = display_name v \<and> t = {l. flows ta w l}"
    and "inj_on display_name (flow_vars (ta_func ta)) \<Longrightarrow> v \<in> flow_vars (ta_func ta) \<Longrightarrow> is_tainted res v \<longleftrightarrow> (\<exists>l. flows ta v l)"
proof -
  have ok: "hm_ok m" and K: "fst ` set m \<subseteq> flow_vars (ta_func ta)" using assms(2) by (auto simp: keyed_def)
  show "\<exists>w. display_name w = display_name v \<and> t = {l. flows ta w l}" if "get_taint res v = Some t"
    using by_display_name_SomeD [OF _ ok] that assms(1) by (fastforce simp: res_def get_taint_def dest: taint_of_Some)
  assume inj: "inj_on display_name (flow_vars (ta_func ta))" and v: "v \<in> flow_vars (ta_func ta)"
  have own: "hm_get m v = Some t" if g: "hm_get (by_display_name m) (display_name v) = Some t" for t
  proof -
    obtain w where w: "display_name w = display_name v" "hm_get m w = Some t" using by_display_name_SomeD [OF g ok] by blast
    then have "w \<in> flow_vars (ta_func ta)" using K hm_get_iff [OF ok] by force
    then show ?thesis using w inj_onD [OF inj w(1) _ v] by simp
  qed
  show "is_tainted res v \<longleftrightarrow> (\<exists>l. flows ta v l)"
  proof (cases "hm_get (by_display_name m) (display_name v)")
    case None
    then have "v \<notin> fst ` set m" by (auto simp: by_display_name_None)
    then have "taint_of m v = {}" by (simp add: taint_of_def hm_get_None [THEN iffD2])
    then show ?thesis using assms(1) None by (auto simp: is_tainted_def res_def)
  next
    case (Some t)
    then have "t = {l. flows ta v l}" using taint_of_Some [OF own] assms(1) by blast
    then show ?thesis using Some by (auto simp: is_tainted_def res_def)
  qed
qed

lemma sink_hit_at_Some:
  assumes "\<forall>v. taint_of m v = {l. flows ta v l}"
  shows "sink_hit_at ta m b (i, op) = Some h \<longleftrightarrow> tp_is_sink (ta_policy ta) op (fb_addr b) \<and>
    (\<exists>v \<in> set (sink_sources_for_op ta b i op). \<exists>l. flows ta v l) \<and>
    h = \<lparr>sh_block_addr = fb_addr b, sh_op_idx = i, sh_op = op,
         sh_tainted_vars = map (\<lambda>v. (v, {l. flows ta v l})) (filter (\<lambda>v. \<exists>l. flows ta v l) (sink_sources_for_op ta b i op))\<rparr>"
proof -
  let ?g = "\<lambda>src. case hm_get m src of Some taint \<Rightarrow> if taint \<noteq> {} then Some (src, taint) else None | None \<Rightarrow> None"
  have "?g v = (if \<exists>l. flows ta v l then Some (v, {l. flows ta v l}) else None)" for v
    using assms [THEN spec, of v] by (auto simp: taint_of_def split: option.splits)
  then have "List.map_filter ?g vs = map (\<lambda>v. (v, {l. flows ta v l})) (filter (\<lambda>v. \<exists>l. flows ta v l) vs)" for vs
    by (induction vs) (auto simp: map_filter_simps)
  then show ?thesis by (auto simp: sink_hit_at_def Let_def filter_empty_conv)
qed

section \<open>Arguments of a call\<close>

definition writes_arg :: "string \<Rightarrow> SSAOp \<Rightarrow> SSAVar option" where
  "writes_arg r op =
     (case sop_dst op of
        Some d \<Rightarrow> if canonical_x86_64_arg_reg (sv_name d) = Some r then Some d else None
      | None \<Rightarrow> None)"

lemma scan_call_args_get:
  "hm_get (scan_call_args ta ops found) r =
     (case hm_get found r of
        Some v \<Rightarrow> Some v
      | None \<Rightarrow> if r \<in> set (ta_call_arg_regs ta)
          then (case List.map_filter (writes_arg r) (takeWhile (\<lambda>op. \<not> is_call_sink op) ops) of [] \<Rightarrow> None | v # _ \<Rightarrow> Some v)
          else None)"
proof (induction ta ops found rule: scan_call_args.induct)
  case (2 ta prev ops found)
  then show ?case
    by (cases "sop_dst prev"; cases "canonical_x86_64_arg_reg (sv_name (the (sop_dst prev)))"; cases "hm_get found r")
       (auto simp: writes_arg_def map_filter_simps hm_get_insert split: if_splits)
qed (auto simp: map_filter_simps split: option.splits)

lemma in_ordered_call_args:
  "v \<in> set (ordered_call_args regs found) \<longleftrightarrow> (\<exists>r \<in> set regs. hm_get found r = Some v)"
proof (induction regs found rule: ordered_call_args.induct)
  case (2 reg regs found)
  have "hm_get (filter (\<lambda>(k, _). k \<noteq> reg) found) r = (if r = reg then None else hm_get found r)" for r
    unfolding hm_get_def by (induction found) auto
  then have "(\<exists>r \<in> set regs. hm_get (filter (\<lambda>(k, _). k \<noteq> reg) found) r = Some v) \<longleftrightarrow>
      (\<exists>r \<in> set regs. r \<noteq> reg \<and> hm_get found r = Some v)" by auto
  then show ?case using 2 by (cases "hm_get found reg") (auto, metis option.inject)
qed simp

lemma first_of_rev_take:
  assumes "i \<le> length ops"
  shows "(case List.map_filter g (takeWhile (\<lambda>x. \<not> stop x) (rev (take i ops))) of [] \<Rightarrow> None | v # _ \<Rightarrow> Some v) = Some v \<longleftrightarrow>
    (\<exists>j < i. g (ops ! j) = Some v \<and> \<not> stop (ops ! j) \<and> (\<forall>k. j < k \<and> k < i \<longrightarrow> \<not> stop (ops ! k) \<and> g (ops ! k) = None))"
  using assms
proof (induction i)
  case (Suc i)
  let ?x = "ops ! i"
  have t: "rev (take (Suc i) ops) = ?x # rev (take i ops)" using Suc.prems by (simp add: take_Suc_conv_app_nth)
  have all: "(\<exists>j < Suc i. P j \<and> (\<forall>k. j < k \<and> k < Suc i \<longrightarrow> Q k)) \<longleftrightarrow> P i \<or> Q i \<and> (\<exists>j < i. P j \<and> (\<forall>k. j < k \<and> k < i \<longrightarrow> Q k))" for P Q
    by (auto simp: less_Suc_eq)
  show ?case
  proof (cases "stop ?x \<or> g ?x \<noteq> None")
    case True
    then show ?thesis unfolding t all [of "\<lambda>j. g (ops ! j) = Some v \<and> \<not> stop (ops ! j)", unfolded conj_assoc]
      by (auto simp: map_filter_simps)
  next
    case False
    then show ?thesis
      unfolding t all [of "\<lambda>j. g (ops ! j) = Some v \<and> \<not> stop (ops ! j)", unfolded conj_assoc]
      using Suc.IH Suc.prems by (auto simp: map_filter_simps)
  qed
qed (simp add: map_filter_simps)

section \<open>An example\<close>

text \<open>An input is copied to a register and part of the register is stored.\<close>

definition copied_store :: "u32 \<Rightarrow> list_digraph SSAFunction" where
  "copied_store sz =
     \<lparr>fn_name = None, fn_entry = 0x1000,
      fn_cfg = \<lparr>cfg_graph = ([branch_block 0x1000 TermReturn], []), cfg_addr_to_node = [(0x1000, 0)], cfg_entry = 0x1000\<rparr>,
      fn_domtree = \<lparr>dt_entry = 0x1000, dt_idom = [], dt_children = [], dt_frontier = [], dt_depth = []\<rparr>,
      fn_blocks =
        [(0x1000, \<lparr>fb_addr = 0x1000, fb_size = 4,
           fb_ops = [Copy (ssa_new ''reg:0'' 1 8) (ssa_new ''rdi'' 0 8),
                     Store ''ram'' (ssa_new ''const:2000'' 0 8) (ssa_new ''reg:0'' 1 sz)],
           fb_phis = []\<rparr>)],
      fn_block_order = [0x1000], fn_prep_facts = None, fn_query_index = None\<rparr>"

definition copied_store_taint :: "u32 \<Rightarrow> list_digraph TaintAnalysis" where
  "copied_store_taint sz = taint_new (copied_store sz) (default_policy dp_all_inputs)"

lemma copied_store_blocks:
  "listed_blocks (ta_func (copied_store_taint sz))" "plain_policy (ta_policy (copied_store_taint sz))"
  "fn_blocks_in_order (ta_func (copied_store_taint sz)) =
     [\<lparr>fb_addr = 0x1000, fb_size = 4,
       fb_ops = [Copy (ssa_new ''reg:0'' 1 8) (ssa_new ''rdi'' 0 8),
                 Store ''ram'' (ssa_new ''const:2000'' 0 8) (ssa_new ''reg:0'' 1 sz)],
       fb_phis = []\<rparr>]"
  using default_taint.plain_policy_axioms
  by (simp_all add: copied_store_taint_def taint_new_def copied_store_def listed_blocks_def fn_blocks_in_order_def
      hm_get_def map_filter_simps)

lemma copied_store_flows: "flows (copied_store_taint sz) (ssa_new ''reg:0'' 1 8) (label_new ''input:rdi'')"
proof -
  let ?ta = "copied_store_taint sz"
  let ?b = "hd (fn_blocks_in_order (ta_func ?ta))"
  have "flows ?ta (ssa_new ''rdi'' 0 8) (label_new ''input:rdi'')"
    by (rule flow_source [of ?b _ _ "SourceOp 0 0" "[label_new ''input:rdi'']"])
       (simp_all add: copied_store_blocks block_for_each_source_def for_each_op_source_def,
        simp add: copied_store_taint_def taint_new_def default_policy_def dp_is_source_def dp_all_inputs_def
          ssa_new_def ssa_is_register_def ssa_is_const_def ssa_is_temp_def starts_with_def)
  then show ?thesis
    by (rule flow_op [of ?b _ "Copy (ssa_new ''reg:0'' 1 8) (ssa_new ''rdi'' 0 8)", rotated 5])
       (simp_all add: copied_store_blocks(3),
        simp add: copied_store_taint_def taint_new_def default_policy_def no_sanitizer_def)
qed

lemma copied_store_vars:
  "flow_vars (ta_func (copied_store_taint sz)) =
     {ssa_new ''rdi'' 0 8, ssa_new ''const:2000'' 0 8, ssa_new ''reg:0'' 1 sz, ssa_new ''reg:0'' 1 8}"
  by (auto simp: flow_vars_def all_uses_def fn_for_each_source_def copied_store_blocks block_for_each_source_def
      for_each_op_source_def for_each_phi_source_def)

text \<open>An argument register that is written twice before the call.\<close>

definition call_example :: FunctionSSABlock where
  "call_example =
     \<lparr>fb_addr = 0x1000, fb_size = 4,
      fb_ops = [Copy (ssa_new ''rdi'' 1 8) (ssa_new ''rsi'' 0 8), Copy (ssa_new ''edi'' 1 4) (ssa_new ''eax'' 0 4),
                Call (ssa_new ''const:3000'' 0 8)],
      fb_phis = []\<rparr>"

definition call_example_taint :: "list_digraph TaintAnalysis" where
  "call_example_taint = (copied_store_taint 8)\<lparr>ta_call_arg_regs := [''rdi'']\<rparr>"

section \<open>Properties\<close>

text \<open>C10. Taint analysis is exact. For every policy that keeps to the default propagation the worklist
  ends, and the labels reported for a variable are those that flow into it along phis and operations
  from the sources, sanitizers apart; the taints are reported under display names, so they are those
  of some variable of that name, and of the variable itself when display names are unique.\<close>

theorem taint_exact:
  assumes "listed_blocks (ta_func ta)" "plain_policy (ta_policy ta)"
  shows "\<exists>res. taint_analyze ta = Some res \<and>
    (\<forall>v t. get_taint res v = Some t \<longrightarrow> (\<exists>w. display_name w = display_name v \<and> t = {l. flows ta w l})) \<and>
    (inj_on display_name (flow_vars (ta_func ta)) \<longrightarrow>
      (\<forall>v \<in> flow_vars (ta_func ta). is_tainted res v \<longleftrightarrow> (\<exists>l. flows ta v l)))"
proof -
  obtain m where m: "taint_analyze ta = Some \<lparr>tr_var_taints = by_display_name m, tr_sink_hits = find_sink_hits ta m\<rparr>"
    "\<forall>v. taint_of m v = {l. flows ta v l}" "keyed (flow_vars (ta_func ta)) m"
    using plain_policy.taint_result [OF assms(2) refl assms(1)] by blast
  show ?thesis using m(1) var_taints_exact [OF m(2,3)] by blast
qed

theorem taint_exact_witness:
  "\<exists>res. taint_analyze (copied_store_taint 8) = Some res \<and> is_tainted res (ssa_new ''reg:0'' 1 8)"
proof -
  have "inj_on display_name (flow_vars (ta_func (copied_store_taint 8)))"
    by (simp add: copied_store_vars display_name_def ssa_new_def starts_with_def to_ascii_uppercase_def to_upper_char_def)
  then show ?thesis
    using taint_exact [OF copied_store_blocks(1,2), of 8] copied_store_flows [of 8] copied_store_vars [of 8]
    by (metis insertCI)
qed



text \<open>The argument variables attributed to a call are, for each argument register, the last write to
  it in the block before the call with no other call in between.\<close>

theorem call_args_latest:
  assumes "i < length (fb_ops b)"
  shows "v \<in> set (collect_call_arg_vars ta b i) \<longleftrightarrow>
    (\<exists>r \<in> set (ta_call_arg_regs ta). \<exists>j < i. writes_arg r (fb_ops b ! j) = Some v \<and> \<not> is_call_sink (fb_ops b ! j) \<and>
       (\<forall>k. j < k \<and> k < i \<longrightarrow> \<not> is_call_sink (fb_ops b ! k) \<and> writes_arg r (fb_ops b ! k) = None))"
proof -
  have "hm_get (scan_call_args ta (rev (take i (fb_ops b))) []) r = Some v \<longleftrightarrow>
      (\<exists>j < i. writes_arg r (fb_ops b ! j) = Some v \<and> \<not> is_call_sink (fb_ops b ! j) \<and>
       (\<forall>k. j < k \<and> k < i \<longrightarrow> \<not> is_call_sink (fb_ops b ! k) \<and> writes_arg r (fb_ops b ! k) = None))"
    if "r \<in> set (ta_call_arg_regs ta)" for r
    using first_of_rev_take [of i "fb_ops b" "writes_arg r" is_call_sink v] assms that
    by (simp add: scan_call_args_get hm_get_def [of "[]"])
  then show ?thesis
    by (cases "ta_call_arg_regs ta = []"; cases "i = 0") (simp_all add: collect_call_arg_vars_def in_ordered_call_args)
qed

theorem call_args_latest_witness:
  "ssa_new ''edi'' 1 4 \<in> set (collect_call_arg_vars call_example_taint call_example 2)"
proof -
  have "writes_arg ''rdi'' (fb_ops call_example ! 1) = Some (ssa_new ''edi'' 1 4)" "\<not> is_call_sink (fb_ops call_example ! 1)"
    by (simp_all add: call_example_def writes_arg_def is_call_sink_def canonical_x86_64_arg_reg_def ssa_new_def
        to_ascii_lowercase_def to_lower_char_def)
  moreover have "''rdi'' \<in> set (ta_call_arg_regs call_example_taint)" by (simp add: call_example_taint_def)
  moreover have "2 < length (fb_ops call_example)" by (simp add: call_example_def)
  ultimately show ?thesis
    using call_args_latest [of 2 call_example "ssa_new ''edi'' 1 4" call_example_taint]
    by (metis One_nat_def Suc_1 lessI not_less_eq)
qed



end
