(* ===== verification/SSA_Defuse.thy ===== *)
theory SSA_Defuse
  imports SSA_Block SSA_Function
begin

text \<open>
  Definition-use chains and backward slices: \<open>r2ssa/src/defuse.rs\<close>.

  The sets of a \<open>DefUseInfo\<close> are sets, its maps association lists. A query of a definition goes to
  the cached index of the function; the function the query returns differs in the cache only, so
  the slicing loop keeps the one it was given. The loop itself has no bound in the source and is a
  partial function into \<open>option\<close>.
\<close>

section \<open>Chains of a block\<close>

record DefUseInfo =
  du_definitions :: "(string, nat option) hashmap"
  du_uses :: "(string, nat list) hashmap"
  du_inputs :: "string set"
  du_outputs :: "string set"
  du_live :: "string set"

definition du_new :: DefUseInfo where
  "du_new = \<lparr>du_definitions = [], du_uses = [], du_inputs = {}, du_outputs = {}, du_live = {}\<rparr>"

definition get_def :: "DefUseInfo \<Rightarrow> SSAVar \<Rightarrow> nat option" where
  "get_def info var = Option.bind (hm_get (du_definitions info) (display_name var)) (\<lambda>d. d)"

definition get_uses :: "DefUseInfo \<Rightarrow> SSAVar \<Rightarrow> nat list" where
  "get_uses info var = (case hm_get (du_uses info) (display_name var) of Some us \<Rightarrow> us | None \<Rightarrow> [])"

definition is_input :: "DefUseInfo \<Rightarrow> SSAVar \<Rightarrow> bool" where
  "is_input info var \<longleftrightarrow> display_name var \<in> du_inputs info"

definition is_output :: "DefUseInfo \<Rightarrow> SSAVar \<Rightarrow> bool" where
  "is_output info var \<longleftrightarrow> display_name var \<in> du_outputs info"

definition is_live :: "DefUseInfo \<Rightarrow> SSAVar \<Rightarrow> bool" where
  "is_live info var \<longleftrightarrow> display_name var \<in> du_live info"

text \<open>The passes of \<open>def_use\<close>, in order.\<close>

definition record_definition :: "DefUseInfo \<Rightarrow> nat \<times> SSAOp \<Rightarrow> DefUseInfo" where
  "record_definition info = (\<lambda>(idx, op).
     case sop_dst op of
       Some dst \<Rightarrow> info\<lparr>du_definitions := hm_insert (display_name dst) (Some idx) (du_definitions info)\<rparr>
     | None \<Rightarrow> info)"

definition record_uses :: "DefUseInfo \<Rightarrow> nat \<times> SSAOp \<Rightarrow> DefUseInfo" where
  "record_uses info = (\<lambda>(idx, op).
     foldl (\<lambda>info src.
         info\<lparr>du_uses := hm_insert (display_name src) (get_names (du_uses info) (display_name src) @ [idx]) (du_uses info)\<rparr>)
       info (sop_sources op))"

definition record_input :: "DefUseInfo \<Rightarrow> string \<Rightarrow> DefUseInfo" where
  "record_input info var_name =
     (if hm_get (du_definitions info) var_name = None
      then info\<lparr>du_inputs := insert var_name (du_inputs info),
                du_definitions := hm_insert var_name None (du_definitions info)\<rparr>
      else info)"

definition record_output :: "DefUseInfo \<Rightarrow> string \<times> nat option \<Rightarrow> DefUseInfo" where
  "record_output info = (\<lambda>(var_name, def).
     if def \<noteq> None \<and> hm_get (du_uses info) var_name = None
     then info\<lparr>du_outputs := insert var_name (du_outputs info)\<rparr> else info)"

definition record_live :: "DefUseInfo \<Rightarrow> string \<times> nat option \<Rightarrow> DefUseInfo" where
  "record_live info = (\<lambda>(var_name, def).
     if def \<noteq> None \<and> hm_get (du_uses info) var_name \<noteq> None
     then info\<lparr>du_live := insert var_name (du_live info)\<rparr> else info)"

definition def_use :: "SSABlock \<Rightarrow> DefUseInfo" where
  "def_use block =
     (let ops = enumerate 0 (sb_ops block);
          info1 = foldl record_definition du_new ops;
          info2 = foldl record_uses info1 ops;
          info3 = foldl record_input info2 (map fst (du_uses info2));
          info4 = foldl record_output info3 (du_definitions info3)
      in foldl record_live info4 (du_definitions info4))"

definition dead_ops :: "SSABlock \<Rightarrow> nat list" where
  "dead_ops block =
     (let info = def_use block
      in List.map_filter (\<lambda>(idx, op).
           if sop_is_control_flow op \<or> sop_is_memory_write op then None
           else case sop_dst op of
             Some dst \<Rightarrow> if hm_get (du_uses info) (display_name dst) = None then Some idx else None
           | None \<Rightarrow> None)
         (enumerate 0 (sb_ops block)))"

definition constant_of_copy :: "(string, u64) hashmap \<Rightarrow> SSAOp \<Rightarrow> (string, u64) hashmap" where
  "constant_of_copy constants op =
     (case op of
        Copy dst src \<Rightarrow>
          if ssa_is_const src
          then (case strip_prefix ''const:'' (sv_name src) of
                  Some val_str \<Rightarrow>
                    (case (case strip_prefix ''0x'' val_str of
                             Some hex \<Rightarrow> u64_from_str_radix 16 hex
                           | None \<Rightarrow> u64_from_str_radix 10 val_str) of
                       Some val \<Rightarrow> hm_insert (display_name dst) val constants
                     | None \<Rightarrow> constants)
                | None \<Rightarrow> constants)
          else constants
      | _ \<Rightarrow> constants)"

definition find_constants :: "SSABlock \<Rightarrow> (string, u64) hashmap" where
  "find_constants block = foldl constant_of_copy [] (sb_ops block)"

section \<open>Addresses\<close>

record StoreInfo =
  si_block_addr :: u64
  si_op_idx :: nat
  si_space :: string
  si_addr :: SSAVar
  si_val :: SSAVar
  si_access_size :: u32

definition store_info :: "u64 \<Rightarrow> nat \<times> SSAOp \<Rightarrow> StoreInfo option" where
  "store_info block_addr = (\<lambda>(op_idx, op).
     case op of
       Store space addr val \<Rightarrow>
         Some \<lparr>si_block_addr = block_addr, si_op_idx = op_idx, si_space = space, si_addr = addr, si_val = val,
               si_access_size = sv_size val\<rparr>
     | _ \<Rightarrow> None)"

definition collect_store_infos :: "'g SSAFunction \<Rightarrow> StoreInfo list" where
  "collect_store_infos func =
     concat (map (\<lambda>block. List.map_filter (store_info (fb_addr block)) (enumerate 0 (fb_ops block)))
       (fn_blocks_in_order func))"

definition du_const_value :: "SSAVar \<Rightarrow> u64 option" where
  "du_const_value var =
     Option.bind (strip_prefix ''const:'' (sv_name var)) (\<lambda>val_str.
       case (case strip_prefix ''0x'' val_str of Some h \<Rightarrow> Some h | None \<Rightarrow> strip_prefix ''0X'' val_str) of
         Some hex \<Rightarrow> u64_from_str_radix 16 hex
       | None \<Rightarrow> u64_from_str_radix 10 val_str)"

datatype AddressRegion = RegionConst | RegionStack | RegionGlobal | RegionHeap | RegionUnknown

record AddressProvenance =
  ap_region :: AddressRegion
  ap_base :: "string option"
  ap_offset :: "i64 option"
  ap_absolute :: "u64 option"

definition strip_hex_prefix :: "string \<Rightarrow> string option" where
  "strip_hex_prefix s = (case strip_prefix ''0x'' s of Some h \<Rightarrow> Some h | None \<Rightarrow> strip_prefix ''0X'' s)"

definition parse_i64_component :: "string \<Rightarrow> i64 option" where
  "parse_i64_component component =
     (let trimmed = trim component
      in if trimmed = [] then None
         else case (case strip_prefix ''-0x'' trimmed of Some h \<Rightarrow> Some h | None \<Rightarrow> strip_prefix ''-0X'' trimmed) of
           Some hex \<Rightarrow> map_option uminus (i64_from_str_radix 16 hex)
         | None \<Rightarrow>
             (case strip_hex_prefix trimmed of
                Some hex \<Rightarrow> i64_from_str_radix 16 hex
              | None \<Rightarrow> i64_from_str_radix 10 trimmed))"

text \<open>\<open>split(':')\<close>: the first two pieces.\<close>

definition colon_parts :: "string \<Rightarrow> string \<times> string option" where
  "colon_parts s =
     (let first = takeWhile (\<lambda>c. c \<noteq> CHR '':'') s
      in (first,
          case dropWhile (\<lambda>c. c \<noteq> CHR '':'') s of
            [] \<Rightarrow> None
          | _ # rest \<Rightarrow> Some (takeWhile (\<lambda>c. c \<noteq> CHR '':'') rest)))"

definition detect_address_provenance :: "SSAVar \<Rightarrow> AddressProvenance" where
  "detect_address_provenance var =
     (case du_const_value var of
        Some absolute \<Rightarrow> \<lparr>ap_region = RegionConst, ap_base = None, ap_offset = Some 0, ap_absolute = Some absolute\<rparr>
      | None \<Rightarrow>
          let lower = to_ascii_lowercase (sv_name var)
          in case strip_prefix ''ram:'' lower of
            Some rest \<Rightarrow>
              \<lparr>ap_region = RegionGlobal, ap_base = Some ''ram'', ap_offset = None,
               ap_absolute = (case strip_prefix ''0x'' rest of
                                Some hex \<Rightarrow> u64_from_str_radix 16 hex
                              | None \<Rightarrow> u64_from_str_radix 10 rest)\<rparr>
          | None \<Rightarrow>
          (case strip_prefix ''stack:'' lower of
            Some rest \<Rightarrow>
              let (base, off) = colon_parts rest
              in \<lparr>ap_region = RegionStack, ap_base = Some base, ap_offset = Option.bind off parse_i64_component,
                  ap_absolute = None\<rparr>
          | None \<Rightarrow>
              if starts_with ''heap:'' lower \<or> str_contains ''malloc'' lower \<or> str_contains ''heap'' lower
              then \<lparr>ap_region = RegionHeap, ap_base = Some ''heap'', ap_offset = None, ap_absolute = None\<rparr>
              else if starts_with ''obj.'' lower \<or> starts_with ''sym.'' lower \<or> starts_with ''data.'' lower \<or>
                      starts_with ''got.'' lower
              then \<lparr>ap_region = RegionGlobal, ap_base = Some lower, ap_offset = Some 0, ap_absolute = None\<rparr>
              else if lower \<in> {''rbp'', ''rsp'', ''ebp'', ''esp'', ''sp'', ''fp'', ''bp'', ''s0'', ''x8''}
              then \<lparr>ap_region = RegionStack, ap_base = Some lower, ap_offset = Some 0, ap_absolute = None\<rparr>
              else \<lparr>ap_region = RegionUnknown, ap_base = None, ap_offset = None, ap_absolute = None\<rparr>))"

text \<open>The addresses are \<open>i128\<close> here: a 64-bit address and a 32-bit size do not overflow it.\<close>

definition ranges_overlap :: "int \<Rightarrow> u32 \<Rightarrow> int \<Rightarrow> u32 \<Rightarrow> bool" where
  "ranges_overlap a_base a_size b_base b_size \<longleftrightarrow>
     (let a_end = a_base + uint (max a_size 1);
          b_end = b_base + uint (max b_size 1)
      in a_base < b_end \<and> b_base < a_end)"

definition addresses_may_alias :: "SSAVar \<Rightarrow> u32 \<Rightarrow> SSAVar \<Rightarrow> u32 \<Rightarrow> bool" where
  "addresses_may_alias a a_size b b_size =
     (let pa = detect_address_provenance a;
          pb = detect_address_provenance b
      in case (ap_absolute pa, ap_absolute pb) of
           (Some a_abs, Some b_abs) \<Rightarrow> ranges_overlap (uint a_abs) a_size (uint b_abs) b_size
         | _ \<Rightarrow>
             if ap_region pa \<noteq> RegionUnknown \<and> ap_region pb \<noteq> RegionUnknown \<and> ap_region pa \<noteq> ap_region pb then False
             else if ap_region pa = ap_region pb \<and> ap_region pa \<in> {RegionStack, RegionGlobal, RegionHeap}
             then (if ap_base pa \<noteq> None \<and> ap_base pb \<noteq> None \<and> ap_base pa \<noteq> ap_base pb then False
                   else case (ap_offset pa, ap_offset pb) of
                     (Some a_off, Some b_off) \<Rightarrow> ranges_overlap (sint a_off) a_size (sint b_off) b_size
                   | _ \<Rightarrow> True)
             else True)"

section \<open>Backward slices\<close>

datatype SliceOpRef =
  SlicePhi (sr_block_addr: u64) (sr_phi_idx: nat)
| SliceOp (sr_block_addr: u64) (sr_op_idx: nat)

record BackwardSlice =
  bs_ops :: "SliceOpRef set"
  bs_blocks :: "u64 set"

definition slice_default :: BackwardSlice where
  "slice_default = \<lparr>bs_ops = {}, bs_blocks = {}\<rparr>"

definition slice_add_op :: "SliceOpRef \<Rightarrow> BackwardSlice \<Rightarrow> bool \<times> BackwardSlice" where
  "slice_add_op op sl =
     (if op \<in> bs_ops sl then (False, sl)
      else (True, sl\<lparr>bs_ops := insert op (bs_ops sl), bs_blocks := insert (sr_block_addr op) (bs_blocks sl)\<rparr>))"

definition slice_is_empty :: "BackwardSlice \<Rightarrow> bool" where
  "slice_is_empty sl \<longleftrightarrow> bs_ops sl = {}"

definition add_aliasing_stores ::
  "StoreInfo list \<Rightarrow> string \<Rightarrow> SSAVar \<Rightarrow> u32 \<Rightarrow> BackwardSlice \<times> SSAVar list \<Rightarrow> BackwardSlice \<times> SSAVar list" where
  "add_aliasing_stores stores sink_space sink_addr sink_access_size st =
     foldl (\<lambda>(sl, worklist) store.
         if si_space store \<noteq> sink_space then (sl, worklist)
         else if \<not> addresses_may_alias (si_addr store) (si_access_size store) sink_addr sink_access_size
         then (sl, worklist)
         else let (inserted, slice1) = slice_add_op (SliceOp (si_block_addr store) (si_op_idx store)) sl
              in if inserted then (slice1, worklist @ [si_addr store, si_val store]) else (slice1, worklist))
       st stores"

record slice_state =
  ws_slice :: BackwardSlice
  ws_worklist :: "SSAVar list"
  ws_visited :: "string set"

text \<open>What \<open>walk_backward\<close> does with the definition of a variable.\<close>

definition slice_phi_def ::
  "'g SSAFunction \<Rightarrow> u64 \<Rightarrow> nat \<Rightarrow> BackwardSlice \<times> SSAVar list \<Rightarrow> BackwardSlice \<times> SSAVar list" where
  "slice_phi_def func block_addr phi_idx = (\<lambda>(sl, worklist).
     let (inserted, slice1) = slice_add_op (SlicePhi block_addr phi_idx) sl
     in case (if inserted then fn_get_block func block_addr else None) of
          Some block \<Rightarrow>
            if phi_idx < length (fb_phis block)
            then (slice1, worklist @ map snd (pn_sources (fb_phis block ! phi_idx)))
            else (slice1, worklist)
        | None \<Rightarrow> (slice1, worklist))"

definition slice_op_def ::
  "'g SSAFunction \<Rightarrow> StoreInfo list \<Rightarrow> u64 \<Rightarrow> nat \<Rightarrow> BackwardSlice \<times> SSAVar list \<Rightarrow> BackwardSlice \<times> SSAVar list" where
  "slice_op_def func stores block_addr op_idx = (\<lambda>(sl, worklist).
     let (inserted, slice1) = slice_add_op (SliceOp block_addr op_idx) sl
     in case (if inserted then fn_get_block func block_addr else None) of
          Some block \<Rightarrow>
            if op_idx < length (fb_ops block)
            then let op = fb_ops block ! op_idx;
                     st = (slice1, worklist @ sop_sources op)
                 in case op of
                      Load dst space addr \<Rightarrow> add_aliasing_stores stores space addr (sv_size dst) st
                    | _ \<Rightarrow> st
            else (slice1, worklist)
        | None \<Rightarrow> (slice1, worklist))"

definition walk_round :: "'g SSAFunction \<Rightarrow> StoreInfo list \<Rightarrow> SSAVar \<Rightarrow> SSAVar list \<Rightarrow> slice_state \<Rightarrow> slice_state" where
  "walk_round func stores var worklist s =
     (let key = display_name var
      in if key \<in> ws_visited s then s\<lparr>ws_worklist := worklist\<rparr>
         else let st = (case fst (find_def var func) of
                          None \<Rightarrow> (ws_slice s, worklist)
                        | Some (block_addr, DefPhi phi_idx) \<Rightarrow> slice_phi_def func block_addr phi_idx (ws_slice s, worklist)
                        | Some (block_addr, DefOp op_idx) \<Rightarrow> slice_op_def func stores block_addr op_idx (ws_slice s, worklist))
              in \<lparr>ws_slice = fst st, ws_worklist = snd st, ws_visited = insert key (ws_visited s)\<rparr>)"

partial_function (option) walk_backward ::
  "'g SSAFunction \<Rightarrow> StoreInfo list \<Rightarrow> slice_state \<Rightarrow> slice_state option"
where
  "walk_backward func stores s =
     (case ws_worklist s of
        [] \<Rightarrow> Some s
      | var # worklist \<Rightarrow> walk_backward func stores (walk_round func stores var worklist s))"

definition backward_slice_from_var :: "'g SSAFunction \<Rightarrow> SSAVar \<Rightarrow> BackwardSlice option" where
  "backward_slice_from_var func sink =
     map_option ws_slice
       (walk_backward func (collect_store_infos func)
         \<lparr>ws_slice = slice_default, ws_worklist = [sink], ws_visited = {}\<rparr>)"

definition slice_start :: "'g SSAFunction \<Rightarrow> StoreInfo list \<Rightarrow> SliceOpRef \<Rightarrow> BackwardSlice \<times> SSAVar list" where
  "slice_start func stores sink =
     (case sink of
        SlicePhi block_addr phi_idx \<Rightarrow>
          (case fn_get_block func block_addr of
             Some block \<Rightarrow>
               if phi_idx < length (fb_phis block)
               then (snd (slice_add_op sink slice_default), map snd (pn_sources (fb_phis block ! phi_idx)))
               else (slice_default, [])
           | None \<Rightarrow> (slice_default, []))
      | SliceOp block_addr op_idx \<Rightarrow>
          (case fn_get_block func block_addr of
             Some block \<Rightarrow>
               if op_idx < length (fb_ops block)
               then let op = fb_ops block ! op_idx;
                        st = (snd (slice_add_op sink slice_default), sop_sources op)
                    in case op of
                         Load dst space addr \<Rightarrow> add_aliasing_stores stores space addr (sv_size dst) st
                       | Store space addr val \<Rightarrow> add_aliasing_stores stores space addr (sv_size val) st
                       | _ \<Rightarrow> st
               else (slice_default, [])
           | None \<Rightarrow> (slice_default, [])))"

definition backward_slice_from_op :: "'g SSAFunction \<Rightarrow> SliceOpRef \<Rightarrow> BackwardSlice option" where
  "backward_slice_from_op func sink =
     (let stores = collect_store_infos func;
          st = slice_start func stores sink
      in map_option ws_slice
           (walk_backward func stores \<lparr>ws_slice = fst st, ws_worklist = snd st, ws_visited = {}\<rparr>))"

end
