(* ===== verification/SSA_Defuse_Props.thy ===== *)
theory SSA_Defuse_Props
  imports SSA_Defuse SSA_Taint_Props
begin

text \<open>
  What definition-use chains and backward slices mean: the sets of a block are those of its
  operations, a slice is the closure of its start under direct dependence, and which answers of the
  alias check can be relied on.
\<close>

section \<open>Chains\<close>

text \<open>The index that defines a name, and those that use it, as the operations list them.\<close>

definition defs_named :: "SSABlock \<Rightarrow> string \<Rightarrow> nat list" where
  "defs_named b k =
     List.map_filter (\<lambda>(i, op). if map_option display_name (sop_dst op) = Some k then Some i else None)
       (enumerate 0 (sb_ops b))"

definition uses_named :: "SSABlock \<Rightarrow> string \<Rightarrow> nat list" where
  "uses_named b k =
     concat (map (\<lambda>(i, op). map (\<lambda>_. i) (filter (\<lambda>src. display_name src = k) (sop_sources op))) (enumerate 0 (sb_ops b)))"

lemma record_definitions_spec:
  "hm_get (du_definitions (foldl record_definition info ops)) k =
     (case List.map_filter (\<lambda>(i, op). if map_option display_name (sop_dst op) = Some k then Some i else None) ops of
        [] \<Rightarrow> hm_get (du_definitions info) k | is \<Rightarrow> Some (Some (last is)))"
proof (induction ops rule: rev_induct)
  case (snoc x ops)
  obtain i op where x: "x = (i, op)" by (cases x)
  show ?case
    using snoc by (cases "sop_dst op") (auto simp: x record_definition_def hm_get_insert map_filter_simps List.map_filter_def split: list.splits)
qed (simp add: map_filter_simps)

lemma record_definitions_rest:
  "du_uses (foldl record_definition info ops) = du_uses info"
  "du_inputs (foldl record_definition info ops) = du_inputs info"
  "du_outputs (foldl record_definition info ops) = du_outputs info"
  "du_live (foldl record_definition info ops) = du_live info"
  by (induction ops arbitrary: info) (auto simp: record_definition_def split: option.splits)

lemma push_get:
  "hm_get (foldl (\<lambda>m (k, x). hm_insert k (get_names m k @ [x]) m) [] ps) k =
     (let us = map snd (filter (\<lambda>p. fst p = k) ps) in if us = [] then None else Some us)"
proof (induction ps rule: rev_induct)
  case (snoc p ps)
  obtain k' x where p: "p = (k', x)" by (cases p)
  show ?case using snoc by (auto simp: p hm_get_insert get_names_push Let_def get_names_def [of "[]"] hm_get_def [of "[]"])
qed (simp add: hm_get_def)

lemma record_uses_spec:
  "du_uses (foldl record_uses info ops) =
     foldl (\<lambda>m (k, x). hm_insert k (get_names m k @ [x]) m) (du_uses info)
       (concat (map (\<lambda>(i, op). map (\<lambda>src. (display_name src, i)) (sop_sources op)) ops))"
  "du_definitions (foldl record_uses info ops) = du_definitions info"
  "du_inputs (foldl record_uses info ops) = du_inputs info"
  "du_outputs (foldl record_uses info ops) = du_outputs info"
  "du_live (foldl record_uses info ops) = du_live info"
proof -
  let ?g = "\<lambda>i info src. info\<lparr>du_uses := hm_insert (display_name src) (get_names (du_uses info) (display_name src) @ [i]) (du_uses info)\<rparr>"
  have one: "du_uses (foldl (?g i) info srcs) =
      foldl (\<lambda>m (k, x). hm_insert k (get_names m k @ [x]) m) (du_uses info) (map (\<lambda>src. (display_name src, i)) srcs)"
    "du_definitions (foldl (?g i) info srcs) = du_definitions info" "du_inputs (foldl (?g i) info srcs) = du_inputs info"
    "du_outputs (foldl (?g i) info srcs) = du_outputs info" "du_live (foldl (?g i) info srcs) = du_live info"
    for i srcs and info :: DefUseInfo
    by (induction srcs arbitrary: info) auto
  show "du_uses (foldl record_uses info ops) =
      foldl (\<lambda>m (k, x). hm_insert k (get_names m k @ [x]) m) (du_uses info)
        (concat (map (\<lambda>(i, op). map (\<lambda>src. (display_name src, i)) (sop_sources op)) ops))"
    "du_definitions (foldl record_uses info ops) = du_definitions info"
    "du_inputs (foldl record_uses info ops) = du_inputs info"
    "du_outputs (foldl record_uses info ops) = du_outputs info"
    "du_live (foldl record_uses info ops) = du_live info"
    by (induction ops arbitrary: info) (auto simp: record_uses_def one)
qed

lemma record_inputs_spec:
  "hm_get (du_definitions (foldl record_input info ks)) k =
     (case hm_get (du_definitions info) k of Some d \<Rightarrow> Some d | None \<Rightarrow> if k \<in> set ks then Some None else None)"
  "du_inputs (foldl record_input info ks) = du_inputs info \<union> {k \<in> set ks. hm_get (du_definitions info) k = None}"
  "du_uses (foldl record_input info ks) = du_uses info"
  "du_outputs (foldl record_input info ks) = du_outputs info"
  "du_live (foldl record_input info ks) = du_live info"
  by (induction ks arbitrary: info) (auto simp: record_input_def hm_get_insert split: option.splits if_splits)

lemma record_outputs_spec:
  "du_outputs (foldl record_output info ds) = du_outputs info \<union> {k. hm_get (du_uses info) k = None \<and> (\<exists>d. (k, Some d) \<in> set ds)}"
  "du_definitions (foldl record_output info ds) = du_definitions info"
  "du_uses (foldl record_output info ds) = du_uses info"
  "du_inputs (foldl record_output info ds) = du_inputs info"
  "du_live (foldl record_output info ds) = du_live info"
  by (induction ds arbitrary: info) (auto simp: record_output_def split: if_splits)

lemma record_live_spec:
  "du_live (foldl record_live info ds) = du_live info \<union> {k. hm_get (du_uses info) k \<noteq> None \<and> (\<exists>d. (k, Some d) \<in> set ds)}"
  "du_definitions (foldl record_live info ds) = du_definitions info"
  "du_uses (foldl record_live info ds) = du_uses info"
  "du_inputs (foldl record_live info ds) = du_inputs info"
  "du_outputs (foldl record_live info ds) = du_outputs info"
  by (induction ds arbitrary: info) (auto simp: record_live_def split: if_splits)

lemma definitions_hm_ok:
  "hm_ok (du_definitions info) \<Longrightarrow> hm_ok (du_definitions (foldl record_definition info ops))"
  "hm_ok (du_definitions info) \<Longrightarrow> hm_ok (du_definitions (foldl record_input info ks))"
  by (induction ops arbitrary: info)
     (auto simp: record_definition_def hm_ok_insert split: option.splits,
      induction ks arbitrary: info, auto simp: record_input_def hm_ok_insert)

lemma uses_named_pairs:
  "map snd (filter (\<lambda>p. fst p = k) (concat (map (\<lambda>(i, op). map (\<lambda>src. (display_name src, i)) (sop_sources op)) ops))) =
     concat (map (\<lambda>(i, op). map (\<lambda>_. i) (filter (\<lambda>src. display_name src = k) (sop_sources op))) ops)"
  by (induction ops) (auto simp: filter_map comp_def)

text \<open>The maps and sets of \<open>def_use\<close>, name by name.\<close>

lemma def_use_maps:
  "hm_get (du_uses (def_use b)) k = (if uses_named b k = [] then None else Some (uses_named b k))"
  "hm_get (du_definitions (def_use b)) k =
     (if defs_named b k \<noteq> [] then Some (Some (last (defs_named b k))) else if uses_named b k \<noteq> [] then Some None else None)"
  "k \<in> du_inputs (def_use b) \<longleftrightarrow> uses_named b k \<noteq> [] \<and> defs_named b k = []"
  "k \<in> du_outputs (def_use b) \<longleftrightarrow> defs_named b k \<noteq> [] \<and> uses_named b k = []"
  "k \<in> du_live (def_use b) \<longleftrightarrow> defs_named b k \<noteq> [] \<and> uses_named b k \<noteq> []"
proof -
  let ?ops = "enumerate 0 (sb_ops b)"
  let ?i1 = "foldl record_definition du_new ?ops"
  let ?i2 = "foldl record_uses ?i1 ?ops"
  let ?i3 = "foldl record_input ?i2 (map fst (du_uses ?i2))"
  have e: "def_use b = foldl record_live (foldl record_output ?i3 (du_definitions ?i3)) (du_definitions ?i3)"
    by (simp add: def_use_def Let_def record_outputs_spec)
  have u: "hm_get (du_uses ?i2) k = (if uses_named b k = [] then None else Some (uses_named b k))" for k
    by (simp add: record_uses_spec record_definitions_rest du_new_def push_get uses_named_pairs uses_named_def)
  have d: "hm_get (du_definitions ?i2) k = (if defs_named b k = [] then None else Some (Some (last (defs_named b k))))" for k
    by (simp add: record_uses_spec record_definitions_spec du_new_def hm_get_def [of "[]"] defs_named_def split: list.split)
  have ks: "k \<in> set (map fst (du_uses ?i2)) \<longleftrightarrow> uses_named b k \<noteq> []" for k
    using u [of k] hm_get_None [of "du_uses ?i2" k] by (auto split: if_splits)
  have d3: "hm_get (du_definitions ?i3) k =
      (if defs_named b k \<noteq> [] then Some (Some (last (defs_named b k))) else if uses_named b k \<noteq> [] then Some None else None)" for k
    using ks [of k] by (simp add: record_inputs_spec d)
  have ok: "hm_ok (du_definitions ?i3)"
  proof -
    have "hm_ok (du_definitions du_new)" by (simp add: du_new_def hm_ok_def)
    then have "hm_ok (du_definitions ?i1)" by (rule definitions_hm_ok(1))
    then show ?thesis by (intro definitions_hm_ok(2)) (simp add: record_uses_spec)
  qed
  have m: "(\<exists>i. (k, Some i) \<in> set (du_definitions ?i3)) \<longleftrightarrow> defs_named b k \<noteq> []" for k
    using d3 [of k] by (simp add: hm_get_iff [OF ok, symmetric])
  show "hm_get (du_uses (def_use b)) k = (if uses_named b k = [] then None else Some (uses_named b k))"
    by (simp add: e record_live_spec record_outputs_spec record_inputs_spec u)
  show "hm_get (du_definitions (def_use b)) k =
     (if defs_named b k \<noteq> [] then Some (Some (last (defs_named b k))) else if uses_named b k \<noteq> [] then Some None else None)"
    by (simp add: e record_live_spec record_outputs_spec d3)
  show "k \<in> du_inputs (def_use b) \<longleftrightarrow> uses_named b k \<noteq> [] \<and> defs_named b k = []"
  proof -
    have "du_inputs ?i2 = {}" by (simp add: record_uses_spec record_definitions_rest du_new_def)
    then have "du_inputs ?i3 = {k \<in> set (map fst (du_uses ?i2)). hm_get (du_definitions ?i2) k = None}"
      unfolding record_inputs_spec(2) by simp
    then have "k \<in> du_inputs ?i3 \<longleftrightarrow> uses_named b k \<noteq> [] \<and> defs_named b k = []"
      unfolding mem_Collect_eq ks d by simp
    then show ?thesis by (simp add: e record_live_spec(4) record_outputs_spec(4))
  qed
  show "k \<in> du_outputs (def_use b) \<longleftrightarrow> defs_named b k \<noteq> [] \<and> uses_named b k = []"
  proof -
    have "du_outputs ?i3 = {}" by (simp add: record_inputs_spec record_uses_spec record_definitions_rest du_new_def)
    then have "k \<in> du_outputs (def_use b) \<longleftrightarrow> hm_get (du_uses ?i3) k = None \<and> (\<exists>i. (k, Some i) \<in> set (du_definitions ?i3))"
      unfolding e record_live_spec(5) record_outputs_spec(1) by simp
    then show ?thesis unfolding m record_inputs_spec(3) u by auto
  qed
  show "k \<in> du_live (def_use b) \<longleftrightarrow> defs_named b k \<noteq> [] \<and> uses_named b k \<noteq> []"
  proof -
    have "du_live ?i3 = {}" by (simp add: record_inputs_spec record_uses_spec record_definitions_rest du_new_def)
    then have "k \<in> du_live (def_use b) \<longleftrightarrow> hm_get (du_uses ?i3) k \<noteq> None \<and> (\<exists>i. (k, Some i) \<in> set (du_definitions ?i3))"
      unfolding e record_live_spec(1) record_outputs_spec(3,5) by simp
    then show ?thesis unfolding m record_inputs_spec(3) u by auto
  qed
qed

text \<open>Dead operations of a block: no control flow, no memory write, and a result no operation of the block
  reads. A user-defined operation with an unused result counts as dead.\<close>

lemma in_dead_ops:
  "i \<in> set (dead_ops b) \<longleftrightarrow>
     i < length (sb_ops b) \<and> \<not> sop_is_control_flow (sb_ops b ! i) \<and> \<not> sop_is_memory_write (sb_ops b ! i) \<and>
     (\<exists>d. sop_dst (sb_ops b ! i) = Some d \<and> uses_named b (display_name d) = [])"
proof -
  define g :: "nat \<times> SSAOp \<Rightarrow> nat option" where "g = (\<lambda>(idx, op). if sop_is_control_flow op \<or> sop_is_memory_write op then None
    else case sop_dst op of Some dst \<Rightarrow> if hm_get (du_uses (def_use b)) (display_name dst) = None then Some idx else None | None \<Rightarrow> None)"
  have g: "g (j, op) = Some i \<longleftrightarrow> j = i \<and> \<not> sop_is_control_flow op \<and> \<not> sop_is_memory_write op \<and>
      (\<exists>d. sop_dst op = Some d \<and> uses_named b (display_name d) = [])" for j op
    by (cases "sop_dst op") (auto simp: g_def def_use_maps)
  have "i \<in> set (List.map_filter g (enumerate 0 ops)) \<longleftrightarrow> i < length ops \<and> \<not> sop_is_control_flow (ops ! i) \<and>
      \<not> sop_is_memory_write (ops ! i) \<and> (\<exists>d. sop_dst (ops ! i) = Some d \<and> uses_named b (display_name d) = [])" for ops
    by (auto simp: in_set_map_filter set_enumerate0 g)
  then show ?thesis by (simp add: dead_ops_def g_def)
qed

section \<open>Direct dependence\<close>

text \<open>The variables an operation or phi reads, and the definitions and stores it directly depends on.\<close>

fun ref_sources :: "'g SSAFunction \<Rightarrow> SliceOpRef \<Rightarrow> SSAVar list" where
  "ref_sources f (SlicePhi a i) =
     (case fn_get_block f a of
        Some b \<Rightarrow> if i < length (fb_phis b) then map snd (pn_sources (fb_phis b ! i)) else []
      | None \<Rightarrow> [])"
| "ref_sources f (SliceOp a i) =
     (case fn_get_block f a of
        Some b \<Rightarrow> if i < length (fb_ops b) then sop_sources (fb_ops b ! i) else []
      | None \<Rightarrow> [])"

definition ref_op :: "'g SSAFunction \<Rightarrow> SliceOpRef \<Rightarrow> SSAOp option" where
  "ref_op f r =
     (case r of
        SlicePhi _ _ \<Rightarrow> None
      | SliceOp a i \<Rightarrow> Option.bind (fn_get_block f a) (\<lambda>b. if i < length (fb_ops b) then Some (fb_ops b ! i) else None))"

fun location_ref :: "u64 \<times> DefLocation \<Rightarrow> SliceOpRef" where
  "location_ref (a, DefPhi i) = SlicePhi a i"
| "location_ref (a, DefOp i) = SliceOp a i"

definition def_refs :: "'g SSAFunction \<Rightarrow> SSAVar \<Rightarrow> SliceOpRef set" where
  "def_refs f v = location_ref ` set_option (fst (find_def v f))"

definition store_ref :: "StoreInfo \<Rightarrow> SliceOpRef" where
  "store_ref st = SliceOp (si_block_addr st) (si_op_idx st)"

definition aliasing_stores :: "'g SSAFunction \<Rightarrow> string \<Rightarrow> SSAVar \<Rightarrow> u32 \<Rightarrow> SliceOpRef set" where
  "aliasing_stores f space addr sz =
     store_ref ` {st \<in> set (collect_store_infos f). si_space st = space \<and>
       addresses_may_alias (si_addr st) (si_access_size st) addr sz}"

definition load_stores :: "'g SSAFunction \<Rightarrow> SliceOpRef \<Rightarrow> SliceOpRef set" where
  "load_stores f r =
     (case ref_op f r of
        Some (Load dst space addr) \<Rightarrow> aliasing_stores f space addr (sv_size dst)
      | _ \<Rightarrow> {})"

definition depends_on :: "'g SSAFunction \<Rightarrow> (SliceOpRef \<times> SliceOpRef) set" where
  "depends_on f = {(r, r'). (\<exists>v \<in> set (ref_sources f r). r' \<in> def_refs f v) \<or> r' \<in> load_stores f r}"

text \<open>The stores the slicer collected are the store operations, and their sources are the address and the
  value.\<close>

lemma store_info_Some:
  "store_info a (i, op) = Some st \<longleftrightarrow>
     (\<exists>space addr val. op = Store space addr val \<and>
        st = \<lparr>si_block_addr = a, si_op_idx = i, si_space = space, si_addr = addr, si_val = val, si_access_size = sv_size val\<rparr>)"
  by (cases op) (auto simp: store_info_def)

lemma store_ref_sources:
  assumes "listed_blocks f" "st \<in> set (collect_store_infos f)"
  shows "ref_sources f (store_ref st) = [si_addr st, si_val st]" "load_stores f (store_ref st) = {}"
proof -
  obtain b i where b: "b \<in> set (fn_blocks_in_order f)" "i < length (fb_ops b)" "store_info (fb_addr b) (i, fb_ops b ! i) = Some st"
    using assms(2) by (auto simp: collect_store_infos_def in_set_map_filter set_enumerate0)
  then show "ref_sources f (store_ref st) = [si_addr st, si_val st]" "load_stores f (store_ref st) = {}"
    using block_at_own_addr [OF assms(1) b(1)]
    by (auto simp: store_info_Some store_ref_def load_stores_def ref_op_def)
qed

lemma ref_sources_flow_vars:
  assumes "listed_blocks f"
  shows "set (ref_sources f r) \<subseteq> flow_vars f"
proof
  fix v assume v: "v \<in> set (ref_sources f r)"
  obtain b where b: "fn_get_block f (sr_block_addr r) = Some b"
    using v by (cases r; cases "fn_get_block f (sr_block_addr r)") auto
  have bl: "b \<in> set (fn_blocks_in_order f)"
    using listed_blocksD [OF assms b] b by (auto simp: in_blocks_in_order)
  have "\<exists>site. (v, site) \<in> set (block_for_each_source b)"
  proof (cases r)
    case (SlicePhi a i)
    then have i: "i < length (fb_phis b)" "v \<in> snd ` set (pn_sources (fb_phis b ! i))" using v b by (auto split: if_splits)
    then obtain j p where "j < length (pn_sources (fb_phis b ! i))" "pn_sources (fb_phis b ! i) ! j = (p, v)"
      by (auto simp: in_set_conv_nth)
    then show ?thesis using i(1) unfolding ex_site in_block_sources by blast
  next
    case (SliceOp a i)
    then have i: "i < length (fb_ops b)" "v \<in> set (sop_sources (fb_ops b ! i))" using v b by (auto split: if_splits)
    then obtain j where "j < length (sop_sources (fb_ops b ! i))" "sop_sources (fb_ops b ! i) ! j = v"
      by (auto simp: in_set_conv_nth)
    then have "(v, SourceOp i j) \<in> set (block_for_each_source b)" using i(1) by (simp add: in_block_sources)
    then show ?thesis by blast
  qed
  then obtain site where "(v, fb_addr b, use_location site) \<in> set (all_uses f)" using bl in_all_uses by blast
  then show "v \<in> flow_vars f" unfolding flow_vars_def by force
qed

section \<open>Slicing\<close>

text \<open>A slice holds the operations \<open>S\<close> with the blocks they lie in, and every source of an operation in it is
  visited or queued: that is what each step of the walk keeps.\<close>

definition slice_blocks_ok :: "BackwardSlice \<Rightarrow> bool" where
  "slice_blocks_ok sl \<longleftrightarrow> bs_blocks sl = sr_block_addr ` bs_ops sl"

definition pending :: "'g SSAFunction \<Rightarrow> string set \<Rightarrow> BackwardSlice \<times> SSAVar list \<Rightarrow> bool" where
  "pending f seen st \<longleftrightarrow> (\<forall>r \<in> bs_ops (fst st). \<forall>v \<in> set (ref_sources f r). display_name v \<in> seen \<union> display_name ` set (snd st))"

text \<open>A step that adds the operations \<open>R\<close> and queues variables: new operations bring their sources along.\<close>

definition slice_extends :: "'g SSAFunction \<Rightarrow> SliceOpRef set \<Rightarrow> BackwardSlice \<times> SSAVar list \<Rightarrow> BackwardSlice \<times> SSAVar list \<Rightarrow> bool" where
  "slice_extends f R st st' \<longleftrightarrow>
     bs_ops (fst st') = bs_ops (fst st) \<union> R \<and> (slice_blocks_ok (fst st) \<longrightarrow> slice_blocks_ok (fst st')) \<and>
     (\<exists>ws. snd st' = snd st @ ws \<and> set ws = (\<Union>r \<in> R - bs_ops (fst st). set (ref_sources f r)))"

lemma slice_extends_refl: "R \<subseteq> bs_ops (fst st) \<Longrightarrow> slice_extends f R st st"
  by (auto simp: slice_extends_def)

lemma slice_extends_trans:
  assumes "slice_extends f R st st1" "slice_extends f R' st1 st2"
  shows "slice_extends f (R \<union> R') st st2"
proof -
  obtain ws ws' where "snd st1 = snd st @ ws" "set ws = (\<Union>r \<in> R - bs_ops (fst st). set (ref_sources f r))"
    "snd st2 = snd st1 @ ws'" "set ws' = (\<Union>r \<in> R' - bs_ops (fst st1). set (ref_sources f r))"
    "bs_ops (fst st1) = bs_ops (fst st) \<union> R"
    using assms by (auto simp: slice_extends_def)
  then have "snd st2 = snd st @ (ws @ ws')" "set (ws @ ws') = (\<Union>r \<in> R \<union> R' - bs_ops (fst st). set (ref_sources f r))"
    by auto
  then show ?thesis using assms unfolding slice_extends_def by blast
qed

lemma extends_add:
  assumes "slice_add_op r sl = (inserted, sl1)"
  shows "slice_extends f {r} (sl, w) (sl1, if inserted then w @ ref_sources f r else w)"
  using assms by (auto simp: slice_add_op_def slice_extends_def slice_blocks_ok_def split: if_splits)

lemma aliasing_stores_extends:
  assumes "listed_blocks f" "\<And>st. st \<in> set stores \<Longrightarrow> st \<in> set (collect_store_infos f)"
  shows "slice_extends f (store_ref ` {st \<in> set stores. si_space st = space \<and> addresses_may_alias (si_addr st) (si_access_size st) addr sz})
    s (add_aliasing_stores stores space addr sz s)"
  using assms(2)
proof (induction stores arbitrary: s)
  case (Cons st stores)
  obtain sl w where s: "s = (sl, w)" by (cases s)
  let ?A = "\<lambda>stores. store_ref ` {st \<in> set stores. si_space st = space \<and> addresses_may_alias (si_addr st) (si_access_size st) addr sz}"
  show ?case
  proof (cases "si_space st = space \<and> addresses_may_alias (si_addr st) (si_access_size st) addr sz")
    case True
    obtain ins sl1 where a: "slice_add_op (store_ref st) sl = (ins, sl1)" by fastforce
    have "add_aliasing_stores (st # stores) space addr sz s =
        add_aliasing_stores stores space addr sz (sl1, if ins then w @ ref_sources f (store_ref st) else w)"
      using True a Cons.prems store_ref_sources(1) [OF assms(1), of st]
      by (simp add: add_aliasing_stores_def s store_ref_def)
    moreover have "?A (st # stores) = {store_ref st} \<union> ?A stores" using True by auto
    ultimately show ?thesis
      using slice_extends_trans [OF extends_add [OF a, of f w] Cons.IH] Cons.prems by (simp add: s)
  next
    case False
    then have "add_aliasing_stores (st # stores) space addr sz s = add_aliasing_stores stores space addr sz s"
      by (auto simp: add_aliasing_stores_def s)
    moreover have "?A (st # stores) = ?A stores" using False by auto
    ultimately show ?thesis using Cons.IH Cons.prems by simp
  qed
qed (simp add: add_aliasing_stores_def slice_extends_refl)

lemma slice_phi_def_extends: "slice_extends f {SlicePhi a i} st (slice_phi_def f a i st)"
proof -
  obtain sl w where st: "st = (sl, w)" by (cases st)
  obtain ins sl1 where a: "slice_add_op (SlicePhi a i) sl = (ins, sl1)" by fastforce
  have "slice_phi_def f a i st = (sl1, if ins then w @ ref_sources f (SlicePhi a i) else w)"
    by (auto simp: slice_phi_def_def st a split: option.splits)
  then show ?thesis using extends_add [OF a, of f w] by (simp add: st)
qed

lemma slice_op_def_extends:
  assumes "listed_blocks f" "SliceOp a i \<in> bs_ops (fst st) \<Longrightarrow> load_stores f (SliceOp a i) \<subseteq> bs_ops (fst st)"
  shows "slice_extends f ({SliceOp a i} \<union> load_stores f (SliceOp a i)) st (slice_op_def f (collect_store_infos f) a i st)"
proof -
  let ?r = "SliceOp a i"
  obtain sl w where st: "st = (sl, w)" by (cases st)
  obtain ins sl1 where a: "slice_add_op ?r sl = (ins, sl1)" by fastforce
  note add = extends_add [OF a, of f w]
  show ?thesis
  proof (cases ins)
    case False
    then have "slice_op_def f (collect_store_infos f) a i st = (sl, w)" "?r \<in> bs_ops sl"
      using a by (auto simp: slice_op_def_def st slice_add_op_def split: if_splits)
    then show ?thesis using assms(2) by (simp add: st slice_extends_refl)
  next
    case ins: True
    show ?thesis
    proof (cases "ref_op f ?r")
      case None
      then have "slice_op_def f (collect_store_infos f) a i st = (sl1, w)" "load_stores f ?r = {}" "ref_sources f ?r = []"
        by (auto simp: slice_op_def_def st a ins load_stores_def ref_op_def split: option.splits if_splits)
      then show ?thesis using add ins by (simp add: st del: ref_sources.simps)
    next
      case (Some op)
      then obtain b where b: "fn_get_block f a = Some b" "i < length (fb_ops b)" "op = fb_ops b ! i"
        by (auto simp: ref_op_def Option.bind_eq_Some_conv split: if_splits)
      let ?st = "(sl1, w @ sop_sources op)"
      have rs: "ref_sources f ?r = sop_sources op" using b by simp
      have e: "slice_op_def f (collect_store_infos f) a i st =
          (case op of Load dst space addr \<Rightarrow> add_aliasing_stores (collect_store_infos f) space addr (sv_size dst) ?st | _ \<Rightarrow> ?st)"
        using b(1,2) unfolding b(3) by (simp add: slice_op_def_def st a ins Let_def)
      have "slice_extends f (load_stores f ?r) ?st (slice_op_def f (collect_store_infos f) a i st)"
      proof (cases "\<exists>dst space addr. op = Load dst space addr")
        case True
        then obtain dst space addr where "op = Load dst space addr" by blast
        then show ?thesis
          using aliasing_stores_extends [OF assms(1), of "collect_store_infos f" space addr "sv_size dst" ?st]
          by (simp add: e load_stores_def Some aliasing_stores_def)
      next
        case False
        then show ?thesis unfolding e load_stores_def Some by (cases op) (simp_all add: slice_extends_refl)
      qed
      then show ?thesis using slice_extends_trans [OF add [unfolded rs]] ins by (simp add: st)
    qed
  qed
qed

text \<open>The invariant of the walk towards a set \<open>G\<close> that is closed under dependence. The walk remembers
  names: for each it has seen, it holds the definitions of one variable of that name.\<close>

definition slice_inv :: "'g SSAFunction \<Rightarrow> SSAVar set \<Rightarrow> SliceOpRef set \<Rightarrow> slice_state \<Rightarrow> bool" where
  "slice_inv f U G s \<longleftrightarrow>
     bs_ops (ws_slice s) \<subseteq> G \<and> slice_blocks_ok (ws_slice s) \<and>
     pending f (ws_visited s) (ws_slice s, ws_worklist s) \<and>
     (\<forall>v \<in> set (ws_worklist s). v \<in> U \<and> def_refs f v \<subseteq> G) \<and>
     (\<forall>r \<in> bs_ops (ws_slice s). load_stores f r \<subseteq> bs_ops (ws_slice s)) \<and>
     (\<forall>nm \<in> ws_visited s. \<exists>x \<in> U. display_name x = nm \<and> def_refs f x \<subseteq> bs_ops (ws_slice s))"

definition slice_setting :: "'g SSAFunction \<Rightarrow> SSAVar set \<Rightarrow> SliceOpRef set \<Rightarrow> bool" where
  "slice_setting f U G \<longleftrightarrow>
     listed_blocks f \<and> finite U \<and> (\<forall>r. set (ref_sources f r) \<subseteq> U) \<and> depends_on f `` G \<subseteq> G"

lemma walk_round_state:
  assumes "slice_setting f U G" "slice_inv f U G s" "ws_worklist s = v # w" "display_name v \<notin> ws_visited s"
  defines "R \<equiv> \<Union>r \<in> def_refs f v. {r} \<union> load_stores f r"
    and "s' \<equiv> walk_round f (collect_store_infos f) v w s"
  shows "slice_extends f R (ws_slice s, w) (ws_slice s', ws_worklist s')" "ws_visited s' = insert (display_name v) (ws_visited s)" "R \<subseteq> G"
    "\<forall>r \<in> R. load_stores f r \<subseteq> R"
proof -
  have ls: "listed_blocks f" using assms(1) by (simp add: slice_setting_def)
  have closed: "load_stores f r \<subseteq> bs_ops (ws_slice s)" if "r \<in> bs_ops (ws_slice s)" for r
    using assms(2) that by (auto simp: slice_inv_def)
  show "ws_visited s' = insert (display_name v) (ws_visited s)"
    using assms(4) by (simp add: s'_def walk_round_def Let_def)
  have "(ws_slice s', ws_worklist s') = (case fst (find_def v f) of
        None \<Rightarrow> (ws_slice s, w)
      | Some (a, DefPhi i) \<Rightarrow> slice_phi_def f a i (ws_slice s, w)
      | Some (a, DefOp i) \<Rightarrow> slice_op_def f (collect_store_infos f) a i (ws_slice s, w))"
    using assms(4) by (simp add: s'_def walk_round_def Let_def)
  then show "slice_extends f R (ws_slice s, w) (ws_slice s', ws_worklist s')"
    using slice_phi_def_extends [of f] slice_op_def_extends [OF ls] closed
    by (auto simp: R_def def_refs_def slice_extends_refl load_stores_def [of f "SlicePhi _ _"] ref_op_def [of f "SlicePhi _ _"]
        split: option.splits prod.splits DefLocation.splits)
  have "def_refs f v \<subseteq> G" using assms(2,3) by (simp add: slice_inv_def)
  then show "R \<subseteq> G" using assms(1) by (fastforce simp: R_def slice_setting_def depends_on_def)
  have "load_stores f r = {}" if "r \<in> load_stores f r'" for r r'
    using that store_ref_sources(2) [OF ls]
    by (cases "ref_op f r'") (auto simp: load_stores_def [of f r'] aliasing_stores_def split: SSAOp.splits)
  then show "\<forall>r \<in> R. load_stores f r \<subseteq> R" by (auto simp: R_def)
qed

lemma slice_invD:
  assumes "slice_inv f U G s"
  shows "bs_ops (ws_slice s) \<subseteq> G" "slice_blocks_ok (ws_slice s)"
    and "r \<in> bs_ops (ws_slice s) \<Longrightarrow> x \<in> set (ref_sources f r) \<Longrightarrow> display_name x \<in> ws_visited s \<union> display_name ` set (ws_worklist s)"
    and "x \<in> set (ws_worklist s) \<Longrightarrow> x \<in> U" "x \<in> set (ws_worklist s) \<Longrightarrow> def_refs f x \<subseteq> G"
    and "r \<in> bs_ops (ws_slice s) \<Longrightarrow> load_stores f r \<subseteq> bs_ops (ws_slice s)"
    and "nm \<in> ws_visited s \<Longrightarrow> \<exists>x \<in> U. display_name x = nm \<and> def_refs f x \<subseteq> bs_ops (ws_slice s)"
  using assms by (auto simp: slice_inv_def pending_def)

lemma walk_round_inv:
  assumes S: "slice_setting f U G" and i: "slice_inv f U G s" and w: "ws_worklist s = v # w"
  defines "s' \<equiv> walk_round f (collect_store_infos f) v w s"
  shows "slice_inv f U G s'"
proof (cases "display_name v \<in> ws_visited s")
  case True
  then have s': "s' = s\<lparr>ws_worklist := w\<rparr>" by (simp add: s'_def walk_round_def Let_def)
  have "pending f (ws_visited s) (ws_slice s, w)"
    using slice_invD(3) [OF i] True unfolding w pending_def by fastforce
  then show ?thesis using i w by (simp add: slice_inv_def s')
next
  case False
  define R where "R = (\<Union>r \<in> def_refs f v. {r} \<union> load_stores f r)"
  note r = walk_round_state [OF S i w False, folded s'_def R_def]
  obtain ws where ws: "ws_worklist s' = w @ ws" "set ws = (\<Union>r \<in> R - bs_ops (ws_slice s). set (ref_sources f r))"
    and ops: "bs_ops (ws_slice s') = bs_ops (ws_slice s) \<union> R" and blocks: "slice_blocks_ok (ws_slice s')"
    using r(1) slice_invD(2) [OF i] by (auto simp: slice_extends_def)
  have U: "v \<in> U" "set (ref_sources f x) \<subseteq> U" "depends_on f `` G \<subseteq> G" for x
    using S slice_invD(4) [OF i, of v] w by (auto simp: slice_setting_def)
  have new: "x \<in> U" "def_refs f x \<subseteq> G" if x: "x \<in> set ws" for x
  proof -
    obtain q where "q \<in> R" "x \<in> set (ref_sources f q)" using x unfolding ws(2) by blast
    then have "q \<in> G" "x \<in> set (ref_sources f q)" using subsetD [OF r(3)] by auto
    then have "x \<in> U \<and> def_refs f x \<subseteq> depends_on f `` G" using U(2) by (fastforce simp: depends_on_def)
    then show "x \<in> U" "def_refs f x \<subseteq> G" using U(3) by auto
  qed
  have "display_name x \<in> ws_visited s' \<union> display_name ` set (ws_worklist s')"
    if "q \<in> bs_ops (ws_slice s')" "x \<in> set (ref_sources f q)" for q x
  proof (cases "q \<in> bs_ops (ws_slice s)")
    case True
    then show ?thesis using slice_invD(3) [OF i True that(2)] by (auto simp: r(2) w ws(1))
  next
    case False
    then show ?thesis using that ops by (auto simp: ws)
  qed
  moreover have "\<exists>x \<in> U. display_name x = nm \<and> def_refs f x \<subseteq> bs_ops (ws_slice s')" if "nm \<in> ws_visited s'" for nm
  proof (cases "nm \<in> ws_visited s")
    case True
    then show ?thesis using slice_invD(7) [OF i True] ops by auto
  next
    case False
    then have "nm = display_name v" using that r(2) by simp
    then show ?thesis using ops U(1) by (auto simp: R_def)
  qed
  moreover have "load_stores f q \<subseteq> bs_ops (ws_slice s')" if "q \<in> bs_ops (ws_slice s')" for q
    using that slice_invD(6) [OF i, of q] r(4) unfolding ops by blast
  moreover have "x \<in> U \<and> def_refs f x \<subseteq> G" if "x \<in> set (ws_worklist s')" for x
    using that new slice_invD(4,5) [OF i, of x] w by (auto simp: ws(1))
  moreover have "bs_ops (ws_slice s') \<subseteq> G" using slice_invD(1) [OF i] r(3) ops by simp
  ultimately show ?thesis using blocks by (simp add: slice_inv_def pending_def)
qed

lemma walk_round_visited:
  "ws_visited (walk_round f stores v w s) = insert (display_name v) (ws_visited s)"
  "display_name v \<in> ws_visited s \<Longrightarrow> ws_worklist (walk_round f stores v w s) = w"
  by (auto simp: walk_round_def Let_def)

text \<open>The walk ends: a round visits a new name, of which there are finitely many, or shortens the queue.
  It ends with everything the queued variables and the operations of the slice depend on.\<close>

lemma walk_backward_returns:
  assumes "slice_setting f U G" "slice_inv f U G s"
  shows "\<exists>s'. walk_backward f (collect_store_infos f) s = Some s' \<and> slice_inv f U G s' \<and> ws_worklist s' = [] \<and>
    bs_ops (ws_slice s) \<subseteq> bs_ops (ws_slice s') \<and> ws_visited s \<union> display_name ` set (ws_worklist s) \<subseteq> ws_visited s'"
  using assms(2)
proof (induction "(card (display_name ` U - ws_visited s), length (ws_worklist s))" arbitrary: s
    rule: wf_induct_rule [OF wf_lex_prod [OF wf_less_than wf_less_than]])
  case 1
  show ?case
  proof (cases "ws_worklist s")
    case Nil
    then have "walk_backward f (collect_store_infos f) s = Some s" by (subst walk_backward.simps) simp
    then show ?thesis using 1(2) Nil by auto
  next
    case (Cons v w)
    let ?s = "walk_round f (collect_store_infos f) v w s"
    have e: "walk_backward f (collect_store_infos f) s = walk_backward f (collect_store_infos f) ?s"
      by (subst walk_backward.simps) (simp add: Cons)
    have fin: "finite (display_name ` U)" using assms(1) by (simp add: slice_setting_def)
    have v: "v \<in> U" using slice_invD(4) [OF 1(2)] Cons by simp
    have "((card (display_name ` U - ws_visited ?s), length (ws_worklist ?s)),
        (card (display_name ` U - ws_visited s), length (ws_worklist s))) \<in> less_than <*lex*> less_than"
    proof (cases "display_name v \<in> ws_visited s")
      case True
      then show ?thesis using Cons by (simp add: walk_round_visited insert_absorb)
    next
      case False
      then have "display_name ` U - ws_visited ?s \<subset> display_name ` U - ws_visited s"
        using v by (auto simp: walk_round_visited(1))
      then show ?thesis using psubset_card_mono [of "display_name ` U - ws_visited s"] fin by simp
    qed
    then obtain s' where s': "walk_backward f (collect_store_infos f) ?s = Some s'" "slice_inv f U G s'" "ws_worklist s' = []"
      "bs_ops (ws_slice ?s) \<subseteq> bs_ops (ws_slice s')" "ws_visited ?s \<union> display_name ` set (ws_worklist ?s) \<subseteq> ws_visited s'"
      using 1(1) walk_round_inv [OF assms(1) 1(2) Cons] by blast
    have mono: "bs_ops (ws_slice s) \<subseteq> bs_ops (ws_slice ?s)" "set w \<subseteq> set (ws_worklist ?s)"
      using walk_round_state(1) [OF assms(1) 1(2) Cons] walk_round_visited(2) [of v s f "collect_store_infos f" w]
      by (cases "display_name v \<in> ws_visited s"; auto simp: slice_extends_def walk_round_def Let_def)+
    have "ws_visited s \<union> display_name ` set (ws_worklist s) \<subseteq> ws_visited ?s \<union> display_name ` set (ws_worklist ?s)"
      using mono(2) by (auto simp: walk_round_visited(1) Cons)
    then have "ws_visited s \<union> display_name ` set (ws_worklist s) \<subseteq> ws_visited s'" using s'(5) by (rule order_trans)
    then show ?thesis using e s'(1-3) order_trans [OF mono(1) s'(4)] by (intro exI [of _ s']) simp
  qed
qed

text \<open>What a finished walk holds: a part of the closure of what it started with, in which every source
  is represented by a variable of its name. The first variable of the queue represents itself.\<close>

definition slice_complete :: "'g SSAFunction \<Rightarrow> SSAVar set \<Rightarrow> SliceOpRef set \<Rightarrow> bool" where
  "slice_complete f U S \<longleftrightarrow> (\<forall>r \<in> S. load_stores f r \<subseteq> S \<and>
     (\<forall>x \<in> set (ref_sources f r). \<exists>y \<in> U. display_name y = display_name x \<and> def_refs f y \<subseteq> S))"

lemma walk_backward_spec:
  assumes "listed_blocks f" "slice_blocks_ok sl" "pending f {} (sl, w)" "\<forall>r \<in> bs_ops sl. load_stores f r \<subseteq> bs_ops sl"
  shows "\<exists>s'. walk_backward f (collect_store_infos f) \<lparr>ws_slice = sl, ws_worklist = w, ws_visited = {}\<rparr> = Some s' \<and>
    slice_blocks_ok (ws_slice s') \<and> bs_ops sl \<subseteq> bs_ops (ws_slice s') \<and>
    bs_ops (ws_slice s') \<subseteq> (depends_on f)\<^sup>* `` (bs_ops sl \<union> (\<Union>v \<in> set w. def_refs f v)) \<and>
    slice_complete f (flow_vars f \<union> set w) (bs_ops (ws_slice s')) \<and>
    (\<forall>v \<in> set w. \<exists>y \<in> flow_vars f \<union> set w. display_name y = display_name v \<and> def_refs f y \<subseteq> bs_ops (ws_slice s')) \<and>
    (w \<noteq> [] \<longrightarrow> def_refs f (hd w) \<subseteq> bs_ops (ws_slice s'))"
proof -
  let ?I = "bs_ops sl \<union> (\<Union>v \<in> set w. def_refs f v)" and ?U = "flow_vars f \<union> set w"
  let ?G = "(depends_on f)\<^sup>* `` ?I" and ?s = "\<lparr>ws_slice = sl, ws_worklist = w, ws_visited = {}\<rparr>"
  have "depends_on f `` ?G \<subseteq> ?G" using rtrancl_into_rtrancl [of _ _ "depends_on f"] by blast
  then have S: "slice_setting f ?U ?G"
    unfolding slice_setting_def using assms(1) finite_flow_vars [of f] ref_sources_flow_vars [OF assms(1)] by (simp add: le_supI1)
  have "?I \<subseteq> ?G" by auto
  then have inv: "slice_inv f ?U ?G ?s" using assms(2-4) by (auto simp: slice_inv_def)
  from walk_backward_returns [OF S inv] obtain s' where
    s': "walk_backward f (collect_store_infos f) ?s = Some s'" "slice_inv f ?U ?G s'" "ws_worklist s' = []"
      "bs_ops sl \<subseteq> bs_ops (ws_slice s')" "display_name ` set w \<subseteq> ws_visited s'" by auto
  note i = slice_invD [OF s'(2)]
  have "def_refs f (hd w) \<subseteq> bs_ops (ws_slice s')" if "w \<noteq> []"
  proof -
    obtain v vs where w: "w = v # vs" using \<open>w \<noteq> []\<close> by (cases w) auto
    let ?t = "walk_round f (collect_store_infos f) v vs ?s"
    have e: "walk_backward f (collect_store_infos f) ?s = walk_backward f (collect_store_infos f) ?t"
      by (subst walk_backward.simps) (simp add: w)
    have "ws_worklist ?s = v # vs" by (simp add: w)
    note t = walk_round_inv [OF S inv this] walk_round_state(1) [OF S inv this]
    have "def_refs f v \<subseteq> bs_ops (ws_slice ?t)" using t(2) by (auto simp: slice_extends_def)
    moreover have "bs_ops (ws_slice ?t) \<subseteq> bs_ops (ws_slice s')"
      using walk_backward_returns [OF S t(1)] e s'(1) by auto
    ultimately show ?thesis by (simp add: w)
  qed
  moreover have "slice_complete f ?U (bs_ops (ws_slice s'))"
    unfolding slice_complete_def using i(3,6,7) s'(3) by simp
  moreover have "\<exists>y \<in> ?U. display_name y = display_name v \<and> def_refs f y \<subseteq> bs_ops (ws_slice s')" if "v \<in> set w" for v
    using i(7) [of "display_name v"] s'(5) that by auto
  ultimately show ?thesis using s'(1,4) i(1,2) by blast
qed

text \<open>Where names tell variables apart, that part is everything.\<close>

lemma slice_complete_closed:
  assumes "listed_blocks f" "inj_on display_name U" "flow_vars f \<subseteq> U" "slice_complete f U S" "X \<subseteq> S"
  shows "(depends_on f)\<^sup>* `` X \<subseteq> S"
proof -
  have step: "r' \<in> S" if r: "r \<in> S" "(r, r') \<in> depends_on f" for r r'
  proof -
    have "def_refs f x \<subseteq> S" if x: "x \<in> set (ref_sources f r)" for x
    proof -
      obtain y where y: "y \<in> U" "display_name y = display_name x" "def_refs f y \<subseteq> S"
        using assms(4) r(1) x unfolding slice_complete_def by blast
      have "x \<in> U" using ref_sources_flow_vars [OF assms(1)] assms(3) x by blast
      then show ?thesis using inj_onD [OF assms(2) y(2,1)] y(3) by simp
    qed
    moreover have "load_stores f r \<subseteq> S" using assms(4) r(1) by (simp add: slice_complete_def)
    ultimately show ?thesis using r(2) by (auto simp: depends_on_def)
  qed
  have "r' \<in> S" if "(r, r') \<in> (depends_on f)\<^sup>*" "r \<in> S" for r r'
    using that by (induction rule: rtrancl_induct) (auto intro: step)
  then show ?thesis using assms(5) by blast
qed

lemma walk_backward_closure:
  assumes "listed_blocks f" "inj_on display_name (flow_vars f \<union> set w)" "slice_blocks_ok sl"
    and "pending f {} (sl, w)" "\<forall>r \<in> bs_ops sl. load_stores f r \<subseteq> bs_ops sl"
  shows "\<exists>s'. walk_backward f (collect_store_infos f) \<lparr>ws_slice = sl, ws_worklist = w, ws_visited = {}\<rparr> = Some s' \<and>
    bs_ops (ws_slice s') = (depends_on f)\<^sup>* `` (bs_ops sl \<union> (\<Union>v \<in> set w. def_refs f v)) \<and> slice_blocks_ok (ws_slice s')"
proof -
  let ?I = "bs_ops sl \<union> (\<Union>v \<in> set w. def_refs f v)" and ?U = "flow_vars f \<union> set w"
  obtain s' where s': "walk_backward f (collect_store_infos f) \<lparr>ws_slice = sl, ws_worklist = w, ws_visited = {}\<rparr> = Some s'"
    "slice_blocks_ok (ws_slice s')" "bs_ops sl \<subseteq> bs_ops (ws_slice s')" "bs_ops (ws_slice s') \<subseteq> (depends_on f)\<^sup>* `` ?I"
    "slice_complete f ?U (bs_ops (ws_slice s'))"
    "\<forall>v \<in> set w. \<exists>y \<in> ?U. display_name y = display_name v \<and> def_refs f y \<subseteq> bs_ops (ws_slice s')"
    using walk_backward_spec [OF assms(1,3-5)] by blast
  have "def_refs f v \<subseteq> bs_ops (ws_slice s')" if v: "v \<in> set w" for v
  proof -
    obtain y where y: "y \<in> ?U" "display_name y = display_name v" "def_refs f y \<subseteq> bs_ops (ws_slice s')" using s'(6) v by blast
    then show ?thesis using inj_onD [OF assms(2) y(2,1)] v by simp
  qed
  then have "?I \<subseteq> bs_ops (ws_slice s')" using s'(3) by blast
  then have "(depends_on f)\<^sup>* `` ?I \<subseteq> bs_ops (ws_slice s')"
    using slice_complete_closed [OF assms(1,2) _ s'(5)] by simp
  then show ?thesis using s'(1,2,4) by blast
qed

text \<open>The start of a slice at an operation.\<close>

definition start_stores :: "'g SSAFunction \<Rightarrow> SliceOpRef \<Rightarrow> SliceOpRef set" where
  "start_stores f r =
     (case ref_op f r of
        Some (Load dst space addr) \<Rightarrow> aliasing_stores f space addr (sv_size dst)
      | Some (Store space addr val) \<Rightarrow> aliasing_stores f space addr (sv_size val)
      | _ \<Rightarrow> {})"

fun ref_exists :: "'g SSAFunction \<Rightarrow> SliceOpRef \<Rightarrow> bool" where
  "ref_exists f (SlicePhi a i) \<longleftrightarrow> (\<exists>b. fn_get_block f a = Some b \<and> i < length (fb_phis b))"
| "ref_exists f (SliceOp a i) \<longleftrightarrow> (\<exists>b. fn_get_block f a = Some b \<and> i < length (fb_ops b))"

lemma load_store_leaf:
  assumes "listed_blocks f" "q \<in> aliasing_stores f space addr sz"
  shows "load_stores f q = {}"
  using assms(2) store_ref_sources(2) [OF assms(1)] by (auto simp: aliasing_stores_def)

lemma start_stores_load:
  assumes "listed_blocks f" "q \<in> {r} \<union> start_stores f r"
  shows "load_stores f q \<subseteq> {r} \<union> start_stores f r"
proof (cases "q = r")
  case True
  then show ?thesis by (cases "ref_op f r") (auto simp: load_stores_def start_stores_def split: SSAOp.split)
next
  case False
  then have "q \<in> start_stores f r" using assms(2) by simp
  then have "\<exists>space addr sz. q \<in> aliasing_stores f space addr sz"
    by (cases "ref_op f r") (auto simp: start_stores_def split: SSAOp.splits)
  then show ?thesis using load_store_leaf [OF assms(1)] by blast
qed

lemma slice_start_extends:
  assumes "listed_blocks f" "ref_exists f r"
  shows "slice_extends f ({r} \<union> start_stores f r) (slice_default, []) (slice_start f (collect_store_infos f) r)"
proof -
  let ?sl = "snd (slice_add_op r slice_default)"
  have add: "slice_extends f {r} (slice_default, []) (?sl, ref_sources f r)"
    using extends_add [of r slice_default True ?sl f "[]"] by (simp add: slice_add_op_def slice_default_def)
  show ?thesis
  proof (cases r)
    case (SlicePhi a i)
    then show ?thesis using assms(2) add by (auto simp: slice_start_def start_stores_def ref_op_def)
  next
    case (SliceOp a i)
    then obtain b where b: "fn_get_block f a = Some b" "i < length (fb_ops b)" using assms(2) by auto
    let ?op = "fb_ops b ! i" and ?st = "(?sl, sop_sources (fb_ops b ! i))"
    have op: "ref_op f r = Some ?op" and rs: "ref_sources f r = sop_sources ?op" using b SliceOp by (simp_all add: ref_op_def)
    have e: "slice_start f (collect_store_infos f) r =
        (case ?op of Load dst space addr \<Rightarrow> add_aliasing_stores (collect_store_infos f) space addr (sv_size dst) ?st
         | Store space addr val \<Rightarrow> add_aliasing_stores (collect_store_infos f) space addr (sv_size val) ?st | _ \<Rightarrow> ?st)"
      using b unfolding SliceOp by (simp add: slice_start_def Let_def)
    note al = aliasing_stores_extends [OF assms(1), of "collect_store_infos f" _ _ _ ?st, folded aliasing_stores_def]
    have "slice_extends f (start_stores f r) ?st (slice_start f (collect_store_infos f) r)"
    proof (cases "(\<exists>dst space addr. ?op = Load dst space addr) \<or> (\<exists>space addr val. ?op = Store space addr val)")
      case True
      then show ?thesis using al by (auto simp: e start_stores_def op)
    next
      case False
      then show ?thesis unfolding e start_stores_def op by (cases ?op) (simp_all add: slice_extends_refl)
    qed
    then show ?thesis using slice_extends_trans [OF add [unfolded rs]] by simp
  qed
qed

section \<open>Examples\<close>

lemma copied_store_def_site: "fst (find_def (ssa_new ''reg:0'' 1 8) (copied_store 8)) = Some (0x1000, DefOp 0)"
  by (simp add: copied_store_def find_def_def ensure_query_index_def query_index_build_def fn_blocks_in_order_def hm_get_def
      map_filter_simps index_block_def index_op_def index_def_def index_use_def get_names_def ssa_new_def)

lemma copied_store_setting:
  "listed_blocks (copied_store 8)" "inj_on display_name (flow_vars (copied_store 8))"
  "ssa_new ''reg:0'' 1 8 \<in> flow_vars (copied_store 8)"
proof -
  have f: "ta_func (copied_store_taint 8) = copied_store 8" by (simp add: copied_store_taint_def taint_new_def)
  show "listed_blocks (copied_store 8)" using copied_store_blocks(1) [of 8] by (simp add: f)
  show "inj_on display_name (flow_vars (copied_store 8))" "ssa_new ''reg:0'' 1 8 \<in> flow_vars (copied_store 8)"
    unfolding copied_store_vars [of 8, unfolded f]
    by (simp_all add: display_name_def ssa_new_def starts_with_def to_ascii_uppercase_def to_upper_char_def)
qed

text \<open>A register that is written as a whole and read at two sizes.\<close>

definition mixed_sizes :: "list_digraph SSAFunction" where
  "mixed_sizes = (copied_store 8)\<lparr>fn_blocks :=
     [(0x1000, \<lparr>fb_addr = 0x1000, fb_size = 4,
        fb_ops = [Copy (ssa_new ''reg:0'' 1 8) (ssa_new ''rdi'' 0 8),
                  IntAdd (ssa_new ''rax'' 1 8) (ssa_new ''reg:0'' 1 4) (ssa_new ''reg:0'' 1 8)],
        fb_phis = []\<rparr>)]\<rparr>"

section \<open>Properties\<close>

text \<open>The chains of a block are those of its operations: a name is defined at its last definition and
  used at every use, in order; inputs, outputs and live names are told apart by whether they are
  defined and used.\<close>

theorem def_use_spec:
  "get_def (def_use b) v = (if defs_named b (display_name v) = [] then None else Some (last (defs_named b (display_name v)))) \<and>
   get_uses (def_use b) v = uses_named b (display_name v) \<and>
   (is_input (def_use b) v \<longleftrightarrow> uses_named b (display_name v) \<noteq> [] \<and> defs_named b (display_name v) = []) \<and>
   (is_output (def_use b) v \<longleftrightarrow> defs_named b (display_name v) \<noteq> [] \<and> uses_named b (display_name v) = []) \<and>
   (is_live (def_use b) v \<longleftrightarrow> defs_named b (display_name v) \<noteq> [] \<and> uses_named b (display_name v) \<noteq> [])"
  by (simp add: get_def_def get_uses_def is_input_def is_output_def is_live_def def_use_maps)

text \<open>C11. A backward slice from a variable ends, in a function that lists its blocks. It holds the definition of the variable, and only
  operations and phis that definition depends on, directly or not, through definitions of sources and
  stores that may alias a load, together with the blocks they lie in. It is closed under those stores,
  and under sources up to their display names: for every source of an operation it holds, it holds
  the definition of one variable of that name, as the walk remembers variables by name without size.
  So if display names are unique it holds everything the definition depends on.\<close>

theorem backward_slice_var_exact:
  assumes "listed_blocks f"
  shows "\<exists>sl. backward_slice_from_var f sink = Some sl \<and> bs_blocks sl = sr_block_addr ` bs_ops sl \<and>
    def_refs f sink \<subseteq> bs_ops sl \<and> bs_ops sl \<subseteq> (depends_on f)\<^sup>* `` def_refs f sink \<and>
    (\<forall>r \<in> bs_ops sl. load_stores f r \<subseteq> bs_ops sl \<and>
       (\<forall>x \<in> set (ref_sources f r). \<exists>y \<in> insert sink (flow_vars f).
          display_name y = display_name x \<and> def_refs f y \<subseteq> bs_ops sl)) \<and>
    (inj_on display_name (insert sink (flow_vars f)) \<longrightarrow> bs_ops sl = (depends_on f)\<^sup>* `` def_refs f sink)"
proof -
  have p: "slice_blocks_ok slice_default" "pending f {} (slice_default, [sink])" "bs_ops slice_default = {}"
    by (simp_all add: slice_default_def slice_blocks_ok_def pending_def)
  obtain s' where s': "walk_backward f (collect_store_infos f) \<lparr>ws_slice = slice_default, ws_worklist = [sink], ws_visited = {}\<rparr> = Some s'"
    "slice_blocks_ok (ws_slice s')" "bs_ops (ws_slice s') \<subseteq> (depends_on f)\<^sup>* `` def_refs f sink"
    "slice_complete f (insert sink (flow_vars f)) (bs_ops (ws_slice s'))" "def_refs f sink \<subseteq> bs_ops (ws_slice s')"
    using walk_backward_spec [OF assms p(1,2)] by (auto simp: p(3))
  have "bs_ops (ws_slice s') = (depends_on f)\<^sup>* `` def_refs f sink" if "inj_on display_name (insert sink (flow_vars f))"
    using slice_complete_closed [OF assms that _ s'(4,5)] s'(3) by blast
  then show ?thesis
    using s' by (intro exI [of _ "ws_slice s'"]) (auto simp: backward_slice_from_var_def slice_blocks_ok_def slice_complete_def)
qed

theorem backward_slice_var_exact_witness:
  "\<exists>sl. backward_slice_from_var (copied_store 8) (ssa_new ''reg:0'' 1 8) = Some sl \<and> SliceOp 0x1000 0 \<in> bs_ops sl \<and>
     bs_ops sl = (depends_on (copied_store 8))\<^sup>* `` def_refs (copied_store 8) (ssa_new ''reg:0'' 1 8)"
proof -
  have "SliceOp 0x1000 0 \<in> def_refs (copied_store 8) (ssa_new ''reg:0'' 1 8)"
    by (simp add: def_refs_def copied_store_def_site)
  moreover obtain sl where "backward_slice_from_var (copied_store 8) (ssa_new ''reg:0'' 1 8) = Some sl"
    "bs_ops sl = (depends_on (copied_store 8))\<^sup>* `` def_refs (copied_store 8) (ssa_new ''reg:0'' 1 8)"
    using backward_slice_var_exact [of "copied_store 8" "ssa_new ''reg:0'' 1 8"] copied_store_setting
    by (auto simp: insert_absorb)
  ultimately show ?thesis by blast
qed

text \<open>A backward slice from an operation holds the operation and everything it depends on; for a store
  also the stores that may alias it and what they depend on. Away from the function it is empty.\<close>

theorem backward_slice_op_exact:
  assumes "listed_blocks f" "inj_on display_name (flow_vars f)"
  shows "\<exists>sl. backward_slice_from_op f r = Some sl \<and>
    bs_ops sl = (if ref_exists f r then (depends_on f)\<^sup>* `` ({r} \<union> start_stores f r) else {}) \<and>
    bs_blocks sl = sr_block_addr ` bs_ops sl"
proof (cases "ref_exists f r")
  case False
  then have "slice_start f (collect_store_infos f) r = (slice_default, [])"
    by (cases r) (auto simp: slice_start_def split: option.splits)
  then show ?thesis using False by (simp add: backward_slice_from_op_def Let_def walk_backward.simps slice_default_def)
next
  case True
  let ?st = "slice_start f (collect_store_infos f) r"
  note e = slice_start_extends [OF assms(1) True]
  have ops: "bs_ops (fst ?st) = {r} \<union> start_stores f r" and ok: "slice_blocks_ok (fst ?st)"
    and w: "set (snd ?st) = (\<Union>q \<in> {r} \<union> start_stores f r. set (ref_sources f q))"
    using e by (auto simp: slice_extends_def slice_default_def slice_blocks_ok_def)
  have "flow_vars f \<union> set (snd ?st) = flow_vars f" unfolding w using ref_sources_flow_vars [OF assms(1)] by blast
  moreover have "load_stores f q \<subseteq> bs_ops (fst ?st)" if "q \<in> bs_ops (fst ?st)" for q
    using that start_stores_load [OF assms(1)] unfolding ops by blast
  moreover have "pending f {} ?st" by (auto simp: pending_def ops w)
  ultimately obtain s' where s': "walk_backward f (collect_store_infos f) \<lparr>ws_slice = fst ?st, ws_worklist = snd ?st, ws_visited = {}\<rparr> = Some s'"
    "bs_ops (ws_slice s') = (depends_on f)\<^sup>* `` (bs_ops (fst ?st) \<union> (\<Union>v \<in> set (snd ?st). def_refs f v))" "slice_blocks_ok (ws_slice s')"
    using walk_backward_closure [OF assms(1) _ ok, of "snd ?st"] assms(2) by auto
  have "(\<Union>v \<in> set (snd ?st). def_refs f v) \<subseteq> depends_on f `` bs_ops (fst ?st)"
    unfolding w ops by (auto simp: depends_on_def)
  then have "bs_ops (ws_slice s') = (depends_on f)\<^sup>* `` bs_ops (fst ?st)"
    unfolding s'(2) by (auto intro: converse_rtrancl_into_rtrancl)
  then show ?thesis
    using s'(1,3) True by (simp add: backward_slice_from_op_def Let_def ops slice_blocks_ok_def)
qed

theorem backward_slice_op_exact_witness:
  "\<exists>sl. backward_slice_from_op (copied_store 8) (SliceOp 0x1000 1) = Some sl \<and> SliceOp 0x1000 1 \<in> bs_ops sl"
proof -
  have "ref_exists (copied_store 8) (SliceOp 0x1000 1)"
    by (simp add: fn_get_block_def copied_store_def hm_get_def)
  then show ?thesis
    using backward_slice_op_exact [of "copied_store 8" "SliceOp 0x1000 1"] copied_store_setting by fastforce
qed

text \<open>The walk remembers variables by display name, which leaves out the size. An operation that reads a
  register at two sizes, first at one without a definition, keeps the other's definition out of its
  slice.\<close>

theorem slice_misses_other_size:
  assumes "ref_op f (SliceOp a i) = Some (IntAdd d v w)"
    and "fst (find_def v f) = None" "display_name w = display_name v"
  shows "backward_slice_from_op f (SliceOp a i) = Some \<lparr>bs_ops = {SliceOp a i}, bs_blocks = {a}\<rparr>"
proof -
  obtain b where "fn_get_block f a = Some b" "i < length (fb_ops b)" "fb_ops b ! i = IntAdd d v w"
    using assms(1) by (auto simp: ref_op_def Option.bind_eq_Some_conv split: if_splits)
  then have "slice_start f stores (SliceOp a i) = (\<lparr>bs_ops = {SliceOp a i}, bs_blocks = {a}\<rparr>, [v, w])" for stores
    by (simp add: slice_start_def slice_add_op_def slice_default_def)
  then show ?thesis
    using assms(2,3) by (simp add: backward_slice_from_op_def Let_def walk_backward.simps walk_round_def)
qed

theorem slice_misses_other_size_witness:
  "backward_slice_from_op mixed_sizes (SliceOp 0x1000 1) = Some \<lparr>bs_ops = {SliceOp 0x1000 1}, bs_blocks = {0x1000}\<rparr> \<and>
   fst (find_def (ssa_new ''reg:0'' 1 8) mixed_sizes) = Some (0x1000, DefOp 0)"
proof -
  have "fst (find_def (ssa_new ''reg:0'' 1 4) mixed_sizes) = None"
    "fst (find_def (ssa_new ''reg:0'' 1 8) mixed_sizes) = Some (0x1000, DefOp 0)"
    by (simp_all add: mixed_sizes_def copied_store_def find_def_def ensure_query_index_def query_index_build_def
        fn_blocks_in_order_def hm_get_def map_filter_simps index_block_def index_op_def index_def_def index_use_def
        get_names_def ssa_new_def)
  then show ?thesis
    using slice_misses_other_size [of mixed_sizes "0x1000" 1 "ssa_new ''rax'' 1 8" "ssa_new ''reg:0'' 1 4" "ssa_new ''reg:0'' 1 8"]
    by (simp add: ref_op_def mixed_sizes_def copied_store_def fn_get_block_def hm_get_def display_name_def ssa_new_def starts_with_def)
qed

end
