(* ===== verification/SSA_Alias_Props.thy ===== *)
theory SSA_Alias_Props
  imports SSA_Defuse
begin

text \<open>
  Which answers of the alias check of the slicer (\<open>r2ssa/src/defuse.rs\<close>) can be relied on, and what its
  reading of constants does.
\<close>

section \<open>The alias check\<close>

text \<open>Constants are printed in hexadecimal and read back in decimal here. Where that succeeds it shrinks
  distances, so that ranges which overlap still overlap.\<close>

fun decimal_reading :: "nat \<Rightarrow> nat option" where
  "decimal_reading n =
     (if n < 16 then (if n < 10 then Some n else None)
      else case decimal_reading (n div 16) of
        None \<Rightarrow> None
      | Some m \<Rightarrow> if n mod 16 < 10 then Some (m * 10 + n mod 16) else None)"

declare decimal_reading.simps [simp del]

lemma digit_value_ten: "d < 16 \<Longrightarrow> digit_value 10 (digit_char d) = (if d < 10 then Some d else None)"
  by (simp add: digit_value_def of_char_digit_char Let_def)

lemma parse_hex_as_decimal: "parse_digits 10 0 (show_radix 16 n) = decimal_reading n"
proof (induction n rule: decimal_reading.induct)
  case (1 n)
  show ?case
  proof (cases "n < 16")
    case True
    then show ?thesis by (subst show_radix.simps, subst decimal_reading.simps) (simp add: digit_value_ten)
  next
    case False
    then show ?thesis
      using 1 by (subst show_radix.simps, subst decimal_reading.simps)
        (auto simp: parse_digits_append digit_value_ten split: option.splits)
  qed
qed

lemma decimal_reading_mono:
  assumes "decimal_reading a = Some x" "decimal_reading b = Some y" "a < b"
  shows "x < y \<and> y + a \<le> b + x"
  using assms
proof (induction b arbitrary: a x y rule: less_induct)
  case (less b)
  show ?case
  proof (cases "b < 16")
    case True
    then show ?thesis
      using less.prems by (simp add: decimal_reading.simps [of a] decimal_reading.simps [of b] split: if_splits)
  next
    case b: False
    then obtain m where m: "decimal_reading (b div 16) = Some m" "b mod 16 < 10" "y = m * 10 + b mod 16"
      using less.prems(2) by (auto simp: decimal_reading.simps [of b] split: option.splits if_splits)
    have bb: "b = b div 16 * 16 + b mod 16" and small: "b div 16 < b" using b by simp_all
    show ?thesis
    proof (cases "a < 16")
      case True
      then have a: "x = a" "a < 10" using less.prems(1) by (simp_all add: decimal_reading.simps [of a] split: if_splits)
      have "decimal_reading 0 = Some 0" by (simp add: decimal_reading.simps)
      from less.IH [OF small this m(1)] b have "0 < m" "m \<le> b div 16" by auto
      then show ?thesis using a m(2,3) bb by linarith
    next
      case False
      then obtain k where k: "decimal_reading (a div 16) = Some k" "a mod 16 < 10" "x = k * 10 + a mod 16"
        using less.prems(1) by (auto simp: decimal_reading.simps [of a] split: option.splits if_splits)
      have aa: "a = a div 16 * 16 + a mod 16" by simp
      show ?thesis
      proof (cases "a div 16 = b div 16")
        case True
        then have "k = m" using k(1) m(1) by simp
        then show ?thesis using True aa bb less.prems(3) k(3) m(3) by linarith
      next
        case False
        moreover have "a div 16 \<le> b div 16" using less.prems(3) by (simp add: div_le_mono)
        ultimately have "k < m" "m + a div 16 \<le> b div 16 + k" using less.IH [OF small k(1) m(1)] by auto
        then show ?thesis using k(2,3) m(2,3) aa bb by linarith
      qed
    qed
  qed
qed

lemma decimal_reading_le: "decimal_reading n = Some m \<Longrightarrow> m \<le> n"
  using decimal_reading_mono [of 0 0 n m] by (cases "n = 0") (auto simp: decimal_reading.simps [of 0])

lemma show_radix_digits: "c \<in> set (show_radix 16 n) \<Longrightarrow> \<exists>d < 16. c = digit_char d"
proof (induction "16 :: nat" n rule: show_radix.induct)
  case (1 n)
  then consider "c = digit_char (n mod 16)" | "\<not> n < 16" "c \<in> set (show_radix 16 (n div 16))"
    by (auto simp: show_radix.simps [of 16 n] split: if_splits)
  then show ?case
  proof cases
    case a: 1
    have "n mod 16 < 16" by simp
    then show ?thesis using a by blast
  next
    case 2
    then show ?thesis using 1(1) by simp
  qed
qed

lemma show_radix_chars:
  assumes "c \<in> set (show_radix 16 n)"
  shows "of_char c < (103 :: nat)" "\<not> (65 \<le> (of_char c :: nat) \<and> of_char c \<le> (90 :: nat))"
proof -
  obtain d where "d < 16" "c = digit_char d" using show_radix_digits [OF assms] by blast
  then show "of_char c < (103 :: nat)" "\<not> (65 \<le> (of_char c :: nat) \<and> of_char c \<le> (90 :: nat))"
    by (auto simp: of_char_digit_char)
qed

lemma show_radix_no_x: "CHR ''x'' \<notin> set (show_radix 16 n)" "CHR ''X'' \<notin> set (show_radix 16 n)"
  "CHR ''m'' \<notin> set (show_radix 16 n)" "CHR ''p'' \<notin> set (show_radix 16 n)"
  using show_radix_chars(1) [of "CHR ''x''" n] show_radix_chars(2) [of "CHR ''X''" n]
    show_radix_chars(1) [of "CHR ''m''" n] show_radix_chars(1) [of "CHR ''p''" n] by auto

lemma lowercase_hex: "to_ascii_lowercase (show_hex n) = show_hex n"
  unfolding to_ascii_lowercase_def show_hex_def
proof (rule map_idI)
  fix c assume "c \<in> set (show_radix 16 n)"
  then show "to_lower_char c = c" using show_radix_chars(2) [of c n] by (auto simp: to_lower_char_def Let_def)
qed

lemma decimal_of_hex: "u64_from_str_radix 10 (show_hex (unat (v :: u64))) = map_option of_nat (decimal_reading (unat v))"
proof -
  obtain c cs where s: "show_radix 16 (unat v) = c # cs" by (cases "show_radix 16 (unat v)") auto
  have "c \<noteq> CHR ''+''" using show_radix_digits [of c "unat v"] s digit_char_not_plus by auto
  moreover have "m < 2 ^ 64" if "decimal_reading (unat v) = Some m" for m
    using decimal_reading_le [OF that] unat_u64_less [of v] by simp
  ultimately show ?thesis
    using parse_hex_as_decimal [of "unat v"] s
    by (auto simp: u64_from_str_radix_def show_hex_def split: option.splits)
qed

lemma du_const_value_constant:
  "du_const_value (ssa_constant v sz) = map_option of_nat (decimal_reading (unat v))"
proof -
  have "strip_prefix ''0x'' (show_hex (unat v)) = None" "strip_prefix ''0X'' (show_hex (unat v)) = None"
    using show_radix_no_x [of "unat v"] strip_prefix_Some [of "''0x''" "show_hex (unat v)"]
      strip_prefix_Some [of "''0X''" "show_hex (unat v)"]
    by (cases "strip_prefix ''0x'' (show_hex (unat v))"; cases "strip_prefix ''0X'' (show_hex (unat v))"; simp add: show_hex_def)+
  then show ?thesis
    using strip_prefix_append [of "''const:''" "show_hex (unat v)"]
    by (simp add: du_const_value_def ssa_constant_def ssa_new_def decimal_of_hex del: strip_prefix.simps)
qed

text \<open>A constant has the region of constants or, when its digits are not decimal, none that is known.\<close>

lemma constant_provenance:
  "ap_absolute (detect_address_provenance (ssa_constant v sz)) = map_option of_nat (decimal_reading (unat v))"
  "decimal_reading (unat v) = None \<Longrightarrow> ap_region (detect_address_provenance (ssa_constant v sz)) = RegionUnknown"
proof -
  let ?h = "show_hex (unat v)" and ?p = "detect_address_provenance (ssa_constant v sz)"
  let ?lower = "to_ascii_lowercase (''const:'' @ ?h)"
  have c: "?lower = ''const:'' @ ?h"
    using lowercase_hex [of "unat v"] by (simp add: to_ascii_lowercase_def to_lower_char_def)
  have no: "\<not> str_contains ''malloc'' ?lower" "\<not> str_contains ''heap'' ?lower"
  proof -
    have "set p \<subseteq> set ?lower" if "str_contains p ?lower" for p using that by (auto simp: str_contains_iff)
    moreover have "CHR ''m'' \<notin> set ?lower" "CHR ''p'' \<notin> set ?lower"
      unfolding c using show_radix_no_x(3,4) [of "unat v"] by (simp_all add: show_hex_def)
    ultimately show "\<not> str_contains ''malloc'' ?lower" "\<not> str_contains ''heap'' ?lower" by fastforce+
  qed
  have "ap_region ?p = RegionUnknown \<and> ap_absolute ?p = None" if "decimal_reading (unat v) = None"
  proof -
    have n: "sv_name (ssa_constant v sz) = ''const:'' @ ?h" by (simp add: ssa_constant_def ssa_new_def)
    have "strip_prefix ''ram:'' ?lower = None" "strip_prefix ''stack:'' ?lower = None" "\<not> starts_with ''heap:'' ?lower"
      "\<not> starts_with ''obj.'' ?lower" "\<not> starts_with ''sym.'' ?lower" "\<not> starts_with ''data.'' ?lower"
      "\<not> starts_with ''got.'' ?lower"
      unfolding c by (simp_all add: starts_with_def)
    moreover have "?lower \<notin> {''rbp'', ''rsp'', ''ebp'', ''esp'', ''sp'', ''fp'', ''bp'', ''s0'', ''x8''}" unfolding c by simp
    ultimately show ?thesis
      using that no unfolding detect_address_provenance_def du_const_value_constant n Let_def by (simp only: option.case option.map if_False simp_thms) simp
  qed
  then show "ap_absolute ?p = map_option of_nat (decimal_reading (unat v))"
    "decimal_reading (unat v) = None \<Longrightarrow> ap_region ?p = RegionUnknown"
    by (cases "decimal_reading (unat v)"; simp add: detect_address_provenance_def du_const_value_constant)+
qed

lemma ranges_overlap_iff:
  "ranges_overlap a sa b sb \<longleftrightarrow> a < b + uint (max sb 1) \<and> b < a + uint (max sa 1)"
  by (simp add: ranges_overlap_def Let_def)

lemma uint_of_nat_u64: "n < 2 ^ 64 \<Longrightarrow> uint (of_nat n :: u64) = int n"
  by (simp add: unsigned_of_nat take_bit_eq_mod)

section \<open>Properties\<close>

text \<open>C34. The alias check never separates two constant addresses whose byte ranges overlap. It reads the
  hexadecimal digits of a constant as decimal ones; where that fails the region is unknown, and where
  it succeeds distances only shrink, so overlapping ranges stay overlapping.\<close>

theorem constant_addresses_alias:
  assumes "uint a < uint b + uint (max sb 1)" "uint b < uint a + uint (max sa 1)"
  shows "addresses_may_alias (ssa_constant a sz) sa (ssa_constant b sz') sb"
proof (cases "decimal_reading (unat a)"; cases "decimal_reading (unat b)")
  fix x y assume r: "decimal_reading (unat a) = Some x" "decimal_reading (unat b) = Some y"
  have u: "uint (of_nat x :: u64) = int x" "uint (of_nat y :: u64) = int y"
    using decimal_reading_le [OF r(1)] decimal_reading_le [OF r(2)] unat_u64_less [of a] unat_u64_less [of b]
    by (simp_all add: uint_of_nat_u64)
  have ab: "uint a = int (unat a)" "uint b = int (unat b)" by simp_all
  have "int x < int y + uint (max sb 1) \<and> int y < int x + uint (max sa 1)"
  proof (cases "unat a" "unat b" rule: linorder_cases)
    case less
    then have "int x < int y" "int y + int (unat a) \<le> int (unat b) + int x" using decimal_reading_mono [OF r less] by linarith+
    then show ?thesis using assms(2) ab uint_ge_0 [of "max sb 1"] by linarith
  next
    case equal
    then have "x = y" using r by simp
    moreover have "uint a = uint b" using ab equal by metis
    ultimately show ?thesis using assms by linarith
  next
    case greater
    then have "int y < int x" "int x + int (unat b) \<le> int (unat a) + int y" using decimal_reading_mono [OF r(2,1) greater] by linarith+
    then show ?thesis using assms(1) ab uint_ge_0 [of "max sa 1"] by linarith
  qed
  then show ?thesis
    using r u by (simp add: addresses_may_alias_def constant_provenance(1) ranges_overlap_iff)
qed (auto simp: addresses_may_alias_def constant_provenance Let_def)

theorem constant_addresses_alias_witness:
  "addresses_may_alias (ssa_constant 0x1000 8) 8 (ssa_constant 0x1004 8) 4"
  by (rule constant_addresses_alias) (simp_all add: max_def word_le_nat_alt)

text \<open>The alias check separates addresses held in different stack registers whatever their values: a
  store through the stack pointer is never taken to reach a load through the frame pointer, although
  the prologue makes the two equal.\<close>

theorem stack_registers_never_alias:
  "\<not> addresses_may_alias (ssa_new ''rsp'' m 8) sa (ssa_new ''rbp'' n 8) sb"
  by (simp add: addresses_may_alias_def detect_address_provenance_def du_const_value_def ssa_new_def Let_def
      to_ascii_lowercase_def to_lower_char_def starts_with_def)

text \<open>Constants that \<open>find_constants\<close> reports are misread: a copied constant is reported with the value
  its hexadecimal digits have in decimal, and is missed when they contain a letter.\<close>

theorem find_constants_reads_decimal:
  "hm_get (find_constants \<lparr>sb_addr = addr, sb_size = n, sb_ops = [Copy dst (ssa_constant v sz)]\<rparr>) (display_name dst) =
     map_option of_nat (decimal_reading (unat v)) \<and>
   decimal_reading 0x10 = Some 10 \<and> decimal_reading 0xff = None"
proof -
  have "strip_prefix ''0x'' (show_hex (unat v)) = None"
    using show_radix_no_x(1) [of "unat v"] strip_prefix_Some [of "''0x''" "show_hex (unat v)"]
    by (cases "strip_prefix ''0x'' (show_hex (unat v))") (simp_all add: show_hex_def)
  then have "constant_of_copy [] (Copy dst (ssa_constant v sz)) =
      (case map_option of_nat (decimal_reading (unat v)) of Some c \<Rightarrow> hm_insert (display_name dst) c [] | None \<Rightarrow> [])"
    using strip_prefix_append [of "''const:''" "show_hex (unat v)"]
    by (simp add: constant_of_copy_def ssa_constant_def ssa_new_def ssa_is_const_def starts_with_def decimal_of_hex
        del: strip_prefix.simps)
  then show ?thesis
    by (cases "decimal_reading (unat v)") (simp_all add: find_constants_def hm_get_def decimal_reading.simps)
qed

end
