(* ===== verification/Types_Arena.thy ===== *)
theory Types_Arena
  imports SSA_Var
begin

text \<open>
  The types of the inference engine: \<open>r2types/src/model.rs\<close>, \<open>r2types/src/convert.rs\<close> and
  \<open>r2types/src/signature.rs\<close>.

  A type refers to others by their index in an arena that holds every type once. The lemmas of \<open>Types_Arena_Props\<close>
  state what the arena promises: an index never changes its meaning, equal types have equal indices,
  and, as long as callers pass indices they were handed, a type refers to older types only, so that
  recursion over types ends. Conversion to C types follows references without a bound in the source
  and takes fuel here; a well-formed arena has enough of it. The JSON parser behind the signature
  registry is a third-party crate and a parameter.
\<close>

section \<open>Types\<close>

type_synonym TypeId = nat

datatype Signedness = Signed | Unsigned | SignUnknown

record StructField =
  sf_name :: "string option"
  sf_ty :: TypeId

text \<open>\<open>fields\<close> is a \<open>BTreeMap\<close>: an association list with strictly increasing keys.\<close>

record StructShape =
  shape_name :: "string option"
  shape_fields :: "(u64 \<times> StructField) list"

datatype Ty =
  TTop
| TBottom
| TBool
| TInt u32 Signedness
| TFloat u32
| TPtr TypeId
| TArray TypeId "nat option" "u32 option"
| TStruct StructShape
| TFunction "TypeId list" TypeId bool
| TUnknownAlias string

record TypeArena =
  arena_types :: "Ty list"
  arena_intern_index :: "(Ty, TypeId) hashmap"
  arena_top :: TypeId
  arena_bottom :: TypeId
  arena_bool_ty :: TypeId

definition arena_intern :: "Ty \<Rightarrow> TypeArena \<Rightarrow> TypeId \<times> TypeArena" where
  "arena_intern ty a =
     (case hm_get (arena_intern_index a) ty of
        Some idx \<Rightarrow> (idx, a)
      | None \<Rightarrow>
          let idx = length (arena_types a)
          in (idx, a\<lparr>arena_types := arena_types a @ [ty],
                     arena_intern_index := hm_insert ty idx (arena_intern_index a)\<rparr>))"

definition arena_default :: TypeArena where
  "arena_default =
     (let a0 = \<lparr>arena_types = [], arena_intern_index = [], arena_top = 0, arena_bottom = 0, arena_bool_ty = 0\<rparr>;
          (t, a1) = arena_intern TTop a0;
          a2 = a1\<lparr>arena_top := t\<rparr>;
          (b, a3) = arena_intern TBottom a2;
          a4 = a3\<lparr>arena_bottom := b\<rparr>;
          (o', a5) = arena_intern TBool a4
      in a5\<lparr>arena_bool_ty := o'\<rparr>)"

definition arena_int :: "u32 \<Rightarrow> Signedness \<Rightarrow> TypeArena \<Rightarrow> TypeId \<times> TypeArena" where
  "arena_int bits signedness a = arena_intern (TInt bits signedness) a"

definition arena_float :: "u32 \<Rightarrow> TypeArena \<Rightarrow> TypeId \<times> TypeArena" where
  "arena_float bits a = arena_intern (TFloat bits) a"

definition arena_ptr :: "TypeId \<Rightarrow> TypeArena \<Rightarrow> TypeId \<times> TypeArena" where
  "arena_ptr inner a = arena_intern (TPtr inner) a"

definition arena_array :: "TypeId \<Rightarrow> nat option \<Rightarrow> u32 option \<Rightarrow> TypeArena \<Rightarrow> TypeId \<times> TypeArena" where
  "arena_array elem len stride a = arena_intern (TArray elem len stride) a"

definition arena_function :: "TypeId list \<Rightarrow> TypeId \<Rightarrow> bool \<Rightarrow> TypeArena \<Rightarrow> TypeId \<times> TypeArena" where
  "arena_function params ret variadic a = arena_intern (TFunction params ret variadic) a"

definition arena_unknown_alias :: "string \<Rightarrow> TypeArena \<Rightarrow> TypeId \<times> TypeArena" where
  "arena_unknown_alias nm a = arena_intern (TUnknownAlias nm) a"

definition struct_named :: "string \<Rightarrow> TypeArena \<Rightarrow> TypeId \<times> TypeArena" where
  "struct_named nm a = arena_intern (TStruct \<lparr>shape_name = Some nm, shape_fields = []\<rparr>) a"

definition better_struct :: "string \<Rightarrow> (nat \<times> nat) option \<Rightarrow> nat \<times> Ty \<Rightarrow> (nat \<times> nat) option" where
  "better_struct nm best = (\<lambda>(idx, ty).
     case ty of
       TStruct shape \<Rightarrow>
         if shape_name shape \<noteq> Some nm then best
         else let field_count = length (shape_fields shape)
              in case best of
                   None \<Rightarrow> Some (idx, field_count)
                 | Some (_, best_fields) \<Rightarrow> if field_count > best_fields then Some (idx, field_count) else best
     | _ \<Rightarrow> best)"

definition struct_named_or_existing :: "string \<Rightarrow> TypeArena \<Rightarrow> TypeId \<times> TypeArena" where
  "struct_named_or_existing nm a =
     (case foldl (better_struct nm) None (enumerate 0 (arena_types a)) of
        Some (idx, _) \<Rightarrow> (idx, a)
      | None \<Rightarrow> struct_named nm a)"

definition struct_anon :: "TypeArena \<Rightarrow> TypeId \<times> TypeArena" where
  "struct_anon a = arena_intern (TStruct \<lparr>shape_name = None, shape_fields = []\<rparr>) a"

definition arena_get :: "TypeArena \<Rightarrow> TypeId \<Rightarrow> Ty" where
  "arena_get a i = (if i < length (arena_types a) then arena_types a ! i else TTop)"

fun fields_insert :: "u64 \<Rightarrow> StructField \<Rightarrow> (u64 \<times> StructField) list \<Rightarrow> (u64 \<times> StructField) list" where
  "fields_insert k v [] = [(k, v)]"
| "fields_insert k v ((k', v') # m) =
     (if k < k' then (k, v) # (k', v') # m
      else if k = k' then (k, v) # m
      else (k', v') # fields_insert k v m)"

definition struct_with_field ::
  "TypeId \<Rightarrow> u64 \<Rightarrow> string option \<Rightarrow> TypeId \<Rightarrow> TypeArena \<Rightarrow> TypeId \<times> TypeArena" where
  "struct_with_field base off field_name field_ty a =
     (let shape = (case arena_get a base of TStruct s \<Rightarrow> s | _ \<Rightarrow> \<lparr>shape_name = None, shape_fields = []\<rparr>);
          entry = (case map_of (shape_fields shape) off of
                     Some e \<Rightarrow> e
                   | None \<Rightarrow> \<lparr>sf_name = field_name, sf_ty = field_ty\<rparr>);
          entry1 = (if sf_name entry = None then entry\<lparr>sf_name := field_name\<rparr> else entry);
          entry2 = entry1\<lparr>sf_ty := field_ty\<rparr>
      in arena_intern (TStruct (shape\<lparr>shape_fields := fields_insert off entry2 (shape_fields shape)\<rparr>)) a)"

definition bits_of :: "TypeArena \<Rightarrow> TypeId \<Rightarrow> u32 option" where
  "bits_of a i =
     (case arena_get a i of
        TBool \<Rightarrow> Some 1
      | TInt bits _ \<Rightarrow> Some bits
      | TFloat bits \<Rightarrow> Some bits
      | _ \<Rightarrow> None)"

section \<open>C types\<close>

datatype CTypeLike =
  CVoid
| CBool
| CInt u32 Signedness
| CFloat u32
| CPointer CTypeLike
| CArray CTypeLike "nat option"
| CStruct string
| CUnion string
| CEnum string
| CFunction
| CUnknown

text \<open>\<open>trim_start_matches\<close> of a string: the prefix is removed as often as it is there. The comparison of
  lengths keeps the recursion going down; it holds for every prefix but the empty one.\<close>

function trim_start_matches :: "string \<Rightarrow> string \<Rightarrow> string" where
  "trim_start_matches p s =
     (case strip_prefix p s of
        Some rest \<Rightarrow> if length rest < length s then trim_start_matches p rest else s
      | None \<Rightarrow> s)"
  by pat_completeness auto
termination by (relation "measure (\<lambda>(p, s). length s)") auto

declare trim_start_matches.simps [simp del]

definition alias_c_type :: "string \<Rightarrow> CTypeLike" where
  "alias_c_type nm =
     (if nm = ''void'' then CVoid
      else if starts_with ''struct '' nm then CStruct (trim_start_matches ''struct '' nm)
      else if starts_with ''union '' nm then CUnion (trim_start_matches ''union '' nm)
      else if starts_with ''enum '' nm then CEnum (trim_start_matches ''enum '' nm)
      else CUnknown)"

text \<open>The recursion has no bound of its own; \<open>None\<close> stands for running out of \<open>fuel\<close>.\<close>

fun to_c_type_like :: "nat \<Rightarrow> TypeArena \<Rightarrow> TypeId \<Rightarrow> CTypeLike option" where
  "to_c_type_like 0 a ty = None"
| "to_c_type_like (Suc fuel) a ty =
     (case arena_get a ty of
        TTop \<Rightarrow> Some CUnknown
      | TBottom \<Rightarrow> Some CUnknown
      | TBool \<Rightarrow> Some CBool
      | TInt bits signedness \<Rightarrow> Some (CInt bits signedness)
      | TFloat bits \<Rightarrow> Some (CFloat bits)
      | TPtr inner \<Rightarrow> map_option CPointer (to_c_type_like fuel a inner)
      | TArray elem len _ \<Rightarrow> map_option (\<lambda>t. CArray t len) (to_c_type_like fuel a elem)
      | TStruct shape \<Rightarrow> Some (CStruct (case shape_name shape of Some nm \<Rightarrow> nm | None \<Rightarrow> ''anon''))
      | TFunction _ _ _ \<Rightarrow> Some CFunction
      | TUnknownAlias nm \<Rightarrow> Some (alias_c_type nm))"

section \<open>Signatures\<close>

definition trim_end :: "string \<Rightarrow> string" where
  "trim_end s = rev (dropWhile ascii_ws (rev s))"

definition strip_suffix :: "string \<Rightarrow> string \<Rightarrow> string option" where
  "strip_suffix p s = map_option rev (strip_prefix (rev p) (rev s))"

text \<open>The leading part of \<open>parse_type_spec\<close>: trailing stars are counted off.\<close>

function strip_stars :: "string \<Rightarrow> nat \<Rightarrow> string \<times> nat" where
  "strip_stars text depth =
     (case strip_suffix ''*'' text of
        Some rest \<Rightarrow> if length (trim_end rest) < length text then strip_stars (trim_end rest) (depth + 1) else (text, depth)
      | None \<Rightarrow> (text, depth))"
  by pat_completeness auto
termination by (relation "measure (\<lambda>(text, depth). length text)") auto

declare strip_stars.simps [simp del]

definition parse_base_type :: "string \<Rightarrow> TypeArena \<Rightarrow> u32 \<Rightarrow> TypeId \<times> TypeArena" where
  "parse_base_type text a ptr_bits =
     (if text = ''void'' then arena_unknown_alias ''void'' a
      else if text = ''bool'' then (arena_bool_ty a, a)
      else if text \<in> {''char'', ''i8'', ''int8_t''} then arena_int 8 Signed a
      else if text \<in> {''u8'', ''uint8_t'', ''unsigned char''} then arena_int 8 Unsigned a
      else if text \<in> {''i16'', ''int16_t'', ''short'', ''short int''} then arena_int 16 Signed a
      else if text \<in> {''u16'', ''uint16_t'', ''unsigned short'', ''unsigned short int''} then arena_int 16 Unsigned a
      else if text \<in> {''i32'', ''int32_t'', ''int''} then arena_int 32 Signed a
      else if text \<in> {''u32'', ''uint32_t'', ''unsigned'', ''unsigned int''} then arena_int 32 Unsigned a
      else if text \<in> {''i64'', ''int64_t'', ''long'', ''long int'', ''long long'', ''long long int''}
      then arena_int ptr_bits Signed a
      else if text \<in> {''u64'', ''uint64_t'', ''unsigned long'', ''unsigned long int'', ''unsigned long long'',
                     ''unsigned long long int'', ''size_t''}
      then arena_int ptr_bits Unsigned a
      else if text = ''float'' then arena_float 32 a
      else if text = ''double'' then arena_float 64 a
      else if starts_with ''struct '' text then struct_named_or_existing (trim_start_matches ''struct '' text) a
      else arena_unknown_alias text a)"

fun wrap_pointers :: "nat \<Rightarrow> TypeId \<times> TypeArena \<Rightarrow> TypeId \<times> TypeArena" where
  "wrap_pointers 0 r = r"
| "wrap_pointers (Suc n) (ty, a) = wrap_pointers n (arena_ptr ty a)"

definition parse_type_spec :: "string \<Rightarrow> TypeArena \<Rightarrow> u32 \<Rightarrow> TypeId \<times> TypeArena" where
  "parse_type_spec spec a ptr_bits =
     (let text = to_ascii_lowercase (trim spec)
      in if text = [] then (arena_top a, a)
         else let (base_text, ptr_depth) = strip_stars text 0
              in wrap_pointers ptr_depth (parse_base_type base_text a ptr_bits))"

record SignatureEntry =
  se_ret :: string
  se_params :: "string list"
  se_variadic :: bool

record SignatureRegistry =
  sr_entries :: "(string, SignatureEntry) hashmap"
  sr_diagnostics :: "string list"

record ResolvedSignature =
  rs_ret :: TypeId
  rs_params :: "TypeId list"
  rs_variadic :: bool

function strip_suffixes :: "string \<Rightarrow> string \<Rightarrow> string" where
  "strip_suffixes p s =
     (case strip_suffix p s of
        Some rest \<Rightarrow> if length rest < length s then strip_suffixes p rest else s
      | None \<Rightarrow> s)"
  by pat_completeness auto
termination by (relation "measure (\<lambda>(p, s). length s)") auto

declare strip_suffixes.simps [simp del]

definition sig_normalize_name :: "string \<Rightarrow> string" where
  "sig_normalize_name nm =
     (let n0 = to_ascii_lowercase (trim nm);
          n1 = foldl (\<lambda>n p. trim_start_matches p n) n0 [''sym.imp.'', ''sym.'', ''imp.'', ''dbg.''];
          n2 = strip_suffixes ''@plt'' n1
      in strip_suffixes ''.plt'' n2)"

record SignatureFile =
  sgf_version :: u32
  sgf_signatures :: "(string, SignatureEntry) hashmap"

definition sig_load_file :: "(string \<Rightarrow> string + SignatureFile) \<Rightarrow> string \<Rightarrow> string \<Rightarrow> SignatureRegistry \<Rightarrow> SignatureRegistry" where
  "sig_load_file from_json source_name content reg =
     (case from_json content of
        Inr file \<Rightarrow>
          if sgf_version file \<noteq> 1
          then reg\<lparr>sr_diagnostics := sr_diagnostics reg @
                 [''signature file '' @ source_name @ '' has unsupported version '' @ show_dec (unat (sgf_version file))]\<rparr>
          else foldl (\<lambda>reg (nm, sig). reg\<lparr>sr_entries := hm_insert (sig_normalize_name nm) sig (sr_entries reg)\<rparr>)
                 reg (sgf_signatures file)
      | Inl e \<Rightarrow> reg\<lparr>sr_diagnostics := sr_diagnostics reg @ [''failed to parse '' @ source_name @ '': '' @ e]\<rparr>)"

definition seed_fallbacks :: "SignatureRegistry \<Rightarrow> SignatureRegistry" where
  "seed_fallbacks reg =
     foldl (\<lambda>reg (nm, sig). reg\<lparr>sr_entries := hm_insert (sig_normalize_name nm) sig (sr_entries reg)\<rparr>) reg
       [(''printf'', \<lparr>se_ret = ''i32'', se_params = [''char*''], se_variadic = True\<rparr>),
        (''memcpy'', \<lparr>se_ret = ''void*'', se_params = [''void*'', ''void*'', ''size_t''], se_variadic = False\<rparr>),
        (''strlen'', \<lparr>se_ret = ''size_t'', se_params = [''char*''], se_variadic = False\<rparr>),
        (''setlocale'', \<lparr>se_ret = ''char*'', se_params = [''i32'', ''char*''], se_variadic = False\<rparr>)]"

text \<open>The files are part of the crate's data; the list of them with their contents is a parameter.\<close>

definition from_embedded_json :: "(string \<Rightarrow> string + SignatureFile) \<Rightarrow> (string \<times> string) list \<Rightarrow> SignatureRegistry" where
  "from_embedded_json from_json files =
     (let reg = foldl (\<lambda>reg (nm, content). sig_load_file from_json nm content reg)
                  \<lparr>sr_entries = [], sr_diagnostics = []\<rparr> files
      in if sr_entries reg = []
         then seed_fallbacks (reg\<lparr>sr_diagnostics := sr_diagnostics reg @
                [''signature registry empty; using fallback built-ins'']\<rparr>)
         else reg)"

fun parse_params :: "string list \<Rightarrow> TypeArena \<Rightarrow> u32 \<Rightarrow> TypeId list \<times> TypeArena" where
  "parse_params [] a ptr_bits = ([], a)"
| "parse_params (spec # specs) a ptr_bits =
     (let (ty, a1) = parse_type_spec spec a ptr_bits;
          (tys, a2) = parse_params specs a1 ptr_bits
      in (ty # tys, a2))"

definition sig_resolve :: "SignatureRegistry \<Rightarrow> string \<Rightarrow> TypeArena \<Rightarrow> u32 \<Rightarrow> (ResolvedSignature \<times> TypeArena) option" where
  "sig_resolve reg nm a ptr_bits =
     (case hm_get (sr_entries reg) (sig_normalize_name nm) of
        None \<Rightarrow> None
      | Some entry \<Rightarrow>
          let (params, a1) = parse_params (se_params entry) a ptr_bits;
              (ret, a2) = parse_type_spec (se_ret entry) a1 ptr_bits
          in Some (\<lparr>rs_ret = ret, rs_params = params, rs_variadic = se_variadic entry\<rparr>, a2))"

definition insert_raw :: "string \<Rightarrow> string \<Rightarrow> string list \<Rightarrow> bool \<Rightarrow> SignatureRegistry \<Rightarrow> SignatureRegistry" where
  "insert_raw nm ret params variadic reg =
     reg\<lparr>sr_entries := hm_insert (sig_normalize_name nm) \<lparr>se_ret = ret, se_params = params, se_variadic = variadic\<rparr>
           (sr_entries reg)\<rparr>"

end
