(* ===== verification/Types_Lattice.thy ===== *)
theory Types_Lattice
  imports Types_Arena
begin

text \<open>
  Subtyping, join and meet of types: \<open>r2types/src/lattice.rs\<close>.

  The recursion follows the references of the arena on both sides and has no bound in the source;
  \<open>None\<close> stands for running out of fuel. A recursion deeper than \<open>type_fuel\<close> meets a pair of types it
  has met before and never ends; on an arena whose types refer to older ones it is never that deep.
\<close>

section \<open>Subtyping\<close>

definition type_fuel :: "TypeArena \<Rightarrow> nat" where
  "type_fuel a = (length (arena_types a) + 1) * (length (arena_types a) + 1) + 1"

text \<open>\<open>Iterator::all\<close>: stops at the first element that fails.\<close>

fun all_opt :: "('a \<Rightarrow> bool option) \<Rightarrow> 'a list \<Rightarrow> bool option" where
  "all_opt f [] = Some True"
| "all_opt f (x # xs) =
     (case f x of
        None \<Rightarrow> None
      | Some False \<Rightarrow> Some False
      | Some True \<Rightarrow> all_opt f xs)"

definition signs_ok :: "Signedness \<Rightarrow> Signedness \<Rightarrow> bool" where
  "signs_ok a_sign b_sign \<longleftrightarrow>
     a_sign = Signed \<and> b_sign = Signed \<or> a_sign = Unsigned \<and> b_sign = Unsigned \<or> b_sign = SignUnknown"

definition lens_ok :: "nat option \<Rightarrow> nat option \<Rightarrow> bool" where
  "lens_ok a_len b_len =
     (case b_len of
        None \<Rightarrow> True
      | Some y \<Rightarrow> (case a_len of Some x \<Rightarrow> x = y | None \<Rightarrow> False))"

fun is_subtype_f :: "nat \<Rightarrow> TypeArena \<Rightarrow> TypeId \<Rightarrow> TypeId \<Rightarrow> bool option" where
  "is_subtype_f 0 a sb sp = None"
| "is_subtype_f (Suc fuel) a sb sp =
     (if sb = sp then Some True
      else if arena_get a sp = TTop then Some True
      else if arena_get a sb = TBottom then Some True
      else case arena_get a sb of
        TBool \<Rightarrow> (case arena_get a sp of TInt bits _ \<Rightarrow> Some (bits \<ge> 1) | _ \<Rightarrow> Some False)
      | TInt a_bits a_sign \<Rightarrow>
          (case arena_get a sp of
             TInt b_bits b_sign \<Rightarrow> Some (a_bits \<le> b_bits \<and> signs_ok a_sign b_sign)
           | _ \<Rightarrow> Some False)
      | TFloat a_bits \<Rightarrow> (case arena_get a sp of TFloat b_bits \<Rightarrow> Some (a_bits \<le> b_bits) | _ \<Rightarrow> Some False)
      | TPtr a_inner \<Rightarrow> (case arena_get a sp of TPtr b_inner \<Rightarrow> is_subtype_f fuel a a_inner b_inner | _ \<Rightarrow> Some False)
      | TArray a_elem a_len _ \<Rightarrow>
          (case arena_get a sp of
             TArray b_elem b_len _ \<Rightarrow>
               if lens_ok a_len b_len then is_subtype_f fuel a a_elem b_elem else Some False
           | _ \<Rightarrow> Some False)
      | TStruct a_shape \<Rightarrow>
          (case arena_get a sp of
             TStruct b_shape \<Rightarrow>
               all_opt (\<lambda>(off, b_field).
                   case map_of (shape_fields a_shape) off of
                     Some a_field \<Rightarrow> is_subtype_f fuel a (sf_ty a_field) (sf_ty b_field)
                   | None \<Rightarrow> Some False)
                 (shape_fields b_shape)
           | _ \<Rightarrow> Some False)
      | _ \<Rightarrow> Some False)"

definition is_subtype :: "TypeArena \<Rightarrow> TypeId \<Rightarrow> TypeId \<Rightarrow> bool option" where
  "is_subtype a sb sp = is_subtype_f (type_fuel a) a sb sp"

section \<open>Meet\<close>

definition merge_signs :: "Signedness \<Rightarrow> Signedness \<Rightarrow> Signedness" where
  "merge_signs a_sign b_sign = (if a_sign = b_sign then a_sign else SignUnknown)"

text \<open>The result of a computation in an arena that may not return.\<close>

type_synonym typed = "(TypeId \<times> TypeArena) option"

definition pointer_to :: "typed \<Rightarrow> typed" where
  "pointer_to r = map_option (\<lambda>(inner, a). arena_ptr inner a) r"

fun meet_f :: "nat \<Rightarrow> TypeArena \<Rightarrow> TypeId \<Rightarrow> TypeId \<Rightarrow> typed" where
  "meet_f 0 arena a b = None"
| "meet_f (Suc fuel) arena a b =
     (case is_subtype arena a b of
        None \<Rightarrow> None
      | Some True \<Rightarrow> Some (a, arena)
      | Some False \<Rightarrow>
        (case is_subtype arena b a of
           None \<Rightarrow> None
         | Some True \<Rightarrow> Some (b, arena)
         | Some False \<Rightarrow>
             let x = arena_get arena a; y = arena_get arena b
             in if x = TTop then Some (arena_intern y arena)
                else if y = TTop then Some (arena_intern x arena)
                else if x = TBottom \<or> y = TBottom then Some (arena_bottom arena, arena)
                else case (x, y) of
                  (TInt a_bits a_sign, TInt b_bits b_sign) \<Rightarrow>
                    Some (arena_int (min a_bits b_bits) (merge_signs a_sign b_sign) arena)
                | (TPtr a_inner, TPtr b_inner) \<Rightarrow> pointer_to (meet_f fuel arena a_inner b_inner)
                | (TFloat a_bits, TFloat b_bits) \<Rightarrow> Some (arena_float (min a_bits b_bits) arena)
                | _ \<Rightarrow> Some (arena_bottom arena, arena)))"

definition meet :: "TypeArena \<Rightarrow> TypeId \<Rightarrow> TypeId \<Rightarrow> typed" where
  "meet arena a b = meet_f (type_fuel arena) arena a b"

section \<open>Join\<close>

text \<open>The two loops that merge the fields of structs, and the one over parameters.\<close>

fun merge_a_fields ::
  "(TypeArena \<Rightarrow> TypeId \<Rightarrow> TypeId \<Rightarrow> typed) \<Rightarrow> (u64 \<times> StructField) list \<Rightarrow> (u64 \<times> StructField) list \<Rightarrow>
     (u64 \<times> StructField) list \<Rightarrow> TypeArena \<Rightarrow> ((u64 \<times> StructField) list \<times> TypeArena) option"
where
  "merge_a_fields jn b_fields [] merged arena = Some (merged, arena)"
| "merge_a_fields jn b_fields ((off, a_field) # rest) merged arena =
     (case map_of b_fields off of
        Some b_field \<Rightarrow>
          (case jn arena (sf_ty a_field) (sf_ty b_field) of
             None \<Rightarrow> None
           | Some (ty, arena1) \<Rightarrow>
               let nm = (case sf_name a_field of Some n \<Rightarrow> Some n | None \<Rightarrow> sf_name b_field)
               in merge_a_fields jn b_fields rest (fields_insert off \<lparr>sf_name = nm, sf_ty = ty\<rparr> merged) arena1)
      | None \<Rightarrow> merge_a_fields jn b_fields rest (fields_insert off a_field merged) arena)"

definition merge_b_fields :: "(u64 \<times> StructField) list \<Rightarrow> (u64 \<times> StructField) list \<Rightarrow> (u64 \<times> StructField) list" where
  "merge_b_fields b_fields merged =
     foldl (\<lambda>merged (off, b_field). if map_of merged off = None then fields_insert off b_field merged else merged)
       merged b_fields"

fun meet_params :: "(TypeId \<times> TypeId) list \<Rightarrow> TypeArena \<Rightarrow> (TypeId list \<times> TypeArena) option" where
  "meet_params [] arena = Some ([], arena)"
| "meet_params ((a_param, b_param) # rest) arena =
     (case meet arena a_param b_param of
        None \<Rightarrow> None
      | Some (p, arena1) \<Rightarrow> map_option (\<lambda>(ps, arena2). (p # ps, arena2)) (meet_params rest arena1))"

definition join_structs ::
  "(TypeArena \<Rightarrow> TypeId \<Rightarrow> TypeId \<Rightarrow> typed) \<Rightarrow> StructShape \<Rightarrow> StructShape \<Rightarrow> TypeArena \<Rightarrow> typed" where
  "join_structs jn a_shape b_shape arena =
     (case merge_a_fields jn (shape_fields b_shape) (shape_fields a_shape) [] arena of
        None \<Rightarrow> None
      | Some (merged, arena1) \<Rightarrow>
          Some (arena_intern
            (TStruct \<lparr>shape_name = (case shape_name a_shape of Some n \<Rightarrow> Some n | None \<Rightarrow> shape_name b_shape),
                      shape_fields = merge_b_fields (shape_fields b_shape) merged\<rparr>) arena1))"

fun join_f :: "nat \<Rightarrow> TypeArena \<Rightarrow> TypeId \<Rightarrow> TypeId \<Rightarrow> typed" where
  "join_f 0 arena a b = None"
| "join_f (Suc fuel) arena a b =
     (case is_subtype arena a b of
        None \<Rightarrow> None
      | Some True \<Rightarrow> Some (b, arena)
      | Some False \<Rightarrow>
        (case is_subtype arena b a of
           None \<Rightarrow> None
         | Some True \<Rightarrow> Some (a, arena)
         | Some False \<Rightarrow>
             let x = arena_get arena a; y = arena_get arena b
             in if x = TBottom then Some (arena_intern y arena)
                else if y = TBottom then Some (arena_intern x arena)
                else if x = TTop \<or> y = TTop then Some (arena_top arena, arena)
                else case (x, y) of
                  (TBool, TBool) \<Rightarrow> Some (arena_bool_ty arena, arena)
                | (TInt a_bits a_sign, TInt b_bits b_sign) \<Rightarrow>
                    Some (arena_int (max a_bits b_bits) (merge_signs a_sign b_sign) arena)
                | (TBool, TInt bits signedness) \<Rightarrow> Some (arena_int (max bits 1) signedness arena)
                | (TInt bits signedness, TBool) \<Rightarrow> Some (arena_int (max bits 1) signedness arena)
                | (TFloat a_bits, TFloat b_bits) \<Rightarrow> Some (arena_float (max a_bits b_bits) arena)
                | (TPtr a_inner, TPtr b_inner) \<Rightarrow> pointer_to (join_f fuel arena a_inner b_inner)
                | (TPtr inner, TInt _ _) \<Rightarrow> pointer_to (join_f fuel arena inner (arena_top arena))
                | (TInt _ _, TPtr inner) \<Rightarrow> pointer_to (join_f fuel arena inner (arena_top arena))
                | (TArray a_elem a_len a_stride, TArray b_elem b_len b_stride) \<Rightarrow>
                    map_option (\<lambda>(elem, arena1).
                        arena_array elem (if a_len = b_len then a_len else None)
                          (if a_stride = b_stride then a_stride else None) arena1)
                      (join_f fuel arena a_elem b_elem)
                | (TStruct a_shape, TStruct b_shape) \<Rightarrow> join_structs (\<lambda>ar i j. join_f fuel ar i j) a_shape b_shape arena
                | (TFunction a_params a_ret a_var, TFunction b_params b_ret b_var) \<Rightarrow>
                    if length a_params = length b_params
                    then (case meet_params (zip a_params b_params) arena of
                            None \<Rightarrow> None
                          | Some (params, arena1) \<Rightarrow>
                              map_option (\<lambda>(ret, arena2). arena_function params ret (a_var \<or> b_var) arena2)
                                (join_f fuel arena1 a_ret b_ret))
                    else Some (arena_top arena, arena)
                | (TUnknownAlias a_name, TUnknownAlias b_name) \<Rightarrow>
                    if a_name = b_name then Some (arena_unknown_alias a_name arena) else Some (arena_top arena, arena)
                | _ \<Rightarrow> Some (arena_top arena, arena)))"

definition join :: "TypeArena \<Rightarrow> TypeId \<Rightarrow> TypeId \<Rightarrow> typed" where
  "join arena a b = join_f (type_fuel arena) arena a b"

end
