(* ===== verification/Types_Solver.thy ===== *)
theory Types_Solver
  imports Types_Lattice
begin

text \<open>
  The constraint solver: \<open>r2types/src/constraint.rs\<close>, \<open>r2types/src/solver.rs\<close> and the type oracle over
  its result, \<open>r2types/src/oracle.rs\<close>.

  Variables are numbered, equality constraints are solved by union-find, the rest is rewritten to
  representatives and applied from a queue in waves until nothing changes or the cap on waves is
  reached. Indexing the assignments or the parents of the union-find out of range panics, and joins
  recurse over types without a bound; both are the value \<open>None\<close> here. The other vectors, the flags
  \<open>in_queue\<close>, the adjacency, the members of the classes, the ranks and the constraints themselves,
  are lists read and updated by index without such a check: their indices are in range in every run,
  which is what \<open>flags_ok\<close>, \<open>build_adjacency_spec\<close>, \<open>rewritten\<close> and the invariant of the union-find
  show. Counters are saturating \<open>usize\<close> of 64 bits.
\<close>

section \<open>Constraints\<close>

datatype ConstraintSource = Inferred | SrcSignatureRegistry | External

fun src_priority :: "ConstraintSource \<Rightarrow> u8" where
  "src_priority Inferred = 1"
| "src_priority SrcSignatureRegistry = 2"
| "src_priority External = 3"

datatype MemoryCapability = CapLoad | CapStore

datatype TypeConstraint =
  CSetType SSAVar TypeId ConstraintSource
| CEqual SSAVar SSAVar ConstraintSource
| CSubtype SSAVar TypeId ConstraintSource
| CHasCapability SSAVar MemoryCapability TypeId ConstraintSource
| CCallSig SSAVar "SSAVar list" "TypeId list" "(SSAVar \<times> TypeId) option" ConstraintSource
| CFieldAccess SSAVar u64 TypeId "string option" ConstraintSource

type_synonym VarId = nat

datatype RawConstraint =
  RSetType VarId TypeId ConstraintSource
| REqual VarId VarId ConstraintSource
| RSubtype VarId TypeId ConstraintSource
| RHasCapability VarId TypeId ConstraintSource
| RCallSig VarId "VarId list" "TypeId list" "(VarId \<times> TypeId) option" ConstraintSource
| RFieldAccess VarId u64 TypeId "string option" ConstraintSource

datatype CompactConstraint =
  KSetType VarId TypeId ConstraintSource
| KSubtype VarId TypeId ConstraintSource
| KHasCapability VarId TypeId ConstraintSource
| KCallSig VarId "VarId list" "TypeId list" "(VarId \<times> TypeId) option" ConstraintSource
| KFieldAccess VarId u64 TypeId "string option" ConstraintSource

fun compact_source :: "CompactConstraint \<Rightarrow> ConstraintSource" where
  "compact_source (KSetType _ _ src) = src"
| "compact_source (KSubtype _ _ src) = src"
| "compact_source (KHasCapability _ _ src) = src"
| "compact_source (KCallSig _ _ _ _ src) = src"
| "compact_source (KFieldAccess _ _ _ _ src) = src"

fun referenced_list :: "CompactConstraint \<Rightarrow> VarId list" where
  "referenced_list (KSetType var _ _) = [var]"
| "referenced_list (KSubtype var _ _) = [var]"
| "referenced_list (KHasCapability ptr _ _) = [ptr]"
| "referenced_list (KFieldAccess base_ptr _ _ _ _) = [base_ptr]"
| "referenced_list (KCallSig target args _ ret _) =
     target # args @ (case ret of Some (ret_var, _) \<Rightarrow> [ret_var] | None \<Rightarrow> [])"

definition referenced_vars :: "CompactConstraint \<Rightarrow> VarId list" where
  "referenced_vars c = remdups_adj (sort (referenced_list c))"

section \<open>Numbering of variables\<close>

record VarInterner =
  vi_ids :: "(SSAVar, VarId) hashmap"
  vi_vars :: "SSAVar list"

definition vi_empty :: VarInterner where
  "vi_empty = \<lparr>vi_ids = [], vi_vars = []\<rparr>"

definition vi_intern :: "SSAVar \<Rightarrow> VarInterner \<Rightarrow> VarId \<times> VarInterner" where
  "vi_intern v vi =
     (case hm_get (vi_ids vi) v of
        Some idx \<Rightarrow> (idx, vi)
      | None \<Rightarrow>
          let idx = length (vi_vars vi)
          in (idx, vi\<lparr>vi_vars := vi_vars vi @ [v], vi_ids := hm_insert v idx (vi_ids vi)\<rparr>))"

fun vi_intern_list :: "SSAVar list \<Rightarrow> VarInterner \<Rightarrow> VarId list \<times> VarInterner" where
  "vi_intern_list [] vi = ([], vi)"
| "vi_intern_list (v # vs) vi =
     (let (idx, vi1) = vi_intern v vi; (ids, vi2) = vi_intern_list vs vi1 in (idx # ids, vi2))"

fun intern_constraint :: "TypeConstraint \<Rightarrow> VarInterner \<Rightarrow> RawConstraint \<times> VarInterner" where
  "intern_constraint (CSetType var ty src) vi = (let (v, vi1) = vi_intern var vi in (RSetType v ty src, vi1))"
| "intern_constraint (CEqual a b src) vi =
     (let (x, vi1) = vi_intern a vi; (y, vi2) = vi_intern b vi1 in (REqual x y src, vi2))"
| "intern_constraint (CSubtype var ty src) vi = (let (v, vi1) = vi_intern var vi in (RSubtype v ty src, vi1))"
| "intern_constraint (CHasCapability ptr _ elem_ty src) vi =
     (let (p, vi1) = vi_intern ptr vi in (RHasCapability p elem_ty src, vi1))"
| "intern_constraint (CCallSig target args params ret src) vi =
     (let (t, vi1) = vi_intern target vi;
          (as, vi2) = vi_intern_list args vi1
      in case ret of
           None \<Rightarrow> (RCallSig t as params None src, vi2)
         | Some (var, ty) \<Rightarrow> (let (v, vi3) = vi_intern var vi2 in (RCallSig t as params (Some (v, ty)) src, vi3)))"
| "intern_constraint (CFieldAccess base_ptr off field_ty field_name src) vi =
     (let (p, vi1) = vi_intern base_ptr vi in (RFieldAccess p off field_ty field_name src, vi1))"

fun intern_constraints :: "TypeConstraint list \<Rightarrow> VarInterner \<Rightarrow> RawConstraint list \<times> VarInterner" where
  "intern_constraints [] vi = ([], vi)"
| "intern_constraints (c # cs) vi =
     (let (r, vi1) = intern_constraint c vi; (rs, vi2) = intern_constraints cs vi1 in (r # rs, vi2))"

section \<open>Union-find\<close>

record VarDsu =
  dsu_parent :: "VarId list"
  dsu_rank :: "16 word list"

definition dsu_new :: "nat \<Rightarrow> VarDsu" where
  "dsu_new n = \<lparr>dsu_parent = [0..<n], dsu_rank = replicate n 0\<rparr>"

fun dsu_find_f :: "nat \<Rightarrow> VarDsu \<Rightarrow> VarId \<Rightarrow> (VarId \<times> VarDsu) option" where
  "dsu_find_f 0 d v = None"
| "dsu_find_f (Suc fuel) d v =
     (if v < length (dsu_parent d)
      then let parent = dsu_parent d ! v
           in if parent = v then Some (v, d)
              else case dsu_find_f fuel d parent of
                     None \<Rightarrow> None
                   | Some (root, d1) \<Rightarrow> Some (root, d1\<lparr>dsu_parent := (dsu_parent d1)[v := root]\<rparr>)
      else None)"

text \<open>A chain of parents longer than the vector repeats an entry and never ends.\<close>

definition dsu_find :: "VarDsu \<Rightarrow> VarId \<Rightarrow> (VarId \<times> VarDsu) option" where
  "dsu_find d v = dsu_find_f (length (dsu_parent d)) d v"

definition u16_saturating_inc :: "16 word \<Rightarrow> 16 word" where
  "u16_saturating_inc r = (if r = - 1 then r else r + 1)"

definition dsu_union :: "VarDsu \<Rightarrow> VarId \<Rightarrow> VarId \<Rightarrow> VarDsu option" where
  "dsu_union d a b =
     (case dsu_find d a of
        None \<Rightarrow> None
      | Some (ra0, d1) \<Rightarrow>
        (case dsu_find d1 b of
           None \<Rightarrow> None
         | Some (rb0, d2) \<Rightarrow>
             if ra0 = rb0 then Some d2
             else let (ra, rb) = (if dsu_rank d2 ! ra0 < dsu_rank d2 ! rb0 then (rb0, ra0) else (ra0, rb0));
                      d3 = d2\<lparr>dsu_parent := (dsu_parent d2)[rb := ra]\<rparr>
                  in Some (if dsu_rank d3 ! ra = dsu_rank d3 ! rb
                           then d3\<lparr>dsu_rank := (dsu_rank d3)[ra := u16_saturating_inc (dsu_rank d3 ! ra)]\<rparr>
                           else d3)))"

fun union_equals :: "RawConstraint list \<Rightarrow> VarDsu \<Rightarrow> VarDsu option" where
  "union_equals [] d = Some d"
| "union_equals (REqual a b _ # cs) d = Option.bind (dsu_union d a b) (union_equals cs)"
| "union_equals (_ # cs) d = union_equals cs d"

fun dsu_find_list :: "VarId list \<Rightarrow> VarDsu \<Rightarrow> (VarId list \<times> VarDsu) option" where
  "dsu_find_list [] d = Some ([], d)"
| "dsu_find_list (v # vs) d =
     (case dsu_find d v of
        None \<Rightarrow> None
      | Some (r, d1) \<Rightarrow> map_option (\<lambda>(rs, d2). (r # rs, d2)) (dsu_find_list vs d1))"

text \<open>The loop that fills \<open>class_members\<close>.\<close>

definition class_members_of :: "VarId list \<Rightarrow> VarId list list \<Rightarrow> VarId list list" where
  "class_members_of reps members = foldl (\<lambda>m (idx, rep). m[rep := m ! rep @ [idx]]) members (enumerate 0 reps)"

fun rewrite_constraint :: "RawConstraint \<Rightarrow> VarDsu \<Rightarrow> (CompactConstraint list \<times> VarDsu) option" where
  "rewrite_constraint (REqual _ _ _) d = Some ([], d)"
| "rewrite_constraint (RSetType var ty src) d = map_option (\<lambda>(v, d1). ([KSetType v ty src], d1)) (dsu_find d var)"
| "rewrite_constraint (RSubtype var ty src) d = map_option (\<lambda>(v, d1). ([KSubtype v ty src], d1)) (dsu_find d var)"
| "rewrite_constraint (RHasCapability ptr elem_ty src) d =
     map_option (\<lambda>(p, d1). ([KHasCapability p elem_ty src], d1)) (dsu_find d ptr)"
| "rewrite_constraint (RCallSig target args params ret src) d =
     (case dsu_find d target of
        None \<Rightarrow> None
      | Some (t, d1) \<Rightarrow>
        (case dsu_find_list args d1 of
           None \<Rightarrow> None
         | Some (as, d2) \<Rightarrow>
           (case ret of
              None \<Rightarrow> Some ([KCallSig t as params None src], d2)
            | Some (var, ty) \<Rightarrow>
                map_option (\<lambda>(v, d3). ([KCallSig t as params (Some (v, ty)) src], d3)) (dsu_find d2 var))))"
| "rewrite_constraint (RFieldAccess base_ptr off field_ty field_name src) d =
     map_option (\<lambda>(p, d1). ([KFieldAccess p off field_ty field_name src], d1)) (dsu_find d base_ptr)"

fun rewrite_constraints :: "RawConstraint list \<Rightarrow> VarDsu \<Rightarrow> (CompactConstraint list \<times> VarDsu) option" where
  "rewrite_constraints [] d = Some ([], d)"
| "rewrite_constraints (r # rs) d =
     (case rewrite_constraint r d of
        None \<Rightarrow> None
      | Some (k, d1) \<Rightarrow> map_option (\<lambda>(ks, d2). (k @ ks, d2)) (rewrite_constraints rs d1))"

record RewrittenConstraints =
  rc_constraints :: "CompactConstraint list"
  rc_class_members :: "VarId list list"
  rc_vars :: "SSAVar list"

definition rewrite_equal_constraints :: "TypeConstraint list \<Rightarrow> RewrittenConstraints option" where
  "rewrite_equal_constraints constraints =
     (let (raw, interner) = intern_constraints constraints vi_empty;
          var_count = length (vi_vars interner)
      in case union_equals raw (dsu_new var_count) of
           None \<Rightarrow> None
         | Some d \<Rightarrow>
           (case dsu_find_list [0..<var_count] d of
              None \<Rightarrow> None
            | Some (reps, d1) \<Rightarrow>
                map_option (\<lambda>(rewritten, _).
                    \<lparr>rc_constraints = rewritten,
                     rc_class_members = class_members_of reps (replicate var_count []),
                     rc_vars = vi_vars interner\<rparr>)
                  (rewrite_constraints raw d1)))"

section \<open>Solver state\<close>

record SolverDiagnostics =
  sd_warnings :: "string list"
  sd_conflicts :: "string list"
  sd_iterations :: nat
  sd_converged :: bool
  sd_rewritten_constraints :: nat
  sd_var_count :: nat
  sd_constraints_processed :: nat
  sd_queue_pushes :: nat
  sd_queue_pops :: nat

definition sd_default :: SolverDiagnostics where
  "sd_default = \<lparr>sd_warnings = [], sd_conflicts = [], sd_iterations = 0, sd_converged = False,
     sd_rewritten_constraints = 0, sd_var_count = 0, sd_constraints_processed = 0, sd_queue_pushes = 0, sd_queue_pops = 0\<rparr>"

record Assignment =
  as_ty :: TypeId
  as_priority :: u8

record SolverState =
  ss_arena :: TypeArena
  ss_assignments :: "Assignment option list"
  ss_vars :: "SSAVar list"
  ss_diagnostics :: SolverDiagnostics
  ss_join_cache :: "(TypeId \<times> TypeId, TypeId) hashmap"
  ss_meet_cache :: "(TypeId \<times> TypeId, TypeId) hashmap"
  ss_changed :: "VarId list"

definition ss_new :: "TypeArena \<Rightarrow> SSAVar list \<Rightarrow> SolverState" where
  "ss_new arena vars =
     \<lparr>ss_arena = arena, ss_assignments = replicate (length vars) None, ss_vars = vars,
      ss_diagnostics = sd_default, ss_join_cache = [], ss_meet_cache = [], ss_changed = []\<rparr>"

definition normalize_pair :: "TypeId \<Rightarrow> TypeId \<Rightarrow> TypeId \<times> TypeId" where
  "normalize_pair a b = (if a \<le> b then (a, b) else (b, a))"

definition mark_changed :: "VarId \<Rightarrow> VarId list \<Rightarrow> VarId list" where
  "mark_changed var changed_vars = (if var \<in> set changed_vars then changed_vars else changed_vars @ [var])"

definition join_cached :: "TypeId \<Rightarrow> TypeId \<Rightarrow> SolverState \<Rightarrow> (TypeId \<times> SolverState) option" where
  "join_cached a b s =
     (case hm_get (ss_join_cache s) (normalize_pair a b) of
        Some ty \<Rightarrow> Some (ty, s)
      | None \<Rightarrow>
          map_option (\<lambda>(ty, arena).
              (ty, s\<lparr>ss_arena := arena, ss_join_cache := hm_insert (normalize_pair a b) ty (ss_join_cache s)\<rparr>))
            (join (ss_arena s) a b))"

definition meet_cached :: "TypeId \<Rightarrow> TypeId \<Rightarrow> SolverState \<Rightarrow> (TypeId \<times> SolverState) option" where
  "meet_cached a b s =
     (case hm_get (ss_meet_cache s) (normalize_pair a b) of
        Some ty \<Rightarrow> Some (ty, s)
      | None \<Rightarrow>
          map_option (\<lambda>(ty, arena).
              (ty, s\<lparr>ss_arena := arena, ss_meet_cache := hm_insert (normalize_pair a b) ty (ss_meet_cache s)\<rparr>))
            (meet (ss_arena s) a b))"

text \<open>Writing an assignment and marking its variable.\<close>

definition set_assignment :: "VarId \<Rightarrow> TypeId \<Rightarrow> u8 \<Rightarrow> SolverState \<Rightarrow> SolverState" where
  "set_assignment var ty prio s =
     s\<lparr>ss_assignments := (ss_assignments s)[var := Some \<lparr>as_ty = ty, as_priority = prio\<rparr>],
       ss_changed := mark_changed var (ss_changed s)\<rparr>"

definition push_conflict :: "VarId \<Rightarrow> u8 \<Rightarrow> SolverState \<Rightarrow> SolverState" where
  "push_conflict var prio s =
     s\<lparr>ss_diagnostics := (ss_diagnostics s)\<lparr>sd_conflicts := sd_conflicts (ss_diagnostics s) @
         [display_name (ss_vars s ! var) @ '' overridden by higher-priority source ('' @ show_dec (unat prio) @ '')'']\<rparr>\<rparr>"

definition assign :: "VarId \<Rightarrow> TypeId \<Rightarrow> u8 \<Rightarrow> SolverState \<Rightarrow> (bool \<times> SolverState) option" where
  "assign var ty prio s =
     (if var < length (ss_assignments s)
      then case ss_assignments s ! var of
             None \<Rightarrow> Some (True, set_assignment var ty prio s)
           | Some existing \<Rightarrow>
               if prio > as_priority existing
               then Some (True, set_assignment var ty prio (if as_ty existing \<noteq> ty then push_conflict var prio s else s))
               else if prio < as_priority existing then Some (False, s)
               else if as_ty existing = ty then Some (False, s)
               else case join_cached (as_ty existing) ty s of
                      None \<Rightarrow> None
                    | Some (joined, s1) \<Rightarrow>
                        if joined \<noteq> as_ty existing then Some (True, set_assignment var joined prio s1) else Some (False, s1)
      else None)"

section \<open>Applying a constraint\<close>

definition struct_behind :: "TypeArena \<Rightarrow> TypeId \<Rightarrow> TypeId option" where
  "struct_behind arena ty =
     (case arena_get arena ty of
        TPtr inner \<Rightarrow> (case arena_get arena inner of TStruct _ \<Rightarrow> Some inner | _ \<Rightarrow> None)
      | TStruct _ \<Rightarrow> Some ty
      | _ \<Rightarrow> None)"

definition field_access_is_noop :: "TypeArena \<Rightarrow> TypeId \<Rightarrow> u64 \<Rightarrow> TypeId \<Rightarrow> string option \<Rightarrow> bool" where
  "field_access_is_noop arena ty off field_ty field_name =
     (case struct_behind arena ty of
        None \<Rightarrow> False
      | Some struct_ty \<Rightarrow>
        (case arena_get arena struct_ty of
           TStruct shape \<Rightarrow>
             (case map_of (shape_fields shape) off of
                None \<Rightarrow> False
              | Some field \<Rightarrow> sf_ty field = field_ty \<and> (sf_name field \<noteq> None \<or> field_name = None))
         | _ \<Rightarrow> False))"

definition apply_field_access ::
  "VarId \<Rightarrow> u64 \<Rightarrow> TypeId \<Rightarrow> string option \<Rightarrow> u8 \<Rightarrow> SolverState \<Rightarrow> (bool \<times> SolverState) option" where
  "apply_field_access base_ptr off field_ty field_name prio s =
     (if base_ptr < length (ss_assignments s)
      then let existing = ss_assignments s ! base_ptr
           in if (case existing of
                    Some e \<Rightarrow> field_access_is_noop (ss_arena s) (as_ty e) off field_ty field_name
                  | None \<Rightarrow> False)
              then Some (False, s)
              else let (struct_ty, arena1) =
                         (case Option.bind existing (\<lambda>e. struct_behind (ss_arena s) (as_ty e)) of
                            Some t \<Rightarrow> (t, ss_arena s)
                          | None \<Rightarrow> struct_anon (ss_arena s));
                       (struct_ty1, arena2) = struct_with_field struct_ty off field_name field_ty arena1;
                       (ptr_ty, arena3) = arena_ptr struct_ty1 arena2;
                       s1 = s\<lparr>ss_arena := arena3\<rparr>
                   in case existing of
                        Some e \<Rightarrow>
                          if as_priority e = prio
                          then if as_ty e \<noteq> ptr_ty then Some (True, set_assignment base_ptr ptr_ty (as_priority e) s1)
                               else Some (False, s1)
                          else assign base_ptr ptr_ty prio s1
                      | None \<Rightarrow> assign base_ptr ptr_ty prio s1
      else None)"

fun assign_list :: "(VarId \<times> TypeId) list \<Rightarrow> u8 \<Rightarrow> SolverState \<Rightarrow> (bool \<times> SolverState) option" where
  "assign_list [] prio s = Some (False, s)"
| "assign_list ((var, ty) # rest) prio s =
     (case assign var ty prio s of
        None \<Rightarrow> None
      | Some (c, s1) \<Rightarrow> map_option (\<lambda>(c', s2). (c \<or> c', s2)) (assign_list rest prio s1))"

fun apply_constraint :: "CompactConstraint \<Rightarrow> SolverState \<Rightarrow> (bool \<times> SolverState) option" where
  "apply_constraint (KSetType var ty src) s = assign var ty (src_priority src) s"
| "apply_constraint (KSubtype var ty src) s =
     (if var < length (ss_assignments s)
      then case ss_assignments s ! var of
             Some existing \<Rightarrow>
               (case meet_cached (as_ty existing) ty s of
                  None \<Rightarrow> None
                | Some (tightened, s1) \<Rightarrow> assign var tightened (max (src_priority src) (as_priority existing)) s1)
           | None \<Rightarrow> assign var ty (src_priority src) s
      else None)"
| "apply_constraint (KHasCapability ptr elem_ty src) s =
     (let (ptr_ty, arena) = arena_ptr elem_ty (ss_arena s)
      in assign ptr ptr_ty (src_priority src) (s\<lparr>ss_arena := arena\<rparr>))"
| "apply_constraint (KFieldAccess base_ptr off field_ty field_name src) s =
     apply_field_access base_ptr off field_ty field_name (src_priority src) s"
| "apply_constraint (KCallSig _ args params ret src) s =
     assign_list (zip args params @ (case ret of Some p \<Rightarrow> [p] | None \<Rightarrow> [])) (src_priority src) s"

section \<open>The queue\<close>

definition build_adjacency :: "nat \<Rightarrow> CompactConstraint list \<Rightarrow> nat list list" where
  "build_adjacency var_count constraints =
     foldl (\<lambda>adj (idx, c). foldl (\<lambda>adj var. adj[var := adj ! var @ [idx]]) adj (referenced_vars c))
       (replicate var_count []) (enumerate 0 constraints)"

definition usize_inc :: "nat \<Rightarrow> nat" where
  "usize_inc n = nat (min (int n + 1) (2 ^ 64 - 1))"

record SolverQueue =
  sq_queue :: "nat list"
  sq_in_queue :: "bool list"
  sq_state :: SolverState

definition count_push :: "SolverState \<Rightarrow> SolverState" where
  "count_push s = s\<lparr>ss_diagnostics := (ss_diagnostics s)\<lparr>sd_queue_pushes := usize_inc (sd_queue_pushes (ss_diagnostics s))\<rparr>\<rparr>"

definition count_pop :: "SolverState \<Rightarrow> SolverState" where
  "count_pop s =
     s\<lparr>ss_diagnostics := (ss_diagnostics s)
         \<lparr>sd_queue_pops := usize_inc (sd_queue_pops (ss_diagnostics s)),
          sd_constraints_processed := usize_inc (sd_constraints_processed (ss_diagnostics s))\<rparr>\<rparr>"

definition count_iteration :: "SolverState \<Rightarrow> SolverState" where
  "count_iteration s = s\<lparr>ss_diagnostics := (ss_diagnostics s)\<lparr>sd_iterations := usize_inc (sd_iterations (ss_diagnostics s))\<rparr>\<rparr>"

definition push_dep :: "SolverQueue \<Rightarrow> nat \<Rightarrow> SolverQueue" where
  "push_dep q dep =
     (if \<not> sq_in_queue q ! dep
      then \<lparr>sq_queue = sq_queue q @ [dep], sq_in_queue = (sq_in_queue q)[dep := True], sq_state = count_push (sq_state q)\<rparr>
      else q)"

definition push_dependents :: "nat list list \<Rightarrow> SolverQueue \<Rightarrow> SolverQueue" where
  "push_dependents adjacency q =
     foldl (\<lambda>q var. foldl push_dep q (adjacency ! var)) q (ss_changed (sq_state q))"

definition process_one :: "CompactConstraint list \<Rightarrow> nat list list \<Rightarrow> nat \<Rightarrow> SolverQueue \<Rightarrow> SolverQueue option" where
  "process_one constraints adjacency c_idx q =
     (case apply_constraint (constraints ! c_idx) ((count_pop (sq_state q))\<lparr>ss_changed := []\<rparr>) of
        None \<Rightarrow> None
      | Some (_, s) \<Rightarrow>
          Some (push_dependents adjacency
            (q\<lparr>sq_in_queue := (sq_in_queue q)[c_idx := False], sq_state := s\<rparr>)))"

fun solve_wave :: "CompactConstraint list \<Rightarrow> nat list list \<Rightarrow> nat \<Rightarrow> SolverQueue \<Rightarrow> SolverQueue option" where
  "solve_wave constraints adjacency 0 q = Some q"
| "solve_wave constraints adjacency (Suc n) q =
     (case sq_queue q of
        [] \<Rightarrow> Some q
      | c_idx # rest \<Rightarrow>
          Option.bind (process_one constraints adjacency c_idx (q\<lparr>sq_queue := rest\<rparr>)) (solve_wave constraints adjacency n))"

text \<open>The argument counts the waves that are left of \<open>max_iterations\<close>.\<close>

fun solve_waves :: "CompactConstraint list \<Rightarrow> nat list list \<Rightarrow> nat \<Rightarrow> SolverQueue \<Rightarrow> SolverQueue option" where
  "solve_waves constraints adjacency 0 q = Some q"
| "solve_waves constraints adjacency (Suc left) q =
     (if sq_queue q = [] then Some q
      else Option.bind
             (solve_wave constraints adjacency (length (sq_queue q)) (q\<lparr>sq_state := count_iteration (sq_state q)\<rparr>))
             (solve_waves constraints adjacency left))"

section \<open>Solving\<close>

record SolvedTypes =
  sol_arena :: TypeArena
  sol_var_types :: "(SSAVar, TypeId) hashmap"
  sol_diagnostics :: SolverDiagnostics
  sol_top_id :: TypeId

definition materialize_class ::
  "VarId list list \<Rightarrow> SSAVar list \<Rightarrow> (SSAVar, TypeId) hashmap \<Rightarrow> nat \<times> Assignment option \<Rightarrow> (SSAVar, TypeId) hashmap" where
  "materialize_class class_members vars = (\<lambda>var_types (representative, assignment).
     case assignment of
       None \<Rightarrow> var_types
     | Some asg \<Rightarrow>
         if representative < length class_members \<and> class_members ! representative \<noteq> []
         then foldl (\<lambda>m member. if member < length vars then hm_insert (vars ! member) (as_ty asg) m else m)
                var_types (class_members ! representative)
         else if representative < length vars then hm_insert (vars ! representative) (as_ty asg) var_types
         else var_types)"

definition materialize_solution ::
  "TypeArena \<Rightarrow> Assignment option list \<Rightarrow> VarId list list \<Rightarrow> SSAVar list \<Rightarrow> SolverDiagnostics \<Rightarrow> SolvedTypes" where
  "materialize_solution arena assignments class_members vars diagnostics =
     \<lparr>sol_arena = arena,
      sol_var_types = foldl (materialize_class class_members vars) [] (enumerate 0 assignments),
      sol_diagnostics = diagnostics,
      sol_top_id = arena_top arena\<rparr>"

definition initial_queue :: "TypeArena \<Rightarrow> RewrittenConstraints \<Rightarrow> SolverQueue" where
  "initial_queue arena rc =
     (let n = length (rc_constraints rc); s = ss_new arena (rc_vars rc)
      in \<lparr>sq_queue = [0..<n], sq_in_queue = replicate n True,
          sq_state = s\<lparr>ss_diagnostics := (ss_diagnostics s)
            \<lparr>sd_rewritten_constraints := n, sd_var_count := length (rc_vars rc), sd_queue_pushes := n\<rparr>\<rparr>\<rparr>)"

definition finish_diagnostics :: "nat \<Rightarrow> bool \<Rightarrow> SolverDiagnostics \<Rightarrow> SolverDiagnostics" where
  "finish_diagnostics max_iterations converged d =
     (let d1 = d\<lparr>sd_converged := converged\<rparr>
      in if \<not> converged
         then d1\<lparr>sd_warnings := sd_warnings d1 @ [''type solver reached iteration cap ('' @ show_dec max_iterations @ '')'']\<rparr>
         else d1)"

definition solve_worklist :: "TypeArena \<Rightarrow> TypeConstraint list \<Rightarrow> nat \<Rightarrow> SolvedTypes option" where
  "solve_worklist arena constraints max_iterations =
     (case rewrite_equal_constraints constraints of
        None \<Rightarrow> None
      | Some rc \<Rightarrow>
          map_option (\<lambda>q.
              materialize_solution (ss_arena (sq_state q)) (ss_assignments (sq_state q)) (rc_class_members rc)
                (ss_vars (sq_state q))
                (finish_diagnostics max_iterations (sq_queue q = []) (ss_diagnostics (sq_state q))))
            (solve_waves (rc_constraints rc) (build_adjacency (length (rc_vars rc)) (rc_constraints rc)) max_iterations
              (initial_queue arena rc)))"

text \<open>\<open>SolverConfig::default\<close>.\<close>

definition default_max_iterations :: nat where
  "default_max_iterations = 64"

definition type_solve :: "nat \<Rightarrow> TypeArena \<Rightarrow> TypeConstraint list \<Rightarrow> SolvedTypes option" where
  "type_solve config_max_iterations arena constraints = solve_worklist arena constraints config_max_iterations"

section \<open>The type oracle\<close>

definition type_of :: "SolvedTypes \<Rightarrow> SSAVar \<Rightarrow> TypeId" where
  "type_of sol v = (case hm_get (sol_var_types sol) v of Some ty \<Rightarrow> ty | None \<Rightarrow> sol_top_id sol)"

definition struct_shape :: "SolvedTypes \<Rightarrow> TypeId \<Rightarrow> StructShape option" where
  "struct_shape sol ty =
     (case arena_get (sol_arena sol) ty of
        TStruct shape \<Rightarrow> Some shape
      | TPtr inner \<Rightarrow> (case arena_get (sol_arena sol) inner of TStruct shape \<Rightarrow> Some shape | _ \<Rightarrow> None)
      | _ \<Rightarrow> None)"

definition oracle_is_pointer :: "SolvedTypes \<Rightarrow> TypeId \<Rightarrow> bool" where
  "oracle_is_pointer sol ty = (case arena_get (sol_arena sol) ty of TPtr _ \<Rightarrow> True | _ \<Rightarrow> False)"

definition oracle_is_array :: "SolvedTypes \<Rightarrow> TypeId \<Rightarrow> bool" where
  "oracle_is_array sol ty = (case arena_get (sol_arena sol) ty of TArray _ _ _ \<Rightarrow> True | _ \<Rightarrow> False)"

definition oracle_field_name :: "SolvedTypes \<Rightarrow> TypeId \<Rightarrow> u64 \<Rightarrow> string option" where
  "oracle_field_name sol ty off =
     Option.bind (struct_shape sol ty) (\<lambda>shape. Option.bind (map_of (shape_fields shape) off) sf_name)"

definition ty_field_name :: "Ty \<Rightarrow> u64 \<Rightarrow> string option" where
  "ty_field_name ty off =
     (case ty of TStruct shape \<Rightarrow> Option.bind (map_of (shape_fields shape) off) sf_name | _ \<Rightarrow> None)"

fun field_name_any_loop :: "Ty list \<Rightarrow> u64 \<Rightarrow> string option \<Rightarrow> string option" where
  "field_name_any_loop [] off matched = matched"
| "field_name_any_loop (ty # tys) off matched =
     (case ty_field_name ty off of
        None \<Rightarrow> field_name_any_loop tys off matched
      | Some nm \<Rightarrow>
        (case matched of
           None \<Rightarrow> field_name_any_loop tys off (Some nm)
         | Some existing \<Rightarrow> if existing = nm then field_name_any_loop tys off matched else None))"

definition field_name_any :: "SolvedTypes \<Rightarrow> u64 \<Rightarrow> string option" where
  "field_name_any sol off = field_name_any_loop (arena_types (sol_arena sol)) off None"

record ResolvedFieldLayout =
  rfl_owner_name :: "string option"
  rfl_field_name :: string
  rfl_field_offset :: u64
  rfl_element_stride :: "u64 option"

definition layout_direct :: "string option \<Rightarrow> u64 \<Rightarrow> string \<Rightarrow> ResolvedFieldLayout" where
  "layout_direct owner_name field_offset field_name =
     \<lparr>rfl_owner_name = owner_name, rfl_field_name = field_name, rfl_field_offset = field_offset, rfl_element_stride = None\<rparr>"

definition layout_indexed :: "string option \<Rightarrow> u64 \<Rightarrow> u64 \<Rightarrow> string \<Rightarrow> ResolvedFieldLayout" where
  "layout_indexed owner_name element_stride field_offset field_name =
     \<lparr>rfl_owner_name = owner_name, rfl_field_name = field_name, rfl_field_offset = field_offset,
      rfl_element_stride = Some element_stride\<rparr>"

definition oracle_field_layout :: "SolvedTypes \<Rightarrow> TypeId \<Rightarrow> u64 \<Rightarrow> ResolvedFieldLayout option" where
  "oracle_field_layout sol ty off =
     Option.bind (struct_shape sol ty) (\<lambda>shape.
       Option.bind (map_of (shape_fields shape) off) (\<lambda>field.
         map_option (layout_direct (shape_name shape) off) (sf_name field)))"

definition oracle_indexed_field_layout :: "SolvedTypes \<Rightarrow> TypeId \<Rightarrow> u64 \<Rightarrow> u64 \<Rightarrow> ResolvedFieldLayout option" where
  "oracle_indexed_field_layout sol ty elem_stride field_offset =
     (if unat elem_stride + unat field_offset < 2 ^ 64
      then map_option (\<lambda>l. layout_indexed (rfl_owner_name l) elem_stride field_offset (rfl_field_name l))
             (oracle_field_layout sol ty (elem_stride + field_offset))
      else None)"

end
