(* ===== verification/Types_Arena_Props.thy ===== *)
theory Types_Arena_Props
  imports Types_Arena
begin

text \<open>
  Interning. Both the type arena and the variable table of the solver hand out an index per value;
  what they promise is one locale, with the facts a client needs proved in it once.
\<close>

section \<open>The contract of an interner\<close>

locale interner =
  fixes ok :: "'s \<Rightarrow> bool" and size :: "'s \<Rightarrow> nat" and lookup :: "'s \<Rightarrow> nat \<Rightarrow> 't"
    and intern :: "'t \<Rightarrow> 's \<Rightarrow> nat \<times> 's"
  assumes ok_intern: "ok s \<Longrightarrow> ok (snd (intern t s))"
    and index_valid: "ok s \<Longrightarrow> fst (intern t s) < size (snd (intern t s))"
    and lookup_new: "ok s \<Longrightarrow> lookup (snd (intern t s)) (fst (intern t s)) = t"
    and lookup_old: "ok s \<Longrightarrow> i < size s \<Longrightarrow> lookup (snd (intern t s)) i = lookup s i"
    and size_grows: "ok s \<Longrightarrow> size s \<le> size (snd (intern t s))"
    and canonical: "ok s \<Longrightarrow> i < size s \<Longrightarrow> j < size s \<Longrightarrow> lookup s i = lookup s j \<Longrightarrow> i = j"
begin

text \<open>A value that has an index keeps it.\<close>

lemma intern_known:
  assumes "ok s" "i < size s" "lookup s i = t"
  shows "fst (intern t s) = i"
proof (rule canonical [OF ok_intern [OF assms(1)] index_valid [OF assms(1)]])
  show "i < size (snd (intern t s))" using assms(2) size_grows [OF assms(1), of t] by simp
  show "lookup (snd (intern t s)) (fst (intern t s)) = lookup (snd (intern t s)) i"
    using assms lookup_new lookup_old by simp
qed

text \<open>Interning twice gives the same index, whatever is interned in between.\<close>

lemma intern_again:
  assumes "ok s"
  shows "fst (intern t (snd (intern u (snd (intern t s))))) = fst (intern t s)"
proof (rule intern_known)
  let ?s = "snd (intern t s)"
  note o = ok_intern [OF assms, of t]
  show "ok (snd (intern u ?s))" by (rule ok_intern [OF o])
  show "fst (intern t s) < size (snd (intern u ?s))"
    using index_valid [OF assms, of t] size_grows [OF o, of u] by simp
  show "lookup (snd (intern u ?s)) (fst (intern t s)) = t"
    using lookup_old [OF o index_valid [OF assms]] lookup_new [OF assms] by simp
qed

text \<open>Two values have the same index exactly when they are equal.\<close>

lemma intern_same_index:
  assumes "ok s"
  shows "fst (intern t s) = fst (intern u (snd (intern t s))) \<longleftrightarrow> t = u"
proof
  let ?s = "snd (intern t s)"
  note o = ok_intern [OF assms, of t]
  assume "fst (intern t s) = fst (intern u ?s)"
  then show "t = u"
    using lookup_new [OF o, of u] lookup_old [OF o index_valid [OF assms], of u] lookup_new [OF assms, of t] by simp
next
  let ?s = "snd (intern t s)"
  assume "t = u"
  then show "fst (intern t s) = fst (intern u ?s)"
    using intern_known [OF ok_intern [OF assms, of t] index_valid [OF assms] lookup_new [OF assms]] by simp
qed

end

section \<open>The type arena\<close>

definition arena_ok :: "TypeArena \<Rightarrow> bool" where
  "arena_ok a \<longleftrightarrow>
     (\<forall>ty i. hm_get (arena_intern_index a) ty = Some i \<longleftrightarrow> i < length (arena_types a) \<and> arena_types a ! i = ty) \<and>
     arena_top a < length (arena_types a) \<and> arena_types a ! arena_top a = TTop \<and>
     arena_bottom a < length (arena_types a) \<and> arena_types a ! arena_bottom a = TBottom \<and>
     arena_bool_ty a < length (arena_types a) \<and> arena_types a ! arena_bool_ty a = TBool"

text \<open>An arena that only grew.\<close>

definition arena_ext :: "TypeArena \<Rightarrow> TypeArena \<Rightarrow> bool" where
  "arena_ext a a' \<longleftrightarrow>
     (\<exists>ts. arena_types a' = arena_types a @ ts) \<and> arena_top a' = arena_top a \<and>
     arena_bottom a' = arena_bottom a \<and> arena_bool_ty a' = arena_bool_ty a"

lemma arena_ext_refl [simp]: "arena_ext a a"
  by (simp add: arena_ext_def)

lemma arena_ext_trans [trans]: "arena_ext a b \<Longrightarrow> arena_ext b c \<Longrightarrow> arena_ext a c"
  by (auto simp: arena_ext_def)

lemma arena_ext_get: "arena_ext a a' \<Longrightarrow> i < length (arena_types a) \<Longrightarrow> arena_get a' i = arena_get a i"
  by (auto simp: arena_ext_def arena_get_def nth_append)

lemma arena_ext_size: "arena_ext a a' \<Longrightarrow> length (arena_types a) \<le> length (arena_types a')"
  by (auto simp: arena_ext_def)

lemma arena_intern_ext: "arena_ext a (snd (arena_intern ty a))"
  by (auto simp: arena_intern_def arena_ext_def Let_def split: option.splits)

lemma arena_intern_ok:
  assumes "arena_ok a"
  shows "arena_ok (snd (arena_intern ty a))" "fst (arena_intern ty a) < length (arena_types (snd (arena_intern ty a)))"
    "arena_get (snd (arena_intern ty a)) (fst (arena_intern ty a)) = ty"
proof -
  have idx: "hm_get (arena_intern_index a) t = Some i \<longleftrightarrow> i < length (arena_types a) \<and> arena_types a ! i = t" for t i
    using assms by (simp add: arena_ok_def)
  have "arena_ok (snd (arena_intern ty a)) \<and> fst (arena_intern ty a) < length (arena_types (snd (arena_intern ty a))) \<and>
      arena_get (snd (arena_intern ty a)) (fst (arena_intern ty a)) = ty"
  proof (cases "hm_get (arena_intern_index a) ty")
    case (Some i)
    then have "arena_intern ty a = (i, a)" by (simp add: arena_intern_def)
    then show ?thesis using assms Some [unfolded idx] by (simp add: arena_get_def)
  next
    case None
    then have "\<forall>i < length (arena_types a). arena_types a ! i \<noteq> ty" using idx by (metis option.distinct(1))
    then show ?thesis
      using assms None
      by (auto simp: arena_intern_def arena_get_def arena_ok_def hm_get_insert nth_append less_Suc_eq Let_def)
  qed
  then show "arena_ok (snd (arena_intern ty a))" "fst (arena_intern ty a) < length (arena_types (snd (arena_intern ty a)))"
    "arena_get (snd (arena_intern ty a)) (fst (arena_intern ty a)) = ty" by auto
qed

interpretation arena: interner arena_ok "\<lambda>a. length (arena_types a)" arena_get arena_intern
proof
  fix a :: TypeArena and ty :: Ty and i j :: nat
  assume ok: "arena_ok a"
  show "arena_ok (snd (arena_intern ty a))" "fst (arena_intern ty a) < length (arena_types (snd (arena_intern ty a)))"
    "arena_get (snd (arena_intern ty a)) (fst (arena_intern ty a)) = ty"
    by (rule arena_intern_ok [OF ok])+
  show "length (arena_types a) \<le> length (arena_types (snd (arena_intern ty a)))"
    by (rule arena_ext_size [OF arena_intern_ext])
  assume i: "i < length (arena_types a)"
  show "arena_get (snd (arena_intern ty a)) i = arena_get a i" by (rule arena_ext_get [OF arena_intern_ext i])
  assume j: "j < length (arena_types a)" and eq: "arena_get a i = arena_get a j"
  have "hm_get (arena_intern_index a) (arena_get a i) = Some i" "hm_get (arena_intern_index a) (arena_get a i) = Some j"
    using ok i j eq by (auto simp: arena_ok_def arena_get_def)
  then show "i = j" by simp
qed

section \<open>References go to older types\<close>

fun ty_refs :: "Ty \<Rightarrow> TypeId list" where
  "ty_refs (TPtr i) = [i]"
| "ty_refs (TArray i _ _) = [i]"
| "ty_refs (TStruct s) = map (\<lambda>(_, f). sf_ty f) (shape_fields s)"
| "ty_refs (TFunction ps r _) = ps @ [r]"
| "ty_refs _ = []"

definition arena_wf :: "TypeArena \<Rightarrow> bool" where
  "arena_wf a \<longleftrightarrow> arena_ok a \<and> (\<forall>i < length (arena_types a). \<forall>j \<in> set (ty_refs (arena_types a ! i)). j < i)"

definition valid_id :: "TypeArena \<Rightarrow> TypeId \<Rightarrow> bool" where
  "valid_id a i \<longleftrightarrow> i < length (arena_types a)"

lemma arena_wf_ok: "arena_wf a \<Longrightarrow> arena_ok a"
  by (simp add: arena_wf_def)

lemma arena_wf_refs: "arena_wf a \<Longrightarrow> valid_id a i \<Longrightarrow> j \<in> set (ty_refs (arena_get a i)) \<Longrightarrow> j < i"
  by (simp add: arena_wf_def valid_id_def arena_get_def)

lemma valid_id_ref: "arena_wf a \<Longrightarrow> valid_id a i \<Longrightarrow> j \<in> set (ty_refs (arena_get a i)) \<Longrightarrow> valid_id a j"
  using arena_wf_refs [of a i j] by (simp add: valid_id_def)

lemma valid_id_ext: "arena_ext a a' \<Longrightarrow> valid_id a i \<Longrightarrow> valid_id a' i"
  using arena_ext_size [of a a'] by (simp add: valid_id_def)

lemma valid_ids_arena [simp]:
  assumes "arena_wf a"
  shows "valid_id a (arena_top a)" "valid_id a (arena_bottom a)" "valid_id a (arena_bool_ty a)"
    "arena_get a (arena_top a) = TTop" "arena_get a (arena_bottom a) = TBottom" "arena_get a (arena_bool_ty a) = TBool"
  using assms by (auto simp: arena_wf_def arena_ok_def valid_id_def arena_get_def)

text \<open>What every operation of the arena returns: a valid index of the type that was asked for.\<close>

definition interned :: "TypeArena \<Rightarrow> Ty \<Rightarrow> TypeId \<times> TypeArena \<Rightarrow> bool" where
  "interned a ty r \<longleftrightarrow> arena_wf (snd r) \<and> arena_ext a (snd r) \<and> valid_id (snd r) (fst r) \<and> arena_get (snd r) (fst r) = ty"

lemma arena_intern_interned:
  assumes "arena_wf a" "\<forall>j \<in> set (ty_refs ty). valid_id a j"
  shows "interned a ty (arena_intern ty a)"
proof -
  note ok = arena_intern_ok [OF arena_wf_ok [OF assms(1)], of ty]
  have "arena_wf (snd (arena_intern ty a))"
  proof (cases "hm_get (arena_intern_index a) ty")
    case None
    then have "arena_types (snd (arena_intern ty a)) = arena_types a @ [ty]" by (simp add: arena_intern_def Let_def)
    then show ?thesis using ok(1) assms by (auto simp: arena_wf_def valid_id_def nth_append less_Suc_eq)
  next
    case (Some i)
    then have "arena_intern ty a = (i, a)" by (simp add: arena_intern_def)
    then show ?thesis using assms(1) by simp
  qed
  then show ?thesis using ok arena_intern_ext [of a ty] by (simp add: interned_def valid_id_def)
qed

lemma arena_default_wf: "arena_wf arena_default"
  by (auto simp: arena_default_def arena_intern_def arena_wf_def arena_ok_def hm_get_def less_Suc_eq nth_Cons')

lemma arena_ops_interned:
  assumes "arena_wf a"
  shows "interned a (TInt bits sg) (arena_int bits sg a)" "interned a (TFloat bits) (arena_float bits a)"
    "interned a (TUnknownAlias nm) (arena_unknown_alias nm a)"
    "valid_id a i \<Longrightarrow> interned a (TPtr i) (arena_ptr i a)"
    "valid_id a i \<Longrightarrow> interned a (TArray i len stride) (arena_array i len stride a)"
    "interned a (TStruct \<lparr>shape_name = Some nm, shape_fields = []\<rparr>) (struct_named nm a)"
    "interned a (TStruct \<lparr>shape_name = None, shape_fields = []\<rparr>) (struct_anon a)"
    "\<forall>j \<in> set ps. valid_id a j \<Longrightarrow> valid_id a r \<Longrightarrow> interned a (TFunction ps r v) (arena_function ps r v a)"
  by (auto simp: arena_int_def arena_float_def arena_unknown_alias_def arena_ptr_def arena_array_def struct_named_def
      struct_anon_def arena_function_def intro!: arena_intern_interned [OF assms])

section \<open>Struct types\<close>

lemma map_of_fields_insert: "map_of (fields_insert k v m) = (map_of m)(k \<mapsto> v)"
  by (induction k v m rule: fields_insert.induct) (auto simp: fun_eq_iff)

lemma set_fields_insert: "set (fields_insert k v m) \<subseteq> insert (k, v) (set m)"
  by (induction k v m rule: fields_insert.induct) auto

definition struct_of :: "Ty \<Rightarrow> StructShape" where
  "struct_of ty = (case ty of TStruct s \<Rightarrow> s | _ \<Rightarrow> \<lparr>shape_name = None, shape_fields = []\<rparr>)"

text \<open>Adding a field to a struct: the others stay, the new one has the type asked for, and a name that
  was there is kept.\<close>

lemma struct_with_field_spec:
  fixes off :: u64 and nm :: "string option"
  assumes "arena_wf a" "valid_id a base" "valid_id a ty"
  defines "r \<equiv> struct_with_field base off nm ty a" and "shape \<equiv> struct_of (arena_get a base)"
  shows "\<exists>s. interned a (TStruct s) r \<and> shape_name s = shape_name shape \<and>
    map_of (shape_fields s) = (map_of (shape_fields shape))(off \<mapsto>
      \<lparr>sf_name = (case map_of (shape_fields shape) off of Some f \<Rightarrow> (case sf_name f of Some n \<Rightarrow> Some n | None \<Rightarrow> nm) | None \<Rightarrow> nm),
       sf_ty = ty\<rparr>)"
proof -
  let ?f = "\<lparr>sf_name = (case map_of (shape_fields shape) off of Some f \<Rightarrow> (case sf_name f of Some n \<Rightarrow> Some n | None \<Rightarrow> nm) | None \<Rightarrow> nm),
       sf_ty = ty\<rparr> :: StructField"
  let ?s = "shape\<lparr>shape_fields := fields_insert off ?f (shape_fields shape)\<rparr>"
  have upd: "f\<lparr>sf_ty := t\<rparr> = \<lparr>sf_name = sf_name f, sf_ty = t\<rparr>" for f :: StructField and t by simp
  have "r = arena_intern (TStruct ?s) a"
    by (cases "map_of (shape_fields shape) off")
       (auto simp: r_def struct_with_field_def shape_def struct_of_def Let_def upd split: option.splits)
  moreover have "valid_id a j" if j: "j \<in> set (ty_refs (TStruct ?s))" for j
  proof -
    obtain k f where "(k, f) \<in> set (shape_fields ?s)" "j = sf_ty f" using j by auto
    then have "(k, f) \<in> set (shape_fields shape) \<or> j = ty" using set_fields_insert [of off ?f "shape_fields shape"] by auto
    then show ?thesis
    proof
      assume kf: "(k, f) \<in> set (shape_fields shape)"
      then have "j \<in> set (ty_refs (arena_get a base))" using \<open>j = sf_ty f\<close>
        by (cases "arena_get a base") (force simp: shape_def struct_of_def)+
      then show ?thesis by (rule valid_id_ref [OF assms(1,2)])
    qed (use assms(3) in simp)
  qed
  ultimately have "interned a (TStruct ?s) r" using arena_intern_interned [OF assms(1)] by blast
  then show ?thesis by (intro exI [of _ ?s]) (simp add: map_of_fields_insert)
qed

lemma better_struct_fold:
  assumes "foldl (better_struct nm) None (enumerate 0 ts) = Some (i, n)"
  shows "i < length ts \<and> (\<exists>s. ts ! i = TStruct s \<and> shape_name s = Some nm \<and> length (shape_fields s) = n)"
  using assms
proof (induction ts arbitrary: i n rule: rev_induct)
  case (snoc t ts)
  let ?b = "foldl (better_struct nm) None (enumerate 0 ts)"
  have e: "foldl (better_struct nm) None (enumerate 0 (ts @ [t])) = better_struct nm ?b (length ts, t)"
    by (simp add: enumerate_append_eq)
  show ?case
  proof (cases "?b = Some (i, n)")
    case True
    then show ?thesis using snoc.IH [OF True] by (auto simp: nth_append)
  next
    case False
    then have "i = length ts \<and> (\<exists>s. t = TStruct s \<and> shape_name s = Some nm \<and> length (shape_fields s) = n)"
      using snoc.prems unfolding e
      by (cases t) (auto simp: better_struct_def Let_def split: if_splits option.splits)
    then show ?thesis by auto
  qed
qed simp

lemma struct_named_or_existing_spec:
  assumes "arena_wf a"
  shows "\<exists>s. interned a (TStruct s) (struct_named_or_existing nm a) \<and> shape_name s = Some nm"
proof (cases "foldl (better_struct nm) None (enumerate 0 (arena_types a))")
  case None
  then show ?thesis
    using arena_ops_interned(6) [OF assms, of nm]
    by (intro exI [of _ "\<lparr>shape_name = Some nm, shape_fields = []\<rparr>"]) (simp add: struct_named_or_existing_def)
next
  case (Some p)
  obtain i n where p: "p = (i, n)" by (cases p)
  from better_struct_fold [OF Some [unfolded p]] show ?thesis
    using assms by (auto simp: struct_named_or_existing_def Some p interned_def valid_id_def arena_get_def)
qed

section \<open>Conversion ends\<close>

lemma to_c_type_like_returns:
  assumes "arena_wf a" "i < fuel"
  shows "\<exists>t. to_c_type_like fuel a i = Some t"
  using assms(2)
proof (induction i arbitrary: fuel rule: less_induct)
  case (less i)
  obtain n where n: "fuel = Suc n" using less.prems by (cases fuel) auto
  have IH: "\<exists>t. to_c_type_like n a j = Some t" if "j \<in> set (ty_refs (arena_get a i))" for j
  proof -
    have "valid_id a i" using that by (auto simp: valid_id_def arena_get_def split: if_splits)
    then have "j < i" using arena_wf_refs [OF assms(1) _ that] by simp
    then show ?thesis using less.IH [of j n] less.prems n by simp
  qed
  show ?case using IH by (cases "arena_get a i") (auto simp: n)
qed

end
