(* ===== verification/Types_Lattice_Props.thy ===== *)
theory Types_Lattice_Props
  imports Types_Lattice Types_Arena_Props
begin

text \<open>
  The order of types: the recursive test decides an inductive relation, which is a preorder; join
  and meet return on every well-formed arena and keep it so; join is an upper bound except where
  structs, functions, or a pointer and an integer meet.
\<close>

section \<open>The order\<close>

inductive subtype :: "TypeArena \<Rightarrow> TypeId \<Rightarrow> TypeId \<Rightarrow> bool" for a where
  st_refl: "subtype a i i"
| st_top: "arena_get a j = TTop \<Longrightarrow> subtype a i j"
| st_bottom: "arena_get a i = TBottom \<Longrightarrow> subtype a i j"
| st_bool: "arena_get a i = TBool \<Longrightarrow> arena_get a j = TInt bits sg \<Longrightarrow> 1 \<le> bits \<Longrightarrow> subtype a i j"
| st_int: "arena_get a i = TInt b1 s1 \<Longrightarrow> arena_get a j = TInt b2 s2 \<Longrightarrow> b1 \<le> b2 \<Longrightarrow> s1 = s2 \<or> s2 = SignUnknown \<Longrightarrow>
    subtype a i j"
| st_float: "arena_get a i = TFloat b1 \<Longrightarrow> arena_get a j = TFloat b2 \<Longrightarrow> b1 \<le> b2 \<Longrightarrow> subtype a i j"
| st_ptr: "arena_get a i = TPtr i' \<Longrightarrow> arena_get a j = TPtr j' \<Longrightarrow> subtype a i' j' \<Longrightarrow> subtype a i j"
| st_array: "arena_get a i = TArray i' n s \<Longrightarrow> arena_get a j = TArray j' m t \<Longrightarrow> m = None \<or> n = m \<Longrightarrow>
    subtype a i' j' \<Longrightarrow> subtype a i j"
| st_struct: "arena_get a i = TStruct s \<Longrightarrow> arena_get a j = TStruct t \<Longrightarrow>
    (\<And>off f. (off, f) \<in> set (shape_fields t) \<Longrightarrow>
      \<exists>g. map_of (shape_fields s) off = Some g \<and> subtype a (sf_ty g) (sf_ty f)) \<Longrightarrow> subtype a i j"

lemma subtype_trans: "subtype a i j \<Longrightarrow> subtype a j k \<Longrightarrow> subtype a i k"
proof (induction arbitrary: k rule: subtype.induct)
  case (st_top j i)
  from st_top.prems st_top.hyps show ?case by (cases rule: subtype.cases) (auto intro: subtype.st_top)
next
  case (st_bool i j bits sg)
  from st_bool.prems st_bool.hyps show ?case
    by (cases rule: subtype.cases) (auto intro: subtype.intros order_trans)
next
  case (st_int i b1 s1 j b2 s2)
  from st_int.prems st_int.hyps show ?case
    by (cases rule: subtype.cases) (auto intro: subtype.intros order_trans)
next
  case (st_float i b1 j b2)
  from st_float.prems st_float.hyps show ?case
    by (cases rule: subtype.cases) (auto intro: subtype.intros order_trans)
next
  case (st_ptr i i' j j')
  from st_ptr.prems st_ptr.hyps st_ptr.IH show ?case
    by (cases rule: subtype.cases) (auto intro: subtype.intros)
next
  case (st_array i i' n s j j' m t)
  from st_array.prems st_array.hyps st_array.IH show ?case
    by (cases rule: subtype.cases) (auto intro: subtype.intros)
next
  case (st_struct i s j t)
  note fields = st_struct.IH
  from st_struct.prems st_struct.hyps show ?case
  proof (cases rule: subtype.cases)
    case st_refl
    have "subtype a i j" by (rule subtype.st_struct [OF st_struct.hyps(1,2)]) (use fields in blast)
    then show ?thesis using st_refl by simp
  next
    case st_top
    then show ?thesis by (auto intro: subtype.st_top)
  next
    case (st_struct t' u)
    have t: "t' = t" using st_struct(1) \<open>arena_get a j = TStruct t\<close> by simp
    show ?thesis
    proof (rule subtype.st_struct [OF \<open>arena_get a i = TStruct s\<close> st_struct(2)])
      fix off f assume "(off, f) \<in> set (shape_fields u)"
      then obtain g where g: "map_of (shape_fields t) off = Some g" "subtype a (sf_ty g) (sf_ty f)"
        using st_struct(3) t by blast
      then show "\<exists>g. map_of (shape_fields s) off = Some g \<and> subtype a (sf_ty g) (sf_ty f)"
        using fields [OF map_of_SomeD [OF g(1)]] by blast
    qed
  qed auto
qed (auto intro: subtype.intros)

section \<open>The test decides the order\<close>

lemma all_opt_Some:
  assumes "\<And>x. x \<in> set xs \<Longrightarrow> f x = Some (P x)"
  shows "all_opt f xs = Some (\<forall>x \<in> set xs. P x)"
  using assms by (induction xs) (auto split: bool.splits)

lemma signs_ok_iff: "signs_ok s1 s2 \<longleftrightarrow> s1 = s2 \<or> s2 = SignUnknown"
  by (cases s1; cases s2) (auto simp: signs_ok_def)

lemma lens_ok_iff: "lens_ok n m \<longleftrightarrow> m = None \<or> n = m"
  by (auto simp: lens_ok_def split: option.splits)

text \<open>One step of the order, by the shape of the two types.\<close>

fun ty_below :: "(TypeId \<Rightarrow> TypeId \<Rightarrow> bool) \<Rightarrow> Ty \<Rightarrow> Ty \<Rightarrow> bool" where
  "ty_below R _ TTop = True"
| "ty_below R TBottom _ = True"
| "ty_below R TBool (TInt bits _) = (1 \<le> bits)"
| "ty_below R (TInt b1 s1) (TInt b2 s2) = (b1 \<le> b2 \<and> (s1 = s2 \<or> s2 = SignUnknown))"
| "ty_below R (TFloat b1) (TFloat b2) = (b1 \<le> b2)"
| "ty_below R (TPtr i) (TPtr j) = R i j"
| "ty_below R (TArray i n _) (TArray j m _) = ((m = None \<or> n = m) \<and> R i j)"
| "ty_below R (TStruct s) (TStruct t) =
     (\<forall>(off, f) \<in> set (shape_fields t). \<exists>g. map_of (shape_fields s) off = Some g \<and> R (sf_ty g) (sf_ty f))"
| "ty_below R _ _ = False"

lemma subtype_below: "subtype a i j \<longleftrightarrow> i = j \<or> ty_below (subtype a) (arena_get a i) (arena_get a j)"
proof
  assume "subtype a i j"
  then show "i = j \<or> ty_below (subtype a) (arena_get a i) (arena_get a j)"
  proof cases
    case st_top
    then show ?thesis by simp
  next
    case st_bottom
    then show ?thesis by (cases "arena_get a j") auto
  next
    case (st_struct s t)
    then show ?thesis by auto
  qed auto
next
  assume "i = j \<or> ty_below (subtype a) (arena_get a i) (arena_get a j)"
  then show "subtype a i j"
  proof
    assume b: "ty_below (subtype a) (arena_get a i) (arena_get a j)"
    show "subtype a i j"
      using b by (cases "(subtype a, arena_get a i, arena_get a j)" rule: ty_below.cases) (auto intro: subtype.intros)
  qed (simp add: st_refl)
qed

lemma is_subtype_f_decides:
  assumes "arena_wf a" "i < fuel \<or> \<not> valid_id a i \<and> 0 < fuel"
  shows "is_subtype_f fuel a i j = Some (subtype a i j)"
  using assms(2)
proof (induction i arbitrary: fuel j rule: less_induct)
  case (less i)
  obtain n where n: "fuel = Suc n" using less.prems by (cases fuel) auto
  have IH: "is_subtype_f n a i' j' = Some (subtype a i' j')" if "i' \<in> set (ty_refs (arena_get a i))" for i' j'
  proof -
    have v: "valid_id a i" using that by (auto simp: valid_id_def arena_get_def split: if_splits)
    then have "i' < i" using arena_wf_refs [OF assms(1) _ that] by simp
    then show ?thesis using less.IH [of i' n] less.prems n v by simp
  qed
  show ?case
  proof (cases "arena_get a i")
    case (TStruct s)
    have "all_opt (\<lambda>(off, f). case map_of (shape_fields s) off of Some g \<Rightarrow> is_subtype_f n a (sf_ty g) (sf_ty f) | None \<Rightarrow> Some False) xs =
        Some (\<forall>(off, f) \<in> set xs. \<exists>g. map_of (shape_fields s) off = Some g \<and> subtype a (sf_ty g) (sf_ty f))"
      for xs :: "(u64 \<times> StructField) list"
    proof (rule trans [OF all_opt_Some])
      fix x assume "x \<in> set xs"
      obtain off f where x: "x = (off, f)" by (cases x)
      have "is_subtype_f n a (sf_ty g) (sf_ty f) = Some (subtype a (sf_ty g) (sf_ty f))" if "map_of (shape_fields s) off = Some g" for g
        using IH TStruct map_of_SomeD [OF that] by force
      then show "(case x of (off, f) \<Rightarrow> case map_of (shape_fields s) off of Some g \<Rightarrow> is_subtype_f n a (sf_ty g) (sf_ty f) | None \<Rightarrow> Some False) =
          Some (case x of (off, f) \<Rightarrow> \<exists>g. map_of (shape_fields s) off = Some g \<and> subtype a (sf_ty g) (sf_ty f))"
        by (simp add: x split: option.split)
    qed simp
    then show ?thesis using TStruct by (subst subtype_below) (cases "arena_get a j"; simp add: n)
  qed (subst subtype_below; cases "arena_get a j"; simp add: n IH signs_ok_iff lens_ok_iff)+
qed

lemma type_fuel_enough: "i \<le> length (arena_types a) \<Longrightarrow> i < type_fuel a"
  by (simp add: type_fuel_def)

lemma is_subtype_decides: "arena_wf a \<Longrightarrow> is_subtype a i j = Some (subtype a i j)"
  unfolding is_subtype_def
  by (rule is_subtype_f_decides, assumption, cases "valid_id a i") (auto simp: valid_id_def type_fuel_def)

section \<open>Growing arenas\<close>

lemma below_cong:
  assumes "\<And>i j. i \<in> set (ty_refs x) \<Longrightarrow> j \<in> set (ty_refs y) \<Longrightarrow> R i j = R' i j"
  shows "ty_below R x y = ty_below R' x y"
proof (cases "(R, x, y)" rule: ty_below.cases)
  case (8 R s t)
  have "R (sf_ty g) (sf_ty f) = R' (sf_ty g) (sf_ty f)"
    if "(off, f) \<in> set (shape_fields t)" "map_of (shape_fields s) off = Some g" for off f g
    using 8 assms that map_of_SomeD [OF that(2)] by force
  then show ?thesis using 8 by fastforce
qed (use assms in auto)

lemma subtype_ext:
  assumes "arena_wf a" "arena_ext a a'" "valid_id a i" "valid_id a j"
  shows "subtype a' i j \<longleftrightarrow> subtype a i j"
  using assms(3,4)
proof (induction i arbitrary: j rule: less_induct)
  case (less i)
  have "ty_below (subtype a') (arena_get a i) (arena_get a j) = ty_below (subtype a) (arena_get a i) (arena_get a j)"
    using less.IH arena_wf_refs [OF assms(1)] less.prems valid_id_ref [OF assms(1)] by (intro below_cong) blast
  then show ?case
    using less.prems arena_ext_get [OF assms(2)] by (simp add: valid_id_def subtype_below [of a' i j] subtype_below [of a i j])
qed

text \<open>What a computation over types promises: it returns, the arena only grows and stays well formed.\<close>

definition typed_ok :: "TypeArena \<Rightarrow> typed \<Rightarrow> bool" where
  "typed_ok a r \<longleftrightarrow> (\<exists>i a'. r = Some (i, a') \<and> arena_wf a' \<and> arena_ext a a' \<and> valid_id a' i)"

lemma typed_okI: "arena_wf a' \<Longrightarrow> arena_ext a a' \<Longrightarrow> valid_id a' i \<Longrightarrow> typed_ok a (Some (i, a'))"
  by (simp add: typed_ok_def)

lemma typed_ok_interned: "interned a' ty r \<Longrightarrow> arena_ext a a' \<Longrightarrow> typed_ok a (Some r)"
  by (cases r) (auto simp: typed_ok_def interned_def intro: arena_ext_trans)

lemma typed_ok_pointer:
  assumes "typed_ok a r"
  shows "typed_ok a (pointer_to r)"
proof -
  obtain i a' where r: "r = Some (i, a')" "arena_wf a'" "arena_ext a a'" "valid_id a' i" using assms by (auto simp: typed_ok_def)
  then show ?thesis using typed_ok_interned [OF arena_ops_interned(4) [OF r(2,4)] r(3)] by (simp add: pointer_to_def)
qed

lemma typed_ok_array:
  assumes "typed_ok a r"
  shows "typed_ok a (map_option (\<lambda>(elem, a1). arena_array elem len stride a1) r)"
proof -
  obtain i a' where r: "r = Some (i, a')" "arena_wf a'" "arena_ext a a'" "valid_id a' i" using assms by (auto simp: typed_ok_def)
  then show ?thesis using typed_ok_interned [OF arena_ops_interned(5) [OF r(2,4)] r(3)] by simp
qed

lemma intern_existing_ok:
  assumes "arena_wf a" "valid_id a i"
  shows "typed_ok a (Some (arena_intern (arena_get a i) a))"
  by (rule typed_ok_interned [OF arena_intern_interned [OF assms(1)]]) (use valid_id_ref [OF assms] in auto)

section \<open>Meet returns\<close>

lemma meet_f_ok:
  assumes "arena_wf a" "valid_id a i" "valid_id a j" "i < fuel"
  shows "typed_ok a (meet_f fuel a i j)"
  using assms(2-4)
proof (induction i arbitrary: fuel j rule: less_induct)
  case (less i)
  note wf = assms(1)
  obtain n where n: "fuel = Suc n" using less.prems by (cases fuel) auto
  show ?case
  proof (cases "subtype a i j \<or> subtype a j i \<or> arena_get a i = TTop \<or> arena_get a j = TTop")
    case True
    then show ?thesis
      using wf less.prems intern_existing_ok [OF wf]
      by (auto simp: n is_subtype_decides Let_def split: bool.splits intro!: typed_okI)
  next
    case False
    have IH: "typed_ok a (pointer_to (meet_f n a i' j'))" if "arena_get a i = TPtr i'" "arena_get a j = TPtr j'" for i' j'
    proof (rule typed_ok_pointer, rule less.IH)
      show "i' < i" using arena_wf_refs [OF wf less.prems(1)] that by simp
      then show "i' < n" using less.prems n by simp
      show "valid_id a i'" "valid_id a j'" using valid_id_ref [OF wf] less.prems that by auto
    qed
    have bot: "typed_ok a (Some (arena_bottom a, a))" using wf by (auto intro: typed_okI)
    show ?thesis
      using False IH bot typed_ok_interned [OF arena_ops_interned(1) [OF wf]] typed_ok_interned [OF arena_ops_interned(2) [OF wf]]
      by (cases "arena_get a i"; cases "arena_get a j") (simp_all add: n is_subtype_decides [OF wf])
  qed
qed

lemma meet_ok: "arena_wf a \<Longrightarrow> valid_id a i \<Longrightarrow> valid_id a j \<Longrightarrow> typed_ok a (meet a i j)"
  unfolding meet_def by (rule meet_f_ok) (auto simp: valid_id_def intro: type_fuel_enough)

lemma meet_params_ok:
  assumes "arena_wf a" "\<forall>(i, j) \<in> set ps. valid_id a i \<and> valid_id a j"
  shows "\<exists>qs a'. meet_params ps a = Some (qs, a') \<and> arena_wf a' \<and> arena_ext a a' \<and> (\<forall>q \<in> set qs. valid_id a' q)"
  using assms
proof (induction ps arbitrary: a)
  case (Cons p ps)
  obtain i j where p: "p = (i, j)" by (cases p)
  obtain k a1 where k: "meet a i j = Some (k, a1)" "arena_wf a1" "arena_ext a a1" "valid_id a1 k"
    using meet_ok [of a i j] Cons.prems p by (auto simp: typed_ok_def)
  have "\<forall>(i, j) \<in> set ps. valid_id a1 i \<and> valid_id a1 j" using Cons.prems valid_id_ext [OF k(3)] by auto
  then obtain qs a2 where "meet_params ps a1 = Some (qs, a2)" "arena_wf a2" "arena_ext a1 a2" "\<forall>q \<in> set qs. valid_id a2 q"
    using Cons.IH [OF k(2)] by blast
  then show ?case using k p valid_id_ext [of a1 a2 k] arena_ext_trans [OF k(3)] by auto
qed auto

section \<open>Join returns\<close>

abbreviation fields_valid :: "TypeArena \<Rightarrow> (u64 \<times> StructField) list \<Rightarrow> bool" where
  "fields_valid a fs \<equiv> \<forall>(_, f) \<in> set fs. valid_id a (sf_ty f)"

lemma fields_valid_insert: "fields_valid a fs \<Longrightarrow> valid_id a (sf_ty f) \<Longrightarrow> fields_valid a (fields_insert off f fs)"
  using set_fields_insert [of off f fs] by auto

lemma fields_valid_ext: "arena_ext a a' \<Longrightarrow> fields_valid a fs \<Longrightarrow> fields_valid a' fs"
  using valid_id_ext by auto

lemma fields_valid_shape: "arena_wf a \<Longrightarrow> valid_id a i \<Longrightarrow> arena_get a i = TStruct s \<Longrightarrow> fields_valid a (shape_fields s)"
  using valid_id_ref [of a i] by force

lemma merge_b_fields_valid:
  "fields_valid a fs \<Longrightarrow> fields_valid a merged \<Longrightarrow> fields_valid a (merge_b_fields fs merged)"
  unfolding merge_b_fields_def
proof (induction fs arbitrary: merged)
  case (Cons p fs)
  obtain off f where p: "p = (off, f)" by (cases p)
  have "fields_valid a (if map_of merged off = None then fields_insert off f merged else merged)"
    using Cons.prems p fields_valid_insert [of merged a f off] by simp
  then show ?case using Cons p by simp
qed simp

lemma merge_a_fields_ok:
  assumes "\<And>a' f g off. arena_wf a' \<Longrightarrow> arena_ext a0 a' \<Longrightarrow> (off, f) \<in> set fs \<Longrightarrow> map_of bs off = Some g \<Longrightarrow>
      typed_ok a' (jn a' (sf_ty f) (sf_ty g))"
    and "arena_wf a" "arena_ext a0 a" "fields_valid a fs" "fields_valid a merged"
  shows "\<exists>fs' a'. merge_a_fields jn bs fs merged a = Some (fs', a') \<and> arena_wf a' \<and> arena_ext a a' \<and> fields_valid a' fs'"
  using assms
proof (induction fs arbitrary: merged a)
  case (Cons p rest)
  obtain off f where p: "p = (off, f)" by (cases p)
  have jn: "typed_ok a' (jn a' (sf_ty f) (sf_ty g))"
    if "arena_wf a'" "arena_ext a0 a'" "(off, f) \<in> set rest" "map_of bs off = Some g" for a' f g off
    using Cons.prems(1) [OF that(1,2) _ that(4)] that(3) by simp
  have IH: "\<exists>fs' a'. merge_a_fields jn bs rest m b = Some (fs', a') \<and> arena_wf a' \<and> arena_ext b a' \<and> fields_valid a' fs'"
    if "arena_wf b" "arena_ext a0 b" "fields_valid b rest" "fields_valid b m" for b m
    by (rule Cons.IH [OF _ that]) (rule jn)
  show ?case
  proof (cases "map_of bs off")
    case None
    have "fields_valid a (fields_insert off f merged)" using fields_valid_insert [of merged a f off] Cons.prems p by auto
    then show ?thesis using IH [OF Cons.prems(2,3)] Cons.prems(4) None p by auto
  next
    case (Some g)
    obtain k a1 where k: "jn a (sf_ty f) (sf_ty g) = Some (k, a1)" "arena_wf a1" "arena_ext a a1" "valid_id a1 k"
      using Cons.prems(1) [OF Cons.prems(2,3) _ Some, of f] p by (auto simp: typed_ok_def)
    let ?nm = "case sf_name f of Some n \<Rightarrow> Some n | None \<Rightarrow> sf_name g"
    let ?m = "fields_insert off \<lparr>sf_name = ?nm, sf_ty = k\<rparr> merged"
    have v: "fields_valid a1 merged" "fields_valid a1 rest" using fields_valid_ext [OF k(3)] Cons.prems(4,5) by auto
    then have m: "fields_valid a1 ?m" using fields_valid_insert [of merged a1 "\<lparr>sf_name = ?nm, sf_ty = k\<rparr>" off] k(4) by simp
    obtain fs' a' where r: "merge_a_fields jn bs rest ?m a1 = Some (fs', a')" "arena_wf a'" "arena_ext a1 a'" "fields_valid a' fs'"
      using IH [OF k(2) arena_ext_trans [OF Cons.prems(3) k(3)] v(2) m] by blast
    then show ?thesis using Some k arena_ext_trans [OF k(3) r(3)] p by auto
  qed
qed auto

lemma join_structs_ok:
  assumes "\<And>a' f g off. arena_wf a' \<Longrightarrow> arena_ext a a' \<Longrightarrow> (off, f) \<in> set (shape_fields s) \<Longrightarrow>
      map_of (shape_fields t) off = Some g \<Longrightarrow> typed_ok a' (jn a' (sf_ty f) (sf_ty g))"
    and wf: "arena_wf a" and s: "fields_valid a (shape_fields s)" and t: "fields_valid a (shape_fields t)"
  shows "typed_ok a (join_structs jn s t a)"
proof -
  obtain fs a1 where f: "merge_a_fields jn (shape_fields t) (shape_fields s) [] a = Some (fs, a1)"
      "arena_wf a1" "arena_ext a a1" "fields_valid a1 fs"
    using merge_a_fields_ok [where ?a0.0 = a and a = a and fs = "shape_fields s" and bs = "shape_fields t" and jn = jn and merged = "[]"]
      assms by auto
  have "fields_valid a1 (merge_b_fields (shape_fields t) fs)"
    by (rule merge_b_fields_valid [OF fields_valid_ext [OF f(3) t] f(4)])
  then show ?thesis
    unfolding join_structs_def f(1) option.case prod.case
    by (intro typed_ok_interned [OF arena_intern_interned [OF f(2)] f(3)]) auto
qed

lemma join_f_ok:
  assumes "arena_wf a" "valid_id a i" "valid_id a j" "Suc i < fuel"
  shows "typed_ok a (join_f fuel a i j)"
  using assms
proof (induction i arbitrary: fuel a j rule: less_induct)
  case (less i)
  note wf = less.prems(1)
  obtain n where n: "fuel = Suc n" using less.prems by (cases fuel) auto
  have IH: "typed_ok a' (join_f n a' i' j')"
    if "i' \<in> set (ty_refs (arena_get a i))" "valid_id a j'" "arena_wf a'" "arena_ext a a'" for i' j' a'
  proof (rule less.IH [OF _ that(3)])
    show "i' < i" by (rule arena_wf_refs [OF wf less.prems(2) that(1)])
    then show "Suc i' < n" using less.prems n by simp
    show "valid_id a' i'" "valid_id a' j'"
      using valid_id_ext [OF that(4)] valid_id_ref [OF wf less.prems(2) that(1)] that(2) by auto
  qed
  have vref: "valid_id a j'" if "j' \<in> set (ty_refs (arena_get a j))" for j' by (rule valid_id_ref [OF wf less.prems(3) that])
  have vrefi: "valid_id a j'" if "j' \<in> set (ty_refs (arena_get a i))" for j' by (rule valid_id_ref [OF wf less.prems(2) that])
  show ?case
  proof (cases "subtype a i j \<or> subtype a j i \<or> arena_get a i = TBottom \<or> arena_get a j = TBottom")
    case True
    then show ?thesis
      using wf less.prems intern_existing_ok [OF wf]
      by (auto simp: n is_subtype_decides Let_def split: bool.splits intro!: typed_okI)
  next
    case False
    have ptr: "typed_ok a (pointer_to (join_f n a i' j'))" if "arena_get a i = TPtr i'" "valid_id a j'" for i' j'
      using that wf by (intro typed_ok_pointer IH) auto
    have top: "typed_ok a (pointer_to (join_f n a j' (arena_top a)))" if "arena_get a j = TPtr j'" "arena_get a i = TInt b sg" for j' b sg
    proof (rule typed_ok_pointer)
      obtain m where "n = Suc m" using less.prems n by (cases n) auto
      then show "typed_ok a (join_f n a j' (arena_top a))" using wf
        by (simp add: is_subtype_decides [OF wf] st_top typed_okI)
    qed
    have arr: "typed_ok a (map_option (\<lambda>(elem, a1). arena_array elem len stride a1) (join_f n a i' j'))"
      if "arena_get a i = TArray i' x y" "arena_get a j = TArray j' z w" for i' j' x y z w len stride
      using that wf vref by (intro typed_ok_array IH) auto
    have tp: "typed_ok a (Some (arena_top a, a))" "typed_ok a (Some (arena_bool_ty a, a))" using wf by (auto intro: typed_okI)
    have fn: "typed_ok a (join_f (Suc n) a i j)" if f: "arena_get a i = TFunction ps r v" "arena_get a j = TFunction qs q w" for ps r v qs q w
    proof (cases "length ps = length qs")
      case True
      have "\<forall>(i, j) \<in> set (zip ps qs). valid_id a i \<and> valid_id a j"
        using vref vrefi f by (auto dest: set_zip_leftD set_zip_rightD)
      then obtain zs a1 where m: "meet_params (zip ps qs) a = Some (zs, a1)" "arena_wf a1" "arena_ext a a1" "\<forall>z \<in> set zs. valid_id a1 z"
        using meet_params_ok [OF wf] by blast
      obtain k a2 where k: "join_f n a1 r q = Some (k, a2)" "arena_wf a2" "arena_ext a1 a2" "valid_id a2 k"
        using IH [OF _ _ m(2,3), of r q] vref f by (auto simp: typed_ok_def)
      have "\<forall>z \<in> set zs. valid_id a2 z" using m(4) valid_id_ext [OF k(3)] by blast
      from typed_ok_interned [OF arena_ops_interned(8) [OF k(2) this k(4)] arena_ext_trans [OF m(3) k(3)]]
      show ?thesis using False f True m(1) k(1) by (simp add: is_subtype_decides [OF wf])
    qed (use False f tp in \<open>simp add: is_subtype_decides [OF wf]\<close>)
    have st: "typed_ok a (join_structs (\<lambda>ar i j. join_f n ar i j) s t a)"
      if "arena_get a i = TStruct s" "arena_get a j = TStruct t" for s t
    proof (rule join_structs_ok [OF _ wf])
      show s: "fields_valid a (shape_fields s)" and t: "fields_valid a (shape_fields t)"
        using fields_valid_shape [OF wf] less.prems that by auto
      fix a' f g off
      assume "arena_wf a'" "arena_ext a a'" "(off, f) \<in> set (shape_fields s)" "map_of (shape_fields t) off = Some g"
      then show "typed_ok a' (join_f n a' (sf_ty f) (sf_ty g))"
        using that t by (intro IH) (force dest: map_of_SomeD)+
    qed
    note simple = typed_ok_interned [OF arena_ops_interned(1) [OF wf] arena_ext_refl]
      typed_ok_interned [OF arena_ops_interned(2) [OF wf] arena_ext_refl]
      typed_ok_interned [OF arena_ops_interned(3) [OF wf] arena_ext_refl]
    show ?thesis
      using False ptr top arr fn st tp simple vref wf
      by (cases "arena_get a i"; cases "arena_get a j") (simp_all add: n is_subtype_decides [OF wf])
  qed
qed

lemma join_ok: "arena_wf a \<Longrightarrow> valid_id a i \<Longrightarrow> valid_id a j \<Longrightarrow> typed_ok a (join a i j)"
  unfolding join_def by (rule join_f_ok) (auto simp: valid_id_def type_fuel_def)

end
