(* ===== verification/Types_Apply.thy ===== *)
theory Types_Apply
  imports Types_Solver Types_Lattice_Props
begin

text \<open>
  One application of a constraint. It returns, keeps the state well formed, changes only variables it
  marks, and never lowers a priority. A constraint that changed nothing once changes nothing in any
  later state in which its variables are as they were: arenas only grow, and the caches keep the
  joins and meets they have.
\<close>

section \<open>States\<close>

definition valid_asg :: "TypeArena \<Rightarrow> Assignment option \<Rightarrow> bool" where
  "valid_asg a x \<longleftrightarrow> (case x of None \<Rightarrow> True | Some e \<Rightarrow> valid_id a (as_ty e))"

definition cache_ok :: "TypeArena \<Rightarrow> (TypeId \<times> TypeId, TypeId) hashmap \<Rightarrow> bool" where
  "cache_ok a m \<longleftrightarrow> (\<forall>k t. hm_get m k = Some t \<longrightarrow> valid_id a t)"

definition state_ok :: "SolverState \<Rightarrow> bool" where
  "state_ok s \<longleftrightarrow> arena_wf (ss_arena s) \<and> (\<forall>x \<in> set (ss_assignments s). valid_asg (ss_arena s) x) \<and>
     cache_ok (ss_arena s) (ss_join_cache s) \<and> cache_ok (ss_arena s) (ss_meet_cache s)"

definition cache_ext :: "('k, 'v) hashmap \<Rightarrow> ('k, 'v) hashmap \<Rightarrow> bool" where
  "cache_ext m m' \<longleftrightarrow> (\<forall>k t. hm_get m k = Some t \<longrightarrow> hm_get m' k = Some t)"

definition state_ext :: "SolverState \<Rightarrow> SolverState \<Rightarrow> bool" where
  "state_ext s t \<longleftrightarrow> arena_ext (ss_arena s) (ss_arena t) \<and> cache_ext (ss_join_cache s) (ss_join_cache t) \<and>
     cache_ext (ss_meet_cache s) (ss_meet_cache t) \<and> length (ss_assignments t) = length (ss_assignments s) \<and> ss_vars t = ss_vars s"

lemma cache_okD: "cache_ok a m \<Longrightarrow> hm_get m k = Some t \<Longrightarrow> valid_id a t"
  unfolding cache_ok_def by blast

lemma cache_extD: "cache_ext m m' \<Longrightarrow> hm_get m k = Some t \<Longrightarrow> hm_get m' k = Some t"
  unfolding cache_ext_def by blast

lemma state_okD:
  assumes "state_ok s"
  shows "arena_wf (ss_arena s)" "cache_ok (ss_arena s) (ss_join_cache s)" "cache_ok (ss_arena s) (ss_meet_cache s)"
    "v < length (ss_assignments s) \<Longrightarrow> ss_assignments s ! v = Some e \<Longrightarrow> valid_id (ss_arena s) (as_ty e)"
proof -
  show "valid_id (ss_arena s) (as_ty e)" if "v < length (ss_assignments s)" "ss_assignments s ! v = Some e"
  proof -
    have "valid_asg (ss_arena s) (Some e)" using assms that nth_mem [OF that(1)] by (simp add: state_ok_def)
    then show ?thesis by (simp add: valid_asg_def)
  qed
qed (use assms in \<open>auto simp: state_ok_def\<close>)

lemma state_extD:
  assumes "state_ext s t"
  shows "arena_ext (ss_arena s) (ss_arena t)" "length (ss_assignments t) = length (ss_assignments s)" "ss_vars t = ss_vars s"
    "hm_get (ss_join_cache s) k = Some x \<Longrightarrow> hm_get (ss_join_cache t) k = Some x"
    "hm_get (ss_meet_cache s) k = Some x \<Longrightarrow> hm_get (ss_meet_cache t) k = Some x"
  using assms cache_extD by (auto simp: state_ext_def)

lemma state_ext_refl [simp]: "state_ext s s"
  by (simp add: state_ext_def cache_ext_def)

lemma state_ext_trans: "state_ext s t \<Longrightarrow> state_ext t u \<Longrightarrow> state_ext s u"
  using arena_ext_trans [of "ss_arena s" "ss_arena t" "ss_arena u"] by (simp add: state_ext_def cache_ext_def)

lemma cache_ok_ext: "arena_ext a a' \<Longrightarrow> cache_ok a m \<Longrightarrow> cache_ok a' m"
  using valid_id_ext by (auto simp: cache_ok_def)

lemma cache_ok_insert: "cache_ok a m \<Longrightarrow> valid_id a t \<Longrightarrow> cache_ok a (hm_insert k t m)"
  by (auto simp: cache_ok_def hm_get_insert)

lemma valid_asg_ext: "arena_ext a a' \<Longrightarrow> valid_asg a x \<Longrightarrow> valid_asg a' x"
  using valid_id_ext by (auto simp: valid_asg_def split: option.splits)

text \<open>A larger arena in place of the state's own.\<close>

lemma state_ok_arena:
  assumes "state_ok s" "arena_wf a" "arena_ext (ss_arena s) a"
  shows "state_ok (s\<lparr>ss_arena := a\<rparr>)" "state_ext s (s\<lparr>ss_arena := a\<rparr>)"
proof -
  have "valid_asg a x" if "x \<in> set (ss_assignments s)" for x
    using assms(1) valid_asg_ext [OF assms(3)] that by (simp add: state_ok_def)
  then show "state_ok (s\<lparr>ss_arena := a\<rparr>)"
    using assms(1,2) cache_ok_ext [OF assms(3)] by (simp add: state_ok_def)
  show "state_ext s (s\<lparr>ss_arena := a\<rparr>)" using assms(3) by (simp add: state_ext_def cache_ext_def)
qed

lemma join_cached_spec:
  assumes ok: "state_ok s" and v: "valid_id (ss_arena s) x" "valid_id (ss_arena s) y"
  shows "\<exists>z t. join_cached x y s = Some (z, t) \<and> state_ok t \<and> state_ext s t \<and> valid_id (ss_arena t) z \<and>
    ss_assignments t = ss_assignments s \<and> ss_changed t = ss_changed s \<and> hm_get (ss_join_cache t) (normalize_pair x y) = Some z"
proof (cases "hm_get (ss_join_cache s) (normalize_pair x y)")
  case (Some z)
  then show ?thesis using ok cache_okD [OF state_okD(2) [OF ok]] by (simp add: join_cached_def)
next
  case None
  obtain z a where z: "join (ss_arena s) x y = Some (z, a)" "arena_wf a" "arena_ext (ss_arena s) a" "valid_id a z"
    using join_ok [OF state_okD(1) [OF ok] v] by (auto simp: typed_ok_def)
  let ?t = "s\<lparr>ss_arena := a, ss_join_cache := hm_insert (normalize_pair x y) z (ss_join_cache s)\<rparr>"
  have "state_ok ?t"
    using state_ok_arena(1) [OF ok z(2,3)] cache_ok_insert [OF _ z(4)] by (simp add: state_ok_def)
  moreover have "state_ext s ?t" using z(3) None by (auto simp: state_ext_def cache_ext_def hm_get_insert)
  ultimately show ?thesis using z None by (simp add: join_cached_def hm_get_insert)
qed

lemma meet_cached_spec:
  assumes ok: "state_ok s" and v: "valid_id (ss_arena s) x" "valid_id (ss_arena s) y"
  shows "\<exists>z t. meet_cached x y s = Some (z, t) \<and> state_ok t \<and> state_ext s t \<and> valid_id (ss_arena t) z \<and>
    ss_assignments t = ss_assignments s \<and> ss_changed t = ss_changed s \<and> hm_get (ss_meet_cache t) (normalize_pair x y) = Some z"
proof (cases "hm_get (ss_meet_cache s) (normalize_pair x y)")
  case (Some z)
  then show ?thesis using ok cache_okD [OF state_okD(3) [OF ok]] by (simp add: meet_cached_def)
next
  case None
  obtain z a where z: "meet (ss_arena s) x y = Some (z, a)" "arena_wf a" "arena_ext (ss_arena s) a" "valid_id a z"
    using meet_ok [OF state_okD(1) [OF ok] v] by (auto simp: typed_ok_def)
  let ?t = "s\<lparr>ss_arena := a, ss_meet_cache := hm_insert (normalize_pair x y) z (ss_meet_cache s)\<rparr>"
  have "state_ok ?t"
    using state_ok_arena(1) [OF ok z(2,3)] cache_ok_insert [OF _ z(4)] by (simp add: state_ok_def)
  moreover have "state_ext s ?t" using z(3) None by (auto simp: state_ext_def cache_ext_def hm_get_insert)
  ultimately show ?thesis using z None by (simp add: meet_cached_def hm_get_insert)
qed

section \<open>Assignments\<close>

text \<open>At least this priority.\<close>

definition prio_at :: "SolverState \<Rightarrow> VarId \<Rightarrow> u8 \<Rightarrow> bool" where
  "prio_at s v p \<longleftrightarrow> (\<exists>e. ss_assignments s ! v = Some e \<and> p \<le> as_priority e)"

text \<open>From \<open>s\<close> to \<open>t\<close>, marking variables of \<open>V\<close> only; \<open>c\<close> is the flag returned.\<close>

definition marks_moved :: "VarId set \<Rightarrow> SolverState \<Rightarrow> bool \<Rightarrow> SolverState \<Rightarrow> bool" where
  "marks_moved V s c t \<longleftrightarrow> state_ok t \<and> state_ext s t \<and>
     set (ss_changed s) \<subseteq> set (ss_changed t) \<and> set (ss_changed t) \<subseteq> set (ss_changed s) \<union> V \<and>
     (\<forall>v. v \<notin> set (ss_changed t) \<longrightarrow> ss_assignments t ! v = ss_assignments s ! v) \<and>
     (\<forall>v. v \<notin> V \<longrightarrow> ss_assignments t ! v = ss_assignments s ! v) \<and>
     (if c then ss_changed t \<noteq> [] else ss_changed t = ss_changed s \<and> ss_assignments t = ss_assignments s) \<and>
     (\<forall>v p. prio_at s v p \<longrightarrow> prio_at t v p)"

lemma moved_refl: "state_ok s \<Longrightarrow> marks_moved V s False s"
  by (simp add: marks_moved_def)

lemma moved_trans:
  assumes "marks_moved V s c t" "marks_moved W t c' u"
  shows "marks_moved (V \<union> W) s (c \<or> c') u"
proof -
  have e: "state_ext s u" using assms state_ext_trans by (auto simp: marks_moved_def)
  have "set (ss_changed s) \<subseteq> set (ss_changed u)" "set (ss_changed u) \<subseteq> set (ss_changed s) \<union> (V \<union> W)"
    using assms unfolding marks_moved_def by blast+
  moreover have "ss_assignments u ! v = ss_assignments s ! v" if "v \<notin> set (ss_changed u)" for v
    using assms that unfolding marks_moved_def by (metis subsetD)
  moreover have "if c \<or> c' then ss_changed u \<noteq> [] else ss_changed u = ss_changed s \<and> ss_assignments u = ss_assignments s"
    using assms unfolding marks_moved_def by (auto split: if_splits)
  ultimately show ?thesis using e assms unfolding marks_moved_def by auto
qed

lemma moved_weaken: "marks_moved V s c t \<Longrightarrow> V \<subseteq> W \<Longrightarrow> marks_moved W s c t"
  by (auto simp: marks_moved_def)

text \<open>A step before that leaves assignments and marks alone.\<close>

lemma moved_prefix:
  assumes "state_ext s s1" "ss_assignments s1 = ss_assignments s" "ss_changed s1 = ss_changed s" "marks_moved V s1 c t"
  shows "marks_moved V s c t"
  using assms state_ext_trans [OF assms(1)] by (auto simp: marks_moved_def prio_at_def)

lemma set_assignment_moved:
  assumes ok: "state_ok s" and v: "var < length (ss_assignments s)" and ty: "valid_id (ss_arena s) ty"
    and p: "\<And>e. ss_assignments s ! var = Some e \<Longrightarrow> as_priority e \<le> prio"
  shows "marks_moved {var} s True (set_assignment var ty prio s)" "prio_at (set_assignment var ty prio s) var prio"
proof -
  let ?t = "set_assignment var ty prio s"
  have "valid_asg (ss_arena s) x" if "x \<in> set (ss_assignments ?t)" for x
  proof -
    have "x = Some \<lparr>as_ty = ty, as_priority = prio\<rparr> \<or> x \<in> set (ss_assignments s)"
      using that set_update_subset_insert by (fastforce simp: set_assignment_def)
    then show ?thesis using ok ty by (auto simp: state_ok_def valid_asg_def)
  qed
  then have "state_ok ?t" using ok by (simp add: state_ok_def set_assignment_def)
  moreover have "state_ext s ?t" by (simp add: state_ext_def cache_ext_def set_assignment_def)
  moreover have ch: "set (ss_changed ?t) = insert var (set (ss_changed s))" by (auto simp: set_assignment_def mark_changed_def)
  moreover have "prio_at ?t w q" if "prio_at s w q" for w q
  proof (cases "w = var")
    case True
    then show ?thesis using that p v by (fastforce simp: prio_at_def set_assignment_def)
  next
    case False
    then show ?thesis using that by (simp add: prio_at_def set_assignment_def)
  qed
  moreover have "ss_changed ?t \<noteq> []" using ch by auto
  ultimately show "marks_moved {var} s True ?t" by (auto simp: marks_moved_def set_assignment_def)
  show "prio_at ?t var prio" using v by (simp add: prio_at_def set_assignment_def)
qed

lemma push_conflict_ext [simp]:
  "ss_assignments (push_conflict var p s) = ss_assignments s" "ss_changed (push_conflict var p s) = ss_changed s"
  "ss_arena (push_conflict var p s) = ss_arena s" "state_ok (push_conflict var p s) \<longleftrightarrow> state_ok s"
  "state_ext s (push_conflict var p s)"
  by (auto simp: push_conflict_def state_ok_def state_ext_def cache_ext_def)

lemma assign_spec:
  assumes ok: "state_ok s" and v: "var < length (ss_assignments s)" and ty: "valid_id (ss_arena s) ty"
  shows "\<exists>c t. assign var ty prio s = Some (c, t) \<and> marks_moved {var} s c t \<and> prio_at t var prio"
proof (cases "ss_assignments s ! var")
  case None
  then show ?thesis using set_assignment_moved [OF ok v ty, of prio] v by (auto simp: assign_def)
next
  case (Some e)
  consider "prio > as_priority e" | "prio < as_priority e" | "prio = as_priority e" "as_ty e = ty"
    | "prio = as_priority e" "as_ty e \<noteq> ty" by fastforce
  then show ?thesis
  proof cases
    case 1
    let ?s = "if as_ty e \<noteq> ty then push_conflict var prio s else s"
    have "marks_moved {var} ?s True (set_assignment var ty prio ?s)" "prio_at (set_assignment var ty prio ?s) var prio"
      using set_assignment_moved [of ?s var ty prio] ok v ty Some 1 by auto
    then show ?thesis using moved_prefix [of s ?s] Some v 1 by (auto simp: assign_def)
  next
    case 4
    obtain z t where z: "join_cached (as_ty e) ty s = Some (z, t)" "state_ok t" "state_ext s t" "valid_id (ss_arena t) z"
        "ss_assignments t = ss_assignments s" "ss_changed t = ss_changed s"
      using join_cached_spec [OF ok state_okD(4) [OF ok v Some] ty] by blast
    show ?thesis
    proof (cases "z = as_ty e")
      case True
      then show ?thesis using z Some v 4 moved_prefix [OF z(3,5,6) moved_refl [OF z(2)]] by (auto simp: assign_def prio_at_def)
    next
      case False
      have "marks_moved {var} t True (set_assignment var z prio t)" "prio_at (set_assignment var z prio t) var prio"
        using set_assignment_moved [OF z(2), of var z prio] z v Some 4 by auto
      then show ?thesis using False z Some v 4 moved_prefix [OF z(3,5,6)] by (auto simp: assign_def)
    qed
  next
    case 2
    then have "assign var ty prio s = Some (False, s)" using Some v by (simp add: assign_def)
    moreover have "prio_at s var prio" using Some 2 by (simp add: prio_at_def)
    ultimately show ?thesis using moved_refl [OF ok] by blast
  next
    case 3
    then have "assign var ty prio s = Some (False, s)" using Some v by (simp add: assign_def)
    moreover have "prio_at s var prio" using Some 3 by (simp add: prio_at_def)
    ultimately show ?thesis using moved_refl [OF ok] by blast
  qed
qed

text \<open>An assignment that changed nothing never will, as long as its variable is as it was.\<close>

lemma assign_quiet:
  assumes ok: "state_ok s" and ty: "valid_id (ss_arena s) ty" and q: "assign var ty prio s = Some (False, s')"
    and t: "state_ext s' t" "ss_assignments t ! var = ss_assignments s ! var"
  shows "assign var ty prio t = Some (False, t)"
proof -
  have v: "var < length (ss_assignments s)" using q by (auto simp: assign_def split: if_splits)
  obtain e where e: "ss_assignments s ! var = Some e" using q v by (auto simp: assign_def split: option.splits)
  have s': "marks_moved {var} s False s'" using assign_spec [OF ok v ty, of prio] q by auto
  have v': "var < length (ss_assignments t)" using v state_extD(2) [OF t(1)] s' state_extD(2) [of s s'] by (simp add: marks_moved_def)
  show ?thesis
  proof (cases "prio = as_priority e \<and> as_ty e \<noteq> ty")
    case True
    obtain z u where z: "join_cached (as_ty e) ty s = Some (z, u)" "hm_get (ss_join_cache u) (normalize_pair (as_ty e) ty) = Some z"
      using join_cached_spec [OF ok state_okD(4) [OF ok v e] ty] by blast
    then have "z = as_ty e" "u = s'" using q v e True by (auto simp: assign_def split: if_splits)
    then have "join_cached (as_ty e) ty t = Some (as_ty e, t)"
      using z(2) state_extD(4) [OF t(1)] by (simp add: join_cached_def)
    then show ?thesis using True e t(2) v' by (simp add: assign_def)
  next
    case False
    then show ?thesis using q e t(2) v v' by (auto simp: assign_def split: if_splits)
  qed
qed

section \<open>Types that are there already\<close>

lemma arena_intern_known:
  assumes "arena_wf a" "valid_id a k" "arena_get a k = ty"
  shows "arena_intern ty a = (k, a)"
proof -
  have "hm_get (arena_intern_index a) ty = Some k"
    using arena_wf_ok [OF assms(1)] assms(2,3) by (auto simp: arena_ok_def valid_id_def arena_get_def)
  then show ?thesis by (simp add: arena_intern_def)
qed

lemma interned_again: "interned a ty (k, a') \<Longrightarrow> arena_wf b \<Longrightarrow> arena_ext a' b \<Longrightarrow> arena_intern ty b = (k, b)"
  using valid_id_ext [of a' b k] arena_ext_get [of a' b k] by (intro arena_intern_known) (auto simp: interned_def valid_id_def)

text \<open>The type a struct has after a field was added, and the pointer to it.\<close>

definition with_field :: "Ty \<Rightarrow> u64 \<Rightarrow> string option \<Rightarrow> TypeId \<Rightarrow> Ty" where
  "with_field x off nm ty =
     (let shape = (case x of TStruct s \<Rightarrow> s | _ \<Rightarrow> \<lparr>shape_name = None, shape_fields = []\<rparr>);
          entry = (case map_of (shape_fields shape) off of Some e \<Rightarrow> e | None \<Rightarrow> \<lparr>sf_name = nm, sf_ty = ty\<rparr>);
          entry1 = (if sf_name entry = None then entry\<lparr>sf_name := nm\<rparr> else entry);
          entry2 = entry1\<lparr>sf_ty := ty\<rparr>
      in TStruct (shape\<lparr>shape_fields := fields_insert off entry2 (shape_fields shape)\<rparr>))"

lemma struct_with_field_eq: "struct_with_field base off nm ty a = arena_intern (with_field (arena_get a base) off nm ty) a"
  by (simp add: struct_with_field_def with_field_def Let_def)

lemma struct_with_field_interned:
  assumes "arena_wf a" "valid_id a base" "valid_id a ty"
  shows "interned a (with_field (arena_get a base) off nm ty) (struct_with_field base off nm ty a)"
proof -
  obtain s where s: "interned a (TStruct s) (struct_with_field base off nm ty a)" using struct_with_field_spec [OF assms] by blast
  moreover have "arena_get (snd (struct_with_field base off nm ty a)) (fst (struct_with_field base off nm ty a)) =
      with_field (arena_get a base) off nm ty"
    unfolding struct_with_field_eq by (rule arena_intern_ok(3) [OF arena_wf_ok [OF assms(1)]])
  ultimately show ?thesis by (simp add: interned_def)
qed

definition field_ptr :: "TypeArena \<Rightarrow> TypeId option \<Rightarrow> u64 \<Rightarrow> TypeId \<Rightarrow> string option \<Rightarrow> TypeId \<times> TypeArena" where
  "field_ptr a base off ty nm =
     (let (b, a1) = (case base of Some t \<Rightarrow> (t, a) | None \<Rightarrow> struct_anon a); (s, a2) = struct_with_field b off nm ty a1 in arena_ptr s a2)"

text \<open>It is a pointer to a struct with the field, and asking again in a larger arena gives the same index and no change.\<close>

lemma field_ptr_spec:
  assumes wf: "arena_wf a" and base: "\<And>t. base = Some t \<Longrightarrow> valid_id a t" and ty: "valid_id a ty"
  shows "\<exists>k a'. field_ptr a base off ty nm = (k, a') \<and> arena_wf a' \<and> arena_ext a a' \<and> valid_id a' k \<and>
    (\<forall>b. arena_wf b \<longrightarrow> arena_ext a' b \<longrightarrow> field_ptr b base off ty nm = (k, b))"
proof -
  obtain t a1 where t: "(case base of Some t \<Rightarrow> (t, a) | None \<Rightarrow> struct_anon a) = (t, a1)" by (cases "case base of Some t \<Rightarrow> (t, a) | None \<Rightarrow> struct_anon a")
  have base1: "(arena_wf a1 \<and> arena_ext a a1 \<and> valid_id a1 t) \<and>
      (\<forall>b. arena_wf b \<longrightarrow> arena_ext a1 b \<longrightarrow> (case base of Some t \<Rightarrow> (t, b) | None \<Rightarrow> struct_anon b) = (t, b))"
  proof (cases base)
    case None
    then have i: "interned a (TStruct \<lparr>shape_name = None, shape_fields = []\<rparr>) (t, a1)"
      using arena_ops_interned(7) [OF wf] t by simp
    then show ?thesis using None interned_again [OF i] unfolding struct_anon_def by (simp add: interned_def)
  next
    case (Some u)
    then show ?thesis using t wf base by simp
  qed
  then have 1: "arena_wf a1" "arena_ext a a1" "valid_id a1 t" by auto
  have again1: "(case base of Some t \<Rightarrow> (t, b) | None \<Rightarrow> struct_anon b) = (t, b)" if "arena_wf b" "arena_ext a1 b" for b
    using base1 that by blast
  obtain u a2 where u: "struct_with_field t off nm ty a1 = (u, a2)" by (cases "struct_with_field t off nm ty a1")
  have i2: "interned a1 (with_field (arena_get a1 t) off nm ty) (u, a2)"
    using struct_with_field_interned [OF 1(1,3) valid_id_ext [OF 1(2) ty], of off nm] u by simp
  have 2: "arena_wf a2" "arena_ext a1 a2" "valid_id a2 u" using i2 by (auto simp: interned_def)
  have again2: "struct_with_field t off nm ty b = (u, b)" if "arena_wf b" "arena_ext a2 b" for b
    using interned_again [OF i2 that] arena_ext_get [OF arena_ext_trans [OF 2(2) that(2)]] 1(3)
    by (simp add: struct_with_field_eq valid_id_def)
  obtain k a3 where k: "arena_ptr u a2 = (k, a3)" by (cases "arena_ptr u a2")
  have i3: "interned a2 (TPtr u) (k, a3)" using arena_ops_interned(4) [OF 2(1,3)] k by simp
  have 3: "arena_wf a3" "arena_ext a2 a3" "valid_id a3 k" using i3 by (auto simp: interned_def)
  have "field_ptr b base off ty nm = (k, b)" if b: "arena_wf b" "arena_ext a3 b" for b
    using again1 [OF b(1) arena_ext_trans [OF arena_ext_trans [OF 2(2) 3(2)] b(2)]]
      again2 [OF b(1) arena_ext_trans [OF 3(2) b(2)]] interned_again [OF i3 b]
    by (simp add: field_ptr_def arena_ptr_def)
  moreover have "arena_ext a a3" using arena_ext_trans [OF 1(2) arena_ext_trans [OF 2(2) 3(2)]] .
  ultimately show ?thesis using t u k 3 by (simp add: field_ptr_def)
qed

section \<open>Field accesses\<close>

lemma apply_field_access_eq:
  assumes "base_ptr < length (ss_assignments s)"
  shows "apply_field_access base_ptr off ty nm prio s =
    (case ss_assignments s ! base_ptr of
       None \<Rightarrow> (let (k, a) = field_ptr (ss_arena s) None off ty nm in assign base_ptr k prio (s\<lparr>ss_arena := a\<rparr>))
     | Some e \<Rightarrow>
         if field_access_is_noop (ss_arena s) (as_ty e) off ty nm then Some (False, s)
         else let (k, a) = field_ptr (ss_arena s) (struct_behind (ss_arena s) (as_ty e)) off ty nm; s1 = s\<lparr>ss_arena := a\<rparr>
              in if as_priority e = prio
                 then if as_ty e \<noteq> k then Some (True, set_assignment base_ptr k (as_priority e) s1) else Some (False, s1)
                 else assign base_ptr k prio s1)"
  using assms by (auto simp: apply_field_access_def field_ptr_def Let_def split: option.splits prod.splits)

lemma struct_behind_valid: "arena_wf a \<Longrightarrow> valid_id a ty \<Longrightarrow> struct_behind a ty = Some t \<Longrightarrow> valid_id a t"
  using valid_id_ref [of a ty] by (auto simp: struct_behind_def split: Ty.splits)

lemma struct_behind_ext:
  assumes "arena_wf a" "valid_id a ty" "arena_ext a b"
  shows "struct_behind b ty = struct_behind a ty"
proof -
  have "arena_get b ty = arena_get a ty" using arena_ext_get [OF assms(3)] assms(2) by (simp add: valid_id_def)
  moreover have "arena_get b i = arena_get a i" if "arena_get a ty = TPtr i" for i
    using arena_ext_get [OF assms(3)] valid_id_ref [OF assms(1,2), of i] that by (simp add: valid_id_def)
  ultimately show ?thesis by (auto simp: struct_behind_def split: Ty.splits)
qed

lemma noop_ext:
  assumes "arena_wf a" "valid_id a ty" "arena_ext a b"
  shows "field_access_is_noop b ty off fty nm = field_access_is_noop a ty off fty nm"
proof -
  have "arena_get b t = arena_get a t" if "struct_behind a ty = Some t" for t
    using arena_ext_get [OF assms(3)] struct_behind_valid [OF assms(1,2) that] by (simp add: valid_id_def)
  then show ?thesis by (simp add: field_access_is_noop_def struct_behind_ext [OF assms] split: option.splits)
qed

lemma apply_field_access_spec:
  assumes ok: "state_ok s" and v: "var < length (ss_assignments s)" and ty: "valid_id (ss_arena s) ty"
  shows "\<exists>c t. apply_field_access var off ty nm prio s = Some (c, t) \<and> marks_moved {var} s c t \<and> (\<exists>e. ss_assignments t ! var = Some e)"
proof (cases "ss_assignments s ! var")
  case None
  obtain k a where k: "field_ptr (ss_arena s) None off ty nm = (k, a)" "arena_wf a" "arena_ext (ss_arena s) a" "valid_id a k"
    using field_ptr_spec [OF state_okD(1) [OF ok] _ ty, of None off nm] by auto
  let ?s = "s\<lparr>ss_arena := a\<rparr>"
  note ok1 = state_ok_arena [OF ok k(2,3)]
  obtain c t where "assign var k prio ?s = Some (c, t)" "marks_moved {var} ?s c t" "prio_at t var prio"
    using assign_spec [OF ok1(1), of var k prio] v k(4) by auto
  then show ?thesis
    using moved_prefix [OF ok1(2)] None k(1) by (auto simp: apply_field_access_eq [OF v] prio_at_def)
next
  case (Some e)
  show ?thesis
  proof (cases "field_access_is_noop (ss_arena s) (as_ty e) off ty nm")
    case True
    then show ?thesis using Some moved_refl [OF ok] by (auto simp: apply_field_access_eq [OF v])
  next
    case False
    have ve: "valid_id (ss_arena s) (as_ty e)" by (rule state_okD(4) [OF ok v Some])
    obtain k a where k: "field_ptr (ss_arena s) (struct_behind (ss_arena s) (as_ty e)) off ty nm = (k, a)" "arena_wf a"
        "arena_ext (ss_arena s) a" "valid_id a k"
      using field_ptr_spec [OF state_okD(1) [OF ok] struct_behind_valid [OF state_okD(1) [OF ok] ve] ty] by blast
    let ?s = "s\<lparr>ss_arena := a\<rparr>"
    note ok1 = state_ok_arena [OF ok k(2,3)]
    show ?thesis
    proof (cases "as_priority e = prio")
      case True
      show ?thesis
      proof (cases "as_ty e = k")
        case eq: True
        then show ?thesis
          using moved_prefix [OF ok1(2) _ _ moved_refl [OF ok1(1)]] False True Some k(1) by (auto simp: apply_field_access_eq [OF v])
      next
        case ne: False
        have "marks_moved {var} ?s True (set_assignment var k (as_priority e) ?s)"
          using set_assignment_moved [OF ok1(1), of var k "as_priority e"] v k(4) Some by simp
        then show ?thesis
          using moved_prefix [OF ok1(2)] ne False True Some k(1) v
          by (auto simp: apply_field_access_eq [OF v] set_assignment_def)
      qed
    next
      case pr: False
      obtain c t where "assign var k prio ?s = Some (c, t)" "marks_moved {var} ?s c t" "prio_at t var prio"
        using assign_spec [OF ok1(1), of var k prio] v k(4) by auto
      then show ?thesis
        using moved_prefix [OF ok1(2)] False pr Some k(1) by (auto simp: apply_field_access_eq [OF v] prio_at_def)
    qed
  qed
qed

lemma apply_field_access_quiet:
  assumes ok: "state_ok s" and v: "var < length (ss_assignments s)" and ty: "valid_id (ss_arena s) ty"
    and q: "apply_field_access var off ty nm prio s = Some (False, s')"
    and t: "state_ok t" "state_ext s' t" "ss_assignments t ! var = ss_assignments s ! var"
  shows "apply_field_access var off ty nm prio t = Some (False, t)"
proof -
  have wf: "arena_wf (ss_arena s)" "arena_wf (ss_arena t)" using state_okD(1) ok t(1) by auto
  have m: "marks_moved {var} s False s'" using apply_field_access_spec [OF ok v ty, of off nm prio] q by auto
  then have s': "state_ext s s'" by (simp add: marks_moved_def)
  have st: "state_ext s t" by (rule state_ext_trans [OF s' t(2)])
  have v': "var < length (ss_assignments t)" using v state_extD(2) [OF st] by simp
  have upd: "t\<lparr>ss_arena := ss_arena t\<rparr> = t" by simp
  show ?thesis
  proof (cases "ss_assignments s ! var")
    case None
    obtain k a where k: "field_ptr (ss_arena s) None off ty nm = (k, a)" "arena_wf a" "arena_ext (ss_arena s) a" "valid_id a k"
      using field_ptr_spec [OF wf(1) _ ty, of None off nm] by auto
    then have "assign var k prio (s\<lparr>ss_arena := a\<rparr>) = Some (False, s')"
      using q None by (simp add: apply_field_access_eq [OF v])
    then show ?thesis using None v by (simp add: assign_def)
  next
    case (Some e)
    have ve: "valid_id (ss_arena s) (as_ty e)" by (rule state_okD(4) [OF ok v Some])
    note noop = noop_ext [OF wf(1) ve state_extD(1) [OF st]] and behind = struct_behind_ext [OF wf(1) ve state_extD(1) [OF st]]
    show ?thesis
    proof (cases "field_access_is_noop (ss_arena s) (as_ty e) off ty nm")
      case True
      then show ?thesis using Some t(3) noop by (simp add: apply_field_access_eq [OF v'])
    next
      case False
      obtain k a where k: "field_ptr (ss_arena s) (struct_behind (ss_arena s) (as_ty e)) off ty nm = (k, a)" "arena_wf a"
          "arena_ext (ss_arena s) a" "valid_id a k"
        and again: "\<And>b. arena_wf b \<Longrightarrow> arena_ext a b \<Longrightarrow> field_ptr b (struct_behind (ss_arena s) (as_ty e)) off ty nm = (k, b)"
        using field_ptr_spec [where base = "struct_behind (ss_arena s) (as_ty e)", OF wf(1) struct_behind_valid [OF wf(1) ve] ty]
        by blast
      let ?s = "s\<lparr>ss_arena := a\<rparr>"
      note ok1 = state_ok_arena [OF ok k(2,3)]
      have inner: "assign var k prio ?s = Some (False, s')" if "as_priority e \<noteq> prio"
        using q Some False k(1) that by (simp add: apply_field_access_eq [OF v])
      have "arena_ext a (ss_arena s')"
      proof (cases "as_priority e = prio")
        case True
        then have "s' = ?s" using q Some False k(1) by (auto simp: apply_field_access_eq [OF v] Let_def split: if_splits)
        then show ?thesis by simp
      next
        case pr: False
        obtain c u where "assign var k prio ?s = Some (c, u)" "marks_moved {var} ?s c u"
          using assign_spec [OF ok1(1), of var k prio] v k(4) by auto
        then have "state_ext ?s s'" using inner [OF pr] by (simp add: marks_moved_def)
        then show ?thesis using state_extD(1) by fastforce
      qed
      then have "arena_ext a (ss_arena t)" using arena_ext_trans state_extD(1) [OF t(2)] by blast
      then have kt: "field_ptr (ss_arena t) (struct_behind (ss_arena t) (as_ty e)) off ty nm = (k, ss_arena t)"
        using again [OF wf(2)] behind by simp
      show ?thesis
      proof (cases "as_priority e = prio")
        case True
        then have "as_ty e = k" using q Some False k(1) by (auto simp: apply_field_access_eq [OF v] Let_def split: if_splits)
        then show ?thesis using Some t(3) noop False kt True by (simp add: apply_field_access_eq [OF v'])
      next
        case pr: False
        have "assign var k prio t = Some (False, t)"
          using assign_quiet [OF ok1(1) _ inner [OF pr] t(2)] k(4) t(3) by simp
        then show ?thesis using Some t(3) noop False kt pr by (simp add: apply_field_access_eq [OF v'])
      qed
    qed
  qed
qed

section \<open>Constraints\<close>

fun compact_types :: "CompactConstraint \<Rightarrow> TypeId list" where
  "compact_types (KSetType _ ty _) = [ty]"
| "compact_types (KSubtype _ ty _) = [ty]"
| "compact_types (KHasCapability _ ty _) = [ty]"
| "compact_types (KCallSig _ _ params ret _) = params @ (case ret of Some (_, ty) \<Rightarrow> [ty] | None \<Rightarrow> [])"
| "compact_types (KFieldAccess _ _ ty _ _) = [ty]"

text \<open>The variables a constraint gives a type to, and the pairs of a call.\<close>

definition call_pairs :: "VarId list \<Rightarrow> TypeId list \<Rightarrow> (VarId \<times> TypeId) option \<Rightarrow> (VarId \<times> TypeId) list" where
  "call_pairs args params ret = zip args params @ (case ret of Some p \<Rightarrow> [p] | None \<Rightarrow> [])"

fun typed_vars :: "CompactConstraint \<Rightarrow> VarId set" where
  "typed_vars (KSetType v _ _) = {v}"
| "typed_vars (KSubtype v _ _) = {v}"
| "typed_vars (KHasCapability p _ _) = {p}"
| "typed_vars (KCallSig _ args params ret _) = fst ` set (call_pairs args params ret)"
| "typed_vars (KFieldAccess p _ _ _ _) = {p}"

definition compact_ok :: "TypeArena \<Rightarrow> nat \<Rightarrow> CompactConstraint \<Rightarrow> bool" where
  "compact_ok a n c \<longleftrightarrow> set (referenced_list c) \<subseteq> {..<n} \<and> (\<forall>t \<in> set (compact_types c). valid_id a t)"

lemma typed_vars_referenced: "typed_vars c \<subseteq> set (referenced_list c)"
  by (cases c) (auto simp: call_pairs_def dest: set_zip_leftD split: option.splits)

lemma compact_ok_ext: "compact_ok a n c \<Longrightarrow> arena_ext a b \<Longrightarrow> compact_ok b n c"
  using valid_id_ext by (auto simp: compact_ok_def)

lemma assign_list_spec:
  "state_ok s \<Longrightarrow> (\<And>v ty. (v, ty) \<in> set ps \<Longrightarrow> v < length (ss_assignments s) \<and> valid_id (ss_arena s) ty) \<Longrightarrow>
    \<exists>c t. assign_list ps prio s = Some (c, t) \<and> marks_moved (fst ` set ps) s c t \<and> (\<forall>v \<in> fst ` set ps. prio_at t v prio)"
proof (induction ps arbitrary: s)
  case (Cons p ps)
  obtain v ty where p: "p = (v, ty)" by (cases p)
  obtain c t where c: "assign v ty prio s = Some (c, t)" "marks_moved {v} s c t" "prio_at t v prio"
    using assign_spec [OF Cons.prems(1), of v ty prio] Cons.prems(2) [of v ty] p by auto
  have ok: "state_ok t" and e: "state_ext s t" using c(2) by (auto simp: marks_moved_def)
  have "w < length (ss_assignments t) \<and> valid_id (ss_arena t) u" if "(w, u) \<in> set ps" for w u
    using Cons.prems(2) [of w u] that valid_id_ext [OF state_extD(1) [OF e]] state_extD(2) [OF e] by simp
  then obtain c' t' where c': "assign_list ps prio t = Some (c', t')" "marks_moved (fst ` set ps) t c' t'" "\<forall>v \<in> fst ` set ps. prio_at t' v prio"
    using Cons.IH [OF ok] by blast
  have "prio_at t' v prio" using c(3) c'(2) by (simp add: marks_moved_def)
  moreover have "marks_moved ({v} \<union> fst ` set ps) s (c \<or> c') t'" by (rule moved_trans [OF c(2) c'(2)])
  ultimately show ?case using c(1) c' p by simp
qed (auto simp: moved_refl)

lemma assign_list_quiet:
  "state_ok s \<Longrightarrow> (\<And>v ty. (v, ty) \<in> set ps \<Longrightarrow> v < length (ss_assignments s) \<and> valid_id (ss_arena s) ty) \<Longrightarrow>
    assign_list ps prio s = Some (False, s') \<Longrightarrow> state_ext s' t \<Longrightarrow>
    (\<And>v. v \<in> fst ` set ps \<Longrightarrow> ss_assignments t ! v = ss_assignments s ! v) \<Longrightarrow> assign_list ps prio t = Some (False, t)"
proof (induction ps arbitrary: s)
  case (Cons p ps)
  obtain v ty where p: "p = (v, ty)" by (cases p)
  obtain c u where c: "assign v ty prio s = Some (c, u)" "marks_moved {v} s c u"
    using assign_spec [OF Cons.prems(1), of v ty prio] Cons.prems(2) [of v ty] p by auto
  have r: "\<not> c" "assign_list ps prio u = Some (False, s')" using Cons.prems(3) c(1) p by auto
  have ok: "state_ok u" and e: "state_ext s u" and eq: "ss_assignments u = ss_assignments s" using c(2) r(1) by (auto simp: marks_moved_def)
  have pre: "w < length (ss_assignments u) \<and> valid_id (ss_arena u) x" if "(w, x) \<in> set ps" for w x
    using Cons.prems(2) [of w x] that valid_id_ext [OF state_extD(1) [OF e]] state_extD(2) [OF e] by simp
  have "marks_moved (fst ` set ps) u False s'" using assign_list_spec [OF ok, of ps prio] pre r(2) by auto
  then have "state_ext u t" using state_ext_trans [OF _ Cons.prems(4)] by (auto simp: marks_moved_def)
  then have "assign v ty prio t = Some (False, t)"
    using assign_quiet [OF Cons.prems(1), of ty v prio u t] Cons.prems(2) [of v ty] Cons.prems(5) [of v] c(1) r(1) p by simp
  moreover have "assign_list ps prio t = Some (False, t)"
    using Cons.IH [OF ok pre r(2) Cons.prems(4)] Cons.prems(5) eq by simp
  ultimately show ?case using p by simp
qed simp

text \<open>What every application does.\<close>

fun meets_source :: "CompactConstraint \<Rightarrow> SolverState \<Rightarrow> VarId \<Rightarrow> bool" where
  "meets_source (KFieldAccess _ _ _ _ _) s v \<longleftrightarrow> (\<exists>e. ss_assignments s ! v = Some e)"
| "meets_source c s v \<longleftrightarrow> prio_at s v (src_priority (compact_source c))"

lemma prio_at_less: "prio_at s v p \<Longrightarrow> q \<le> p \<Longrightarrow> prio_at s v q"
  by (auto simp: prio_at_def)

lemma prio_at_zero: "prio_at s v 0 \<longleftrightarrow> (\<exists>e. ss_assignments s ! v = Some e)"
  by (auto simp: prio_at_def)

lemma apply_constraint_spec:
  assumes ok: "state_ok s" and c: "compact_ok (ss_arena s) (length (ss_assignments s)) c"
  shows "\<exists>b t. apply_constraint c s = Some (b, t) \<and> marks_moved (typed_vars c) s b t \<and> (\<forall>v \<in> typed_vars c. meets_source c t v)"
proof (cases c)
  case (KSetType v ty src)
  then show ?thesis using assign_spec [OF ok, of v ty "src_priority src"] c by (auto simp: compact_ok_def)
next
  case (KSubtype v ty src)
  have v: "v < length (ss_assignments s)" "valid_id (ss_arena s) ty" using c KSubtype by (auto simp: compact_ok_def)
  show ?thesis
  proof (cases "ss_assignments s ! v")
    case None
    then show ?thesis using KSubtype v assign_spec [OF ok v, of "src_priority src"] by auto
  next
    case (Some e)
    let ?p = "max (src_priority src) (as_priority e)"
    obtain z t where z: "meet_cached (as_ty e) ty s = Some (z, t)" "state_ok t" "state_ext s t" "valid_id (ss_arena t) z"
        "ss_assignments t = ss_assignments s" "ss_changed t = ss_changed s"
      using meet_cached_spec [OF ok state_okD(4) [OF ok v(1) Some] v(2)] by blast
    obtain b u where "assign v z ?p t = Some (b, u)" "marks_moved {v} t b u" "prio_at u v ?p"
      using assign_spec [OF z(2) _ z(4), of v ?p] v(1) z(5) by auto
    then show ?thesis using KSubtype v Some z(1) moved_prefix [OF z(3,5,6)] prio_at_less [of u v ?p] by simp
  qed
next
  case (KHasCapability v ty src)
  have v: "v < length (ss_assignments s)" "valid_id (ss_arena s) ty" using c KHasCapability by (auto simp: compact_ok_def)
  obtain k a where k: "arena_ptr ty (ss_arena s) = (k, a)" by (cases "arena_ptr ty (ss_arena s)")
  then have i: "arena_wf a" "arena_ext (ss_arena s) a" "valid_id a k"
    using arena_ops_interned(4) [OF state_okD(1) [OF ok] v(2)] by (auto simp: interned_def)
  note ok1 = state_ok_arena [OF ok i(1,2)]
  obtain b u where "assign v k (src_priority src) (s\<lparr>ss_arena := a\<rparr>) = Some (b, u)" "marks_moved {v} (s\<lparr>ss_arena := a\<rparr>) b u"
      "prio_at u v (src_priority src)"
    using assign_spec [OF ok1(1), of v k "src_priority src"] v(1) i(3) by auto
  then show ?thesis using KHasCapability k moved_prefix [OF ok1(2)] by simp
next
  case (KFieldAccess v off ty nm src)
  then show ?thesis using apply_field_access_spec [OF ok, of v ty off nm "src_priority src"] c by (auto simp: compact_ok_def)
next
  case (KCallSig t args params ret src)
  have "v < length (ss_assignments s) \<and> valid_id (ss_arena s) ty" if "(v, ty) \<in> set (call_pairs args params ret)" for v ty
    using c that KCallSig by (auto simp: compact_ok_def call_pairs_def dest: set_zip_leftD set_zip_rightD split: option.splits)
  then show ?thesis using assign_list_spec [OF ok, of "call_pairs args params ret" "src_priority src"] KCallSig
    by (auto simp: call_pairs_def)
qed

lemma apply_constraint_quiet:
  assumes ok: "state_ok s" and c: "compact_ok (ss_arena s) (length (ss_assignments s)) c"
    and q: "apply_constraint c s = Some (False, s')" and t: "state_ok t" "state_ext s' t"
    and same: "\<And>v. v \<in> typed_vars c \<Longrightarrow> ss_assignments t ! v = ss_assignments s ! v"
  shows "apply_constraint c t = Some (False, t)"
proof (cases c)
  case (KSetType v ty src)
  then show ?thesis using assign_quiet [OF ok, of ty v _ s' t] c q t same by (simp add: compact_ok_def)
next
  case (KSubtype v ty src)
  have v: "v < length (ss_assignments s)" "valid_id (ss_arena s) ty" using c KSubtype by (auto simp: compact_ok_def)
  have "marks_moved (typed_vars c) s False s'" using apply_constraint_spec [OF ok c] q by auto
  then have v': "v < length (ss_assignments t)" using v(1) state_extD(2) [OF t(2)] state_extD(2) [of s s'] by (simp add: marks_moved_def)
  show ?thesis
  proof (cases "ss_assignments s ! v")
    case None
    then show ?thesis using KSubtype v q by (simp add: assign_def)
  next
    case (Some e)
    let ?p = "max (src_priority src) (as_priority e)"
    obtain z u where z: "meet_cached (as_ty e) ty s = Some (z, u)" "state_ok u" "state_ext s u" "valid_id (ss_arena u) z"
        "ss_assignments u = ss_assignments s" "hm_get (ss_meet_cache u) (normalize_pair (as_ty e) ty) = Some z"
      using meet_cached_spec [OF ok state_okD(4) [OF ok v(1) Some] v(2)] by blast
    have a: "assign v z ?p u = Some (False, s')" using q KSubtype v(1) Some z(1) by simp
    have "marks_moved {v} u False s'" using assign_spec [OF z(2) _ z(4), of v ?p] v(1) z(5) a by auto
    then have "state_ext u t" using state_ext_trans [OF _ t(2)] by (auto simp: marks_moved_def)
    then have "meet_cached (as_ty e) ty t = Some (z, t)" using state_extD(5) z(6) by (simp add: meet_cached_def)
    moreover have "assign v z ?p t = Some (False, t)" using assign_quiet [OF z(2,4) a t(2)] same KSubtype z(5) by simp
    ultimately show ?thesis using KSubtype v' Some same by simp
  qed
next
  case (KHasCapability v ty src)
  have v: "v < length (ss_assignments s)" "valid_id (ss_arena s) ty" using c KHasCapability by (auto simp: compact_ok_def)
  obtain k a where k: "arena_ptr ty (ss_arena s) = (k, a)" by (cases "arena_ptr ty (ss_arena s)")
  then have i: "interned (ss_arena s) (TPtr ty) (k, a)"
    using arena_ops_interned(4) [OF state_okD(1) [OF ok] v(2)] by simp
  then have w: "arena_wf a" "arena_ext (ss_arena s) a" "valid_id a k" by (auto simp: interned_def)
  note ok1 = state_ok_arena [OF ok w(1,2)]
  have a: "assign v k (src_priority src) (s\<lparr>ss_arena := a\<rparr>) = Some (False, s')" using q KHasCapability k by simp
  have "marks_moved {v} (s\<lparr>ss_arena := a\<rparr>) False s'" using assign_spec [OF ok1(1), of v k "src_priority src"] v(1) w(3) a by auto
  then have "state_ext (s\<lparr>ss_arena := a\<rparr>) t" using state_ext_trans [OF _ t(2)] by (auto simp: marks_moved_def)
  then have "arena_ext a (ss_arena t)" using state_extD(1) by fastforce
  then have "arena_ptr ty (ss_arena t) = (k, ss_arena t)"
    using interned_again [OF i state_okD(1) [OF t(1)]] by (simp add: arena_ptr_def)
  moreover have "assign v k (src_priority src) t = Some (False, t)"
    using assign_quiet [OF ok1(1) _ a t(2)] w(3) same KHasCapability by simp
  ultimately show ?thesis using KHasCapability by simp
next
  case (KFieldAccess v off ty nm src)
  then show ?thesis
    using apply_field_access_quiet [OF ok, of v ty off nm "src_priority src" s' t] c q t same by (simp add: compact_ok_def)
next
  case (KCallSig f args params ret src)
  have "v < length (ss_assignments s) \<and> valid_id (ss_arena s) ty" if "(v, ty) \<in> set (call_pairs args params ret)" for v ty
    using c that KCallSig by (auto simp: compact_ok_def call_pairs_def dest: set_zip_leftD set_zip_rightD split: option.splits)
  then have "assign_list (call_pairs args params ret) (src_priority src) t = Some (False, t)"
    using assign_list_quiet [OF ok, of "call_pairs args params ret" "src_priority src" s' t] KCallSig q t(2) same
    by (simp add: call_pairs_def)
  then show ?thesis using KCallSig by (simp add: call_pairs_def)
qed

end
