(* ===== verification/Types_Queue.thy ===== *)
theory Types_Queue
  imports Types_Apply
begin

text \<open>
  The queue of the solver. At every moment a constraint that is not queued is settled: applying it
  would change nothing. A wave applies every constraint that was queued at its start.
\<close>

section \<open>Dependents\<close>

lemma adj_push:
  assumes "set vars \<subseteq> {..<length adj}"
  shows "length (foldl (\<lambda>adj var. adj[var := adj ! var @ [idx]]) adj vars) = length adj"
    and "v < length adj \<Longrightarrow> set (foldl (\<lambda>adj var. adj[var := adj ! var @ [idx]]) adj vars ! v) =
      set (adj ! v) \<union> (if v \<in> set vars then {idx} else {})"
proof -
  have "length (foldl (\<lambda>adj var. adj[var := adj ! var @ [idx]]) adj vars) = length adj \<and>
      (\<forall>v < length adj. set (foldl (\<lambda>adj var. adj[var := adj ! var @ [idx]]) adj vars ! v) =
        set (adj ! v) \<union> (if v \<in> set vars then {idx} else {}))"
    using assms
  proof (induction vars arbitrary: adj)
    case (Cons w vars)
    let ?a = "adj[w := adj ! w @ [idx]]"
    have "set vars \<subseteq> {..<length ?a}" using Cons.prems by simp
    from Cons.IH [OF this] Cons.prems show ?case by (auto simp: nth_list_update)
  qed simp
  then show "length (foldl (\<lambda>adj var. adj[var := adj ! var @ [idx]]) adj vars) = length adj"
    and "v < length adj \<Longrightarrow> set (foldl (\<lambda>adj var. adj[var := adj ! var @ [idx]]) adj vars ! v) =
      set (adj ! v) \<union> (if v \<in> set vars then {idx} else {})" by auto
qed

lemma set_referenced_vars: "set (referenced_vars c) = set (referenced_list c)"
  by (simp add: referenced_vars_def)

lemma build_adjacency_spec:
  assumes "\<And>c. c \<in> set ks \<Longrightarrow> set (referenced_list c) \<subseteq> {..<n}"
  shows "length (build_adjacency n ks) = n"
    and "v < n \<Longrightarrow> set (build_adjacency n ks ! v) = {i. i < length ks \<and> v \<in> set (referenced_list (ks ! i))}"
proof -
  have "length (build_adjacency n ks) = n \<and>
      (\<forall>v < n. set (build_adjacency n ks ! v) = {i. i < length ks \<and> v \<in> set (referenced_list (ks ! i))})"
    using assms
  proof (induction ks rule: rev_induct)
    case Nil
    then show ?case by (simp add: build_adjacency_def)
  next
    case (snoc c ks)
    let ?a = "build_adjacency n ks"
    have IH: "length ?a = n" "\<forall>v < n. set (?a ! v) = {i. i < length ks \<and> v \<in> set (referenced_list (ks ! i))}"
      using snoc.IH snoc.prems by auto
    have e: "build_adjacency n (ks @ [c]) = foldl (\<lambda>adj var. adj[var := adj ! var @ [length ks]]) ?a (referenced_vars c)"
      by (simp add: build_adjacency_def enumerate_append_eq)
    have r: "set (referenced_vars c) \<subseteq> {..<length ?a}" using snoc.prems [of c] IH(1) by (simp add: set_referenced_vars)
    have "set (build_adjacency n (ks @ [c]) ! v) = {i. i < length (ks @ [c]) \<and> v \<in> set (referenced_list ((ks @ [c]) ! i))}"
      if "v < n" for v
      using adj_push(2) [OF r, of v "length ks"] that IH unfolding e
      by (auto simp: set_referenced_vars nth_append less_Suc_eq)
    then show ?case using adj_push(1) [OF r] IH(1) e by simp
  qed
  then show "length (build_adjacency n ks) = n"
    and "v < n \<Longrightarrow> set (build_adjacency n ks ! v) = {i. i < length ks \<and> v \<in> set (referenced_list (ks ! i))}" by auto
qed

section \<open>Pushing\<close>

text \<open>The flags say what is in the queue.\<close>

definition flags_ok :: "nat \<Rightarrow> SolverQueue \<Rightarrow> bool" where
  "flags_ok m q \<longleftrightarrow> length (sq_in_queue q) = m \<and> set (sq_queue q) \<subseteq> {..<m} \<and> distinct (sq_queue q) \<and>
     (\<forall>i < m. sq_in_queue q ! i \<longleftrightarrow> i \<in> set (sq_queue q))"

text \<open>States that differ in diagnostics only.\<close>

definition same_core :: "SolverState \<Rightarrow> SolverState \<Rightarrow> bool" where
  "same_core s t \<longleftrightarrow> (\<exists>d. t = s\<lparr>ss_diagnostics := d\<rparr>)"

lemma same_core_refl [simp]: "same_core s s"
  unfolding same_core_def by (rule exI [of _ "ss_diagnostics s"]) simp

lemma same_core_trans: "same_core s t \<Longrightarrow> same_core t u \<Longrightarrow> same_core s u"
  by (auto simp: same_core_def)

lemma same_coreD:
  assumes "same_core s t"
  shows "ss_assignments t = ss_assignments s" "ss_arena t = ss_arena s" "state_ok t \<longleftrightarrow> state_ok s" "state_ext s t"
    "ss_changed t = ss_changed s" "prio_at t = prio_at s"
  using assms by (auto simp: same_core_def state_ok_def state_ext_def cache_ext_def prio_at_def fun_eq_iff)

lemma push_dep_spec:
  assumes "flags_ok m q" "dep < m"
  shows "flags_ok m (push_dep q dep)" "set (sq_queue (push_dep q dep)) = insert dep (set (sq_queue q))"
    "\<exists>xs. sq_queue (push_dep q dep) = sq_queue q @ xs" "same_core (sq_state q) (sq_state (push_dep q dep))"
proof -
  have "sq_in_queue q ! dep \<longleftrightarrow> dep \<in> set (sq_queue q)" using assms by (simp add: flags_ok_def)
  then show "flags_ok m (push_dep q dep)" "set (sq_queue (push_dep q dep)) = insert dep (set (sq_queue q))"
    using assms by (auto simp: push_dep_def flags_ok_def nth_list_update)
  show "\<exists>xs. sq_queue (push_dep q dep) = sq_queue q @ xs" by (simp add: push_dep_def)
  show "same_core (sq_state q) (sq_state (push_dep q dep))"
    by (auto simp: push_dep_def count_push_def same_core_def [of "sq_state q" "_\<lparr>ss_diagnostics := _\<rparr>"])
qed

lemma push_deps_spec:
  "flags_ok m q \<Longrightarrow> set deps \<subseteq> {..<m} \<Longrightarrow>
    flags_ok m (foldl push_dep q deps) \<and> set (sq_queue (foldl push_dep q deps)) = set (sq_queue q) \<union> set deps \<and>
    (\<exists>xs. sq_queue (foldl push_dep q deps) = sq_queue q @ xs) \<and> same_core (sq_state q) (sq_state (foldl push_dep q deps))"
proof (induction deps arbitrary: q)
  case (Cons dep deps)
  have d: "dep < m" using Cons.prems by simp
  note p = push_dep_spec [OF Cons.prems(1) d]
  from Cons.IH [OF p(1)] Cons.prems(2) show ?case using p same_core_trans [OF p(4)] by auto
qed simp

lemma foldl_foldl: "foldl (\<lambda>q v. foldl f q (g v)) q vs = foldl f q (concat (map g vs))"
  by (induction vs arbitrary: q) auto

lemma push_dependents_spec:
  assumes "flags_ok m q" and deps: "\<And>v. v \<in> set (ss_changed (sq_state q)) \<Longrightarrow> set (adj ! v) \<subseteq> {..<m}"
  shows "flags_ok m (push_dependents adj q)"
    "set (sq_queue (push_dependents adj q)) = set (sq_queue q) \<union> (\<Union>v \<in> set (ss_changed (sq_state q)). set (adj ! v))"
    "\<exists>xs. sq_queue (push_dependents adj q) = sq_queue q @ xs" "same_core (sq_state q) (sq_state (push_dependents adj q))"
  using push_deps_spec [OF assms(1), of "concat (map ((!) adj) (ss_changed (sq_state q)))"] deps
  unfolding push_dependents_def foldl_foldl by auto

section \<open>The invariant\<close>

definition constraint_settled :: "CompactConstraint \<Rightarrow> SolverState \<Rightarrow> bool" where
  "constraint_settled c s \<longleftrightarrow> apply_constraint c s = Some (False, s)"

definition solver_ok :: "CompactConstraint list \<Rightarrow> nat \<Rightarrow> SolverState \<Rightarrow> bool" where
  "solver_ok ks n s \<longleftrightarrow> state_ok s \<and> length (ss_assignments s) = n \<and> (\<forall>c \<in> set ks. compact_ok (ss_arena s) n c)"

definition queue_ok :: "CompactConstraint list \<Rightarrow> nat \<Rightarrow> SolverQueue \<Rightarrow> bool" where
  "queue_ok ks n q \<longleftrightarrow> solver_ok ks n (sq_state q) \<and> flags_ok (length ks) q \<and>
     (\<forall>i < length ks. i \<notin> set (sq_queue q) \<longrightarrow> constraint_settled (ks ! i) (sq_state q))"

text \<open>A property of the assignments that no constraint of the list breaks.\<close>

definition kept :: "CompactConstraint list \<Rightarrow> nat \<Rightarrow> (Assignment option list \<Rightarrow> bool) \<Rightarrow> bool" where
  "kept ks n P \<longleftrightarrow> (\<forall>c \<in> set ks. \<forall>s b t. solver_ok ks n s \<longrightarrow> P (ss_assignments s) \<longrightarrow> apply_constraint c s = Some (b, t) \<longrightarrow>
     P (ss_assignments t))"

text \<open>What every run of the solver gives: types stay, priorities do not fall, kept properties are kept.\<close>

definition run :: "CompactConstraint list \<Rightarrow> nat \<Rightarrow> SolverState \<Rightarrow> SolverState \<Rightarrow> bool" where
  "run ks n s t \<longleftrightarrow> state_ext s t \<and> (\<forall>v p. prio_at s v p \<longrightarrow> prio_at t v p) \<and>
     (\<forall>P. kept ks n P \<longrightarrow> P (ss_assignments s) \<longrightarrow> P (ss_assignments t))"

lemma run_trans: "run ks n s t \<Longrightarrow> run ks n t u \<Longrightarrow> run ks n s u"
  unfolding run_def by (intro conjI allI impI; (elim conjE)?) (blast intro: state_ext_trans)+

lemma run_kept: "run ks n s t \<Longrightarrow> kept ks n P \<Longrightarrow> P (ss_assignments s) \<Longrightarrow> P (ss_assignments t)"
  unfolding run_def by blast

lemma run_core: "same_core s t \<Longrightarrow> run ks n s t"
  by (simp add: run_def same_coreD)

lemma meets_source_run: "run ks n s t \<Longrightarrow> meets_source c s v \<Longrightarrow> meets_source c t v"
  by (cases c) (auto simp: run_def prio_at_zero [symmetric])

lemma settled_later:
  assumes "solver_ok ks n s" "c \<in> set ks" "constraint_settled c s" "state_ok t" "state_ext s t"
    and "\<And>v. v \<in> typed_vars c \<Longrightarrow> ss_assignments t ! v = ss_assignments s ! v"
  shows "constraint_settled c t"
  using apply_constraint_quiet [of s c s t] assms by (simp add: constraint_settled_def solver_ok_def)

lemma solver_ok_later: "solver_ok ks n s \<Longrightarrow> state_ok t \<Longrightarrow> state_ext s t \<Longrightarrow> solver_ok ks n t"
  using compact_ok_ext state_extD(1,2) by (auto simp: solver_ok_def)

lemma flags_pop:
  assumes "flags_ok m q" "sq_queue q = i # rest"
  shows "flags_ok m (q\<lparr>sq_queue := rest, sq_in_queue := (sq_in_queue q)[i := False], sq_state := s\<rparr>)"
proof -
  have "i < length (sq_in_queue q)" "i \<notin> set rest" "distinct rest" "set rest \<subseteq> {..<m}" using assms by (auto simp: flags_ok_def)
  moreover have "(sq_in_queue q)[i := False] ! j \<longleftrightarrow> j \<in> set rest" if "j < m" for j
    using assms that by (cases "j = i") (auto simp: flags_ok_def)
  ultimately show ?thesis using assms(1) by (simp add: flags_ok_def)
qed

lemma process_one_spec:
  assumes q: "queue_ok ks n q" and i: "sq_queue q = i # rest"
  shows "\<exists>q'. process_one ks (build_adjacency n ks) i (q\<lparr>sq_queue := rest\<rparr>) = Some q' \<and> queue_ok ks n q' \<and>
    (\<exists>xs. sq_queue q' = rest @ xs) \<and> run ks n (sq_state q) (sq_state q') \<and>
    (\<forall>v \<in> typed_vars (ks ! i). meets_source (ks ! i) (sq_state q') v)"
proof -
  let ?m = "length ks" and ?adj = "build_adjacency n ks"
  let ?s = "(count_pop (sq_state q))\<lparr>ss_changed := []\<rparr>"
  have f: "flags_ok ?m q" and so: "solver_ok ks n (sq_state q)" using q by (auto simp: queue_ok_def)
  have im: "i < ?m" using f i by (simp add: flags_ok_def)
  then have c: "ks ! i \<in> set ks" by simp
  have s0: "state_ext (sq_state q) ?s" "ss_assignments ?s = ss_assignments (sq_state q)" "state_ok ?s"
    using so by (auto simp: count_pop_def state_ext_def cache_ext_def solver_ok_def state_ok_def)
  have so0: "solver_ok ks n ?s" by (rule solver_ok_later [OF so s0(3,1)])
  obtain b t where t: "apply_constraint (ks ! i) ?s = Some (b, t)" "marks_moved (typed_vars (ks ! i)) ?s b t"
      "\<forall>v \<in> typed_vars (ks ! i). meets_source (ks ! i) t v"
    using apply_constraint_spec [of ?s "ks ! i"] so0 c by (auto simp: solver_ok_def)
  have t': "state_ok t" "state_ext ?s t" "set (ss_changed t) \<subseteq> typed_vars (ks ! i)"
      "\<And>v. v \<notin> set (ss_changed t) \<Longrightarrow> ss_assignments t ! v = ss_assignments ?s ! v"
      "b \<Longrightarrow> ss_changed t \<noteq> []" "\<And>v p. prio_at ?s v p \<Longrightarrow> prio_at t v p"
    using t(2) by (auto simp: marks_moved_def)
  have sot: "solver_ok ks n t" by (rule solver_ok_later [OF so0 t'(1,2)])
  have refs: "set (referenced_list c) \<subseteq> {..<n}" if "c \<in> set ks" for c using so that by (auto simp: solver_ok_def compact_ok_def)
  have adj: "set (?adj ! v) = {j. j < ?m \<and> v \<in> set (referenced_list (ks ! j))}" if "v \<in> set (ss_changed t)" for v
    using build_adjacency_spec(2) [OF refs] that t'(3) typed_vars_referenced [of "ks ! i"] refs [OF c] by blast
  let ?q = "q\<lparr>sq_queue := rest, sq_in_queue := (sq_in_queue q)[i := False], sq_state := t\<rparr>"
  have fq: "flags_ok ?m ?q" by (rule flags_pop [OF f i])
  have deps: "set (?adj ! v) \<subseteq> {..<?m}" if "v \<in> set (ss_changed (sq_state ?q))" for v using adj that by auto
  note push = push_dependents_spec [where adj = ?adj, OF fq deps, simplified]
  let ?q' = "push_dependents ?adj ?q"
  note core = same_coreD [OF push(4)]
  have run: "run ks n (sq_state q) (sq_state ?q')"
  proof -
    have "run ks n (sq_state q) t"
      unfolding run_def using state_ext_trans [OF s0(1) t'(2)] t'(6) s0(2) so0 c t(1) by (auto simp: prio_at_def kept_def)
    then show ?thesis using run_trans run_core [OF push(4)] by simp
  qed
  have "constraint_settled (ks ! j) (sq_state ?q')" if j: "j < ?m" "j \<notin> set (sq_queue ?q')" for j
  proof -
    have nr: "v \<notin> set (ss_changed t)" if "v \<in> set (referenced_list (ks ! j))" for v
      using j push(2) adj that by auto
    have jn: "j \<notin> set rest" using j push(2) by auto
    have cj: "ks ! j \<in> set ks" using j by simp
    have same: "ss_assignments t ! v = ss_assignments ?s ! v" if "v \<in> typed_vars (ks ! j)" for v
      using t'(4) nr that typed_vars_referenced by blast
    have tq: "state_ok (sq_state ?q')" "state_ext t (sq_state ?q')" using core t'(1) by auto
    show ?thesis
    proof (cases "j = i")
      case True
      then have "ss_changed t = []" using t'(3) nr typed_vars_referenced [of "ks ! i"] by (cases "ss_changed t") auto
      then have "apply_constraint (ks ! i) ?s = Some (False, t)" using t(1) t'(5) by auto
      then show ?thesis
        using apply_constraint_quiet [of ?s "ks ! i" t "sq_state ?q'"] so0 c tq core(1) same True
        by (simp add: constraint_settled_def solver_ok_def)
    next
      case False
      then have "constraint_settled (ks ! j) (sq_state q)" using q j(1) jn i by (auto simp: queue_ok_def)
      moreover have "state_ext (sq_state q) (sq_state ?q')" using state_ext_trans [OF s0(1) state_ext_trans [OF t'(2) tq(2)]] .
      ultimately show ?thesis using settled_later [OF so cj _ tq(1)] same core(1) s0(2) by simp
    qed
  qed
  then have qok: "queue_ok ks n ?q'"
    using push(1) solver_ok_later [OF sot _ core(4)] core(3) t'(1) by (simp add: queue_ok_def)
  have "meets_source (ks ! i) (sq_state ?q') v" if "v \<in> typed_vars (ks ! i)" for v
    using meets_source_run [OF run_core [OF push(4)]] t(3) that by blast
  then show ?thesis using t(1) qok run push(3) by (auto simp: process_one_def)
qed

lemma solve_wave_spec:
  "queue_ok ks n q \<Longrightarrow> k \<le> length (sq_queue q) \<Longrightarrow>
    \<exists>q'. solve_wave ks (build_adjacency n ks) k q = Some q' \<and> queue_ok ks n q' \<and> run ks n (sq_state q) (sq_state q') \<and>
      (\<forall>i \<in> set (take k (sq_queue q)). \<forall>v \<in> typed_vars (ks ! i). meets_source (ks ! i) (sq_state q') v)"
proof (induction k arbitrary: q)
  case 0
  then show ?case using run_core [of "sq_state q"] by simp
next
  case (Suc k)
  then obtain i rest where i: "sq_queue q = i # rest" by (cases "sq_queue q") auto
  obtain q1 xs where q1: "process_one ks (build_adjacency n ks) i (q\<lparr>sq_queue := rest\<rparr>) = Some q1" "queue_ok ks n q1"
      "sq_queue q1 = rest @ xs" "run ks n (sq_state q) (sq_state q1)" "\<forall>v \<in> typed_vars (ks ! i). meets_source (ks ! i) (sq_state q1) v"
    using process_one_spec [OF Suc.prems(1) i] by blast
  obtain q2 where q2: "solve_wave ks (build_adjacency n ks) k q1 = Some q2" "queue_ok ks n q2" "run ks n (sq_state q1) (sq_state q2)"
      "\<forall>i \<in> set (take k (sq_queue q1)). \<forall>v \<in> typed_vars (ks ! i). meets_source (ks ! i) (sq_state q2) v"
    using Suc.IH [OF q1(2)] Suc.prems(2) i q1(3) by auto
  have "take k (sq_queue q1) = take k rest" using q1(3) Suc.prems(2) i by simp
  then show ?case
    using i q1(1) q2 run_trans [OF q1(4) q2(3)] q1(5) meets_source_run [OF q2(3)] by auto
qed

lemma count_iteration_core: "same_core s (count_iteration s)"
  by (auto simp: count_iteration_def same_core_def)

lemma queue_ok_core:
  assumes "queue_ok ks n q" "same_core (sq_state q) s"
  shows "queue_ok ks n (q\<lparr>sq_state := s\<rparr>)"
proof -
  note core = same_coreD [OF assms(2)]
  have so: "solver_ok ks n (sq_state q)" using assms(1) by (simp add: queue_ok_def)
  then have ok: "state_ok s" using core(3) by (simp add: solver_ok_def)
  have "constraint_settled (ks ! i) s" if "i < length ks" "i \<notin> set (sq_queue q)" for i
    using settled_later [OF so _ _ ok core(4)] that assms(1) core(1) by (simp add: queue_ok_def)
  then show ?thesis using assms(1) solver_ok_later [OF so ok core(4)] by (simp add: queue_ok_def flags_ok_def)
qed

lemma solve_waves_spec:
  "queue_ok ks n q \<Longrightarrow>
    \<exists>q'. solve_waves ks (build_adjacency n ks) k q = Some q' \<and> queue_ok ks n q' \<and> run ks n (sq_state q) (sq_state q') \<and>
      (0 < k \<longrightarrow> (\<forall>i \<in> set (sq_queue q). \<forall>v \<in> typed_vars (ks ! i). meets_source (ks ! i) (sq_state q') v))"
proof (induction k arbitrary: q)
  case 0
  then show ?case using run_core [of "sq_state q"] by simp
next
  case (Suc k)
  show ?case
  proof (cases "sq_queue q = []")
    case True
    then show ?thesis using Suc.prems run_core [of "sq_state q"] by simp
  next
    case False
    let ?q = "q\<lparr>sq_state := count_iteration (sq_state q)\<rparr>"
    have qok: "queue_ok ks n ?q" by (rule queue_ok_core [OF Suc.prems count_iteration_core])
    obtain q1 where q1: "solve_wave ks (build_adjacency n ks) (length (sq_queue q)) ?q = Some q1" "queue_ok ks n q1"
        "run ks n (sq_state ?q) (sq_state q1)" "\<forall>i \<in> set (sq_queue q). \<forall>v \<in> typed_vars (ks ! i). meets_source (ks ! i) (sq_state q1) v"
      using solve_wave_spec [OF qok, of "length (sq_queue q)"] by auto
    obtain q2 where q2: "solve_waves ks (build_adjacency n ks) k q1 = Some q2" "queue_ok ks n q2" "run ks n (sq_state q1) (sq_state q2)"
      using Suc.IH [OF q1(2)] by blast
    have "run ks n (sq_state q) (sq_state q1)"
      using run_trans [OF run_core [OF count_iteration_core]] q1(3) by simp
    then show ?thesis
      using False q1(1,4) q2 run_trans [OF _ q2(3)] meets_source_run [OF q2(3)] by auto
  qed
qed

end
