(* ===== verification/Types_Join.thy ===== *)
theory Types_Join
  imports Types_Lattice_Props
begin

text \<open>
  What join and meet compute. Join is the least upper bound of its arguments, unless it merges two
  structs or two functions, or a pointer and an integer, somewhere below the pointers and arrays they
  have in common. Meet gives a lower bound unless two integers are met that are not comparable.
\<close>

section \<open>Least upper bounds\<close>

definition lub :: "TypeArena \<Rightarrow> TypeId \<Rightarrow> TypeId \<Rightarrow> TypeId \<Rightarrow> bool" where
  "lub a i j k \<longleftrightarrow> subtype a i k \<and> subtype a j k \<and> (\<forall>m. subtype a i m \<and> subtype a j m \<longrightarrow> subtype a k m)"

inductive clash :: "TypeArena \<Rightarrow> TypeId \<Rightarrow> TypeId \<Rightarrow> bool" for a where
  cl_struct: "arena_get a i = TStruct s \<Longrightarrow> arena_get a j = TStruct t \<Longrightarrow> clash a i j"
| cl_function: "arena_get a i = TFunction ps r v \<Longrightarrow> arena_get a j = TFunction qs q w \<Longrightarrow> clash a i j"
| cl_ptr_int: "arena_get a i = TPtr i' \<Longrightarrow> arena_get a j = TInt b s \<Longrightarrow> clash a i j"
| cl_int_ptr: "arena_get a i = TInt b s \<Longrightarrow> arena_get a j = TPtr j' \<Longrightarrow> clash a i j"
| cl_ptr: "arena_get a i = TPtr i' \<Longrightarrow> arena_get a j = TPtr j' \<Longrightarrow> clash a i' j' \<Longrightarrow> clash a i j"
| cl_array: "arena_get a i = TArray i' n s \<Longrightarrow> arena_get a j = TArray j' m t \<Longrightarrow> clash a i' j' \<Longrightarrow> clash a i j"

lemma lub_left: "subtype a i j \<Longrightarrow> lub a i j j"
  by (simp add: lub_def st_refl)

lemma lub_right: "subtype a j i \<Longrightarrow> lub a i j i"
  by (simp add: lub_def st_refl)

text \<open>For types that are not comparable the bound is a matter of their shapes.\<close>

lemma lub_by_shape:
  assumes "\<not> subtype a i j" "\<not> subtype a j i"
    and "ty_below (subtype a) (arena_get a i) (arena_get a k)" "ty_below (subtype a) (arena_get a j) (arena_get a k)"
    and "\<And>t. ty_below (subtype a) (arena_get a i) t \<Longrightarrow> ty_below (subtype a) (arena_get a j) t \<Longrightarrow> ty_below (subtype a) (arena_get a k) t"
  shows "lub a i j k"
  unfolding lub_def using assms subtype_below [of a] by metis

text \<open>Only top is above types of different kinds.\<close>

fun ty_kind :: "Ty \<Rightarrow> nat" where
  "ty_kind TTop = 0"
| "ty_kind TBottom = 1"
| "ty_kind TBool = 2"
| "ty_kind (TInt _ _) = 2"
| "ty_kind (TFloat _) = 3"
| "ty_kind (TPtr _) = 4"
| "ty_kind (TArray _ _ _) = 5"
| "ty_kind (TStruct _) = 6"
| "ty_kind (TFunction _ _ _) = 7"
| "ty_kind (TUnknownAlias _) = 8"

lemma below_kind: "ty_below R x t \<Longrightarrow> t = TTop \<or> x = TBottom \<or> ty_kind x = ty_kind t"
  by (cases "(R, x, t)" rule: ty_below.cases) auto

lemma below_alias [simp]: "ty_below R (TUnknownAlias nm) t \<longleftrightarrow> t = TTop"
  by (cases t) auto

lemma below_bool_int: "ty_below R TBool t \<longleftrightarrow> t = TTop \<or> (\<exists>b s. t = TInt b s \<and> 1 \<le> b)"
  by (cases t) auto

lemma below_int: "ty_below R (TInt b1 s1) t \<longleftrightarrow> t = TTop \<or> (\<exists>b s. t = TInt b s \<and> b1 \<le> b \<and> (s1 = s \<or> s = SignUnknown))"
  by (cases t) auto

lemma below_float: "ty_below R (TFloat b1) t \<longleftrightarrow> t = TTop \<or> (\<exists>b. t = TFloat b \<and> b1 \<le> b)"
  by (cases t) auto

lemma below_ptr: "ty_below R (TPtr i) t \<longleftrightarrow> t = TTop \<or> (\<exists>j. t = TPtr j \<and> R i j)"
  by (cases t) auto

lemma below_array: "ty_below R (TArray i n s) t \<longleftrightarrow> t = TTop \<or> (\<exists>j m u. t = TArray j m u \<and> (m = None \<or> n = m) \<and> R i j)"
  by (cases t) auto

lemma lub_top:
  assumes "\<not> subtype a i j" "\<not> subtype a j i" "arena_get a k = TTop"
    and "ty_kind (arena_get a i) \<noteq> ty_kind (arena_get a j) \<or> (\<exists>nm. arena_get a i = TUnknownAlias nm)"
  shows "lub a i j k"
proof (rule lub_by_shape [OF assms(1,2)])
  fix t assume t: "ty_below (subtype a) (arena_get a i) t" "ty_below (subtype a) (arena_get a j) t"
  have "arena_get a i \<noteq> TBottom" "arena_get a j \<noteq> TBottom" using assms(1,2) st_bottom by auto
  then have "t = TTop" using below_kind [OF t(1)] below_kind [OF t(2)] assms(4) t(1) by auto
  then show "ty_below (subtype a) (arena_get a k) t" by simp
qed (simp_all add: assms(3))

lemma lub_int:
  assumes "\<not> subtype a i j" "\<not> subtype a j i" "arena_get a i = TInt b1 s1" "arena_get a j = TInt b2 s2"
    "arena_get a k = TInt (max b1 b2) (merge_signs s1 s2)"
  shows "lub a i j k"
  by (rule lub_by_shape [OF assms(1,2)]) (auto simp: assms(3-5) below_int merge_signs_def)

lemma lub_bool:
  assumes "\<not> subtype a i j" "\<not> subtype a j i" "arena_get a i = TBool" "arena_get a j = TInt b s" "arena_get a k = TInt (max b 1) s"
  shows "lub a i j k"
  by (rule lub_by_shape [OF assms(1,2)]) (auto simp: assms(3-5) below_int below_bool_int)

lemma lub_comm: "lub a i j k \<longleftrightarrow> lub a j i k"
  by (auto simp: lub_def)

lemma lub_ptr:
  assumes "\<not> subtype a i j" "\<not> subtype a j i" "arena_get a i = TPtr i'" "arena_get a j = TPtr j'" "arena_get a k = TPtr k'"
    and "lub a i' j' k'"
  shows "lub a i j k"
  using assms(6) by (intro lub_by_shape [OF assms(1,2)]) (auto simp: assms(3-5) below_ptr lub_def)

lemma lub_array:
  assumes "\<not> subtype a i j" "\<not> subtype a j i" "arena_get a i = TArray i' n s" "arena_get a j = TArray j' m t"
    and "arena_get a k = TArray k' (if n = m then n else None) u" "lub a i' j' k'"
  shows "lub a i j k"
  using assms(6) by (intro lub_by_shape [OF assms(1,2)]) (auto simp: assms(3-5) below_array lub_def)

section \<open>Join\<close>

text \<open>A result that is the least upper bound in its arena and in every larger one.\<close>

definition joins :: "TypeArena \<Rightarrow> TypeId \<Rightarrow> TypeId \<Rightarrow> typed \<Rightarrow> bool" where
  "joins a i j r \<longleftrightarrow> (\<exists>k a'. r = Some (k, a') \<and> arena_wf a' \<and> arena_ext a a' \<and> valid_id a' k \<and>
     (\<forall>b. arena_ext a' b \<longrightarrow> arena_wf b \<longrightarrow> lub b i j k))"

text \<open>Enough to look at a larger arena, in which the arguments have the types they had and are still not comparable.\<close>

lemma joinsI:
  assumes wf: "arena_wf a" "valid_id a i" "valid_id a j" "\<not> subtype a i j" "\<not> subtype a j i" and r: "interned a' ty r" "arena_ext a a'"
    and "\<And>b k. arena_ext a' b \<Longrightarrow> arena_wf b \<Longrightarrow> arena_get b i = arena_get a i \<Longrightarrow> arena_get b j = arena_get a j \<Longrightarrow> arena_get b k = ty \<Longrightarrow>
      \<not> subtype b i j \<Longrightarrow> \<not> subtype b j i \<Longrightarrow> lub b i j k"
  shows "joins a i j (Some r)"
proof -
  obtain k a1 where k: "r = (k, a1)" by (cases r)
  have i: "arena_wf a1" "arena_ext a' a1" "valid_id a1 k" "arena_get a1 k = ty" using r(1) k by (auto simp: interned_def)
  have e: "arena_ext a a1" using arena_ext_trans [OF r(2) i(2)] .
  have "lub b i j k" if b: "arena_ext a1 b" "arena_wf b" for b
  proof (rule assms(8) [OF arena_ext_trans [OF i(2) b(1)] b(2)])
    have eb: "arena_ext a b" by (rule arena_ext_trans [OF e b(1)])
    then show "\<not> subtype b i j" "\<not> subtype b j i" using subtype_ext [OF wf(1) eb] wf by auto
    show "arena_get b i = arena_get a i" "arena_get b j = arena_get a j" using arena_ext_get [OF eb] wf by (auto simp: valid_id_def)
    show "arena_get b k = ty" using arena_ext_get [OF b(1)] i by (simp add: valid_id_def)
  qed
  then show ?thesis using i e k by (auto simp: joins_def)
qed

lemma joins_comparable:
  assumes "arena_wf a" "valid_id a i" "valid_id a j"
  shows "subtype a i j \<Longrightarrow> joins a i j (Some (j, a))" "subtype a j i \<Longrightarrow> joins a i j (Some (i, a))"
proof -
  have "lub b i j j" if "subtype a i j" "arena_ext a b" for b
    by (rule lub_left) (simp add: subtype_ext [OF assms(1) that(2) assms(2,3)] that(1))
  then show "subtype a i j \<Longrightarrow> joins a i j (Some (j, a))" using assms by (simp add: joins_def)
  have "lub b i j i" if "subtype a j i" "arena_ext a b" for b
    by (rule lub_right) (simp add: subtype_ext [OF assms(1) that(2) assms(3,2)] that(1))
  then show "subtype a j i \<Longrightarrow> joins a i j (Some (i, a))" using assms by (simp add: joins_def)
qed

lemma join_f_lub:
  assumes "arena_wf a" "valid_id a i" "valid_id a j" "Suc i < fuel" "subtype a i j \<or> subtype a j i \<or> \<not> clash a i j"
  shows "joins a i j (join_f fuel a i j)"
  using assms(2-5)
proof (induction i arbitrary: fuel j rule: less_induct)
  case (less i)
  note wf = assms(1)
  obtain n where n: "fuel = Suc n" using less.prems by (cases fuel) auto
  show ?case
  proof (cases "subtype a i j \<or> subtype a j i")
    case True
    then show ?thesis
      using joins_comparable [OF wf less.prems(1,2)] by (auto simp: n is_subtype_decides [OF wf] split: bool.splits)
  next
    case False
    then have nb: "arena_get a i \<noteq> TBottom" "arena_get a j \<noteq> TBottom" "arena_get a i \<noteq> TTop" "arena_get a j \<noteq> TTop"
      using st_bottom st_top by auto
    note rule = joinsI [OF wf less.prems(1,2)]
    have inner: "joins a i' j' (join_f n a i' j')"
      if "i' \<in> set (ty_refs (arena_get a i))" "j' \<in> set (ty_refs (arena_get a j))" "\<not> clash a i' j'" for i' j'
    proof (rule less.IH)
      show "i' < i" by (rule arena_wf_refs [OF wf less.prems(1) that(1)])
      then show "Suc i' < n" using less.prems n by simp
      show "valid_id a i'" "valid_id a j'" using valid_id_ref [OF wf] less.prems that by auto
    qed (use that in simp)
    have ptr: "joins a i j (pointer_to (join_f n a i' j'))" if p: "arena_get a i = TPtr i'" "arena_get a j = TPtr j'" for i' j'
    proof -
      have "\<not> clash a i' j'" using less.prems(4) False p cl_ptr by blast
      then obtain k a1 where k: "join_f n a i' j' = Some (k, a1)" "arena_wf a1" "arena_ext a a1" "valid_id a1 k"
          "\<forall>b. arena_ext a1 b \<longrightarrow> arena_wf b \<longrightarrow> lub b i' j' k"
        using inner [of i' j'] p by (auto simp: joins_def)
      show ?thesis
        unfolding k(1) pointer_to_def option.map prod.case
        by (rule rule [OF _ _ arena_ops_interned(4) [OF k(2,4)] k(3)]) (use False p k(5) in \<open>auto intro: lub_ptr\<close>)
    qed
    have arr: "joins a i j (map_option (\<lambda>(elem, a1). arena_array elem (if l = l' then l else None) st a1) (join_f n a i' j'))"
      if p: "arena_get a i = TArray i' l s" "arena_get a j = TArray j' l' t" for i' j' l s l' t st
    proof -
      have "\<not> clash a i' j'" using less.prems(4) False p cl_array by blast
      then obtain k a1 where k: "join_f n a i' j' = Some (k, a1)" "arena_wf a1" "arena_ext a a1" "valid_id a1 k"
          "\<forall>b. arena_ext a1 b \<longrightarrow> arena_wf b \<longrightarrow> lub b i' j' k"
        using inner [of i' j'] p by (auto simp: joins_def)
      show ?thesis
        unfolding k(1) option.map prod.case
        by (rule rule [OF _ _ arena_ops_interned(5) [OF k(2,4)] k(3)]) (use False p k(5) in \<open>auto intro: lub_array\<close>)
    qed
    have top: "joins a i j (Some (arena_top a, a))"
      if "ty_kind (arena_get a i) \<noteq> ty_kind (arena_get a j) \<or> (\<exists>nm. arena_get a i = TUnknownAlias nm)"
      by (rule rule [OF _ _ _ arena_ext_refl, of TTop]) (use False that wf in \<open>auto intro: lub_top simp: interned_def\<close>)
    have num: "joins a i j (Some (arena_int b s a))" if "\<And>b' k. arena_get b' i = arena_get a i \<Longrightarrow> arena_get b' j = arena_get a j \<Longrightarrow>
        arena_get b' k = TInt b s \<Longrightarrow> \<not> subtype b' i j \<Longrightarrow> \<not> subtype b' j i \<Longrightarrow> lub b' i j k" for b s
      by (rule rule [OF _ _ arena_ops_interned(1) [OF wf] arena_ext_refl]) (use False that in auto)
    have ne: "arena_get a i \<noteq> arena_get a j"
      using arena.canonical [OF arena_wf_ok [OF wf], of i j] less.prems(1,2) False st_refl by (auto simp: valid_id_def)
    have nc: "\<not> clash a i j" using less.prems(4) False by blast
    have fl: "joins a i j (Some (arena_float b a))" if "arena_get a i = TFloat b1" "arena_get a j = TFloat b2" for b b1 b2
      using False that subtype_below [of a i j] subtype_below [of a j i] by auto
    have ints: "joins a i j (Some (arena_int (max b1 b2) (merge_signs s1 s2) a))"
      if "arena_get a i = TInt b1 s1" "arena_get a j = TInt b2 s2" for b1 b2 s1 s2
      by (rule num) (simp add: that lub_int)
    have bool: "joins a i j (Some (arena_int (max b 1) s a))"
      if "arena_get a i = TBool \<and> arena_get a j = TInt b s \<or> arena_get a i = TInt b s \<and> arena_get a j = TBool" for b s
      using that
    proof
      assume "arena_get a i = TBool \<and> arena_get a j = TInt b s"
      then show ?thesis by (intro num) (simp add: lub_bool)
    next
      assume "arena_get a i = TInt b s \<and> arena_get a j = TBool"
      then show ?thesis by (intro num) (subst lub_comm, simp add: lub_bool)
    qed
    show ?thesis
    proof (cases "arena_get a i")
      case (TInt b s)
      then show ?thesis using nb False nc top ints bool cl_int_ptr
        by (cases "arena_get a j") (auto simp: n is_subtype_decides [OF wf])
    next
      case (TPtr i')
      then show ?thesis using nb False nc top ptr cl_ptr_int
        by (cases "arena_get a j") (auto simp: n is_subtype_decides [OF wf])
    next
      case (TStruct s)
      then show ?thesis using nb False nc top cl_struct
        by (cases "arena_get a j") (auto simp: n is_subtype_decides [OF wf])
    next
      case (TFunction ps r v)
      then show ?thesis using nb False nc top cl_function
        by (cases "arena_get a j") (auto simp: n is_subtype_decides [OF wf])
    qed (use nb False ne top arr fl bool in \<open>cases "arena_get a j"; simp add: n is_subtype_decides [OF wf]\<close>)+
  qed
qed

section \<open>Meet\<close>

text \<open>Integers that are not comparable have different signedness; their meet has none.\<close>

lemma meet_int_bound:
  assumes wf: "arena_wf a" and v: "valid_id a i" "valid_id a j" and inc: "\<not> subtype a i j" "\<not> subtype a j i"
    and ints: "arena_get a i = TInt b1 s1" "arena_get a j = TInt b2 s2"
  shows "\<exists>k a'. meet a i j = Some (k, a') \<and> arena_get a' k = TInt (min b1 b2) SignUnknown \<and>
    \<not> (subtype a' k i \<and> subtype a' k j)"
proof -
  obtain k a' where k: "arena_int (min b1 b2) SignUnknown a = (k, a')" by (cases "arena_int (min b1 b2) SignUnknown a")
  have "s1 \<noteq> s2" using inc ints subtype_below [of a i j] subtype_below [of a j i] by auto
  moreover obtain n where "type_fuel a = Suc n" by (simp add: type_fuel_def)
  ultimately have m: "meet a i j = Some (k, a')"
    using inc ints k by (simp add: meet_def is_subtype_decides [OF wf] merge_signs_def)
  have i: "arena_ext a a'" "valid_id a' k" "arena_get a' k = TInt (min b1 b2) SignUnknown"
    using arena_ops_interned(1) [OF wf, of "min b1 b2" SignUnknown] k by (auto simp: interned_def)
  have "arena_get a' i = TInt b1 s1" "arena_get a' j = TInt b2 s2"
    using arena_ext_get [OF i(1)] v ints by (auto simp: valid_id_def)
  then have "\<not> (subtype a' k i \<and> subtype a' k j)"
    using i(3) \<open>s1 \<noteq> s2\<close> subtype_below [of a' k i] subtype_below [of a' k j] by auto
  then show ?thesis using m i(3) by blast
qed

text \<open>Everywhere else the result is a lower bound.\<close>

inductive int_clash :: "TypeArena \<Rightarrow> TypeId \<Rightarrow> TypeId \<Rightarrow> bool" for a where
  ic_int: "arena_get a i = TInt b1 s1 \<Longrightarrow> arena_get a j = TInt b2 s2 \<Longrightarrow> \<not> subtype a i j \<Longrightarrow> \<not> subtype a j i \<Longrightarrow> int_clash a i j"
| ic_ptr: "arena_get a i = TPtr i' \<Longrightarrow> arena_get a j = TPtr j' \<Longrightarrow> int_clash a i' j' \<Longrightarrow> int_clash a i j"

definition meets :: "TypeArena \<Rightarrow> TypeId \<Rightarrow> TypeId \<Rightarrow> typed \<Rightarrow> bool" where
  "meets a i j r \<longleftrightarrow> (\<exists>k a'. r = Some (k, a') \<and> arena_wf a' \<and> arena_ext a a' \<and> valid_id a' k \<and> subtype a' k i \<and> subtype a' k j)"

lemma meets_self:
  assumes "arena_wf a" "valid_id a k" "subtype a k i" "subtype a k j"
  shows "meets a i j (Some (k, a))"
  using assms by (simp add: meets_def)

lemma meet_f_lower:
  assumes wf: "arena_wf a" and "valid_id a i" "valid_id a j" "i < fuel" "\<not> int_clash a i j"
  shows "meets a i j (meet_f fuel a i j)"
  using assms(2-)
proof (induction i arbitrary: fuel j rule: less_induct)
  case (less i)
  obtain n where n: "fuel = Suc n" using less.prems by (cases fuel) auto
  show ?case
  proof (cases "subtype a i j \<or> subtype a j i")
    case True
    then show ?thesis
      using less.prems wf by (auto simp: n is_subtype_decides [OF wf] st_refl split: bool.splits intro!: meets_self)
  next
    case False
    then have nb: "arena_get a i \<noteq> TTop" "arena_get a j \<noteq> TTop" using st_top by auto
    have bot: "meets a i j (Some (arena_bottom a, a))" using wf by (intro meets_self) (auto intro: st_bottom)
    have ptr: "meets a i j (pointer_to (meet_f n a i' j'))" if p: "arena_get a i = TPtr i'" "arena_get a j = TPtr j'" for i' j'
    proof -
      have v: "valid_id a i'" "valid_id a j'" using valid_id_ref [OF wf] less.prems p by auto
      have "i' < i" using arena_wf_refs [OF wf less.prems(1)] p by simp
      moreover have "\<not> int_clash a i' j'" using less.prems(4) p ic_ptr by blast
      ultimately obtain k a1 where k: "meet_f n a i' j' = Some (k, a1)" "arena_wf a1" "arena_ext a a1" "valid_id a1 k"
          "subtype a1 k i'" "subtype a1 k j'"
        using less.IH [of i' j' n] v less.prems(3) n by (auto simp: meets_def)
      obtain r a2 where r: "arena_ptr k a1 = (r, a2)" by (cases "arena_ptr k a1")
      then have i: "arena_wf a2" "arena_ext a1 a2" "valid_id a2 r" "arena_get a2 r = TPtr k"
        using arena_ops_interned(4) [OF k(2,4)] by (auto simp: interned_def)
      have e: "arena_ext a a2" by (rule arena_ext_trans [OF k(3) i(2)])
      have "subtype a2 k i'" "subtype a2 k j'"
        using subtype_ext [OF k(2) i(2) k(4)] valid_id_ext [OF k(3)] v k(5,6) by auto
      moreover have "arena_get a2 i = TPtr i'" "arena_get a2 j = TPtr j'"
        using arena_ext_get [OF e] less.prems(1,2) p by (auto simp: valid_id_def)
      ultimately have "subtype a2 r i" "subtype a2 r j" using i(4) by (auto intro: st_ptr)
      then show ?thesis using k(1) r i e by (simp add: meets_def pointer_to_def)
    qed
    have fl: "meets a i j (Some (arena_float b a))" if "arena_get a i = TFloat b1" "arena_get a j = TFloat b2" for b b1 b2
      using False that subtype_below [of a i j] subtype_below [of a j i] by auto
    show ?thesis
    proof (cases "arena_get a i")
      case (TInt b s)
      then show ?thesis using nb False bot less.prems(4) ic_int
        by (cases "arena_get a j") (auto simp: n is_subtype_decides [OF wf])
    qed (use nb False bot ptr fl in \<open>cases "arena_get a j"; simp add: n is_subtype_decides [OF wf]\<close>)+
  qed
qed

section \<open>Summary\<close>

text \<open>C38. On a well-formed arena \<open>is_subtype\<close> ends with an answer for every two indices, and the relation
  it decides is reflexive and transitive: types are ordered.
\<close>

theorem is_subtype_preorder:
  assumes "arena_wf a"
  shows "\<exists>R. (\<forall>i j. is_subtype a i j = Some (R i j)) \<and> reflp R \<and> transp R"
  using is_subtype_decides [OF assms] subtype_trans st_refl by (intro exI [of _ "subtype a"]) (auto simp: reflp_def transp_def)

theorem is_subtype_preorder_witness:
  "\<exists>R. (\<forall>i j. is_subtype arena_default i j = Some (R i j)) \<and> reflp R \<and> transp R"
  by (rule is_subtype_preorder [OF arena_default_wf])

text \<open>C12. Join of two types is their least upper bound, in the arena it returns and in every arena that
  grows out of it, unless it has to merge two structs or two functions, or a pointer with an integer
  (\<open>clash\<close>): it is above both arguments and below every type that is above both. Indices handed out
  before keep their types.
\<close>

theorem join_least_upper_bound:
  assumes "arena_wf a" "valid_id a i" "valid_id a j" "\<not> clash a i j"
  shows "\<exists>k a'. join a i j = Some (k, a') \<and> arena_wf a' \<and> arena_ext a a' \<and> valid_id a' k \<and>
    (\<forall>b. arena_ext a' b \<longrightarrow> arena_wf b \<longrightarrow>
      subtype b i k \<and> subtype b j k \<and> (\<forall>m. subtype b i m \<and> subtype b j m \<longrightarrow> subtype b k m))"
  using join_f_lub [of a i j "type_fuel a"] assms unfolding joins_def lub_def join_def
  by (auto simp: valid_id_def type_fuel_def)

definition two_ints :: TypeArena where
  "two_ints = snd (arena_int 64 Unsigned (snd (arena_int 32 Signed arena_default)))"

lemma two_ints_wf: "arena_wf two_ints"
  unfolding two_ints_def
  using arena_ops_interned(1) [OF arena_default_wf] arena_ops_interned(1) by (simp add: interned_def)

lemma two_ints_types: "arena_types two_ints = [TTop, TBottom, TBool, TInt 32 Signed, TInt 64 Unsigned]"
  by code_simp

lemma two_ints_get [simp]: "arena_get two_ints 3 = TInt 32 Signed" "arena_get two_ints 4 = TInt 64 Unsigned"
  by (simp_all add: arena_get_def two_ints_types nth_Cons')

lemma two_ints_valid [simp]: "valid_id two_ints 3" "valid_id two_ints 4"
  by (simp_all add: valid_id_def two_ints_types)

theorem join_least_upper_bound_witness:
  "\<exists>k a'. join two_ints 3 4 = Some (k, a') \<and> arena_wf a' \<and> arena_ext two_ints a' \<and> valid_id a' k \<and>
    (\<forall>b. arena_ext a' b \<longrightarrow> arena_wf b \<longrightarrow>
      subtype b 3 k \<and> subtype b 4 k \<and> (\<forall>m. subtype b 3 m \<and> subtype b 4 m \<longrightarrow> subtype b k m))"
  by (rule join_least_upper_bound [OF two_ints_wf two_ints_valid]) (auto elim: clash.cases)

text \<open>C39. The meet of two integers that are not comparable is not a lower bound: they differ in
  signedness, the result has the narrower width and no signedness, and so it is not below the one of
  them that has one. Every other pair, pointers to such integers apart, has a meet below both.
\<close>

theorem meet_lower_bound_unless_ints:
  assumes "arena_wf a" "valid_id a i" "valid_id a j"
  shows "\<exists>k a'. meet a i j = Some (k, a') \<and>
    (\<not> int_clash a i j \<longrightarrow> subtype a' k i \<and> subtype a' k j) \<and>
    ((\<exists>b1 s1 b2 s2. arena_get a i = TInt b1 s1 \<and> arena_get a j = TInt b2 s2) \<and> \<not> subtype a i j \<and> \<not> subtype a j i \<longrightarrow>
      \<not> (subtype a' k i \<and> subtype a' k j))"
proof (cases "int_clash a i j")
  case True
  obtain k a' where "meet a i j = Some (k, a')" using meet_ok [OF assms] by (auto simp: typed_ok_def)
  then show ?thesis using True meet_int_bound [OF assms] by fastforce
next
  case False
  then show ?thesis using meet_f_lower [OF assms(1-3), of "type_fuel a"] assms(2)
    by (auto simp: meet_def meets_def valid_id_def type_fuel_enough intro: ic_int)
qed

theorem meet_lower_bound_unless_ints_witness:
  "\<exists>k a'. meet two_ints 3 4 = Some (k, a') \<and>
    (\<not> int_clash two_ints 3 4 \<longrightarrow> subtype a' k 3 \<and> subtype a' k 4) \<and>
    ((\<exists>b1 s1 b2 s2. arena_get two_ints 3 = TInt b1 s1 \<and> arena_get two_ints 4 = TInt b2 s2) \<and>
      \<not> subtype two_ints 3 4 \<and> \<not> subtype two_ints 4 3 \<longrightarrow> \<not> (subtype a' k 3 \<and> subtype a' k 4))"
  by (rule meet_lower_bound_unless_ints [OF two_ints_wf two_ints_valid])

end
