(* ===== verification/Types_Cache.thy ===== *)
theory Types_Cache
  imports Types_Queue Types_Join
begin

text \<open>
  What the caches of joins and meets hold for integers: an entry is the type the lattice computes for
  its key, also after any number of further constraints. Caching is therefore not observable on
  integers, and the state in which the solver stops can be read through the lattice alone.
\<close>

section \<open>Entries\<close>

text \<open>The integer a join of two integers is, and the one a meet of two incomparable ones is.\<close>

definition joined :: "TypeArena \<Rightarrow> TypeId \<Rightarrow> TypeId \<Rightarrow> TypeId \<Rightarrow> bool" where
  "joined a x y t \<longleftrightarrow> valid_id a x \<and> valid_id a y \<and> valid_id a t \<and>
     (\<forall>b1 s1 b2 s2. arena_get a x = TInt b1 s1 \<longrightarrow> arena_get a y = TInt b2 s2 \<longrightarrow>
        arena_get a t = TInt (max b1 b2) (merge_signs s1 s2))"

definition met :: "TypeArena \<Rightarrow> TypeId \<Rightarrow> TypeId \<Rightarrow> TypeId \<Rightarrow> bool" where
  "met a x y t \<longleftrightarrow> valid_id a x \<and> valid_id a y \<and> valid_id a t \<and>
     (\<forall>b1 s1 b2 s2. arena_get a x = TInt b1 s1 \<longrightarrow> arena_get a y = TInt b2 s2 \<longrightarrow>
        \<not> subtype a x y \<longrightarrow> \<not> subtype a y x \<longrightarrow> arena_get a t = TInt (min b1 b2) SignUnknown)"

lemma merge_signs_comm: "merge_signs s t = merge_signs t s"
  by (auto simp: merge_signs_def)

lemma joined_comm: "joined a x y t \<longleftrightarrow> joined a y x t"
  unfolding joined_def by (auto simp: merge_signs_comm max.commute)

lemma met_comm: "met a x y t \<longleftrightarrow> met a y x t"
  unfolding met_def by (auto simp: min.commute)

lemma joined_ext: "joined a x y t \<Longrightarrow> arena_ext a a' \<Longrightarrow> joined a' x y t"
  using arena_ext_get [of a a'] valid_id_ext [of a a'] by (simp add: joined_def valid_id_def)

lemma int_subtype:
  "arena_get a x = TInt b1 s1 \<Longrightarrow> arena_get a y = TInt b2 s2 \<Longrightarrow>
     subtype a x y \<longleftrightarrow> b1 \<le> b2 \<and> (s1 = s2 \<or> s2 = SignUnknown)"
  using subtype_below [of a x y] by auto

lemma met_ext:
  assumes "met a x y t" "arena_ext a a'"
  shows "met a' x y t"
proof -
  have e: "arena_get a' z = arena_get a z" if "valid_id a z" for z
    using arena_ext_get [OF assms(2)] that by (simp add: valid_id_def)
  show ?thesis
    using assms(1) valid_id_ext [OF assms(2)] int_subtype [of a x _ _ y] int_subtype [of a' x _ _ y]
      int_subtype [of a y _ _ x] int_subtype [of a' y _ _ x]
    unfolding met_def by (auto simp: e)
qed

lemma join_joined:
  assumes wf: "arena_wf a" and v: "valid_id a x" "valid_id a y" and j: "join a x y = Some (t, a')"
  shows "joined a' x y t"
proof -
  have ok: "arena_ext a a'" "valid_id a' t" using join_ok [OF wf v] j by (auto simp: typed_ok_def)
  have e: "arena_get a' z = arena_get a z" if "valid_id a z" for z
    using arena_ext_get [OF ok(1)] that by (simp add: valid_id_def)
  have "arena_get a' t = TInt (max b1 b2) (merge_signs s1 s2)"
    if i: "arena_get a x = TInt b1 s1" "arena_get a y = TInt b2 s2" for b1 s1 b2 s2
  proof -
    obtain n where n: "type_fuel a = Suc n" by (simp add: type_fuel_def)
    obtain k a1 where k: "arena_int (max b1 b2) (merge_signs s1 s2) a = (k, a1)"
      by (cases "arena_int (max b1 b2) (merge_signs s1 s2) a")
    then have "arena_get a1 k = TInt (max b1 b2) (merge_signs s1 s2)"
      using arena_ops_interned(1) [OF wf, of "max b1 b2" "merge_signs s1 s2"] by (simp add: interned_def)
    then show ?thesis
      using j i k n int_subtype [OF i] int_subtype [OF i(2,1)]
      by (auto simp: join_def is_subtype_decides [OF wf] merge_signs_def max_def split: if_splits bool.splits)
  qed
  then show ?thesis using v ok valid_id_ext [OF ok(1)] by (simp add: joined_def e)
qed

lemma meet_met:
  assumes wf: "arena_wf a" and v: "valid_id a x" "valid_id a y" and m: "meet a x y = Some (t, a')"
  shows "met a' x y t"
proof -
  have ok: "arena_ext a a'" "valid_id a' t" using meet_ok [OF wf v] m by (auto simp: typed_ok_def)
  have "met a x y t \<or> met a' x y t"
    using meet_int_bound [OF wf v] m v ok valid_id_ext [OF ok(1)] arena_ext_get [OF ok(1)] met_ext [of a x y t a']
      int_subtype [of a x _ _ y] int_subtype [of a' x _ _ y] int_subtype [of a y _ _ x] int_subtype [of a' y _ _ x]
    by (auto simp: met_def valid_id_def)
  then show ?thesis using met_ext [OF _ ok(1)] by blast
qed

section \<open>The caches of a state\<close>

definition caches_sound :: "SolverState \<Rightarrow> bool" where
  "caches_sound s \<longleftrightarrow>
     (\<forall>x y t. hm_get (ss_join_cache s) (normalize_pair x y) = Some t \<longrightarrow> joined (ss_arena s) x y t) \<and>
     (\<forall>x y t. hm_get (ss_meet_cache s) (normalize_pair x y) = Some t \<longrightarrow> met (ss_arena s) x y t)"

lemma normalize_pair_eq: "normalize_pair x y = normalize_pair u v \<longleftrightarrow> x = u \<and> y = v \<or> x = v \<and> y = u"
  by (auto simp: normalize_pair_def)

lemma caches_sound_arena:
  assumes "caches_sound s" "arena_ext (ss_arena s) a"
  shows "caches_sound (s\<lparr>ss_arena := a\<rparr>)"
  using assms joined_ext [OF _ assms(2)] met_ext [OF _ assms(2)] by (simp add: caches_sound_def)

lemma join_cached_sound:
  assumes ok: "state_ok s" and cs: "caches_sound s" and v: "valid_id (ss_arena s) x" "valid_id (ss_arena s) y"
    and j: "join_cached x y s = Some (z, t)"
  shows "caches_sound t" "joined (ss_arena t) x y z"
proof -
  have "caches_sound t \<and> joined (ss_arena t) x y z"
  proof (cases "hm_get (ss_join_cache s) (normalize_pair x y)")
    case (Some w)
    then show ?thesis using j cs by (auto simp: join_cached_def caches_sound_def)
  next
    case None
    then obtain a where a: "join (ss_arena s) x y = Some (z, a)"
      "t = s\<lparr>ss_arena := a, ss_join_cache := hm_insert (normalize_pair x y) z (ss_join_cache s)\<rparr>"
      using j by (auto simp: join_cached_def)
    note z = join_joined [OF state_okD(1) [OF ok] v a(1)]
    have "arena_ext (ss_arena s) a" using join_ok [OF state_okD(1) [OF ok] v] a(1) by (simp add: typed_ok_def)
    from caches_sound_arena [OF cs this] show ?thesis
      using z joined_comm [of a x y z] a(2) by (auto simp: caches_sound_def hm_get_insert normalize_pair_eq)
  qed
  then show "caches_sound t" "joined (ss_arena t) x y z" by auto
qed

lemma meet_cached_sound:
  assumes ok: "state_ok s" and cs: "caches_sound s" and v: "valid_id (ss_arena s) x" "valid_id (ss_arena s) y"
    and j: "meet_cached x y s = Some (z, t)"
  shows "caches_sound t" "met (ss_arena t) x y z"
proof -
  have "caches_sound t \<and> met (ss_arena t) x y z"
  proof (cases "hm_get (ss_meet_cache s) (normalize_pair x y)")
    case (Some w)
    then show ?thesis using j cs by (auto simp: meet_cached_def caches_sound_def)
  next
    case None
    then obtain a where a: "meet (ss_arena s) x y = Some (z, a)"
      "t = s\<lparr>ss_arena := a, ss_meet_cache := hm_insert (normalize_pair x y) z (ss_meet_cache s)\<rparr>"
      using j by (auto simp: meet_cached_def)
    note z = meet_met [OF state_okD(1) [OF ok] v a(1)]
    have "arena_ext (ss_arena s) a" using meet_ok [OF state_okD(1) [OF ok] v] a(1) by (simp add: typed_ok_def)
    from caches_sound_arena [OF cs this] show ?thesis
      using z met_comm [of a x y z] a(2) by (auto simp: caches_sound_def hm_get_insert normalize_pair_eq)
  qed
  then show "caches_sound t" "met (ss_arena t) x y z" by auto
qed

section \<open>Constraints keep the caches sound\<close>

lemma caches_sound_core [simp]:
  "caches_sound (s\<lparr>ss_diagnostics := d\<rparr>) = caches_sound s" "caches_sound (s\<lparr>ss_changed := ch\<rparr>) = caches_sound s"
  "caches_sound (set_assignment v ty p s) = caches_sound s" "caches_sound (push_conflict v p s) = caches_sound s"
  by (simp_all add: caches_sound_def set_assignment_def push_conflict_def)

lemma assign_sound:
  assumes "state_ok s" "caches_sound s" "valid_id (ss_arena s) ty" "assign v ty p s = Some (b, t)"
  shows "caches_sound t"
proof (cases "ss_assignments s ! v")
  case None
  then show ?thesis using assms by (auto simp: assign_def split: if_splits)
next
  case (Some e)
  have v: "v < length (ss_assignments s)" using assms(4) by (simp add: assign_def split: if_splits)
  note e = state_okD(4) [OF assms(1) v Some]
  show ?thesis
    using assms(2,4) Some v join_cached_sound(1) [OF assms(1,2) e assms(3)]
    by (auto simp: assign_def split: if_splits option.splits)
qed

lemma assign_list_sound:
  "state_ok s \<Longrightarrow> caches_sound s \<Longrightarrow> (\<And>v ty. (v, ty) \<in> set ps \<Longrightarrow> v < length (ss_assignments s) \<and> valid_id (ss_arena s) ty) \<Longrightarrow>
    assign_list ps p s = Some (b, t) \<Longrightarrow> caches_sound t"
proof (induction ps arbitrary: s b)
  case (Cons q ps)
  obtain v x where q: "q = (v, x)" by (cases q)
  have v: "v < length (ss_assignments s)" "valid_id (ss_arena s) x" using Cons.prems(3) [of v x] q by auto
  obtain c u where c: "assign v x p s = Some (c, u)" "marks_moved {v} s c u" using assign_spec [OF Cons.prems(1) v] by blast
  have ok: "state_ok u" and e: "state_ext s u" using c(2) by (auto simp: marks_moved_def)
  have "w < length (ss_assignments u) \<and> valid_id (ss_arena u) y" if "(w, y) \<in> set ps" for w y
    using Cons.prems(3) [of w y] that valid_id_ext [OF state_extD(1) [OF e]] state_extD(2) [OF e] by simp
  moreover obtain d where "assign_list ps p u = Some (d, t)" using Cons.prems(4) q c by auto
  ultimately show ?case using Cons.IH [OF ok assign_sound [OF Cons.prems(1,2) v(2) c(1)]] by blast
qed simp

lemma field_access_sound:
  assumes ok: "state_ok s" and cs: "caches_sound s" and ty: "valid_id (ss_arena s) x"
    and f: "apply_field_access v off x nm p s = Some (b, t)"
  shows "caches_sound t"
proof -
  have v: "v < length (ss_assignments s)" using f by (auto simp: apply_field_access_def split: if_splits)
  let ?base = "Option.bind (ss_assignments s ! v) (\<lambda>e. struct_behind (ss_arena s) (as_ty e))"
  have "valid_id (ss_arena s) u" if "?base = Some u" for u
    using that struct_behind_valid [OF state_okD(1) [OF ok]] state_okD(4) [OF ok v] by (auto simp: bind_eq_Some_conv)
  then obtain k a where k: "field_ptr (ss_arena s) ?base off x nm = (k, a)" "arena_wf a" "arena_ext (ss_arena s) a" "valid_id a k"
    using field_ptr_spec [OF state_okD(1) [OF ok] _ ty, of ?base off nm] by auto
  let ?s = "s\<lparr>ss_arena := a\<rparr>"
  have s: "caches_sound ?s" "state_ok ?s" using caches_sound_arena [OF cs k(3)] state_ok_arena(1) [OF ok k(2,3)] by auto
  have "t = s \<or> t = ?s \<or> t = set_assignment v k p ?s \<or> assign v k p ?s = Some (b, t)"
    using f k(1) by (auto simp: apply_field_access_eq [OF v] Let_def split: if_splits option.splits)
  then show ?thesis using cs s assign_sound [OF s(2,1), of k v p b t] k(4) by auto
qed

lemma apply_constraint_sound:
  assumes ok: "state_ok s" and c: "compact_ok (ss_arena s) (length (ss_assignments s)) c" and cs: "caches_sound s"
    and a: "apply_constraint c s = Some (b, t)"
  shows "caches_sound t"
proof (cases c)
  case (KSetType v ty src)
  then show ?thesis using assign_sound [OF ok cs] c a by (auto simp: compact_ok_def)
next
  case (KSubtype v ty src)
  have v: "v < length (ss_assignments s)" "valid_id (ss_arena s) ty" using c KSubtype by (auto simp: compact_ok_def)
  show ?thesis
  proof (cases "ss_assignments s ! v")
    case None
    then show ?thesis using assign_sound [OF ok cs v(2)] a KSubtype v(1) by auto
  next
    case (Some e)
    note e = state_okD(4) [OF ok v(1) Some]
    obtain z u where z: "meet_cached (as_ty e) ty s = Some (z, u)" "state_ok u" "valid_id (ss_arena u) z"
      using meet_cached_spec [OF ok e v(2)] by blast
    then show ?thesis
      using assign_sound [OF z(2) meet_cached_sound(1) [OF ok cs e v(2) z(1)] z(3)] a KSubtype Some v(1) by auto
  qed
next
  case (KHasCapability v ty src)
  obtain k ar where k: "arena_ptr ty (ss_arena s) = (k, ar)" by (cases "arena_ptr ty (ss_arena s)")
  have ty: "valid_id (ss_arena s) ty" using c KHasCapability by (auto simp: compact_ok_def)
  have i: "arena_wf ar" "arena_ext (ss_arena s) ar" "valid_id ar k"
    using arena_ops_interned(4) [OF state_okD(1) [OF ok] ty] k by (auto simp: interned_def)
  then show ?thesis
    using assign_sound [OF state_ok_arena(1) [OF ok i(1,2)] caches_sound_arena [OF cs i(2)]] a k KHasCapability by auto
next
  case (KFieldAccess v off ty nm src)
  then show ?thesis using field_access_sound [OF ok cs] c a by (auto simp: compact_ok_def)
next
  case (KCallSig f args params ret src)
  have "v < length (ss_assignments s) \<and> valid_id (ss_arena s) ty" if "(v, ty) \<in> set (call_pairs args params ret)" for v ty
    using c that KCallSig by (auto simp: compact_ok_def call_pairs_def dest: set_zip_leftD set_zip_rightD split: option.splits)
  then show ?thesis using assign_list_sound [OF ok cs, of "call_pairs args params ret"] a KCallSig
    by (auto simp: call_pairs_def)
qed

section \<open>Runs keep the caches sound\<close>

lemma process_one_sound:
  assumes q: "queue_ok ks n q" "sq_queue q = i # rest" and cs: "caches_sound (sq_state q)"
    and p: "process_one ks (build_adjacency n ks) i (q\<lparr>sq_queue := rest\<rparr>) = Some q'"
  shows "caches_sound (sq_state q')"
proof -
  let ?s = "(count_pop (sq_state q))\<lparr>ss_changed := []\<rparr>"
  have so: "solver_ok ks n (sq_state q)" and i: "i < length ks" using q by (auto simp: queue_ok_def flags_ok_def)
  have s: "state_ok ?s" "compact_ok (ss_arena ?s) (length (ss_assignments ?s)) (ks ! i)" "caches_sound ?s"
    using so i cs by (auto simp: solver_ok_def state_ok_def count_pop_def)
  obtain b t where t: "apply_constraint (ks ! i) ?s = Some (b, t)"
    "q' = push_dependents (build_adjacency n ks) (q\<lparr>sq_queue := rest, sq_in_queue := (sq_in_queue q)[i := False], sq_state := t\<rparr>)"
    using p by (auto simp: process_one_def split: option.splits)
  have dep: "caches_sound (sq_state (push_dep r d)) = caches_sound (sq_state r)" for r d
    by (simp add: push_dep_def count_push_def)
  have deps: "caches_sound (sq_state (foldl push_dep r ds)) = caches_sound (sq_state r)" for r ds
    by (induction ds arbitrary: r) (simp_all add: dep)
  show ?thesis using apply_constraint_sound [OF s t(1)] t(2) by (simp add: push_dependents_def foldl_foldl deps)
qed

lemma solve_wave_sound:
  "queue_ok ks n q \<Longrightarrow> k \<le> length (sq_queue q) \<Longrightarrow> caches_sound (sq_state q) \<Longrightarrow>
    solve_wave ks (build_adjacency n ks) k q = Some q' \<Longrightarrow> caches_sound (sq_state q')"
proof (induction k arbitrary: q)
  case (Suc k)
  then obtain i rest where i: "sq_queue q = i # rest" by (cases "sq_queue q") auto
  obtain q1 xs where q1: "process_one ks (build_adjacency n ks) i (q\<lparr>sq_queue := rest\<rparr>) = Some q1" "queue_ok ks n q1"
      "sq_queue q1 = rest @ xs" using process_one_spec [OF Suc.prems(1) i] by blast
  have "k \<le> length (sq_queue q1)" using q1(3) i Suc.prems(2) by simp
  then show ?case
    using Suc.IH [OF q1(2) _ process_one_sound [OF Suc.prems(1) i Suc.prems(3) q1(1)]] Suc.prems(4) i q1(1) by simp
qed simp

lemma solve_waves_sound:
  "queue_ok ks n q \<Longrightarrow> caches_sound (sq_state q) \<Longrightarrow> solve_waves ks (build_adjacency n ks) k q = Some q' \<Longrightarrow>
    caches_sound (sq_state q')"
proof (induction k arbitrary: q)
  case (Suc k)
  show ?case
  proof (cases "sq_queue q = []")
    case True
    then show ?thesis using Suc.prems by simp
  next
    case False
    let ?q = "q\<lparr>sq_state := count_iteration (sq_state q)\<rparr>"
    have qok: "queue_ok ks n ?q" by (rule queue_ok_core [OF Suc.prems(1) count_iteration_core])
    obtain q1 where q1: "solve_wave ks (build_adjacency n ks) (length (sq_queue q)) ?q = Some q1" "queue_ok ks n q1"
      using solve_wave_spec [OF qok, of "length (sq_queue q)"] by auto
    have "caches_sound (sq_state ?q)" using Suc.prems(2) by (simp add: count_iteration_def)
    then have "caches_sound (sq_state q1)" using solve_wave_sound [OF qok _ _ q1(1)] by simp
    then show ?thesis using Suc.IH [OF q1(2)] Suc.prems(3) False q1(1) by simp
  qed
qed simp

end
