(* ===== verification/Types_Dsu.thy ===== *)
theory Types_Dsu
  imports Types_Solver
begin

text \<open>
  The union-find of the solver. Its vectors stand for a forest; \<open>find\<close> returns the root of a tree and,
  compressing paths, changes no root; \<open>union\<close> makes two trees one. Ranks only choose which root stays,
  so that their saturation does no harm.
\<close>

section \<open>The forest\<close>

definition dsu_edges :: "VarDsu \<Rightarrow> (VarId \<times> VarId) set" where
  "dsu_edges d = {(v, dsu_parent d ! v) | v. v < length (dsu_parent d) \<and> dsu_parent d ! v \<noteq> v}"

definition dsu_ok :: "VarDsu \<Rightarrow> bool" where
  "dsu_ok d \<longleftrightarrow> length (dsu_rank d) = length (dsu_parent d) \<and>
     (\<forall>v < length (dsu_parent d). dsu_parent d ! v < length (dsu_parent d)) \<and> acyclic (dsu_edges d)"

definition dsu_root :: "VarDsu \<Rightarrow> VarId \<Rightarrow> VarId \<Rightarrow> bool" where
  "dsu_root d v r \<longleftrightarrow> (v, r) \<in> (dsu_edges d)\<^sup>* \<and> r < length (dsu_parent d) \<and> dsu_parent d ! r = r"

lemma dsu_edges_iff: "(v, w) \<in> dsu_edges d \<longleftrightarrow> v < length (dsu_parent d) \<and> w = dsu_parent d ! v \<and> w \<noteq> v"
  by (auto simp: dsu_edges_def)

lemma dsu_ok_parent: "dsu_ok d \<Longrightarrow> v < length (dsu_parent d) \<Longrightarrow> dsu_parent d ! v < length (dsu_parent d)"
  by (simp add: dsu_ok_def)

lemma finite_dsu_edges: "finite (dsu_edges d)"
proof -
  have "dsu_edges d = (\<lambda>v. (v, dsu_parent d ! v)) ` {v. v < length (dsu_parent d) \<and> dsu_parent d ! v \<noteq> v}"
    by (auto simp: dsu_edges_def)
  then show ?thesis by simp
qed

lemma dsu_root_self: "v < length (dsu_parent d) \<Longrightarrow> dsu_parent d ! v = v \<Longrightarrow> dsu_root d v v"
  by (simp add: dsu_root_def)

lemma dsu_root_stuck: "dsu_parent d ! v = v \<Longrightarrow> (v, r) \<in> (dsu_edges d)\<^sup>* \<Longrightarrow> r = v"
  by (auto elim: converse_rtranclE simp: dsu_edges_iff)

lemma dsu_root_step: "v < length (dsu_parent d) \<Longrightarrow> dsu_parent d ! v \<noteq> v \<Longrightarrow> dsu_root d v r \<longleftrightarrow> dsu_root d (dsu_parent d ! v) r"
  unfolding dsu_root_def
  by (auto simp: dsu_edges_iff elim: converse_rtranclE intro: converse_rtrancl_into_rtrancl)

lemma dsu_root_unique:
  assumes "dsu_root d v r" "dsu_root d v r'"
  shows "r = r'"
proof -
  have "(v, r) \<in> (dsu_edges d)\<^sup>*" using assms(1) by (simp add: dsu_root_def)
  then show ?thesis using assms
  proof (induction rule: converse_rtrancl_induct)
    case base
    then show ?case using dsu_root_stuck [of d r r'] by (simp add: dsu_root_def)
  next
    case (step v w)
    then show ?case using dsu_root_step [of v d] by (auto simp: dsu_edges_iff)
  qed
qed

lemma dsu_root_exists:
  assumes "dsu_ok d" "v < length (dsu_parent d)"
  shows "\<exists>r. dsu_root d v r"
proof -
  have "wf ((dsu_edges d)\<inverse>)" using assms(1) finite_dsu_edges by (simp add: dsu_ok_def finite_acyclic_wf_converse)
  then show ?thesis using assms(2)
  proof (induction v rule: wf_induct_rule)
    case (less v)
    show ?case
    proof (cases "dsu_parent d ! v = v")
      case True
      then show ?thesis using less.prems dsu_root_self by blast
    next
      case False
      then have "\<exists>r. dsu_root d (dsu_parent d ! v) r"
        using less.IH [of "dsu_parent d ! v"] less.prems dsu_ok_parent [OF assms(1)] by (simp add: dsu_edges_iff)
      then show ?thesis using dsu_root_step less.prems False by blast
    qed
  qed
qed

section \<open>Find\<close>

text \<open>Two forests with the same roots.\<close>

definition same_roots :: "VarDsu \<Rightarrow> VarDsu \<Rightarrow> bool" where
  "same_roots d d' \<longleftrightarrow> dsu_ok d' \<and> length (dsu_parent d') = length (dsu_parent d) \<and> (\<forall>u x. dsu_root d' u x \<longleftrightarrow> dsu_root d u x)"

lemma same_roots_refl: "dsu_ok d \<Longrightarrow> same_roots d d"
  by (simp add: same_roots_def)

lemma same_roots_trans: "same_roots d e \<Longrightarrow> same_roots e f \<Longrightarrow> same_roots d f"
  by (simp add: same_roots_def)

lemma compress_same_roots:
  assumes ok: "dsu_ok d" and r: "dsu_root d v r" and v: "v < length (dsu_parent d)" "v \<noteq> r"
  shows "same_roots d (d\<lparr>dsu_parent := (dsu_parent d)[v := r]\<rparr>)"
proof -
  let ?d = "d\<lparr>dsu_parent := (dsu_parent d)[v := r]\<rparr>"
  have rr: "r < length (dsu_parent d)" "(v, r) \<in> (dsu_edges d)\<^sup>+"
    using r v(2) by (auto simp: dsu_root_def rtrancl_eq_or_trancl)
  have sub: "dsu_edges ?d \<subseteq> (dsu_edges d)\<^sup>+"
  proof
    fix p assume p: "p \<in> dsu_edges ?d"
    obtain x y where xy: "p = (x, y)" by (cases p)
    show "p \<in> (dsu_edges d)\<^sup>+"
    proof (cases "x = v")
      case True
      then show ?thesis using p xy rr v by (simp add: dsu_edges_iff)
    next
      case False
      then have "(x, y) \<in> dsu_edges d" using p xy by (auto simp: dsu_edges_iff)
      then show ?thesis unfolding xy by (rule r_into_trancl)
    qed
  qed
  have "acyclic ((dsu_edges d)\<^sup>+)" using ok by (simp add: dsu_ok_def acyclic_def)
  then have "acyclic (dsu_edges ?d)" using sub by (rule acyclic_subset)
  then have ok': "dsu_ok ?d" using ok rr(1) v(1) by (auto simp: dsu_ok_def nth_list_update)
  have star: "(dsu_edges ?d)\<^sup>* \<subseteq> (dsu_edges d)\<^sup>*"
    using rtrancl_mono [OF sub] by (simp add: trancl_rtrancl_absorb)
  have down: "dsu_root d u x" if "dsu_root ?d u x" for u x
    using that star v by (auto simp: dsu_root_def nth_list_update split: if_splits)
  have "dsu_root ?d u x" if x: "dsu_root d u x" for u x
  proof -
    have "u < length (dsu_parent d)" using x by (auto simp: dsu_root_def dsu_edges_iff elim: converse_rtranclE)
    then obtain x' where "dsu_root ?d u x'" using dsu_root_exists [OF ok', of u] by auto
    then show ?thesis using down [of u x'] dsu_root_unique [OF x] by simp
  qed
  then show ?thesis using ok' down by (auto simp: same_roots_def)
qed

definition dsu_above :: "VarDsu \<Rightarrow> VarId \<Rightarrow> VarId set" where
  "dsu_above d v = {u. (v, u) \<in> (dsu_edges d)\<^sup>*}"

lemma dsu_above_bounded:
  assumes "dsu_ok d" "v < length (dsu_parent d)"
  shows "dsu_above d v \<subseteq> {..<length (dsu_parent d)}"
proof
  fix u assume "u \<in> dsu_above d v"
  then have "(v, u) \<in> (dsu_edges d)\<^sup>*" by (simp add: dsu_above_def)
  then show "u \<in> {..<length (dsu_parent d)}"
    using assms by (induction rule: rtrancl_induct) (auto simp: dsu_edges_iff dsu_ok_def)
qed

lemma dsu_above_parent:
  assumes ok: "dsu_ok d" and v: "v < length (dsu_parent d)" "dsu_parent d ! v \<noteq> v"
  shows "card (dsu_above d (dsu_parent d ! v)) < card (dsu_above d v)"
proof (rule psubset_card_mono)
  show "finite (dsu_above d v)" by (rule finite_subset [OF dsu_above_bounded [OF ok v(1)]]) simp
  have e: "(v, dsu_parent d ! v) \<in> dsu_edges d" using v by (simp add: dsu_edges_iff)
  then have "dsu_above d (dsu_parent d ! v) \<subseteq> dsu_above d v"
    by (auto simp: dsu_above_def intro: converse_rtrancl_into_rtrancl)
  moreover have "v \<notin> dsu_above d (dsu_parent d ! v)"
  proof
    assume "v \<in> dsu_above d (dsu_parent d ! v)"
    then have "(v, v) \<in> (dsu_edges d)\<^sup>+" using e by (auto simp: dsu_above_def intro: rtrancl_into_trancl2)
    then show False using ok by (auto simp: dsu_ok_def acyclic_def)
  qed
  moreover have "v \<in> dsu_above d v" by (simp add: dsu_above_def)
  ultimately show "dsu_above d (dsu_parent d ! v) \<subset> dsu_above d v" by blast
qed

lemma dsu_find_f_spec:
  assumes ok: "dsu_ok d" and "v < length (dsu_parent d)" "card (dsu_above d v) \<le> fuel"
  shows "\<exists>r d'. dsu_find_f fuel d v = Some (r, d') \<and> dsu_root d v r \<and> same_roots d d'"
  using assms(2,3)
proof (induction fuel arbitrary: v)
  case 0
  have "finite (dsu_above d v)" "v \<in> dsu_above d v"
    using finite_subset [OF dsu_above_bounded [OF ok 0(1)]] by (auto simp: dsu_above_def)
  then have "card (dsu_above d v) \<noteq> 0" by auto
  then show ?case using 0(2) by simp
next
  case (Suc fuel)
  show ?case
  proof (cases "dsu_parent d ! v = v")
    case True
    then show ?thesis using Suc.prems ok dsu_root_self same_roots_refl by (simp add: Let_def)
  next
    case False
    have "card (dsu_above d (dsu_parent d ! v)) \<le> fuel" using dsu_above_parent [OF ok Suc.prems(1) False] Suc.prems(2) by simp
    then obtain r d1 where r: "dsu_find_f fuel d (dsu_parent d ! v) = Some (r, d1)" "dsu_root d (dsu_parent d ! v) r" "same_roots d d1"
      using Suc.IH [of "dsu_parent d ! v"] dsu_ok_parent [OF ok Suc.prems(1)] by blast
    have rv: "dsu_root d v r" using r(2) dsu_root_step [OF Suc.prems(1) False] by simp
    have "v \<noteq> r" using rv False by (auto simp: dsu_root_def)
    then have "same_roots d1 (d1\<lparr>dsu_parent := (dsu_parent d1)[v := r]\<rparr>)"
      using compress_same_roots [of d1 v r] r(3) rv Suc.prems(1) by (simp add: same_roots_def)
    then show ?thesis using r rv Suc.prems(1) False same_roots_trans [OF r(3)] by (simp add: Let_def)
  qed
qed

lemma dsu_find_spec:
  assumes "dsu_ok d" "v < length (dsu_parent d)"
  shows "\<exists>r d'. dsu_find d v = Some (r, d') \<and> dsu_root d v r \<and> same_roots d d'"
  unfolding dsu_find_def
proof (rule dsu_find_f_spec [OF assms])
  show "card (dsu_above d v) \<le> length (dsu_parent d)"
    using card_mono [OF _ dsu_above_bounded [OF assms]] by simp
qed

section \<open>Union\<close>

definition same_class :: "VarDsu \<Rightarrow> VarId \<Rightarrow> VarId \<Rightarrow> bool" where
  "same_class d u w \<longleftrightarrow> (\<exists>r. dsu_root d u r \<and> dsu_root d w r)"

lemma same_class_roots: "same_roots d d' \<Longrightarrow> same_class d' u w \<longleftrightarrow> same_class d u w"
  by (simp add: same_roots_def same_class_def)

lemma dsu_root_lt: "dsu_root d u r \<Longrightarrow> u < length (dsu_parent d)"
  by (auto simp: dsu_root_def dsu_edges_iff elim: converse_rtranclE)

lemma dsu_root_root: "dsu_root d u r \<Longrightarrow> dsu_root d r r"
  by (simp add: dsu_root_def)

lemma same_class_iff: "dsu_root d u x \<Longrightarrow> dsu_root d w y \<Longrightarrow> same_class d u w \<longleftrightarrow> x = y"
  unfolding same_class_def by (blast dest: dsu_root_unique)

text \<open>Hanging one root below another.\<close>

lemma link_roots:
  assumes ok: "dsu_ok d" and ra: "dsu_root d ra ra" and rb: "dsu_root d rb rb" and ne: "ra \<noteq> rb"
  defines "d' \<equiv> d\<lparr>dsu_parent := (dsu_parent d)[rb := ra]\<rparr>"
  shows "dsu_ok d'" and "dsu_root d u y \<Longrightarrow> dsu_root d' u (if y = rb then ra else y)"
proof -
  have r: "ra < length (dsu_parent d)" "dsu_parent d ! ra = ra" "rb < length (dsu_parent d)" "dsu_parent d ! rb = rb"
    using ra rb by (auto simp: dsu_root_def)
  have e: "dsu_edges d' = insert (rb, ra) (dsu_edges d)"
    using r ne by (auto simp: d'_def dsu_edges_iff nth_list_update split: if_splits)
  have "(ra, rb) \<notin> (dsu_edges d)\<^sup>*" using dsu_root_stuck [OF r(2)] ne by blast
  then have "acyclic (dsu_edges d')" using ok by (simp add: e dsu_ok_def)
  then show ok': "dsu_ok d'" using ok r by (auto simp: dsu_ok_def d'_def nth_list_update)
  assume y: "dsu_root d u y"
  have star: "(dsu_edges d)\<^sup>* \<subseteq> (dsu_edges d')\<^sup>*" by (rule rtrancl_mono) (auto simp: e)
  show "dsu_root d' u (if y = rb then ra else y)"
  proof (cases "y = rb")
    case True
    then have "(u, ra) \<in> (dsu_edges d')\<^sup>*" using y star e by (auto simp: dsu_root_def intro: rtrancl_into_rtrancl)
    then show ?thesis using True r ne by (simp add: dsu_root_def d'_def)
  next
    case False
    then show ?thesis using y star by (auto simp: dsu_root_def d'_def)
  qed
qed

lemma link_classes:
  assumes ok: "dsu_ok d" and ra: "dsu_root d ra ra" and rb: "dsu_root d rb rb" and ne: "ra \<noteq> rb"
    and u: "u < length (dsu_parent d)" and w: "w < length (dsu_parent d)"
  shows "same_class (d\<lparr>dsu_parent := (dsu_parent d)[rb := ra]\<rparr>) u w \<longleftrightarrow>
    same_class d u w \<or> same_class d u ra \<and> same_class d w rb \<or> same_class d u rb \<and> same_class d w ra"
proof -
  obtain x y where xy: "dsu_root d u x" "dsu_root d w y" using dsu_root_exists [OF ok] u w by blast
  let ?d = "d\<lparr>dsu_parent := (dsu_parent d)[rb := ra]\<rparr>"
  have "dsu_root ?d u (if x = rb then ra else x)" "dsu_root ?d w (if y = rb then ra else y)"
    using link_roots(2) [OF ok ra rb ne] xy by auto
  then have "same_class ?d u w \<longleftrightarrow> (if x = rb then ra else x) = (if y = rb then ra else y)"
    by (rule same_class_iff)
  moreover have "same_class d u w \<longleftrightarrow> x = y" "same_class d u ra \<longleftrightarrow> x = ra" "same_class d w ra \<longleftrightarrow> y = ra"
    "same_class d u rb \<longleftrightarrow> x = rb" "same_class d w rb \<longleftrightarrow> y = rb"
    using same_class_iff xy ra rb by blast+
  ultimately show ?thesis using ne by auto
qed

lemma dsu_union_spec:
  assumes ok: "dsu_ok d" and a: "a < length (dsu_parent d)" and b: "b < length (dsu_parent d)"
  shows "\<exists>d'. dsu_union d a b = Some d' \<and> dsu_ok d' \<and> length (dsu_parent d') = length (dsu_parent d) \<and>
    (\<forall>u < length (dsu_parent d). \<forall>w < length (dsu_parent d). same_class d' u w \<longleftrightarrow>
      same_class d u w \<or> same_class d u a \<and> same_class d w b \<or> same_class d u b \<and> same_class d w a)"
proof -
  obtain ra d1 where f1: "dsu_find d a = Some (ra, d1)" "dsu_root d a ra" "same_roots d d1"
    using dsu_find_spec [OF ok a] by blast
  have ok1: "dsu_ok d1" "length (dsu_parent d1) = length (dsu_parent d)" using f1(3) by (auto simp: same_roots_def)
  obtain rb d2 where f2: "dsu_find d1 b = Some (rb, d2)" "dsu_root d1 b rb" "same_roots d1 d2"
    using dsu_find_spec [OF ok1(1), of b] b ok1(2) by auto
  have s: "same_roots d d2" by (rule same_roots_trans [OF f1(3) f2(3)])
  have ok2: "dsu_ok d2" "length (dsu_parent d2) = length (dsu_parent d)" "length (dsu_rank d2) = length (dsu_parent d)"
    using s by (auto simp: same_roots_def dsu_ok_def)
  have roots: "dsu_root d2 a ra" "dsu_root d2 b rb" "dsu_root d2 ra ra" "dsu_root d2 rb rb"
    using f1(2) f2(2) s f2(3) dsu_root_root [of d2] unfolding same_roots_def by blast+
  have cls: "same_class d u w \<longleftrightarrow> same_class d2 u w" for u w using same_class_roots [OF s] by simp
  have ca: "same_class d2 u a \<longleftrightarrow> same_class d2 u ra" "same_class d2 u b \<longleftrightarrow> same_class d2 u rb" for u
    unfolding same_class_def using roots by (blast dest: dsu_root_unique)+
  show ?thesis
  proof (cases "ra = rb")
    case True
    have "same_class d2 u w" if "same_class d2 u ra" "same_class d2 w ra" for u w
      using that roots(3) unfolding same_class_def by (blast dest: dsu_root_unique)
    then show ?thesis using f1 f2 True ok2 by (auto simp: dsu_union_def cls ca)
  next
    case False
    let ?p = "if dsu_rank d2 ! ra < dsu_rank d2 ! rb then (rb, ra) else (ra, rb)"
    obtain x y where p: "?p = (x, y)" by (cases ?p)
    let ?d3 = "d2\<lparr>dsu_parent := (dsu_parent d2)[y := x]\<rparr>"
    let ?d4 = "if dsu_rank ?d3 ! x = dsu_rank ?d3 ! y then ?d3\<lparr>dsu_rank := (dsu_rank ?d3)[x := u16_saturating_inc (dsu_rank ?d3 ! x)]\<rparr> else ?d3"
    have u: "dsu_union d a b = Some ?d4" using f1(1) f2(1) False p by (simp add: dsu_union_def Let_def)
    have xy: "dsu_root d2 x x" "dsu_root d2 y y" "x \<noteq> y" "{x, y} = {ra, rb}" using p roots False by (auto split: if_splits)
    have ok3: "dsu_ok ?d3" by (rule link_roots(1) [OF ok2(1) xy(1-3)])
    have "dsu_edges ?d4 = dsu_edges ?d3" by (simp add: dsu_edges_def)
    then have 4: "dsu_ok ?d4" "same_class ?d4 v w \<longleftrightarrow> same_class ?d3 v w" for v w
      using ok3 by (auto simp: dsu_ok_def same_class_def dsu_root_def)
    have "same_class ?d4 v w \<longleftrightarrow> same_class d2 v w \<or> same_class d2 v ra \<and> same_class d2 w rb \<or> same_class d2 v rb \<and> same_class d2 w ra"
      if "v < length (dsu_parent d)" "w < length (dsu_parent d)" for v w
      using link_classes [OF ok2(1) xy(1-3)] that ok2(2) xy(4) unfolding 4(2) by (auto simp: doubleton_eq_iff)
    then show ?thesis using u 4(1) ok2(2) by (simp add: cls ca)
  qed
qed

end
