(* ===== verification/Types_Rewrite.thy ===== *)
theory Types_Rewrite
  imports Types_Dsu Types_Arena_Props
begin

text \<open>
  From constraints over variables to constraints over representatives: variables are numbered in the
  order of their first occurrence, the classes of the union-find are the classes of the equality
  constraints, and every other constraint comes out with each variable replaced by the representative
  of its class.
\<close>

section \<open>Numbering\<close>

definition vi_ok :: "VarInterner \<Rightarrow> bool" where
  "vi_ok vi \<longleftrightarrow> (\<forall>v i. hm_get (vi_ids vi) v = Some i \<longleftrightarrow> i < length (vi_vars vi) \<and> vi_vars vi ! i = v)"

definition vi_ext :: "VarInterner \<Rightarrow> VarInterner \<Rightarrow> bool" where
  "vi_ext vi vi' \<longleftrightarrow> (\<exists>vs. vi_vars vi' = vi_vars vi @ vs)"

lemma vi_empty_ok: "vi_ok vi_empty"
  by (simp add: vi_ok_def vi_empty_def hm_get_def)

lemma vi_ok_get: "vi_ok vi \<Longrightarrow> i < length (vi_vars vi) \<Longrightarrow> hm_get (vi_ids vi) (vi_vars vi ! i) = Some i"
  by (simp add: vi_ok_def)

lemma vi_ext_refl [simp]: "vi_ext vi vi"
  by (simp add: vi_ext_def)

lemma vi_ext_trans: "vi_ext a b \<Longrightarrow> vi_ext b c \<Longrightarrow> vi_ext a c"
  by (auto simp: vi_ext_def)

lemma vi_intern_ext: "vi_ext vi (snd (vi_intern v vi))"
  by (auto simp: vi_intern_def vi_ext_def Let_def split: option.splits)

lemma vi_intern_ok:
  assumes "vi_ok vi"
  shows "vi_ok (snd (vi_intern v vi)) \<and> fst (vi_intern v vi) < length (vi_vars (snd (vi_intern v vi))) \<and>
    vi_vars (snd (vi_intern v vi)) ! fst (vi_intern v vi) = v"
proof (cases "hm_get (vi_ids vi) v")
  case None
  then have "\<forall>i < length (vi_vars vi). vi_vars vi ! i \<noteq> v" using assms unfolding vi_ok_def by (metis option.distinct(1))
  then show ?thesis
    using assms None by (auto simp: vi_intern_def vi_ok_def hm_get_insert nth_append less_Suc_eq Let_def)
next
  case (Some i)
  then have "vi_intern v vi = (i, vi)" by (simp add: vi_intern_def)
  then show ?thesis using assms Some by (simp add: vi_ok_def)
qed

interpretation vars: interner vi_ok "\<lambda>vi. length (vi_vars vi)" "\<lambda>vi i. vi_vars vi ! i" vi_intern
proof
  fix vi :: VarInterner and v :: SSAVar and i j :: nat
  assume ok: "vi_ok vi"
  show "vi_ok (snd (vi_intern v vi))" "fst (vi_intern v vi) < length (vi_vars (snd (vi_intern v vi)))"
    "vi_vars (snd (vi_intern v vi)) ! fst (vi_intern v vi) = v"
    using vi_intern_ok [OF ok] by auto
  obtain vs where vs: "vi_vars (snd (vi_intern v vi)) = vi_vars vi @ vs" using vi_intern_ext by (auto simp: vi_ext_def)
  then show "length (vi_vars vi) \<le> length (vi_vars (snd (vi_intern v vi)))" by simp
  assume i: "i < length (vi_vars vi)"
  then show "vi_vars (snd (vi_intern v vi)) ! i = vi_vars vi ! i" by (simp add: vs nth_append)
  assume j: "j < length (vi_vars vi)" and eq: "vi_vars vi ! i = vi_vars vi ! j"
  have "Some i = Some j" using vi_ok_get [OF ok i] vi_ok_get [OF ok j] unfolding eq by (rule trans [OF sym])
  then show "i = j" by simp
qed

text \<open>The number of a variable, once it has one; later variables do not change it.\<close>

definition vi_num :: "VarInterner \<Rightarrow> SSAVar \<Rightarrow> VarId" where
  "vi_num vi v = (case hm_get (vi_ids vi) v of Some i \<Rightarrow> i | None \<Rightarrow> 0)"

lemma vi_num_known:
  assumes "vi_ok vi" "v \<in> set (vi_vars vi)"
  shows "vi_num vi v < length (vi_vars vi)" "vi_vars vi ! vi_num vi v = v"
proof -
  obtain i where "i < length (vi_vars vi)" "vi_vars vi ! i = v" using assms(2) by (auto simp: in_set_conv_nth)
  moreover from this have "hm_get (vi_ids vi) v = Some i" using vi_ok_get [OF assms(1), of i] by simp
  ultimately show "vi_num vi v < length (vi_vars vi)" "vi_vars vi ! vi_num vi v = v" by (auto simp: vi_num_def)
qed

lemma vi_num_ext:
  assumes "vi_ok vi" "vi_ok vi'" "vi_ext vi vi'" "v \<in> set (vi_vars vi)"
  shows "vi_num vi' v = vi_num vi v"
proof -
  obtain i where i: "i < length (vi_vars vi)" "vi_vars vi ! i = v" using assms(4) by (auto simp: in_set_conv_nth)
  moreover obtain vs where "vi_vars vi' = vi_vars vi @ vs" using assms(3) by (auto simp: vi_ext_def)
  ultimately have "hm_get (vi_ids vi) v = Some i" "hm_get (vi_ids vi') v = Some i"
    using vi_ok_get [OF assms(1), of i] vi_ok_get [OF assms(2), of i] by (simp_all add: nth_append)
  then show ?thesis by (simp add: vi_num_def)
qed

lemma vi_num_inj: "vi_ok vi \<Longrightarrow> v \<in> set (vi_vars vi) \<Longrightarrow> w \<in> set (vi_vars vi) \<Longrightarrow> vi_num vi v = vi_num vi w \<longleftrightarrow> v = w"
  by (metis vi_num_known(2))

text \<open>One step of numbering, as the rest of the proofs use it.\<close>

definition numbered :: "VarInterner \<Rightarrow> SSAVar set \<Rightarrow> VarInterner \<Rightarrow> bool" where
  "numbered vi vs vi' \<longleftrightarrow> vi_ok vi' \<and> vi_ext vi vi' \<and> set (vi_vars vi') = set (vi_vars vi) \<union> vs"

lemma numbered_trans: "numbered a vs b \<Longrightarrow> numbered b ws c \<Longrightarrow> numbered a (vs \<union> ws) c"
  using vi_ext_trans [of a b c] by (simp add: numbered_def Un_assoc)

lemma numbered_num: "vi_ok a \<Longrightarrow> numbered a vs b \<Longrightarrow> v \<in> set (vi_vars a) \<Longrightarrow> vi_num b v = vi_num a v"
  using vi_num_ext [of a b v] by (simp add: numbered_def)

lemma vi_intern_numbered:
  assumes "vi_ok vi"
  shows "numbered vi {v} (snd (vi_intern v vi))" "fst (vi_intern v vi) = vi_num (snd (vi_intern v vi)) v"
proof -
  note ok = vi_intern_ok [OF assms, of v]
  have "set (vi_vars (snd (vi_intern v vi))) = set (vi_vars vi) \<union> {v}"
  proof (cases "hm_get (vi_ids vi) v")
    case (Some i)
    then have "vi_intern v vi = (i, vi)" by (simp add: vi_intern_def)
    then show ?thesis using ok by (auto intro: nth_mem)
  qed (simp add: vi_intern_def Let_def)
  then show n: "numbered vi {v} (snd (vi_intern v vi))" using ok vi_intern_ext by (simp add: numbered_def)
  then show "fst (vi_intern v vi) = vi_num (snd (vi_intern v vi)) v"
    using ok vi_ok_get [of "snd (vi_intern v vi)" "fst (vi_intern v vi)"] by (simp add: vi_num_def)
qed

lemma vi_intern_list_numbered:
  "vi_ok vi \<Longrightarrow> vi_intern_list vs vi = (ids, vi') \<Longrightarrow> numbered vi (set vs) vi' \<and> ids = map (vi_num vi') vs"
proof (induction vs arbitrary: vi ids vi')
  case (Cons v vs)
  obtain i vi1 where i: "vi_intern v vi = (i, vi1)" by (cases "vi_intern v vi")
  obtain js vi2 where js: "vi_intern_list vs vi1 = (js, vi2)" by (cases "vi_intern_list vs vi1")
  have r: "ids = i # js" "vi' = vi2" using Cons.prems i js by auto
  have 1: "numbered vi {v} vi1" "i = vi_num vi1 v" using vi_intern_numbered [OF Cons.prems(1), of v] i by auto
  have ok1: "vi_ok vi1" using 1 by (simp add: numbered_def)
  have 2: "numbered vi1 (set vs) vi2" "js = map (vi_num vi2) vs" using Cons.IH [OF ok1 js] by auto
  have "vi_num vi2 v = vi_num vi1 v" using numbered_num [OF ok1 2(1)] 1 by (simp add: numbered_def)
  then show ?case using r 1 2 numbered_trans [OF 1(1) 2(1)] by simp
qed (simp add: numbered_def)

section \<open>Constraints with numbers\<close>

fun constraint_vars :: "TypeConstraint \<Rightarrow> SSAVar set" where
  "constraint_vars (CSetType v _ _) = {v}"
| "constraint_vars (CEqual a b _) = {a, b}"
| "constraint_vars (CSubtype v _ _) = {v}"
| "constraint_vars (CHasCapability p _ _ _) = {p}"
| "constraint_vars (CCallSig t args _ ret _) = insert t (set args \<union> fst ` set_option ret)"
| "constraint_vars (CFieldAccess p _ _ _ _) = {p}"

fun raw_of :: "(SSAVar \<Rightarrow> VarId) \<Rightarrow> TypeConstraint \<Rightarrow> RawConstraint" where
  "raw_of f (CSetType v ty src) = RSetType (f v) ty src"
| "raw_of f (CEqual a b src) = REqual (f a) (f b) src"
| "raw_of f (CSubtype v ty src) = RSubtype (f v) ty src"
| "raw_of f (CHasCapability p _ ty src) = RHasCapability (f p) ty src"
| "raw_of f (CCallSig t args params ret src) = RCallSig (f t) (map f args) params (map_option (map_prod f (\<lambda>x. x)) ret) src"
| "raw_of f (CFieldAccess p off ty nm src) = RFieldAccess (f p) off ty nm src"

lemma raw_of_cong: "(\<And>v. v \<in> constraint_vars c \<Longrightarrow> f v = g v) \<Longrightarrow> raw_of f c = raw_of g c"
  by (cases c) (auto simp: map_option_case split: option.splits)

lemma intern_constraint_numbered:
  assumes "vi_ok vi" "intern_constraint c vi = (r, vi')"
  shows "numbered vi (constraint_vars c) vi' \<and> r = raw_of (vi_num vi') c"
proof (cases c)
  case (CEqual a b src)
  obtain i vi1 where i: "vi_intern a vi = (i, vi1)" by (cases "vi_intern a vi")
  obtain j vi2 where j: "vi_intern b vi1 = (j, vi2)" by (cases "vi_intern b vi1")
  have 1: "numbered vi {a} vi1" "i = vi_num vi1 a" using vi_intern_numbered [OF assms(1), of a] i by auto
  have ok1: "vi_ok vi1" using 1 by (simp add: numbered_def)
  have 2: "numbered vi1 {b} vi2" "j = vi_num vi2 b" using vi_intern_numbered [OF ok1, of b] j by auto
  have "vi_num vi2 a = vi_num vi1 a" using numbered_num [OF ok1 2(1)] 1 by (simp add: numbered_def)
  then show ?thesis using CEqual assms(2) i j 1 2 numbered_trans [OF 1(1) 2(1)] by (auto simp: insert_commute)
next
  case (CCallSig t args params ret src)
  obtain i vi1 where i: "vi_intern t vi = (i, vi1)" by (cases "vi_intern t vi")
  obtain js vi2 where js: "vi_intern_list args vi1 = (js, vi2)" by (cases "vi_intern_list args vi1")
  have 1: "numbered vi {t} vi1" "i = vi_num vi1 t" using vi_intern_numbered [OF assms(1), of t] i by auto
  have ok1: "vi_ok vi1" using 1 by (simp add: numbered_def)
  have 2: "numbered vi1 (set args) vi2" "js = map (vi_num vi2) args" using vi_intern_list_numbered [OF ok1 js] by auto
  have ok2: "vi_ok vi2" using 2 by (simp add: numbered_def)
  have t: "vi_num vi2 t = vi_num vi1 t" using numbered_num [OF ok1 2(1)] 1 by (simp add: numbered_def)
  have 12: "numbered vi (insert t (set args)) vi2" using numbered_trans [OF 1(1) 2(1)] by simp
  show ?thesis
  proof (cases ret)
    case None
    then show ?thesis using CCallSig assms(2) i js 1 2 t 12 by auto
  next
    case (Some p)
    obtain v ty where p: "p = (v, ty)" by (cases p)
    obtain k vi3 where k: "vi_intern v vi2 = (k, vi3)" by (cases "vi_intern v vi2")
    have 3: "numbered vi2 {v} vi3" "k = vi_num vi3 v" using vi_intern_numbered [OF ok2, of v] k by auto
    have num: "vi_num vi3 u = vi_num vi2 u" if "u \<in> insert t (set args)" for u
      using numbered_num [OF ok2 3(1)] 12 that by (auto simp: numbered_def)
    have "numbered vi (insert t (set args) \<union> {v}) vi3" by (rule numbered_trans [OF 12 3(1)])
    then show ?thesis using CCallSig assms(2) i js k 1 2 3 t num Some p by (auto simp: insert_commute)
  qed
next
  case (CSetType v ty src)
  then show ?thesis using vi_intern_numbered [OF assms(1), of v] assms(2) by (auto split: prod.splits)
next
  case (CSubtype v ty src)
  then show ?thesis using vi_intern_numbered [OF assms(1), of v] assms(2) by (auto split: prod.splits)
next
  case (CHasCapability v cap ty src)
  then show ?thesis using vi_intern_numbered [OF assms(1), of v] assms(2) by (auto split: prod.splits)
next
  case (CFieldAccess v off ty nm src)
  then show ?thesis using vi_intern_numbered [OF assms(1), of v] assms(2) by (auto split: prod.splits)
qed

lemma intern_constraints_numbered:
  "vi_ok vi \<Longrightarrow> intern_constraints cs vi = (rs, vi') \<Longrightarrow>
     numbered vi (\<Union> (constraint_vars ` set cs)) vi' \<and> rs = map (raw_of (vi_num vi')) cs"
proof (induction cs arbitrary: vi rs vi')
  case (Cons c cs)
  obtain r vi1 where r: "intern_constraint c vi = (r, vi1)" by (cases "intern_constraint c vi")
  obtain ss vi2 where ss: "intern_constraints cs vi1 = (ss, vi2)" by (cases "intern_constraints cs vi1")
  have 1: "numbered vi (constraint_vars c) vi1" "r = raw_of (vi_num vi1) c"
    using intern_constraint_numbered [OF Cons.prems(1) r] by auto
  have ok1: "vi_ok vi1" using 1 by (simp add: numbered_def)
  have 2: "numbered vi1 (\<Union> (constraint_vars ` set cs)) vi2" "ss = map (raw_of (vi_num vi2)) cs"
    using Cons.IH [OF ok1 ss] by auto
  have "raw_of (vi_num vi2) c = raw_of (vi_num vi1) c"
    using numbered_num [OF ok1 2(1)] 1 by (intro raw_of_cong) (simp add: numbered_def)
  then show ?case using Cons.prems r ss 1 2 numbered_trans [OF 1(1) 2(1)] by auto
qed (simp add: numbered_def)

section \<open>Classes\<close>

definition equal_pairs :: "RawConstraint list \<Rightarrow> (VarId \<times> VarId) set" where
  "equal_pairs rs = {(a, b). \<exists>src. REqual a b src \<in> set rs}"

text \<open>Unions, seen as sets of pairs: the classes are those of the symmetric and transitive closure.\<close>

abbreviation sym_closure :: "('a \<times> 'a) set \<Rightarrow> ('a \<times> 'a) set" where
  "sym_closure P \<equiv> (P \<union> P\<inverse>)\<^sup>*"

definition class_pairs :: "VarDsu \<Rightarrow> (VarId \<times> VarId) set" where
  "class_pairs d = {(u, w). same_class d u w}"

lemma class_pairs_refl: "dsu_ok d \<Longrightarrow> u < length (dsu_parent d) \<Longrightarrow> (u, u) \<in> class_pairs d"
  using dsu_root_exists by (auto simp: class_pairs_def same_class_def)

lemma class_pairs_trans: "(u, v) \<in> class_pairs d \<Longrightarrow> (v, w) \<in> class_pairs d \<Longrightarrow> (u, w) \<in> class_pairs d"
  unfolding class_pairs_def same_class_def by (auto dest: dsu_root_unique)

lemma class_pairs_sym: "(u, v) \<in> class_pairs d \<Longrightarrow> (v, u) \<in> class_pairs d"
  unfolding class_pairs_def same_class_def by auto

lemma class_pairs_star:
  assumes "dsu_ok d" "u < length (dsu_parent d)" "(u, w) \<in> (class_pairs d)\<^sup>*"
  shows "(u, w) \<in> class_pairs d"
  using assms(3) by (induction rule: rtrancl_induct) (use class_pairs_refl [OF assms(1,2)] class_pairs_trans in blast)+

lemma dsu_union_pairs:
  assumes "dsu_ok d" "a < length (dsu_parent d)" "b < length (dsu_parent d)"
  shows "\<exists>d'. dsu_union d a b = Some d' \<and> dsu_ok d' \<and> length (dsu_parent d') = length (dsu_parent d) \<and>
    insert (a, b) (class_pairs d) \<subseteq> class_pairs d' \<and> class_pairs d' \<subseteq> (insert (a, b) (insert (b, a) (class_pairs d)))\<^sup>*"
proof -
  let ?C = "class_pairs d" and ?S = "(insert (a, b) (insert (b, a) (class_pairs d)))\<^sup>*"
  obtain d' where d': "dsu_union d a b = Some d'" "dsu_ok d'" "length (dsu_parent d') = length (dsu_parent d)"
    and cls: "\<forall>u < length (dsu_parent d). \<forall>w < length (dsu_parent d). same_class d' u w \<longleftrightarrow>
      same_class d u w \<or> same_class d u a \<and> same_class d w b \<or> same_class d u b \<and> same_class d w a"
    using dsu_union_spec [OF assms] by blast
  have lt: "u < length (dsu_parent e) \<and> w < length (dsu_parent e)" if "same_class e u w" for e u w
    using that dsu_root_lt unfolding same_class_def by blast
  have aa: "same_class d a a" "same_class d b b" using class_pairs_refl [OF assms(1)] assms(2,3) by (auto simp: class_pairs_def)
  have "same_class d' a b" using cls assms(2,3) aa by blast
  moreover have "same_class d' u w" if "same_class d u w" for u w using that cls lt [OF that] by blast
  ultimately have sub: "insert (a, b) ?C \<subseteq> class_pairs d'" by (auto simp: class_pairs_def)
  have "(u, w) \<in> ?S" if "same_class d' u w" for u w
  proof -
    have "same_class d u w \<or> same_class d u a \<and> same_class d w b \<or> same_class d u b \<and> same_class d w a"
      using cls lt [OF that] d'(3) that by simp
    then consider "(u, w) \<in> ?C" | "(u, a) \<in> ?C" "(b, w) \<in> ?C" | "(u, b) \<in> ?C" "(a, w) \<in> ?C"
      using class_pairs_sym by (auto simp: class_pairs_def)
    then show ?thesis
    proof cases
      case 2
      have "(u, a) \<in> ?S" "(a, b) \<in> ?S" "(b, w) \<in> ?S" using 2 by blast+
      then show ?thesis by (meson rtrancl_trans)
    next
      case 3
      have "(u, b) \<in> ?S" "(b, a) \<in> ?S" "(a, w) \<in> ?S" using 3 by blast+
      then show ?thesis by (meson rtrancl_trans)
    qed blast
  qed
  then have "class_pairs d' \<subseteq> ?S" by (auto simp: class_pairs_def)
  then show ?thesis using d' sub by blast
qed

lemma union_equals_pairs:
  assumes "dsu_ok d" "equal_pairs rs \<subseteq> {..<length (dsu_parent d)} \<times> {..<length (dsu_parent d)}"
  shows "\<exists>d'. union_equals rs d = Some d' \<and> dsu_ok d' \<and> length (dsu_parent d') = length (dsu_parent d) \<and>
    equal_pairs rs \<union> class_pairs d \<subseteq> class_pairs d' \<and> class_pairs d' \<subseteq> (equal_pairs rs \<union> (equal_pairs rs)\<inverse> \<union> class_pairs d)\<^sup>*"
  using assms
proof (induction rs arbitrary: d)
  case Nil
  then show ?case by (auto simp: equal_pairs_def)
next
  case (Cons r rs)
  show ?case
  proof (cases "\<exists>a b src. r = REqual a b src")
    case True
    then obtain a b src where r: "r = REqual a b src" by blast
    have e: "equal_pairs (r # rs) = insert (a, b) (equal_pairs rs)" by (auto simp: r equal_pairs_def)
    obtain d1 where d1: "dsu_union d a b = Some d1" "dsu_ok d1" "length (dsu_parent d1) = length (dsu_parent d)"
        "insert (a, b) (class_pairs d) \<subseteq> class_pairs d1" "class_pairs d1 \<subseteq> (insert (a, b) (insert (b, a) (class_pairs d)))\<^sup>*"
      using dsu_union_pairs [OF Cons.prems(1), of a b] Cons.prems(2) e by auto
    obtain d2 where d2: "union_equals rs d1 = Some d2" "dsu_ok d2" "length (dsu_parent d2) = length (dsu_parent d1)"
        "equal_pairs rs \<union> class_pairs d1 \<subseteq> class_pairs d2" "class_pairs d2 \<subseteq> (equal_pairs rs \<union> (equal_pairs rs)\<inverse> \<union> class_pairs d1)\<^sup>*"
      using Cons.IH [OF d1(2)] Cons.prems(2) e d1(3) by auto
    let ?T = "(equal_pairs (r # rs) \<union> (equal_pairs (r # rs))\<inverse> \<union> class_pairs d)\<^sup>*"
    have "class_pairs d1 \<subseteq> ?T" by (rule order_trans [OF d1(5)], rule rtrancl_mono) (auto simp: e)
    moreover have "equal_pairs rs \<union> (equal_pairs rs)\<inverse> \<subseteq> ?T" by (auto simp: e)
    ultimately have "equal_pairs rs \<union> (equal_pairs rs)\<inverse> \<union> class_pairs d1 \<subseteq> ?T" by simp
    then have "(equal_pairs rs \<union> (equal_pairs rs)\<inverse> \<union> class_pairs d1)\<^sup>* \<subseteq> ?T" by (rule rtrancl_subset_rtrancl)
    moreover have "equal_pairs (r # rs) \<union> class_pairs d \<subseteq> class_pairs d2" using d1(4) d2(4) e by auto
    ultimately show ?thesis using d1 d2 by (auto simp: r)
  next
    case False
    then have "equal_pairs (r # rs) = equal_pairs rs" "union_equals (r # rs) d = union_equals rs d"
      by (auto simp: equal_pairs_def) (cases r, auto)
    then show ?thesis using Cons.IH [OF Cons.prems(1)] Cons.prems(2) by simp
  qed
qed

lemma dsu_new_ok: "dsu_ok (dsu_new n)" "length (dsu_parent (dsu_new n)) = n" "class_pairs (dsu_new n) \<subseteq> Id"
proof -
  have "dsu_edges (dsu_new n) = {}" by (auto simp: dsu_edges_def dsu_new_def)
  then show "dsu_ok (dsu_new n)" "length (dsu_parent (dsu_new n)) = n" "class_pairs (dsu_new n) \<subseteq> Id"
    by (auto simp: dsu_ok_def class_pairs_def same_class_def dsu_root_def dsu_new_def acyclic_def)
qed

lemma union_equals_classes:
  assumes "equal_pairs rs \<subseteq> {..<n} \<times> {..<n}"
  shows "\<exists>d. union_equals rs (dsu_new n) = Some d \<and> dsu_ok d \<and> length (dsu_parent d) = n \<and>
    (\<forall>u w. u < n \<longrightarrow> (same_class d u w \<longleftrightarrow> (u, w) \<in> sym_closure (equal_pairs rs)))"
proof -
  let ?P = "equal_pairs rs \<union> (equal_pairs rs)\<inverse>"
  obtain d where d: "union_equals rs (dsu_new n) = Some d" "dsu_ok d" "length (dsu_parent d) = n"
      "equal_pairs rs \<subseteq> class_pairs d" "class_pairs d \<subseteq> (?P \<union> class_pairs (dsu_new n))\<^sup>*"
    using union_equals_pairs [OF dsu_new_ok(1), of rs n] assms dsu_new_ok(2) by auto
  have "(?P \<union> class_pairs (dsu_new n))\<^sup>* \<subseteq> ?P\<^sup>*"
    using rtrancl_mono [of "?P \<union> class_pairs (dsu_new n)" "?P \<union> Id"] dsu_new_ok(3) by (auto simp: rtrancl_reflcl)
  then have up: "class_pairs d \<subseteq> ?P\<^sup>*" using d(5) by blast
  have "?P \<subseteq> class_pairs d" using d(4) class_pairs_sym by auto
  then have down: "(u, w) \<in> class_pairs d" if "u < n" "(u, w) \<in> ?P\<^sup>*" for u w
    using class_pairs_star [OF d(2), of u w] that d(3) rtrancl_mono by blast
  show ?thesis using d up down by (intro exI [of _ d]) (auto simp: class_pairs_def)
qed

section \<open>Representatives\<close>

definition root_of :: "VarDsu \<Rightarrow> VarId \<Rightarrow> VarId" where
  "root_of d v = (THE r. dsu_root d v r)"

lemma root_of_eq: "dsu_root d v r \<Longrightarrow> root_of d v = r"
  unfolding root_of_def by (rule the_equality) (auto dest: dsu_root_unique)

lemma root_of_root: "dsu_ok d \<Longrightarrow> v < length (dsu_parent d) \<Longrightarrow> dsu_root d v (root_of d v)"
  using dsu_root_exists root_of_eq by metis

lemma root_of_lt: "dsu_ok d \<Longrightarrow> v < length (dsu_parent d) \<Longrightarrow> root_of d v < length (dsu_parent d)"
  using root_of_root by (auto simp: dsu_root_def)

lemma same_class_root_of:
  "dsu_ok d \<Longrightarrow> u < length (dsu_parent d) \<Longrightarrow> w < length (dsu_parent d) \<Longrightarrow> root_of d u = root_of d w \<longleftrightarrow> same_class d u w"
  using same_class_iff [OF root_of_root root_of_root] by blast

lemma same_roots_root_of: "same_roots d d' \<Longrightarrow> root_of d' = root_of d"
  by (simp add: same_roots_def root_of_def fun_eq_iff)

lemma dsu_find_root_of:
  assumes "dsu_ok d" "v < length (dsu_parent d)"
  shows "\<exists>d'. dsu_find d v = Some (root_of d v, d') \<and> same_roots d d'"
  using dsu_find_spec [OF assms] root_of_eq by auto

lemma same_roots_ok: "same_roots d d' \<Longrightarrow> dsu_ok d' \<and> length (dsu_parent d') = length (dsu_parent d)"
  by (simp add: same_roots_def)

lemma dsu_find_list_root_of:
  "dsu_ok d \<Longrightarrow> set vs \<subseteq> {..<length (dsu_parent d)} \<Longrightarrow>
    \<exists>d'. dsu_find_list vs d = Some (map (root_of d) vs, d') \<and> same_roots d d'"
proof (induction vs arbitrary: d)
  case (Cons v vs)
  obtain d1 where d1: "dsu_find d v = Some (root_of d v, d1)" "same_roots d d1"
    using dsu_find_root_of [OF Cons.prems(1), of v] Cons.prems(2) by auto
  obtain d2 where d2: "dsu_find_list vs d1 = Some (map (root_of d1) vs, d2)" "same_roots d1 d2"
    using Cons.IH [of d1] Cons.prems(2) same_roots_ok [OF d1(2)] by auto
  then show ?case using d1 same_roots_root_of [OF d1(2)] same_roots_trans [OF d1(2) d2(2)] by simp
qed (simp add: same_roots_refl)

fun raw_vars :: "RawConstraint \<Rightarrow> VarId set" where
  "raw_vars (RSetType v _ _) = {v}"
| "raw_vars (REqual a b _) = {a, b}"
| "raw_vars (RSubtype v _ _) = {v}"
| "raw_vars (RHasCapability p _ _) = {p}"
| "raw_vars (RCallSig t args _ ret _) = insert t (set args \<union> fst ` set_option ret)"
| "raw_vars (RFieldAccess p _ _ _ _) = {p}"

fun compact_raw :: "(VarId \<Rightarrow> VarId) \<Rightarrow> RawConstraint \<Rightarrow> CompactConstraint list" where
  "compact_raw f (RSetType v ty src) = [KSetType (f v) ty src]"
| "compact_raw f (REqual a b src) = []"
| "compact_raw f (RSubtype v ty src) = [KSubtype (f v) ty src]"
| "compact_raw f (RHasCapability p ty src) = [KHasCapability (f p) ty src]"
| "compact_raw f (RCallSig t args params ret src) =
     [KCallSig (f t) (map f args) params (map_option (map_prod f (\<lambda>x. x)) ret) src]"
| "compact_raw f (RFieldAccess p off ty nm src) = [KFieldAccess (f p) off ty nm src]"

lemma rewrite_constraint_spec:
  assumes ok: "dsu_ok d" and v: "raw_vars r \<subseteq> {..<length (dsu_parent d)}"
  shows "\<exists>d'. rewrite_constraint r d = Some (compact_raw (root_of d) r, d') \<and> same_roots d d'"
proof (cases r)
  case (RCallSig t args params ret src)
  obtain d1 where d1: "dsu_find d t = Some (root_of d t, d1)" "same_roots d d1"
    using dsu_find_root_of [OF ok, of t] v RCallSig by auto
  note ok1 = same_roots_ok [OF d1(2)] and r1 = same_roots_root_of [OF d1(2)]
  obtain d2 where d2: "dsu_find_list args d1 = Some (map (root_of d) args, d2)" "same_roots d1 d2"
    using dsu_find_list_root_of [of d1 args] v RCallSig ok1 r1 by auto
  note ok2 = same_roots_ok [OF d2(2)] and r2 = same_roots_root_of [OF d2(2)]
  have s2: "same_roots d d2" by (rule same_roots_trans [OF d1(2) d2(2)])
  show ?thesis
  proof (cases ret)
    case None
    then show ?thesis using RCallSig d1 d2 s2 by simp
  next
    case (Some p)
    obtain x ty where p: "p = (x, ty)" by (cases p)
    obtain d3 where "dsu_find d2 x = Some (root_of d x, d3)" "same_roots d2 d3"
      using dsu_find_root_of [of d2 x] v RCallSig ok1 ok2 r1 r2 Some p by auto
    then show ?thesis using RCallSig d1 d2 Some p same_roots_trans [OF s2] by simp
  qed
next
  case (REqual a b src)
  then show ?thesis using ok by (simp add: same_roots_refl)
next
  case (RSetType x ty src)
  then show ?thesis using dsu_find_root_of [OF ok, of x] v by auto
next
  case (RSubtype x ty src)
  then show ?thesis using dsu_find_root_of [OF ok, of x] v by auto
next
  case (RHasCapability x ty src)
  then show ?thesis using dsu_find_root_of [OF ok, of x] v by auto
next
  case (RFieldAccess x off ty nm src)
  then show ?thesis using dsu_find_root_of [OF ok, of x] v by auto
qed

lemma rewrite_constraints_spec:
  "dsu_ok d \<Longrightarrow> \<Union> (raw_vars ` set rs) \<subseteq> {..<length (dsu_parent d)} \<Longrightarrow>
    \<exists>d'. rewrite_constraints rs d = Some (concat (map (compact_raw (root_of d)) rs), d')"
proof (induction rs arbitrary: d)
  case (Cons r rs)
  obtain d1 where d1: "rewrite_constraint r d = Some (compact_raw (root_of d) r, d1)" "same_roots d d1"
    using rewrite_constraint_spec [OF Cons.prems(1), of r] Cons.prems(2) by auto
  obtain d2 where d2: "rewrite_constraints rs d1 = Some (concat (map (compact_raw (root_of d1)) rs), d2)"
    using Cons.IH [of d1] Cons.prems(2) same_roots_ok [OF d1(2)] by auto
  then show ?case using d1 same_roots_root_of [OF d1(2)] by simp
qed simp

section \<open>Members of a class\<close>

lemma class_members_of_length: "length (class_members_of reps m) = length m"
proof -
  have "length (foldl (\<lambda>m (idx, rep). m[rep := m ! rep @ [idx]]) m ps) = length m" for ps :: "(nat \<times> nat) list" and m :: "nat list list"
    by (induction ps arbitrary: m) auto
  then show ?thesis by (simp add: class_members_of_def)
qed

lemma class_members_of_nth:
  assumes "k < length m" "set reps \<subseteq> {..<length m}"
  shows "class_members_of reps m ! k = m ! k @ filter (\<lambda>i. reps ! i = k) [0..<length reps]"
  using assms(2)
proof (induction reps rule: rev_induct)
  case (snoc r reps)
  let ?m = "class_members_of reps m"
  have e: "class_members_of (reps @ [r]) m = ?m[r := ?m ! r @ [length reps]]"
    by (simp add: class_members_of_def enumerate_append_eq)
  have f: "filter (\<lambda>i. (reps @ [r]) ! i = k) [0..<length reps] = filter (\<lambda>i. reps ! i = k) [0..<length reps]"
    by (rule filter_cong) (auto simp: nth_append)
  show ?case using snoc f assms(1) by (auto simp: e class_members_of_length nth_list_update)
qed (simp add: class_members_of_def)

section \<open>The whole rewriting\<close>

definition all_vars :: "TypeConstraint list \<Rightarrow> SSAVar set" where
  "all_vars cs = \<Union> (constraint_vars ` set cs)"

definition equalities :: "TypeConstraint list \<Rightarrow> (SSAVar \<times> SSAVar) set" where
  "equalities cs = {(a, b). \<exists>src. CEqual a b src \<in> set cs}"

definition compact_of :: "(SSAVar \<Rightarrow> VarId) \<Rightarrow> TypeConstraint \<Rightarrow> CompactConstraint list" where
  "compact_of f c = compact_raw (\<lambda>i. i) (raw_of f c)"

lemma compact_raw_of: "compact_raw g (raw_of f c) = compact_of (\<lambda>v. g (f v)) c"
  by (cases c) (auto simp: compact_of_def option.map_comp comp_def map_option_case split: option.split)

definition rewritten :: "TypeConstraint list \<Rightarrow> RewrittenConstraints \<Rightarrow> (SSAVar \<Rightarrow> VarId) \<Rightarrow> bool" where
  "rewritten cs rc rep \<longleftrightarrow>
     distinct (rc_vars rc) \<and> set (rc_vars rc) = all_vars cs \<and>
     rc_constraints rc = concat (map (compact_of rep) cs) \<and>
     (\<forall>v \<in> all_vars cs. rep v < length (rc_vars rc)) \<and>
     (\<forall>v \<in> all_vars cs. \<forall>w \<in> all_vars cs. rep v = rep w \<longleftrightarrow> (v, w) \<in> sym_closure (equalities cs)) \<and>
     length (rc_class_members rc) = length (rc_vars rc) \<and>
     (\<forall>k < length (rc_vars rc). rc_class_members rc ! k = filter (\<lambda>i. rep (rc_vars rc ! i) = k) [0..<length (rc_vars rc)])"

lemma vi_distinct: "vi_ok vi \<Longrightarrow> distinct (vi_vars vi)"
  unfolding distinct_conv_nth by (auto dest: vars.canonical)

lemma sym_closure_image:
  assumes "inj_on f A" "P \<subseteq> A \<times> A" "v \<in> A" "w \<in> A"
  shows "(f v, f w) \<in> sym_closure (map_prod f f ` P) \<longleftrightarrow> (v, w) \<in> sym_closure P"
proof
  have up: "x \<in> A" if "(v, x) \<in> sym_closure P" for x
    using that by (induction rule: rtrancl_induct) (use assms(2,3) in auto)
  assume "(v, w) \<in> sym_closure P"
  then show "(f v, f w) \<in> sym_closure (map_prod f f ` P)"
  proof (induction rule: rtrancl_induct)
    case (step y z)
    then have "(f y, f z) \<in> map_prod f f ` P \<union> (map_prod f f ` P)\<inverse>" by force
    then show ?case using step.IH by (rule rtrancl_into_rtrancl [rotated])
  qed simp
next
  assume "(f v, f w) \<in> sym_closure (map_prod f f ` P)"
  then have "\<exists>x \<in> A. f x = f w \<and> (v, x) \<in> sym_closure P"
  proof (induction rule: rtrancl_induct)
    case base
    then show ?case using assms(3) by auto
  next
    case (step y z)
    then obtain x where x: "x \<in> A" "f x = y" "(v, x) \<in> sym_closure P" by auto
    obtain a b where ab: "(a, b) \<in> P \<union> P\<inverse>" "f a = y" "f b = z" using step.hyps(2) by auto
    then have "a \<in> A" "b \<in> A" using assms(2) by auto
    then have "a = x" using assms(1) x ab by (auto dest: inj_onD)
    then show ?case using ab x \<open>b \<in> A\<close> by (auto intro: rtrancl_into_rtrancl)
  qed
  then show "(v, w) \<in> sym_closure P" using assms(1,4) by (auto dest: inj_onD)
qed

lemma raw_vars_raw_of: "raw_vars (raw_of f c) = f ` constraint_vars c"
  by (cases c) (auto simp: image_iff split: option.splits)

lemma equal_pairs_raw_of: "equal_pairs (map (raw_of f) cs) = map_prod f f ` equalities cs"
proof -
  have "REqual a b src = raw_of f c \<longleftrightarrow> (\<exists>x y. c = CEqual x y src \<and> a = f x \<and> b = f y)" for a b src c by (cases c) auto
  then show ?thesis by (force simp: equal_pairs_def equalities_def image_iff)
qed

lemma equalities_vars: "equalities cs \<subseteq> all_vars cs \<times> all_vars cs"
  by (force simp: equalities_def all_vars_def)

lemma rewrite_equal_constraints_spec: "\<exists>rc rep. rewrite_equal_constraints cs = Some rc \<and> rewritten cs rc rep"
proof -
  obtain raw vi where i: "intern_constraints cs vi_empty = (raw, vi)" by (cases "intern_constraints cs vi_empty")
  have n: "numbered vi_empty (all_vars cs) vi" and raw: "raw = map (raw_of (vi_num vi)) cs"
    using intern_constraints_numbered [OF vi_empty_ok i] by (auto simp: all_vars_def)
  have ok: "vi_ok vi" and vars: "set (vi_vars vi) = all_vars cs" using n by (auto simp: numbered_def vi_empty_def)
  let ?n = "length (vi_vars vi)" and ?f = "vi_num vi"
  have lt: "?f v < ?n" if "v \<in> all_vars cs" for v using vi_num_known(1) [OF ok] that vars by simp
  have inj: "inj_on ?f (all_vars cs)" using vi_num_inj [OF ok] vars by (auto simp: inj_on_def)
  have "equal_pairs raw \<subseteq> {..<?n} \<times> {..<?n}"
    using equalities_vars lt unfolding raw equal_pairs_raw_of by fastforce
  then obtain d where d: "union_equals raw (dsu_new ?n) = Some d" "dsu_ok d" "length (dsu_parent d) = ?n"
      "\<forall>u w. u < ?n \<longrightarrow> (same_class d u w \<longleftrightarrow> (u, w) \<in> sym_closure (equal_pairs raw))"
    using union_equals_classes by blast
  let ?rep = "\<lambda>v. root_of d (?f v)"
  have rep: "?rep v = ?rep w \<longleftrightarrow> (v, w) \<in> sym_closure (equalities cs)" if "v \<in> all_vars cs" "w \<in> all_vars cs" for v w
    using same_class_root_of [OF d(2)] d(3,4) lt that sym_closure_image [OF inj equalities_vars that]
    by (simp add: raw equal_pairs_raw_of)
  obtain d1 where d1: "dsu_find_list [0..<?n] d = Some (map (root_of d) [0..<?n], d1)" "same_roots d d1"
    using dsu_find_list_root_of [OF d(2), of "[0..<?n]"] d(3) by (auto simp: lessThan_atLeast0)
  have "\<Union> (raw_vars ` set raw) \<subseteq> {..<?n}" using lt by (auto simp: raw raw_vars_raw_of all_vars_def)
  then obtain d2 where d2: "rewrite_constraints raw d1 = Some (concat (map (compact_raw (root_of d)) raw), d2)"
    using rewrite_constraints_spec [of d1 raw] same_roots_ok [OF d1(2)] same_roots_root_of [OF d1(2)] d(3) by auto
  have k: "concat (map (compact_raw (root_of d)) raw) = concat (map (compact_of ?rep) cs)"
    by (simp add: raw comp_def compact_raw_of)
  let ?rc = "\<lparr>rc_constraints = concat (map (compact_of ?rep) cs),
     rc_class_members = class_members_of (map (root_of d) [0..<?n]) (replicate ?n []), rc_vars = vi_vars vi\<rparr>"
  have num: "?f (vi_vars vi ! j) = j" if "j < ?n" for j using vi_ok_get [OF ok that] by (simp add: vi_num_def)
  have mem: "rc_class_members ?rc ! j = filter (\<lambda>i. ?rep (vi_vars vi ! i) = j) [0..<?n]" if "j < ?n" for j
  proof -
    have "set (map (root_of d) [0..<?n]) \<subseteq> {..<?n}" using root_of_lt [OF d(2)] d(3) by auto
    then have "rc_class_members ?rc ! j = filter (\<lambda>i. map (root_of d) [0..<?n] ! i = j) [0..<?n]"
      using class_members_of_nth [of j "replicate ?n []" "map (root_of d) [0..<?n]"] that by simp
    also have "\<dots> = filter (\<lambda>i. ?rep (vi_vars vi ! i) = j) [0..<?n]" by (rule filter_cong) (auto simp: num)
    finally show ?thesis .
  qed
  have "rewrite_equal_constraints cs = Some ?rc" using i d(1) d1(1) d2 k by (simp add: rewrite_equal_constraints_def Let_def)
  moreover have "rewritten cs ?rc ?rep"
    unfolding rewritten_def using vi_distinct [OF ok] vars rep mem lt root_of_lt [OF d(2)] d(3)
    by (simp add: class_members_of_length)
  ultimately show ?thesis by blast
qed

end
