(* ===== verification/Types_Solve_Props.thy ===== *)
theory Types_Solve_Props
  imports Types_Cache Types_Rewrite
begin

text \<open>
  The solver as a whole: it returns on every list of constraints over types of a well-formed arena;
  variables that are equal by constraint get the same type; every variable a constraint speaks about
  gets one; an external type wins; and a result that reports convergence is a fixpoint of all
  constraints.
\<close>

section \<open>Constraints and their numbered form\<close>

fun constraint_types :: "TypeConstraint \<Rightarrow> TypeId list" where
  "constraint_types (CSetType _ ty _) = [ty]"
| "constraint_types (CEqual _ _ _) = []"
| "constraint_types (CSubtype _ ty _) = [ty]"
| "constraint_types (CHasCapability _ _ ty _) = [ty]"
| "constraint_types (CCallSig _ _ params ret _) = params @ (case ret of Some (_, ty) \<Rightarrow> [ty] | None \<Rightarrow> [])"
| "constraint_types (CFieldAccess _ _ ty _ _) = [ty]"

definition input_ok :: "TypeArena \<Rightarrow> TypeConstraint list \<Rightarrow> bool" where
  "input_ok a cs \<longleftrightarrow> (\<forall>c \<in> set cs. \<forall>ty \<in> set (constraint_types c). valid_id a ty)"

fun constraint_source :: "TypeConstraint \<Rightarrow> ConstraintSource" where
  "constraint_source (CSetType _ _ src) = src"
| "constraint_source (CEqual _ _ src) = src"
| "constraint_source (CSubtype _ _ src) = src"
| "constraint_source (CHasCapability _ _ _ src) = src"
| "constraint_source (CCallSig _ _ _ _ src) = src"
| "constraint_source (CFieldAccess _ _ _ _ src) = src"

text \<open>The variables a constraint gives a type to.\<close>

fun types_var :: "TypeConstraint \<Rightarrow> SSAVar set" where
  "types_var (CSetType v _ _) = {v}"
| "types_var (CEqual _ _ _) = {}"
| "types_var (CSubtype v _ _) = {v}"
| "types_var (CHasCapability p _ _ _) = {p}"
| "types_var (CCallSig _ args params ret _) = set (map fst (zip args params)) \<union> fst ` set_option ret"
| "types_var (CFieldAccess p _ _ _ _) = {p}"

lemma types_var_vars: "types_var c \<subseteq> constraint_vars c"
  by (cases c) (auto dest: set_zip_leftD)

lemma compact_of_props:
  assumes "k \<in> set (compact_of f c)"
  shows "set (referenced_list k) = f ` constraint_vars c" "set (compact_types k) = set (constraint_types c)"
    "typed_vars k = f ` types_var c" "compact_source k = constraint_source c"
proof -
  have pairs: "fst ` set (call_pairs (map f args) params (map_option (map_prod f (\<lambda>x. x)) ret)) =
      f ` (set (map fst (zip args params)) \<union> fst ` set_option ret)" for args params and ret :: "(SSAVar \<times> TypeId) option"
    by (cases ret) (auto simp: call_pairs_def zip_map1 image_image case_prod_beta)
  show "typed_vars k = f ` types_var c" using assms by (cases c) (simp_all add: compact_of_def option.map_ident pairs)
  show "set (referenced_list k) = f ` constraint_vars c" using assms by (cases c) (auto simp: compact_of_def split: option.splits)
  show "set (compact_types k) = set (constraint_types c)" using assms by (cases c) (auto simp: compact_of_def split: option.splits)
  show "compact_source k = constraint_source c" using assms by (cases c) (auto simp: compact_of_def)
qed

section \<open>The start\<close>

lemma rewrittenD:
  assumes "rewritten cs rc rep"
  shows "distinct (rc_vars rc)" "set (rc_vars rc) = all_vars cs" "rc_constraints rc = concat (map (compact_of rep) cs)"
    "v \<in> all_vars cs \<Longrightarrow> rep v < length (rc_vars rc)"
    "v \<in> all_vars cs \<Longrightarrow> w \<in> all_vars cs \<Longrightarrow> rep v = rep w \<longleftrightarrow> (v, w) \<in> sym_closure (equalities cs)"
    "length (rc_class_members rc) = length (rc_vars rc)"
    "k < length (rc_vars rc) \<Longrightarrow> rc_class_members rc ! k = filter (\<lambda>i. rep (rc_vars rc ! i) = k) [0..<length (rc_vars rc)]"
  using assms unfolding rewritten_def by blast+

text \<open>Two variables are listed in one class just when equality constraints connect them.\<close>

lemma listed_together_iff:
  assumes r: "rewritten cs rc rep" and i: "i < length (rc_vars rc)" and j: "j < length (rc_vars rc)"
  shows "(\<exists>M \<in> set (rc_class_members rc). i \<in> set M \<and> j \<in> set M) \<longleftrightarrow>
    (rc_vars rc ! i, rc_vars rc ! j) \<in> sym_closure (equalities cs)"
proof -
  let ?n = "length (rc_vars rc)"
  have v: "rc_vars rc ! i \<in> all_vars cs" "rc_vars rc ! j \<in> all_vars cs"
    using i j rewrittenD(2) [OF r] nth_mem by blast+
  have "(\<exists>M \<in> set (rc_class_members rc). i \<in> set M \<and> j \<in> set M) \<longleftrightarrow>
      (\<exists>k < ?n. i \<in> set (rc_class_members rc ! k) \<and> j \<in> set (rc_class_members rc ! k))"
    unfolding set_conv_nth [of "rc_class_members rc"] rewrittenD(6) [OF r] by blast
  also have "\<dots> \<longleftrightarrow> rep (rc_vars rc ! i) = rep (rc_vars rc ! j)"
    using rewrittenD(7) [OF r] rewrittenD(4) [OF r v(2)] i j by auto
  finally show ?thesis using rewrittenD(5) [OF r v] by simp
qed

lemma rewritten_member:
  assumes "rewritten cs rc rep" "k \<in> set (rc_constraints rc)"
  shows "\<exists>c \<in> set cs. k \<in> set (compact_of rep c)"
  using assms rewrittenD(3) [OF assms(1)] by auto

lemma initial_solver_ok:
  assumes "arena_wf a" "input_ok a cs" "rewritten cs rc rep"
  shows "queue_ok (rc_constraints rc) (length (rc_vars rc)) (initial_queue a rc)"
proof -
  have "compact_ok a (length (rc_vars rc)) k" if k: "k \<in> set (rc_constraints rc)" for k
  proof -
    obtain c where c: "c \<in> set cs" "k \<in> set (compact_of rep c)" using rewritten_member [OF assms(3) k] by blast
    have "constraint_vars c \<subseteq> all_vars cs" using c(1) by (auto simp: all_vars_def)
    then have "rep v < length (rc_vars rc)" if "v \<in> constraint_vars c" for v using rewrittenD(4) [OF assms(3)] that by blast
    then show ?thesis
      using compact_of_props(1,2) [OF c(2)] assms(2) c(1) by (auto simp: compact_ok_def input_ok_def)
  qed
  moreover have "state_ok (sq_state (initial_queue a rc))"
    using assms(1) by (auto simp: initial_queue_def ss_new_def state_ok_def cache_ok_def hm_get_def valid_asg_def Let_def)
  ultimately show ?thesis
    by (auto simp: queue_ok_def solver_ok_def flags_ok_def initial_queue_def ss_new_def Let_def)
qed

section \<open>The solution\<close>

lemma insert_members:
  "hm_get (foldl (\<lambda>m member. if member < length vars then hm_insert (vars ! member) ty m else m) m ms) v =
     (if \<exists>i \<in> set ms. i < length vars \<and> vars ! i = v then Some ty else hm_get m v)"
  by (induction ms arbitrary: m) (auto simp: hm_get_insert)

lemma materialize_class_get:
  assumes r: "rewritten cs rc rep" and k: "k < length (rc_vars rc)" and x: "x \<noteq> None \<Longrightarrow> k \<in> rep ` all_vars cs"
  shows "hm_get (materialize_class (rc_class_members rc) (rc_vars rc) m (k, x)) v =
    (if v \<in> all_vars cs \<and> rep v = k then (case x of Some e \<Rightarrow> Some (as_ty e) | None \<Rightarrow> hm_get m v) else hm_get m v)"
proof (cases x)
  case None
  then show ?thesis by (simp add: materialize_class_def)
next
  case (Some e)
  obtain w where w: "w \<in> all_vars cs" "rep w = k" using x Some by auto
  have mem: "(\<exists>i \<in> set (rc_class_members rc ! k). i < length (rc_vars rc) \<and> rc_vars rc ! i = u) \<longleftrightarrow> u \<in> all_vars cs \<and> rep u = k" for u
    unfolding rewrittenD(7) [OF r k] rewrittenD(2) [OF r, symmetric] by (auto simp: in_set_conv_nth)
  then have "rc_class_members rc ! k \<noteq> []" using w by fastforce
  then show ?thesis
    using Some k rewrittenD(6) [OF r] mem [of v] by (simp add: materialize_class_def insert_members)
qed

lemma materialize_get:
  assumes r: "rewritten cs rc rep" and n: "length xs = length (rc_vars rc)"
    and x: "\<And>k. k < length xs \<Longrightarrow> xs ! k \<noteq> None \<Longrightarrow> k \<in> rep ` all_vars cs"
  shows "hm_get (foldl (materialize_class (rc_class_members rc) (rc_vars rc)) [] (enumerate 0 xs)) v =
    (if v \<in> all_vars cs then map_option as_ty (xs ! rep v) else None)"
proof -
  let ?f = "materialize_class (rc_class_members rc) (rc_vars rc)"
  have "hm_get (foldl ?f [] (enumerate 0 (take k xs))) v =
      (if v \<in> all_vars cs \<and> rep v < k then map_option as_ty (xs ! rep v) else None)" if "k \<le> length xs" for k
    using that
  proof (induction k)
    case 0
    then show ?case by (simp add: hm_get_def)
  next
    case (Suc k)
    have t: "take (Suc k) xs = take k xs @ [xs ! k]" using Suc.prems by (simp add: take_Suc_conv_app_nth)
    have e: "foldl ?f [] (enumerate 0 (take (Suc k) xs)) = ?f (foldl ?f [] (enumerate 0 (take k xs))) (k, xs ! k)"
      using Suc.prems by (simp add: t enumerate_append_eq)
    show ?case
      unfolding e using materialize_class_get [OF r, of k "xs ! k"] Suc n x [of k]
      by (auto simp: less_Suc_eq split: option.splits)
  qed
  from this [of "length xs"] show ?thesis using rewrittenD(4) [OF r] n by auto
qed

text \<open>Only representatives are ever assigned.\<close>

lemma assigned_kept:
  assumes r: "rewritten cs rc rep"
  shows "kept (rc_constraints rc) n (\<lambda>xs. \<forall>k < n. xs ! k \<noteq> None \<longrightarrow> k \<in> rep ` all_vars cs)"
  unfolding kept_def
proof (intro ballI allI impI)
  fix c s b t k
  assume c: "c \<in> set (rc_constraints rc)" and s: "solver_ok (rc_constraints rc) n s" and a: "apply_constraint c s = Some (b, t)"
    and P: "\<forall>k < n. ss_assignments s ! k \<noteq> None \<longrightarrow> k \<in> rep ` all_vars cs" and k: "k < n" "ss_assignments t ! k \<noteq> None"
  have m: "marks_moved (typed_vars c) s b t" using apply_constraint_spec [of s c] s c a by (auto simp: solver_ok_def)
  obtain d where d: "d \<in> set cs" "c \<in> set (compact_of rep d)" using rewritten_member [OF r c] by blast
  show "k \<in> rep ` all_vars cs"
  proof (cases "k \<in> typed_vars c")
    case True
    then show ?thesis using compact_of_props(3) [OF d(2)] types_var_vars [of d] d(1) by (auto simp: all_vars_def)
  next
    case False
    then show ?thesis using m P k by (simp add: marks_moved_def)
  qed
qed

text \<open>What a call of the solver does, in terms of its last state.\<close>

definition solved ::
  "TypeArena \<Rightarrow> TypeConstraint list \<Rightarrow> nat \<Rightarrow> RewrittenConstraints \<Rightarrow> (SSAVar \<Rightarrow> VarId) \<Rightarrow> SolverQueue \<Rightarrow> SolvedTypes \<Rightarrow> bool" where
  "solved a cs mx rc rep q sol \<longleftrightarrow>
     rewrite_equal_constraints cs = Some rc \<and> rewritten cs rc rep \<and>
     solve_waves (rc_constraints rc) (build_adjacency (length (rc_vars rc)) (rc_constraints rc)) mx (initial_queue a rc) = Some q \<and>
     queue_ok (rc_constraints rc) (length (rc_vars rc)) q \<and>
     run (rc_constraints rc) (length (rc_vars rc)) (sq_state (initial_queue a rc)) (sq_state q) \<and>
     (0 < mx \<longrightarrow> (\<forall>c \<in> set (rc_constraints rc). \<forall>v \<in> typed_vars c. meets_source c (sq_state q) v)) \<and>
     type_solve mx a cs = Some sol \<and> sol_arena sol = ss_arena (sq_state q) \<and> sol_top_id sol = arena_top (ss_arena (sq_state q)) \<and>
     (sd_converged (sol_diagnostics sol) \<longleftrightarrow> sq_queue q = []) \<and>
     (\<forall>v. hm_get (sol_var_types sol) v = (if v \<in> all_vars cs then map_option as_ty (ss_assignments (sq_state q) ! rep v) else None))"

lemma solvedD:
  assumes "solved a cs mx rc rep q sol"
  shows "rewrite_equal_constraints cs = Some rc" "rewritten cs rc rep"
    "solve_waves (rc_constraints rc) (build_adjacency (length (rc_vars rc)) (rc_constraints rc)) mx (initial_queue a rc) = Some q"
    "queue_ok (rc_constraints rc) (length (rc_vars rc)) q"
    "run (rc_constraints rc) (length (rc_vars rc)) (sq_state (initial_queue a rc)) (sq_state q)"
    "0 < mx \<Longrightarrow> c \<in> set (rc_constraints rc) \<Longrightarrow> i \<in> typed_vars c \<Longrightarrow> meets_source c (sq_state q) i"
    "type_solve mx a cs = Some sol" "sol_arena sol = ss_arena (sq_state q)" "sol_top_id sol = arena_top (ss_arena (sq_state q))"
    "sd_converged (sol_diagnostics sol) \<longleftrightarrow> sq_queue q = []"
    "hm_get (sol_var_types sol) v = (if v \<in> all_vars cs then map_option as_ty (ss_assignments (sq_state q) ! rep v) else None)"
  using assms unfolding solved_def by simp_all

lemma type_solve_spec:
  assumes wf: "arena_wf a" and i: "input_ok a cs"
  shows "\<exists>rc rep q sol. solved a cs mx rc rep q sol"
proof -
  obtain rc rep where rc: "rewrite_equal_constraints cs = Some rc" and r: "rewritten cs rc rep"
    using rewrite_equal_constraints_spec by blast
  let ?ks = "rc_constraints rc" and ?n = "length (rc_vars rc)" and ?q0 = "initial_queue a rc"
  obtain q where q: "solve_waves ?ks (build_adjacency ?n ?ks) mx ?q0 = Some q" "queue_ok ?ks ?n q" "run ?ks ?n (sq_state ?q0) (sq_state q)"
      "0 < mx \<longrightarrow> (\<forall>i \<in> set (sq_queue ?q0). \<forall>v \<in> typed_vars (?ks ! i). meets_source (?ks ! i) (sq_state q) v)"
    using solve_waves_spec [OF initial_solver_ok [OF wf i r], of mx] by blast
  let ?s = "sq_state q" and ?P = "\<lambda>xs. \<forall>k < ?n. xs ! k \<noteq> None \<longrightarrow> k \<in> rep ` all_vars cs"
  let ?sol = "materialize_solution (ss_arena ?s) (ss_assignments ?s) (rc_class_members rc) (ss_vars ?s)
      (finish_diagnostics mx (sq_queue q = []) (ss_diagnostics ?s))"
  have "?P (ss_assignments (sq_state ?q0))" by (simp add: initial_queue_def ss_new_def Let_def)
  then have P: "?P (ss_assignments ?s)" by (rule run_kept [OF q(3) assigned_kept [OF r]])
  have n: "length (ss_assignments ?s) = ?n" using q(2) by (simp add: queue_ok_def solver_ok_def)
  have vars: "ss_vars ?s = rc_vars rc"
    using q(3) state_extD(3) [of "sq_state ?q0" ?s] by (simp add: run_def initial_queue_def ss_new_def Let_def)
  have get: "hm_get (sol_var_types ?sol) v = (if v \<in> all_vars cs then map_option as_ty (ss_assignments ?s ! rep v) else None)" for v
    using materialize_get [OF r n] P n vars by (simp add: materialize_solution_def)
  have met: "0 < mx \<longrightarrow> (\<forall>c \<in> set ?ks. \<forall>v \<in> typed_vars c. meets_source c ?s v)"
    using q(4) by (auto simp: initial_queue_def Let_def in_set_conv_nth)
  have "type_solve mx a cs = Some ?sol" using rc q(1) by (simp add: type_solve_def solve_worklist_def)
  moreover have "sd_converged (sol_diagnostics ?sol) \<longleftrightarrow> sq_queue q = []"
    by (simp add: materialize_solution_def finish_diagnostics_def Let_def)
  moreover have "sol_arena ?sol = ss_arena ?s" "sol_top_id ?sol = arena_top (ss_arena ?s)" by (simp_all add: materialize_solution_def)
  ultimately have "solved a cs mx rc rep q ?sol" unfolding solved_def using rc r q(1,2,3) met get by simp
  then show ?thesis by blast
qed

section \<open>External types\<close>

definition pinned :: "VarId \<Rightarrow> TypeId \<Rightarrow> Assignment option list \<Rightarrow> bool" where
  "pinned r ty xs \<longleftrightarrow> (\<forall>e. xs ! r = Some e \<longrightarrow> as_priority e < 3 \<or> e = \<lparr>as_ty = ty, as_priority = 3\<rparr>)"

lemma pinned_set:
  "pinned r ty (ss_assignments s) \<Longrightarrow> (v = r \<Longrightarrow> p < 3 \<or> x = ty \<and> p = 3) \<Longrightarrow> pinned r ty (ss_assignments (set_assignment v x p s))"
  by (cases "v = r"; cases "r < length (ss_assignments s)") (auto simp: pinned_def set_assignment_def list_update_beyond)

lemma join_cached_assignments: "join_cached x y s = Some (z, t) \<Longrightarrow> ss_assignments t = ss_assignments s"
  by (auto simp: join_cached_def split: option.splits)

lemma assign_pinned:
  assumes P: "pinned r ty (ss_assignments s)" and a: "assign v x p s = Some (b, t)" and p: "v = r \<Longrightarrow> p < 3 \<or> x = ty \<and> p = 3"
  shows "pinned r ty (ss_assignments t)"
proof -
  have v: "v < length (ss_assignments s)" using a by (auto simp: assign_def split: if_splits)
  show ?thesis
  proof (cases "ss_assignments s ! v")
    case None
    then show ?thesis using a v pinned_set [OF P p] by (auto simp: assign_def)
  next
    case (Some e)
    consider "p > as_priority e" | "p < as_priority e \<or> p = as_priority e \<and> as_ty e = x" | "p = as_priority e" "as_ty e \<noteq> x" by fastforce
    then show ?thesis
    proof cases
      case 1
      let ?s = "if as_ty e \<noteq> x then push_conflict v p s else s"
      have "t = set_assignment v x p ?s" using a v Some 1 by (simp add: assign_def)
      then show ?thesis using pinned_set [of r ty ?s v p x] P p by simp
    next
      case 2
      then have "\<not> as_priority e < p" by auto
      then have "t = s" using 2 a v Some by (auto simp: assign_def)
      then show ?thesis using P by simp
    next
      case 3
      obtain z u where z: "join_cached (as_ty e) x s = Some (z, u)" using a v Some 3 by (auto simp: assign_def split: option.splits)
      have t: "t = (if z \<noteq> as_ty e then set_assignment v z p u else u)" using a v Some 3 z by (auto simp: assign_def split: if_splits)
      have "p < 3" if "v = r" using p [OF that] P Some 3 that by (auto simp: pinned_def)
      then show ?thesis using t P join_cached_assignments [OF z] pinned_set [of r ty u v p z] by auto
    qed
  qed
qed

lemma assign_list_pinned:
  "pinned r ty (ss_assignments s) \<Longrightarrow> assign_list ps p s = Some (b, t) \<Longrightarrow> p < 3 \<Longrightarrow> pinned r ty (ss_assignments t)"
proof (induction ps arbitrary: s b)
  case (Cons q ps)
  obtain v x where q: "q = (v, x)" by (cases q)
  obtain c u where c: "assign v x p s = Some (c, u)" using Cons.prems(2) q by (auto split: option.splits)
  obtain d where "assign_list ps p u = Some (d, t)" using Cons.prems(2) q c by auto
  then show ?case using Cons.IH [OF assign_pinned [OF Cons.prems(1) c]] Cons.prems(3) by simp
qed simp

lemma field_access_pinned:
  assumes "pinned r ty (ss_assignments s)" "apply_field_access v off x nm p s = Some (b, t)" "p < 3"
  shows "pinned r ty (ss_assignments t)"
proof -
  have v: "v < length (ss_assignments s)" using assms(2) by (auto simp: apply_field_access_def split: if_splits)
  show ?thesis
  proof (cases "ss_assignments s ! v")
    case None
    obtain k a where k: "field_ptr (ss_arena s) None off x nm = (k, a)" by (cases "field_ptr (ss_arena s) None off x nm")
    then have "assign v k p (s\<lparr>ss_arena := a\<rparr>) = Some (b, t)" using assms(2) None by (simp add: apply_field_access_eq [OF v])
    then show ?thesis using assign_pinned [of r ty "s\<lparr>ss_arena := a\<rparr>" v k p b t] assms by simp
  next
    case (Some e)
    obtain k a where k: "field_ptr (ss_arena s) (struct_behind (ss_arena s) (as_ty e)) off x nm = (k, a)"
      by (cases "field_ptr (ss_arena s) (struct_behind (ss_arena s) (as_ty e)) off x nm")
    let ?s = "s\<lparr>ss_arena := a\<rparr>"
    consider "t = s" | "t = ?s" | "t = set_assignment v k p ?s" | "assign v k p ?s = Some (b, t)"
      using assms(2) Some k by (auto simp: apply_field_access_eq [OF v] Let_def split: if_splits)
    then show ?thesis
      using assms assign_pinned [of r ty ?s v k p b t] pinned_set [of r ty ?s v p k] by cases simp_all
  qed
qed

text \<open>The constraints that leave an external type alone.\<close>

fun is_subtype_constraint :: "TypeConstraint \<Rightarrow> bool" where
  "is_subtype_constraint (CSubtype _ _ _) = True"
| "is_subtype_constraint _ = False"

lemma src_priority_lt: "src \<noteq> External \<Longrightarrow> src_priority src < 3"
  by (cases src) auto

lemma apply_pinned:
  assumes s: "solver_ok ks n s" "k \<in> set ks" and P: "pinned r ty (ss_assignments s)" and a: "apply_constraint k s = Some (b, t)"
    and c: "k \<in> set (compact_of rep c)"
      "r \<in> typed_vars k \<Longrightarrow> (\<exists>w. c = CSetType w ty External) \<or> constraint_source c \<noteq> External \<and> \<not> is_subtype_constraint c"
  shows "pinned r ty (ss_assignments t)"
proof (cases "r \<in> typed_vars k")
  case False
  have "marks_moved (typed_vars k) s b t" using apply_constraint_spec [of s k] s a by (auto simp: solver_ok_def)
  then have "ss_assignments t ! r = ss_assignments s ! r" using False by (simp add: marks_moved_def)
  then show ?thesis using P by (simp add: pinned_def)
next
  case True
  from c(2) [OF True] show ?thesis
  proof
    assume "\<exists>w. c = CSetType w ty External"
    then show ?thesis using c(1) a assign_pinned [OF P] by (auto simp: compact_of_def)
  next
    assume e: "constraint_source c \<noteq> External \<and> \<not> is_subtype_constraint c"
    have lt: "src_priority (compact_source k) < 3" using src_priority_lt compact_of_props(4) [OF c(1)] e by metis
    show ?thesis
    proof (cases k)
      case (KSetType v x src)
      then show ?thesis using a assign_pinned [OF P] lt by simp
    next
      case (KSubtype v x src)
      then show ?thesis using c(1) e by (cases c) (auto simp: compact_of_def)
    next
      case (KHasCapability v x src)
      obtain y ar where "arena_ptr x (ss_arena s) = (y, ar)" by (cases "arena_ptr x (ss_arena s)")
      then show ?thesis using KHasCapability a assign_pinned [of r ty "s\<lparr>ss_arena := ar\<rparr>"] P lt by auto
    next
      case (KCallSig f args params ret src)
      then show ?thesis using a assign_list_pinned [OF P] lt by simp
    next
      case (KFieldAccess v off x nm src)
      then show ?thesis using a field_access_pinned [OF P] lt by simp
    qed
  qed
qed

section \<open>Summary\<close>

text \<open>C37. The solver returns. On every list of constraints whose types are types of a well-formed arena,
  and for every cap on the number of waves, solving ends without an index out of range, in
  union-find, joins and meets too; the arena it returns is well formed, holds the types of the given
  one under the same indices, and every type it reports is a type of that arena.
\<close>

theorem type_solve_returns:
  assumes "arena_wf a" "input_ok a cs"
  shows "\<exists>sol. type_solve mx a cs = Some sol \<and> arena_wf (sol_arena sol) \<and> arena_ext a (sol_arena sol) \<and>
    (\<forall>v. valid_id (sol_arena sol) (type_of sol v))"
proof -
  obtain rc rep q sol where S: "solved a cs mx rc rep q sol" using type_solve_spec [OF assms] by blast
  note r = solvedD(2) [OF S] and sol = solvedD(7-9) [OF S] and q = solvedD(4,5) [OF S]
  have so: "state_ok (sq_state q)" "length (ss_assignments (sq_state q)) = length (rc_vars rc)"
    using q(1) by (auto simp: queue_ok_def solver_ok_def)
  have wf: "arena_wf (sol_arena sol)" using state_okD(1) [OF so(1)] sol(2) by simp
  have ext: "arena_ext a (sol_arena sol)"
    using q(2) state_extD(1) [of "sq_state (initial_queue a rc)" "sq_state q"] sol(2) by (simp add: run_def initial_queue_def ss_new_def Let_def)
  have "valid_id (sol_arena sol) (type_of sol v)" for v
  proof (cases "hm_get (sol_var_types sol) v")
    case None
    then show ?thesis using wf sol(2,3) by (simp add: type_of_def)
  next
    case (Some ty)
    then obtain e where e: "v \<in> all_vars cs" "ss_assignments (sq_state q) ! rep v = Some e" "as_ty e = ty"
      using solvedD(11) [OF S, of v] by (auto split: if_splits)
    then show ?thesis
      using state_okD(4) [OF so(1) _ e(2)] so(2) rewrittenD(4) [OF r e(1)] Some sol(2) by (simp add: type_of_def)
  qed
  then show ?thesis using sol(1) wf ext by blast
qed

abbreviation "rax1 \<equiv> SSAVar ''rax'' 1 8"
abbreviation "tmp9 \<equiv> SSAVar ''tmp:9'' 2 8"
abbreviation "rdi0 \<equiv> SSAVar ''rdi'' 0 8"

definition demo_constraints :: "TypeConstraint list" where
  "demo_constraints = [CSetType rax1 4 Inferred, CEqual rax1 tmp9 Inferred, CSetType tmp9 3 External,
     CFieldAccess rdi0 8 3 (Some ''len'') Inferred]"

lemma demo_input_ok: "input_ok two_ints demo_constraints"
  by (simp add: input_ok_def demo_constraints_def)

theorem type_solve_returns_witness:
  "\<exists>sol. type_solve 64 two_ints demo_constraints = Some sol \<and> arena_wf (sol_arena sol) \<and> arena_ext two_ints (sol_arena sol) \<and>
    (\<forall>v. valid_id (sol_arena sol) (type_of sol v))"
  by (rule type_solve_returns [OF two_ints_wf demo_input_ok])

text \<open>C9. Equality constraints are solved by their equivalence closure. The classes that union-find
  builds over the variables of the constraints are exactly its classes: two variables are listed
  together just when equality constraints connect them, directly or through others and in either
  direction. Variables so connected have the same type in the solution, or both have none.\<close>

theorem equal_variables_same_type:
  assumes "arena_wf a" "input_ok a cs"
  shows "\<exists>rc sol. rewrite_equal_constraints cs = Some rc \<and> type_solve mx a cs = Some sol \<and>
    distinct (rc_vars rc) \<and> set (rc_vars rc) = all_vars cs \<and>
    (\<forall>i < length (rc_vars rc). \<forall>j < length (rc_vars rc).
       (\<exists>M \<in> set (rc_class_members rc). i \<in> set M \<and> j \<in> set M) \<longleftrightarrow>
       (rc_vars rc ! i, rc_vars rc ! j) \<in> (equalities cs \<union> (equalities cs)\<inverse>)\<^sup>*) \<and>
    (\<forall>v w. (v, w) \<in> (equalities cs \<union> (equalities cs)\<inverse>)\<^sup>* \<longrightarrow>
       hm_get (sol_var_types sol) v = hm_get (sol_var_types sol) w)"
proof -
  obtain rc rep q sol where S: "solved a cs mx rc rep q sol" using type_solve_spec [OF assms] by blast
  note r = solvedD(2) [OF S]
  have "hm_get (sol_var_types sol) v = hm_get (sol_var_types sol) w"
    if c: "(v, w) \<in> (equalities cs \<union> (equalities cs)\<inverse>)\<^sup>*" for v w
  proof (cases "v = w")
    case False
    then have v: "v \<in> all_vars cs" using c equalities_vars [of cs] by (auto elim: converse_rtranclE)
    have w: "w \<in> all_vars cs" using False c equalities_vars [of cs] by (auto elim: rtranclE)
    have "rep v = rep w" using rewrittenD(5) [OF r v w] c by simp
    then show ?thesis using solvedD(11) [OF S] v w by simp
  qed simp
  then show ?thesis
    using solvedD(1,7) [OF S] rewrittenD(1,2) [OF r] listed_together_iff [OF r]
    by (intro exI [of _ rc] exI [of _ sol]) simp
qed

lemma demo_equal: "(tmp9, rax1) \<in> (equalities demo_constraints \<union> (equalities demo_constraints)\<inverse>)\<^sup>*"
  by (rule r_into_rtrancl) (auto simp: equalities_def demo_constraints_def)

lemma demo_not_equal: "(rdi0, rax1) \<notin> (equalities demo_constraints \<union> (equalities demo_constraints)\<inverse>)\<^sup>*"
proof
  assume "(rdi0, rax1) \<in> (equalities demo_constraints \<union> (equalities demo_constraints)\<inverse>)\<^sup>*"
  then show False by (rule converse_rtranclE) (auto simp: equalities_def demo_constraints_def)
qed

theorem equal_variables_same_type_witness:
  "\<exists>rc sol i j k. rewrite_equal_constraints demo_constraints = Some rc \<and>
     type_solve 1 two_ints demo_constraints = Some sol \<and>
     rc_vars rc ! i = tmp9 \<and> rc_vars rc ! j = rax1 \<and> rc_vars rc ! k = rdi0 \<and>
     (\<exists>M \<in> set (rc_class_members rc). i \<in> set M \<and> j \<in> set M) \<and>
     \<not> (\<exists>M \<in> set (rc_class_members rc). k \<in> set M \<and> j \<in> set M) \<and>
     hm_get (sol_var_types sol) tmp9 = hm_get (sol_var_types sol) rax1"
proof -
  obtain rc sol where R: "rewrite_equal_constraints demo_constraints = Some rc"
    "type_solve 1 two_ints demo_constraints = Some sol" "set (rc_vars rc) = all_vars demo_constraints"
    "\<forall>i < length (rc_vars rc). \<forall>j < length (rc_vars rc).
       (\<exists>M \<in> set (rc_class_members rc). i \<in> set M \<and> j \<in> set M) \<longleftrightarrow>
       (rc_vars rc ! i, rc_vars rc ! j) \<in> (equalities demo_constraints \<union> (equalities demo_constraints)\<inverse>)\<^sup>*"
    "\<forall>v w. (v, w) \<in> (equalities demo_constraints \<union> (equalities demo_constraints)\<inverse>)\<^sup>* \<longrightarrow>
       hm_get (sol_var_types sol) v = hm_get (sol_var_types sol) w"
    using equal_variables_same_type [OF two_ints_wf demo_input_ok, of 1] by blast
  have "{tmp9, rax1, rdi0} \<subseteq> set (rc_vars rc)" unfolding R(3) by (auto simp: all_vars_def demo_constraints_def)
  then obtain i j k where n: "i < length (rc_vars rc)" "rc_vars rc ! i = tmp9" "j < length (rc_vars rc)"
    "rc_vars rc ! j = rax1" "k < length (rc_vars rc)" "rc_vars rc ! k = rdi0"
    by (auto simp: in_set_conv_nth)
  have "\<exists>M \<in> set (rc_class_members rc). i \<in> set M \<and> j \<in> set M"
    using R(4) [rule_format, OF n(1,3)] demo_equal n(2,4) by simp
  moreover have "\<not> (\<exists>M \<in> set (rc_class_members rc). k \<in> set M \<and> j \<in> set M)"
    using R(4) [rule_format, OF n(5,3)] demo_not_equal n(6,4) by simp
  ultimately show ?thesis using R(1,2) R(5) [rule_format, OF demo_equal] n(2,4,6) by blast
qed

text \<open>C36. No constraint is starved: once a single wave is allowed, every variable that some constraint
  gives a type to, and every variable equal to one by constraint, has a type in the solution, however
  the others interleave and even if the cap on waves stops the solver early.
\<close>

theorem constrained_variables_typed:
  assumes "arena_wf a" "input_ok a cs" "0 < mx" "c \<in> set cs" "w \<in> types_var c" "(v, w) \<in> (equalities cs \<union> (equalities cs)\<inverse>)\<^sup>*"
  shows "\<exists>sol ty. type_solve mx a cs = Some sol \<and> hm_get (sol_var_types sol) v = Some ty"
proof -
  obtain rc rep q sol where S: "solved a cs mx rc rep q sol" using type_solve_spec [OF assms(1,2)] by blast
  note r = solvedD(2) [OF S]
  have w: "w \<in> all_vars cs" using assms(4,5) types_var_vars by (auto simp: all_vars_def)
  have v: "v \<in> all_vars cs" using assms(6) w equalities_vars [of cs] by (auto elim: converse_rtranclE)
  have rep: "rep v = rep w" using rewrittenD(5) [OF r v w] assms(6) by simp
  obtain k where k: "k \<in> set (compact_of rep c)" using assms(5) by (cases c) (auto simp: compact_of_def)
  then have "k \<in> set (rc_constraints rc)" "rep w \<in> typed_vars k"
    using rewrittenD(3) [OF r] assms(4,5) compact_of_props(3) [OF k] by auto
  then have "meets_source k (sq_state q) (rep w)" by (rule solvedD(6) [OF S assms(3)])
  then obtain e where "ss_assignments (sq_state q) ! rep w = Some e" by (cases k) (auto simp: prio_at_def)
  then show ?thesis using solvedD(7,11) [OF S] v rep by simp
qed

theorem constrained_variables_typed_witness:
  "\<exists>sol ty. type_solve 1 two_ints demo_constraints = Some sol \<and> hm_get (sol_var_types sol) tmp9 = Some ty"
  by (rule constrained_variables_typed [OF two_ints_wf demo_input_ok _ _ _ demo_equal, of 1 "CSetType rax1 4 Inferred"])
     (simp_all add: demo_constraints_def)

text \<open>C35. An external type wins. If an external constraint sets the type of a variable, and every other
  constraint on its class of equal variables is either the same external type or comes from a weaker
  source and is not a subtype constraint, then the solution gives every variable of the class exactly
  that type.
\<close>

theorem external_type_wins:
  assumes "arena_wf a" "input_ok a cs" "0 < mx" "CSetType w ty External \<in> set cs" "(v, w) \<in> (equalities cs \<union> (equalities cs)\<inverse>)\<^sup>*"
    and others: "\<And>c u. c \<in> set cs \<Longrightarrow> u \<in> types_var c \<Longrightarrow> (u, w) \<in> (equalities cs \<union> (equalities cs)\<inverse>)\<^sup>* \<Longrightarrow>
      c = CSetType u ty External \<or> constraint_source c \<noteq> External \<and> \<not> is_subtype_constraint c"
  shows "\<exists>sol. type_solve mx a cs = Some sol \<and> hm_get (sol_var_types sol) v = Some ty"
proof -
  obtain rc rep q sol where S: "solved a cs mx rc rep q sol" using type_solve_spec [OF assms(1,2)] by blast
  note r = solvedD(2) [OF S]
  have w: "w \<in> all_vars cs" using assms(4) by (force simp: all_vars_def)
  have v: "v \<in> all_vars cs" using assms(5) w equalities_vars [of cs] by (auto elim: converse_rtranclE)
  have rep: "rep v = rep w" using rewrittenD(5) [OF r v w] assms(5) by simp
  have "kept (rc_constraints rc) (length (rc_vars rc)) (pinned (rep w) ty)"
    unfolding kept_def
  proof (intro ballI allI impI)
    fix k s b t
    assume k: "k \<in> set (rc_constraints rc)" and s: "solver_ok (rc_constraints rc) (length (rc_vars rc)) s"
      and P: "pinned (rep w) ty (ss_assignments s)" and ap: "apply_constraint k s = Some (b, t)"
    obtain c where c: "c \<in> set cs" "k \<in> set (compact_of rep c)" using rewritten_member [OF r k] by blast
    show "pinned (rep w) ty (ss_assignments t)"
    proof (rule apply_pinned [OF s k P ap c(2)])
      assume "rep w \<in> typed_vars k"
      then obtain u where u: "u \<in> types_var c" "rep u = rep w" using compact_of_props(3) [OF c(2)] by auto
      have "u \<in> all_vars cs" using u(1) types_var_vars c(1) by (auto simp: all_vars_def)
      then have "(u, w) \<in> sym_closure (equalities cs)" using rewrittenD(5) [OF r _ w] u(2) by simp
      then show "(\<exists>w. c = CSetType w ty External) \<or> constraint_source c \<noteq> External \<and> \<not> is_subtype_constraint c"
        using others [OF c(1) u(1)] by blast
    qed
  qed
  moreover have "pinned (rep w) ty (ss_assignments (sq_state (initial_queue a rc)))"
    using rewrittenD(4) [OF r w] by (simp add: pinned_def initial_queue_def ss_new_def Let_def)
  ultimately have P: "pinned (rep w) ty (ss_assignments (sq_state q))" by (rule run_kept [OF solvedD(5) [OF S]])
  have "KSetType (rep w) ty External \<in> set (rc_constraints rc)"
    unfolding rewrittenD(3) [OF r] using assms(4) by (force simp: compact_of_def)
  then have "prio_at (sq_state q) (rep w) 3" using solvedD(6) [OF S assms(3), of "KSetType (rep w) ty External" "rep w"] by simp
  then have "ss_assignments (sq_state q) ! rep w = Some \<lparr>as_ty = ty, as_priority = 3\<rparr>"
    using P by (auto simp: prio_at_def pinned_def)
  then show ?thesis using solvedD(7,11) [OF S] v rep by simp
qed

theorem external_type_wins_witness:
  "\<exists>sol. type_solve 1 two_ints demo_constraints = Some sol \<and> hm_get (sol_var_types sol) rax1 = Some 3"
proof (rule external_type_wins [OF two_ints_wf demo_input_ok, of 1 tmp9])
  show "(rax1, tmp9) \<in> (equalities demo_constraints \<union> (equalities demo_constraints)\<inverse>)\<^sup>*"
    by (rule r_into_rtrancl) (auto simp: equalities_def demo_constraints_def)
  show "c = CSetType u 3 External \<or> constraint_source c \<noteq> External \<and> \<not> is_subtype_constraint c"
    if "c \<in> set demo_constraints" "u \<in> types_var c" for c u
    using that by (auto simp: demo_constraints_def)
qed (simp_all add: demo_constraints_def)

text \<open>C8. A converged solution is a fixpoint. If the queue ran empty, which is what the diagnostics
  report as converged, then applying any constraint once more to the last state of the solver changes
  nothing in it at all: no assignment, no type, no cache entry.
\<close>

theorem converged_is_fixpoint:
  assumes "arena_wf a" "input_ok a cs"
  shows "\<exists>rc q sol. rewrite_equal_constraints cs = Some rc \<and>
    solve_waves (rc_constraints rc) (build_adjacency (length (rc_vars rc)) (rc_constraints rc)) mx (initial_queue a rc) = Some q \<and>
    type_solve mx a cs = Some sol \<and> sol_arena sol = ss_arena (sq_state q) \<and>
    (sd_converged (sol_diagnostics sol) \<longrightarrow>
      (\<forall>c \<in> set (rc_constraints rc). apply_constraint c (sq_state q) = Some (False, sq_state q)))"
proof -
  obtain rc rep q sol where S: "solved a cs mx rc rep q sol" using type_solve_spec [OF assms] by blast
  have "apply_constraint c (sq_state q) = Some (False, sq_state q)" if e: "sq_queue q = []" and c: "c \<in> set (rc_constraints rc)" for c
  proof -
    obtain i where "i < length (rc_constraints rc)" "rc_constraints rc ! i = c" using c by (auto simp: in_set_conv_nth)
    then show ?thesis using solvedD(4) [OF S] e by (auto simp: queue_ok_def constraint_settled_def)
  qed
  then show ?thesis using solvedD(1,3,7,8,10) [OF S] by blast
qed

theorem converged_is_fixpoint_witness:
  "\<exists>rc q sol. rewrite_equal_constraints demo_constraints = Some rc \<and>
    solve_waves (rc_constraints rc) (build_adjacency (length (rc_vars rc)) (rc_constraints rc)) 64 (initial_queue two_ints rc) = Some q \<and>
    type_solve 64 two_ints demo_constraints = Some sol \<and> sol_arena sol = ss_arena (sq_state q) \<and>
    sd_converged (sol_diagnostics sol) \<and>
    (\<forall>c \<in> set (rc_constraints rc). apply_constraint c (sq_state q) = Some (False, sq_state q))"
proof -
  have "map_option (\<lambda>sol. sd_converged (sol_diagnostics sol)) (type_solve 64 two_ints demo_constraints) = Some True"
    by code_simp
  then show ?thesis using converged_is_fixpoint [OF two_ints_wf demo_input_ok, of 64] by fastforce
qed

section \<open>Subtype constraints against integers\<close>

text \<open>Under a subtype constraint that nothing is left to do for, an integer of known signedness is
  comparable with the bound.\<close>

lemma settled_subtype_comparable:
  assumes ok: "state_ok s" and cs: "caches_sound s"
    and c: "constraint_settled (KSubtype r j src) s" and e: "ss_assignments s ! r = Some e"
    and i: "arena_get (ss_arena s) (as_ty e) = TInt b1 s1" "s1 \<noteq> SignUnknown"
    and j: "valid_id (ss_arena s) j" "arena_get (ss_arena s) j = TInt b2 s2"
  shows "subtype (ss_arena s) (as_ty e) j \<or> subtype (ss_arena s) j (as_ty e)"
proof (rule ccontr)
  assume inc: "\<not> ?thesis"
  have r: "r < length (ss_assignments s)" using c by (auto simp: constraint_settled_def split: if_splits)
  note v = state_okD(4) [OF ok r e]
  obtain z t where z: "meet_cached (as_ty e) j s = Some (z, t)" "state_ok t" "state_ext s t" "valid_id (ss_arena t) z"
      "ss_assignments t = ss_assignments s"
    using meet_cached_spec [OF ok v j(1)] by blast
  have at: "arena_get (ss_arena t) k = arena_get (ss_arena s) k" if "valid_id (ss_arena s) k" for k
    using arena_ext_get [OF state_extD(1) [OF z(3)]] that by (simp add: valid_id_def)
  note m = meet_cached_sound [OF ok cs v j(1) z(1)]
  have tz: "arena_get (ss_arena t) z = TInt (min b1 b2) SignUnknown"
    using m(2) inc int_subtype [OF i(1) j(2)] int_subtype [OF j(2) i(1)] i(1) j(2)
      int_subtype [of "ss_arena t" "as_ty e" b1 s1 j b2 s2] int_subtype [of "ss_arena t" j b2 s2 "as_ty e" b1 s1]
    by (simp add: met_def at [OF v] at [OF j(1)])
  have ne: "as_ty e \<noteq> z" using tz i at [OF v] by auto
  let ?p = "max (src_priority src) (as_priority e)"
  have a: "assign r z ?p t = Some (False, s)"
    using c e r z(1) by (simp add: constraint_settled_def)
  then have p: "?p = as_priority e" using e r z(5) by (auto simp: assign_def max_def split: if_splits)
  have vt: "valid_id (ss_arena t) (as_ty e)" using valid_id_ext [OF state_extD(1) [OF z(3)] v] .
  obtain w u where w: "join_cached (as_ty e) z t = Some (w, u)" "state_ext t u" using join_cached_spec [OF z(2) vt z(4)] by blast
  then have "w = as_ty e" using a e r z(5) p ne by (auto simp: assign_def split: if_splits)
  moreover have "joined (ss_arena u) (as_ty e) z w" by (rule join_cached_sound(2) [OF z(2) m(1) vt z(4) w(1)])
  moreover have "arena_get (ss_arena u) (as_ty e) = TInt b1 s1" "arena_get (ss_arena u) z = TInt (min b1 b2) SignUnknown"
    using arena_ext_get [OF state_extD(1) [OF w(2)]] vt z(4) tz i(1) at [OF v] by (simp_all add: valid_id_def)
  ultimately show False using i(2) by (auto simp: joined_def merge_signs_def)
qed

lemma solved_caches_sound:
  assumes "arena_wf a" "input_ok a cs" "solved a cs mx rc rep q sol"
  shows "caches_sound (sq_state q)"
proof (rule solve_waves_sound [OF initial_solver_ok [OF assms(1,2) solvedD(2) [OF assms(3)]] _ solvedD(3) [OF assms(3)]])
  show "caches_sound (sq_state (initial_queue a rc))"
    by (simp add: caches_sound_def initial_queue_def ss_new_def Let_def hm_get_def)
qed

text \<open>C40. A subtype constraint of any source, the weakest included, overrides the integer type of a
  variable, an external one included: in a converged solution the variable has a type, and not an
  integer type of known signedness that is incomparable with the integer bound of a subtype
  constraint on its class, whatever the other constraints are. The meet of the two is not a lower
  bound; it is assigned with the priority of the type it replaces and joined with that type, which
  loses its signedness.
\<close>

theorem subtype_overrides_external:
  assumes "arena_wf a" "input_ok a cs" "0 < mx"
    and "CSubtype u j src \<in> set cs" "(v, u) \<in> (equalities cs \<union> (equalities cs)\<inverse>)\<^sup>*"
    and "valid_id a i" "arena_get a i = TInt b1 s1" "s1 \<noteq> SignUnknown" "arena_get a j = TInt b2 s2"
    and "\<not> subtype a i j" "\<not> subtype a j i"
  shows "\<exists>sol ty. type_solve mx a cs = Some sol \<and> hm_get (sol_var_types sol) v = Some ty \<and>
    (sd_converged (sol_diagnostics sol) \<longrightarrow> ty \<noteq> i)"
proof -
  obtain rc rep q sol where S: "solved a cs mx rc rep q sol" using type_solve_spec [OF assms(1,2)] by blast
  note r = solvedD(2) [OF S]
  let ?s = "sq_state q" and ?k = "KSubtype (rep u) j src"
  have u: "u \<in> all_vars cs" using assms(4) by (force simp: all_vars_def)
  have v: "v \<in> all_vars cs" using assms(5) u equalities_vars [of cs] by (auto elim: converse_rtranclE)
  have rep: "rep v = rep u" using rewrittenD(5) [OF r v u] assms(5) by simp
  have k: "?k \<in> set (rc_constraints rc)" unfolding rewrittenD(3) [OF r] using assms(4) by (force simp: compact_of_def)
  have "meets_source ?k ?s (rep u)" by (rule solvedD(6) [OF S assms(3) k]) simp
  then obtain e where e: "ss_assignments ?s ! rep u = Some e" by (auto simp: prio_at_def)
  have ok: "state_ok ?s" using solvedD(4) [OF S] by (simp add: queue_ok_def solver_ok_def)
  have ext: "arena_ext a (ss_arena ?s)"
    using solvedD(5) [OF S] state_extD(1) [of "sq_state (initial_queue a rc)" ?s]
    by (simp add: run_def initial_queue_def ss_new_def Let_def)
  have vj: "valid_id a j" using assms(2,4) by (force simp: input_ok_def)
  have get: "arena_get (ss_arena ?s) i = TInt b1 s1" "arena_get (ss_arena ?s) j = TInt b2 s2"
    using arena_ext_get [OF ext] assms(6,7,9) vj by (simp_all add: valid_id_def)
  have "as_ty e \<noteq> i" if "sq_queue q = []"
  proof
    assume i: "as_ty e = i"
    obtain m where "m < length (rc_constraints rc)" "rc_constraints rc ! m = ?k" using k by (auto simp: in_set_conv_nth)
    then have "constraint_settled ?k ?s" using solvedD(4) [OF S] that by (auto simp: queue_ok_def)
    from settled_subtype_comparable [OF ok solved_caches_sound [OF assms(1,2) S] this e _ assms(8) valid_id_ext [OF ext vj] get(2)]
    have "subtype (ss_arena ?s) i j \<or> subtype (ss_arena ?s) j i" using get(1) i by simp
    then show False
      using assms(10,11) int_subtype [OF get] int_subtype [OF get(2,1)] int_subtype [OF assms(7,9)] int_subtype [OF assms(9,7)] by blast
  qed
  then show ?thesis using solvedD(7,10,11) [OF S] v rep e by (intro exI [of _ sol] exI [of _ "as_ty e"]) simp
qed

theorem subtype_overrides_external_witness:
  "\<exists>sol ty. type_solve 64 two_ints [CSetType rax1 3 External, CSubtype rax1 4 Inferred] = Some sol \<and>
     hm_get (sol_var_types sol) rax1 = Some ty \<and> ty \<noteq> 3 \<and> arena_get (sol_arena sol) ty = TInt 32 SignUnknown"
proof -
  let ?cs = "[CSetType rax1 3 External, CSubtype rax1 4 Inferred]"
  have ok: "input_ok two_ints ?cs" by (simp add: input_ok_def)
  have inc: "\<not> subtype two_ints 3 4" "\<not> subtype two_ints 4 3"
    using int_subtype [OF two_ints_get] int_subtype [OF two_ints_get(2,1)] by auto
  obtain sol ty where sol: "type_solve 64 two_ints ?cs = Some sol" "hm_get (sol_var_types sol) rax1 = Some ty"
    "sd_converged (sol_diagnostics sol) \<longrightarrow> ty \<noteq> 3"
    using subtype_overrides_external [OF two_ints_wf ok, of 64 rax1 4 Inferred rax1 3 32 Signed 64 Unsigned] inc by auto
  have "map_option (\<lambda>sol. (sd_converged (sol_diagnostics sol), arena_get (sol_arena sol) (type_of sol rax1)))
      (type_solve 64 two_ints ?cs) = Some (True, TInt 32 SignUnknown)" by code_simp
  then show ?thesis using sol by (simp add: type_of_def)
qed

end
