(* ===== verification/Spec2Isabelle.thy ===== *)
theory Spec2Isabelle
  imports R2IL_Wellformed R2IL_Serialize SSA_Block SSA_Function_Props SSA_Copy_Props SSA_Cse_Props SSA_Taint_Props SSA_Defuse_Props SSA_Alias_Props Types_Solve_Props
begin

text \<open>
\<^bold>\<open>r2sleigh: the intermediate language, its SSA form and type inference.\<close>

  r2sleigh lifts machine code through Ghidra's p-code to a typed intermediate language (crate
  \<open>r2il\<close>), builds functions in SSA form from the lifted blocks (crate \<open>r2ssa\<close>) and runs analyses on
  them. This library models the two crates the rest of the program rests on: what a lifted block and an
  architecture are, which of them the validator accepts and how architectures are stored; the way
  from lifted blocks to SSA form (control flow graph, dominator tree, phi placement, renaming, the
  assembled function with its queries), the optimizer, taint analysis and backward slices that work
  on it; and the core of type inference (crate \<open>r2types\<close>): the arena and the order of types and the
  constraint solver.

  \<^bold>\<open>The language, crates/r2il.\<close>
  \<^item> \<open>R2_Prelude\<close>: machine integers, strings (digits, prefixes, parsing), results as sums and
    \<open>HashMap\<close> as an association list with the laws of a map, shared by everything below.
  \<^item> \<open>R2IL_Types\<close> (\<open>space.rs\<close>, \<open>endianness.rs\<close>, \<open>memory.rs\<close>, \<open>metadata.rs\<close>, \<open>varnode.rs\<close>,
    \<open>regname.rs\<close>), \<open>R2IL_Op\<close> and \<open>R2IL_Block\<close> (\<open>opcode.rs\<close>): one record or datatype per struct or
    enum, one definition per method.
  \<^item> \<open>R2IL_Arch\<close> and \<open>R2IL_Serialize\<close> (\<open>serialize.rs\<close>): the architecture builder and the file format.
    The byte codecs are third-party crates and a parameter; what is proved is the round trip, the
    treatment of old versions and that the legacy endianness flag is kept in step.
  \<^item> \<open>R2IL_Validate\<close> (\<open>validate.rs\<close>): every check with its message; \<open>R2IL_Wellformed\<close>: the declarative
    meaning of the checks, and that the validator accepts exactly the well-formed blocks and
    architectures.

  \<^bold>\<open>SSA construction, crates/r2ssa.\<close>
  \<^item> \<open>SSA_Var\<close> (\<open>var.rs\<close>, \<open>naming.rs\<close>): variables, their order and the register name map with its two
    caches. \<open>SSA_Op\<close> (\<open>op.rs\<close>): operations, destinations and sources.
  \<^item> \<open>SSA_Cfg\<close>, \<open>SSA_Cfg_Build\<close> (\<open>cfg.rs\<close>): the control flow graph over petgraph, which is a parameter
    with the laws its documentation gives (\<open>petgraph_ok\<close>) and a list instance that satisfies them;
    construction, queries, removal and reverse postorder.
  \<^item> \<open>Dominance\<close>: paths and dominators of an abstract graph, as a locale. \<open>SSA_Domtree\<close>
    (\<open>domtree.rs\<close>): the computation; \<open>SSA_Dom_Correct\<close>, \<open>SSA_Dom_Tree\<close>, \<open>SSA_Dom_Props\<close>: it terminates
    and agrees with the paths of the graph, frontiers included.
  \<^item> \<open>SSA_Block\<close> (\<open>block.rs\<close>): conversion of one block. \<open>SSA_Phi\<close> (\<open>phi.rs\<close>): phi placement.
    \<open>SSA_Rename\<close> (\<open>rename.rs\<close>): the renaming walk; \<open>SSA_Rename_Ctx\<close>, \<open>SSA_Rename_Block\<close>,
    \<open>SSA_Rename_Tree\<close>, \<open>SSA_Rename_Props\<close>: single assignment, every use reads a definition that
    dominates it, what every phi slot holds, the walk returns.
  \<^item> \<open>SSA_Function\<close>, \<open>SSA_Function_Props\<close> (\<open>function.rs\<close>): raw construction of a function from blocks,
    its visitors, the lazily built query index and the mutations that invalidate it.
  \<^item> \<open>SSA_Fold\<close>, \<open>SSA_Fold_Props\<close> (\<open>optimize.rs\<close>): folding and local rewriting of one operation against
    a reference semantics of p-code, and what the code computes for the five operations that deviate
    from it: signed comparisons, bit counts and the truncation of floats.
  \<^item> \<open>SSA_Sccp\<close> (\<open>optimize.rs\<close>): sparse conditional constant propagation with its three nested worklist
    loops. \<open>SSA_Sccp_Inv\<close> states what a settled phi, operation or branch is, as a locale of
    data-flow sites, \<open>SSA_Sccp_Steps\<close> that every step keeps the invariant and makes progress, and
    \<open>SSA_Sccp_Props\<close> defines the runs of a function and shows that the analysis returns and is sound
    for them.
  \<^item> \<open>SSA_Optimize\<close> (\<open>optimize.rs\<close>): the passes over whole functions and the pipeline.
    \<open>SSA_Optimize_Props\<close>: passes as edits block by block, and that replacing constants keeps runs;
    \<open>SSA_Dce_Props\<close>: dead code elimination; \<open>SSA_Cse_Props\<close>: common subexpressions, with
    floating point as a parameter of the semantics; \<open>SSA_Copy_Props\<close>: copies.

  \<^item> \<open>SSA_Taint\<close>, \<open>SSA_Taint_Props\<close> (\<open>taint.rs\<close>): labels, the policy, the propagation worklist and sinks;
    the worklist returns and finds exactly the labels that flow from the sources. The laws of a policy
    that keeps to the default propagation are a locale, interpreted on the default policy.
  \<^item> \<open>SSA_Defuse\<close>, \<open>SSA_Defuse_Props\<close>, \<open>SSA_Alias_Props\<close> (\<open>defuse.rs\<close>): definition-use chains of a
    block, backward slices, which are the closure under direct dependence where display names tell
    variables apart, and the alias check.

  \<^bold>\<open>Type inference, crates/r2types.\<close>
  \<^item> \<open>Types_Arena\<close> (\<open>model.rs\<close>, \<open>convert.rs\<close>, \<open>signature.rs\<close>): types by index in an arena, C types and
    signatures. \<open>Types_Arena_Props\<close>: interning as a locale, interpreted on the arena here and on the
    numbering of variables in \<open>Types_Rewrite\<close>; types refer to older types only.
  \<^item> \<open>Types_Lattice\<close> (\<open>lattice.rs\<close>): subtyping, join and meet. \<open>Types_Lattice_Props\<close>: subtyping decides a
    preorder, join and meet return; \<open>Types_Join\<close>: where join is the least upper bound, and where meet
    is a lower bound.
  \<^item> \<open>Types_Solver\<close> (\<open>constraint.rs\<close>, \<open>solver.rs\<close>, \<open>oracle.rs\<close>): the solver from the list of constraints
    to the map of types, and the oracle over it. \<open>Types_Dsu\<close>: the union-find; \<open>Types_Rewrite\<close>: its
    classes are those of the equality constraints, and constraints are rewritten to representatives;
    \<open>Types_Apply\<close>: one application of a constraint, and when it stays without effect; \<open>Types_Queue\<close>: the
    invariant of the queue; \<open>Types_Cache\<close>: what the caches of joins and meets hold for integers;
    \<open>Types_Solve_Props\<close>: what solutions promise.

  \<^bold>\<open>Conventions.\<close> Rust integers keep their width as words; a release build is modelled, so arithmetic
  wraps and a shift count is taken modulo the width. A panic and a loop that does not return are
  \<open>None\<close> of an option around the result. Loops over worklists are partial functions into \<open>option\<close>
  without fuel; the theorems about them state that they return, the outer rounds of the optimizer and
  its removal of unreachable blocks apart, for which no such theorem is given. The recursions over
  types and over the parents of the union-find take fuel: more than the square of the number of types,
  since a deeper recursion repeats a pair, and the number of variables, since a longer chain of parents
  repeats one; both are shown to be enough. The iteration order of a \<open>HashMap\<close> is the
  order of the association list; theorems hold for every order. Definitions written against the code
  come first in a theory, predicates and lemmas after them; the remarks next to the theorems say
  where the code deviates from its documentation.

  \<^bold>\<open>Not modelled.\<close> Formatting of operations and the serde attributes; of \<open>function.rs\<close> the
  preparation for the decompiler and switch recovery; interprocedural summaries and semantic facts,
  which are built on that preparation; of \<open>r2types\<close> the collection of constraints from functions, the
  parsing of radare2 output and the policy for writing types back.
  The other crates are left out: \<open>r2sleigh-lift\<close> translates objects of libsla, \<open>r2sym\<close> builds terms of
  z3, \<open>r2dec\<close> and the plugin are heuristics and glue around radare2.
\<close>

end
